(* ===== verification/Prelude.thy ===== *)
theory Prelude
  imports Main "HOL-Library.Word"
begin

text \<open>
  Shared vocabulary of the development.

  \<^item> Machine integers: \<open>ap_uint<N>\<close> of the HLS sources and the fixed width integers of the
    host software are \<open>N word\<close>.
  \<^item> \<open>hls::stream<T>\<close> is a list, oldest element first. Reading is taking the head, writing is
    appending at the end. As in the C simulation of the streams a write always succeeds;
    where the code asks \<open>full()\<close> the answer is an input of the step.
  \<^item> A \<open>static T table[N]\<close> is a total function on the index type of the accesses. Nothing is
    clipped: that the indices stay below \<open>N\<close> is a statement of its own.
  \<^item> Host code that calls the operating system records every call in a trace. What the call
    answers is a function of the calls made before (\<open>os\<close>), so that every behaviour of the
    kernel is covered.
\<close>

unbundle bit_operations_syntax

subsection \<open>Names for the machine types\<close>

type_synonym u1 = "1 word"
type_synonym u3 = "3 word"
type_synonym u4 = "4 word"
type_synonym u8 = "8 word"
type_synonym u16 = "16 word"
type_synonym u24 = "24 word"
type_synonym u32 = "32 word"
type_synonym u64 = "64 word"

type_synonym 'a stream = "'a list"

named_theorems model_defs
  \<open>defining equations of the operations of a component\<close>

named_theorems inv_defs
  \<open>definitions of the invariants\<close>

subsection \<open>Bit fields\<close>

text \<open>A field of \<open>w\<close> bits at offset \<open>o\<close>, as the masks and shifts of the C code read it.\<close>

definition field :: "nat \<Rightarrow> nat \<Rightarrow> 'a::len word \<Rightarrow> 'a word" where
  "field offs w x = take_bit w (drop_bit offs x)"

lemma bit_field [simp]:
  "bit (field offs w x) n \<longleftrightarrow> n < w \<and> bit (x :: 'a::len word) (offs + n)"
  by (auto simp: field_def bit_take_bit_iff bit_drop_bit_eq)

lemma field_or [simp]: "field offs w (x OR y) = field offs w x OR field offs w (y :: 'a::len word)"
  by (simp add: field_def)

lemma bit_mask_and:
  "bit (x AND mask w) n \<longleftrightarrow> bit (x :: 'a::len word) n \<and> n < w"
  by (auto simp: bit_and_iff bit_mask_iff dest: bit_imp_le_length)

lemma of_nat_word_eq_iff:
  "i < 2 ^ LENGTH('a) \<Longrightarrow> j < 2 ^ LENGTH('a) \<Longrightarrow> (of_nat i :: 'a::len word) = of_nat j \<longleftrightarrow> i = j"
  by (simp add: word_of_nat_eq_iff take_bit_nat_eq_self)

lemma unat_Suc_below:
  assumes "unat (x :: 'a::len word) < unat (m :: 'a word)"
  shows "unat (x + 1) = unat x + 1"
proof -
  have "unat x + 1 < 2 ^ LENGTH('a)" using assms unsigned_less [of m, where ?'a = nat] by linarith
  then show ?thesis by (simp add: unat_word_ariths)
qed

lemma unat_of_nat_below: "i \<le> unat (m :: 'a::len word) \<Longrightarrow> unat (of_nat i :: 'a word) = i"
  by (metis mod_less order_le_less_trans unat_of_nat unsigned_less)

lemma of_nat_eq_below: "i < unat (m :: 'a::len word) \<Longrightarrow> of_nat i = x \<longleftrightarrow> i = unat (x :: 'a word)"
  using unat_of_nat_below [of i m] by auto

subsection \<open>Deterministic step systems\<close>

text \<open>
  The contract between a component and its invariant: the invariant holds when the statics have
  their initial values and every call of the component keeps it. Then it holds after any number
  of calls, whatever the environment puts into the input streams before each call.
\<close>

fun run_inputs :: "('i \<Rightarrow> 's \<Rightarrow> 's) \<Rightarrow> 'i list \<Rightarrow> 's \<Rightarrow> 's" where
  "run_inputs step [] s = s"
| "run_inputs step (i # is) s = run_inputs step is (step i s)"

lemma run_inputs_append [simp]:
  "run_inputs step (is @ js) s = run_inputs step js (run_inputs step is s)"
  by (induction "is" arbitrary: s) auto

locale step_invariant =
  fixes init :: 's
    and step :: "'i \<Rightarrow> 's \<Rightarrow> 's"
    and inv :: "'s \<Rightarrow> bool"
  assumes inv_init: "inv init"
    and inv_step: "inv s \<Longrightarrow> inv (step i s)"
begin

lemma inv_run_from: "inv s \<Longrightarrow> inv (run_inputs step is s)"
  by (induction "is" arbitrary: s) (auto simp: inv_step)

lemma inv_run: "inv (run_inputs step is init)"
  by (rule inv_run_from [OF inv_init])

lemma inv_prefix: "inv (run_inputs step (take k is) init)"
  by (rule inv_run)

end

subsection \<open>Pools of identifiers\<close>

text \<open>
  Several components hand out identifiers (queue pair ids, TCP session ids, slots of a linked
  list memory) from a list of free ones. The contract: an id that is taken was free, an id that
  is given back while it is not free becomes free, nothing else changes.
\<close>

datatype 'id pool_op = Take | Give 'id

text \<open>A client that takes ids and gives back only ids it holds.\<close>

fun pool_client ::
  "('s \<Rightarrow> 'id list) \<Rightarrow> ('s \<Rightarrow> 'id \<times> 's) \<Rightarrow> ('id \<Rightarrow> 's \<Rightarrow> 's) \<Rightarrow> 'id pool_op \<Rightarrow> 's \<times> 'id list \<Rightarrow> 's \<times> 'id list"
where
  "pool_client frees tk gv Take (s, used) =
     (if frees s = [] then (s, used) else (case tk s of (i, s') \<Rightarrow> (s', i # used)))"
| "pool_client frees tk gv (Give i) (s, used) =
     (if i \<in> set used then (gv i s, remove1 i used) else (s, used))"

locale id_pool =
  fixes ids :: "'id set"
    and frees :: "'s \<Rightarrow> 'id list"
    and pinv :: "'s \<Rightarrow> bool"
    and tk :: "'s \<Rightarrow> 'id \<times> 's"
    and gv :: "'id \<Rightarrow> 's \<Rightarrow> 's"
  assumes frees_distinct: "pinv s \<Longrightarrow> distinct (frees s)"
    and frees_ids: "pinv s \<Longrightarrow> set (frees s) \<subseteq> ids"
    and tk_spec: "pinv s \<Longrightarrow> frees s \<noteq> [] \<Longrightarrow> tk s = (i, s') \<Longrightarrow>
      pinv s' \<and> i \<in> set (frees s) \<and> set (frees s') = set (frees s) - {i}"
    and gv_spec: "pinv s \<Longrightarrow> i \<in> ids \<Longrightarrow> i \<notin> set (frees s) \<Longrightarrow>
      pinv (gv i s) \<and> set (frees (gv i s)) = insert i (set (frees s))"
begin

text \<open>Free and used ids partition the universe, and no id is used twice.\<close>

definition balanced :: "'s \<times> 'id list \<Rightarrow> bool" where
  "balanced c \<longleftrightarrow> pinv (fst c) \<and> distinct (snd c) \<and> set (snd c) \<inter> set (frees (fst c)) = {}
     \<and> set (snd c) \<union> set (frees (fst c)) = ids"

lemma balanced_step:
  assumes "balanced c"
  shows "balanced (pool_client frees tk gv op c)"
proof (cases c)
  case (Pair s used)
  note c = assms [unfolded Pair balanced_def fst_conv snd_conv]
  show ?thesis
  proof (cases op)
    case Take
    show ?thesis
    proof (cases "frees s = []")
      case True
      then show ?thesis using assms Pair Take by simp
    next
      case False
      obtain i s' where t: "tk s = (i, s')" by fastforce
      from tk_spec [OF _ False t] c show ?thesis
        by (auto simp: Pair Take t False balanced_def)
    qed
  next
    case (Give i)
    show ?thesis
    proof (cases "i \<in> set used")
      case True
      with c have "i \<in> ids" "i \<notin> set (frees s)" by auto
      with gv_spec [of s i] c True show ?thesis
        by (auto simp: Pair Give balanced_def set_remove1_eq)
    next
      case False
      then show ?thesis using assms Pair Give by simp
    qed
  qed
qed

lemma balanced_run:
  "balanced c \<Longrightarrow> balanced (run_inputs (pool_client frees tk gv) ops c)"
  by (induction ops arbitrary: c) (auto simp: balanced_step)

lemma never_hands_out_used:
  assumes "balanced (s, used)" "frees s \<noteq> []" "tk s = (i, s')"
  shows "i \<notin> set used"
  using tk_spec [OF _ assms(2,3)] assms(1) by (auto simp: balanced_def)

end

subsection \<open>Sweeps\<close>

text \<open>
  The timers keep one slot per session and look at one slot per idle call, going round. The
  contract: an idle call updates the slot at the position and moves the position on. Then every
  slot is updated exactly once in every round.
\<close>

locale sweep =
  fixes N :: nat
    and pos :: "'s \<Rightarrow> nat"
    and tick :: "'s \<Rightarrow> 's"
    and slot :: "'s \<Rightarrow> nat \<Rightarrow> 'e"
    and upd :: "nat \<Rightarrow> 'e \<Rightarrow> 'e"
    and idle :: "'s \<Rightarrow> bool"
  assumes idle_tick: "idle s \<Longrightarrow> idle (tick s)"
    and pos_less: "idle s \<Longrightarrow> pos s < N"
    and pos_tick: "idle s \<Longrightarrow> pos (tick s) = (if pos s + 1 = N then 0 else pos s + 1)"
    and slot_tick: "idle s \<Longrightarrow> i < N \<Longrightarrow> slot (tick s) i = (if i = pos s then upd i (slot s i) else slot s i)"
begin

lemma idle_ticks: "idle s \<Longrightarrow> idle ((tick ^^ k) s)"
  by (induction k) (auto simp: idle_tick)

lemma pos_ticks: "idle s \<Longrightarrow> pos ((tick ^^ k) s) = (pos s + k) mod N"
proof (induction k)
  case 0
  then show ?case using pos_less by simp
next
  case (Suc k)
  have "pos ((tick ^^ Suc k) s) = (if (pos s + k) mod N + 1 = N then 0 else (pos s + k) mod N + 1)"
    using Suc pos_tick [OF idle_ticks [OF Suc.prems]] by simp
  also have "\<dots> = (pos s + Suc k) mod N" using pos_less [OF Suc.prems] by (simp add: mod_Suc)
  finally show ?case .
qed

lemma slot_ticks:
  assumes "idle s" "i < N" "k \<le> N"
  shows "slot ((tick ^^ k) s) i = (if \<exists>j < k. (pos s + j) mod N = i then upd i (slot s i) else slot s i)"
  using assms(3)
proof (induction k)
  case (Suc k)
  have here: "slot ((tick ^^ Suc k) s) i
      = (if i = (pos s + k) mod N then upd i (slot ((tick ^^ k) s) i) else slot ((tick ^^ k) s) i)"
    using slot_tick [OF idle_ticks [OF assms(1)] assms(2), of k] pos_ticks [OF assms(1)] by simp
  have once: "(pos s + j) mod N \<noteq> (pos s + k) mod N" if "j < k" for j
  proof
    assume "(pos s + j) mod N = (pos s + k) mod N"
    then have "N dvd (pos s + k) - (pos s + j)" using that by (metis add_le_cancel_left mod_eq_dvd_iff_nat less_imp_le)
    then show False using that Suc.prems by (auto dest: dvd_imp_le)
  qed
  show ?case
    using Suc here once by (auto simp: less_Suc_eq)
qed simp

text \<open>One round.\<close>

lemma slot_round:
  assumes "idle s" "i < N"
  shows "slot ((tick ^^ N) s) i = upd i (slot s i)"
proof -
  have "\<exists>j < N. (pos s + j) mod N = i"
  proof (cases "pos s \<le> i")
    case True
    then show ?thesis using assms(2) by (intro exI [of _ "i - pos s"]) auto
  next
    case False
    then show ?thesis
      using assms(2) pos_less [OF assms(1)] by (intro exI [of _ "N - pos s + i"]) (auto simp: mod_if)
  qed
  then show ?thesis using slot_ticks [OF assms order.refl] by simp
qed

lemma slot_rounds:
  "idle s \<Longrightarrow> i < N \<Longrightarrow> slot ((tick ^^ (k * N)) s) i = (upd i ^^ k) (slot s i)"
proof (induction k)
  case (Suc k)
  have "(tick ^^ (Suc k * N)) s = (tick ^^ N) ((tick ^^ (k * N)) s)"
    by (simp add: funpow_add)
  then show ?case using Suc slot_round [OF idle_ticks, of s i "k * N"] by simp
qed simp

end

subsection \<open>Lists\<close>

lemma sum_list_update_nat:
  "i < length xs \<Longrightarrow> sum_list (xs[i := v]) + xs ! i = sum_list xs + (v :: nat)"
proof (induction xs arbitrary: i)
  case Nil
  then show ?case by simp
next
  case (Cons x xs)
  then show ?case
    by (cases i) (auto simp: add.commute add.left_commute)
qed

lemma distinct_snoc [simp]: "distinct (xs @ [x]) \<longleftrightarrow> distinct xs \<and> x \<notin> set xs"
  by auto

end
