(* ===== verification/Coyote_Defs.thy ===== *)
theory Coyote_Defs
  imports Prelude
begin

text \<open>
  The shared definitions of the host runtime (\<^verbatim>\<open>sw/include/cDefs.hpp\<close>): enumerations and register
  numbers, the structs of a data transfer, the board configuration word, and the model of the
  operating system the runtime is written against (\<open>ioctl\<close>, \<open>mmap\<close>, \<open>munmap\<close>, \<open>memalign\<close>,
  the named mutexes and the memory mapped registers).
\<close>

subsection \<open>Enumerations\<close>

datatype CoyoteOper = NOOP | READ | WRITE | TRANSFER | OFFLOAD | SYNC

datatype CoyoteAlloc = REG_4K | HUGE_2M | HOST_2M | RCNFG_2M

datatype IODevs =
    HOST_MEM | FPGA_DRAM
  | RDMA_0_HOST_SEND | RDMA_0_HOST_RECEIVE | RDMA_0_CARD_SEND | RDMA_0_CARD_RECEIVE
  | RDMA_1_HOST_SEND | RDMA_1_HOST_RECEIVE | RDMA_1_CARD_SEND | RDMA_1_CARD_RECEIVE
  | ERROR_DEV

text \<open>The underlying value of the enum, \<open>static_cast<uint8_t>(io_dev)\<close>.\<close>

fun iodev_code :: "IODevs \<Rightarrow> u8" where
  "iodev_code HOST_MEM = 0x01"
| "iodev_code FPGA_DRAM = 0x02"
| "iodev_code RDMA_0_HOST_SEND = 0b00000101"
| "iodev_code RDMA_0_HOST_RECEIVE = 0b00001001"
| "iodev_code RDMA_0_CARD_SEND = 0b00000110"
| "iodev_code RDMA_0_CARD_RECEIVE = 0b00001010"
| "iodev_code RDMA_1_HOST_SEND = 0b00010001"
| "iodev_code RDMA_1_HOST_RECEIVE = 0b00100001"
| "iodev_code RDMA_1_CARD_SEND = 0b00010010"
| "iodev_code RDMA_1_CARD_RECEIVE = 0b00100010"
| "iodev_code ERROR_DEV = 0b11111111"

datatype (plugins only: size) CnfgAvxRegs =
    AVX_CTRL_REG | AVX_PF_REG | AVX_DATAPATH_REG_SET | AVX_DATAPATH_REG_CLR | AVX_STAT_REG
  | AVX_WBACK_REG | AVX_RDMA_POST_REG | AVX_RDMA_POST_REG_0 | AVX_RDMA_POST_REG_1
  | AVX_RDMA_STAT_REG | AVX_RDMA_CMPLT_REG | AVX_CNTX_STAT_REG | AVX_REQ_COUNT_REG
  | AVX_TIME_STAT_REG | AVX_IO_SWITCH_REG | AVX_PRIO_STAT_REG | AVX_STAT_DMA_REG

fun avx_reg :: "CnfgAvxRegs \<Rightarrow> u32" where
  "avx_reg AVX_CTRL_REG = 0"
| "avx_reg AVX_PF_REG = 1"
| "avx_reg AVX_DATAPATH_REG_SET = 2"
| "avx_reg AVX_DATAPATH_REG_CLR = 3"
| "avx_reg AVX_STAT_REG = 4"
| "avx_reg AVX_WBACK_REG = 5"
| "avx_reg AVX_RDMA_POST_REG = 16"
| "avx_reg AVX_RDMA_POST_REG_0 = 17"
| "avx_reg AVX_RDMA_POST_REG_1 = 18"
| "avx_reg AVX_RDMA_STAT_REG = 19"
| "avx_reg AVX_RDMA_CMPLT_REG = 20"
| "avx_reg AVX_CNTX_STAT_REG = 50"
| "avx_reg AVX_REQ_COUNT_REG = 51"
| "avx_reg AVX_TIME_STAT_REG = 52"
| "avx_reg AVX_IO_SWITCH_REG = 53"
| "avx_reg AVX_PRIO_STAT_REG = 54"
| "avx_reg AVX_STAT_DMA_REG = 64"

datatype (plugins only: size) CnfgLegRegs =
    LEG_CTRL_REG | LEG_VADDR_RD_REG | LEG_LEN_RD_REG | LEG_VADDR_WR_REG | LEG_LEN_WR_REG
  | LEG_VADDR_MISS_REG | LEG_PID_LEN_MISS_REG | LEG_DATAPATH_REG_SET | LEG_DATAPATH_REG_CLR
  | LEG_STAT_CMD_USED_RD_REG | LEG_STAT_CMD_USED_WR_REG | LEG_STAT_SENT_HOST_RD_REG
  | LEG_STAT_SENT_HOST_WR_REG | LEG_STAT_SENT_CARD_RD_REG | LEG_STAT_SENT_CARD_WR_REG
  | LEG_STAT_SENT_SYNC_RD_REG | LEG_STAT_SENT_SYNC_WR_REG | LEG_STAT_PFAULTS_REG
  | LEG_WBACK_REG_0 | LEG_WBACK_REG_1 | LEG_WBACK_REG_2 | LEG_WBACK_REG_3
  | LEG_RDMA_POST_REG | LEG_RDMA_POST_REG_0 | LEG_RDMA_POST_REG_1 | LEG_RDMA_POST_REG_2
  | LEG_RDMA_POST_REG_3 | LEG_RDMA_POST_REG_4 | LEG_RDMA_POST_REG_5 | LEG_RDMA_POST_REG_6
  | LEG_RDMA_POST_REG_7 | LEG_RDMA_STAT_CMD_USED_REG | LEG_RDMA_STAT_POSTED_REG
  | LEG_RDMA_CMPLT_REG | LEG_CNTX_STAT_REG | LEG_REQ_COUNT_REG | LEG_TIME_STAT_REG
  | LEG_PRIO_STAT_REG | LEG_STAT_DMA_REG | LEG_IO_SWITCH_REG | LEG_STAT_RDMA_REG

fun leg_reg :: "CnfgLegRegs \<Rightarrow> u32" where
  "leg_reg LEG_CTRL_REG = 0"
| "leg_reg LEG_VADDR_RD_REG = 1"
| "leg_reg LEG_LEN_RD_REG = 2"
| "leg_reg LEG_VADDR_WR_REG = 3"
| "leg_reg LEG_LEN_WR_REG = 4"
| "leg_reg LEG_VADDR_MISS_REG = 5"
| "leg_reg LEG_PID_LEN_MISS_REG = 6"
| "leg_reg LEG_DATAPATH_REG_SET = 7"
| "leg_reg LEG_DATAPATH_REG_CLR = 8"
| "leg_reg LEG_STAT_CMD_USED_RD_REG = 9"
| "leg_reg LEG_STAT_CMD_USED_WR_REG = 10"
| "leg_reg LEG_STAT_SENT_HOST_RD_REG = 11"
| "leg_reg LEG_STAT_SENT_HOST_WR_REG = 12"
| "leg_reg LEG_STAT_SENT_CARD_RD_REG = 13"
| "leg_reg LEG_STAT_SENT_CARD_WR_REG = 14"
| "leg_reg LEG_STAT_SENT_SYNC_RD_REG = 15"
| "leg_reg LEG_STAT_SENT_SYNC_WR_REG = 16"
| "leg_reg LEG_STAT_PFAULTS_REG = 17"
| "leg_reg LEG_WBACK_REG_0 = 18"
| "leg_reg LEG_WBACK_REG_1 = 19"
| "leg_reg LEG_WBACK_REG_2 = 20"
| "leg_reg LEG_WBACK_REG_3 = 21"
| "leg_reg LEG_RDMA_POST_REG = 32"
| "leg_reg LEG_RDMA_POST_REG_0 = 33"
| "leg_reg LEG_RDMA_POST_REG_1 = 34"
| "leg_reg LEG_RDMA_POST_REG_2 = 35"
| "leg_reg LEG_RDMA_POST_REG_3 = 36"
| "leg_reg LEG_RDMA_POST_REG_4 = 37"
| "leg_reg LEG_RDMA_POST_REG_5 = 38"
| "leg_reg LEG_RDMA_POST_REG_6 = 39"
| "leg_reg LEG_RDMA_POST_REG_7 = 40"
| "leg_reg LEG_RDMA_STAT_CMD_USED_REG = 41"
| "leg_reg LEG_RDMA_STAT_POSTED_REG = 42"
| "leg_reg LEG_RDMA_CMPLT_REG = 43"
| "leg_reg LEG_CNTX_STAT_REG = 50"
| "leg_reg LEG_REQ_COUNT_REG = 51"
| "leg_reg LEG_TIME_STAT_REG = 52"
| "leg_reg LEG_PRIO_STAT_REG = 54"
| "leg_reg LEG_STAT_DMA_REG = 64"
| "leg_reg LEG_IO_SWITCH_REG = 127"
| "leg_reg LEG_STAT_RDMA_REG = 128"

datatype ibvOpcode =
    IBV_WR_RDMA_READ | IBV_WR_RDMA_WRITE | IBV_WR_SEND
  | IBV_WR_IMMED_LOW | IBV_WR_IMMED_MID | IBV_WR_IMMED_HIGH

fun ibv_code :: "ibvOpcode \<Rightarrow> u64" where
  "ibv_code IBV_WR_RDMA_READ = 0"
| "ibv_code IBV_WR_RDMA_WRITE = 1"
| "ibv_code IBV_WR_SEND = 2"
| "ibv_code IBV_WR_IMMED_LOW = 3"
| "ibv_code IBV_WR_IMMED_MID = 4"
| "ibv_code IBV_WR_IMMED_HIGH = 5"

subsection \<open>Operations\<close>

definition isRead :: "CoyoteOper \<Rightarrow> bool" where
  "isRead oper \<longleftrightarrow> oper = READ \<or> oper = OFFLOAD \<or> oper = TRANSFER"

definition isWrite :: "CoyoteOper \<Rightarrow> bool" where
  "isWrite oper \<longleftrightarrow> oper = WRITE \<or> oper = SYNC \<or> oper = TRANSFER"

definition isSync :: "CoyoteOper \<Rightarrow> bool" where
  "isSync oper \<longleftrightarrow> oper = OFFLOAD \<or> oper = SYNC"

text \<open>The macros for register halves. \<open>HIGH_16\<close> is applied to the \<open>int\<close> that
  \<open>_mm256_extract_epi32\<close> returns, so its shift is arithmetic.\<close>

definition HIGH_32 :: "u64 \<Rightarrow> u64" where
  "HIGH_32 data = drop_bit 16 (drop_bit 16 data)"

definition LOW_32 :: "u64 \<Rightarrow> u64" where
  "LOW_32 data = data AND 0xffffffff"

definition HIGH_16 :: "u32 \<Rightarrow> u32" where
  "HIGH_16 data = signed_drop_bit 16 data"

definition LOW_16 :: "u32 \<Rightarrow> u32" where
  "LOW_16 data = data AND 0xffff"

subsection \<open>Constants\<close>

abbreviation (input) pageShift :: nat where "pageShift \<equiv> 12"
abbreviation (input) hugePageShift :: nat where "hugePageShift \<equiv> 21"
abbreviation (input) hugePageSize :: "'a::len word" where "hugePageSize \<equiv> 2097152"
abbreviation (input) axiDataWidth :: u64 where "axiDataWidth \<equiv> 64"
abbreviation (input) nCpidMax :: u32 where "nCpidMax \<equiv> 64"
abbreviation (input) cmd_fifo_limit :: u32 where "cmd_fifo_limit \<equiv> 22" \<comment> \<open>\<open>cmd_fifo_depth - cmd_fifo_thr\<close>\<close>
abbreviation (input) mmapBuff :: u64 where "mmapBuff \<equiv> 0x200000" \<comment> \<open>\<open>0x200 << pageShift\<close>\<close>
abbreviation (input) mmapPr :: u64 where "mmapPr \<equiv> 0x400000" \<comment> \<open>\<open>0x400 << pageShift\<close>\<close>

subsection \<open>Transfer structs\<close>

record csAlloc =
  ca_alloc :: CoyoteAlloc
  ca_n_pages :: u32

record csInvokeAll =
  oper :: CoyoteOper
  src_addr :: u64
  dst_addr :: u64
  src_len :: u32
  dst_len :: u32
  clr_stat :: bool
  poll :: bool
  dest :: u8
  strm :: bool
  req_count :: u32
  prio :: u8

text \<open>The default member initialisers of \<open>csInvokeAll\<close>.\<close>

definition csInvokeAll_default :: csInvokeAll where
  "csInvokeAll_default =
     \<lparr>oper = NOOP, src_addr = 0, dst_addr = 0, src_len = 0, dst_len = 0, clr_stat = True,
      poll = True, dest = 0, strm = True, req_count = 0, prio = 0\<rparr>"

record csInvoke =
  ci_oper :: CoyoteOper
  ci_addr :: u64
  ci_len :: u32
  ci_clr_stat :: bool
  ci_poll :: bool
  ci_dest :: u8
  ci_strm :: bool

subsection \<open>Board configuration\<close>

record fCnfg =
  en_avx :: bool
  en_bypass :: bool
  en_tlbf :: bool
  en_wb :: bool
  en_strm :: bool
  en_mem :: bool
  en_pr :: bool
  en_rdma_0 :: bool
  en_rdma_1 :: bool
  en_rdma :: bool
  en_tcp_0 :: bool
  en_tcp_1 :: bool
  en_tcp :: bool
  en_net_0 :: bool
  en_net_1 :: bool
  en_net :: bool
  n_fpga_chan :: u32
  n_fpga_reg :: u32
  qsfp :: u32
  qsfp_offs :: u32

definition cnfg_bit :: "u64 \<Rightarrow> nat \<Rightarrow> bool" where
  "cnfg_bit cnfg n \<longleftrightarrow> (drop_bit n cnfg) AND 1 \<noteq> 0"

definition parseCnfg :: "u64 \<Rightarrow> fCnfg" where
  "parseCnfg cnfg =
     (let avx = cnfg_bit cnfg 0;
          rdma0 = cnfg_bit cnfg 16; rdma1 = cnfg_bit cnfg 17;
          tcp0 = cnfg_bit cnfg 18; tcp1 = cnfg_bit cnfg 19;
          net0 = rdma0 \<or> tcp0; net1 = rdma1 \<or> tcp1
      in \<lparr>en_avx = avx,
          en_bypass = cnfg_bit cnfg 1,
          en_tlbf = cnfg_bit cnfg 2,
          en_wb = cnfg_bit cnfg 3,
          en_strm = cnfg_bit cnfg 4,
          en_mem = cnfg_bit cnfg 5,
          en_pr = cnfg_bit cnfg 6,
          en_rdma_0 = rdma0, en_rdma_1 = rdma1, en_rdma = (rdma0 \<or> rdma1),
          en_tcp_0 = tcp0, en_tcp_1 = tcp1, en_tcp = (tcp0 \<or> tcp1),
          en_net_0 = net0, en_net_1 = net1, en_net = (net0 \<or> net1),
          n_fpga_chan = ucast ((drop_bit 32 cnfg) AND 0xff),
          n_fpga_reg = ucast ((drop_bit 48 cnfg) AND 0xff),
          qsfp = (if net1 then 1 else 0),
          qsfp_offs = (if net1 then (if avx then 8 else 16) else 0)\<rparr>)"

subsection \<open>The operating system\<close>

datatype ioctlCmd =
    IOCTL_ALLOC_HOST_USER_MEM | IOCTL_FREE_HOST_USER_MEM | IOCTL_ALLOC_HOST_PR_MEM
  | IOCTL_FREE_HOST_PR_MEM | IOCTL_MAP_USER | IOCTL_UNMAP_USER | IOCTL_REGISTER_PID
  | IOCTL_UNREGISTER_PID | IOCTL_RECONFIG_LOAD | IOCTL_ARP_LOOKUP | IOCTL_WRITE_CTX
  | IOCTL_WRITE_CONN | IOCTL_READ_CNFG | IOCTL_NET_DROP

datatype namedMutex = MLOCK | DLOCK | PLOCK

text \<open>One entry per call that leaves the process: system calls with their arguments, accesses of
  the named mutexes, writes of the memory mapped registers and copies of user memory.\<close>

datatype (plugins only: size) sysEvent =
    EvOpen u32 \<comment> \<open>the device node of a vFPGA\<close>
  | EvClose
  | EvIoctl ioctlCmd "u64 list"
  | EvMmap u64 u64 \<comment> \<open>length and device offset\<close>
  | EvMmapHuge u64 \<comment> \<open>anonymous huge page mapping of a length\<close>
  | EvMunmap u64 u64
  | EvMemalign u64 u64
  | EvFree u64
  | EvMemcpy u64 u64 u64 \<comment> \<open>destination, source, length\<close>
  | EvLock namedMutex
  | EvUnlock namedMutex
  | EvRegAvx u32 "u64 \<times> u64 \<times> u64 \<times> u64" \<comment> \<open>as the arguments of \<open>_mm256_set_epi64x\<close>\<close>
  | EvRegLeg u32 u64
  | EvRegCtrl u32 u64 \<comment> \<open>a user register of the vFPGA\<close>

text \<open>
  What the system answers, as a function of the calls so far, the call in question last:
  whether an \<open>open\<close>, \<open>ioctl\<close> or \<open>munmap\<close> reports a failure, the pointer that \<open>mmap\<close> or
  \<open>memalign\<close> returns, the word an \<open>ioctl\<close> leaves in its argument.
\<close>

record os =
  os_fails :: "sysEvent list \<Rightarrow> bool"
  os_ptr :: "sysEvent list \<Rightarrow> u64"
  os_out :: "sysEvent list \<Rightarrow> u64"

abbreviation (input) MAP_FAILED :: u64 where "MAP_FAILED \<equiv> 0xffffffffffffffff"

text \<open>A method that may throw: \<open>Inl\<close> carries the text of the \<open>std::runtime_error\<close>. The object
  keeps what was done to it before the exception.\<close>

type_synonym ('a, 's) outcome = "(string + 'a) \<times> 's"

definition andThen :: "('a, 's) outcome \<Rightarrow> ('a \<Rightarrow> 's \<Rightarrow> ('b, 's) outcome) \<Rightarrow> ('b, 's) outcome" where
  "andThen r f = (case r of (Inl e, s) \<Rightarrow> (Inl e, s) | (Inr x, s) \<Rightarrow> f x s)"

text \<open>A range based \<open>for\<close> whose body may throw.\<close>

fun each :: "('x \<Rightarrow> 's \<Rightarrow> (unit, 's) outcome) \<Rightarrow> 'x list \<Rightarrow> 's \<Rightarrow> (unit, 's) outcome" where
  "each f [] s = (Inr (), s)"
| "each f (x # xs) s = andThen (f x s) (\<lambda>_ s'. each f xs s')"

subsection \<open>Locks in a trace\<close>

text \<open>\<open>lock_depth m tr\<close> is \<open>None\<close> when the trace unlocks \<open>m\<close> while it is not locked or locks
  it while it is locked; otherwise whether \<open>m\<close> is held at the end.\<close>

fun lock_after :: "namedMutex \<Rightarrow> bool option \<Rightarrow> sysEvent \<Rightarrow> bool option" where
  "lock_after m None e = None"
| "lock_after m (Some h) (EvLock n) = (if n \<noteq> m then Some h else if h then None else Some True)"
| "lock_after m (Some h) (EvUnlock n) = (if n \<noteq> m then Some h else if h then Some False else None)"
| "lock_after m (Some h) e = Some h"

definition lock_state :: "namedMutex \<Rightarrow> sysEvent list \<Rightarrow> bool option" where
  "lock_state m tr = foldl (lock_after m) (Some False) tr"

lemma lock_state_Nil [simp]: "lock_state m [] = Some False"
  by (simp add: lock_state_def)

lemma lock_state_snoc [simp]: "lock_state m (tr @ [e]) = lock_after m (lock_state m tr) e"
  by (simp add: lock_state_def)

lemma lock_state_append_cons [simp]:
  "lock_state m (tr @ e # es) = foldl (lock_after m) (lock_after m (lock_state m tr) e) es"
  by (simp add: lock_state_def)

lemma lock_state_cases:
  "lock_state m tr = Some h \<Longrightarrow> lock_state m (tr @ [EvLock m]) = (if h then None else Some True)"
  "lock_state m tr = Some h \<Longrightarrow> lock_state m (tr @ [EvUnlock m]) = (if h then Some False else None)"
  by simp_all

subsection \<open>Sequencing\<close>

lemma andThen_simps [simp]:
  "andThen (Inl e, s) f = (Inl e, s)"
  "andThen (Inr x, s) f = f x s"
  by (simp_all add: andThen_def)

lemma snd_andThen_keeps:
  "\<lbrakk>P (snd r); \<And>x s. P s \<Longrightarrow> P (snd (f x s))\<rbrakk> \<Longrightarrow> P (snd (andThen r f))"
  by (auto simp: andThen_def split: prod.splits sum.splits)

lemma snd_each_keeps:
  "\<lbrakk>P s; \<And>x s. P s \<Longrightarrow> P (snd (f x s))\<rbrakk> \<Longrightarrow> P (snd (each f xs s))"
  by (induction xs arbitrary: s) (auto intro: snd_andThen_keeps)

text \<open>
  The contract every public method of the runtime keeps: whether it returns or throws, all the
  named mutexes it took are released again. A client that catches the exceptions may then call
  the methods in any order.
\<close>

locale lock_discipline =
  fixes tr :: "'s \<Rightarrow> sysEvent list"
    and call :: "'op \<Rightarrow> 's \<Rightarrow> ('r, 's) outcome"
  assumes call_releases:
    "\<forall>m. lock_state m (tr s) = Some False \<Longrightarrow> lock_state m (tr (snd (call op s))) = Some False"
begin

lemma calls_release:
  "\<forall>m. lock_state m (tr s) = Some False
   \<Longrightarrow> lock_state m (tr (run_inputs (\<lambda>op s. snd (call op s)) ops s)) = Some False"
proof (induction ops arbitrary: s)
  case Nil
  then show ?case by simp
next
  case (Cons op ops)
  have "\<forall>m. lock_state m (tr (snd (call op s))) = Some False"
    using call_releases [OF Cons.prems] by blast
  then show ?case using Cons.IH by simp
qed

end

subsection \<open>Properties of the definitions\<close>

lemma cnfg_bit_iff [simp]: "cnfg_bit cnfg n \<longleftrightarrow> bit cnfg n"
proof -
  have "drop_bit n cnfg AND 1 = of_bool (bit cnfg n)"
    by (simp add: and_one_eq bit_iff_odd_drop_bit mod_2_eq_odd)
  then show ?thesis by (simp add: cnfg_bit_def)
qed

text \<open>The operations of a transfer: each operation but \<open>NOOP\<close> moves data in at least one
  direction, and only \<open>TRANSFER\<close> in both.\<close>

lemma isRead_or_isWrite: "isRead op \<or> isWrite op \<longleftrightarrow> op \<noteq> NOOP"
  by (cases op) (auto simp: isRead_def isWrite_def)

lemma isRead_and_isWrite: "isRead op \<and> isWrite op \<longleftrightarrow> op = TRANSFER"
  by (cases op) (auto simp: isRead_def isWrite_def)

lemma HIGH_LOW_32: "push_bit 32 (HIGH_32 x) OR LOW_32 x = x"
proof (rule bit_word_eqI)
  fix n
  have mask: "(0xffffffff :: u64) = mask 32"
    by (simp add: mask_eq_exp_minus_1)
  show "bit (push_bit 32 (HIGH_32 x) OR LOW_32 x) n \<longleftrightarrow> bit x n" if "n < LENGTH(64)"
    using that unfolding HIGH_32_def LOW_32_def mask
    by (auto simp: bit_or_iff bit_push_bit_iff bit_drop_bit_eq bit_and_iff bit_mask_iff)
qed

text \<open>No two registers of a bank share a number.\<close>

lemma avx_reg_inj: "avx_reg r = avx_reg s \<longleftrightarrow> r = s"
  by (cases r; cases s) simp_all

lemma iodev_code_inj: "iodev_code d = iodev_code e \<longleftrightarrow> d = e"
  by (cases d; cases e) simp_all

end
