(* ===== verification/Ibv_Structs.thy ===== *)
theory Ibv_Structs
  imports Coyote_Defs
begin

text \<open>
  Queue pairs of the RDMA verbs layer (\<^verbatim>\<open>sw/include/ibvStructs.hpp\<close>, \<^verbatim>\<open>sw/src/ibvStructs.cpp\<close>):
  the queue description with its textual global identifier, the work request and its
  scatter/gather entries, and the queue pair id pool.
\<close>

subsection \<open>Queues and queue pairs\<close>

record ibvQ =
  ip_addr :: u32
  qpn :: u32
  psn :: u32
  rkey :: u32
  vaddr :: u64
  qsize :: u32
  gid :: "char list"

record ibvQp =
  qp_id :: u32
  qp_local :: ibvQ
  qp_remote :: ibvQ

text \<open>
  \<open>ibvSge\<close> is a union. Its memory is eight 64-bit words (the size of its largest member);
  the members read them: \<open>rdma\<close> and \<open>send\<close> keep their 32-bit length in the low half of the
  third and second word, the immediate members are arrays of words.
\<close>

type_synonym ibvSge = "nat \<Rightarrow> u64"

definition rdma_local_offs :: "ibvSge \<Rightarrow> u64" where "rdma_local_offs s = s 0"
definition rdma_remote_offs :: "ibvSge \<Rightarrow> u64" where "rdma_remote_offs s = s 1"
definition rdma_len :: "ibvSge \<Rightarrow> u32" where "rdma_len s = ucast (s 2)"
definition send_local_addr :: "ibvSge \<Rightarrow> u64" where "send_local_addr s = s 0"
definition send_len :: "ibvSge \<Rightarrow> u32" where "send_len s = ucast (s 1)"
definition immed_params :: "ibvSge \<Rightarrow> nat \<Rightarrow> u64" where "immed_params s i = s i"

record ibvSendFlags =
  sf_host :: bool
  sf_mode :: bool
  sf_last :: bool
  sf_clr :: bool

record ibvSendWr =
  opcode :: ibvOpcode
  sg_list :: "ibvSge list"
  num_sge :: u32
  send_flags :: ibvSendFlags

definition isRDMA :: "ibvSendWr \<Rightarrow> bool" where
  "isRDMA wr \<longleftrightarrow> opcode wr = IBV_WR_RDMA_READ \<or> opcode wr = IBV_WR_RDMA_WRITE"

definition isSEND :: "ibvSendWr \<Rightarrow> bool" where
  "isSEND wr \<longleftrightarrow> opcode wr = IBV_WR_SEND"

text \<open>The entries the loops \<open>for(int i = 0; i < wr->num_sge; i++)\<close> visit.\<close>

definition sge_used :: "ibvSendWr \<Rightarrow> ibvSge list" where
  "sge_used wr = take (nat (sint (num_sge wr))) (sg_list wr)"

subsection \<open>The textual global identifier\<close>

text \<open>\<open>std::hex\<close> prints lower case digits; \<open>setw(8)\<close> and \<open>setfill('0')\<close> pad to eight.\<close>

definition hexdigit :: "nat \<Rightarrow> char" where
  "hexdigit d = (if d < 10 then char_of (48 + d) else char_of (87 + d))"

definition hex8 :: "u32 \<Rightarrow> char list" where
  "hex8 x = map (\<lambda>i. hexdigit (unat (field (4 * i) 4 x))) [7, 6, 5, 4, 3, 2, 1, 0]"

definition hexval :: "char \<Rightarrow> nat option" where
  "hexval c =
     (let n = of_char c :: nat
      in if 48 \<le> n \<and> n \<le> 57 then Some (n - 48)
         else if 97 \<le> n \<and> n \<le> 102 then Some (n - 87)
         else if 65 \<le> n \<and> n \<le> 70 then Some (n - 55)
         else None)"

definition is_space :: "char \<Rightarrow> bool" where
  "is_space c \<longleftrightarrow> (let n = of_char c :: nat in n = 32 \<or> 9 \<le> n \<and> n \<le> 13)"

text \<open>\<open>sscanf\<close> with the conversion \<open>%x\<close>: white space, an optional sign, an optional prefix,
  then as many digits as there are. The target keeps its value 0 when there are none.\<close>

fun parse_sign :: "char list \<Rightarrow> bool \<times> char list" where
  "parse_sign (c # cs) = (if c = CHR ''-'' then (True, cs) else if c = CHR ''+'' then (False, cs)
                          else (False, c # cs))"
| "parse_sign [] = (False, [])"

fun strip_0x :: "char list \<Rightarrow> char list" where
  "strip_0x (c # d # cs) = (if c = CHR ''0'' \<and> (d = CHR ''x'' \<or> d = CHR ''X'') then cs else c # d # cs)"
| "strip_0x cs = cs"

fun hex_digits :: "u32 \<Rightarrow> char list \<Rightarrow> u32" where
  "hex_digits acc [] = acc"
| "hex_digits acc (c # cs) =
     (case hexval c of None \<Rightarrow> acc | Some d \<Rightarrow> hex_digits (16 * acc + of_nat d) cs)"

definition sscanf_x :: "char list \<Rightarrow> u32" where
  "sscanf_x s =
     (let (neg, t) = parse_sign (dropWhile is_space s); v = hex_digits 0 (strip_0x t)
      in if neg then - v else v)"

text \<open>\<open>ntohl\<close> on the little endian hosts of the runtime swaps the bytes.\<close>

definition ntohl :: "u32 \<Rightarrow> u32" where
  "ntohl x = push_bit 24 (field 0 8 x) OR push_bit 16 (field 8 8 x)
             OR push_bit 8 (field 16 8 x) OR field 24 8 x"

definition gidToUint :: "nat \<Rightarrow> ibvQ \<Rightarrow> u32" where
  "gidToUint idx q = (if idx > 24 then 0 else ntohl (sscanf_x (take 8 (drop idx (gid q)))))"

definition uintToGid :: "nat \<Rightarrow> u32 \<Rightarrow> ibvQ \<Rightarrow> ibvQ" where
  "uintToGid idx ip q = q\<lparr>gid := take idx (gid q) @ hex8 ip @ drop (idx + 8) (gid q)\<rparr>"

subsection \<open>The queue pair id pool\<close>

text \<open>The elements of the pool are an array; a pointer to an element is its index.\<close>

record el =
  el_id :: u32
  el_free :: bool
  el_next :: nat

record ibvQpPool =
  n_free_el :: u32
  pool :: "nat \<Rightarrow> el"
  curr_el :: nat

text \<open>The constructor leaves \<open>free\<close> as it finds it in memory (\<open>junk\<close>).\<close>

definition mk_ibvQpPool :: "(nat \<Rightarrow> bool) \<Rightarrow> nat \<Rightarrow> ibvQpPool" where
  "mk_ibvQpPool junk n_el =
     \<lparr>n_free_el = of_nat n_el,
      pool = (\<lambda>i. \<lparr>el_id = of_nat i, el_free = junk i, el_next = i + 1\<rparr>),
      curr_el = 0\<rparr>"

definition pool_acquire :: "ibvQpPool \<Rightarrow> u32 \<times> ibvQpPool" where
  "pool_acquire q =
     (if n_free_el q \<noteq> 0 then
        let e = pool q (curr_el q)
        in (el_id e,
            q\<lparr>n_free_el := n_free_el q - 1,
              pool := (pool q)(curr_el q := e\<lparr>el_free := False\<rparr>),
              curr_el := el_next e\<rparr>)
      else (- 1, q))"

definition pool_release :: "nat \<Rightarrow> ibvQpPool \<Rightarrow> bool \<times> ibvQpPool" where
  "pool_release i q =
     (if \<not> el_free (pool q i) then
        (True,
         q\<lparr>pool := (pool q)(i := (pool q i)\<lparr>el_next := curr_el q\<rparr>),
           curr_el := i,
           n_free_el := n_free_el q + 1\<rparr>)
      else (False, q))"

subsection \<open>The global identifier round trip\<close>

lemma hexval_hexdigit [simp]: "d < 16 \<Longrightarrow> hexval (hexdigit d) = Some d"
  by (simp add: hexval_def hexdigit_def)

lemma hexdigit_plain:
  "d < 16 \<Longrightarrow> \<not> is_space (hexdigit d) \<and> hexdigit d \<noteq> CHR ''-'' \<and> hexdigit d \<noteq> CHR ''+''
     \<and> hexdigit d \<noteq> CHR ''x'' \<and> hexdigit d \<noteq> CHR ''X''"
proof -
  assume d: "d < 16"
  have "of_char (hexdigit d) = (if d < 10 then 48 + d else 87 + d)"
    using d by (simp add: hexdigit_def)
  then show ?thesis
    using d by (auto simp: is_space_def Let_def split: if_splits)
qed

lemma nibble_less [simp]: "unat (field offs 4 x) < 16"
proof -
  have "unat (take_bit 4 (drop_bit offs x)) = take_bit 4 (unat (drop_bit offs x))"
    by (simp add: unsigned_take_bit_eq)
  also have "\<dots> < 2 ^ 4" by (rule take_bit_nat_less_exp)
  finally show ?thesis by (simp add: field_def)
qed

lemma nibbles_value:
  "16 * (16 * (16 * (16 * (16 * (16 * (16 * field 28 4 x + field 24 4 x) + field 20 4 x)
     + field 16 4 x) + field 12 4 x) + field 8 4 x) + field 4 4 x) + field 0 4 (x :: u32) = x"
proof -
  have step: "16 * drop_bit (n + 4) x + field n 4 x = drop_bit n x" for n
  proof -
    have "drop_bit n x = push_bit 4 (drop_bit 4 (drop_bit n x)) + take_bit 4 (drop_bit n x)"
      by (rule bits_ident [symmetric])
    also have "push_bit 4 (drop_bit 4 (drop_bit n x)) = 16 * drop_bit (n + 4) x"
      by (simp add: push_bit_eq_mult add.commute)
    finally show ?thesis by (simp add: field_def)
  qed
  have top: "field 28 4 x = drop_bit 28 x"
    by (rule bit_word_eqI) (auto simp: bit_drop_bit_eq dest: bit_imp_le_length)
  show ?thesis
    using step [of 24] step [of 20] step [of 16] step [of 12] step [of 8] step [of 4] step [of 0]
    by (simp add: top)
qed

lemma sscanf_plain:
  assumes "\<not> is_space c" "c \<noteq> CHR ''-''" "c \<noteq> CHR ''+''" "d \<noteq> CHR ''x''" "d \<noteq> CHR ''X''"
  shows "sscanf_x (c # d # cs) = hex_digits 0 (c # d # cs)"
  using assms by (simp add: sscanf_x_def)

lemma hex_digits_hex8: "hex_digits 0 (hex8 x) = x"
  using nibbles_value [of x] by (simp add: hex8_def del: distrib_left_numeral)

lemma hexdigit_nibble_plain:
  "\<not> is_space (hexdigit (unat (field n 4 x))) \<and> hexdigit (unat (field n 4 x)) \<noteq> CHR ''-''
   \<and> hexdigit (unat (field n 4 x)) \<noteq> CHR ''+'' \<and> hexdigit (unat (field n 4 x)) \<noteq> CHR ''x''
   \<and> hexdigit (unat (field n 4 x)) \<noteq> CHR ''X''"
  by (rule hexdigit_plain) simp

lemma sscanf_hex8: "sscanf_x (hex8 x) = x"
proof -
  obtain cs where h: "hex8 x = hexdigit (unat (field 28 4 x)) # hexdigit (unat (field 24 4 x)) # cs"
    by (simp add: hex8_def)
  show ?thesis
    using hex_digits_hex8 [of x] unfolding h
    by (subst sscanf_plain) (use hexdigit_nibble_plain in blast)+
qed

lemma length_hex8 [simp]: "length (hex8 x) = 8"
  by (simp add: hex8_def)

lemma bit_ntohl:
  "bit (ntohl x) n \<longleftrightarrow>
     (24 \<le> n \<and> n < 32 \<and> bit x (n - 24)) \<or> (16 \<le> n \<and> n < 24 \<and> bit x (n - 8))
     \<or> (8 \<le> n \<and> n < 16 \<and> bit x (n + 8)) \<or> (n < 8 \<and> bit x (n + 24))"
  by (auto simp: ntohl_def bit_or_iff bit_push_bit_iff add.commute)

lemma ntohl_ntohl [simp]: "ntohl (ntohl x) = x"
proof (rule bit_word_eqI)
  fix n assume "n < LENGTH(32)"
  then consider "n < 8" | "8 \<le> n \<and> n < 16" | "16 \<le> n \<and> n < 24" | "24 \<le> n \<and> n < 32"
    by force
  then show "bit (ntohl (ntohl x)) n = bit x n"
    by cases (auto simp: bit_ntohl)
qed

subsection \<open>The free list of the pool\<close>

primrec walk :: "(nat \<Rightarrow> el) \<Rightarrow> nat \<Rightarrow> nat \<Rightarrow> nat list" where
  "walk p c 0 = []"
| "walk p c (Suc n) = c # walk p (el_next (p c)) n"

definition pool_frees :: "ibvQpPool \<Rightarrow> nat list" where
  "pool_frees q = walk (pool q) (curr_el q) (unat (n_free_el q))"

definition pool_inv :: "nat \<Rightarrow> ibvQpPool \<Rightarrow> bool" where
  "pool_inv n q \<longleftrightarrow> n < 2 ^ 32 \<and> distinct (pool_frees q) \<and> set (pool_frees q) \<subseteq> {..<n}
     \<and> (\<forall>i < n. el_id (pool q i) = of_nat i)
     \<and> (\<forall>i < n. i \<notin> set (pool_frees q) \<longrightarrow> \<not> el_free (pool q i))"

lemma walk_numeral [simp]:
  "walk p c (numeral k) = c # walk p (el_next (p c)) (pred_numeral k)"
  by (simp add: numeral_eq_Suc)

lemma length_walk [simp]: "length (walk p c n) = n"
  by (induction n arbitrary: c) auto

lemma walk_upd [simp]: "i \<notin> set (walk p c n) \<Longrightarrow> walk (p(i := e)) c n = walk p c n"
  by (induction n arbitrary: c) auto

lemma walk_initial: "walk (\<lambda>i. \<lparr>el_id = f i, el_free = g i, el_next = Suc i\<rparr>) c n = [c..<c + n]"
proof (induction n arbitrary: c)
  case (Suc n)
  have "[c..<c + Suc n] = c # [Suc c..<Suc c + n]" by (simp add: upt_rec)
  with Suc show ?case by simp
qed simp

lemma pool_inv_initial: "n < 2 ^ 32 \<Longrightarrow> pool_inv n (mk_ibvQpPool junk n)"
  by (simp add: pool_inv_def pool_frees_def mk_ibvQpPool_def walk_initial unat_of_nat atLeast0LessThan)

lemma pool_acquire_spec:
  assumes inv: "pool_inv n q" and free: "pool_frees q \<noteq> []"
  shows "fst (pool_acquire q) = of_nat (curr_el q) \<and> curr_el q \<in> set (pool_frees q)
    \<and> pool_inv n (snd (pool_acquire q))
    \<and> pool_frees q = curr_el q # pool_frees (snd (pool_acquire q))"
proof -
  obtain m where m: "unat (n_free_el q) = Suc m"
    using free by (cases "unat (n_free_el q)") (auto simp: pool_frees_def)
  then have nz: "n_free_el q \<noteq> 0" by auto
  have m': "unat (n_free_el q - 1) = m"
    using m nz by (simp add: unat_minus_one)
  let ?c = "curr_el q"
  have fr: "pool_frees q = ?c # walk (pool q) (el_next (pool q ?c)) m"
    by (simp add: pool_frees_def m)
  with inv have "?c \<notin> set (walk (pool q) (el_next (pool q ?c)) m)" "?c < n"
    by (auto simp: pool_inv_def)
  with inv fr show ?thesis
    by (auto simp: pool_acquire_def nz Let_def pool_inv_def pool_frees_def m m')
qed

lemma pool_release_spec:
  assumes inv: "pool_inv n q" and i: "i < n" "i \<notin> set (pool_frees q)"
  shows "fst (pool_release i q) \<and> pool_inv n (snd (pool_release i q))
    \<and> pool_frees (snd (pool_release i q)) = i # pool_frees q"
proof -
  have "\<not> el_free (pool q i)" using inv i by (auto simp: pool_inv_def)
  moreover have "length (pool_frees q) < n"
  proof -
    have "set (pool_frees q) \<subseteq> {..<n} - {i}" using inv i by (auto simp: pool_inv_def)
    then have "card (set (pool_frees q)) \<le> card ({..<n} - {i})" by (intro card_mono) auto
    moreover have "distinct (pool_frees q)" using inv by (simp add: pool_inv_def)
    ultimately show ?thesis using i by (simp add: distinct_card)
  qed
  then have "unat (n_free_el q) < n" by (simp add: pool_frees_def)
  then have "unat (n_free_el q + 1) = Suc (unat (n_free_el q))"
    using inv by (simp add: unat_word_ariths pool_inv_def)
  ultimately show ?thesis
    using inv i by (auto simp: pool_release_def pool_frees_def pool_inv_def)
qed

text \<open>The pool is an id pool, for a client that gives back only what it took.\<close>

interpretation qp: id_pool "{..<n}" pool_frees "pool_inv n"
  "\<lambda>q. (curr_el q, snd (pool_acquire q))" "\<lambda>i q. snd (pool_release i q)"
  for n
proof (unfold_locales, goal_cases)
  case (1 s) then show ?case by (simp add: pool_inv_def)
next
  case (2 s) then show ?case by (simp add: pool_inv_def)
next
  case (3 s i s')
  from pool_acquire_spec [OF 3(1,2)] 3 show ?case
    by (auto simp: pool_inv_def)
next
  case (4 s i)
  then show ?case using pool_release_spec [of n s i] by auto
qed

text \<open>The queue pair id pool hands out every id once: for a client that takes ids and gives
  back only ids it holds, whatever the order of its calls, the ids in use are pairwise distinct,
  none of them is on the pool's free list, and together they are all ids of the pool.\<close>

theorem qp_pool_no_double_allocation:
  assumes n: "n < 2 ^ 32"
    and run: "run_inputs (pool_client pool_frees (\<lambda>q. (curr_el q, snd (pool_acquire q)))
             (\<lambda>i q. snd (pool_release i q))) ops (mk_ibvQpPool junk n, []) = (q, used)"
  shows "distinct used \<and> set used \<inter> set (pool_frees q) = {} \<and> set used \<union> set (pool_frees q) = {..<n}
    \<and> (pool_frees q \<noteq> [] \<longrightarrow> fst (pool_acquire q) \<notin> of_nat ` set used)"
proof -
  have init: "qp.balanced n (mk_ibvQpPool junk n, [])"
    using pool_inv_initial [OF n, of junk] n
    by (simp add: qp.balanced_def pool_frees_def mk_ibvQpPool_def walk_initial
        unat_of_nat atLeast0LessThan)
  have b: "qp.balanced n (q, used)"
    using qp.balanced_run [OF init, of ops] run by simp
  have "fst (pool_acquire q) \<notin> of_nat ` set used" if ne: "pool_frees q \<noteq> []"
  proof
    assume "fst (pool_acquire q) \<in> of_nat ` set used"
    then obtain j where j: "j \<in> set used" "of_nat (curr_el q) = (of_nat j :: u32)"
      using pool_acquire_spec [of n q] b ne by (auto simp: qp.balanced_def)
    moreover have "j < n" "curr_el q < n"
      using b j(1) pool_acquire_spec [of n q] ne by (auto simp: qp.balanced_def)
    ultimately have "curr_el q = j"
      using of_nat_word_eq_iff [where 'a = 32, of "curr_el q" j] n by simp
    with j(1) qp.never_hands_out_used [OF b ne refl] show False by simp
  qed
  with b show ?thesis by (simp add: qp.balanced_def)
qed

abbreviation (input) pool_ops_witness :: "nat pool_op list \<Rightarrow> ibvQpPool \<times> nat list" where
  "pool_ops_witness ops \<equiv> run_inputs (pool_client pool_frees (\<lambda>q. (curr_el q, snd (pool_acquire q)))
     (\<lambda>i q. snd (pool_release i q))) ops (mk_ibvQpPool (\<lambda>_. True) 2, [])"

lemma pool_example:
  "pool_ops_witness [Take, Take, Give 0]
   = (\<lparr>n_free_el = 1,
       pool = (\<lambda>i. \<lparr>el_id = of_nat i, el_free = True, el_next = i + 1\<rparr>)
         (0 := \<lparr>el_id = 0, el_free = False, el_next = 2\<rparr>, 1 := \<lparr>el_id = 1, el_free = False, el_next = 2\<rparr>),
       curr_el = 0\<rparr>, [1])"
  by (simp add: mk_ibvQpPool_def pool_frees_def pool_acquire_def pool_release_def fun_upd_twist
      fun_eq_iff)

theorem qp_pool_no_double_allocation_witness:
  "case pool_ops_witness [Take, Take, Give 0] of
     (q, used) \<Rightarrow> used = [1] \<and> pool_frees q \<noteq> [] \<and> set used \<union> set (pool_frees q) = {..<2}
       \<and> fst (pool_acquire q) \<notin> of_nat ` set used"
  unfolding pool_example
  using qp_pool_no_double_allocation [OF _ pool_example]
  by (simp add: pool_frees_def)

text \<open>A second release of the same id is accepted, because \<open>release\<close> never marks the element
  free: from any pool with an acquired element \<open>i\<close>, releasing it twice succeeds twice and the next
  two calls of \<open>acquire\<close> both return \<open>i\<close>.\<close>

theorem qp_pool_double_release:
  assumes "pool_inv n q" "i < n" "i \<notin> set (pool_frees q)" "unat (n_free_el q) + 2 < 2 ^ 32"
  shows "case pool_release i q of (ok1, q1) \<Rightarrow>
         case pool_release i q1 of (ok2, q2) \<Rightarrow>
         case pool_acquire q2 of (id1, q3) \<Rightarrow>
         case pool_acquire q3 of (id2, q4) \<Rightarrow>
           ok1 \<and> ok2 \<and> id1 = of_nat i \<and> id2 = of_nat i"
proof -
  have nf: "\<not> el_free (pool q i)" and ident: "el_id (pool q i) = of_nat i"
    using assms by (auto simp: pool_inv_def)
  have c1: "unat (n_free_el q + 1) = unat (n_free_el q) + 1"
    using assms(4) by (simp add: unat_word_ariths)
  have c2: "unat (n_free_el q + 2) = unat (n_free_el q) + 2"
    using assms(4) by (simp add: unat_word_ariths)
  have "1 + n_free_el q \<noteq> 0" "2 + n_free_el q \<noteq> 0"
    using c1 c2 by (metis add.commute add_is_0 unsigned_0 one_neq_zero zero_neq_numeral)+
  with nf ident show ?thesis
    by (simp add: pool_release_def pool_acquire_def Let_def)
qed

theorem qp_pool_double_release_witness:
  "case pool_ops_witness [Take] of (q, _) \<Rightarrow>
     case pool_release 0 q of (ok1, q1) \<Rightarrow>
     case pool_release 0 q1 of (ok2, q2) \<Rightarrow>
     case pool_acquire q2 of (id1, q3) \<Rightarrow>
     case pool_acquire q3 of (id2, q4) \<Rightarrow> ok1 \<and> ok2 \<and> id1 = 0 \<and> id2 = 0"
proof -
  let ?q = "fst (pool_ops_witness [Take])"
  have inv: "pool_inv 2 ?q"
    using pool_inv_initial [of 2 "\<lambda>_. True"] pool_acquire_spec [of 2 "mk_ibvQpPool (\<lambda>_. True) 2"]
    by (simp add: pool_frees_def mk_ibvQpPool_def)
  have "(0::nat) \<notin> set (pool_frees ?q)" "unat (n_free_el ?q) + 2 < 2 ^ 32"
    by (simp_all add: mk_ibvQpPool_def pool_frees_def pool_acquire_def)
  from qp_pool_double_release [OF inv _ this] show ?thesis
    by (simp add: case_prod_beta)
qed

text \<open>The textual global identifier round trips: what \<open>uintToGid\<close> writes at an offset,
  \<open>gidToUint\<close> reads back from it in network byte order, and writing one of the four words leaves
  the other three as they were.\<close>

theorem gid_roundtrip:
  assumes "length (gid q) = 33" "i < 4" "j < 4"
  shows "gidToUint (8 * j) (uintToGid (8 * i) ip q)
         = (if i = j then ntohl ip else gidToUint (8 * j) q)"
proof -
  have len: "8 * j \<le> 24" using assms by simp
  consider "j < i" | "i = j" | "i < j" by linarith
  then show ?thesis
  proof cases
    case 1
    then have "8 * i = 8 * j + 8 + 8 * (i - j - 1)" by simp
    then show ?thesis using assms len 1
      by (simp add: gidToUint_def uintToGid_def drop_take min_def)
  next
    case 2
    then show ?thesis using assms len
      by (simp add: gidToUint_def uintToGid_def sscanf_hex8)
  next
    case 3
    then have "8 * j - (8 * i + 8) + (8 * i + 8) = 8 * j" by simp
    then show ?thesis using assms len 3
      by (simp add: gidToUint_def uintToGid_def drop_take)
  qed
qed

theorem gid_roundtrip_witness:
  "gidToUint 8 (uintToGid 8 0x0A000001
     \<lparr>ip_addr = 0, qpn = 0, psn = 0, rkey = 0, vaddr = 0, qsize = 0, gid = replicate 33 (char_of (0::nat))\<rparr>)
   = ntohl 0x0A000001"
  using gid_roundtrip [of "\<lparr>ip_addr = 0, qpn = 0, psn = 0, rkey = 0, vaddr = 0, qsize = 0,
      gid = replicate 33 (char_of (0::nat))\<rparr>" 1 1 "0x0A000001"]
  by simp

end
