(* ===== verification/Coyote_Process.thy ===== *)
theory Coyote_Process
  imports Ibv_Structs
begin

text \<open>
  The process abstraction of the host runtime (\<^verbatim>\<open>sw/src/cProcess.cpp\<close>, \<^verbatim>\<open>sw/include/cProcess.hpp\<close>):
  registration with the driver, memory mapping and allocation, bulk transfers with their command
  FIFO back pressure and completion polling, RDMA work requests, the network contexts and the
  I/O switch. Built with \<open>EN_AVX\<close>, the default of \<^verbatim>\<open>sw/CMakeLists.txt\<close>.
\<close>

subsection \<open>State\<close>

text \<open>What the object asks of an attached scheduler.\<close>

datatype schedCall = SchedPLock u32 u32 u32 | SchedPUnlock u32

record cProcess =
  vfid :: u32
  cpid :: u32
  pid :: u32
  fcnfg :: fCnfg
  csched :: bool \<comment> \<open>whether \<open>csched\<close> is not null\<close>
  rd_cmd_cnt :: u32
  wr_cmd_cnt :: u32
  rdma_cmd_cnt :: u32
  cnfg_reg_avx :: u64
  cnfg_reg :: u64
  ctrl_reg :: u64
  wback :: u64
  mapped_pages :: "(u64 \<times> csAlloc \<times> u64) list"
  mapped_upages :: "u64 list"
  last_qp :: u32
  sched_calls :: "schedCall list"
  ptrace :: "sysEvent list"

text \<open>The device as one read of its registers finds it. A 256-bit register is its four lanes,
  most significant first.\<close>

type_synonym m256i = "u64 \<times> u64 \<times> u64 \<times> u64"

record dev =
  d_avx :: "u32 \<Rightarrow> m256i"
  d_leg :: "u32 \<Rightarrow> u64"
  d_wback :: "u32 \<Rightarrow> u32"
  d_ctrl :: "u32 \<Rightarrow> u64"

fun extract_epi64 :: "m256i \<Rightarrow> nat \<Rightarrow> u64" where
  "extract_epi64 (e3, e2, e1, e0) k = (if k = 0 then e0 else if k = 1 then e1 else if k = 2 then e2 else e3)"

definition extract_epi32 :: "m256i \<Rightarrow> nat \<Rightarrow> u32" where
  "extract_epi32 v k = ucast (drop_bit (32 * (k mod 2)) (extract_epi64 v (k div 2)))"

definition emit :: "sysEvent \<Rightarrow> cProcess \<Rightarrow> cProcess" where
  "emit e p = p\<lparr>ptrace := ptrace p @ [e]\<rparr>"

definition wr_avx :: "u32 \<Rightarrow> m256i \<Rightarrow> cProcess \<Rightarrow> cProcess" where
  "wr_avx r v = emit (EvRegAvx r v)"

definition wr_leg :: "u32 \<Rightarrow> u64 \<Rightarrow> cProcess \<Rightarrow> cProcess" where
  "wr_leg r v = emit (EvRegLeg r v)"

subsection \<open>Control plane mappings\<close>

text \<open>One \<open>mmap\<close> of a device region: the pointer or the exception.\<close>

definition map_region :: "os \<Rightarrow> u64 \<Rightarrow> u64 \<Rightarrow> string \<Rightarrow> cProcess \<Rightarrow> (u64, cProcess) outcome" where
  "map_region w len offs msg p =
     (let p1 = emit (EvMmap len offs) p; a = os_ptr w (ptrace p1)
      in if a = MAP_FAILED then (Inl msg, p1) else (Inr a, p1))"

definition mmapFpga :: "os \<Rightarrow> cProcess \<Rightarrow> (unit, cProcess) outcome" where
  "mmapFpga w p =
     andThen
       (if en_avx (fcnfg p)
        then andThen (map_region w 0x40000 0x2000 ''cnfg_reg_avx mmap failed'' p)
               (\<lambda>a p. (Inr (), p\<lparr>cnfg_reg_avx := a\<rparr>))
        else andThen (map_region w 0x10000 0x1000 ''cnfg_reg mmap failed'' p)
               (\<lambda>a p. (Inr (), p\<lparr>cnfg_reg := a\<rparr>)))
     (\<lambda>_ p. andThen (map_region w 0x10000 0 ''ctrl_reg mmap failed'' p)
     (\<lambda>a p. let p = p\<lparr>ctrl_reg := a\<rparr> in
       if en_wb (fcnfg p)
       then andThen (map_region w 1024 0x3000 ''wback mmap failed'' p)
              (\<lambda>a p. (Inr (), p\<lparr>wback := a\<rparr>))
       else (Inr (), p)))"

definition unmap_region :: "os \<Rightarrow> u64 \<Rightarrow> u64 \<Rightarrow> string \<Rightarrow> cProcess \<Rightarrow> (unit, cProcess) outcome" where
  "unmap_region w a len msg p =
     (let p1 = emit (EvMunmap a len) p
      in if os_fails w (ptrace p1) then (Inl msg, p1) else (Inr (), p1))"

definition munmapFpga :: "os \<Rightarrow> cProcess \<Rightarrow> (unit, cProcess) outcome" where
  "munmapFpga w p =
     andThen
       (if en_avx (fcnfg p)
        then unmap_region w (cnfg_reg_avx p) 0x40000 ''cnfg_reg_avx munmap failed'' p
        else unmap_region w (cnfg_reg p) 0x10000 ''cnfg_reg munmap failed'' p)
     (\<lambda>_ p. andThen (unmap_region w (ctrl_reg p) 0x10000 ''ctrl_reg munmap failed'' p)
     (\<lambda>_ p. andThen
       (if en_wb (fcnfg p) then unmap_region w (wback p) 1024 ''wback munmap failed'' p
        else (Inr (), p))
     (\<lambda>_ p. (Inr (), p\<lparr>cnfg_reg_avx := 0, cnfg_reg := 0, ctrl_reg := 0, wback := 0\<rparr>))))"

subsection \<open>Memory\<close>

definition userMap :: "os \<Rightarrow> u64 \<Rightarrow> u32 \<Rightarrow> cProcess \<Rightarrow> (unit, cProcess) outcome" where
  "userMap w va len p =
     (let p1 = emit (EvIoctl IOCTL_MAP_USER [va, ucast len, scast (cpid p)]) p
      in if os_fails w (ptrace p1) then (Inl ''ioctl_map_user() failed'', p1)
         else (Inr (), p1\<lparr>mapped_upages := List.insert va (mapped_upages p1)\<rparr>))"

definition userUnmap :: "os \<Rightarrow> u64 \<Rightarrow> cProcess \<Rightarrow> (unit, cProcess) outcome" where
  "userUnmap w va p =
     (if va \<in> set (mapped_upages p) then
        let p1 = emit (EvIoctl IOCTL_UNMAP_USER [va, scast (cpid p)]) p
        in if os_fails w (ptrace p1) then (Inl ''ioctl_unmap_user() failed'', p1) else (Inr (), p1)
      else (Inr (), p))"

text \<open>\<open>emplace\<close> keeps an entry that is already there.\<close>

definition emplace :: "u64 \<Rightarrow> csAlloc \<times> u64 \<Rightarrow> (u64 \<times> csAlloc \<times> u64) list \<Rightarrow> (u64 \<times> csAlloc \<times> u64) list" where
  "emplace k v m = (if map_of m k = None then m @ [(k, v)] else m)"

text \<open>\<open>(n_pages + 1) * hugePageSize\<close> is computed in 32 bits.\<close>

definition host_size :: "u32 \<Rightarrow> u64" where
  "host_size n_pages = ucast ((n_pages + 1) * hugePageSize :: u32)"

definition align_2M :: "u64 \<Rightarrow> u64" where
  "align_2M a = push_bit hugePageShift (drop_bit hugePageShift (a + hugePageSize - 1))"

definition getMem :: "os \<Rightarrow> csAlloc \<Rightarrow> cProcess \<Rightarrow> (u64, cProcess) outcome" where
  "getMem w al p =
     (if ca_n_pages al > 0 then
        andThen
          (case ca_alloc al of
             REG_4K \<Rightarrow>
               (let size = ca_n_pages al * 4096;
                    p1 = emit (EvMemalign axiDataWidth (ucast size)) p;
                    mem = os_ptr w (ptrace p1)
                in andThen (userMap w mem size p1) (\<lambda>_ p. (Inr (mem, 0), p)))
           | HUGE_2M \<Rightarrow>
               (let size = ca_n_pages al * hugePageSize;
                    p1 = emit (EvMmapHuge (ucast size)) p;
                    mem = os_ptr w (ptrace p1)
                in andThen (userMap w mem size p1) (\<lambda>_ p. (Inr (mem, 0), p)))
           | HOST_2M \<Rightarrow>
               (let p1 = emit (EvLock MLOCK) p;
                    p2 = emit (EvIoctl IOCTL_ALLOC_HOST_USER_MEM [ucast (ca_n_pages al), scast (cpid p)]) p1
                in if os_fails w (ptrace p2)
                   then (Inl ''ioctl_alloc_host_user_mem() failed'', emit (EvUnlock MLOCK) p2)
                   else
                     let p3 = emit (EvMmap (host_size (ca_n_pages al)) mmapBuff) p2;
                         memNonAligned = os_ptr w (ptrace p3)
                     in if memNonAligned = MAP_FAILED
                        then (Inl ''get_host_mem mmap failed'', emit (EvUnlock MLOCK) p3)
                        else (Inr (align_2M memNonAligned, memNonAligned), emit (EvUnlock MLOCK) p3))
           | RCNFG_2M \<Rightarrow> (Inr (0, 0), p))
        (\<lambda>(mem, memNonAligned) p.
           (Inr mem, p\<lparr>mapped_pages := emplace mem (al, memNonAligned) (mapped_pages p)\<rparr>))
      else (Inr 0, p))"

definition freeMem :: "os \<Rightarrow> u64 \<Rightarrow> cProcess \<Rightarrow> (unit, cProcess) outcome" where
  "freeMem w va p =
     (case map_of (mapped_pages p) va of
        None \<Rightarrow> (Inr (), p)
      | Some (al, memNonAligned) \<Rightarrow>
          (case ca_alloc al of
             REG_4K \<Rightarrow> andThen (userUnmap w va p) (\<lambda>_ p. (Inr (), emit (EvFree va) p))
           | HUGE_2M \<Rightarrow> andThen (userUnmap w va p)
               (\<lambda>_ p. (Inr (), emit (EvMunmap va (ucast (ca_n_pages al * hugePageSize))) p))
           | HOST_2M \<Rightarrow>
               (let p1 = emit (EvLock MLOCK) p;
                    p2 = emit (EvMunmap memNonAligned (host_size (ca_n_pages al))) p1
                in if os_fails w (ptrace p2)
                   then (Inl ''free_host_mem munmap failed'', emit (EvUnlock MLOCK) p2)
                   else
                     let p3 = emit (EvIoctl IOCTL_FREE_HOST_USER_MEM [va, scast (cpid p)]) p2
                     in if os_fails w (ptrace p3)
                        then (Inl ''ioctl_free_host_user_mem() failed'', emit (EvUnlock MLOCK) p3)
                        else (Inr (), emit (EvUnlock MLOCK) p3))
           | RCNFG_2M \<Rightarrow> (Inr (), p)))"

subsection \<open>Scheduling\<close>

definition pLock :: "u32 \<Rightarrow> u32 \<Rightarrow> cProcess \<Rightarrow> cProcess" where
  "pLock oid prior p =
     (if csched p then p\<lparr>sched_calls := sched_calls p @ [SchedPLock (cpid p) oid prior]\<rparr>
      else emit (EvLock PLOCK) p)"

definition pUnlock :: "cProcess \<Rightarrow> cProcess" where
  "pUnlock p =
     (if csched p then p\<lparr>sched_calls := sched_calls p @ [SchedPUnlock (cpid p)]\<rparr>
      else emit (EvUnlock PLOCK) p)"

subsection \<open>User registers\<close>

definition setCSR :: "u64 \<Rightarrow> u32 \<Rightarrow> cProcess \<Rightarrow> cProcess" where
  "setCSR val offs = emit (EvRegCtrl offs val)"

definition getCSR :: "dev \<Rightarrow> u32 \<Rightarrow> u64" where
  "getCSR d offs = d_ctrl d offs"

subsection \<open>Completion counters\<close>

definition checkCompleted :: "cProcess \<Rightarrow> CoyoteOper \<Rightarrow> dev \<Rightarrow> u32" where
  "checkCompleted p coper d =
     (if isWrite coper then
        if en_wb (fcnfg p) then d_wback d (cpid p + nCpidMax)
        else if en_avx (fcnfg p) then extract_epi32 (d_avx d (avx_reg AVX_STAT_DMA_REG + cpid p)) 1
        else ucast (HIGH_32 (d_leg d (leg_reg LEG_STAT_DMA_REG + cpid p)))
      else
        if en_wb (fcnfg p) then d_wback d (cpid p)
        else if en_avx (fcnfg p) then extract_epi32 (d_avx d (avx_reg AVX_STAT_DMA_REG + cpid p)) 0
        else ucast (LOW_32 (d_leg d (leg_reg LEG_STAT_DMA_REG + cpid p))))"

definition clear_cmd :: "u32 \<Rightarrow> u64" where
  "clear_cmd cp = push_bit 6 1 OR push_bit 7 1 OR push_bit 17 (ucast (cp AND 0x3f))
                  OR push_bit 23 (ucast (cp AND 0x3f))"

definition clearCompleted :: "cProcess \<Rightarrow> cProcess" where
  "clearCompleted p =
     (if en_avx (fcnfg p) then wr_avx (avx_reg AVX_CTRL_REG) (0, 0, 0, clear_cmd (cpid p)) p
      else wr_leg (leg_reg LEG_CTRL_REG) (clear_cmd (cpid p)) p)"

subsection \<open>Bulk transfers\<close>

definition flag :: "bool \<Rightarrow> nat \<Rightarrow> u64" where
  "flag b n = (if b then push_bit n 1 else 0)"

text \<open>The read and the write half of the control word. AVX writes their disjunction, the legacy
  registers receive them one after the other.\<close>

definition ctrl_rd :: "csInvokeAll \<Rightarrow> u32 \<Rightarrow> u64" where
  "ctrl_rd cs cp =
     flag (isRead (oper cs)) 0 OR flag (clr_stat cs) 6 OR flag (strm cs) 4
     OR push_bit 9 (ucast (dest cs AND 0xf)) OR push_bit 17 (ucast (cp AND 0x3f))
     OR flag (oper cs = OFFLOAD) 2"

definition ctrl_wr :: "csInvokeAll \<Rightarrow> u32 \<Rightarrow> u64" where
  "ctrl_wr cs cp =
     flag (isWrite (oper cs)) 1 OR flag (clr_stat cs) 7 OR flag (strm cs) 5
     OR push_bit 23 (ucast (cp AND 0x3f)) OR flag (oper cs = SYNC) 3"

definition send_cmd :: "csInvokeAll \<Rightarrow> cProcess \<Rightarrow> cProcess" where
  "send_cmd cs p =
     (if en_avx (fcnfg p) then
        let len_cmd = push_bit 32 (ucast (dst_len cs)) OR ucast (src_len cs);
            ctrl_cmd = ctrl_rd cs (cpid p) OR ctrl_wr cs (cpid p)
        in wr_avx (avx_reg AVX_CTRL_REG) (len_cmd, dst_addr cs, src_addr cs, ctrl_cmd)
           (wr_avx (avx_reg AVX_REQ_COUNT_REG) (0, 0, 0, ucast (req_count cs))
           (wr_avx (avx_reg AVX_PRIO_STAT_REG) (0, 0, 0, ucast (prio cs)) p))
      else
        wr_leg (leg_reg LEG_CTRL_REG) (ctrl_wr cs (cpid p))
        (wr_leg (leg_reg LEG_LEN_WR_REG) (ucast (dst_len cs))
        (wr_leg (leg_reg LEG_VADDR_WR_REG) (dst_addr cs)
        (wr_leg (leg_reg LEG_CTRL_REG) (ctrl_rd cs (cpid p))
        (wr_leg (leg_reg LEG_LEN_RD_REG) (ucast (src_len cs))
        (wr_leg (leg_reg LEG_VADDR_RD_REG) (src_addr cs) p))))))"

text \<open>
  The polling loops. Each iteration reads the device once; the reads are given as a list and the
  loops return what is left of it. When the list ends before the loop does, the call is still
  spinning, the first component is \<open>False\<close> and the state is the one it spins in.
\<close>

fun poll_cnt :: "(dev \<Rightarrow> u32) \<Rightarrow> u32 \<Rightarrow> dev list \<Rightarrow> bool \<times> u32 \<times> dev list" where
  "poll_cnt rd cnt [] = (\<not> cnt > cmd_fifo_limit, cnt, [])"
| "poll_cnt rd cnt (d # ds) = (if cnt > cmd_fifo_limit then poll_cnt rd (rd d) ds else (True, cnt, d # ds))"

fun poll_done :: "(dev \<Rightarrow> u32) \<Rightarrow> dev list \<Rightarrow> bool \<times> dev list" where
  "poll_done rd [] = (False, [])"
| "poll_done rd (d # ds) = (if rd d = 0 then poll_done rd ds else (True, ds))"

definition rd_used :: "cProcess \<Rightarrow> dev \<Rightarrow> u32" where
  "rd_used p d =
     (if en_avx (fcnfg p) then LOW_16 (extract_epi32 (d_avx d (avx_reg AVX_STAT_REG)) 0)
      else ucast (d_leg d (leg_reg LEG_STAT_CMD_USED_RD_REG)))"

definition wr_used :: "cProcess \<Rightarrow> dev \<Rightarrow> u32" where
  "wr_used p d =
     (if en_avx (fcnfg p) then HIGH_16 (extract_epi32 (d_avx d (avx_reg AVX_STAT_REG)) 0)
      else ucast (d_leg d (leg_reg LEG_STAT_CMD_USED_WR_REG)))"

definition invokeAll :: "csInvokeAll \<Rightarrow> dev list \<Rightarrow> cProcess \<Rightarrow> bool \<times> dev list \<times> cProcess" where
  "invokeAll cs ds p =
     (if isSync (oper cs) \<and> \<not> en_mem (fcnfg p) then (True, ds, p)
      else if oper cs = NOOP then (True, ds, p)
      else
        let p1 = emit (EvLock DLOCK) p;
            (okr, rc, ds1) = (if isRead (oper cs) then poll_cnt (rd_used p1) (rd_cmd_cnt p1) ds
                              else (True, rd_cmd_cnt p1, ds));
            p2 = p1\<lparr>rd_cmd_cnt := rc\<rparr>
        in if \<not> okr then (False, ds1, p2)
           else
             let (okw, wc, ds2) = (if isWrite (oper cs) then poll_cnt (wr_used p2) (wr_cmd_cnt p2) ds1
                                   else (True, wr_cmd_cnt p2, ds1));
                 p3 = p2\<lparr>wr_cmd_cnt := wc\<rparr>
             in if \<not> okw then (False, ds2, p3)
                else
                  let p4 = send_cmd cs p3;
                      p5 = p4\<lparr>rd_cmd_cnt := rd_cmd_cnt p4 + 1, wr_cmd_cnt := wr_cmd_cnt p4 + 1\<rparr>;
                      p6 = emit (EvUnlock DLOCK) p5
                  in if poll cs then
                       let (ok, ds3) = poll_done (checkCompleted p6 (oper cs)) ds2 in (ok, ds3, p6)
                     else (True, ds2, p6))"

definition csInvoke_all :: "csInvoke \<Rightarrow> csInvokeAll" where
  "csInvoke_all ci =
     (let a = csInvokeAll_default\<lparr>oper := ci_oper ci\<rparr>;
          b = (if isRead (ci_oper ci) then a\<lparr>src_addr := ci_addr ci, src_len := ci_len ci\<rparr> else a);
          c = (if isWrite (ci_oper ci) then b\<lparr>dst_addr := ci_addr ci, dst_len := ci_len ci\<rparr> else b)
      in c\<lparr>clr_stat := ci_clr_stat ci, poll := ci_poll ci, strm := ci_strm ci, dest := ci_dest ci\<rparr>)"

definition invoke :: "csInvoke \<Rightarrow> dev list \<Rightarrow> cProcess \<Rightarrow> bool \<times> dev list \<times> cProcess" where
  "invoke ci = invokeAll (csInvoke_all ci)"

subsection \<open>Construction and destruction\<close>

text \<open>The destructor ignores the result of the unregister call. Its other failures throw.\<close>

definition cProcess_dtor :: "os \<Rightarrow> cProcess \<Rightarrow> (unit, cProcess) outcome" where
  "cProcess_dtor w p =
     (let p1 = emit (EvIoctl IOCTL_UNREGISTER_PID [scast (cpid p)]) p
      in andThen (each (userUnmap w) (mapped_upages p1) p1)
     (\<lambda>_ p. let p2 = p\<lparr>mapped_upages := []\<rparr>
             in andThen (each (freeMem w) (map fst (mapped_pages p2)) p2)
     (\<lambda>_ p. andThen (munmapFpga w (p\<lparr>mapped_pages := []\<rparr>))
     (\<lambda>_ p. (Inr (), emit EvClose p)))))"

definition cProcess_new :: "u32 \<Rightarrow> u32 \<Rightarrow> bool \<Rightarrow> cProcess" where
  "cProcess_new vf pd sched =
     \<lparr>vfid = vf, cpid = - 1, pid = pd, fcnfg = parseCnfg 0, csched = sched, rd_cmd_cnt = 0,
      wr_cmd_cnt = 0, rdma_cmd_cnt = 0, cnfg_reg_avx = 0, cnfg_reg = 0, ctrl_reg = 0, wback = 0,
      mapped_pages = [], mapped_upages = [], last_qp = 0, sched_calls = [], ptrace = []\<rparr>"

definition cProcess_ctor :: "os \<Rightarrow> u32 \<Rightarrow> u32 \<Rightarrow> bool \<Rightarrow> (unit, cProcess) outcome" where
  "cProcess_ctor w vf pd sched =
     (let p1 = emit (EvOpen vf) (cProcess_new vf pd sched)
      in if os_fails w (ptrace p1) then (Inl ''cProcess could not be obtained'', p1)
         else
           let p2 = emit (EvIoctl IOCTL_REGISTER_PID [scast pd]) p1
           in if os_fails w (ptrace p2) then (Inl ''ioctl_register_pid() failed'', p2)
              else
                let tmp1 = os_out w (ptrace p2);
                    p3 = emit (EvIoctl IOCTL_READ_CNFG [scast pd, tmp1]) (p2\<lparr>cpid := ucast tmp1\<rparr>)
                in if os_fails w (ptrace p3) then (Inl ''ioctl_read_cnfg() failed'', p3)
                   else andThen (mmapFpga w (p3\<lparr>fcnfg := parseCnfg (os_out w (ptrace p3))\<rparr>))
                          (\<lambda>_ p. (Inr (), clearCompleted p)))"

subsection \<open>RDMA\<close>

definition ibvCheckAcks :: "cProcess \<Rightarrow> dev \<Rightarrow> u32" where
  "ibvCheckAcks p d =
     (if en_wb (fcnfg p) then d_wback d (cpid p + (if qsfp (fcnfg p) \<noteq> 0 then 3 else 2) * nCpidMax)
      else if en_avx (fcnfg p) then
        extract_epi32 (d_avx d (avx_reg AVX_STAT_DMA_REG + cpid p)) (if qsfp (fcnfg p) \<noteq> 0 then 3 else 2)
      else if qsfp (fcnfg p) \<noteq> 0
        then ucast (HIGH_32 (d_leg d (leg_reg LEG_STAT_RDMA_REG + cpid p)))
        else ucast (LOW_32 (d_leg d (leg_reg LEG_STAT_RDMA_REG + cpid p))))"

definition checkIbvAcks :: "cProcess \<Rightarrow> dev \<Rightarrow> u32" where
  "checkIbvAcks p d =
     (if en_wb (fcnfg p) then d_wback d (cpid p + qsfp (fcnfg p) * nCpidMax + 2 * nCpidMax)
      else if en_avx (fcnfg p) then
        (if qsfp (fcnfg p) \<noteq> 0 then extract_epi32 (d_avx d (avx_reg AVX_STAT_DMA_REG + cpid p)) 3
         else extract_epi32 (d_avx d (avx_reg AVX_STAT_DMA_REG + cpid p)) 2)
      else if qsfp (fcnfg p) \<noteq> 0
        then ucast (HIGH_32 (d_leg d (leg_reg LEG_STAT_DMA_REG + cpid p + nCpidMax)))
        else ucast (LOW_32 (d_leg d (leg_reg LEG_STAT_DMA_REG + cpid p + nCpidMax))))"

text \<open>The completion: the process id and the sequence number, \<open>-1\<close> when there is none, in which
  case the reference argument keeps its value.\<close>

definition ibvGetCompleted :: "cProcess \<Rightarrow> dev \<Rightarrow> u32 \<Rightarrow> u32 \<times> u32" where
  "ibvGetCompleted p d cp =
     (let cmplt_meta = (if en_avx (fcnfg p) then extract_epi64 (d_avx d (avx_reg AVX_RDMA_CMPLT_REG)) 0
                        else d_leg d (leg_reg LEG_RDMA_CMPLT_REG))
      in if cmplt_meta AND 1 \<noteq> 0
         then (ucast (drop_bit 16 cmplt_meta AND 0x3f), ucast (HIGH_32 cmplt_meta))
         else (cp, - 1))"

definition postPrep :: "u64 \<Rightarrow> u64 \<Rightarrow> u64 \<Rightarrow> u64 \<Rightarrow> u32 \<Rightarrow> cProcess \<Rightarrow> cProcess" where
  "postPrep o3 o2 o1 o0 offs_reg p =
     (let p1 = emit (EvLock DLOCK) p; q = qsfp_offs (fcnfg p);
          p2 = (if en_avx (fcnfg p) then
                  wr_avx (avx_reg AVX_RDMA_POST_REG_0 + q + offs_reg) (o3, o2, o1, o0) p1
                else
                  wr_leg (leg_reg LEG_RDMA_POST_REG_3 + q + offs_reg * 4) o3
                  (wr_leg (leg_reg LEG_RDMA_POST_REG_2 + q + offs_reg * 4) o2
                  (wr_leg (leg_reg LEG_RDMA_POST_REG_1 + q + offs_reg * 4) o1
                  (wr_leg (leg_reg LEG_RDMA_POST_REG_0 + q + offs_reg * 4) o0 p1))))
      in emit (EvUnlock DLOCK) p2)"

definition rdma_used :: "cProcess \<Rightarrow> dev \<Rightarrow> u32" where
  "rdma_used p d =
     (if en_avx (fcnfg p) then extract_epi32 (d_avx d (avx_reg AVX_RDMA_STAT_REG + qsfp_offs (fcnfg p))) 0
      else ucast (d_leg d (leg_reg LEG_RDMA_STAT_CMD_USED_REG + qsfp_offs (fcnfg p))))"

definition postCmd :: "u64 \<Rightarrow> u64 \<Rightarrow> u64 \<Rightarrow> u64 \<Rightarrow> dev list \<Rightarrow> cProcess \<Rightarrow> bool \<times> dev list \<times> cProcess" where
  "postCmd o3 o2 o1 o0 ds p =
     (let p1 = emit (EvLock DLOCK) p; q = qsfp_offs (fcnfg p);
          (ok, rc, ds1) = poll_cnt (rdma_used p1) (rdma_cmd_cnt p1) ds;
          p2 = p1\<lparr>rdma_cmd_cnt := rc\<rparr>
      in if \<not> ok then (False, ds1, p2)
         else
           let p3 = (if en_avx (fcnfg p) then wr_avx (avx_reg AVX_RDMA_POST_REG + q) (o3, o2, o1, o0) p2
                     else
                       wr_leg (leg_reg LEG_RDMA_POST_REG + q) 1
                       (wr_leg (leg_reg LEG_RDMA_POST_REG_3 + q) o3
                       (wr_leg (leg_reg LEG_RDMA_POST_REG_2 + q) o2
                       (wr_leg (leg_reg LEG_RDMA_POST_REG_1 + q) o1
                       (wr_leg (leg_reg LEG_RDMA_POST_REG_0 + q) o0 p2)))))
           in (True, ds1, emit (EvUnlock DLOCK) (p3\<lparr>rdma_cmd_cnt := rdma_cmd_cnt p3 + 1\<rparr>)))"

definition clearIbvAcks :: "cProcess \<Rightarrow> cProcess" where
  "clearIbvAcks p =
     (let v = push_bit 6 (ucast (cpid p AND 0x3f)) OR push_bit 19 1
      in if en_avx (fcnfg p) then wr_avx (avx_reg AVX_RDMA_POST_REG) (0, 0, 0, v) p
         else wr_leg (leg_reg LEG_RDMA_POST_REG) v p)"

text \<open>The first word of a posted command.\<close>

definition post_offs_0 :: "ibvQp \<Rightarrow> ibvSendWr \<Rightarrow> u64" where
  "post_offs_0 qp wr =
     (let q = ucast (qpn (qp_local qp)) :: u64; f = send_flags wr
      in push_bit 0 1
         OR push_bit 1 (ibv_code (opcode wr) AND 0x1f)
         OR push_bit 6 (q AND 0x3f)
         OR push_bit 12 (drop_bit 6 q AND 0xf)
         OR flag (sf_host f) 16 OR flag (sf_mode f) 17 OR flag (sf_last f) 18 OR flag (sf_clr f) 19)"

text \<open>The commands of one scatter/gather entry.\<close>

definition post_rdma :: "ibvQp \<Rightarrow> u64 \<Rightarrow> ibvSge \<Rightarrow> dev list \<Rightarrow> cProcess \<Rightarrow> bool \<times> dev list \<times> cProcess" where
  "post_rdma qp o0 sg =
     postCmd (ucast (rdma_len sg)) (vaddr (qp_remote qp) + rdma_remote_offs sg)
             (vaddr (qp_local qp) + rdma_local_offs sg) o0"

definition post_send :: "u64 \<Rightarrow> ibvSge \<Rightarrow> dev list \<Rightarrow> cProcess \<Rightarrow> bool \<times> dev list \<times> cProcess" where
  "post_send o0 sg = postCmd 0 (ucast (send_len sg)) (send_local_addr sg) o0"

definition post_immed :: "ibvOpcode \<Rightarrow> u64 \<Rightarrow> ibvSge \<Rightarrow> dev list \<Rightarrow> cProcess \<Rightarrow> bool \<times> dev list \<times> cProcess" where
  "post_immed oc o0 sg ds p =
     (let prm = immed_params sg;
          p1 = (if oc = IBV_WR_IMMED_HIGH then postPrep 0 0 0 (prm 7) 1 p else p);
          p2 = (if oc = IBV_WR_IMMED_HIGH \<or> oc = IBV_WR_IMMED_MID
                then postPrep (prm 6) (prm 5) (prm 4) (prm 3) 0 p1 else p1)
      in postCmd (prm 2) (prm 1) (prm 0) o0 ds p2)"

fun each_sge ::
  "(ibvSge \<Rightarrow> dev list \<Rightarrow> cProcess \<Rightarrow> bool \<times> dev list \<times> cProcess) \<Rightarrow> ibvSge list \<Rightarrow> dev list \<Rightarrow> cProcess
   \<Rightarrow> bool \<times> dev list \<times> cProcess"
where
  "each_sge f [] ds p = (True, ds, p)"
| "each_sge f (sg # sgs) ds p =
     (case f sg ds p of (ok, ds', p') \<Rightarrow> if ok then each_sge f sgs ds' p' else (False, ds', p'))"

fun copy_sge :: "ibvQp \<Rightarrow> ibvSge list \<Rightarrow> cProcess \<Rightarrow> cProcess" where
  "copy_sge qp [] p = p"
| "copy_sge qp (sg # sgs) p =
     copy_sge qp sgs (emit (EvMemcpy (vaddr (qp_remote qp) + rdma_remote_offs sg)
                                     (vaddr (qp_local qp) + rdma_local_offs sg) (ucast (rdma_len sg))) p)"

definition ibvPostSend :: "ibvQp \<Rightarrow> ibvSendWr \<Rightarrow> dev list \<Rightarrow> cProcess \<Rightarrow> bool \<times> dev list \<times> cProcess" where
  "ibvPostSend qp wr ds p =
     (if en_rdma (fcnfg p) then
        let (ok, ds', p') =
          (if ip_addr (qp_local qp) = ip_addr (qp_remote qp) then (True, ds, copy_sge qp (sge_used wr) p)
           else if isRDMA wr then each_sge (post_rdma qp (post_offs_0 qp wr)) (sge_used wr) ds p
           else if isSEND wr then each_sge (post_send (post_offs_0 qp wr)) (sge_used wr) ds p
           else each_sge (post_immed (opcode wr) (post_offs_0 qp wr)) (sge_used wr) ds p)
        in if ok then (True, ds', p'\<lparr>last_qp := qp_id qp\<rparr>) else (False, ds', p')
      else (True, ds, p))"

subsection \<open>Network management\<close>

definition drv_call :: "os \<Rightarrow> ioctlCmd \<Rightarrow> u64 list \<Rightarrow> string \<Rightarrow> cProcess \<Rightarrow> (unit, cProcess) outcome" where
  "drv_call w cmd args msg p =
     (let p1 = emit (EvIoctl cmd args) p
      in if os_fails w (ptrace p1) then (Inl msg, p1) else (Inr (), p1))"

definition doArpLookup :: "os \<Rightarrow> u32 \<Rightarrow> cProcess \<Rightarrow> (unit, cProcess) outcome" where
  "doArpLookup w ip p =
     drv_call w IOCTL_ARP_LOOKUP [ucast (qsfp (fcnfg p)), ucast ip] ''ioctl_arp_lookup() failed'' p"

definition qp_context :: "ibvQp \<Rightarrow> u64 \<times> u64 \<times> u64" where
  "qp_context qp =
     (push_bit 32 (ucast (qpn (qp_local qp)) AND 0x3ff),
      push_bit 24 (ucast (psn (qp_local qp)) AND 0xffffff) OR push_bit 0 (ucast (psn (qp_remote qp)) AND 0xffffff),
      push_bit 16 (vaddr (qp_remote qp) AND 0xffffffffffff) OR push_bit 0 (ucast (rkey (qp_remote qp)) AND 0xffff))"

definition writeQpContext :: "os \<Rightarrow> ibvQp \<Rightarrow> cProcess \<Rightarrow> (unit, cProcess) outcome" where
  "writeQpContext w qp p =
     (if en_rdma (fcnfg p) then
        case qp_context qp of (o1, o2, o3) \<Rightarrow>
          drv_call w IOCTL_WRITE_CTX [ucast (qsfp (fcnfg p)), o1, o2, o3] ''ioctl_write_ctx() failed'' p
      else (Inr (), p))"

definition conn_context :: "ibvQp \<Rightarrow> u32 \<Rightarrow> u64 \<times> u64 \<times> u64" where
  "conn_context qp port =
     (let g = (\<lambda>i. ucast (gidToUint i (qp_remote qp)) AND 0xffffffff :: u64)
      in (push_bit 40 (ucast port AND 0xffff) OR push_bit 16 (ucast (qpn (qp_remote qp)) AND 0xffffff)
            OR push_bit 0 (ucast (qpn (qp_local qp)) AND 0xffff),
          push_bit 32 (g 8) OR push_bit 0 (g 0),
          push_bit 32 (g 24) OR push_bit 0 (g 16)))"

definition writeConnContext :: "os \<Rightarrow> ibvQp \<Rightarrow> u32 \<Rightarrow> cProcess \<Rightarrow> (unit, cProcess) outcome" where
  "writeConnContext w qp port p =
     (if en_rdma (fcnfg p) then
        case conn_context qp port of (o1, o2, o3) \<Rightarrow>
          drv_call w IOCTL_WRITE_CONN [ucast (qsfp (fcnfg p)), o1, o2, o3] ''ioctl_write_conn() failed'' p
      else (Inr (), p))"

definition netDrop :: "os \<Rightarrow> bool \<Rightarrow> bool \<Rightarrow> u32 \<Rightarrow> cProcess \<Rightarrow> (unit, cProcess) outcome" where
  "netDrop w clr dir packet_id p =
     drv_call w IOCTL_NET_DROP [ucast (qsfp (fcnfg p)), of_bool clr, of_bool dir, ucast packet_id]
       ''ioctl_net_drop() failed'' p"

subsection \<open>The I/O switch\<close>

definition ioSwitch :: "IODevs \<Rightarrow> cProcess \<Rightarrow> cProcess" where
  "ioSwitch io_dev p =
     (if en_avx (fcnfg p) then wr_avx (avx_reg AVX_IO_SWITCH_REG) (0, 0, 0, ucast (iodev_code io_dev)) p
      else wr_leg (leg_reg LEG_IO_SWITCH_REG) (ucast (iodev_code io_dev)) p)"

text \<open>\<open>ioStatus\<close> reads through the AVX pointer whatever the configuration: \<open>None\<close> is the access
  through a null pointer.\<close>

definition ioStatus :: "cProcess \<Rightarrow> dev \<Rightarrow> u64 option" where
  "ioStatus p d =
     (if cnfg_reg_avx p = 0 then None else Some (extract_epi64 (d_avx d (avx_reg AVX_IO_SWITCH_REG)) 0))"

definition userInIOSwtch :: "u8 \<Rightarrow> IODevs" where
  "userInIOSwtch user_req =
     (if user_req = 0b00000001 then HOST_MEM
      else if user_req = 0b00000010 then FPGA_DRAM
      else if user_req = 0b00000101 then RDMA_0_HOST_SEND
      else if user_req = 0b00001001 then RDMA_0_HOST_RECEIVE
      else if user_req = 0b00000110 then RDMA_0_CARD_SEND
      else if user_req = 0b00001010 then RDMA_0_CARD_RECEIVE
      else if user_req = 0b00010001 then RDMA_1_HOST_SEND
      else if user_req = 0b00100001 then RDMA_1_HOST_RECEIVE
      else if user_req = 0b00010010 then RDMA_1_CARD_SEND
      else if user_req = 0b00100010 then RDMA_1_CARD_RECEIVE
      else ERROR_DEV)"

subsection \<open>Frame lemmas\<close>

lemma emit_simps [simp]:
  "ptrace (emit e p) = ptrace p @ [e]" "fcnfg (emit e p) = fcnfg p" "cpid (emit e p) = cpid p"
  "mapped_pages (emit e p) = mapped_pages p" "mapped_upages (emit e p) = mapped_upages p"
  "rd_cmd_cnt (emit e p) = rd_cmd_cnt p" "wr_cmd_cnt (emit e p) = wr_cmd_cnt p"
  "rdma_cmd_cnt (emit e p) = rdma_cmd_cnt p" "csched (emit e p) = csched p"
  "cnfg_reg_avx (emit e p) = cnfg_reg_avx p" "cnfg_reg (emit e p) = cnfg_reg p"
  "ctrl_reg (emit e p) = ctrl_reg p" "wback (emit e p) = wback p"
  by (simp_all add: emit_def)

lemmas reg_defs = wr_avx_def wr_leg_def

definition no_lock :: "cProcess \<Rightarrow> bool" where
  "no_lock p \<longleftrightarrow> (\<forall>m. lock_state m (ptrace p) = Some False)"

definition only_held :: "namedMutex \<Rightarrow> cProcess \<Rightarrow> bool" where
  "only_held m p \<longleftrightarrow> (\<forall>n. lock_state n (ptrace p) = Some (n = m))"

fun lock_event :: "sysEvent \<Rightarrow> bool" where
  "lock_event (EvLock m) = True"
| "lock_event (EvUnlock m) = True"
| "lock_event e = False"

lemma lock_after_other [simp]: "\<not> lock_event e \<Longrightarrow> lock_after m h e = h"
  by (cases "(m, h, e)" rule: lock_after.cases) auto

text \<open>Critical sections are read off a trace from its end.\<close>

lemma no_lock_emit [simp]:
  "\<not> lock_event e \<Longrightarrow> no_lock (emit e p) \<longleftrightarrow> no_lock p"
  "\<not> lock_event e \<Longrightarrow> only_held m (emit e p) \<longleftrightarrow> only_held m p"
  by (simp_all add: no_lock_def only_held_def)

lemma lock_after_True_iff:
  "lock_after n h (EvLock m) = Some (n = m) \<longleftrightarrow> h = Some False"
  "lock_after n h (EvUnlock m) = Some False \<longleftrightarrow> h = Some (n = m)"
  by (cases h; auto)+

lemma no_lock_section [simp]:
  "no_lock (emit (EvUnlock m) p) \<longleftrightarrow> only_held m p"
  "only_held m (emit (EvLock m) p) \<longleftrightarrow> no_lock p"
  by (simp_all add: no_lock_def only_held_def lock_after_True_iff)

lemma no_lock_update [simp]:
  "no_lock (p\<lparr>mapped_pages := a\<rparr>) = no_lock p" "no_lock (p\<lparr>mapped_upages := b\<rparr>) = no_lock p"
  "no_lock (p\<lparr>cnfg_reg_avx := c\<rparr>) = no_lock p" "no_lock (p\<lparr>cnfg_reg := c\<rparr>) = no_lock p"
  "no_lock (p\<lparr>ctrl_reg := c\<rparr>) = no_lock p" "no_lock (p\<lparr>wback := c\<rparr>) = no_lock p"
  "no_lock (p\<lparr>rd_cmd_cnt := d\<rparr>) = no_lock p" "no_lock (p\<lparr>wr_cmd_cnt := d\<rparr>) = no_lock p"
  "no_lock (p\<lparr>rdma_cmd_cnt := d\<rparr>) = no_lock p" "no_lock (p\<lparr>last_qp := d\<rparr>) = no_lock p"
  "no_lock (p\<lparr>fcnfg := f\<rparr>) = no_lock p" "no_lock (p\<lparr>cpid := d\<rparr>) = no_lock p"
  by (simp_all add: no_lock_def)

subsection \<open>Locks are released on every path\<close>

lemma userMap_no_lock: "no_lock p \<Longrightarrow> no_lock (snd (userMap w va len p))"
  by (simp add: userMap_def Let_def)

lemma userUnmap_no_lock: "no_lock p \<Longrightarrow> no_lock (snd (userUnmap w va p))"
  by (simp add: userUnmap_def Let_def)

lemma drv_call_no_lock: "no_lock p \<Longrightarrow> no_lock (snd (drv_call w cmd args msg p))"
  by (simp add: drv_call_def Let_def)

lemma map_region_no_lock: "no_lock p \<Longrightarrow> no_lock (snd (map_region w len offs msg p))"
  by (simp add: map_region_def Let_def)

lemma unmap_region_no_lock: "no_lock p \<Longrightarrow> no_lock (snd (unmap_region w a len msg p))"
  by (simp add: unmap_region_def Let_def)

lemmas no_lock_steps =
  userMap_no_lock userUnmap_no_lock drv_call_no_lock map_region_no_lock unmap_region_no_lock
  snd_andThen_keeps [where P = no_lock] snd_each_keeps [where P = no_lock]

lemma mmapFpga_no_lock: "no_lock p \<Longrightarrow> no_lock (snd (mmapFpga w p))"
  by (auto simp: mmapFpga_def Let_def intro!: no_lock_steps)

lemma munmapFpga_no_lock: "no_lock p \<Longrightarrow> no_lock (snd (munmapFpga w p))"
  by (auto simp: munmapFpga_def intro!: no_lock_steps)

lemma getMem_no_lock: "no_lock p \<Longrightarrow> no_lock (snd (getMem w al p))"
  by (cases "ca_alloc al") (auto simp: getMem_def Let_def intro!: no_lock_steps)

lemma freeMem_no_lock: "no_lock p \<Longrightarrow> no_lock (snd (freeMem w va p))"
  by (auto simp: freeMem_def Let_def intro!: no_lock_steps split: option.split CoyoteAlloc.split)

lemma ctor_no_lock: "no_lock (snd (cProcess_ctor w vf pd sched))"
proof -
  have "no_lock (cProcess_new vf pd sched)" by (simp add: no_lock_def cProcess_new_def)
  then show ?thesis
    by (auto simp: cProcess_ctor_def Let_def clearCompleted_def reg_defs
        intro!: no_lock_steps mmapFpga_no_lock)
qed

lemma dtor_no_lock: "no_lock p \<Longrightarrow> no_lock (snd (cProcess_dtor w p))"
  by (auto simp: cProcess_dtor_def Let_def intro!: no_lock_steps freeMem_no_lock munmapFpga_no_lock)

text \<open>The methods that call the driver, as one operation type.\<close>

datatype (plugins only: size) procCall =
    CGetMem csAlloc | CFreeMem u64 | CUserMap u64 u32 | CUserUnmap u64 | CArp u32
  | CQpCtx ibvQp | CConnCtx ibvQp u32 | CNetDrop bool bool u32 | CSetCSR u64 u32 | CIoSwitch IODevs

definition void :: "('a, 's) outcome \<Rightarrow> (unit, 's) outcome" where
  "void r = andThen r (\<lambda>_ s. (Inr (), s))"

lemma snd_void [simp]: "snd (void r) = snd r"
  by (auto simp: void_def andThen_def split: prod.splits sum.splits)

fun proc_call :: "os \<Rightarrow> procCall \<Rightarrow> cProcess \<Rightarrow> (unit, cProcess) outcome" where
  "proc_call w (CGetMem al) p = void (getMem w al p)"
| "proc_call w (CFreeMem a) p = freeMem w a p"
| "proc_call w (CUserMap a l) p = userMap w a l p"
| "proc_call w (CUserUnmap a) p = userUnmap w a p"
| "proc_call w (CArp ip) p = doArpLookup w ip p"
| "proc_call w (CQpCtx qp) p = writeQpContext w qp p"
| "proc_call w (CConnCtx qp port) p = writeConnContext w qp port p"
| "proc_call w (CNetDrop c d i) p = netDrop w c d i p"
| "proc_call w (CSetCSR v i) p = (Inr (), setCSR v i p)"
| "proc_call w (CIoSwitch d) p = (Inr (), ioSwitch d p)"

lemma proc_call_no_lock: "no_lock p \<Longrightarrow> no_lock (snd (proc_call w op p))"
  by (cases op)
     (simp_all add: getMem_no_lock freeMem_no_lock userMap_no_lock userUnmap_no_lock
       drv_call_no_lock doArpLookup_def netDrop_def writeQpContext_def writeConnContext_def
       setCSR_def ioSwitch_def wr_avx_def wr_leg_def
       split: prod.split)

interpretation proc: lock_discipline ptrace "proc_call w" for w
  using proc_call_no_lock by unfold_locales (auto simp: no_lock_def)

text \<open>C31. Whatever sequence of driver calls a client makes and whatever the system answers, no
  named mutex is left locked, even when calls throw; destroying the object afterwards keeps that.\<close>

theorem process_calls_release_locks:
  "lock_state m (ptrace (snd (cProcess_dtor w
     (run_inputs (\<lambda>op p. snd (proc_call w op p)) ops (snd (cProcess_ctor w' vf pd sched)))))) = Some False"
proof -
  have "no_lock (run_inputs (\<lambda>op p. snd (proc_call w op p)) ops (snd (cProcess_ctor w' vf pd sched)))"
    using proc.calls_release ctor_no_lock unfolding no_lock_def by blast
  from dtor_no_lock [OF this] show ?thesis by (simp add: no_lock_def)
qed

subsection \<open>Transfers\<close>

lemma poll_cnt_ready:
  assumes "poll_cnt rd cnt ds = (ok, cnt', ds')" "Suc n \<le> length (filter P ds)"
    and "\<And>d. P d \<Longrightarrow> rd d \<le> cmd_fifo_limit"
  shows "ok \<and> cnt' \<le> cmd_fifo_limit \<and> n \<le> length (filter P ds')"
  using assms
proof (induction rd cnt ds rule: poll_cnt.induct)
  case (1 rd cnt)
  then show ?case by simp
next
  case (2 rd cnt d ds)
  show ?case
  proof (cases "cnt > cmd_fifo_limit")
    case False
    then show ?thesis using 2 by auto
  next
    case True
    note busy = this
    have "poll_cnt rd (rd d) ds = (True, rd d, ds)" if "P d"
      using 2(4) [OF that] by (cases ds) auto
    then show ?thesis
      using busy 2 by (cases "P d") auto
  qed
qed

lemma poll_cnt_ok: "poll_cnt rd cnt ds = (True, cnt', ds') \<Longrightarrow> cnt' \<le> cmd_fifo_limit"
  by (induction rd cnt ds rule: poll_cnt.induct) (auto split: if_splits)

lemma poll_done_ready:
  "\<lbrakk>0 < length (filter P ds); \<And>d. P d \<Longrightarrow> rd d \<noteq> 0\<rbrakk> \<Longrightarrow> fst (poll_done rd ds)"
  by (induction rd ds rule: poll_done.induct) (auto split: if_splits)

lemma send_cmd_keeps [simp]:
  "fcnfg (send_cmd cs p) = fcnfg p" "cpid (send_cmd cs p) = cpid p"
  "rd_cmd_cnt (send_cmd cs p) = rd_cmd_cnt p" "wr_cmd_cnt (send_cmd cs p) = wr_cmd_cnt p"
  by (simp_all add: send_cmd_def reg_defs Let_def)

text \<open>The register writes of a command, in order.\<close>

definition cmd_events :: "fCnfg \<Rightarrow> u32 \<Rightarrow> csInvokeAll \<Rightarrow> sysEvent list" where
  "cmd_events c cp cs = ptrace (send_cmd cs ((cProcess_new 0 0 False)\<lparr>fcnfg := c, cpid := cp\<rparr>))"

lemma ptrace_send_cmd [simp]: "ptrace (send_cmd cs p) = ptrace p @ cmd_events (fcnfg p) (cpid p) cs"
  by (simp add: cmd_events_def send_cmd_def reg_defs Let_def cProcess_new_def)

lemma cmd_events_no_lock: "e \<in> set (cmd_events c cp cs) \<Longrightarrow> \<not> lock_event e"
  by (auto simp: cmd_events_def send_cmd_def reg_defs Let_def cProcess_new_def split: if_splits)

lemma foldl_lock_after: "(\<And>e. e \<in> set es \<Longrightarrow> \<not> lock_event e) \<Longrightarrow> foldl (lock_after m) h es = h"
  by (induction es arbitrary: h) auto

lemma cmd_events_lock [simp]: "foldl (lock_after m) h (cmd_events c cp cs) = h"
  by (rule foldl_lock_after) (rule cmd_events_no_lock)

lemma check_cong:
  "fcnfg q = fcnfg p \<Longrightarrow> cpid q = cpid p \<Longrightarrow> checkCompleted q op = checkCompleted p op"
  "fcnfg q = fcnfg p \<Longrightarrow> rd_used q = rd_used p"
  "fcnfg q = fcnfg p \<Longrightarrow> wr_used q = wr_used p"
  "fcnfg q = fcnfg p \<Longrightarrow> rdma_used q = rdma_used p"
  by (auto simp: checkCompleted_def rd_used_def wr_used_def rdma_used_def fun_eq_iff)

lemma word_inc_22: "x \<le> 22 \<Longrightarrow> x + 1 \<le> (23 :: u32)"
  by unat_arith

text \<open>The three ways a call goes.\<close>

lemma invokeAll_cases [consumes 1, case_names idle fifo_full sent]:
  assumes "invokeAll cs ds p = (ok, ds', p')"
  obtains "ok" "p' = p" "ds' = ds" "oper cs = NOOP \<or> isSync (oper cs) \<and> \<not> en_mem (fcnfg p)"
  | "\<not> ok" "ptrace p' = ptrace p @ [EvLock DLOCK]"
  | rc wc where "ok \<or> poll cs"
      "isRead (oper cs) \<longrightarrow> rc \<le> cmd_fifo_limit" "isWrite (oper cs) \<longrightarrow> wc \<le> cmd_fifo_limit"
      "rd_cmd_cnt p' = rc + 1" "wr_cmd_cnt p' = wc + 1"
      "ptrace p' = ptrace p @ [EvLock DLOCK] @ cmd_events (fcnfg p) (cpid p) cs @ [EvUnlock DLOCK]"
proof (cases "oper cs = NOOP \<or> isSync (oper cs) \<and> \<not> en_mem (fcnfg p)")
  case True
  then have "invokeAll cs ds p = (True, ds, p)" by (auto simp: invokeAll_def isSync_def)
  with True show ?thesis using assms that(1) by simp
next
  case False
  let ?p1 = "emit (EvLock DLOCK) p"
  obtain okr rc ds1 where r: "(if isRead (oper cs) then poll_cnt (rd_used ?p1) (rd_cmd_cnt ?p1) ds
      else (True, rd_cmd_cnt ?p1, ds)) = (okr, rc, ds1)" by (metis prod_cases3)
  let ?p2 = "?p1\<lparr>rd_cmd_cnt := rc\<rparr>"
  obtain okw wc ds2 where w: "(if isWrite (oper cs) then poll_cnt (wr_used ?p2) (wr_cmd_cnt ?p2) ds1
      else (True, wr_cmd_cnt ?p2, ds1)) = (okw, wc, ds2)" by (metis prod_cases3)
  note eq = assms [unfolded invokeAll_def Let_def r w prod.case]
  show ?thesis
  proof (cases "okr \<and> okw")
    case True
    have "isRead (oper cs) \<longrightarrow> rc \<le> cmd_fifo_limit" "isWrite (oper cs) \<longrightarrow> wc \<le> cmd_fifo_limit"
      using True r w poll_cnt_ok by (metis (full_types))+
    then show ?thesis
      using that(3) [of rc wc] eq False True by (auto split: if_splits prod.splits)
  next
    case blocked: False
    then show ?thesis using that(2) eq False by (auto split: if_splits)
  qed
qed

text \<open>C2. A transfer is sent at most once, and only inside the critical section: either nothing
  happens (a no-operation, or card memory traffic on a board without card memory), or the call is
  still waiting for room in the command FIFO, holding exactly the data lock with nothing sent, or
  the command words were written once between lock and unlock and no lock is held. In the last
  case the counter that was checked is within the FIFO threshold.\<close>

theorem invoke_sends_once:
  assumes "no_lock p" "invokeAll cs ds p = (ok, ds', p')"
  shows "(ok \<and> p' = p \<and> (oper cs = NOOP \<or> isSync (oper cs) \<and> \<not> en_mem (fcnfg p)))
    \<or> (\<not> ok \<and> only_held DLOCK p' \<and> ptrace p' = ptrace p @ [EvLock DLOCK])
    \<or> (no_lock p' \<and> ptrace p' = ptrace p @ [EvLock DLOCK] @ cmd_events (fcnfg p) (cpid p) cs @ [EvUnlock DLOCK]
       \<and> (ok \<or> poll cs)
       \<and> (isRead (oper cs) \<longrightarrow> rd_cmd_cnt p' \<le> cmd_fifo_limit + 1)
       \<and> (isWrite (oper cs) \<longrightarrow> wr_cmd_cnt p' \<le> cmd_fifo_limit + 1))"
  using assms(2)
proof (cases rule: invokeAll_cases)
  case idle
  then show ?thesis by simp
next
  case fifo_full
  with assms(1) show ?thesis by (simp add: no_lock_def only_held_def)
next
  case (sent rc wc)
  with assms(1) show ?thesis by (auto simp: no_lock_def word_inc_22)
qed

theorem invoke_sends_once_witness:
  "case invokeAll (csInvokeAll_default\<lparr>oper := READ, poll := False\<rparr>) [] (cProcess_new 0 0 False) of
     (ok, ds', p') \<Rightarrow> ok \<and> no_lock p' \<and> rd_cmd_cnt p' \<le> 23
       \<and> ptrace p' = EvLock DLOCK # cmd_events (parseCnfg 0) (- 1) (csInvokeAll_default\<lparr>oper := READ, poll := False\<rparr>)
                     @ [EvUnlock DLOCK]"
proof -
  let ?cs = "csInvokeAll_default\<lparr>oper := READ, poll := False\<rparr>" and ?p = "cProcess_new 0 0 False"
  obtain ok ds' p' where i: "invokeAll ?cs [] ?p = (ok, ds', p')" by (metis prod_cases3)
  have "no_lock ?p" by (simp add: no_lock_def cProcess_new_def)
  moreover have "ok" "ptrace p' \<noteq> ptrace ?p"
    using i by (auto simp: invokeAll_def isSync_def isRead_def isWrite_def cProcess_new_def)
  ultimately show ?thesis
    unfolding i using invoke_sends_once [OF _ i]
    by (auto simp: isRead_def isSync_def) (simp_all add: cProcess_new_def)
qed

text \<open>C37. A transfer returns: however long the device reports full FIFOs and an unfinished
  transfer, after three reads of its registers that find room in both FIFOs and the transfer
  completed, the call has returned and the data lock is free again.\<close>

theorem invoke_returns:
  assumes "no_lock p"
    and "3 \<le> length (filter (\<lambda>d. rd_used p d \<le> cmd_fifo_limit \<and> wr_used p d \<le> cmd_fifo_limit
                                \<and> checkCompleted p (oper cs) d \<noteq> 0) ds)"
  shows "\<exists>ds' p'. invokeAll cs ds p = (True, ds', p') \<and> no_lock p'"
proof -
  let ?P = "\<lambda>d. rd_used p d \<le> cmd_fifo_limit \<and> wr_used p d \<le> cmd_fifo_limit
               \<and> checkCompleted p (oper cs) d \<noteq> 0"
  let ?p1 = "emit (EvLock DLOCK) p"
  have u: "rd_used ?p1 = rd_used p" "wr_used (?p1\<lparr>rd_cmd_cnt := c\<rparr>) = wr_used p" for c
    by (rule check_cong; simp)+
  obtain okr rc ds1 where r: "(if isRead (oper cs) then poll_cnt (rd_used ?p1) (rd_cmd_cnt ?p1) ds
      else (True, rd_cmd_cnt ?p1, ds)) = (okr, rc, ds1)" by (metis prod_cases3)
  have ds1: "okr \<and> Suc 1 \<le> length (filter ?P ds1)"
    using r assms(2) poll_cnt_ready [of "rd_used p" "rd_cmd_cnt p" ds okr rc ds1 2 ?P]
    by (auto simp: u split: if_splits)
  let ?p2 = "?p1\<lparr>rd_cmd_cnt := rc\<rparr>"
  obtain okw wc ds2 where w: "(if isWrite (oper cs) then poll_cnt (wr_used ?p2) (wr_cmd_cnt ?p2) ds1
      else (True, wr_cmd_cnt ?p2, ds1)) = (okw, wc, ds2)" by (metis prod_cases3)
  have ds2: "okw \<and> 1 \<le> length (filter ?P ds2)"
    using w ds1 poll_cnt_ready [of "wr_used p" "wr_cmd_cnt p" ds1 okw wc ds2 1 ?P]
    by (auto simp: u split: if_splits)
  have fin: "fst (poll_done (checkCompleted q (oper cs)) ds2)" if "fcnfg q = fcnfg p" "cpid q = cpid p" for q
    using ds2 that by (intro poll_done_ready [of ?P]) (auto simp: check_cong(1) [of q p])
  obtain ok ds' p' where i: "invokeAll cs ds p = (ok, ds', p')" by (metis prod_cases3)
  have ok: "ok"
    using i [unfolded invokeAll_def Let_def r w prod.case] ds1 ds2 fin
    by (auto simp: case_prod_beta split: if_splits)
  from i ok assms(1) have "no_lock p'"
    by (cases rule: invokeAll_cases) (auto simp: no_lock_def)
  with i ok show ?thesis by auto
qed

theorem invoke_returns_witness:
  "let d = \<lparr>d_avx = \<lambda>_. (0, 0, 0, 0), d_leg = \<lambda>_. 0, d_wback = \<lambda>_. 1, d_ctrl = \<lambda>_. 0\<rparr>;
       busy = \<lparr>d_avx = \<lambda>_. (0, 0, 0, 0), d_leg = \<lambda>_. 32, d_wback = \<lambda>_. 0, d_ctrl = \<lambda>_. 0\<rparr>;
       p = (cProcess_new 0 0 False)\<lparr>fcnfg := parseCnfg 8, cpid := 2, rd_cmd_cnt := 30\<rparr>
   in \<exists>ds' p'. invokeAll (csInvokeAll_default\<lparr>oper := TRANSFER\<rparr>) [busy, d, busy, d, busy, d] p = (True, ds', p')
        \<and> no_lock p'"
  unfolding Let_def
  by (rule invoke_returns)
     (simp_all add: no_lock_def cProcess_new_def rd_used_def wr_used_def checkCompleted_def parseCnfg_def
       isWrite_def bit_numeral_rec Let_def)

subsection \<open>Words handed to the device\<close>

lemma bit_flag [simp]: "bit (flag b n) k \<longleftrightarrow> b \<and> k = n \<and> n < 64"
  by (auto simp: flag_def bit_exp_iff)

lemma and_mask_consts:
  "x AND 0xf = take_bit 4 (x :: 'a::len word)" "x AND 0x1f = take_bit 5 x" "x AND 0x3f = take_bit 6 x"
  "x AND 0x3ff = take_bit 10 x" "x AND 0xffff = take_bit 16 x" "x AND 0xffffff = take_bit 24 x"
  "x AND 0xffffffff = take_bit 32 x" "x AND 0xffffffffffff = take_bit 48 x"
  by (simp_all add: take_bit_eq_mask mask_eq_exp_minus_1)

lemmas bit_word_simps =
  bit_or_iff bit_push_bit_iff bit_take_bit_iff bit_drop_bit_eq bit_unsigned_iff bit_1_iff bit_and_iff

text \<open>The control word of a transfer decodes to what was asked for: every flag and every field
  can be read back at its offset, the two process id fields do not run into their neighbours, and
  no other bit is set. The destination travels in the read field only.\<close>

theorem control_word_fields:
  "let c = ctrl_rd cs cp OR ctrl_wr cs cp in
     bit c 0 = isRead (oper cs) \<and> bit c 1 = isWrite (oper cs)
     \<and> bit c 2 = (oper cs = OFFLOAD) \<and> bit c 3 = (oper cs = SYNC)
     \<and> bit c 4 = strm cs \<and> bit c 5 = strm cs \<and> bit c 6 = clr_stat cs \<and> bit c 7 = clr_stat cs
     \<and> field 9 4 c = ucast (take_bit 4 (dest cs))
     \<and> field 17 6 c = ucast (take_bit 6 cp) \<and> field 23 6 c = ucast (take_bit 6 cp)
     \<and> field 8 1 c = 0 \<and> field 13 4 c = 0 \<and> drop_bit 29 c = 0"
proof -
  define c where "c = ctrl_rd cs cp OR ctrl_wr cs cp"
  note d = c_def ctrl_rd_def ctrl_wr_def and_mask_consts
  have "bit c 0 = isRead (oper cs)" "bit c 1 = isWrite (oper cs)"
    "bit c 2 = (oper cs = OFFLOAD)" "bit c 3 = (oper cs = SYNC)"
    "bit c 4 = strm cs" "bit c 5 = strm cs" "bit c 6 = clr_stat cs" "bit c 7 = clr_stat cs"
    by (simp_all add: d bit_word_simps)
  moreover have "field 9 4 c = ucast (take_bit 4 (dest cs))" "field 8 1 c = 0" "field 13 4 c = 0"
    "field 17 6 c = ucast (take_bit 6 cp)" "field 23 6 c = ucast (take_bit 6 cp)" "drop_bit 29 c = 0"
    by (rule bit_word_eqI; auto simp: d bit_word_simps dest: bit_imp_le_length)+
  ultimately show ?thesis by (simp add: c_def)
qed

text \<open>The queue pair and connection contexts written for the network stack can be decoded
  without loss up to the field widths: the numbers, sequence numbers, remote address and key, port
  and the four words of the remote identifier each sit at their own offset.\<close>

theorem network_context_fields:
  "(case qp_context qp of (o1, o2, o3) \<Rightarrow>
     field 32 10 o1 = ucast (take_bit 10 (qpn (qp_local qp)))
     \<and> field 24 24 o2 = ucast (take_bit 24 (psn (qp_local qp)))
     \<and> field 0 24 o2 = ucast (take_bit 24 (psn (qp_remote qp)))
     \<and> field 16 48 o3 = take_bit 48 (vaddr (qp_remote qp))
     \<and> field 0 16 o3 = ucast (take_bit 16 (rkey (qp_remote qp))))
   \<and> (case conn_context qp port of (o1, o2, o3) \<Rightarrow>
     field 0 16 o1 = ucast (take_bit 16 (qpn (qp_local qp)))
     \<and> field 16 24 o1 = ucast (take_bit 24 (qpn (qp_remote qp)))
     \<and> field 40 16 o1 = ucast (take_bit 16 port)
     \<and> field 0 32 o2 = ucast (gidToUint 0 (qp_remote qp)) \<and> field 32 32 o2 = ucast (gidToUint 8 (qp_remote qp))
     \<and> field 0 32 o3 = ucast (gidToUint 16 (qp_remote qp)) \<and> field 32 32 o3 = ucast (gidToUint 24 (qp_remote qp)))"
  unfolding qp_context_def conn_context_def Let_def prod.case and_mask_consts
  by (intro conjI bit_word_eqI; auto simp: bit_word_simps dest: bit_imp_le_length)

text \<open>The two ways to read the RDMA acknowledgements agree on every configuration word: the
  writeback, AVX and legacy paths of \<open>ibvCheckAcks\<close> and \<open>checkIbvAcks\<close> read the same counter.\<close>

theorem ibv_acks_agree:
  "checkIbvAcks (p\<lparr>fcnfg := parseCnfg c\<rparr>) d = ibvCheckAcks (p\<lparr>fcnfg := parseCnfg c\<rparr>) d"
  by (simp add: checkIbvAcks_def ibvCheckAcks_def parseCnfg_def Let_def algebra_simps)

text \<open>The request codes of the I/O switch round trip: a code selects the device whose code it
  is, every other code selects the error device.\<close>

lemma io_switch_roundtrip:
  "userInIOSwtch r = d \<longleftrightarrow> r = iodev_code d \<or> d = ERROR_DEV \<and> r \<notin> range iodev_code"
proof -
  have "userInIOSwtch (iodev_code e) = e" for e
    by (cases e) (simp_all add: userInIOSwtch_def)
  moreover have "userInIOSwtch r = ERROR_DEV \<or> iodev_code (userInIOSwtch r) = r"
    by (simp add: userInIOSwtch_def)
  moreover have "r = iodev_code (userInIOSwtch r) \<or> r \<notin> range iodev_code"
    using calculation(1) by auto
  ultimately show ?thesis by (metis rangeI)
qed

subsection \<open>Memory\<close>

lemma unat_host_size: "unat (host_size n) = ((unat n + 1) mod 2048) * 2097152"
proof -
  have "unat (host_size n) = unat ((n + 1) * 2097152)"
    by (simp add: host_size_def unsigned_ucast_eq take_bit_nat_eq_self
        order_less_trans [OF unsigned_less])
  also have "(n + 1) * 2097152 = of_nat ((unat n + 1) * 2097152)" by simp
  also have "unat (of_nat ((unat n + 1) * 2097152) :: u32) = ((unat n + 1) * 2097152) mod (2048 * 2097152)"
    unfolding unat_of_nat by simp
  also have "\<dots> = ((unat n + 1) mod 2048) * 2097152"
    by (rule mod_mult_mult2)
  finally show ?thesis .
qed

text \<open>The 32-bit size of a host allocation (the pages and one more to align in) exceeds the
  requested pages exactly for requests below 2047 huge pages; from there on it wraps and the
  mapping is smaller than what was asked for.\<close>

theorem host_size_covers_request:
  "unat n * 2 ^ 21 < unat (host_size n) \<longleftrightarrow> unat n < 2047"
proof (cases "unat n < 2047")
  case True
  then show ?thesis by (simp add: unat_host_size)
next
  case False
  have "(unat n + 1) mod 2048 \<le> unat n"
  proof (cases "unat n = 2047")
    case True
    then show ?thesis by simp
  next
    case False
    with \<open>\<not> unat n < 2047\<close> have "2048 \<le> unat n" by simp
    then show ?thesis using mod_less_divisor [of 2048 "unat n + 1"] by linarith
  qed
  then show ?thesis using False by (simp add: unat_host_size)
qed

lemma unat_align_2M:
  assumes "unat a + 2 ^ 21 \<le> 2 ^ 64"
  shows "unat (align_2M a) = (unat a + 2097151) div 2097152 * 2097152"
proof -
  have "unat (a + 2097152 - 1) = unat a + 2097151"
    using assms by (simp add: unat_word_ariths)
  then have "unat (drop_bit 21 (a + 2097152 - 1)) = (unat a + 2097151) div 2097152"
    by (simp add: drop_bit_eq_div unat_div)
  moreover have "(unat a + 2097151) div 2097152 * 2097152 < 2 ^ 64"
    using assms by (auto intro: le_less_trans [OF div_times_less_eq_dividend])
  ultimately show ?thesis
    by (simp add: align_2M_def push_bit_eq_mult unat_word_ariths mult.commute)
qed

text \<open>A successful host allocation returns a 2 MB aligned address, and the requested pages
  from there on lie inside the region the driver mapped (for a region that does not wrap the
  address space).\<close>

theorem host_allocation_in_mapping:
  assumes "getMem w \<lparr>ca_alloc = HOST_2M, ca_n_pages = n\<rparr> p = (Inr mem, p')" "n > 0" "unat n < 2047"
    and "base = os_ptr w (ptrace p @ [EvLock MLOCK,
           EvIoctl IOCTL_ALLOC_HOST_USER_MEM [ucast n, scast (cpid p)], EvMmap (host_size n) mmapBuff])"
    and "unat base + unat (host_size n) \<le> 2 ^ 64"
  shows "2 ^ 21 dvd unat mem \<and> base \<le> mem \<and> unat mem + unat n * 2 ^ 21 \<le> unat base + unat (host_size n)"
proof -
  have mem: "mem = align_2M base"
    using assms(1,2,4) by (auto simp: getMem_def Let_def split: if_splits)
  have size: "unat (host_size n) = (unat n + 1) * 2 ^ 21"
    using assms(3) by (simp add: unat_host_size)
  have "unat mem = (unat base + 2097151) div 2097152 * 2097152"
    unfolding mem using assms(5) size by (intro unat_align_2M) simp
  moreover have "(unat base + 2097151) div 2097152 * 2097152 + (unat base + 2097151) mod 2097152
      = unat base + 2097151" "(unat base + 2097151) mod 2097152 < 2097152"
    by (rule div_mult_mod_eq) simp
  ultimately have "2 ^ 21 dvd unat mem" "unat base \<le> unat mem" "unat mem \<le> unat base + 2 ^ 21"
    by (simp, linarith, simp)
  then show ?thesis
    using size by (simp add: word_le_nat_alt)
qed

theorem host_allocation_in_mapping_witness:
  "let w = \<lparr>os_fails = \<lambda>_. False, os_ptr = \<lambda>_. 0x7f0000001000, os_out = \<lambda>_. 0\<rparr>
   in case getMem w \<lparr>ca_alloc = HOST_2M, ca_n_pages = 3\<rparr> (cProcess_new 0 0 False) of
        (Inr mem, p') \<Rightarrow> 2 ^ 21 dvd unat mem \<and> 0x7f0000001000 \<le> mem
          \<and> unat mem + 3 * 2 ^ 21 \<le> 0x7f0000001000 + unat (host_size 3)
      | _ \<Rightarrow> False"
proof -
  let ?w = "\<lparr>os_fails = \<lambda>_. False, os_ptr = \<lambda>_. 0x7f0000001000, os_out = \<lambda>_. 0\<rparr>"
  let ?al = "\<lparr>ca_alloc = HOST_2M, ca_n_pages = 3\<rparr>"
  obtain p' where g: "getMem ?w ?al (cProcess_new 0 0 False) = (Inr (align_2M 0x7f0000001000), p')"
    by (simp add: getMem_def)
  have h: "unat (host_size 3) = 4 * 2 ^ 21" by (simp add: unat_host_size)
  show ?thesis
    using host_allocation_in_mapping [OF g _ _ refl] unfolding Let_def g by (simp add: h)
qed

subsection \<open>Release\<close>

text \<open>The events that release one allocation.\<close>

fun release_events :: "u32 \<Rightarrow> u64 list \<Rightarrow> u64 \<times> csAlloc \<times> u64 \<Rightarrow> sysEvent list" where
  "release_events cp up (va, al, na) =
     (let unmap = (if va \<in> set up then [EvIoctl IOCTL_UNMAP_USER [va, scast cp]] else [])
      in case ca_alloc al of
           REG_4K \<Rightarrow> unmap @ [EvFree va]
         | HUGE_2M \<Rightarrow> unmap @ [EvMunmap va (ucast (ca_n_pages al * hugePageSize))]
         | HOST_2M \<Rightarrow> [EvLock MLOCK, EvMunmap na (host_size (ca_n_pages al)),
                       EvIoctl IOCTL_FREE_HOST_USER_MEM [va, scast cp], EvUnlock MLOCK]
         | RCNFG_2M \<Rightarrow> [])"

definition healthy :: "os \<Rightarrow> bool" where
  "healthy w \<longleftrightarrow> (\<forall>tr. \<not> os_fails w tr)"

lemma freeMem_healthy:
  assumes "healthy w" "map_of (mapped_pages p) va = Some e"
  shows "freeMem w va p = (Inr (), p\<lparr>ptrace := ptrace p @ release_events (cpid p) (mapped_upages p) (va, e)\<rparr>)"
  using assms
  by (cases e; cases "ca_alloc (fst e)")
     (auto simp: freeMem_def userUnmap_def healthy_def emit_def Let_def)

lemma each_userUnmap_healthy:
  assumes "healthy w" "set us \<subseteq> set (mapped_upages p)"
  shows "each (userUnmap w) us p
         = (Inr (), p\<lparr>ptrace := ptrace p @ map (\<lambda>a. EvIoctl IOCTL_UNMAP_USER [a, scast (cpid p)]) us\<rparr>)"
  using assms
  by (induction us arbitrary: p) (auto simp: userUnmap_def healthy_def emit_def Let_def)

lemma each_freeMem_healthy:
  assumes "healthy w" "\<forall>e \<in> set es. map_of (mapped_pages p) (fst e) = Some (snd e)"
  shows "each (freeMem w) (map fst es) p
         = (Inr (), p\<lparr>ptrace := ptrace p @ concat (map (release_events (cpid p) (mapped_upages p)) es)\<rparr>)"
  using assms
  by (induction es arbitrary: p) (auto simp: freeMem_healthy)

definition region_events :: "cProcess \<Rightarrow> sysEvent list" where
  "region_events p =
     [if en_avx (fcnfg p) then EvMunmap (cnfg_reg_avx p) 0x40000 else EvMunmap (cnfg_reg p) 0x10000,
      EvMunmap (ctrl_reg p) 0x10000] @ (if en_wb (fcnfg p) then [EvMunmap (wback p) 1024] else [])"

lemma munmapFpga_healthy:
  "healthy w \<Longrightarrow> munmapFpga w p
     = (Inr (), p\<lparr>ptrace := ptrace p @ region_events p, cnfg_reg_avx := 0, cnfg_reg := 0, ctrl_reg := 0, wback := 0\<rparr>)"
  by (auto simp: munmapFpga_def unmap_region_def healthy_def emit_def Let_def region_events_def)

lemma dtor_healthy:
  assumes "healthy w" "distinct (map fst (mapped_pages p))"
  shows "cProcess_dtor w p = (Inr (), p\<lparr>mapped_upages := [], mapped_pages := [],
      cnfg_reg_avx := 0, cnfg_reg := 0, ctrl_reg := 0, wback := 0,
      ptrace := ptrace p @ [EvIoctl IOCTL_UNREGISTER_PID [scast (cpid p)]]
        @ map (\<lambda>a. EvIoctl IOCTL_UNMAP_USER [a, scast (cpid p)]) (mapped_upages p)
        @ concat (map (release_events (cpid p) []) (mapped_pages p))
        @ region_events p @ [EvClose]\<rparr>)"
proof -
  have "\<forall>e \<in> set (mapped_pages p). map_of (mapped_pages p) (fst e) = Some (snd e)"
    using assms(2) by auto
  then show ?thesis
    using assms(1)
    by (simp add: cProcess_dtor_def Let_def each_userUnmap_healthy each_freeMem_healthy
        munmapFpga_healthy) (simp add: emit_def region_events_def)
qed

text \<open>When the system calls succeed, the destructor gives everything back exactly once and in
  order: the process id, one unmap per mapped user page, one release per allocation (no second
  unmap, the user pages are gone by then), the register windows, the device file.\<close>

theorem dtor_releases_everything_once:
  assumes "healthy w" "distinct (map fst (mapped_pages p))"
  shows "cProcess_dtor w p = (Inr (), p\<lparr>mapped_upages := [], mapped_pages := [],
      cnfg_reg_avx := 0, cnfg_reg := 0, ctrl_reg := 0, wback := 0,
      ptrace := ptrace p @ [EvIoctl IOCTL_UNREGISTER_PID [scast (cpid p)]]
        @ map (\<lambda>a. EvIoctl IOCTL_UNMAP_USER [a, scast (cpid p)]) (mapped_upages p)
        @ concat (map (release_events (cpid p) []) (mapped_pages p))
        @ region_events p @ [EvClose]\<rparr>)"
  using assms by (rule dtor_healthy)

theorem dtor_releases_everything_once_witness:
  "let w = \<lparr>os_fails = \<lambda>_. False, os_ptr = \<lambda>_. 0, os_out = \<lambda>_. 0\<rparr>;
       p = (cProcess_new 0 0 False)\<lparr>mapped_pages := [(0x1000, \<lparr>ca_alloc = REG_4K, ca_n_pages = 1\<rparr>, 0)],
             mapped_upages := [0x1000], cnfg_reg := 0x5000, ctrl_reg := 0x6000, cpid := 7\<rparr>
   in ptrace (snd (cProcess_dtor w p)) =
        [EvIoctl IOCTL_UNREGISTER_PID [7], EvIoctl IOCTL_UNMAP_USER [0x1000, 7], EvFree 0x1000,
         EvMunmap 0x5000 0x10000, EvMunmap 0x6000 0x10000, EvClose]"
  unfolding Let_def
  by (subst dtor_releases_everything_once)
     (simp_all add: healthy_def region_events_def cProcess_new_def parseCnfg_def)

text \<open>Freed memory is freed again: \<open>freeMem\<close> leaves the record of the allocation in place, so
  a client that frees a page sized buffer and then destroys the process releases the same pointer
  twice.\<close>

theorem freed_page_is_freed_again:
  assumes "healthy w" "distinct (map fst (mapped_pages p))"
    and "(va, \<lparr>ca_alloc = REG_4K, ca_n_pages = n\<rparr>, na) \<in> set (mapped_pages p)"
  shows "case freeMem w va p of (r1, p1) \<Rightarrow> case cProcess_dtor w p1 of (r2, p2) \<Rightarrow>
           r1 = Inr () \<and> r2 = Inr ()
           \<and> (\<exists>xs ys zs. ptrace p2 = ptrace p @ xs @ [EvFree va] @ ys @ [EvFree va] @ zs)"
proof -
  let ?e = "(va, \<lparr>ca_alloc = REG_4K, ca_n_pages = n\<rparr>, na)"
  let ?p1 = "p\<lparr>ptrace := ptrace p @ release_events (cpid p) (mapped_upages p) ?e\<rparr>"
  have "map_of (mapped_pages p) va = Some (snd ?e)" using assms(2,3) by simp
  then have f: "freeMem w va p = (Inr (), ?p1)" using freeMem_healthy [OF assms(1)] by simp
  obtain as bs where split: "mapped_pages p = as @ ?e # bs"
    using assms(3) by (meson split_list)
  have "\<exists>xs. release_events (cpid p) up ?e = xs @ [EvFree va]" for up by simp
  then obtain xs where x: "release_events (cpid p) (mapped_upages p) ?e = xs @ [EvFree va]" by blast
  let ?ys = "EvIoctl IOCTL_UNREGISTER_PID [scast (cpid p)]
      # map (\<lambda>a. EvIoctl IOCTL_UNMAP_USER [a, scast (cpid p)]) (mapped_upages p)
      @ concat (map (release_events (cpid p) []) as)"
  have d: "ptrace (snd (cProcess_dtor w ?p1)) = ptrace p @ xs @ [EvFree va] @ ?ys @ [EvFree va]
      @ (concat (map (release_events (cpid p) []) bs) @ region_events ?p1 @ [EvClose])"
    using assms(1,2) x by (simp add: dtor_healthy split region_events_def)
  have "fst (cProcess_dtor w ?p1) = Inr ()"
    using assms(1,2) by (simp add: dtor_healthy)
  moreover have "\<exists>xs ys zs. ptrace (snd (cProcess_dtor w ?p1)) = ptrace p @ xs @ [EvFree va] @ ys @ [EvFree va] @ zs"
    using d by blast
  ultimately show ?thesis
    unfolding f prod.case by (simp only: case_prod_beta fst_conv snd_conv HOL.simp_thms)
qed

theorem freed_page_is_freed_again_witness:
  "let w = \<lparr>os_fails = \<lambda>_. False, os_ptr = \<lambda>_. 0x1000, os_out = \<lambda>_. 0\<rparr>;
       p = snd (getMem w \<lparr>ca_alloc = REG_4K, ca_n_pages = 1\<rparr> (cProcess_new 0 0 False))
   in case freeMem w 0x1000 p of (r1, p1) \<Rightarrow> case cProcess_dtor w p1 of (r2, p2) \<Rightarrow>
        r1 = Inr () \<and> r2 = Inr ()
        \<and> (\<exists>xs ys zs. ptrace p2 = ptrace p @ xs @ [EvFree 0x1000] @ ys @ [EvFree 0x1000] @ zs)"
  unfolding Let_def
  by (rule freed_page_is_freed_again [where n = 1 and na = 0])
     (simp_all add: healthy_def getMem_def userMap_def emplace_def cProcess_new_def)

subsection \<open>Immediate work requests\<close>

text \<open>The legacy registers after a trace.\<close>

fun leg_after :: "(u32 \<Rightarrow> u64) \<Rightarrow> sysEvent \<Rightarrow> (u32 \<Rightarrow> u64)" where
  "leg_after f (EvRegLeg r v) = f(r := v)"
| "leg_after f e = f"

definition leg_file :: "sysEvent list \<Rightarrow> u32 \<Rightarrow> u64" where
  "leg_file tr = foldl leg_after (\<lambda>_. 0) tr"

lemma leg_file_append [simp]: "leg_file (tr @ es) = foldl leg_after (leg_file tr) es"
  by (simp add: leg_file_def)

text \<open>Through the legacy registers the second beat of an immediate request is lost: it is
  written to the registers that the command itself overwrites before the request is triggered, so
  that the registers end up as for a request with the first three parameters only. Through AVX
  the two beats go to different registers.\<close>

theorem legacy_immediate_overwritten:
  assumes "\<not> en_avx (fcnfg p)" "rdma_cmd_cnt p \<le> cmd_fifo_limit"
    and "post_immed IBV_WR_IMMED_MID o0 sg ds p = (ok, ds', p')"
    and "post_immed IBV_WR_IMMED_LOW o0 sg ds p = (ok2, ds2, p2)"
  shows "leg_file (ptrace p') = leg_file (ptrace p2)"
proof -
  have q: "poll_cnt f c es = (True, c, es)" if "c \<le> cmd_fifo_limit" for f c es
    using that by (cases es) (auto simp: not_less)
  show ?thesis
    using assms
    by (auto simp: post_immed_def postCmd_def postPrep_def Let_def reg_defs q fun_eq_iff)
qed

theorem legacy_immediate_overwritten_witness:
  "leg_file (ptrace (snd (snd (post_immed IBV_WR_IMMED_MID 1 (\<lambda>i. of_nat i + 10) [] (cProcess_new 0 0 False)))))
   = leg_file (ptrace (snd (snd (post_immed IBV_WR_IMMED_LOW 1 (\<lambda>i. of_nat i + 10) [] (cProcess_new 0 0 False)))))"
proof -
  let ?p = "cProcess_new 0 0 False" and ?sg = "\<lambda>i. of_nat i + 10 :: u64"
  obtain a b c where m: "post_immed IBV_WR_IMMED_MID 1 ?sg [] ?p = (a, b, c)" by (metis prod_cases3)
  obtain d e f where l: "post_immed IBV_WR_IMMED_LOW 1 ?sg [] ?p = (d, e, f)" by (metis prod_cases3)
  have "\<not> en_avx (fcnfg ?p)" "rdma_cmd_cnt ?p \<le> cmd_fifo_limit"
    by (simp_all add: cProcess_new_def parseCnfg_def)
  from legacy_immediate_overwritten [OF this m l] show ?thesis by (simp add: m l)
qed

end
