(* ===== verification/Coyote_Sched.thy ===== *)
theory Coyote_Sched
  imports Coyote_Process
begin

text \<open>
  The vFPGA scheduler (\<^verbatim>\<open>sw/src/cSched.cpp\<close>, \<^verbatim>\<open>sw/include/cSched.hpp\<close>): the order of the request
  queue, the interleaving of the scheduler thread with the processes that ask for the vFPGA, and
  the partial bitstreams with their memory.
\<close>

subsection \<open>Requests and their order\<close>

record cLoad =
  l_cpid :: u32
  l_oid :: u32
  l_priority :: u32

text \<open>\<open>taskCmprSched(priority, reorder)\<close>: the first request goes after the second.\<close>

definition taskCmprSched :: "bool \<Rightarrow> bool \<Rightarrow> cLoad \<Rightarrow> cLoad \<Rightarrow> bool" where
  "taskCmprSched prior reord r1 r2 =
     (if prior \<and> l_priority r1 < l_priority r2 then True
      else if reord \<and> l_priority r1 = l_priority r2 \<and> sint (l_oid r1) > sint (l_oid r2) then True
      else False)"

text \<open>The element at the top of a \<open>std::priority_queue\<close>: no other element goes before it. Among
  equivalent elements the library may choose any.\<close>

definition is_top :: "bool \<Rightarrow> bool \<Rightarrow> cLoad \<Rightarrow> cLoad list \<Rightarrow> bool" where
  "is_top prior reord l q \<longleftrightarrow> l \<in> set q \<and> (\<forall>x \<in> set q. \<not> taskCmprSched prior reord l x)"

subsection \<open>The scheduler thread and its clients\<close>

text \<open>Where the thread is in an iteration of \<open>processRequests\<close>.\<close>

datatype schedPc =
    SIdle
  | SPopped cLoad \<comment> \<open>took a request, about to obtain \<open>plock\<close>\<close>
  | SLoaded cLoad \<comment> \<open>the operator is loaded, about to notify\<close>
  | SWait cLoad \<comment> \<open>in \<open>cv_cmplt.wait_for\<close>\<close>

text \<open>A client that uses the vFPGA, numbered by a handle of its own: between \<open>pLock\<close> and its return it waits, until \<open>pUnlock\<close> it runs.\<close>

datatype clientPc = CIdle | CWait u32 | CRun u32

record schedState =
  requests :: "cLoad list"
  curr_cpid :: u32
  curr_run :: bool
  curr_oid :: u32
  spc :: schedPc
  clients :: "u32 \<Rightarrow> clientPc"
  loaded :: "u32 list" \<comment> \<open>operators passed to \<open>reconfigure\<close>, the latest last\<close>

definition sched_init :: schedState where
  "sched_init = \<lparr>requests = [], curr_cpid = - 1, curr_run = False, curr_oid = - 1, spc = SIdle,
                 clients = \<lambda>_. CIdle, loaded = []\<rparr>"

definition sched_enqueue :: "u32 \<Rightarrow> u32 \<Rightarrow> u32 \<Rightarrow> schedState \<Rightarrow> schedState" where
  "sched_enqueue cp oid prior s =
     s\<lparr>requests := requests s @ [\<lparr>l_cpid = cp, l_oid = oid, l_priority = prior\<rparr>]\<rparr>"

text \<open>The condition \<open>pLock\<close> waits for.\<close>

definition granted :: "u32 \<Rightarrow> schedState \<Rightarrow> bool" where
  "granted cp s \<longleftrightarrow> curr_run s \<and> curr_cpid s = cp"

definition sched_pUnlock :: "u32 \<Rightarrow> schedState \<Rightarrow> schedState" where
  "sched_pUnlock cp s = (if curr_cpid s = cp then s\<lparr>curr_run := False\<rparr> else s)"

text \<open>Loading the operator of a request.\<close>

definition sched_load :: "bool \<Rightarrow> cLoad \<Rightarrow> schedState \<Rightarrow> schedState" where
  "sched_load en l s =
     (if en \<and> curr_oid s \<noteq> l_oid l
      then s\<lparr>loaded := loaded s @ [l_oid l], curr_oid := l_oid l\<rparr> else s)"

text \<open>What the region holds: \<open>reconfigure\<close> looks the operator up in \<open>bstreams\<close> (here the set of
  operators with a bitstream) and returns silently when it has none.\<close>

definition region_operator :: "u32 set \<Rightarrow> schedState \<Rightarrow> u32 option" where
  "region_operator bstreams s =
     (case filter (\<lambda>oid. oid \<in> bstreams) (loaded s) of [] \<Rightarrow> None | os \<Rightarrow> Some (last os))"

definition sched_notify :: "cLoad \<Rightarrow> schedState \<Rightarrow> schedState" where
  "sched_notify l s = s\<lparr>curr_cpid := l_cpid l, curr_run := True\<rparr>"

text \<open>
  One atomic action of the system: \<open>cp\<close> gives the Coyote process id of each client, \<open>prior\<close> and
  \<open>reord\<close> are the scheduler's parameters, \<open>en\<close> whether the region is reconfigurable, \<open>tmo\<close> whether
  the completion timeout of five seconds may expire. The model has one scheduler; the named mutex
  \<open>plock\<close>, which it holds from \<open>load\<close> to the end of the wait, is then uncontended.
\<close>

inductive sched_step ::
  "(u32 \<Rightarrow> u32) \<Rightarrow> bool \<Rightarrow> bool \<Rightarrow> bool \<Rightarrow> bool \<Rightarrow> schedState \<Rightarrow> schedState \<Rightarrow> bool"
  for cp prior reord en tmo
where
  submit: "clients s i = CIdle \<Longrightarrow>
    sched_step cp prior reord en tmo s
      ((sched_enqueue (cp i) oid pr s)\<lparr>clients := (clients s)(i := CWait oid)\<rparr>)"
| pop: "spc s = SIdle \<Longrightarrow> is_top prior reord l (requests s) \<Longrightarrow>
    sched_step cp prior reord en tmo s (s\<lparr>requests := remove1 l (requests s), spc := SPopped l\<rparr>)"
| load: "spc s = SPopped l \<Longrightarrow>
    sched_step cp prior reord en tmo s ((sched_load en l s)\<lparr>spc := SLoaded l\<rparr>)"
| notify: "spc s = SLoaded l \<Longrightarrow>
    sched_step cp prior reord en tmo s ((sched_notify l s)\<lparr>spc := SWait l\<rparr>)"
| grant: "clients s i = CWait oid \<Longrightarrow> granted (cp i) s \<Longrightarrow>
    sched_step cp prior reord en tmo s (s\<lparr>clients := (clients s)(i := CRun oid)\<rparr>)"
| release: "clients s i = CRun oid \<Longrightarrow>
    sched_step cp prior reord en tmo s ((sched_pUnlock (cp i) s)\<lparr>clients := (clients s)(i := CIdle)\<rparr>)"
| complete: "spc s = SWait l \<Longrightarrow> \<not> curr_run s \<Longrightarrow>
    sched_step cp prior reord en tmo s (s\<lparr>spc := SIdle\<rparr>)"
| timeout: "tmo \<Longrightarrow> spc s = SWait l \<Longrightarrow> curr_run s \<Longrightarrow>
    sched_step cp prior reord en tmo s (s\<lparr>spc := SIdle\<rparr>)"

inductive sched_reach ::
  "(u32 \<Rightarrow> u32) \<Rightarrow> bool \<Rightarrow> bool \<Rightarrow> bool \<Rightarrow> bool \<Rightarrow> schedState \<Rightarrow> bool"
  for cp prior reord en tmo
where
  start: "sched_reach cp prior reord en tmo sched_init"
| more: "sched_reach cp prior reord en tmo s \<Longrightarrow> sched_step cp prior reord en tmo s s' \<Longrightarrow>
    sched_reach cp prior reord en tmo s'"

subsection \<open>The request order\<close>

lemma taskCmprSched_irrefl: "\<not> taskCmprSched prior reord a a"
  by (simp add: taskCmprSched_def)

lemma taskCmprSched_trans:
  "taskCmprSched prior reord a b \<Longrightarrow> taskCmprSched prior reord b c \<Longrightarrow> taskCmprSched prior reord a c"
  by (auto simp: taskCmprSched_def split: if_splits)

text \<open>The queue's comparator is a strict weak order, as \<open>std::priority_queue\<close> requires,
  exactly when priorities are used or reordering is off: it is always irreflexive and transitive,
  but with reordering alone two requests that are both equivalent to a third can be ordered.\<close>

theorem comparator_strict_weak_order:
  "(\<forall>a b c. \<not> taskCmprSched prior reord a b \<and> \<not> taskCmprSched prior reord b a
        \<and> \<not> taskCmprSched prior reord b c \<and> \<not> taskCmprSched prior reord c b
        \<longrightarrow> \<not> taskCmprSched prior reord a c \<and> \<not> taskCmprSched prior reord c a)
   \<longleftrightarrow> prior \<or> \<not> reord"
proof (cases "prior \<or> \<not> reord")
  case True
  then show ?thesis
    by (auto simp: taskCmprSched_def split: if_splits)
next
  case False
  define a where "a = \<lparr>l_cpid = 0, l_oid = 1, l_priority = 0\<rparr>"
  define b where "b = \<lparr>l_cpid = 0, l_oid = 0, l_priority = 1\<rparr>"
  define c where "c = \<lparr>l_cpid = 0, l_oid = 0, l_priority = 0\<rparr>"
  have "\<not> taskCmprSched prior reord a b \<and> \<not> taskCmprSched prior reord b a
      \<and> \<not> taskCmprSched prior reord b c \<and> \<not> taskCmprSched prior reord c b
      \<and> taskCmprSched prior reord a c"
    using False by (simp add: taskCmprSched_def a_def b_def c_def)
  then show ?thesis using False by blast
qed

theorem comparator_strict_weak_order_witness:
  "\<not> (\<forall>a b c. \<not> taskCmprSched False True a b \<and> \<not> taskCmprSched False True b a
        \<and> \<not> taskCmprSched False True b c \<and> \<not> taskCmprSched False True c b
        \<longrightarrow> \<not> taskCmprSched False True a c \<and> \<not> taskCmprSched False True c a)"
  by (subst comparator_strict_weak_order) simp

text \<open>With priorities on, the request at the top has the highest priority, and with reordering
  also the lowest operator id among those.\<close>

lemma is_top_priority:
  assumes "is_top True reord l q" "x \<in> set q"
  shows "l_priority x \<le> l_priority l"
    and "reord \<Longrightarrow> l_priority x = l_priority l \<Longrightarrow> sint (l_oid l) \<le> sint (l_oid x)"
  using assms by (auto simp: is_top_def taskCmprSched_def not_less split: if_splits)

lemma ex_is_top:
  assumes "q \<noteq> []"
  shows "\<exists>l. is_top prior reord l q"
proof -
  have "wf {(b, a). b \<in> set q \<and> a \<in> set q \<and> taskCmprSched prior reord a b}" (is "wf ?R")
  proof (rule finite_acyclic_wf)
    have "?R \<subseteq> set q \<times> set q" by auto
    then show "finite ?R" by (rule finite_subset) simp
    have "trans ?R" by (auto intro: transI taskCmprSched_trans)
    moreover have "irrefl ?R" by (auto simp: irrefl_def taskCmprSched_irrefl)
    ultimately show "acyclic ?R" by (simp add: acyclic_irrefl trancl_id)
  qed
  moreover have "hd q \<in> set q" using assms by simp
  ultimately obtain l where "l \<in> set q" "\<forall>y. (y, l) \<in> ?R \<longrightarrow> y \<notin> set q"
    by (meson wfE_min)
  then show ?thesis unfolding is_top_def by blast
qed

subsection \<open>Mutual exclusion\<close>

definition pending :: "schedState \<Rightarrow> cLoad list" where
  "pending s = (case spc s of SPopped l \<Rightarrow> [l] | SLoaded l \<Rightarrow> [l] | _ \<Rightarrow> []) @ requests s"

text \<open>The clients with a given process id.\<close>

definition at_cpid :: "(u32 \<Rightarrow> u32) \<Rightarrow> (u32 \<Rightarrow> clientPc) \<Rightarrow> u32 \<Rightarrow> clientPc \<Rightarrow> bool" where
  "at_cpid cp f c x \<longleftrightarrow> c \<in> range cp \<and> (\<forall>i. cp i = c \<longrightarrow> f i = x)"

text \<open>Every pending request has its waiting client; while the vFPGA is given away, the thread waits
  for the client it was given to, which has no other request; a client that runs was given the
  vFPGA; a client that waits has a request or was given the vFPGA; the operator is the requested one
  and the last one that was passed to \<open>reconfigure\<close>.\<close>

definition sched_inv :: "(u32 \<Rightarrow> u32) \<Rightarrow> bool \<Rightarrow> schedState \<Rightarrow> bool" where
  "sched_inv cp en s \<longleftrightarrow>
     distinct (map l_cpid (pending s))
   \<and> (\<forall>l \<in> set (pending s). at_cpid cp (clients s) (l_cpid l) (CWait (l_oid l)))
   \<and> (curr_run s \<longrightarrow> (case spc s of SWait l \<Rightarrow> curr_cpid s = l_cpid l \<and> (\<forall>x \<in> set (requests s). l_cpid x \<noteq> l_cpid l)
        \<and> (at_cpid cp (clients s) (l_cpid l) (CWait (l_oid l)) \<or> at_cpid cp (clients s) (l_cpid l) (CRun (l_oid l))) | _ \<Rightarrow> False))
   \<and> (\<forall>i oid. clients s i = CRun oid \<longrightarrow> granted (cp i) s)
   \<and> (\<forall>i oid. clients s i = CWait oid \<longrightarrow> cp i \<in> l_cpid ` set (pending s) \<or> granted (cp i) s)
   \<and> (en \<longrightarrow> (case spc s of SLoaded l \<Rightarrow> curr_oid s = l_oid l | SWait l \<Rightarrow> curr_oid s = l_oid l | _ \<Rightarrow> True))
   \<and> curr_oid s = (if loaded s = [] then - 1 else last (loaded s))"

lemma sched_inv_init: "sched_inv cp en sched_init"
  by (simp add: sched_inv_def sched_init_def pending_def)

lemma at_cpid_update [simp]:
  "inj cp \<Longrightarrow> at_cpid cp (f(i := y)) c x \<longleftrightarrow> (if c = cp i then x = y else at_cpid cp f c x)"
  by (auto simp: at_cpid_def inj_eq)

lemma at_cpid_self [simp]: "inj cp \<Longrightarrow> at_cpid cp f (cp i) x \<longleftrightarrow> f i = x"
  by (auto simp: at_cpid_def inj_eq)

lemma all_clients_update:
  "(\<forall>j oid. (f(i := y)) j = X oid \<longrightarrow> P j) \<longleftrightarrow> (\<forall>j oid. j \<noteq> i \<longrightarrow> f j = X oid \<longrightarrow> P j) \<and> (\<forall>oid. y = X oid \<longrightarrow> P i)"
  by auto

lemma sched_inv_submit:
  assumes "sched_inv cp en s" "inj cp" "clients s i = CIdle"
  shows "sched_inv cp en ((sched_enqueue (cp i) oid pr s)\<lparr>clients := (clients s)(i := CWait oid)\<rparr>)"
    (is "sched_inv cp en ?s")
proof -
  note inv = assms(1) [unfolded sched_inv_def]
  have fresh: "\<forall>l \<in> set (pending s). l_cpid l \<noteq> cp i"
  proof
    fix l assume l: "l \<in> set (pending s)"
    then have "at_cpid cp (clients s) (l_cpid l) (CWait (l_oid l))" using inv by blast
    with assms(2,3) show "l_cpid l \<noteq> cp i" by auto
  qed
  have nogrant: "\<not> granted (cp i) s"
    using inv assms(2,3) by (auto simp: granted_def split: schedPc.splits)
  have p: "pending ?s = pending s @ [\<lparr>l_cpid = cp i, l_oid = oid, l_priority = pr\<rparr>]"
    by (simp add: pending_def sched_enqueue_def)
  have g: "granted c ?s = granted c s" for c by (simp add: granted_def sched_enqueue_def)
  show ?thesis
    unfolding sched_inv_def p g
  proof (intro conjI)
    show "distinct (map l_cpid (pending s @ [\<lparr>l_cpid = cp i, l_oid = oid, l_priority = pr\<rparr>]))"
      using inv fresh by auto
    show "\<forall>l \<in> set (pending s @ [\<lparr>l_cpid = cp i, l_oid = oid, l_priority = pr\<rparr>]).
        at_cpid cp (clients ?s) (l_cpid l) (CWait (l_oid l))"
      using inv fresh assms(2) by auto
    show "curr_run ?s \<longrightarrow> (case spc ?s of SWait l \<Rightarrow> curr_cpid ?s = l_cpid l \<and> (\<forall>x \<in> set (requests ?s). l_cpid x \<noteq> l_cpid l)
        \<and> (at_cpid cp (clients ?s) (l_cpid l) (CWait (l_oid l)) \<or> at_cpid cp (clients ?s) (l_cpid l) (CRun (l_oid l))) | _ \<Rightarrow> False)"
      using inv nogrant assms(2) by (auto simp: sched_enqueue_def granted_def split: schedPc.splits)
    show "\<forall>j oid'. clients ?s j = CRun oid' \<longrightarrow> granted (cp j) s" using inv by simp
    show "\<forall>j oid'. clients ?s j = CWait oid' \<longrightarrow> cp j \<in> l_cpid ` set (pending s
        @ [\<lparr>l_cpid = cp i, l_oid = oid, l_priority = pr\<rparr>]) \<or> granted (cp j) s" using inv by auto
    show "en \<longrightarrow> (case spc ?s of SLoaded l \<Rightarrow> curr_oid ?s = l_oid l | SWait l \<Rightarrow> curr_oid ?s = l_oid l | _ \<Rightarrow> True)"
      using inv by (auto simp: sched_enqueue_def split: schedPc.splits)
    show "curr_oid ?s = (if loaded ?s = [] then - 1 else last (loaded ?s))"
      using inv by (simp add: sched_enqueue_def)
  qed
qed

lemma distinct_map_remove1:
  "distinct (map f q) \<Longrightarrow> l \<in> set q \<Longrightarrow> distinct (map f (remove1 l q)) \<and> (\<forall>x \<in> set (remove1 l q). f x \<noteq> f l)"
  by (induction q) (auto simp: image_iff dest: set_remove1_subset [THEN subsetD])

lemma insert_remove1: "l \<in> set q \<Longrightarrow> insert l (set (remove1 l q)) = set q"
  by (induction q) auto

lemma sched_inv_pop:
  assumes "sched_inv cp en s" "spc s = SIdle" "l \<in> set (requests s)"
  shows "sched_inv cp en (s\<lparr>requests := remove1 l (requests s), spc := SPopped l\<rparr>)" (is "sched_inv cp en ?s")
proof -
  have ps: "pending s = requests s" "pending ?s = l # remove1 l (requests s)"
    using assms(2) by (simp_all add: pending_def)
  have "set (pending ?s) = set (pending s)" using insert_remove1 [OF assms(3)] by (simp add: ps)
  moreover have "distinct (map l_cpid (pending ?s))"
    using assms(1,3) distinct_map_remove1 [of l_cpid "requests s" l] by (auto simp: sched_inv_def ps)
  ultimately show ?thesis
    using assms(1,2) unfolding sched_inv_def granted_def by auto
qed

lemma running_client:
  assumes "sched_inv cp en s" "inj cp" "clients s i = CRun oid"
  obtains l where "curr_run s" "curr_cpid s = cp i" "spc s = SWait l" "l_cpid l = cp i" "l_oid l = oid"
    "\<And>x. x \<in> set (requests s) \<Longrightarrow> l_cpid x \<noteq> cp i" "\<And>j oid'. clients s j = CRun oid' \<Longrightarrow> j = i"
    "\<And>j. granted (cp j) s \<Longrightarrow> j = i" "en \<Longrightarrow> curr_oid s = oid"
    "curr_oid s = (if loaded s = [] then - 1 else last (loaded s))"
proof -
  have g: "\<forall>j oid'. clients s j = CRun oid' \<longrightarrow> granted (cp j) s"
    using assms(1) by (simp add: sched_inv_def)
  then have run: "curr_run s" "curr_cpid s = cp i" using assms(3) by (auto simp: granted_def)
  then obtain l where l: "spc s = SWait l"
    using assms(1) by (auto simp: sched_inv_def split: schedPc.splits)
  have c: "l_cpid l = cp i" using assms(1) run l by (simp add: sched_inv_def)
  have "(at_cpid cp (clients s) (l_cpid l) (CWait (l_oid l)) \<or> at_cpid cp (clients s) (l_cpid l) (CRun (l_oid l)))"
    using assms(1) run l by (simp add: sched_inv_def)
  then have o: "l_oid l = oid" using assms(2,3) unfolding c by auto
  have j: "granted (cp j) s \<Longrightarrow> j = i" for j
    using run assms(2) by (simp add: granted_def inj_eq)
  show ?thesis
    using that [OF run l c o _ _ j] g assms(1) run l c o j by (auto simp: sched_inv_def)
qed

lemma sched_inv_step:
  assumes "sched_step cp prior reord en False s s'" "sched_inv cp en s" "inj cp"
  shows "sched_inv cp en s'"
  using assms(1)
proof (cases rule: sched_step.cases)
  case (submit i oid pr)
  then show ?thesis using sched_inv_submit assms(2,3) by simp
next
  case (pop l)
  then show ?thesis using sched_inv_pop [OF assms(2)] by (simp add: is_top_def)
next
  case (load l)
  then show ?thesis using assms(2)
    by (auto simp: sched_inv_def pending_def granted_def sched_load_def)
next
  case (notify l)
  then show ?thesis using assms(2)
    by (auto simp: sched_inv_def pending_def granted_def sched_notify_def) (metis imageI)+
next
  case (complete l)
  then show ?thesis using assms(2)
    by (auto simp: sched_inv_def pending_def granted_def)
next
  case timeout
  then show ?thesis by simp
next
  case (grant i oid)
  then obtain l where w: "spc s = SWait l" "l_cpid l = cp i" "oid = l_oid l"
    using assms(2,3) unfolding sched_inv_def granted_def
    by (auto split: schedPc.splits)
  show ?thesis using grant w assms(2,3)
    by (auto simp: sched_inv_def pending_def granted_def)
next
  case (release i oid)
  obtain l where r: "curr_run s" "curr_cpid s = cp i" "spc s = SWait l" "l_cpid l = cp i"
    "\<And>x. x \<in> set (requests s) \<Longrightarrow> l_cpid x \<noteq> cp i" "\<And>j oid'. clients s j = CRun oid' \<Longrightarrow> j = i"
    "\<And>j. granted (cp j) s \<Longrightarrow> j = i"
    using running_client [OF assms(2,3) release(2)] by blast
  have w: "\<forall>j oid'. j \<noteq> i \<longrightarrow> clients s j = CWait oid' \<longrightarrow> cp j \<in> l_cpid ` set (requests s)"
    using assms(2) r(3,7) by (auto simp: sched_inv_def pending_def)
  have s': "s' = s\<lparr>curr_run := False, clients := (clients s)(i := CIdle)\<rparr>"
    using release(1) r(2) by (simp add: sched_pUnlock_def)
  have p: "pending s' = requests s" "pending s = requests s"
    using r(3) by (simp_all add: s' pending_def)
  have run: "\<forall>j oid'. j \<noteq> i \<longrightarrow> clients s j \<noteq> CRun oid'" using r(6) by blast
  have "\<forall>l \<in> set (requests s). at_cpid cp (clients s') (l_cpid l) (CWait (l_oid l))"
    using assms(2,3) r(5) by (simp add: sched_inv_def p s')
  moreover have "curr_oid s = (if loaded s = [] then - 1 else last (loaded s))"
    using assms(2) unfolding sched_inv_def by blast
  ultimately show ?thesis
    unfolding sched_inv_def p(1)
    using assms(2) w run by (simp add: sched_inv_def p s' r(3))
qed

lemma sched_inv_reach:
  "sched_reach cp prior reord en False s \<Longrightarrow> inj cp \<Longrightarrow> sched_inv cp en s"
  by (induction rule: sched_reach.induct) (auto intro: sched_inv_init sched_inv_step)

lemma region_operator_last:
  assumes "loaded s \<noteq> []" "last (loaded s) \<in> bstreams"
  shows "region_operator bstreams s = Some (last (loaded s))"
proof -
  obtain ys y where l: "loaded s = ys @ [y]" using assms(1) by (cases "loaded s" rule: rev_cases) auto
  with assms(2) have "y \<in> bstreams" by simp
  then show ?thesis
    unfolding region_operator_def by (cases "filter (\<lambda>oid. oid \<in> bstreams) ys") (simp_all add: l)
qed

text \<open>C1. Mutual exclusion: when no completion timeout expires and the clients have distinct
  process ids, at most one client is between \<open>pLock\<close> and \<open>pUnlock\<close>, and it is the one the scheduler
  waits for. On a reconfigurable region the operator it asked for is then the current one, and, unless
  that is the initial -1 of \<open>curr_oid\<close>, the last call of \<open>reconfigure\<close> was for this operator, so the
  region holds it when the operator has a bitstream (for an operator without one \<open>reconfigure\<close> does
  nothing and the region keeps what it held). The table of bitstreams does not change meanwhile and
  the reconfiguration ioctl does not fail.\<close>

theorem scheduler_mutual_exclusion:
  assumes "sched_reach cp prior reord en False s" "inj cp" "clients s i = CRun oid"
  shows "(\<forall>j oid'. clients s j = CRun oid' \<longrightarrow> j = i)
    \<and> (\<exists>l. spc s = SWait l \<and> l_cpid l = cp i \<and> l_oid l = oid \<and> (en \<longrightarrow> curr_oid s = oid))
    \<and> (en \<longrightarrow> oid \<noteq> - 1 \<longrightarrow> loaded s \<noteq> [] \<and> last (loaded s) = oid
         \<and> (oid \<in> bstreams \<longrightarrow> region_operator bstreams s = Some oid))"
proof -
  have "sched_inv cp en s" using sched_inv_reach assms(1,2) .
  then obtain l where l: "spc s = SWait l" "l_cpid l = cp i" "l_oid l = oid"
      "\<And>j oid'. clients s j = CRun oid' \<Longrightarrow> j = i" "en \<Longrightarrow> curr_oid s = oid"
      "curr_oid s = (if loaded s = [] then - 1 else last (loaded s))"
    using running_client [OF _ assms(2,3)] by metis
  then show ?thesis
    using region_operator_last [of s bstreams] by (auto split: if_splits)
qed

text \<open>A run of one client through the scheduler: it submits operator \<open>oid\<close>, the scheduler takes the
  request, loads, notifies, and the client is granted the vFPGA.\<close>

definition busy_state :: "(u32 \<Rightarrow> u32) \<Rightarrow> u32 \<Rightarrow> u32 \<Rightarrow> schedState" where
  "busy_state cp i oid = \<lparr>requests = [], curr_cpid = cp i, curr_run = True, curr_oid = oid,
     spc = SWait \<lparr>l_cpid = cp i, l_oid = oid, l_priority = 0\<rparr>, clients = (\<lambda>_. CIdle)(i := CRun oid),
     loaded = [oid]\<rparr>"

lemma is_top_single [simp]: "is_top prior reord l [l]"
  by (simp add: is_top_def taskCmprSched_irrefl)

lemma serve_one:
  assumes "spc s = SIdle" "requests s = []" "clients s i = CIdle"
    and "sched_reach cp prior reord en tmo s"
  shows "sched_reach cp prior reord en tmo
     (let l = \<lparr>l_cpid = cp i, l_oid = oid, l_priority = 0\<rparr>
      in (sched_load en l s)\<lparr>curr_cpid := cp i, curr_run := True, spc := SWait l,
           clients := (clients s)(i := CRun oid)\<rparr>)"
proof -
  define l where "l = \<lparr>l_cpid = cp i, l_oid = oid, l_priority = 0\<rparr>"
  let ?R = "sched_reach cp prior reord en tmo"
  let ?f = "(clients s)(i := CWait oid)"
  have "?R (s\<lparr>requests := [l], clients := ?f\<rparr>)"
    using sched_reach.more [OF assms(4) sched_step.submit [OF assms(3), of cp prior reord en tmo oid 0]] assms(2)
    by (simp add: sched_enqueue_def l_def)
  from sched_reach.more [OF this sched_step.pop, of l] assms(1)
  have "?R (s\<lparr>requests := [], clients := ?f, spc := SPopped l\<rparr>)" by (cases s) simp
  from sched_reach.more [OF this sched_step.load, of l]
  have "?R ((sched_load en l s)\<lparr>requests := [], clients := ?f, spc := SLoaded l\<rparr>)"
    by (cases s) (auto simp: sched_load_def split: if_splits)
  from sched_reach.more [OF this sched_step.notify, of l]
  have "?R ((sched_load en l s)\<lparr>requests := [], curr_cpid := cp i, curr_run := True, clients := ?f, spc := SWait l\<rparr>)"
    by (cases "sched_load en l s") (simp add: sched_notify_def l_def)
  from sched_reach.more [OF this sched_step.grant, of i oid]
  have "?R ((sched_load en l s)\<lparr>requests := [], curr_cpid := cp i, curr_run := True,
      clients := (clients s)(i := CRun oid), spc := SWait l\<rparr>)"
    by (cases "sched_load en l s") (simp add: granted_def)
  moreover have "requests (sched_load en l s) = []"
    using assms(2) by (simp add: sched_load_def)
  ultimately show ?thesis
    unfolding Let_def l_def [symmetric] by (cases "sched_load en l s") simp
qed

lemma busy_reachable: "oid \<noteq> - 1 \<Longrightarrow> sched_reach cp prior reord True tmo (busy_state cp i oid)"
  using serve_one [of sched_init i cp prior reord True tmo oid] sched_reach.start
  by (simp add: sched_init_def busy_state_def sched_load_def)

theorem scheduler_mutual_exclusion_witness:
  "let s = busy_state (\<lambda>x. x) 3 7
   in {j. \<exists>oid. clients s j = CRun oid} = {3} \<and> (\<exists>l. spc s = SWait l \<and> l_cpid l = 3 \<and> l_oid l = 7)
      \<and> curr_oid s = 7 \<and> last (loaded s) = 7 \<and> region_operator {6, 7} s = Some 7"
proof -
  let ?s = "busy_state (\<lambda>x. x) 3 7"
  have run: "clients ?s 3 = CRun 7" by (simp add: busy_state_def)
  have "(\<forall>j oid'. clients ?s j = CRun oid' \<longrightarrow> j = 3)
      \<and> (\<exists>l. spc ?s = SWait l \<and> l_cpid l = 3 \<and> l_oid l = 7 \<and> (True \<longrightarrow> curr_oid ?s = 7))
      \<and> (True \<longrightarrow> (7::u32) \<noteq> - 1 \<longrightarrow> loaded ?s \<noteq> [] \<and> last (loaded ?s) = 7
           \<and> ((7::u32) \<in> {6, 7} \<longrightarrow> region_operator {6, 7} ?s = Some (7::u32)))"
    by (rule scheduler_mutual_exclusion [OF busy_reachable [of 7 "\<lambda>x. x" True True False 3] _ run]) simp_all
  with run show ?thesis unfolding Let_def by simp blast
qed



text \<open>The completion timeout breaks the exclusion: after it expires the scheduler gives the
  vFPGA to the next client while the first one, which was never told, still runs.\<close>

theorem timeout_breaks_exclusion:
  "\<exists>s. sched_reach (\<lambda>x. x) True True True True s \<and> clients s 0 = CRun 1 \<and> clients s 1 = CRun 2"
proof -
  let ?b = "busy_state (\<lambda>x. x) 0 1"
  have "sched_reach (\<lambda>x. x) True True True True ?b" by (rule busy_reachable) simp
  from sched_reach.more [OF this sched_step.timeout]
  have r: "sched_reach (\<lambda>x. x) True True True True (?b\<lparr>spc := SIdle\<rparr>)"
    by (simp add: busy_state_def)
  from serve_one [OF _ _ _ r, of 1 2] show ?thesis
    by (auto simp: busy_state_def Let_def sched_load_def intro: exI)
qed

text \<open>So does sharing a process id: two threads of one \<open>cProcess\<close> pass the same id to the
  scheduler, and both are let in by the grant meant for one.\<close>

theorem shared_cpid_breaks_exclusion:
  "\<exists>s. sched_reach (\<lambda>_. 0) True True True False s \<and> clients s 0 = CRun 1 \<and> clients s 1 = CRun 2
     \<and> curr_oid s \<noteq> 2"
proof -
  let ?b = "busy_state (\<lambda>_. 0) 0 1"
  have b: "sched_reach (\<lambda>_. 0) True True True False ?b" by (rule busy_reachable) simp
  have "clients ?b 1 = CIdle" by (simp add: busy_state_def)
  from sched_reach.more [OF b sched_step.submit [OF this, of _ _ _ _ _ 2 0]]
  have "sched_reach (\<lambda>_. 0) True True True False ((sched_enqueue 0 2 0 ?b)\<lparr>clients := (clients ?b)(1 := CWait 2)\<rparr>)"
    by simp
  from sched_reach.more [OF this sched_step.grant, of 1 2] show ?thesis
    by (auto simp: busy_state_def granted_def sched_enqueue_def intro!: exI)
qed

end
