(* ===== verification/Coyote_Bitstream.thy ===== *)
theory Coyote_Bitstream
  imports Coyote_Process
begin

text \<open>
  The partial bitstreams of the scheduler object (\<^verbatim>\<open>sw/src/cSched.cpp\<close>): the memory they are kept
  in, loading a bitstream file into it in the word order of the configuration port, the
  reconfiguration call and removal.
\<close>

subsection \<open>State\<close>

record cSched =
  sd_vfid :: u32
  sd_fcnfg :: fCnfg
  sd_pages :: "(u64 \<times> csAlloc \<times> u64) list"
  bstreams :: "(u32 \<times> u64 \<times> u32) list"
  sd_mem :: "u64 \<Rightarrow> u32" \<comment> \<open>the 32-bit words of the bitstream memory, by address\<close>
  sd_trace :: "sysEvent list"

definition semit :: "sysEvent \<Rightarrow> cSched \<Rightarrow> cSched" where
  "semit e s = s\<lparr>sd_trace := sd_trace s @ [e]\<rparr>"

definition cSched_ctor :: "os \<Rightarrow> (u64 \<Rightarrow> u32) \<Rightarrow> u32 \<Rightarrow> (unit, cSched) outcome" where
  "cSched_ctor w mem vf =
     (let s1 = semit (EvOpen vf)
                 \<lparr>sd_vfid = vf, sd_fcnfg = parseCnfg 0, sd_pages = [], bstreams = [], sd_mem = mem, sd_trace = []\<rparr>
      in if os_fails w (sd_trace s1) then (Inl ''cSched could not be obtained'', s1)
         else
           let s2 = semit (EvIoctl IOCTL_READ_CNFG []) s1
           in if os_fails w (sd_trace s2) then (Inl ''ioctl_read_cnfg() failed'', s2)
              else (Inr (), s2\<lparr>sd_fcnfg := parseCnfg (os_out w (sd_trace s2))\<rparr>))"

subsection \<open>Memory\<close>

definition getMem_sched :: "os \<Rightarrow> csAlloc \<Rightarrow> cSched \<Rightarrow> (u64, cSched) outcome" where
  "getMem_sched w al s =
     (if ca_n_pages al > 0 then
        if ca_alloc al = RCNFG_2M then
          let s1 = semit (EvLock MLOCK) s;
              s2 = semit (EvIoctl IOCTL_ALLOC_HOST_PR_MEM [ucast (ca_n_pages al)]) s1
          in if os_fails w (sd_trace s2)
             then (Inl ''ioctl_alloc_host_pr_mem mapping failed'', semit (EvUnlock MLOCK) s2)
             else
               let s3 = semit (EvMmap (host_size (ca_n_pages al)) mmapPr) s2;
                   memNonAligned = os_ptr w (sd_trace s3)
               in if memNonAligned = MAP_FAILED
                  then (Inl ''get_pr_mem mmap failed'', semit (EvUnlock MLOCK) s3)
                  else
                    let s4 = semit (EvUnlock MLOCK) s3; mem = align_2M memNonAligned
                    in (Inr mem, s4\<lparr>sd_pages := emplace mem (al, memNonAligned) (sd_pages s4)\<rparr>)
        else (Inl ''unauthorized memory allocation'', s)
      else (Inr 0, s))"

definition freeMem_sched :: "os \<Rightarrow> u64 \<Rightarrow> cSched \<Rightarrow> (unit, cSched) outcome" where
  "freeMem_sched w va s =
     (case map_of (sd_pages s) va of
        None \<Rightarrow> (Inr (), s)
      | Some (al, memNonAligned) \<Rightarrow>
          if ca_alloc al = RCNFG_2M then
            let s1 = semit (EvLock MLOCK) s;
                s2 = semit (EvMunmap memNonAligned (host_size (ca_n_pages al))) s1
            in if os_fails w (sd_trace s2)
               then (Inl ''free_pr_mem munmap failed'', semit (EvUnlock MLOCK) s2)
               else
                 let s3 = semit (EvIoctl IOCTL_FREE_HOST_PR_MEM [va]) s2
                 in if os_fails w (sd_trace s3)
                    then (Inl ''ioctl_free_host_pr_mem failed'', semit (EvUnlock MLOCK) s3)
                    else
                      let s4 = semit (EvUnlock MLOCK) s3
                      in (Inr (), s4\<lparr>sd_pages := filter (\<lambda>e. fst e \<noteq> va) (sd_pages s4)\<rparr>)
          else (Inl ''unauthorized memory deallocation'', s))"

subsection \<open>Reconfiguration\<close>

definition reconfigure_mem :: "os \<Rightarrow> u64 \<Rightarrow> u32 \<Rightarrow> cSched \<Rightarrow> (unit, cSched) outcome" where
  "reconfigure_mem w va len s =
     (if en_pr (sd_fcnfg s) then
        let s1 = semit (EvIoctl IOCTL_RECONFIG_LOAD [va, ucast len]) s
        in if os_fails w (sd_trace s1) then (Inl ''ioctl_reconfig_load failed'', s1) else (Inr (), s1)
      else (Inr (), s))"

definition reconfigure :: "os \<Rightarrow> u32 \<Rightarrow> cSched \<Rightarrow> (unit, cSched) outcome" where
  "reconfigure w oid s =
     (case map_of (bstreams s) oid of
        None \<Rightarrow> (Inr (), s)
      | Some (va, len) \<Rightarrow> reconfigure_mem w va len s)"

text \<open>Four bytes of the file make one word, the first one most significant.\<close>

definition be_word :: "u8 \<Rightarrow> u8 \<Rightarrow> u8 \<Rightarrow> u8 \<Rightarrow> u32" where
  "be_word a b c d = push_bit 24 (ucast a) OR push_bit 16 (ucast b) OR push_bit 8 (ucast c) OR ucast d"

text \<open>The loop \<open>for (i = 0; i < len / 4; i++)\<close> over the bytes of the file that are left.\<close>

fun load_words :: "u64 \<Rightarrow> u8 list \<Rightarrow> (u64 \<Rightarrow> u32) \<Rightarrow> (u64 \<Rightarrow> u32)" where
  "load_words a (b0 # b1 # b2 # b3 # bs) m = load_words (a + 4) bs (m(a := be_word b0 b1 b2 b3))"
| "load_words a bs m = m"

text \<open>\<open>file\<close> is the content found under \<open>name\<close>, \<open>None\<close> when it cannot be opened. The length is
  truncated to 32 bits, and the loop reads that many bytes.\<close>

definition addBitstream :: "os \<Rightarrow> u8 list option \<Rightarrow> u32 \<Rightarrow> cSched \<Rightarrow> (unit, cSched) outcome" where
  "addBitstream w file oid s =
     (if map_of (bstreams s) oid = None then
        case file of
          None \<Rightarrow> (Inl ''Bitstream could not be opened'', s)
        | Some bytes \<Rightarrow>
            let len = of_nat (length bytes) :: u32; n_pages = (len + hugePageSize - 1) div hugePageSize
            in andThen (getMem_sched w \<lparr>ca_alloc = RCNFG_2M, ca_n_pages = n_pages\<rparr> s)
                 (\<lambda>va s. (Inr (), s\<lparr>sd_mem := load_words va (take (unat len) bytes) (sd_mem s),
                                     bstreams := bstreams s @ [(oid, va, len)]\<rparr>))
      else (Inl ''bitstream with same operation ID already present'', s))"

definition removeBitstream :: "os \<Rightarrow> u32 \<Rightarrow> cSched \<Rightarrow> (unit, cSched) outcome" where
  "removeBitstream w oid s =
     (case map_of (bstreams s) oid of
        None \<Rightarrow> (Inr (), s)
      | Some (va, len) \<Rightarrow>
          andThen (freeMem_sched w va s)
            (\<lambda>_ s. (Inr (), s\<lparr>bstreams := filter (\<lambda>e. fst e \<noteq> oid) (bstreams s)\<rparr>)))"

definition checkBitstream :: "u32 \<Rightarrow> cSched \<Rightarrow> bool" where
  "checkBitstream oid s \<longleftrightarrow> map_of (bstreams s) oid \<noteq> None"

subsection \<open>Locks\<close>

datatype (plugins only: size) schedOp =
    SAdd "u8 list option" u32 | SRemove u32 | SReconf u32

fun sched_call :: "os \<Rightarrow> schedOp \<Rightarrow> cSched \<Rightarrow> (unit, cSched) outcome" where
  "sched_call w (SAdd file oid) s = addBitstream w file oid s"
| "sched_call w (SRemove oid) s = removeBitstream w oid s"
| "sched_call w (SReconf oid) s = reconfigure w oid s"

lemma semit_simps [simp]:
  "sd_trace (semit e s) = sd_trace s @ [e]" "sd_fcnfg (semit e s) = sd_fcnfg s"
  "sd_pages (semit e s) = sd_pages s" "bstreams (semit e s) = bstreams s" "sd_mem (semit e s) = sd_mem s"
  by (simp_all add: semit_def)

definition all_free :: "cSched \<Rightarrow> bool" where
  "all_free s \<longleftrightarrow> (\<forall>m. lock_state m (sd_trace s) = Some False)"

lemma getMem_sched_free: "all_free s \<Longrightarrow> all_free (snd (getMem_sched w al s))"
  by (auto simp: getMem_sched_def all_free_def Let_def)

lemma freeMem_sched_free: "all_free s \<Longrightarrow> all_free (snd (freeMem_sched w va s))"
  by (auto simp: freeMem_sched_def all_free_def Let_def split: option.split)

lemma sched_call_free: "all_free s \<Longrightarrow> all_free (snd (sched_call w op s))"
proof (cases op)
  case (SAdd content oid)
  moreover assume "all_free s"
  ultimately show ?thesis
    by (auto simp: addBitstream_def Let_def getMem_sched_free split: option.split
        intro!: snd_andThen_keeps [where P = all_free]) (simp add: all_free_def)
next
  case (SRemove oid)
  moreover assume "all_free s"
  ultimately show ?thesis
    by (auto simp: removeBitstream_def freeMem_sched_free split: option.split
        intro!: snd_andThen_keeps [where P = all_free]) (simp add: all_free_def)
next
  case (SReconf oid)
  moreover assume "all_free s"
  ultimately show ?thesis
    by (auto simp: reconfigure_def reconfigure_mem_def Let_def all_free_def split: option.split)
qed

interpretation sched: lock_discipline sd_trace "sched_call w" for w
  using sched_call_free by unfold_locales (auto simp: all_free_def)

subsection \<open>Loading\<close>

lemma load_words_below:
  "length bs < 2 ^ 32 \<Longrightarrow> (\<And>j. j < length bs div 4 \<Longrightarrow> x \<noteq> a + 4 * of_nat j) \<Longrightarrow> load_words a bs m x = m x"
proof (induction a bs m rule: load_words.induct)
  case (1 a b0 b1 b2 b3 bs m)
  have "x \<noteq> a" using "1.prems"(2) [of 0] by simp
  moreover have "x \<noteq> a + 4 + 4 * of_nat j" if "j < length bs div 4" for j
    using "1.prems"(2) [of "Suc j"] that by (simp add: algebra_simps)
  moreover have "length bs < 2 ^ 32" using "1.prems"(1) by simp
  ultimately have "load_words (a + 4) bs (m(a := be_word b0 b1 b2 b3)) x = (m(a := be_word b0 b1 b2 b3)) x"
    by (intro "1.IH") auto
  with \<open>x \<noteq> a\<close> show ?case by simp
qed auto

lemma load_words_nth:
  assumes "length bs < 2 ^ 32" "i < length bs div 4"
  shows "load_words a bs m (a + 4 * of_nat i)
         = be_word (bs ! (4 * i)) (bs ! (4 * i + 1)) (bs ! (4 * i + 2)) (bs ! (4 * i + 3))"
  using assms
proof (induction a bs m arbitrary: i rule: load_words.induct)
  case (1 a b0 b1 b2 b3 bs m)
  show ?case
  proof (cases i)
    case 0
    have "a \<noteq> a + 4 + 4 * of_nat j" if j: "j < length bs div 4" for j
    proof -
      have "4 + 4 * j < 2 ^ 64" using j "1.prems"(1) by simp
      then have "(of_nat (4 + 4 * j) :: u64) \<noteq> of_nat 0"
        by (subst of_nat_word_eq_iff) auto
      then show ?thesis by (simp add: algebra_simps)
    qed
    then show ?thesis using 0 "1.prems"(1) by (simp add: load_words_below)
  next
    case (Suc k)
    have "load_words (a + 4) bs (m(a := be_word b0 b1 b2 b3)) (a + 4 + 4 * of_nat k)
        = be_word (bs ! (4 * k)) (bs ! (4 * k + 1)) (bs ! (4 * k + 2)) (bs ! (4 * k + 3))"
      using "1.prems" Suc by (intro "1.IH") auto
    then show ?thesis by (simp add: Suc algebra_simps)
  qed
qed auto

lemma addBitstream_ok:
  assumes "addBitstream w (Some bytes) oid s = (Inr (), s')"
  obtains va s1 where
    "getMem_sched w \<lparr>ca_alloc = RCNFG_2M,
       ca_n_pages = (of_nat (length bytes) + hugePageSize - 1) div hugePageSize\<rparr> s = (Inr va, s1)"
    "s' = s1\<lparr>sd_mem := load_words va (take (unat (of_nat (length bytes) :: u32)) bytes) (sd_mem s1),
            bstreams := bstreams s1 @ [(oid, va, of_nat (length bytes))]\<rparr>"
    "map_of (bstreams s) oid = None"
  using assms
  by (auto simp: addBitstream_def Let_def andThen_def split: if_splits prod.splits sum.splits)

lemma getMem_sched_frame:
  "getMem_sched w al s = (r, s') \<Longrightarrow> bstreams s' = bstreams s \<and> sd_fcnfg s' = sd_fcnfg s \<and> sd_mem s' = sd_mem s"
  by (auto simp: getMem_sched_def Let_def split: if_splits)

text \<open>A bitstream that was added is found again, and its memory holds the file: word \<open>i\<close> is
  made of the bytes \<open>4 i\<close> to \<open>4 i + 3\<close>, the first one most significant, for every complete word of
  a file below 4 GB. Asking for the operator on a reconfigurable region hands exactly this address
  and the length of the file to the driver.\<close>

theorem bitstream_loaded:
  assumes "addBitstream w (Some bytes) oid s = (Inr (), s')" "length bytes < 2 ^ 32"
  shows "checkBitstream oid s' \<and> (\<exists>va. map_of (bstreams s') oid = Some (va, of_nat (length bytes))
    \<and> (\<forall>i < length bytes div 4. sd_mem s' (va + 4 * of_nat i)
        = be_word (bytes ! (4 * i)) (bytes ! (4 * i + 1)) (bytes ! (4 * i + 2)) (bytes ! (4 * i + 3)))
    \<and> (en_pr (sd_fcnfg s') \<longrightarrow> sd_trace (snd (reconfigure w' oid s'))
        = sd_trace s' @ [EvIoctl IOCTL_RECONFIG_LOAD [va, of_nat (length bytes)]]))"
proof -
  obtain va s1 where g: "getMem_sched w \<lparr>ca_alloc = RCNFG_2M,
       ca_n_pages = (of_nat (length bytes) + hugePageSize - 1) div hugePageSize\<rparr> s = (Inr va, s1)"
    and s': "s' = s1\<lparr>sd_mem := load_words va (take (unat (of_nat (length bytes) :: u32)) bytes) (sd_mem s1),
            bstreams := bstreams s1 @ [(oid, va, of_nat (length bytes))]\<rparr>"
    and n: "map_of (bstreams s) oid = None"
    using assms(1) by (rule addBitstream_ok)
  have len: "unat (of_nat (length bytes) :: u32) = length bytes"
    using assms(2) by (simp add: unat_of_nat)
  have u: "ucast (of_nat (length bytes) :: u32) = (of_nat (length bytes) :: u64)"
    using len by (metis of_nat_unat)
  have m: "map_of (bstreams s') oid = Some (va, of_nat (length bytes))"
    using n getMem_sched_frame [OF g] by (simp add: s' map_add_def)
  have "sd_mem s' (va + 4 * of_nat i)
      = be_word (bytes ! (4 * i)) (bytes ! (4 * i + 1)) (bytes ! (4 * i + 2)) (bytes ! (4 * i + 3))"
    if "i < length bytes div 4" for i
    using load_words_nth [OF assms(2) that] by (simp add: s' len)
  with m show ?thesis
    by (auto simp: checkBitstream_def reconfigure_def reconfigure_mem_def Let_def u)
qed

text \<open>A system whose calls all succeed and whose mappings are at a fixed address.\<close>

definition steady_os :: os where
  "steady_os = \<lparr>os_fails = \<lambda>_. False, os_ptr = \<lambda>_. 0x40000000, os_out = \<lambda>_. 0x40\<rparr>"

definition sched_fresh :: cSched where
  "sched_fresh = \<lparr>sd_vfid = 0, sd_fcnfg = parseCnfg 0x40, sd_pages = [], bstreams = [], sd_mem = \<lambda>_. 0, sd_trace = []\<rparr>"

lemma add_example:
  "\<exists>s'. addBitstream steady_os (Some [1, 2, 3, 4, 5, 6, 7, 8, 9]) 5 sched_fresh = (Inr (), s')
     \<and> map_of (bstreams s') 5 = Some (0x40000000, 9) \<and> sd_fcnfg s' = parseCnfg 0x40"
  by (simp add: addBitstream_def getMem_sched_def steady_os_def sched_fresh_def emplace_def align_2M_def
      word_div_def semit_def)

theorem bitstream_loaded_witness:
  "\<exists>s'. addBitstream steady_os (Some [1, 2, 3, 4, 5, 6, 7, 8, 9]) 5 sched_fresh = (Inr (), s')
     \<and> sd_mem s' (0x40000000 + 4) = be_word 5 6 7 8"
proof -
  obtain s' where a: "addBitstream steady_os (Some [1, 2, 3, 4, 5, 6, 7, 8, 9]) 5 sched_fresh = (Inr (), s')"
    and m: "map_of (bstreams s') 5 = Some (0x40000000, 9)" using add_example by blast
  have "\<forall>i < 9 div 4. sd_mem s' (0x40000000 + 4 * of_nat i)
      = be_word ([1, 2, 3, 4, 5, 6, 7, 8, 9] ! (4 * i)) ([1, 2, 3, 4, 5, 6, 7, 8, 9] ! (4 * i + 1))
          ([1, 2, 3, 4, 5, 6, 7, 8, 9] ! (4 * i + 2)) ([1, 2, 3, 4, 5, 6, 7, 8, 9] ! (4 * i + 3))"
    using bitstream_loaded [OF a] m by simp
  from this [rule_format, of 1] a show ?thesis by auto
qed

text \<open>Adding a bitstream and removing it again leaves the object as it was, apart from the
  memory words and the calls made, when the memory is new and the system calls succeed.\<close>

theorem bitstream_add_remove:
  assumes "addBitstream w (Some bytes) oid s = (Inr (), s')" "healthy w'"
    and "map_of (bstreams s') oid = Some (va, len)" "map_of (sd_pages s) va = None"
  shows "\<exists>s''. removeBitstream w' oid s' = (Inr (), s'') \<and> bstreams s'' = bstreams s
      \<and> sd_pages s'' = sd_pages s \<and> \<not> checkBitstream oid s''"
proof -
  obtain va' s1 where g: "getMem_sched w \<lparr>ca_alloc = RCNFG_2M,
       ca_n_pages = (of_nat (length bytes) + hugePageSize - 1) div hugePageSize\<rparr> s = (Inr va', s1)"
    and s': "s' = s1\<lparr>sd_mem := load_words va' (take (unat (of_nat (length bytes) :: u32)) bytes) (sd_mem s1),
            bstreams := bstreams s1 @ [(oid, va', of_nat (length bytes))]\<rparr>"
    and n: "map_of (bstreams s) oid = None"
    using assms(1) by (rule addBitstream_ok)
  have va: "va' = va"
    using assms(3) n getMem_sched_frame [OF g] by (simp add: s' map_add_def)
  have old: "filter (\<lambda>e. fst e \<noteq> oid) (bstreams s) = bstreams s"
    "filter (\<lambda>e. fst e \<noteq> va) (sd_pages s) = sd_pages s"
    using n assms(4) by (auto simp: filter_id_conv map_of_eq_None_iff)
  have pages: "sd_pages s1 = sd_pages s \<or> (\<exists>al na. ca_alloc al = RCNFG_2M \<and> sd_pages s1 = sd_pages s @ [(va, al, na)])"
    using g assms(4) unfolding va
    by (auto simp: getMem_sched_def Let_def emplace_def split: if_splits)
  then have "map_of (sd_pages s1) va = None \<and> sd_pages s1 = sd_pages s
      \<or> (\<exists>al na. ca_alloc al = RCNFG_2M \<and> map_of (sd_pages s1) va = Some (al, na)
          \<and> filter (\<lambda>e. fst e \<noteq> va) (sd_pages s1) = sd_pages s)"
    using assms(4) old by (auto simp: map_add_def)
  moreover have "bstreams s1 = bstreams s" using getMem_sched_frame [OF g] by simp
  ultimately show ?thesis
    using assms(2,3) n old
    by (auto simp: removeBitstream_def freeMem_sched_def healthy_def s' va Let_def checkBitstream_def
        map_add_def)
qed

theorem bitstream_add_remove_witness:
  "\<exists>s' s''. addBitstream steady_os (Some [1, 2, 3, 4, 5, 6, 7, 8, 9]) 5 sched_fresh = (Inr (), s')
     \<and> removeBitstream steady_os 5 s' = (Inr (), s'') \<and> bstreams s'' = [] \<and> sd_pages s'' = []"
proof -
  obtain s' where a: "addBitstream steady_os (Some [1, 2, 3, 4, 5, 6, 7, 8, 9]) 5 sched_fresh = (Inr (), s')"
    and m: "map_of (bstreams s') 5 = Some (0x40000000, 9)" using add_example by blast
  have "healthy steady_os" by (simp add: healthy_def steady_os_def)
  from bitstream_add_remove [OF a this m] a show ?thesis by (auto simp: sched_fresh_def)
qed

end
