(* ===== verification/Coyote_Thread.thy ===== *)
theory Coyote_Thread
  imports Prelude
begin

text \<open>
  Worker threads and the task arbiter (\<^verbatim>\<open>sw/src/cThread.cpp\<close>, \<^verbatim>\<open>sw/src/cArbiter.cpp\<close> and their
  headers, \<^verbatim>\<open>sw/include/cTask.hpp\<close>). The body of a task is user code: it is the parameter \<open>runT\<close>,
  which maps a task and the state of the process to a completion code and the new state.
\<close>

subsection \<open>Tasks and threads\<close>

record bTask =
  tid :: u32
  oid :: u32
  task_priority :: u32

text \<open>Where the worker is in an iteration of \<open>processRequests\<close>: looking at the queue, running a
  task, about to push its completion.\<close>

datatype workerPc = WLook | WRun bTask | WPush u32 u32

text \<open>A queue entry is a \<open>unique_ptr\<close>, \<open>None\<close> when it is null.\<close>

record 'p cThread =
  trun :: bool
  cproc :: 'p
  task_queue :: "bTask option list"
  cmpl_queue :: "(u32 \<times> u32) list"
  cnt_cmpl :: u32
  wpc :: workerPc

definition cThread_start :: "'p \<Rightarrow> 'p cThread" where
  "cThread_start p = \<lparr>trun = True, cproc = p, task_queue = [], cmpl_queue = [], cnt_cmpl = 0, wpc = WLook\<rparr>"

text \<open>The actions of the worker: taking the next task under the lock, running it, publishing its
  completion.\<close>

definition processRequests_step :: "(bTask \<Rightarrow> 'p \<Rightarrow> u32 \<times> 'p) \<Rightarrow> 'p cThread \<Rightarrow> 'p cThread" where
  "processRequests_step runT t =
     (case wpc t of
        WLook \<Rightarrow>
          (case task_queue t of
             [] \<Rightarrow> t
           | Some curr_task # q \<Rightarrow> t\<lparr>task_queue := q, wpc := WRun curr_task\<rparr>
           | None # q \<Rightarrow> t\<lparr>task_queue := q\<rparr>)
      | WRun curr_task \<Rightarrow>
          (case runT curr_task (cproc t) of
             (cmpl_code, p) \<Rightarrow> t\<lparr>cproc := p, cnt_cmpl := cnt_cmpl t + 1, wpc := WPush (tid curr_task) cmpl_code\<rparr>)
      | WPush i cmpl_code \<Rightarrow> t\<lparr>cmpl_queue := cmpl_queue t @ [(i, cmpl_code)], wpc := WLook\<rparr>)"

text \<open>Whether the loop \<open>while(run || !task_queue.empty())\<close> is left at its next test.\<close>

definition worker_done :: "'p cThread \<Rightarrow> bool" where
  "worker_done t \<longleftrightarrow> wpc t = WLook \<and> \<not> trun t \<and> task_queue t = []"

definition scheduleTask :: "bTask option \<Rightarrow> 'p cThread \<Rightarrow> 'p cThread" where
  "scheduleTask ctask t = t\<lparr>task_queue := task_queue t @ [ctask]\<rparr>"

text \<open>\<open>getCompletedNext\<close> tests the queue without the lock, then takes the first element under it;
  \<open>None\<close>: \<open>front\<close> and \<open>pop\<close> of an empty queue, which is undefined. A call whose test fails returns
  \<open>{-1, -1}\<close>. The last definition is a call that nothing interrupts.\<close>

definition completed_test :: "'p cThread \<Rightarrow> bool" where
  "completed_test t \<longleftrightarrow> cmpl_queue t \<noteq> []"

definition completed_take :: "'p cThread \<Rightarrow> ((u32 \<times> u32) \<times> 'p cThread) option" where
  "completed_take t = (case cmpl_queue t of [] \<Rightarrow> None | e # q \<Rightarrow> Some (e, t\<lparr>cmpl_queue := q\<rparr>))"

definition getCompletedNext :: "'p cThread \<Rightarrow> ((u32 \<times> u32) \<times> 'p cThread) option" where
  "getCompletedNext t = (if completed_test t then completed_take t else Some ((- 1, - 1), t))"

text \<open>The destructor clears \<open>run\<close> and joins the worker: it returns when the worker is done.\<close>

definition cThread_stop :: "'p cThread \<Rightarrow> 'p cThread" where
  "cThread_stop t = t\<lparr>trun := False\<rparr>"

subsection \<open>The arbiter\<close>

record 'p cArbiter =
  arun :: bool
  cthreads :: "(u32 \<times> 'p cThread) list"
  request_queue :: "bTask option list"

definition addCThread :: "u32 \<Rightarrow> 'p \<Rightarrow> 'p cArbiter \<Rightarrow> bool \<times> 'p cArbiter" where
  "addCThread ctid p a =
     (if map_of (cthreads a) ctid = None
      then (True, a\<lparr>cthreads := cthreads a @ [(ctid, cThread_start p)]\<rparr>) else (False, a))"

definition removeCThread :: "u32 \<Rightarrow> 'p cArbiter \<Rightarrow> 'p cArbiter" where
  "removeCThread ctid a = a\<lparr>cthreads := filter (\<lambda>e. fst e \<noteq> ctid) (cthreads a)\<rparr>"

definition getCThread :: "u32 \<Rightarrow> 'p cArbiter \<Rightarrow> 'p cThread option" where
  "getCThread ctid a = map_of (cthreads a) ctid"

definition cArbiter_start :: "'p cArbiter \<Rightarrow> 'p cArbiter" where
  "cArbiter_start a = a\<lparr>arun := True\<rparr>"

definition cArbiter_stop :: "'p cArbiter \<Rightarrow> 'p cArbiter" where
  "cArbiter_stop a = a\<lparr>arun := False\<rparr>"

definition arb_scheduleTask :: "bTask option \<Rightarrow> 'p cArbiter \<Rightarrow> 'p cArbiter" where
  "arb_scheduleTask ctask a = a\<lparr>request_queue := request_queue a @ [ctask]\<rparr>"

text \<open>The search for the shortest queue. The comparison is unsigned in 64 bits, the minimum is kept
  in a signed 32-bit variable.\<close>

fun find_min :: "u32 \<Rightarrow> u32 \<Rightarrow> (u32 \<times> 'p cThread) list \<Rightarrow> u32" where
  "find_min m m_id [] = m_id"
| "find_min m m_id ((i, t) # ts) =
     (if (of_nat (length (task_queue t)) :: u64) < scast m
      then find_min (of_nat (length (task_queue t))) i ts else find_min m m_id ts)"

definition min_thread :: "(u32 \<times> 'p cThread) list \<Rightarrow> u32" where
  "min_thread ts = find_min 0x7fffffff 0 ts"

definition upd_thread :: "u32 \<Rightarrow> ('p cThread \<Rightarrow> 'p cThread) \<Rightarrow> (u32 \<times> 'p cThread) list \<Rightarrow> (u32 \<times> 'p cThread) list" where
  "upd_thread i f ts = map (\<lambda>(j, t). (j, if j = i then f t else t)) ts"

text \<open>One iteration of the arbiter. \<open>None\<close>: the index operator found no thread of that id, inserted
  a null pointer and the call went through it.\<close>

definition arb_step :: "'p cArbiter \<Rightarrow> 'p cArbiter option" where
  "arb_step a =
     (case request_queue a of
        [] \<Rightarrow> Some a
      | None # q \<Rightarrow> Some (a\<lparr>request_queue := q\<rparr>)
      | Some task # q \<Rightarrow>
          (let i = min_thread (cthreads a)
           in if map_of (cthreads a) i = None then None
              else Some (a\<lparr>request_queue := q, cthreads := upd_thread i (scheduleTask (Some task)) (cthreads a)\<rparr>)))"

text \<open>Whether the loop \<open>while(run || !request_queue.empty())\<close> is left at its next test.\<close>

definition arb_done :: "'p cArbiter \<Rightarrow> bool" where
  "arb_done a \<longleftrightarrow> \<not> arun a \<and> request_queue a = []"

definition arb_getCompletedNext :: "u32 \<Rightarrow> 'p cArbiter \<Rightarrow> ((u32 \<times> u32) \<times> 'p cArbiter) option" where
  "arb_getCompletedNext ctid a =
     (case map_of (cthreads a) ctid of
        None \<Rightarrow> Some ((- 1, - 1), a)
      | Some t \<Rightarrow>
          (case getCompletedNext t of
             None \<Rightarrow> None
           | Some (e, t') \<Rightarrow> Some (e, a\<lparr>cthreads := upd_thread ctid (\<lambda>_. t') (cthreads a)\<rparr>)))"

definition getCompletedCnt :: "'p cArbiter \<Rightarrow> u32" where
  "getCompletedCnt a = sum_list (map (cnt_cmpl \<circ> snd) (cthreads a))"

subsection \<open>Order of completions\<close>

text \<open>Running tasks one after the other: the completions and the final state.\<close>

fun run_all :: "(bTask \<Rightarrow> 'p \<Rightarrow> u32 \<times> 'p) \<Rightarrow> bTask list \<Rightarrow> 'p \<Rightarrow> (u32 \<times> u32) list \<times> 'p" where
  "run_all runT [] p = ([], p)"
| "run_all runT (k # ks) p =
     (case runT k p of (c, p') \<Rightarrow> case run_all runT ks p' of (es, p'') \<Rightarrow> ((tid k, c) # es, p''))"

lemma run_all_snoc:
  "run_all runT (ks @ [k]) p =
     (case run_all runT ks p of (es, p') \<Rightarrow> case runT k p' of (c, p'') \<Rightarrow> (es @ [(tid k, c)], p''))"
  by (induction ks arbitrary: p) (auto split: prod.splits)

text \<open>What happens to a thread object: its worker takes a step, a client schedules, or a client that
  polls (numbered) tests the queue or takes the completion it has seen.\<close>

datatype threadEv = Worker | Schedule "bTask option" | Test nat | Take nat

text \<open>The thread with the clients that are between test and take, the tasks submitted so far and the
  completions handed out so far. Events of a client that is elsewhere do not happen.\<close>

type_synonym 'p threadRun = "'p cThread \<times> (nat \<Rightarrow> bool) \<times> bTask list \<times> (u32 \<times> u32) list"

fun thread_step :: "(bTask \<Rightarrow> 'p \<Rightarrow> u32 \<times> 'p) \<Rightarrow> threadEv \<Rightarrow> 'p threadRun \<Rightarrow> 'p threadRun option" where
  "thread_step runT Worker (t, pol, sub, out) = Some (processRequests_step runT t, pol, sub, out)"
| "thread_step runT (Schedule k) (t, pol, sub, out) =
     Some (scheduleTask k t, pol, sub @ (case k of None \<Rightarrow> [] | Some x \<Rightarrow> [x]), out)"
| "thread_step runT (Test i) (t, pol, sub, out) =
     Some (t, if completed_test t then pol(i := True) else pol, sub, out)"
| "thread_step runT (Take i) (t, pol, sub, out) =
     (if \<not> pol i then Some (t, pol, sub, out)
      else case completed_take t of
             None \<Rightarrow> None
           | Some (e, t') \<Rightarrow> Some (t', pol(i := False), sub, out @ [e]))"

definition thread_ev :: "(bTask \<Rightarrow> 'p \<Rightarrow> u32 \<times> 'p) \<Rightarrow> threadEv \<Rightarrow> 'p threadRun option \<Rightarrow> 'p threadRun option" where
  "thread_ev runT e c = Option.bind c (thread_step runT e)"

lemma thread_ev_simps [simp]:
  "thread_ev runT e None = None" "thread_ev runT e (Some c) = thread_step runT e c"
  by (simp_all add: thread_ev_def)

definition thread_start :: "'p \<Rightarrow> 'p threadRun option" where
  "thread_start p = Some (cThread_start p, \<lambda>_. False, [], [])"

definition started :: "'p cThread \<Rightarrow> bTask list" where
  "started t = (case wpc t of WRun k \<Rightarrow> [k] | _ \<Rightarrow> [])"

definition unpublished :: "'p cThread \<Rightarrow> (u32 \<times> u32) list" where
  "unpublished t = (case wpc t of WPush i c \<Rightarrow> [(i, c)] | _ \<Rightarrow> [])"

definition thread_inv :: "(bTask \<Rightarrow> 'p \<Rightarrow> u32 \<times> 'p) \<Rightarrow> 'p \<Rightarrow> 'p threadRun option \<Rightarrow> bool" where
  "thread_inv runT p0 c \<longleftrightarrow> (case c of None \<Rightarrow> True | Some (t, pol, sub, out) \<Rightarrow> \<exists>ks.
     sub = ks @ started t @ List.map_filter id (task_queue t)
     \<and> run_all runT ks p0 = (out @ cmpl_queue t @ unpublished t, cproc t)
     \<and> cnt_cmpl t = of_nat (length ks))"

lemma thread_inv_init: "thread_inv runT p0 (thread_start p0)"
  by (simp add: thread_inv_def thread_start_def cThread_start_def started_def unpublished_def map_filter_simps)

lemma map_filter_append [simp]: "List.map_filter f (xs @ ys) = List.map_filter f xs @ List.map_filter f ys"
  by (simp add: List.map_filter_def)

lemma thread_inv_step:
  assumes "thread_inv runT p0 c"
  shows "thread_inv runT p0 (thread_ev runT e c)"
proof (cases c)
  case None
  then show ?thesis by (simp add: thread_inv_def)
next
  case (Some r)
  then obtain t pol sub out where c: "c = Some (t, pol, sub, out)" by (cases r) auto
  obtain ks where sub: "sub = ks @ started t @ List.map_filter id (task_queue t)"
    and ran: "run_all runT ks p0 = (out @ cmpl_queue t @ unpublished t, cproc t)"
    and n: "cnt_cmpl t = of_nat (length ks)"
    using assms by (auto simp: thread_inv_def c)
  show ?thesis
  proof (cases e)
    case Worker
    show ?thesis
    proof (cases "wpc t")
      case WLook
      then show ?thesis using sub ran n
        by (auto simp: c Worker thread_inv_def processRequests_step_def started_def unpublished_def
            map_filter_simps split: list.splits option.splits)
    next
      case (WRun k)
      obtain code p where r: "runT k (cproc t) = (code, p)" by fastforce
      have "run_all runT (ks @ [k]) p0 = (out @ cmpl_queue t @ [(tid k, code)], p)"
        using ran WRun by (simp add: run_all_snoc r unpublished_def)
      then show ?thesis using sub n WRun
        by (auto simp: c Worker thread_inv_def processRequests_step_def started_def unpublished_def r
            intro!: exI [of _ "ks @ [k]"])
    next
      case (WPush i code)
      then show ?thesis using sub ran n
        by (auto simp: c Worker thread_inv_def processRequests_step_def started_def unpublished_def)
    qed
  next
    case (Schedule k)
    then show ?thesis using sub ran n
      by (auto simp: c thread_inv_def scheduleTask_def started_def unpublished_def map_filter_simps
          split: option.splits)
  next
    case (Test i)
    then show ?thesis using sub ran n by (auto simp: c thread_inv_def)
  next
    case (Take i)
    then show ?thesis using sub ran n
      by (auto simp: c thread_inv_def completed_take_def started_def unpublished_def split: list.splits)
  qed
qed

interpretation thr: step_invariant "thread_start p0" "thread_ev runT" "thread_inv runT p0"
  for runT :: "bTask \<Rightarrow> 'p \<Rightarrow> u32 \<times> 'p" and p0
  by unfold_locales (rule thread_inv_init, rule thread_inv_step)

text \<open>The clients that poll. When it is one, the completion it has seen is still there when it
  takes it.\<close>

fun poller :: "threadEv \<Rightarrow> nat set" where
  "poller (Test i) = {i}"
| "poller (Take i) = {i}"
| "poller e = {}"

definition one_poller :: "nat \<Rightarrow> 'p threadRun option \<Rightarrow> bool" where
  "one_poller p c \<longleftrightarrow> (case c of None \<Rightarrow> False
     | Some (t, pol, sub, out) \<Rightarrow> \<forall>j. pol j \<longrightarrow> j = p \<and> cmpl_queue t \<noteq> [])"

lemma cmpl_queue_grows: "cmpl_queue t \<noteq> [] \<Longrightarrow> cmpl_queue (processRequests_step runT t) \<noteq> []"
  by (auto simp: processRequests_step_def split: workerPc.split list.split option.split prod.split)

lemma one_poller_step:
  assumes "one_poller p c" "poller e \<subseteq> {p}"
  shows "one_poller p (thread_ev runT e c)"
proof -
  obtain t pol sub out where c: "c = Some (t, pol, sub, out)"
    using assms(1) by (cases c) (auto simp: one_poller_def)
  have pol: "\<And>j. pol j \<Longrightarrow> j = p \<and> cmpl_queue t \<noteq> []" using assms(1) by (simp add: one_poller_def c)
  show ?thesis
  proof (cases e)
    case Worker
    have "pol j \<Longrightarrow> j = p \<and> cmpl_queue (processRequests_step runT t) \<noteq> []" for j
      using pol [of j] cmpl_queue_grows [of t runT] by blast
    then show ?thesis by (simp add: one_poller_def c Worker)
  next
    case (Schedule k)
    then show ?thesis using pol by (simp add: one_poller_def c scheduleTask_def)
  next
    case (Test i)
    then have i: "i = p" using assms(2) by simp
    show ?thesis
    proof (cases "completed_test t")
      case True
      have "j = p" if "(pol(i := True)) j" for j using pol [of j] that i by (cases "j = i") simp_all
      moreover have "cmpl_queue t \<noteq> []" using True by (simp add: completed_test_def)
      ultimately have "\<forall>j. (pol(i := True)) j \<longrightarrow> j = p \<and> cmpl_queue t \<noteq> []" by blast
      then show ?thesis
        unfolding one_poller_def c Test thread_ev_simps thread_step.simps if_P [OF True] option.case prod.case .
    next
      case False
      show ?thesis
        using assms(1) unfolding one_poller_def c Test thread_ev_simps thread_step.simps if_not_P [OF False] option.case prod.case .
    qed
  next
    case (Take i)
    show ?thesis
    proof (cases "pol i")
      case True
      then obtain x q where q: "cmpl_queue t = x # q" and i: "i = p" using pol [of i] by (cases "cmpl_queue t") auto
      have "\<not> (pol(i := False)) j" for j using pol [of j] i by (cases "j = i") auto
      then show ?thesis using True by (simp add: one_poller_def c Take completed_take_def q)
    next
      case False
      show ?thesis
        using assms(1) False unfolding c Take by (simp only: thread_ev_simps thread_step.simps not_False_eq_True if_True)
    qed
  qed
qed

lemma one_poller_run: "one_poller p c \<Longrightarrow> \<forall>e \<in> set evs. poller e \<subseteq> {p} \<Longrightarrow> one_poller p (run_inputs (thread_ev runT) evs c)"
  by (induction evs arbitrary: c) (simp_all add: one_poller_step)

lemma undefined_two_pollers:
  assumes "run_inputs (thread_ev runT) evs (thread_start p0) = None"
  shows "\<exists>e \<in> set evs. \<exists>f \<in> set evs. \<exists>i \<in> poller e. \<exists>j \<in> poller f. i \<noteq> j"
proof (rule ccontr)
  assume "\<not> ?thesis"
  then have same: "i = j" if "e \<in> set evs" "f \<in> set evs" "i \<in> poller e" "j \<in> poller f" for e f i j
    using that by blast
  have "\<exists>p. \<forall>e \<in> set evs. poller e \<subseteq> {p}"
  proof (cases "\<exists>e \<in> set evs. poller e \<noteq> {}")
    case True
    then obtain e p where "e \<in> set evs" "p \<in> poller e" by blast
    then show ?thesis using same by blast
  qed auto
  then obtain p where "\<forall>e \<in> set evs. poller e \<subseteq> {p}" by blast
  then have "one_poller p (run_inputs (thread_ev runT) evs (thread_start p0))"
    by (intro one_poller_run) (simp_all add: one_poller_def thread_start_def)
  with assms show False by (simp add: one_poller_def)
qed



text \<open>Two clients that poll can both see the last completion; the second removal is then one from an
  empty queue.\<close>

theorem two_pollers_pop_empty:
  "run_inputs (thread_ev runT)
     [Schedule (Some \<lparr>tid = 1, oid = 10, task_priority = 0\<rparr>), Worker, Worker, Worker, Test 0, Test 1, Take 0, Take 1]
     (thread_start p0) = None"
  by (simp add: processRequests_step_def scheduleTask_def cThread_start_def thread_start_def completed_test_def
      completed_take_def split: prod.split)

text \<open>How many actions the worker has left.\<close>

definition work_left :: "'p cThread \<Rightarrow> nat" where
  "work_left t = 3 * length (task_queue t) + (case wpc t of WLook \<Rightarrow> 0 | WRun _ \<Rightarrow> 2 | WPush _ _ \<Rightarrow> 1)"

lemma work_left_step:
  "work_left t \<noteq> 0 \<Longrightarrow> work_left (processRequests_step runT t) < work_left t"
  by (cases "wpc t")
     (auto simp: work_left_def processRequests_step_def split: list.splits option.splits prod.splits)

lemma trun_step [simp]: "trun (processRequests_step runT t) = trun t"
  by (auto simp: processRequests_step_def split: workerPc.splits list.splits option.splits prod.splits)

text \<open>The worker terminates: once the destructor has cleared \<open>run\<close>, it is done after at most
  three actions per queued task and two more for the one in progress, with the queue drained.\<close>

theorem worker_drains:
  "worker_done (((processRequests_step runT) ^^ (3 * length (task_queue t) + 2)) (cThread_stop t))"
proof -
  have "work_left t \<le> n \<Longrightarrow> work_left ((processRequests_step runT ^^ n) t) = 0" for n t
  proof (induction n arbitrary: t)
    case (Suc n)
    have "work_left (processRequests_step runT t) \<le> n"
    proof (cases "work_left t = 0")
      case True
      then have "processRequests_step runT t = t"
        by (cases "wpc t") (auto simp: work_left_def processRequests_step_def)
      then show ?thesis using True by simp
    next
      case False
      then show ?thesis using work_left_step [of t runT] Suc.prems by linarith
    qed
    then show ?case using Suc.IH by (simp only: funpow_Suc_right o_apply)
  qed simp
  moreover have "work_left (cThread_stop t) \<le> 3 * length (task_queue t) + 2"
    by (auto simp: work_left_def cThread_stop_def split: workerPc.splits)
  moreover have "\<not> trun ((processRequests_step runT ^^ n) (cThread_stop t))" for n
    by (induction n) (simp_all add: cThread_stop_def)
  ultimately have "work_left ((processRequests_step runT ^^ (3 * length (task_queue t) + 2)) (cThread_stop t)) = 0"
    and "\<not> trun ((processRequests_step runT ^^ (3 * length (task_queue t) + 2)) (cThread_stop t))" by blast+
  then show ?thesis
    unfolding worker_done_def work_left_def by (auto split: workerPc.splits)
qed

subsection \<open>Load balancing\<close>

definition qlen :: "'p cThread \<Rightarrow> nat" where
  "qlen t = length (task_queue t)"

lemma scast_small:
  assumes "n < 2 ^ 31"
  shows "(scast (of_nat n :: u32) :: u64) = of_nat n"
proof (rule bit_word_eqI)
  fix k
  have "\<not> bit n k" if "31 \<le> k" for k
    using assms that by (metis bit_nat_def div_less even_zero less_le_trans one_le_numeral power_increasing)
  then show "bit (scast (of_nat n :: u32) :: u64) k \<longleftrightarrow> bit (of_nat n :: u64) k" if "k < LENGTH(64)"
    using that by (auto simp: bit_signed_iff min_def bit_simps)
qed

lemma find_min_less:
  assumes "m < 2 ^ 31" "qlen t < 2 ^ 31"
  shows "(of_nat (length (task_queue t)) :: u64) < scast (of_nat m :: u32) \<longleftrightarrow> qlen t < m"
  using assms by (simp add: scast_small qlen_def word_less_nat_alt unat_of_nat)

lemma find_min_spec:
  assumes "m < 2 ^ 31" "\<forall>e \<in> set ts. qlen (snd e) < 2 ^ 31"
  shows "(find_min (of_nat m) i ts = i \<and> (\<forall>e \<in> set ts. m \<le> qlen (snd e)))
    \<or> (\<exists>t. (find_min (of_nat m) i ts, t) \<in> set ts \<and> qlen t < m \<and> (\<forall>e \<in> set ts. qlen t \<le> qlen (snd e)))"
  using assms
proof (induction ts arbitrary: m i)
  case (Cons e ts)
  obtain j t where e: "e = (j, t)" by fastforce
  have t: "qlen t < 2 ^ 31" using Cons.prems by (simp add: e)
  show ?case
  proof (cases "qlen t < m")
    case True
    then have "find_min (of_nat m) i (e # ts) = find_min (of_nat (qlen t)) j ts"
      using find_min_less [OF Cons.prems(1) t] by (simp add: e qlen_def)
    moreover have ts: "\<forall>e \<in> set ts. qlen (snd e) < 2 ^ 31" using Cons.prems by simp
    ultimately show ?thesis
      using Cons.IH [OF t ts, of j] True
      by (elim disjE exE conjE) (auto simp: e intro!: exI intro: less_imp_le)
  next
    case False
    then have "find_min (of_nat m) i (e # ts) = find_min (of_nat m) i ts"
      using find_min_less [OF Cons.prems(1) t] by (simp add: e)
    moreover have ts: "\<forall>e \<in> set ts. qlen (snd e) < 2 ^ 31" using Cons.prems by simp
    ultimately show ?thesis
      using Cons.IH [OF Cons.prems(1) ts, of i] False
      by (elim disjE exE conjE) (auto simp: e intro: exI)
  qed
qed simp

lemma min_thread_shortest:
  assumes "cthreads a \<noteq> []" "\<forall>e \<in> set (cthreads a). qlen (snd e) < 2 ^ 31 - 1"
  obtains t where "(min_thread (cthreads a), t) \<in> set (cthreads a)"
    "\<And>e. e \<in> set (cthreads a) \<Longrightarrow> qlen t \<le> qlen (snd e)"
proof -
  have m: "(0x7fffffff :: u32) = of_nat (2 ^ 31 - 1)" by simp
  have "\<not> (\<forall>e \<in> set (cthreads a). 2 ^ 31 - 1 \<le> qlen (snd e))"
    using assms by (metis list.set_sel(1) not_less)
  then show ?thesis
    using find_min_spec [of "2 ^ 31 - 1" "cthreads a" 0] assms that
    unfolding min_thread_def m by fastforce
qed

definition even_load :: "'p cArbiter \<Rightarrow> bool" where
  "even_load a \<longleftrightarrow> (\<forall>e \<in> set (cthreads a). \<forall>f \<in> set (cthreads a). qlen (snd e) \<le> qlen (snd f) + 1)"

text \<open>The arbiter hands the oldest request to a thread with a shortest queue: it never goes
  through a null pointer while there is a thread, nothing but that thread's queue changes, and a
  distribution in which no two queues differ by more than one stays so.\<close>

theorem arbiter_shortest_queue:
  assumes "request_queue a = Some task # q" "cthreads a \<noteq> []" "distinct (map fst (cthreads a))"
    and "\<forall>e \<in> set (cthreads a). qlen (snd e) < 2 ^ 31 - 1"
  shows "\<exists>i t a'. arb_step a = Some a' \<and> request_queue a' = q \<and> map_of (cthreads a) i = Some t
    \<and> (\<forall>e \<in> set (cthreads a). qlen t \<le> qlen (snd e))
    \<and> map_of (cthreads a') = (map_of (cthreads a))(i \<mapsto> scheduleTask (Some task) t)
    \<and> (even_load a \<longrightarrow> even_load a')"
proof -
  obtain t where t: "(min_thread (cthreads a), t) \<in> set (cthreads a)"
    and le: "\<And>e. e \<in> set (cthreads a) \<Longrightarrow> qlen t \<le> qlen (snd e)"
    using min_thread_shortest [OF assms(2,4)] by blast
  define i where "i = min_thread (cthreads a)"
  have i: "map_of (cthreads a) i = Some t" using t assms(3) by (simp add: i_def)
  define a' where "a' = a\<lparr>request_queue := q, cthreads := upd_thread i (scheduleTask (Some task)) (cthreads a)\<rparr>"
  have step: "arb_step a = Some a'"
    using assms(1) i by (simp add: arb_step_def Let_def i_def a'_def)
  have "map_of (upd_thread i f ts) = (map_of ts)(i \<mapsto> f t)" if "map_of ts i = Some t" for f ts
    using that
  proof (induction ts)
    case (Cons e ts)
    obtain j u where e: "e = (j, u)" by fastforce
    have other: "map_of (upd_thread i f ts) k = (if k = i then map_option f (map_of ts k) else map_of ts k)" for k
      by (induction ts) (auto simp: upd_thread_def)
    show ?case using Cons.prems other by (auto simp: e upd_thread_def fun_eq_iff)
  qed simp
  then have maps: "map_of (cthreads a') = (map_of (cthreads a))(i \<mapsto> scheduleTask (Some task) t)"
    using i by (simp add: a'_def)
  have only: "(i, u) \<in> set (cthreads a) \<Longrightarrow> u = t" for u
    using i assms(3) by (metis map_of_is_SomeI option.inject)
  have q: "qlen (scheduleTask (Some task) t) = qlen t + 1" by (simp add: qlen_def scheduleTask_def)
  have "even_load a'" if "even_load a"
    unfolding even_load_def
  proof (intro ballI)
    fix e f assume "e \<in> set (cthreads a')" "f \<in> set (cthreads a')"
    then obtain e0 f0 where 0: "e0 \<in> set (cthreads a)" "f0 \<in> set (cthreads a)"
      and qe: "qlen (snd e) = qlen (snd e0) + (if fst e0 = i then 1 else 0)"
      and qf: "qlen (snd f) = qlen (snd f0) + (if fst f0 = i then 1 else 0)"
      by (force simp: a'_def upd_thread_def qlen_def scheduleTask_def)
    have "qlen (snd e0) = qlen t" if "fst e0 = i" using only 0(1) that by (metis prod.collapse)
    moreover have "qlen (snd e0) \<le> qlen (snd f0) + 1" using \<open>even_load a\<close> 0 by (simp add: even_load_def)
    ultimately show "qlen (snd e) \<le> qlen (snd f) + 1"
      using le [OF 0(2)] qe qf by (auto split: if_splits)
  qed
  moreover have "request_queue a' = q" by (simp add: a'_def)
  ultimately show ?thesis using step i maps le by blast
qed

theorem arbiter_shortest_queue_witness:
  "let t0 = cThread_start (0 :: nat); k = \<lparr>tid = 9, oid = 0, task_priority = 0\<rparr>;
       a = \<lparr>arun = True, cthreads = [(4, scheduleTask None t0), (6, t0)], request_queue = [Some k]\<rparr>
   in \<exists>i t a'. arb_step a = Some a' \<and> request_queue a' = [] \<and> map_of (cthreads a) i = Some t
        \<and> (\<forall>e \<in> set (cthreads a). qlen t \<le> qlen (snd e)) \<and> even_load a'"
proof -
  let ?t0 = "cThread_start (0 :: nat)" and ?k = "\<lparr>tid = 9, oid = 0, task_priority = 0\<rparr>"
  let ?a = "\<lparr>arun = True, cthreads = [(4, scheduleTask None ?t0), (6, ?t0)], request_queue = [Some ?k]\<rparr>"
  have "even_load ?a" by (simp add: even_load_def qlen_def scheduleTask_def cThread_start_def)
  with arbiter_shortest_queue [of ?a ?k "[]"] show ?thesis
    unfolding Let_def by (simp add: qlen_def scheduleTask_def cThread_start_def) blast
qed

text \<open>Without threads the first real request is fatal: the arbiter has no thread to give it
  to and goes through a null pointer; dropping null requests is all it can do.\<close>

theorem arbiter_without_threads:
  "cthreads a = [] \<Longrightarrow> arb_step a = None \<longleftrightarrow> (\<exists>task q. request_queue a = Some task # q)"
  by (auto simp: arb_step_def Let_def split: list.splits option.splits)

theorem arbiter_without_threads_witness:
  "arb_step \<lparr>arun = True, cthreads = [] :: (u32 \<times> nat cThread) list,
     request_queue = [Some \<lparr>tid = 0, oid = 0, task_priority = 0\<rparr>]\<rparr> = None"
  using arbiter_without_threads [of "\<lparr>arun = True, cthreads = [] :: (u32 \<times> nat cThread) list,
     request_queue = [Some \<lparr>tid = 0, oid = 0, task_priority = 0\<rparr>]\<rparr>"] by simp

end
