(* ===== verification/Driver_Types.thy ===== *)
theory Driver_Types
  imports Coyote_Defs
begin

text \<open>
  Types of the Linux driver (\<^verbatim>\<open>driver/coyote_dev.h\<close>) and what it uses of the kernel. The state is that of one vFPGA (\<open>struct fpga_dev\<close>)
  together with the data all of them share (\<open>struct bus_drvdata\<close>). A page is its frame number. Every effect outside the driver is an entry of a
  trace; what the kernel answers is a function of the trace. A call that does not return has the outcome \<open>Inl\<close>: an invalid memory access, a
  spin lock that is never released, a device that does not finish, \<open>BUG_ON\<close>.
\<close>

unbundle bit_operations_syntax

subsection \<open>Constants\<close>

definition PAGE_SHIFT :: nat where "PAGE_SHIFT = 12"
definition PAGE_SIZE :: u64 where "PAGE_SIZE = 4096"
definition PAGE_MASK :: u64 where "PAGE_MASK = NOT 0xFFF"
definition EINVAL :: int where "EINVAL = 22"
definition ENOMEM :: int where "ENOMEM = 12"
definition EIO :: int where "EIO = 5"

definition TLB_VADDR_RANGE :: nat where "TLB_VADDR_RANGE = 48"
definition TLB_PADDR_RANGE :: nat where "TLB_PADDR_RANGE = 40"
definition PID_SIZE :: nat where "PID_SIZE = 6"
definition MAX_MAP_AXIL_PAGES :: nat where "MAX_MAP_AXIL_PAGES = 64"
definition LTLB_PAGE_BITS :: nat where "LTLB_PAGE_BITS = 21"
definition STLB_PAGE_BITS :: nat where "STLB_PAGE_BITS = 12"
definition TLBF_CTRL_START :: u64 where "TLBF_CTRL_START = 7"
definition TLBF_CTRL_ID_MASK :: u64 where "TLBF_CTRL_ID_MASK = 0xff"
definition TLBF_CTRL_ID_SHFT :: nat where "TLBF_CTRL_ID_SHFT = 3"
definition MAX_USER_WORDS :: nat where "MAX_USER_WORDS = 32"
definition MAX_BUFF_NUM :: nat where "MAX_BUFF_NUM = 64"
definition MAX_PR_BUFF_NUM :: nat where "MAX_PR_BUFF_NUM = 64"
definition MAX_N_MAP_PAGES :: int where "MAX_N_MAP_PAGES = 128"
definition MAX_N_MAP_HUGE_PAGES :: int where "MAX_N_MAP_HUGE_PAGES = 16 * 512"
definition N_LARGE_CHUNKS :: nat where "N_LARGE_CHUNKS = 512"
definition N_SMALL_CHUNKS :: nat where "N_SMALL_CHUNKS = 256 * 1024"
definition MEM_SEP :: u64 where "MEM_SEP = 0x40000000"
definition PR_BATCH_SIZE :: u64 where "PR_BATCH_SIZE = 2 * 1024 * 1024"
definition PR_CTRL_START_MIDDLE :: u64 where "PR_CTRL_START_MIDDLE = 1"
definition PR_CTRL_START_LAST :: u64 where "PR_CTRL_START_LAST = 7"
definition N_CPID_MAX :: nat where "N_CPID_MAX = 64"
definition HASH_SIZE :: nat where "HASH_SIZE = 256"

subsection \<open>The structures\<close>

type_synonym page = u64

record chunk =
  ch_used :: bool
  ch_id :: u32
  ch_next :: "nat option"

text \<open>An array of chunks with the head of its free list; a pointer to a chunk is its index.\<close>

record cpool =
  cp_chunks :: "chunk list"
  cp_num_free :: nat
  cp_alloc :: "nat option"

record tlb_order =
  to_hugepage :: bool
  to_page_shift :: nat
  to_page_size :: u64
  to_page_mask :: u64
  to_key_mask :: u64
  to_key_size :: nat
  to_tag_size :: nat
  to_phy_mask :: u64
  to_phy_size :: nat

record user_pages =
  up_vaddr :: u64
  up_huge :: bool
  up_cpid :: u32
  up_n_hpages :: nat
  up_n_pages :: nat
  up_hpages :: "page list"
  up_cpages :: "u64 list"

record pr_pages =
  pp_reg_id :: u32
  pp_vaddr :: u64
  pp_n_pages :: nat
  pp_pages :: "page list"

record cid_entry =
  cid_pid :: u32
  cid_cpid :: u32

text \<open>What leaves the driver.\<close>

datatype statReg =
    TLB_ADDR | TLB_LEN | TLB_CTRL | PR_ADDR | PR_LEN | PR_CTRL | PR_EOST | LSPEED_CNFG
  | NET_IP bool | NET_MAC bool | NET_ARP bool | TCP_OFFS bool nat | RDMA_QP_CTX bool nat | RDMA_QP_CONN bool nat
  | NET_DROP bool nat | NET_DROP_CLR bool

datatype (plugins only: size) kEvent =
    KAlloc u64 \<comment> \<open>\<open>kzalloc\<close>, \<open>kcalloc\<close>, \<open>vzalloc\<close> of a number of elements\<close>
  | KPages nat \<comment> \<open>\<open>alloc_pages\<close> of an order\<close>
  | KFreePages page
  | KPin u64 int \<comment> \<open>\<open>get_user_pages_remote\<close>\<close>
  | KDirty page
  | KPutPage page
  | KTlb bool u64 u64 \<comment> \<open>an entry for the large or the small TLB of this vFPGA\<close>
  | KTlbDma u64 "(u64 \<times> u64) list" \<comment> \<open>control word and entries that the device fetches\<close>
  | KStat statReg u64
  | KDatapath bool
  | KRestart
  | KRemap u64 u64 u64 \<comment> \<open>\<open>remap_pfn_range\<close>: address, frame number, size\<close>
  | KFromUser nat
  | KToUser "u64 list"

record kernel =
  k_alloc :: "kEvent list \<Rightarrow> bool"
  k_page :: "kEvent list \<Rightarrow> page option"
  k_pinned :: "kEvent list \<Rightarrow> page list option" \<comment> \<open>the pages it could pin, as many as it returns\<close>
  k_vma :: "u32 \<Rightarrow> u64 \<Rightarrow> bool option" \<comment> \<open>whether the area of an address has huge pages; \<open>None\<close> without the process or the area\<close>
  k_finishes :: "kEvent list \<Rightarrow> bool" \<comment> \<open>whether the device reports completion\<close>
  k_remap :: "kEvent list \<Rightarrow> bool"
  k_user :: "kEvent list \<Rightarrow> u64 list option" \<comment> \<open>what \<open>copy_from_user\<close> delivers\<close>
  k_debug :: "nat \<Rightarrow> u64" \<comment> \<open>the statistics registers\<close>
  k_hash :: "u64 \<Rightarrow> nat"
  k_hash_pid :: "u32 \<Rightarrow> nat"

datatype klock = CARD_S_LOCK | CARD_L_LOCK | TLB_LOCK | PRC_LOCK | PR_LOCK | STAT_LOCK | CARD_PID_LOCK | DEV_LOCK

record drv =
  kt :: "kEvent list"
  held :: "klock set"
  d_id :: u32
  pd_n_fpga_reg :: u32
  pd_n_fpga_chan :: u32
  pd_en_avx :: bool
  pd_en_bypass :: bool
  pd_en_tlbf :: bool
  pd_en_wb :: bool
  pd_en_strm :: bool
  pd_en_mem :: bool
  pd_en_pr :: bool
  pd_en_rdma_0 :: bool
  pd_en_rdma_1 :: bool
  pd_en_tcp_0 :: bool
  pd_en_tcp_1 :: bool
  pd_en_net_0 :: bool
  pd_en_net_1 :: bool
  pd_net_ip_addr :: "bool \<Rightarrow> u32"
  pd_net_mac_addr :: "bool \<Rightarrow> u64"
  pd_schunks :: cpool
  pd_lchunks :: cpool
  pd_stlb_order :: tlb_order
  pd_ltlb_order :: tlb_order
  d_pids :: cpool
  d_pid_array :: "u32 list"
  d_curr_user_buff :: user_pages
  prc_curr_buff :: pr_pages
  user_lbuff_map :: "nat \<Rightarrow> user_pages list"
  user_sbuff_map :: "nat \<Rightarrow> user_pages list"
  pr_buff_map :: "nat \<Rightarrow> pr_pages list"
  pid_cpid_map :: "nat \<Rightarrow> cid_entry list"

type_synonym 'a call = "drv \<Rightarrow> ('a, drv) outcome"

subsection \<open>Kernel services\<close>

definition kret :: "'a \<Rightarrow> 'a call" where
  "kret x s = (Inr x, s)"

definition kfault :: "string \<Rightarrow> 'a call" where
  "kfault e s = (Inl e, s)"

definition kdo :: "kEvent \<Rightarrow> drv \<Rightarrow> drv" where
  "kdo e s = s\<lparr>kt := kt s @ [e]\<rparr>"

definition kdo_all :: "kEvent list \<Rightarrow> drv \<Rightarrow> drv" where
  "kdo_all es s = s\<lparr>kt := kt s @ es\<rparr>"

text \<open>A spin lock that is held when a call begins was left locked by an earlier one.\<close>

definition spin_lock :: "klock \<Rightarrow> unit call" where
  "spin_lock l s = (if l \<in> held s then (Inl ''spin lock held'', s) else (Inr (), s\<lparr>held := insert l (held s)\<rparr>))"

definition spin_unlock :: "klock \<Rightarrow> drv \<Rightarrow> drv" where
  "spin_unlock l s = s\<lparr>held := held s - {l}\<rparr>"

text \<open>Memory of a number of elements; the answer says whether there is any.\<close>

definition kzalloc :: "kernel \<Rightarrow> u64 \<Rightarrow> drv \<Rightarrow> bool \<times> drv" where
  "kzalloc K n s = (let s' = kdo (KAlloc n) s in (k_alloc K (kt s'), s'))"

definition page_to_phys :: "page \<Rightarrow> u64" where
  "page_to_phys p = push_bit PAGE_SHIFT p"

text \<open>An array that was not allocated has no elements.\<close>

definition elem :: "'a list \<Rightarrow> nat \<Rightarrow> 'a call" where
  "elem xs i = (if i < length xs then kret (xs ! i) else kfault ''invalid access'')"

text \<open>
  Lists of a hash table. The body says whether the loop goes on, whether the entry was removed, or what the caller returns; removing the entry of a
  loop that is not the safe one clears its link, and the loop ends.
\<close>

datatype hstep = Next | Removed | Return int

fun hlist_each :: "('e \<Rightarrow> 's \<Rightarrow> (hstep, 's) outcome) \<Rightarrow> 'e list \<Rightarrow> 's \<Rightarrow> (hstep, 's) outcome" where
  "hlist_each f [] s = (Inr Next, s)"
| "hlist_each f (x # xs) s =
     andThen (f x s) (\<lambda>r s'. case r of Next \<Rightarrow> hlist_each f xs s' | Removed \<Rightarrow> (Inr Next, s') | Return c \<Rightarrow> (Inr (Return c), s'))"

fun hash_each :: "('s \<Rightarrow> nat \<Rightarrow> 'e list) \<Rightarrow> ('e \<Rightarrow> 's \<Rightarrow> (hstep, 's) outcome) \<Rightarrow> nat list \<Rightarrow> 's \<Rightarrow> (hstep, 's) outcome" where
  "hash_each tab f [] s = (Inr Next, s)"
| "hash_each tab f (b # bs) s =
     andThen (hlist_each f (tab s b) s) (\<lambda>r s'. case r of Return c \<Rightarrow> (Inr (Return c), s') | _ \<Rightarrow> hash_each tab f bs s')"

definition return_code :: "(hstep, 's) outcome \<Rightarrow> (int, 's) outcome" where
  "return_code r = andThen r (\<lambda>h s. (Inr (case h of Return c \<Rightarrow> c | _ \<Rightarrow> 0), s))"

definition hash_add :: "nat \<Rightarrow> 'e \<Rightarrow> (nat \<Rightarrow> 'e list) \<Rightarrow> nat \<Rightarrow> 'e list" where
  "hash_add b x m = m(b := x # m b)"

definition hash_del :: "nat \<Rightarrow> 'e \<Rightarrow> (nat \<Rightarrow> 'e list) \<Rightarrow> nat \<Rightarrow> 'e list" where
  "hash_del b x m = m(b := remove1 x (m b))"

end
