(* ===== verification/Driver_Mem.thy ===== *)
theory Driver_Mem
  imports Driver_Types
begin

text \<open>
  Memory management of the driver (\<^verbatim>\<open>driver/fpga_mmu.c\<close>, \<^verbatim>\<open>driver/fpga_dev.c\<close>): chunks of card memory, buffers, TLB entries, pinned pages.
\<close>

unbundle bit_operations_syntax

subsection \<open>Chunks\<close>

text \<open>\<open>alloc_card_resources\<close> and \<open>init_fpga_devices\<close>: the loop ends before the last chunk, which stays zeroed.\<close>

definition init_chunks :: "nat \<Rightarrow> cpool" where
  "init_chunks n =
     \<lparr>cp_chunks = map (\<lambda>i. \<lparr>ch_used = False, ch_id = of_nat i, ch_next = Some (i + 1)\<rparr>) [0..<n - 1] @ [\<lparr>ch_used = False, ch_id = 0, ch_next = None\<rparr>],
      cp_num_free = n, cp_alloc = Some 0\<rparr>"

definition alloc_card_resources :: "kernel \<Rightarrow> int call" where
  "alloc_card_resources K s =
     (case kzalloc K (of_nat N_LARGE_CHUNKS) s of (ok1, s1) \<Rightarrow>
       if \<not> ok1 then kret (- ENOMEM) s1
       else case kzalloc K (of_nat N_SMALL_CHUNKS) s1 of (ok2, s2) \<Rightarrow>
         if \<not> ok2 then kret (- ENOMEM) s2
         else kret 0 (s2\<lparr>pd_lchunks := init_chunks N_LARGE_CHUNKS, pd_schunks := init_chunks N_SMALL_CHUNKS\<rparr>))"

text \<open>One round of the loop in \<open>card_alloc\<close>: the head of the list, if there is one.\<close>

definition chunk_take :: "cpool \<Rightarrow> (u32 \<times> cpool) option" where
  "chunk_take p =
     (case cp_alloc p of
        None \<Rightarrow> None
      | Some i \<Rightarrow> Some (ch_id (cp_chunks p ! i),
          p\<lparr>cp_chunks := (cp_chunks p)[i := (cp_chunks p ! i)\<lparr>ch_used := True\<rparr>], cp_alloc := ch_next (cp_chunks p ! i)\<rparr>))"

fun chunks_take :: "nat \<Rightarrow> cpool \<Rightarrow> u32 list \<Rightarrow> (u32 list \<times> cpool) option" where
  "chunks_take 0 p ids = Some (ids, p)"
| "chunks_take (Suc n) p ids = (case chunk_take p of None \<Rightarrow> None | Some (i, q) \<Rightarrow> chunks_take n q (ids @ [i]))"

text \<open>One round of the loop in \<open>card_free\<close>; the flag is not cleared.\<close>

definition chunk_give :: "nat \<Rightarrow> cpool \<Rightarrow> cpool option" where
  "chunk_give i p =
     (if length (cp_chunks p) \<le> i then None
      else if ch_used (cp_chunks p ! i)
      then Some (p\<lparr>cp_chunks := (cp_chunks p)[i := (cp_chunks p ! i)\<lparr>ch_next := cp_alloc p\<rparr>], cp_alloc := Some i\<rparr>)
      else Some p)"

fun chunks_give :: "nat list \<Rightarrow> cpool \<Rightarrow> cpool option" where
  "chunks_give [] p = Some p"
| "chunks_give (i # js) p = (case chunk_give i p of None \<Rightarrow> None | Some q \<Rightarrow> chunks_give js q)"

definition small_addr :: "u32 \<Rightarrow> u64" where
  "small_addr i = ucast (push_bit STLB_PAGE_BITS i)"

definition large_addr :: "u32 \<Rightarrow> u64" where
  "large_addr i = ucast (push_bit LTLB_PAGE_BITS i + ucast MEM_SEP)"

definition card_alloc_small :: "nat \<Rightarrow> (int \<times> u64 list) call" where
  "card_alloc_small n s =
     andThen (spin_lock CARD_S_LOCK s) (\<lambda>_ s1.
       if cp_num_free (pd_schunks s1) < n then kret (- ENOMEM, []) s1
       else case chunks_take n (pd_schunks s1) [] of
          None \<Rightarrow> kfault ''invalid access'' s1
        | Some (ids, p) \<Rightarrow> kret (0, map small_addr ids) (spin_unlock CARD_S_LOCK (s1\<lparr>pd_schunks := p\<rparr>)))"

definition card_alloc_large :: "nat \<Rightarrow> (int \<times> u64 list) call" where
  "card_alloc_large n s =
     andThen (spin_lock CARD_L_LOCK s) (\<lambda>_ s1.
       if cp_num_free (pd_lchunks s1) < n then kret (- ENOMEM, []) s1
       else case chunks_take n (pd_lchunks s1) [] of
          None \<Rightarrow> kfault ''invalid access'' s1
        | Some (ids, p) \<Rightarrow> kret (0, map large_addr ids) (spin_unlock CARD_L_LOCK (s1\<lparr>pd_lchunks := p\<rparr>)))"

definition card_alloc :: "nat \<Rightarrow> bool \<Rightarrow> (int \<times> u64 list) call" where
  "card_alloc n large = (if large then card_alloc_large n else card_alloc_small n)"

definition card_free_small :: "u64 list \<Rightarrow> unit call" where
  "card_free_small addrs s =
     andThen (spin_lock CARD_S_LOCK s) (\<lambda>_ s1.
       case chunks_give (map (\<lambda>a. unat (drop_bit STLB_PAGE_BITS a)) (rev addrs)) (pd_schunks s1) of
          None \<Rightarrow> kfault ''invalid access'' s1
        | Some p \<Rightarrow> kret () (spin_unlock CARD_S_LOCK (s1\<lparr>pd_schunks := p\<rparr>)))"

definition card_free_large :: "u64 list \<Rightarrow> unit call" where
  "card_free_large addrs s =
     andThen (spin_lock CARD_L_LOCK s) (\<lambda>_ s1.
       case chunks_give (map (\<lambda>a. unat (drop_bit LTLB_PAGE_BITS (a - MEM_SEP))) (rev addrs)) (pd_lchunks s1) of
          None \<Rightarrow> kfault ''invalid access'' s1
        | Some p \<Rightarrow> kret () (spin_unlock CARD_L_LOCK (s1\<lparr>pd_lchunks := p\<rparr>)))"

text \<open>The array is read at the first \<open>n\<close> places.\<close>

definition card_free :: "u64 list \<Rightarrow> nat \<Rightarrow> bool \<Rightarrow> unit call" where
  "card_free addrs n large s =
     (if length addrs < n then kfault ''invalid access'' s
      else (if large then card_free_large else card_free_small) (take n addrs) s)"

subsection \<open>TLB entries\<close>

text \<open>The arguments are sign extended where C does.\<close>

definition tlb_key :: "tlb_order \<Rightarrow> u64 \<Rightarrow> u64" where
  "tlb_key t vaddr = drop_bit (to_page_shift t) vaddr AND to_key_mask t"

definition tlb_tag :: "tlb_order \<Rightarrow> u64 \<Rightarrow> u64" where
  "tlb_tag t vaddr = drop_bit (to_page_shift t + to_key_size t) vaddr"

definition tlb_entry0 :: "tlb_order \<Rightarrow> u64 \<Rightarrow> u32 \<Rightarrow> u64 \<Rightarrow> u64" where
  "tlb_entry0 t vaddr cpid valid =
     tlb_key t vaddr OR push_bit (to_key_size t) (tlb_tag t vaddr)
     OR push_bit (to_key_size t + to_tag_size t) (scast cpid) OR push_bit (to_key_size t + to_tag_size t + PID_SIZE) valid"

definition tlb_create_map :: "tlb_order \<Rightarrow> u64 \<Rightarrow> u64 \<Rightarrow> u64 \<Rightarrow> u32 \<Rightarrow> u64 \<times> u64" where
  "tlb_create_map t vaddr paddr_host paddr_card cpid =
     (let phost = drop_bit (to_page_shift t) paddr_host AND to_phy_mask t;
          pcard = drop_bit (to_page_shift t) paddr_card AND to_phy_mask t
      in (tlb_entry0 t vaddr cpid 1, phost OR push_bit (to_phy_size t) pcard))"

definition tlb_create_unmap :: "tlb_order \<Rightarrow> u64 \<Rightarrow> u32 \<Rightarrow> u64 \<times> u64" where
  "tlb_create_unmap t vaddr cpid = (tlb_entry0 t vaddr cpid 0, 0)"

text \<open>The identifier is combined with its mask by a logical, not by a bitwise and.\<close>

definition tlb_ctrl_word :: "tlb_order \<Rightarrow> drv \<Rightarrow> u64" where
  "tlb_ctrl_word t s =
     (let i = (if to_hugepage t then d_id s else pd_n_fpga_reg s + d_id s)
      in TLBF_CTRL_START OR push_bit TLBF_CTRL_ID_SHFT (of_bool (i \<noteq> 0 \<and> TLBF_CTRL_ID_MASK \<noteq> 0)))"

definition tlb_service_dev :: "kernel \<Rightarrow> tlb_order \<Rightarrow> (u64 \<times> u64) list \<Rightarrow> unit call" where
  "tlb_service_dev K t es s =
     (if pd_en_tlbf s \<and> MAX_MAP_AXIL_PAGES < length es
      then andThen (spin_lock TLB_LOCK s) (\<lambda>_ s1.
             let s2 = kdo (KTlbDma (tlb_ctrl_word t s1) es) s1
             in if k_finishes K (kt s2) then kret () (spin_unlock TLB_LOCK s2) else kfault ''no completion'' s2)
      else kret () (kdo_all (map (\<lambda>e. KTlb (to_hugepage t) (fst e) (snd e)) es) s))"

text \<open>The addresses of \<open>n\<close> pages.\<close>

definition page_addrs :: "u64 \<Rightarrow> u64 \<Rightarrow> nat \<Rightarrow> u64 list" where
  "page_addrs vaddr psize n = map (\<lambda>i. vaddr + of_nat i * psize) [0..<n]"

subsection \<open>Buffers without huge page support\<close>

fun alloc_host_pages :: "kernel \<Rightarrow> nat \<Rightarrow> nat \<Rightarrow> page list \<Rightarrow> drv \<Rightarrow> bool \<times> page list \<times> drv" where
  "alloc_host_pages K order 0 ps s = (True, ps, s)"
| "alloc_host_pages K order (Suc n) ps s =
     (let s' = kdo (KPages order) s
      in case k_page K (kt s') of None \<Rightarrow> (False, ps, s') | Some p \<Rightarrow> alloc_host_pages K order n (ps @ [p]) s')"

definition page_order :: "drv \<Rightarrow> nat" where
  "page_order s = to_page_shift (pd_ltlb_order s) - PAGE_SHIFT"

definition alloc_user_card :: "kernel \<Rightarrow> int call" where
  "alloc_user_card K s =
     (let c = d_curr_user_buff s; n = up_n_hpages c; s1 = s\<lparr>d_curr_user_buff := c\<lparr>up_n_pages := n\<rparr>\<rparr>
      in case kzalloc K (of_nat n) s1 of (ok, s2) \<Rightarrow>
        if \<not> ok then kret (- ENOMEM) (s2\<lparr>d_curr_user_buff := (d_curr_user_buff s2)\<lparr>up_cpages := []\<rparr>\<rparr>)
        else andThen (card_alloc n True s2) (\<lambda>(r, addrs) s3.
          if r \<noteq> 0
          then kret (- ENOMEM) (kdo_all (map KFreePages (take n (up_hpages c)))
                 (s3\<lparr>d_curr_user_buff := (d_curr_user_buff s3)\<lparr>up_n_hpages := 0, up_n_pages := 0\<rparr>\<rparr>))
          else kret 0 (s3\<lparr>d_curr_user_buff := (d_curr_user_buff s3)\<lparr>up_cpages := addrs\<rparr>\<rparr>)))"

definition alloc_user_buffers :: "kernel \<Rightarrow> u64 \<Rightarrow> u32 \<Rightarrow> int call" where
  "alloc_user_buffers K n_pages cpid s =
     (if up_n_hpages (d_curr_user_buff s) \<noteq> 0 then kret (- 1) s
      else let n = min (unat n_pages) MAX_BUFF_NUM;
               s1 = s\<lparr>d_curr_user_buff := (d_curr_user_buff s)\<lparr>up_n_hpages := n\<rparr>\<rparr>
        in if pd_en_mem s \<and> cp_num_free (pd_lchunks s) < n then kret (- ENOMEM) s1
           else case kzalloc K (of_nat n) (s1\<lparr>d_curr_user_buff := (d_curr_user_buff s1)\<lparr>up_huge := True, up_cpid := cpid\<rparr>\<rparr>) of (ok, s2) \<Rightarrow>
             if \<not> ok then kret (- ENOMEM) (s2\<lparr>d_curr_user_buff := (d_curr_user_buff s2)\<lparr>up_hpages := []\<rparr>\<rparr>)
             else case alloc_host_pages K (page_order s2) n [] s2 of (ok3, ps, s3) \<Rightarrow>
               if \<not> ok3
               then kret (- ENOMEM) (kdo_all (map KFreePages (rev ps)) (s3\<lparr>d_curr_user_buff := (d_curr_user_buff s3)\<lparr>up_n_hpages := 0, up_hpages := ps\<rparr>\<rparr>))
               else let s4 = s3\<lparr>d_curr_user_buff := (d_curr_user_buff s3)\<lparr>up_hpages := ps\<rparr>\<rparr>
                 in if pd_en_mem s4 then alloc_user_card K s4 else kret 0 s4)"

definition free_user_buffer :: "kernel \<Rightarrow> u64 \<Rightarrow> u32 \<Rightarrow> user_pages \<Rightarrow> hstep call" where
  "free_user_buffer K vaddr cpid u s =
     (if up_vaddr u = vaddr \<and> up_cpid u = cpid
      then if length (up_hpages u) < up_n_hpages u then kfault ''invalid access'' s
        else andThen ((if pd_en_mem s then card_free (up_cpages u) (up_n_pages u) True else kret ()) (kdo_all (map KFreePages (take (up_n_hpages u) (up_hpages u))) s)) (\<lambda>_ s1.
          case kzalloc K (of_nat (2 * up_n_hpages u)) s1 of (ok, s2) \<Rightarrow>
            if \<not> ok then kret (Return (- ENOMEM)) s2
            else andThen (tlb_service_dev K (pd_ltlb_order s2) (map (\<lambda>a. tlb_create_unmap (pd_ltlb_order s2) a cpid)
                     (page_addrs vaddr (to_page_size (pd_ltlb_order s2)) (up_n_hpages u))) s2) (\<lambda>_ s3.
                   kret Removed (s3\<lparr>user_lbuff_map := hash_del (k_hash K vaddr) u (user_lbuff_map s3)\<rparr>)))
      else kret Next s)"

definition free_user_buffers :: "kernel \<Rightarrow> u64 \<Rightarrow> u32 \<Rightarrow> int call" where
  "free_user_buffers K vaddr cpid s = return_code (hlist_each (free_user_buffer K vaddr cpid) (user_lbuff_map s (k_hash K vaddr)) s)"

subsection \<open>Buffers for bitstreams\<close>

definition alloc_pr_buffers :: "kernel \<Rightarrow> u64 \<Rightarrow> int call" where
  "alloc_pr_buffers K n_pages s =
     andThen (spin_lock PR_LOCK s) (\<lambda>_ s1.
       if pp_n_pages (prc_curr_buff s1) \<noteq> 0 then kret (- 1) s1
       else let n = min (unat n_pages) MAX_PR_BUFF_NUM; s2 = s1\<lparr>prc_curr_buff := (prc_curr_buff s1)\<lparr>pp_n_pages := n\<rparr>\<rparr>
         in case kzalloc K n_pages s2 of (ok, s3) \<Rightarrow>
           if \<not> ok then kret (- ENOMEM) (s3\<lparr>prc_curr_buff := (prc_curr_buff s3)\<lparr>pp_pages := []\<rparr>\<rparr>)
           else case alloc_host_pages K (page_order s3) n [] s3 of (ok4, ps, s4) \<Rightarrow>
             let s5 = s4\<lparr>prc_curr_buff := (prc_curr_buff s4)\<lparr>pp_pages := ps\<rparr>\<rparr>
             in if \<not> ok4 then kret (- ENOMEM) (spin_unlock PR_LOCK (kdo_all (map KFreePages (rev ps)) s5))
                else kret 0 (spin_unlock PR_LOCK s5))"

text \<open>After \<open>mmap\<close> the current buffer still names the array of the buffer in the table (no two arrays hold the same
  pages); when the array is freed, the current buffer has none.\<close>

definition drop_array :: "pr_pages \<Rightarrow> drv \<Rightarrow> drv" where
  "drop_array u s = (if pp_pages (prc_curr_buff s) = pp_pages u then s\<lparr>prc_curr_buff := (prc_curr_buff s)\<lparr>pp_pages := []\<rparr>\<rparr> else s)"

definition free_pr_buffer :: "kernel \<Rightarrow> u64 \<Rightarrow> pr_pages \<Rightarrow> hstep call" where
  "free_pr_buffer K vaddr u s =
     (if pp_vaddr u = vaddr \<and> pp_reg_id u = d_id s
      then if length (pp_pages u) < pp_n_pages u then kfault ''invalid access'' s
        else kret Removed (kdo_all (map KFreePages (take (pp_n_pages u) (pp_pages u)))
               (drop_array u (s\<lparr>pr_buff_map := hash_del (k_hash K vaddr) u (pr_buff_map s)\<rparr>)))
      else kret Next s)"

definition free_pr_buffers :: "kernel \<Rightarrow> u64 \<Rightarrow> int call" where
  "free_pr_buffers K vaddr s =
     andThen (spin_lock PR_LOCK s) (\<lambda>_ s1.
       andThen (return_code (hlist_each (free_pr_buffer K vaddr) (pr_buff_map s1 (k_hash K vaddr)) s1)) (\<lambda>r s2.
         kret r (spin_unlock PR_LOCK s2)))"

subsection \<open>Pinned pages\<close>

text \<open>The body the three ways to release pages have in common; \<open>vaddr\<close> and \<open>cpid\<close> are those the TLB entries get.\<close>

definition release_host :: "bool \<Rightarrow> user_pages \<Rightarrow> drv \<Rightarrow> drv" where
  "release_host dirtied u s =
     kdo_all ((if dirtied then map KDirty (take (up_n_hpages u) (up_hpages u)) else []) @ map KPutPage (take (up_n_hpages u) (up_hpages u))) s"

definition put_buffer :: "kernel \<Rightarrow> bool \<Rightarrow> u32 \<Rightarrow> user_pages \<Rightarrow> hstep call" where
  "put_buffer K dirtied cpid u s =
     (if length (up_hpages u) < up_n_hpages u then kfault ''invalid access'' s
      else andThen ((if pd_en_mem s then card_free (up_cpages u) (up_n_pages u) (up_huge u) else kret ()) (release_host dirtied u s)) (\<lambda>_ s1.
        case kzalloc K (of_nat (2 * up_n_pages u)) s1 of (ok, s2) \<Rightarrow>
          if \<not> ok then kret (Return (- ENOMEM)) s2
          else let t = (if up_huge u then pd_ltlb_order s2 else pd_stlb_order s2); psize = (if up_huge u then to_page_size (pd_ltlb_order s2) else PAGE_SIZE)
            in andThen (tlb_service_dev K t (map (\<lambda>a. tlb_create_unmap t a cpid) (page_addrs (up_vaddr u) psize (up_n_pages u))) s2) (\<lambda>_ s3.
                 kret Removed (s3\<lparr>user_sbuff_map := hash_del (k_hash K (up_vaddr u)) u (user_sbuff_map s3)\<rparr>))))"

definition tlb_put_user_pages_all :: "kernel \<Rightarrow> bool \<Rightarrow> int call" where
  "tlb_put_user_pages_all K dirtied s =
     return_code (hash_each user_sbuff_map (\<lambda>u. put_buffer K dirtied (up_cpid u) u) [0..<HASH_SIZE] s)"

definition tlb_put_user_pages_cpid :: "kernel \<Rightarrow> u32 \<Rightarrow> bool \<Rightarrow> int call" where
  "tlb_put_user_pages_cpid K cpid dirtied s =
     return_code (hash_each user_sbuff_map (\<lambda>u. if up_cpid u = cpid then put_buffer K dirtied cpid u else kret Next) [0..<HASH_SIZE] s)"

definition tlb_put_user_pages :: "kernel \<Rightarrow> u64 \<Rightarrow> u32 \<Rightarrow> bool \<Rightarrow> int call" where
  "tlb_put_user_pages K vaddr cpid dirtied s =
     return_code (hlist_each (\<lambda>u. if up_vaddr u = vaddr \<and> up_cpid u = cpid then put_buffer K dirtied cpid u else kret Next)
       (user_sbuff_map s (k_hash K vaddr)) s)"

subsection \<open>Mapping user memory\<close>

text \<open>The number of pages of a range, in the \<open>int\<close> it is kept in.\<close>

definition range_pages :: "u64 \<Rightarrow> nat \<Rightarrow> u64 \<Rightarrow> u64 \<Rightarrow> int" where
  "range_pages pmask shift start count =
     (let first = drop_bit shift (start AND pmask); lst = drop_bit shift ((start + count - 1) AND pmask)
      in sint (ucast (lst - first + 1) :: u32))"

text \<open>The physical addresses of the huge pages, one for each change of the huge page number.\<close>

fun huge_frames :: "tlb_order \<Rightarrow> u64 \<Rightarrow> u64 \<Rightarrow> page list \<Rightarrow> u64 list" where
  "huge_frames t cur prev [] = []"
| "huge_frames t cur prev (p # ps) =
     (if drop_bit (to_page_shift t) (cur AND to_page_mask t) \<noteq> drop_bit (to_page_shift t) (prev AND to_page_mask t)
      then (page_to_phys p AND to_page_mask t) # huge_frames t (cur + PAGE_SIZE) cur ps
      else huge_frames t (cur + PAGE_SIZE) prev ps)"

text \<open>The array has \<open>n\<close> elements; those that no change of the page number fills are zero.\<close>

definition huge_array :: "tlb_order \<Rightarrow> u64 \<Rightarrow> nat \<Rightarrow> page list \<Rightarrow> u64 list" where
  "huge_array t start n ps = (let fs = huge_frames t start (- 1) ps in fs @ replicate (n - length fs) 0)"

text \<open>From the physical addresses to the entry of the table: card memory (the code \<open>- 1\<close> stands for an array that was not
  allocated), TLB entries. The structure was zeroed, \<open>cpid\<close> is not stored in it; \<open>np\<close> is the number of pages that was asked for.\<close>

definition map_pages :: "kernel \<Rightarrow> tlb_order \<Rightarrow> u64 \<Rightarrow> u64 \<Rightarrow> u32 \<Rightarrow> nat \<Rightarrow> page list \<Rightarrow> u64 list \<Rightarrow> nat \<Rightarrow> int call" where
  "map_pages K t start psize cpid np ps phys n s =
     andThen (if pd_en_mem s
        then case kzalloc K (of_nat n) s of (ok, s1) \<Rightarrow>
          if \<not> ok then kret (- 1, []) s1 else card_alloc n (to_hugepage t) s1
        else kret (0, replicate n 0) s) (\<lambda>(r, cards) s1.
       if r = - 1 then kret (- ENOMEM) s1
       else if r \<noteq> 0 then kret (- ENOMEM) (kdo_all (map KPutPage (take np ps)) s1)
       else case kzalloc K (of_nat (2 * n)) s1 of (ok, s2) \<Rightarrow>
         if \<not> ok then kret (- ENOMEM) s2
         else andThen (tlb_service_dev K t
                (map (\<lambda>i. tlb_create_map t (start + of_nat i * psize) (phys ! i) (cards ! i) cpid) [0..<n]) s2) (\<lambda>_ s3.
           kret (int np) (s3\<lparr>user_sbuff_map := hash_add (k_hash K start)
             \<lparr>up_vaddr = start, up_huge = to_hugepage t, up_cpid = 0, up_n_hpages = np, up_n_pages = n, up_hpages = ps,
               up_cpages = (if pd_en_mem s then cards else [])\<rparr> (user_sbuff_map s3)\<rparr>)))"

definition map_huge :: "kernel \<Rightarrow> u64 \<Rightarrow> u64 \<Rightarrow> u32 \<Rightarrow> nat \<Rightarrow> page list \<Rightarrow> int call" where
  "map_huge K start count cpid np ps s =
     (let t = pd_ltlb_order s; n = range_pages (to_page_mask t) (to_page_shift t) start count
      in case kzalloc K (of_int n) s of (ok, s1) \<Rightarrow>
        if n < 0 \<or> \<not> ok then kret (- ENOMEM) s1
        else map_pages K t start (to_page_size t) cpid np ps (huge_array t start (nat n) ps) (nat n) s1)"

definition map_limit :: "bool \<Rightarrow> int \<Rightarrow> int" where
  "map_limit huge n = (if huge then min n MAX_N_MAP_HUGE_PAGES else min n MAX_N_MAP_PAGES)"

definition tlb_get_user_pages :: "kernel \<Rightarrow> u64 \<Rightarrow> u64 \<Rightarrow> u32 \<Rightarrow> u32 \<Rightarrow> int call" where
  "tlb_get_user_pages K start count cpid pid s =
     (case k_vma K pid start of
        None \<Rightarrow> kfault ''invalid access'' s
      | Some huge \<Rightarrow>
         (let n = map_limit huge (range_pages PAGE_MASK PAGE_SHIFT start count)
          in if start + count < start then kret (- EINVAL) s
             else if count = 0 then kret 0 s
             else case kzalloc K 1 s of (ok, s1) \<Rightarrow>
               if \<not> ok then kfault ''BUG'' s1
               else case kzalloc K (of_int n) s1 of (ok2, s2) \<Rightarrow>
                 if n < 0 \<or> \<not> ok2 then kret (- 1) s2
                 else let s3 = kdo (KPin start n) s2
                   in case k_pinned K (kt s3) of
                       None \<Rightarrow> kret (- ENOMEM) s3
                     | Some qs \<Rightarrow>
                        (let ps = take (nat n) qs
                         in if length ps < nat n then kret (- ENOMEM) (kdo_all (map KPutPage ps) s3)
                            else if huge then map_huge K start count cpid (nat n) ps s3
                            else map_pages K (pd_stlb_order s3) start PAGE_SIZE cpid (nat n) ps (map page_to_phys ps) (nat n) s3)))"

end
