(* ===== verification/Driver_Fops.thy ===== *)
theory Driver_Fops
  imports Driver_Mem
begin

text \<open>
  File operations of the driver (\<^verbatim>\<open>driver/fpga_fops.c\<close>), its page fault handler (\<^verbatim>\<open>driver/fpga_isr.c\<close>) and the configuration it reads from the
  device (\<^verbatim>\<open>driver/fpga_dev.c\<close>).
\<close>

unbundle bit_operations_syntax

subsection \<open>Process identifiers\<close>

definition pid_take :: "cpool \<Rightarrow> (u32 \<times> cpool) option" where
  "pid_take p =
     (case cp_alloc p of
        None \<Rightarrow> None
      | Some i \<Rightarrow>
         (let c = ch_id (cp_chunks p ! i)
          in Some (c, p\<lparr>cp_chunks := (cp_chunks p)[unat c := (cp_chunks p ! unat c)\<lparr>ch_used := True\<rparr>], cp_alloc := ch_next (cp_chunks p ! i)\<rparr>)))"

definition register_pid :: "u32 \<Rightarrow> int call" where
  "register_pid pid s =
     andThen (spin_lock CARD_PID_LOCK s) (\<lambda>_ s1.
       if cp_num_free (d_pids s1) = 0 then kret (- ENOMEM) s1
       else case pid_take (d_pids s1) of
          None \<Rightarrow> kfault ''invalid access'' s1
        | Some (c, p) \<Rightarrow> kret (sint c) (spin_unlock CARD_PID_LOCK (s1\<lparr>d_pids := p, d_pid_array := (d_pid_array s1)[unat c := pid]\<rparr>)))"

definition pid_give :: "nat \<Rightarrow> cpool \<Rightarrow> cpool" where
  "pid_give c p =
     (if ch_used (cp_chunks p ! c)
      then p\<lparr>cp_chunks := (cp_chunks p)[c := (cp_chunks p ! c)\<lparr>ch_used := False, ch_next := cp_alloc p\<rparr>], cp_alloc := Some c\<rparr>
      else p)"

definition unregister_pid :: "u32 \<Rightarrow> int call" where
  "unregister_pid cpid s =
     andThen (spin_lock CARD_PID_LOCK s) (\<lambda>_ s1.
       if sint cpid < 0 \<or> length (cp_chunks (d_pids s1)) \<le> unat cpid then kfault ''invalid access'' s1
       else kret 0 (spin_unlock CARD_PID_LOCK (s1\<lparr>d_pids := pid_give (unat cpid) (d_pids s1)\<rparr>)))"

subsection \<open>Release\<close>

definition release_entry :: "kernel \<Rightarrow> u32 \<Rightarrow> cid_entry \<Rightarrow> hstep call" where
  "release_entry K pid e s =
     (if cid_pid e = pid
      then andThen (tlb_put_user_pages_cpid K (cid_cpid e) True s) (\<lambda>_ s1.
             andThen (unregister_pid (cid_cpid e) s1) (\<lambda>_ s2.
               kret Removed (s2\<lparr>pid_cpid_map := hash_del (k_hash_pid K pid) e (pid_cpid_map s2)\<rparr>)))
      else kret Next s)"

definition fpga_release :: "kernel \<Rightarrow> u32 \<Rightarrow> int call" where
  "fpga_release K pid s = return_code (hlist_each (release_entry K pid) (pid_cpid_map s (k_hash_pid K pid)) s)"

subsection \<open>Reconfiguration\<close>

text \<open>The writes for the first \<open>k\<close> pieces of a bitstream: the full batches, then the rest. The physical addresses are those of the pages of the
  buffer. Before each piece a debug message reads the same index of the pages of the current buffer, which need not be the one
  that is loaded; an index beyond either array is an invalid access.\<close>

definition pr_batch :: "page \<Rightarrow> u64 \<Rightarrow> bool \<Rightarrow> kEvent list" where
  "pr_batch p len lst =
     [KStat PR_ADDR (page_to_phys p), KStat PR_LEN len, KStat PR_CTRL (if lst then PR_CTRL_START_LAST else PR_CTRL_START_MIDDLE)]"

definition pr_pieces :: "page list \<Rightarrow> u64 \<Rightarrow> nat \<Rightarrow> kEvent list" where
  "pr_pieces ps len k =
     (let fsz_m = len div PR_BATCH_SIZE; fsz_r = len mod PR_BATCH_SIZE
      in concat (map (\<lambda>i. if i < unat fsz_m then pr_batch (ps ! i) PR_BATCH_SIZE (fsz_r = 0 \<and> i + 1 = unat fsz_m)
                          else pr_batch (ps ! i) fsz_r True) [0..<k]))"

definition reconfigure_buffer :: "kernel \<Rightarrow> u64 \<Rightarrow> u64 \<Rightarrow> pr_pages \<Rightarrow> hstep call" where
  "reconfigure_buffer K vaddr len u s =
     (if pp_vaddr u = vaddr \<and> pp_reg_id u = d_id s
      then let fsz_m = len div PR_BATCH_SIZE; fsz_r = len mod PR_BATCH_SIZE; n = unat fsz_m + of_bool (fsz_r > 0);
               k = min n (min (length (pp_pages (prc_curr_buff s))) (length (pp_pages u)));
               s1 = kdo_all (pr_pieces (pp_pages u) len k) s
        in if k < n then kfault ''invalid access'' s1
           else if k_finishes K (kt s1) then kret Next s1 else kfault ''no completion'' s1
      else kret Next s)"

definition reconfigure :: "kernel \<Rightarrow> u64 \<Rightarrow> u64 \<Rightarrow> int call" where
  "reconfigure K vaddr len s =
     andThen (spin_lock PRC_LOCK s) (\<lambda>_ s1.
       andThen (return_code (hlist_each (reconfigure_buffer K vaddr len) (pr_buff_map s1 (k_hash K vaddr)) s1)) (\<lambda>r s2.
         kret r (spin_unlock PRC_LOCK s2)))"

subsection \<open>Control\<close>

text \<open>\<open>copy_from_user\<close>: a failure is reported in the log only.\<close>

definition with_user :: "kernel \<Rightarrow> nat \<Rightarrow> (u64 list \<Rightarrow> int call) \<Rightarrow> int call" where
  "with_user K n f s =
     (let s1 = kdo (KFromUser n) s
      in case k_user K (kt s1) of
           None \<Rightarrow> kret 0 s1
         | Some ws \<Rightarrow> f (take n (ws @ replicate n 0)) s1)"

definition locked_writes :: "klock \<Rightarrow> kEvent list \<Rightarrow> int call" where
  "locked_writes l es s = andThen (spin_lock l s) (\<lambda>_ s1. kret 0 (spin_unlock l (kdo_all es s1)))"

definition pd_en_net :: "drv \<Rightarrow> bool" where
  "pd_en_net s \<longleftrightarrow> pd_en_net_0 s \<or> pd_en_net_1 s"

definition ioctl_map :: "kernel \<Rightarrow> u64 list \<Rightarrow> int call" where
  "ioctl_map K tmp s =
     andThen (elem (d_pid_array s) (unat (ucast (tmp ! 2) :: u32)) s) (\<lambda>pid s1.
       andThen (tlb_get_user_pages K (tmp ! 0) (tmp ! 1) (ucast (tmp ! 2)) pid s1) (\<lambda>_ s2. kret 0 s2))"

definition ioctl_register :: "kernel \<Rightarrow> u64 list \<Rightarrow> int call" where
  "ioctl_register K tmp s =
     andThen (spin_lock STAT_LOCK s) (\<lambda>_ s1.
       let pid = ucast (tmp ! 0) :: u32 in
       andThen (register_pid pid s1) (\<lambda>c s2.
         if c = - 1 then kret (- 1) s2
         else case kzalloc K 1 s2 of (ok, s3) \<Rightarrow>
           if \<not> ok then kfault ''BUG'' s3
           else kret 0 (spin_unlock STAT_LOCK (kdo (KToUser [of_int c])
                  (s3\<lparr>pid_cpid_map := hash_add (k_hash_pid K pid) \<lparr>cid_pid = pid, cid_cpid = of_int c\<rparr> (pid_cpid_map s3)\<rparr>)))))"

definition unregister_entry :: "kernel \<Rightarrow> u32 \<Rightarrow> u64 \<Rightarrow> cid_entry \<Rightarrow> hstep call" where
  "unregister_entry K pid cpid e s =
     (if cid_pid e = pid \<and> scast (cid_cpid e) = cpid
      then andThen (tlb_put_user_pages_cpid K (ucast cpid) True s) (\<lambda>_ s1.
             kret Removed (s1\<lparr>pid_cpid_map := hash_del (k_hash_pid K pid) e (pid_cpid_map s1)\<rparr>))
      else kret Next s)"

definition ioctl_unregister :: "kernel \<Rightarrow> u64 list \<Rightarrow> int call" where
  "ioctl_unregister K tmp s =
     andThen (spin_lock STAT_LOCK s) (\<lambda>_ s1.
       andThen (elem (d_pid_array s1) (unat (tmp ! 0)) s1) (\<lambda>pid s2.
         andThen (hlist_each (unregister_entry K pid (tmp ! 0)) (pid_cpid_map s2 (k_hash_pid K pid)) s2) (\<lambda>_ s3.
           andThen (unregister_pid (ucast (tmp ! 0)) s3) (\<lambda>r s4.
             if r = - 1 then kret (- 1) s4 else kret 0 (spin_unlock STAT_LOCK s4)))))"

definition ioctl_reconfigure :: "kernel \<Rightarrow> u64 list \<Rightarrow> int call" where
  "ioctl_reconfigure K tmp s =
     andThen (spin_lock PR_LOCK s) (\<lambda>_ s1.
       andThen (reconfigure K (tmp ! 0) (tmp ! 1) (kdo (KDatapath True) s1)) (\<lambda>r s2.
         if r \<noteq> 0 then kret (- 1) s2 else kret 0 (spin_unlock PR_LOCK (kdo (KDatapath False) s2))))"

definition ioctl_set_ip :: "u64 list \<Rightarrow> int call" where
  "ioctl_set_ip tmp s =
     andThen (spin_lock STAT_LOCK s) (\<lambda>_ s1.
       let q = (tmp ! 0 \<noteq> 0); changed = (ucast (pd_net_ip_addr s1 q) \<noteq> tmp ! 1)
       in kret 0 (spin_unlock STAT_LOCK
            (if changed then kdo (KStat (NET_IP q) (tmp ! 1)) (s1\<lparr>pd_net_ip_addr := (pd_net_ip_addr s1)(q := ucast (tmp ! 1))\<rparr>) else s1)))"

definition ioctl_set_mac :: "u64 list \<Rightarrow> int call" where
  "ioctl_set_mac tmp s =
     andThen (spin_lock STAT_LOCK s) (\<lambda>_ s1.
       let q = (tmp ! 0 \<noteq> 0); changed = (pd_net_mac_addr s1 q \<noteq> tmp ! 1)
       in kret 0 (spin_unlock STAT_LOCK
            (if changed then kdo (KStat (NET_MAC q) (tmp ! 1)) (s1\<lparr>pd_net_mac_addr := (pd_net_mac_addr s1)(q := tmp ! 1)\<rparr>) else s1)))"

definition net_drop_write :: "u64 list \<Rightarrow> kEvent" where
  "net_drop_write tmp =
     (let q = (tmp ! 0 \<noteq> 0)
      in if tmp ! 1 \<noteq> 0 then KStat (NET_DROP_CLR q) 1 else KStat (NET_DROP q (of_bool (tmp ! 2 \<noteq> 0))) (tmp ! 3))"

text \<open>The configuration word that \<open>cProcess\<close> reads.\<close>

definition read_cnfg :: "drv \<Rightarrow> u64" where
  "read_cnfg s =
     push_bit 32 (scast (pd_n_fpga_chan s)) OR push_bit 48 (scast (pd_n_fpga_reg s))
     OR of_bool (pd_en_avx s) OR push_bit 1 (of_bool (pd_en_bypass s)) OR push_bit 2 (of_bool (pd_en_tlbf s)) OR push_bit 3 (of_bool (pd_en_wb s))
     OR push_bit 4 (of_bool (pd_en_strm s)) OR push_bit 5 (of_bool (pd_en_mem s)) OR push_bit 6 (of_bool (pd_en_pr s))
     OR push_bit 16 (of_bool (pd_en_rdma_0 s)) OR push_bit 17 (of_bool (pd_en_rdma_1 s)) OR push_bit 18 (of_bool (pd_en_tcp_0 s))
     OR push_bit 19 (of_bool (pd_en_tcp_1 s))"

datatype (plugins only: size) drvIoctl =
    D_ALLOC_HOST_USER_MEM | D_FREE_HOST_USER_MEM | D_ALLOC_HOST_PR_MEM | D_FREE_HOST_PR_MEM | D_MAP_USER | D_UNMAP_USER
  | D_REGISTER_PID | D_UNREGISTER_PID | D_RECONFIG_LOAD | D_ARP_LOOKUP | D_SET_IP_ADDRESS | D_SET_MAC_ADDRESS
  | D_WRITE_CTX | D_WRITE_CONN | D_SET_TCP_OFFS | D_READ_CNFG | D_XDMA_STATS | D_NET_STATS | D_READ_ENG_STATUS | D_NET_DROP | D_OTHER

definition returns_zero :: "int call \<Rightarrow> int call" where
  "returns_zero f s = andThen (f s) (\<lambda>_ s'. kret 0 s')"

fun fpga_ioctl :: "kernel \<Rightarrow> drvIoctl \<Rightarrow> int call" where
  "fpga_ioctl K D_ALLOC_HOST_USER_MEM s = with_user K 2 (\<lambda>tmp. returns_zero (alloc_user_buffers K (tmp ! 0) (ucast (tmp ! 1)))) s"
| "fpga_ioctl K D_FREE_HOST_USER_MEM s = with_user K 2 (\<lambda>tmp. returns_zero (free_user_buffers K (tmp ! 0) (ucast (tmp ! 1)))) s"
| "fpga_ioctl K D_ALLOC_HOST_PR_MEM s = with_user K 1 (\<lambda>tmp. returns_zero (alloc_pr_buffers K (tmp ! 0))) s"
| "fpga_ioctl K D_FREE_HOST_PR_MEM s = with_user K 1 (\<lambda>tmp. returns_zero (free_pr_buffers K (tmp ! 0))) s"
| "fpga_ioctl K D_MAP_USER s = with_user K 3 (ioctl_map K) s"
| "fpga_ioctl K D_UNMAP_USER s = with_user K 2 (\<lambda>tmp. returns_zero (tlb_put_user_pages K (tmp ! 0) (ucast (tmp ! 1)) True)) s"
| "fpga_ioctl K D_REGISTER_PID s = with_user K 1 (ioctl_register K) s"
| "fpga_ioctl K D_UNREGISTER_PID s = with_user K 1 (ioctl_unregister K) s"
| "fpga_ioctl K D_RECONFIG_LOAD s = with_user K 2 (ioctl_reconfigure K) s"
| "fpga_ioctl K D_ARP_LOOKUP s =
     (if pd_en_net s then with_user K 2 (\<lambda>tmp. locked_writes STAT_LOCK [KStat (NET_ARP (tmp ! 0 \<noteq> 0)) (tmp ! 1)]) s else kret (- 1) s)"
| "fpga_ioctl K D_SET_IP_ADDRESS s = (if pd_en_net s then with_user K 2 ioctl_set_ip s else kret (- 1) s)"
| "fpga_ioctl K D_SET_MAC_ADDRESS s = (if pd_en_net s then with_user K 2 ioctl_set_mac s else kret (- 1) s)"
| "fpga_ioctl K D_WRITE_CTX s =
     (if pd_en_rdma_0 s \<or> pd_en_rdma_1 s
      then with_user K 4 (\<lambda>tmp. locked_writes STAT_LOCK (map (\<lambda>i. KStat (RDMA_QP_CTX (tmp ! 0 \<noteq> 0) i) (tmp ! (i + 1))) [0..<3])) s
      else kret 0 s)"
| "fpga_ioctl K D_WRITE_CONN s =
     (if pd_en_rdma_0 s \<or> pd_en_rdma_1 s
      then with_user K 4 (\<lambda>tmp. locked_writes STAT_LOCK (map (\<lambda>i. KStat (RDMA_QP_CONN (tmp ! 0 \<noteq> 0) i) (tmp ! (i + 1))) [0..<3])) s
      else kret 0 s)"
| "fpga_ioctl K D_SET_TCP_OFFS s =
     (if pd_en_tcp_0 s \<or> pd_en_tcp_1 s
      then with_user K 3 (\<lambda>tmp. locked_writes STAT_LOCK (map (\<lambda>i. KStat (TCP_OFFS (tmp ! 0 \<noteq> 0) i) (tmp ! (i + 1))) [0..<2])) s
      else kret 0 s)"
| "fpga_ioctl K D_READ_CNFG s = kret 0 (kdo (KToUser [read_cnfg s]) s)"
| "fpga_ioctl K D_XDMA_STATS s = (let n = 3 * nat (sint (pd_n_fpga_chan s))
      in if MAX_USER_WORDS < n then kfault ''invalid access'' s else kret 0 (kdo (KToUser (map (k_debug K) [0..<n])) s))"
| "fpga_ioctl K D_NET_STATS s =
     (if pd_en_net s
      then with_user K 1 (\<lambda>tmp s1. kret 0 (kdo (KToUser (map (\<lambda>i. k_debug K ((if tmp ! 0 \<noteq> 0 then 64 else 32) + i)) [0..<10])) s1)) s
      else kret 0 s)"
| "fpga_ioctl K D_READ_ENG_STATUS s = kret 0 s"
| "fpga_ioctl K D_NET_DROP s =
     (if pd_en_net s then with_user K 4 (\<lambda>tmp. locked_writes STAT_LOCK [net_drop_write tmp]) s else kret (- 1) s)"
| "fpga_ioctl K D_OTHER s = kret 0 s"

subsection \<open>Memory maps\<close>

fun remap_all :: "kernel \<Rightarrow> u64 \<Rightarrow> u64 \<Rightarrow> page list \<Rightarrow> drv \<Rightarrow> bool \<times> drv" where
  "remap_all K vaddr psize [] s = (True, s)"
| "remap_all K vaddr psize (p # ps) s =
     (let s1 = kdo (KRemap vaddr p psize) s in if k_remap K (kt s1) then (False, s1) else remap_all K (vaddr + psize) psize ps s1)"

definition align_up :: "tlb_order \<Rightarrow> u64 \<Rightarrow> u64" where
  "align_up t a = push_bit (to_page_shift t) (drop_bit (to_page_shift t) (a + to_page_size t - 1))"

definition mmap_buff :: "kernel \<Rightarrow> u64 \<Rightarrow> int call" where
  "mmap_buff K vm_start s =
     (let t = pd_ltlb_order s; vaddr = align_up t vm_start; c = d_curr_user_buff s; n = up_n_hpages c
      in case kzalloc K 1 s of (ok, s1) \<Rightarrow>
        if \<not> ok then kfault ''BUG'' s1
        else if length (up_hpages c) < n then kfault ''invalid access'' s1
        else case remap_all K vaddr (to_page_size t) (take n (up_hpages c))
                    (s1\<lparr>user_lbuff_map := hash_add (k_hash K vaddr) (c\<lparr>up_vaddr := vaddr\<rparr>) (user_lbuff_map s1)\<rparr>) of (ok2, s2) \<Rightarrow>
          if \<not> ok2 then kret (- EIO) s2
          else case kzalloc K (of_nat (2 * n)) s2 of (ok3, s3) \<Rightarrow>
            if \<not> ok3 then kret (- ENOMEM) s3
            else if pd_en_mem s3 \<and> length (up_cpages c) < n then kfault ''invalid access'' s3
            else andThen (tlb_service_dev K t (map (\<lambda>i. tlb_create_map t (vaddr + of_nat i * to_page_size t) (page_to_phys (up_hpages c ! i))
                     (if pd_en_mem s3 then up_cpages c ! i else 0) (up_cpid c)) [0..<n]) s3) (\<lambda>_ s4.
                   kret 0 (s4\<lparr>d_curr_user_buff := (d_curr_user_buff s4)\<lparr>up_n_hpages := 0\<rparr>\<rparr>)))"

definition mmap_pr :: "kernel \<Rightarrow> u64 \<Rightarrow> int call" where
  "mmap_pr K vm_start s =
     andThen (spin_lock PR_LOCK s) (\<lambda>_ s1.
       let t = pd_ltlb_order s1; vaddr = align_up t vm_start; c = prc_curr_buff s1; n = pp_n_pages c
       in case kzalloc K 1 s1 of (ok, s2) \<Rightarrow>
         if \<not> ok then kfault ''BUG'' s2
         else if length (pp_pages c) < n then kfault ''invalid access'' s2
         else case remap_all K vaddr (to_page_size t) (take n (pp_pages c))
                     (s2\<lparr>pr_buff_map := hash_add (k_hash K vaddr) (c\<lparr>pp_vaddr := vaddr, pp_reg_id := d_id s\<rparr>) (pr_buff_map s2)\<rparr>) of (ok2, s3) \<Rightarrow>
           if \<not> ok2 then kret (- EIO) s3
           else kret 0 (spin_unlock PR_LOCK (s3\<lparr>prc_curr_buff := (prc_curr_buff s3)\<lparr>pp_n_pages := 0\<rparr>\<rparr>)))"

datatype mmapArea = MMAP_CTRL | MMAP_CNFG | MMAP_CNFG_AVX | MMAP_WB | MMAP_BUFF | MMAP_PR | MMAP_OTHER

text \<open>The four areas of the device are mapped at the addresses \<open>phys\<close> with their sizes.\<close>

definition mmap_device :: "kernel \<Rightarrow> u64 \<Rightarrow> u64 \<Rightarrow> u64 \<Rightarrow> int call" where
  "mmap_device K vm_start phys len s =
     (let s1 = kdo (KRemap vm_start (drop_bit PAGE_SHIFT phys) len) s in if k_remap K (kt s1) then kret (- EIO) s1 else kret 0 s1)"

definition fpga_mmap :: "kernel \<Rightarrow> u64 \<Rightarrow> u64 \<Rightarrow> u64 \<Rightarrow> mmapArea \<Rightarrow> u64 \<Rightarrow> int call" where
  "fpga_mmap K phys_ctrl phys_avx phys_wb area vm_start s =
     (case area of
        MMAP_CTRL \<Rightarrow> mmap_device K vm_start (phys_ctrl + 0x20000) (256 * 1024 div 4) s
      | MMAP_CNFG \<Rightarrow> mmap_device K vm_start (phys_ctrl + 0x30000) (256 * 1024 div 4) s
      | MMAP_CNFG_AVX \<Rightarrow> mmap_device K vm_start phys_avx (256 * 1024) s
      | MMAP_WB \<Rightarrow> mmap_device K vm_start phys_wb (4 * 64 * 4) s
      | MMAP_BUFF \<Rightarrow> if up_n_hpages (d_curr_user_buff s) \<noteq> 0 then mmap_buff K vm_start s else kret (- EINVAL) s
      | MMAP_PR \<Rightarrow> if pp_n_pages (prc_curr_buff s) \<noteq> 0 then mmap_pr K vm_start s else kret (- EINVAL) s
      | MMAP_OTHER \<Rightarrow> kret (- EINVAL) s)"

subsection \<open>Page faults\<close>

definition fpga_tlb_miss_isr :: "kernel \<Rightarrow> u64 \<Rightarrow> u64 \<Rightarrow> unit call" where
  "fpga_tlb_miss_isr K vaddr_miss len_miss s =
     andThen (spin_lock DEV_LOCK s) (\<lambda>_ s1.
       let len = LOW_32 len_miss; cpid = ucast (HIGH_32 len_miss) :: u32
       in andThen (if sint cpid < 0 then kfault ''invalid access'' s1 else elem (d_pid_array s1) (unat cpid) s1) (\<lambda>pid s2.
            andThen (tlb_get_user_pages K vaddr_miss len cpid pid s2) (\<lambda>r s3.
              kret () (spin_unlock DEV_LOCK (if r > 0 then kdo KRestart s3 else s3)))))"

subsection \<open>Configuration\<close>

definition cnfg_field :: "u64 \<Rightarrow> u64 \<Rightarrow> nat \<Rightarrow> nat" where
  "cnfg_field reg m sh = unat (drop_bit sh (reg AND m))"

definition mk_tlb_order :: "bool \<Rightarrow> nat \<Rightarrow> nat \<Rightarrow> tlb_order" where
  "mk_tlb_order huge shift key_size =
     \<lparr>to_hugepage = huge, to_page_shift = shift, to_page_size = push_bit shift 1, to_page_mask = NOT (push_bit shift 1 - 1),
      to_key_mask = push_bit key_size 1 - 1, to_key_size = key_size, to_tag_size = TLB_VADDR_RANGE - shift - key_size,
      to_phy_mask = push_bit (TLB_PADDR_RANGE - shift) 1 - 1, to_phy_size = TLB_PADDR_RANGE - shift\<rparr>"

definition stlb_order :: "u64 \<Rightarrow> tlb_order" where
  "stlb_order ctrl_cnfg = mk_tlb_order False (cnfg_field ctrl_cnfg 0x3f00000 0x14) (cnfg_field ctrl_cnfg 0xf0 0x4)"

definition ltlb_order :: "u64 \<Rightarrow> tlb_order" where
  "ltlb_order ctrl_cnfg = mk_tlb_order True (cnfg_field ctrl_cnfg 0xfc000000 0x1a) (cnfg_field ctrl_cnfg 0xf000 0xc)"

record statCnfg =
  sc_n_chan :: u64
  sc_n_regions :: u64
  sc_ctrl_cnfg :: u64
  sc_mem_cnfg :: u64
  sc_pr_cnfg :: u64
  sc_rdma_cnfg :: u64
  sc_tcp_cnfg :: u64

text \<open>\<open>ip\<close> and \<open>mac\<close> are the numbers of the module parameters, \<open>eost\<close> the clock count.\<close>

definition config_network :: "(bool \<Rightarrow> u64) \<Rightarrow> (bool \<Rightarrow> u64) \<Rightarrow> bool \<Rightarrow> drv \<Rightarrow> drv" where
  "config_network ip mac q s =
     (if (if q then pd_en_net_1 s else pd_en_net_0 s)
      then kdo_all [KStat (NET_IP q) (ucast (ucast (ip q) :: u32)), KStat (NET_MAC q) (mac q)]
             (s\<lparr>pd_net_ip_addr := (pd_net_ip_addr s)(q := ucast (ip q)), pd_net_mac_addr := (pd_net_mac_addr s)(q := mac q)\<rparr>)
      else s)"

definition read_static_config :: "kernel \<Rightarrow> statCnfg \<Rightarrow> (bool \<Rightarrow> u64) \<Rightarrow> (bool \<Rightarrow> u64) \<Rightarrow> u64 \<Rightarrow> unit call" where
  "read_static_config K r ip mac eost s =
     (case kzalloc K 1 s of (ok, s1) \<Rightarrow>
       if \<not> ok \<or> to_page_shift (stlb_order (sc_ctrl_cnfg r)) \<noteq> PAGE_SHIFT then kfault ''BUG'' s1
       else case kzalloc K 1 s1 of (ok2, s2) \<Rightarrow>
         if \<not> ok2 then kfault ''BUG'' s2
         else let b = (\<lambda>reg i. bit reg (i :: nat));
                  rdma0 = b (sc_rdma_cnfg r) 0; rdma1 = b (sc_rdma_cnfg r) 1; tcp0 = b (sc_tcp_cnfg r) 0; tcp1 = b (sc_tcp_cnfg r) 1;
                  s3 = s2\<lparr>pd_n_fpga_chan := ucast (sc_n_chan r), pd_n_fpga_reg := ucast (sc_n_regions r),
                     pd_en_avx := b (sc_ctrl_cnfg r) 0, pd_en_bypass := b (sc_ctrl_cnfg r) 1, pd_en_tlbf := b (sc_ctrl_cnfg r) 2, pd_en_wb := b (sc_ctrl_cnfg r) 3,
                     pd_stlb_order := stlb_order (sc_ctrl_cnfg r), pd_ltlb_order := ltlb_order (sc_ctrl_cnfg r),
                     pd_en_strm := b (sc_mem_cnfg r) 0, pd_en_mem := b (sc_mem_cnfg r) 1, pd_en_pr := b (sc_pr_cnfg r) 0,
                     pd_en_rdma_0 := rdma0, pd_en_rdma_1 := rdma1, pd_en_tcp_0 := tcp0, pd_en_tcp_1 := tcp1,
                     pd_en_net_0 := rdma0 \<or> tcp0, pd_en_net_1 := rdma1 \<or> tcp1\<rparr>;
                  s4 = (if pd_en_pr s3 then kdo (KStat PR_EOST eost) s3 else s3)
              in kret () (kdo (KStat LSPEED_CNFG 5) (config_network ip mac True (config_network ip mac False s4))))"

text \<open>What \<open>init_fpga_devices\<close> sets up of the state above.\<close>

definition init_fpga_device :: "kernel \<Rightarrow> u32 \<Rightarrow> int call" where
  "init_fpga_device K i s =
     (case kzalloc K (of_nat N_CPID_MAX) (s\<lparr>d_id := i\<rparr>) of (ok, s1) \<Rightarrow>
       if \<not> ok then kret (- ENOMEM) s1
       else case kzalloc K (of_nat N_CPID_MAX) s1 of (ok2, s2) \<Rightarrow>
         if \<not> ok2 then kret (- ENOMEM) s2
         else kret 0 (s2\<lparr>d_pids := init_chunks N_CPID_MAX, d_pid_array := replicate N_CPID_MAX 0, pid_cpid_map := (\<lambda>_. []),
                user_lbuff_map := (\<lambda>_. []), user_sbuff_map := (\<lambda>_. [])\<rparr>))"

end
