(* ===== verification/Driver_Pools.thy ===== *)
theory Driver_Pools
  imports Driver_Fops
begin

text \<open>
  Chunks of card memory and process identifiers: no chunk is handed out twice as long as the last one is not reached; what happens there.
\<close>

unbundle bit_operations_syntax

subsection \<open>Free lists\<close>

fun chain :: "chunk list \<Rightarrow> nat option \<Rightarrow> nat list \<Rightarrow> bool" where
  "chain cs p [] \<longleftrightarrow> p = None"
| "chain cs p (i # js) \<longleftrightarrow> p = Some i \<and> i < length cs \<and> chain cs (ch_next (cs ! i)) js"

fun follow :: "nat \<Rightarrow> chunk list \<Rightarrow> nat option \<Rightarrow> nat list" where
  "follow 0 cs p = []"
| "follow (Suc n) cs p = (case p of None \<Rightarrow> [] | Some i \<Rightarrow> i # follow n cs (ch_next (cs ! i)))"

lemma follow_chain: "chain cs p xs \<Longrightarrow> length xs \<le> n \<Longrightarrow> follow n cs p = xs"
  by (induction n arbitrary: p xs) (case_tac xs; auto)+

lemma chain_update:
  "chain cs p xs \<Longrightarrow> i \<notin> set xs \<or> ch_next c = ch_next (cs ! i) \<Longrightarrow> chain (cs[i := c]) p xs"
proof (induction xs arbitrary: p)
  case (Cons a xs)
  then show ?case by (cases "i = a") auto
qed simp

definition pool_ok :: "nat \<Rightarrow> nat list \<Rightarrow> cpool \<Rightarrow> bool" where
  "pool_ok n fs p \<longleftrightarrow> length (cp_chunks p) = n \<and> 0 < n \<and> n \<le> 2 ^ 31 \<and> cp_num_free p = n
     \<and> chain (cp_chunks p) (cp_alloc p) (fs @ [n - 1]) \<and> distinct fs \<and> set fs \<subseteq> {..<n - 1}
     \<and> (\<forall>i < n - 1. ch_id (cp_chunks p ! i) = of_nat i \<and> (i \<notin> set fs \<longrightarrow> ch_used (cp_chunks p ! i)))
     \<and> ch_id (cp_chunks p ! (n - 1)) = 0"

definition pool_inv :: "nat \<Rightarrow> cpool \<Rightarrow> bool" where
  "pool_inv n p \<longleftrightarrow> (\<exists>fs. pool_ok n fs p)"

text \<open>The free chunks without the last.\<close>

definition free_chunks :: "cpool \<Rightarrow> nat list" where
  "free_chunks p = butlast (follow (length (cp_chunks p)) (cp_chunks p) (cp_alloc p))"

lemma distinct_below: "distinct xs \<Longrightarrow> set xs \<subseteq> {..<n :: nat} \<Longrightarrow> length xs \<le> n"
  using card_mono [of "{..<n}" "set xs"] by (simp add: distinct_card)

lemma free_chunks [simp]: "pool_ok n fs p \<Longrightarrow> free_chunks p = fs"
proof -
  assume p: "pool_ok n fs p"
  then have "0 < n" "length fs \<le> n - 1" using distinct_below [of fs "n - 1"] by (auto simp: pool_ok_def)
  then have "length (fs @ [n - 1]) \<le> n" by simp
  with p have "follow n (cp_chunks p) (cp_alloc p) = fs @ [n - 1]" by (intro follow_chain) (auto simp: pool_ok_def)
  with p show ?thesis by (simp add: free_chunks_def pool_ok_def)
qed

lemma pool_ok_init: "0 < n \<Longrightarrow> n \<le> 2 ^ 31 \<Longrightarrow> pool_ok n [0..<n - 1] (init_chunks n)"
proof -
  assume n: "0 < n" "n \<le> 2 ^ 31"
  let ?cs = "cp_chunks (init_chunks n)"
  have len: "length ?cs = n" using n by (simp add: init_chunks_def)
  have nx: "ch_next (?cs ! i) = (if i < n - 1 then Some (i + 1) else None)" if "i < n" for i
    using that by (auto simp: init_chunks_def nth_append)
  have "chain ?cs (Some i) ([i..<n - 1] @ [n - 1])" if "i < n" for i
    using that
  proof (induction "n - 1 - i" arbitrary: i)
    case 0
    then have "i = n - 1" by simp
    then show ?case using nx [of i] len 0 by simp
  next
    case (Suc d)
    then have "i < n - 1" by linarith
    then show ?case using Suc nx [of i] len by (simp add: upt_conv_Cons)
  qed
  from this [of 0] n show ?thesis
    by (auto simp: pool_ok_def len) (auto simp: init_chunks_def nth_append)
qed

lemma of_nat_id: "i < n \<Longrightarrow> n \<le> 2 ^ 31 \<Longrightarrow> unat (of_nat i :: u32) = i"
  by (simp add: unat_of_nat take_bit_nat_eq_self)

text \<open>Both ways to take a chunk do the same while a chunk is free, and both ways to give one back.\<close>

lemma take_ok:
  assumes "pool_ok n (i # fs) p"
  shows "\<exists>q. chunk_take p = Some (of_nat i, q) \<and> pid_take p = Some (of_nat i, q) \<and> pool_ok n fs q"
proof -
  let ?q = "p\<lparr>cp_chunks := (cp_chunks p)[i := (cp_chunks p ! i)\<lparr>ch_used := True\<rparr>], cp_alloc := ch_next (cp_chunks p ! i)\<rparr>"
  have i: "i < n - 1" "cp_alloc p = Some i" "ch_id (cp_chunks p ! i) = of_nat i" "n \<le> 2 ^ 31" and l: "length (cp_chunks p) = n"
    using assms by (auto simp: pool_ok_def)
  have "unat (of_nat i :: u32) = i" using of_nat_id [of i n] i by simp
  then have "chunk_take p = Some (of_nat i, ?q)" "pid_take p = Some (of_nat i, ?q)"
    using i by (simp_all add: chunk_take_def pid_take_def Let_def)
  moreover have "pool_ok n fs ?q"
    using assms i l unfolding pool_ok_def by (auto simp: nth_list_update chain_update)
  ultimately show ?thesis by blast
qed

lemma give_ok:
  assumes "pool_ok n fs p" "i < n - 1" "i \<notin> set fs"
  shows "\<exists>q. chunk_give i p = Some q \<and> pool_ok n (i # fs) q" "pool_ok n (i # fs) (pid_give i p)"
proof -
  have u: "ch_used (cp_chunks p ! i)" and l: "length (cp_chunks p) = n" using assms by (auto simp: pool_ok_def)
  show "\<exists>q. chunk_give i p = Some q \<and> pool_ok n (i # fs) q"
    using assms u l unfolding pool_ok_def chunk_give_def by (auto simp: nth_list_update chain_update)
  show "pool_ok n (i # fs) (pid_give i p)"
    using assms u l unfolding pool_ok_def pid_give_def by (auto simp: nth_list_update chain_update)
qed

text \<open>The last chunk has the identifier of the first.\<close>

lemma take_last:
  assumes "pool_ok n [] p"
  shows "\<exists>q. chunk_take p = Some (0, q) \<and> chunk_take q = None" "\<exists>q. pid_take p = Some (0, q) \<and> pid_take q = None"
  using assms by (auto simp: pool_ok_def chunk_take_def pid_take_def Let_def)

text \<open>All identifiers but the last.\<close>

definition usable :: "nat \<Rightarrow> nat set" where
  "usable n = {..<n - 1}"

definition card_tk :: "cpool \<Rightarrow> nat \<times> cpool" where
  "card_tk p = (case chunk_take p of Some (i, q) \<Rightarrow> (unat i, q) | None \<Rightarrow> (0, p))"

definition card_gv :: "nat \<Rightarrow> cpool \<Rightarrow> cpool" where
  "card_gv i p = (case chunk_give i p of Some q \<Rightarrow> q | None \<Rightarrow> p)"

definition pid_tk :: "cpool \<Rightarrow> nat \<times> cpool" where
  "pid_tk p = (case pid_take p of Some (i, q) \<Rightarrow> (unat i, q) | None \<Rightarrow> (0, p))"

lemma pool_laws:
  assumes "pool_inv n p"
  shows "distinct (free_chunks p)" "set (free_chunks p) \<subseteq> usable n"
    "free_chunks p \<noteq> [] \<Longrightarrow> tk = card_tk \<or> tk = pid_tk \<Longrightarrow> tk p = (i, q) \<Longrightarrow>
       pool_inv n q \<and> i \<in> set (free_chunks p) \<and> set (free_chunks q) = set (free_chunks p) - {i}"
    "gv = card_gv \<or> gv = pid_give \<Longrightarrow> i \<in> usable n \<Longrightarrow> i \<notin> set (free_chunks p) \<Longrightarrow>
       pool_inv n (gv i p) \<and> set (free_chunks (gv i p)) = insert i (set (free_chunks p))"
proof -
  obtain fs where fs: "pool_ok n fs p" using assms by (auto simp: pool_inv_def)
  then have f: "free_chunks p = fs" by (rule free_chunks)
  show "distinct (free_chunks p)" "set (free_chunks p) \<subseteq> usable n" using fs by (simp_all add: f pool_ok_def usable_def)
  show "pool_inv n q \<and> i \<in> set (free_chunks p) \<and> set (free_chunks q) = set (free_chunks p) - {i}"
    if "free_chunks p \<noteq> []" "tk = card_tk \<or> tk = pid_tk" "tk p = (i, q)"
  proof -
    note t = that
    obtain j js where j: "fs = j # js" using t(1) f by (cases fs) auto
    from take_ok [OF fs [unfolded j]] obtain q' where q: "chunk_take p = Some (of_nat j, q')" "pid_take p = Some (of_nat j, q')" "pool_ok n js q'" by blast
    have "j < n - 1" "n \<le> 2 ^ 31" "j \<notin> set js" using fs by (auto simp: pool_ok_def j)
    then show ?thesis using that q fs j of_nat_id [of j n] by (auto simp: card_tk_def pid_tk_def pool_inv_def)
  qed
  show "pool_inv n (gv i p) \<and> set (free_chunks (gv i p)) = insert i (set (free_chunks p))"
    if "gv = card_gv \<or> gv = pid_give" "i \<in> usable n" "i \<notin> set (free_chunks p)"
    using that fs give_ok [OF fs, of i] by (auto simp: card_gv_def pool_inv_def usable_def)
qed

interpretation cards: id_pool "usable n" free_chunks "pool_inv n" card_tk card_gv
  by (unfold_locales; rule pool_laws(1) pool_laws(2) pool_laws(3) [where tk = card_tk] pool_laws(4) [where gv = card_gv], (assumption | simp)+)

interpretation cpids: id_pool "usable n" free_chunks "pool_inv n" pid_tk pid_give
  by (unfold_locales; rule pool_laws(1) pool_laws(2) pool_laws(3) [where tk = pid_tk] pool_laws(4) [where gv = pid_give], (assumption | simp)+)


lemma balanced_iff:
  "cpids.balanced n (p, us) \<longleftrightarrow> pool_inv n p \<and> distinct us \<and> set us \<inter> set (free_chunks p) = {} \<and> set us \<union> set (free_chunks p) = {..<n - 1}"
  "cards.balanced n (p, us) \<longleftrightarrow> pool_inv n p \<and> distinct us \<and> set us \<inter> set (free_chunks p) = {} \<and> set us \<union> set (free_chunks p) = {..<n - 1}"
  unfolding cpids.balanced_def cards.balanced_def by (simp_all add: usable_def)

lemma balanced_ok:
  assumes "cards.balanced n (p, us) \<or> cpids.balanced n (p, us)"
  obtains fs where "pool_ok n fs p"
  using assms unfolding balanced_iff by (auto simp: pool_inv_def)

lemma balanced_length: "cpids.balanced n (p, us) \<Longrightarrow> length us + length (free_chunks p) = n - 1"
proof -
  assume b: "cpids.balanced n (p, us)"
  then have d: "distinct (us @ free_chunks p)" "set (us @ free_chunks p) = {..<n - 1}"
    using pool_laws(1) [of n p] by (auto simp: balanced_iff)
  then show ?thesis using distinct_card [OF d(1)] by simp
qed

lemma sint_small: "i < 2 ^ 31 \<Longrightarrow> sint (of_nat i :: u32) = int i"
  by (simp add: signed_of_nat signed_take_bit_int_eq_self)

subsection \<open>Process identifiers\<close>

text \<open>Processes register and unregister; a process unregisters an identifier it has. The last identifier is not asked for.\<close>

datatype pidOp = Register u32 | Unregister u32

fun pid_step :: "pidOp \<Rightarrow> drv \<times> u32 list \<Rightarrow> drv \<times> u32 list" where
  "pid_step (Register pid) (s, used) =
     (if length used + 1 < N_CPID_MAX
      then case register_pid pid s of (Inr c, s') \<Rightarrow> (s', of_int c # used) | (Inl e, s') \<Rightarrow> (s', used)
      else (s, used))"
| "pid_step (Unregister c) (s, used) = (if c \<in> set used then (snd (unregister_pid c s), remove1 c used) else (s, used))"

definition pid_inv :: "drv \<times> u32 list \<Rightarrow> bool" where
  "pid_inv c \<longleftrightarrow> cpids.balanced 64 (d_pids (fst c), map unat (snd c)) \<and> CARD_PID_LOCK \<notin> held (fst c) \<and> length (d_pid_array (fst c)) = 64"

definition fresh_pids :: "drv \<Rightarrow> drv" where
  "fresh_pids s = s\<lparr>d_pids := init_chunks N_CPID_MAX, d_pid_array := replicate N_CPID_MAX 0, held := {}\<rparr>"

lemma pid_inv_init: "pid_inv (fresh_pids s, [])"
proof -
  have "pool_ok 64 [0..<63] (init_chunks 64)" using pool_ok_init [of 64] by simp
  then have "pool_inv 64 (init_chunks 64)" "free_chunks (init_chunks 64) = [0..<63]" by (auto simp: pool_inv_def)
  then show ?thesis by (auto simp: pid_inv_def fresh_pids_def balanced_iff N_CPID_MAX_def simp del: upt_rec_numeral)
qed

lemma register_fresh:
  assumes "pid_inv (s, used)" "length used + 1 < N_CPID_MAX"
  shows "\<exists>c s'. register_pid pid s = (Inr (sint c), s') \<and> sint c = int (unat c) \<and> c \<notin> set used \<and> d_pid_array s' ! unat c = pid
    \<and> pid_inv (s', c # used)"
proof -
  have b: "cpids.balanced 64 (d_pids s, map unat used)" and l: "CARD_PID_LOCK \<notin> held s" "length (d_pid_array s) = 64"
    using assms(1) by (auto simp: pid_inv_def)
  obtain fs where fs: "pool_ok 64 fs (d_pids s)" using b by (auto simp: balanced_iff pool_inv_def)
  have "fs \<noteq> []" using balanced_length [OF b] assms(2) fs by (auto simp: N_CPID_MAX_def)
  then obtain i js where i: "fs = i # js" by (cases fs) auto
  from take_ok [OF fs [unfolded i]] obtain q where q: "pid_take (d_pids s) = Some (of_nat i, q)" by blast
  have i63: "i < 63" using fs by (auto simp: pool_ok_def i)
  then have u: "unat (of_nat i :: u32) = i" by (intro of_nat_id [of i 63]) auto
  then have tk: "pid_tk (d_pids s) = (i, q)" by (simp add: pid_tk_def q)
  have "i \<notin> set (map unat used)" using cpids.never_hands_out_used [OF b _ tk] fs i by simp
  then have "of_nat i \<notin> set used" using u by (metis image_eqI list.set_map)
  moreover have "cpids.balanced 64 (q, i # map unat used)" using cpids.balanced_step [OF b, of Take] fs i by (simp add: tk)
  moreover have "cp_num_free (d_pids s) \<noteq> 0" using fs by (simp add: pool_ok_def)
  ultimately show ?thesis
    using l q u i63
    by (intro exI [of _ "of_nat i"])
      (auto simp: register_pid_def spin_lock_def spin_unlock_def kret_def pid_inv_def sint_small)
qed

lemma unregister_keeps:
  assumes "pid_inv (s, used)" "c \<in> set used"
  shows "fst (unregister_pid c s) = Inr 0" "pid_inv (snd (unregister_pid c s), remove1 c used)"
proof -
  have b: "cpids.balanced 64 (d_pids s, map unat used)" and l: "CARD_PID_LOCK \<notin> held s" "length (d_pid_array s) = 64"
    using assms(1) by (auto simp: pid_inv_def)
  have c: "unat c < 63" using b assms(2) by (auto simp: balanced_iff)
  have len: "length (cp_chunks (d_pids s)) = 64" using b by (auto simp: balanced_iff pool_inv_def pool_ok_def)
  have "c = of_nat (unat c)" by simp
  then have "\<not> sint c < 0" using c sint_small [of "unat c"] by simp
  then have e: "unregister_pid c s = (Inr 0, s\<lparr>d_pids := pid_give (unat c) (d_pids s), held := held s\<rparr>)"
    using l c len by (auto simp: unregister_pid_def spin_lock_def spin_unlock_def kret_def)
  have "map unat (remove1 c used) = remove1 (unat c) (map unat used)" by (induction used) (auto simp: word_unat_eq_iff)
  then have "cpids.balanced 64 (pid_give (unat c) (d_pids s), map unat (remove1 c used))"
    using cpids.balanced_step [OF b, of "Give (unat c)"] assms(2) by auto
  then show "fst (unregister_pid c s) = Inr 0" "pid_inv (snd (unregister_pid c s), remove1 c used)"
    using l e by (simp_all add: pid_inv_def)
qed

interpretation pids: step_invariant "(fresh_pids s, [])" pid_step pid_inv
proof unfold_locales
  show "pid_inv (fresh_pids s, [])" by (rule pid_inv_init)
  show "pid_inv (pid_step op c)" if "pid_inv c" for op c
  proof (cases c)
    case (Pair t used)
    show ?thesis
    proof (cases op)
      case (Register pid)
      then show ?thesis using that register_fresh [of t used pid] by (auto simp: Pair)
    next
      case (Unregister i)
      then show ?thesis using that unregister_keeps [of t used i] by (auto simp: Pair)
    qed
  qed
qed

text \<open>C22. Identifiers of processes are unique: whatever processes register and unregister, as long as fewer than 63 are registered a further registration
  succeeds, with an identifier that no registered process has, and records the process under it.\<close>

theorem cpids_unique:
  "let (s, used) = run_inputs pid_step ops (fresh_pids s0, [])
   in distinct used \<and> (length used < 63 \<longrightarrow>
        (\<exists>c s'. register_pid pid s = (Inr (int (unat c)), s') \<and> c \<notin> set used \<and> unat c < 63 \<and> d_pid_array s' ! unat c = pid))"
proof -
  obtain s used where r: "run_inputs pid_step ops (fresh_pids s0, []) = (s, used)" by fastforce
  have i: "pid_inv (s, used)" using pids.inv_run [of ops s0] by (simp add: r)
  then have "distinct (map unat used)" by (simp add: pid_inv_def balanced_iff)
  moreover have "\<exists>c s'. register_pid pid s = (Inr (int (unat c)), s') \<and> c \<notin> set used \<and> unat c < 63 \<and> d_pid_array s' ! unat c = pid" if "length used < 63"
  proof -
    from register_fresh [OF i, of pid] that obtain c s' where c: "register_pid pid s = (Inr (int (unat c)), s')" "c \<notin> set used"
      "d_pid_array s' ! unat c = pid" "pid_inv (s', c # used)" by (auto simp: N_CPID_MAX_def)
    moreover have "unat c < 63" using c(4) by (auto simp: pid_inv_def balanced_iff)
    ultimately show ?thesis by blast
  qed
  ultimately show ?thesis by (simp add: r distinct_map)
qed

text \<open>When 63 processes are registered, the next one gets the identifier 0, which another process has, and takes its place in the array of process
  numbers; the registration after that follows a null pointer and leaves the lock held, so that no later call returns.\<close>

theorem last_cpid_shared:
  assumes "length (snd (run_inputs pid_step ops (fresh_pids s0, []))) = 63"
  shows "\<exists>s'. register_pid pid (fst (run_inputs pid_step ops (fresh_pids s0, []))) = (Inr 0, s') \<and> d_pid_array s' ! 0 = pid
    \<and> 0 \<in> set (snd (run_inputs pid_step ops (fresh_pids s0, [])))
    \<and> (\<exists>s''. register_pid pid' s' = (Inl ''invalid access'', s'') \<and> register_pid pid'' s'' = (Inl ''spin lock held'', s''))"
proof -
  obtain s used where r: "run_inputs pid_step ops (fresh_pids s0, []) = (s, used)" by fastforce
  have i: "pid_inv (s, used)" using pids.inv_run [of ops s0] by (simp add: r)
  then have b: "cpids.balanced 64 (d_pids s, map unat used)" and l: "CARD_PID_LOCK \<notin> held s" "length (d_pid_array s) = 64"
    by (auto simp: pid_inv_def)
  obtain fs where fs: "pool_ok 64 fs (d_pids s)" using b by (auto simp: balanced_iff pool_inv_def)
  have "fs = []" using balanced_length [OF b] assms fs by (simp add: r)
  then obtain q where q: "pid_take (d_pids s) = Some (0, q)" "pid_take q = None" using take_last(2) fs by blast
  have nf: "cp_num_free (d_pids s) \<noteq> 0" "cp_num_free q \<noteq> 0" using fs q(1) by (auto simp: pool_ok_def pid_take_def Let_def split: option.splits)
  have "0 \<in> unat ` set used" using b fs \<open>fs = []\<close> by (auto simp: balanced_iff)
  then have "0 \<in> set used" by (auto simp: unat_eq_0)
  then show ?thesis using q nf l by (auto simp: r register_pid_def spin_lock_def spin_unlock_def kret_def kfault_def)
qed

subsection \<open>Card memory\<close>

definition chunk_count :: "bool \<Rightarrow> nat" where
  "chunk_count large = (if large then N_LARGE_CHUNKS else N_SMALL_CHUNKS)"

definition chunk_pool :: "bool \<Rightarrow> drv \<Rightarrow> cpool" where
  "chunk_pool large s = (if large then pd_lchunks s else pd_schunks s)"

definition chunk_lock :: "bool \<Rightarrow> klock" where
  "chunk_lock large = (if large then CARD_L_LOCK else CARD_S_LOCK)"

definition chunk_addr :: "bool \<Rightarrow> u32 \<Rightarrow> u64" where
  "chunk_addr large = (if large then large_addr else small_addr)"

definition chunk_index :: "bool \<Rightarrow> u64 \<Rightarrow> nat" where
  "chunk_index large a = (if large then unat (drop_bit LTLB_PAGE_BITS (a - MEM_SEP)) else unat (drop_bit STLB_PAGE_BITS a))"

text \<open>The bytes of a page of the card.\<close>

definition page_bytes :: "bool \<Rightarrow> u64 \<Rightarrow> nat set" where
  "page_bytes large a = {unat a..<unat a + (if large then 2 ^ LTLB_PAGE_BITS else 2 ^ STLB_PAGE_BITS)}"

lemmas chunk_sizes = chunk_count_def N_LARGE_CHUNKS_def N_SMALL_CHUNKS_def LTLB_PAGE_BITS_def STLB_PAGE_BITS_def MEM_SEP_def

lemma unat_chunk_addr:
  assumes "i < chunk_count large"
  shows "unat (chunk_addr large (of_nat i)) = (if large then 2 ^ 30 + i * 2 ^ 21 else i * 2 ^ 12)"
proof -
  have "i < 2 ^ 31" using assms by (auto simp: chunk_sizes split: if_splits)
  then have u: "unat (of_nat i :: u32) = i" using of_nat_id [of i "2 ^ 31"] by simp
  have s: "unat (of_nat i * 4096 :: u32) = i * 4096" if "i < 262144" using that u by (simp add: unat_word_ariths)
  have l: "unat (of_nat i * 2097152 + 1073741824 :: u32) = 1073741824 + i * 2097152" if "i < 512" using that u by (simp add: unat_word_ariths)
  show ?thesis
    using assms s l by (cases large) (simp_all add: chunk_addr_def large_addr_def small_addr_def chunk_sizes push_bit_eq_mult unsigned_ucast_eq take_bit_nat_eq_self)
qed

lemma chunk_index_addr:
  assumes "i < chunk_count large"
  shows "chunk_index large (chunk_addr large (of_nat i)) = i"
proof (cases large)
  case True
  have a: "unat (chunk_addr True (of_nat i)) = 2 ^ 30 + i * 2 ^ 21" using unat_chunk_addr [of i True] assms True by simp
  have "unat (chunk_addr True (of_nat i) - MEM_SEP) = i * 2 ^ 21" using a by (simp add: unat_sub_if' MEM_SEP_def)
  then show ?thesis using True by (simp add: chunk_index_def LTLB_PAGE_BITS_def drop_bit_eq_div unat_div)
next
  case False
  have "unat (chunk_addr False (of_nat i)) = i * 2 ^ 12" using unat_chunk_addr [of i False] assms False by simp
  then show ?thesis using False by (simp add: chunk_index_def STLB_PAGE_BITS_def drop_bit_eq_div unat_div)
qed

lemma takes:
  assumes "cards.balanced N (p, us)" "n \<le> length (free_chunks p)"
  shows "\<exists>js q. chunks_take n p acc = Some (acc @ map of_nat js, q) \<and> length js = n \<and> cards.balanced N (q, js @ us)"
  using assms
proof (induction n arbitrary: p us acc)
  case 0
  then show ?case by simp
next
  case (Suc n)
  obtain fs where fs: "pool_ok N fs p" using Suc.prems balanced_ok by blast
  then obtain i ks where i: "fs = i # ks" using Suc.prems by (cases fs) auto
  from take_ok [OF fs [unfolded i]] obtain q where q: "chunk_take p = Some (of_nat i, q)" "pool_ok N ks q" by blast
  have "unat (of_nat i :: u32) = i" using fs by (intro of_nat_id [of i N]) (auto simp: pool_ok_def i)
  then have "cards.balanced N (q, i # us)" using cards.balanced_step [OF Suc.prems(1), of Take] fs i q by (simp add: card_tk_def)
  moreover have "n \<le> length (free_chunks q)" using Suc.prems(2) fs q i by simp
  ultimately obtain js q' where "chunks_take n q (acc @ [of_nat i]) = Some ((acc @ [of_nat i]) @ map of_nat js, q')" "length js = n"
    "cards.balanced N (q', js @ i # us)" using Suc.IH by blast
  then show ?case using q by (intro exI [of _ "i # js"] exI [of _ q']) (auto simp: balanced_iff)
qed

lemma gives:
  assumes "cards.balanced N (p, us)" "distinct js" "set js \<subseteq> set us"
  shows "\<exists>q. chunks_give js p = Some q \<and> cards.balanced N (q, filter (\<lambda>x. x \<notin> set js) us)"
  using assms
proof (induction js arbitrary: p us)
  case Nil
  then show ?case by simp
next
  case (Cons i js)
  obtain fs where fs: "pool_ok N fs p" using Cons.prems balanced_ok by blast
  have i: "i < N - 1" "i \<notin> set fs" using Cons.prems fs by (auto simp: balanced_iff)
  from give_ok(1) [OF fs i] obtain q where q: "chunk_give i p = Some q" by blast
  have "cards.balanced N (q, remove1 i us)"
    using cards.balanced_step [OF Cons.prems(1), of "Give i"] Cons.prems(3) q by (simp add: card_gv_def)
  then obtain q' where "chunks_give js q = Some q'" "cards.balanced N (q', filter (\<lambda>x. x \<notin> set js) (remove1 i us))"
    using Cons.IH [of q "remove1 i us"] Cons.prems by (auto simp: balanced_iff)
  then show ?case using q Cons.prems by (auto simp: balanced_iff)
qed

definition set_pool :: "bool \<Rightarrow> cpool \<Rightarrow> drv \<Rightarrow> drv" where
  "set_pool large p s = (if large then s\<lparr>pd_lchunks := p\<rparr> else s\<lparr>pd_schunks := p\<rparr>)"

lemma set_pool [simp]:
  "chunk_pool l (set_pool k p s) = (if l = k then p else chunk_pool l s)" "held (set_pool k p s) = held s"
  by (auto simp: set_pool_def chunk_pool_def)

lemma card_alloc_eq:
  assumes "chunk_lock large \<notin> held s" "n \<le> cp_num_free (chunk_pool large s)" "chunks_take n (chunk_pool large s) [] = Some (ids, p)"
  shows "card_alloc n large s = (Inr (0, map (chunk_addr large) ids), set_pool large p s)"
  using assms by (cases large)
    (auto simp: card_alloc_def card_alloc_large_def card_alloc_small_def chunk_lock_def chunk_pool_def chunk_addr_def set_pool_def spin_lock_def spin_unlock_def kret_def)

lemma card_free_eq:
  assumes "chunk_lock large \<notin> held s" "chunks_give (map (chunk_index large) (rev as)) (chunk_pool large s) = Some p"
  shows "card_free as (length as) large s = (Inr (), set_pool large p s)"
  using assms by (cases large)
    (auto simp: card_free_def card_free_large_def card_free_small_def chunk_lock_def chunk_pool_def chunk_index_def [abs_def] set_pool_def spin_lock_def spin_unlock_def kret_def)

text \<open>A client that allocates and frees pages of both sizes. It frees what it has, and does not ask for the last chunk.\<close>

datatype cardOp = CardAlloc nat bool | CardFree bool "u64 list"

definition card_pages :: "bool \<Rightarrow> (bool \<times> u64 list) list \<Rightarrow> u64 list" where
  "card_pages large h = concat (map snd (filter (\<lambda>x. fst x = large) h))"

fun card_step :: "cardOp \<Rightarrow> drv \<times> (bool \<times> u64 list) list \<Rightarrow> drv \<times> (bool \<times> u64 list) list" where
  "card_step (CardAlloc n large) (s, h) =
     (if n + length (card_pages large h) < chunk_count large
      then case card_alloc n large s of (Inr (r, as), s') \<Rightarrow> (s', if r = 0 then (large, as) # h else h) | (Inl e, s') \<Rightarrow> (s', h)
      else (s, h))"
| "card_step (CardFree large as) (s, h) =
     (if (large, as) \<in> set h then (snd (card_free as (length as) large s), remove1 (large, as) h) else (s, h))"

definition card_inv :: "drv \<times> (bool \<times> u64 list) list \<Rightarrow> bool" where
  "card_inv c \<longleftrightarrow> (\<forall>large. chunk_lock large \<notin> held (fst c)
     \<and> cards.balanced (chunk_count large) (chunk_pool large (fst c), map (chunk_index large) (card_pages large (snd c)))
     \<and> (\<forall>a \<in> set (card_pages large (snd c)). \<exists>i < chunk_count large - 1. a = chunk_addr large (of_nat i)))"

definition fresh_cards :: "drv \<Rightarrow> drv" where
  "fresh_cards s = s\<lparr>pd_lchunks := init_chunks N_LARGE_CHUNKS, pd_schunks := init_chunks N_SMALL_CHUNKS, held := {}\<rparr>"

lemma card_inv_init: "card_inv (fresh_cards s, [])"
proof -
  have p: "pool_ok (chunk_count l) [0..<chunk_count l - 1] (init_chunks (chunk_count l))" for l
    by (rule pool_ok_init) (simp_all add: chunk_sizes)
  then have "pool_inv (chunk_count l) (init_chunks (chunk_count l))" "free_chunks (init_chunks (chunk_count l)) = [0..<chunk_count l - 1]" for l
    by (auto simp only: pool_inv_def free_chunks [OF p])
  moreover have "chunk_pool l (fresh_cards s) = init_chunks (chunk_count l)" for l
    by (simp add: chunk_pool_def fresh_cards_def chunk_count_def)
  moreover have "held (fresh_cards s) = {}" by (simp add: fresh_cards_def)
  ultimately show ?thesis by (auto simp: card_inv_def card_pages_def balanced_iff)
qed

lemma card_inv_addr: "card_inv (s, h) \<Longrightarrow> a \<in> set (card_pages l h) \<Longrightarrow> \<exists>i < chunk_count l - 1. a = chunk_addr l (of_nat i)"
  by (simp add: card_inv_def)

lemma card_length: "cards.balanced n (p, us) \<Longrightarrow> length us + length (free_chunks p) = n - 1"
  using balanced_length by (simp add: balanced_iff)

lemma card_pages_Cons: "card_pages l ((k, as) # h) = (if l = k then as @ card_pages l h else card_pages l h)"
  by (auto simp: card_pages_def)

lemma alloc_fresh:
  assumes i: "card_inv (s, h)" and n: "n + length (card_pages large h) < chunk_count large"
  shows "\<exists>as s'. card_alloc n large s = (Inr (0, as), s') \<and> length as = n \<and> set as \<inter> set (card_pages large h) = {} \<and> card_inv (s', (large, as) # h)"
proof -
  let ?N = "chunk_count large" and ?us = "map (chunk_index large) (card_pages large h)"
  have b: "cards.balanced ?N (chunk_pool large s, ?us)" and l: "chunk_lock large \<notin> held s" using i by (auto simp: card_inv_def)
  have "n \<le> length (free_chunks (chunk_pool large s))" using card_length [OF b] n by simp
  from takes [OF b this, of "[]"] obtain js p where t: "chunks_take n (chunk_pool large s) [] = Some (map of_nat js, p)" "length js = n"
    and b': "cards.balanced ?N (p, js @ ?us)" by auto
  have N: "?N \<le> cp_num_free (chunk_pool large s)" using balanced_ok [of ?N "chunk_pool large s" ?us] b by (metis order_refl pool_ok_def)
  let ?as = "map (chunk_addr large) (map of_nat js)"
  have j: "\<forall>j \<in> set js. j < ?N - 1" using b' by (auto simp: balanced_iff)
  then have "\<forall>j \<in> set js. chunk_index large (chunk_addr large (of_nat j)) = j" by (auto intro!: chunk_index_addr)
  then have ix: "map (chunk_index large) ?as = js" unfolding map_map comp_def by (intro map_idI) blast
  have "set ?as \<inter> set (card_pages large h) = {}"
  proof (rule ccontr)
    assume "\<not> ?thesis"
    then obtain a where "a \<in> set ?as" "a \<in> set (card_pages large h)" by blast
    then have "chunk_index large a \<in> set (map (chunk_index large) ?as) \<inter> set ?us" by auto
    then have "chunk_index large a \<in> set js \<inter> set ?us" unfolding ix .
    then show False using b' by (auto simp: balanced_iff)
  qed
  moreover have "card_alloc n large s = (Inr (0, ?as), set_pool large p s)" using card_alloc_eq [OF l _ t(1)] N n by simp
  moreover have "card_inv (set_pool large p s, (large, ?as) # h)"
    using i b' j ix unfolding card_inv_def by (auto simp: card_pages_Cons)
  ultimately show ?thesis using t(2) by (intro exI [of _ ?as] exI [of _ "set_pool large p s"]) simp
qed

lemma free_keeps:
  assumes i: "card_inv (s, h)" and x: "(large, as) \<in> set h"
  shows "card_inv (snd (card_free as (length as) large s), remove1 (large, as) h)"
proof -
  let ?N = "chunk_count large" and ?us = "map (chunk_index large) (card_pages large h)" and ?js = "map (chunk_index large) (rev as)"
  have b: "cards.balanced ?N (chunk_pool large s, ?us)" and l: "chunk_lock large \<notin> held s" using i by (auto simp: card_inv_def)
  obtain h1 h2 where h: "h = h1 @ (large, as) # h2" "(large, as) \<notin> set h1" using split_list_first [OF x] by blast
  have pages: "card_pages k h = card_pages k h1 @ (if k = large then as else []) @ card_pages k h2" for k by (auto simp: h card_pages_def)
  have rest: "card_pages k (remove1 (large, as) h) = card_pages k h1 @ card_pages k h2" for k using h by (simp add: remove1_append card_pages_def)
  have d: "distinct ?us" using b by (simp add: balanced_iff)
  then have "distinct ?js" "set ?js \<subseteq> set ?us" by (auto simp: pages simp flip: rev_map)
  from gives [OF b this] obtain q where q: "chunks_give ?js (chunk_pool large s) = Some q" "cards.balanced ?N (q, filter (\<lambda>x. x \<notin> set ?js) ?us)" by blast
  have "filter (\<lambda>x. x \<notin> set ?js) ?us = map (chunk_index large) (card_pages large (remove1 (large, as) h))"
  proof -
    have "filter (\<lambda>x. x \<notin> set ?js) (map (chunk_index large) (card_pages large g)) = map (chunk_index large) (card_pages large g)"
      if "g = h1 \<or> g = h2" for g
      by (rule filter_True) (use that d in \<open>auto simp: pages\<close>)
    then show ?thesis by (simp add: pages rest filter_empty_conv)
  qed
  moreover have "card_pages k (remove1 (large, as) h) = card_pages k h" if "k \<noteq> large" for k using that by (simp add: rest pages)
  moreover have "set (card_pages k (remove1 (large, as) h)) \<subseteq> set (card_pages k h)" for k by (auto simp: rest pages)
  ultimately show ?thesis using i q(2) card_free_eq [OF l q(1)] unfolding card_inv_def
    by (auto simp del: remove1.simps split: if_splits) (metis in_mono)
qed

interpretation card: step_invariant "(fresh_cards s, [])" card_step card_inv
proof unfold_locales
  show "card_inv (fresh_cards s, [])" by (rule card_inv_init)
  show "card_inv (card_step op c)" if "card_inv c" for op c
  proof (cases c)
    case (Pair t h)
    show ?thesis
    proof (cases op)
      case (CardAlloc n large)
      then show ?thesis using that alloc_fresh [of t h n large] by (auto simp: Pair)
    next
      case (CardFree large as)
      then show ?thesis using that free_keeps [of t h large as] by (auto simp: Pair)
    qed
  qed
qed

definition tagged_pages :: "(bool \<times> u64 list) list \<Rightarrow> (bool \<times> u64) list" where
  "tagged_pages h = concat (map (\<lambda>x. map (Pair (fst x)) (snd x)) h)"

lemma tagged_pages_iff: "(l, a) \<in> set (tagged_pages h) \<longleftrightarrow> a \<in> set (card_pages l h)"
  by (induction h) (auto simp: tagged_pages_def card_pages_def)

lemma distinct_tagged: "(\<And>l. distinct (card_pages l h)) \<Longrightarrow> distinct (tagged_pages h)"
proof (induction h)
  case (Cons x h)
  obtain k as where x: "x = (k, as)" by fastforce
  have "distinct (card_pages l h)" for l using Cons.prems [of l] by (auto simp: x card_pages_Cons split: if_splits)
  then have "distinct (tagged_pages h)" by (rule Cons.IH)
  moreover have "distinct as" "set as \<inter> set (card_pages k h) = {}" using Cons.prems [of k] by (auto simp: x card_pages_Cons)
  moreover have "tagged_pages (x # h) = map (Pair k) as @ tagged_pages h" by (simp add: tagged_pages_def x)
  ultimately show ?case using tagged_pages_iff [of k _ h] by (auto simp: distinct_map inj_on_def)
qed (simp add: tagged_pages_def)

lemma pages_disjoint:
  assumes "i < chunk_count l - 1" "j < chunk_count k - 1" "(l, i) \<noteq> (k, j)"
  shows "page_bytes l (chunk_addr l (of_nat i)) \<inter> page_bytes k (chunk_addr k (of_nat j)) = {}"
proof -
  have u: "unat (chunk_addr l (of_nat i)) = (if l then 2 ^ 30 + i * 2 ^ 21 else i * 2 ^ 12)"
    "unat (chunk_addr k (of_nat j)) = (if k then 2 ^ 30 + j * 2 ^ 21 else j * 2 ^ 12)"
    using assms unat_chunk_addr [of i l] unat_chunk_addr [of j k] by simp_all
  show ?thesis using assms unfolding page_bytes_def u by (cases l; cases k; cases i j rule: linorder_cases) (auto simp: chunk_sizes)
qed

text \<open>C15. Pages of card memory are not shared: whatever pages of both sizes are allocated and freed, as long as the last chunk of a size is not asked for, an
  allocation succeeds, its pages are not those of another allocation, and no two pages have a byte in common.\<close>

theorem card_memory_disjoint:
  "let (s, h) = run_inputs card_step ops (fresh_cards s0, []); pages = tagged_pages h
   in distinct pages
    \<and> (\<forall>p \<in> set pages. \<forall>q \<in> set pages. p \<noteq> q \<longrightarrow> page_bytes (fst p) (snd p) \<inter> page_bytes (fst q) (snd q) = {})
    \<and> (n + length (card_pages large h) < chunk_count large \<longrightarrow>
        (\<exists>as s'. card_alloc n large s = (Inr (0, as), s') \<and> length as = n \<and> set as \<inter> set (card_pages large h) = {}))"
proof -
  obtain s h where r: "run_inputs card_step ops (fresh_cards s0, []) = (s, h)" by fastforce
  have i: "card_inv (s, h)" using card.inv_run [of ops s0] by (simp add: r)
  let ?pages = "tagged_pages h"
  have d: "distinct (card_pages l h)" for l using i by (auto simp: card_inv_def balanced_iff distinct_map)
  have "distinct ?pages" using distinct_tagged [OF d] .
  moreover have "page_bytes (fst p) (snd p) \<inter> page_bytes (fst q) (snd q) = {}" if "p \<in> set ?pages" "q \<in> set ?pages" "p \<noteq> q" for p q
  proof -
    have "snd p \<in> set (card_pages (fst p) h)" "snd q \<in> set (card_pages (fst q) h)" using that by (simp_all flip: tagged_pages_iff)
    moreover have "\<forall>l. \<forall>a \<in> set (card_pages l h). \<exists>i < chunk_count l - 1. a = chunk_addr l (of_nat i)" using i by (simp add: card_inv_def)
    ultimately obtain a b where ab: "a < chunk_count (fst p) - 1" "snd p = chunk_addr (fst p) (of_nat a)" "b < chunk_count (fst q) - 1"
      "snd q = chunk_addr (fst q) (of_nat b)" by blast
    have "(fst p, a) \<noteq> (fst q, b)" using that(3) ab by (metis Pair_inject prod_eqI)
    then show ?thesis using pages_disjoint [OF ab(1,3)] ab by simp
  qed
  ultimately show ?thesis using alloc_fresh [OF i, of n large] by (auto simp: r Let_def)
qed

text \<open>The last chunk of a size has the address of the first: an allocation when all others are in use gets a page that is in use, and the next one
  follows a null pointer with the lock held. Neither is refused, because the number of free chunks is never updated.\<close>

theorem last_card_page_shared:
  assumes "length (card_pages large (snd (run_inputs card_step ops (fresh_cards s0, [])))) = chunk_count large - 1"
  shows "\<exists>a s'. card_alloc 1 large (fst (run_inputs card_step ops (fresh_cards s0, []))) = (Inr (0, [a]), s')
    \<and> a \<in> set (card_pages large (snd (run_inputs card_step ops (fresh_cards s0, []))))
    \<and> (\<exists>s''. card_alloc 1 large s' = (Inl ''invalid access'', s'') \<and> card_alloc n large s'' = (Inl ''spin lock held'', s''))"
proof -
  obtain s h where r: "run_inputs card_step ops (fresh_cards s0, []) = (s, h)" by fastforce
  have i: "card_inv (s, h)" using card.inv_run [of ops s0] by (simp add: r)
  let ?N = "chunk_count large" and ?us = "map (chunk_index large) (card_pages large h)" and ?p = "chunk_pool large s"
  have b: "cards.balanced ?N (?p, ?us)" and l: "chunk_lock large \<notin> held s" using i by (auto simp: card_inv_def)
  obtain fs where fs: "pool_ok ?N fs ?p" using b balanced_ok by blast
  have "fs = []" using card_length [OF b] assms fs by (simp add: r)
  then obtain q where q: "chunk_take ?p = Some (0, q)" "chunk_take q = None" using take_last(1) fs by blast
  have nf: "1 \<le> cp_num_free ?p" "1 \<le> cp_num_free q" using fs q(1) by (auto simp: pool_ok_def chunk_take_def split: option.splits)
  have first: "card_alloc 1 large s = (Inr (0, [chunk_addr large 0]), set_pool large q s)"
    using card_alloc_eq [OF l nf(1), of "[0]" q] q(1) by simp
  have "0 \<in> set ?us" using b fs \<open>fs = []\<close> by (auto simp: balanced_iff chunk_sizes)
  then obtain a where a: "a \<in> set (card_pages large h)" "chunk_index large a = 0" by force
  then obtain j where j: "j < ?N - 1" "a = chunk_addr large (of_nat j)" using i unfolding card_inv_def by fastforce
  then have "j = 0" using a(2) chunk_index_addr [of j large] by simp
  then have m: "chunk_addr large 0 \<in> set (card_pages large h)" using a(1) j by simp
  have "card_alloc 1 large (set_pool large q s) = (Inl ''invalid access'', (set_pool large q s)\<lparr>held := insert (chunk_lock large) (held s)\<rparr>)"
    using q(2) l nf(2) by (cases large)
      (simp_all add: card_alloc_def card_alloc_large_def card_alloc_small_def chunk_lock_def set_pool_def spin_lock_def kfault_def)
  moreover have "card_alloc n large (t\<lparr>held := insert (chunk_lock large) (held s)\<rparr>) = (Inl ''spin lock held'', t\<lparr>held := insert (chunk_lock large) (held s)\<rparr>)" for t
    by (cases large) (simp_all add: card_alloc_def card_alloc_large_def card_alloc_small_def chunk_lock_def spin_lock_def)
  ultimately show ?thesis using first m by (auto simp: r)
qed

subsection \<open>Witnesses\<close>

definition no_chunks :: cpool where
  "no_chunks = \<lparr>cp_chunks = [], cp_num_free = 0, cp_alloc = None\<rparr>"

definition some_drv :: drv where
  "some_drv = \<lparr>kt = [], held = {}, d_id = 0, pd_n_fpga_reg = 2, pd_n_fpga_chan = 1, pd_en_avx = False, pd_en_bypass = False, pd_en_tlbf = True,
     pd_en_wb = False, pd_en_strm = True, pd_en_mem = True, pd_en_pr = True, pd_en_rdma_0 = False, pd_en_rdma_1 = False, pd_en_tcp_0 = True, pd_en_tcp_1 = False,
     pd_en_net_0 = True, pd_en_net_1 = False, pd_net_ip_addr = (\<lambda>_. 0), pd_net_mac_addr = (\<lambda>_. 0), pd_schunks = no_chunks, pd_lchunks = no_chunks,
     pd_stlb_order = mk_tlb_order False 12 10, pd_ltlb_order = mk_tlb_order True 21 6, d_pids = no_chunks, d_pid_array = [],
     d_curr_user_buff = \<lparr>up_vaddr = 0, up_huge = False, up_cpid = 0, up_n_hpages = 0, up_n_pages = 0, up_hpages = [], up_cpages = []\<rparr>,
     prc_curr_buff = \<lparr>pp_reg_id = 0, pp_vaddr = 0, pp_n_pages = 0, pp_pages = []\<rparr>,
     user_lbuff_map = (\<lambda>_. []), user_sbuff_map = (\<lambda>_. []), pr_buff_map = (\<lambda>_. []), pid_cpid_map = (\<lambda>_. [])\<rparr>"

definition some_kernel :: kernel where
  "some_kernel = \<lparr>k_alloc = (\<lambda>_. True), k_page = (\<lambda>_. Some 7), k_pinned = (\<lambda>_. Some [5, 6]), k_vma = (\<lambda>_ _. Some False), k_finishes = (\<lambda>_. True),
     k_remap = (\<lambda>_. False), k_user = (\<lambda>_. Some [0x1234, 100, 3]), k_debug = (\<lambda>_. 0), k_hash = (\<lambda>_. 0), k_hash_pid = (\<lambda>_. 0)\<rparr>"

theorem cpids_unique_witness:
  "\<exists>(c :: u32) s'. register_pid 7 (fresh_pids some_drv) = (Inr (int (unat c)), s') \<and> unat c < 63 \<and> d_pid_array s' ! unat c = 7"
proof -
  have "length ([] :: u32 list) < 63" by simp
  with cpids_unique [of "[]" some_drv 7] show ?thesis unfolding run_inputs.simps Let_def prod.case by blast
qed

lemma registers_length:
  "pid_inv (s, used) \<Longrightarrow> n + length used \<le> 63 \<Longrightarrow> length (snd (run_inputs pid_step (replicate n (Register pid)) (s, used))) = n + length used"
proof (induction n arbitrary: s used)
  case (Suc n)
  from register_fresh [OF Suc.prems(1), of pid] Suc.prems(2) obtain c s' where "register_pid pid s = (Inr (sint c), s')" "pid_inv (s', c # used)"
    by (auto simp: N_CPID_MAX_def)
  then show ?case using Suc.IH [of s' "c # used"] Suc.prems(2) by (simp add: N_CPID_MAX_def)
qed simp

theorem last_cpid_shared_witness:
  "\<exists>s'. register_pid 8 (fst (run_inputs pid_step (replicate 63 (Register 7)) (fresh_pids some_drv, []))) = (Inr 0, s') \<and> d_pid_array s' ! 0 = 8"
proof -
  have "length (snd (run_inputs pid_step (replicate 63 (Register 7)) (fresh_pids some_drv, []))) = 63"
    using registers_length [OF pid_inv_init, of 63] by simp
  from last_cpid_shared [OF this, of 8 9 10] show ?thesis by blast
qed

theorem card_memory_disjoint_witness:
  "\<exists>as s'. card_alloc 3 True (fst (run_inputs card_step [CardAlloc 2 True] (fresh_cards some_drv, []))) = (Inr (0, as), s') \<and> length as = 3"
proof -
  obtain s h where r: "run_inputs card_step [CardAlloc 2 True] (fresh_cards some_drv, []) = (s, h)" by fastforce
  obtain as s' where a: "card_alloc 2 True (fresh_cards some_drv) = (Inr (0, as), s')" "length as = 2"
    using alloc_fresh [OF card_inv_init, of 2 True some_drv] by (auto simp: card_pages_def chunk_sizes)
  then have "h = [(True, as)]" using r by (auto simp: card_pages_def chunk_sizes)
  then have "3 + length (card_pages True h) < chunk_count True" using a by (simp add: card_pages_def chunk_sizes)
  then show ?thesis using card_memory_disjoint [of "[CardAlloc 2 True]" some_drv 3 True] unfolding r by (auto simp: Let_def)
qed

theorem last_card_page_shared_witness:
  "\<exists>a s'. card_alloc 1 True (fst (run_inputs card_step [CardAlloc 511 True] (fresh_cards some_drv, []))) = (Inr (0, [a]), s')
     \<and> a \<in> set (card_pages True (snd (run_inputs card_step [CardAlloc 511 True] (fresh_cards some_drv, []))))"
proof -
  obtain as s' where a: "card_alloc 511 True (fresh_cards some_drv) = (Inr (0, as), s')" "length as = 511"
    using alloc_fresh [OF card_inv_init, of 511 True some_drv] by (auto simp: card_pages_def chunk_sizes)
  then have "length (card_pages True (snd (run_inputs card_step [CardAlloc 511 True] (fresh_cards some_drv, [])))) = chunk_count True - 1"
    by (simp add: card_pages_def chunk_sizes)
  from last_card_page_shared [OF this, of 1] show ?thesis by blast
qed

end
