(* ===== verification/Driver_Maps.thy ===== *)
theory Driver_Maps
  imports Driver_Pools
begin

text \<open>
  Mappings of user memory: the TLB entries of a mapping translate its addresses; where the driver goes wrong with them. Configuration and
  reconfiguration.
\<close>

unbundle bit_operations_syntax

subsection \<open>What an entry says\<close>

definition entry_page :: "tlb_order \<Rightarrow> u64 \<times> u64 \<Rightarrow> u64" where
  "entry_page t e = take_bit (to_key_size t + to_tag_size t) (fst e)"

definition entry_cpid :: "tlb_order \<Rightarrow> u64 \<times> u64 \<Rightarrow> u64" where
  "entry_cpid t e = take_bit PID_SIZE (drop_bit (to_key_size t + to_tag_size t) (fst e))"

definition entry_valid :: "tlb_order \<Rightarrow> u64 \<times> u64 \<Rightarrow> bool" where
  "entry_valid t e = bit (fst e) (to_key_size t + to_tag_size t + PID_SIZE)"

definition entry_host :: "tlb_order \<Rightarrow> u64 \<times> u64 \<Rightarrow> u64" where
  "entry_host t e = push_bit (to_page_shift t) (take_bit (to_phy_size t) (snd e))"

definition entry_card :: "tlb_order \<Rightarrow> u64 \<times> u64 \<Rightarrow> u64" where
  "entry_card t e = push_bit (to_page_shift t) (take_bit (to_phy_size t) (drop_bit (to_phy_size t) (snd e)))"

text \<open>The host page that an entry gives an address of a process.\<close>

definition translate :: "tlb_order \<Rightarrow> u64 \<times> u64 \<Rightarrow> u64 \<Rightarrow> u32 \<Rightarrow> u64 option" where
  "translate t e a cpid =
     (if entry_valid t e \<and> entry_page t e = drop_bit (to_page_shift t) a \<and> entry_cpid t e = ucast cpid then Some (entry_host t e) else None)"

definition order_ok :: "tlb_order \<Rightarrow> bool" where
  "order_ok t \<longleftrightarrow> (\<exists>huge shift key. t = mk_tlb_order huge shift key \<and> 12 \<le> shift \<and> shift + key \<le> 40)"

lemma bit_below: "unat (x :: 'a::len word) < 2 ^ n \<Longrightarrow> n \<le> m \<Longrightarrow> \<not> bit x m"
proof
  assume x: "unat x < 2 ^ n" "n \<le> m" and b: "bit x m"
  then have "bit (unat x) m" by (simp add: bit_unsigned_iff)
  moreover have "unat x = take_bit n (unat x)" using x by (simp add: take_bit_nat_eq_self)
  ultimately have "bit (take_bit n (unat x)) m" by simp
  then show False using x(2) by (simp add: bit_take_bit_iff)
qed

lemma bit_scast_small: "unat (c :: u32) < 2 ^ 31 \<Longrightarrow> (scast c :: u64) = ucast c"
  using bit_below [of c 31] by (intro bit_word_eqI) (auto simp: bit_simps min_def not_le)

lemma entry_decodes:
  assumes t: "t = mk_tlb_order huge shift key" "12 \<le> shift" "shift + key \<le> 40"
    and v: "unat vaddr < 2 ^ 48" and c: "unat cpid < 64" and p: "unat phost < 2 ^ 40" "unat pcard < 2 ^ 40"
  defines "e \<equiv> tlb_create_map t vaddr phost pcard cpid"
  shows "entry_valid t e" "entry_page t e = drop_bit shift vaddr" "entry_cpid t e = ucast cpid"
    "entry_host t e = phost AND NOT (mask shift)" "entry_card t e = pcard AND NOT (mask shift)"
proof -
  have s: "(scast cpid :: u64) = ucast cpid" using c by (intro bit_scast_small) simp
  have vb: "\<not> bit vaddr m" if "48 \<le> m" for m using bit_below [OF v that] .
  have cb: "m < 6" if "bit cpid m" for m using bit_below [of cpid 6 m] c that by (cases "m < 6") auto
  have pb: "bit phost m \<Longrightarrow> m < 40" "bit pcard m \<Longrightarrow> m < 40" for m using bit_below [OF p(1), of m] bit_below [OF p(2), of m] by (cases "m < 40"; auto)+
  have tf: "to_page_shift t = shift" "to_key_size t = key" "to_tag_size t = 48 - shift - key" "to_phy_size t = 40 - shift"
    "to_key_mask t = mask key" "to_phy_mask t = mask (40 - shift)"
    by (simp_all add: t(1) mk_tlb_order_def TLB_VADDR_RANGE_def TLB_PADDR_RANGE_def mask_eq_decr_exp)
  have e: "fst e = (drop_bit shift vaddr AND mask key) OR push_bit key (drop_bit (shift + key) vaddr) OR push_bit (48 - shift) (ucast cpid) OR push_bit (54 - shift) 1"
    "snd e = (drop_bit shift phost AND mask (40 - shift)) OR push_bit (40 - shift) (drop_bit shift pcard AND mask (40 - shift))"
    using t(2,3) by (simp_all add: e_def tlb_create_map_def tlb_entry0_def tlb_key_def tlb_tag_def tf s PID_SIZE_def Let_def)
  have k: "key + (48 - shift - key) = 48 - shift" using t(3) by simp
  show "entry_valid t e" using t(2,3) by (auto simp: entry_valid_def tf k e PID_SIZE_def bit_simps)
  show "entry_page t e = drop_bit shift vaddr"
    unfolding entry_page_def tf k e using t(2,3) vb by (intro bit_word_eqI) (auto simp: bit_simps add.commute)
  show "entry_cpid t e = ucast cpid"
    unfolding entry_cpid_def tf k e PID_SIZE_def using t(2,3) vb by (intro bit_word_eqI) (auto simp: bit_simps dest: cb)
  show "entry_host t e = phost AND NOT (mask shift)"
    unfolding entry_host_def tf e using t(2,3) by (intro bit_word_eqI) (auto simp: bit_simps dest: pb)
  show "entry_card t e = pcard AND NOT (mask shift)"
    unfolding entry_card_def tf e using t(2,3) by (intro bit_word_eqI) (auto simp: bit_simps dest: pb)
qed


subsection \<open>Mapping a range\<close>

lemma drop_mask: "drop_bit n (x AND NOT (mask n)) = drop_bit n (x :: 'a::len word)"
  by (intro bit_word_eqI) (auto simp: bit_simps dest: bit_imp_le_length)

lemma PAGE_MASK: "PAGE_MASK = NOT (mask 12)"
  by (simp add: PAGE_MASK_def mask_eq_decr_exp)

lemma unat_drop: "unat (drop_bit n (x :: 'a::len word)) = unat x div 2 ^ n"
  by (simp only: unsigned_drop_bit_eq take_bit_nat_eq_self [OF unsigned_less] drop_bit_eq_div [where ?'a = nat])

text \<open>Number of small pages of a range.\<close>

definition span :: "u64 \<Rightarrow> u64 \<Rightarrow> nat" where
  "span start count = (unat start + unat count - 1) div 4096 - unat start div 4096 + 1"

lemma range_pages_span:
  assumes "unat start + unat count < 2 ^ 64" "count \<noteq> 0" "span start count < 2 ^ 31"
  shows "range_pages PAGE_MASK PAGE_SHIFT start count = int (span start count)"
proof -
  let ?l = "drop_bit 12 (start + count - 1)" and ?f = "drop_bit 12 start"
  have c: "0 < unat count" using assms(2) by (simp add: unat_gt_0)
  have "unat (start + count) = unat start + unat count" using assms(1) by (simp add: unat_word_ariths)
  then have "unat (start + count - 1) = unat start + unat count - 1" using c by (simp add: unat_sub_if')
  then have l: "unat ?l = (unat start + unat count - 1) div 4096" "unat ?f = unat start div 4096" by (simp_all add: unat_drop)
  have le: "unat ?f \<le> unat ?l" using c unfolding l by (intro div_le_mono) simp
  then have "unat (?l - ?f) = unat ?l - unat ?f" by (simp add: unat_sub_if')
  moreover have "unat ?l < 2 ^ 52" using l(1) assms(1) by simp
  ultimately have "unat (?l - ?f) + 1 < 2 ^ 64" "unat (?l - ?f) = unat ?l - unat ?f" by simp_all
  then have "unat (?l - ?f + 1) = span start count" unfolding span_def l [symmetric] by (simp add: unat_word_ariths)
  then have "(ucast (?l - ?f + 1) :: u32) = of_nat (span start count)" by (metis of_nat_unat)
  then show ?thesis using assms(3) sint_small [of "span start count"] unfolding range_pages_def PAGE_MASK PAGE_SHIFT_def drop_mask Let_def by simp
qed

lemma span_small:
  assumes "unat start mod 4096 + unat count \<le> 4096 * n" "count \<noteq> 0"
  shows "span start count \<le> n"
proof -
  have c: "0 < unat count" using assms(2) by (simp add: unat_gt_0)
  have "unat start = 4096 * (unat start div 4096) + unat start mod 4096" by simp
  then have "unat start + unat count - 1 = 4096 * (unat start div 4096) + (unat start mod 4096 + unat count - 1)" using c by linarith
  then have "(unat start + unat count - 1) div 4096 = unat start div 4096 + (unat start mod 4096 + unat count - 1) div 4096"
    by (simp only: div_mult_self4)
  moreover have "(unat start mod 4096 + unat count - 1) div 4096 < n" using assms(1) c by (intro less_mult_imp_div_less) (simp add: mult.commute)
  ultimately show ?thesis by (simp add: span_def)
qed


lemma kt_free [simp]: "held (kdo e s) = held s" "chunk_pool l (kdo e s) = chunk_pool l s" "pd_en_mem (kdo e s) = pd_en_mem s" "pd_en_tlbf (kdo e s) = pd_en_tlbf s"
  "pd_stlb_order (kdo e s) = pd_stlb_order s" "pd_ltlb_order (kdo e s) = pd_ltlb_order s" "kt (kdo e s) = kt s @ [e]" "kt (kdo_all es s) = kt s @ es"
  "user_sbuff_map (kdo e s) = user_sbuff_map s" "user_sbuff_map (kdo_all es s) = user_sbuff_map s"
  by (simp_all add: kdo_def kdo_all_def chunk_pool_def)

lemma card_inv_kt [simp]: "card_inv (kdo e s, h) = card_inv (s, h)"
  by (simp add: card_inv_def)

text \<open>Card memory for a mapping: the pages, or zeros.\<close>

lemma map_pages_runs:
  assumes k: "\<And>tr. k_alloc K tr" and c: "card_inv (s, h)" "n + length (card_pages (to_hugepage t) h) < chunk_count (to_hugepage t)"
    and axil: "\<not> pd_en_tlbf s \<or> n \<le> MAX_MAP_AXIL_PAGES"
  shows "\<exists>cards s'. map_pages K t start psize cpid np ps phys n s = (Inr (int np), s') \<and> length cards = n
    \<and> (\<forall>a \<in> set cards. unat a < 2 ^ 32)
    \<and> (\<forall>i < n. let e = tlb_create_map t (start + of_nat i * psize) (phys ! i) (cards ! i) cpid in KTlb (to_hugepage t) (fst e) (snd e) \<in> set (kt s'))"
proof -
  let ?l = "to_hugepage t"
  define es where "es cards = map (\<lambda>i. tlb_create_map t (start + of_nat i * psize) (phys ! i) (cards ! i) cpid) [0..<n]" for cards
  define new where "new cards = \<lparr>up_vaddr = start, up_huge = ?l, up_cpid = 0, up_n_hpages = np, up_n_pages = n, up_hpages = ps,
     up_cpages = (if pd_en_mem s then cards else [])\<rparr>" for cards
  have "\<exists>cards s1. (if pd_en_mem s then case kzalloc K (of_nat n) s of (ok, s1) \<Rightarrow> if \<not> ok then kret (- 1, []) s1 else card_alloc n ?l s1
      else kret (0, replicate n 0) s) = (Inr (0, cards), s1) \<and> length cards = n \<and> (\<forall>a \<in> set cards. unat a < 2 ^ 32) \<and> pd_en_tlbf s1 = pd_en_tlbf s"
  proof (cases "pd_en_mem s")
    case True
    have "card_inv (kdo (KAlloc (of_nat n)) s, h)" using c by simp
    from alloc_fresh [OF this c(2)] obtain as s1 where a: "card_alloc n ?l (kdo (KAlloc (of_nat n)) s) = (Inr (0, as), s1)" "length as = n"
      "card_inv (s1, (?l, as) # h)" by blast
    have "unat x < 2 ^ 32" if "x \<in> set as" for x
    proof -
      have "x \<in> set (card_pages ?l ((?l, as) # h))" using that by (simp add: card_pages_Cons)
      from card_inv_addr [OF a(3) this] obtain i where "i < chunk_count ?l - 1" and x: "x = chunk_addr ?l (of_nat i)" by blast
      then have i: "i < chunk_count ?l" by simp
      then show ?thesis using unat_chunk_addr [OF i] i x by (auto simp: chunk_sizes split: if_splits)
    qed
    moreover have "pd_en_tlbf s1 = pd_en_tlbf s"
      using a(1) by (auto simp: card_alloc_def card_alloc_large_def card_alloc_small_def spin_lock_def spin_unlock_def kret_def kfault_def kdo_def split: if_splits option.splits)
    ultimately show ?thesis using a True k by (auto simp: kzalloc_def Let_def)
  qed (auto simp: kret_def)
  then obtain cards s1 where c1: "(if pd_en_mem s then case kzalloc K (of_nat n) s of (ok, s1) \<Rightarrow> if \<not> ok then kret (- 1, []) s1 else card_alloc n ?l s1
      else kret (0, replicate n 0) s) = (Inr (0, cards), s1)" "length cards = n" "\<forall>a \<in> set cards. unat a < 2 ^ 32" "pd_en_tlbf s1 = pd_en_tlbf s" by blast
  let ?s2 = "kdo (KAlloc (of_nat (2 * n))) s1"
  let ?s3 = "kdo_all (map (\<lambda>e. KTlb ?l (fst e) (snd e)) (es cards)) ?s2"
  have "tlb_service_dev K t (es cards) ?s2 = (Inr (), ?s3)"
    using axil c1(4) by (auto simp: tlb_service_dev_def es_def kret_def)
  then have run: "map_pages K t start psize cpid np ps phys n s = (Inr (int np), ?s3\<lparr>user_sbuff_map := hash_add (k_hash K start) (new cards) (user_sbuff_map ?s3)\<rparr>)"
    unfolding map_pages_def c1(1) using k by (simp add: kzalloc_def Let_def kret_def es_def new_def)
  show ?thesis
    by (rule exI [of _ cards], rule exI [of _ "?s3\<lparr>user_sbuff_map := hash_add (k_hash K start) (new cards) (user_sbuff_map ?s3)\<rparr>"])
      (use run c1(2,3) in \<open>auto simp: Let_def es_def\<close>)
qed


text \<open>C14. A mapped range is translated: a mapping of up to 64 small pages returns, and for every address of the range an entry of the TLB maps it, for this
  process, to the page that the kernel pinned for the address. This is when the kernel has memory and pins the pages, their frames lie below \<open>2\<^sup>2\<^sup>8\<close> (an entry has
  40 bits of a physical address, higher pages are cut off), the range ends within 48 bits, the process identifier is below 64, the area has small pages of 4 KB in a TLB of at most \<open>2\<^sup>2\<^sup>8\<close> sets, and
  the card has more than 64 small chunks left, with its chunk pools in the state that the allocations and releases before have left and their locks
  free.\<close>

theorem mapped_range_translated:
  assumes "\<And>tr. k_alloc K tr" "\<And>tr. k_pinned K tr = Some qs" "k_vma K pid start = Some False" "span start count \<le> length qs" "\<forall>q \<in> set qs. unat q < 2 ^ 28"
    and "count \<noteq> 0" "unat start + unat count \<le> 2 ^ 48" "unat start mod 4096 + unat count \<le> 64 * 4096" "unat cpid < 64"
    and "card_inv (s, h)" "64 + length (card_pages False h) < N_SMALL_CHUNKS" "pd_stlb_order s = mk_tlb_order False 12 key" "key \<le> 28"
  shows "\<exists>s'. tlb_get_user_pages K start count cpid pid s = (Inr (int (span start count)), s')
    \<and> (\<forall>a. unat start \<le> unat a \<and> unat a < unat start + unat count \<longrightarrow>
        (\<exists>e. KTlb False (fst e) (snd e) \<in> set (kt s') \<and> translate (pd_stlb_order s) e a cpid = Some (page_to_phys (qs ! (unat a div 4096 - unat start div 4096)))))"
proof -
  define page where "page a = unat (a :: u64) div 4096 - unat start div 4096" for a
  let ?n = "span start count" and ?t = "pd_stlb_order s"
  have n64: "?n \<le> 64" using span_small [of start count 64] assms(6,8) by (simp add: mult.commute)
  have n: "range_pages PAGE_MASK PAGE_SHIFT start count = int ?n" using assms(6,7) n64 by (intro range_pages_span) simp_all
  have lim: "map_limit False (int ?n) = int ?n" using n64 by (simp add: map_limit_def MAX_N_MAP_PAGES_def)
  have "unat (start + count) = unat start + unat count" using assms(7) by (simp add: unat_word_ariths)
  then have ov: "\<not> start + count < start" by (simp add: word_less_nat_alt)
  let ?ps = "take ?n qs"
  have hp: "\<not> to_hugepage ?t" and ps: "length ?ps = ?n" using assms(4,12) by (simp_all add: mk_tlb_order_def)
  let ?s3 = "kdo (KPin start (int ?n)) (kdo (KAlloc (of_int (int ?n))) (kdo (KAlloc 1) s))"
  have get: "tlb_get_user_pages K start count cpid pid s = map_pages K ?t start PAGE_SIZE cpid ?n ?ps (map page_to_phys ?ps) ?n ?s3"
    using assms(1-3,6) ov ps by (simp add: tlb_get_user_pages_def n lim kzalloc_def Let_def)
  have "?n + length (card_pages (to_hugepage ?t) h) < chunk_count (to_hugepage ?t)" using n64 hp assms(11) by (simp add: chunk_count_def)
  from map_pages_runs [OF assms(1) _ this, of ?s3 start PAGE_SIZE cpid ?n ?ps "map page_to_phys ?ps"] obtain cards s' where
    run: "tlb_get_user_pages K start count cpid pid s = (Inr (int ?n), s')" and cards: "length cards = ?n" "\<forall>a \<in> set cards. unat a < 2 ^ 32"
    and es: "\<forall>i < ?n. let e = tlb_create_map ?t (start + of_nat i * PAGE_SIZE) (map page_to_phys ?ps ! i) (cards ! i) cpid in KTlb False (fst e) (snd e) \<in> set (kt s')"
    unfolding get using assms(10) n64 hp ps by (auto simp: MAX_MAP_AXIL_PAGES_def)
  have "\<exists>e. KTlb False (fst e) (snd e) \<in> set (kt s') \<and> translate ?t e a cpid = Some (page_to_phys (qs ! page a))"
    if a: "unat start \<le> unat a" "unat a < unat start + unat count" for a
  proof -
    let ?i = "page a" and ?e = "tlb_create_map ?t (start + of_nat (page a) * PAGE_SIZE) (page_to_phys (qs ! page a)) (cards ! page a) cpid"
    have le: "unat start div 4096 \<le> unat a div 4096" "unat a div 4096 \<le> (unat start + unat count - 1) div 4096" using a by (auto intro: div_le_mono)
    then have i: "?i < ?n" unfolding page_def span_def by linarith
    have "unat (of_nat ?i * PAGE_SIZE :: u64) = ?i * 4096" using i n64 by (simp add: PAGE_SIZE_def unat_word_ariths unat_of_nat take_bit_nat_eq_self)
    moreover have "unat start + ?i * 4096 < 2 ^ 48 + 4096" using le(1) a(2) assms(7) by (simp add: page_def)
    ultimately have v: "unat (start + of_nat ?i * PAGE_SIZE) = unat start + ?i * 4096" by (simp add: unat_word_ariths)
    then have vp: "drop_bit 12 (start + of_nat ?i * PAGE_SIZE) = drop_bit 12 a" using le(1) by (simp add: word_unat_eq_iff unat_drop page_def)
    have "unat (start + of_nat ?i * PAGE_SIZE) div 4096 = unat a div 4096" using vp by (simp add: word_unat_eq_iff unat_drop)
    moreover have "unat a div 4096 < 2 ^ 36" using a(2) assms(7) by (simp add: div_less_iff_less_mult)
    ultimately have "unat (start + of_nat ?i * PAGE_SIZE) div 4096 < 2 ^ 36" by simp
    then have vb: "unat (start + of_nat ?i * PAGE_SIZE) < 2 ^ 48" by (simp add: div_less_iff_less_mult)
    have "qs ! ?i \<in> set qs" using i assms(4) by simp
    then have q: "unat (qs ! ?i) < 2 ^ 28" using assms(5) by blast
    then have pb: "unat (page_to_phys (qs ! ?i)) < 2 ^ 40"
      by (simp add: page_to_phys_def PAGE_SHIFT_def push_bit_eq_mult unat_word_ariths)
    have cb: "unat (cards ! ?i) < 2 ^ 40" using cards i nth_mem [of ?i cards] by fastforce
    have "entry_host ?t ?e = page_to_phys (qs ! ?i)"
      using entry_decodes(4) [OF assms(12) _ _ vb assms(9) pb cb] assms(13)
      by (simp add: page_to_phys_def PAGE_SHIFT_def) (intro bit_word_eqI, auto simp: bit_simps)
    then have "translate ?t ?e a cpid = Some (page_to_phys (qs ! ?i))"
      using entry_decodes(1-3) [OF assms(12) _ _ vb assms(9) pb cb] assms(13) vp
      by (simp add: translate_def assms(12) [THEN arg_cong [of _ _ to_page_shift]] mk_tlb_order_def)
    moreover have "KTlb False (fst ?e) (snd ?e) \<in> set (kt s')" using es i ps assms(4) by (simp add: Let_def)
    ultimately show ?thesis by blast
  qed
  then show ?thesis using run unfolding page_def by blast
qed

theorem mapped_range_translated_witness:
  "\<exists>s' e. tlb_get_user_pages some_kernel 0x1234 100 3 7 (fresh_cards some_drv) = (Inr 1, s')
     \<and> KTlb False (fst e) (snd e) \<in> set (kt s') \<and> translate (pd_stlb_order some_drv) e 0x1240 3 = Some 0x5000"
proof -
  have n: "span 0x1234 100 = 1" by (simp add: span_def)
  have "64 + length (card_pages False []) < N_SMALL_CHUNKS" by (simp add: card_pages_def chunk_sizes)
  moreover have "pd_stlb_order (fresh_cards some_drv) = mk_tlb_order False 12 10" by (simp add: fresh_cards_def some_drv_def)
  ultimately obtain s' where s': "tlb_get_user_pages some_kernel 0x1234 100 3 7 (fresh_cards some_drv) = (Inr (int (span 0x1234 100)), s')"
    and tr: "\<forall>a. unat (0x1234 :: u64) \<le> unat a \<and> unat a < unat (0x1234 :: u64) + unat (100 :: u64) \<longrightarrow>
        (\<exists>e. KTlb False (fst e) (snd e) \<in> set (kt s')
           \<and> translate (pd_stlb_order (fresh_cards some_drv)) e a 3 = Some (page_to_phys ([5, 6] ! (unat a div 4096 - unat (0x1234 :: u64) div 4096))))"
    using mapped_range_translated [of some_kernel "[5, 6]" 7 "0x1234" 100 3 "fresh_cards some_drv" "[]" 10]
    by (auto simp: some_kernel_def n card_inv_init)
  from tr [rule_format, of "0x1240"] obtain e where "KTlb False (fst e) (snd e) \<in> set (kt s')"
    "translate (pd_stlb_order (fresh_cards some_drv)) e 0x1240 3 = Some 0x5000" by (auto simp: page_to_phys_def PAGE_SHIFT_def)
  moreover have "pd_stlb_order (fresh_cards some_drv) = pd_stlb_order some_drv" by (simp add: fresh_cards_def)
  ultimately show ?thesis using s' by (intro exI [of _ s'] exI [of _ e]) (simp add: n)
qed

end
