(* ===== verification/Driver_Proofs.thy ===== *)
theory Driver_Proofs
  imports Driver_Maps
begin

text \<open>
  What every sequence of calls of the driver keeps: the records of mapped memory are well formed, and none of them has a process identifier. What
  follows for unmapping, and other errors; configuration and reconfiguration.
\<close>

unbundle bit_operations_syntax

subsection \<open>Records of mapped memory\<close>

text \<open>As many host pages as the record says, and as many card pages where there is card memory.\<close>

definition mapping_ok :: "bool \<Rightarrow> user_pages \<Rightarrow> bool" where
  "mapping_ok mem u \<longleftrightarrow> length (up_hpages u) = up_n_hpages u \<and> (mem \<longrightarrow> length (up_cpages u) = up_n_pages u) \<and> up_cpid u = 0"

definition mappings_ok :: "bool \<Rightarrow> drv \<Rightarrow> bool" where
  "mappings_ok mem s \<longleftrightarrow> pd_en_mem s = mem \<and> (\<forall>b. \<forall>u \<in> set (user_sbuff_map s b). mapping_ok mem u)"

lemma mappings_cong:
  "mappings_ok m s \<Longrightarrow> pd_en_mem s' = pd_en_mem s \<Longrightarrow> user_sbuff_map s' = user_sbuff_map s \<Longrightarrow> mappings_ok m s'"
  by (simp add: mappings_ok_def)

lemma mappings_frame [simp]:
  "mappings_ok m (kdo e s) = mappings_ok m s" "mappings_ok m (kdo_all es s) = mappings_ok m s" "mappings_ok m (spin_unlock l s) = mappings_ok m s"
  "mappings_ok m (s\<lparr>held := x1\<rparr>) = mappings_ok m s" "mappings_ok m (s\<lparr>pd_schunks := x2\<rparr>) = mappings_ok m s" "mappings_ok m (s\<lparr>pd_lchunks := x2\<rparr>) = mappings_ok m s"
  "mappings_ok m (s\<lparr>d_pids := x3\<rparr>) = mappings_ok m s" "mappings_ok m (s\<lparr>d_pid_array := x4\<rparr>) = mappings_ok m s"
  "mappings_ok m (s\<lparr>d_curr_user_buff := x5\<rparr>) = mappings_ok m s" "mappings_ok m (s\<lparr>prc_curr_buff := x6\<rparr>) = mappings_ok m s"
  "mappings_ok m (s\<lparr>user_lbuff_map := x7\<rparr>) = mappings_ok m s" "mappings_ok m (s\<lparr>pr_buff_map := x8\<rparr>) = mappings_ok m s"
  "mappings_ok m (s\<lparr>pid_cpid_map := x9\<rparr>) = mappings_ok m s" "mappings_ok m (s\<lparr>pd_net_ip_addr := xa\<rparr>) = mappings_ok m s"
  "mappings_ok m (s\<lparr>pd_net_mac_addr := xb\<rparr>) = mappings_ok m s"
  by (simp_all add: mappings_ok_def kdo_def kdo_all_def spin_unlock_def)

text \<open>A call that keeps them.\<close>

definition keeps :: "bool \<Rightarrow> 'a call \<Rightarrow> bool" where
  "keeps m f \<longleftrightarrow> (\<forall>s. mappings_ok m s \<longrightarrow> mappings_ok m (snd (f s)))"

lemma keepsI: "(\<And>s. mappings_ok m s \<Longrightarrow> mappings_ok m (snd (f s))) \<Longrightarrow> keeps m f"
  by (simp add: keeps_def)

lemma keepsD: "keeps m f \<Longrightarrow> mappings_ok m s \<Longrightarrow> mappings_ok m (snd (f s))"
  by (simp add: keeps_def)

lemma keeps_then:
  "mappings_ok m (snd r) \<Longrightarrow> (\<And>x. keeps m (f x)) \<Longrightarrow> mappings_ok m (snd (andThen r f))"
  by (cases r; cases "fst r") (auto simp: andThen_def keeps_def)

lemma keeps_basic [simp, intro]: "keeps m (kret x)" "keeps m (kfault e)" "keeps m (spin_lock l)" "keeps m (elem xs i)"
  by (auto simp: keeps_def kret_def kfault_def spin_lock_def elem_def)

lemma keeps_basic_state [simp]: "snd (kret x s) = s" "snd (kfault e s) = s"
  by (simp_all add: kret_def kfault_def)

lemma keeps_kzalloc [simp]: "mappings_ok m (snd (kzalloc K n s)) = mappings_ok m s"
  by (simp add: kzalloc_def Let_def)

lemma keeps_card [intro]: "keeps m (card_alloc n l)" "keeps m (card_free as n l)"
  by (auto simp: keeps_def card_alloc_def card_alloc_small_def card_alloc_large_def card_free_def card_free_small_def card_free_large_def spin_lock_def
      split: option.splits)

lemma keeps_service [intro]: "keeps m (tlb_service_dev K t es)"
  by (auto simp: keeps_def tlb_service_dev_def spin_lock_def Let_def)

lemma keeps_hlist:
  assumes "\<And>x. keeps m (f x)"
  shows "mappings_ok m s \<Longrightarrow> mappings_ok m (snd (hlist_each f xs s))"
proof (induction xs arbitrary: s)
  case (Cons x xs)
  show ?case unfolding hlist_each.simps
    by (rule keeps_then [OF keepsD [OF assms Cons.prems]]) (auto intro!: keepsI Cons.IH split: hstep.split)
qed simp

lemma keeps_hash:
  assumes "\<And>x. keeps m (f x)"
  shows "mappings_ok m s \<Longrightarrow> mappings_ok m (snd (hash_each tab f bs s))"
proof (induction bs arbitrary: s)
  case (Cons b bs)
  show ?case unfolding hash_each.simps
    by (rule keeps_then [OF keeps_hlist [OF assms Cons.prems]]) (auto intro!: keepsI Cons.IH split: hstep.split)
qed simp

lemma keeps_code: "mappings_ok m (snd r) \<Longrightarrow> mappings_ok m (snd (return_code r))"
  unfolding return_code_def by (rule keeps_then) (auto simp: keeps_def)

lemma mappings_del: "mappings_ok m s \<Longrightarrow> mappings_ok m (s\<lparr>user_sbuff_map := hash_del b u (user_sbuff_map s)\<rparr>)"
  by (auto simp: mappings_ok_def hash_del_def dest: notin_set_remove1 in_set_remove1 [THEN iffD1, rotated] set_remove1_subset [THEN subsetD])

lemma keeps_put [intro]: "keeps m (put_buffer K d c u)"
proof (rule keepsI)
  fix s assume s: "mappings_ok m s"
  have 1: "mappings_ok m (snd ((if pd_en_mem s then card_free (up_cpages u) (up_n_pages u) (up_huge u) else kret ()) (release_host d u s)))"
    using s by (auto simp: release_host_def intro!: keepsD [OF keeps_card(2)])
  have 2: "keeps m (\<lambda>s1. case kzalloc K (of_nat (2 * up_n_pages u)) s1 of (ok, s2) \<Rightarrow>
      if \<not> ok then kret (Return (- ENOMEM)) s2
      else let t = (if up_huge u then pd_ltlb_order s2 else pd_stlb_order s2); psize = (if up_huge u then to_page_size (pd_ltlb_order s2) else PAGE_SIZE)
        in andThen (tlb_service_dev K t (map (\<lambda>a. tlb_create_unmap t a c) (page_addrs (up_vaddr u) psize (up_n_pages u))) s2) (\<lambda>_ s3.
             kret Removed (s3\<lparr>user_sbuff_map := hash_del (k_hash K (up_vaddr u)) u (user_sbuff_map s3)\<rparr>)))"
    by (auto simp: kzalloc_def Let_def intro!: keepsI keeps_then keepsD [OF keeps_service] mappings_del)
  show "mappings_ok m (snd (put_buffer K d c u s))"
  proof (cases "length (up_hpages u) < up_n_hpages u")
    case True
    then show ?thesis using s by (simp add: put_buffer_def)
  next
    case False
    show ?thesis unfolding put_buffer_def if_not_P [OF False] by (rule keeps_then [OF 1 2])
  qed
qed

lemma keeps_if [intro]: "keeps m f \<Longrightarrow> keeps m g \<Longrightarrow> keeps m (if b then f else g)"
  by simp

lemma keeps_puts [intro]: "keeps m (tlb_put_user_pages_all K d)" "keeps m (tlb_put_user_pages_cpid K c d)" "keeps m (tlb_put_user_pages K v c d)"
  unfolding tlb_put_user_pages_all_def tlb_put_user_pages_cpid_def tlb_put_user_pages_def
  by (rule keepsI, rule keeps_code, rule keeps_hash keeps_hlist, (rule keeps_put keeps_if keeps_basic | assumption)+)+

lemma mappings_add: "mappings_ok m s \<Longrightarrow> mapping_ok m u \<Longrightarrow> mappings_ok m (s\<lparr>user_sbuff_map := hash_add b u (user_sbuff_map s)\<rparr>)"
  by (auto simp: mappings_ok_def hash_add_def)

lemma chunks_take_length: "chunks_take n p ids = Some (js, q) \<Longrightarrow> length js = n + length ids"
  by (induction n arbitrary: p ids) (auto split: option.splits prod.splits)

lemma card_alloc_length: "card_alloc n l s = (Inr (0, as), s') \<Longrightarrow> length as = n"
  by (auto simp: card_alloc_def card_alloc_small_def card_alloc_large_def spin_lock_def kret_def kfault_def ENOMEM_def andThen_def
      split: if_splits option.splits prod.splits dest!: chunks_take_length)

lemma keeps_map_pages:
  assumes np: "length ps = np"
  shows "keeps m (map_pages K t start psize cpid np ps phys n)"
proof (rule keepsI)
  fix s assume s: "mappings_ok m s"
  define r where "r = (if pd_en_mem s then case kzalloc K (of_nat n) s of (ok, s1) \<Rightarrow> if \<not> ok then kret (- 1, []) s1 else card_alloc n (to_hugepage t) s1
     else kret (0, replicate n 0) s)"
  have r1: "mappings_ok m (snd r)" using s by (auto simp: r_def kzalloc_def Let_def intro!: keepsD [OF keeps_card(1)])
  have r2: "length cards = n" if "fst r = Inr (0, cards)" for cards
    using that card_alloc_length [of n "to_hugepage t"]
    by (cases "card_alloc n (to_hugepage t) (kdo (KAlloc (of_nat n)) s)") (auto simp: r_def kzalloc_def Let_def kret_def split: if_splits)
  show "mappings_ok m (snd (map_pages K t start psize cpid np ps phys n s))"
  proof (cases "fst r")
    case (Inl e)
    then show ?thesis using r1 by (cases r) (simp add: map_pages_def r_def [symmetric] andThen_def)
  next
    case (Inr x)
    obtain c cards where x: "x = (c, cards)" by fastforce
    then obtain s1 where rr: "r = (Inr (c, cards), s1)" using Inr by (cases r) simp
    then have s1: "mappings_ok m s1" using r1 by simp
    have new: "mapping_ok m \<lparr>up_vaddr = start, up_huge = to_hugepage t, up_cpid = 0, up_n_hpages = np, up_n_pages = n, up_hpages = ps,
        up_cpages = (if pd_en_mem s then cards else [])\<rparr>" if "c = 0"
      using s r2 Inr x that np by (auto simp: mapping_ok_def mappings_ok_def)
    show ?thesis unfolding map_pages_def r_def [symmetric] rr andThen_simps prod.case
      using s1 new by (auto simp: kzalloc_def Let_def intro!: keeps_then keepsD [OF keeps_service] keepsI mappings_add)
  qed
qed

lemma keeps_get [intro]: "keeps m (tlb_get_user_pages K start count cpid pid)"
proof (rule keepsI)
  fix s assume s: "mappings_ok m s"
  show "mappings_ok m (snd (tlb_get_user_pages K start count cpid pid s))"
    unfolding tlb_get_user_pages_def map_huge_def using s
    by (auto simp: kzalloc_def Let_def split: option.split intro!: keepsD [OF keeps_map_pages])
qed

lemma keeps_host_pages: "mappings_ok m s \<Longrightarrow> mappings_ok m (snd (snd (alloc_host_pages K k n ps s)))"
  by (induction n arbitrary: ps s) (simp_all add: Let_def split: option.split)

lemma keeps_remap: "mappings_ok m s \<Longrightarrow> mappings_ok m (snd (remap_all K v z ps s))"
  by (induction ps arbitrary: v s) (simp_all add: Let_def)

lemma keeps_user_card [intro]: "keeps m (alloc_user_card K)"
  by (rule keepsI) (auto simp: alloc_user_card_def kzalloc_def Let_def intro!: keeps_then keepsD [OF keeps_card(1)] keepsI)

lemma keeps_alloc_user [intro]: "keeps m (alloc_user_buffers K n c)"
proof (rule keepsI)
  fix s assume s: "mappings_ok m s"
  have "mappings_ok m (snd (snd (alloc_host_pages K k i ps t)))" if "mappings_ok m t" for k i ps t by (rule keeps_host_pages [OF that])
  then have h: "mappings_ok m t'" if "alloc_host_pages K k i ps t = (ok, qs, t')" "mappings_ok m t" for k i ps t ok qs t' using that by (metis snd_conv)
  show "mappings_ok m (snd (alloc_user_buffers K n c s))"
    unfolding alloc_user_buffers_def using s
    by (auto simp: kzalloc_def Let_def split: prod.split intro!: keepsD [OF keeps_user_card] dest!: h)
qed

lemma keeps_free_user [intro]: "keeps m (free_user_buffers K v c)"
proof (rule keepsI)
  fix s assume s: "mappings_ok m s"
  have "keeps m (free_user_buffer K v c u)" for u
    by (rule keepsI) (auto simp: free_user_buffer_def kzalloc_def Let_def intro!: keeps_then keepsD [OF keeps_card(2)] keepsD [OF keeps_service] keepsI)
  then show "mappings_ok m (snd (free_user_buffers K v c s))" unfolding free_user_buffers_def by (intro keeps_code keeps_hlist s)
qed

lemma keeps_alloc_pr [intro]: "keeps m (alloc_pr_buffers K n)"
proof (rule keepsI)
  fix s assume s: "mappings_ok m s"
  have h: "mappings_ok m t'" if "alloc_host_pages K k i ps t = (ok, qs, t')" "mappings_ok m t" for k i ps t ok qs t'
    using keeps_host_pages [OF that(2), of K k i ps] that(1) by simp
  show "mappings_ok m (snd (alloc_pr_buffers K n s))"
    unfolding alloc_pr_buffers_def using s
    by (auto simp: kzalloc_def Let_def split: prod.split intro!: keeps_then keepsD [OF keeps_basic(3)] keepsI dest!: h)
qed

lemma keeps_pr [intro]: "keeps m (free_pr_buffers K v)" "keeps m (reconfigure K v n)"
proof -
  have 1: "keeps m (free_pr_buffer K v u)" "keeps m (reconfigure_buffer K v n u)" for u
    by (auto simp: keeps_def free_pr_buffer_def drop_array_def reconfigure_buffer_def Let_def)
  show "keeps m (free_pr_buffers K v)" "keeps m (reconfigure K v n)"
    unfolding free_pr_buffers_def reconfigure_def
    by (auto intro!: keepsI keeps_then keepsD [OF keeps_basic(3)] keeps_code keeps_hlist 1)
qed

lemma keeps_pids [intro]: "keeps m (register_pid p)" "keeps m (unregister_pid c)"
  by (auto simp: keeps_def register_pid_def unregister_pid_def spin_lock_def split: option.split)

lemma keeps_release [intro]: "keeps m (fpga_release K p)"
proof (rule keepsI)
  fix s assume s: "mappings_ok m s"
  have "keeps m (release_entry K p e)" for e
    by (rule keepsI) (auto simp: release_entry_def intro!: keeps_then keepsD [OF keeps_puts(2)] keepsD [OF keeps_pids(2)] keepsI)
  then show "mappings_ok m (snd (fpga_release K p s))" unfolding fpga_release_def by (intro keeps_code keeps_hlist s)
qed

lemma keeps_user: "(\<And>ws. keeps m (f ws)) \<Longrightarrow> keeps m (with_user K n f)"
  by (auto simp: keeps_def with_user_def Let_def split: option.split)

lemma keeps_zero: "keeps m f \<Longrightarrow> keeps m (returns_zero f)"
  unfolding returns_zero_def by (auto intro!: keepsI keeps_then dest: keepsD)

lemma keeps_writes [intro]: "keeps m (locked_writes l es)" "keeps m (ioctl_set_ip ws)" "keeps m (ioctl_set_mac ws)"
  by (auto simp: keeps_def locked_writes_def ioctl_set_ip_def ioctl_set_mac_def spin_lock_def Let_def)

lemma keeps_ioctl_parts [intro]: "keeps m (ioctl_map K ws)" "keeps m (ioctl_register K ws)" "keeps m (ioctl_unregister K ws)" "keeps m (ioctl_reconfigure K ws)"
proof -
  have e: "keeps m (unregister_entry K p c e)" for p c e
    by (rule keepsI) (auto simp: unregister_entry_def intro!: keeps_then keepsD [OF keeps_puts(2)] keepsI)
  show "keeps m (ioctl_map K ws)" "keeps m (ioctl_reconfigure K ws)"
    unfolding ioctl_map_def ioctl_reconfigure_def
    by (auto intro!: keepsI keeps_then keepsD [OF keeps_basic(3)] keepsD [OF keeps_basic(4)] keepsD [OF keeps_get] keepsD [OF keeps_pr(2)])
  show "keeps m (ioctl_register K ws)" "keeps m (ioctl_unregister K ws)"
    unfolding ioctl_register_def ioctl_unregister_def Let_def
    by (auto simp: kzalloc_def Let_def intro!: keepsI keeps_then keeps_hlist e keepsD [OF keeps_basic(3)] keepsD [OF keeps_basic(4)] keepsD [OF keeps_pids(1)] keepsD [OF keeps_pids(2)])
qed

lemma keeps_ioctl [intro]: "keeps m (fpga_ioctl K c)"
proof (rule keepsI)
  fix s assume s: "mappings_ok m s"
  have u: "(\<And>ws. keeps m (f ws)) \<Longrightarrow> mappings_ok m (snd (with_user K n f s))" for n f by (rule keepsD [OF keeps_user s])
  show "mappings_ok m (snd (fpga_ioctl K c s))"
    by (cases c) (use s in \<open>auto simp: Let_def intro!: u keeps_zero keepsI [of m "\<lambda>s1. kret 0 (kdo _ s1)"]\<close>)
qed

lemma keeps_mmap [intro]: "keeps m (fpga_mmap K a b c area v)"
proof (rule keepsI)
  fix s assume s: "mappings_ok m s"
  have r: "mappings_ok m t'" if "remap_all K w z ps t = (ok, t')" "mappings_ok m t" for w z ps t ok t' using keeps_remap [OF that(2), of K w z ps] that(1) by simp
  have b: "mappings_ok m (snd (mmap_buff K v s))"
    unfolding mmap_buff_def using s by (auto simp: kzalloc_def Let_def split: prod.split intro!: keeps_then keepsD [OF keeps_service] keepsI dest!: r)
  have p: "mappings_ok m (snd (mmap_pr K v s))"
    unfolding mmap_pr_def using s by (auto simp: kzalloc_def Let_def split: prod.split intro!: keeps_then keepsD [OF keeps_basic(3)] keepsI dest!: r)
  show "mappings_ok m (snd (fpga_mmap K a b c area v s))" using s b p by (simp add: fpga_mmap_def mmap_device_def Let_def split: mmapArea.split)
qed

lemma keeps_isr [intro]: "keeps m (fpga_tlb_miss_isr K a n)"
  unfolding fpga_tlb_miss_isr_def Let_def
  by (auto intro!: keepsI keeps_then keepsD [OF keeps_basic(3)] keepsD [OF keeps_basic(4)] keepsD [OF keeps_get])

subsection \<open>All calls\<close>

datatype drvCall = Ioctl drvIoctl | Mmap mmapArea u64 | PageFault u64 u64 | Release u32 | PutAll bool

fun drv_step :: "kernel \<Rightarrow> drvCall \<Rightarrow> drv \<Rightarrow> drv" where
  "drv_step K (Ioctl c) s = snd (fpga_ioctl K c s)"
| "drv_step K (Mmap area v) s = snd (fpga_mmap K 0 0 0 area v s)"
| "drv_step K (PageFault a n) s = snd (fpga_tlb_miss_isr K a n s)"
| "drv_step K (Release p) s = snd (fpga_release K p s)"
| "drv_step K (PutAll d) s = snd (tlb_put_user_pages_all K d s)"

definition fresh_device :: "drv \<Rightarrow> drv" where
  "fresh_device s = s\<lparr>user_sbuff_map := (\<lambda>_. [])\<rparr>"

interpretation drv: step_invariant "fresh_device s" "drv_step K" "mappings_ok (pd_en_mem s)"
proof unfold_locales
  show "mappings_ok (pd_en_mem s) (fresh_device s)" by (simp add: mappings_ok_def fresh_device_def)
  show "mappings_ok (pd_en_mem s) (drv_step K i t)" if "mappings_ok (pd_en_mem s) t" for i t
    using that by (cases i) (auto intro: keepsD)
qed



lemma hlist_skip: "(\<And>x. x \<in> set xs \<Longrightarrow> f x s = (Inr Next, s)) \<Longrightarrow> hlist_each f xs s = (Inr Next, s)"
  by (induction xs) simp_all

lemma hash_skip: "(\<And>b x. x \<in> set (tab s b) \<Longrightarrow> f x s = (Inr Next, s)) \<Longrightarrow> hash_each tab f bs s = (Inr Next, s)"
  by (induction bs) (simp_all add: hlist_skip)

text \<open>C24. Memory of processes stays mapped: \<open>tlb_get_user_pages\<close> does not store the identifier of the process in the record of the mapping, which keeps 0. After any
  calls, unmapping an address of a process with another identifier, or all its memory when it ends, returns success and does nothing: the pages stay pinned and
  the entries in the TLB.\<close>

theorem unmapping_ignored:
  assumes "cpid \<noteq> 0"
  shows "let s = run_inputs (drv_step K) calls (fresh_device s0)
    in tlb_put_user_pages K vaddr cpid dirtied s = (Inr 0, s) \<and> tlb_put_user_pages_cpid K cpid dirtied s = (Inr 0, s)"
proof -
  let ?s = "run_inputs (drv_step K) calls (fresh_device s0)"
  have z: "up_cpid u \<noteq> cpid" if "u \<in> set (user_sbuff_map ?s b)" for u b
    using drv.inv_run [of s0 K calls] that assms by (auto simp: mappings_ok_def mapping_ok_def)
  have "tlb_put_user_pages K vaddr cpid dirtied ?s = (Inr 0, ?s)"
    unfolding tlb_put_user_pages_def by (subst hlist_skip) (use z in \<open>auto simp: kret_def return_code_def\<close>)
  moreover have "tlb_put_user_pages_cpid K cpid dirtied ?s = (Inr 0, ?s)"
    unfolding tlb_put_user_pages_cpid_def by (subst hash_skip) (use z in \<open>auto simp: kret_def return_code_def\<close>)
  ultimately show ?thesis by simp
qed

theorem unmapping_ignored_witness:
  "tlb_put_user_pages some_kernel 0x1234 3 True (run_inputs (drv_step some_kernel) [Ioctl D_MAP_USER] (fresh_device (fresh_pids (fresh_cards some_drv))))
     = (Inr 0, run_inputs (drv_step some_kernel) [Ioctl D_MAP_USER] (fresh_device (fresh_pids (fresh_cards some_drv))))"
proof -
  have "(3 :: u32) \<noteq> 0" by simp
  from unmapping_ignored [OF this, where K = some_kernel and calls = "[Ioctl D_MAP_USER]" and ?s0.0 = "fresh_pids (fresh_cards some_drv)" and vaddr = "0x1234" and dirtied = True]
  show ?thesis unfolding Let_def by (rule conjunct1)
qed

subsection \<open>The configuration\<close>

text \<open>C35. The configuration word of the driver is read back by the runtime: \<open>parseCnfg\<close> finds the flags that \<open>fpga_ioctl\<close> packed, and the numbers of channels and regions
  when they are below 256.\<close>

theorem configuration_read_back:
  assumes "unat (pd_n_fpga_chan s) < 256" "unat (pd_n_fpga_reg s) < 256"
  shows "let c = parseCnfg (read_cnfg s)
    in en_avx c = pd_en_avx s \<and> en_bypass c = pd_en_bypass s \<and> en_tlbf c = pd_en_tlbf s \<and> en_wb c = pd_en_wb s \<and> en_strm c = pd_en_strm s
     \<and> en_mem c = pd_en_mem s \<and> en_pr c = pd_en_pr s \<and> en_rdma_0 c = pd_en_rdma_0 s \<and> en_rdma_1 c = pd_en_rdma_1 s
     \<and> en_tcp_0 c = pd_en_tcp_0 s \<and> en_tcp_1 c = pd_en_tcp_1 s \<and> n_fpga_chan c = pd_n_fpga_chan s \<and> n_fpga_reg c = pd_n_fpga_reg s"
proof -
  have c: "m < 8" if "bit (pd_n_fpga_chan s) m" for m using bit_below [of "pd_n_fpga_chan s" 8 m] assms that by (cases "m < 8") auto
  have r: "m < 8" if "bit (pd_n_fpga_reg s) m" for m using bit_below [of "pd_n_fpga_reg s" 8 m] assms that by (cases "m < 8") auto
  have sc: "(scast (pd_n_fpga_chan s) :: u64) = ucast (pd_n_fpga_chan s)" "(scast (pd_n_fpga_reg s) :: u64) = ucast (pd_n_fpga_reg s)"
    using assms by (intro bit_scast_small; simp)+
  have b: "bit (read_cnfg s) n = (bit (push_bit 32 (ucast (pd_n_fpga_chan s) :: u64)) n \<or> bit (push_bit 48 (ucast (pd_n_fpga_reg s) :: u64)) n
      \<or> n = 0 \<and> pd_en_avx s \<or> n = 1 \<and> pd_en_bypass s \<or> n = 2 \<and> pd_en_tlbf s \<or> n = 3 \<and> pd_en_wb s \<or> n = 4 \<and> pd_en_strm s \<or> n = 5 \<and> pd_en_mem s
      \<or> n = 6 \<and> pd_en_pr s \<or> n = 16 \<and> pd_en_rdma_0 s \<or> n = 17 \<and> pd_en_rdma_1 s \<or> n = 18 \<and> pd_en_tcp_0 s \<or> n = 19 \<and> pd_en_tcp_1 s)" for n
  proof -
    have f: "k < 64 \<Longrightarrow> bit (push_bit k (of_bool p) :: u64) n = (n = k \<and> p)" for k p by (auto simp: bit_simps)
    have k: "(1 :: nat) < 64" "(2 :: nat) < 64" "(3 :: nat) < 64" "(4 :: nat) < 64" "(5 :: nat) < 64" "(6 :: nat) < 64" "(16 :: nat) < 64" "(17 :: nat) < 64"
      "(18 :: nat) < 64" "(19 :: nat) < 64" by simp_all
    have z: "bit (of_bool p :: u64) n = (n = 0 \<and> p)" for p by (auto simp: bit_simps)
    show ?thesis unfolding read_cnfg_def sc bit_or_iff k [THEN f] z disj_assoc ..
  qed
  have m: "bit (0xff :: int) k = (k < 8)" for k using bit_mask_iff [where ?'a = int, of 8 k] by (simp add: mask_eq_exp_minus_1)
  have chan: "ucast (drop_bit 32 (read_cnfg s) AND 0xff) = pd_n_fpga_chan s"
  proof (rule bit_word_eqI)
    fix n assume "n < LENGTH(32)"
    have "bit (ucast (drop_bit 32 (read_cnfg s) AND 0xff) :: u32) n = (n < 8 \<and> bit (read_cnfg s) (32 + n))"
      by (auto simp: bit_unsigned_iff bit_and_iff bit_drop_bit_eq m)
    also have "\<dots> = bit (pd_n_fpga_chan s) n" using c [of n] by (auto simp: b bit_push_bit_iff bit_unsigned_iff)
    finally show "bit (ucast (drop_bit 32 (read_cnfg s) AND 0xff) :: u32) n = bit (pd_n_fpga_chan s) n" .
  qed
  have reg: "ucast (drop_bit 48 (read_cnfg s) AND 0xff) = pd_n_fpga_reg s"
  proof (rule bit_word_eqI)
    fix n assume "n < LENGTH(32)"
    have "bit (ucast (drop_bit 48 (read_cnfg s) AND 0xff) :: u32) n = (n < 8 \<and> bit (read_cnfg s) (48 + n))"
      by (auto simp: bit_unsigned_iff bit_and_iff bit_drop_bit_eq m)
    also have "\<dots> = bit (pd_n_fpga_reg s) n" using r [of n] c [of "16 + n"] by (auto simp: b bit_push_bit_iff bit_unsigned_iff)
    finally show "bit (ucast (drop_bit 48 (read_cnfg s) AND 0xff) :: u32) n = bit (pd_n_fpga_reg s) n" .
  qed
  have bits: "cnfg_bit (read_cnfg s) n = bit (read_cnfg s) n" for n by (simp add: cnfg_bit_iff)
  show ?thesis unfolding parseCnfg_def Let_def chan reg bits by (simp add: b bit_push_bit_iff)
qed

theorem configuration_read_back_witness:
  "en_mem (parseCnfg (read_cnfg some_drv)) \<and> n_fpga_reg (parseCnfg (read_cnfg some_drv)) = 2"
  using configuration_read_back [of some_drv] by (simp add: some_drv_def Let_def)

end
