(* ===== verification/Driver_Errors.thy ===== *)
theory Driver_Errors
  imports Driver_Proofs
begin

text \<open>
  Reconfiguration of a region, and calls of the driver that go wrong: a lock that stays held, TLB entries for another region, huge pages that are
  mapped to the physical address 0.
\<close>

unbundle bit_operations_syntax

subsection \<open>Reconfiguration\<close>

text \<open>The pieces of a bitstream: batches of 2 MB and the rest.\<close>

definition pieces :: "u64 \<Rightarrow> nat" where
  "pieces len = (unat len + unat PR_BATCH_SIZE - 1) div unat PR_BATCH_SIZE"

definition piece :: "u64 \<Rightarrow> nat \<Rightarrow> u64" where
  "piece len i = (if i < unat len div unat PR_BATCH_SIZE then PR_BATCH_SIZE else len mod PR_BATCH_SIZE)"

lemma batch: "unat PR_BATCH_SIZE = 2097152" "PR_BATCH_SIZE = 2097152"
  by (simp_all add: PR_BATCH_SIZE_def)

lemma pieces_split:
  "pieces len = unat (len div PR_BATCH_SIZE) + of_bool (len mod PR_BATCH_SIZE > 0)"
proof -
  let ?q = "unat len div 2097152" and ?r = "unat len mod 2097152"
  have up: "(2097152 * q + r + 2097151) div 2097152 = q + 1" if "0 < r" "r < 2097152" for q r :: nat using that by (intro div_nat_eqI) simp_all
  have l: "unat len = 2097152 * ?q + ?r" by simp
  have "(2097152 * ?q + ?r + 2097151) div 2097152 = ?q + of_bool (0 < ?r)"
  proof (cases "?r = 0")
    case False
    then show ?thesis using up [of ?r ?q] by simp
  qed simp
  then have "pieces len = ?q + of_bool (0 < ?r)" using l by (simp add: pieces_def batch)
  then show ?thesis by (simp add: batch unat_div unat_mod word_gt_0 unat_eq_zero [symmetric])
qed

lemma pieces_of_buffer:
  "pr_pieces ps len (pieces len) = concat (map (\<lambda>i. pr_batch (ps ! i) (piece len i) (i + 1 = pieces len)) [0..<pieces len])"
proof -
  have q: "unat len div 2097152 = unat (len div PR_BATCH_SIZE)" by (simp add: batch unat_div)
  have h: "(if i < unat (len div PR_BATCH_SIZE)
        then pr_batch (ps ! i) PR_BATCH_SIZE (len mod PR_BATCH_SIZE = 0 \<and> i + 1 = unat (len div PR_BATCH_SIZE))
        else pr_batch (ps ! i) (len mod PR_BATCH_SIZE) True)
      = pr_batch (ps ! i) (piece len i) (i + 1 = pieces len)" if "i < pieces len" for i
    using that by (cases "len mod PR_BATCH_SIZE = 0") (simp_all add: piece_def batch(1) q pieces_split word_gt_0)
  show ?thesis unfolding pr_pieces_def Let_def
    by (intro arg_cong [of _ _ concat] map_cong [OF refl] h) simp
qed

lemma pieces_length: "(\<Sum>i<pieces len. unat (piece len i)) = unat len"
proof -
  let ?q = "unat (len div PR_BATCH_SIZE)" and ?r = "len mod PR_BATCH_SIZE"
  have q: "unat len div 2097152 = ?q" by (simp add: batch unat_div)
  have "(\<Sum>i<?q. unat (piece len i)) = 2097152 * ?q" by (simp add: piece_def batch(1) q)
  moreover have "unat ?r = unat len mod 2097152" by (simp add: batch unat_mod)
  moreover have "piece len ?q = ?r" by (simp add: piece_def batch(1) q)
  moreover have "unat len = 2097152 * ?q + unat len mod 2097152" using mult_div_mod_eq [of 2097152 "unat len"] by (simp add: q)
  moreover have "pieces len = (if unat ?r = 0 then ?q else Suc ?q)" by (simp add: pieces_split word_gt_0 unat_eq_zero)
  ultimately show ?thesis by (cases "unat ?r = 0") simp_all
qed

text \<open>The buffers of a bucket that a load finds, and what the device gets for one of them.\<close>

definition found :: "u64 \<Rightarrow> drv \<Rightarrow> pr_pages list \<Rightarrow> pr_pages list" where
  "found vaddr s us = filter (\<lambda>u. pp_vaddr u = vaddr \<and> pp_reg_id u = d_id s) us"

definition handed :: "u64 \<Rightarrow> pr_pages \<Rightarrow> kEvent list" where
  "handed len u = concat (map (\<lambda>i. pr_batch (pp_pages u ! i) (piece len i) (i + 1 = pieces len)) [0..<pieces len])"

lemma reconfigure_bucket:
  assumes "\<forall>u \<in> set (found vaddr s us). pieces len \<le> length (pp_pages u)" "found vaddr s us = [] \<or> pieces len \<le> length (pp_pages (prc_curr_buff s))"
    and "\<And>tr. k_finishes K tr"
  shows "hlist_each (reconfigure_buffer K vaddr len) us s = (Inr Next, kdo_all (concat (map (handed len) (found vaddr s us))) s)"
  using assms(1,2)
proof (induction us arbitrary: s)
  case Nil
  then show ?case by (simp add: found_def kdo_all_def)
next
  case (Cons u us)
  show ?case
  proof (cases "pp_vaddr u = vaddr \<and> pp_reg_id u = d_id s")
    case False
    then have "reconfigure_buffer K vaddr len u s = (Inr Next, s)" by (auto simp: reconfigure_buffer_def kret_def)
    moreover have "found vaddr s (u # us) = found vaddr s us" using False by (simp add: found_def)
    ultimately show ?thesis using Cons by simp
  next
    case True
    let ?s = "kdo_all (handed len u) s"
    have f: "found vaddr s (u # us) = u # found vaddr s us" "found vaddr ?s us = found vaddr s us"
      using True by (simp_all add: found_def kdo_all_def)
    then have "pieces len \<le> length (pp_pages u)" "pieces len \<le> length (pp_pages (prc_curr_buff s))" using Cons.prems by auto
    then have "reconfigure_buffer K vaddr len u s = (Inr Next, ?s)"
      using True assms(3) by (simp add: reconfigure_buffer_def Let_def pieces_split [symmetric] pieces_of_buffer handed_def kret_def)
    moreover have "hlist_each (reconfigure_buffer K vaddr len) us ?s = (Inr Next, kdo_all (concat (map (handed len) (found vaddr ?s us))) ?s)"
      using Cons.prems f by (intro Cons.IH) (auto simp: kdo_all_def)
    ultimately show ?thesis using f by (simp add: kdo_all_def)
  qed
qed

text \<open>C23. A region is reconfigured with the whole bitstream: \<open>reconfigure\<close> returns 0 and hands the device, for every buffer of its bucket that has the address and
  belongs to the region (one after the other, and nothing when there is none), the pieces of the bitstream in order, each from the page of the buffer that holds it, the
  last one and only it marked as the last; together they have the length of the bitstream. This is when these buffers have pages for all the pieces, the
  lock of the device is free, the device finishes, and the page array of the current buffer, which a debug message reads with the same index, is as long (it is the array of the buffer that was
  allocated last).\<close>

theorem bitstream_handed_over:
  assumes "us = found vaddr s (pr_buff_map s (k_hash K vaddr))" "\<forall>u \<in> set us. pieces len \<le> length (pp_pages u)"
    and "us = [] \<or> pieces len \<le> length (pp_pages (prc_curr_buff s))" "\<And>tr. k_finishes K tr" "PRC_LOCK \<notin> held s"
  shows "\<exists>s'. reconfigure K vaddr len s = (Inr 0, s') \<and> held s' = held s
      \<and> kt s' = kt s @ concat (map (\<lambda>u. concat (map (\<lambda>i. pr_batch (pp_pages u ! i) (piece len i) (i + 1 = pieces len)) [0..<pieces len])) us)
      \<and> (\<Sum>i<pieces len. unat (piece len i)) = unat len"
proof -
  let ?s = "s\<lparr>held := insert PRC_LOCK (held s)\<rparr>"
  have f: "found vaddr ?s (pr_buff_map ?s (k_hash K vaddr)) = us" using assms(1) by (simp add: found_def)
  have "hlist_each (reconfigure_buffer K vaddr len) (pr_buff_map ?s (k_hash K vaddr)) ?s = (Inr Next, kdo_all (concat (map (handed len) us)) ?s)"
    using reconfigure_bucket [of vaddr ?s "pr_buff_map ?s (k_hash K vaddr)" len K] assms(2-4) unfolding f by simp
  then show ?thesis
    using assms(5) pieces_length [of len] unfolding handed_def
    by (auto simp: reconfigure_def return_code_def spin_lock_def spin_unlock_def kret_def kdo_all_def)
qed

definition some_buffer :: pr_pages where
  "some_buffer = \<lparr>pp_reg_id = 0, pp_vaddr = 0x400000, pp_n_pages = 2, pp_pages = [0x1000, 0x1200]\<rparr>"

definition other_buffer :: pr_pages where
  "other_buffer = \<lparr>pp_reg_id = 1, pp_vaddr = 0x400000, pp_n_pages = 1, pp_pages = [0x1400]\<rparr>"

theorem bitstream_handed_over_witness:
  "\<exists>s'. reconfigure some_kernel 0x400000 0x200010 (some_drv\<lparr>prc_curr_buff := some_buffer, pr_buff_map := (\<lambda>_. [other_buffer, some_buffer])\<rparr>) = (Inr 0, s')
     \<and> kt s' = [KStat PR_ADDR 0x1000000, KStat PR_LEN 0x200000, KStat PR_CTRL 1, KStat PR_ADDR 0x1200000, KStat PR_LEN 0x10, KStat PR_CTRL 7]"
proof -
  let ?s = "some_drv\<lparr>prc_curr_buff := some_buffer, pr_buff_map := (\<lambda>_. [other_buffer, some_buffer])\<rparr>"
  have "pieces 0x200010 = 2" by (simp add: pieces_def batch)
  moreover have "[some_buffer] = found 0x400000 ?s (pr_buff_map ?s (k_hash some_kernel 0x400000))"
    by (simp add: found_def some_buffer_def other_buffer_def some_drv_def)
  ultimately show ?thesis
    using bitstream_handed_over [of "[some_buffer]" "0x400000" ?s some_kernel "0x200010"]
    by (auto simp: some_buffer_def some_kernel_def some_drv_def pr_batch_def piece_def batch upt_rec page_to_phys_def PAGE_SHIFT_def PR_CTRL_START_LAST_def PR_CTRL_START_MIDDLE_def)
qed

text \<open>The debug messages make a difference: with a small buffer allocated after a large one (or with the current buffer freed), loading the large one reads beyond
  the array of the small one.\<close>

theorem debug_read_out_of_bounds:
  assumes "pr_buff_map s (k_hash K vaddr) = [u]" "pp_vaddr u = vaddr" "pp_reg_id u = d_id s" "PRC_LOCK \<notin> held s"
    and "length (pp_pages (prc_curr_buff s)) < pieces len"
  shows "fst (reconfigure K vaddr len s) = Inl ''invalid access''"
proof -
  have "\<exists>s1. reconfigure_buffer K vaddr len u (s\<lparr>held := insert PRC_LOCK (held s)\<rparr>) = (Inl ''invalid access'', s1)"
    using assms(2,3,5) by (simp add: reconfigure_buffer_def kfault_def Let_def pieces_split min_less_iff_disj)
  then show ?thesis using assms(1,4) by (auto simp: reconfigure_def return_code_def spin_lock_def)
qed

theorem debug_read_out_of_bounds_witness:
  "fst (reconfigure some_kernel 0x400000 0x200010 (some_drv\<lparr>prc_curr_buff := other_buffer, pr_buff_map := (\<lambda>_. [some_buffer])\<rparr>)) = Inl ''invalid access''"
proof -
  have "pieces 0x200010 = 2" by (simp add: pieces_def batch)
  then show ?thesis
    by (intro debug_read_out_of_bounds [where u = some_buffer]) (simp_all add: some_buffer_def other_buffer_def some_drv_def)
qed

subsection \<open>A lock that stays held\<close>

text \<open>A second allocation of bitstream buffers before the first one is mapped is refused, but keeps the lock: every later allocation, release or
  reconfiguration of any region waits forever. So does every allocation after one that failed for lack of pages.\<close>

theorem bitstream_lock_leaked:
  assumes "pp_n_pages (prc_curr_buff s) \<noteq> 0" "PR_LOCK \<notin> held s"
  shows "\<exists>s'. alloc_pr_buffers K n s = (Inr (- 1), s') \<and> alloc_pr_buffers K' n' s' = (Inl ''spin lock held'', s')
    \<and> free_pr_buffers K' v s' = (Inl ''spin lock held'', s') \<and> ioctl_reconfigure K' ws s' = (Inl ''spin lock held'', s')"
  using assms by (auto simp: alloc_pr_buffers_def free_pr_buffers_def ioctl_reconfigure_def spin_lock_def kret_def)

theorem bitstream_lock_leaked_witness:
  "\<exists>s'. alloc_pr_buffers some_kernel 1 (some_drv\<lparr>prc_curr_buff := some_buffer\<rparr>) = (Inr (- 1), s') \<and> alloc_pr_buffers some_kernel 1 s' = (Inl ''spin lock held'', s')"
  using bitstream_lock_leaked [of "some_drv\<lparr>prc_curr_buff := some_buffer\<rparr>" some_kernel 1 some_kernel 1] by (auto simp: some_drv_def some_buffer_def)

lemma failed_allocation_blocks:
  assumes "PR_LOCK \<notin> held s" "pp_n_pages (prc_curr_buff s) = 0" "n \<noteq> 0" "\<And>tr. k_alloc K tr" "\<And>tr. k_page K tr = None"
  shows "\<exists>s'. alloc_pr_buffers K n s = (Inr (- ENOMEM), s') \<and> PR_LOCK \<notin> held s' \<and> pp_n_pages (prc_curr_buff s') \<noteq> 0"
proof -
  have "0 < min (unat n) MAX_PR_BUFF_NUM" using assms(3) by (simp add: MAX_PR_BUFF_NUM_def unat_gt_0)
  then obtain m where m: "min (unat n) MAX_PR_BUFF_NUM = Suc m" by (cases "min (unat n) MAX_PR_BUFF_NUM") auto
  show ?thesis using assms by (auto simp: alloc_pr_buffers_def spin_lock_def spin_unlock_def kzalloc_def kret_def m Let_def kdo_def kdo_all_def)
qed

subsection \<open>Entries for another region\<close>

text \<open>Long mappings of small pages go to another TLB: when the device fetches more than 64 entries itself, the control word names the TLB 1 for every
  region, where the small TLB of region \<open>i\<close> of \<open>n\<close> is number \<open>n + i\<close>: the word is the same for all regions.\<close>

theorem long_mapping_other_tlb:
  assumes "pd_en_tlbf s" "64 < length es" "TLB_LOCK \<notin> held s" "\<And>tr. k_finishes K tr"
    and "\<not> to_hugepage t" "pd_n_fpga_reg s + d_id s \<noteq> 0"
  shows "\<exists>s' w. tlb_service_dev K t es s = (Inr (), s') \<and> kt s' = kt s @ [KTlbDma w es] \<and> drop_bit TLBF_CTRL_ID_SHFT w = 1"
proof -
  have w: "tlb_ctrl_word t (s\<lparr>held := h\<rparr>) = 0xF" for h
    using assms(5,6) by (simp add: tlb_ctrl_word_def TLBF_CTRL_ID_MASK_def TLBF_CTRL_START_def TLBF_CTRL_ID_SHFT_def)
  then show ?thesis using assms
    by (auto simp: tlb_service_dev_def MAX_MAP_AXIL_PAGES_def spin_lock_def spin_unlock_def kret_def kdo_def Let_def TLBF_CTRL_ID_SHFT_def)
qed

theorem long_mapping_other_tlb_witness:
  "\<exists>s' w. tlb_service_dev some_kernel (pd_stlb_order some_drv) (replicate 65 (0, 0)) some_drv = (Inr (), s')
     \<and> kt s' = [KTlbDma w (replicate 65 (0, 0))] \<and> drop_bit TLBF_CTRL_ID_SHFT w = 1 \<and> pd_n_fpga_reg some_drv + d_id some_drv = 2"
proof -
  have "pd_en_tlbf some_drv" "TLB_LOCK \<notin> held some_drv" "k_finishes some_kernel tr" "\<not> to_hugepage (pd_stlb_order some_drv)"
    "pd_n_fpga_reg some_drv + d_id some_drv = 2" "kt some_drv = []" for tr by (simp_all add: some_drv_def some_kernel_def mk_tlb_order_def)
  then show ?thesis
    using long_mapping_other_tlb [of some_drv "replicate 65 (0, 0)" some_kernel "pd_stlb_order some_drv"] by auto
qed

end
