(* ===== verification/Toe_Types.thy ===== *)
theory Toe_Types
  imports Prelude
begin

text \<open>
  The data of the TCP offload engine (\<^verbatim>\<open>hw/services/network/hls/toe/toe_internals.hpp\<close>, \<^verbatim>\<open>toe.hpp\<close>), in
  the default build configuration of \<^verbatim>\<open>toe/CMakeLists.txt\<close>: window scaling, fast retransmit and
  \<open>TCP_NODELAY\<close> on, so that \<open>WINDOW_BITS\<close> is 18. The number of sessions and the timer intervals are
  generated into the build (\<^verbatim>\<open>toe_config.hpp\<close>), they are the fields of \<open>toeCfg\<close>.
\<close>

type_synonym u18 = "18 word"
type_synonym u30 = "30 word"
type_synonym u2 = "2 word"

record toeCfg =
  MAX_SESSIONS :: u16
  TIME_64us :: u32
  TIME_50ms :: u32
  TIME_1s :: u32
  TIME_5s :: u32
  TIME_10s :: u32
  TIME_15s :: u32
  TIME_30s :: u32
  TIME_60s :: u32

text \<open>A configuration of four sessions with short intervals.\<close>

definition small_cfg :: toeCfg where
  "small_cfg = \<lparr>MAX_SESSIONS = 4, TIME_64us = 1, TIME_50ms = 1, TIME_1s = 1, TIME_5s = 1, TIME_10s = 3,
     TIME_15s = 4, TIME_30s = 6, TIME_60s = 60\<rparr>"

datatype eventType = TX | RT | ACK | SYN | SYN_ACK | FIN | RST | ACK_NODELAY

datatype sessionState =
  CLOSED | SYN_SENT | SYN_RECEIVED | ESTABLISHED | FIN_WAIT_1 | FIN_WAIT_2 | CLOSING | TIME_WAIT | LAST_ACK

record fourTuple =
  srcIp :: u32
  dstIp :: u32
  srcPort :: u16
  dstPort :: u16

definition fourTuple_less :: "fourTuple \<Rightarrow> fourTuple \<Rightarrow> bool" where
  "fourTuple_less lhs rhs \<longleftrightarrow> dstIp lhs < dstIp rhs \<or> (dstIp lhs = dstIp rhs \<and> srcIp lhs < srcIp rhs)"

record sessionLookupQuery =
  slq_tuple :: fourTuple
  slq_allowCreation :: bool

record sessionLookupReply =
  slr_sessionID :: u16
  slr_hit :: bool

record stateQuery =
  sq_sessionID :: u16
  sq_state :: sessionState
  sq_write :: bool

record rxSarEntry =
  re_recvd :: u32
  re_appd :: u18
  re_win_shift :: u4
  re_head :: u32
  re_offset :: u32
  re_gap :: bool

record rxSarReply =
  rr_recvd :: u32
  rr_win_shift :: u4
  rr_windowSize :: u16

record rxSarRecvd =
  rv_sessionID :: u16
  rv_recvd :: u32
  rv_win_shift :: u4
  rv_write :: bool
  rv_init :: bool
  rv_head :: u32
  rv_offset :: u32
  rv_gap :: bool

record rxSarAppd =
  ra_sessionID :: u16
  ra_appd :: u18
  ra_write :: bool

record txSarEntry =
  te_ackd :: u32
  te_not_ackd :: u32
  te_recv_window :: u16
  te_win_shift :: u4
  te_cong_window :: u18
  te_slowstart_threshold :: u18
  te_app :: u18
  te_count :: u2
  te_fastRetransmitted :: bool
  te_finReady :: bool
  te_finSent :: bool

record rxTxSarQuery =
  rq_sessionID :: u16
  rq_ackd :: u32
  rq_recv_window :: u16
  rq_cong_window :: u18
  rq_count :: u2
  rq_fastRetransmitted :: bool
  rq_win_shift :: u4
  rq_write :: bool
  rq_init :: bool

record txTxSarQuery =
  tq_sessionID :: u16
  tq_not_ackd :: u32
  tq_write :: bool
  tq_init :: bool
  tq_finReady :: bool
  tq_finSent :: bool
  tq_isRtQuery :: bool

text \<open>\<open>txTxSarRtQuery::getThreshold\<close>: the low bits of the sequence number field.\<close>

definition getThreshold :: "txTxSarQuery \<Rightarrow> u18" where
  "getThreshold q = ucast (tq_not_ackd q)"

record rxTxSarReply =
  rt_prevAck :: u32
  rt_nextByte :: u32
  rt_cong_window :: u18
  rt_slowstart_threshold :: u18
  rt_count :: u2
  rt_fastRetransmitted :: bool

record txAppTxSarPush =
  tp_sessionID :: u16
  tp_app :: u18

record txSarAckPush =
  ap_sessionID :: u16
  ap_ackd :: u18
  ap_min_window :: u18
  ap_init :: bool

record txTxSarReply =
  tr_ackd :: u32
  tr_not_ackd :: u32
  tr_usableWindow :: u18
  tr_app :: u18
  tr_usedLength :: u18
  tr_finReady :: bool
  tr_finSent :: bool

record rxRetransmitTimerUpdate =
  ru_sessionID :: u16
  ru_stop :: bool

record txRetransmitTimerSet =
  rs_sessionID :: u16
  rs_type :: eventType

record event =
  ev_type :: eventType
  ev_sessionID :: u16
  ev_address :: u18
  ev_length :: u16
  ev_rt_count :: u3

definition mk_event :: "eventType \<Rightarrow> u16 \<Rightarrow> u3 \<Rightarrow> event" where
  "mk_event t i c = \<lparr>ev_type = t, ev_sessionID = i, ev_address = 0, ev_length = 0, ev_rt_count = c\<rparr>"

text \<open>An \<open>extendedEvent\<close> carries a four tuple; the conversion from an \<open>event\<close> leaves it unset.\<close>

type_synonym extendedEvent = "event \<times> fourTuple option"

definition ext_event :: "event \<Rightarrow> extendedEvent" where
  "ext_event ev = (ev, None)"

text \<open>\<open>rstEvent\<close>: the sequence number of a reset travels in the address and length fields, the
  retry counter tells whether the session id is meant.\<close>

definition rstEvent :: "u16 \<Rightarrow> u32 \<Rightarrow> bool \<Rightarrow> event" where
  "rstEvent i seq hasID = \<lparr>ev_type = RST, ev_sessionID = i, ev_address = ucast (drop_bit 16 seq),
     ev_length = ucast seq, ev_rt_count = of_bool hasID\<rparr>"

definition getAckNumb :: "event \<Rightarrow> u32" where
  "getAckNumb ev = push_bit 16 (take_bit 16 (ucast (ev_address ev))) OR ucast (ev_length ev)"

definition hasSessionID :: "event \<Rightarrow> bool" where
  "hasSessionID ev \<longleftrightarrow> ev_rt_count ev \<noteq> 0"

record appNotification =
  an_sessionID :: u16
  an_length :: u16
  an_ipAddress :: u32
  an_dstPort :: u16
  an_closed :: bool

record openStatus =
  os_sessionID :: u16
  os_success :: u8
  os_ip :: u32
  os_port :: u16

lemma rstEvent_roundtrip:
  "getAckNumb (rstEvent i seq h) = seq" "hasSessionID (rstEvent i seq h) = h"
proof -
  show "getAckNumb (rstEvent i seq h) = seq"
    unfolding getAckNumb_def rstEvent_def
    by (rule bit_word_eqI) (auto simp: bit_simps dest: bit_imp_le_length)
  show "hasSessionID (rstEvent i seq h) = h"
    by (simp add: hasSessionID_def rstEvent_def)
qed

end
