(* ===== verification/Toe_State_Table.thy ===== *)
theory Toe_State_Table
  imports Toe_Types
begin

text \<open>
  The connection state table of the TCP engine (\<^verbatim>\<open>toe/state_table/state_table.cpp\<close>). The receive
  engine and the application interface read an entry, decide, and write it back; the table locks
  the session in between. The timers close sessions. A call of \<open>state_table\<close> is one step.
\<close>

subsection \<open>State\<close>

record stt =
  rxEng_upd_req :: "stateQuery stream"
  txApp_upd_req :: "stateQuery stream"
  txApp_req :: "u16 stream"
  timer_releaseState :: "u16 stream"
  rxEng_upd_rsp :: "sessionState stream"
  txApp_upd_rsp :: "sessionState stream"
  txApp_rsp :: "sessionState stream"
  sLookup_releaseSession :: "u16 stream"
  state_tab :: "u16 \<Rightarrow> sessionState"
  stt_txSessionID :: u16
  stt_rxSessionID :: u16
  stt_rxSessionLocked :: bool
  stt_txSessionLocked :: bool
  stt_txAccess :: stateQuery
  stt_rxAccess :: stateQuery
  stt_txWait :: bool
  stt_rxWait :: bool
  stt_closeSessionID :: u16
  stt_closeWait :: bool

definition stt_init :: stt where
  "stt_init = \<lparr>rxEng_upd_req = [], txApp_upd_req = [], txApp_req = [], timer_releaseState = [],
     rxEng_upd_rsp = [], txApp_upd_rsp = [], txApp_rsp = [], sLookup_releaseSession = [],
     state_tab = (\<lambda>_. CLOSED), stt_txSessionID = 0, stt_rxSessionID = 0, stt_rxSessionLocked = False,
     stt_txSessionLocked = False, stt_txAccess = \<lparr>sq_sessionID = 0, sq_state = CLOSED, sq_write = False\<rparr>,
     stt_rxAccess = \<lparr>sq_sessionID = 0, sq_state = CLOSED, sq_write = False\<rparr>, stt_txWait = False,
     stt_rxWait = False, stt_closeSessionID = 0, stt_closeWait = False\<rparr>"

subsection \<open>Accesses\<close>

definition rx_locks :: "u16 \<Rightarrow> stt \<Rightarrow> bool" where
  "rx_locks i s \<longleftrightarrow> i = stt_rxSessionID s \<and> stt_rxSessionLocked s"

definition tx_locks :: "u16 \<Rightarrow> stt \<Rightarrow> bool" where
  "tx_locks i s \<longleftrightarrow> i = stt_txSessionID s \<and> stt_txSessionLocked s"

definition tx_access :: "stt \<Rightarrow> stt" where
  "tx_access s =
     (let q = stt_txAccess s
      in if sq_write q
         then s\<lparr>state_tab := (state_tab s)(sq_sessionID q := sq_state q), stt_txSessionLocked := False\<rparr>
         else s\<lparr>txApp_upd_rsp := txApp_upd_rsp s @ [state_tab s (sq_sessionID q)],
                stt_txSessionID := sq_sessionID q, stt_txSessionLocked := True\<rparr>)"

definition rx_access :: "stt \<Rightarrow> stt" where
  "rx_access s =
     (let q = stt_rxAccess s
      in if sq_write q
         then s\<lparr>sLookup_releaseSession := (if sq_state q = CLOSED then sLookup_releaseSession s @ [sq_sessionID q]
                                           else sLookup_releaseSession s),
                state_tab := (state_tab s)(sq_sessionID q := sq_state q), stt_rxSessionLocked := False\<rparr>
         else s\<lparr>rxEng_upd_rsp := rxEng_upd_rsp s @ [state_tab s (sq_sessionID q)],
                stt_rxSessionID := sq_sessionID q, stt_rxSessionLocked := True\<rparr>)"

definition close_access :: "stt \<Rightarrow> stt" where
  "close_access s =
     s\<lparr>state_tab := (state_tab s)(stt_closeSessionID s := CLOSED),
       sLookup_releaseSession := sLookup_releaseSession s @ [stt_closeSessionID s]\<rparr>"

definition state_table :: "stt \<Rightarrow> stt" where
  "state_table s =
     (if txApp_upd_req s \<noteq> [] \<and> \<not> stt_txWait s then
        let s1 = s\<lparr>stt_txAccess := hd (txApp_upd_req s), txApp_upd_req := tl (txApp_upd_req s)\<rparr>
        in if rx_locks (sq_sessionID (stt_txAccess s1)) s1 then s1\<lparr>stt_txWait := True\<rparr> else tx_access s1
      else if txApp_req s \<noteq> [] then
        s\<lparr>txApp_rsp := txApp_rsp s @ [state_tab s (hd (txApp_req s))], txApp_req := tl (txApp_req s)\<rparr>
      else if rxEng_upd_req s \<noteq> [] \<and> \<not> stt_rxWait s then
        let s1 = s\<lparr>stt_rxAccess := hd (rxEng_upd_req s), rxEng_upd_req := tl (rxEng_upd_req s)\<rparr>
        in if tx_locks (sq_sessionID (stt_rxAccess s1)) s1 then s1\<lparr>stt_rxWait := True\<rparr> else rx_access s1
      else if timer_releaseState s \<noteq> [] \<and> \<not> stt_closeWait s then
        let s1 = s\<lparr>stt_closeSessionID := hd (timer_releaseState s), timer_releaseState := tl (timer_releaseState s)\<rparr>
        in if rx_locks (stt_closeSessionID s1) s1 \<or> tx_locks (stt_closeSessionID s1) s1
           then s1\<lparr>stt_closeWait := True\<rparr> else close_access s1
      else if stt_txWait s then
        if \<not> rx_locks (sq_sessionID (stt_txAccess s)) s then (tx_access s)\<lparr>stt_txWait := False\<rparr> else s
      else if stt_rxWait s then
        if \<not> tx_locks (sq_sessionID (stt_rxAccess s)) s then (rx_access s)\<lparr>stt_rxWait := False\<rparr> else s
      else if stt_closeWait s then
        if \<not> rx_locks (stt_closeSessionID s) s \<and> \<not> tx_locks (stt_closeSessionID s) s
        then (close_access s)\<lparr>stt_closeWait := False\<rparr> else s
      else s)"

text \<open>The environment fills the input streams between the calls.\<close>

datatype sttIn = SttRx stateQuery | SttTx stateQuery | SttTxRead u16 | SttTimer u16 | SttCall

fun stt_step :: "sttIn \<Rightarrow> stt \<Rightarrow> stt" where
  "stt_step (SttRx q) s = s\<lparr>rxEng_upd_req := rxEng_upd_req s @ [q]\<rparr>"
| "stt_step (SttTx q) s = s\<lparr>txApp_upd_req := txApp_upd_req s @ [q]\<rparr>"
| "stt_step (SttTxRead i) s = s\<lparr>txApp_req := txApp_req s @ [i]\<rparr>"
| "stt_step (SttTimer i) s = s\<lparr>timer_releaseState := timer_releaseState s @ [i]\<rparr>"
| "stt_step SttCall s = state_table s"

subsection \<open>The locks\<close>

lemma locks_update [simp]:
  "rx_locks i (s\<lparr>stt_txAccess := a\<rparr>) = rx_locks i s" "tx_locks i (s\<lparr>stt_txAccess := a\<rparr>) = tx_locks i s"
  "rx_locks i (s\<lparr>stt_rxAccess := a\<rparr>) = rx_locks i s" "tx_locks i (s\<lparr>stt_rxAccess := a\<rparr>) = tx_locks i s"
  "rx_locks i (s\<lparr>txApp_upd_req := b\<rparr>) = rx_locks i s" "tx_locks i (s\<lparr>txApp_upd_req := b\<rparr>) = tx_locks i s"
  "rx_locks i (s\<lparr>rxEng_upd_req := b\<rparr>) = rx_locks i s" "tx_locks i (s\<lparr>rxEng_upd_req := b\<rparr>) = tx_locks i s"
  "rx_locks i (s\<lparr>txApp_req := c\<rparr>) = rx_locks i s" "tx_locks i (s\<lparr>txApp_req := c\<rparr>) = tx_locks i s"
  "rx_locks i (s\<lparr>txApp_rsp := d\<rparr>) = rx_locks i s" "tx_locks i (s\<lparr>txApp_rsp := d\<rparr>) = tx_locks i s"
  "rx_locks i (s\<lparr>timer_releaseState := c\<rparr>) = rx_locks i s" "tx_locks i (s\<lparr>timer_releaseState := c\<rparr>) = tx_locks i s"
  "rx_locks i (s\<lparr>stt_closeSessionID := e\<rparr>) = rx_locks i s" "tx_locks i (s\<lparr>stt_closeSessionID := e\<rparr>) = tx_locks i s"
  "rx_locks i (s\<lparr>stt_txWait := f\<rparr>) = rx_locks i s" "tx_locks i (s\<lparr>stt_txWait := f\<rparr>) = tx_locks i s"
  "rx_locks i (s\<lparr>stt_rxWait := f\<rparr>) = rx_locks i s" "tx_locks i (s\<lparr>stt_rxWait := f\<rparr>) = tx_locks i s"
  "rx_locks i (s\<lparr>stt_closeWait := f\<rparr>) = rx_locks i s" "tx_locks i (s\<lparr>stt_closeWait := f\<rparr>) = tx_locks i s"
  by (simp_all add: rx_locks_def tx_locks_def)

lemma locks_access [simp]:
  "rx_locks i (tx_access s) = rx_locks i s"
  "tx_locks i (tx_access s) \<longleftrightarrow> \<not> sq_write (stt_txAccess s) \<and> i = sq_sessionID (stt_txAccess s)"
  "tx_locks i (rx_access s) = tx_locks i s"
  "rx_locks i (rx_access s) \<longleftrightarrow> \<not> sq_write (stt_rxAccess s) \<and> i = sq_sessionID (stt_rxAccess s)"
  "rx_locks i (close_access s) = rx_locks i s" "tx_locks i (close_access s) = tx_locks i s"
  by (auto simp: rx_locks_def tx_locks_def tx_access_def rx_access_def close_access_def Let_def)

lemma table_access [simp]:
  "state_tab (tx_access s) i = (if sq_write (stt_txAccess s) \<and> i = sq_sessionID (stt_txAccess s)
     then sq_state (stt_txAccess s) else state_tab s i)"
  "state_tab (rx_access s) i = (if sq_write (stt_rxAccess s) \<and> i = sq_sessionID (stt_rxAccess s)
     then sq_state (stt_rxAccess s) else state_tab s i)"
  "state_tab (close_access s) i = (if i = stt_closeSessionID s then CLOSED else state_tab s i)"
  by (auto simp: tx_access_def rx_access_def close_access_def Let_def)

lemma access_access [simp]:
  "stt_rxAccess (tx_access s) = stt_rxAccess s" "stt_txAccess (tx_access s) = stt_txAccess s"
  "stt_rxAccess (rx_access s) = stt_rxAccess s" "stt_txAccess (rx_access s) = stt_txAccess s"
  "stt_rxAccess (close_access s) = stt_rxAccess s" "stt_txAccess (close_access s) = stt_txAccess s"
  by (simp_all add: tx_access_def rx_access_def close_access_def Let_def)

lemma release_access [simp]:
  "sLookup_releaseSession (tx_access s) = sLookup_releaseSession s"
  "sLookup_releaseSession (rx_access s) = sLookup_releaseSession s
     @ (if sq_write (stt_rxAccess s) \<and> sq_state (stt_rxAccess s) = CLOSED then [sq_sessionID (stt_rxAccess s)] else [])"
  "sLookup_releaseSession (close_access s) = sLookup_releaseSession s @ [stt_closeSessionID s]"
  by (simp_all add: tx_access_def rx_access_def close_access_def Let_def)

text \<open>What a call does: it serves one access of a side whose way is free, or nothing but queue
  bookkeeping happens.\<close>

definition same :: "stt \<Rightarrow> stt \<Rightarrow> bool" where
  "same s t \<longleftrightarrow> (\<forall>i. rx_locks i t = rx_locks i s) \<and> (\<forall>i. tx_locks i t = tx_locks i s)
     \<and> state_tab t = state_tab s \<and> sLookup_releaseSession t = sLookup_releaseSession s"

lemma wait_commute:
  "(tx_access s)\<lparr>stt_txWait := b\<rparr> = tx_access (s\<lparr>stt_txWait := b\<rparr>)"
  "(rx_access s)\<lparr>stt_rxWait := b\<rparr> = rx_access (s\<lparr>stt_rxWait := b\<rparr>)"
  "(close_access s)\<lparr>stt_closeWait := b\<rparr> = close_access (s\<lparr>stt_closeWait := b\<rparr>)"
  by (simp_all add: tx_access_def rx_access_def close_access_def Let_def)

lemma state_table_rule:
  assumes tx: "\<And>t. \<lbrakk>same s t; \<not> rx_locks (sq_sessionID (stt_txAccess t)) s\<rbrakk> \<Longrightarrow> P (tx_access t)"
    and rx: "\<And>t. \<lbrakk>same s t; \<not> tx_locks (sq_sessionID (stt_rxAccess t)) s\<rbrakk> \<Longrightarrow> P (rx_access t)"
    and close: "\<And>t. \<lbrakk>same s t; \<not> rx_locks (stt_closeSessionID t) s; \<not> tx_locks (stt_closeSessionID t) s\<rbrakk>
      \<Longrightarrow> P (close_access t)"
    and quiet: "\<And>t. same s t \<Longrightarrow> P t"
  shows "P (state_table s)"
  unfolding state_table_def Let_def wait_commute if_split [of P]
  by (intro conjI impI;
      ((rule tx, simp add: same_def, simp) | (rule rx, simp add: same_def, simp)
       | (rule close, simp add: same_def, simp, simp) | (rule quiet, simp add: same_def)))

text \<open>No session is locked for both sides.\<close>

definition stt_inv :: "stt \<Rightarrow> bool" where
  "stt_inv s \<longleftrightarrow> (\<forall>i. \<not> (rx_locks i s \<and> tx_locks i s))"

lemma stt_inv_call: "stt_inv s \<Longrightarrow> stt_inv (state_table s)"
  by (rule state_table_rule) (auto simp: stt_inv_def same_def)

lemma stt_inv_step: "stt_inv s \<Longrightarrow> stt_inv (stt_step i s)"
  by (cases i) (auto simp: stt_inv_call, auto simp: stt_inv_def rx_locks_def tx_locks_def)

interpretation stt: step_invariant stt_init stt_step stt_inv
  by unfold_locales (auto simp: stt_inv_step, simp add: stt_inv_def stt_init_def rx_locks_def)

lemma rx_locked_entry:
  "rx_locks i s \<Longrightarrow> state_tab (state_table s) i \<noteq> state_tab s i \<longrightarrow> (let q = stt_rxAccess (state_table s)
    in sq_write q \<and> sq_sessionID q = i \<and> sq_state q = state_tab (state_table s) i \<and> \<not> rx_locks i (state_table s))"
  by (rule state_table_rule) (auto simp: same_def Let_def)

lemma tx_locked_entry:
  "tx_locks i s \<Longrightarrow> state_tab (state_table s) i \<noteq> state_tab s i \<longrightarrow> (let q = stt_txAccess (state_table s)
    in sq_write q \<and> sq_sessionID q = i \<and> sq_state q = state_tab (state_table s) i \<and> \<not> tx_locks i (state_table s))"
  by (rule state_table_rule) (auto simp: same_def Let_def)

text \<open>C4. No update of a connection is lost: after any history, while the receive engine (or the
  application side) has an entry locked by reading it, the only call that changes the entry is the
  one that serves its own write, and this releases the lock; and the two sides never have the same
  entry locked.\<close>

theorem locked_entry_protected:
  assumes "s = run_inputs stt_step is stt_init"
  shows "\<not> (rx_locks i s \<and> tx_locks i s)
    \<and> (state_tab (state_table s) i \<noteq> state_tab s i \<longrightarrow>
        (rx_locks i s \<longrightarrow> (let q = stt_rxAccess (state_table s) in sq_write q \<and> sq_sessionID q = i
           \<and> sq_state q = state_tab (state_table s) i \<and> \<not> rx_locks i (state_table s)))
      \<and> (tx_locks i s \<longrightarrow> (let q = stt_txAccess (state_table s) in sq_write q \<and> sq_sessionID q = i
           \<and> sq_state q = state_tab (state_table s) i \<and> \<not> tx_locks i (state_table s))))"
proof -
  have inv: "stt_inv s" unfolding assms by (rule stt.inv_run)
  then have "\<not> (rx_locks i s \<and> tx_locks i s)" unfolding stt_inv_def by blast
  with rx_locked_entry [of i s] tx_locked_entry [of i s] show ?thesis by blast
qed

text \<open>The receive engine has read entry 5 and its write is in the queue.\<close>

definition read_5 :: stateQuery where
  "read_5 = \<lparr>sq_sessionID = 5, sq_state = CLOSED, sq_write = False\<rparr>"

definition write_5 :: stateQuery where
  "write_5 = \<lparr>sq_sessionID = 5, sq_state = SYN_RECEIVED, sq_write = True\<rparr>"

lemma locked_example:
  "run_inputs stt_step [SttRx read_5, SttCall, SttRx write_5] stt_init
   = stt_init\<lparr>rxEng_upd_req := [write_5], stt_rxAccess := read_5, rxEng_upd_rsp := [CLOSED],
       stt_rxSessionID := 5, stt_rxSessionLocked := True\<rparr>"
  by (simp add: state_table_def rx_access_def tx_locks_def stt_init_def read_5_def write_5_def)

theorem locked_entry_protected_witness:
  "let s = run_inputs stt_step [SttRx read_5, SttCall, SttRx write_5] stt_init
   in rx_locks 5 s \<and> state_tab (state_table s) 5 \<noteq> state_tab s 5 \<and> \<not> rx_locks 5 (state_table s)
      \<and> sq_write (stt_rxAccess (state_table s))"
proof -
  let ?s = "run_inputs stt_step [SttRx read_5, SttCall, SttRx write_5] stt_init"
  have "rx_locks 5 ?s" unfolding locked_example by (simp add: rx_locks_def)
  moreover have "state_tab (state_table ?s) 5 \<noteq> state_tab ?s 5"
    unfolding locked_example
    by (simp add: state_table_def tx_locks_def stt_init_def write_5_def read_5_def)
  ultimately show ?thesis
    using locked_entry_protected [of ?s "[SttRx read_5, SttCall, SttRx write_5]" 5, OF refl]
    unfolding Let_def by blast
qed

text \<open>Session ids are released only for closed connections: a call hands at most one id to
  the lookup controller, and then the entry is closed.\<close>

theorem release_only_closed:
  "\<exists>xs. sLookup_releaseSession (state_table s) = sLookup_releaseSession s @ xs \<and> length xs \<le> 1
     \<and> (\<forall>i \<in> set xs. state_tab (state_table s) i = CLOSED)"
  by (rule state_table_rule) (auto simp: same_def)

theorem release_only_closed_witness:
  "\<exists>xs. sLookup_releaseSession (state_table (stt_init\<lparr>timer_releaseState := [7]\<rparr>)) = xs \<and> length xs \<le> 1
     \<and> (\<forall>i \<in> set xs. state_tab (state_table (stt_init\<lparr>timer_releaseState := [7]\<rparr>)) i = CLOSED)"
  using release_only_closed [of "stt_init\<lparr>timer_releaseState := [7]\<rparr>"] by (simp add: stt_init_def)

end
