(* ===== verification/Toe_Sar_Tables.thy ===== *)
theory Toe_Sar_Tables
  imports Toe_Types
begin

text \<open>
  The sliding window tables of the TCP engine (\<^verbatim>\<open>toe/rx_sar_table/rx_sar_table.cpp\<close>,
  \<^verbatim>\<open>toe/tx_sar_table/tx_sar_table.cpp\<close>). Every call serves one request of the highest priority
  client that has one.
\<close>

subsection \<open>Receive window\<close>

record rxSar =
  rxEng2rxSar_upd_req :: "rxSarRecvd stream"
  rxApp2rxSar_upd_req :: "rxSarAppd stream"
  txEng2rxSar_req :: "u16 stream"
  rxSar2rxEng_upd_rsp :: "rxSarEntry stream"
  rxSar2rxApp_upd_rsp :: "rxSarAppd stream"
  rxSar2txEng_rsp :: "rxSarReply stream"
  rx_table :: "u16 \<Rightarrow> rxSarEntry"

definition rx_reply :: "rxSarEntry \<Rightarrow> rxSarReply" where
  "rx_reply entry =
     (let actualWindowSize = (re_appd entry - ucast (re_recvd entry)) - 1
      in \<lparr>rr_recvd = re_recvd entry, rr_win_shift = re_win_shift entry,
          rr_windowSize = ucast (drop_bit (unat (re_win_shift entry)) actualWindowSize)\<rparr>)"

definition rx_recvd_upd :: "rxSarRecvd \<Rightarrow> rxSarEntry \<Rightarrow> rxSarEntry" where
  "rx_recvd_upd r e =
     (let e1 = e\<lparr>re_recvd := rv_recvd r, re_head := rv_head r, re_offset := rv_offset r, re_gap := rv_gap r\<rparr>
      in if rv_init r then e1\<lparr>re_appd := ucast (rv_recvd r), re_win_shift := rv_win_shift r\<rparr> else e1)"

definition rx_sar_table :: "rxSar \<Rightarrow> rxSar" where
  "rx_sar_table s =
     (case txEng2rxSar_req s of
        addr # q \<Rightarrow> s\<lparr>txEng2rxSar_req := q, rxSar2txEng_rsp := rxSar2txEng_rsp s @ [rx_reply (rx_table s addr)]\<rparr>
      | [] \<Rightarrow>
       (case rxApp2rxSar_upd_req s of
          in_appd # q \<Rightarrow>
            (let s1 = s\<lparr>rxApp2rxSar_upd_req := q\<rparr>; i = ra_sessionID in_appd
             in if ra_write in_appd
                then s1\<lparr>rx_table := (rx_table s)(i := (rx_table s i)\<lparr>re_appd := ra_appd in_appd\<rparr>)\<rparr>
                else s1\<lparr>rxSar2rxApp_upd_rsp := rxSar2rxApp_upd_rsp s
                         @ [\<lparr>ra_sessionID = i, ra_appd = re_appd (rx_table s i), ra_write = True\<rparr>]\<rparr>)
        | [] \<Rightarrow>
         (case rxEng2rxSar_upd_req s of
            in_recvd # q \<Rightarrow>
              (let s1 = s\<lparr>rxEng2rxSar_upd_req := q\<rparr>; i = rv_sessionID in_recvd
               in if rv_write in_recvd
                  then s1\<lparr>rx_table := (rx_table s)(i := rx_recvd_upd in_recvd (rx_table s i))\<rparr>
                  else s1\<lparr>rxSar2rxEng_upd_rsp := rxSar2rxEng_upd_rsp s @ [rx_table s i]\<rparr>)
          | [] \<Rightarrow> s)))"

subsection \<open>Transmit window\<close>

record txSar =
  rxEng2txSar_upd_req :: "rxTxSarQuery stream"
  txEng2txSar_upd_req :: "txTxSarQuery stream"
  txApp2txSar_app_push :: "txAppTxSarPush stream"
  txSar2rxEng_upd_rsp :: "rxTxSarReply stream"
  txSar2txEng_upd_rsp :: "txTxSarReply stream"
  txSar2txApp_ack_push :: "txSarAckPush stream"
  tx_table :: "u16 \<Rightarrow> txSarEntry"

text \<open>\<open>scaled_recv_window(win_shift+15, win_shift) = w\<close> on a variable that was not initialised: the
  bits outside the range are whatever \<open>junk\<close> the register had.\<close>

definition scaled_window :: "u30 \<Rightarrow> u4 \<Rightarrow> u16 \<Rightarrow> u30" where
  "scaled_window junk sh w =
     (let n = unat sh in (junk AND NOT (push_bit n (mask 16))) OR push_bit n (ucast w))"

definition min_win :: "u18 \<Rightarrow> u30 \<Rightarrow> u18" where
  "min_win cong scaled = (if ucast cong < scaled then cong else ucast scaled)"

definition tx_reply :: "u30 \<Rightarrow> txSarEntry \<Rightarrow> txTxSarReply" where
  "tx_reply junk entry =
     (let usedLength = ucast (te_not_ackd entry - te_ackd entry) :: u18;
          minWindow = min_win (te_cong_window entry) (scaled_window junk (te_win_shift entry) (te_recv_window entry));
          usableWindow = (if minWindow < usedLength then minWindow - usedLength else 0)
      in \<lparr>tr_ackd = te_ackd entry, tr_not_ackd = te_not_ackd entry, tr_usableWindow = usableWindow,
          tr_app = te_app entry, tr_usedLength = usedLength, tr_finReady = te_finReady entry,
          tr_finSent = te_finSent entry\<rparr>)"

definition txEng_upd :: "txTxSarQuery \<Rightarrow> txSarEntry \<Rightarrow> txSarEntry" where
  "txEng_upd q e =
     (if \<not> tq_isRtQuery q then
        let e1 = e\<lparr>te_not_ackd := tq_not_ackd q\<rparr>;
            e2 = (if tq_init q
                  then e1\<lparr>te_app := ucast (tq_not_ackd q), te_ackd := tq_not_ackd q - 1, te_cong_window := 0x3908,
                          te_slowstart_threshold := 0xFFFF, te_finReady := tq_finReady q, te_finSent := tq_finSent q\<rparr>
                  else e1);
            e3 = (if tq_finReady q then e2\<lparr>te_finReady := tq_finReady q\<rparr> else e2)
        in (if tq_finSent q then e3\<lparr>te_finSent := tq_finSent q\<rparr> else e3)
      else e\<lparr>te_slowstart_threshold := getThreshold q, te_cong_window := 0x3908\<rparr>)"

definition rxEng_upd :: "rxTxSarQuery \<Rightarrow> txSarEntry \<Rightarrow> txSarEntry" where
  "rxEng_upd q e =
     (let e1 = e\<lparr>te_ackd := rq_ackd q, te_recv_window := rq_recv_window q, te_cong_window := rq_cong_window q,
                te_count := rq_count q, te_fastRetransmitted := rq_fastRetransmitted q\<rparr>
      in if rq_init q then e1\<lparr>te_win_shift := rq_win_shift q\<rparr> else e1)"

definition tx_sar_table :: "u30 \<Rightarrow> txSar \<Rightarrow> txSar" where
  "tx_sar_table junk s =
     (case txEng2txSar_upd_req s of
        u # q \<Rightarrow>
          (let s1 = s\<lparr>txEng2txSar_upd_req := q\<rparr>; i = tq_sessionID u
           in if tq_write u then
                s1\<lparr>tx_table := (tx_table s)(i := txEng_upd u (tx_table s i)),
                   txSar2txApp_ack_push := (if \<not> tq_isRtQuery u \<and> tq_init u
                     then txSar2txApp_ack_push s @ [\<lparr>ap_sessionID = i, ap_ackd = ucast (tq_not_ackd u),
                                                     ap_min_window = 0x3908, ap_init = True\<rparr>]
                     else txSar2txApp_ack_push s)\<rparr>
              else s1\<lparr>txSar2txEng_upd_rsp := txSar2txEng_upd_rsp s @ [tx_reply junk (tx_table s i)]\<rparr>)
      | [] \<Rightarrow>
       (case txApp2txSar_app_push s of
          push # q \<Rightarrow>
            s\<lparr>txApp2txSar_app_push := q,
              tx_table := (tx_table s)(tp_sessionID push := (tx_table s (tp_sessionID push))\<lparr>te_app := tp_app push\<rparr>)\<rparr>
        | [] \<Rightarrow>
         (case rxEng2txSar_upd_req s of
            u # q \<Rightarrow>
              (let s1 = s\<lparr>rxEng2txSar_upd_req := q\<rparr>; i = rq_sessionID u
               in if rq_write u then
                    let e = rxEng_upd u (tx_table s i);
                        minWindow = min_win (rq_cong_window u) (scaled_window junk (te_win_shift e) (rq_recv_window u))
                    in s1\<lparr>tx_table := (tx_table s)(i := e),
                          txSar2txApp_ack_push := txSar2txApp_ack_push s
                            @ [\<lparr>ap_sessionID = i, ap_ackd = ucast (rq_ackd u), ap_min_window = minWindow, ap_init = False\<rparr>]\<rparr>
                  else
                    let e = tx_table s i
                    in s1\<lparr>txSar2rxEng_upd_rsp := txSar2rxEng_upd_rsp s
                           @ [\<lparr>rt_prevAck = te_ackd e, rt_nextByte = te_not_ackd e, rt_cong_window = te_cong_window e,
                               rt_slowstart_threshold = te_slowstart_threshold e, rt_count = te_count e,
                               rt_fastRetransmitted = te_fastRetransmitted e\<rparr>]\<rparr>)
          | [] \<Rightarrow> s)))"

subsection \<open>Windows\<close>

text \<open>The advertised window is the free space of the receive buffer: the 18-bit distance from
  the received to the application pointer, less one byte, scaled; it is right across the wrap of the
  sequence numbers, and an empty buffer (equal pointers) advertises all but one of its bytes.\<close>

theorem advertised_window:
  "uint (rr_windowSize (rx_reply e))
   = (uint (re_appd e) - uint (re_recvd e) - 1) mod 2 ^ 18 div 2 ^ unat (re_win_shift e) mod 2 ^ 16"
proof -
  have "uint ((re_appd e - ucast (re_recvd e)) - 1 :: u18) = (uint (re_appd e) - uint (re_recvd e) - 1) mod 2 ^ 18"
    by (simp add: uint_word_ariths unsigned_ucast_eq take_bit_eq_mod mod_simps)
  moreover have "uint (drop_bit n x) = uint x div 2 ^ n" for n and x :: u18
    using uint_lt2p [of x] by (subst unsigned_drop_bit_eq) (simp add: drop_bit_eq_div take_bit_int_eq_self)
  ultimately show ?thesis
    by (simp add: rx_reply_def Let_def unsigned_ucast_eq take_bit_eq_mod)
qed

lemma uint_scaled_window:
  assumes "unat sh \<le> 14"
  shows "uint (scaled_window 0 sh w) = uint w * 2 ^ unat sh"
proof -
  have "uint w * 2 ^ unat sh < 2 ^ 16 * 2 ^ 14"
    using assms uint_lt2p [of w] power_increasing [of "unat sh" 14 "2 :: int"]
    by (intro mult_less_le_imp_less) auto
  then have "uint w * 2 ^ unat sh < 2 ^ 30" by simp
  moreover have "uint (ucast w :: u30) = uint w"
    by (simp add: unsigned_ucast_eq take_bit_int_eq_self order_less_le_trans [OF uint_lt2p [of w]])
  moreover have "uint (push_bit n x) = take_bit 30 (uint x * 2 ^ n)" for n and x :: u30
    by (subst unsigned_push_bit_eq) (simp add: push_bit_eq_mult)
  ultimately show ?thesis
    by (simp add: scaled_window_def Let_def take_bit_int_eq_self)
qed

text \<open>The usable window reported to the transmit engine is inverted: when the data in flight fits
  the window it is 0, and when it does not fit it is the difference wrapped to 18 bits. (The window is
  the smaller of the congestion window and the receiver's window; the latter is scaled as announced
  when the register it is built in starts out as 0.)\<close>

theorem usable_window_inverted:
  assumes "unat (te_win_shift e) \<le> 14"
  shows "let r = tx_reply 0 e; w = min (uint (te_cong_window e)) (uint (te_recv_window e) * 2 ^ unat (te_win_shift e));
             used = (uint (te_not_ackd e) - uint (te_ackd e)) mod 2 ^ 18
    in uint (tr_usedLength r) = used
       \<and> uint (tr_usableWindow r) = (if used \<le> w then 0 else 2 ^ 18 + w - used)"
proof -
  define used where "used = (ucast (te_not_ackd e - te_ackd e) :: u18)"
  define m where "m = min_win (te_cong_window e) (scaled_window 0 (te_win_shift e) (te_recv_window e))"
  have u: "uint used = (uint (te_not_ackd e) - uint (te_ackd e)) mod 2 ^ 18"
    by (simp add: used_def unsigned_ucast_eq take_bit_eq_mod uint_word_ariths mod_mod_cancel)
  have c: "uint (ucast (te_cong_window e) :: u30) = uint (te_cong_window e)"
    by (simp add: unsigned_ucast_eq take_bit_int_eq_self order_less_le_trans [OF uint_lt2p])
  have m: "uint m = min (uint (te_cong_window e)) (uint (te_recv_window e) * 2 ^ unat (te_win_shift e))"
    using uint_scaled_window [OF assms, of "te_recv_window e"] uint_lt2p [of "te_cong_window e"]
    by (auto simp: m_def min_win_def word_less_def c min_def unsigned_ucast_eq take_bit_int_eq_self)
  have "uint (if m < used then m - used else 0) = (if uint used \<le> uint m then 0 else 2 ^ 18 + uint m - uint used)"
    using uint_lt2p [of used] uint_lt2p [of m]
    by (auto simp: word_less_def uint_sub_if')
  then show ?thesis
    unfolding tx_reply_def used_def [symmetric] m_def [symmetric] Let_def
    by (simp add: u m)
qed

text \<open>A connection with 1000 bytes in flight and windows of 20000 and 30000 bytes.\<close>

definition sample_entry :: txSarEntry where
  "sample_entry = \<lparr>te_ackd = 5000, te_not_ackd = 6000, te_recv_window = 30000, te_win_shift = 0,
     te_cong_window = 20000, te_slowstart_threshold = 0xFFFF, te_app = 6000, te_count = 0,
     te_fastRetransmitted = False, te_finReady = False, te_finSent = False\<rparr>"

theorem usable_window_inverted_witness:
  "uint (tr_usedLength (tx_reply 0 sample_entry)) = 1000 \<and> uint (tr_usableWindow (tx_reply 0 sample_entry)) = 0"
  using usable_window_inverted [of sample_entry] by (simp add: sample_entry_def Let_def)

end
