(* ===== verification/Toe_Timers.thy ===== *)
theory Toe_Timers
  imports Toe_Types
begin

text \<open>
  The session timers of the TCP engine: retransmission (\<^verbatim>\<open>toe/retransmit_timer/retransmit_timer.cpp\<close>),
  window probes (\<^verbatim>\<open>toe/probe_timer/probe_timer.cpp\<close>) and closing (\<^verbatim>\<open>toe/close_timer/close_timer.cpp\<close>). Each
  call of a timer handles one request or looks at one entry of its table.
\<close>

subsection \<open>Retransmission timer\<close>

record retransmitTimerEntry =
  rte_time :: u32
  rte_retries :: u3
  rte_active :: bool
  rte_type :: eventType

record rtTimer =
  clearRetransmitTimer :: "rxRetransmitTimerUpdate stream"
  setRetransmitTimer :: "txRetransmitTimerSet stream"
  rt_events :: "event stream"
  rt_releaseState :: "u16 stream"
  rt_rxApp_notification :: "appNotification stream"
  rt_txApp_notification :: "openStatus stream"
  retransmitTimerTable :: "u16 \<Rightarrow> retransmitTimerEntry"
  rt_position :: u16
  rt_waitForWrite :: bool
  rt_prevPosition :: u16
  rt_update :: rxRetransmitTimerUpdate

definition rt_init :: rtTimer where
  "rt_init = \<lparr>clearRetransmitTimer = [], setRetransmitTimer = [], rt_events = [], rt_releaseState = [],
     rt_rxApp_notification = [], rt_txApp_notification = [],
     retransmitTimerTable = (\<lambda>_. \<lparr>rte_time = 0, rte_retries = 0, rte_active = False, rte_type = TX\<rparr>),
     rt_position = 0, rt_waitForWrite = False, rt_prevPosition = 0,
     rt_update = \<lparr>ru_sessionID = 0, ru_stop = False\<rparr>\<rparr>"

text \<open>The write of an acknowledged session, one call after its request was read.\<close>

definition rt_clear_entry :: "toeCfg \<Rightarrow> rxRetransmitTimerUpdate \<Rightarrow> retransmitTimerEntry \<Rightarrow> retransmitTimerEntry" where
  "rt_clear_entry c u e =
     (if \<not> ru_stop u then e\<lparr>rte_time := TIME_1s c, rte_retries := 0\<rparr>
      else e\<lparr>rte_time := 0, rte_active := False, rte_retries := 0\<rparr>)"

text \<open>Arming the timer: the interval grows with the number of retries.\<close>

definition rt_set_entry :: "toeCfg \<Rightarrow> eventType \<Rightarrow> retransmitTimerEntry \<Rightarrow> retransmitTimerEntry" where
  "rt_set_entry c t e =
     (let time = (if rte_active e then rte_time e
                  else if rte_retries e = 0 then TIME_1s c
                  else if rte_retries e = 1 then TIME_5s c
                  else if rte_retries e = 2 then TIME_10s c
                  else if rte_retries e = 3 then TIME_15s c
                  else TIME_30s c)
      in e\<lparr>rte_type := t, rte_time := time, rte_active := True\<rparr>)"

text \<open>Looking at an entry: count down, fire an event, or give the session up.\<close>

definition rt_check :: "bool \<Rightarrow> u16 \<Rightarrow> rtTimer \<Rightarrow> rtTimer" where
  "rt_check full currID s =
     (let e = retransmitTimerTable s currID in
      if rte_active e then
        if rte_time e > 0 then
          s\<lparr>retransmitTimerTable := (retransmitTimerTable s)(currID := e\<lparr>rte_time := rte_time e - 1\<rparr>)\<rparr>
        else if \<not> full then
          let e1 = e\<lparr>rte_time := 0, rte_active := False\<rparr> in
          if rte_retries e < 4 then
            s\<lparr>retransmitTimerTable := (retransmitTimerTable s)(currID := e1\<lparr>rte_retries := rte_retries e + 1\<rparr>),
              rt_events := rt_events s @ [mk_event (rte_type e) currID (rte_retries e + 1)]\<rparr>
          else
            let s1 = s\<lparr>retransmitTimerTable := (retransmitTimerTable s)(currID := e1\<lparr>rte_retries := 0\<rparr>),
                       rt_releaseState := rt_releaseState s @ [currID]\<rparr> in
            if rte_type e = SYN then
              s1\<lparr>rt_txApp_notification := rt_txApp_notification s1
                  @ [\<lparr>os_sessionID = currID, os_success = 0, os_ip = 0, os_port = 0\<rparr>]\<rparr>
            else
              s1\<lparr>rt_rxApp_notification := rt_rxApp_notification s1
                  @ [\<lparr>an_sessionID = currID, an_length = 0, an_ipAddress = 0, an_dstPort = 0, an_closed = True\<rparr>]\<rparr>
        else s
      else s)"

text \<open>\<open>full\<close> is the answer of \<open>rtTimer2eventEng_setEvent.full()\<close>.\<close>

definition retransmit_timer :: "toeCfg \<Rightarrow> bool \<Rightarrow> rtTimer \<Rightarrow> rtTimer" where
  "retransmit_timer c full s =
     (if rt_waitForWrite s \<and> ru_sessionID (rt_update s) \<noteq> rt_prevPosition s then
        let i = ru_sessionID (rt_update s)
        in s\<lparr>retransmitTimerTable := (retransmitTimerTable s)
                (i := rt_clear_entry c (rt_update s) (retransmitTimerTable s i)),
             rt_waitForWrite := False\<rparr>
      else if clearRetransmitTimer s \<noteq> [] \<and> \<not> rt_waitForWrite s then
        s\<lparr>rt_update := hd (clearRetransmitTimer s), clearRetransmitTimer := tl (clearRetransmitTimer s),
          rt_waitForWrite := True\<rparr>
      else
        (case setRetransmitTimer s of
           st # q \<Rightarrow>
             (let currID = rs_sessionID st; e = retransmitTimerTable s currID
              in s\<lparr>setRetransmitTimer := q,
                   rt_position := (if uint currID - 3 < uint (rt_position s) \<and> rt_position s \<le> currID
                                   then rt_position s + 5 else rt_position s),
                   retransmitTimerTable := (retransmitTimerTable s)(currID := rt_set_entry c (rs_type st) e),
                   rt_prevPosition := currID\<rparr>)
         | [] \<Rightarrow>
             (let currID = rt_position s; p = rt_position s + 1
              in (rt_check full currID s)
                   \<lparr>rt_position := (if p \<ge> MAX_SESSIONS c then 0 else p), rt_prevPosition := currID\<rparr>)))"

subsection \<open>Probe timer\<close>

record timerEntry =
  tm_time :: u32
  tm_active :: bool

record probeTimer =
  clearProbeTimer :: "u16 stream"
  setProbeTimer :: "u16 stream"
  pt_events :: "event stream"
  probeTimerTable :: "u16 \<Rightarrow> timerEntry"
  pt_currSessionID :: u16
  pt_updSessionID :: u16
  pt_prevSessionID :: u16
  pt_WaitForWrite :: bool

text \<open>Looking at an entry; a cleared timer resumes at once.\<close>

definition pt_check :: "bool \<Rightarrow> bool \<Rightarrow> u16 \<Rightarrow> probeTimer \<Rightarrow> probeTimer" where
  "pt_check full fastResume checkID s =
     (let e = probeTimerTable s checkID in
      if tm_active e \<and> \<not> full then
        if tm_time e = 0 \<or> fastResume then
          s\<lparr>probeTimerTable := (probeTimerTable s)(checkID := e\<lparr>tm_time := 0, tm_active := False\<rparr>),
            pt_events := pt_events s @ [mk_event RT checkID 0]\<rparr>
        else s\<lparr>probeTimerTable := (probeTimerTable s)(checkID := e\<lparr>tm_time := tm_time e - 1\<rparr>)\<rparr>
      else s)"

definition probe_timer :: "toeCfg \<Rightarrow> bool \<Rightarrow> probeTimer \<Rightarrow> probeTimer" where
  "probe_timer c full s =
     (if pt_WaitForWrite s then
        let s1 = (if pt_updSessionID s \<noteq> pt_prevSessionID s
                  then s\<lparr>probeTimerTable := (probeTimerTable s)
                           (pt_updSessionID s := \<lparr>tm_time = TIME_50ms c, tm_active = True\<rparr>),
                         pt_WaitForWrite := False\<rparr>
                  else s)
        in s1\<lparr>pt_prevSessionID := pt_prevSessionID s - 1\<rparr>
      else if setProbeTimer s \<noteq> [] then
        s\<lparr>pt_updSessionID := hd (setProbeTimer s), setProbeTimer := tl (setProbeTimer s), pt_WaitForWrite := True\<rparr>
      else
        (case clearProbeTimer s of
           checkID # q \<Rightarrow> (pt_check full True checkID (s\<lparr>clearProbeTimer := q\<rparr>))\<lparr>pt_prevSessionID := checkID\<rparr>
         | [] \<Rightarrow>
             (let checkID = pt_currSessionID s; p = pt_currSessionID s + 1
              in (pt_check full False checkID s)
                   \<lparr>pt_currSessionID := (if p = MAX_SESSIONS c then 0 else p), pt_prevSessionID := checkID\<rparr>)))"

subsection \<open>Close timer\<close>

record closeTimer =
  setCloseTimer :: "u16 stream"
  ct_releaseState :: "u16 stream"
  closeTimerTable :: "u16 \<Rightarrow> timerEntry"
  ct_currSessionID :: u16
  ct_setSessionID :: u16
  ct_prevSessionID :: u16
  ct_waitForWrite :: bool

definition ct_check :: "u16 \<Rightarrow> closeTimer \<Rightarrow> closeTimer" where
  "ct_check i s =
     (let e = closeTimerTable s i in
      if tm_active e then
        if tm_time e > 0
        then s\<lparr>closeTimerTable := (closeTimerTable s)(i := e\<lparr>tm_time := tm_time e - 1\<rparr>)\<rparr>
        else s\<lparr>closeTimerTable := (closeTimerTable s)(i := e\<lparr>tm_time := 0, tm_active := False\<rparr>),
               ct_releaseState := ct_releaseState s @ [i]\<rparr>
      else s)"

definition close_timer :: "toeCfg \<Rightarrow> closeTimer \<Rightarrow> closeTimer" where
  "close_timer c s =
     (if ct_waitForWrite s then
        let s1 = (if ct_setSessionID s \<noteq> ct_prevSessionID s
                  then s\<lparr>closeTimerTable := (closeTimerTable s)
                           (ct_setSessionID s := \<lparr>tm_time = TIME_60s c, tm_active = True\<rparr>),
                         ct_waitForWrite := False\<rparr>
                  else s)
        in s1\<lparr>ct_prevSessionID := ct_prevSessionID s - 1\<rparr>
      else if setCloseTimer s \<noteq> [] then
        s\<lparr>ct_setSessionID := hd (setCloseTimer s), setCloseTimer := tl (setCloseTimer s), ct_waitForWrite := True\<rparr>
      else
        (let i = ct_currSessionID s; p = i + 1
         in (ct_check i s)\<lparr>ct_prevSessionID := i, ct_currSessionID := (if p = MAX_SESSIONS c then 0 else p)\<rparr>))"

subsection \<open>Rounds\<close>

text \<open>The slot of a session in the retransmission timer: its entry, the events fired for it and the
  number of times it was given up.\<close>

type_synonym rtSlot = "retransmitTimerEntry \<times> event list \<times> u16 list"

definition rt_slot :: "rtTimer \<Rightarrow> nat \<Rightarrow> rtSlot" where
  "rt_slot s i = (retransmitTimerTable s (of_nat i), filter (\<lambda>e. ev_sessionID e = of_nat i) (rt_events s),
                  filter (\<lambda>x. x = of_nat i) (rt_releaseState s))"

fun rt_upd :: "nat \<Rightarrow> rtSlot \<Rightarrow> rtSlot" where
  "rt_upd i (e, evs, rel) =
     (if \<not> rte_active e then (e, evs, rel)
      else if rte_time e > 0 then (e\<lparr>rte_time := rte_time e - 1\<rparr>, evs, rel)
      else if rte_retries e < 4 then
        (e\<lparr>rte_time := 0, rte_active := False, rte_retries := rte_retries e + 1\<rparr>,
         evs @ [mk_event (rte_type e) (of_nat i) (rte_retries e + 1)], rel)
      else (e\<lparr>rte_time := 0, rte_active := False, rte_retries := 0\<rparr>, evs, rel @ [of_nat i]))"

definition rt_idle :: "toeCfg \<Rightarrow> rtTimer \<Rightarrow> bool" where
  "rt_idle c s \<longleftrightarrow> \<not> rt_waitForWrite s \<and> clearRetransmitTimer s = [] \<and> setRetransmitTimer s = []
     \<and> unat (rt_position s) < unat (MAX_SESSIONS c)"

lemma rt_check_frame [simp]:
  "rt_waitForWrite (rt_check f i s) = rt_waitForWrite s" "clearRetransmitTimer (rt_check f i s) = clearRetransmitTimer s"
  "setRetransmitTimer (rt_check f i s) = setRetransmitTimer s" "rt_position (rt_check f i s) = rt_position s"
  by (simp_all add: rt_check_def Let_def)

lemma rt_idle_call:
  "rt_idle c s \<Longrightarrow> retransmit_timer c full s = (rt_check full (rt_position s) s)
     \<lparr>rt_position := (if rt_position s + 1 \<ge> MAX_SESSIONS c then 0 else rt_position s + 1), rt_prevPosition := rt_position s\<rparr>"
  by (simp add: rt_idle_def retransmit_timer_def Let_def)

lemma rt_slot_check:
  "rt_slot (rt_check False j s) i = (if of_nat i = j then rt_upd i (rt_slot s i) else rt_slot s i)"
  by (auto simp: rt_slot_def rt_check_def Let_def mk_event_def)

interpretation rt: sweep "unat (MAX_SESSIONS c)" "\<lambda>s. unat (rt_position s)" "retransmit_timer c False"
  rt_slot rt_upd "rt_idle c" for c
proof
  fix s i
  assume idle: "rt_idle c s"
  then have less: "unat (rt_position s) < unat (MAX_SESSIONS c)" by (simp add: rt_idle_def)
  then show "unat (rt_position s) < unat (MAX_SESSIONS c)" .
  note Suc = unat_Suc_below [OF less]
  show p: "unat (rt_position (retransmit_timer c False s))
      = (if unat (rt_position s) + 1 = unat (MAX_SESSIONS c) then 0 else unat (rt_position s) + 1)"
    using less Suc by (auto simp: rt_idle_call [OF idle] word_le_nat_alt)
  show "rt_idle c (retransmit_timer c False s)"
    using idle p less Suc by (auto simp: rt_idle_def rt_idle_call [OF idle] word_le_nat_alt)
  assume i: "i < unat (MAX_SESSIONS c)"
  show "rt_slot (retransmit_timer c False s) i
      = (if i = unat (rt_position s) then rt_upd i (rt_slot s i) else rt_slot s i)"
    using rt_slot_check [of "rt_position s" s i] of_nat_eq_below [OF i]
    by (simp add: rt_idle_call [OF idle] rt_slot_def)
qed

lemma rt_upd_counts:
  assumes "rte_active e" "k \<le> unat (rte_time e)"
  shows "(rt_upd i ^^ k) (e, evs, rel) = (e\<lparr>rte_time := rte_time e - of_nat k\<rparr>, evs, rel)"
  using assms(2)
proof (induction k)
  case (Suc k)
  then have k: "k < unat (rte_time e)" by simp
  have "unat (of_nat k :: u32) = k"
    using k by (intro unat_of_nat_below [of k "rte_time e"]) simp
  then have "unat (rte_time e - of_nat k) = unat (rte_time e) - k"
    using k by (simp add: unat_sub word_le_nat_alt)
  then have "rte_time e - of_nat k > 0" using k by (simp add: word_gt_0_no word_less_nat_alt)
  then show ?case using Suc assms(1) by (simp add: algebra_simps)
qed (simp add: assms)

lemma rt_upd_off: "\<not> rte_active e \<Longrightarrow> (rt_upd i ^^ k) (e, evs, rel) = (e, evs, rel)"
  by (induction k) simp_all

text \<open>C36. Retransmissions happen: an armed timer that is left alone fires after its interval, not earlier, exactly
  once and with the next retry number, and is disarmed; after four retries the session is given up
  instead. The interval is counted in rounds of calls over all sessions in which no request comes in and the
  queue of events is not full, with the scan position inside the table at the beginning: in the first rounds, as many as the entry says, the timer counts down and sends
  nothing, in the next round it fires, and in all later ones nothing more happens.\<close>

theorem retransmission_fires:
  assumes "rt_idle c s" "i < unat (MAX_SESSIONS c)" "rte_active (retransmitTimerTable s (of_nat i))"
  shows "let e = retransmitTimerTable s (of_nat i); evs = fst (snd (rt_slot s i)); rel = snd (snd (rt_slot s i));
             s' = (retransmit_timer c False ^^ (k * unat (MAX_SESSIONS c))) s
    in rt_slot s' i =
         (if k \<le> unat (rte_time e) then (e\<lparr>rte_time := rte_time e - of_nat k\<rparr>, evs, rel)
          else if rte_retries e < 4
          then (e\<lparr>rte_time := 0, rte_active := False, rte_retries := rte_retries e + 1\<rparr>,
                evs @ [mk_event (rte_type e) (of_nat i) (rte_retries e + 1)], rel)
          else (e\<lparr>rte_time := 0, rte_active := False, rte_retries := 0\<rparr>, evs, rel @ [of_nat i]))"
proof -
  define e where "e = retransmitTimerTable s (of_nat i)"
  obtain evs rel where sl: "rt_slot s i = (e, evs, rel)" by (simp add: rt_slot_def e_def)
  have r: "rt_slot ((retransmit_timer c False ^^ (k * unat (MAX_SESSIONS c))) s) i = (rt_upd i ^^ k) (e, evs, rel)"
    using rt.slot_rounds [OF assms(1,2), of k] by (simp add: sl)
  have a: "rte_active e" using assms(3) by (simp add: e_def)
  show ?thesis
  proof (cases "k \<le> unat (rte_time e)")
    case True
    then show ?thesis using r rt_upd_counts [OF a True] by (simp add: sl e_def [symmetric] Let_def)
  next
    case False
    then obtain j where k: "k = j + Suc (unat (rte_time e))" by (metis add.commute less_iff_Suc_add add_Suc_right not_le)
    have fire: "(rt_upd i ^^ Suc (unat (rte_time e))) (e, evs, rel) = rt_upd i (e\<lparr>rte_time := 0\<rparr>, evs, rel)"
      using rt_upd_counts [OF a order_refl] by simp
    have "(rt_upd i ^^ k) (e, evs, rel) =
        (if rte_retries e < 4
         then (e\<lparr>rte_time := 0, rte_active := False, rte_retries := rte_retries e + 1\<rparr>,
               evs @ [mk_event (rte_type e) (of_nat i) (rte_retries e + 1)], rel)
         else (e\<lparr>rte_time := 0, rte_active := False, rte_retries := 0\<rparr>, evs, rel @ [of_nat i]))"
      unfolding k funpow_add comp_apply fire using a by (simp add: rt_upd_off)
    then show ?thesis using r False by (simp add: sl e_def [symmetric] Let_def)
  qed
qed

theorem retransmission_fires_witness:
  "let e = \<lparr>rte_time = 2, rte_retries = 3, rte_active = True, rte_type = SYN\<rparr>;
       s = rt_init\<lparr>retransmitTimerTable := (\<lambda>_. \<lparr>rte_time = 0, rte_retries = 0, rte_active = False, rte_type = TX\<rparr>)(1 := e)\<rparr>
   in rt_slot ((retransmit_timer small_cfg False ^^ 8) s) 1 = (e\<lparr>rte_time := 0\<rparr>, [], [])
      \<and> rt_slot ((retransmit_timer small_cfg False ^^ 12) s) 1
        = (e\<lparr>rte_time := 0, rte_active := False, rte_retries := 4\<rparr>, [mk_event SYN 1 4], [])"
proof -
  let ?e = "\<lparr>rte_time = 2, rte_retries = 3, rte_active = True, rte_type = SYN\<rparr>"
  let ?s = "rt_init\<lparr>retransmitTimerTable := (\<lambda>_. \<lparr>rte_time = 0, rte_retries = 0, rte_active = False, rte_type = TX\<rparr>)(1 := ?e)\<rparr>"
  have idle: "rt_idle small_cfg ?s" by (simp add: rt_idle_def rt_init_def small_cfg_def)
  have n: "unat (MAX_SESSIONS small_cfg) = 4" "rt_slot ?s 1 = (?e, [], [])"
    by (simp_all add: small_cfg_def rt_slot_def rt_init_def)
  from retransmission_fires [OF idle, of 1 2] retransmission_fires [OF idle, of 1 3] n show ?thesis
    by (simp add: Let_def rt_slot_def)
qed

text \<open>The scan position leaves the table: with the position at the last session, arming the timer
  of that session moves the position five entries on, past the end, and the next idle call reads
  and writes the entry there. This happens after a plain round of idle calls, for every number of
  sessions a 16-bit position can pass by five.\<close>

theorem retransmit_position_out_of_range:
  assumes "0 < n" "n + 5 < 2 ^ 16" "unat (MAX_SESSIONS c) = n"
  shows "let s = (retransmit_timer c False ^^ (n - 1)) rt_init;
             s1 = retransmit_timer c False (s\<lparr>setRetransmitTimer := [\<lparr>rs_sessionID = of_nat (n - 1), rs_type = RT\<rparr>]\<rparr>);
             s2 = retransmit_timer c False s1
    in unat (rt_position s1) = n + 4 \<and> unat (rt_prevPosition s2) = n + 4 \<and> n \<le> unat (rt_prevPosition s2)"
proof -
  define s where "s = (retransmit_timer c False ^^ (n - 1)) rt_init"
  have i0: "rt_idle c rt_init" using assms by (simp add: rt_idle_def rt_init_def)
  have idle: "rt_idle c s" unfolding s_def by (rule rt.idle_ticks [OF i0])
  have "unat (rt_position s) = n - 1"
    using rt.pos_ticks [OF i0, of "n - 1"] assms(1,3) by (simp add: s_def rt_init_def)
  moreover have "unat (of_nat (n - 1) :: u16) = n - 1"
    using assms(3) by (intro unat_of_nat_below [of _ "MAX_SESSIONS c"]) simp
  ultimately have pos: "rt_position s = of_nat (n - 1)" by (simp add: word_unat_eq_iff)
  let ?s1 = "retransmit_timer c False (s\<lparr>setRetransmitTimer := [\<lparr>rs_sessionID = of_nat (n - 1), rs_type = RT\<rparr>]\<rparr>)"
  have p1: "rt_position ?s1 = of_nat (n - 1) + 5"
    using idle by (simp add: retransmit_timer_def rt_idle_def pos Let_def)
  have "of_nat (n - 1) + 5 = (of_nat (n + 4) :: u16)"
    using assms(1) by (simp add: of_nat_diff)
  then have u: "unat (rt_position ?s1) = n + 4"
    using assms(2) unfolding p1 by (simp only: unat_of_nat) simp
  have "rt_prevPosition (retransmit_timer c False ?s1) = rt_position ?s1"
    using idle by (simp add: retransmit_timer_def rt_idle_def Let_def)
  with u show ?thesis by (simp add: s_def Let_def)
qed

theorem retransmit_position_out_of_range_witness:
  "let s = (retransmit_timer small_cfg False ^^ 3) rt_init;
       s1 = retransmit_timer small_cfg False (s\<lparr>setRetransmitTimer := [\<lparr>rs_sessionID = 3, rs_type = RT\<rparr>]\<rparr>)
   in unat (rt_position s1) = 8"
  using retransmit_position_out_of_range [of 4 small_cfg] by (simp add: small_cfg_def Let_def)

subsection \<open>Rounds of the probe and close timers\<close>

definition pt_slot :: "probeTimer \<Rightarrow> nat \<Rightarrow> timerEntry \<times> event list" where
  "pt_slot s i = (probeTimerTable s (of_nat i), filter (\<lambda>e. ev_sessionID e = of_nat i) (pt_events s))"

definition ct_slot :: "closeTimer \<Rightarrow> nat \<Rightarrow> timerEntry \<times> u16 list" where
  "ct_slot s i = (closeTimerTable s (of_nat i), filter (\<lambda>x. x = of_nat i) (ct_releaseState s))"

text \<open>Both count an entry down and put a message out when it reaches 0.\<close>

fun count_upd :: "(nat \<Rightarrow> 'm) \<Rightarrow> nat \<Rightarrow> timerEntry \<times> 'm list \<Rightarrow> timerEntry \<times> 'm list" where
  "count_upd msg i (e, ms) =
     (if \<not> tm_active e then (e, ms)
      else if tm_time e > 0 then (e\<lparr>tm_time := tm_time e - 1\<rparr>, ms)
      else (e\<lparr>tm_time := 0, tm_active := False\<rparr>, ms @ [msg i]))"

definition pt_idle :: "toeCfg \<Rightarrow> probeTimer \<Rightarrow> bool" where
  "pt_idle c s \<longleftrightarrow> \<not> pt_WaitForWrite s \<and> setProbeTimer s = [] \<and> clearProbeTimer s = []
     \<and> unat (pt_currSessionID s) < unat (MAX_SESSIONS c)"

definition ct_idle :: "toeCfg \<Rightarrow> closeTimer \<Rightarrow> bool" where
  "ct_idle c s \<longleftrightarrow> \<not> ct_waitForWrite s \<and> setCloseTimer s = [] \<and> unat (ct_currSessionID s) < unat (MAX_SESSIONS c)"

lemma pt_idle_call:
  "pt_idle c s \<Longrightarrow> probe_timer c False s = (pt_check False False (pt_currSessionID s) s)
     \<lparr>pt_currSessionID := (if pt_currSessionID s + 1 = MAX_SESSIONS c then 0 else pt_currSessionID s + 1),
      pt_prevSessionID := pt_currSessionID s\<rparr>"
  by (simp add: pt_idle_def probe_timer_def Let_def)

lemma ct_idle_call:
  "ct_idle c s \<Longrightarrow> close_timer c s = (ct_check (ct_currSessionID s) s)
     \<lparr>ct_prevSessionID := ct_currSessionID s,
      ct_currSessionID := (if ct_currSessionID s + 1 = MAX_SESSIONS c then 0 else ct_currSessionID s + 1)\<rparr>"
  by (simp add: ct_idle_def close_timer_def Let_def)

lemma pt_slot_check:
  "pt_slot (pt_check False False j s) i
   = (if of_nat i = j then count_upd (\<lambda>i. mk_event RT (of_nat i) 0) i (pt_slot s i) else pt_slot s i)"
  by (auto simp: pt_slot_def pt_check_def Let_def mk_event_def word_neq_0_conv)

lemma ct_slot_check:
  "ct_slot (ct_check j s) i = (if of_nat i = j then count_upd of_nat i (ct_slot s i) else ct_slot s i)"
  by (auto simp: ct_slot_def ct_check_def Let_def)

lemma check_frame [simp]:
  "pt_WaitForWrite (pt_check f g i p) = pt_WaitForWrite p" "setProbeTimer (pt_check f g i p) = setProbeTimer p"
  "clearProbeTimer (pt_check f g i p) = clearProbeTimer p" "ct_waitForWrite (ct_check i s) = ct_waitForWrite s"
  "setCloseTimer (ct_check i s) = setCloseTimer s"
  by (simp_all add: pt_check_def ct_check_def Let_def)

lemma wrap_position:
  assumes "unat p < unat (m :: u16)"
  shows "unat (if p + 1 = m then 0 else p + 1) = (if unat p + 1 = unat m then 0 else unat p + 1)"
  using unat_Suc_below [OF assms] by (auto simp: word_unat_eq_iff)

interpretation pt: sweep "unat (MAX_SESSIONS c)" "\<lambda>s. unat (pt_currSessionID s)" "probe_timer c False"
  pt_slot "count_upd (\<lambda>i. mk_event RT (of_nat i) 0)" "pt_idle c" for c
proof
  fix s i
  assume idle: "pt_idle c s"
  then show less: "unat (pt_currSessionID s) < unat (MAX_SESSIONS c)" by (simp add: pt_idle_def)
  show p: "unat (pt_currSessionID (probe_timer c False s))
      = (if unat (pt_currSessionID s) + 1 = unat (MAX_SESSIONS c) then 0 else unat (pt_currSessionID s) + 1)"
    using wrap_position [OF less] by (simp add: pt_idle_call [OF idle])
  then show "pt_idle c (probe_timer c False s)"
    using idle less by (auto simp: pt_idle_def pt_idle_call [OF idle] split: if_splits)
  assume i: "i < unat (MAX_SESSIONS c)"
  show "pt_slot (probe_timer c False s) i
      = (if i = unat (pt_currSessionID s) then count_upd (\<lambda>i. mk_event RT (of_nat i) 0) i (pt_slot s i) else pt_slot s i)"
    using pt_slot_check [of "pt_currSessionID s" s i] of_nat_eq_below [OF i]
    by (simp add: pt_idle_call [OF idle] pt_slot_def)
qed

interpretation ct: sweep "unat (MAX_SESSIONS c)" "\<lambda>s. unat (ct_currSessionID s)" "close_timer c"
  ct_slot "count_upd of_nat" "ct_idle c" for c
proof
  fix s i
  assume idle: "ct_idle c s"
  then show less: "unat (ct_currSessionID s) < unat (MAX_SESSIONS c)" by (simp add: ct_idle_def)
  show p: "unat (ct_currSessionID (close_timer c s))
      = (if unat (ct_currSessionID s) + 1 = unat (MAX_SESSIONS c) then 0 else unat (ct_currSessionID s) + 1)"
    using wrap_position [OF less] by (simp add: ct_idle_call [OF idle])
  then show "ct_idle c (close_timer c s)"
    using idle less by (auto simp: ct_idle_def ct_idle_call [OF idle] split: if_splits)
  assume i: "i < unat (MAX_SESSIONS c)"
  show "ct_slot (close_timer c s) i = (if i = unat (ct_currSessionID s) then count_upd of_nat i (ct_slot s i) else ct_slot s i)"
    using ct_slot_check [of "ct_currSessionID s" s i] of_nat_eq_below [OF i]
    by (simp add: ct_idle_call [OF idle] ct_slot_def)
qed

lemma count_upd_counts:
  assumes "tm_active e" "k \<le> unat (tm_time e)"
  shows "(count_upd msg i ^^ k) (e, ms) = (e\<lparr>tm_time := tm_time e - of_nat k\<rparr>, ms)"
  using assms(2)
proof (induction k)
  case (Suc k)
  then have k: "k < unat (tm_time e)" by simp
  have "unat (of_nat k :: u32) = k" using k by (intro unat_of_nat_below [of k "tm_time e"]) simp
  then have "unat (tm_time e - of_nat k) = unat (tm_time e) - k"
    using k by (simp add: unat_sub word_le_nat_alt)
  then have "tm_time e - of_nat k > 0" using k by (simp add: word_less_nat_alt)
  then show ?case using Suc assms(1) by (simp add: algebra_simps)
qed (simp add: assms)

lemma count_upd_fires:
  assumes "tm_active e"
  shows "(count_upd msg i ^^ (unat (tm_time e) + 1 + k)) (e, ms) = (e\<lparr>tm_time := 0, tm_active := False\<rparr>, ms @ [msg i])"
proof -
  have "(count_upd msg i ^^ (unat (tm_time e) + 1)) (e, ms) = (e\<lparr>tm_time := 0, tm_active := False\<rparr>, ms @ [msg i])"
    using count_upd_counts [OF assms order.refl, of msg i ms] assms by simp
  moreover have "(count_upd msg i ^^ k) (e\<lparr>tm_time := 0, tm_active := False\<rparr>, ms') = (e\<lparr>tm_time := 0, tm_active := False\<rparr>, ms')" for ms'
    by (induction k) auto
  ultimately show ?thesis by (simp only: add.commute [of _ k] funpow_add o_apply)
qed

lemma timer_off: "e\<lparr>tm_time := 0, tm_active := False\<rparr> = \<lparr>tm_time = 0, tm_active = False\<rparr>"
  by (cases e) simp

lemma close_fires:
  assumes "ct_idle c s" "i < unat (MAX_SESSIONS c)" "tm_active (closeTimerTable s (of_nat i))"
  shows "ct_slot ((close_timer c ^^ ((unat (tm_time (closeTimerTable s (of_nat i))) + 1 + k) * unat (MAX_SESSIONS c))) s) i
    = (\<lparr>tm_time = 0, tm_active = False\<rparr>, snd (ct_slot s i) @ [of_nat i])"
  unfolding ct.slot_rounds [OF assms(1,2)]
  using count_upd_fires [OF assms(3)] by (simp only: ct_slot_def snd_conv timer_off)

lemma probe_fires:
  assumes "pt_idle c s" "i < unat (MAX_SESSIONS c)" "tm_active (probeTimerTable s (of_nat i))"
  shows "pt_slot ((probe_timer c False ^^ ((unat (tm_time (probeTimerTable s (of_nat i))) + 1 + k) * unat (MAX_SESSIONS c))) s) i
    = (\<lparr>tm_time = 0, tm_active = False\<rparr>, snd (pt_slot s i) @ [mk_event RT (of_nat i) 0])"
  unfolding pt.slot_rounds [OF assms(1,2)]
  using count_upd_fires [OF assms(3)] by (simp only: pt_slot_def snd_conv timer_off)

text \<open>The close and probe timers fire exactly once: after the interval, and any number of rounds
  more, the session was released to the state table (the probe event was sent) one time and the
  timer is off.\<close>

theorem close_and_probe_fire_once:
  assumes "i < unat (MAX_SESSIONS c)"
    and "ct_idle c s" "tm_active (closeTimerTable s (of_nat i))"
    and "pt_idle c q" "tm_active (probeTimerTable q (of_nat i))"
  shows "ct_slot ((close_timer c ^^ ((unat (tm_time (closeTimerTable s (of_nat i))) + 1 + k) * unat (MAX_SESSIONS c))) s) i
      = (\<lparr>tm_time = 0, tm_active = False\<rparr>, snd (ct_slot s i) @ [of_nat i])
    \<and> pt_slot ((probe_timer c False ^^ ((unat (tm_time (probeTimerTable q (of_nat i))) + 1 + k) * unat (MAX_SESSIONS c))) q) i
      = (\<lparr>tm_time = 0, tm_active = False\<rparr>, snd (pt_slot q i) @ [mk_event RT (of_nat i) 0])"
  using close_fires [OF assms(2,1,3)] probe_fires [OF assms(4,1,5)] by blast

theorem close_and_probe_fire_once_witness:
  "let s = \<lparr>setCloseTimer = [], ct_releaseState = [], closeTimerTable = (\<lambda>_. \<lparr>tm_time = 2, tm_active = True\<rparr>),
             ct_currSessionID = 1, ct_setSessionID = 0, ct_prevSessionID = 0, ct_waitForWrite = False\<rparr>;
       q = \<lparr>clearProbeTimer = [], setProbeTimer = [], pt_events = [], probeTimerTable = (\<lambda>_. \<lparr>tm_time = 1, tm_active = True\<rparr>),
             pt_currSessionID = 0, pt_updSessionID = 0, pt_prevSessionID = 0, pt_WaitForWrite = False\<rparr>
   in ct_slot ((close_timer small_cfg ^^ 12) s) 3 = (\<lparr>tm_time = 0, tm_active = False\<rparr>, [3])
      \<and> pt_slot ((probe_timer small_cfg False ^^ 8) q) 3 = (\<lparr>tm_time = 0, tm_active = False\<rparr>, [mk_event RT 3 0])"
proof -
  let ?s = "\<lparr>setCloseTimer = [], ct_releaseState = [], closeTimerTable = (\<lambda>_. \<lparr>tm_time = 2, tm_active = True\<rparr>),
             ct_currSessionID = 1, ct_setSessionID = 0, ct_prevSessionID = 0, ct_waitForWrite = False\<rparr>"
  let ?q = "\<lparr>clearProbeTimer = [], setProbeTimer = [], pt_events = [], probeTimerTable = (\<lambda>_. \<lparr>tm_time = 1, tm_active = True\<rparr>),
             pt_currSessionID = 0, pt_updSessionID = 0, pt_prevSessionID = 0, pt_WaitForWrite = False\<rparr>"
  have n: "unat (MAX_SESSIONS small_cfg) = 4" by (simp add: small_cfg_def)
  have "ct_idle small_cfg ?s" "pt_idle small_cfg ?q" by (simp_all add: ct_idle_def pt_idle_def n)
  then show ?thesis
    using close_and_probe_fire_once [of 3 small_cfg ?s ?q 0]
    by (simp add: n Let_def ct_slot_def pt_slot_def)
qed

end
