(* ===== verification/Toe_Events.thy ===== *)
theory Toe_Events
  imports Toe_Types
begin

text \<open>
  The event path to the transmit engine: the event engine merges the events of the receive engine,
  the timers and the applications (\<^verbatim>\<open>toe/event_engine/event_engine.cpp\<close>), the acknowledgement delay holds
  back plain acknowledgements so that they can be merged (\<^verbatim>\<open>toe/ack_delay/ack_delay.cpp\<close>). They are
  connected as in \<^verbatim>\<open>toe/toe.cpp\<close>, with the counting FIFOs between them.
\<close>

subsection \<open>State\<close>

type_synonym u12 = "12 word"

record evPath =
  txApp2eventEng_setEvent :: "event stream"
  rxEng2eventEng_setEvent :: "extendedEvent stream"
  timer2eventEng_setEvent :: "event stream"
  eventEng2ackDelay_event :: "extendedEvent stream"
  eventEng2txEng_event :: "extendedEvent stream"
  ackDelayFifoReadCount :: "u1 stream"
  ackDelayFifoWriteCount :: "u1 stream"
  txEngFifoReadCount :: "u1 stream"
  ee_writeCounter :: u8
  ee_adReadCounter :: u8
  ee_adWriteCounter :: u8
  ee_txEngReadCounter :: u8
  ack_table :: "u16 \<Rightarrow> u12"
  ad_pointer :: u16

definition ev_init :: evPath where
  "ev_init = \<lparr>txApp2eventEng_setEvent = [], rxEng2eventEng_setEvent = [], timer2eventEng_setEvent = [],
     eventEng2ackDelay_event = [], eventEng2txEng_event = [], ackDelayFifoReadCount = [],
     ackDelayFifoWriteCount = [], txEngFifoReadCount = [], ee_writeCounter = 0, ee_adReadCounter = 0,
     ee_adWriteCounter = 0, ee_txEngReadCounter = 0, ack_table = (\<lambda>_. 0), ad_pointer = 0\<rparr>"

subsection \<open>Event engine\<close>

definition ee_forward :: "extendedEvent \<Rightarrow> evPath \<Rightarrow> evPath" where
  "ee_forward ev s = s\<lparr>eventEng2ackDelay_event := eventEng2ackDelay_event s @ [ev],
                       ee_writeCounter := ee_writeCounter s + 1\<rparr>"

text \<open>The gate of the timer and application events.\<close>

definition ee_gate :: "evPath \<Rightarrow> bool" where
  "ee_gate s \<longleftrightarrow> ee_writeCounter s = ee_adReadCounter s \<and> ee_adWriteCounter s = ee_txEngReadCounter s"

definition ee_arbitrate :: "bool \<Rightarrow> evPath \<Rightarrow> evPath" where
  "ee_arbitrate full s =
     (if rxEng2eventEng_setEvent s \<noteq> [] \<and> \<not> full then
        ee_forward (hd (rxEng2eventEng_setEvent s))
          (s\<lparr>rxEng2eventEng_setEvent := tl (rxEng2eventEng_setEvent s)\<rparr>)
      else if ee_gate s then
        if timer2eventEng_setEvent s \<noteq> [] then
          ee_forward (ext_event (hd (timer2eventEng_setEvent s)))
            (s\<lparr>timer2eventEng_setEvent := tl (timer2eventEng_setEvent s)\<rparr>)
        else if txApp2eventEng_setEvent s \<noteq> [] then
          ee_forward (ext_event (hd (txApp2eventEng_setEvent s)))
            (s\<lparr>txApp2eventEng_setEvent := tl (txApp2eventEng_setEvent s)\<rparr>)
        else s
      else s)"

definition ee_count :: "evPath \<Rightarrow> evPath" where
  "ee_count s =
     (let s1 = (if ackDelayFifoReadCount s \<noteq> []
                then s\<lparr>ackDelayFifoReadCount := tl (ackDelayFifoReadCount s), ee_adReadCounter := ee_adReadCounter s + 1\<rparr> else s);
          s2 = (if ackDelayFifoWriteCount s1 \<noteq> []
                then s1\<lparr>ackDelayFifoWriteCount := tl (ackDelayFifoWriteCount s1), ee_adWriteCounter := ee_adWriteCounter s1 + 1\<rparr> else s1)
      in if txEngFifoReadCount s2 \<noteq> []
         then s2\<lparr>txEngFifoReadCount := tl (txEngFifoReadCount s2), ee_txEngReadCounter := ee_txEngReadCounter s2 + 1\<rparr> else s2)"

definition event_engine :: "bool \<Rightarrow> evPath \<Rightarrow> evPath" where
  "event_engine full s = ee_count (ee_arbitrate full s)"

subsection \<open>Acknowledgement delay\<close>

definition ad_emit :: "extendedEvent \<Rightarrow> evPath \<Rightarrow> evPath" where
  "ad_emit ev s = s\<lparr>eventEng2txEng_event := eventEng2txEng_event s @ [ev],
                    ackDelayFifoWriteCount := ackDelayFifoWriteCount s @ [1]\<rparr>"

definition ack_delay :: "toeCfg \<Rightarrow> bool \<Rightarrow> evPath \<Rightarrow> evPath" where
  "ack_delay c full s =
     (case eventEng2ackDelay_event s of
        ev # q \<Rightarrow>
          (let s1 = s\<lparr>eventEng2ackDelay_event := q, ackDelayFifoReadCount := ackDelayFifoReadCount s @ [1]\<rparr>;
               i = ev_sessionID (fst ev)
           in if ev_type (fst ev) = ACK \<and> ack_table s i = 0
              then s1\<lparr>ack_table := (ack_table s)(i := ucast (TIME_64us c))\<rparr>
              else ad_emit ev (s1\<lparr>ack_table := (ack_table s)(i := 0)\<rparr>))
      | [] \<Rightarrow>
          (let p = ad_pointer s;
               s1 = (if ack_table s p > 0 \<and> \<not> full then
                       (if ack_table s p = 1 then ad_emit (ext_event (mk_event ACK p 0)) s else s)
                         \<lparr>ack_table := (ack_table s)(p := ack_table s p - 1)\<rparr>
                     else s)
           in s1\<lparr>ad_pointer := (if p + 1 = MAX_SESSIONS c then 0 else p + 1)\<rparr>))"

text \<open>The transmit engine takes an event and reports it.\<close>

definition txEng_take :: "evPath \<Rightarrow> evPath" where
  "txEng_take s =
     (if eventEng2txEng_event s = [] then s
      else s\<lparr>eventEng2txEng_event := tl (eventEng2txEng_event s), txEngFifoReadCount := txEngFifoReadCount s @ [1]\<rparr>)"

datatype evIn = EvRx extendedEvent | EvTimer event | EvApp event | EventEngine bool | AckDelay bool | TxEngine

fun ev_step :: "toeCfg \<Rightarrow> evIn \<Rightarrow> evPath \<Rightarrow> evPath" where
  "ev_step c (EvRx e) s = s\<lparr>rxEng2eventEng_setEvent := rxEng2eventEng_setEvent s @ [e]\<rparr>"
| "ev_step c (EvTimer e) s = s\<lparr>timer2eventEng_setEvent := timer2eventEng_setEvent s @ [e]\<rparr>"
| "ev_step c (EvApp e) s = s\<lparr>txApp2eventEng_setEvent := txApp2eventEng_setEvent s @ [e]\<rparr>"
| "ev_step c (EventEngine full) s = event_engine full s"
| "ev_step c (AckDelay full) s = ack_delay c full s"
| "ev_step c TxEngine s = txEng_take s"

subsection \<open>The counters\<close>

definition ev_inv :: "evPath \<Rightarrow> bool" where
  "ev_inv s \<longleftrightarrow>
     ee_writeCounter s = ee_adReadCounter s + of_nat (length (ackDelayFifoReadCount s)) + of_nat (length (eventEng2ackDelay_event s))
   \<and> ee_adWriteCounter s + of_nat (length (ackDelayFifoWriteCount s))
     = ee_txEngReadCounter s + of_nat (length (txEngFifoReadCount s)) + of_nat (length (eventEng2txEng_event s))"

lemma ev_inv_arbitrate: "ev_inv s \<Longrightarrow> ev_inv (ee_arbitrate full s)"
  by (simp add: ev_inv_def ee_arbitrate_def ee_forward_def)

lemma ev_inv_count: "ev_inv s \<Longrightarrow> ev_inv (ee_count s)"
  by (cases "ackDelayFifoReadCount s"; cases "ackDelayFifoWriteCount s"; cases "txEngFifoReadCount s")
     (simp_all add: ev_inv_def ee_count_def Let_def add.assoc)

lemma ev_inv_ack_delay: "ev_inv s \<Longrightarrow> ev_inv (ack_delay c full s)"
  by (auto simp: ev_inv_def ack_delay_def ad_emit_def Let_def split: list.split)

lemma ev_inv_txEng: "ev_inv s \<Longrightarrow> ev_inv (txEng_take s)"
  by (cases "eventEng2txEng_event s") (simp_all add: ev_inv_def txEng_take_def)

lemma ev_inv_step: "ev_inv s \<Longrightarrow> ev_inv (ev_step c i s)"
  by (cases i) (simp_all add: event_engine_def ev_inv_arbitrate ev_inv_count ev_inv_ack_delay ev_inv_txEng,
                simp_all add: ev_inv_def)

interpretation ev: step_invariant ev_init "ev_step c" ev_inv for c
  by unfold_locales (auto simp: ev_inv_step, simp add: ev_inv_def ev_init_def)

text \<open>Timer and application events are let through only when the delay stage is empty: after
  any history, an open gate means that every forwarded event was taken from the delay stage's input
  and has been counted, as long as fewer than 256 events and counts are on the way (the counters
  have eight bits).\<close>

theorem gate_means_drained:
  assumes "s = run_inputs (ev_step c) is ev_init" "ee_gate s"
    and "length (ackDelayFifoReadCount s) + length (eventEng2ackDelay_event s) < 256"
  shows "eventEng2ackDelay_event s = [] \<and> ackDelayFifoReadCount s = []"
proof -
  have "ev_inv s" unfolding assms(1) by (rule ev.inv_run)
  then have "(of_nat (length (ackDelayFifoReadCount s) + length (eventEng2ackDelay_event s)) :: u8) = of_nat 0"
    using assms(2) by (simp add: ev_inv_def ee_gate_def algebra_simps)
  then show ?thesis
    using assms(3) by (subst (asm) of_nat_word_eq_iff) auto
qed

theorem gate_means_drained_witness:
  "let s = run_inputs (ev_step small_cfg) [EvTimer (mk_event RT 1 1), EventEngine False, AckDelay False,
             EventEngine False, TxEngine, EventEngine False, EvApp (mk_event TX 2 0)] ev_init
   in ee_gate s \<and> eventEng2ackDelay_event s = [] \<and> ackDelayFifoReadCount s = []"
proof -
  let ?is = "[EvTimer (mk_event RT 1 1), EventEngine False, AckDelay False,
             EventEngine False, TxEngine, EventEngine False, EvApp (mk_event TX 2 0)]"
  let ?s = "run_inputs (ev_step small_cfg) ?is ev_init"
  have "ee_gate ?s" "length (ackDelayFifoReadCount ?s) + length (eventEng2ackDelay_event ?s) < 256"
    by (simp_all add: ev_init_def event_engine_def ee_arbitrate_def ee_gate_def ee_forward_def ee_count_def
        ack_delay_def ad_emit_def txEng_take_def mk_event_def ext_event_def Let_def)
  with gate_means_drained [OF refl, of small_cfg ?is] show ?thesis unfolding Let_def by blast
qed

subsection \<open>Delayed acknowledgements\<close>

definition ad_slot :: "evPath \<Rightarrow> nat \<Rightarrow> u12 \<times> extendedEvent list" where
  "ad_slot s i = (ack_table s (of_nat i), filter (\<lambda>e. ev_sessionID (fst e) = of_nat i) (eventEng2txEng_event s))"

fun ad_upd :: "nat \<Rightarrow> u12 \<times> extendedEvent list \<Rightarrow> u12 \<times> extendedEvent list" where
  "ad_upd i (v, out) =
     (if v = 0 then (v, out) else (v - 1, if v = 1 then out @ [ext_event (mk_event ACK (of_nat i) 0)] else out))"

definition ad_idle :: "toeCfg \<Rightarrow> evPath \<Rightarrow> bool" where
  "ad_idle c s \<longleftrightarrow> eventEng2ackDelay_event s = [] \<and> unat (ad_pointer s) < unat (MAX_SESSIONS c)"

lemma ad_idle_call:
  "ad_idle c s \<Longrightarrow> ad_slot (ack_delay c False s) i
     = (if of_nat i = ad_pointer s then ad_upd i (ad_slot s i) else ad_slot s i)"
  "ad_idle c s \<Longrightarrow> ad_pointer (ack_delay c False s) = (if ad_pointer s + 1 = MAX_SESSIONS c then 0 else ad_pointer s + 1)"
  "ad_idle c s \<Longrightarrow> eventEng2ackDelay_event (ack_delay c False s) = []"
  by (auto simp: ad_idle_def ack_delay_def ad_slot_def ad_emit_def Let_def mk_event_def ext_event_def word_gt_0)

interpretation ad: sweep "unat (MAX_SESSIONS c)" "\<lambda>s. unat (ad_pointer s)" "ack_delay c False" ad_slot ad_upd "ad_idle c" for c
proof
  fix s i
  assume idle: "ad_idle c s"
  then show less: "unat (ad_pointer s) < unat (MAX_SESSIONS c)" by (simp add: ad_idle_def)
  show p: "unat (ad_pointer (ack_delay c False s))
      = (if unat (ad_pointer s) + 1 = unat (MAX_SESSIONS c) then 0 else unat (ad_pointer s) + 1)"
    using unat_Suc_below [OF less] by (auto simp: ad_idle_call [OF idle] word_unat_eq_iff)
  show "ad_idle c (ack_delay c False s)"
    using p less ad_idle_call(3) [OF idle] by (auto simp: ad_idle_def split: if_splits)
  assume i: "i < unat (MAX_SESSIONS c)"
  show "ad_slot (ack_delay c False s) i = (if i = unat (ad_pointer s) then ad_upd i (ad_slot s i) else ad_slot s i)"
    using of_nat_eq_below [OF i] by (simp add: ad_idle_call(1) [OF idle])
qed

lemma ad_upd_fires: "v \<noteq> 0 \<Longrightarrow> (ad_upd i ^^ unat v) (v, out) = (0, out @ [ext_event (mk_event ACK (of_nat i) 0)])"
proof (induction "unat v" arbitrary: v)
  case (Suc n)
  have n: "unat (v - 1) = n" using Suc.hyps(2) Suc.prems by (simp add: unat_minus_one)
  have u: "(ad_upd i ^^ unat v) (v, out) = (ad_upd i ^^ n) (ad_upd i (v, out))"
    using Suc.hyps(2) by (metis comp_apply funpow_Suc_right)
  show ?case
  proof (cases "v = 1")
    case True
    then show ?thesis using u Suc.hyps(2) by simp
  next
    case False
    then have "v - 1 \<noteq> 0" by (metis eq_iff_diff_eq_0)
    then show ?thesis using u Suc.hyps(1) [OF n [symmetric]] n False Suc.prems by simp
  qed
qed (simp add: word_unat_eq_iff)

text \<open>A delayed acknowledgement is sent: the first plain acknowledgement of a session is held
  back and, when the delay stage is left alone, goes out exactly once after as many rounds as the
  delay says, provided the delay is not a multiple of 4096 (the table keeps twelve bits of it).\<close>

theorem delayed_ack_sent:
  assumes "eventEng2ackDelay_event s = [(ev, t)]" "ev_type ev = ACK" "ev_sessionID ev = of_nat i"
    and "ack_table s (of_nat i) = 0" "(ucast (TIME_64us c) :: u12) \<noteq> 0"
    and "i < unat (MAX_SESSIONS c)" "unat (ad_pointer s) < unat (MAX_SESSIONS c)"
  shows "let s1 = ack_delay c False s;
             s2 = (ack_delay c False ^^ (unat (ucast (TIME_64us c) :: u12) * unat (MAX_SESSIONS c))) s1
    in snd (ad_slot s1 i) = snd (ad_slot s i)
       \<and> snd (ad_slot s2 i) = snd (ad_slot s i) @ [ext_event (mk_event ACK (of_nat i) 0)]"
proof -
  define s1 where "s1 = ack_delay c False s"
  have s1: "eventEng2ackDelay_event s1 = []" "ad_pointer s1 = ad_pointer s"
    "ad_slot s1 i = (ucast (TIME_64us c), snd (ad_slot s i))"
    using assms(1-4) by (simp_all add: s1_def ack_delay_def ad_slot_def Let_def)
  then have "ad_idle c s1" using assms(7) by (simp add: ad_idle_def)
  from ad.slot_rounds [OF this assms(6)] ad_upd_fires [OF assms(5)] s1 show ?thesis
    by (simp add: s1_def [symmetric] Let_def)
qed

theorem delayed_ack_sent_witness:
  "let s = ev_init\<lparr>eventEng2ackDelay_event := [(mk_event ACK 2 0, None)]\<rparr>;
       s2 = (ack_delay small_cfg False ^^ 4) (ack_delay small_cfg False s)
   in snd (ad_slot s2 2) = [ext_event (mk_event ACK 2 0)]"
  using delayed_ack_sent [of "ev_init\<lparr>eventEng2ackDelay_event := [(mk_event ACK 2 0, None)]\<rparr>" "mk_event ACK 2 0" None 2 small_cfg]
  by (simp add: ev_init_def small_cfg_def mk_event_def ad_slot_def Let_def)

end
