(* ===== verification/Toe_Ports.thy ===== *)
theory Toe_Ports
  imports Toe_Types "HOL-Library.Multiset"
begin

text \<open>
  The port table of the TCP engine (\<^verbatim>\<open>toe/port_table/port_table.cpp\<close>): listening ports below 32768,
  ephemeral ports above, and the multiplexer that keeps the answers of the two tables in the order
  of the requests.
\<close>

subsection \<open>State\<close>

type_synonym u15 = "15 word"

datatype cmFsmStateType = READ_DST | READ_LISTENING | READ_USED

record ports =
  check_req :: "u16 stream"
  listen_req :: "u16 stream"
  releasePort :: "u16 stream"
  check_rsp :: "bool stream"
  listen_rsp :: "bool stream"
  port_rsp :: "u16 stream"
  checkListening_req :: "u15 stream"
  checkUsed_req :: "u15 stream"
  checkListening_rsp :: "bool stream"
  checkUsed_rsp :: "bool stream"
  pt_dstFifo :: "bool stream" \<comment> \<open>\<open>LT = true\<close>, \<open>FT = false\<close>\<close>
  listeningPortTable :: "u15 \<Rightarrow> bool"
  freePortTable :: "u15 \<Rightarrow> bool"
  pt_cursor :: u15
  cm_fsmState :: cmFsmStateType

definition ports_init :: ports where
  "ports_init = \<lparr>check_req = [], listen_req = [], releasePort = [], check_rsp = [], listen_rsp = [],
     port_rsp = [], checkListening_req = [], checkUsed_req = [], checkListening_rsp = [],
     checkUsed_rsp = [], pt_dstFifo = [], listeningPortTable = (\<lambda>_. False), freePortTable = (\<lambda>_. False),
     pt_cursor = 0, cm_fsmState = READ_DST\<rparr>"

subsection \<open>Tables\<close>

definition listening_port_table :: "ports \<Rightarrow> ports" where
  "listening_port_table s =
     (case listen_req s of
        currPort # q \<Rightarrow>
          (let s1 = s\<lparr>listen_req := q\<rparr>; i = ucast currPort :: u15
           in if listeningPortTable s i \<and> currPort < 32768 then s1\<lparr>listen_rsp := listen_rsp s @ [True]\<rparr>
              else if \<not> listeningPortTable s i \<and> currPort < 32768
              then s1\<lparr>listeningPortTable := (listeningPortTable s)(ucast currPort := True),
                      listen_rsp := listen_rsp s @ [True]\<rparr>
              else s1\<lparr>listen_rsp := listen_rsp s @ [False]\<rparr>)
      | [] \<Rightarrow>
       (case checkListening_req s of
          p # q \<Rightarrow> s\<lparr>checkListening_req := q, checkListening_rsp := checkListening_rsp s @ [listeningPortTable s p]\<rparr>
        | [] \<Rightarrow> s))"

text \<open>\<open>freePort(14,0) = pt_cursor; freePort[15] = 1\<close>\<close>

definition mk_port :: "u15 \<Rightarrow> u16" where
  "mk_port cur = set_bit 15 (ucast cur)"

definition free_port_table :: "bool \<Rightarrow> ports \<Rightarrow> ports" where
  "free_port_table full s =
     (let s1 =
        (case releasePort s of
           currPort # q \<Rightarrow>
             (let s1 = s\<lparr>releasePort := q\<rparr>
              in if currPort \<ge> 32768 then s1\<lparr>freePortTable := (freePortTable s)(ucast currPort := False)\<rparr> else s1)
         | [] \<Rightarrow>
          (case checkUsed_req s of
             p # q \<Rightarrow> s\<lparr>checkUsed_req := q, checkUsed_rsp := checkUsed_rsp s @ [freePortTable s p]\<rparr>
           | [] \<Rightarrow>
              if \<not> freePortTable s (pt_cursor s) \<and> \<not> full
              then s\<lparr>freePortTable := (freePortTable s)(pt_cursor s := True), port_rsp := port_rsp s @ [mk_port (pt_cursor s)]\<rparr>
              else s))
      in s1\<lparr>pt_cursor := pt_cursor s1 + 1\<rparr>)"

subsection \<open>Multiplexer\<close>

definition swap16 :: "u16 \<Rightarrow> u16" where
  "swap16 p = push_bit 8 (take_bit 8 p) OR drop_bit 8 p"

definition check_in_multiplexer :: "ports \<Rightarrow> ports" where
  "check_in_multiplexer s =
     (case check_req s of
        checkPort # q \<Rightarrow>
          (let s1 = s\<lparr>check_req := q\<rparr>; swapped = swap16 checkPort
           in if swapped < 32768
              then s1\<lparr>checkListening_req := checkListening_req s @ [ucast swapped], pt_dstFifo := pt_dstFifo s @ [True]\<rparr>
              else s1\<lparr>checkUsed_req := checkUsed_req s @ [ucast swapped], pt_dstFifo := pt_dstFifo s @ [False]\<rparr>)
      | [] \<Rightarrow> s)"

definition check_out_multiplexer :: "ports \<Rightarrow> ports" where
  "check_out_multiplexer s =
     (case cm_fsmState s of
        READ_DST \<Rightarrow>
          (case pt_dstFifo s of
             dst # q \<Rightarrow> s\<lparr>pt_dstFifo := q, cm_fsmState := (if dst then READ_LISTENING else READ_USED)\<rparr>
           | [] \<Rightarrow> s)
      | READ_LISTENING \<Rightarrow>
          (case checkListening_rsp s of
             b # q \<Rightarrow> s\<lparr>checkListening_rsp := q, check_rsp := check_rsp s @ [b], cm_fsmState := READ_DST\<rparr>
           | [] \<Rightarrow> s)
      | READ_USED \<Rightarrow>
          (case checkUsed_rsp s of
             b # q \<Rightarrow> s\<lparr>checkUsed_rsp := q, check_rsp := check_rsp s @ [b], cm_fsmState := READ_DST\<rparr>
           | [] \<Rightarrow> s))"

definition port_table :: "bool \<Rightarrow> ports \<Rightarrow> ports" where
  "port_table full s =
     check_out_multiplexer (check_in_multiplexer (free_port_table full (listening_port_table s)))"

subsection \<open>Order of the answers\<close>

text \<open>The tables whose answers are outstanding, oldest first.\<close>

definition routes :: "ports \<Rightarrow> bool list" where
  "routes s = (case cm_fsmState s of READ_DST \<Rightarrow> [] | READ_LISTENING \<Rightarrow> [True] | READ_USED \<Rightarrow> [False]) @ pt_dstFifo s"

text \<open>Requests come in from outside, together with the environment's own bookkeeping of how many
  checks it asked for.\<close>

datatype portIn = PCheck u16 | PListen u16 | PRelease u16 | PCall bool

fun port_step :: "portIn \<Rightarrow> ports \<times> nat \<Rightarrow> ports \<times> nat" where
  "port_step (PCheck p) (s, n) = (s\<lparr>check_req := check_req s @ [p]\<rparr>, n + 1)"
| "port_step (PListen p) (s, n) = (s\<lparr>listen_req := listen_req s @ [p]\<rparr>, n)"
| "port_step (PRelease p) (s, n) = (s\<lparr>releasePort := releasePort s @ [p]\<rparr>, n)"
| "port_step (PCall full) (s, n) = (port_table full s, n)"

definition mux_inv :: "ports \<Rightarrow> bool" where
  "mux_inv s \<longleftrightarrow>
     length (filter (\<lambda>d. d) (routes s)) = length (checkListening_req s) + length (checkListening_rsp s)
   \<and> length (filter (\<lambda>d. \<not> d) (routes s)) = length (checkUsed_req s) + length (checkUsed_rsp s)"

definition mux_total :: "ports \<Rightarrow> nat" where
  "mux_total s = length (check_rsp s) + length (routes s) + length (check_req s)"

lemma mux_listening:
  "mux_inv s \<Longrightarrow> mux_inv (listening_port_table s)" "mux_total (listening_port_table s) = mux_total s"
  by (auto simp: mux_inv_def mux_total_def routes_def listening_port_table_def Let_def split: list.split)

lemma mux_free:
  "mux_inv s \<Longrightarrow> mux_inv (free_port_table full s)" "mux_total (free_port_table full s) = mux_total s"
  by (auto simp: mux_inv_def mux_total_def routes_def free_port_table_def Let_def split: list.split)

lemma mux_in:
  "mux_inv s \<Longrightarrow> mux_inv (check_in_multiplexer s)" "mux_total (check_in_multiplexer s) = mux_total s"
  by (auto simp: mux_inv_def mux_total_def routes_def check_in_multiplexer_def Let_def split: list.split)

lemma mux_out:
  "mux_inv s \<Longrightarrow> mux_inv (check_out_multiplexer s)" "mux_total (check_out_multiplexer s) = mux_total s"
  by (auto simp: mux_inv_def mux_total_def routes_def check_out_multiplexer_def
      split: list.split cmFsmStateType.split)

lemma mux_call: "mux_inv s \<Longrightarrow> mux_inv (port_table full s) \<and> mux_total (port_table full s) = mux_total s"
  by (simp add: port_table_def mux_listening mux_free mux_in mux_out)

interpretation mux: step_invariant "(ports_init, 0)" port_step "\<lambda>(s, n). mux_inv s \<and> mux_total s = n"
proof (unfold_locales, goal_cases)
  case 1
  show ?case by (simp add: mux_inv_def mux_total_def routes_def ports_init_def)
next
  case (2 s i)
  then show ?case
    by (cases i; cases s) (auto simp: mux_call, auto simp: mux_inv_def mux_total_def routes_def)
qed

text \<open>No check is lost, duplicated or answered by the wrong table: after any history the
  answers given, the routes remembered and the requests waiting add up to the requests made, and for
  each table exactly as many routes are remembered as it has requests and answers under way. So when
  the multiplexer waits for a table, that table has the request or the answer.\<close>

theorem port_checks_accounted:
  assumes "run_inputs port_step is (ports_init, 0) = (s, n)"
  shows "length (check_rsp s) + length (routes s) + length (check_req s) = n
    \<and> (cm_fsmState s = READ_LISTENING \<longrightarrow> checkListening_req s \<noteq> [] \<or> checkListening_rsp s \<noteq> [])
    \<and> (cm_fsmState s = READ_USED \<longrightarrow> checkUsed_req s \<noteq> [] \<or> checkUsed_rsp s \<noteq> [])"
proof -
  have "mux_inv s \<and> mux_total s = n" using mux.inv_run [of "is"] assms by simp
  then show ?thesis by (auto simp: mux_inv_def mux_total_def routes_def)
qed

theorem port_checks_accounted_witness:
  "case run_inputs port_step [PCheck 0x5000, PCheck 0x0090, PCall False, PCall False, PCall False] (ports_init, 0) of
     (s, n) \<Rightarrow> n = 2 \<and> length (check_rsp s) + length (routes s) + length (check_req s) = 2"
proof -
  obtain s n where r: "run_inputs port_step [PCheck 0x5000, PCheck 0x0090, PCall False, PCall False, PCall False]
      (ports_init, 0) = (s, n)" by fastforce
  then have "n = 2" by auto
  with port_checks_accounted [OF r] show ?thesis unfolding r by simp
qed

subsection \<open>Ephemeral ports\<close>

lemma mk_port_props [simp]: "ucast (mk_port c) = c" "32768 \<le> mk_port c"
proof -
  show "ucast (mk_port c) = c"
    unfolding mk_port_def by (rule bit_word_eqI) (auto simp: bit_simps)
  have set: "bit (uint (mk_port c)) 15" by (simp add: mk_port_def bit_simps)
  show "32768 \<le> mk_port c"
  proof (rule ccontr)
    assume "\<not> 32768 \<le> mk_port c"
    then have "take_bit 15 (uint (mk_port c)) = uint (mk_port c)"
      by (simp add: word_le_def not_le take_bit_int_eq_self)
    with set show False by (metis bit_take_bit_iff less_irrefl)
  qed
qed

lemma port_eq_iff:
  assumes "32768 \<le> p" "32768 \<le> q"
  shows "(ucast p :: u15) = ucast q \<longleftrightarrow> p = (q :: u16)"
proof
  assume e: "(ucast p :: u15) = ucast q"
  have low: "uint (ucast x :: u15) = uint x - 32768" if "32768 \<le> x" for x :: u16
  proof -
    have "32768 \<le> uint x" "uint x < 65536" using that uint_lt2p [of x] by (simp_all add: word_le_def)
    then have "(uint x - 32768) mod 32768 = uint x - 32768" by (intro mod_pos_pos_trivial) auto
    moreover have "uint x mod 32768 = (uint x - 32768) mod 32768" by (simp only: minus_mod_self2)
    moreover have "uint (ucast x :: u15) = uint x mod 32768"
      unfolding unsigned_ucast_eq by (simp add: take_bit_eq_mod)
    ultimately show ?thesis by linarith
  qed
  show "p = q" using low [OF assms(1)] low [OF assms(2)] e by (simp add: word_uint_eq_iff)
qed simp

text \<open>The ephemeral ports in somebody's hands: handed out and not collected, held by a client, on the
  way back.\<close>

definition owned :: "ports \<times> u16 list \<Rightarrow> u16 list" where
  "owned c = port_rsp (fst c) @ snd c @ filter (\<lambda>p. 32768 \<le> p) (releasePort (fst c))"

text \<open>A client collects ports and gives back ports it holds; ports below 32768 may be released at
  any time.\<close>

datatype clientIn = PCollect | PGive u16 | PLow u16 | PAsk u16 | PTable bool

fun port_client :: "clientIn \<Rightarrow> ports \<times> u16 list \<Rightarrow> ports \<times> u16 list" where
  "port_client PCollect (s, held) =
     (case port_rsp s of [] \<Rightarrow> (s, held) | p # q \<Rightarrow> (s\<lparr>port_rsp := q\<rparr>, p # held))"
| "port_client (PGive p) (s, held) =
     (if p \<in> set held then (s\<lparr>releasePort := releasePort s @ [p]\<rparr>, remove1 p held) else (s, held))"
| "port_client (PLow p) (s, held) = (if p < 32768 then (s\<lparr>releasePort := releasePort s @ [p]\<rparr>, held) else (s, held))"
| "port_client (PAsk p) (s, held) = (s\<lparr>check_req := check_req s @ [p]\<rparr>, held)"
| "port_client (PTable full) (s, held) = (port_table full s, held)"

definition ports_ok :: "u16 list \<Rightarrow> (u15 \<Rightarrow> bool) \<Rightarrow> bool" where
  "ports_ok ps used \<longleftrightarrow> distinct ps \<and> (\<forall>p \<in> set ps. 32768 \<le> p \<and> used (ucast p))"

definition port_inv :: "ports \<times> u16 list \<Rightarrow> bool" where
  "port_inv c \<longleftrightarrow> ports_ok (owned c) (freePortTable (fst c))"

lemma ports_ok_perm: "ports_ok ps used \<Longrightarrow> mset qs = mset ps \<Longrightarrow> ports_ok qs used"
  unfolding ports_ok_def using mset_eq_imp_distinct_iff [of qs ps] mset_eq_setD [of qs ps] by simp

lemma ports_ok_give:
  assumes "ports_ok (a @ p # b) used"
  shows "ports_ok (a @ b) (used(ucast p := False))"
proof -
  have "(ucast x :: u15) \<noteq> ucast p" if "x \<in> set (a @ b)" for x
    using assms that by (subst port_eq_iff) (auto simp: ports_ok_def)
  then show ?thesis using assms by (auto simp: ports_ok_def)
qed

lemma ports_ok_take:
  assumes "ports_ok ps used" "\<not> used c"
  shows "ports_ok (mk_port c # ps) (used(c := True))"
proof -
  have "mk_port c \<notin> set ps" using assms by (auto simp: ports_ok_def)
  then show ?thesis using assms by (auto simp: ports_ok_def)
qed

lemma port_frame [simp]:
  "port_rsp (listening_port_table s) = port_rsp s" "releasePort (listening_port_table s) = releasePort s"
  "freePortTable (listening_port_table s) = freePortTable s"
  "port_rsp (check_in_multiplexer s) = port_rsp s" "releasePort (check_in_multiplexer s) = releasePort s"
  "freePortTable (check_in_multiplexer s) = freePortTable s"
  "port_rsp (check_out_multiplexer s) = port_rsp s" "releasePort (check_out_multiplexer s) = releasePort s"
  "freePortTable (check_out_multiplexer s) = freePortTable s"
  by (auto simp: listening_port_table_def check_in_multiplexer_def check_out_multiplexer_def Let_def
      split: list.split cmFsmStateType.split)

lemma port_inv_free:
  assumes "port_inv (s, held)"
  shows "port_inv (free_port_table full s, held)"
proof (cases "releasePort s")
  case (Cons p q)
  show ?thesis
  proof (cases "32768 \<le> p")
    case True
    have "ports_ok ((port_rsp s @ held) @ p # filter (\<lambda>p. 32768 \<le> p) q) (freePortTable s)"
      using assms Cons True by (simp add: port_inv_def owned_def)
    from ports_ok_give [OF this] show ?thesis using Cons True
      by (simp add: port_inv_def owned_def free_port_table_def)
  next
    case False
    then show ?thesis using assms Cons by (simp add: port_inv_def owned_def free_port_table_def)
  qed
next
  case Nil
  have ok: "ports_ok (port_rsp s @ held) (freePortTable s)" using assms Nil by (simp add: port_inv_def owned_def)
  show ?thesis
  proof (cases "checkUsed_req s = [] \<and> \<not> freePortTable s (pt_cursor s) \<and> \<not> full")
    case True
    have "ports_ok (port_rsp s @ mk_port (pt_cursor s) # held) ((freePortTable s)(pt_cursor s := True))"
      by (rule ports_ok_perm [OF ports_ok_take [OF ok]]) (use True in auto)
    then show ?thesis using True Nil by (simp add: port_inv_def owned_def free_port_table_def)
  next
    case False
    then show ?thesis using ok Nil
      by (cases "checkUsed_req s") (auto simp: port_inv_def owned_def free_port_table_def)
  qed
qed

lemma port_inv_table: "port_inv (s, held) \<Longrightarrow> port_inv (port_table full s, held)"
proof -
  assume "port_inv (s, held)"
  then have "port_inv (free_port_table full (listening_port_table s), held)"
    by (intro port_inv_free) (simp add: port_inv_def owned_def)
  then show ?thesis by (simp add: port_table_def port_inv_def owned_def)
qed

lemma port_inv_step: "port_inv c \<Longrightarrow> port_inv (port_client i c)"
proof (induction i c rule: port_client.induct)
  case (1 s held)
  show ?case
  proof (cases "port_rsp s")
    case Nil
    then show ?thesis using "1.prems" by simp
  next
    case (Cons p q)
    have "mset (owned (s\<lparr>port_rsp := q\<rparr>, p # held)) = mset (owned (s, held))"
      using Cons by (simp add: owned_def)
    then have "port_inv (s\<lparr>port_rsp := q\<rparr>, p # held)"
      using "1.prems" unfolding port_inv_def by (simp add: ports_ok_perm [of "owned (s, held)"])
    then show ?thesis using Cons by simp
  qed
next
  case (2 p s held)
  show ?case
  proof (cases "p \<in> set held")
    case True
    then have "p \<in> set (owned (s, held))" by (simp add: owned_def)
    then have "32768 \<le> p" using "2.prems" unfolding port_inv_def ports_ok_def by blast
    with True have "mset (owned (s\<lparr>releasePort := releasePort s @ [p]\<rparr>, remove1 p held)) = mset (owned (s, held))"
      by (simp add: owned_def)
    then have "port_inv (s\<lparr>releasePort := releasePort s @ [p]\<rparr>, remove1 p held)"
      using "2.prems" unfolding port_inv_def by (simp add: ports_ok_perm [of "owned (s, held)"])
    then show ?thesis using True by simp
  qed (use "2.prems" in simp)
next
  case (3 p s held)
  then show ?case by (auto simp: port_inv_def owned_def)
next
  case (4 p s held)
  then show ?case by (simp add: port_inv_def owned_def)
next
  case (5 full s held)
  then show ?case by (simp add: port_inv_table)
qed

interpretation port: step_invariant "(ports_init, [])" port_client port_inv
  by unfold_locales (simp_all add: port_inv_step, simp add: port_inv_def ports_ok_def owned_def ports_init_def)

text \<open>An ephemeral port has one owner: whatever the interleaving of the table with a client that
  collects ports and gives back those it holds, the ports handed out, held and on the way back are
  all different, lie above 32767 and are marked as used.\<close>

theorem ephemeral_ports_unique:
  "distinct (owned (run_inputs port_client is (ports_init, [])))
   \<and> (\<forall>p \<in> set (owned (run_inputs port_client is (ports_init, []))). 32768 \<le> p
        \<and> freePortTable (fst (run_inputs port_client is (ports_init, []))) (ucast p))"
  using port.inv_run [of "is"] by (simp add: port_inv_def ports_ok_def)

theorem ephemeral_ports_unique_witness:
  "let c = run_inputs port_client [PTable False, PCollect, PTable False, PGive 32768, PTable False] (ports_init, [])
   in owned c = [32769] \<and> (\<forall>p \<in> set (owned c). 32768 \<le> p)"
proof -
  let ?is = "[PTable False, PCollect, PTable False, PGive 32768, PTable False]"
  have "owned (run_inputs port_client ?is (ports_init, [])) = [32769]"
    by (simp add: ports_init_def port_table_def free_port_table_def listening_port_table_def
        check_in_multiplexer_def check_out_multiplexer_def owned_def mk_port_def set_bit_def Let_def)
  with ephemeral_ports_unique [of ?is] show ?thesis unfolding Let_def by blast
qed

end
