(* ===== verification/Table_Spec.thy ===== *)
theory Table_Spec
  imports Prelude
begin

text \<open>
  The contract of a lookup table with bounded space: what a client may rely on is stated as a
  locale over the operations of the table, with a finite map as the abstract state. An insertion of
  a new key may fail, and then costs one binding. Clients that insert only keys that are absent see
  a map until the first failed insertion.
\<close>

datatype ('k, 'v) tblOp = TLookup 'k | TInsert 'k 'v | TRemove 'k

datatype 'v tblAns = Found "'v option" | Performed bool

text \<open>A client's calls, on a table given by its operations and on the map.\<close>

fun tbl_exec :: "('k \<Rightarrow> 't \<Rightarrow> 'v option) \<Rightarrow> ('k \<Rightarrow> 'v \<Rightarrow> 't \<Rightarrow> bool \<times> 't) \<Rightarrow> ('k \<Rightarrow> 't \<Rightarrow> bool \<times> 't)
  \<Rightarrow> ('k, 'v) tblOp \<Rightarrow> 't \<Rightarrow> 'v tblAns \<times> 't" where
  "tbl_exec lkp ins rem (TLookup k) t = (Found (lkp k t), t)"
| "tbl_exec lkp ins rem (TInsert k v) t = (case ins k v t of (b, t') \<Rightarrow> (Performed b, t'))"
| "tbl_exec lkp ins rem (TRemove k) t = (case rem k t of (b, t') \<Rightarrow> (Performed b, t'))"

fun tbl_run :: "('k \<Rightarrow> 't \<Rightarrow> 'v option) \<Rightarrow> ('k \<Rightarrow> 'v \<Rightarrow> 't \<Rightarrow> bool \<times> 't) \<Rightarrow> ('k \<Rightarrow> 't \<Rightarrow> bool \<times> 't)
  \<Rightarrow> ('k, 'v) tblOp list \<Rightarrow> 't \<Rightarrow> 'v tblAns list" where
  "tbl_run lkp ins rem [] t = []"
| "tbl_run lkp ins rem (op # ops) t =
     (case tbl_exec lkp ins rem op t of (a, t') \<Rightarrow> a # tbl_run lkp ins rem ops t')"

fun map_exec :: "('k, 'v) tblOp \<Rightarrow> ('k \<rightharpoonup> 'v) \<Rightarrow> 'v tblAns \<times> ('k \<rightharpoonup> 'v)" where
  "map_exec (TLookup k) m = (Found (m k), m)"
| "map_exec (TInsert k v) m = (Performed True, m(k \<mapsto> v))"
| "map_exec (TRemove k) m = (Performed (m k \<noteq> None), m(k := None))"

fun map_run :: "('k, 'v) tblOp list \<Rightarrow> ('k \<rightharpoonup> 'v) \<Rightarrow> 'v tblAns list" where
  "map_run [] m = []"
| "map_run (op # ops) m = (case map_exec op m of (a, m') \<Rightarrow> a # map_run ops m')"

text \<open>Only keys that are absent are inserted.\<close>

fun legal :: "('k, 'v) tblOp list \<Rightarrow> ('k \<rightharpoonup> 'v) \<Rightarrow> bool" where
  "legal [] m = True"
| "legal (op # ops) m = ((case op of TInsert k v \<Rightarrow> m k = None | _ \<Rightarrow> True) \<and> legal ops (snd (map_exec op m)))"

text \<open>The answers agree up to the first failed insertion.\<close>

fun agree :: "('k, 'v) tblOp list \<Rightarrow> 'v tblAns list \<Rightarrow> 'v tblAns list \<Rightarrow> bool" where
  "agree (op # ops) (a # as) (b # bs) =
     (a = b \<and> agree ops as bs \<or> (case op of TInsert k v \<Rightarrow> a = Performed False | _ \<Rightarrow> False))"
| "agree ops as bs = (as = bs)"

lemma agree_prefix:
  assumes "agree ops as bs"
  shows "as = bs \<or> (\<exists>n < length ops. take n as = take n bs \<and> (\<exists>k v. ops ! n = TInsert k v) \<and> as ! n = Performed False)"
  using assms
proof (induction ops as bs rule: agree.induct)
  case (1 op ops a as b bs)
  show ?case
  proof (cases "a = b \<and> agree ops as bs")
    case True
    then consider "as = bs" | n where "n < length ops" "take n as = take n bs"
      "\<exists>k v. ops ! n = TInsert k v" "as ! n = Performed False" using "1.IH" by blast
    then show ?thesis
    proof cases
      case 1
      then show ?thesis using True by simp
    next
      case 2
      then show ?thesis using True by (intro disjI2 exI [of _ "Suc n"]) simp
    qed
  next
    case False
    then show ?thesis using "1.prems" by (intro disjI2 exI [of _ 0]) (auto split: tblOp.splits)
  qed
qed auto

locale assoc_table =
  fixes ok :: "'t \<Rightarrow> bool"
    and abs :: "'t \<Rightarrow> 'k \<Rightarrow> 'v option"
    and empty :: 't
    and lkp :: "'k \<Rightarrow> 't \<Rightarrow> 'v option"
    and ins :: "'k \<Rightarrow> 'v \<Rightarrow> 't \<Rightarrow> bool \<times> 't"
    and rem :: "'k \<Rightarrow> 't \<Rightarrow> bool \<times> 't"
  assumes empty_ok: "ok empty" "abs empty = Map.empty"
    and lkp_abs: "ok t \<Longrightarrow> lkp k t = abs t k"
    and ins_abs: "ok t \<Longrightarrow> abs t k = None \<Longrightarrow> ins k v t = (b, t') \<Longrightarrow>
      ok t' \<and> (if b then abs t' = (abs t)(k \<mapsto> v)
               else \<exists>k' v'. abs t' k' = None \<and> (abs t')(k' \<mapsto> v') = (abs t)(k \<mapsto> v))"
    and rem_abs: "ok t \<Longrightarrow> rem k t = (b, t') \<Longrightarrow>
      ok t' \<and> abs t' = (abs t)(k := None) \<and> (b \<longleftrightarrow> abs t k \<noteq> None)"
begin

lemma run_agrees: "ok t \<Longrightarrow> legal ops (abs t) \<Longrightarrow> agree ops (tbl_run lkp ins rem ops t) (map_run ops (abs t))"
proof (induction ops arbitrary: t)
  case (Cons op ops)
  show ?case
  proof (cases op)
    case (TLookup k)
    then show ?thesis using Cons lkp_abs by simp
  next
    case (TInsert k v)
    obtain b t' where i: "ins k v t = (b, t')" by fastforce
    have k: "abs t k = None" and l: "legal ops ((abs t)(k \<mapsto> v))" using Cons.prems TInsert by simp_all
    note spec = ins_abs [OF Cons.prems(1) k i]
    show ?thesis
    proof (cases b)
      case True
      then have "ok t'" "abs t' = (abs t)(k \<mapsto> v)" using spec by simp_all
      then have "agree ops (tbl_run lkp ins rem ops t') (map_run ops ((abs t)(k \<mapsto> v)))"
        using Cons.IH [of t'] l by metis
      then show ?thesis using TInsert i by simp
    qed (use TInsert i in simp)
  next
    case (TRemove k)
    obtain b t' where r: "rem k t = (b, t')" by fastforce
    have "ok t'" "abs t' = (abs t)(k := None)" "b \<longleftrightarrow> abs t k \<noteq> None"
      using rem_abs [OF Cons.prems(1) r] by simp_all
    moreover have "legal ops ((abs t)(k := None))" using Cons.prems TRemove by simp
    ultimately have "agree ops (tbl_run lkp ins rem ops t') (map_run ops ((abs t)(k := None)))"
      using Cons.IH [of t'] by metis
    then show ?thesis using TRemove r \<open>b \<longleftrightarrow> abs t k \<noteq> None\<close> by simp
  qed
qed simp

lemma run_refines:
  assumes "legal ops Map.empty"
  shows "tbl_run lkp ins rem ops empty = map_run ops Map.empty
    \<or> (\<exists>n < length ops. take n (tbl_run lkp ins rem ops empty) = take n (map_run ops Map.empty)
        \<and> (\<exists>k v. ops ! n = TInsert k v) \<and> tbl_run lkp ins rem ops empty ! n = Performed False)"
  using agree_prefix [OF run_agrees [OF empty_ok(1)]] assms empty_ok(2) by simp

end

end
