(* ===== verification/Hash_Table.thy ===== *)
theory Hash_Table
  imports Table_Spec
begin

text \<open>
  The cuckoo hash table of the network stack (\<^verbatim>\<open>hash_table/hash_table.cpp\<close>, \<^verbatim>\<open>hash_table.hpp\<close>), which
  keeps the session of each connection: nine tables with tabulation hashing, insertion by eviction.
  The content of the tabulation table (\<^verbatim>\<open>tabulation_table.txt\<close>) and the number of address bits, which
  depends on the number of sessions the stack is built for, are parameters.
\<close>

subsection \<open>Data\<close>

datatype kvOperation = KV_INSERT | KV_DELETE

datatype lookupSource = RX | TX_APP

record htEntry =
  he_key :: u64
  he_value :: u16
  he_valid :: bool

record htLookupReq =
  hl_key :: u64
  hl_source :: lookupSource

record htLookupResp =
  hp_key :: u64
  hp_value :: u16
  hp_hit :: bool
  hp_source :: lookupSource

record htUpdateReq =
  hu_op :: kvOperation
  hu_key :: u64
  hu_value :: u16
  hu_source :: lookupSource

record htUpdateResp =
  hr_op :: kvOperation
  hr_key :: u64
  hr_value :: u16
  hr_success :: bool
  hr_source :: lookupSource

fun ConstLog2 :: "nat \<Rightarrow> nat" where
  "ConstLog2 val = (if val \<le> 1 then 0 else 1 + ConstLog2 (val div 2))"

declare ConstLog2.simps [simp del]

abbreviation (input) NUM_TABLES :: nat where "NUM_TABLES \<equiv> 9"
abbreviation (input) MAX_TRIALS :: nat where "MAX_TRIALS \<equiv> 12"

definition TABLE_ADDRESS_BITS :: "nat \<Rightarrow> nat" where
  "TABLE_ADDRESS_BITS max_number_of_entries = ConstLog2 (max_number_of_entries div (NUM_TABLES - 1))"

record htCfg =
  tabulation_table :: "nat \<Rightarrow> bool \<Rightarrow> nat \<Rightarrow> u16"
  address_bits :: nat

record hashTable =
  cuckooTables :: "nat \<Rightarrow> u16 \<Rightarrow> htEntry"
  victimBit :: "1 word"
  insertFailureCounter :: u16

subsection \<open>Hashing\<close>

text \<open>\<open>calculate_hashes(key, hashes)\<close>: component \<open>i\<close> of \<open>hashes\<close>.\<close>

definition calculate_hashes :: "htCfg \<Rightarrow> u64 \<Rightarrow> nat \<Rightarrow> u16" where
  "calculate_hashes c key i =
     foldl (\<lambda>h k. xor h (take_bit (address_bits c) (tabulation_table c i (bit key k) k))) 0 [0..<64]"

text \<open>The loops that look for a slot keep the last one.\<close>

definition last_slot :: "(nat \<Rightarrow> bool) \<Rightarrow> nat option" where
  "last_slot P = foldl (\<lambda>slot i. if P i then Some i else slot) None [0..<NUM_TABLES]"

definition read_entries :: "(nat \<Rightarrow> u16) \<Rightarrow> hashTable \<Rightarrow> nat \<Rightarrow> htEntry" where
  "read_entries hashes t i = cuckooTables t i (hashes i)"

definition write_entries :: "(nat \<Rightarrow> u16) \<Rightarrow> (nat \<Rightarrow> htEntry) \<Rightarrow> hashTable \<Rightarrow> hashTable" where
  "write_entries hashes entries t =
     t\<lparr>cuckooTables := \<lambda>i h. if i < NUM_TABLES \<and> h = hashes i then entries i else cuckooTables t i h\<rparr>"

subsection \<open>Operations\<close>

text \<open>The value of a miss is not set by the code; it is given as 0.\<close>

definition ht_lookup :: "htCfg \<Rightarrow> htLookupReq \<Rightarrow> hashTable \<Rightarrow> htLookupResp" where
  "ht_lookup c req t =
     (let currentEntries = read_entries (calculate_hashes c (hl_key req)) t;
          slot = last_slot (\<lambda>i. he_valid (currentEntries i) \<and> he_key (currentEntries i) = hl_key req)
      in \<lparr>hp_key = hl_key req, hp_value = (case slot of Some i \<Rightarrow> he_value (currentEntries i) | None \<Rightarrow> 0),
          hp_hit = (slot \<noteq> None), hp_source = hl_source req\<rparr>)"

text \<open>The rounds of \<open>insertLoop\<close>: the entry under way goes to a free slot or takes the place of a
  victim. The result says whether a slot was found and which entry is left over otherwise.\<close>

fun insertLoop :: "htCfg \<Rightarrow> nat \<Rightarrow> htEntry \<Rightarrow> nat \<Rightarrow> hashTable \<Rightarrow> bool \<times> htEntry \<times> hashTable" where
  "insertLoop c 0 currentEntry victimIdx t = (False, currentEntry, t)"
| "insertLoop c (Suc trials) currentEntry victimIdx t =
     (let hashes = calculate_hashes c (he_key currentEntry);
          currentEntries = read_entries hashes t
      in case last_slot (\<lambda>i. \<not> he_valid (currentEntries i)) of
           Some slot \<Rightarrow>
             (True, currentEntry,
              (write_entries hashes (currentEntries(slot := currentEntry)) t)\<lparr>victimBit := victimBit t + 1\<rparr>)
         | None \<Rightarrow>
             (let victimPos = unat (hashes victimIdx) mod (NUM_TABLES - 1) + unat (victimBit t)
              in insertLoop c trials (currentEntries victimPos)
                   (if victimIdx + 1 = NUM_TABLES then 0 else victimIdx + 1)
                   ((write_entries hashes (currentEntries(victimPos := currentEntry)) t)
                      \<lparr>victimBit := victimBit t + 1\<rparr>)))"

definition ht_insert :: "htCfg \<Rightarrow> htUpdateReq \<Rightarrow> hashTable \<Rightarrow> htUpdateResp \<times> hashTable" where
  "ht_insert c req t =
     (let (success, left, t1) =
        insertLoop c MAX_TRIALS \<lparr>he_key = hu_key req, he_value = hu_value req, he_valid = True\<rparr> 0 t
      in (\<lparr>hr_op = hu_op req, hr_key = hu_key req, hr_value = hu_value req, hr_success = success,
           hr_source = hu_source req\<rparr>,
          if success then t1 else t1\<lparr>insertFailureCounter := insertFailureCounter t1 + 1\<rparr>))"

definition ht_remove :: "htCfg \<Rightarrow> htUpdateReq \<Rightarrow> hashTable \<Rightarrow> htUpdateResp \<times> hashTable" where
  "ht_remove c req t =
     (let hashes = calculate_hashes c (hu_key req);
          currentEntries = read_entries hashes t;
          found = (\<lambda>i. he_valid (currentEntries i) \<and> he_key (currentEntries i) = hu_key req)
      in (\<lparr>hr_op = hu_op req, hr_key = hu_key req, hr_value = hu_value req,
           hr_success = (last_slot found \<noteq> None), hr_source = hu_source req\<rparr>,
          write_entries hashes (\<lambda>i. if found i then (currentEntries i)\<lparr>he_valid := False\<rparr> else currentEntries i) t))"

text \<open>The module with its streams.\<close>

record hashModule =
  lup_req :: "htLookupReq stream"
  upd_req :: "htUpdateReq stream"
  lup_rsp :: "htLookupResp stream"
  upd_rsp :: "htUpdateResp stream"
  regInsertFailureCount :: u16
  ht :: hashTable

definition hash_table :: "htCfg \<Rightarrow> hashModule \<Rightarrow> hashModule" where
  "hash_table c s =
     (case lup_req s of
        req # q \<Rightarrow> s\<lparr>lup_req := q, lup_rsp := lup_rsp s @ [ht_lookup c req (ht s)]\<rparr>
      | [] \<Rightarrow>
       (case upd_req s of
          req # q \<Rightarrow>
            (if hu_op req = KV_INSERT
             then let (rsp, t) = ht_insert c req (ht s)
                  in s\<lparr>upd_req := q, upd_rsp := upd_rsp s @ [rsp], ht := t,
                       regInsertFailureCount := insertFailureCounter (ht s)\<rparr>
             else let (rsp, t) = ht_remove c req (ht s)
                  in s\<lparr>upd_req := q, upd_rsp := upd_rsp s @ [rsp], ht := t\<rparr>)
        | [] \<Rightarrow> s))"

definition ht_empty :: hashTable where
  "ht_empty = \<lparr>cuckooTables = (\<lambda>_ _. \<lparr>he_key = 0, he_value = 0, he_valid = False\<rparr>), victimBit = 0,
               insertFailureCounter = 0\<rparr>"

subsection \<open>The table as a map\<close>

lemma foldl_last:
  "foldl (\<lambda>slot i. if P i then Some i else slot) s xs =
     (case filter P (rev xs) of [] \<Rightarrow> s | i # _ \<Rightarrow> Some i)"
  by (induction xs rule: rev_induct) auto

lemma last_slot_Some: "last_slot P = Some i \<Longrightarrow> i < NUM_TABLES \<and> P i"
  unfolding last_slot_def foldl_last
  by (auto split: list.splits dest!: arg_cong [where f = set] simp del: upt_rec_numeral)

lemma last_slot_None: "last_slot P = None \<longleftrightarrow> (\<forall>i < NUM_TABLES. \<not> P i)"
proof -
  have "last_slot P = None \<longleftrightarrow> filter P (rev [0..<NUM_TABLES]) = []"
    unfolding last_slot_def foldl_last by (simp split: list.split del: upt_rec_numeral)
  then show ?thesis by (auto simp: filter_empty_conv simp del: upt_rec_numeral)
qed

type_synonym hashes = "u64 \<Rightarrow> nat \<Rightarrow> u16"
type_synonym rawTables = "nat \<Rightarrow> u16 \<Rightarrow> htEntry"

text \<open>Table \<open>i\<close> holds a binding; every valid entry is at its hash and no key is in two tables.\<close>

definition holds :: "hashes \<Rightarrow> rawTables \<Rightarrow> nat \<Rightarrow> u64 \<Rightarrow> u16 \<Rightarrow> bool" where
  "holds H T i k v \<longleftrightarrow> i < NUM_TABLES \<and> T i (H k i) = \<lparr>he_key = k, he_value = v, he_valid = True\<rparr>"

definition cuckoo_ok :: "hashes \<Rightarrow> rawTables \<Rightarrow> bool" where
  "cuckoo_ok H T \<longleftrightarrow> (\<forall>i < NUM_TABLES. \<forall>h. he_valid (T i h) \<longrightarrow> h = H (he_key (T i h)) i)
     \<and> (\<forall>i j k v w. holds H T i k v \<longrightarrow> holds H T j k w \<longrightarrow> i = j)"

definition cuckoo_map :: "hashes \<Rightarrow> rawTables \<Rightarrow> u64 \<Rightarrow> u16 option" where
  "cuckoo_map H T k =
     map_option (\<lambda>i. he_value (T i (H k i)))
       (last_slot (\<lambda>i. he_valid (T i (H k i)) \<and> he_key (T i (H k i)) = k))"

lemma entry_eq: "he_valid e \<and> he_key e = k \<longleftrightarrow> e = \<lparr>he_key = k, he_value = he_value e, he_valid = True\<rparr>"
  by (cases e) auto

lemma cuckoo_map_None: "cuckoo_map H T k = None \<longleftrightarrow> (\<forall>i v. \<not> holds H T i k v)"
  unfolding cuckoo_map_def holds_def by (auto simp: last_slot_None entry_eq)

lemma cuckoo_map_Some: "cuckoo_ok H T \<Longrightarrow> cuckoo_map H T k = Some v \<longleftrightarrow> (\<exists>i. holds H T i k v)"
proof
  assume "cuckoo_map H T k = Some v"
  then show "\<exists>i. holds H T i k v"
    unfolding cuckoo_map_def holds_def by (auto dest!: last_slot_Some simp: entry_eq)
next
  assume ok: "cuckoo_ok H T" and "\<exists>i. holds H T i k v"
  then obtain i where i: "holds H T i k v" by blast
  then obtain w where w: "cuckoo_map H T k = Some w" using cuckoo_map_None by fastforce
  then obtain j where j: "holds H T j k w"
    unfolding cuckoo_map_def holds_def by (auto dest!: last_slot_Some simp: entry_eq)
  from ok i j have "i = j" unfolding cuckoo_ok_def by blast
  with i j w show "cuckoo_map H T k = Some v" by (simp add: holds_def)
qed

subsection \<open>Placing an entry\<close>

definition put :: "nat \<Rightarrow> u16 \<Rightarrow> htEntry \<Rightarrow> rawTables \<Rightarrow> rawTables" where
  "put i h e T = T(i := (T i)(h := e))"

lemma holds_put:
  assumes "i < NUM_TABLES" "h = H (he_key e) i"
  shows "holds H (put i h e T) j k v \<longleftrightarrow>
    (if j = i \<and> H k j = h then e = \<lparr>he_key = k, he_value = v, he_valid = True\<rparr> else holds H T j k v)"
  using assms by (auto simp: holds_def put_def)

lemma holds_at:
  assumes "cuckoo_ok H T" "i < NUM_TABLES" "he_valid (T i h)"
  shows "holds H T i (he_key (T i h)) (he_value (T i h))"
proof -
  have "h = H (he_key (T i h)) i" using assms by (simp add: cuckoo_ok_def)
  then show ?thesis using assms(2,3) entry_eq [of "T i h"] unfolding holds_def by metis
qed

text \<open>An entry with a new key takes a slot: its binding is added and the one that was there is
  gone.\<close>

lemma put_ok:
  assumes ok: "cuckoo_ok H T" and i: "i < NUM_TABLES" and h: "h = H (he_key e) i" and e: "he_valid e"
    and new: "cuckoo_map H T (he_key e) = None"
  shows "cuckoo_ok H (put i h e T)"
    and "cuckoo_map H (put i h e T) =
      (if he_valid (T i h) then (cuckoo_map H T)(he_key (T i h) := None) else cuckoo_map H T)(he_key e \<mapsto> he_value e)"
proof -
  let ?T = "put i h e T"
  have none: "\<not> holds H T j (he_key e) v" for j v using new cuckoo_map_None by blast
  have own: "holds H ?T i (he_key e) (he_value e)"
    using i h e entry_eq [of e "he_key e"] by (simp add: holds_put)
  have old: "holds H T i k v \<Longrightarrow> H k i = h \<Longrightarrow> T i h = \<lparr>he_key = k, he_value = v, he_valid = True\<rparr>" for k v
    by (auto simp: holds_def)
  have iff: "holds H ?T j k v \<longleftrightarrow> (k = he_key e \<and> v = he_value e \<and> j = i) \<or> (holds H T j k v \<and> \<not> (j = i \<and> H k i = h))" for j k v
    using h i e none by (cases e) (auto simp: holds_put)
  show ok': "cuckoo_ok H ?T"
    unfolding cuckoo_ok_def
  proof (intro conjI allI impI)
    fix j a assume "j < NUM_TABLES" "he_valid (?T j a)"
    then show "a = H (he_key (?T j a)) j" using ok h by (auto simp: put_def cuckoo_ok_def)
  next
    fix j l k v w assume "holds H ?T j k v" "holds H ?T l k w"
    then show "j = l" unfolding iff using ok none unfolding cuckoo_ok_def by blast
  qed
  show "cuckoo_map H ?T =
      (if he_valid (T i h) then (cuckoo_map H T)(he_key (T i h) := None) else cuckoo_map H T)(he_key e \<mapsto> he_value e)"
    (is "_ = ?m(_ \<mapsto> _)")
  proof
    fix k
    have m: "?m k = Some v \<longleftrightarrow> (\<exists>j. holds H T j k v \<and> \<not> (j = i \<and> H k i = h))" for v
    proof
      assume "?m k = Some v"
      then have "cuckoo_map H T k = Some v" and k: "he_valid (T i h) \<longrightarrow> k \<noteq> he_key (T i h)"
        by (auto split: if_splits)
      then obtain j where "holds H T j k v" using cuckoo_map_Some [OF ok] by blast
      moreover from this have "\<not> (j = i \<and> H k i = h)" using old k by fastforce
      ultimately show "\<exists>j. holds H T j k v \<and> \<not> (j = i \<and> H k i = h)" by blast
    next
      assume "\<exists>j. holds H T j k v \<and> \<not> (j = i \<and> H k i = h)"
      then obtain j where j: "holds H T j k v" "\<not> (j = i \<and> H k i = h)" by blast
      have "k \<noteq> he_key (T i h)" if "he_valid (T i h)"
      proof
        assume k: "k = he_key (T i h)"
        with holds_at [OF ok i that] j(1) ok have "j = i" unfolding cuckoo_ok_def by blast
        moreover have "H k i = h" using k that ok i by (simp add: cuckoo_ok_def)
        ultimately show False using j(2) by simp
      qed
      then show "?m k = Some v" using j(1) cuckoo_map_Some [OF ok] by auto
    qed
    have "cuckoo_map H ?T k = Some v \<longleftrightarrow> (?m(he_key e \<mapsto> he_value e)) k = Some v" for v
    proof (cases "k = he_key e")
      case True
      then show ?thesis using none by (auto simp: cuckoo_map_Some [OF ok'] iff)
    next
      case False
      then show ?thesis using m by (simp add: cuckoo_map_Some [OF ok'] iff)
    qed
    then show "cuckoo_map H ?T k = (?m(he_key e \<mapsto> he_value e)) k"
      by (metis option.exhaust)
  qed
qed

subsection \<open>Operations on the map\<close>

abbreviation ht_ok :: "htCfg \<Rightarrow> hashTable \<Rightarrow> bool" where
  "ht_ok c t \<equiv> cuckoo_ok (calculate_hashes c) (cuckooTables t)"

abbreviation ht_map :: "htCfg \<Rightarrow> hashTable \<Rightarrow> u64 \<Rightarrow> u16 option" where
  "ht_map c t \<equiv> cuckoo_map (calculate_hashes c) (cuckooTables t)"

lemma write_put:
  "s < NUM_TABLES \<Longrightarrow> cuckooTables (write_entries hashes ((read_entries hashes t)(s := e)) t)
     = put s (hashes s) e (cuckooTables t)"
  by (auto simp: write_entries_def read_entries_def put_def fun_eq_iff)

lemma victim_in_range: "unat (h :: u16) mod 8 + unat (b :: 1 word) < NUM_TABLES"
proof -
  have "unat b < 2" using unsigned_less [of b, where 'a = nat] by simp
  moreover have "unat h mod 8 < 8" by simp
  ultimately show ?thesis by linarith
qed

lemma insertLoop_spec:
  assumes "insertLoop c n e vi t = (success, left, t')" "ht_ok c t" "he_valid e" "ht_map c t (he_key e) = None"
  shows "ht_ok c t' \<and> (if success then ht_map c t' = (ht_map c t)(he_key e \<mapsto> he_value e)
    else he_valid left \<and> ht_map c t' (he_key left) = None
         \<and> (ht_map c t')(he_key left \<mapsto> he_value left) = (ht_map c t)(he_key e \<mapsto> he_value e))"
  using assms
proof (induction n arbitrary: e vi t)
  case (Suc n)
  let ?h = "calculate_hashes c (he_key e)"
  let ?E = "read_entries ?h t"
  show ?case
  proof (cases "last_slot (\<lambda>i. \<not> he_valid (?E i))")
    case (Some slot)
    then have s: "slot < NUM_TABLES" "\<not> he_valid (cuckooTables t slot (?h slot))"
      by (auto dest!: last_slot_Some simp: read_entries_def)
    have r: "success" "cuckooTables t' = put slot (?h slot) e (cuckooTables t)"
      using Suc.prems(1) Some s(1) by (auto simp: Let_def write_put)
    show ?thesis using put_ok [OF Suc.prems(2) s(1) refl Suc.prems(3,4)] s(2) r by simp
  next
    case None
    define pos where "pos = unat (?h vi) mod 8 + unat (victimBit t)"
    have pos: "pos < NUM_TABLES" unfolding pos_def by (rule victim_in_range)
    define v where "v = cuckooTables t pos (?h pos)"
    have v: "he_valid v" using None pos by (simp add: last_slot_None read_entries_def v_def)
    define t1 where "t1 = (write_entries ?h (?E(pos := e)) t)\<lparr>victimBit := victimBit t + 1\<rparr>"
    have t1: "cuckooTables t1 = put pos (?h pos) e (cuckooTables t)" using pos by (simp add: t1_def write_put)
    have step: "insertLoop c n v (if vi + 1 = NUM_TABLES then 0 else vi + 1) t1 = (success, left, t')"
      using Suc.prems(1) None by (simp add: Let_def pos_def v_def t1_def read_entries_def)
    have ok: "ht_ok c t1" using put_ok(1) [OF Suc.prems(2) pos refl Suc.prems(3,4)] by (simp add: t1)
    have m: "ht_map c t1 = (ht_map c t)(he_key v := None, he_key e \<mapsto> he_value e)"
      using put_ok(2) [OF Suc.prems(2) pos refl Suc.prems(3,4)] v by (simp add: t1 v_def)
    have mv: "ht_map c t (he_key v) = Some (he_value v)"
      using holds_at [OF Suc.prems(2) pos] v cuckoo_map_Some [OF Suc.prems(2)] by (auto simp: v_def)
    then have ne: "he_key v \<noteq> he_key e" using Suc.prems(4) by auto
    have full: "(ht_map c t1)(he_key v \<mapsto> he_value v) = (ht_map c t)(he_key e \<mapsto> he_value e)"
      using m mv ne by (auto simp: fun_eq_iff)
    show ?thesis using Suc.IH [OF step ok v] m ne full by simp
  qed
qed simp

lemma ht_lookup_spec: "ht_lookup c req t =
  \<lparr>hp_key = hl_key req, hp_value = (case ht_map c t (hl_key req) of Some v \<Rightarrow> v | None \<Rightarrow> 0),
   hp_hit = (ht_map c t (hl_key req) \<noteq> None), hp_source = hl_source req\<rparr>"
  by (simp add: ht_lookup_def cuckoo_map_def read_entries_def Let_def split: option.split)

lemma ht_insert_spec:
  assumes "ht_insert c req t = (rsp, t')" "ht_ok c t" "ht_map c t (hu_key req) = None"
  shows "ht_ok c t' \<and> (if hr_success rsp then ht_map c t' = (ht_map c t)(hu_key req \<mapsto> hu_value req)
    else \<exists>k v. ht_map c t' k = None \<and> (ht_map c t')(k \<mapsto> v) = (ht_map c t)(hu_key req \<mapsto> hu_value req))"
proof -
  let ?e = "\<lparr>he_key = hu_key req, he_value = hu_value req, he_valid = True\<rparr>"
  obtain success left t1 where l: "insertLoop c MAX_TRIALS ?e 0 t = (success, left, t1)" by (metis prod_cases3)
  have r: "hr_success rsp = success" "cuckooTables t' = cuckooTables t1"
    using assms(1) l unfolding ht_insert_def Let_def by auto
  show ?thesis
  proof (cases success)
    case True
    then show ?thesis using insertLoop_spec [OF l assms(2)] assms(3) r by simp
  next
    case False
    then have "ht_ok c t' \<and> ht_map c t' (he_key left) = None
        \<and> (ht_map c t')(he_key left \<mapsto> he_value left) = (ht_map c t)(hu_key req \<mapsto> hu_value req)"
      using insertLoop_spec [OF l assms(2)] assms(3) r by simp
    then show ?thesis using False r(1) by auto
  qed
qed

lemma invalid_entry [simp]: "e\<lparr>he_valid := False\<rparr> \<noteq> \<lparr>he_key = k, he_value = v, he_valid = True\<rparr>"
  by (cases e) simp

lemma ht_remove_spec:
  assumes "ht_remove c req t = (rsp, t')" "ht_ok c t"
  shows "ht_ok c t' \<and> ht_map c t' = (ht_map c t)(hu_key req := None)
    \<and> (hr_success rsp \<longleftrightarrow> ht_map c t (hu_key req) \<noteq> None)"
proof -
  let ?H = "calculate_hashes c" and ?T = "cuckooTables t" and ?T' = "cuckooTables t'" and ?k = "hu_key req"
  have T': "?T' i h = (if i < NUM_TABLES \<and> h = ?H ?k i \<and> he_valid (?T i h) \<and> he_key (?T i h) = ?k
      then (?T i h)\<lparr>he_valid := False\<rparr> else ?T i h)" for i h
    using assms(1) by (auto simp: ht_remove_def Let_def write_entries_def read_entries_def)
  have iff: "holds ?H ?T' i k v \<longleftrightarrow> holds ?H ?T i k v \<and> k \<noteq> ?k" for i k v
    by (auto simp: holds_def T')
  have ok: "ht_ok c t'"
    unfolding cuckoo_ok_def
  proof (intro conjI allI impI)
    fix i h assume "i < NUM_TABLES" "he_valid (?T' i h)"
    then show "h = ?H (he_key (?T' i h)) i" using assms(2) by (auto simp: T' cuckoo_ok_def split: if_splits)
  next
    fix i j k v w assume "holds ?H ?T' i k v" "holds ?H ?T' j k w"
    then show "i = j" using assms(2) unfolding iff cuckoo_ok_def by blast
  qed
  have "ht_map c t' k = ((ht_map c t)(?k := None)) k" for k
  proof (cases "ht_map c t' k")
    case None
    then show ?thesis using cuckoo_map_None [of ?H ?T' k] cuckoo_map_None [of ?H ?T k] iff by auto
  next
    case (Some v)
    then show ?thesis using cuckoo_map_Some [OF ok, of k v] cuckoo_map_Some [OF assms(2), of k v] iff by auto
  qed
  moreover have "hr_success rsp \<longleftrightarrow> ht_map c t ?k \<noteq> None"
    using assms(1) by (auto simp: ht_remove_def Let_def cuckoo_map_def read_entries_def)
  ultimately show ?thesis using ok by auto
qed

lemma ht_empty_ok: "ht_ok c ht_empty" "ht_map c ht_empty = Map.empty"
proof -
  show ok: "ht_ok c ht_empty" by (simp add: cuckoo_ok_def ht_empty_def holds_def)
  show "ht_map c ht_empty = Map.empty"
    by (rule ext, rule ccontr) (auto simp: cuckoo_map_Some [OF ok], simp add: holds_def ht_empty_def)
qed

subsection \<open>The table as its clients use it\<close>

definition ht_lkp :: "htCfg \<Rightarrow> u64 \<Rightarrow> hashTable \<Rightarrow> u16 option" where
  "ht_lkp c k t =
     (let r = ht_lookup c \<lparr>hl_key = k, hl_source = RX\<rparr> t in if hp_hit r then Some (hp_value r) else None)"

definition ht_ins :: "htCfg \<Rightarrow> u64 \<Rightarrow> u16 \<Rightarrow> hashTable \<Rightarrow> bool \<times> hashTable" where
  "ht_ins c k v t =
     (case ht_insert c \<lparr>hu_op = KV_INSERT, hu_key = k, hu_value = v, hu_source = RX\<rparr> t of (r, t') \<Rightarrow> (hr_success r, t'))"

definition ht_rem :: "htCfg \<Rightarrow> u64 \<Rightarrow> hashTable \<Rightarrow> bool \<times> hashTable" where
  "ht_rem c k t =
     (case ht_remove c \<lparr>hu_op = KV_DELETE, hu_key = k, hu_value = 0, hu_source = RX\<rparr> t of (r, t') \<Rightarrow> (hr_success r, t'))"

interpretation cuckoo: assoc_table "ht_ok c" "ht_map c" ht_empty "ht_lkp c" "ht_ins c" "ht_rem c" for c
proof (unfold_locales, goal_cases)
  case (3 t k)
  then show ?case by (auto simp: ht_lkp_def ht_lookup_spec)
next
  case (4 t k v b t')
  let ?q = "\<lparr>hu_op = KV_INSERT, hu_key = k, hu_value = v, hu_source = RX\<rparr>"
  obtain r where r: "ht_insert c ?q t = (r, t')" "b = hr_success r"
    using 4(3) by (auto simp: ht_ins_def split: prod.splits)
  have "hu_key ?q = k" "hu_value ?q = v" by simp_all
  then show ?case using ht_insert_spec [OF r(1) 4(1)] 4(2) r(2) by metis
next
  case (5 t k b t')
  let ?q = "\<lparr>hu_op = KV_DELETE, hu_key = k, hu_value = 0, hu_source = RX\<rparr>"
  obtain r where r: "ht_remove c ?q t = (r, t')" "b = hr_success r"
    using 5(2) by (auto simp: ht_rem_def split: prod.splits)
  show ?case using ht_remove_spec [OF r(1) 5(1)] r(2) by simp
qed (simp_all add: ht_empty_ok)

text \<open>C3. The cuckoo table implements a map: for every tabulation table and table size, a client
  that inserts only absent keys gets from any sequence of lookups, insertions and removals the answers
  a map would give, up to the first insertion that reports a failure. The evictions of an insertion
  are not visible.\<close>

theorem cuckoo_refines_map:
  assumes "legal ops Map.empty"
  shows "tbl_run (ht_lkp c) (ht_ins c) (ht_rem c) ops ht_empty = map_run ops Map.empty
    \<or> (\<exists>n < length ops. take n (tbl_run (ht_lkp c) (ht_ins c) (ht_rem c) ops ht_empty) = take n (map_run ops Map.empty)
        \<and> (\<exists>k v. ops ! n = TInsert k v) \<and> tbl_run (ht_lkp c) (ht_ins c) (ht_rem c) ops ht_empty ! n = Performed False)"
  using cuckoo.run_refines [OF assms] .

theorem cuckoo_refines_map_witness:
  "let c = \<lparr>tabulation_table = \<lambda>_ _ _. 0, address_bits = 6\<rparr>;
       ops = [TInsert 7 1, TInsert 8 2, TLookup 7, TRemove 7, TLookup 7, TLookup 8]
   in legal ops Map.empty
      \<and> (tbl_run (ht_lkp c) (ht_ins c) (ht_rem c) ops ht_empty
           = [Performed True, Performed True, Found (Some 1), Performed True, Found None, Found (Some 2)]
         \<or> Performed False \<in> set (tbl_run (ht_lkp c) (ht_ins c) (ht_rem c) ops ht_empty))"
proof -
  let ?c = "\<lparr>tabulation_table = \<lambda>_ _ _. 0, address_bits = 6\<rparr>"
  let ?ops = "[TInsert 7 1, TInsert 8 2, TLookup 7, TRemove 7, TLookup 7, TLookup 8] :: (u64, u16) tblOp list"
  have l: "legal ?ops Map.empty" by simp
  have m: "map_run ?ops Map.empty
      = [Performed True, Performed True, Found (Some 1), Performed True, Found None, Found (Some 2)]" by simp
  have len: "length (tbl_run (ht_lkp ?c) (ht_ins ?c) (ht_rem ?c) ops t) = length ops" for ops t
    by (induction ops arbitrary: t) (auto split: prod.splits)
  show ?thesis
    using cuckoo_refines_map [OF l, of ?c] l m unfolding Let_def by (metis len nth_mem)
qed

subsection \<open>Space\<close>

lemma insertLoop_full:
  assumes "\<And>k i. i < NUM_TABLES \<Longrightarrow> he_valid (cuckooTables t i (calculate_hashes c k i))" "he_valid e"
  shows "\<not> fst (insertLoop c n e vi t)"
  using assms
proof (induction n arbitrary: e vi t)
  case (Suc n)
  let ?h = "calculate_hashes c (he_key e)"
  have none: "last_slot (\<lambda>i. \<not> he_valid (read_entries ?h t i)) = None"
    using Suc.prems(1) by (simp add: last_slot_None read_entries_def)
  define pos where "pos = unat (?h vi) mod 8 + unat (victimBit t)"
  have "he_valid (read_entries ?h t pos)"
    using Suc.prems(1) victim_in_range by (simp add: read_entries_def pos_def)
  moreover have "he_valid (cuckooTables ((write_entries ?h ((read_entries ?h t)(pos := e)) t)\<lparr>victimBit := b\<rparr>)
      i (calculate_hashes c k i))" if "i < NUM_TABLES" for k i b
    using that Suc.prems by (simp add: write_entries_def read_entries_def)
  ultimately show ?case using none Suc.IH by (simp add: Let_def pos_def)
qed simp

text \<open>A failed insertion costs a connection: the table keeps its invariant, but with the key
  inserted one binding is missing, in general another one than the new; the answer names the new key
  and nothing tells which was lost. Every insertion into a table without a free slot fails.\<close>

theorem failed_insert_drops_entry:
  assumes "ht_insert c req t = (rsp, t')" "ht_ok c t" "ht_map c t (hu_key req) = None" "\<not> hr_success rsp"
  shows "\<exists>k v. ((ht_map c t)(hu_key req \<mapsto> hu_value req)) k = Some v
      \<and> ht_map c t' = ((ht_map c t)(hu_key req \<mapsto> hu_value req))(k := None)
      \<and> hr_key rsp = hu_key req"
proof -
  obtain k v where k: "ht_map c t' k = None" "(ht_map c t')(k \<mapsto> v) = (ht_map c t)(hu_key req \<mapsto> hu_value req)"
    using ht_insert_spec [OF assms(1-3)] assms(4) by auto
  have "ht_map c t' = ((ht_map c t')(k \<mapsto> v))(k := None)" using k(1) by (auto simp: fun_eq_iff)
  moreover have "((ht_map c t')(k \<mapsto> v)) k = Some v" by simp
  moreover have "hr_key rsp = hu_key req" using assms(1) by (auto simp: ht_insert_def Let_def split: prod.splits)
  ultimately show ?thesis using k(2) by metis
qed

text \<open>The smallest table: one slot in each of the nine.\<close>

definition tiny :: htCfg where
  "tiny = \<lparr>tabulation_table = \<lambda>_ _ _. 0, address_bits = 0\<rparr>"

definition full_table :: hashTable where
  "full_table = \<lparr>cuckooTables = (\<lambda>i h. \<lparr>he_key = of_nat i, he_value = of_nat i, he_valid = (h = 0)\<rparr>),
                 victimBit = 0, insertFailureCounter = 0\<rparr>"

lemma tiny_hash [simp]: "calculate_hashes tiny k i = 0"
proof -
  have "foldl (\<lambda>h _. h) a xs = a" for a :: u16 and xs :: "nat list" by (induction xs) auto
  then show ?thesis by (simp add: calculate_hashes_def tiny_def del: upt_rec_numeral)
qed

lemma small_key: "i < NUM_TABLES \<Longrightarrow> (of_nat i :: u64) = x \<longleftrightarrow> unat x = i"
  by (auto simp: unat_of_nat)

lemma full_table_ok: "ht_ok tiny full_table"
  unfolding cuckoo_ok_def by (auto simp: full_table_def holds_def small_key unat_of_nat)

theorem failed_insert_drops_entry_witness:
  "let req = \<lparr>hu_op = KV_INSERT, hu_key = 77, hu_value = 5, hu_source = RX\<rparr>;
       (rsp, t') = ht_insert tiny req full_table
   in \<not> hr_success rsp \<and> (\<exists>k v. ((ht_map tiny full_table)(77 \<mapsto> 5)) k = Some v \<and> ht_map tiny t' k = None)"
proof -
  let ?q = "\<lparr>hu_op = KV_INSERT, hu_key = 77, hu_value = 5, hu_source = RX\<rparr>"
  obtain rsp t' where r: "ht_insert tiny ?q full_table = (rsp, t')" by fastforce
  have n: "ht_map tiny full_table (hu_key ?q) = None"
    unfolding cuckoo_map_None by (auto simp: holds_def full_table_def small_key)
  have "\<not> fst (insertLoop tiny MAX_TRIALS \<lparr>he_key = 77, he_value = 5, he_valid = True\<rparr> 0 full_table)"
    by (rule insertLoop_full) (simp_all add: full_table_def)
  then have f: "\<not> hr_success rsp" using r by (auto simp: ht_insert_def Let_def split: prod.splits)
  from failed_insert_drops_entry [OF r full_table_ok n f] f show ?thesis
    unfolding Let_def r by auto
qed

lemma hash_range: "unat (calculate_hashes c k i) < 2 ^ address_bits c"
proof -
  have "take_bit (address_bits c) (foldl (\<lambda>h n. xor h (take_bit (address_bits c) (f n))) a xs)
      = foldl (\<lambda>h n. xor h (take_bit (address_bits c) (f n))) a xs"
    if "take_bit (address_bits c) a = a" for f :: "nat \<Rightarrow> u16" and a xs
    using that by (induction xs arbitrary: a) (simp_all add: take_bit_xor)
  then have "take_bit (address_bits c) (calculate_hashes c k i) = calculate_hashes c k i"
    unfolding calculate_hashes_def by (simp del: upt_rec_numeral)
  then have "unat (calculate_hashes c k i) = take_bit (address_bits c) (unat (calculate_hashes c k i))"
    by (metis unsigned_take_bit_eq)
  then show ?thesis by (metis take_bit_nat_less_exp)
qed

text \<open>The table holds at most nine entries per address: at any time at most
  \<open>9 * 2 ^ address_bits\<close> keys are bound. With the default of 1000 sessions the address has six bits
  (the logarithm is rounded down), so there is room for 576 connections only.\<close>

theorem table_capacity:
  assumes "ht_ok c t"
  shows "card (dom (ht_map c t)) \<le> NUM_TABLES * 2 ^ address_bits c
    \<and> NUM_TABLES * 2 ^ TABLE_ADDRESS_BITS 1000 = (576 :: nat)"
proof -
  let ?slots = "{0..<NUM_TABLES} \<times> {0..<(2::nat) ^ address_bits c}"
  let ?key = "\<lambda>(i, h). he_key (cuckooTables t i (of_nat h))"
  have "dom (ht_map c t) \<subseteq> ?key ` ?slots"
  proof
    fix k assume "k \<in> dom (ht_map c t)"
    then obtain i v where "holds (calculate_hashes c) (cuckooTables t) i k v"
      using cuckoo_map_Some [OF assms] by auto
    then have "i < NUM_TABLES" "he_key (cuckooTables t i (of_nat (unat (calculate_hashes c k i)))) = k"
      by (auto simp: holds_def)
    then show "k \<in> ?key ` ?slots" using hash_range [of c k i] by force
  qed
  then have "card (dom (ht_map c t)) \<le> card (?key ` ?slots)" by (intro card_mono) auto
  also have "\<dots> \<le> NUM_TABLES * 2 ^ address_bits c"
    by (rule order_trans [OF card_image_le]) auto
  finally show ?thesis by (simp add: TABLE_ADDRESS_BITS_def ConstLog2.simps)
qed

theorem table_capacity_witness: "card (dom (ht_map tiny full_table)) \<le> 9"
  using table_capacity [OF full_table_ok] by (simp add: tiny_def)

end
