(* ===== verification/Toe_Sessions.thy ===== *)
theory Toe_Sessions
  imports Toe_Types Hash_Table "HOL-Library.Multiset"
begin

text \<open>
  The session lookup controller of the TCP engine (\<^verbatim>\<open>toe/session_lookup_controller\<close>): session ids are
  handed out and taken back, lookups go to the hash table and create sessions on a miss, the reverse
  table maps a session to its connection. The hash table answers through streams; it copies operation,
  key, id and source of a request into its answer.
\<close>

subsection \<open>Data\<close>

type_synonym u14 = "14 word"

datatype lookupOp = INSERT | DELETE

datatype threeTupleInternal = ThreeTuple (theirIp: u32) (myPort: u16) (theirPort: u16)

text \<open>\<open>operator <\<close>: the lexicographic order, which the simulation's \<open>std::map\<close> needs.\<close>

definition threeTuple_less :: "threeTupleInternal \<Rightarrow> threeTupleInternal \<Rightarrow> bool" where
  "threeTuple_less a b \<longleftrightarrow>
     (if theirIp a < theirIp b then True
      else if theirIp a = theirIp b then
        (if myPort a < myPort b then True
         else if myPort a = myPort b then (if theirPort a < theirPort b then True else False)
         else False)
      else False)"

instantiation threeTupleInternal :: linorder
begin

definition less_threeTupleInternal :: "threeTupleInternal \<Rightarrow> threeTupleInternal \<Rightarrow> bool" where
  "a < b \<longleftrightarrow> threeTuple_less a b"

definition less_eq_threeTupleInternal :: "threeTupleInternal \<Rightarrow> threeTupleInternal \<Rightarrow> bool" where
  "a \<le> b \<longleftrightarrow> a = b \<or> a < (b :: threeTupleInternal)"

instance
proof
  fix a b c :: threeTupleInternal
  show "a < b \<longleftrightarrow> a \<le> b \<and> \<not> b \<le> a"
    by (auto simp: less_eq_threeTupleInternal_def less_threeTupleInternal_def threeTuple_less_def split: if_splits)
  show "a \<le> a" by (simp add: less_eq_threeTupleInternal_def)
  show "a \<le> b \<Longrightarrow> b \<le> c \<Longrightarrow> a \<le> c"
    by (auto simp: less_eq_threeTupleInternal_def less_threeTupleInternal_def threeTuple_less_def split: if_splits)
  show "a \<le> b \<Longrightarrow> b \<le> a \<Longrightarrow> a = b"
    by (auto simp: less_eq_threeTupleInternal_def less_threeTupleInternal_def threeTuple_less_def split: if_splits)
  show "a \<le> b \<or> b \<le> a"
    by (cases a; cases b) (auto simp: less_eq_threeTupleInternal_def less_threeTupleInternal_def threeTuple_less_def split: if_splits)
qed

end

record sessionLookupQueryInternal =
  qi_tuple :: threeTupleInternal
  qi_allowCreation :: bool
  qi_source :: lookupSource

record rtlSessionLookupRequest =
  sl_key :: threeTupleInternal
  sl_source :: lookupSource

record rtlSessionUpdateRequest =
  su_op :: lookupOp
  su_key :: threeTupleInternal
  su_value :: u16
  su_source :: lookupSource

record rtlSessionLookupReply =
  sr_key :: threeTupleInternal
  sr_sessionID :: u16
  sr_hit :: bool
  sr_source :: lookupSource

record rtlSessionUpdateReply =
  ur_op :: lookupOp
  ur_key :: threeTupleInternal
  ur_sessionID :: u16
  ur_success :: bool
  ur_source :: lookupSource

record revLupInsert =
  rl_key :: u16
  rl_value :: threeTupleInternal

datatype slcFsmStateType = LUP_REQ | LUP_RSP | UPD_RSP

record slc =
  rxEng2sLookup_req :: "sessionLookupQuery stream"
  txApp2sLookup_req :: "fourTuple stream"
  stateTable_releaseSession :: "u16 stream"
  txEng2sLookup_rev_req :: "u16 stream"
  sLookup2rxEng_rsp :: "sessionLookupReply stream"
  sLookup2txApp_rsp :: "sessionLookupReply stream"
  sLookup_releasePort :: "u16 stream"
  sLookup2txEng_rev_rsp :: "fourTuple stream"
  sessionLookup_req :: "rtlSessionLookupRequest stream"
  sessionLookup_rsp :: "rtlSessionLookupReply stream"
  sessionUpdate_req :: "rtlSessionUpdateRequest stream"
  sessionUpdate_rsp :: "rtlSessionUpdateReply stream"
  regSessionCount :: u16
  sessionIdFreeList :: "u14 stream"
  sessionIdFinFifo :: "u14 stream"
  sessionInsert_rsp :: "rtlSessionUpdateReply stream"
  sessionInsert_req :: "rtlSessionUpdateRequest stream"
  sessionDelete_req :: "rtlSessionUpdateRequest stream"
  reverseLupInsertFifo :: "revLupInsert stream"
  slc_insertTuples :: "threeTupleInternal stream"
  slc_queryCache :: "sessionLookupQueryInternal stream"
  slc_fsmState :: slcFsmStateType
  sid_counter :: u14
  usedSessionIDs :: u16
  reverseLookupTable :: "u16 \<Rightarrow> threeTupleInternal"
  tupleValid :: "u16 \<Rightarrow> bool"

definition slc_init :: slc where
  "slc_init = \<lparr>rxEng2sLookup_req = [], txApp2sLookup_req = [], stateTable_releaseSession = [],
     txEng2sLookup_rev_req = [], sLookup2rxEng_rsp = [], sLookup2txApp_rsp = [], sLookup_releasePort = [],
     sLookup2txEng_rev_rsp = [], sessionLookup_req = [], sessionLookup_rsp = [], sessionUpdate_req = [],
     sessionUpdate_rsp = [], regSessionCount = 0, sessionIdFreeList = [], sessionIdFinFifo = [],
     sessionInsert_rsp = [], sessionInsert_req = [], sessionDelete_req = [], reverseLupInsertFifo = [],
     slc_insertTuples = [], slc_queryCache = [], slc_fsmState = LUP_REQ, sid_counter = 0, usedSessionIDs = 0,
     reverseLookupTable = (\<lambda>_. ThreeTuple 0 0 0), tupleValid = (\<lambda>_. False)\<rparr>"

subsection \<open>Operations\<close>

definition sessionIdManager :: "toeCfg \<Rightarrow> slc \<Rightarrow> slc" where
  "sessionIdManager c s =
     (case sessionIdFinFifo s of
        sessionID # q \<Rightarrow> s\<lparr>sessionIdFinFifo := q, sessionIdFreeList := sessionIdFreeList s @ [sessionID]\<rparr>
      | [] \<Rightarrow>
          if ucast (sid_counter s) < MAX_SESSIONS c
          then s\<lparr>sessionIdFreeList := sessionIdFreeList s @ [sid_counter s], sid_counter := sid_counter s + 1\<rparr>
          else s)"

text \<open>The two kinds of requests, in the internal view of a connection.\<close>

definition slc_request :: "sessionLookupQueryInternal \<Rightarrow> slc \<Rightarrow> slc" where
  "slc_request q s =
     s\<lparr>sessionLookup_req := sessionLookup_req s @ [\<lparr>sl_key = qi_tuple q, sl_source = qi_source q\<rparr>],
       slc_queryCache := slc_queryCache s @ [q], slc_fsmState := LUP_RSP\<rparr>"

definition tx_query :: "fourTuple \<Rightarrow> sessionLookupQueryInternal" where
  "tx_query t = \<lparr>qi_tuple = ThreeTuple (dstIp t) (srcPort t) (dstPort t), qi_allowCreation = True, qi_source = TX_APP\<rparr>"

definition rx_query :: "sessionLookupQuery \<Rightarrow> sessionLookupQueryInternal" where
  "rx_query q = \<lparr>qi_tuple = ThreeTuple (srcIp (slq_tuple q)) (dstPort (slq_tuple q)) (srcPort (slq_tuple q)),
                 qi_allowCreation = slq_allowCreation q, qi_source = RX\<rparr>"

definition slc_reply :: "lookupSource \<Rightarrow> u16 \<Rightarrow> bool \<Rightarrow> slc \<Rightarrow> slc" where
  "slc_reply src sid hit s =
     (let r = \<lparr>slr_sessionID = sid, slr_hit = hit\<rparr>
      in if src = RX then s\<lparr>sLookup2rxEng_rsp := sLookup2rxEng_rsp s @ [r]\<rparr>
         else s\<lparr>sLookup2txApp_rsp := sLookup2txApp_rsp s @ [r]\<rparr>)"

definition lookupReplyHandler :: "slc \<Rightarrow> slc" where
  "lookupReplyHandler s =
     (case slc_fsmState s of
        LUP_REQ \<Rightarrow>
          (case txApp2sLookup_req s of
             t # q \<Rightarrow> slc_request (tx_query t) (s\<lparr>txApp2sLookup_req := q\<rparr>)
           | [] \<Rightarrow>
              (case rxEng2sLookup_req s of
                 r # q \<Rightarrow> slc_request (rx_query r) (s\<lparr>rxEng2sLookup_req := q\<rparr>)
               | [] \<Rightarrow> s))
      | LUP_RSP \<Rightarrow>
          (case (sessionLookup_rsp s, slc_queryCache s) of
             (lupReply # q, intQuery # qs) \<Rightarrow>
               (let s1 = s\<lparr>sessionLookup_rsp := q, slc_queryCache := qs\<rparr>
                in if \<not> sr_hit lupReply \<and> qi_allowCreation intQuery \<and> sessionIdFreeList s \<noteq> []
                   then s1\<lparr>sessionIdFreeList := tl (sessionIdFreeList s),
                           sessionInsert_req := sessionInsert_req s
                             @ [\<lparr>su_op = INSERT, su_key = qi_tuple intQuery, su_value = ucast (hd (sessionIdFreeList s)),
                                 su_source = sr_source lupReply\<rparr>],
                           slc_insertTuples := slc_insertTuples s @ [qi_tuple intQuery], slc_fsmState := UPD_RSP\<rparr>
                   else (slc_reply (sr_source lupReply) (sr_sessionID lupReply) (sr_hit lupReply) s1)
                          \<lparr>slc_fsmState := LUP_REQ\<rparr>)
           | _ \<Rightarrow> s)
      | UPD_RSP \<Rightarrow>
          (case (sessionInsert_rsp s, slc_insertTuples s) of
             (insertReply # q, tuple # ts) \<Rightarrow>
               (slc_reply (ur_source insertReply) (ur_sessionID insertReply) True
                  (s\<lparr>sessionInsert_rsp := q, slc_insertTuples := ts\<rparr>))
                 \<lparr>reverseLupInsertFifo := reverseLupInsertFifo s
                    @ [\<lparr>rl_key = ur_sessionID insertReply, rl_value = tuple\<rparr>],
                  slc_fsmState := LUP_REQ\<rparr>
           | _ \<Rightarrow> s))"

definition updateRequestSender :: "slc \<Rightarrow> slc" where
  "updateRequestSender s =
     (case sessionInsert_req s of
        r # q \<Rightarrow> s\<lparr>sessionInsert_req := q, sessionUpdate_req := sessionUpdate_req s @ [r],
                   usedSessionIDs := usedSessionIDs s + 1, regSessionCount := usedSessionIDs s + 1\<rparr>
      | [] \<Rightarrow>
          (case sessionDelete_req s of
             r # q \<Rightarrow> s\<lparr>sessionDelete_req := q, sessionUpdate_req := sessionUpdate_req s @ [r],
                        sessionIdFinFifo := sessionIdFinFifo s @ [ucast (su_value r)],
                        usedSessionIDs := usedSessionIDs s - 1, regSessionCount := usedSessionIDs s - 1\<rparr>
           | [] \<Rightarrow> s))"

definition updateReplyHandler :: "slc \<Rightarrow> slc" where
  "updateReplyHandler s =
     (case sessionUpdate_rsp s of
        upReply # q \<Rightarrow>
          (let s1 = s\<lparr>sessionUpdate_rsp := q\<rparr>
           in if ur_op upReply = INSERT then s1\<lparr>sessionInsert_rsp := sessionInsert_rsp s @ [upReply]\<rparr> else s1)
      | [] \<Rightarrow> s)"

definition reverseLookupTableInterface :: "u32 \<Rightarrow> slc \<Rightarrow> slc" where
  "reverseLookupTableInterface myIpAddress s =
     (case reverseLupInsertFifo s of
        i # q \<Rightarrow>
          s\<lparr>reverseLupInsertFifo := q, reverseLookupTable := (reverseLookupTable s)(rl_key i := rl_value i),
            tupleValid := (tupleValid s)(rl_key i := True)\<rparr>
      | [] \<Rightarrow>
          (case stateTable_releaseSession s of
             sessionID # q \<Rightarrow>
               (let s1 = s\<lparr>stateTable_releaseSession := q, tupleValid := (tupleValid s)(sessionID := False)\<rparr>;
                    releaseTuple = reverseLookupTable s sessionID
                in if tupleValid s sessionID
                   then s1\<lparr>sLookup_releasePort := sLookup_releasePort s @ [myPort releaseTuple],
                           sessionDelete_req := sessionDelete_req s
                             @ [\<lparr>su_op = DELETE, su_key = releaseTuple, su_value = sessionID, su_source = RX\<rparr>]\<rparr>
                   else s1)
           | [] \<Rightarrow>
               (case txEng2sLookup_rev_req s of
                  sessionID # q \<Rightarrow>
                    (let t = reverseLookupTable s sessionID
                     in s\<lparr>txEng2sLookup_rev_req := q,
                          sLookup2txEng_rev_rsp := sLookup2txEng_rev_rsp s
                            @ [\<lparr>srcIp = myIpAddress, dstIp = theirIp t, srcPort = myPort t, dstPort = theirPort t\<rparr>]\<rparr>)
                | [] \<Rightarrow> s)))"

definition session_lookup_controller :: "toeCfg \<Rightarrow> u32 \<Rightarrow> slc \<Rightarrow> slc" where
  "session_lookup_controller c myIpAddress s =
     reverseLookupTableInterface myIpAddress
       (updateReplyHandler (updateRequestSender (lookupReplyHandler (sessionIdManager c s))))"

text \<open>The environment: requests, releases, and the hash table taking up the oldest lookup or update
  and answering it.\<close>

datatype slcIn = SlcRx sessionLookupQuery | SlcTx fourTuple | SlcRelease u16 | SlcRev u16
  | SlcTableLookup bool u16 | SlcTableUpdate bool | SlcCall

fun slc_step :: "toeCfg \<Rightarrow> u32 \<Rightarrow> slcIn \<Rightarrow> slc \<Rightarrow> slc" where
  "slc_step c ip (SlcRx q) s = s\<lparr>rxEng2sLookup_req := rxEng2sLookup_req s @ [q]\<rparr>"
| "slc_step c ip (SlcTx q) s = s\<lparr>txApp2sLookup_req := txApp2sLookup_req s @ [q]\<rparr>"
| "slc_step c ip (SlcRelease i) s = s\<lparr>stateTable_releaseSession := stateTable_releaseSession s @ [i]\<rparr>"
| "slc_step c ip (SlcRev i) s = s\<lparr>txEng2sLookup_rev_req := txEng2sLookup_rev_req s @ [i]\<rparr>"
| "slc_step c ip (SlcTableLookup hit sid) s =
     (case sessionLookup_req s of
        r # q \<Rightarrow> s\<lparr>sessionLookup_req := q, sessionLookup_rsp := sessionLookup_rsp s
                  @ [\<lparr>sr_key = sl_key r, sr_sessionID = sid, sr_hit = hit, sr_source = sl_source r\<rparr>]\<rparr>
      | [] \<Rightarrow> s)"
| "slc_step c ip (SlcTableUpdate success) s =
     (case sessionUpdate_req s of
        r # q \<Rightarrow> s\<lparr>sessionUpdate_req := q, sessionUpdate_rsp := sessionUpdate_rsp s
                  @ [\<lparr>ur_op = su_op r, ur_key = su_key r, ur_sessionID = su_value r, ur_success = success,
                      ur_source = su_source r\<rparr>]\<rparr>
      | [] \<Rightarrow> s)"
| "slc_step c ip SlcCall s = session_lookup_controller c ip s"

subsection \<open>Session ids\<close>

text \<open>The ids that are free or on their way: in the free list, given back, in insertions from the
  request to the reverse table, in deletions not yet sent.\<close>

definition moving_ids :: "slc \<Rightarrow> u16 list" where
  "moving_ids s = map ucast (sessionIdFreeList s) @ map ucast (sessionIdFinFifo s)
     @ map su_value (sessionInsert_req s)
     @ map su_value (filter (\<lambda>r. su_op r = INSERT) (sessionUpdate_req s))
     @ map ur_sessionID (filter (\<lambda>r. ur_op r = INSERT) (sessionUpdate_rsp s))
     @ map ur_sessionID (sessionInsert_rsp s)
     @ map rl_key (reverseLupInsertFifo s) @ map su_value (sessionDelete_req s)"

definition ids_ok :: "u16 list \<Rightarrow> (u16 \<Rightarrow> bool) \<Rightarrow> nat \<Rightarrow> bool" where
  "ids_ok ids live n \<longleftrightarrow> distinct ids \<and> (\<forall>i \<in> set ids. \<not> live i) \<and> (\<forall>i. i \<in> set ids \<or> live i \<longrightarrow> unat i < n)"

lemma ids_ok_perm: "ids_ok ids live n \<Longrightarrow> mset ids' = mset ids \<Longrightarrow> ids_ok ids' live n"
  unfolding ids_ok_def using mset_eq_imp_distinct_iff [of ids' ids] mset_eq_setD [of ids' ids] by simp

lemma ids_ok_new: "ids_ok ids live n \<Longrightarrow> unat i = n \<Longrightarrow> ids_ok (i # ids) live (Suc n)"
  by (auto simp: ids_ok_def less_Suc_eq)

lemma ids_ok_open: "ids_ok (i # ids) live n \<Longrightarrow> ids_ok ids (live(i := True)) n"
  by (auto simp: ids_ok_def)

lemma ids_ok_close: "ids_ok ids live n \<Longrightarrow> live i \<Longrightarrow> ids_ok (i # ids) (live(i := False)) n"
  by (auto simp: ids_ok_def)

definition sid_inv :: "toeCfg \<Rightarrow> slc \<Rightarrow> bool" where
  "sid_inv c s \<longleftrightarrow> ids_ok (moving_ids s) (tupleValid s) (unat (sid_counter s))
     \<and> unat (sid_counter s) \<le> unat (MAX_SESSIONS c)
     \<and> (\<forall>r \<in> set (sessionInsert_req s). su_op r = INSERT) \<and> (\<forall>r \<in> set (sessionDelete_req s). su_op r = DELETE)"

lemma sid_inv_perm:
  assumes "sid_inv c s" "mset (moving_ids s') = mset (moving_ids s)" "tupleValid s' = tupleValid s"
    "sid_counter s' = sid_counter s" "\<forall>r \<in> set (sessionInsert_req s'). su_op r = INSERT"
    "\<forall>r \<in> set (sessionDelete_req s'). su_op r = DELETE"
  shows "sid_inv c s'"
  using assms ids_ok_perm [of "moving_ids s" "tupleValid s" _ "moving_ids s'"] by (simp add: sid_inv_def)

lemma u14_u16: "unat (i :: u16) < 2 ^ 14 \<Longrightarrow> ucast (ucast i :: u14) = i"
  by (simp add: word_unat_eq_iff unsigned_ucast_eq unsigned_take_bit_eq take_bit_nat_eq_self)

lemma sid_manager:
  assumes "sid_inv c s" "MAX_SESSIONS c < 0x4000"
  shows "sid_inv c (sessionIdManager c s)"
proof (cases "sessionIdFinFifo s")
  case (Cons i q)
  have "mset (moving_ids (sessionIdManager c s)) = mset (moving_ids s)"
    by (simp add: Cons sessionIdManager_def moving_ids_def)
  then show ?thesis by (rule sid_inv_perm [OF assms(1)])
      (use assms(1) in \<open>simp_all add: Cons sessionIdManager_def sid_inv_def\<close>)
next
  case Nil
  show ?thesis
  proof (cases "(ucast (sid_counter s) :: u16) < MAX_SESSIONS c")
    case True
    let ?n = "unat (sid_counter s)"
    have n: "unat (ucast (sid_counter s) :: u16) = ?n"
      using unsigned_less [of "sid_counter s", where ?'a = nat] by (simp add: unsigned_ucast_eq take_bit_nat_eq_self)
    then have lt: "?n < unat (MAX_SESSIONS c)" using True by (simp add: word_less_nat_alt)
    moreover have "unat (MAX_SESSIONS c) < 2 ^ 14" using assms(2) by (simp add: word_less_nat_alt)
    ultimately have suc: "unat (sid_counter s + 1) = Suc ?n" by (simp add: unat_word_ariths)
    let ?s = "sessionIdManager c s"
    have "ids_ok (ucast (sid_counter s) # moving_ids s) (tupleValid s) (Suc ?n)"
      using assms(1) n by (intro ids_ok_new) (simp_all add: sid_inv_def)
    then have "ids_ok (moving_ids ?s) (tupleValid ?s) (unat (sid_counter ?s))"
      using True Nil suc by (auto simp: sessionIdManager_def moving_ids_def elim!: ids_ok_perm)
    then show ?thesis using assms(1) True Nil suc lt by (simp add: sid_inv_def sessionIdManager_def)
  next
    case False
    then show ?thesis using assms(1) Nil by (simp add: sessionIdManager_def)
  qed
qed

lemma moving_ids_reply [simp]:
  "moving_ids (slc_reply src i hit s) = moving_ids s" "tupleValid (slc_reply src i hit s) = tupleValid s"
  "sid_counter (slc_reply src i hit s) = sid_counter s"
  "sessionInsert_req (slc_reply src i hit s) = sessionInsert_req s"
  "sessionDelete_req (slc_reply src i hit s) = sessionDelete_req s"
  by (simp_all add: slc_reply_def moving_ids_def Let_def)

lemma sid_request: "sid_inv c s \<Longrightarrow> sid_inv c (slc_request q s)"
  by (simp add: slc_request_def sid_inv_def moving_ids_def)

lemma sid_lookup:
  assumes "sid_inv c s"
  shows "sid_inv c (lookupReplyHandler s)"
proof (cases "slc_fsmState s")
  case LUP_REQ
  have "sid_inv c (s\<lparr>txApp2sLookup_req := q\<rparr>)" "sid_inv c (s\<lparr>rxEng2sLookup_req := r\<rparr>)" for q r
    using assms by (simp_all add: sid_inv_def moving_ids_def)
  then show ?thesis using assms LUP_REQ by (simp add: lookupReplyHandler_def sid_request split: list.split)
next
  case LUP_RSP
  show ?thesis
  proof (cases "sessionLookup_rsp s = [] \<or> slc_queryCache s = []")
    case True
    then show ?thesis using assms LUP_RSP by (auto simp: lookupReplyHandler_def split: list.split)
  next
    case False
    then obtain l q i qs where e: "sessionLookup_rsp s = l # q" "slc_queryCache s = i # qs"
      by (meson neq_Nil_conv)
    show ?thesis
    proof (cases "\<not> sr_hit l \<and> qi_allowCreation i \<and> sessionIdFreeList s \<noteq> []")
      case True
      then obtain f fs where f: "sessionIdFreeList s = f # fs" by (meson neq_Nil_conv)
      show ?thesis
        by (rule sid_inv_perm [OF assms])
           (use assms True in \<open>simp_all add: lookupReplyHandler_def LUP_RSP e f sid_inv_def moving_ids_def Let_def\<close>)
    next
      case False
      have "lookupReplyHandler s = (slc_reply (sr_source l) (sr_sessionID l) (sr_hit l)
          (s\<lparr>sessionLookup_rsp := q, slc_queryCache := qs\<rparr>))\<lparr>slc_fsmState := LUP_REQ\<rparr>"
        unfolding lookupReplyHandler_def LUP_RSP e Let_def
        by (simp only: slcFsmStateType.case prod.case list.case if_not_P [OF False])
      then show ?thesis using assms
        by (simp add: sid_inv_def moving_ids_def slc_reply_def Let_def)
    qed
  qed
next
  case UPD_RSP
  show ?thesis
  proof (cases "sessionInsert_rsp s = [] \<or> slc_insertTuples s = []")
    case True
    then show ?thesis using assms UPD_RSP by (auto simp: lookupReplyHandler_def split: list.split)
  next
    case False
    then obtain l q i qs where e: "sessionInsert_rsp s = l # q" "slc_insertTuples s = i # qs"
      by (meson neq_Nil_conv)
    show ?thesis
      by (rule sid_inv_perm [OF assms])
         (use assms in \<open>simp_all add: lookupReplyHandler_def UPD_RSP e sid_inv_def moving_ids_def slc_reply_def Let_def\<close>)
  qed
qed

lemma sid_sender:
  assumes "sid_inv c s"
  shows "sid_inv c (updateRequestSender s)"
proof (cases "sessionInsert_req s")
  case (Cons r q)
  show ?thesis
    by (rule sid_inv_perm [OF assms])
       (use assms in \<open>simp_all add: updateRequestSender_def Cons sid_inv_def moving_ids_def\<close>)
next
  case Nil
  show ?thesis
  proof (cases "sessionDelete_req s")
    case (Cons r q)
    have "su_value r \<in> set (moving_ids s)" by (simp add: moving_ids_def Cons)
    then have "unat (su_value r) < unat (sid_counter s)" using assms by (simp add: sid_inv_def ids_ok_def)
    then have "unat (su_value r) < 2 ^ 14"
      using unsigned_less [of "sid_counter s", where ?'a = nat] by simp
    then have "ucast (ucast (su_value r) :: u14) = su_value r" by (rule u14_u16)
    then show ?thesis
      by (intro sid_inv_perm [OF assms])
         (use assms in \<open>simp_all add: updateRequestSender_def Nil Cons sid_inv_def moving_ids_def\<close>)
  qed (use assms Nil in \<open>simp add: updateRequestSender_def\<close>)
qed

lemma sid_replies: "sid_inv c s \<Longrightarrow> sid_inv c (updateReplyHandler s)"
proof (cases "sessionUpdate_rsp s")
  case (Cons r q)
  assume inv: "sid_inv c s"
  show ?thesis
    by (rule sid_inv_perm [OF inv])
       (use inv in \<open>simp_all add: updateReplyHandler_def Cons sid_inv_def moving_ids_def Let_def\<close>)
qed (simp add: updateReplyHandler_def)

lemma sid_reverse:
  assumes "sid_inv c s"
  shows "sid_inv c (reverseLookupTableInterface ip s)"
proof (cases "reverseLupInsertFifo s")
  case (Cons i q)
  let ?s = "reverseLookupTableInterface ip s"
  have "mset (rl_key i # moving_ids ?s) = mset (moving_ids s)"
    by (simp add: reverseLookupTableInterface_def Cons moving_ids_def)
  then have "ids_ok (rl_key i # moving_ids ?s) (tupleValid s) (unat (sid_counter s))"
    using assms ids_ok_perm by (auto simp: sid_inv_def)
  from ids_ok_open [OF this] show ?thesis
    using assms by (simp add: sid_inv_def reverseLookupTableInterface_def Cons)
next
  case Nil
  show ?thesis
  proof (cases "stateTable_releaseSession s")
    case (Cons i q)
    let ?s = "reverseLookupTableInterface ip s"
    show ?thesis
    proof (cases "tupleValid s i")
      case True
      have m: "mset (moving_ids ?s) = mset (i # moving_ids s)"
        using True by (simp add: reverseLookupTableInterface_def Nil Cons moving_ids_def Let_def)
      have "ids_ok (i # moving_ids s) ((tupleValid s)(i := False)) (unat (sid_counter s))"
        using assms True by (intro ids_ok_close) (simp_all add: sid_inv_def)
      from ids_ok_perm [OF this m] show ?thesis using assms True
        by (simp add: sid_inv_def reverseLookupTableInterface_def Nil Cons Let_def)
    next
      case False
      then have "(tupleValid s)(i := False) = tupleValid s" by (simp add: fun_upd_idem)
      then show ?thesis using assms False
        by (simp add: sid_inv_def reverseLookupTableInterface_def Nil Cons Let_def moving_ids_def)
    qed
  next
    case Nil2: Nil
    then show ?thesis using assms Nil
      by (auto simp: sid_inv_def reverseLookupTableInterface_def moving_ids_def Let_def split: list.split)
  qed
qed

lemma sid_env:
  "sid_inv c s \<Longrightarrow> i \<noteq> SlcCall \<Longrightarrow> sid_inv c (slc_step c ip i s)"
proof (cases i)
  case (SlcTableUpdate ok)
  assume inv: "sid_inv c s"
  show ?thesis
  proof (cases "sessionUpdate_req s")
    case (Cons r q)
    show ?thesis unfolding SlcTableUpdate
      by (rule sid_inv_perm [OF inv]) (use inv in \<open>simp_all add: Cons sid_inv_def moving_ids_def\<close>)
  qed (use inv SlcTableUpdate in simp)
qed (auto simp: sid_inv_def moving_ids_def split: list.split)

interpretation sid: step_invariant slc_init "slc_step c ip" "\<lambda>s. MAX_SESSIONS c < 0x4000 \<longrightarrow> sid_inv c s" for c ip
proof (unfold_locales, goal_cases)
  case 1
  show ?case by (simp add: sid_inv_def ids_ok_def slc_init_def moving_ids_def)
next
  case (2 s i)
  show ?case
  proof (cases "i = SlcCall")
    case True
    then show ?thesis using 2
      by (simp add: session_lookup_controller_def sid_manager sid_lookup sid_sender sid_replies sid_reverse)
  qed (use 2 sid_env in blast)
qed

text \<open>C30. A session id is in one place only: whatever the requests, releases (also repeated ones)
  and answers of the hash table, the ids in the free list, given back, or in insertions and deletions
  under way are all different, none of them belongs to an open connection, and all are below the
  number of sessions. So no two connections share an id and none is freed twice. The number of
  sessions has to fit the 14-bit counter.\<close>

theorem session_ids_unique:
  assumes "MAX_SESSIONS c < 0x4000"
  shows "let s = run_inputs (slc_step c ip) is slc_init
    in distinct (moving_ids s) \<and> (\<forall>i \<in> set (moving_ids s). \<not> tupleValid s i)
       \<and> (\<forall>i. i \<in> set (moving_ids s) \<or> tupleValid s i \<longrightarrow> i < MAX_SESSIONS c)"
  using sid.inv_run [of c ip "is"] assms
  unfolding Let_def sid_inv_def ids_ok_def word_less_nat_alt by (meson order_less_le_trans)

theorem session_ids_unique_witness:
  "let s = run_inputs (slc_step small_cfg 1) [SlcCall, SlcTx \<lparr>srcIp = 1, dstIp = 2, srcPort = 3, dstPort = 4\<rparr>,
             SlcCall, SlcTableLookup False 0, SlcCall, SlcTableUpdate True, SlcCall, SlcCall] slc_init
   in tupleValid s 0 \<and> 0 \<notin> set (moving_ids s) \<and> distinct (moving_ids s)"
proof -
  let ?is = "[SlcCall, SlcTx \<lparr>srcIp = 1, dstIp = 2, srcPort = 3, dstPort = 4\<rparr>,
             SlcCall, SlcTableLookup False 0, SlcCall, SlcTableUpdate True, SlcCall, SlcCall]"
  have "tupleValid (run_inputs (slc_step small_cfg 1) ?is slc_init) 0"
    by (simp add: slc_init_def session_lookup_controller_def sessionIdManager_def lookupReplyHandler_def
        updateRequestSender_def updateReplyHandler_def reverseLookupTableInterface_def slc_request_def
        slc_reply_def tx_query_def small_cfg_def Let_def)
  moreover have "MAX_SESSIONS small_cfg < 0x4000" by (simp add: small_cfg_def)
  ultimately show ?thesis using session_ids_unique [of small_cfg 1 ?is] unfolding Let_def by blast
qed

end
