(* ===== verification/Toe_Rx.thy ===== *)
theory Toe_Rx
  imports Toe_Types
begin

text \<open>
  The core of the TCP receive engine (\<^verbatim>\<open>toe/rx_engine/rx_engine.cpp\<close>, \<^verbatim>\<open>rx_engine.hpp\<close>): the module that looks
  up the connection of a segment (\<open>rxMetadataHandler\<close>), the TCP state machine (\<open>rxTcpFSM\<close>), and the
  modules between the state machine and the receive buffer (\<open>rxPackageDropper\<close>,
  \<open>rxAppNotificationDelayer\<close>, \<open>rxEventMerger\<close>). Both builds are modelled, the one that writes the
  receive buffer to memory and the one that bypasses it (\<open>RX_DDR_BYPASS\<close>).
\<close>

subsection \<open>Types\<close>

type_synonym u23 = "23 word"

record rxEngCfg =
  RX_DDR_BYPASS :: bool
  MSS :: u16

definition CONGESTION_WINDOW_MAX :: nat where
  "CONGESTION_WINDOW_MAX = 2 ^ 18 - 2048"

record mmCmd =
  mc_bbt :: u23
  mc_type :: bool
  mc_eof :: bool
  mc_drr :: bool
  mc_saddr :: u32

definition mk_mmCmd :: "u32 \<Rightarrow> u16 \<Rightarrow> mmCmd" where
  "mk_mmCmd addr len = \<lparr>mc_bbt = ucast len, mc_type = True, mc_eof = True, mc_drr = True, mc_saddr = addr\<rparr>"

record mmStatus =
  ms_okay :: bool

record rxEngineMetaData =
  me_seqNumb :: u32
  me_ackNumb :: u32
  me_winSize :: u16
  me_winScale :: u4
  me_length :: u16
  me_ack :: bool
  me_rst :: bool
  me_syn :: bool
  me_fin :: bool
  me_dataOffset :: u4

record rxFsmMetaData =
  fm_sessionID :: u16
  fm_srcIpAddress :: u32
  fm_dstIpPort :: u16
  fm_meta :: rxEngineMetaData
  fm_srcIpPort :: u16

text \<open>The constructors of the requests to the tables and of the notifications. A constructor that leaves
  \<open>win_shift\<close> unset leaves \<open>init\<close> off, and the tables then do not read the field.\<close>

definition mk_stateQuery :: "u16 \<Rightarrow> stateQuery" where
  "mk_stateQuery i = \<lparr>sq_sessionID = i, sq_state = CLOSED, sq_write = False\<rparr>"

definition mk_stateWrite :: "u16 \<Rightarrow> sessionState \<Rightarrow> stateQuery" where
  "mk_stateWrite i st = \<lparr>sq_sessionID = i, sq_state = st, sq_write = True\<rparr>"

definition mk_rxSarQuery :: "u16 \<Rightarrow> rxSarRecvd" where
  "mk_rxSarQuery i = \<lparr>rv_sessionID = i, rv_recvd = 0, rv_win_shift = 0, rv_write = False, rv_init = False,
     rv_head = 0, rv_offset = 0, rv_gap = False\<rparr>"

definition mk_rxSarWrite :: "u16 \<Rightarrow> u32 \<Rightarrow> u32 \<Rightarrow> u32 \<Rightarrow> bool \<Rightarrow> rxSarRecvd" where
  "mk_rxSarWrite i recvd head offs gap = \<lparr>rv_sessionID = i, rv_recvd = recvd, rv_win_shift = 0, rv_write = True,
     rv_init = False, rv_head = head, rv_offset = offs, rv_gap = gap\<rparr>"

definition mk_rxSarInit :: "u16 \<Rightarrow> u32 \<Rightarrow> u32 \<Rightarrow> u32 \<Rightarrow> bool \<Rightarrow> u4 \<Rightarrow> rxSarRecvd" where
  "mk_rxSarInit i recvd head offs gap sh = \<lparr>rv_sessionID = i, rv_recvd = recvd, rv_win_shift = sh, rv_write = True,
     rv_init = True, rv_head = head, rv_offset = offs, rv_gap = gap\<rparr>"

definition mk_txSarQuery :: "u16 \<Rightarrow> rxTxSarQuery" where
  "mk_txSarQuery i = \<lparr>rq_sessionID = i, rq_ackd = 0, rq_recv_window = 0, rq_cong_window = 0, rq_count = 0,
     rq_fastRetransmitted = False, rq_win_shift = 0, rq_write = False, rq_init = False\<rparr>"

definition mk_txSarWrite :: "u16 \<Rightarrow> u32 \<Rightarrow> u16 \<Rightarrow> u18 \<Rightarrow> u2 \<Rightarrow> bool \<Rightarrow> rxTxSarQuery" where
  "mk_txSarWrite i ack win cong cnt fr = \<lparr>rq_sessionID = i, rq_ackd = ack, rq_recv_window = win, rq_cong_window = cong,
     rq_count = cnt, rq_fastRetransmitted = fr, rq_win_shift = 0, rq_write = True, rq_init = False\<rparr>"

definition mk_txSarInit :: "u16 \<Rightarrow> u32 \<Rightarrow> u16 \<Rightarrow> u18 \<Rightarrow> u2 \<Rightarrow> bool \<Rightarrow> u4 \<Rightarrow> rxTxSarQuery" where
  "mk_txSarInit i ack win cong cnt fr sh = \<lparr>rq_sessionID = i, rq_ackd = ack, rq_recv_window = win, rq_cong_window = cong,
     rq_count = cnt, rq_fastRetransmitted = fr, rq_win_shift = sh, rq_write = True, rq_init = True\<rparr>"

definition mk_notification :: "u16 \<Rightarrow> u16 \<Rightarrow> u32 \<Rightarrow> u16 \<Rightarrow> bool \<Rightarrow> appNotification" where
  "mk_notification i len addr port closed = \<lparr>an_sessionID = i, an_length = len, an_ipAddress = addr, an_dstPort = port,
     an_closed = closed\<rparr>"

definition mk_openStatus :: "u16 \<Rightarrow> u8 \<Rightarrow> u32 \<Rightarrow> u16 \<Rightarrow> openStatus" where
  "mk_openStatus i succ ip port = \<lparr>os_sessionID = i, os_success = succ, os_ip = ip, os_port = port\<rparr>"

text \<open>Statements in sequence.\<close>

primrec steps :: "('s \<Rightarrow> 's) list \<Rightarrow> 's \<Rightarrow> 's" where
  "steps [] s = s"
| "steps (f # fs) s = steps fs (f s)"

subsection \<open>Options and metadata\<close>

datatype optStateType = OPT_IDLE | OPT_PARSE

record optParser =
  op_dataOffsetIn :: "u4 stream"
  op_fieldsIn :: "320 word stream"
  op_windowScaleOut :: "u4 stream"
  op_state :: optStateType
  op_dataOffset :: u4
  op_fields :: "320 word"

definition opt_kind :: "320 word \<Rightarrow> u8" where
  "opt_kind f = ucast f"

definition opt_length :: "320 word \<Rightarrow> u8" where
  "opt_length f = ucast (drop_bit 8 f)"

definition opt_shift :: "320 word \<Rightarrow> u4" where
  "opt_shift f = ucast (drop_bit 16 f)"

definition parse_optional_header_fields :: "optParser \<Rightarrow> optParser" where
  "parse_optional_header_fields s =
     (case op_state s of
        OPT_IDLE \<Rightarrow>
          (if op_dataOffsetIn s \<noteq> [] \<and> op_fieldsIn s \<noteq> []
           then s\<lparr>op_dataOffsetIn := tl (op_dataOffsetIn s), op_fieldsIn := tl (op_fieldsIn s),
                  op_dataOffset := hd (op_dataOffsetIn s), op_fields := hd (op_fieldsIn s), op_state := OPT_PARSE\<rparr>
           else s)
      | OPT_PARSE \<Rightarrow>
          (let kind = opt_kind (op_fields s);
               len = (if kind = 1 then 1 else opt_length (op_fields s));
               done_with = (\<lambda>w. s\<lparr>op_windowScaleOut := op_windowScaleOut s @ [w], op_state := OPT_IDLE\<rparr>);
               s1 = (if kind = 0 then done_with 0
                     else if kind = 1 then s
                     else if kind = 3 then done_with (opt_shift (op_fields s))
                     else if ucast (op_dataOffset s) = len then done_with 0
                     else s)
           in s1\<lparr>op_dataOffset := op_dataOffset s - ucast len,
                 op_fields := drop_bit (unat len * 8) (op_fields s)\<rparr>))"

record metaMerge =
  mm_winScaleFifo :: "u4 stream"
  mm_headerMetaFifo :: "rxEngineMetaData stream"
  mm_metaDataFifo :: "rxEngineMetaData stream"
  mm_state :: bool
  mm_meta :: rxEngineMetaData

definition merge_header_meta :: "metaMerge \<Rightarrow> metaMerge" where
  "merge_header_meta s =
     (if \<not> mm_state s then
        (case mm_headerMetaFifo s of
           [] \<Rightarrow> s
         | m # q \<Rightarrow>
            (let s1 = s\<lparr>mm_headerMetaFifo := q, mm_meta := m\<rparr>
             in if me_syn m \<and> me_dataOffset m > 5 then s1\<lparr>mm_state := True\<rparr>
                else s1\<lparr>mm_meta := m\<lparr>me_winScale := 0\<rparr>,
                        mm_metaDataFifo := mm_metaDataFifo s @ [m\<lparr>me_winScale := 0\<rparr>]\<rparr>))
      else
        (case mm_winScaleFifo s of
           [] \<Rightarrow> s
         | w # q \<Rightarrow>
            (let m = (mm_meta s)\<lparr>me_winScale := w\<rparr>
             in s\<lparr>mm_winScaleFifo := q, mm_meta := m, mm_metaDataFifo := mm_metaDataFifo s @ [m], mm_state := False\<rparr>)))"

subsection \<open>Connection lookup\<close>

datatype mhStateType = MH_META | MH_LOOKUP

record rxMh =
  mh_metaDataFifoIn :: "rxEngineMetaData stream"
  mh_sLookup_rsp :: "sessionLookupReply stream"
  mh_portTable_rsp :: "bool stream"
  mh_tupleBufferIn :: "fourTuple stream"
  mh_sLookup_req :: "sessionLookupQuery stream"
  mh_setEvent :: "extendedEvent stream"
  mh_dropDataFifoOut :: "bool stream"
  mh_fsmMetaDataFifo :: "rxFsmMetaData stream"
  mh_state :: mhStateType
  mh_meta :: rxEngineMetaData
  mh_srcIpAddress :: u32
  mh_dstIpPort :: u16
  mh_srcIpPort :: u16

text \<open>The bytes of an address and of a port in the opposite order.\<close>

definition swap16 :: "u16 \<Rightarrow> u16" where
  "swap16 x = push_bit 8 x OR drop_bit 8 x"

definition swap32 :: "u32 \<Rightarrow> u32" where
  "swap32 x = push_bit 24 x OR push_bit 8 (x AND 0xFF00) OR drop_bit 8 (x AND 0xFF0000) OR drop_bit 24 x"

definition switchedTuple :: "fourTuple \<Rightarrow> fourTuple" where
  "switchedTuple t = \<lparr>srcIp = dstIp t, dstIp = srcIp t, srcPort = dstPort t, dstPort = srcPort t\<rparr>"

text \<open>The reset that answers a segment to a closed port.\<close>

definition closed_port_reset :: "rxEngineMetaData \<Rightarrow> fourTuple \<Rightarrow> extendedEvent" where
  "closed_port_reset m t =
     (rstEvent 0 (me_seqNumb m + ucast (me_length m) + of_bool (me_syn m \<or> me_fin m)) False, Some (switchedTuple t))"

definition mh_read_meta :: "rxEngineMetaData \<Rightarrow> bool \<Rightarrow> fourTuple \<Rightarrow> rxMh \<Rightarrow> rxMh" where
  "mh_read_meta m portIsOpen t s =
     (let s1 = s\<lparr>mh_meta := m, mh_srcIpAddress := swap32 (srcIp t), mh_dstIpPort := swap16 (dstPort t),
                 mh_srcIpPort := swap16 (srcPort t)\<rparr>
      in if \<not> portIsOpen then
           (let s2 = (if \<not> me_rst m then s1\<lparr>mh_setEvent := mh_setEvent s @ [closed_port_reset m t]\<rparr> else s1)
            in if me_length m \<noteq> 0 then s2\<lparr>mh_dropDataFifoOut := mh_dropDataFifoOut s @ [True]\<rparr> else s2)
         else s1\<lparr>mh_sLookup_req := mh_sLookup_req s
                   @ [\<lparr>slq_tuple = t, slq_allowCreation = me_syn m \<and> \<not> me_rst m \<and> \<not> me_fin m\<rparr>],
                 mh_state := MH_LOOKUP\<rparr>)"

definition rxMetadataHandler :: "rxMh \<Rightarrow> rxMh" where
  "rxMetadataHandler s =
     (case mh_state s of
        MH_META \<Rightarrow>
          (if mh_metaDataFifoIn s \<noteq> [] \<and> mh_portTable_rsp s \<noteq> [] \<and> mh_tupleBufferIn s \<noteq> []
           then mh_read_meta (hd (mh_metaDataFifoIn s)) (hd (mh_portTable_rsp s)) (hd (mh_tupleBufferIn s))
                  (s\<lparr>mh_metaDataFifoIn := tl (mh_metaDataFifoIn s), mh_portTable_rsp := tl (mh_portTable_rsp s),
                     mh_tupleBufferIn := tl (mh_tupleBufferIn s)\<rparr>)
           else s)
      | MH_LOOKUP \<Rightarrow>
          (case mh_sLookup_rsp s of
             [] \<Rightarrow> s
           | lup # q \<Rightarrow>
              (let s1 = s\<lparr>mh_sLookup_rsp := q, mh_state := MH_META\<rparr>;
                   s2 = (if slr_hit lup
                         then s1\<lparr>mh_fsmMetaDataFifo := mh_fsmMetaDataFifo s @
                                   [\<lparr>fm_sessionID = slr_sessionID lup, fm_srcIpAddress = mh_srcIpAddress s,
                                     fm_dstIpPort = mh_dstIpPort s, fm_meta = mh_meta s, fm_srcIpPort = mh_srcIpPort s\<rparr>]\<rparr>
                         else s1)
               in if me_length (mh_meta s) \<noteq> 0
                  then s2\<lparr>mh_dropDataFifoOut := mh_dropDataFifoOut s @ [\<not> slr_hit lup]\<rparr> else s2)))"

end
