(* ===== verification/Toe_Rx_Fsm.thy ===== *)
theory Toe_Rx_Fsm
  imports Toe_Rx
begin

text \<open>
  The TCP state machine of the receive engine (\<open>rxTcpFSM\<close>). \<open>LOAD\<close> takes the metadata of a segment
  and asks the tables, \<open>TRANSITION\<close> waits for the answers and does everything the segment causes: the
  next state, the updates of the sliding windows, timers, events, notifications, the write command
  of the payload and the decision whether the payload is dropped.
\<close>

subsection \<open>State\<close>

datatype fsmStateType = FSM_LOAD | FSM_TRANSITION

record rxFsm =
  f_metaDataFifo :: "rxFsmMetaData stream"
  f_stateTable_rsp :: "sessionState stream"
  f_rxSar_rsp :: "rxSarEntry stream"
  f_txSar_rsp :: "rxTxSarReply stream"
  f_stateTable_req :: "stateQuery stream"
  f_rxSar_req :: "rxSarRecvd stream"
  f_txSar_req :: "rxTxSarQuery stream"
  f_clearRetransmitTimer :: "rxRetransmitTimerUpdate stream"
  f_clearProbeTimer :: "u16 stream"
  f_setCloseTimer :: "u16 stream"
  f_openConStatus :: "openStatus stream"
  f_setEvent :: "event stream"
  f_dropDataFifo :: "bool stream"
  f_rxBufferWriteCmd :: "mmCmd stream"
  f_notification :: "appNotification stream"
  fsm_state :: fsmStateType
  fsm_meta :: rxFsmMetaData
  fsm_txSarRequest :: bool

text \<open>Writes to the output streams.\<close>

definition wr_state :: "stateQuery \<Rightarrow> rxFsm \<Rightarrow> rxFsm" where
  "wr_state x s = s\<lparr>f_stateTable_req := f_stateTable_req s @ [x]\<rparr>"

definition wr_rxSar :: "rxSarRecvd \<Rightarrow> rxFsm \<Rightarrow> rxFsm" where
  "wr_rxSar x s = s\<lparr>f_rxSar_req := f_rxSar_req s @ [x]\<rparr>"

definition wr_txSar :: "rxTxSarQuery \<Rightarrow> rxFsm \<Rightarrow> rxFsm" where
  "wr_txSar x s = s\<lparr>f_txSar_req := f_txSar_req s @ [x]\<rparr>"

definition wr_clearRetransmit :: "rxRetransmitTimerUpdate \<Rightarrow> rxFsm \<Rightarrow> rxFsm" where
  "wr_clearRetransmit x s = s\<lparr>f_clearRetransmitTimer := f_clearRetransmitTimer s @ [x]\<rparr>"

definition wr_clearProbe :: "u16 \<Rightarrow> rxFsm \<Rightarrow> rxFsm" where
  "wr_clearProbe x s = s\<lparr>f_clearProbeTimer := f_clearProbeTimer s @ [x]\<rparr>"

definition wr_closeTimer :: "u16 \<Rightarrow> rxFsm \<Rightarrow> rxFsm" where
  "wr_closeTimer x s = s\<lparr>f_setCloseTimer := f_setCloseTimer s @ [x]\<rparr>"

definition wr_openStatus :: "openStatus \<Rightarrow> rxFsm \<Rightarrow> rxFsm" where
  "wr_openStatus x s = s\<lparr>f_openConStatus := f_openConStatus s @ [x]\<rparr>"

definition wr_event :: "event \<Rightarrow> rxFsm \<Rightarrow> rxFsm" where
  "wr_event x s = s\<lparr>f_setEvent := f_setEvent s @ [x]\<rparr>"

definition wr_drop :: "bool \<Rightarrow> rxFsm \<Rightarrow> rxFsm" where
  "wr_drop x s = s\<lparr>f_dropDataFifo := f_dropDataFifo s @ [x]\<rparr>"

definition wr_cmd :: "mmCmd \<Rightarrow> rxFsm \<Rightarrow> rxFsm" where
  "wr_cmd x s = s\<lparr>f_rxBufferWriteCmd := f_rxBufferWriteCmd s @ [x]\<rparr>"

definition wr_notification :: "appNotification \<Rightarrow> rxFsm \<Rightarrow> rxFsm" where
  "wr_notification x s = s\<lparr>f_notification := f_notification s @ [x]\<rparr>"

lemmas wr_defs = wr_state_def wr_rxSar_def wr_txSar_def wr_clearRetransmit_def wr_clearProbe_def wr_closeTimer_def
  wr_openStatus_def wr_event_def wr_drop_def wr_cmd_def wr_notification_def

subsection \<open>Acknowledgements\<close>

definition fsm_timer_update :: "rxFsmMetaData \<Rightarrow> rxTxSarReply \<Rightarrow> rxRetransmitTimerUpdate" where
  "fsm_timer_update fm tx =
     \<lparr>ru_sessionID = fm_sessionID fm, ru_stop = (me_ackNumb (fm_meta fm) = rt_nextByte tx)\<rparr>"

definition old_ack :: "rxEngineMetaData \<Rightarrow> rxTxSarReply \<Rightarrow> bool" where
  "old_ack m tx \<longleftrightarrow> me_ackNumb m = rt_prevAck tx \<and> rt_prevAck tx \<noteq> rt_nextByte tx"

text \<open>The congestion window after a new acknowledgement; the difference of the threshold and the segment size is
  computed with sign.\<close>

definition next_cong_window :: "rxEngCfg \<Rightarrow> rxTxSarReply \<Rightarrow> u18" where
  "next_cong_window c tx =
     (if int (unat (rt_cong_window tx)) \<le> int (unat (rt_slowstart_threshold tx)) - int (unat (MSS c))
      then rt_cong_window tx + ucast (MSS c)
      else if unat (rt_cong_window tx) \<le> CONGESTION_WINDOW_MAX then rt_cong_window tx + 365
      else rt_cong_window tx)"

definition ack_txSar :: "rxEngCfg \<Rightarrow> rxEngineMetaData \<Rightarrow> rxTxSarReply \<Rightarrow> rxTxSarReply" where
  "ack_txSar c m tx =
     (if old_ack m tx
      then (if me_length m = 0 then tx\<lparr>rt_count := rt_count tx + 1\<rparr> else tx)
      else tx\<lparr>rt_cong_window := next_cong_window c tx, rt_count := 0, rt_fastRetransmitted := False\<rparr>)"

definition ack_acceptable :: "rxEngineMetaData \<Rightarrow> rxTxSarReply \<Rightarrow> bool" where
  "ack_acceptable m tx \<longleftrightarrow>
     (rt_prevAck tx \<le> me_ackNumb m \<and> me_ackNumb m \<le> rt_nextByte tx)
     \<or> ((rt_prevAck tx \<le> me_ackNumb m \<or> me_ackNumb m \<le> rt_nextByte tx) \<and> rt_nextByte tx < rt_prevAck tx)"

definition fsm_ack_window :: "rxEngCfg \<Rightarrow> rxFsmMetaData \<Rightarrow> rxTxSarReply \<Rightarrow> rxFsm \<Rightarrow> rxFsm" where
  "fsm_ack_window c fm tx s =
     (let m = fm_meta fm; tx' = ack_txSar c m tx in
      steps
        [if old_ack m tx then id else wr_clearProbe (fm_sessionID fm),
         if ack_acceptable m tx'
         then wr_txSar (mk_txSarWrite (fm_sessionID fm) (me_ackNumb m) (me_winSize m) (rt_cong_window tx') (rt_count tx')
                          (rt_count tx' = 3 \<or> rt_fastRetransmitted tx'))
         else id] s)"

subsection \<open>Payload\<close>

text \<open>The address of a byte in the receive buffer: twelve bits of the session, eighteen of the sequence number.\<close>

definition pkgAddr :: "u16 \<Rightarrow> u32 \<Rightarrow> u32" where
  "pkgAddr i seq = push_bit 18 (take_bit 12 (ucast i)) OR take_bit 18 seq"

definition free_space :: "rxSarEntry \<Rightarrow> u18" where
  "free_space rx = (re_appd rx - ucast (re_head rx)) - 1"

text \<open>The end of a segment, before and after it is cut to 32 bits.\<close>

definition seg_end :: "rxEngineMetaData \<Rightarrow> nat" where
  "seg_end m = unat (me_seqNumb m) + unat (me_length m)"

definition seg_end32 :: "rxEngineMetaData \<Rightarrow> u32" where
  "seg_end32 m = me_seqNumb m + ucast (me_length m)"

definition in_order :: "rxEngineMetaData \<Rightarrow> rxSarEntry \<Rightarrow> bool" where
  "in_order m rx \<longleftrightarrow> \<not> re_gap rx \<and> me_seqNumb m = re_recvd rx \<and> unat (me_length m) < unat (free_space rx)"

definition opens_gap :: "rxEngineMetaData \<Rightarrow> rxSarEntry \<Rightarrow> bool" where
  "opens_gap m rx \<longleftrightarrow> \<not> re_gap rx \<and> re_recvd rx < me_seqNumb m \<and> ucast (seg_end32 m - re_head rx) < free_space rx"

definition after_head :: "rxEngineMetaData \<Rightarrow> rxSarEntry \<Rightarrow> bool" where
  "after_head m rx \<longleftrightarrow> re_gap rx \<and> me_seqNumb m = re_head rx \<and> unat (me_length m) < unat (free_space rx)"

definition store_segment :: "rxFsmMetaData \<Rightarrow> rxSarRecvd \<Rightarrow> u16 \<Rightarrow> rxFsm \<Rightarrow> rxFsm" where
  "store_segment fm q notified s =
     (let m = fm_meta fm; i = fm_sessionID fm in
      steps
        [wr_rxSar q, wr_cmd (mk_mmCmd (pkgAddr i (me_seqNumb m)) (me_length m)),
         wr_notification (mk_notification i notified (fm_srcIpAddress fm) (fm_dstIpPort fm) False), wr_drop False] s)"

definition fsm_payload_ooo :: "rxFsmMetaData \<Rightarrow> rxSarEntry \<Rightarrow> rxFsm \<Rightarrow> rxFsm" where
  "fsm_payload_ooo fm rx s =
     (let m = fm_meta fm; i = fm_sessionID fm in
      if me_length m = 0 then s
      else if in_order m rx then
        store_segment fm (mk_rxSarWrite i (seg_end32 m) (seg_end32 m) (re_offset rx) (re_gap rx)) (me_length m) s
      else if opens_gap m rx then
        store_segment fm (mk_rxSarWrite i (re_recvd rx) (seg_end32 m) (me_seqNumb m) True) 0 s
      else if after_head m rx then
        store_segment fm (mk_rxSarWrite i (re_recvd rx) (seg_end32 m) (re_offset rx) (re_gap rx)) 0 s
      else if re_gap rx \<and> me_seqNumb m = re_recvd rx then
        (if seg_end m = unat (re_offset rx) then
           store_segment fm (mk_rxSarWrite i (re_head rx) (re_head rx) (re_offset rx) False)
             (ucast (ucast (re_head rx - me_seqNumb m) :: u18)) s
         else if seg_end m < unat (re_offset rx) then
           store_segment fm (mk_rxSarWrite i (seg_end32 m) (re_head rx) (re_offset rx) (re_gap rx)) (me_length m) s
         else s)
      else wr_drop True s)"

text \<open>The bypass has no memory behind the buffer and takes a segment when its FIFO has room.\<close>

definition bypass_room :: "u16 \<Rightarrow> u16 \<Rightarrow> bool" where
  "bypass_room maxCount count \<longleftrightarrow> int (unat maxCount) - int (unat count) > 375"

definition fsm_payload_bypass :: "bool \<Rightarrow> rxFsmMetaData \<Rightarrow> rxSarEntry \<Rightarrow> rxFsm \<Rightarrow> rxFsm" where
  "fsm_payload_bypass room fm rx s =
     (let m = fm_meta fm; i = fm_sessionID fm in
      if me_length m = 0 then s
      else if me_seqNumb m = re_recvd rx \<and> room then
        steps
          [wr_rxSar (mk_rxSarWrite i (seg_end32 m) (seg_end32 m) (re_offset rx) (re_gap rx)),
           wr_notification (mk_notification i (me_length m) (fm_srcIpAddress fm) (fm_dstIpPort fm) False), wr_drop False] s
      else wr_drop True s)"

definition fsm_ack_event :: "rxEngCfg \<Rightarrow> bool \<Rightarrow> rxFsmMetaData \<Rightarrow> rxSarEntry \<Rightarrow> rxTxSarReply \<Rightarrow> rxFsm \<Rightarrow> rxFsm" where
  "fsm_ack_event c room fm rx tx' s =
     (let m = fm_meta fm; i = fm_sessionID fm in
      if rt_count tx' = 3 \<and> \<not> rt_fastRetransmitted tx' then wr_event (mk_event RT i 0) s
      else if me_length m \<noteq> 0 then
        (if (if RX_DDR_BYPASS c then me_seqNumb m = re_recvd rx \<and> room else in_order m rx)
         then wr_event (mk_event ACK i 0) s else wr_event (mk_event ACK_NODELAY i 0) s)
      else s)"

subsection \<open>Segments\<close>

definition ack_states :: "sessionState \<Rightarrow> bool" where
  "ack_states st \<longleftrightarrow> st = ESTABLISHED \<or> st = SYN_RECEIVED \<or> st = FIN_WAIT_1 \<or> st = CLOSING \<or> st = LAST_ACK"

definition fsm_ack_state :: "rxFsmMetaData \<Rightarrow> sessionState \<Rightarrow> rxTxSarReply \<Rightarrow> rxFsm \<Rightarrow> rxFsm" where
  "fsm_ack_state fm st tx s =
     (let i = fm_sessionID fm in
      if me_ackNumb (fm_meta fm) = rt_nextByte tx then
        (case st of
           SYN_RECEIVED \<Rightarrow> wr_state (mk_stateWrite i ESTABLISHED) s
         | CLOSING \<Rightarrow> steps [wr_state (mk_stateWrite i TIME_WAIT), wr_closeTimer i] s
         | LAST_ACK \<Rightarrow> wr_state (mk_stateWrite i CLOSED) s
         | _ \<Rightarrow> wr_state (mk_stateWrite i st) s)
      else wr_state (mk_stateWrite i st) s)"

definition fsm_ack ::
  "rxEngCfg \<Rightarrow> bool \<Rightarrow> rxFsmMetaData \<Rightarrow> sessionState \<Rightarrow> rxSarEntry \<Rightarrow> rxTxSarReply \<Rightarrow> rxFsm \<Rightarrow> rxFsm" where
  "fsm_ack c room fm st rx tx s =
     (let m = fm_meta fm; i = fm_sessionID fm; s1 = wr_clearRetransmit (fsm_timer_update fm tx) s in
      if ack_states st then
        steps
          [fsm_ack_window c fm tx,
           if RX_DDR_BYPASS c then fsm_payload_bypass room fm rx else fsm_payload_ooo fm rx,
           fsm_ack_event c room fm rx (ack_txSar c m tx),
           fsm_ack_state fm st tx] s1
      else
        steps
          [wr_event (rstEvent i (seg_end32 m) True),
           if me_length m \<noteq> 0 then wr_drop True else id,
           wr_state (mk_stateWrite i st)] s1)"

definition rx_win_shift :: "rxEngineMetaData \<Rightarrow> u4" where
  "rx_win_shift m = (if me_winScale m = 0 then 0 else 2)"

text \<open>\<open>tx\<close> is a variable that is not initialised here. The successor of the sequence number is compared before
  it is cut to 32 bits.\<close>

definition fsm_syn :: "rxFsmMetaData \<Rightarrow> sessionState \<Rightarrow> rxSarEntry \<Rightarrow> rxTxSarReply \<Rightarrow> rxFsm \<Rightarrow> rxFsm" where
  "fsm_syn fm st rx tx s =
     (let m = fm_meta fm; i = fm_sessionID fm in
      if st = CLOSED \<or> st = SYN_SENT then
        steps
          [wr_rxSar (mk_rxSarInit i (me_seqNumb m + 1) (me_seqNumb m + 1) 0 False (rx_win_shift m)),
           wr_txSar (mk_txSarInit i 0 (me_winSize m) (rt_cong_window tx) 0 False (me_winScale m)),
           wr_event (mk_event SYN_ACK i 0), wr_state (mk_stateWrite i SYN_RECEIVED)] s
      else if st = SYN_RECEIVED then
        (if unat (me_seqNumb m) + 1 = unat (re_recvd rx)
         then steps [wr_event (mk_event SYN_ACK i 1), wr_state (mk_stateWrite i st)] s
         else steps [wr_event (rstEvent i (me_seqNumb m + 1) True), wr_state (mk_stateWrite i CLOSED)] s)
      else steps [wr_event (mk_event ACK_NODELAY i 0), wr_state (mk_stateWrite i st)] s)"

definition fsm_syn_ack :: "rxFsmMetaData \<Rightarrow> sessionState \<Rightarrow> rxTxSarReply \<Rightarrow> rxFsm \<Rightarrow> rxFsm" where
  "fsm_syn_ack fm st tx s =
     (let m = fm_meta fm; i = fm_sessionID fm; s1 = wr_clearRetransmit (fsm_timer_update fm tx) s in
      if st = SYN_SENT \<and> me_ackNumb m = rt_nextByte tx then
        steps
          [wr_rxSar (mk_rxSarInit i (me_seqNumb m + 1) (me_seqNumb m + 1) 0 False (rx_win_shift m)),
           wr_txSar (mk_txSarInit i (me_ackNumb m) (me_winSize m) (rt_cong_window tx) 0 False (me_winScale m)),
           wr_event (mk_event ACK_NODELAY i 0), wr_state (mk_stateWrite i ESTABLISHED),
           wr_openStatus (mk_openStatus i 1 (fm_srcIpAddress fm) (fm_srcIpPort fm))] s1
      else if st = SYN_SENT then
        steps [wr_event (rstEvent i (seg_end32 m + 1) True), wr_state (mk_stateWrite i CLOSED)] s1
      else steps [wr_event (mk_event ACK_NODELAY i 0), wr_state (mk_stateWrite i st)] s1)"

definition fin_accepted :: "rxEngineMetaData \<Rightarrow> sessionState \<Rightarrow> rxSarEntry \<Rightarrow> bool" where
  "fin_accepted m st rx \<longleftrightarrow> (st = ESTABLISHED \<or> st = FIN_WAIT_1 \<or> st = FIN_WAIT_2) \<and> re_recvd rx = me_seqNumb m"

definition fsm_fin_payload :: "rxEngCfg \<Rightarrow> rxFsmMetaData \<Rightarrow> sessionState \<Rightarrow> rxFsm \<Rightarrow> rxFsm" where
  "fsm_fin_payload c fm st s =
     (let m = fm_meta fm; i = fm_sessionID fm in
      if me_length m \<noteq> 0 then
        steps
          [if RX_DDR_BYPASS c then id else wr_cmd (mk_mmCmd (pkgAddr i (me_seqNumb m)) (me_length m)),
           wr_notification (mk_notification i (me_length m) (fm_srcIpAddress fm) (fm_dstIpPort fm) True), wr_drop False] s
      else if st = ESTABLISHED then
        wr_notification (mk_notification i 0 (fm_srcIpAddress fm) (fm_dstIpPort fm) True) s
      else s)"

definition fsm_fin_state :: "rxFsmMetaData \<Rightarrow> sessionState \<Rightarrow> rxTxSarReply \<Rightarrow> rxFsm \<Rightarrow> rxFsm" where
  "fsm_fin_state fm st tx s =
     (let i = fm_sessionID fm in
      if st = ESTABLISHED then steps [wr_event (mk_event FIN i 0), wr_state (mk_stateWrite i LAST_ACK)] s
      else if me_ackNumb (fm_meta fm) = rt_nextByte tx then
        steps [wr_state (mk_stateWrite i TIME_WAIT), wr_closeTimer i, wr_event (mk_event ACK i 0)] s
      else steps [wr_state (mk_stateWrite i CLOSING), wr_event (mk_event ACK i 0)] s)"

definition fsm_fin ::
  "rxEngCfg \<Rightarrow> rxFsmMetaData \<Rightarrow> sessionState \<Rightarrow> rxSarEntry \<Rightarrow> rxTxSarReply \<Rightarrow> rxFsm \<Rightarrow> rxFsm" where
  "fsm_fin c fm st rx tx s =
     (let m = fm_meta fm; i = fm_sessionID fm; s1 = wr_clearRetransmit (fsm_timer_update fm tx) s in
      if fin_accepted m st rx then
        steps
          [wr_txSar (mk_txSarWrite i (me_ackNumb m) (me_winSize m) (rt_cong_window tx) (rt_count tx)
                       (rt_fastRetransmitted tx)),
           wr_rxSar (mk_rxSarWrite i (seg_end32 m + 1) (seg_end32 m + 1) (re_offset rx) (re_gap rx)),
           wr_clearProbe i, fsm_fin_payload c fm st, fsm_fin_state fm st tx] s1
      else
        steps
          [wr_event (mk_event ACK i 0), wr_state (mk_stateWrite i st),
           if me_length m \<noteq> 0 then wr_drop True else id] s1)"

definition fsm_other :: "rxFsmMetaData \<Rightarrow> sessionState \<Rightarrow> rxSarEntry \<Rightarrow> rxTxSarReply \<Rightarrow> rxFsm \<Rightarrow> rxFsm" where
  "fsm_other fm st rx tx s =
     (let m = fm_meta fm; i = fm_sessionID fm;
          stop = wr_clearRetransmit \<lparr>ru_sessionID = i, ru_stop = True\<rparr> in
      if me_rst m then
        (if st = SYN_SENT then
           (if me_ackNumb m = rt_nextByte tx
            then steps [wr_openStatus (mk_openStatus i 0 (fm_srcIpAddress fm) (fm_srcIpPort fm)),
                        wr_state (mk_stateWrite i CLOSED), stop] s
            else wr_state (mk_stateWrite i st) s)
         else if me_seqNumb m = re_recvd rx
         then steps [wr_notification (mk_notification i 0 (fm_srcIpAddress fm) (fm_dstIpPort fm) True),
                     wr_state (mk_stateWrite i CLOSED), stop] s
         else wr_state (mk_stateWrite i st) s)
      else wr_state (mk_stateWrite i st) s)"

subsection \<open>The state machine\<close>

definition control_bits :: "rxEngineMetaData \<Rightarrow> nat" where
  "control_bits m = of_bool (me_ack m) + 2 * of_bool (me_syn m) + 4 * of_bool (me_fin m) + 8 * of_bool (me_rst m)"

text \<open>What a segment causes: \<open>rxbuffer_max_data_count\<close> and \<open>rxbuffer_data_count\<close> only exist in the bypass
  build. \<open>junk\<close> is the content of the local \<open>txSar\<close> that a branch does not read.\<close>

definition fsm_segment ::
  "rxEngCfg \<Rightarrow> bool \<Rightarrow> rxTxSarReply \<Rightarrow> rxFsmMetaData \<Rightarrow> rxFsm \<Rightarrow> rxFsm" where
  "fsm_segment c room junk fm s =
     (let st = hd (f_stateTable_rsp s); rx = hd (f_rxSar_rsp s);
          s1 = s\<lparr>f_stateTable_rsp := tl (f_stateTable_rsp s), f_rxSar_rsp := tl (f_rxSar_rsp s)\<rparr>;
          tx = (if f_txSar_rsp s = [] then junk else hd (f_txSar_rsp s));
          s2 = s1\<lparr>f_txSar_rsp := tl (f_txSar_rsp s)\<rparr>;
          bits = control_bits (fm_meta fm)
      in if bits = 1 then fsm_ack c room fm st rx tx s2
         else if bits = 2 then fsm_syn fm st rx junk s1
         else if bits = 3 then fsm_syn_ack fm st tx s2
         else if bits = 5 then fsm_fin c fm st rx tx s2
         else fsm_other fm st rx tx s2)"

definition fsm_load :: "rxFsmMetaData \<Rightarrow> rxFsm \<Rightarrow> rxFsm" where
  "fsm_load fm s =
     steps
       [\<lambda>s. s\<lparr>fsm_meta := fm\<rparr>,
        wr_state (mk_stateQuery (fm_sessionID fm)), wr_rxSar (mk_rxSarQuery (fm_sessionID fm)),
        if me_ack (fm_meta fm)
        then steps [wr_txSar (mk_txSarQuery (fm_sessionID fm)), \<lambda>s. s\<lparr>fsm_txSarRequest := True\<rparr>] else id,
        \<lambda>s. s\<lparr>fsm_state := FSM_TRANSITION\<rparr>] s"

text \<open>The answers of the tables are there.\<close>

definition fsm_ready :: "rxFsm \<Rightarrow> bool" where
  "fsm_ready s \<longleftrightarrow> f_stateTable_rsp s \<noteq> [] \<and> f_rxSar_rsp s \<noteq> [] \<and> \<not> (fsm_txSarRequest s \<and> f_txSar_rsp s = [])"

definition rxTcpFSM :: "rxEngCfg \<Rightarrow> u16 \<Rightarrow> u16 \<Rightarrow> rxTxSarReply \<Rightarrow> rxFsm \<Rightarrow> rxFsm" where
  "rxTcpFSM c maxCount count junk s =
     (case fsm_state s of
        FSM_LOAD \<Rightarrow>
          (case f_metaDataFifo s of
             [] \<Rightarrow> s
           | fm # q \<Rightarrow> fsm_load fm (s\<lparr>f_metaDataFifo := q\<rparr>))
      | FSM_TRANSITION \<Rightarrow>
          (if fsm_ready s
           then fsm_segment c (bypass_room maxCount count) junk (fsm_meta s)
                  (s\<lparr>fsm_state := FSM_LOAD, fsm_txSarRequest := False\<rparr>)
           else s))"

end
