(* ===== verification/Toe_Rx_Proofs.thy ===== *)
theory Toe_Rx_Proofs
  imports Toe_Rx_Fsm Toe_Sar_Tables Toe_State_Table
begin

text \<open>
  The TCP state machine of the receive engine: every segment releases the connection it locked and
  moves it along an edge of the state diagram.
\<close>

subsection \<open>Fields\<close>

lemma wr_fields [simp]:
  "f_stateTable_req (wr_state q s) = f_stateTable_req s @ [q]"
  "f_stateTable_req (wr_rxSar r s) = f_stateTable_req s"
  "f_stateTable_req (wr_txSar t s) = f_stateTable_req s"
  "f_stateTable_req (wr_clearRetransmit u s) = f_stateTable_req s"
  "f_stateTable_req (wr_clearProbe i s) = f_stateTable_req s"
  "f_stateTable_req (wr_closeTimer i s) = f_stateTable_req s"
  "f_stateTable_req (wr_openStatus os s) = f_stateTable_req s"
  "f_stateTable_req (wr_event e s) = f_stateTable_req s"
  "f_stateTable_req (wr_drop d s) = f_stateTable_req s"
  "f_stateTable_req (wr_cmd cm s) = f_stateTable_req s"
  "f_stateTable_req (wr_notification n s) = f_stateTable_req s"
  by (simp_all add: wr_defs)

lemma wr_drop_fields [simp]:
  "f_dropDataFifo (wr_state q s) = f_dropDataFifo s"
  "f_dropDataFifo (wr_rxSar r s) = f_dropDataFifo s"
  "f_dropDataFifo (wr_txSar t s) = f_dropDataFifo s"
  "f_dropDataFifo (wr_clearRetransmit u s) = f_dropDataFifo s"
  "f_dropDataFifo (wr_clearProbe i s) = f_dropDataFifo s"
  "f_dropDataFifo (wr_closeTimer i s) = f_dropDataFifo s"
  "f_dropDataFifo (wr_openStatus os s) = f_dropDataFifo s"
  "f_dropDataFifo (wr_event e s) = f_dropDataFifo s"
  "f_dropDataFifo (wr_drop d s) = f_dropDataFifo s @ [d]"
  "f_dropDataFifo (wr_cmd cm s) = f_dropDataFifo s"
  "f_dropDataFifo (wr_notification n s) = f_dropDataFifo s"
  by (simp_all add: wr_defs)

lemma wr_rxSar_fields [simp]:
  "f_rxSar_req (wr_state q s) = f_rxSar_req s"
  "f_rxSar_req (wr_rxSar r s) = f_rxSar_req s @ [r]"
  "f_rxSar_req (wr_txSar t s) = f_rxSar_req s"
  "f_rxSar_req (wr_clearRetransmit u s) = f_rxSar_req s"
  "f_rxSar_req (wr_clearProbe i s) = f_rxSar_req s"
  "f_rxSar_req (wr_closeTimer i s) = f_rxSar_req s"
  "f_rxSar_req (wr_openStatus os s) = f_rxSar_req s"
  "f_rxSar_req (wr_event e s) = f_rxSar_req s"
  "f_rxSar_req (wr_drop d s) = f_rxSar_req s"
  "f_rxSar_req (wr_cmd cm s) = f_rxSar_req s"
  "f_rxSar_req (wr_notification n s) = f_rxSar_req s"
  by (simp_all add: wr_defs)

lemma wr_cmd_fields [simp]:
  "f_rxBufferWriteCmd (wr_state q s) = f_rxBufferWriteCmd s"
  "f_rxBufferWriteCmd (wr_rxSar r s) = f_rxBufferWriteCmd s"
  "f_rxBufferWriteCmd (wr_txSar t s) = f_rxBufferWriteCmd s"
  "f_rxBufferWriteCmd (wr_clearRetransmit u s) = f_rxBufferWriteCmd s"
  "f_rxBufferWriteCmd (wr_clearProbe i s) = f_rxBufferWriteCmd s"
  "f_rxBufferWriteCmd (wr_closeTimer i s) = f_rxBufferWriteCmd s"
  "f_rxBufferWriteCmd (wr_openStatus os s) = f_rxBufferWriteCmd s"
  "f_rxBufferWriteCmd (wr_event e s) = f_rxBufferWriteCmd s"
  "f_rxBufferWriteCmd (wr_drop d s) = f_rxBufferWriteCmd s"
  "f_rxBufferWriteCmd (wr_cmd cm s) = f_rxBufferWriteCmd s @ [cm]"
  "f_rxBufferWriteCmd (wr_notification n s) = f_rxBufferWriteCmd s"
  by (simp_all add: wr_defs)

lemma wr_notification_fields [simp]:
  "f_notification (wr_state q s) = f_notification s"
  "f_notification (wr_rxSar r s) = f_notification s"
  "f_notification (wr_txSar t s) = f_notification s"
  "f_notification (wr_clearRetransmit u s) = f_notification s"
  "f_notification (wr_clearProbe i s) = f_notification s"
  "f_notification (wr_closeTimer i s) = f_notification s"
  "f_notification (wr_openStatus os s) = f_notification s"
  "f_notification (wr_event e s) = f_notification s"
  "f_notification (wr_drop d s) = f_notification s"
  "f_notification (wr_cmd cm s) = f_notification s"
  "f_notification (wr_notification n s) = f_notification s @ [n]"
  by (simp_all add: wr_defs)

lemma wr_txSar_fields [simp]:
  "f_txSar_req (wr_state q s) = f_txSar_req s"
  "f_txSar_req (wr_rxSar r s) = f_txSar_req s"
  "f_txSar_req (wr_txSar t s) = f_txSar_req s @ [t]"
  "f_txSar_req (wr_clearRetransmit u s) = f_txSar_req s"
  "f_txSar_req (wr_clearProbe i s) = f_txSar_req s"
  "f_txSar_req (wr_closeTimer i s) = f_txSar_req s"
  "f_txSar_req (wr_openStatus os s) = f_txSar_req s"
  "f_txSar_req (wr_event e s) = f_txSar_req s"
  "f_txSar_req (wr_drop d s) = f_txSar_req s"
  "f_txSar_req (wr_cmd cm s) = f_txSar_req s"
  "f_txSar_req (wr_notification n s) = f_txSar_req s"
  by (simp_all add: wr_defs)

lemma wr_fsm_state [simp]:
  "fsm_state (wr_state q s) = fsm_state s"
  "fsm_state (wr_rxSar r s) = fsm_state s"
  "fsm_state (wr_txSar t s) = fsm_state s"
  "fsm_state (wr_clearRetransmit u s) = fsm_state s"
  "fsm_state (wr_clearProbe i s) = fsm_state s"
  "fsm_state (wr_closeTimer i s) = fsm_state s"
  "fsm_state (wr_openStatus os s) = fsm_state s"
  "fsm_state (wr_event e s) = fsm_state s"
  "fsm_state (wr_drop d s) = fsm_state s"
  "fsm_state (wr_cmd cm s) = fsm_state s"
  "fsm_state (wr_notification n s) = fsm_state s"
  by (simp_all add: wr_defs)

lemma wr_state_rsp [simp]:
  "f_stateTable_rsp (wr_state q s) = f_stateTable_rsp s"
  "f_stateTable_rsp (wr_rxSar r s) = f_stateTable_rsp s"
  "f_stateTable_rsp (wr_txSar t s) = f_stateTable_rsp s"
  "f_stateTable_rsp (wr_clearRetransmit u s) = f_stateTable_rsp s"
  "f_stateTable_rsp (wr_clearProbe i s) = f_stateTable_rsp s"
  "f_stateTable_rsp (wr_closeTimer i s) = f_stateTable_rsp s"
  "f_stateTable_rsp (wr_openStatus os s) = f_stateTable_rsp s"
  "f_stateTable_rsp (wr_event e s) = f_stateTable_rsp s"
  "f_stateTable_rsp (wr_drop d s) = f_stateTable_rsp s"
  "f_stateTable_rsp (wr_cmd cm s) = f_stateTable_rsp s"
  "f_stateTable_rsp (wr_notification n s) = f_stateTable_rsp s"
  by (simp_all add: wr_defs)

lemma mk_fields [simp]:
  "sq_write (mk_stateWrite i st) = True" "sq_sessionID (mk_stateWrite i st) = i" "sq_state (mk_stateWrite i st) = st"
  "sq_write (mk_stateQuery i) = False" "sq_sessionID (mk_stateQuery i) = i"
  by (simp_all add: mk_stateWrite_def mk_stateQuery_def)

lemma mk_stateWrite_inject [simp]: "mk_stateWrite i st = mk_stateWrite j st' \<longleftrightarrow> i = j \<and> st = st'"
  by (simp add: mk_stateWrite_def)

lemma state_req_payload [simp]:
  "f_stateTable_req (store_segment fm q k s) = f_stateTable_req s"
  "f_stateTable_req (fsm_payload_ooo fm rx s) = f_stateTable_req s"
  "f_stateTable_req (fsm_payload_bypass room fm rx s) = f_stateTable_req s"
  "f_stateTable_req (fsm_ack_window c fm tx s) = f_stateTable_req s"
  "f_stateTable_req (fsm_ack_event c room fm rx tx s) = f_stateTable_req s"
  "f_stateTable_req (fsm_fin_payload c fm st s) = f_stateTable_req s"
  by (simp_all add: store_segment_def fsm_payload_ooo_def fsm_payload_bypass_def fsm_ack_window_def
      fsm_ack_event_def fsm_fin_payload_def Let_def)

subsection \<open>The state diagram\<close>

text \<open>The edges of the diagram of RFC 793 that a received segment takes; \<open>CLOSED\<close> stands for \<open>LISTEN\<close> too. From
  \<open>ESTABLISHED\<close> a received \<open>FIN\<close> leads to \<open>LAST_ACK\<close>, because the engine answers with its own \<open>FIN\<close>.\<close>

fun tcp_edge :: "sessionState \<Rightarrow> sessionState \<Rightarrow> bool" where
  "tcp_edge CLOSED st \<longleftrightarrow> st = SYN_RECEIVED"
| "tcp_edge SYN_SENT st \<longleftrightarrow> st = SYN_RECEIVED \<or> st = ESTABLISHED \<or> st = CLOSED"
| "tcp_edge SYN_RECEIVED st \<longleftrightarrow> st = ESTABLISHED \<or> st = CLOSED"
| "tcp_edge ESTABLISHED st \<longleftrightarrow> st = LAST_ACK \<or> st = CLOSED"
| "tcp_edge FIN_WAIT_1 st \<longleftrightarrow> st = CLOSING \<or> st = TIME_WAIT \<or> st = CLOSED"
| "tcp_edge FIN_WAIT_2 st \<longleftrightarrow> st = CLOSING \<or> st = TIME_WAIT \<or> st = CLOSED"
| "tcp_edge CLOSING st \<longleftrightarrow> st = TIME_WAIT \<or> st = CLOSED"
| "tcp_edge LAST_ACK st \<longleftrightarrow> st = CLOSED"
| "tcp_edge TIME_WAIT st \<longleftrightarrow> st = CLOSED"

definition tcp_step :: "sessionState \<Rightarrow> sessionState \<Rightarrow> bool" where
  "tcp_step st st' \<longleftrightarrow> st' = st \<or> tcp_edge st st'"

definition writes_state :: "rxFsmMetaData \<Rightarrow> sessionState \<Rightarrow> rxFsm \<Rightarrow> rxFsm \<Rightarrow> bool" where
  "writes_state fm st s s' \<longleftrightarrow>
     (\<exists>st'. f_stateTable_req s' = f_stateTable_req s @ [mk_stateWrite (fm_sessionID fm) st'] \<and> tcp_step st st')"

lemma ack_writes_state: "writes_state fm st s (fsm_ack c room fm st rx tx s)"
  by (cases st)
    (simp_all add: writes_state_def fsm_ack_def fsm_ack_state_def ack_states_def Let_def tcp_step_def)

lemma syn_writes_state: "writes_state fm st s (fsm_syn fm st rx tx s)"
  by (cases st) (simp_all add: writes_state_def fsm_syn_def Let_def tcp_step_def)

lemma syn_ack_writes_state: "writes_state fm st s (fsm_syn_ack fm st tx s)"
  by (cases st) (simp_all add: writes_state_def fsm_syn_ack_def Let_def tcp_step_def)

lemma fin_writes_state: "writes_state fm st s (fsm_fin c fm st rx tx s)"
  by (cases st)
    (simp_all add: writes_state_def fsm_fin_def fin_accepted_def fsm_fin_state_def Let_def tcp_step_def)

lemma other_writes_state: "writes_state fm st s (fsm_other fm st rx tx s)"
  by (cases st) (simp_all add: writes_state_def fsm_other_def Let_def tcp_step_def)

lemma segment_writes_state: "writes_state fm (hd (f_stateTable_rsp s)) s (fsm_segment c room junk fm s)"
proof -
  have eq: "writes_state fm st (s\<lparr>f_stateTable_rsp := a, f_rxSar_rsp := b, f_txSar_rsp := d\<rparr>) s' = writes_state fm st s s'"
    "writes_state fm st (s\<lparr>f_stateTable_rsp := a, f_rxSar_rsp := b\<rparr>) s' = writes_state fm st s s'" for st a b d s'
    by (simp_all add: writes_state_def)
  note facts = ack_writes_state [of fm "hd (f_stateTable_rsp s)"] syn_writes_state [of fm "hd (f_stateTable_rsp s)"]
    syn_ack_writes_state [of fm "hd (f_stateTable_rsp s)"] fin_writes_state [of fm "hd (f_stateTable_rsp s)"]
    other_writes_state [of fm "hd (f_stateTable_rsp s)"]
  show ?thesis
    unfolding fsm_segment_def Let_def
    using facts [of "s\<lparr>f_stateTable_rsp := tl (f_stateTable_rsp s), f_rxSar_rsp := tl (f_rxSar_rsp s),
                      f_txSar_rsp := tl (f_txSar_rsp s)\<rparr>", unfolded eq]
      facts(2) [of "s\<lparr>f_stateTable_rsp := tl (f_stateTable_rsp s), f_rxSar_rsp := tl (f_rxSar_rsp s)\<rparr>", unfolded eq]
    by (simp split: if_split)
qed

lemma same_payload [simp]:
  "f_stateTable_rsp (store_segment fm q k s) = f_stateTable_rsp s" "fsm_state (store_segment fm q k s) = fsm_state s"
  "f_stateTable_rsp (fsm_payload_ooo fm rx s) = f_stateTable_rsp s" "fsm_state (fsm_payload_ooo fm rx s) = fsm_state s"
  "f_stateTable_rsp (fsm_payload_bypass room fm rx s) = f_stateTable_rsp s"
  "fsm_state (fsm_payload_bypass room fm rx s) = fsm_state s"
  "f_stateTable_rsp (fsm_ack_window c fm tx s) = f_stateTable_rsp s" "fsm_state (fsm_ack_window c fm tx s) = fsm_state s"
  "f_stateTable_rsp (fsm_ack_event c room fm rx tx s) = f_stateTable_rsp s"
  "fsm_state (fsm_ack_event c room fm rx tx s) = fsm_state s"
  "f_stateTable_rsp (fsm_fin_payload c fm st s) = f_stateTable_rsp s" "fsm_state (fsm_fin_payload c fm st s) = fsm_state s"
  "f_stateTable_rsp (fsm_fin_state fm st tx s) = f_stateTable_rsp s" "fsm_state (fsm_fin_state fm st tx s) = fsm_state s"
  "f_stateTable_rsp (fsm_ack_state fm st tx s) = f_stateTable_rsp s" "fsm_state (fsm_ack_state fm st tx s) = fsm_state s"
  by (simp_all add: store_segment_def fsm_payload_ooo_def fsm_payload_bypass_def fsm_ack_window_def
      fsm_ack_event_def fsm_fin_payload_def fsm_fin_state_def fsm_ack_state_def Let_def split: sessionState.split)

lemma segment_same [simp]:
  "f_stateTable_rsp (fsm_segment c room junk fm s) = tl (f_stateTable_rsp s)"
  "fsm_state (fsm_segment c room junk fm s) = fsm_state s"
  by (simp_all add: fsm_segment_def fsm_ack_def fsm_syn_def fsm_syn_ack_def fsm_fin_def fsm_other_def Let_def)

text \<open>The three kinds of calls of the state machine, as the state table sees them.\<close>

lemma rxTcpFSM_cases:
  obtains
    (idle) "fsm_state (rxTcpFSM c a b junk s) = fsm_state s" "fsm_meta (rxTcpFSM c a b junk s) = fsm_meta s"
      "f_stateTable_req (rxTcpFSM c a b junk s) = f_stateTable_req s"
      "f_stateTable_rsp (rxTcpFSM c a b junk s) = f_stateTable_rsp s"
  | (load) "fsm_state s = FSM_LOAD" "fsm_state (rxTcpFSM c a b junk s) = FSM_TRANSITION"
      "f_stateTable_req (rxTcpFSM c a b junk s)
       = f_stateTable_req s @ [mk_stateQuery (fm_sessionID (fsm_meta (rxTcpFSM c a b junk s)))]"
      "f_stateTable_rsp (rxTcpFSM c a b junk s) = f_stateTable_rsp s"
  | (segment) st' where "fsm_state s = FSM_TRANSITION" "fsm_ready s" "fsm_state (rxTcpFSM c a b junk s) = FSM_LOAD"
      "f_stateTable_req (rxTcpFSM c a b junk s)
       = f_stateTable_req s @ [mk_stateWrite (fm_sessionID (fsm_meta s)) st']"
      "tcp_step (hd (f_stateTable_rsp s)) st'"
      "f_stateTable_rsp (rxTcpFSM c a b junk s) = tl (f_stateTable_rsp s)"
proof (cases "fsm_state s")
  case FSM_LOAD
  show thesis
  proof (cases "f_metaDataFifo s")
    case Nil
    then show thesis using FSM_LOAD by (intro idle) (simp_all add: rxTcpFSM_def)
  next
    case (Cons fm q)
    then show thesis using FSM_LOAD by (intro load) (simp_all add: rxTcpFSM_def fsm_load_def wr_defs)
  qed
next
  case FSM_TRANSITION
  show thesis
  proof (cases "fsm_ready s")
    case False
    then show thesis using FSM_TRANSITION by (intro idle) (simp_all add: rxTcpFSM_def)
  next
    case True
    let ?s = "s\<lparr>fsm_state := FSM_LOAD, fsm_txSarRequest := False\<rparr>"
    obtain st' where "f_stateTable_req (rxTcpFSM c a b junk s)
        = f_stateTable_req s @ [mk_stateWrite (fm_sessionID (fsm_meta s)) st']" "tcp_step (hd (f_stateTable_rsp s)) st'"
      using segment_writes_state [of "fsm_meta s" ?s c "bypass_room a b" junk] True FSM_TRANSITION
      by (auto simp: rxTcpFSM_def writes_state_def)
    then show thesis using FSM_TRANSITION True by (intro segment) (simp_all add: rxTcpFSM_def)
  qed
qed

end
