(* ===== verification/Toe_Rx_Connections.thy ===== *)
theory Toe_Rx_Connections
  imports Toe_Rx_Proofs
begin

text \<open>
  The state machine of the receive engine connected to the state table, as in \<^verbatim>\<open>toe/toe.cpp\<close>. The
  environment delivers any segments and any answers of the window tables, the application side and
  the timers send any requests to the state table, and the two modules run in any order.
\<close>

subsection \<open>The two modules\<close>

record rxConn =
  rc_fsm :: rxFsm
  rc_tab :: stt

datatype rxConnIn =
  RxSegment rxFsmMetaData | RxSarAnswer rxSarEntry | TxSarAnswer rxTxSarReply | RxFsmCall u16 u16 rxTxSarReply
  | StateTable sttIn

definition rxFsm_call :: "rxEngCfg \<Rightarrow> u16 \<Rightarrow> u16 \<Rightarrow> rxTxSarReply \<Rightarrow> rxConn \<Rightarrow> rxConn" where
  "rxFsm_call c a b junk x =
     (let t = rc_tab x;
          f = rxTcpFSM c a b junk (rc_fsm x\<lparr>f_stateTable_req := rxEng_upd_req t, f_stateTable_rsp := rxEng_upd_rsp t\<rparr>)
      in x\<lparr>rc_fsm := f, rc_tab := t\<lparr>rxEng_upd_req := f_stateTable_req f, rxEng_upd_rsp := f_stateTable_rsp f\<rparr>\<rparr>)"

text \<open>Requests of the receive engine come from the state machine only.\<close>

fun rxConn_step :: "rxEngCfg \<Rightarrow> rxConnIn \<Rightarrow> rxConn \<Rightarrow> rxConn" where
  "rxConn_step c (RxSegment fm) x = x\<lparr>rc_fsm := rc_fsm x\<lparr>f_metaDataFifo := f_metaDataFifo (rc_fsm x) @ [fm]\<rparr>\<rparr>"
| "rxConn_step c (RxSarAnswer e) x = x\<lparr>rc_fsm := rc_fsm x\<lparr>f_rxSar_rsp := f_rxSar_rsp (rc_fsm x) @ [e]\<rparr>\<rparr>"
| "rxConn_step c (TxSarAnswer e) x = x\<lparr>rc_fsm := rc_fsm x\<lparr>f_txSar_rsp := f_txSar_rsp (rc_fsm x) @ [e]\<rparr>\<rparr>"
| "rxConn_step c (RxFsmCall a b junk) x = rxFsm_call c a b junk x"
| "rxConn_step c (StateTable (SttRx q)) x = x"
| "rxConn_step c (StateTable i) x = x\<lparr>rc_tab := stt_step i (rc_tab x)\<rparr>"

definition empty_rxTxSarReply :: rxTxSarReply where
  "empty_rxTxSarReply = \<lparr>rt_prevAck = 0, rt_nextByte = 0, rt_cong_window = 0, rt_slowstart_threshold = 0, rt_count = 0,
     rt_fastRetransmitted = False\<rparr>"

definition empty_meta :: rxFsmMetaData where
  "empty_meta = \<lparr>fm_sessionID = 0, fm_srcIpAddress = 0, fm_dstIpPort = 0,
     fm_meta = \<lparr>me_seqNumb = 0, me_ackNumb = 0, me_winSize = 0, me_winScale = 0, me_length = 0, me_ack = False,
       me_rst = False, me_syn = False, me_fin = False, me_dataOffset = 0\<rparr>, fm_srcIpPort = 0\<rparr>"

definition rxFsm_init :: rxFsm where
  "rxFsm_init = \<lparr>f_metaDataFifo = [], f_stateTable_rsp = [], f_rxSar_rsp = [], f_txSar_rsp = [], f_stateTable_req = [],
     f_rxSar_req = [], f_txSar_req = [], f_clearRetransmitTimer = [], f_clearProbeTimer = [], f_setCloseTimer = [],
     f_openConStatus = [], f_setEvent = [], f_dropDataFifo = [], f_rxBufferWriteCmd = [], f_notification = [],
     fsm_state = FSM_LOAD, fsm_meta = empty_meta, fsm_txSarRequest = False\<rparr>"

definition rxConn_init :: rxConn where
  "rxConn_init = \<lparr>rc_fsm = rxFsm_init, rc_tab = stt_init\<rparr>"

subsection \<open>Calls of the table\<close>

text \<open>A call that leaves the receive side alone.\<close>

definition rx_untouched :: "stt \<Rightarrow> stt \<Rightarrow> bool" where
  "rx_untouched s t \<longleftrightarrow> rxEng_upd_req t = rxEng_upd_req s \<and> rxEng_upd_rsp t = rxEng_upd_rsp s
     \<and> stt_rxWait t = stt_rxWait s \<and> stt_rxAccess t = stt_rxAccess s
     \<and> stt_rxSessionLocked t = stt_rxSessionLocked s \<and> stt_rxSessionID t = stt_rxSessionID s
     \<and> (\<forall>i. rx_locks i s \<longrightarrow> state_tab t i = state_tab s i)
     \<and> (\<forall>i. state_tab t i \<noteq> state_tab s i \<longrightarrow>
          (sq_write (stt_txAccess t) \<and> sq_sessionID (stt_txAccess t) = i \<and> sq_state (stt_txAccess t) = state_tab t i)
          \<or> (stt_closeSessionID t = i \<and> state_tab t i = CLOSED))"

definition rx_same :: "stt \<Rightarrow> stt \<Rightarrow> bool" where
  "rx_same s t \<longleftrightarrow> rxEng_upd_req t = rxEng_upd_req s \<and> rxEng_upd_rsp t = rxEng_upd_rsp s
     \<and> stt_rxWait t = stt_rxWait s \<and> stt_rxAccess t = stt_rxAccess s
     \<and> stt_rxSessionLocked t = stt_rxSessionLocked s \<and> stt_rxSessionID t = stt_rxSessionID s
     \<and> state_tab t = state_tab s"

lemma untouched_access:
  "\<not> rx_locks (sq_sessionID (stt_txAccess t)) s \<Longrightarrow> rx_same s t \<Longrightarrow> rx_untouched s (tx_access t)"
  "\<not> rx_locks (stt_closeSessionID t) s \<Longrightarrow> rx_same s t \<Longrightarrow> rx_untouched s (close_access t)"
  unfolding rx_untouched_def rx_same_def by (auto simp: tx_access_def close_access_def Let_def)

lemma untouched_same: "rx_same s t \<Longrightarrow> rx_untouched s t"
  unfolding rx_untouched_def rx_same_def by simp

lemma state_table_other:
  "rxEng_upd_req s = [] \<or> stt_rxWait s \<Longrightarrow> \<not> stt_rxWait s \<or> tx_locks (sq_sessionID (stt_rxAccess s)) s
   \<Longrightarrow> rx_untouched s (state_table s)"
  "txApp_upd_req s \<noteq> [] \<and> \<not> stt_txWait s \<Longrightarrow> rx_untouched s (state_table s)"
  "txApp_req s \<noteq> [] \<Longrightarrow> rx_untouched s (state_table s)"
  "rxEng_upd_req s = [] \<or> stt_rxWait s \<Longrightarrow> timer_releaseState s \<noteq> [] \<and> \<not> stt_closeWait s \<or> stt_txWait s
   \<Longrightarrow> rx_untouched s (state_table s)"
  unfolding state_table_def Let_def wait_commute if_split [of "rx_untouched s"]
  by (intro conjI impI;
      (blast | ((rule untouched_access | rule untouched_same); simp add: rx_same_def)))+

lemma state_table_rx_cases:
  assumes free: "\<not> (stt_rxWait s \<and> sq_write (stt_rxAccess s))"
  obtains
    (other) "rx_untouched s (state_table s)"
  | (blocked) q R where "rxEng_upd_req s = q # R" "\<not> stt_rxWait s" "tx_locks (sq_sessionID q) s"
      "state_table s = s\<lparr>stt_rxAccess := q, rxEng_upd_req := R, stt_rxWait := True\<rparr>"
  | (served) q R where "rxEng_upd_req s = q # R" "\<not> stt_rxWait s"
      "state_table s = rx_access (s\<lparr>stt_rxAccess := q, rxEng_upd_req := R\<rparr>)"
  | (retried) "stt_rxWait s" "\<not> sq_write (stt_rxAccess s)" "state_table s = rx_access (s\<lparr>stt_rxWait := False\<rparr>)"
proof -
  consider
      (A) "rx_untouched s (state_table s)"
    | (B) "\<not> (txApp_upd_req s \<noteq> [] \<and> \<not> stt_txWait s)" "txApp_req s = []" "rxEng_upd_req s \<noteq> []" "\<not> stt_rxWait s"
    | (C) "\<not> (txApp_upd_req s \<noteq> [] \<and> \<not> stt_txWait s)" "txApp_req s = []" "\<not> (rxEng_upd_req s \<noteq> [] \<and> \<not> stt_rxWait s)"
        "\<not> (timer_releaseState s \<noteq> [] \<and> \<not> stt_closeWait s)" "\<not> stt_txWait s" "stt_rxWait s"
        "\<not> tx_locks (sq_sessionID (stt_rxAccess s)) s"
    using state_table_other by blast
  then show thesis
  proof cases
    case A
    then show thesis by (rule other)
  next
    case B
    then obtain q R where q: "rxEng_upd_req s = q # R" by (cases "rxEng_upd_req s") auto
    show thesis
    proof (cases "tx_locks (sq_sessionID q) s")
      case True
      then show thesis using B q by (intro blocked [of q R]) (auto simp: state_table_def Let_def)
    next
      case False
      then show thesis using B q by (intro served [of q R]) (auto simp: state_table_def Let_def)
    qed
  next
    case C
    then have "state_table s = rx_access (s\<lparr>stt_rxWait := False\<rparr>)"
      by (auto simp: state_table_def Let_def wait_commute)
    then show thesis using C free by (intro retried) simp_all
  qed
qed

subsection \<open>Who owns a connection\<close>

text \<open>The phases of a segment: its request is on the way, waits for the application side, is answered;
  then its write is on the way, with the request of the next segment behind it or not.\<close>

definition owns ::
  "fsmStateType \<Rightarrow> u16 \<Rightarrow> stateQuery list \<Rightarrow> sessionState list \<Rightarrow> bool \<Rightarrow> stateQuery \<Rightarrow> bool \<Rightarrow> u16
   \<Rightarrow> (u16 \<Rightarrow> sessionState) \<Rightarrow> bool" where
  "owns st i R P w a L k T \<longleftrightarrow>
     (st = FSM_LOAD \<and> R = [] \<and> P = [] \<and> \<not> w \<and> \<not> L)
   \<or> (st = FSM_TRANSITION \<and> R = [mk_stateQuery i] \<and> P = [] \<and> \<not> w \<and> \<not> L)
   \<or> (st = FSM_TRANSITION \<and> R = [] \<and> P = [] \<and> w \<and> a = mk_stateQuery i \<and> \<not> L)
   \<or> (st = FSM_TRANSITION \<and> R = [] \<and> P = [T i] \<and> \<not> w \<and> L \<and> k = i)
   \<or> (st = FSM_LOAD \<and> (\<exists>st'. R = [mk_stateWrite k st'] \<and> tcp_step (T k) st') \<and> P = [] \<and> \<not> w \<and> L)
   \<or> (st = FSM_TRANSITION \<and> (\<exists>st'. R = [mk_stateWrite k st', mk_stateQuery i] \<and> tcp_step (T k) st') \<and> P = [] \<and> \<not> w \<and> L)"

lemma owns_table: "owns st i R P w a L k T \<Longrightarrow> \<not> L \<or> T' k = T k \<Longrightarrow> owns st i R P w a L k T'"
  unfolding owns_def by (elim disjE conjE exE; simp)

definition rxConn_inv :: "rxConn \<Rightarrow> bool" where
  "rxConn_inv x \<longleftrightarrow> stt_inv (rc_tab x)
     \<and> owns (fsm_state (rc_fsm x)) (fm_sessionID (fsm_meta (rc_fsm x))) (rxEng_upd_req (rc_tab x)) (rxEng_upd_rsp (rc_tab x))
         (stt_rxWait (rc_tab x)) (stt_rxAccess (rc_tab x)) (stt_rxSessionLocked (rc_tab x)) (stt_rxSessionID (rc_tab x))
         (state_tab (rc_tab x))"

lemma owns_load:
  "owns FSM_LOAD i R P w a L k T \<Longrightarrow> owns FSM_TRANSITION j (R @ [mk_stateQuery j]) P w a L k T"
  unfolding owns_def by auto

lemma owns_segment:
  "owns FSM_TRANSITION i R P w a L k T \<Longrightarrow> P \<noteq> [] \<Longrightarrow> tcp_step (hd P) st'
   \<Longrightarrow> owns FSM_LOAD j (R @ [mk_stateWrite i st']) (tl P) w a L k T"
  unfolding owns_def by auto

lemma inv_fsm_call: "rxConn_inv x \<Longrightarrow> rxConn_inv (rxFsm_call c a b junk x)"
proof -
  assume inv: "rxConn_inv x"
  let ?s = "rc_fsm x\<lparr>f_stateTable_req := rxEng_upd_req (rc_tab x), f_stateTable_rsp := rxEng_upd_rsp (rc_tab x)\<rparr>"
  have stt: "stt_inv (t\<lparr>rxEng_upd_req := p, rxEng_upd_rsp := q\<rparr>) = stt_inv t" for t p q
    by (simp add: stt_inv_def rx_locks_def tx_locks_def)
  define f where "f = rxTcpFSM c a b junk ?s"
  let ?t = "rc_tab x"
  have o: "owns (fsm_state ?s) (fm_sessionID (fsm_meta ?s)) (rxEng_upd_req ?t) (rxEng_upd_rsp ?t) (stt_rxWait ?t)
     (stt_rxAccess ?t) (stt_rxSessionLocked ?t) (stt_rxSessionID ?t) (state_tab ?t)"
    using inv by (simp add: rxConn_inv_def)
  have "owns (fsm_state f) (fm_sessionID (fsm_meta f)) (f_stateTable_req f) (f_stateTable_rsp f) (stt_rxWait ?t)
     (stt_rxAccess ?t) (stt_rxSessionLocked ?t) (stt_rxSessionID ?t) (state_tab ?t)"
  proof (cases rule: rxTcpFSM_cases [of c a b junk ?s])
    case idle
    show ?thesis unfolding f_def idle using o by simp
  next
    case load
    show ?thesis unfolding f_def load(2-4) using owns_load o load(1) by simp
  next
    case (segment st')
    from segment(2) have "rxEng_upd_rsp (rc_tab x) \<noteq> []" by (simp add: fsm_ready_def)
    then show ?thesis unfolding f_def segment(3,4,6) using owns_segment o segment(1,5) by simp
  qed
  then show ?thesis using inv by (simp add: rxConn_inv_def rxFsm_call_def Let_def stt f_def [symmetric])
qed

lemma rx_access_fields:
  "rxEng_upd_req (rx_access s) = rxEng_upd_req s" "stt_rxWait (rx_access s) = stt_rxWait s"
  "rxEng_upd_rsp (rx_access s)
   = (if sq_write (stt_rxAccess s) then rxEng_upd_rsp s else rxEng_upd_rsp s @ [state_tab s (sq_sessionID (stt_rxAccess s))])"
  "stt_rxSessionLocked (rx_access s) = (\<not> sq_write (stt_rxAccess s))"
  "stt_rxSessionID (rx_access s) = (if sq_write (stt_rxAccess s) then stt_rxSessionID s else sq_sessionID (stt_rxAccess s))"
  by (simp_all add: rx_access_def Let_def)

lemma owns_served:
  "owns st i (q # R) P False a L k T \<Longrightarrow>
   owns st i R (if sq_write q then P else P @ [T (sq_sessionID q)]) False q (\<not> sq_write q)
     (if sq_write q then k else sq_sessionID q) T'
   \<or> \<not> (\<not> sq_write q \<longrightarrow> T' = T)"
  unfolding owns_def by auto

lemma owns_retried:
  "owns st i R P True a L k T \<Longrightarrow> owns st i R (P @ [T (sq_sessionID a)]) False a' True (sq_sessionID a) T"
  unfolding owns_def by auto

lemma owns_wait_reads: "owns st i R P w a L k T \<Longrightarrow> \<not> (w \<and> sq_write a)"
  unfolding owns_def by auto

lemma owns_blocked:
  "owns st i (q # R) P False a L k T \<Longrightarrow> \<not> sq_write q \<Longrightarrow> owns st i R P True q L k T"
  unfolding owns_def by auto

lemma owns_head_write:
  "owns st i (q # R) P False a L k T \<Longrightarrow> sq_write q \<Longrightarrow> L \<and> sq_sessionID q = k \<and> tcp_step (T k) (sq_state q)"
  unfolding owns_def by auto

lemma inv_table_call: "rxConn_inv x \<Longrightarrow> rxConn_inv (x\<lparr>rc_tab := state_table (rc_tab x)\<rparr>)"
proof -
  assume inv: "rxConn_inv x"
  let ?t = "rc_tab x" and ?st = "fsm_state (rc_fsm x)" and ?i = "fm_sessionID (fsm_meta (rc_fsm x))"
  let ?owns = "owns ?st ?i (rxEng_upd_req ?t) (rxEng_upd_rsp ?t) (stt_rxWait ?t) (stt_rxAccess ?t)
     (stt_rxSessionLocked ?t) (stt_rxSessionID ?t) (state_tab ?t)"
  have o: ?owns and si: "stt_inv ?t" using inv by (simp_all add: rxConn_inv_def)
  have "owns ?st ?i (rxEng_upd_req (state_table ?t)) (rxEng_upd_rsp (state_table ?t)) (stt_rxWait (state_table ?t))
     (stt_rxAccess (state_table ?t)) (stt_rxSessionLocked (state_table ?t)) (stt_rxSessionID (state_table ?t))
     (state_tab (state_table ?t))"
    using owns_wait_reads [OF o]
  proof (cases rule: state_table_rx_cases)
    case other
    then show ?thesis using owns_table [OF o, of "state_tab (state_table ?t)"]
      by (auto simp: rx_untouched_def rx_locks_def)
  next
    case (blocked q R)
    have "\<not> sq_write q"
    proof
      assume w: "sq_write q"
      have "stt_rxSessionLocked ?t \<and> sq_sessionID q = stt_rxSessionID ?t"
        using owns_head_write [of ?st ?i q R, OF _ w] o [unfolded blocked(1)] blocked(2) by metis
      then show False using blocked(3) si by (auto simp: stt_inv_def rx_locks_def)
    qed
    then show ?thesis unfolding blocked(4) using o blocked(1,2) by (simp add: owns_blocked)
  next
    case (served q R)
    have "owns ?st ?i (q # R) (rxEng_upd_rsp ?t) False (stt_rxAccess ?t) (stt_rxSessionLocked ?t)
       (stt_rxSessionID ?t) (state_tab ?t)" using o served(1,2) by simp
    from owns_served [OF this, of "state_tab (state_table ?t)"] show ?thesis
      unfolding served(3) using served(2) by (auto simp: rx_access_fields fun_eq_iff)
  next
    case retried
    have "owns ?st ?i (rxEng_upd_req ?t) (rxEng_upd_rsp ?t) True (stt_rxAccess ?t) (stt_rxSessionLocked ?t)
       (stt_rxSessionID ?t) (state_tab ?t)" using o retried(1) by simp
    from owns_retried [OF this, of "stt_rxAccess ?t"] retried(2) have
      "owns ?st ?i (rxEng_upd_req ?t) (rxEng_upd_rsp ?t @ [state_tab ?t (sq_sessionID (stt_rxAccess ?t))]) False
        (stt_rxAccess ?t) True (sq_sessionID (stt_rxAccess ?t)) (state_tab (rx_access (?t\<lparr>stt_rxWait := False\<rparr>)))"
      by (simp add: rx_access_def Let_def)
    then show ?thesis unfolding retried(3) using retried(2) by (simp add: rx_access_fields)
  qed
  then show ?thesis using si by (simp add: rxConn_inv_def stt_inv_call)
qed

lemma rxConn_inv_env:
  "rxConn_inv (x\<lparr>rc_fsm := rc_fsm x\<lparr>f_metaDataFifo := p\<rparr>\<rparr>) = rxConn_inv x"
  "rxConn_inv (x\<lparr>rc_fsm := rc_fsm x\<lparr>f_rxSar_rsp := p1\<rparr>\<rparr>) = rxConn_inv x"
  "rxConn_inv (x\<lparr>rc_fsm := rc_fsm x\<lparr>f_txSar_rsp := p2\<rparr>\<rparr>) = rxConn_inv x"
  "rxConn_inv (x\<lparr>rc_tab := rc_tab x\<lparr>txApp_upd_req := p3\<rparr>\<rparr>) = rxConn_inv x"
  "rxConn_inv (x\<lparr>rc_tab := rc_tab x\<lparr>txApp_req := p4\<rparr>\<rparr>) = rxConn_inv x"
  "rxConn_inv (x\<lparr>rc_tab := rc_tab x\<lparr>timer_releaseState := p4\<rparr>\<rparr>) = rxConn_inv x"
  by (simp_all add: rxConn_inv_def stt_inv_def)

lemma rxConn_inv_step: "rxConn_inv x \<Longrightarrow> rxConn_inv (rxConn_step c i x)"
  by (induction c i x rule: rxConn_step.induct) (simp_all add: inv_fsm_call inv_table_call rxConn_inv_env)

interpretation conn: step_invariant rxConn_init "rxConn_step c" rxConn_inv
  by unfold_locales
    (simp_all add: rxConn_inv_step,
     simp add: rxConn_inv_def rxConn_init_def rxFsm_init_def owns_def stt_inv_def stt_init_def rx_locks_def)

subsection \<open>Connections follow the state diagram\<close>

lemma write_in_front:
  assumes inv: "rxConn_inv x" and req: "rxEng_upd_req (rc_tab x) = q # R" "\<not> stt_rxWait (rc_tab x)" "sq_write q"
  shows "rx_locks (sq_sessionID q) (rc_tab x) \<and> tcp_step (state_tab (rc_tab x) (sq_sessionID q)) (sq_state q)"
proof -
  have "owns (fsm_state (rc_fsm x)) (fm_sessionID (fsm_meta (rc_fsm x))) (q # R) (rxEng_upd_rsp (rc_tab x)) False
     (stt_rxAccess (rc_tab x)) (stt_rxSessionLocked (rc_tab x)) (stt_rxSessionID (rc_tab x)) (state_tab (rc_tab x))"
    using inv req by (simp add: rxConn_inv_def)
  from owns_head_write [OF this req(3)] show ?thesis by (auto simp: rx_locks_def)
qed

text \<open>C6. Every change of the state of a connection is accounted for: after any history of segments, answers of
  the window tables, requests of the application side, timers and calls in any order, when a call of the state
  table changes an entry, either the receive engine has the entry locked, the change is an edge of the TCP state
  diagram from the current state of the entry, and the call releases the lock; or the entry is not locked for
  the receive engine and takes the state that the application side wrote or is closed by the timer.\<close>

theorem connections_follow_diagram:
  assumes "x = run_inputs (rxConn_step c) is rxConn_init" and "s = rc_tab x"
    and "state_tab (state_table s) i \<noteq> state_tab s i"
  shows "(rx_locks i s \<and> tcp_edge (state_tab s i) (state_tab (state_table s) i) \<and> \<not> rx_locks i (state_table s))
    \<or> (\<not> rx_locks i s
       \<and> ((sq_write (stt_txAccess (state_table s)) \<and> sq_sessionID (stt_txAccess (state_table s)) = i
             \<and> sq_state (stt_txAccess (state_table s)) = state_tab (state_table s) i)
          \<or> (stt_closeSessionID (state_table s) = i \<and> state_tab (state_table s) i = CLOSED)))"
proof -
  have inv: "rxConn_inv x" unfolding assms(1) by (rule conn.inv_run)
  then have free: "\<not> (stt_rxWait s \<and> sq_write (stt_rxAccess s))"
    unfolding assms(2) rxConn_inv_def by (blast dest: owns_wait_reads)
  then show ?thesis
  proof (cases rule: state_table_rx_cases)
    case other
    then show ?thesis using assms(3) unfolding rx_untouched_def by metis
  next
    case (blocked q R)
    then show ?thesis using assms(3) by simp
  next
    case (served q R)
    then have w: "sq_write q" "sq_sessionID q = i" and e: "state_tab (state_table s) i = sq_state q"
      using assms(3) by (auto split: if_splits)
    then have "rx_locks i s \<and> tcp_step (state_tab s i) (sq_state q)"
      using write_in_front [OF inv] served(1,2) assms(2) by blast
    then show ?thesis using w e assms(3) served(3) by (auto simp: tcp_step_def)
  next
    case retried
    then show ?thesis using assms(3) by simp
  qed
qed

text \<open>A \<open>SYN\<close> for connection 3, up to the point where its write is in the queue.\<close>

definition syn_meta :: rxFsmMetaData where
  "syn_meta = empty_meta\<lparr>fm_sessionID := 3, fm_meta := (fm_meta empty_meta)\<lparr>me_seqNumb := 7, me_syn := True\<rparr>\<rparr>"

definition some_rxSarEntry :: rxSarEntry where
  "some_rxSarEntry = \<lparr>re_recvd = 0, re_appd = 0, re_win_shift = 0, re_head = 0, re_offset = 0, re_gap = False\<rparr>"

definition syn_history :: "rxConnIn list" where
  "syn_history = [RxSegment syn_meta, RxFsmCall 0 0 empty_rxTxSarReply, StateTable SttCall,
     RxSarAnswer some_rxSarEntry, RxFsmCall 0 0 empty_rxTxSarReply]"

definition mem_cfg :: rxEngCfg where
  "mem_cfg = \<lparr>RX_DDR_BYPASS = False, MSS = 4096\<rparr>"

lemma syn_history_table:
  "rc_tab (run_inputs (rxConn_step mem_cfg) syn_history rxConn_init)
   = stt_init\<lparr>rxEng_upd_req := [mk_stateWrite 3 SYN_RECEIVED], stt_rxAccess := mk_stateQuery 3,
       stt_rxSessionID := 3, stt_rxSessionLocked := True\<rparr>"
  by (simp add: syn_history_def rxConn_init_def rxFsm_init_def rxFsm_call_def rxTcpFSM_def fsm_load_def wr_defs
      syn_meta_def empty_meta_def stt_init_def state_table_def tx_locks_def rx_access_def Let_def
      fsm_ready_def fsm_segment_def control_bits_def fsm_syn_def mk_stateQuery_def)

theorem connections_follow_diagram_witness:
  "let s = rc_tab (run_inputs (rxConn_step mem_cfg) syn_history rxConn_init)
   in rx_locks 3 s \<and> state_tab s 3 = CLOSED \<and> state_tab (state_table s) 3 = SYN_RECEIVED \<and> \<not> rx_locks 3 (state_table s)"
proof -
  let ?x = "run_inputs (rxConn_step mem_cfg) syn_history rxConn_init"
  have t: "state_tab (state_table (rc_tab ?x)) 3 = SYN_RECEIVED" "state_tab (rc_tab ?x) 3 = CLOSED"
    unfolding syn_history_table by (simp_all add: state_table_def tx_locks_def stt_init_def Let_def)
  moreover have "rx_locks 3 (rc_tab ?x)" unfolding syn_history_table by (simp add: rx_locks_def)
  ultimately show ?thesis
    using connections_follow_diagram [of ?x mem_cfg syn_history "rc_tab ?x" 3, OF refl refl] by (simp add: Let_def)
qed

end
