(* ===== verification/Toe_Rx_Window.thy ===== *)
theory Toe_Rx_Window
  imports Toe_Rx_Connections
begin

text \<open>
  The receive buffer: what the segments of a peer that respects the window leave in memory, and what
  the application reads from it. The payload branch of the state machine, the entry of the window
  table and the memory behind the write commands are put together; positions in the byte stream are
  natural numbers, the sequence number of position \<open>p\<close> is \<open>a + p\<close> modulo \<open>2\<^sup>3\<^sup>2\<close>.
\<close>

subsection \<open>Sequence numbers and positions\<close>

lemma of_nat_eq_near:
  assumes "x \<le> y" "y < x + 2 ^ 32"
  shows "(of_nat x :: u32) = of_nat y \<longleftrightarrow> x = y"
proof -
  have "(of_nat y :: u32) = of_nat x + of_nat (y - x)"
    using assms(1) by (metis le_add_diff_inverse of_nat_add)
  then have "(of_nat x :: u32) = of_nat y \<longleftrightarrow> (of_nat (y - x) :: u32) = 0" by auto
  also have "\<dots> \<longleftrightarrow> 2 ^ 32 dvd y - x" by (simp add: word_of_nat_eq_0_iff)
  also have "\<dots> \<longleftrightarrow> x = y" using assms by (auto dest: dvd_imp_le)
  finally show ?thesis .
qed

lemma seq_eq_iff:
  assumes "x < y + 2 ^ 32" "y < x + 2 ^ 32"
  shows "(a :: u32) + of_nat x = a + of_nat y \<longleftrightarrow> x = y"
  using assms of_nat_eq_near [of x y] of_nat_eq_near [of y x] by (cases "x \<le> y") auto

lemma ucast_of_nat_18: "(ucast (of_nat n :: u32) :: u18) = of_nat n"
  by (simp add: unsigned_of_nat word_of_nat_eq_iff take_bit_take_bit)

lemma ucast_seq: "(ucast ((a :: u32) + of_nat x) :: u18) = ucast a + of_nat x"
proof -
  have "(ucast (a + of_nat x) :: u18) = ucast (of_nat (unat a + x) :: u32)" by simp
  also have "\<dots> = ucast (of_nat (unat a) :: u32) + of_nat x"
    unfolding ucast_of_nat_18 by simp
  finally show ?thesis by simp
qed

lemma free_space_position:
  assumes "base \<le> h" "h < base + 2 ^ 18"
    and "re_appd e = ucast (a + of_nat base)" "re_head e = a + of_nat h"
  shows "unat (free_space e) = 2 ^ 18 - 1 - (h - base)"
proof -
  have "(of_nat h :: u18) = of_nat base + of_nat (h - base)"
    using assms(1) by (metis le_add_diff_inverse of_nat_add)
  moreover have "(of_nat (2 ^ 18 - 1 - (h - base)) :: u18) = - 1 - of_nat (h - base)"
  proof -
    have "(of_nat (2 ^ 18 - 1 - (h - base)) :: u18) = of_nat (2 ^ 18 - 1) - of_nat (h - base)"
      using assms(2) by (intro of_nat_diff) simp
    moreover have "(of_nat (2 ^ 18 - 1) :: u18) = - 1" by simp
    ultimately show ?thesis by simp
  qed
  ultimately have "free_space e = of_nat (2 ^ 18 - 1 - (h - base))"
    unfolding free_space_def assms(3,4) ucast_seq by simp
  then show ?thesis by (simp add: unsigned_of_nat take_bit_nat_eq_self del: of_nat_diff)
qed

lemma unat_seq_mono:
  assumes "x \<le> y" "unat (a + of_nat x :: u32) + k < unat (a + of_nat y :: u32)" "y < x + 2 ^ 32"
  shows "x + k < y"
proof (rule ccontr)
  assume "\<not> ?thesis"
  then obtain d where d: "y = x + d" "d \<le> k" using assms(1) by (metis add_le_cancel_left le_Suc_ex not_less)
  have "unat (a + of_nat y :: u32) = unat ((a + of_nat x) + of_nat d :: u32)" unfolding d(1) by (simp add: add.assoc)
  also have "\<dots> \<le> unat (a + of_nat x :: u32) + unat (of_nat d :: u32)" by (metis unat_word_ariths(1) mod_less_eq_dividend)
  also have "\<dots> \<le> unat (a + of_nat x :: u32) + k"
    using d(2) by (simp add: unsigned_of_nat take_bit_nat_less_eq_self order_trans [OF take_bit_nat_less_eq_self])
  finally show False using assms(2) by simp
qed

subsection \<open>Buffer and reader\<close>

text \<open>\<open>rb_mem\<close> is the receive buffer of the connection, \<open>rb_notified\<close> the bytes the application was told about,
  \<open>rb_out\<close> what it has read.\<close>

record rxBuf =
  rb_entry :: rxSarEntry
  rb_mem :: "u18 \<Rightarrow> u8"
  rb_notified :: nat
  rb_out :: "u8 list"

definition write_mem :: "u18 \<Rightarrow> u8 list \<Rightarrow> (u18 \<Rightarrow> u8) \<Rightarrow> u18 \<Rightarrow> u8" where
  "write_mem addr d mem = fold (\<lambda>j mem. mem(addr + of_nat j := d ! j)) [0..<length d] mem"

definition read_mem :: "u18 \<Rightarrow> nat \<Rightarrow> (u18 \<Rightarrow> u8) \<Rightarrow> u8 list" where
  "read_mem addr n mem = map (\<lambda>j. mem (addr + of_nat j)) [0..<n]"

lemma write_mem_prefix:
  assumes "n \<le> 2 ^ 18"
  shows "fold (\<lambda>j mem. mem(addr + of_nat j := f j)) [0..<n] mem x
    = (if unat ((x :: u18) - addr) < n then f (unat (x - addr)) else mem x)"
  using assms
proof (induction n)
  case (Suc n)
  have "x = addr + of_nat n \<longleftrightarrow> unat (x - addr) = n"
    using Suc.prems by (auto simp: unsigned_of_nat take_bit_nat_eq_self)
  then show ?case using Suc by auto
qed simp

lemma write_mem_apply:
  "length d \<le> 2 ^ 18 \<Longrightarrow>
   write_mem addr d mem x = (if unat (x - addr) < length d then d ! unat (x - addr) else mem x)"
  unfolding write_mem_def by (rule write_mem_prefix)

text \<open>The segment with the bytes of positions \<open>p\<close> to \<open>p + len - 1\<close>, for session \<open>i\<close>.\<close>

definition data_meta :: "u16 \<Rightarrow> u32 \<Rightarrow> nat \<Rightarrow> nat \<Rightarrow> rxFsmMetaData" where
  "data_meta i a p len = empty_meta\<lparr>fm_sessionID := i,
     fm_meta := (fm_meta empty_meta)\<lparr>me_seqNumb := a + of_nat p, me_length := of_nat len, me_ack := True\<rparr>\<rparr>"

text \<open>The branch of the state machine runs on the entry, and its output goes to the table, to the memory and to
  the application. The address of a write command is taken within the buffer of the session.\<close>

definition rb_segment :: "u16 \<Rightarrow> u32 \<Rightarrow> (nat \<Rightarrow> u8) \<Rightarrow> nat \<Rightarrow> nat \<Rightarrow> rxBuf \<Rightarrow> rxBuf" where
  "rb_segment i a src p len b =
     (let s = fsm_payload_ooo (data_meta i a p len) (rb_entry b) rxFsm_init
      in b\<lparr>rb_entry := fold rx_recvd_upd (f_rxSar_req s) (rb_entry b),
           rb_mem := fold (\<lambda>cmd. write_mem (ucast (mc_saddr cmd)) (take (unat (mc_bbt cmd)) (map src [p..<p + len])))
                       (f_rxBufferWriteCmd s) (rb_mem b),
           rb_notified := rb_notified b + sum_list (map (\<lambda>n. unat (an_length n)) (f_notification s))\<rparr>)"

definition rb_read :: "nat \<Rightarrow> rxBuf \<Rightarrow> rxBuf" where
  "rb_read n b =
     (let e = rb_entry b
      in b\<lparr>rb_entry := e\<lparr>re_appd := re_appd e + of_nat n\<rparr>, rb_out := rb_out b @ read_mem (re_appd e) n (rb_mem b)\<rparr>)"

definition rb_init :: "u32 \<Rightarrow> rxBuf" where
  "rb_init a = \<lparr>rb_entry = \<lparr>re_recvd = a, re_appd = ucast a, re_win_shift = 2, re_head = a, re_offset = 0, re_gap = False\<rparr>,
     rb_mem = (\<lambda>_. 0), rb_notified = 0, rb_out = []\<rparr>"

text \<open>The position of the next expected byte.\<close>

definition rb_recvd :: "u32 \<Rightarrow> rxBuf \<Rightarrow> nat" where
  "rb_recvd a b = length (rb_out b) + unat (re_recvd (rb_entry b) - (a + of_nat (length (rb_out b))))"

text \<open>A segment of the peer lies in the window or repeats bytes that have arrived before (its number is below
  the next expected one; across a wrap of the sequence number the code would take it for a later one). The
  application reads what it was told about.\<close>

inductive rb_reach :: "u16 \<Rightarrow> u32 \<Rightarrow> (nat \<Rightarrow> u8) \<Rightarrow> rxBuf \<Rightarrow> bool" for i a src where
  start: "rb_reach i a src (rb_init a)"
| segment: "rb_reach i a src b \<Longrightarrow> len < 2 ^ 16 \<Longrightarrow> p + len < length (rb_out b) + 2 ^ 18 \<Longrightarrow>
    rb_recvd a b \<le> p \<or> (a + of_nat p < re_recvd (rb_entry b) \<and> rb_recvd a b < p + 2 ^ 31) \<Longrightarrow>
    rb_reach i a src (rb_segment i a src p len b)"
| read: "rb_reach i a src b \<Longrightarrow> length (rb_out b) + n \<le> rb_notified b \<Longrightarrow> rb_reach i a src (rb_read n b)"

subsection \<open>Invariant\<close>

definition held :: "nat \<Rightarrow> nat \<Rightarrow> nat \<Rightarrow> nat \<Rightarrow> bool \<Rightarrow> nat \<Rightarrow> bool" where
  "held base r ofs h gap x \<longleftrightarrow> (base \<le> x \<and> x < r) \<or> (gap \<and> ofs \<le> x \<and> x < h)"

definition entry_at :: "u32 \<Rightarrow> nat \<Rightarrow> nat \<Rightarrow> nat \<Rightarrow> nat \<Rightarrow> rxSarEntry \<Rightarrow> bool" where
  "entry_at a base r ofs h e \<longleftrightarrow> re_recvd e = a + of_nat r \<and> re_head e = a + of_nat h \<and> re_appd e = ucast (a + of_nat base)
     \<and> base \<le> r \<and> h < base + 2 ^ 18
     \<and> (if re_gap e then re_offset e = a + of_nat ofs \<and> r < ofs \<and> ofs < h else h = r)"

definition mem_ok :: "u32 \<Rightarrow> (nat \<Rightarrow> u8) \<Rightarrow> (nat \<Rightarrow> bool) \<Rightarrow> (u18 \<Rightarrow> u8) \<Rightarrow> bool" where
  "mem_ok a src H mem \<longleftrightarrow> (\<forall>x. H x \<longrightarrow> mem (ucast a + of_nat x) = src x)"

lemma of_nat_window:
  assumes "base \<le> x" "x < base + 2 ^ 18" "base \<le> p" "p + len < base + 2 ^ 18"
  shows "unat ((of_nat x :: u18) - of_nat p) < len \<longleftrightarrow> p \<le> x \<and> x < p + len"
    and "p \<le> x \<Longrightarrow> unat ((of_nat x :: u18) - of_nat p) = x - p"
proof -
  show *: "unat ((of_nat x :: u18) - of_nat p) = x - p" if "p \<le> x"
  proof -
    have "(of_nat x :: u18) - of_nat p = of_nat (x - p)" using that by (simp add: of_nat_diff)
    then show ?thesis using assms by (simp add: unsigned_of_nat take_bit_nat_eq_self del: of_nat_diff)
  qed
  show "unat ((of_nat x :: u18) - of_nat p) < len \<longleftrightarrow> p \<le> x \<and> x < p + len"
  proof (cases "p \<le> x")
    case True
    then show ?thesis using * by auto
  next
    case False
    have "(of_nat x :: u18) - of_nat p = of_nat (2 ^ 18 + x) - of_nat p" by simp
    also have "\<dots> = of_nat (2 ^ 18 + x - p)" using assms False by (intro of_nat_diff [symmetric]) simp
    finally have "unat ((of_nat x :: u18) - of_nat p) = 2 ^ 18 + x - p"
      using assms False by (simp add: unsigned_of_nat take_bit_nat_eq_self del: of_nat_diff of_nat_add)
    then show ?thesis using False assms by simp
  qed
qed

lemma mem_ok_write:
  assumes "mem_ok a src H mem" and "len < 2 ^ 18" and p: "base \<le> p" "p + len < base + 2 ^ 18"
    and H: "\<And>x. H' x \<Longrightarrow> base \<le> x \<and> x < base + 2 ^ 18 \<and> (H x \<or> p \<le> x \<and> x < p + len)"
  shows "mem_ok a src H' (write_mem (ucast a + of_nat p) (map src [p..<p + len]) mem)"
  unfolding mem_ok_def
proof (intro allI impI)
  fix x assume "H' x"
  note x = H [OF this]
  note w = of_nat_window [of base x p len]
  have "(ucast a + of_nat x :: u18) - (ucast a + of_nat p) = of_nat x - of_nat p" by simp
  then have "write_mem (ucast a + of_nat p) (map src [p..<p + len]) mem (ucast a + of_nat x)
    = (if p \<le> x \<and> x < p + len then src x else mem (ucast a + of_nat x))"
    using assms(2) w x p by (auto simp: write_mem_apply)
  then show "write_mem (ucast a + of_nat p) (map src [p..<p + len]) mem (ucast a + of_nat x) = src x"
    using x assms(1) by (auto simp: mem_ok_def)
qed

lemma pkgAddr_offset: "(ucast (pkgAddr i seq) :: u18) = ucast seq"
  by (rule bit_word_eqI) (auto simp: pkgAddr_def bit_simps)

lemma data_meta_fields [simp]:
  "fm_sessionID (data_meta i a p len) = i" "me_seqNumb (fm_meta (data_meta i a p len)) = a + of_nat p"
  "me_length (fm_meta (data_meta i a p len)) = of_nat len"
  by (simp_all add: data_meta_def)

lemma rb_segment_store:
  assumes "fsm_payload_ooo (data_meta i a p len) (rb_entry b) rxFsm_init = store_segment (data_meta i a p len) q k rxFsm_init"
    and "len < 2 ^ 16"
  shows "rb_segment i a src p len b = b\<lparr>rb_entry := rx_recvd_upd q (rb_entry b),
    rb_mem := write_mem (ucast a + of_nat p) (map src [p..<p + len]) (rb_mem b), rb_notified := rb_notified b + unat k\<rparr>"
proof -
  have "unat (ucast (of_nat len :: u16) :: u23) = len"
    using assms(2) by (simp add: unsigned_ucast_eq unsigned_of_nat take_bit_nat_eq_self)
  then show ?thesis
    unfolding rb_segment_def assms(1) Let_def
    by (simp add: store_segment_def rxFsm_init_def wr_defs mk_mmCmd_def mk_notification_def pkgAddr_offset ucast_seq)
qed

lemma rb_segment_drop:
  assumes "fsm_payload_ooo (data_meta i a p len) (rb_entry b) rxFsm_init \<in> {rxFsm_init, wr_drop True rxFsm_init}"
  shows "rb_segment i a src p len b = b"
  using assms by (auto simp: rb_segment_def rxFsm_init_def wr_defs Let_def)

lemma seg_end32_data [simp]: "len < 2 ^ 16 \<Longrightarrow> seg_end32 (fm_meta (data_meta i a p len)) = a + of_nat (p + len)"
  by (simp add: seg_end32_def unsigned_of_nat word_of_nat_eq_iff take_bit_nat_eq_self)

lemma seg_end_data: "len < 2 ^ 16 \<Longrightarrow> seg_end (fm_meta (data_meta i a p len)) = unat (a + of_nat p) + len"
  by (simp add: seg_end_def unsigned_of_nat take_bit_nat_eq_self)

lemma entry_upd [simp]:
  "re_recvd (rx_recvd_upd (mk_rxSarWrite i r h ofs g) e) = r" "re_head (rx_recvd_upd (mk_rxSarWrite i r h ofs g) e) = h"
  "re_offset (rx_recvd_upd (mk_rxSarWrite i r h ofs g) e) = ofs" "re_gap (rx_recvd_upd (mk_rxSarWrite i r h ofs g) e) = g"
  "re_appd (rx_recvd_upd (mk_rxSarWrite i r h ofs g) e) = re_appd e"
  by (simp_all add: rx_recvd_upd_def mk_rxSarWrite_def Let_def)

text \<open>What a segment does to the entry, in positions: it is stored and the stored bytes are added, or nothing
  happens.\<close>

lemma payload_cases:
  assumes e: "entry_at a base r ofs h e" and len: "len < 2 ^ 16" and win: "p + len < base + 2 ^ 18"
    and legal: "r \<le> p \<or> (a + of_nat p < re_recvd e \<and> r < p + 2 ^ 31)"
  obtains (drop) "fsm_payload_ooo (data_meta i a p len) e s \<in> {s, wr_drop True s}"
  | (store) q k r' ofs' h' where
      "fsm_payload_ooo (data_meta i a p len) e s = store_segment (data_meta i a p len) q k s"
      "entry_at a base r' ofs' h' (rx_recvd_upd q e)" "base \<le> p" "unat k \<le> r' - r" "r \<le> r'"
      "\<And>x. held base r' ofs' h' (re_gap (rx_recvd_upd q e)) x \<longleftrightarrow> held base r ofs h (re_gap e) x \<or> p \<le> x \<and> x < p + len"
      "\<And>x. held base r ofs h (re_gap e) x \<Longrightarrow> \<not> (p \<le> x \<and> x < p + len)"
proof -
  let ?fm = "data_meta i a p len"
  let ?m = "fm_meta ?fm"
  note d = e [unfolded entry_at_def]
  have bounds: "base \<le> r" "r \<le> h" "h < base + 2 ^ 18" using d by (auto split: if_splits)
  have near: "p < r + 2 ^ 32" "r < p + 2 ^ 32" "p < h + 2 ^ 32" "h < p + 2 ^ 32"
    using legal win bounds by auto
  have lenw: "unat (of_nat len :: u16) = len" using len by (simp add: unsigned_of_nat take_bit_nat_eq_self)
  have nz: "(of_nat len :: u16) = 0 \<longleftrightarrow> len = 0" using lenw by (metis unat_eq_0 of_nat_0)
  have eq_r: "a + of_nat p = re_recvd e \<longleftrightarrow> p = r" using near d seq_eq_iff [of p _ a] by simp
  have eq_h: "a + of_nat p = re_head e \<longleftrightarrow> p = h" using near d seq_eq_iff [of p _ a] by simp
  consider (zero) "len = 0" | (ord) "len \<noteq> 0" "in_order ?m e"
    | (ooo) "len \<noteq> 0" "\<not> in_order ?m e" "opens_gap ?m e"
    | (hd) "len \<noteq> 0" "\<not> in_order ?m e" "\<not> opens_gap ?m e" "after_head ?m e"
    | (fill) "len \<noteq> 0" "\<not> in_order ?m e" "\<not> opens_gap ?m e" "\<not> after_head ?m e" "re_gap e \<and> p = r"
        "seg_end ?m = unat (re_offset e)"
    | (part) "len \<noteq> 0" "\<not> in_order ?m e" "\<not> opens_gap ?m e" "\<not> after_head ?m e" "re_gap e \<and> p = r"
        "seg_end ?m < unat (re_offset e)"
    | (none) "len \<noteq> 0" "\<not> in_order ?m e" "\<not> opens_gap ?m e" "\<not> after_head ?m e"
        "\<not> (re_gap e \<and> p = r \<and> seg_end ?m \<le> unat (re_offset e))"
    by linarith
  then show thesis
  proof cases
    case zero
    then show thesis by (intro drop) (simp add: fsm_payload_ooo_def)
  next
    case none
    then show thesis by (intro drop) (auto simp: fsm_payload_ooo_def nz eq_r Let_def)
  next
    case ord
    then have g: "\<not> re_gap e" "p = r" by (auto simp: in_order_def eq_r)
    then have h: "h = r" using d by simp
    show thesis
    proof (rule store)
      show "fsm_payload_ooo ?fm e s = store_segment ?fm
          (mk_rxSarWrite i (a + of_nat (p + len)) (a + of_nat (p + len)) (re_offset e) (re_gap e)) (of_nat len) s"
        using ord len by (simp add: fsm_payload_ooo_def nz Let_def)
      show "entry_at a base (p + len) ofs (p + len) (rx_recvd_upd
          (mk_rxSarWrite i (a + of_nat (p + len)) (a + of_nat (p + len)) (re_offset e) (re_gap e)) e)"
        using d g bounds win by (simp add: entry_at_def)
    qed (use d g h lenw bounds win in \<open>auto simp: entry_at_def held_def\<close>)
  next
    case ooo
    then have g: "\<not> re_gap e" "r \<noteq> p" "\<not> a + of_nat p < re_recvd e"
      using eq_r by (auto simp: opens_gap_def)
    then have h: "h = r" "r < p" using d legal by auto
    show thesis
    proof (rule store)
      show "fsm_payload_ooo ?fm e s = store_segment ?fm
          (mk_rxSarWrite i (re_recvd e) (a + of_nat (p + len)) (a + of_nat p) True) 0 s"
        using ooo len by (simp add: fsm_payload_ooo_def nz Let_def)
      show "entry_at a base r p (p + len)
          (rx_recvd_upd (mk_rxSarWrite i (re_recvd e) (a + of_nat (p + len)) (a + of_nat p) True) e)"
        using d h ooo(1) bounds win by (simp add: entry_at_def)
    qed (use d g h bounds win in \<open>auto simp: held_def\<close>)
  next
    case hd
    then have g: "re_gap e" "p = h" by (auto simp: after_head_def eq_h)
    then have o: "re_offset e = a + of_nat ofs" "r < ofs" "ofs < h" using d by auto
    show thesis
    proof (rule store)
      show "fsm_payload_ooo ?fm e s = store_segment ?fm
          (mk_rxSarWrite i (re_recvd e) (a + of_nat (p + len)) (re_offset e) (re_gap e)) 0 s"
        using hd len by (simp add: fsm_payload_ooo_def nz Let_def)
      show "entry_at a base r ofs (p + len)
          (rx_recvd_upd (mk_rxSarWrite i (re_recvd e) (a + of_nat (p + len)) (re_offset e) (re_gap e)) e)"
        using d g o bounds win by (simp add: entry_at_def)
    qed (use d g o bounds win in \<open>auto simp: held_def\<close>)
  next
    case fill
    then have o: "re_offset e = a + of_nat ofs" "r < ofs" "ofs < h" using d by auto
    have "a + of_nat (p + len) = (of_nat (unat (a + of_nat p) + len) :: u32)" by simp
    also have "\<dots> = of_nat (unat (re_offset e))" using fill(6) len by (simp add: seg_end_data)
    finally have "a + of_nat (p + len) = a + of_nat ofs" using o(1) by simp
    then have pl: "p + len = ofs" using o fill(5) bounds len seq_eq_iff [of "p + len" ofs a] by simp
    have "re_head e - (a + of_nat p) = of_nat (h - r)" using d fill(5) bounds by (simp add: of_nat_diff)
    then have k: "unat (ucast (ucast (re_head e - (a + of_nat p)) :: u18) :: u16) \<le> h - r"
      by (simp add: ucast_of_nat_18 unsigned_ucast_eq unsigned_of_nat
          order_trans [OF take_bit_nat_less_eq_self] take_bit_nat_less_eq_self del: of_nat_diff)
    show thesis
    proof (rule store)
      show "fsm_payload_ooo ?fm e s = store_segment ?fm
          (mk_rxSarWrite i (re_head e) (re_head e) (re_offset e) False)
          (ucast (ucast (re_head e - (a + of_nat p)) :: u18)) s"
        using fill len eq_r by (simp add: fsm_payload_ooo_def nz Let_def)
      show "entry_at a base h ofs h (rx_recvd_upd (mk_rxSarWrite i (re_head e) (re_head e) (re_offset e) False) e)"
        using d bounds by (simp add: entry_at_def)
    qed (use k d pl o fill(5) bounds win in \<open>auto simp: held_def\<close>)
  next
    case part
    then have o: "re_offset e = a + of_nat ofs" "r < ofs" "ofs < h" using d by auto
    have pl: "p + len < ofs"
      using part(5,6) o bounds len by (intro unat_seq_mono [of p ofs a len]) (simp_all add: seg_end_data)
    show thesis
    proof (rule store)
      show "fsm_payload_ooo ?fm e s = store_segment ?fm
          (mk_rxSarWrite i (a + of_nat (p + len)) (re_head e) (re_offset e) (re_gap e)) (of_nat len) s"
        using part len eq_r by (simp add: fsm_payload_ooo_def nz Let_def)
      show "entry_at a base (p + len) ofs h
          (rx_recvd_upd (mk_rxSarWrite i (a + of_nat (p + len)) (re_head e) (re_offset e) (re_gap e)) e)"
        using d pl o part(5) bounds by (simp add: entry_at_def)
    qed (use lenw d pl o part(5) bounds win in \<open>auto simp: held_def\<close>)
  qed
qed

definition rb_inv :: "u32 \<Rightarrow> (nat \<Rightarrow> u8) \<Rightarrow> rxBuf \<Rightarrow> bool" where
  "rb_inv a src b \<longleftrightarrow>
     (\<exists>r ofs h. entry_at a (length (rb_out b)) r ofs h (rb_entry b) \<and> rb_notified b \<le> r
        \<and> mem_ok a src (held (length (rb_out b)) r ofs h (re_gap (rb_entry b))) (rb_mem b))
     \<and> rb_out b = map src [0..<length (rb_out b)]"

lemma rb_recvd_at: "entry_at a (length (rb_out b)) r ofs h (rb_entry b) \<Longrightarrow> rb_recvd a b = r"
proof -
  assume e: "entry_at a (length (rb_out b)) r ofs h (rb_entry b)"
  then have "length (rb_out b) \<le> r" "r < length (rb_out b) + 2 ^ 18" and r: "re_recvd (rb_entry b) = a + of_nat r"
    by (auto simp: entry_at_def split: if_splits)
  then have "re_recvd (rb_entry b) - (a + of_nat (length (rb_out b))) = of_nat (r - length (rb_out b))"
    by (simp add: of_nat_diff)
  then show ?thesis
    unfolding rb_recvd_def using \<open>length (rb_out b) \<le> r\<close> \<open>r < length (rb_out b) + 2 ^ 18\<close>
    by (simp add: unsigned_of_nat take_bit_nat_eq_self del: of_nat_diff)
qed

lemma rb_inv_init: "rb_inv a src (rb_init a)"
  unfolding rb_inv_def by (rule conjI, rule exI [of _ 0], rule exI [of _ 0], rule exI [of _ 0])
    (simp_all add: rb_init_def entry_at_def mem_ok_def held_def)

lemma rb_inv_segment:
  assumes "rb_inv a src b" and len: "len < 2 ^ 16" and win: "p + len < length (rb_out b) + 2 ^ 18"
    and legal: "rb_recvd a b \<le> p \<or> (a + of_nat p < re_recvd (rb_entry b) \<and> rb_recvd a b < p + 2 ^ 31)"
  shows "rb_inv a src (rb_segment i a src p len b)"
proof -
  obtain r ofs h where e: "entry_at a (length (rb_out b)) r ofs h (rb_entry b)" and n: "rb_notified b \<le> r"
    and m: "mem_ok a src (held (length (rb_out b)) r ofs h (re_gap (rb_entry b))) (rb_mem b)"
    and out: "rb_out b = map src [0..<length (rb_out b)]"
    using assms(1) by (auto simp: rb_inv_def)
  show ?thesis
    using e len win legal [unfolded rb_recvd_at [OF e]]
  proof (cases rule: payload_cases [where s = rxFsm_init and i = i])
    case drop
    then show ?thesis using assms(1) by (simp add: rb_segment_drop)
  next
    case (store q k r' ofs' h')
    let ?b = "rb_segment i a src p len b"
    note b' = rb_segment_store [OF store(1) len, of src]
    have "mem_ok a src (held (length (rb_out b)) r' ofs' h' (re_gap (rx_recvd_upd q (rb_entry b))))
        (write_mem (ucast a + of_nat p) (map src [p..<p + len]) (rb_mem b))"
      using m
    proof (rule mem_ok_write)
      fix x assume x: "held (length (rb_out b)) r' ofs' h' (re_gap (rx_recvd_upd q (rb_entry b))) x"
      then show "length (rb_out b) \<le> x \<and> x < length (rb_out b) + 2 ^ 18
          \<and> (held (length (rb_out b)) r ofs h (re_gap (rb_entry b)) x \<or> p \<le> x \<and> x < p + len)"
        using store(2) store(6) [of x] by (auto simp: entry_at_def held_def split: if_splits)
    qed (use len store(3) win in auto)
    moreover have "rb_notified ?b \<le> r'" using n store(4,5) by (simp add: b')
    ultimately show ?thesis using store(2) out unfolding rb_inv_def
      by (intro conjI exI [of _ r'] exI [of _ ofs'] exI [of _ h']) (simp_all add: b')
  qed
qed

lemma rb_inv_read:
  assumes "rb_inv a src b" "length (rb_out b) + n \<le> rb_notified b"
  shows "rb_inv a src (rb_read n b)"
proof -
  obtain r ofs h where e: "entry_at a (length (rb_out b)) r ofs h (rb_entry b)" and nr: "rb_notified b \<le> r"
    and m: "mem_ok a src (held (length (rb_out b)) r ofs h (re_gap (rb_entry b))) (rb_mem b)"
    and out: "rb_out b = map src [0..<length (rb_out b)]"
    using assms(1) by (auto simp: rb_inv_def)
  let ?base = "length (rb_out b)" and ?b = "rb_read n b"
  have "read_mem (re_appd (rb_entry b)) n (rb_mem b) = map src [?base..<?base + n]"
  proof (rule nth_equalityI)
    fix j assume "j < length (read_mem (re_appd (rb_entry b)) n (rb_mem b))"
    then have j: "j < n" by (simp add: read_mem_def)
    then have "held ?base r ofs h (re_gap (rb_entry b)) (?base + j)" using nr assms(2) by (simp add: held_def)
    then have "rb_mem b (ucast a + of_nat (?base + j)) = src (?base + j)" using m unfolding mem_ok_def by blast
    moreover have "re_appd (rb_entry b) = ucast a + of_nat ?base" using e by (simp add: entry_at_def ucast_seq)
    ultimately show "read_mem (re_appd (rb_entry b)) n (rb_mem b) ! j = map src [?base..<?base + n] ! j"
      using j by (simp add: read_mem_def add.assoc)
  qed (simp add: read_mem_def)
  then have "rb_out ?b = map src [0..<?base] @ map src [?base..<?base + n]"
    using out by (simp add: rb_read_def Let_def)
  then have out': "rb_out ?b = map src [0..<?base + n]" by (metis map_append upt_add_eq_append le_add1 add_0)
  have len: "length (rb_out ?b) = ?base + n" by (simp add: out')
  have "entry_at a (?base + n) r ofs h (rb_entry ?b)"
    using e nr assms(2) ucast_seq [of a "?base + n"] by (auto simp: entry_at_def rb_read_def Let_def ucast_seq)
  moreover have "mem_ok a src (held (?base + n) r ofs h (re_gap (rb_entry ?b))) (rb_mem ?b)"
    using m by (auto simp: mem_ok_def held_def rb_read_def Let_def)
  moreover have "rb_notified ?b \<le> r" using nr by (simp add: rb_read_def Let_def)
  ultimately show ?thesis unfolding rb_inv_def len using out' by blast
qed

text \<open>C7. Reassembly: whatever segments of the stream arrive in whatever order, what the application reads is the
  byte stream of the peer in order: the bytes of a gap are never handed out before they have arrived, and bytes
  that were not read yet are never overwritten. The segments end within a window of 256 KB after what was read;
  they start at or after the next expected byte, with gaps of any kind, or repeat earlier bytes any number of
  times, as long as the repeated segment is younger than \<open>2\<^sup>3\<^sup>1\<close> bytes and its sequence number, as a number of
  32 bits, is smaller than the next expected one (the code compares sequence numbers without the wrap: for a
  repeated segment across the wrap see \<open>wrapped_duplicate_stalls\<close>). The application reads only what it was
  notified of.\<close>

theorem byte_stream_delivered:
  assumes "rb_reach i a src b"
  shows "rb_out b = map src [0..<length (rb_out b)] \<and> rb_notified b \<le> rb_recvd a b
    \<and> rb_recvd a b < length (rb_out b) + 2 ^ 18"
proof -
  have "rb_inv a src b" using assms
    by induction (auto intro: rb_inv_init rb_inv_segment rb_inv_read)
  then obtain r ofs h where e: "entry_at a (length (rb_out b)) r ofs h (rb_entry b)" "rb_notified b \<le> r"
      "rb_out b = map src [0..<length (rb_out b)]"
    by (auto simp: rb_inv_def)
  then show ?thesis using rb_recvd_at [OF e(1)] by (auto simp: entry_at_def split: if_splits)
qed

text \<open>The second half arrives before the first.\<close>

definition rb_1 :: rxBuf where "rb_1 = rb_segment 1 100 of_nat 2 2 (rb_init 100)"
definition rb_2 :: rxBuf where "rb_2 = rb_segment 1 100 of_nat 0 2 rb_1"

lemmas rb_eval = rb_segment_def data_meta_def empty_meta_def rxFsm_init_def fsm_payload_ooo_def in_order_def opens_gap_def
  after_head_def free_space_def seg_end_def seg_end32_def store_segment_def wr_defs rx_recvd_upd_def mk_rxSarWrite_def
  mk_notification_def mk_mmCmd_def

lemma rb_1_fields:
  "rb_entry rb_1 = \<lparr>re_recvd = 100, re_appd = 100, re_win_shift = 2, re_head = 104, re_offset = 102, re_gap = True\<rparr>"
  "rb_out rb_1 = []" "rb_notified rb_1 = 0"
  by (simp_all add: rb_1_def rb_init_def rb_eval)

lemma rb_2_fields:
  "rb_entry rb_2 = \<lparr>re_recvd = 104, re_appd = 100, re_win_shift = 2, re_head = 104, re_offset = 102, re_gap = False\<rparr>"
  "rb_out rb_2 = []" "rb_notified rb_2 = 4"
  by (simp_all add: rb_2_def rb_1_fields rb_eval)

lemma rb_2_reach: "rb_reach 1 100 of_nat rb_2"
  unfolding rb_2_def
proof (rule rb_reach.segment)
  show "rb_reach 1 100 of_nat rb_1"
    unfolding rb_1_def by (rule rb_reach.segment [OF rb_reach.start]) (simp_all add: rb_recvd_def rb_init_def)
qed (simp_all add: rb_1_fields rb_recvd_def)

theorem byte_stream_delivered_witness:
  "rb_reach 1 100 of_nat (rb_read 4 rb_2) \<and> rb_out (rb_read 4 rb_2) = [0, 1, 2, 3]"
proof -
  have r: "rb_reach 1 100 of_nat (rb_read 4 rb_2)"
    by (rule rb_reach.read [OF rb_2_reach]) (simp add: rb_2_fields)
  have "length (rb_out (rb_read 4 rb_2)) = 4" by (simp add: rb_read_def read_mem_def Let_def rb_2_fields)
  with byte_stream_delivered [OF r] have "rb_out (rb_read 4 rb_2) = map of_nat [0..<4]" by simp
  with r show ?thesis by (simp add: upt_rec)
qed

subsection \<open>Where the window is not respected\<close>

text \<open>The distance of a segment that opens a gap is compared modulo the window size only: an empty buffer accepts
  a segment a whole number of windows ahead, stores it over the bytes that are expected next, and the head of the
  entry is more than a window ahead.\<close>

lemma far_segment_opens_gap:
  assumes "\<not> re_gap e" "re_head e = re_recvd e" "re_appd e = ucast (re_recvd e)"
    and "me_seqNumb m = re_recvd e + 2 ^ 18" "unat (re_recvd e) < 2 ^ 31" "unat (me_length m) < 2 ^ 16"
  shows "opens_gap m e \<and> (ucast (pkgAddr i (me_seqNumb m)) :: u18) = ucast (re_recvd e)"
proof -
  have "unat (re_recvd e + 2 ^ 18) = unat (re_recvd e) + 2 ^ 18"
    using assms(5) by (subst unat_word_ariths) simp
  then have lt: "re_recvd e < me_seqNumb m" unfolding assms(4) by (simp add: word_less_nat_alt)
  have f: "free_space e = - 1" unfolding free_space_def assms(2,3) by simp
  have k: "(ucast (re_recvd e + 2 ^ 18) :: u18) = ucast (re_recvd e)"
    using ucast_seq [of "re_recvd e" "2 ^ 18"] by simp
  have "seg_end32 m - re_head e = of_nat (2 ^ 18 + unat (me_length m))"
    unfolding seg_end32_def assms(2,4) by simp
  then have "(ucast (seg_end32 m - re_head e) :: u18) = of_nat (unat (me_length m))"
    by (simp add: ucast_of_nat_18 del: of_nat_add of_nat_unat) simp
  then have "unat (ucast (seg_end32 m - re_head e) :: u18) = unat (me_length m)"
    using assms(6) by (simp add: unsigned_of_nat take_bit_nat_eq_self del: of_nat_unat)
  then have "(ucast (seg_end32 m - re_head e) :: u18) < free_space e"
    unfolding f word_less_nat_alt using assms(6) by (simp add: unsigned_minus_1_eq_mask mask_eq_exp_minus_1)
  then show ?thesis using assms(1) lt k by (simp add: opens_gap_def pkgAddr_offset assms(4))
qed

text \<open>A repeated segment whose sequence number lies before a wrap of the 32 bits and the next expected one after it
  is taken for a segment ahead: it opens a gap that starts before the expected byte, and the segments that follow
  in order are stored without being passed on.\<close>

definition rb_w1 :: rxBuf where "rb_w1 = rb_segment 1 (- 2) of_nat 0 4 (rb_init (- 2))"
definition rb_w2 :: rxBuf where "rb_w2 = rb_segment 1 (- 2) of_nat 0 4 rb_w1"
definition rb_w3 :: rxBuf where "rb_w3 = rb_segment 1 (- 2) of_nat 4 2 rb_w2"

lemma u18_minus: "(- 1 :: u18) = 262143" "(- 5 :: u18) = 262139"
  by simp_all

lemma rb_w1_fields:
  "rb_entry rb_w1 = \<lparr>re_recvd = 2, re_appd = - 2, re_win_shift = 2, re_head = 2, re_offset = 0, re_gap = False\<rparr>"
  "rb_notified rb_w1 = 4"
  by (simp_all add: rb_w1_def rb_init_def rb_eval u18_minus)

lemma rb_w2_fields:
  "rb_entry rb_w2 = \<lparr>re_recvd = 2, re_appd = - 2, re_win_shift = 2, re_head = 2, re_offset = - 2, re_gap = True\<rparr>"
  "rb_notified rb_w2 = 4"
  by (simp_all add: rb_w2_def rb_w1_fields rb_eval u18_minus)

theorem wrapped_duplicate_stalls:
  "\<not> re_gap (rb_entry rb_w1) \<and> re_gap (rb_entry rb_w2) \<and> re_offset (rb_entry rb_w2) = - 2
   \<and> rb_notified rb_w1 = 4 \<and> rb_notified rb_w3 = 4 \<and> re_recvd (rb_entry rb_w3) = 2 \<and> re_head (rb_entry rb_w3) = 4"
proof -
  have "rb_notified rb_w3 = 4 \<and> re_recvd (rb_entry rb_w3) = 2 \<and> re_head (rb_entry rb_w3) = 4"
    by (simp add: rb_w3_def rb_w2_fields rb_eval u18_minus)
  then show ?thesis by (simp add: rb_w1_fields rb_w2_fields)
qed

text \<open>The length of a notification has 16 bits, the distance that closing a gap makes available has 18.\<close>

lemma gap_fill_notification_truncated:
  assumes "re_gap e" "me_seqNumb m = re_recvd e" "me_length m \<noteq> 0" "me_seqNumb m \<noteq> re_head e"
    and "seg_end m = unat (re_offset e)" "re_head e - re_recvd e = 2 ^ 16" "fm_meta fm = m"
  shows "f_notification (fsm_payload_ooo fm e s) = f_notification s
    @ [mk_notification (fm_sessionID fm) 0 (fm_srcIpAddress fm) (fm_dstIpPort fm) False]"
proof -
  have z: "(65536 :: u16) = 0" by (rule word_uint_eqI) simp
  show ?thesis
    using assms
    by (simp add: fsm_payload_ooo_def in_order_def opens_gap_def after_head_def store_segment_def Let_def, simp only: z)
qed

end
