(* ===== verification/Bit_Ranges.thy ===== *)
theory Bit_Ranges
  imports Prelude
begin

text \<open>
  Ranges of bits of \<^verbatim>\<open>ap_uint\<close>, as the network stack reads and writes them (\<open>x(hi, lo)\<close>), the reversal of
  bytes of \<^verbatim>\<open>hw/services/network/hls/axi_utils.hpp\<close>, and the headers of \<^verbatim>\<open>packet.hpp\<close>, which are collected
  from and spread over the words of a stream.
\<close>

unbundle bit_operations_syntax

subsection \<open>Ranges\<close>

text \<open>\<open>x(lo + n - 1, lo)\<close>, read and written.\<close>

definition get_range :: "nat \<Rightarrow> nat \<Rightarrow> 'a::len word \<Rightarrow> 'b::len word" where
  "get_range lo n x = ucast (take_bit n (drop_bit lo x))"

definition set_range :: "nat \<Rightarrow> nat \<Rightarrow> 'b::len word \<Rightarrow> 'a::len word \<Rightarrow> 'a word" where
  "set_range lo n v x = (x AND NOT (push_bit lo (mask n))) OR push_bit lo (take_bit n (ucast v))"

lemma bit_get_range:
  "bit (get_range lo n (x :: 'a::len word) :: 'b::len word) i \<longleftrightarrow> i < n \<and> i < LENGTH('b) \<and> bit x (lo + i)"
  by (auto simp: get_range_def bit_simps dest: bit_imp_le_length)

lemma bit_set_range:
  "bit (set_range lo n (v :: 'b::len word) (x :: 'a::len word)) i \<longleftrightarrow>
     i < LENGTH('a) \<and> (if lo \<le> i \<and> i < lo + n then bit v (i - lo) else bit x i)"
  by (auto simp: set_range_def bit_simps dest: bit_imp_le_length)

lemmas bit_ranges = bit_get_range bit_set_range

lemma get_set_range:
  "n \<le> LENGTH('b) \<Longrightarrow> lo + LENGTH('b) \<le> LENGTH('a) \<Longrightarrow> LENGTH('b) = n \<Longrightarrow>
     get_range lo n (set_range lo n (v :: 'b::len word) (x :: 'a::len word)) = v"
  by (rule bit_word_eqI) (auto simp: bit_ranges)

lemma get_set_range_other:
  "lo + n \<le> lo' \<or> lo' + n' \<le> lo \<Longrightarrow>
     get_range lo n (set_range lo' n' (v :: 'b::len word) (x :: 'a::len word)) = (get_range lo n x :: 'c::len word)"
  by (rule bit_word_eqI) (auto simp: bit_ranges dest: bit_imp_le_length)

subsection \<open>Reversal of bytes\<close>

text \<open>The loop of \<open>reverse\<close>.\<close>

definition reverse :: "'a::len word \<Rightarrow> 'a word" where
  "reverse w = fold (\<lambda>i temp. set_range (i * 8) 8 (get_range (LENGTH('a) - i * 8 - 8) 8 w :: 8 word) temp)
     [0 ..< LENGTH('a) div 8] 0"

lemma bit_reverse_loop:
  fixes w :: "'a::len word"
  assumes "k * 8 \<le> LENGTH('a)"
  shows "bit (fold (\<lambda>i temp. set_range (i * 8) 8 (get_range (LENGTH('a) - i * 8 - 8) 8 w :: 8 word) temp) [0 ..< k] (0 :: 'a word)) n
     \<longleftrightarrow> n < k * 8 \<and> bit w (LENGTH('a) - (n div 8) * 8 - 8 + n mod 8)"
  using assms
proof (induction k)
  case (Suc k)
  have "n - k * 8 = n mod 8 \<and> n div 8 = k" if "k * 8 \<le> n" "n < k * 8 + 8"
  proof -
    have "n div 8 = k" using that by (intro div_nat_eqI) auto
    then show ?thesis by (simp add: minus_div_mult_eq_mod [symmetric])
  qed
  then show ?case using Suc by (auto simp: bit_ranges)
qed simp

lemma bit_reverse:
  fixes w :: "'a::len word"
  assumes "8 dvd LENGTH('a)"
  shows "bit (reverse w) n \<longleftrightarrow> n < LENGTH('a) \<and> bit w (LENGTH('a) - (n div 8) * 8 - 8 + n mod 8)"
  unfolding reverse_def using assms by (subst bit_reverse_loop) auto

lemma reverse_reverse:
  fixes w :: "'a::len word"
  assumes "8 dvd LENGTH('a)"
  shows "reverse (reverse w) = w"
proof (rule bit_word_eqI)
  fix n
  assume n: "n < LENGTH('a)"
  obtain d where d: "LENGTH('a) = 8 * d" using assms by (elim dvdE)
  let ?m = "LENGTH('a) - (n div 8) * 8 - 8 + n mod 8"
  have q: "n div 8 < d" using n d by (simp add: less_mult_imp_div_less mult.commute)
  have m: "?m = 8 * (d - n div 8 - 1) + n mod 8" using q by (simp add: d algebra_simps)
  have less: "?m < LENGTH('a)" unfolding m d using q by (simp add: algebra_simps)
  have "?m div 8 = d - n div 8 - 1" "?m mod 8 = n mod 8" unfolding m by simp_all
  then have "LENGTH('a) - (?m div 8) * 8 - 8 + ?m mod 8 = n"
    using q by (simp add: d algebra_simps)
  then show "bit (reverse (reverse w)) n = bit w n"
    using n less by (simp add: bit_reverse [OF assms])
qed

subsection \<open>Words of a stream\<close>

text \<open>\<open>net_axis\<close>: data, the bytes that count, and the end of a packet.\<close>

record ('d, 'k) net_axis =
  na_data :: 'd
  na_keep :: 'k
  na_last :: bool

subsection \<open>Headers\<close>

text \<open>\<open>packetHeader<W, HEADER_SIZE>\<close>; both sizes are types. The index counts words of one header.\<close>

record 'd packetHeader =
  ph_ready :: bool
  ph_idx :: nat
  ph_header :: 'd

definition parseWord :: "'w::len word \<Rightarrow> ('h::len word) packetHeader \<Rightarrow> ('h word) packetHeader" where
  "parseWord w p =
     (if ph_ready p then p
      else let lo = ph_idx p * LENGTH('w)
           in if lo + LENGTH('w) < LENGTH('h)
              then p\<lparr>ph_header := set_range lo (LENGTH('w)) w (ph_header p), ph_idx := ph_idx p + 1\<rparr>
              else p\<lparr>ph_header := set_range lo (LENGTH('h) - lo) w (ph_header p), ph_ready := True, ph_idx := ph_idx p + 1\<rparr>)"

text \<open>The word to be filled, the number of bytes that remain.\<close>

definition consumeWord :: "'w::len word \<Rightarrow> ('h::len word) packetHeader \<Rightarrow> 'w word \<times> 8 word \<times> ('h word) packetHeader" where
  "consumeWord w p =
     (let lo = ph_idx p * LENGTH('w); p' = p\<lparr>ph_idx := ph_idx p + 1\<rparr>
      in if lo + LENGTH('w) \<le> LENGTH('h)
         then (get_range lo (LENGTH('w)) (ph_header p), of_nat ((LENGTH('h) - (lo + LENGTH('w))) div 8), p')
         else if lo < LENGTH('h)
         then (set_range 0 (LENGTH('h) mod LENGTH('w)) (get_range lo (LENGTH('h) - lo) (ph_header p) :: 'h word) w, 0, p')
         else (w, 0, p))"

definition clear_header :: "('h::len word) packetHeader \<Rightarrow> ('h word) packetHeader" where
  "clear_header p = p\<lparr>ph_ready := False, ph_idx := 0\<rparr>"

text \<open>A header spread over words, each of which has some content before.\<close>

fun consume_words :: "'w::len word list \<Rightarrow> ('h::len word) packetHeader \<Rightarrow> 'w word list" where
  "consume_words [] p = []"
| "consume_words (w # ws) p = (case consumeWord w p of (w', n, p') \<Rightarrow> w' # consume_words ws p')"

lemma length_consume_words [simp]: "length (consume_words ws p) = length ws"
  by (induction ws p rule: consume_words.induct) (auto split: prod.split)

lemma bit_consumeWord:
  fixes w :: "'w::len word" and p :: "('h::len word) packetHeader"
  assumes "j < LENGTH('w)" "ph_idx p * LENGTH('w) + j < LENGTH('h)"
  shows "bit (fst (consumeWord w p)) j = bit (ph_header p) (ph_idx p * LENGTH('w) + j)"
proof (cases "ph_idx p * LENGTH('w) + LENGTH('w) \<le> LENGTH('h)")
  case True
  then show ?thesis using assms by (simp add: consumeWord_def Let_def bit_ranges)
next
  case False
  define i where "i = ph_idx p"
  have "LENGTH('h) div LENGTH('w) = i"
    using False assms by (intro div_nat_eqI) (auto simp: i_def algebra_simps)
  then have m: "LENGTH('h) mod LENGTH('w) = LENGTH('h) - i * LENGTH('w)"
    by (metis minus_div_mult_eq_mod)
  have "j < LENGTH('h) - i * LENGTH('w)" using assms(2) by (simp add: i_def)
  then show ?thesis using assms False by (simp add: consumeWord_def Let_def bit_ranges m flip: i_def)
qed

lemma bit_consume_words:
  fixes ws :: "'w::len word list" and p :: "('h::len word) packetHeader"
  assumes "k < length ws" "j < LENGTH('w)" "(ph_idx p + k) * LENGTH('w) + j < LENGTH('h)"
  shows "bit (consume_words ws p ! k) j = bit (ph_header p) ((ph_idx p + k) * LENGTH('w) + j)"
  using assms
proof (induction ws p arbitrary: k rule: consume_words.induct)
  case (2 w ws p)
  obtain w' n p' where c: "consumeWord w p = (w', n, p')" by (metis prod_cases3)
  show ?case
  proof (cases k)
    case 0
    then show ?thesis using bit_consumeWord [of j p w] "2.prems" c by simp
  next
    case (Suc k')
    have "ph_idx p * LENGTH('w) < LENGTH('h)" using "2.prems"(3) by (simp add: algebra_simps)
    then have p': "ph_idx p' = ph_idx p + 1" "ph_header p' = ph_header p"
      using c by (auto simp: consumeWord_def Let_def split: if_splits)
    show ?thesis using "2.IH" [OF c [symmetric] refl, of k'] "2.prems" Suc p' c by simp
  qed
qed simp

lemma parse_ready [simp]: "ph_ready p \<Longrightarrow> fold parseWord ws p = p"
  by (induction ws) (simp_all add: parseWord_def)

lemma bit_parse_words:
  fixes ws :: "'w::len word list" and p :: "('h::len word) packetHeader"
  assumes "\<not> ph_ready p" "ph_idx p * LENGTH('w) < LENGTH('h)"
  shows "bit (ph_header (fold parseWord ws p)) n \<longleftrightarrow>
    (if ph_idx p * LENGTH('w) \<le> n \<and> n < LENGTH('h) \<and> n < (ph_idx p + length ws) * LENGTH('w)
     then bit (ws ! (n div LENGTH('w) - ph_idx p)) (n mod LENGTH('w)) else bit (ph_header p) n)"
  using assms
proof (induction ws arbitrary: p)
  case Nil
  then show ?case by (auto dest: bit_imp_le_length)
next
  case (Cons w ws)
  define i where "i = ph_idx p"
  have here: "n div LENGTH('w) = i" "n mod LENGTH('w) = n - i * LENGTH('w)"
    if "i * LENGTH('w) \<le> n" "n < i * LENGTH('w) + LENGTH('w)"
  proof -
    show "n div LENGTH('w) = i" using that by (intro div_nat_eqI) (auto simp: algebra_simps)
    then show "n mod LENGTH('w) = n - i * LENGTH('w)" by (metis minus_div_mult_eq_mod)
  qed
  show ?case
  proof (cases "i * LENGTH('w) + LENGTH('w) < LENGTH('h)")
    case True
    let ?p = "p\<lparr>ph_header := set_range (i * LENGTH('w)) (LENGTH('w)) w (ph_header p), ph_idx := i + 1\<rparr>"
    have step: "parseWord w p = ?p" using True Cons.prems by (simp add: parseWord_def Let_def i_def)
    have later: "n div LENGTH('w) - i = Suc (n div LENGTH('w) - Suc i)" if "i * LENGTH('w) + LENGTH('w) \<le> n"
    proof -
      have "(Suc i * LENGTH('w)) div LENGTH('w) \<le> n div LENGTH('w)" using that by (intro div_le_mono) (simp add: algebra_simps)
      then show ?thesis by (simp add: Suc_diff_Suc)
    qed
    have IH: "bit (ph_header (fold parseWord ws ?p)) n \<longleftrightarrow>
      (if (i + 1) * LENGTH('w) \<le> n \<and> n < LENGTH('h) \<and> n < (i + 1 + length ws) * LENGTH('w)
       then bit (ws ! (n div LENGTH('w) - (i + 1))) (n mod LENGTH('w)) else bit (ph_header ?p) n)"
      using Cons.IH [of ?p] Cons.prems True by simp
    show ?thesis
    proof (cases "i * LENGTH('w) + LENGTH('w) \<le> n")
      case True
      then show ?thesis using IH later step
        by (auto simp: i_def [symmetric] bit_ranges algebra_simps dest: bit_imp_le_length)
    next
      case False
      then show ?thesis using IH here step True
        by (auto simp: i_def [symmetric] bit_ranges algebra_simps dest: bit_imp_le_length)
    qed
  next
    case False
    have "parseWord w p = p\<lparr>ph_header := set_range (i * LENGTH('w)) (LENGTH('h) - i * LENGTH('w)) w (ph_header p),
        ph_ready := True, ph_idx := i + 1\<rparr>"
      using False Cons.prems by (simp add: parseWord_def Let_def i_def)
    then show ?thesis using here False Cons.prems
      by (auto simp: i_def [symmetric] bit_ranges algebra_simps dest: bit_imp_le_length)
  qed
qed

text \<open>A header that is spread over enough words and collected again is the same, whatever the words
  held before and whatever the sizes of word and header are.\<close>

lemma header_roundtrip_raw:
  fixes ws :: "'w::len word list" and p q :: "('h::len word) packetHeader"
  assumes "LENGTH('h) \<le> length ws * LENGTH('w)"
  shows "ph_header (fold parseWord (consume_words ws (clear_header p)) (clear_header q)) = ph_header p"
proof (rule bit_word_eqI)
  fix n
  assume n: "n < LENGTH('h)"
  have w: "n div LENGTH('w) < length ws"
    using n assms by (metis less_mult_imp_div_less order_less_le_trans)
  have "bit (consume_words ws (clear_header p) ! (n div LENGTH('w))) (n mod LENGTH('w)) = bit (ph_header p) n"
    using bit_consume_words [of "n div LENGTH('w)" ws "n mod LENGTH('w)" "clear_header p"] n w
    by (simp add: clear_header_def)
  then show "bit (ph_header (fold parseWord (consume_words ws (clear_header p)) (clear_header q))) n = bit (ph_header p) n"
    using bit_parse_words [of "clear_header q" "consume_words ws (clear_header p)" n] n assms
    by (simp add: clear_header_def)
qed

end
