(* ===== verification/Axi_Streams.thy ===== *)
theory Axi_Streams
  imports Bit_Ranges
begin

text \<open>
  The stream utilities of the network stack (\<^verbatim>\<open>hw/services/network/hls/axi_utils.hpp\<close>, \<^verbatim>\<open>axi_utils.cpp\<close>):
  conversion of the word width, shifts by bytes, mergers, splitters and filters of packets. A word
  has data of type \<open>'w word\<close> and one byte enable per byte. The contract \<open>packet_machine\<close> is that of the
  modules which take one packet after the other.
\<close>

unbundle bit_operations_syntax

subsection \<open>Modules that take packets apart\<close>

text \<open>\<open>holds ps out s\<close>: the module is between two packets, its input is that of the packets \<open>ps\<close>, and it
  has written \<open>out\<close>. The law: it needs at most \<open>cost p\<close> calls for the packet \<open>p\<close> and writes \<open>emit p\<close>.\<close>

locale packet_machine =
  fixes step :: "'s \<Rightarrow> 's"
    and holds :: "'p list \<Rightarrow> 'o list \<Rightarrow> 's \<Rightarrow> bool"
    and ok :: "'p \<Rightarrow> bool"
    and emit :: "'p \<Rightarrow> 'o list"
    and cost :: "'p \<Rightarrow> nat"
  assumes one_packet: "holds (p # ps) out s \<Longrightarrow> ok p \<Longrightarrow> \<exists>n \<le> cost p. holds ps (out @ emit p) ((step ^^ n) s)"
begin

lemma all_packets:
  "holds ps out s \<Longrightarrow> list_all ok ps \<Longrightarrow>
     \<exists>n \<le> sum_list (map cost ps). holds [] (out @ concat (map emit ps)) ((step ^^ n) s)"
proof (induction ps arbitrary: out s)
  case (Cons p ps)
  obtain n where n: "n \<le> cost p" "holds ps (out @ emit p) ((step ^^ n) s)"
    using one_packet [OF Cons.prems(1)] Cons.prems(2) by auto
  obtain m where m: "m \<le> sum_list (map cost ps)"
      "holds [] ((out @ emit p) @ concat (map emit ps)) ((step ^^ m) ((step ^^ n) s))"
    using Cons.IH [OF n(2)] Cons.prems(2) by auto
  have "holds [] (out @ concat (map emit (p # ps))) ((step ^^ (m + n)) s)"
    using m(2) by (simp add: funpow_add)
  then show ?case using n(1) m(1) by (intro exI [of _ "m + n"]) simp
qed auto

end

text \<open>The words of a packet: the last one, and only it, is marked.\<close>

definition marked :: "('w, 'k) net_axis list \<Rightarrow> bool" where
  "marked ws \<longleftrightarrow> ws \<noteq> [] \<and> na_last (last ws) \<and> list_all (\<lambda>w. \<not> na_last w) (butlast ws)"

lemma marked_Cons [simp]:
  "marked (w # ws) \<longleftrightarrow> (if ws = [] then na_last w else \<not> na_last w \<and> marked ws)"
  by (auto simp: marked_def)

lemma marked_not_Nil [simp]: "\<not> marked []"
  by (simp add: marked_def)

subsection \<open>Byte enables\<close>

text \<open>The tables of \<open>lenToKeep\<close> and \<open>keepToLen\<close>: \<open>n\<close> low ones for the lengths 1 to 64, where 64 is 0 in six bits.\<close>

definition lenToKeep :: "6 word \<Rightarrow> u64" where
  "lenToKeep n = (if n = 0 then - 1 else mask (unat n))"

definition keepToLen :: "u64 \<Rightarrow> u8" where
  "keepToLen k = (case find (\<lambda>n. k = mask n) [1 ..< 65] of Some n \<Rightarrow> of_nat n | None \<Rightarrow> 0xFF)"

subsection \<open>Two neighbouring words\<close>

text \<open>The word that starts \<open>n\<close> bits into \<open>prev\<close> and ends with the low \<open>n\<close> bits of \<open>cur\<close>.\<close>

definition align_bits :: "nat \<Rightarrow> 'a::len word \<Rightarrow> 'a word \<Rightarrow> 'a word" where
  "align_bits n prev cur =
     set_range (LENGTH('a) - n) n (get_range 0 n cur :: 'a word)
       (set_range 0 (LENGTH('a) - n) (get_range n (LENGTH('a) - n) prev :: 'a word) 0)"

lemma bit_align_bits:
  "n \<le> LENGTH('a) \<Longrightarrow> bit (align_bits n prev (cur :: 'a::len word)) i \<longleftrightarrow>
     (if i < LENGTH('a) - n then bit prev (n + i) else i < LENGTH('a) \<and> bit cur (i - (LENGTH('a) - n)))"
  by (auto simp: align_bits_def bit_ranges)

definition align_words ::
  "nat \<Rightarrow> ('w::len word, 'k::len word) net_axis \<Rightarrow> ('w word, 'k word) net_axis \<Rightarrow> bool \<Rightarrow> ('w word, 'k word) net_axis"
where
  "align_words offs prev cur lst =
     \<lparr>na_data = align_bits (8 * offs) (na_data prev) (na_data cur),
      na_keep = align_bits offs (na_keep prev) (na_keep cur), na_last = lst\<rparr>"

text \<open>\<open>alignWords\<close> leaves \<open>last\<close> to the caller.\<close>

definition alignWords ::
  "6 word \<Rightarrow> ('w::len word, 'k::len word) net_axis \<Rightarrow> ('w word, 'k word) net_axis \<Rightarrow> bool \<Rightarrow> ('w word, 'k word) net_axis"
where
  "alignWords offs prev cur junk = align_words (unat offs) prev cur junk"

definition zero_word :: "('w::len word, 'k::len word) net_axis" where
  "zero_word = \<lparr>na_data = 0, na_keep = 0, na_last = False\<rparr>"

subsection \<open>Word width\<close>

text \<open>The output words are \<open>D\<close> times as wide. In the synthesised build the data of \<open>temp\<close> is not cleared.\<close>

record ('w, 'k, 'v, 'j) widen =
  wi_input :: "('w, 'k) net_axis stream"
  wi_output :: "('v, 'j) net_axis stream"
  wi_count :: nat
  wi_temp :: "('v, 'j) net_axis"

definition increaseStreamWidth ::
  "nat \<Rightarrow> ('w::len word, 'k::len word, 'v::len word, 'j::len word) widen \<Rightarrow> ('w word, 'k word, 'v word, 'j word) widen" where
  "increaseStreamWidth D s =
     (case wi_input s of
        [] \<Rightarrow> s
      | w # q \<Rightarrow>
         (let n = wi_count s; t = wi_temp s;
              t' = \<lparr>na_data = set_range (LENGTH('w) * n) (LENGTH('w)) (na_data w) (na_data t),
                    na_keep = set_range (LENGTH('k) * n) (LENGTH('k)) (na_keep w) (na_keep t), na_last = na_last w\<rparr>
          in if na_last w \<or> n + 1 = D
             then s\<lparr>wi_input := q, wi_output := wi_output s @ [t'], wi_count := 0, wi_temp := t'\<lparr>na_keep := 0\<rparr>\<rparr>
             else s\<lparr>wi_input := q, wi_count := n + 1, wi_temp := t'\<rparr>))"

record ('w, 'k, 'v, 'j) narrow =
  nr_input :: "('w, 'k) net_axis stream"
  nr_output :: "('v, 'j) net_axis stream"
  nr_second :: bool
  nr_count :: nat
  nr_word :: "('w, 'k) net_axis"

text \<open>The shift of the word; the top of the data keeps its content, that of the byte enables is cleared.\<close>

definition nr_shift :: "nat \<Rightarrow> nat \<Rightarrow> ('w::len word, 'k::len word) net_axis \<Rightarrow> ('w word, 'k word) net_axis" where
  "nr_shift v j w =
     w\<lparr>na_data := set_range 0 (LENGTH('w) - v) (get_range v (LENGTH('w) - v) (na_data w) :: 'w word) (na_data w),
       na_keep := set_range (LENGTH('k) - j) j (0 :: 'k word)
         (set_range 0 (LENGTH('k) - j) (get_range j (LENGTH('k) - j) (na_keep w) :: 'k word) (na_keep w))\<rparr>"

definition nr_piece :: "bool \<Rightarrow> ('w::len word, 'k::len word) net_axis \<Rightarrow> ('v::len word, 'j::len word) net_axis" where
  "nr_piece lst w = \<lparr>na_data = get_range 0 (LENGTH('v)) (na_data w), na_keep = get_range 0 (LENGTH('j)) (na_keep w),
     na_last = lst\<rparr>"

definition reduceStreamWidth ::
  "nat \<Rightarrow> ('w::len word, 'k::len word, 'v::len word, 'j::len word) narrow \<Rightarrow> ('w word, 'k word, 'v word, 'j word) narrow" where
  "reduceStreamWidth D s =
     (if \<not> nr_second s then
        (case nr_input s of
           [] \<Rightarrow> s
         | w # q \<Rightarrow>
            (let more = bit (na_keep w) (LENGTH('j));
                 s1 = s\<lparr>nr_input := q, nr_output := nr_output s @ [nr_piece (\<not> more) w],
                        nr_word := nr_shift (LENGTH('v)) (LENGTH('j)) w\<rparr>
             in if more then s1\<lparr>nr_count := 1, nr_second := True\<rparr> else s1))
      else
        (let w = nr_word s;
             lst = (if nr_count s < D - 1 then \<not> bit (na_keep w) (LENGTH('j)) else na_last w)
         in s\<lparr>nr_output := nr_output s @ [nr_piece lst w], nr_word := nr_shift (LENGTH('v)) (LENGTH('j)) w,
              nr_count := nr_count s + 1, nr_second := \<not> (nr_count s + 1 = D \<or> lst)\<rparr>))"

text \<open>\<open>convertStreamWidth\<close> is overloaded in the ratio; with equal widths it forwards the words.\<close>

record ('w, 'k) forward =
  fw_input :: "('w, 'k) net_axis stream"
  fw_output :: "('w, 'k) net_axis stream"

definition convertStreamWidth :: "('w, 'k) forward \<Rightarrow> ('w, 'k) forward" where
  "convertStreamWidth s =
     (case fw_input s of [] \<Rightarrow> s | w # q \<Rightarrow> s\<lparr>fw_input := q, fw_output := fw_output s @ [w]\<rparr>)"

subsection \<open>Shifts\<close>

record ('w, 'k) shifter =
  sh_input :: "('w, 'k) net_axis stream"
  sh_output :: "('w, 'k) net_axis stream"
  sh_remainder :: bool
  sh_first :: bool
  sh_prev :: "('w, 'k) net_axis"

text \<open>\<open>rshiftWordByOctet\<close> takes \<open>offs\<close> bytes off the front of every packet.\<close>

definition rshiftWordByOctet :: "nat \<Rightarrow> ('w::len word, 'k::len word) shifter \<Rightarrow> ('w word, 'k word) shifter" where
  "rshiftWordByOctet offs s =
     (if sh_remainder s then
        s\<lparr>sh_output := sh_output s @ [align_words offs (sh_prev s) zero_word True], sh_remainder := False\<rparr>
      else
        (case sh_input s of
           [] \<Rightarrow> s
         | w # q \<Rightarrow>
            (let sendWord = (if offs = 0 then w
                             else align_words offs (sh_prev s) w
                                    ((get_range offs (LENGTH('k) - offs) (na_keep w) :: 'k word) = 0));
                 sent_last = (\<not> sh_first s \<and> na_last sendWord);
                 s1 = (if \<not> sh_first s then s\<lparr>sh_input := q, sh_output := sh_output s @ [sendWord]\<rparr>
                       else s\<lparr>sh_input := q\<rparr>)
             in if na_last w
                then s1\<lparr>sh_prev := w, sh_first := offs \<noteq> 0, sh_remainder := \<not> sent_last\<rparr>
                else s1\<lparr>sh_prev := w, sh_first := False\<rparr>)))"

text \<open>\<open>lshiftWordByOctet\<close> puts \<open>offs\<close> zero bytes in front of every packet; the byte enables of the first word
  are set from a constant of 32 bits.\<close>

definition ls_first_word :: "nat \<Rightarrow> ('w::len word, 'k::len word) net_axis \<Rightarrow> bool \<Rightarrow> ('w word, 'k word) net_axis" where
  "ls_first_word offs w lst =
     \<lparr>na_data = align_bits (LENGTH('w) - 8 * offs) 0 (na_data w),
      na_keep = set_range offs (LENGTH('k) - offs) (get_range 0 (LENGTH('k) - offs) (na_keep w) :: 'k word)
        (set_range 0 offs (0xFFFFFFFF :: u64) 0), na_last = lst\<rparr>"

definition lshiftWordByOctet :: "nat \<Rightarrow> ('w::len word, 'k::len word) shifter \<Rightarrow> ('w word, 'k word) shifter" where
  "lshiftWordByOctet offs s =
     (if sh_remainder s then
        s\<lparr>sh_output := sh_output s
            @ [\<lparr>na_data = align_bits (LENGTH('w) - 8 * offs) (na_data (sh_prev s)) 0,
                na_keep = align_bits (LENGTH('k) - offs) (na_keep (sh_prev s)) 0, na_last = True\<rparr>],
          sh_remainder := False\<rparr>
      else
        (case sh_input s of
           [] \<Rightarrow> s
         | w # q \<Rightarrow>
            (if offs = 0 then s\<lparr>sh_input := q, sh_output := sh_output s @ [w]\<rparr>
             else
               (let lst = ((get_range (LENGTH('k) - offs) offs (na_keep w) :: 'k word) = 0);
                    sendWord = (if sh_first s then ls_first_word offs w lst
                                else \<lparr>na_data = align_bits (LENGTH('w) - 8 * offs) (na_data (sh_prev s)) (na_data w),
                                      na_keep = align_bits (LENGTH('k) - offs) (na_keep (sh_prev s)) (na_keep w),
                                      na_last = lst\<rparr>);
                    s1 = s\<lparr>sh_input := q, sh_output := sh_output s @ [sendWord], sh_prev := w, sh_first := na_last w\<rparr>
                in if na_last w then s1\<lparr>sh_remainder := \<not> lst\<rparr> else s1))))"

text \<open>Copies of the two functions under other names.\<close>

definition udp_lshiftWordByOctet :: "nat \<Rightarrow> ('w::len word, 'k::len word) shifter \<Rightarrow> ('w word, 'k word) shifter" where
  "udp_lshiftWordByOctet = lshiftWordByOctet"
definition mac_lshiftWordByOctet :: "nat \<Rightarrow> ('w::len word, 'k::len word) shifter \<Rightarrow> ('w word, 'k word) shifter" where
  "mac_lshiftWordByOctet = lshiftWordByOctet"
definition ipv4_lshiftWordByOctet :: "nat \<Rightarrow> ('w::len word, 'k::len word) shifter \<Rightarrow> ('w word, 'k word) shifter" where
  "ipv4_lshiftWordByOctet = lshiftWordByOctet"
definition ip_handler_rshiftWordByOctet :: "nat \<Rightarrow> ('w::len word, 'k::len word) shifter \<Rightarrow> ('w word, 'k word) shifter" where
  "ip_handler_rshiftWordByOctet = rshiftWordByOctet"
definition udp_rshiftWordByOctet :: "nat \<Rightarrow> ('w::len word, 'k::len word) shifter \<Rightarrow> ('w word, 'k word) shifter" where
  "udp_rshiftWordByOctet = rshiftWordByOctet"

subsection \<open>Mergers\<close>

record 'a merger =
  mg_in0 :: "'a stream"
  mg_in1 :: "'a stream"
  mg_out :: "'a stream"

definition mg_take0 :: "('a, 'm) merger_scheme \<Rightarrow> ('a, 'm) merger_scheme" where
  "mg_take0 s = s\<lparr>mg_in0 := tl (mg_in0 s), mg_out := mg_out s @ [hd (mg_in0 s)]\<rparr>"

definition mg_take1 :: "('a, 'm) merger_scheme \<Rightarrow> ('a, 'm) merger_scheme" where
  "mg_take1 s = s\<lparr>mg_in1 := tl (mg_in1 s), mg_out := mg_out s @ [hd (mg_in1 s)]\<rparr>"

definition stream_merger :: "'a merger \<Rightarrow> 'a merger" where
  "stream_merger s = (if mg_in0 s \<noteq> [] then mg_take0 s else if mg_in1 s \<noteq> [] then mg_take1 s else s)"

datatype mergeState = MG_IDLE | MG_FWD0 | MG_FWD1

record 'a originMerger = "'a merger" +
  om_origin :: "bool stream"
  om_state :: mergeState

definition stream_merger_origin :: "'a originMerger \<Rightarrow> 'a originMerger" where
  "stream_merger_origin s =
     (case om_state s of
        MG_IDLE \<Rightarrow>
          (case om_origin s of
             [] \<Rightarrow> s
           | orig # q \<Rightarrow>
              (let s1 = s\<lparr>om_origin := q\<rparr>
               in if \<not> orig then (if mg_in0 s \<noteq> [] then mg_take0 s1 else s1\<lparr>om_state := MG_FWD0\<rparr>)
                  else (if mg_in1 s \<noteq> [] then mg_take1 s1 else s1\<lparr>om_state := MG_FWD1\<rparr>)))
      | MG_FWD0 \<Rightarrow> (if mg_in0 s \<noteq> [] then (mg_take0 s)\<lparr>om_state := MG_IDLE\<rparr> else s)
      | MG_FWD1 \<Rightarrow> (if mg_in1 s \<noteq> [] then (mg_take1 s)\<lparr>om_state := MG_IDLE\<rparr> else s))"

record 'a fairMerger = "'a merger" +
  merge_pref :: bool

definition fair_merger :: "'a fairMerger \<Rightarrow> 'a fairMerger" where
  "fair_merger s =
     (if merge_pref s
      then (if mg_in0 s \<noteq> [] then (mg_take0 s)\<lparr>merge_pref := False\<rparr> else if mg_in1 s \<noteq> [] then mg_take1 s else s)
      else (if mg_in1 s \<noteq> [] then (mg_take1 s)\<lparr>merge_pref := True\<rparr> else if mg_in0 s \<noteq> [] then mg_take0 s else s))"

record 'a fairPkgMerger = "'a fairMerger" +
  fp_state :: mergeState

definition fair_pkg_merger :: "('w, 'k) net_axis fairPkgMerger \<Rightarrow> ('w, 'k) net_axis fairPkgMerger" where
  "fair_pkg_merger s =
     (let next_state = (\<lambda>w st. if na_last w then MG_IDLE else st) in
      case fp_state s of
        MG_IDLE \<Rightarrow>
          (if merge_pref s then
             (if mg_in0 s \<noteq> [] then (mg_take0 s)\<lparr>fp_state := next_state (hd (mg_in0 s)) MG_FWD1\<rparr>
              else if mg_in1 s \<noteq> [] then (mg_take1 s)\<lparr>fp_state := next_state (hd (mg_in1 s)) MG_FWD1\<rparr> else s)
           else
             (if mg_in1 s \<noteq> [] then (mg_take1 s)\<lparr>fp_state := next_state (hd (mg_in1 s)) MG_FWD1\<rparr>
              else if mg_in0 s \<noteq> [] then (mg_take0 s)\<lparr>fp_state := next_state (hd (mg_in0 s)) MG_FWD0\<rparr> else s))
      | MG_FWD0 \<Rightarrow>
          (if mg_in0 s \<noteq> [] then
             (if na_last (hd (mg_in0 s)) then (mg_take0 s)\<lparr>merge_pref := False, fp_state := MG_IDLE\<rparr> else mg_take0 s)
           else s)
      | MG_FWD1 \<Rightarrow>
          (if mg_in1 s \<noteq> [] then
             (if na_last (hd (mg_in1 s)) then (mg_take1 s)\<lparr>merge_pref := True, fp_state := MG_IDLE\<rparr> else mg_take1 s)
           else s))"

definition stream_pkg_merger :: "('w, 'k) net_axis originMerger \<Rightarrow> ('w, 'k) net_axis originMerger" where
  "stream_pkg_merger s =
     (let word0 = (\<lambda>s. (mg_take0 s)\<lparr>om_state := if na_last (hd (mg_in0 s)) then MG_IDLE else MG_FWD0\<rparr>);
          word1 = (\<lambda>s. (mg_take1 s)\<lparr>om_state := if na_last (hd (mg_in1 s)) then MG_IDLE else MG_FWD1\<rparr>)
      in case om_state s of
           MG_IDLE \<Rightarrow>
             (case om_origin s of
                [] \<Rightarrow> s
              | orig # q \<Rightarrow>
                 (let s1 = s\<lparr>om_origin := q\<rparr>
                  in if \<not> orig then (if mg_in0 s \<noteq> [] then word0 s1 else s1\<lparr>om_state := MG_FWD0\<rparr>)
                     else (if mg_in1 s \<noteq> [] then word1 s1 else s1\<lparr>om_state := MG_FWD1\<rparr>)))
         | MG_FWD0 \<Rightarrow> (if mg_in0 s \<noteq> [] then word0 s else s)
         | MG_FWD1 \<Rightarrow> (if mg_in1 s \<noteq> [] then word1 s else s))"

subsection \<open>Splitter, filter, duplication\<close>

record ('w, 'k) splitter =
  sp_dest :: "bool stream"
  sp_input :: "('w, 'k) net_axis stream"
  sp_out0 :: "('w, 'k) net_axis stream"
  sp_out1 :: "('w, 'k) net_axis stream"
  sp_state :: mergeState

definition sp_word :: "mergeState \<Rightarrow> ('w, 'k) splitter \<Rightarrow> ('w, 'k) splitter" where
  "sp_word st s =
     (case sp_input s of
        [] \<Rightarrow> s
      | w # q \<Rightarrow>
         (let s1 = (if st = MG_FWD0 then s\<lparr>sp_input := q, sp_out0 := sp_out0 s @ [w]\<rparr>
                    else s\<lparr>sp_input := q, sp_out1 := sp_out1 s @ [w]\<rparr>)
          in if na_last w then s1\<lparr>sp_state := MG_IDLE\<rparr> else s1))"

definition stream_pkg_splitter :: "('w, 'k) splitter \<Rightarrow> ('w, 'k) splitter" where
  "stream_pkg_splitter s =
     (case sp_state s of
        MG_IDLE \<Rightarrow>
          (case sp_dest s of
             [] \<Rightarrow> s
           | d # q \<Rightarrow> (let st = (if d then MG_FWD1 else MG_FWD0) in sp_word st (s\<lparr>sp_dest := q, sp_state := st\<rparr>)))
      | st \<Rightarrow> sp_word st s)"

datatype filterState = FI_VALID | FI_FWD | FI_DROP

record ('w, 'k) pkgFilter =
  fi_valid :: "bool stream"
  fi_input :: "('w, 'k) net_axis stream"
  fi_output :: "('w, 'k) net_axis stream"
  fi_state :: filterState

definition pass_valid_pkg :: "('w, 'k) pkgFilter \<Rightarrow> ('w, 'k) pkgFilter" where
  "pass_valid_pkg s =
     (case fi_state s of
        FI_VALID \<Rightarrow>
          (if fi_valid s \<noteq> [] \<and> fi_input s \<noteq> [] then
             (let w = hd (fi_input s); s1 = s\<lparr>fi_valid := tl (fi_valid s), fi_input := tl (fi_input s)\<rparr>
              in if hd (fi_valid s)
                 then s1\<lparr>fi_output := fi_output s @ [w], fi_state := if na_last w then FI_VALID else FI_FWD\<rparr>
                 else s1\<lparr>fi_state := if na_last w then FI_VALID else FI_DROP\<rparr>)
           else s)
      | FI_FWD \<Rightarrow>
          (case fi_input s of
             [] \<Rightarrow> s
           | w # q \<Rightarrow> s\<lparr>fi_input := q, fi_output := fi_output s @ [w], fi_state := if na_last w then FI_VALID else FI_FWD\<rparr>)
      | FI_DROP \<Rightarrow>
          (case fi_input s of
             [] \<Rightarrow> s
           | w # q \<Rightarrow> s\<lparr>fi_input := q, fi_state := if na_last w then FI_VALID else FI_DROP\<rparr>))"

record 'a duplicator =
  du_in :: "'a stream"
  du_out0 :: "'a stream"
  du_out1 :: "'a stream"

definition toe_duplicate_stream :: "'a duplicator \<Rightarrow> 'a duplicator" where
  "toe_duplicate_stream s =
     (case du_in s of [] \<Rightarrow> s | x # q \<Rightarrow> s\<lparr>du_in := q, du_out0 := du_out0 s @ [x], du_out1 := du_out1 s @ [x]\<rparr>)"

definition ip_handler_duplicate_stream :: "'a duplicator \<Rightarrow> 'a duplicator" where
  "ip_handler_duplicate_stream s =
     (case du_in s of [] \<Rightarrow> s | x # q \<Rightarrow> s\<lparr>du_in := q, du_out0 := du_out0 s @ [x], du_out1 := du_out1 s @ [x]\<rparr>)"

end
