(* ===== verification/Axi_Packets.thy ===== *)
theory Axi_Packets
  imports Axi_Streams
begin

text \<open>
  What the stream utilities do to a sequence of packets: shifting the bytes of a packet up and down
  again gives the packet, splitting a stream and merging it by the same decisions gives the
  stream, and the filter passes the valid packets. Each module is an instance of the packet contract.
\<close>

lemma run_Suc: "(f ^^ Suc n) s = (f ^^ n) (f s)"
  by (simp add: funpow_swap1)

subsection \<open>Shifts\<close>

definition top_empty :: "nat \<Rightarrow> ('w, 'k::len word) net_axis \<Rightarrow> bool" where
  "top_empty offs w \<longleftrightarrow> (get_range (LENGTH('k) - offs) offs (na_keep w) :: 'k word) = 0"

definition rest_empty :: "nat \<Rightarrow> ('w, 'k::len word) net_axis \<Rightarrow> bool" where
  "rest_empty offs w \<longleftrightarrow> (get_range offs (LENGTH('k) - offs) (na_keep w) :: 'k word) = 0"

definition ls_word :: "nat \<Rightarrow> ('w::len word, 'k::len word) net_axis \<Rightarrow> ('w word, 'k word) net_axis \<Rightarrow> bool \<Rightarrow> ('w word, 'k word) net_axis"
where
  "ls_word offs p w lst = \<lparr>na_data = align_bits (LENGTH('w) - 8 * offs) (na_data p) (na_data w),
     na_keep = align_bits (LENGTH('k) - offs) (na_keep p) (na_keep w), na_last = lst\<rparr>"

fun lsh_words :: "nat \<Rightarrow> ('w::len word, 'k::len word) net_axis \<Rightarrow> ('w word, 'k word) net_axis list \<Rightarrow> ('w word, 'k word) net_axis list"
where
  "lsh_words offs p [] = []"
| "lsh_words offs p (w # ws) = ls_word offs p w (top_empty offs w)
     # (if ws = [] \<and> \<not> top_empty offs w then [ls_word offs w zero_word True] else lsh_words offs w ws)"

fun lsh_packet :: "nat \<Rightarrow> ('w::len word, 'k::len word) net_axis list \<Rightarrow> ('w word, 'k word) net_axis list" where
  "lsh_packet offs [] = []"
| "lsh_packet offs (w # ws) =
     (if offs = 0 then w # ws
      else ls_first_word offs w (top_empty offs w)
        # (if ws = [] \<and> \<not> top_empty offs w then [ls_word offs w zero_word True] else lsh_words offs w ws))"

fun rsh_words :: "nat \<Rightarrow> ('w::len word, 'k::len word) net_axis \<Rightarrow> ('w word, 'k word) net_axis list \<Rightarrow> ('w word, 'k word) net_axis list"
where
  "rsh_words offs p [] = []"
| "rsh_words offs p (w # ws) = align_words offs p w (rest_empty offs w)
     # (if ws = [] \<and> \<not> rest_empty offs w then [align_words offs w zero_word True] else rsh_words offs w ws)"

fun rsh_packet :: "nat \<Rightarrow> ('w::len word, 'k::len word) net_axis list \<Rightarrow> ('w word, 'k word) net_axis list" where
  "rsh_packet offs [] = []"
| "rsh_packet offs (w # ws) =
     (if offs = 0 then w # ws else if ws = [] then [align_words offs w zero_word True] else rsh_words offs w ws)"

definition sh_holds :: "bool \<Rightarrow> ('w, 'k) net_axis list list \<Rightarrow> ('w, 'k) net_axis list \<Rightarrow> ('w, 'k) shifter \<Rightarrow> bool" where
  "sh_holds b ps out s \<longleftrightarrow> sh_input s = concat ps \<and> sh_output s = out \<and> \<not> sh_remainder s \<and> sh_first s = b"

lemma ls_remainder:
  "sh_remainder s \<Longrightarrow> sh_input s = concat ps \<Longrightarrow> sh_first s = b \<Longrightarrow> sh_output s = out \<Longrightarrow>
   sh_holds b ps (out @ [ls_word offs (sh_prev s) zero_word True]) (lshiftWordByOctet offs s)"
  by (simp add: sh_holds_def lshiftWordByOctet_def ls_word_def zero_word_def)

lemma rs_remainder:
  "sh_remainder s \<Longrightarrow> sh_input s = concat ps \<Longrightarrow> sh_first s = b \<Longrightarrow> sh_output s = out \<Longrightarrow>
   sh_holds b ps (out @ [align_words offs (sh_prev s) zero_word True]) (rshiftWordByOctet offs s)"
  by (simp add: sh_holds_def rshiftWordByOctet_def)

lemma lsh_words_run:
  "marked ws \<Longrightarrow> offs \<noteq> 0 \<Longrightarrow> sh_input s = ws @ concat ps \<Longrightarrow> \<not> sh_remainder s \<Longrightarrow> \<not> sh_first s \<Longrightarrow>
   \<exists>n \<le> length ws + 1. sh_holds True ps (sh_output s @ lsh_words offs (sh_prev s) ws) ((lshiftWordByOctet offs ^^ n) s)"
proof (induction ws arbitrary: s)
  case (Cons w ws)
  let ?s = "lshiftWordByOctet offs s"
  have s1: "sh_input ?s = ws @ concat ps" "sh_output ?s = sh_output s @ [ls_word offs (sh_prev s) w (top_empty offs w)]"
    "sh_prev ?s = w" "sh_first ?s = na_last w" "sh_remainder ?s = (na_last w \<and> \<not> top_empty offs w)"
    using Cons.prems by (simp_all add: lshiftWordByOctet_def ls_word_def top_empty_def Let_def)
  show ?case
  proof (cases "ws = []")
    case True
    show ?thesis
    proof (cases "top_empty offs w")
      case e: True
      then show ?thesis using s1 True Cons.prems(1)
        by (intro exI [of _ 1]) (simp add: sh_holds_def)
    next
      case e: False
      have "sh_holds True ps (sh_output ?s @ [ls_word offs w zero_word True]) (lshiftWordByOctet offs ?s)"
        using ls_remainder [of ?s ps True "sh_output ?s" offs] s1 e True Cons.prems(1) by simp
      then show ?thesis using s1 e True by (intro exI [of _ 2]) (simp add: numeral_2_eq_2)
    qed
  next
    case False
    then obtain n where "n \<le> length ws + 1"
        "sh_holds True ps (sh_output ?s @ lsh_words offs w ws) ((lshiftWordByOctet offs ^^ n) ?s)"
      using Cons.IH [of ?s] Cons.prems s1 by auto
    then show ?thesis using s1 False by (intro exI [of _ "Suc n"]) (simp add: run_Suc del: funpow.simps)
  qed
qed simp

lemma rsh_words_run:
  "marked ws \<Longrightarrow> offs \<noteq> 0 \<Longrightarrow> sh_input s = ws @ concat ps \<Longrightarrow> \<not> sh_remainder s \<Longrightarrow> \<not> sh_first s \<Longrightarrow>
   \<exists>n \<le> length ws + 1. sh_holds True ps (sh_output s @ rsh_words offs (sh_prev s) ws) ((rshiftWordByOctet offs ^^ n) s)"
proof (induction ws arbitrary: s)
  case (Cons w ws)
  let ?s = "rshiftWordByOctet offs s"
  have s1: "sh_input ?s = ws @ concat ps" "sh_output ?s = sh_output s @ [align_words offs (sh_prev s) w (rest_empty offs w)]"
    "sh_prev ?s = w" "sh_first ?s = na_last w" "sh_remainder ?s = (na_last w \<and> \<not> rest_empty offs w)"
    using Cons.prems by (simp_all add: rshiftWordByOctet_def align_words_def rest_empty_def Let_def)
  show ?case
  proof (cases "ws = []")
    case True
    show ?thesis
    proof (cases "rest_empty offs w")
      case e: True
      then show ?thesis using s1 True Cons.prems(1)
        by (intro exI [of _ 1]) (simp add: sh_holds_def)
    next
      case e: False
      have "sh_holds True ps (sh_output ?s @ [align_words offs w zero_word True]) (rshiftWordByOctet offs ?s)"
        using rs_remainder [of ?s ps True "sh_output ?s" offs] s1 e True Cons.prems(1) by simp
      then show ?thesis using s1 e True by (intro exI [of _ 2]) (simp add: numeral_2_eq_2)
    qed
  next
    case False
    then obtain n where "n \<le> length ws + 1"
        "sh_holds True ps (sh_output ?s @ rsh_words offs w ws) ((rshiftWordByOctet offs ^^ n) ?s)"
      using Cons.IH [of ?s] Cons.prems s1 by auto
    then show ?thesis using s1 False by (intro exI [of _ "Suc n"]) (simp add: run_Suc del: funpow.simps)
  qed
qed simp

lemma forward_packet:
  fixes f :: "('w, 'k) shifter \<Rightarrow> ('w, 'k) shifter"
  assumes step: "\<And>s w q. sh_input s = w # q \<Longrightarrow> \<not> sh_remainder s \<Longrightarrow> sh_first s = b \<Longrightarrow>
      sh_input (f s) = q \<and> sh_output (f s) = sh_output s @ [w] \<and> \<not> sh_remainder (f s) \<and> sh_first (f s) = b"
  shows "sh_input s = ws @ concat ps \<Longrightarrow> \<not> sh_remainder s \<Longrightarrow> sh_first s = b \<Longrightarrow>
    sh_holds b ps (sh_output s @ ws) ((f ^^ length ws) s)"
proof (induction ws arbitrary: s)
  case (Cons w ws)
  then show ?case using step [of s w "ws @ concat ps"] Cons.IH [of "f s"] by (simp add: funpow_swap1)
qed (simp add: sh_holds_def)

interpretation lsh: packet_machine "lshiftWordByOctet offs" "sh_holds True" marked "lsh_packet offs" "\<lambda>p. length p + 1"
proof
  fix p ps out and s :: "('w::len word, 'k::len word) shifter"
  assume h: "sh_holds True (p # ps) out s" and m: "marked p"
  then obtain w ws where p: "p = w # ws" by (cases p) auto
  show "\<exists>n \<le> length p + 1. sh_holds True ps (out @ lsh_packet offs p) ((lshiftWordByOctet offs ^^ n) s)"
  proof (cases "offs = 0")
    case True
    have "sh_holds True ps (sh_output s @ p) ((lshiftWordByOctet offs ^^ length p) s)"
      by (rule forward_packet) (use h True in \<open>auto simp: sh_holds_def lshiftWordByOctet_def\<close>)
    then show ?thesis using h p True by (intro exI [of _ "length p"]) (simp add: sh_holds_def)
  next
    case False
    let ?s = "lshiftWordByOctet offs s"
    have s1: "sh_input ?s = ws @ concat ps" "sh_output ?s = out @ [ls_first_word offs w (top_empty offs w)]"
      "sh_prev ?s = w" "sh_first ?s = na_last w" "sh_remainder ?s = (na_last w \<and> \<not> top_empty offs w)"
      using h p False by (simp_all add: sh_holds_def lshiftWordByOctet_def top_empty_def Let_def)
    consider (more) "ws \<noteq> []" | (one) "ws = []" "top_empty offs w" | (two) "ws = []" "\<not> top_empty offs w" by blast
    then show ?thesis
    proof cases
      case more
      then obtain n where "n \<le> length ws + 1"
          "sh_holds True ps (sh_output ?s @ lsh_words offs w ws) ((lshiftWordByOctet offs ^^ n) ?s)"
        using lsh_words_run [of ws offs ?s ps] m p s1 False by auto
      then show ?thesis using s1 p more False by (intro exI [of _ "Suc n"]) (simp add: run_Suc del: funpow.simps)
    next
      case one
      then show ?thesis using s1 p m False by (intro exI [of _ 1]) (simp add: sh_holds_def)
    next
      case two
      then show ?thesis using ls_remainder [of ?s ps True "sh_output ?s" offs] s1 p m False
        by (intro exI [of _ 2]) (simp add: numeral_2_eq_2)
    qed
  qed
qed

interpretation rsh: packet_machine "rshiftWordByOctet offs" "sh_holds (offs \<noteq> 0)" marked "rsh_packet offs" "\<lambda>p. length p + 1"
proof
  fix p ps out and s :: "('w::len word, 'k::len word) shifter"
  assume h: "sh_holds (offs \<noteq> 0) (p # ps) out s" and m: "marked p"
  then obtain w ws where p: "p = w # ws" by (cases p) auto
  show "\<exists>n \<le> length p + 1. sh_holds (offs \<noteq> 0) ps (out @ rsh_packet offs p) ((rshiftWordByOctet offs ^^ n) s)"
  proof (cases "offs = 0")
    case True
    have "sh_holds False ps (sh_output s @ p) ((rshiftWordByOctet offs ^^ length p) s)"
      by (rule forward_packet) (use h True in \<open>auto simp: sh_holds_def rshiftWordByOctet_def Let_def\<close>)
    then show ?thesis using h p True by (intro exI [of _ "length p"]) (simp add: sh_holds_def)
  next
    case False
    let ?s = "rshiftWordByOctet offs s"
    have s1: "sh_input ?s = ws @ concat ps" "sh_output ?s = out" "sh_prev ?s = w" "sh_first ?s = na_last w"
        "sh_remainder ?s = na_last w"
      using h p False by (simp_all add: sh_holds_def rshiftWordByOctet_def Let_def)
    show ?thesis
    proof (cases "ws = []")
      case True
      then show ?thesis using rs_remainder [of ?s ps True "sh_output ?s" offs] s1 p m False
        by (intro exI [of _ 2]) (simp add: numeral_2_eq_2)
    next
      case more: False
      then obtain n where "n \<le> length ws + 1"
          "sh_holds True ps (sh_output ?s @ rsh_words offs w ws) ((rshiftWordByOctet offs ^^ n) ?s)"
        using rsh_words_run [of ws offs ?s ps] m p s1 False by auto
      then show ?thesis using s1 p more False by (intro exI [of _ "Suc n"]) (simp add: run_Suc del: funpow.simps)
    qed
  qed
qed

text \<open>Words of a packet as they travel: all bytes of a word count, in the last word at least the first
  one, and bytes that do not count are zero.\<close>

definition full_word :: "('w, 'k::len word) net_axis \<Rightarrow> bool" where
  "full_word w \<longleftrightarrow> na_keep w = - 1"

definition clean_word :: "('w::len word, 'k::len word) net_axis \<Rightarrow> bool" where
  "clean_word w \<longleftrightarrow> bit (na_keep w) 0 \<and> (\<forall>i < LENGTH('w). bit (na_data w) i \<longrightarrow> bit (na_keep w) (i div 8))"

definition tidy :: "('w::len word, 'k::len word) net_axis list \<Rightarrow> bool" where
  "tidy ws \<longleftrightarrow> marked ws \<and> list_all full_word (butlast ws) \<and> clean_word (last ws)"

text \<open>\<open>p\<close> carries the low bytes of \<open>w\<close> at its end.\<close>

definition carries :: "nat \<Rightarrow> ('w::len word, 'k::len word) net_axis \<Rightarrow> ('w word, 'k word) net_axis \<Rightarrow> bool" where
  "carries offs p w \<longleftrightarrow>
     (\<forall>i < LENGTH('w) - 8 * offs. bit (na_data p) (8 * offs + i) = bit (na_data w) i)
     \<and> (\<forall>i < LENGTH('k) - offs. bit (na_keep p) (offs + i) = bit (na_keep w) i)"

definition shift_ok :: "nat \<Rightarrow> ('w::len word, 'k::len word) net_axis \<Rightarrow> bool" where
  "shift_ok offs w \<longleftrightarrow> 0 < offs \<and> offs < LENGTH('k) \<and> LENGTH('w) = 8 * LENGTH('k)"

lemma carries_ls_word: "shift_ok offs w \<Longrightarrow> carries offs (ls_word offs p w lst) w"
  by (auto simp: carries_def shift_ok_def ls_word_def bit_align_bits)

lemma carries_first: "shift_ok offs w \<Longrightarrow> carries offs (ls_first_word offs w lst) w"
  by (auto simp: carries_def shift_ok_def ls_first_word_def bit_align_bits bit_ranges)

lemma align_back:
  assumes n: "n \<le> LENGTH('a)" and p: "\<And>i. i < LENGTH('a) - n \<Longrightarrow> bit p (n + i) = bit b i"
  shows "align_bits n p (align_bits (LENGTH('a) - n) b c) = (b :: 'a::len word)"
proof (rule bit_word_eqI)
  fix i assume i: "i < LENGTH('a)"
  show "bit (align_bits n p (align_bits (LENGTH('a) - n) b c)) i = bit b i"
  proof (cases "i < LENGTH('a) - n")
    case True
    then show ?thesis using n i p by (simp add: bit_align_bits)
  next
    case False
    then show ?thesis using n i by (simp add: bit_align_bits less_diff_conv2)
  qed
qed

lemma align_back_zero:
  assumes n: "n \<le> LENGTH('a)" and p: "\<And>i. i < LENGTH('a) - n \<Longrightarrow> bit p (n + i) = bit b i"
    and z: "\<And>i. LENGTH('a) - n \<le> i \<Longrightarrow> \<not> bit b i"
  shows "align_bits n p 0 = (b :: 'a::len word)"
proof (rule bit_word_eqI)
  fix i assume i: "i < LENGTH('a)"
  show "bit (align_bits n p 0) i = bit b i"
    using n i p [of i] z [of i] by (cases "i < LENGTH('a) - n") (simp_all add: bit_align_bits)
qed

lemma align_next:
  fixes w :: "('w::len word, 'k::len word) net_axis"
  assumes "shift_ok offs w" and "carries offs p w"
  shows "align_words offs p (ls_word offs w v l) b = w\<lparr>na_last := b\<rparr>"
proof -
  have "align_bits (8 * offs) (na_data p) (align_bits (LENGTH('w) - 8 * offs) (na_data w) (na_data v)) = na_data w"
    using assms by (intro align_back) (auto simp: shift_ok_def carries_def)
  moreover have "align_bits offs (na_keep p) (align_bits (LENGTH('k) - offs) (na_keep w) (na_keep v)) = na_keep w"
    using assms by (intro align_back) (auto simp: shift_ok_def carries_def)
  ultimately show ?thesis by (simp add: align_words_def ls_word_def)
qed

lemma align_end:
  fixes w :: "('w::len word, 'k::len word) net_axis"
  assumes ok: "shift_ok offs w" and c: "carries offs p w" and e: "top_empty offs w" and cl: "clean_word w"
  shows "align_words offs p zero_word b = w\<lparr>na_last := b\<rparr>"
proof -
  note ok' = ok [unfolded shift_ok_def]
  have k: "\<not> bit (na_keep w) i" if "LENGTH('k) - offs \<le> i" for i
  proof (cases "i < LENGTH('k)")
    case True
    from e have "\<not> bit (get_range (LENGTH('k) - offs) offs (na_keep w) :: 'k word) (i - (LENGTH('k) - offs))"
      by (simp add: top_empty_def)
    then show ?thesis using that True ok' by (auto simp: bit_ranges)
  qed (auto dest: bit_imp_le_length)
  have d: "\<not> bit (na_data w) i" if "LENGTH('w) - 8 * offs \<le> i" for i
  proof
    assume "bit (na_data w) i"
    then have "bit (na_keep w) (i div 8)"
      using cl by (auto simp: clean_word_def dest: bit_imp_le_length)
    moreover have "LENGTH('k) - offs \<le> i div 8" using that ok' by auto
    ultimately show False using k by blast
  qed
  have "align_bits (8 * offs) (na_data p) 0 = na_data w"
    using c ok' d by (intro align_back_zero) (auto simp: carries_def)
  moreover have "align_bits offs (na_keep p) 0 = na_keep w"
    using c ok' k by (intro align_back_zero) (auto simp: carries_def)
  ultimately show ?thesis by (simp add: align_words_def zero_word_def)
qed

lemma rest_not_empty:
  fixes w :: "('w::len word, 'k::len word) net_axis"
  assumes ok: "shift_ok offs w" and b: "bit (na_keep w) 0"
  shows "\<not> rest_empty offs (ls_word offs p w l)"
proof
  assume "rest_empty offs (ls_word offs p w l)"
  then have "\<not> bit (get_range offs (LENGTH('k) - offs) (na_keep (ls_word offs p w l)) :: 'k word) 0"
    by (simp add: rest_empty_def)
  then show False using ok b by (simp add: shift_ok_def ls_word_def bit_ranges bit_align_bits)
qed

lemma rest_is_empty: "shift_ok offs w \<Longrightarrow> rest_empty offs (ls_word offs w zero_word l)"
  unfolding rest_empty_def shift_ok_def
  by (rule bit_word_eqI) (auto simp: ls_word_def zero_word_def bit_ranges bit_align_bits)

lemma full_not_empty:
  fixes w :: "('w::len word, 'k::len word) net_axis"
  assumes ok: "shift_ok offs w" and f: "full_word w"
  shows "\<not> top_empty offs w \<and> bit (na_keep w) 0"
proof -
  have "bit (get_range (LENGTH('k) - offs) offs (na_keep w) :: 'k word) 0"
    using ok f by (auto simp: shift_ok_def full_word_def bit_ranges)
  then show ?thesis using f by (auto simp: top_empty_def full_word_def)
qed

definition ls_tail ::
  "nat \<Rightarrow> ('w::len word, 'k::len word) net_axis \<Rightarrow> ('w word, 'k word) net_axis list \<Rightarrow> ('w word, 'k word) net_axis list" where
  "ls_tail offs w ws = (if ws = [] \<and> \<not> top_empty offs w then [ls_word offs w zero_word True] else lsh_words offs w ws)"

lemma shift_back:
  "tidy (w # ws) \<Longrightarrow> shift_ok offs w \<Longrightarrow> carries offs p w \<Longrightarrow>
   (if ls_tail offs w ws = [] then [align_words offs p zero_word True] else rsh_words offs p (ls_tail offs w ws)) = w # ws"
proof (induction ws arbitrary: w p)
  case Nil
  then show ?case
    by (auto simp: ls_tail_def tidy_def align_end align_next rest_is_empty intro!: net_axis.equality)
next
  case (Cons v vs)
  have f: "full_word w" "\<not> na_last w" and tv: "tidy (v # vs)" using Cons.prems(1) by (auto simp: tidy_def)
  have okv: "shift_ok offs v" using Cons.prems(2) by (simp add: shift_ok_def)
  have bv: "bit (na_keep v) 0"
    using tv full_not_empty [OF okv] by (cases "vs = []") (auto simp: tidy_def clean_word_def)
  let ?x = "ls_word offs w v (top_empty offs v)"
  have tail: "ls_tail offs w (v # vs) = ?x # ls_tail offs v vs" by (simp add: ls_tail_def)
  have "w\<lparr>na_last := False\<rparr> = w" using f(2) by (intro net_axis.equality) simp_all
  then show ?case
    unfolding tail using Cons.IH [OF tv okv carries_ls_word [OF okv, of w "top_empty offs v"]]
      rest_not_empty [OF okv bv, of w "top_empty offs v"] Cons.prems(2,3)
    by (simp add: align_next split: if_splits)
qed

lemma shift_round_trip_words:
  fixes ws :: "('w::len word, 'k::len word) net_axis list"
  assumes "tidy ws" and "offs < LENGTH('k)" and "LENGTH('w) = 8 * LENGTH('k)"
  shows "rsh_packet offs (lsh_packet offs ws) = ws"
proof (cases ws)
  case (Cons w vs)
  show ?thesis
  proof (cases "offs = 0")
    case False
    have ok: "shift_ok offs w" using False assms by (simp add: shift_ok_def)
    have "lsh_packet offs ws = ls_first_word offs w (top_empty offs w) # ls_tail offs w vs"
      using False by (simp add: Cons ls_tail_def)
    then show ?thesis using shift_back [of w vs offs, OF _ ok carries_first [OF ok, of "top_empty offs w"]] assms(1) False
      by (simp add: Cons)
  qed (simp add: Cons)
qed (simp add: assms)

lemma marked_lsh_words:
  "tidy (w # ws) \<Longrightarrow> shift_ok offs w \<Longrightarrow> ls_tail offs w ws \<noteq> [] \<Longrightarrow> marked (ls_tail offs w ws)"
proof (induction ws arbitrary: w)
  case Nil
  then show ?case by (simp add: ls_tail_def ls_word_def split: if_splits)
next
  case (Cons v vs)
  have tv: "tidy (v # vs)" and okv: "shift_ok offs v" using Cons.prems by (auto simp: tidy_def shift_ok_def)
  have tail: "ls_tail offs w (v # vs) = ls_word offs w v (top_empty offs v) # ls_tail offs v vs" by (simp add: ls_tail_def)
  have "top_empty offs v \<longleftrightarrow> ls_tail offs v vs = []"
    using full_not_empty [OF okv] tv by (cases vs) (auto simp: ls_tail_def tidy_def)
  then show ?case unfolding tail using Cons.IH [OF tv okv] by (simp add: ls_word_def)
qed

lemma marked_lsh_packet:
  fixes ws :: "('w::len word, 'k::len word) net_axis list"
  assumes "tidy ws" and "offs < LENGTH('k)" and "LENGTH('w) = 8 * LENGTH('k)"
  shows "marked (lsh_packet offs ws)"
proof (cases ws)
  case (Cons w vs)
  show ?thesis
  proof (cases "offs = 0")
    case False
    then have ok: "shift_ok offs w" using assms by (simp add: shift_ok_def)
    have eq: "lsh_packet offs ws = ls_first_word offs w (top_empty offs w) # ls_tail offs w vs"
      using False by (simp add: Cons ls_tail_def)
    have "top_empty offs w \<longleftrightarrow> ls_tail offs w vs = []"
      using full_not_empty [OF ok] assms(1) Cons by (cases vs) (auto simp: ls_tail_def tidy_def)
    then show ?thesis unfolding eq using marked_lsh_words [OF _ ok, of vs] assms(1) Cons by (simp add: ls_first_word_def)
  qed (use assms(1) Cons in \<open>simp add: tidy_def\<close>)
qed (use assms(1) in \<open>simp add: tidy_def\<close>)

definition sh_start :: "bool \<Rightarrow> ('w, 'k) net_axis \<Rightarrow> ('w, 'k) net_axis list \<Rightarrow> ('w, 'k) shifter" where
  "sh_start b junk ws = \<lparr>sh_input = ws, sh_output = [], sh_remainder = False, sh_first = b, sh_prev = junk\<rparr>"

text \<open>Any sequence of packets that \<open>lshiftWordByOctet\<close> moves up by \<open>offs\<close> bytes and \<open>rshiftWordByOctet\<close>
  moves down again comes out word by word as it went in, at every width and for every offset below the
  width; the first module needs at most one call more per packet than the packet has words.\<close>

theorem shift_round_trip:
  fixes ps :: "('w::len word, 'k::len word) net_axis list list"
  assumes "list_all tidy ps" and "offs < LENGTH('k)" and "LENGTH('w) = 8 * LENGTH('k)"
  shows "\<exists>n \<le> sum_list (map (\<lambda>p. length p + 1) ps). \<exists>m.
    (let s = (lshiftWordByOctet offs ^^ n) (sh_start True junk (concat ps));
         t = (rshiftWordByOctet offs ^^ m) (sh_start (offs \<noteq> 0) junk (sh_output s))
     in sh_input s = [] \<and> sh_input t = [] \<and> sh_output t = concat ps)"
proof -
  have "list_all marked ps" using assms(1) by (auto simp: list_all_iff tidy_def)
  moreover have "sh_holds True ps [] (sh_start True junk (concat ps))" by (simp add: sh_holds_def sh_start_def)
  ultimately obtain n where
    n: "n \<le> sum_list (map (\<lambda>p. length p + 1) ps)"
      "sh_holds True [] (concat (map (lsh_packet offs) ps)) ((lshiftWordByOctet offs ^^ n) (sh_start True junk (concat ps)))"
    using lsh.all_packets [of ps "[]" _ offs] by auto
  have mk: "list_all marked (map (lsh_packet offs) ps)"
    using assms marked_lsh_packet by (auto simp: list_all_iff)
  have inverse: "map (rsh_packet offs) (map (lsh_packet offs) ps) = ps"
    using assms by (induction ps) (auto simp: shift_round_trip_words)
  have "sh_holds (offs \<noteq> 0) (map (lsh_packet offs) ps) []
      (sh_start (offs \<noteq> 0) junk (concat (map (lsh_packet offs) ps)))" by (simp add: sh_holds_def sh_start_def)
  from rsh.all_packets [OF this mk] obtain m where
    "sh_holds (offs \<noteq> 0) [] (concat ps)
      ((rshiftWordByOctet offs ^^ m) (sh_start (offs \<noteq> 0) junk (concat (map (lsh_packet offs) ps))))"
    unfolding inverse by auto
  with n show ?thesis
    by (intro exI [of _ n] exI [of _ m] conjI) (simp_all add: sh_holds_def Let_def)
qed

definition two_words :: "(64 word, 8 word) net_axis list" where
  "two_words = [\<lparr>na_data = 0x0102030405060708, na_keep = - 1, na_last = False\<rparr>,
     \<lparr>na_data = ucast (0xAB :: u8), na_keep = 1, na_last = True\<rparr>]"

lemma two_words_tidy: "tidy two_words"
proof -
  have "i < 8" if "bit (ucast (x :: u8) :: 64 word) i" for x i
    using that bit_imp_le_length [of x i] by (simp add: bit_ucast_iff)
  from this [of "0xAB"] have "bit (ucast (0xAB :: u8) :: 64 word) i \<Longrightarrow> i div 8 = 0" for i
    by (metis div_less)
  then have "\<forall>i < 64. bit (ucast (0xAB :: u8) :: 64 word) i \<longrightarrow> bit (1 :: 8 word) (i div 8)"
    by (auto simp del: unsigned_numeral)
  then show ?thesis by (simp add: tidy_def two_words_def full_word_def clean_word_def)
qed

theorem shift_round_trip_witness:
  "\<exists>n \<le> 3. \<exists>m. (let s = (lshiftWordByOctet 5 ^^ n) (sh_start True zero_word two_words);
         t = (rshiftWordByOctet 5 ^^ m) (sh_start True zero_word (sh_output s))
     in sh_input s = [] \<and> sh_input t = [] \<and> sh_output t = two_words)"
  using shift_round_trip [of "[two_words]" 5 zero_word] two_words_tidy by (simp add: two_words_def numeral_3_eq_3)

subsection \<open>Filter\<close>

definition fi_holds :: "(bool \<times> ('w, 'k) net_axis list) list \<Rightarrow> ('w, 'k) net_axis list \<Rightarrow> ('w, 'k) pkgFilter \<Rightarrow> bool" where
  "fi_holds ps out s \<longleftrightarrow> fi_valid s = map fst ps \<and> fi_input s = concat (map snd ps) \<and> fi_output s = out
     \<and> fi_state s = FI_VALID"

lemma fi_words:
  "marked ws \<Longrightarrow> fi_state s = (if v then FI_FWD else FI_DROP) \<Longrightarrow> fi_input s = ws @ q \<Longrightarrow>
   (pass_valid_pkg ^^ length ws) s
   = s\<lparr>fi_input := q, fi_output := fi_output s @ (if v then ws else []), fi_state := FI_VALID\<rparr>"
proof (induction ws arbitrary: s)
  case (Cons w ws)
  let ?s = "pass_valid_pkg s"
  have s: "?s = s\<lparr>fi_input := ws @ q, fi_output := fi_output s @ (if v then [w] else []),
      fi_state := if na_last w then FI_VALID else fi_state s\<rparr>"
    using Cons.prems by (auto simp: pass_valid_pkg_def split: if_splits)
  show ?case
  proof (cases "ws = []")
    case True
    then show ?thesis using s Cons.prems(1) by simp
  next
    case False
    then have "(pass_valid_pkg ^^ length ws) ?s
      = ?s\<lparr>fi_input := q, fi_output := fi_output ?s @ (if v then ws else []), fi_state := FI_VALID\<rparr>"
      using Cons.prems s by (intro Cons.IH) simp_all
    then show ?thesis using s by (simp add: run_Suc del: funpow.simps)
  qed
qed simp

interpretation fi: packet_machine pass_valid_pkg fi_holds "\<lambda>p. marked (snd p)" "\<lambda>p. if fst p then snd p else []"
  "\<lambda>p. length (snd p)"
proof
  fix p ps out and s :: "('w, 'k) pkgFilter"
  assume h: "fi_holds (p # ps) out s" and m: "marked (snd p)"
  then obtain w ws where p: "snd p = w # ws" by (cases "snd p") auto
  let ?s = "pass_valid_pkg s"
  have s1: "?s = s\<lparr>fi_valid := map fst ps, fi_input := ws @ concat (map snd ps),
      fi_output := out @ (if fst p then [w] else []),
      fi_state := if na_last w then FI_VALID else if fst p then FI_FWD else FI_DROP\<rparr>"
    using h p by (simp add: fi_holds_def pass_valid_pkg_def Let_def)
  show "\<exists>n \<le> length (snd p). fi_holds ps (out @ (if fst p then snd p else [])) ((pass_valid_pkg ^^ n) s)"
  proof (cases "ws = []")
    case True
    then show ?thesis using s1 h p m by (intro exI [of _ 1]) (simp add: fi_holds_def)
  next
    case False
    then have "(pass_valid_pkg ^^ length ws) ?s = ?s\<lparr>fi_input := concat (map snd ps),
        fi_output := fi_output ?s @ (if fst p then ws else []), fi_state := FI_VALID\<rparr>"
      using s1 m p by (intro fi_words) simp_all
    then show ?thesis using s1 h p
      by (intro exI [of _ "Suc (length ws)"]) (simp add: fi_holds_def run_Suc del: funpow.simps)
  qed
qed

subsection \<open>Splitter and merger\<close>

definition sp_holds :: "(bool \<times> ('w, 'k) net_axis list) list \<Rightarrow> (bool \<times> ('w, 'k) net_axis list) list \<Rightarrow> ('w, 'k) splitter \<Rightarrow> bool"
where
  "sp_holds ps out s \<longleftrightarrow> sp_dest s = map fst ps \<and> sp_input s = concat (map snd ps) \<and> sp_state s = MG_IDLE
     \<and> sp_out0 s = concat (map snd (filter (\<lambda>p. \<not> fst p) out)) \<and> sp_out1 s = concat (map snd (filter fst out))"

lemma sp_words:
  "marked ws \<Longrightarrow> sp_state s = (if d then MG_FWD1 else MG_FWD0) \<Longrightarrow> sp_input s = ws @ q \<Longrightarrow>
   (stream_pkg_splitter ^^ length ws) s
   = s\<lparr>sp_input := q, sp_out0 := sp_out0 s @ (if d then [] else ws), sp_out1 := sp_out1 s @ (if d then ws else []),
       sp_state := MG_IDLE\<rparr>"
proof (induction ws arbitrary: s)
  case (Cons w ws)
  let ?s = "stream_pkg_splitter s"
  have s: "?s = s\<lparr>sp_input := ws @ q, sp_out0 := sp_out0 s @ (if d then [] else [w]),
      sp_out1 := sp_out1 s @ (if d then [w] else []), sp_state := if na_last w then MG_IDLE else sp_state s\<rparr>"
    using Cons.prems by (auto simp: stream_pkg_splitter_def sp_word_def split: if_splits)
  show ?case
  proof (cases "ws = []")
    case True
    then show ?thesis using s Cons.prems(1) by simp
  next
    case False
    then have "(stream_pkg_splitter ^^ length ws) ?s = ?s\<lparr>sp_input := q, sp_out0 := sp_out0 ?s @ (if d then [] else ws),
        sp_out1 := sp_out1 ?s @ (if d then ws else []), sp_state := MG_IDLE\<rparr>"
      using Cons.prems s by (intro Cons.IH) simp_all
    then show ?thesis using s by (simp add: run_Suc del: funpow.simps)
  qed
qed simp

interpretation sp: packet_machine stream_pkg_splitter sp_holds "\<lambda>p. marked (snd p)" "\<lambda>p. [p]" "\<lambda>p. length (snd p)"
proof
  fix p ps out and s :: "('w, 'k) splitter"
  assume h: "sp_holds (p # ps) out s" and m: "marked (snd p)"
  then obtain w ws where p: "snd p = w # ws" by (cases "snd p") auto
  let ?s = "stream_pkg_splitter s"
  have s1: "?s = s\<lparr>sp_dest := map fst ps, sp_input := ws @ concat (map snd ps),
      sp_out0 := sp_out0 s @ (if fst p then [] else [w]), sp_out1 := sp_out1 s @ (if fst p then [w] else []),
      sp_state := if na_last w then MG_IDLE else if fst p then MG_FWD1 else MG_FWD0\<rparr>"
    using h p by (simp add: sp_holds_def stream_pkg_splitter_def sp_word_def Let_def)
  show "\<exists>n \<le> length (snd p). sp_holds ps (out @ [p]) ((stream_pkg_splitter ^^ n) s)"
  proof (cases "ws = []")
    case True
    then show ?thesis using s1 h p m by (intro exI [of _ 1]) (simp add: sp_holds_def)
  next
    case False
    then have "(stream_pkg_splitter ^^ length ws) ?s = ?s\<lparr>sp_input := concat (map snd ps),
        sp_out0 := sp_out0 ?s @ (if fst p then [] else ws), sp_out1 := sp_out1 ?s @ (if fst p then ws else []),
        sp_state := MG_IDLE\<rparr>"
      using s1 m p by (intro sp_words) simp_all
    then show ?thesis using s1 h p
      by (intro exI [of _ "Suc (length ws)"]) (simp add: sp_holds_def run_Suc del: funpow.simps)
  qed
qed

definition mp_holds :: "(bool \<times> ('w, 'k) net_axis list) list \<Rightarrow> ('w, 'k) net_axis list \<Rightarrow> ('w, 'k) net_axis originMerger \<Rightarrow> bool"
where
  "mp_holds ps out s \<longleftrightarrow> om_origin s = map fst ps \<and> om_state s = MG_IDLE \<and> mg_out s = out
     \<and> mg_in0 s = concat (map snd (filter (\<lambda>p. \<not> fst p) ps)) \<and> mg_in1 s = concat (map snd (filter fst ps))"

lemma mp_words:
  "marked ws \<Longrightarrow> om_state s = (if d then MG_FWD1 else MG_FWD0) \<Longrightarrow> (if d then mg_in1 s else mg_in0 s) = ws @ q \<Longrightarrow>
   (stream_pkg_merger ^^ length ws) s
   = s\<lparr>mg_in0 := if d then mg_in0 s else q, mg_in1 := if d then q else mg_in1 s, mg_out := mg_out s @ ws,
       om_state := MG_IDLE\<rparr>"
proof (induction ws arbitrary: s)
  case (Cons w ws)
  let ?s = "stream_pkg_merger s"
  have s: "?s = s\<lparr>mg_in0 := if d then mg_in0 s else ws @ q, mg_in1 := if d then ws @ q else mg_in1 s,
      mg_out := mg_out s @ [w], om_state := if na_last w then MG_IDLE else om_state s\<rparr>"
    using Cons.prems by (auto simp: stream_pkg_merger_def mg_take0_def mg_take1_def Let_def split: if_splits)
  show ?case
  proof (cases "ws = []")
    case True
    then show ?thesis using s Cons.prems(1) by simp
  next
    case False
    then have "(stream_pkg_merger ^^ length ws) ?s = ?s\<lparr>mg_in0 := if d then mg_in0 ?s else q,
        mg_in1 := if d then q else mg_in1 ?s, mg_out := mg_out ?s @ ws, om_state := MG_IDLE\<rparr>"
      using Cons.prems s by (intro Cons.IH) simp_all
    then show ?thesis using s by (simp add: run_Suc del: funpow.simps)
  qed
qed simp

interpretation mp: packet_machine stream_pkg_merger mp_holds "\<lambda>p. marked (snd p)" snd "\<lambda>p. length (snd p)"
proof
  fix p ps out and s :: "('w, 'k) net_axis originMerger"
  assume h: "mp_holds (p # ps) out s" and m: "marked (snd p)"
  then obtain w ws where p: "snd p = w # ws" by (cases "snd p") auto
  let ?s = "stream_pkg_merger s"
  have s1: "?s = s\<lparr>om_origin := map fst ps, mg_in0 := (if fst p then mg_in0 s else tl (mg_in0 s)),
      mg_in1 := (if fst p then tl (mg_in1 s) else mg_in1 s), mg_out := out @ [w],
      om_state := if na_last w then MG_IDLE else if fst p then MG_FWD1 else MG_FWD0\<rparr>"
    using h p by (auto simp: mp_holds_def stream_pkg_merger_def mg_take0_def mg_take1_def Let_def)
  show "\<exists>n \<le> length (snd p). mp_holds ps (out @ snd p) ((stream_pkg_merger ^^ n) s)"
  proof (cases "ws = []")
    case True
    then show ?thesis using s1 h p m by (intro exI [of _ 1]) (simp add: mp_holds_def)
  next
    case False
    let ?q = "if fst p then concat (map snd (filter fst ps)) else concat (map snd (filter (\<lambda>p. \<not> fst p) ps))"
    have "(stream_pkg_merger ^^ length ws) ?s = ?s\<lparr>mg_in0 := if fst p then mg_in0 ?s else ?q,
        mg_in1 := if fst p then ?q else mg_in1 ?s, mg_out := mg_out ?s @ ws, om_state := MG_IDLE\<rparr>"
      using s1 h m p False by (intro mp_words) (simp_all add: mp_holds_def)
    then show ?thesis using s1 h p
      by (intro exI [of _ "Suc (length ws)"]) (simp add: mp_holds_def run_Suc del: funpow.simps)
  qed
qed

lemma split_merge_identity:
  fixes ps :: "(bool \<times> ('w, 'k) net_axis list) list" and s :: "('w, 'k) splitter"
  assumes "list_all (\<lambda>p. marked (snd p)) ps" and "sp_holds ps [] s"
  shows "\<exists>n. sp_input ((stream_pkg_splitter ^^ n) s) = [] \<and>
    (\<exists>m. mg_out ((stream_pkg_merger ^^ m) \<lparr>mg_in0 = sp_out0 ((stream_pkg_splitter ^^ n) s),
        mg_in1 = sp_out1 ((stream_pkg_splitter ^^ n) s), mg_out = [], om_origin = map fst ps, om_state = MG_IDLE\<rparr>)
      = concat (map snd ps))"
proof -
  obtain n where n: "sp_holds [] ps ((stream_pkg_splitter ^^ n) s)"
    using sp.all_packets [OF assms(2,1)] by (auto simp: concat_map_singleton)
  let ?t = "\<lparr>mg_in0 = sp_out0 ((stream_pkg_splitter ^^ n) s), mg_in1 = sp_out1 ((stream_pkg_splitter ^^ n) s),
    mg_out = [], om_origin = map fst ps, om_state = MG_IDLE\<rparr>"
  have "mp_holds ps [] ?t" using n by (simp add: mp_holds_def sp_holds_def)
  then obtain m where "mp_holds [] (concat (map snd ps)) ((stream_pkg_merger ^^ m) ?t)"
    using mp.all_packets [OF _ assms(1)] by fastforce
  then show ?thesis using n by (intro exI [of _ n]) (auto simp: sp_holds_def mp_holds_def)
qed

text \<open>\<open>fair_pkg_merger\<close> continues a packet that it started from the first input with the second one.\<close>

lemma fair_pkg_merger_mixes:
  assumes "fp_state s = MG_IDLE" "merge_pref s" "mg_in0 s = w # ws" "\<not> na_last w" "mg_in1 s = v # vs"
  shows "mg_out (fair_pkg_merger (fair_pkg_merger s)) = mg_out s @ [w, v]"
  using assms by (simp add: fair_pkg_merger_def mg_take0_def mg_take1_def Let_def)

end
