(* ===== verification/Toe_Rx_Dropper.thy ===== *)
theory Toe_Rx_Dropper
  imports Toe_Rx_Window Axi_Packets
begin

text \<open>
  The modules between the state machine of the receive engine and the receive buffer: the payload of
  a segment passes \<open>rxPackageDropper\<close> by the decisions of the lookup and of the state machine, the
  application is notified by \<open>rxAppNotificationDelayer\<close> when the writes have been confirmed, events of
  both origins are merged by \<open>rxEventMerger\<close>. The decisions, write commands and notifications of a
  segment belong together.
\<close>

subsection \<open>Dropper\<close>

datatype tpfStateType = READ_DROP1 | READ_DROP2 | TPF_FWD | TPF_DROP

record ('w, 'k) rxDropper =
  dp_dataIn :: "('w, 'k) net_axis stream"
  dp_dropFifoIn1 :: "bool stream"
  dp_dropFifoIn2 :: "bool stream"
  dp_rxBufferDataOut :: "('w, 'k) net_axis stream"
  tpf_state :: tpfStateType

definition rxPackageDropper :: "('w, 'k) rxDropper \<Rightarrow> ('w, 'k) rxDropper" where
  "rxPackageDropper s =
     (case tpf_state s of
        READ_DROP1 \<Rightarrow>
          (case dp_dropFifoIn1 s of
             [] \<Rightarrow> s
           | d # q \<Rightarrow> s\<lparr>dp_dropFifoIn1 := q, tpf_state := if d then TPF_DROP else READ_DROP2\<rparr>)
      | READ_DROP2 \<Rightarrow>
          (case dp_dropFifoIn2 s of
             [] \<Rightarrow> s
           | d # q \<Rightarrow> s\<lparr>dp_dropFifoIn2 := q, tpf_state := if d then TPF_DROP else TPF_FWD\<rparr>)
      | TPF_FWD \<Rightarrow>
          (case dp_dataIn s of
             [] \<Rightarrow> s
           | w # q \<Rightarrow> s\<lparr>dp_dataIn := q, dp_rxBufferDataOut := dp_rxBufferDataOut s @ [w],
                       tpf_state := if na_last w then READ_DROP1 else TPF_FWD\<rparr>)
      | TPF_DROP \<Rightarrow>
          (case dp_dataIn s of
             [] \<Rightarrow> s
           | w # q \<Rightarrow> s\<lparr>dp_dataIn := q, tpf_state := if na_last w then READ_DROP1 else TPF_DROP\<rparr>))"

text \<open>A packet, the decision of the lookup, and the one of the state machine, which is only asked if the
  lookup passes the packet.\<close>

type_synonym ('w, 'k) decided = "bool \<times> bool \<times> ('w, 'k) net_axis list"

definition dp_holds :: "('w, 'k) decided list \<Rightarrow> ('w, 'k) net_axis list \<Rightarrow> ('w, 'k) rxDropper \<Rightarrow> bool" where
  "dp_holds ps out s \<longleftrightarrow> tpf_state s = READ_DROP1 \<and> dp_dropFifoIn1 s = map fst ps
     \<and> dp_dropFifoIn2 s = map (\<lambda>p. fst (snd p)) (filter (\<lambda>p. \<not> fst p) ps)
     \<and> dp_dataIn s = concat (map (\<lambda>p. snd (snd p)) ps) \<and> dp_rxBufferDataOut s = out"

definition dp_emit :: "('w, 'k) decided \<Rightarrow> ('w, 'k) net_axis list" where
  "dp_emit p = (if fst p \<or> fst (snd p) then [] else snd (snd p))"

lemma dp_words:
  "marked ws \<Longrightarrow> tpf_state s = (if d then TPF_DROP else TPF_FWD) \<Longrightarrow> dp_dataIn s = ws @ q \<Longrightarrow>
   (rxPackageDropper ^^ length ws) s
   = s\<lparr>dp_dataIn := q, dp_rxBufferDataOut := dp_rxBufferDataOut s @ (if d then [] else ws), tpf_state := READ_DROP1\<rparr>"
proof (induction ws arbitrary: s)
  case (Cons w ws)
  let ?s = "rxPackageDropper s"
  have s: "?s = s\<lparr>dp_dataIn := ws @ q, dp_rxBufferDataOut := dp_rxBufferDataOut s @ (if d then [] else [w]),
      tpf_state := if na_last w then READ_DROP1 else tpf_state s\<rparr>"
    using Cons.prems by (auto simp: rxPackageDropper_def split: if_splits)
  show ?case
  proof (cases "ws = []")
    case True
    then show ?thesis using s Cons.prems(1) by simp
  next
    case False
    then have "(rxPackageDropper ^^ length ws) ?s = ?s\<lparr>dp_dataIn := q,
        dp_rxBufferDataOut := dp_rxBufferDataOut ?s @ (if d then [] else ws), tpf_state := READ_DROP1\<rparr>"
      using Cons.prems s by (intro Cons.IH) simp_all
    then show ?thesis using s by (simp add: run_Suc del: funpow.simps)
  qed
qed simp

interpretation dp: packet_machine rxPackageDropper dp_holds "\<lambda>p. marked (snd (snd p))" dp_emit "\<lambda>p. length (snd (snd p)) + 2"
proof
  fix p ps out and s :: "('w, 'k) rxDropper"
  assume h: "dp_holds (p # ps) out s" and m: "marked (snd (snd p))"
  obtain d1 d2 ws where p: "p = (d1, d2, ws)" by (metis prod_cases3)
  let ?q = "concat (map (\<lambda>p. snd (snd p)) ps)"
  show "\<exists>n \<le> length (snd (snd p)) + 2. dp_holds ps (out @ dp_emit p) ((rxPackageDropper ^^ n) s)"
  proof (cases d1)
    case True
    let ?s = "rxPackageDropper s"
    have s1: "?s = s\<lparr>dp_dropFifoIn1 := map fst ps, tpf_state := TPF_DROP\<rparr>"
      using h p True by (simp add: dp_holds_def rxPackageDropper_def)
    have "(rxPackageDropper ^^ length ws) ?s = ?s\<lparr>dp_dataIn := ?q, dp_rxBufferDataOut := dp_rxBufferDataOut ?s @ (if True then [] else ws),
        tpf_state := READ_DROP1\<rparr>"
      using m p h s1 by (intro dp_words) (simp_all add: dp_holds_def)
    then show ?thesis using s1 h p True
      by (intro exI [of _ "Suc (length ws)"]) (simp add: dp_holds_def dp_emit_def run_Suc del: funpow.simps)
  next
    case False
    let ?s = "rxPackageDropper (rxPackageDropper s)"
    have s1: "?s = s\<lparr>dp_dropFifoIn1 := map fst ps, dp_dropFifoIn2 := map (\<lambda>p. fst (snd p)) (filter (\<lambda>p. \<not> fst p) ps),
        tpf_state := if d2 then TPF_DROP else TPF_FWD\<rparr>"
      using h p False by (simp add: dp_holds_def rxPackageDropper_def)
    have "(rxPackageDropper ^^ length ws) ?s = ?s\<lparr>dp_dataIn := ?q, dp_rxBufferDataOut := dp_rxBufferDataOut ?s @ (if d2 then [] else ws),
        tpf_state := READ_DROP1\<rparr>"
      using m p h s1 by (intro dp_words) (simp_all add: dp_holds_def)
    then show ?thesis using s1 h p False
      by (intro exI [of _ "Suc (Suc (length ws))"]) (simp add: dp_holds_def dp_emit_def run_Suc del: funpow.simps)
  qed
qed

subsection \<open>Notifications\<close>

record rxDelayer =
  nd_rxWriteStatusIn :: "mmStatus stream"
  nd_internalNotificationFifoIn :: "appNotification stream"
  nd_notificationOut :: "appNotification stream"
  nd_doubleAccess :: "bool stream"
  rand_notificationBuffer :: "appNotification stream"
  rxAppNotificationDoubleAccessFlag :: bool
  rand_fifoCount :: "5 word"
  rxAppNotificationStatus1 :: mmStatus
  nd_rxAppNotification :: appNotification

definition nd_emit :: "bool \<Rightarrow> appNotification \<Rightarrow> rxDelayer \<Rightarrow> rxDelayer" where
  "nd_emit okay n s = (if okay \<and> an_length n \<noteq> 0 then s\<lparr>nd_notificationOut := nd_notificationOut s @ [n]\<rparr> else s)"

definition rxAppNotificationDelayer :: "rxDelayer \<Rightarrow> rxDelayer" where
  "rxAppNotificationDelayer s =
     (if rxAppNotificationDoubleAccessFlag s then
        (case nd_rxWriteStatusIn s of
           [] \<Rightarrow> s
         | st2 # q \<Rightarrow>
             nd_emit (ms_okay (rxAppNotificationStatus1 s) \<and> ms_okay st2) (nd_rxAppNotification s)
               (s\<lparr>nd_rxWriteStatusIn := q, rand_fifoCount := rand_fifoCount s - 1,
                  rxAppNotificationDoubleAccessFlag := False\<rparr>))
      else if nd_rxWriteStatusIn s \<noteq> [] \<and> rand_notificationBuffer s \<noteq> [] \<and> nd_doubleAccess s \<noteq> [] then
        (let st1 = hd (nd_rxWriteStatusIn s); n = hd (rand_notificationBuffer s); dbl = hd (nd_doubleAccess s);
             s1 = s\<lparr>nd_rxWriteStatusIn := tl (nd_rxWriteStatusIn s), rxAppNotificationStatus1 := st1,
                    rand_notificationBuffer := tl (rand_notificationBuffer s), nd_rxAppNotification := n,
                    nd_doubleAccess := tl (nd_doubleAccess s), rxAppNotificationDoubleAccessFlag := dbl\<rparr>
         in if \<not> dbl then nd_emit (ms_okay st1) n (s1\<lparr>rand_fifoCount := rand_fifoCount s - 1\<rparr>) else s1)
      else if nd_internalNotificationFifoIn s \<noteq> [] \<and> rand_fifoCount s < 31 then
        (let n = hd (nd_internalNotificationFifoIn s);
             s1 = s\<lparr>nd_internalNotificationFifoIn := tl (nd_internalNotificationFifoIn s), nd_rxAppNotification := n\<rparr>
         in if an_closed n \<and> an_length n = 0
            then s1\<lparr>nd_notificationOut := nd_notificationOut s @ [n]\<rparr>
            else s1\<lparr>rand_notificationBuffer := rand_notificationBuffer s @ [n], rand_fifoCount := rand_fifoCount s + 1\<rparr>)
      else s)"

text \<open>A notification that waits, and the confirmations of its one or two writes.\<close>

type_synonym confirmed = "appNotification \<times> mmStatus \<times> mmStatus option"

definition nd_holds :: "confirmed list \<Rightarrow> appNotification list \<Rightarrow> rxDelayer \<Rightarrow> bool" where
  "nd_holds ps out s \<longleftrightarrow> \<not> rxAppNotificationDoubleAccessFlag s \<and> rand_notificationBuffer s = map fst ps
     \<and> nd_doubleAccess s = map (\<lambda>p. snd (snd p) \<noteq> None) ps
     \<and> nd_rxWriteStatusIn s = concat (map (\<lambda>p. fst (snd p) # (case snd (snd p) of None \<Rightarrow> [] | Some st \<Rightarrow> [st])) ps)
     \<and> nd_notificationOut s = out"

definition nd_emits :: "confirmed \<Rightarrow> appNotification list" where
  "nd_emits p = (if ms_okay (fst (snd p)) \<and> (case snd (snd p) of None \<Rightarrow> True | Some st \<Rightarrow> ms_okay st) \<and> an_length (fst p) \<noteq> 0
     then [fst p] else [])"

interpretation nd: packet_machine rxAppNotificationDelayer nd_holds "\<lambda>p. True" nd_emits "\<lambda>p. 2"
proof
  fix p ps out and s :: rxDelayer
  assume h: "nd_holds (p # ps) out s"
  obtain n st1 st2 where p: "p = (n, st1, st2)" by (metis prod_cases3)
  show "\<exists>k \<le> 2. nd_holds ps (out @ nd_emits p) ((rxAppNotificationDelayer ^^ k) s)"
  proof (cases st2)
    case None
    then show ?thesis using h p
      by (intro exI [of _ 1]) (simp add: nd_holds_def nd_emits_def rxAppNotificationDelayer_def nd_emit_def Let_def)
  next
    case (Some st)
    then show ?thesis using h p
      by (intro exI [of _ 2])
        (simp add: numeral_2_eq_2 nd_holds_def nd_emits_def rxAppNotificationDelayer_def nd_emit_def Let_def)
  qed
qed

subsection \<open>Events\<close>

record rxEvMerger =
  em_in1 :: "extendedEvent stream"
  em_in2 :: "event stream"
  em_out :: "extendedEvent stream"

definition rxEventMerger :: "rxEvMerger \<Rightarrow> rxEvMerger" where
  "rxEventMerger s =
     (case em_in1 s of
        e # q \<Rightarrow> s\<lparr>em_in1 := q, em_out := em_out s @ [e]\<rparr>
      | [] \<Rightarrow> (case em_in2 s of e # q \<Rightarrow> s\<lparr>em_in2 := q, em_out := em_out s @ [ext_event e]\<rparr> | [] \<Rightarrow> s))"

subsection \<open>One decision, one command, one notification\<close>

text \<open>Payload that continues behind a gap: it starts at the next expected byte and reaches into bytes that have
  arrived already. The code has no branch for it.\<close>

definition overlaps_gap :: "rxEngineMetaData \<Rightarrow> rxSarEntry \<Rightarrow> bool" where
  "overlaps_gap m rx \<longleftrightarrow> re_gap rx \<and> me_seqNumb m = re_recvd rx \<and> \<not> after_head m rx \<and> unat (re_offset rx) < seg_end m"

definition decided :: "rxFsmMetaData \<Rightarrow> bool \<Rightarrow> rxFsm \<Rightarrow> rxFsm \<Rightarrow> bool" where
  "decided fm mem s s' \<longleftrightarrow>
     (\<exists>d n. f_dropDataFifo s' = f_dropDataFifo s @ [d]
        \<and> f_rxBufferWriteCmd s' = f_rxBufferWriteCmd s
            @ (if mem \<and> \<not> d then [mk_mmCmd (pkgAddr (fm_sessionID fm) (me_seqNumb (fm_meta fm))) (me_length (fm_meta fm))] else [])
        \<and> f_notification s' = f_notification s @ (if d then [] else [n]) \<and> an_sessionID n = fm_sessionID fm)"

lemma mk_notification_id [simp]: "an_sessionID (mk_notification i len a p b) = i"
  by (simp add: mk_notification_def)

lemma decidedI:
  assumes "f_dropDataFifo s' = f_dropDataFifo s @ [d]"
    and "f_rxBufferWriteCmd s' = f_rxBufferWriteCmd s
      @ (if mem \<and> \<not> d then [mk_mmCmd (pkgAddr (fm_sessionID fm) (me_seqNumb (fm_meta fm))) (me_length (fm_meta fm))] else [])"
    and "f_notification s' = f_notification s @ (if d then [] else [mk_notification (fm_sessionID fm) len a p b])"
  shows "decided fm mem s s'"
  using assms unfolding decided_def by (intro exI [of _ d] exI [of _ "mk_notification (fm_sessionID fm) len a p b"]) simp

lemma decided_store: "decided fm True s (store_segment fm q k s)"
  by (rule decidedI [where d = False and len = k and a = "fm_srcIpAddress fm" and p = "fm_dstIpPort fm" and b = False])
    (simp_all add: store_segment_def Let_def)

lemma decided_drop: "decided fm mem s (wr_drop True s)"
  by (rule decidedI [where d = True]) simp_all

lemma decided_ooo:
  "me_length (fm_meta fm) \<noteq> 0 \<Longrightarrow> \<not> overlaps_gap (fm_meta fm) rx \<Longrightarrow> decided fm True s (fsm_payload_ooo fm rx s)"
  unfolding fsm_payload_ooo_def Let_def
  by (auto simp: decided_store decided_drop overlaps_gap_def in_order_def opens_gap_def)

lemma decided_bypass: "me_length (fm_meta fm) \<noteq> 0 \<Longrightarrow> decided fm False s (fsm_payload_bypass room fm rx s)"
proof (cases "me_seqNumb (fm_meta fm) = re_recvd rx \<and> room")
  case True
  assume "me_length (fm_meta fm) \<noteq> 0"
  with True show ?thesis
    by (intro decidedI [where d = False and len = "me_length (fm_meta fm)" and a = "fm_srcIpAddress fm"
          and p = "fm_dstIpPort fm" and b = False]) (simp_all add: fsm_payload_bypass_def Let_def)
next
  case False
  assume "me_length (fm_meta fm) \<noteq> 0"
  with False show ?thesis by (auto simp: fsm_payload_bypass_def Let_def decided_drop)
qed

lemma outputs_frame [simp]:
  "f_dropDataFifo (fsm_ack_window c fm tx s) = f_dropDataFifo s"
  "f_rxBufferWriteCmd (fsm_ack_window c fm tx s) = f_rxBufferWriteCmd s"
  "f_notification (fsm_ack_window c fm tx s) = f_notification s"
  "f_dropDataFifo (fsm_ack_event c room fm rx tx s) = f_dropDataFifo s"
  "f_rxBufferWriteCmd (fsm_ack_event c room fm rx tx s) = f_rxBufferWriteCmd s"
  "f_notification (fsm_ack_event c room fm rx tx s) = f_notification s"
  "f_dropDataFifo (fsm_ack_state fm st tx s) = f_dropDataFifo s"
  "f_rxBufferWriteCmd (fsm_ack_state fm st tx s) = f_rxBufferWriteCmd s"
  "f_notification (fsm_ack_state fm st tx s) = f_notification s"
  "f_dropDataFifo (fsm_fin_state fm st tx s) = f_dropDataFifo s"
  "f_rxBufferWriteCmd (fsm_fin_state fm st tx s) = f_rxBufferWriteCmd s"
  "f_notification (fsm_fin_state fm st tx s) = f_notification s"
  by (simp_all add: fsm_ack_window_def fsm_ack_event_def fsm_ack_state_def fsm_fin_state_def Let_def split: sessionState.split)

lemma decided_frame:
  "f_dropDataFifo s1 = f_dropDataFifo s \<Longrightarrow> f_rxBufferWriteCmd s1 = f_rxBufferWriteCmd s \<Longrightarrow> f_notification s1 = f_notification s \<Longrightarrow>
   f_dropDataFifo s2 = f_dropDataFifo s' \<Longrightarrow> f_rxBufferWriteCmd s2 = f_rxBufferWriteCmd s' \<Longrightarrow> f_notification s2 = f_notification s' \<Longrightarrow>
   decided fm mem s1 s' = decided fm mem s s2"
  by (simp add: decided_def)

lemma decided_ack:
  assumes "me_length (fm_meta fm) \<noteq> 0" "RX_DDR_BYPASS c \<or> \<not> overlaps_gap (fm_meta fm) rx"
  shows "decided fm (\<not> RX_DDR_BYPASS c) s (fsm_ack c room fm st rx tx s)"
proof (cases "ack_states st")
  case False
  then show ?thesis using assms(1)
    by (intro decidedI [where d = True]) (simp_all add: fsm_ack_def Let_def)
next
  case True
  let ?s = "fsm_ack_window c fm tx (wr_clearRetransmit (fsm_timer_update fm tx) s)"
  show ?thesis
  proof (cases "RX_DDR_BYPASS c")
    case b: True
    have "decided fm False ?s (fsm_payload_bypass room fm rx ?s)" using assms(1) by (rule decided_bypass)
    then show ?thesis using True b by (subst (asm) decided_frame) (simp_all add: fsm_ack_def Let_def)
  next
    case b: False
    have "decided fm True ?s (fsm_payload_ooo fm rx ?s)" using assms b by (intro decided_ooo) simp_all
    then show ?thesis using True b by (subst (asm) decided_frame) (simp_all add: fsm_ack_def Let_def)
  qed
qed

lemma decided_fin:
  assumes "me_length (fm_meta fm) \<noteq> 0"
  shows "decided fm (\<not> RX_DDR_BYPASS c) s (fsm_fin c fm st rx tx s)"
proof (cases "fin_accepted (fm_meta fm) st rx")
  case True
  then show ?thesis using assms
    by (intro decidedI [where d = False and len = "me_length (fm_meta fm)" and a = "fm_srcIpAddress fm"
          and p = "fm_dstIpPort fm" and b = True])
      (simp_all add: fsm_fin_def fsm_fin_payload_def Let_def)
next
  case False
  then show ?thesis using assms by (intro decidedI [where d = True]) (simp_all add: fsm_fin_def Let_def)
qed

text \<open>C18. The payload of a segment with \<open>ACK\<close>, or \<open>FIN\<close> and \<open>ACK\<close>, is decided exactly once, and the decision agrees with
  what the memory and the application are told: one write command for the payload (when there is a memory) and
  one notification if it is passed, none if it is dropped. Only payload that overlaps the far side of a gap is
  excepted.\<close>

theorem payload_decided_once:
  assumes "fsm_state s = FSM_TRANSITION" "fsm_ready s" "me_length (fm_meta (fsm_meta s)) \<noteq> 0"
    and "control_bits (fm_meta (fsm_meta s)) = 1 \<or> control_bits (fm_meta (fsm_meta s)) = 5"
    and "RX_DDR_BYPASS c \<or> \<not> overlaps_gap (fm_meta (fsm_meta s)) (hd (f_rxSar_rsp s))"
  shows "decided (fsm_meta s) (\<not> RX_DDR_BYPASS c) s (rxTcpFSM c maxCount count junk s)"
proof -
  let ?s = "s\<lparr>fsm_state := FSM_LOAD, fsm_txSarRequest := False, f_stateTable_rsp := tl (f_stateTable_rsp s),
    f_rxSar_rsp := tl (f_rxSar_rsp s), f_txSar_rsp := tl (f_txSar_rsp s)\<rparr>"
  have frame: "decided fm mem s s' = decided fm mem ?s s'" for fm mem s' by (simp add: decided_def)
  show ?thesis
    using assms decided_ack [of "fsm_meta s" c "hd (f_rxSar_rsp s)" ?s] decided_fin [of "fsm_meta s" c ?s]
    unfolding frame by (auto simp: rxTcpFSM_def fsm_segment_def Let_def)
qed

text \<open>A segment of five bytes for connection 3.\<close>

definition data_fsm :: "bool \<Rightarrow> bool \<Rightarrow> rxFsm" where
  "data_fsm ack rst = rxFsm_init\<lparr>f_stateTable_rsp := [ESTABLISHED],
     f_rxSar_rsp := [\<lparr>re_recvd = 100, re_appd = 100, re_win_shift = 2, re_head = 100, re_offset = 0, re_gap = False\<rparr>],
     f_txSar_rsp := [empty_rxTxSarReply], fsm_state := FSM_TRANSITION,
     fsm_meta := empty_meta\<lparr>fm_sessionID := 3, fm_meta := (fm_meta empty_meta)
       \<lparr>me_seqNumb := 100, me_length := 5, me_ack := ack, me_rst := rst\<rparr>\<rparr>\<rparr>"

lemma data_fsm_fields:
  "fsm_state (data_fsm a r) = FSM_TRANSITION" "fsm_ready (data_fsm a r)" "me_length (fm_meta (fsm_meta (data_fsm a r))) = 5"
  "control_bits (fm_meta (fsm_meta (data_fsm a r))) = of_bool a + 8 * of_bool r" "\<not> re_gap (hd (f_rxSar_rsp (data_fsm a r)))"
  "f_dropDataFifo (data_fsm a r) = []" "f_rxBufferWriteCmd (data_fsm a r) = []" "f_notification (data_fsm a r) = []"
  by (simp_all add: data_fsm_def rxFsm_init_def fsm_ready_def control_bits_def empty_meta_def)

theorem payload_decided_once_witness:
  "length (f_dropDataFifo (rxTcpFSM mem_cfg 0 0 empty_rxTxSarReply (data_fsm True False))) = 1
   \<and> length (f_rxBufferWriteCmd (rxTcpFSM mem_cfg 0 0 empty_rxTxSarReply (data_fsm True False)))
     = length (f_notification (rxTcpFSM mem_cfg 0 0 empty_rxTxSarReply (data_fsm True False)))"
proof -
  have "\<not> overlaps_gap (fm_meta (fsm_meta (data_fsm True False))) (hd (f_rxSar_rsp (data_fsm True False)))"
    using data_fsm_fields(5) by (simp add: overlaps_gap_def)
  then have "decided (fsm_meta (data_fsm True False)) True (data_fsm True False)
      (rxTcpFSM mem_cfg 0 0 empty_rxTxSarReply (data_fsm True False))"
    using payload_decided_once [of "data_fsm True False" mem_cfg 0 0 empty_rxTxSarReply]
    by (simp add: data_fsm_fields mem_cfg_def)
  then show ?thesis by (auto simp: decided_def data_fsm_fields)
qed

text \<open>Every other combination of flags leaves the payload without a decision.\<close>

lemma other_flags_undecided:
  "control_bits (fm_meta fm) \<noteq> 1 \<Longrightarrow> control_bits (fm_meta fm) \<noteq> 5 \<Longrightarrow>
   f_dropDataFifo (fsm_segment c room junk fm s) = f_dropDataFifo s"
  by (simp add: fsm_segment_def fsm_syn_def fsm_syn_ack_def fsm_other_def Let_def)

lemma overlap_undecided:
  "overlaps_gap (fm_meta fm) rx \<Longrightarrow> f_dropDataFifo (fsm_payload_ooo fm rx s) = f_dropDataFifo s"
  by (auto simp: fsm_payload_ooo_def overlaps_gap_def in_order_def opens_gap_def Let_def)

text \<open>Such payload takes the decision of the payload behind it: when the lookup passes a segment whose flags are
  neither \<open>ACK\<close> nor \<open>FIN\<close> and \<open>ACK\<close>, for example a reset with data, and then a segment with payload that the
  state machine accepts, the bytes of the first one are written to the memory in the place of the second one's,
  and the dropper stays with the second payload until another decision comes.\<close>

theorem undecided_payload_takes_next_decision:
  assumes "fsm_state s = FSM_TRANSITION" "fsm_ready s"
    and "control_bits (fm_meta (fsm_meta s)) \<noteq> 1" "control_bits (fm_meta (fsm_meta s)) \<noteq> 5"
    and "dp_dropFifoIn1 d = [False, False]" "dp_dropFifoIn2 d = f_dropDataFifo (rxTcpFSM c maxCount count junk s) @ [False]"
    and "f_dropDataFifo s = []" "tpf_state d = READ_DROP1" "dp_dataIn d = ws @ vs" "marked ws"
  shows "\<exists>n. (rxPackageDropper ^^ n) d
    = d\<lparr>dp_dropFifoIn1 := [], dp_dropFifoIn2 := [], dp_dataIn := vs, dp_rxBufferDataOut := dp_rxBufferDataOut d @ ws,
        tpf_state := READ_DROP2\<rparr>"
proof -
  have "f_dropDataFifo (rxTcpFSM c maxCount count junk s) = []"
    using assms(1-4,7) by (simp add: rxTcpFSM_def other_flags_undecided)
  with assms(6) have d2: "dp_dropFifoIn2 d = [False]" by simp
  define d' where "d' = rxPackageDropper (rxPackageDropper d)"
  have d: "d' = d\<lparr>dp_dropFifoIn1 := [False], dp_dropFifoIn2 := [], tpf_state := TPF_FWD\<rparr>"
    unfolding d'_def using assms(5,8) d2 by (simp add: rxPackageDropper_def)
  have "(rxPackageDropper ^^ length ws) d' = d'\<lparr>dp_dataIn := vs, dp_rxBufferDataOut := dp_rxBufferDataOut d' @ (if False then [] else ws),
      tpf_state := READ_DROP1\<rparr>"
    by (rule dp_words [OF assms(10)]) (simp_all add: d assms(9))
  then have "rxPackageDropper ((rxPackageDropper ^^ length ws) d')
    = d\<lparr>dp_dropFifoIn1 := [], dp_dropFifoIn2 := [], dp_dataIn := vs, dp_rxBufferDataOut := dp_rxBufferDataOut d @ ws,
        tpf_state := READ_DROP2\<rparr>"
    by (simp add: d rxPackageDropper_def)
  moreover have "rxPackageDropper ((rxPackageDropper ^^ length ws) d') = (rxPackageDropper ^^ (length ws + 3)) d"
    unfolding d'_def by (simp add: funpow_swap1 numeral_3_eq_3)
  ultimately show ?thesis by metis
qed

definition two_segments :: "(64 word, 8 word) rxDropper" where
  "two_segments = \<lparr>dp_dataIn = two_words @ two_words, dp_dropFifoIn1 = [False, False], dp_dropFifoIn2 = [False],
     dp_rxBufferDataOut = [], tpf_state = READ_DROP1\<rparr>"

theorem undecided_payload_takes_next_decision_witness:
  "\<exists>n. (rxPackageDropper ^^ n) two_segments
    = two_segments\<lparr>dp_dropFifoIn1 := [], dp_dropFifoIn2 := [], dp_dataIn := two_words, dp_rxBufferDataOut := two_words,
        tpf_state := READ_DROP2\<rparr>"
proof -
  have "f_dropDataFifo (rxTcpFSM mem_cfg 0 0 empty_rxTxSarReply (data_fsm False True)) = []"
    using data_fsm_fields [of False True] by (simp add: rxTcpFSM_def other_flags_undecided)
  then show ?thesis
    using undecided_payload_takes_next_decision [of "data_fsm False True" two_segments mem_cfg 0 0 empty_rxTxSarReply
        two_words two_words] two_words_tidy
    by (simp add: data_fsm_fields two_segments_def tidy_def)
qed

end
