(* ===== verification/Toe_Rx_Front.thy ===== *)
theory Toe_Rx_Front
  imports Toe_Rx_Fsm Axi_Packets
begin

text \<open>
  The front of the TCP receive engine: the options of a header are parsed or the parser hangs, every
  segment is handed to the state machine, refused or answered with a reset, and the congestion window
  stays within its bounds.
\<close>

subsection \<open>Options\<close>

definition opt_len :: "320 word \<Rightarrow> u8" where
  "opt_len f = (if opt_kind f = 1 then 1 else opt_length f)"

definition opt_ends :: "u4 \<Rightarrow> 320 word \<Rightarrow> bool" where
  "opt_ends d f \<longleftrightarrow> opt_kind f = 0 \<or> opt_kind f = 3 \<or> (opt_kind f \<noteq> 1 \<and> ucast d = opt_length f)"

lemma opt_end_step:
  assumes "op_state s = OPT_PARSE" "opt_ends (op_dataOffset s) (op_fields s)"
  shows "op_state (parse_optional_header_fields s) = OPT_IDLE"
    and "op_windowScaleOut (parse_optional_header_fields s)
      = op_windowScaleOut s @ [if opt_kind (op_fields s) = 3 then opt_shift (op_fields s) else 0]"
  using assms by (auto simp: parse_optional_header_fields_def opt_ends_def Let_def)

lemma opt_next_step:
  assumes "op_state s = OPT_PARSE" "\<not> opt_ends (op_dataOffset s) (op_fields s)"
  shows "parse_optional_header_fields s = s\<lparr>op_dataOffset := op_dataOffset s - ucast (opt_len (op_fields s)),
    op_fields := drop_bit (unat (opt_len (op_fields s)) * 8) (op_fields s)\<rparr>"
  using assms by (auto simp: parse_optional_header_fields_def opt_ends_def opt_len_def Let_def)

lemma opt_progress:
  "op_state s = OPT_PARSE \<Longrightarrow> drop_bit (8 * m) (op_fields s) = 0 \<Longrightarrow>
   (\<exists>n \<le> m + 1. \<exists>w. op_state ((parse_optional_header_fields ^^ n) s) = OPT_IDLE
      \<and> op_windowScaleOut ((parse_optional_header_fields ^^ n) s) = op_windowScaleOut s @ [w])
   \<or> (\<exists>n \<le> m. let t = (parse_optional_header_fields ^^ n) s
        in parse_optional_header_fields t = t \<and> op_state t = OPT_PARSE \<and> op_windowScaleOut t = op_windowScaleOut s)"
proof (induction m arbitrary: s)
  case 0
  then have "opt_ends (op_dataOffset s) (op_fields s)" by (simp add: opt_ends_def opt_kind_def)
  then show ?case using opt_end_step [OF 0(1)] by (intro disjI1 exI [of _ 1]) auto
next
  case (Suc m)
  show ?case
  proof (cases "opt_ends (op_dataOffset s) (op_fields s)")
    case True
    then show ?thesis using opt_end_step [OF Suc.prems(1)] by (intro disjI1 exI [of _ 1]) auto
  next
    case False
    note st = opt_next_step [OF Suc.prems(1) False]
    let ?t = "parse_optional_header_fields s"
    show ?thesis
    proof (cases "opt_len (op_fields s) = 0")
      case True
      then have "?t = s" unfolding st by simp
      then show ?thesis using Suc.prems(1) by (intro disjI2 exI [of _ 0]) simp
    next
      case nz: False
      then have "1 \<le> unat (opt_len (op_fields s))" by (simp add: unat_gt_0 Suc_leI)
      moreover have "drop_bit (8 * m) (op_fields ?t) = drop_bit (8 * m + unat (opt_len (op_fields s)) * 8) (op_fields s)"
        unfolding st by simp
      ultimately have "drop_bit (8 * m) (op_fields ?t)
          = drop_bit ((unat (opt_len (op_fields s)) - 1) * 8) (drop_bit (8 * Suc m) (op_fields s))"
        by (simp add: algebra_simps)
      then have z: "drop_bit (8 * m) (op_fields ?t) = 0" by (simp only: Suc.prems(2) drop_bit_of_0)
      have pt: "op_state ?t = OPT_PARSE" "op_windowScaleOut ?t = op_windowScaleOut s" unfolding st using Suc.prems(1) by simp_all
      from Suc.IH [OF pt(1) z] show ?thesis
      proof
        assume "\<exists>n \<le> m + 1. \<exists>w. op_state ((parse_optional_header_fields ^^ n) ?t) = OPT_IDLE
          \<and> op_windowScaleOut ((parse_optional_header_fields ^^ n) ?t) = op_windowScaleOut ?t @ [w]"
        then obtain n w where "n \<le> m + 1" "op_state ((parse_optional_header_fields ^^ n) ?t) = OPT_IDLE"
          "op_windowScaleOut ((parse_optional_header_fields ^^ n) ?t) = op_windowScaleOut ?t @ [w]" by blast
        then show ?thesis using pt
          by (intro disjI1 exI [of _ "Suc n"]) (auto simp: run_Suc simp del: funpow.simps)
      next
        assume "\<exists>n \<le> m. let t = (parse_optional_header_fields ^^ n) ?t
          in parse_optional_header_fields t = t \<and> op_state t = OPT_PARSE \<and> op_windowScaleOut t = op_windowScaleOut ?t"
        then obtain n where "n \<le> m" "let t = (parse_optional_header_fields ^^ n) ?t
          in parse_optional_header_fields t = t \<and> op_state t = OPT_PARSE \<and> op_windowScaleOut t = op_windowScaleOut ?t" by blast
        then show ?thesis using pt
          by (intro disjI2 exI [of _ "Suc n"]) (auto simp: run_Suc Let_def simp del: funpow.simps)
      qed
    qed
  qed
qed

text \<open>The option parser ends or hangs: from any content of the option fields it either writes exactly one
  window scale and is ready again after at most 41 calls, or after at most 40 calls it has met an unknown option
  of length zero and no call changes anything any more; then the metadata of the segment waits for the window
  scale for ever, and with it every later segment.\<close>

theorem option_parser_ends_or_hangs:
  assumes "op_state s = OPT_PARSE" "mm_state t" "mm_winScaleFifo t = []"
  shows "(\<exists>n \<le> 41. \<exists>w. op_state ((parse_optional_header_fields ^^ n) s) = OPT_IDLE
      \<and> op_windowScaleOut ((parse_optional_header_fields ^^ n) s) = op_windowScaleOut s @ [w])
    \<or> (\<exists>n \<le> 40. \<forall>k. op_windowScaleOut ((parse_optional_header_fields ^^ (n + k)) s) = op_windowScaleOut s
        \<and> (merge_header_meta ^^ k) t = t)"
proof -
  have wait: "(merge_header_meta ^^ k) t = t" for k
    using assms(2,3) by (induction k) (simp_all add: merge_header_meta_def)
  have "drop_bit (8 * 40) (op_fields s) = 0"
    by (rule bit_word_eqI) (auto simp: bit_simps dest: bit_imp_le_length)
  from opt_progress [OF assms(1) this] show ?thesis
  proof
    assume "\<exists>n \<le> 40. let t = (parse_optional_header_fields ^^ n) s
        in parse_optional_header_fields t = t \<and> op_state t = OPT_PARSE \<and> op_windowScaleOut t = op_windowScaleOut s"
    then obtain n where n: "n \<le> 40"
        "parse_optional_header_fields ((parse_optional_header_fields ^^ n) s) = (parse_optional_header_fields ^^ n) s"
        "op_windowScaleOut ((parse_optional_header_fields ^^ n) s) = op_windowScaleOut s" by (auto simp: Let_def)
    have "(parse_optional_header_fields ^^ (n + k)) s = (parse_optional_header_fields ^^ n) s" for k
      by (induction k) (simp_all add: n(2))
    then show ?thesis using n(1,3) wait by (intro disjI2 exI [of _ n]) simp
  qed auto
qed

text \<open>An option of kind 8 and length 0.\<close>

definition zero_option :: optParser where
  "zero_option = \<lparr>op_dataOffsetIn = [], op_fieldsIn = [], op_windowScaleOut = [], op_state = OPT_PARSE,
     op_dataOffset = 10, op_fields = 8\<rparr>"

definition waiting_syn :: metaMerge where
  "waiting_syn = \<lparr>mm_winScaleFifo = [], mm_headerMetaFifo = [], mm_metaDataFifo = [], mm_state = True,
     mm_meta = \<lparr>me_seqNumb = 0, me_ackNumb = 0, me_winSize = 0, me_winScale = 0, me_length = 0, me_ack = False,
       me_rst = False, me_syn = True, me_fin = False, me_dataOffset = 6\<rparr>\<rparr>"

lemma zero_option_stays: "(parse_optional_header_fields ^^ n) zero_option = zero_option"
  by (induction n) (simp_all add: parse_optional_header_fields_def zero_option_def opt_kind_def opt_length_def drop_bit_eq_div)

theorem option_parser_ends_or_hangs_witness:
  "\<forall>k. op_windowScaleOut ((parse_optional_header_fields ^^ k) zero_option) = [] \<and> (merge_header_meta ^^ k) waiting_syn = waiting_syn"
proof -
  have p: "op_state zero_option = OPT_PARSE" "op_windowScaleOut zero_option = []" by (simp_all add: zero_option_def)
  have m: "mm_state waiting_syn" "mm_winScaleFifo waiting_syn = []" by (simp_all add: waiting_syn_def)
  from option_parser_ends_or_hangs [OF p(1) m] show ?thesis by (auto simp: zero_option_stays p)
qed

subsection \<open>Congestion window\<close>

text \<open>One new acknowledgement: slow start below the threshold, congestion avoidance up to the largest window.\<close>

lemma cong_window_step:
  "if unat (rt_cong_window tx) + unat (MSS c) \<le> unat (rt_slowstart_threshold tx)
   then unat (next_cong_window c tx) = unat (rt_cong_window tx) + unat (MSS c)
   else if unat (rt_cong_window tx) \<le> CONGESTION_WINDOW_MAX
   then unat (next_cong_window c tx) = unat (rt_cong_window tx) + 365
   else next_cong_window c tx = rt_cong_window tx"
proof -
  let ?w = "rt_cong_window tx" and ?t = "rt_slowstart_threshold tx"
  have t: "unat ?t < 2 ^ 18" by (rule order_less_le_trans [OF unsigned_less]) simp
  have m: "unat (ucast (MSS c) :: u18) = unat (MSS c)" by (simp add: unsigned_ucast_eq take_bit_nat_eq_self_iff
      order_less_trans [OF unsigned_less])
  have c: "int (unat ?w) \<le> int (unat ?t) - int (unat (MSS c)) \<longleftrightarrow> unat ?w + unat (MSS c) \<le> unat ?t" by linarith
  note n = next_cong_window_def [of c tx, unfolded c]
  have slow: "unat (?w + ucast (MSS c)) = unat ?w + unat (MSS c)" if "unat ?w + unat (MSS c) \<le> unat ?t"
    using that t m by (simp add: unat_word_ariths)
  have avoid: "unat (?w + 365) = unat ?w + 365" if "unat ?w \<le> CONGESTION_WINDOW_MAX"
    using that by (simp add: unat_word_ariths CONGESTION_WINDOW_MAX_def)
  show ?thesis using slow avoid by (simp add: n)
qed

text \<open>The window after \<open>n\<close> new acknowledgements with the same threshold.\<close>

definition window_after :: "rxEngCfg \<Rightarrow> rxTxSarReply \<Rightarrow> nat \<Rightarrow> u18" where
  "window_after c tx n = ((\<lambda>w. next_cong_window c (tx\<lparr>rt_cong_window := w\<rparr>)) ^^ n) (rt_cong_window tx)"

lemma window_after_Suc: "window_after c tx (Suc n) = next_cong_window c (tx\<lparr>rt_cong_window := window_after c tx n\<rparr>)"
  by (simp add: window_after_def)

lemma window_after_step:
  "if unat (window_after c tx n) + unat (MSS c) \<le> unat (rt_slowstart_threshold tx)
   then unat (window_after c tx (Suc n)) = unat (window_after c tx n) + unat (MSS c)
   else if unat (window_after c tx n) \<le> CONGESTION_WINDOW_MAX
   then unat (window_after c tx (Suc n)) = unat (window_after c tx n) + 365
   else window_after c tx (Suc n) = window_after c tx n"
  using cong_window_step [of "tx\<lparr>rt_cong_window := window_after c tx n\<rparr>" c] by (simp add: window_after_Suc)

text \<open>C39. The congestion window over any number of new acknowledgements (the threshold stays): it never shrinks
  and never wraps. While a full segment fits below the threshold (slow start) an acknowledgement adds one segment
  and the window stays within the threshold; from there on it adds 365 bytes while the window is not above the
  largest one, so that it stays within the largest window plus 365; and a window above it does not
  change. In all it stays within the largest of where it began, the threshold and that bound.\<close>

theorem congestion_window_bounded:
  "unat (window_after c tx n) \<le> unat (window_after c tx (Suc n))
   \<and> unat (window_after c tx n)
     \<le> max (unat (rt_cong_window tx)) (max (unat (rt_slowstart_threshold tx)) (CONGESTION_WINDOW_MAX + 365))
   \<and> (if unat (window_after c tx n) + unat (MSS c) \<le> unat (rt_slowstart_threshold tx)
      then unat (window_after c tx (Suc n)) = unat (window_after c tx n) + unat (MSS c)
        \<and> unat (window_after c tx (Suc n)) \<le> unat (rt_slowstart_threshold tx)
      else if unat (window_after c tx n) \<le> CONGESTION_WINDOW_MAX
      then unat (window_after c tx (Suc n)) = unat (window_after c tx n) + 365
        \<and> unat (window_after c tx (Suc n)) \<le> CONGESTION_WINDOW_MAX + 365
      else window_after c tx (Suc n) = window_after c tx n)"
proof -
  have "unat (window_after c tx n)
     \<le> max (unat (rt_cong_window tx)) (max (unat (rt_slowstart_threshold tx)) (CONGESTION_WINDOW_MAX + 365))"
  proof (induction n)
    case (Suc n)
    then show ?case using window_after_step [of c tx n] by (auto split: if_splits)
  qed (simp add: window_after_def)
  then show ?thesis using window_after_step [of c tx n] by (auto split: if_splits)
qed

subsection \<open>Dispatch\<close>

text \<open>A segment with the answer of the port table, its tuple, and the answer of the lookup.\<close>

type_synonym arrival = "rxEngineMetaData \<times> bool \<times> fourTuple \<times> sessionLookupReply"

datatype mhOut = MhReset extendedEvent | MhLookup sessionLookupQuery | MhFsm rxFsmMetaData | MhDrop bool

fun mh_emit :: "arrival \<Rightarrow> mhOut list" where
  "mh_emit (m, portIsOpen, t, lup) =
     (if \<not> portIsOpen then (if me_rst m then [] else [MhReset (closed_port_reset m t)]) @ (if me_length m = 0 then [] else [MhDrop True])
      else [MhLookup \<lparr>slq_tuple = t, slq_allowCreation = me_syn m \<and> \<not> me_rst m \<and> \<not> me_fin m\<rparr>]
        @ (if slr_hit lup then [MhFsm \<lparr>fm_sessionID = slr_sessionID lup, fm_srcIpAddress = swap32 (srcIp t),
             fm_dstIpPort = swap16 (dstPort t), fm_meta = m, fm_srcIpPort = swap16 (srcPort t)\<rparr>] else [])
        @ (if me_length m = 0 then [] else [MhDrop (\<not> slr_hit lup)]))"

fun mh_resets :: "mhOut list \<Rightarrow> extendedEvent list" where
  "mh_resets [] = []" | "mh_resets (MhReset e # os) = e # mh_resets os" | "mh_resets (_ # os) = mh_resets os"
fun mh_lookups :: "mhOut list \<Rightarrow> sessionLookupQuery list" where
  "mh_lookups [] = []" | "mh_lookups (MhLookup e # os) = e # mh_lookups os" | "mh_lookups (_ # os) = mh_lookups os"
fun mh_fsms :: "mhOut list \<Rightarrow> rxFsmMetaData list" where
  "mh_fsms [] = []" | "mh_fsms (MhFsm e # os) = e # mh_fsms os" | "mh_fsms (_ # os) = mh_fsms os"
fun mh_drops :: "mhOut list \<Rightarrow> bool list" where
  "mh_drops [] = []" | "mh_drops (MhDrop e # os) = e # mh_drops os" | "mh_drops (_ # os) = mh_drops os"

lemma mh_append [simp]:
  "mh_resets (xs @ ys) = mh_resets xs @ mh_resets ys" "mh_lookups (xs @ ys) = mh_lookups xs @ mh_lookups ys"
  "mh_fsms (xs @ ys) = mh_fsms xs @ mh_fsms ys" "mh_drops (xs @ ys) = mh_drops xs @ mh_drops ys"
proof -
  show "mh_resets (xs @ ys) = mh_resets xs @ mh_resets ys" by (induction xs rule: mh_resets.induct) simp_all
  show "mh_lookups (xs @ ys) = mh_lookups xs @ mh_lookups ys" by (induction xs rule: mh_lookups.induct) simp_all
  show "mh_fsms (xs @ ys) = mh_fsms xs @ mh_fsms ys" by (induction xs rule: mh_fsms.induct) simp_all
  show "mh_drops (xs @ ys) = mh_drops xs @ mh_drops ys" by (induction xs rule: mh_drops.induct) simp_all
qed

definition mh_holds :: "arrival list \<Rightarrow> mhOut list \<Rightarrow> rxMh \<Rightarrow> bool" where
  "mh_holds ps out s \<longleftrightarrow> mh_state s = MH_META \<and> mh_metaDataFifoIn s = map fst ps
     \<and> mh_portTable_rsp s = map (\<lambda>p. fst (snd p)) ps \<and> mh_tupleBufferIn s = map (\<lambda>p. fst (snd (snd p))) ps
     \<and> mh_sLookup_rsp s = map (\<lambda>p. snd (snd (snd p))) (filter (\<lambda>p. fst (snd p)) ps)
     \<and> mh_setEvent s = mh_resets out \<and> mh_sLookup_req s = mh_lookups out
     \<and> mh_fsmMetaDataFifo s = mh_fsms out \<and> mh_dropDataFifoOut s = mh_drops out"

interpretation mh: packet_machine rxMetadataHandler mh_holds "\<lambda>p. True" mh_emit "\<lambda>p. 2"
proof
  fix p ps out and s :: rxMh
  assume h: "mh_holds (p # ps) out s"
  obtain m po t lup where p: "p = (m, po, t, lup)" by (metis prod_cases4)
  show "\<exists>n \<le> 2. mh_holds ps (out @ mh_emit p) ((rxMetadataHandler ^^ n) s)"
  proof (cases po)
    case False
    then show ?thesis using h p
      by (intro exI [of _ 1]) (simp add: mh_holds_def rxMetadataHandler_def mh_read_meta_def Let_def)
  next
    case True
    then show ?thesis using h p
      by (intro exI [of _ 2]) (simp add: numeral_2_eq_2 mh_holds_def rxMetadataHandler_def mh_read_meta_def Let_def)
  qed
qed

definition passed :: "arrival \<Rightarrow> bool" where
  "passed p \<longleftrightarrow> fst (snd p) \<and> slr_hit (snd (snd (snd p)))"

definition fsm_input :: "arrival \<Rightarrow> rxFsmMetaData" where
  "fsm_input = (\<lambda>(m, portIsOpen, t, lup). \<lparr>fm_sessionID = slr_sessionID lup, fm_srcIpAddress = swap32 (srcIp t),
     fm_dstIpPort = swap16 (dstPort t), fm_meta = m, fm_srcIpPort = swap16 (srcPort t)\<rparr>)"

lemma dispatch_outputs:
  "mh_fsms (concat (map mh_emit ps)) = map fsm_input (filter passed ps)"
  "mh_drops (concat (map mh_emit ps)) = map (\<lambda>p. \<not> passed p) (filter (\<lambda>p. me_length (fst p) \<noteq> 0) ps)"
  "mh_resets (concat (map mh_emit ps))
    = map (\<lambda>p. closed_port_reset (fst p) (fst (snd (snd p)))) (filter (\<lambda>p. \<not> fst (snd p) \<and> \<not> me_rst (fst p)) ps)"
  by (induction ps; auto simp: passed_def fsm_input_def)+

text \<open>Every segment is dispatched: for any sequence of segments, after at most two calls for each, the state
  machine has got exactly the segments to an open port with a session, in order and with their tuple in host
  byte order, every segment with payload has got one decision in order, and every segment to a closed port that is not
  a reset was answered with a reset that acknowledges its last byte.\<close>

theorem segments_dispatched:
  assumes "mh_holds ps [] s"
  shows "\<exists>n \<le> 2 * length ps. let t = (rxMetadataHandler ^^ n) s in
    mh_fsmMetaDataFifo t = map fsm_input (filter passed ps)
    \<and> mh_dropDataFifoOut t = map (\<lambda>p. \<not> passed p) (filter (\<lambda>p. me_length (fst p) \<noteq> 0) ps)
    \<and> mh_setEvent t = map (\<lambda>p. closed_port_reset (fst p) (fst (snd (snd p))))
        (filter (\<lambda>p. \<not> fst (snd p) \<and> \<not> me_rst (fst p)) ps)
    \<and> mh_metaDataFifoIn t = []"
proof -
  obtain n where n: "n \<le> sum_list (map (\<lambda>p. 2) ps)" "mh_holds [] (concat (map mh_emit ps)) ((rxMetadataHandler ^^ n) s)"
    using mh.all_packets [OF assms] by (auto simp: list_all_iff)
  have "sum_list (map (\<lambda>p. 2) ps) = 2 * length ps" by (induction ps) simp_all
  then show ?thesis using n by (intro exI [of _ n]) (simp add: mh_holds_def dispatch_outputs Let_def)
qed

definition sample_meta :: "u16 \<Rightarrow> rxEngineMetaData" where
  "sample_meta len = \<lparr>me_seqNumb = 100, me_ackNumb = 0, me_winSize = 0, me_winScale = 0, me_length = len, me_ack = True,
     me_rst = False, me_syn = False, me_fin = False, me_dataOffset = 5\<rparr>"

definition sample_tuple :: fourTuple where
  "sample_tuple = \<lparr>srcIp = 0x0100A8C0, dstIp = 0x0200A8C0, srcPort = 0x5000, dstPort = 0x1027\<rparr>"

definition sample_arrivals :: "arrival list" where
  "sample_arrivals = [(sample_meta 4, True, sample_tuple, \<lparr>slr_sessionID = 1, slr_hit = True\<rparr>),
     (sample_meta 4, False, sample_tuple, \<lparr>slr_sessionID = 0, slr_hit = False\<rparr>)]"

definition sample_mh :: rxMh where
  "sample_mh = \<lparr>mh_metaDataFifoIn = map fst sample_arrivals, mh_sLookup_rsp = [\<lparr>slr_sessionID = 1, slr_hit = True\<rparr>],
     mh_portTable_rsp = [True, False], mh_tupleBufferIn = [sample_tuple, sample_tuple], mh_sLookup_req = [],
     mh_setEvent = [], mh_dropDataFifoOut = [], mh_fsmMetaDataFifo = [], mh_state = MH_META, mh_meta = sample_meta 0,
     mh_srcIpAddress = 0, mh_dstIpPort = 0, mh_srcIpPort = 0\<rparr>"

theorem segments_dispatched_witness:
  "\<exists>n \<le> 4. mh_dropDataFifoOut ((rxMetadataHandler ^^ n) sample_mh) = [False, True]
     \<and> length (mh_fsmMetaDataFifo ((rxMetadataHandler ^^ n) sample_mh)) = 1"
proof -
  have "mh_holds sample_arrivals [] sample_mh" by (simp add: mh_holds_def sample_mh_def sample_arrivals_def)
  from segments_dispatched [OF this] show ?thesis
    by (auto simp: sample_arrivals_def passed_def sample_meta_def Let_def)
qed

end
