(* ===== verification/Axi_Bytes.thy ===== *)
theory Axi_Bytes
  imports Axi_Packets
begin

text \<open>
  The bytes a packet carries: those of its words that count, in order. Words that are put together from two
  neighbouring ones (\<open>align_words\<close>) carry the bytes behind the first \<open>offs\<close>, and a packet that is cut
  at a byte falls into the bytes before and the bytes behind.
\<close>

unbundle bit_operations_syntax

subsection \<open>Bytes of a packet\<close>

definition word_bytes :: "('w::len word, 'k::len word) net_axis \<Rightarrow> u8 list" where
  "word_bytes w = map (\<lambda>i. get_range (8 * i) 8 (na_data w)) (filter (bit (na_keep w)) [0 ..< LENGTH('k)])"

definition packet_bytes :: "('w::len word, 'k::len word) net_axis list \<Rightarrow> u8 list" where
  "packet_bytes ws = concat (map word_bytes ws)"

lemma packet_bytes_simps [simp]:
  "packet_bytes [] = []" "packet_bytes (w # ws) = word_bytes w @ packet_bytes ws"
  by (simp_all add: packet_bytes_def)

lemma filter_below: "m \<le> k \<Longrightarrow> filter (\<lambda>i. i < m) [0 ..< k] = [0 ..< m]"
proof -
  assume "m \<le> k"
  then have "[0 ..< k] = [0 ..< m] @ [m ..< k]" by (metis le0 upt_add_eq_append le_add_diff_inverse)
  then show ?thesis by simp
qed

lemma word_bytes_mask:
  fixes w :: "('w::len word, 'k::len word) net_axis"
  assumes "\<And>i. i < LENGTH('k) \<Longrightarrow> bit (na_keep w) i \<longleftrightarrow> i < m" and "m \<le> LENGTH('k)"
  shows "word_bytes w = map (\<lambda>i. get_range (8 * i) 8 (na_data w)) [0 ..< m]"
proof -
  have "filter (bit (na_keep w)) [0 ..< LENGTH('k)] = filter (\<lambda>i. i < m) [0 ..< LENGTH('k)]"
    using assms(1) by (intro filter_cong) auto
  then show ?thesis using filter_below [OF assms(2)] by (simp add: word_bytes_def)
qed

text \<open>\<open>keeps w m\<close>: the first \<open>m\<close> bytes of the word count.\<close>

definition keeps :: "('w, 'k::len word) net_axis \<Rightarrow> nat \<Rightarrow> bool" where
  "keeps w m \<longleftrightarrow> na_keep w = mask m \<and> 0 < m \<and> m \<le> LENGTH('k)"

definition well_kept :: "('w, 'k::len word) net_axis list \<Rightarrow> bool" where
  "well_kept ws \<longleftrightarrow> marked ws \<and> list_all (\<lambda>w. keeps w (LENGTH('k))) (butlast ws) \<and> (\<exists>m. keeps (last ws) m)"

lemma well_kept_Cons [simp]:
  "well_kept ((w :: ('w, 'k::len word) net_axis) # ws)
   \<longleftrightarrow> (if ws = [] then na_last w \<and> (\<exists>m. keeps w m) else \<not> na_last w \<and> keeps w (LENGTH('k)) \<and> well_kept ws)"
  by (auto simp: well_kept_def)

lemma well_kept_Nil [simp]: "\<not> well_kept []"
  by (simp add: well_kept_def)

lemma word_bytes_keeps:
  fixes w :: "('w::len word, 'k::len word) net_axis"
  shows "keeps w m \<Longrightarrow> word_bytes w = map (\<lambda>i. get_range (8 * i) 8 (na_data w)) [0 ..< m]"
  by (rule word_bytes_mask) (auto simp: keeps_def bit_simps)

lemma length_word_bytes: "keeps w m \<Longrightarrow> length (word_bytes w) = m"
  by (simp add: word_bytes_keeps)

lemma upt_plus: "[0 ..< a + b] = [0 ..< a] @ map (\<lambda>i. a + i) [0 ..< b]"
  by (induction b) auto

lemma drop_map_upt: "drop n (map f [0 ..< m]) = map (\<lambda>i. f (n + i)) [0 ..< m - n]"
  by (rule nth_equalityI) (auto simp: less_diff_conv add.commute)

lemma get_range_align_low:
  fixes p w :: "'w::len word"
  assumes "LENGTH('w) = 8 * K" "offs \<le> K" "i < K - offs"
  shows "(get_range (8 * i) 8 (align_bits (8 * offs) p w) :: u8) = get_range (8 * (offs + i)) 8 p"
  by (rule bit_word_eqI) (use assms in \<open>auto simp: bit_ranges bit_align_bits algebra_simps\<close>)

lemma get_range_align_high:
  fixes p w :: "'w::len word"
  assumes "LENGTH('w) = 8 * K" "offs \<le> K" "i < offs"
  shows "(get_range (8 * (K - offs + i)) 8 (align_bits (8 * offs) p w) :: u8) = get_range (8 * i) 8 w"
  by (rule bit_word_eqI) (use assms in \<open>auto simp: bit_ranges bit_align_bits algebra_simps\<close>)

lemma bytes_align:
  fixes p w :: "('w::len word, 'k::len word) net_axis"
  assumes K: "LENGTH('w) = 8 * LENGTH('k)" and o: "0 < offs" "offs < LENGTH('k)"
    and p: "keeps p (LENGTH('k))" and w: "keeps w m"
  shows "word_bytes (align_words offs p w l) = drop offs (word_bytes p) @ take offs (word_bytes w)"
proof -
  let ?k = "LENGTH('k)"
  have "word_bytes (align_words offs p w l)
    = map (\<lambda>i. get_range (8 * i) 8 (na_data (align_words offs p w l))) [0 ..< ?k - offs + min offs m]"
  proof (rule word_bytes_mask)
    fix i assume "i < ?k"
    then show "bit (na_keep (align_words offs p w l)) i \<longleftrightarrow> i < ?k - offs + min offs m"
      using o p w by (auto simp: align_words_def bit_align_bits keeps_def bit_simps)
  qed (use o in simp)
  also have "[0 ..< ?k - offs + min offs m] = [0 ..< ?k - offs] @ map (\<lambda>i. ?k - offs + i) [0 ..< min offs m]"
    by (rule upt_plus)
  finally have "word_bytes (align_words offs p w l)
    = map (\<lambda>i. get_range (8 * (offs + i)) 8 (na_data p)) [0 ..< ?k - offs]
      @ map (\<lambda>i. get_range (8 * i) 8 (na_data w)) [0 ..< min offs m]"
    using o get_range_align_low [OF K] get_range_align_high [OF K] by (auto simp: align_words_def)
  also have "map (\<lambda>i. get_range (8 * (offs + i)) 8 (na_data p)) [0 ..< ?k - offs] = drop offs (word_bytes p)"
    using word_bytes_keeps [OF p] by (simp add: drop_map_upt)
  also have "map (\<lambda>i. get_range (8 * i) 8 (na_data w)) [0 ..< min offs m] = take offs (word_bytes w)"
    using word_bytes_keeps [OF w] by (simp add: take_map min_def)
  finally show ?thesis .
qed

lemma bytes_align_zero:
  fixes p :: "('w::len word, 'k::len word) net_axis"
  assumes K: "LENGTH('w) = 8 * LENGTH('k)" and o: "0 < offs" "offs < LENGTH('k)" and p: "keeps p m"
  shows "word_bytes (align_words offs p zero_word l) = drop offs (word_bytes p)"
proof -
  let ?k = "LENGTH('k)"
  have "word_bytes (align_words offs p zero_word l)
    = map (\<lambda>i. get_range (8 * i) 8 (na_data (align_words offs p zero_word l))) [0 ..< m - offs]"
  proof (rule word_bytes_mask)
    fix i assume "i < ?k"
    then show "bit (na_keep (align_words offs p zero_word l)) i \<longleftrightarrow> i < m - offs"
      using o p by (auto simp: align_words_def zero_word_def bit_align_bits keeps_def bit_simps)
  qed (use p in \<open>auto simp: keeps_def\<close>)
  also have "\<dots> = map (\<lambda>i. get_range (8 * (offs + i)) 8 (na_data p)) [0 ..< m - offs]"
    using o p get_range_align_low [OF K] by (auto simp: align_words_def zero_word_def keeps_def)
  also have "\<dots> = drop offs (word_bytes p)"
    using word_bytes_keeps [OF p] by (simp add: drop_map_upt)
  finally show ?thesis .
qed

subsection \<open>Cutting a packet\<close>

text \<open>The words of the second write: \<open>p\<close> is the word that was read before, \<open>offs\<close> of its bytes are in the first
  write.\<close>

fun al_words :: "nat \<Rightarrow> ('w::len word, 'k::len word) net_axis \<Rightarrow> ('w word, 'k word) net_axis list \<Rightarrow> ('w word, 'k word) net_axis list"
where
  "al_words offs p [] = [align_words offs p zero_word True]"
| "al_words offs p (w # ws) =
     align_words offs p w (\<not> bit (na_keep w) offs) # (if ws = [] \<and> \<not> bit (na_keep w) offs then [] else al_words offs w ws)"

fun cut_first :: "nat \<Rightarrow> ('w, 'k::len word) net_axis list \<Rightarrow> ('w, 'k word) net_axis list" where
  "cut_first r [] = []"
| "cut_first r (w # ws) =
     (if r > LENGTH('k) then w # cut_first (r - LENGTH('k)) ws
      else if r = LENGTH('k) then [w\<lparr>na_last := True\<rparr>] else [w\<lparr>na_keep := mask r, na_last := True\<rparr>])"

fun cut_rest :: "nat \<Rightarrow> ('w::len word, 'k::len word) net_axis list \<Rightarrow> ('w word, 'k word) net_axis list" where
  "cut_rest r [] = []"
| "cut_rest r (w # ws) =
     (if r > LENGTH('k) then cut_rest (r - LENGTH('k)) ws else if r = LENGTH('k) then ws else al_words r w ws)"

lemma align_words_last [simp]: "na_last (align_words offs p w l) = l"
  by (simp add: align_words_def)

lemma al_words_ne [simp]: "al_words offs p ws \<noteq> []"
  by (cases ws) simp_all

lemma keeps_bit: "keeps (w :: ('w, 'k::len word) net_axis) m \<Longrightarrow> bit (na_keep w) i \<longleftrightarrow> i < m"
  by (auto simp: keeps_def bit_simps)

lemma well_kept_word: "well_kept (w # ws) \<Longrightarrow> \<exists>m. keeps w m"
  by (auto split: if_splits)

lemma al_words_bytes:
  fixes p :: "('w::len word, 'k::len word) net_axis"
  assumes K: "LENGTH('w) = 8 * LENGTH('k)" and o: "0 < offs" "offs < LENGTH('k)"
  shows "keeps p (LENGTH('k)) \<Longrightarrow> well_kept ws \<Longrightarrow>
    packet_bytes (al_words offs p ws) = drop offs (word_bytes p) @ packet_bytes ws \<and> marked (al_words offs p ws)"
proof (induction ws arbitrary: p)
  case (Cons w ws)
  obtain m where m: "keeps w m" using well_kept_word [OF Cons.prems(2)] by blast
  note bytes = bytes_align [OF K o Cons.prems(1) m] bytes_align_zero [OF K o m] and b = keeps_bit [OF m, of offs]
  show ?case
  proof (cases "ws = []")
    case True
    show ?thesis
    proof (cases "offs < m")
      case True
      then show ?thesis using \<open>ws = []\<close> bytes b by simp
    next
      case False
      then have "take offs (word_bytes w) = word_bytes w" using length_word_bytes [OF m] by simp
      then show ?thesis using False \<open>ws = []\<close> bytes b by simp
    qed
  next
    case False
    then have w: "keeps w (LENGTH('k))" "well_kept ws" using Cons.prems(2) by simp_all
    then have "bit (na_keep w) offs" using keeps_bit o by blast
    then show ?thesis using Cons.IH [OF w] False bytes by simp
  qed
qed simp

lemma cut_bytes:
  fixes ws :: "('w::len word, 'k::len word) net_axis list"
  assumes K: "LENGTH('w) = 8 * LENGTH('k)"
  shows "well_kept ws \<Longrightarrow> 0 < r \<Longrightarrow> r < length (packet_bytes ws) \<Longrightarrow>
    packet_bytes (cut_first r ws) = take r (packet_bytes ws) \<and> marked (cut_first r ws)
    \<and> packet_bytes (cut_rest r ws) = drop r (packet_bytes ws) \<and> marked (cut_rest r ws)"
proof (induction ws arbitrary: r)
  case (Cons w ws)
  obtain m where m: "keeps w m" using well_kept_word [OF Cons.prems(1)] by blast
  have len: "length (word_bytes w) = m" "m \<le> LENGTH('k)" using length_word_bytes [OF m] m by (simp_all add: keeps_def)
  consider (more) "LENGTH('k) < r" | (all) "r = LENGTH('k)" | (part) "r < LENGTH('k)" by linarith
  then show ?case
  proof cases
    case more
    then have ne: "ws \<noteq> []" using Cons.prems(3) len by auto
    then have w: "keeps w (LENGTH('k))" "well_kept ws" using Cons.prems(1) by simp_all
    note l = length_word_bytes [OF w(1)]
    have "0 < r - LENGTH('k)" "r - LENGTH('k) < length (packet_bytes ws)" using more Cons.prems(3) l by auto
    from Cons.IH [OF w(2) this] show ?thesis using more ne l Cons.prems(1)
      by (cases "cut_first (r - LENGTH('k)) ws") simp_all
  next
    case all
    then have ne: "ws \<noteq> []" using Cons.prems(3) len by auto
    then have w: "keeps w (LENGTH('k))" "well_kept ws" using Cons.prems(1) by simp_all
    then show ?thesis using all length_word_bytes [OF w(1)] by (simp add: word_bytes_def well_kept_def)
  next
    case part
    have rm: "r < m" if "ws = []" using that Cons.prems(3) len by simp
    have first: "word_bytes (w\<lparr>na_keep := mask r, na_last := True\<rparr>) = take r (word_bytes w)"
    proof -
      have "r \<le> m" using rm Cons.prems(1) part len length_word_bytes [of w "LENGTH('k)"] by (cases "ws = []") auto
      moreover have "keeps (w\<lparr>na_keep := mask r, na_last := True\<rparr>) r" using part Cons.prems(2) by (simp add: keeps_def)
      ultimately show ?thesis using word_bytes_keeps [OF m] by (simp add: word_bytes_keeps take_map)
    qed
    show ?thesis
    proof (cases "ws = []")
      case True
      then show ?thesis using part first rm bytes_align_zero [OF K Cons.prems(2) part m] len
        by simp
    next
      case False
      then have w: "keeps w (LENGTH('k))" "well_kept ws" using Cons.prems(1) by simp_all
      have "take r (word_bytes w @ packet_bytes ws) = take r (word_bytes w)"
        "drop r (word_bytes w @ packet_bytes ws) = drop r (word_bytes w) @ packet_bytes ws"
        using part length_word_bytes [OF w(1)] by simp_all
      then show ?thesis using False part first al_words_bytes [OF K Cons.prems(2) part w] by simp
    qed
  qed
qed simp

subsection \<open>Number of calls\<close>

lemma run_after:
  fixes f :: "'s \<Rightarrow> 's"
  shows "\<exists>n \<le> k. P ((f ^^ n) (f s)) \<Longrightarrow> Suc k \<le> k' \<Longrightarrow> \<exists>n \<le> k'. P ((f ^^ n) s)"
  by (metis run_Suc Suc_le_mono order_trans)

lemma run_now:
  fixes f :: "'s \<Rightarrow> 's"
  shows "P (f s) \<Longrightarrow> 0 < k \<Longrightarrow> \<exists>n \<le> k. P ((f ^^ n) s)"
  by (intro exI [of _ 1]) simp

end
