(* ===== verification/Toe_Rx_Memory.thy ===== *)
theory Toe_Rx_Memory
  imports Toe_Rx_Window Axi_Bytes Hash_Table
begin

text \<open>
  The module that writes segments to the receive buffer (\<^verbatim>\<open>rxEngMemWrite\<close> of \<^verbatim>\<open>toe/rx_engine/rx_engine.cpp\<close>): a
  segment that reaches over the end of the buffer of its session becomes two writes, the second one
  at the start of the buffer, with its bytes moved to the first byte of a word. Shown is that every byte of a segment goes
  to its position modulo the size of the buffer and that no write leaves the buffer.
\<close>

unbundle bit_operations_syntax

subsection \<open>Model\<close>

definition DATA_KEEP_BITS :: "nat \<Rightarrow> nat" where
  "DATA_KEEP_BITS k = ConstLog2 k"

definition BUFFER_SIZE :: nat where
  "BUFFER_SIZE = 2 ^ 18"

datatype rxMemWrState = MW_IDLE | MW_IDLE_REG | MW_CUT_FIRST | MW_ALIGN_SECOND | MW_FWD_ALIGNED | MW_RESIDUE

record ('w, 'k) rxMemWriter =
  mw_dataIn :: "('w, 'k) net_axis stream"
  mw_cmdIn :: "mmCmd stream"
  mw_cmdOut :: "mmCmd stream"
  mw_dataOut :: "('w, 'k) net_axis stream"
  mw_doubleAccess :: "bool stream"
  mw_state :: rxMemWrState
  mw_cmd :: mmCmd
  mw_remainingLength :: u18
  mw_lengthFirstPkg :: u18
  mw_offset :: u8
  mw_prevWord :: "('w, 'k) net_axis"

text \<open>The write at the start of the buffer.\<close>

definition second_cmd :: "u18 \<Rightarrow> mmCmd \<Rightarrow> mmCmd" where
  "second_cmd first cmd = cmd\<lparr>mc_saddr := set_range 0 18 (0 :: u18) (mc_saddr cmd), mc_bbt := mc_bbt cmd - ucast first\<rparr>"

definition mw_split :: "('w::len word, 'k::len word) rxMemWriter \<Rightarrow> ('w word, 'k word) rxMemWriter" where
  "mw_split s =
     (let cmd = mw_cmd s in
      if unat (ucast (mc_saddr cmd) :: u18) + unat (mc_bbt cmd) > BUFFER_SIZE then
        (let first = ucast (of_nat BUFFER_SIZE - mc_saddr cmd) :: u18
         in s\<lparr>mw_lengthFirstPkg := first, mw_remainingLength := first,
              mw_offset := get_range 0 (DATA_KEEP_BITS (LENGTH('k))) first,
              mw_doubleAccess := mw_doubleAccess s @ [True], mw_cmdOut := mw_cmdOut s @ [mk_mmCmd (mc_saddr cmd) (ucast first)],
              mw_state := MW_CUT_FIRST\<rparr>)
      else s\<lparr>mw_doubleAccess := mw_doubleAccess s @ [False], mw_cmdOut := mw_cmdOut s @ [cmd], mw_state := MW_FWD_ALIGNED\<rparr>)"

definition mw_cut_first :: "('w::len word, 'k::len word) net_axis \<Rightarrow> ('w word, 'k word) rxMemWriter \<Rightarrow> ('w word, 'k word) rxMemWriter" where
  "mw_cut_first w s =
     (let r = mw_remainingLength s; cmd = second_cmd (mw_lengthFirstPkg s) (mw_cmd s)
      in if unat r > LENGTH('k) then
           s\<lparr>mw_remainingLength := r - of_nat (LENGTH('k)), mw_dataOut := mw_dataOut s @ [w]\<rparr>
         else if unat r = LENGTH('k) then
           s\<lparr>mw_cmd := cmd, mw_cmdOut := mw_cmdOut s @ [cmd], mw_state := MW_FWD_ALIGNED,
             mw_dataOut := mw_dataOut s @ [w\<lparr>na_last := True\<rparr>]\<rparr>
         else
           s\<lparr>mw_cmd := cmd, mw_cmdOut := mw_cmdOut s @ [cmd], mw_state := if na_last w then MW_RESIDUE else MW_ALIGN_SECOND,
             mw_dataOut := mw_dataOut s @ [w\<lparr>na_keep := ucast (lenToKeep (ucast r)), na_last := True\<rparr>]\<rparr>)"

definition rxEngMemWrite :: "('w::len word, 'k::len word) rxMemWriter \<Rightarrow> ('w word, 'k word) rxMemWriter" where
  "rxEngMemWrite s =
     (let offs = unat (mw_offset s) in
      case mw_state s of
        MW_IDLE \<Rightarrow>
          (case mw_cmdIn s of [] \<Rightarrow> s | c # q \<Rightarrow> s\<lparr>mw_cmdIn := q, mw_cmd := c, mw_state := MW_IDLE_REG\<rparr>)
      | MW_IDLE_REG \<Rightarrow> mw_split s
      | MW_CUT_FIRST \<Rightarrow>
          (case mw_dataIn s of [] \<Rightarrow> s | w # q \<Rightarrow> mw_cut_first w (s\<lparr>mw_dataIn := q, mw_prevWord := w\<rparr>))
      | MW_FWD_ALIGNED \<Rightarrow>
          (case mw_dataIn s of
             [] \<Rightarrow> s
           | w # q \<Rightarrow> s\<lparr>mw_dataIn := q, mw_dataOut := mw_dataOut s @ [w], mw_state := if na_last w then MW_IDLE else MW_FWD_ALIGNED\<rparr>)
      | MW_ALIGN_SECOND \<Rightarrow>
          (case mw_dataIn s of
             [] \<Rightarrow> s
           | w # q \<Rightarrow>
              (let lst = (\<not> bit (na_keep w) offs)
               in s\<lparr>mw_dataIn := q, mw_dataOut := mw_dataOut s @ [align_words offs (mw_prevWord s) w lst], mw_prevWord := w,
                    mw_state := if \<not> na_last w then MW_ALIGN_SECOND else if lst then MW_IDLE else MW_RESIDUE\<rparr>))
      | MW_RESIDUE \<Rightarrow>
          s\<lparr>mw_dataOut := mw_dataOut s @ [align_words offs (mw_prevWord s) zero_word True], mw_state := MW_IDLE\<rparr>)"

subsection \<open>Running the module\<close>

definition mw_done ::
  "('w, 'k) net_axis list \<Rightarrow> mmCmd list \<Rightarrow> mmCmd list \<Rightarrow> ('w, 'k) net_axis list \<Rightarrow> bool list \<Rightarrow> ('w, 'k) rxMemWriter \<Rightarrow> bool"
where
  "mw_done q cs cmds ws dbl s \<longleftrightarrow> mw_state s = MW_IDLE \<and> mw_dataIn s = q \<and> mw_cmdIn s = cs \<and> mw_cmdOut s = cmds
     \<and> mw_dataOut s = ws \<and> mw_doubleAccess s = dbl"

lemma mw_forward:
  "marked ws \<Longrightarrow> mw_state s = MW_FWD_ALIGNED \<Longrightarrow> mw_dataIn s = ws @ q \<Longrightarrow>
   \<exists>n \<le> length ws. mw_done q (mw_cmdIn s) (mw_cmdOut s) (mw_dataOut s @ ws) (mw_doubleAccess s) ((rxEngMemWrite ^^ n) s)"
proof (induction ws arbitrary: s)
  case (Cons w ws)
  let ?s = "rxEngMemWrite s"
  have s: "?s = s\<lparr>mw_dataIn := ws @ q, mw_dataOut := mw_dataOut s @ [w], mw_state := if na_last w then MW_IDLE else MW_FWD_ALIGNED\<rparr>"
    using Cons.prems by (simp add: rxEngMemWrite_def)
  show ?case
  proof (cases "ws = []")
    case True
    then show ?thesis using s Cons.prems(1) by (intro run_now) (simp_all add: mw_done_def)
  next
    case False
    then have "\<exists>n \<le> length ws. mw_done q (mw_cmdIn ?s) (mw_cmdOut ?s) (mw_dataOut ?s @ ws) (mw_doubleAccess ?s) ((rxEngMemWrite ^^ n) ?s)"
      using Cons.prems s by (intro Cons.IH) simp_all
    then show ?thesis using s by - (rule run_after [where k = "length ws"], simp_all)
  qed
qed simp

lemma mw_residue:
  "mw_state s = MW_RESIDUE \<Longrightarrow>
   mw_done (mw_dataIn s) (mw_cmdIn s) (mw_cmdOut s) (mw_dataOut s @ [align_words (unat (mw_offset s)) (mw_prevWord s) zero_word True])
     (mw_doubleAccess s) (rxEngMemWrite s)"
  by (simp add: mw_done_def rxEngMemWrite_def Let_def)

lemma mw_align:
  "marked ws \<Longrightarrow> mw_state s = MW_ALIGN_SECOND \<Longrightarrow> mw_dataIn s = ws @ q \<Longrightarrow>
   \<exists>n \<le> length ws + 1. mw_done q (mw_cmdIn s) (mw_cmdOut s) (mw_dataOut s @ al_words (unat (mw_offset s)) (mw_prevWord s) ws)
     (mw_doubleAccess s) ((rxEngMemWrite ^^ n) s)"
proof (induction ws arbitrary: s)
  case (Cons w ws)
  let ?s = "rxEngMemWrite s" and ?o = "unat (mw_offset s)" and ?l = "\<not> bit (na_keep w) (unat (mw_offset s))"
  have s: "?s = s\<lparr>mw_dataIn := ws @ q, mw_dataOut := mw_dataOut s @ [align_words ?o (mw_prevWord s) w ?l], mw_prevWord := w,
      mw_state := if \<not> na_last w then MW_ALIGN_SECOND else if ?l then MW_IDLE else MW_RESIDUE\<rparr>"
    using Cons.prems by (simp add: rxEngMemWrite_def Let_def)
  show ?case
  proof (cases "ws = []")
    case True
    show ?thesis
    proof (cases ?l)
      case True
      then show ?thesis using s \<open>ws = []\<close> Cons.prems(1) by (intro run_now) (simp_all add: mw_done_def)
    next
      case False
      then show ?thesis using s \<open>ws = []\<close> Cons.prems(1) mw_residue [of ?s]
        by - (rule run_after [where k = 1, OF run_now], simp_all)
    qed
  next
    case False
    then have "\<exists>n \<le> length ws + 1. mw_done q (mw_cmdIn ?s) (mw_cmdOut ?s) (mw_dataOut ?s @ al_words (unat (mw_offset ?s)) (mw_prevWord ?s) ws)
       (mw_doubleAccess ?s) ((rxEngMemWrite ^^ n) ?s)"
      using Cons.prems s by (intro Cons.IH) simp_all
    then show ?thesis using s False by - (rule run_after [where k = "length ws + 1"], simp_all)
  qed
qed simp

lemma lenToKeep_mask:
  assumes "0 < unat (r :: u18)" "unat r < LENGTH('k)" "LENGTH('k) \<le> 64"
  shows "(ucast (lenToKeep (ucast r)) :: 'k::len word) = mask (unat r)"
proof -
  have u: "unat (ucast r :: 6 word) = unat r" using assms by (simp add: unsigned_ucast_eq take_bit_nat_eq_self)
  then have "(ucast r :: 6 word) \<noteq> 0" using assms(1) by (metis unsigned_0 less_irrefl)
  then have "lenToKeep (ucast r) = mask (unat r)" by (simp add: lenToKeep_def u)
  then show ?thesis using assms by (intro bit_word_eqI) (auto simp: bit_simps)
qed

lemma mw_cut:
  fixes ws :: "('w::len word, 'k::len word) net_axis list"
  assumes k: "LENGTH('k) \<le> 64"
  shows "well_kept ws \<Longrightarrow> 0 < r \<Longrightarrow> r < length (packet_bytes ws) \<Longrightarrow> mw_state s = MW_CUT_FIRST \<Longrightarrow> mw_dataIn s = ws @ q \<Longrightarrow>
    unat (mw_remainingLength s) = r \<Longrightarrow> unat (mw_offset s) = r mod LENGTH('k) \<Longrightarrow>
    \<exists>n \<le> length ws + 1. mw_done q (mw_cmdIn s) (mw_cmdOut s @ [second_cmd (mw_lengthFirstPkg s) (mw_cmd s)])
      (mw_dataOut s @ cut_first r ws @ cut_rest r ws) (mw_doubleAccess s) ((rxEngMemWrite ^^ n) s)"
proof (induction ws arbitrary: r s)
  case (Cons w ws)
  let ?s = "rxEngMemWrite s" and ?c = "second_cmd (mw_lengthFirstPkg s) (mw_cmd s)"
  have s: "?s = mw_cut_first w (s\<lparr>mw_dataIn := ws @ q, mw_prevWord := w\<rparr>)"
    using Cons.prems by (simp add: rxEngMemWrite_def)
  obtain m where m: "keeps w m" using well_kept_word [OF Cons.prems(1)] by blast
  have len: "length (word_bytes w) = m" "m \<le> LENGTH('k)" using length_word_bytes [OF m] m by (simp_all add: keeps_def)
  consider (more) "LENGTH('k) < r" | (all) "r = LENGTH('k)" | (part) "r < LENGTH('k)" by linarith
  then show ?case
  proof cases
    case more
    then have ne: "ws \<noteq> []" using Cons.prems(3) len by auto
    then have w: "keeps w (LENGTH('k))" "well_kept ws" using Cons.prems(1) by simp_all
    have u: "unat (of_nat (LENGTH('k)) :: u18) = LENGTH('k)" using k by (simp add: unsigned_of_nat take_bit_nat_eq_self)
    have s': "?s = s\<lparr>mw_dataIn := ws @ q, mw_prevWord := w, mw_remainingLength := mw_remainingLength s - of_nat (LENGTH('k)),
        mw_dataOut := mw_dataOut s @ [w]\<rparr>"
      unfolding s using more Cons.prems(6) by (simp add: mw_cut_first_def Let_def)
    have "\<exists>n \<le> length ws + 1. mw_done q (mw_cmdIn ?s) (mw_cmdOut ?s @ [second_cmd (mw_lengthFirstPkg ?s) (mw_cmd ?s)])
      (mw_dataOut ?s @ cut_first (r - LENGTH('k)) ws @ cut_rest (r - LENGTH('k)) ws) (mw_doubleAccess ?s) ((rxEngMemWrite ^^ n) ?s)"
    proof (rule Cons.IH)
      show "unat (mw_remainingLength ?s) = r - LENGTH('k)"
        using more Cons.prems(6) u by (simp add: s' unat_sub_if')
      show "unat (mw_offset ?s) = (r - LENGTH('k)) mod LENGTH('k)"
        using more Cons.prems(7) by (simp add: s' le_mod_geq)
    qed (use more Cons.prems ne w length_word_bytes [OF w(1)] in \<open>simp_all add: s'\<close>)
    then show ?thesis using s' more by - (rule run_after [where k = "length ws + 1"], simp_all)
  next
    case all
    then have ne: "ws \<noteq> []" using Cons.prems(3) len by auto
    then have w: "marked ws" using Cons.prems(1) by (simp add: well_kept_def)
    have s': "?s = s\<lparr>mw_dataIn := ws @ q, mw_prevWord := w, mw_cmd := ?c, mw_cmdOut := mw_cmdOut s @ [?c],
        mw_state := MW_FWD_ALIGNED, mw_dataOut := mw_dataOut s @ [w\<lparr>na_last := True\<rparr>]\<rparr>"
      unfolding s using all Cons.prems(6) by (simp add: mw_cut_first_def Let_def)
    have "\<exists>n \<le> length ws. mw_done q (mw_cmdIn ?s) (mw_cmdOut ?s) (mw_dataOut ?s @ ws) (mw_doubleAccess ?s) ((rxEngMemWrite ^^ n) ?s)"
      using w by (intro mw_forward) (simp_all add: s')
    then have "\<exists>n \<le> length ws + 1. mw_done q (mw_cmdIn ?s) (mw_cmdOut ?s) (mw_dataOut ?s @ ws) (mw_doubleAccess ?s) ((rxEngMemWrite ^^ n) ?s)"
      by (meson trans_le_add1)
    then show ?thesis using s' all by - (rule run_after [where k = "length ws + 1"], simp_all)
  next
    case part
    have o: "unat (mw_offset s) = r" using part Cons.prems(7) by simp
    have s': "?s = s\<lparr>mw_dataIn := ws @ q, mw_prevWord := w, mw_cmd := ?c, mw_cmdOut := mw_cmdOut s @ [?c],
        mw_state := if na_last w then MW_RESIDUE else MW_ALIGN_SECOND,
        mw_dataOut := mw_dataOut s @ [w\<lparr>na_keep := mask r, na_last := True\<rparr>]\<rparr>"
      unfolding s using part Cons.prems(2,6) lenToKeep_mask [of "mw_remainingLength s", where ?'k = 'k] k
      by (simp add: mw_cut_first_def Let_def)
    have "\<exists>n \<le> length ws + 1. mw_done q (mw_cmdIn ?s) (mw_cmdOut ?s) (mw_dataOut ?s @ al_words r w ws) (mw_doubleAccess ?s) ((rxEngMemWrite ^^ n) ?s)"
    proof (cases "ws = []")
      case True
      then show ?thesis using mw_residue [of ?s] Cons.prems(1) s' o by (intro run_now) simp_all
    next
      case False
      then show ?thesis using mw_align [of ws ?s q] Cons.prems(1) s' o by (simp add: well_kept_def)
    qed
    then show ?thesis using s' part by - (rule run_after [where k = "length ws + 1"], simp_all)
  qed
qed simp

subsection \<open>Writes within the buffer\<close>

definition mem_offset :: "mmCmd \<Rightarrow> u18" where
  "mem_offset c = ucast (mc_saddr c)"

text \<open>A segment with its command: at least one byte, as many as the command says.\<close>

definition write_ok :: "mmCmd \<times> ('w::len word, 'k::len word) net_axis list \<Rightarrow> bool" where
  "write_ok p \<longleftrightarrow> well_kept (snd p) \<and> length (packet_bytes (snd p)) = unat (mc_bbt (fst p)) \<and> unat (mc_bbt (fst p)) < 2 ^ 16
     \<and> LENGTH('w) = 8 * LENGTH('k) \<and> LENGTH('k) \<in> {1, 2, 4, 8, 16, 32, 64}"

text \<open>What the module makes of it: one write or two.\<close>

definition write_parts ::
  "mmCmd \<times> ('w::len word, 'k::len word) net_axis list \<Rightarrow> (mmCmd \<times> ('w word, 'k word) net_axis list) list" where
  "write_parts p =
     (let c = fst p; first = BUFFER_SIZE - unat (mem_offset c) in
      if unat (mem_offset c) + unat (mc_bbt c) > BUFFER_SIZE
      then [(mk_mmCmd (mc_saddr c) (of_nat first), cut_first first (snd p)),
            (second_cmd (of_nat first) c, cut_rest first (snd p))]
      else [p])"

definition mw_holds ::
  "(mmCmd \<times> ('w::len word, 'k::len word) net_axis list) list
   \<Rightarrow> (mmCmd \<times> ('w word, 'k word) net_axis list) list list \<Rightarrow> ('w word, 'k word) rxMemWriter \<Rightarrow> bool" where
  "mw_holds ps out s \<longleftrightarrow> mw_done (concat (map snd ps)) (map fst ps) (map fst (concat out)) (concat (map snd (concat out)))
     (map (\<lambda>x. length x = 2) out) s"

lemma ConstLog2_widths:
  assumes "K \<in> {1, 2, 4, 8, 16, 32, 64}"
  shows "ConstLog2 K \<le> 6 \<and> 2 ^ ConstLog2 K = K"
proof -
  have one: "ConstLog2 1 = 0" by (subst ConstLog2.simps) simp
  have two: "ConstLog2 (2 * n) = Suc (ConstLog2 n)" if "0 < n" for n using that by (subst ConstLog2.simps) simp
  have "ConstLog2 2 = 1" "ConstLog2 4 = 2" "ConstLog2 8 = 3" "ConstLog2 16 = 4" "ConstLog2 32 = 5" "ConstLog2 64 = 6"
    using one two [of 1] two [of 2] two [of 4] two [of 8] two [of 16] two [of 32] by simp_all
  then show ?thesis using assms one by auto
qed

lemma unat_low_bits:
  assumes "n \<le> 6"
  shows "unat (get_range 0 n (x :: u18) :: u8) = unat x mod 2 ^ n"
proof -
  have le: "(2 :: nat) ^ n \<le> 2 ^ 6" using assms by (rule power_increasing) simp
  have dvd: "2 ^ n dvd (256 :: nat)" using le_imp_power_dvd [of n 8 "2 :: nat"] assms by simp
  have "unat x mod 2 ^ n < 2 ^ 8"
    by (rule order_less_le_trans [OF mod_less_divisor order_trans [OF le]]) simp_all
  then show ?thesis
    by (simp only: get_range_def drop_bit_0 id_apply unsigned_ucast_eq unsigned_take_bit_eq)
      (simp add: take_bit_eq_mod mod_mod_cancel [OF dvd])
qed

lemma unat_first:
  assumes "mem_offset c \<noteq> 0"
  shows "unat (ucast (of_nat BUFFER_SIZE - mc_saddr c) :: u18) = BUFFER_SIZE - unat (mem_offset c)"
proof -
  let ?a = "of_nat BUFFER_SIZE - mc_saddr c :: u32"
  have "(ucast (?a + of_nat (unat (mc_saddr c))) :: u18) = ucast ?a + of_nat (unat (mc_saddr c))" by (rule ucast_seq)
  moreover have "?a + of_nat (unat (mc_saddr c)) = 0x40000" by (simp add: BUFFER_SIZE_def)
  moreover have "(ucast (0x40000 :: u32) :: u18) = 0" by simp
  moreover have "(of_nat (unat (mc_saddr c)) :: u18) = mem_offset c" by (simp add: mem_offset_def)
  ultimately have "(ucast ?a :: u18) = - mem_offset c" by (simp add: eq_neg_iff_add_eq_0)
  then show ?thesis using assms unat_sub_if' [of 0 "mem_offset c"] by (simp add: BUFFER_SIZE_def unat_eq_0)
qed

text \<open>One segment: three more calls than it has words, at most.\<close>

lemma write_one:
  fixes p :: "mmCmd \<times> ('w::len word, 'k::len word) net_axis list"
  assumes h: "mw_holds (p # ps) out s" and ok: "write_ok p"
  shows "\<exists>n \<le> length (snd p) + 3. mw_holds ps (out @ [write_parts p]) ((rxEngMemWrite ^^ n) s)"
proof -
  obtain c ws where p: "p = (c, ws)" by (cases p)
  have wk: "well_kept ws" and len: "length (packet_bytes ws) = unat (mc_bbt c)" and small: "unat (mc_bbt c) < 2 ^ 16"
    and K: "LENGTH('k) \<in> {1, 2, 4, 8, 16, 32, 64}" using ok by (simp_all add: p write_ok_def)
  let ?q = "concat (map snd ps)" and ?first = "BUFFER_SIZE - unat (mem_offset c)"
  define s2 where "s2 = mw_split (s\<lparr>mw_cmdIn := map fst ps, mw_cmd := c, mw_state := MW_IDLE_REG\<rparr>)"
  have s: "mw_state s = MW_IDLE" "mw_dataIn s = ws @ ?q" "mw_cmdIn s = c # map fst ps" "mw_cmdOut s = map fst (concat out)"
    "mw_dataOut s = concat (map snd (concat out))" "mw_doubleAccess s = map (\<lambda>x. length x = 2) out"
    using h by (simp_all add: p mw_holds_def mw_done_def)
  have two: "rxEngMemWrite (rxEngMemWrite s) = s2" using s by (simp add: rxEngMemWrite_def s2_def Let_def)
  have "\<exists>n \<le> length ws + 1. mw_holds ps (out @ [write_parts p]) ((rxEngMemWrite ^^ n) s2)"
  proof (cases "unat (mem_offset c) + unat (mc_bbt c) > BUFFER_SIZE")
    case False
    then have parts: "write_parts p = [p]" by (simp add: write_parts_def p Let_def)
    have s2: "s2 = s\<lparr>mw_cmdIn := map fst ps, mw_cmd := c, mw_doubleAccess := mw_doubleAccess s @ [False],
        mw_cmdOut := mw_cmdOut s @ [c], mw_state := MW_FWD_ALIGNED\<rparr>"
      using False by (simp add: s2_def mw_split_def Let_def mem_offset_def)
    have "\<exists>n \<le> length ws. mw_done ?q (mw_cmdIn s2) (mw_cmdOut s2) (mw_dataOut s2 @ ws) (mw_doubleAccess s2) ((rxEngMemWrite ^^ n) s2)"
      using wk s by (intro mw_forward) (simp_all add: s2 well_kept_def)
    then show ?thesis unfolding parts using s by (auto simp: s2 mw_holds_def p intro: le_SucI)
  next
    case True
    define first where "first = (ucast (of_nat BUFFER_SIZE - mc_saddr c) :: u18)"
    have off: "unat (mem_offset c) < BUFFER_SIZE"
      unfolding BUFFER_SIZE_def using unsigned_less [of "mem_offset c", where ?'a = nat] by simp
    have "mem_offset c \<noteq> 0" using True small by (auto simp: BUFFER_SIZE_def)
    then have u: "unat first = ?first" unfolding first_def by (rule unat_first)
    then have f: "first = of_nat ?first" by (metis of_nat_unat ucast_id)
    have r: "0 < ?first" "?first < length (packet_bytes ws)" using True off len by auto
    have parts: "write_parts p = [(mk_mmCmd (mc_saddr c) (ucast first), cut_first ?first ws), (second_cmd first c, cut_rest ?first ws)]"
    proof -
      have "(ucast first :: u16) = of_nat ?first"
        using u by (metis of_nat_unat)
      then show ?thesis using True f by (simp add: write_parts_def p Let_def)
    qed
    have s2: "s2 = s\<lparr>mw_cmdIn := map fst ps, mw_cmd := c, mw_lengthFirstPkg := first, mw_remainingLength := first,
        mw_offset := get_range 0 (DATA_KEEP_BITS (LENGTH('k))) first, mw_doubleAccess := mw_doubleAccess s @ [True],
        mw_cmdOut := mw_cmdOut s @ [mk_mmCmd (mc_saddr c) (ucast first)], mw_state := MW_CUT_FIRST\<rparr>"
      using True by (simp add: s2_def mw_split_def Let_def first_def mem_offset_def)
    have "\<exists>n \<le> length ws + 1. mw_done ?q (mw_cmdIn s2) (mw_cmdOut s2 @ [second_cmd (mw_lengthFirstPkg s2) (mw_cmd s2)])
      (mw_dataOut s2 @ cut_first ?first ws @ cut_rest ?first ws) (mw_doubleAccess s2) ((rxEngMemWrite ^^ n) s2)"
    proof (rule mw_cut)
      show "unat (mw_offset s2) = ?first mod LENGTH('k)"
        using ConstLog2_widths [OF K] u by (simp add: s2 DATA_KEEP_BITS_def unat_low_bits)
    qed (use wk r s u K in \<open>auto simp: s2\<close>)
    then show ?thesis unfolding parts using s by (simp add: s2 mw_holds_def)
  qed
  then have "\<exists>n \<le> length ws + 1. mw_holds ps (out @ [write_parts p]) ((rxEngMemWrite ^^ n) (rxEngMemWrite (rxEngMemWrite s)))"
    unfolding two .
  from run_after [OF run_after [OF this order_refl] order_refl] show ?thesis by (simp add: p numeral_3_eq_3)
qed

interpretation mw: packet_machine rxEngMemWrite mw_holds write_ok "\<lambda>p. [write_parts p]" "\<lambda>p. length (snd p) + 3"
  by unfold_locales (rule write_one)

text \<open>The addresses a write goes to, with its bytes; and the position of byte \<open>i\<close> of a segment in the buffer.\<close>

definition written :: "mmCmd \<times> ('w::len word, 'k::len word) net_axis list \<Rightarrow> (u32 \<times> u8) list" where
  "written p = zip (map (\<lambda>i. mc_saddr (fst p) + of_nat i) [0 ..< unat (mc_bbt (fst p))]) (packet_bytes (snd p))"

definition ring_addr :: "mmCmd \<Rightarrow> nat \<Rightarrow> u32" where
  "ring_addr c i = set_range 0 18 (mem_offset c + of_nat i) (mc_saddr c)"

definition in_buffer :: "mmCmd \<Rightarrow> mmCmd \<times> ('w::len word, 'k::len word) net_axis list \<Rightarrow> bool" where
  "in_buffer c x \<longleftrightarrow> marked (snd x) \<and> length (packet_bytes (snd x)) = unat (mc_bbt (fst x))
     \<and> unat (mem_offset (fst x)) + unat (mc_bbt (fst x)) \<le> BUFFER_SIZE
     \<and> drop_bit 18 (mc_saddr (fst x)) = drop_bit 18 (mc_saddr c)"

lemma low_high_eqI:
  assumes "(ucast x :: u18) = ucast y" "drop_bit 18 x = drop_bit 18 (y :: u32)"
  shows "x = y"
proof (rule bit_word_eqI)
  fix n assume "n < LENGTH(32)"
  show "bit x n = bit y n"
  proof (cases "n < 18")
    case True
    then show ?thesis using arg_cong [OF assms(1), of "\<lambda>w. bit w n"] by (simp add: bit_simps)
  next
    case False
    then show ?thesis using arg_cong [OF assms(2), of "\<lambda>w. bit w (n - 18)"] by (simp add: bit_simps)
  qed
qed

lemma set_low [simp]:
  "(ucast (set_range 0 18 (v :: u18) (x :: u32)) :: u18) = v"
  "drop_bit 18 (set_range 0 18 (v :: u18) (x :: u32)) = drop_bit 18 x"
  "set_range 0 18 (v :: u18) (set_range 0 18 (w :: u18) (x :: u32)) = set_range 0 18 v x"
  by (rule bit_word_eqI, auto simp: bit_ranges bit_simps dest: bit_imp_le_length)+

lemma addr_in_buffer:
  assumes "unat (ucast x :: u18) + i < 2 ^ 18"
  shows "x + of_nat i = set_range 0 18 (ucast x + of_nat i :: u18) (x :: u32)"
proof (rule low_high_eqI)
  have "unat (ucast x :: u18) = unat x mod 262144" by (simp add: unsigned_ucast_eq take_bit_eq_mod)
  then have low: "unat x mod 262144 + i < 262144" using assms by simp
  have "unat x < 4294967296" using unsigned_less [of x, where ?'a = nat] by simp
  then have "unat x div 262144 < 16384" by (simp add: less_mult_imp_div_less)
  moreover have split: "unat x + i = (unat x div 262144) * 262144 + (unat x mod 262144 + i)" by simp
  ultimately have no: "unat x + i < 4294967296" using low by linarith
  then have "unat (x + of_nat i) = unat x + i" by (simp add: unat_word_ariths unsigned_of_nat take_bit_nat_eq_self)
  moreover have "(unat x + i) div 262144 = unat x div 262144" 
  proof (rule div_nat_eqI)
    show "262144 * (unat x div 262144) \<le> unat x + i" using split by linarith
    show "unat x + i < 262144 * Suc (unat x div 262144)" unfolding mult_Suc_right using split low by linarith
  qed
  ultimately have "unat (drop_bit 18 (x + of_nat i)) = unat (drop_bit 18 x)"
    by (simp only: unat_drop_bit_eq) (simp add: drop_bit_eq_div)
  then show "drop_bit 18 (x + of_nat i) = drop_bit 18 (set_range 0 18 (ucast x + of_nat i :: u18) x)"
    by (simp add: word_unat_eq_iff)
qed (simp add: ucast_seq)

lemma zip_cut:
  "length bs = a + b \<Longrightarrow>
   zip (map f [0 ..< a + b]) bs = zip (map f [0 ..< a]) (take a bs) @ zip (map (\<lambda>i. f (a + i)) [0 ..< b]) (drop a bs)"
  using zip_append [of "map f [0 ..< a]" "take a bs" "map (\<lambda>i. f (a + i)) [0 ..< b]" "drop a bs"]
  by (simp add: upt_plus comp_def)

lemma write_parts_ok:
  assumes "write_ok p"
  shows "concat (map written (write_parts p)) = zip (map (ring_addr (fst p)) [0 ..< unat (mc_bbt (fst p))]) (packet_bytes (snd p))
    \<and> list_all (in_buffer (fst p)) (write_parts p)"
proof -
  obtain c ws where p: "p = (c, ws)" by (cases p)
  have wk: "well_kept ws" and len: "length (packet_bytes ws) = unat (mc_bbt c)" and small: "unat (mc_bbt c) < 2 ^ 16"
    and K: "LENGTH('a) = 8 * LENGTH('b)" using assms by (simp_all add: p write_ok_def)
  show ?thesis
  proof (cases "unat (mem_offset c) + unat (mc_bbt c) > BUFFER_SIZE")
    case False
    then have "mc_saddr c + of_nat i = ring_addr c i" if "i < unat (mc_bbt c)" for i
      using that addr_in_buffer [of "mc_saddr c" i] by (simp add: ring_addr_def mem_offset_def BUFFER_SIZE_def)
    then have "written p = zip (map (ring_addr c) [0 ..< unat (mc_bbt c)]) (packet_bytes ws)"
      unfolding written_def p fst_conv snd_conv by (intro arg_cong2 [where f = zip] map_cong) auto
    then show ?thesis using False wk len
      by (simp add: p write_parts_def in_buffer_def well_kept_def Let_def)
  next
    case True
    define f where "f = BUFFER_SIZE - unat (mem_offset c)"
    define b where "b = unat (mc_bbt c) - f"
    have off: "unat (mem_offset c) < BUFFER_SIZE"
      unfolding BUFFER_SIZE_def using unsigned_less [of "mem_offset c", where ?'a = nat] by simp
    have f: "0 < f" "f < unat (mc_bbt c)" "unat (mem_offset c) + f = BUFFER_SIZE" using True off by (auto simp: f_def)
    have bbt: "unat (mc_bbt c) = f + b" using f(2) by (simp add: b_def)
    let ?x = "mk_mmCmd (mc_saddr c) (of_nat f)" and ?y = "second_cmd (of_nat f) c"
    have parts: "write_parts p = [(?x, cut_first f ws), (?y, cut_rest f ws)]"
      using True by (simp add: write_parts_def p Let_def f_def)
    have x: "mc_saddr ?x = mc_saddr c" "unat (mc_bbt ?x) = f"
      using f(2) small by (simp_all add: mk_mmCmd_def unsigned_ucast_eq unsigned_of_nat take_bit_nat_eq_self)
    have "unat (ucast (of_nat f :: u18) :: u23) = f"
      using f(2) small by (simp add: unsigned_ucast_eq unsigned_of_nat take_bit_nat_eq_self)
    then have y: "mc_saddr ?y = set_range 0 18 (0 :: u18) (mc_saddr c)" "unat (mc_bbt ?y) = b"
      using f(2) by (simp_all add: second_cmd_def unat_sub_if' b_def)
    note bytes = cut_bytes [OF K wk f(1), unfolded len, OF f(2)]
    have "mc_saddr c + of_nat i = ring_addr c i" if "i < f" for i
      using that f(3) addr_in_buffer [of "mc_saddr c" i] by (simp add: ring_addr_def mem_offset_def BUFFER_SIZE_def)
    moreover have "set_range 0 18 (0 :: u18) (mc_saddr c) + of_nat i = ring_addr c (f + i)" if "i < b" for i
    proof -
      have "mem_offset c + of_nat (f + i) = of_nat (unat (mem_offset c) + f) + of_nat i" by simp
      also have "\<dots> = of_nat i" unfolding f(3) by (simp add: BUFFER_SIZE_def)
      finally have e: "mem_offset c + of_nat (f + i) = of_nat i" .
      then have "ring_addr c (f + i) = set_range 0 18 (of_nat i :: u18) (mc_saddr c)" by (simp only: ring_addr_def e)
      moreover have "i < 2 ^ 18" using that bbt small by simp
      ultimately show ?thesis using addr_in_buffer [of "set_range 0 18 (0 :: u18) (mc_saddr c)" i] by simp
    qed
    ultimately have "written (?x, cut_first f ws) = zip (map (ring_addr c) [0 ..< f]) (take f (packet_bytes ws))"
      "written (?y, cut_rest f ws) = zip (map (\<lambda>i. ring_addr c (f + i)) [0 ..< b]) (drop f (packet_bytes ws))"
      unfolding written_def fst_conv snd_conv x y using bytes by (auto intro!: arg_cong2 [where f = zip] map_cong)
    then have "concat (map written (write_parts p)) = zip (map (ring_addr c) [0 ..< unat (mc_bbt c)]) (packet_bytes ws)"
      unfolding bbt using zip_cut [of "packet_bytes ws" f b "ring_addr c"] len bbt by (simp add: parts)
    moreover have "list_all (in_buffer c) (write_parts p)"
      using bytes x y f bbt len small by (simp add: parts in_buffer_def mem_offset_def BUFFER_SIZE_def)
    ultimately show ?thesis by (simp add: p)
  qed
qed

definition mw_start :: "(mmCmd \<times> ('w, 'k) net_axis list) list \<Rightarrow> ('w, 'k) net_axis \<Rightarrow> ('w, 'k) rxMemWriter" where
  "mw_start ps junk = \<lparr>mw_dataIn = concat (map snd ps), mw_cmdIn = map fst ps, mw_cmdOut = [], mw_dataOut = [],
     mw_doubleAccess = [], mw_state = MW_IDLE, mw_cmd = mk_mmCmd 0 0, mw_remainingLength = 0, mw_lengthFirstPkg = 0,
     mw_offset = 0, mw_prevWord = junk\<rparr>"

text \<open>C17. For any sequence of segments with their write commands, at any width, \<open>rxEngMemWrite\<close> ends in a bounded number of calls
  with one or two writes per segment, as it tells on \<open>doubleAccess\<close>; the data stream consists of the packets of these writes, none of them leaves the buffer
  that its command points into, and together they put byte \<open>i\<close> of the segment to the position \<open>i\<close> bytes behind its
  start, modulo the size of the buffer.\<close>

theorem segments_written_in_buffer:
  fixes ps :: "(mmCmd \<times> ('w::len word, 'k::len word) net_axis list) list"
  assumes "list_all write_ok ps"
  shows "\<exists>n \<le> (\<Sum>p \<leftarrow> ps. length (snd p) + 3). \<exists>parts. let s = (rxEngMemWrite ^^ n) (mw_start ps junk) in
    mw_dataIn s = [] \<and> mw_cmdIn s = [] \<and> mw_cmdOut s = map fst (concat parts) \<and> mw_dataOut s = concat (map snd (concat parts))
    \<and> mw_doubleAccess s = map (\<lambda>x. length x = 2) parts
    \<and> list_all2 (\<lambda>p x. list_all (in_buffer (fst p)) x
        \<and> concat (map written x) = zip (map (ring_addr (fst p)) [0 ..< unat (mc_bbt (fst p))]) (packet_bytes (snd p))) ps parts"
proof -
  have "mw_holds ps [] (mw_start ps junk)" by (simp add: mw_holds_def mw_done_def mw_start_def)
  from mw.all_packets [OF this assms] obtain n where "n \<le> (\<Sum>p \<leftarrow> ps. length (snd p) + 3)"
    "mw_holds [] (map write_parts ps) ((rxEngMemWrite ^^ n) (mw_start ps junk))" by (auto simp: concat_map_singleton)
  moreover have "list_all2 (\<lambda>p x. list_all (in_buffer (fst p)) x
        \<and> concat (map written x) = zip (map (ring_addr (fst p)) [0 ..< unat (mc_bbt (fst p))]) (packet_bytes (snd p))) ps (map write_parts ps)"
    using assms by (induction ps) (simp_all add: write_parts_ok)
  ultimately show ?thesis
    by (intro exI [of _ n] conjI exI [of _ "map write_parts ps"]) (auto simp: mw_holds_def mw_done_def Let_def)
qed

definition edge_segment :: "mmCmd \<times> (64 word, 8 word) net_axis list" where
  "edge_segment = (mk_mmCmd 0x7FFFB 9,
     [\<lparr>na_data = 0x0807060504030201, na_keep = - 1, na_last = False\<rparr>, \<lparr>na_data = 9, na_keep = 1, na_last = True\<rparr>])"

theorem segments_written_in_buffer_witness:
  "\<exists>n \<le> 5. \<exists>parts. mw_doubleAccess ((rxEngMemWrite ^^ n) (mw_start [edge_segment] zero_word)) = map (\<lambda>x. length x = 2) parts
     \<and> mw_cmdOut ((rxEngMemWrite ^^ n) (mw_start [edge_segment] zero_word)) = map fst (concat parts)
     \<and> mw_dataOut ((rxEngMemWrite ^^ n) (mw_start [edge_segment] zero_word)) = concat (map snd (concat parts))"
proof -
  have "mask 8 = (- 1 :: 8 word)" "mask 1 = (1 :: 8 word)" by (simp_all add: mask_eq_exp_minus_1)
  then have "keeps \<lparr>na_data = 0x0807060504030201 :: 64 word, na_keep = - 1 :: 8 word, na_last = False\<rparr> 8"
    "keeps \<lparr>na_data = 9 :: 64 word, na_keep = 1 :: 8 word, na_last = True\<rparr> 1" by (simp_all add: keeps_def)
  then have "write_ok edge_segment" by (auto simp: edge_segment_def write_ok_def mk_mmCmd_def length_word_bytes)
  then have ok: "list_all write_ok [edge_segment]" by simp
  have five: "(\<Sum>p \<leftarrow> [edge_segment]. length (snd p) + 3) = 5" by (simp add: edge_segment_def)
  show ?thesis using segments_written_in_buffer [OF ok, of zero_word, unfolded five Let_def]
    by (elim exE conjE) (intro exI conjI, assumption+)
qed

end
