(* ===== verification/Ip_Headers.thy ===== *)
theory Ip_Headers
  imports Bit_Ranges
begin

text \<open>
  The IPv4 header of \<^verbatim>\<open>ipv4/ipv4.hpp\<close> and the TCP headers of \<^verbatim>\<open>toe/toe_internals.hpp\<close>: the pseudo header and the
  pseudo header with the TCP header behind it. The names of the accessors are those of the classes with
  a prefix (\<open>ip\<close>, \<open>pseudo\<close>, \<open>tcp\<close>).
\<close>

definition IPV4_HEADER_SIZE :: nat where "IPV4_HEADER_SIZE = 160"
definition TCP_PSEUDO_HEADER_SIZE :: nat where "TCP_PSEUDO_HEADER_SIZE = 96"
definition TCP_FULL_PSEUDO_HEADER_SIZE :: nat where "TCP_FULL_PSEUDO_HEADER_SIZE = 256"

type_synonym ipv4Header = "160 word"
type_synonym tcpPseudoHeader = "96 word"
type_synonym tcpFullPseudoHeader = "256 word"
type_synonym tcpOptionalHeader = "320 word"

definition ip_header_init :: ipv4Header where
  "ip_header_init = set_range 64 8 (0x40 :: u8) (set_range 0 8 (0x45 :: u8) 0)"
definition ip_setSrcAddr :: "u32 \<Rightarrow> ipv4Header \<Rightarrow> ipv4Header" where "ip_setSrcAddr addr h = set_range 96 32 addr h"
definition ip_getSrcAddr :: "ipv4Header \<Rightarrow> u32" where "ip_getSrcAddr h = get_range 96 32 h"
definition ip_setDstAddr :: "u32 \<Rightarrow> ipv4Header \<Rightarrow> ipv4Header" where "ip_setDstAddr addr h = set_range 128 32 addr h"
definition ip_getDstAddr :: "ipv4Header \<Rightarrow> u32" where "ip_getDstAddr h = get_range 128 32 h"
definition ip_setLength :: "u16 \<Rightarrow> ipv4Header \<Rightarrow> ipv4Header" where "ip_setLength len h = set_range 16 16 (reverse len) h"
definition ip_getLength :: "ipv4Header \<Rightarrow> u16" where "ip_getLength h = reverse (get_range 16 16 h)"
definition ip_setProtocol :: "u8 \<Rightarrow> ipv4Header \<Rightarrow> ipv4Header" where "ip_setProtocol p h = set_range 72 8 p h"
definition ip_getProtocol :: "ipv4Header \<Rightarrow> u8" where "ip_getProtocol h = get_range 72 8 h"
definition ip_getHeaderLength :: "ipv4Header \<Rightarrow> u4" where "ip_getHeaderLength h = get_range 0 4 h"

definition pseudo_header_init :: tcpPseudoHeader where
  "pseudo_header_init = set_range 72 8 (0x06 :: u8) (set_range 64 8 (0 :: u8) 0)"
definition pseudo_setSrcAddr :: "u32 \<Rightarrow> tcpPseudoHeader \<Rightarrow> tcpPseudoHeader" where "pseudo_setSrcAddr addr h = set_range 0 32 addr h"
definition pseudo_setDstAddr :: "u32 \<Rightarrow> tcpPseudoHeader \<Rightarrow> tcpPseudoHeader" where "pseudo_setDstAddr addr h = set_range 32 32 addr h"
definition pseudo_setLength :: "u16 \<Rightarrow> tcpPseudoHeader \<Rightarrow> tcpPseudoHeader" where "pseudo_setLength len h = set_range 80 16 (reverse len) h"

definition tcp_setSrcAddr :: "u32 \<Rightarrow> tcpFullPseudoHeader \<Rightarrow> tcpFullPseudoHeader" where "tcp_setSrcAddr addr h = set_range 0 32 addr h"
definition tcp_getSrcAddr :: "tcpFullPseudoHeader \<Rightarrow> u32" where "tcp_getSrcAddr h = get_range 0 32 h"
definition tcp_setDstAddr :: "u32 \<Rightarrow> tcpFullPseudoHeader \<Rightarrow> tcpFullPseudoHeader" where "tcp_setDstAddr addr h = set_range 32 32 addr h"
definition tcp_getDstAddr :: "tcpFullPseudoHeader \<Rightarrow> u32" where "tcp_getDstAddr h = get_range 32 32 h"
definition tcp_setLength :: "u16 \<Rightarrow> tcpFullPseudoHeader \<Rightarrow> tcpFullPseudoHeader" where "tcp_setLength len h = set_range 80 16 (reverse len) h"
definition tcp_getLength :: "tcpFullPseudoHeader \<Rightarrow> u16" where "tcp_getLength h = reverse (get_range 80 16 h)"
definition tcp_setSrcPort :: "u16 \<Rightarrow> tcpFullPseudoHeader \<Rightarrow> tcpFullPseudoHeader" where "tcp_setSrcPort port h = set_range 96 16 port h"
definition tcp_getSrcPort :: "tcpFullPseudoHeader \<Rightarrow> u16" where "tcp_getSrcPort h = get_range 96 16 h"
definition tcp_setDstPort :: "u16 \<Rightarrow> tcpFullPseudoHeader \<Rightarrow> tcpFullPseudoHeader" where "tcp_setDstPort port h = set_range 112 16 port h"
definition tcp_getDstPort :: "tcpFullPseudoHeader \<Rightarrow> u16" where "tcp_getDstPort h = get_range 112 16 h"
definition tcp_setSeqNumb :: "u32 \<Rightarrow> tcpFullPseudoHeader \<Rightarrow> tcpFullPseudoHeader" where "tcp_setSeqNumb seq h = set_range 128 32 (reverse seq) h"
definition tcp_getSeqNumb :: "tcpFullPseudoHeader \<Rightarrow> u32" where "tcp_getSeqNumb h = reverse (get_range 128 32 h)"
definition tcp_setAckNumb :: "u32 \<Rightarrow> tcpFullPseudoHeader \<Rightarrow> tcpFullPseudoHeader" where "tcp_setAckNumb ack h = set_range 160 32 (reverse ack) h"
definition tcp_getAckNumb :: "tcpFullPseudoHeader \<Rightarrow> u32" where "tcp_getAckNumb h = reverse (get_range 160 32 h)"
definition tcp_setDataOffset :: "u4 \<Rightarrow> tcpFullPseudoHeader \<Rightarrow> tcpFullPseudoHeader" where "tcp_setDataOffset offset h = set_range 196 4 offset h"
definition tcp_getDataOffset :: "tcpFullPseudoHeader \<Rightarrow> u4" where "tcp_getDataOffset h = get_range 196 4 h"
definition tcp_setFinFlag :: "bool \<Rightarrow> tcpFullPseudoHeader \<Rightarrow> tcpFullPseudoHeader" where "tcp_setFinFlag b h = set_range 200 1 (of_bool b :: u1) h"
definition tcp_getFinFlag :: "tcpFullPseudoHeader \<Rightarrow> bool" where "tcp_getFinFlag h \<longleftrightarrow> bit h 200"
definition tcp_setSynFlag :: "bool \<Rightarrow> tcpFullPseudoHeader \<Rightarrow> tcpFullPseudoHeader" where "tcp_setSynFlag b h = set_range 201 1 (of_bool b :: u1) h"
definition tcp_getSynFlag :: "tcpFullPseudoHeader \<Rightarrow> bool" where "tcp_getSynFlag h \<longleftrightarrow> bit h 201"
definition tcp_setRstFlag :: "bool \<Rightarrow> tcpFullPseudoHeader \<Rightarrow> tcpFullPseudoHeader" where "tcp_setRstFlag b h = set_range 202 1 (of_bool b :: u1) h"
definition tcp_getRstFlag :: "tcpFullPseudoHeader \<Rightarrow> bool" where "tcp_getRstFlag h \<longleftrightarrow> bit h 202"
definition tcp_setAckFlag :: "bool \<Rightarrow> tcpFullPseudoHeader \<Rightarrow> tcpFullPseudoHeader" where "tcp_setAckFlag b h = set_range 204 1 (of_bool b :: u1) h"
definition tcp_getAckFlag :: "tcpFullPseudoHeader \<Rightarrow> bool" where "tcp_getAckFlag h \<longleftrightarrow> bit h 204"
definition tcp_setWindowSize :: "u16 \<Rightarrow> tcpFullPseudoHeader \<Rightarrow> tcpFullPseudoHeader" where "tcp_setWindowSize win h = set_range 208 16 (reverse win) h"
definition tcp_getWindowSize :: "tcpFullPseudoHeader \<Rightarrow> u16" where "tcp_getWindowSize h = reverse (get_range 208 16 h)"
definition tcp_setChecksum :: "u16 \<Rightarrow> tcpFullPseudoHeader \<Rightarrow> tcpFullPseudoHeader" where "tcp_setChecksum checksum h = set_range 224 16 checksum h"
definition tcp_getChecksum :: "tcpFullPseudoHeader \<Rightarrow> u16" where "tcp_getChecksum h = get_range 224 16 h"

lemmas ip_header_defs = ip_setSrcAddr_def ip_getSrcAddr_def ip_setDstAddr_def ip_getDstAddr_def ip_setLength_def ip_getLength_def
  ip_setProtocol_def ip_getProtocol_def ip_getHeaderLength_def
lemmas tcp_set_defs = tcp_setSrcAddr_def tcp_setDstAddr_def tcp_setLength_def tcp_setSrcPort_def tcp_setDstPort_def
  tcp_setSeqNumb_def tcp_setAckNumb_def tcp_setDataOffset_def tcp_setFinFlag_def tcp_setSynFlag_def tcp_setRstFlag_def
  tcp_setAckFlag_def tcp_setWindowSize_def tcp_setChecksum_def
lemmas tcp_get_defs = tcp_getSrcAddr_def tcp_getDstAddr_def tcp_getLength_def tcp_getSrcPort_def tcp_getDstPort_def
  tcp_getSeqNumb_def tcp_getAckNumb_def tcp_getDataOffset_def tcp_getFinFlag_def tcp_getSynFlag_def tcp_getRstFlag_def
  tcp_getAckFlag_def tcp_getWindowSize_def tcp_getChecksum_def

lemma bit_of_bool_1 [simp]: "bit (of_bool b :: u1) 0 = b"
  by simp

text \<open>A field is read as it was set; the other fields keep their values.\<close>

lemma tcp_get_set [simp]:
  "tcp_getSrcAddr (tcp_setSrcAddr a h) = a" "tcp_getDstAddr (tcp_setDstAddr a h) = a" "tcp_getLength (tcp_setLength n h) = n"
  "tcp_getSrcPort (tcp_setSrcPort p h) = p" "tcp_getDstPort (tcp_setDstPort p h) = p" "tcp_getSeqNumb (tcp_setSeqNumb q h) = q"
  "tcp_getAckNumb (tcp_setAckNumb q h) = q" "tcp_getDataOffset (tcp_setDataOffset d h) = d"
  "tcp_getFinFlag (tcp_setFinFlag b h) = b" "tcp_getSynFlag (tcp_setSynFlag b h) = b" "tcp_getRstFlag (tcp_setRstFlag b h) = b"
  "tcp_getAckFlag (tcp_setAckFlag b h) = b" "tcp_getWindowSize (tcp_setWindowSize w h) = w"
  by (simp_all add: tcp_set_defs tcp_get_defs get_set_range reverse_reverse bit_ranges)

lemma ip_get_set [simp]:
  "ip_getSrcAddr (ip_setSrcAddr a h) = a" "ip_getDstAddr (ip_setDstAddr a h) = a" "ip_getLength (ip_setLength n h) = n"
  "ip_getProtocol (ip_setProtocol p h) = p"
  by (simp_all add: ip_header_defs get_set_range reverse_reverse)

text \<open>The header the transmit engine builds for a segment.\<close>

definition tcp_header ::
  "u32 \<Rightarrow> u32 \<Rightarrow> u16 \<Rightarrow> u16 \<Rightarrow> u16 \<Rightarrow> u32 \<Rightarrow> u32 \<Rightarrow> u4 \<Rightarrow> bool \<Rightarrow> bool \<Rightarrow> bool \<Rightarrow> bool \<Rightarrow> u16
   \<Rightarrow> tcpFullPseudoHeader \<Rightarrow> tcpFullPseudoHeader" where
  "tcp_header src dst len sport dport sq ak offs fi sy rs ac win h =
     tcp_setChecksum 0 (tcp_setWindowSize win (tcp_setAckFlag ac (tcp_setRstFlag rs (tcp_setSynFlag sy (tcp_setFinFlag fi
       (tcp_setDataOffset offs (tcp_setAckNumb ak (tcp_setSeqNumb sq (tcp_setDstPort dport (tcp_setSrcPort sport
         (tcp_setLength len (tcp_setDstAddr dst (tcp_setSrcAddr src h)))))))))))))"

lemma tcp_header_fields:
  fixes src dst len sport dport sq ak offs fi sy rs ac win h
  defines "x \<equiv> tcp_header src dst len sport dport sq ak offs fi sy rs ac win h"
  shows "tcp_getSrcAddr x = src" "tcp_getDstAddr x = dst" "tcp_getLength x = len" "tcp_getSrcPort x = sport"
    "tcp_getDstPort x = dport" "tcp_getSeqNumb x = sq" "tcp_getAckNumb x = ak" "tcp_getDataOffset x = offs"
    "tcp_getFinFlag x = fi" "tcp_getSynFlag x = sy" "tcp_getRstFlag x = rs" "tcp_getAckFlag x = ac"
    "tcp_getWindowSize x = win" "tcp_getChecksum x = 0"
  unfolding x_def tcp_header_def
  by (simp_all add: tcp_set_defs tcp_get_defs get_set_range get_set_range_other reverse_reverse bit_ranges)

end
