(* ===== verification/Toe_Rx_Headers.thy ===== *)
theory Toe_Rx_Headers
  imports Toe_Rx Axi_Streams Ip_Headers
begin

text \<open>
  The modules of the receive engine in front of the check (\<^verbatim>\<open>toe/rx_engine/rx_engine.cpp\<close>): the IP header is parsed and
  removed, the pseudo header is put in front, and behind the checksum the TCP header is parsed and
  removed with its options. \<^verbatim>\<open>drop_optional_ip_header\<close> is in \<^verbatim>\<open>ipv4/ipv4.hpp\<close>, with a copy for the IPv4 module.
\<close>

unbundle bit_operations_syntax

subsection \<open>IP header\<close>

record pseudoMeta =
  their_address :: u32
  our_address :: u32
  pm_length :: u16

record ('w, 'k) ipProcess =
  pi_dataIn :: "('w, 'k) net_axis stream"
  pi_dropLength :: "u4 stream"
  pi_metaOut :: "pseudoMeta stream"
  pi_dataOut :: "('w, 'k) net_axis stream"
  pi_header :: "ipv4Header packetHeader"
  pi_headerWordsDropped :: u4
  pi_metaWritten :: bool

definition ip_meta :: "ipv4Header \<Rightarrow> pseudoMeta" where
  "ip_meta h = \<lparr>their_address = ip_getSrcAddr h, our_address = ip_getDstAddr h,
     pm_length = ip_getLength h - ucast (ip_getHeaderLength h) * 4\<rparr>"

definition toe_process_ipv4 :: "('w::len word, 'k) ipProcess \<Rightarrow> ('w word, 'k) ipProcess" where
  "toe_process_ipv4 s =
     (case pi_dataIn s of
        [] \<Rightarrow> s
      | w # q \<Rightarrow>
         (let p = parseWord (na_data w) (pi_header s); h = ph_header p;
              s1 = s\<lparr>pi_dataIn := q, pi_header := p\<rparr>;
              s2 = (if ph_ready p then s1\<lparr>pi_dataOut := pi_dataOut s @ [w]\<rparr> else s1);
              s3 = (if ph_ready p \<and> \<not> pi_metaWritten s
                    then s2\<lparr>pi_dropLength := pi_dropLength s @ [ip_getHeaderLength h - pi_headerWordsDropped s],
                           pi_metaOut := pi_metaOut s @ [ip_meta h], pi_metaWritten := True\<rparr>
                    else s2)
          in if na_last w then s3\<lparr>pi_metaWritten := False, pi_header := clear_header p, pi_headerWordsDropped := 0\<rparr>
             else s3\<lparr>pi_headerWordsDropped := pi_headerWordsDropped s + of_nat (LENGTH('w) div 32)\<rparr>))"

datatype dohState = DOH_META | DOH_DROP | DOH_BODY | DOH_SHIFT | DOH_LAST | DOH_SHIFT_FIVE | DOH_LAST_FIVE

record ('w, 'k) ipDropper =
  id_lengthIn :: "u4 stream"
  id_dataIn :: "('w, 'k) net_axis stream"
  id_dataOut :: "('w, 'k) net_axis stream"
  id_state :: dohState
  id_length :: u4
  id_prevWord :: "('w, 'k) net_axis"

definition id_shift :: "nat \<Rightarrow> dohState \<Rightarrow> ('w::len word, 'k::len word) ipDropper \<Rightarrow> ('w word, 'k word) ipDropper" where
  "id_shift offs last_state s =
     (case id_dataIn s of
        [] \<Rightarrow> s
      | w # q \<Rightarrow>
         (let lst = (\<not> bit (na_keep w) offs)
          in s\<lparr>id_dataIn := q, id_dataOut := id_dataOut s @ [align_words offs (id_prevWord s) w lst], id_prevWord := w,
               id_state := if lst then DOH_META else if na_last w then last_state else id_state s\<rparr>))"

definition id_rest :: "nat \<Rightarrow> ('w::len word, 'k::len word) ipDropper \<Rightarrow> ('w word, 'k word) ipDropper" where
  "id_rest offs s = s\<lparr>id_dataOut := id_dataOut s @ [align_words offs (id_prevWord s) zero_word True], id_state := DOH_META\<rparr>"

definition drop_optional_ip_header :: "('w::len word, 'k::len word) ipDropper \<Rightarrow> ('w word, 'k word) ipDropper" where
  "drop_optional_ip_header s =
     (case id_state s of
        DOH_META \<Rightarrow>
          (if id_lengthIn s \<noteq> [] \<and> id_dataIn s \<noteq> [] then
             (let len = hd (id_lengthIn s); w = hd (id_dataIn s);
                  s1 = s\<lparr>id_lengthIn := tl (id_lengthIn s), id_length := len\<rparr>;
                  s2 = s1\<lparr>id_dataIn := tl (id_dataIn s), id_prevWord := w\<rparr>
              in if LENGTH('w) = 64 \<or> LENGTH('w) = 128 then
                   (if len > 1 then s1\<lparr>id_state := DOH_DROP\<rparr> else s2\<lparr>id_state := DOH_SHIFT\<rparr>)
                 else if LENGTH('w) = 256 \<or> LENGTH('w) = 512 then
                   (if len = 5 then s2\<lparr>id_state := if na_last w then DOH_LAST_FIVE else DOH_SHIFT_FIVE\<rparr> else s1)
                 else s1)
           else s)
      | DOH_DROP \<Rightarrow>
          (case id_dataIn s of
             [] \<Rightarrow> s
           | w # q \<Rightarrow>
              (let len = id_length s - 2
               in s\<lparr>id_dataIn := q, id_prevWord := w, id_length := len,
                    id_state := if len = 1 then DOH_SHIFT else if len = 0 then DOH_BODY else DOH_DROP\<rparr>))
      | DOH_BODY \<Rightarrow>
          (case id_dataIn s of
             [] \<Rightarrow> s
           | w # q \<Rightarrow> s\<lparr>id_dataIn := q, id_dataOut := id_dataOut s @ [w], id_state := if na_last w then DOH_META else DOH_BODY\<rparr>)
      | DOH_SHIFT \<Rightarrow> id_shift 4 DOH_LAST s
      | DOH_SHIFT_FIVE \<Rightarrow> id_shift 20 DOH_LAST_FIVE s
      | DOH_LAST \<Rightarrow> id_rest 4 s
      | DOH_LAST_FIVE \<Rightarrow> id_rest 20 s)"

text \<open>The copy, line for line.\<close>

definition ipv4_drop_optional_ip_header :: "('w::len word, 'k::len word) ipDropper \<Rightarrow> ('w word, 'k word) ipDropper" where
  "ipv4_drop_optional_ip_header s = drop_optional_ip_header s"

subsection \<open>Pseudo header\<close>

datatype pseudoState = PS_META | PS_HEADER

record ('w, 'k) pseudoBuilder =
  pb_ipMetaIn :: "pseudoMeta stream"
  pb_headerOut :: "('w, 'k) net_axis stream"
  pb_state :: pseudoState
  pb_header :: "tcpPseudoHeader packetHeader"

text \<open>\<open>junk\<close>: what \<open>sendWord\<close> held before.\<close>

definition constructPseudoHeader :: "'w::len word \<Rightarrow> ('w word, 'k::len word) pseudoBuilder \<Rightarrow> ('w word, 'k word) pseudoBuilder" where
  "constructPseudoHeader junk s =
     (case pb_state s of
        PS_META \<Rightarrow>
          (case pb_ipMetaIn s of
             [] \<Rightarrow> s
           | m # q \<Rightarrow>
              (let p = clear_header (pb_header s)
               in s\<lparr>pb_ipMetaIn := q, pb_state := PS_HEADER,
                    pb_header := p\<lparr>ph_header := pseudo_setLength (pm_length m) (pseudo_setDstAddr (our_address m)
                      (pseudo_setSrcAddr (their_address m) (ph_header p)))\<rparr>\<rparr>))
      | PS_HEADER \<Rightarrow>
          (let (d, remaining, p) = consumeWord junk (pb_header s); lst = (remaining = 0)
           in s\<lparr>pb_header := p, pb_headerOut := pb_headerOut s @ [\<lparr>na_data = d, na_keep = - 1, na_last = lst\<rparr>],
                pb_state := if lst then PS_META else PS_HEADER\<rparr>))"

record ('w, 'k) pseudoPrepend =
  pp_headerIn :: "('w, 'k) net_axis stream"
  pp_packetIn :: "('w, 'k) net_axis stream"
  pp_output :: "('w, 'k) net_axis stream"
  pp_payload :: bool
  pp_prevWord :: "('w, 'k) net_axis"
  pp_firstPayload :: bool

definition prependPseudoHeader :: "('w::len word, 'k) pseudoPrepend \<Rightarrow> ('w word, 'k) pseudoPrepend" where
  "prependPseudoHeader s =
     (if \<not> pp_payload s then
        (case pp_headerIn s of
           [] \<Rightarrow> s
         | w # q \<Rightarrow>
            (if \<not> na_last w then s\<lparr>pp_headerIn := q, pp_prevWord := w, pp_output := pp_output s @ [w]\<rparr>
             else s\<lparr>pp_headerIn := q, pp_prevWord := w\<lparr>na_last := False\<rparr>, pp_firstPayload := True, pp_payload := True\<rparr>))
      else
        (case pp_packetIn s of
           [] \<Rightarrow> s
         | w # q \<Rightarrow>
            (let n = (if LENGTH('w) = 64 then 32 else if LENGTH('w) > 64 then 96 else 0);
                 v = (if pp_firstPayload s
                      then w\<lparr>na_data := set_range 0 n (get_range 0 n (na_data (pp_prevWord s)) :: 'w word) (na_data w)\<rparr> else w)
             in s\<lparr>pp_packetIn := q, pp_output := pp_output s @ [v], pp_firstPayload := False, pp_payload := \<not> na_last w\<rparr>)))"

subsection \<open>TCP header\<close>

record optionalFieldsMeta =
  om_dataOffset :: u4
  om_syn :: bool

record ('w, 'k) tcpProcess =
  tc_data :: "('w, 'k) net_axis stream"
  tc_out :: "('w, 'k) net_axis stream"
  tc_validFifoIn :: "bool stream"
  tc_metaDataFifoOut :: "rxEngineMetaData stream"
  tc_tupleFifoOut :: "fourTuple stream"
  tc_portTableOut :: "u16 stream"
  tc_ofMetaOut :: "optionalFieldsMeta stream"
  tc_header :: "tcpFullPseudoHeader packetHeader"
  tc_firstWord :: bool
  tc_pkgValid :: bool
  tc_metaWritten :: bool

text \<open>\<open>winScale\<close> is set later, from the options.\<close>

definition tcp_meta :: "u4 \<Rightarrow> tcpFullPseudoHeader \<Rightarrow> rxEngineMetaData" where
  "tcp_meta junk h = \<lparr>me_seqNumb = tcp_getSeqNumb h, me_ackNumb = tcp_getAckNumb h, me_winSize = tcp_getWindowSize h,
     me_winScale = junk, me_length = tcp_getLength h - ucast (tcp_getDataOffset h) * 4, me_ack = tcp_getAckFlag h,
     me_rst = tcp_getRstFlag h, me_syn = tcp_getSynFlag h, me_fin = tcp_getFinFlag h, me_dataOffset = tcp_getDataOffset h\<rparr>"

definition tcp_tuple :: "tcpFullPseudoHeader \<Rightarrow> fourTuple" where
  "tcp_tuple h = \<lparr>srcIp = tcp_getSrcAddr h, dstIp = tcp_getDstAddr h, srcPort = tcp_getSrcPort h, dstPort = tcp_getDstPort h\<rparr>"

definition has_fields_or_data :: "tcpFullPseudoHeader \<Rightarrow> bool" where
  "has_fields_or_data h \<longleftrightarrow> tcp_getLength h - ucast (tcp_getDataOffset h) * 4 \<noteq> 0 \<or> tcp_getDataOffset h > 5"

definition tcp_emit_meta :: "u4 \<Rightarrow> tcpFullPseudoHeader \<Rightarrow> ('w, 'k) tcpProcess \<Rightarrow> ('w, 'k) tcpProcess" where
  "tcp_emit_meta junk h s =
     (let s1 = s\<lparr>tc_metaDataFifoOut := tc_metaDataFifoOut s @ [tcp_meta junk h],
                 tc_portTableOut := tc_portTableOut s @ [tcp_getDstPort h], tc_tupleFifoOut := tc_tupleFifoOut s @ [tcp_tuple h]\<rparr>
      in if has_fields_or_data h
         then s1\<lparr>tc_ofMetaOut := tc_ofMetaOut s @ [\<lparr>om_dataOffset = tcp_getDataOffset h - 5, om_syn = tcp_getSynFlag h\<rparr>]\<rparr>
         else s1)"

definition processPseudoHeader :: "u4 \<Rightarrow> ('w::len word, 'k) tcpProcess \<Rightarrow> ('w word, 'k) tcpProcess" where
  "processPseudoHeader junk s =
     (if tc_data s \<noteq> [] \<and> (\<not> tc_firstWord s \<or> tc_validFifoIn s \<noteq> []) then
        (let w = hd (tc_data s); p = parseWord (na_data w) (tc_header s); h = ph_header p;
             valid = (if tc_firstWord s then hd (tc_validFifoIn s) else tc_pkgValid s);
             s1 = s\<lparr>tc_data := tl (tc_data s), tc_header := p, tc_pkgValid := valid, tc_firstWord := False,
                    tc_validFifoIn := if tc_firstWord s then tl (tc_validFifoIn s) else tc_validFifoIn s\<rparr>;
             fwd = (if LENGTH('w) \<le> TCP_FULL_PSEUDO_HEADER_SIZE then tc_metaWritten s else ph_ready p \<and> has_fields_or_data h);
             s2 = (if valid \<and> fwd then s1\<lparr>tc_out := tc_out s @ [w]\<rparr> else s1);
             s3 = (if ph_ready p \<and> \<not> tc_metaWritten s then (if valid then tcp_emit_meta junk h s2 else s2)\<lparr>tc_metaWritten := True\<rparr> else s2)
         in if na_last w then s3\<lparr>tc_header := clear_header p, tc_firstWord := True, tc_metaWritten := False\<rparr> else s3)
      else s)"

subsection \<open>TCP options\<close>

datatype optDropState = OD_FIRST | OD_WORDS | OD_REST

record ('w, 'k) optDropper =
  od_metaIn :: "optionalFieldsMeta stream"
  od_dataIn :: "('w, 'k) net_axis stream"
  od_dataOffsetOut :: "u4 stream"
  od_optionalHeaderFieldsOut :: "tcpOptionalHeader stream"
  od_dataOut :: "('w, 'k) net_axis stream"
  od_state :: optDropState
  od_dataOffset :: u4
  od_prevWord :: "('w, 'k) net_axis"
  od_optionalHeader :: "tcpOptionalHeader packetHeader"
  od_parseHeader :: bool
  od_headerWritten :: bool

definition od_first :: "optionalFieldsMeta \<Rightarrow> ('w::len word, 'k::len word) net_axis \<Rightarrow> ('w word, 'k word) optDropper \<Rightarrow> ('w word, 'k word) optDropper"
where
  "od_first m w s =
     (let p = parseWord (na_data w) (clear_header (od_optionalHeader s)); offs = om_dataOffset m; n = unat offs * 4;
          parse = (offs \<noteq> 0 \<and> om_syn m)
      in s\<lparr>od_dataOffset := offs, od_optionalHeader := p, od_parseHeader := parse, od_prevWord := w, od_headerWritten := False,
           od_dataOut := od_dataOut s @ (if offs = 0 then [w] else []),
           od_dataOffsetOut := od_dataOffsetOut s @ (if parse then [offs] else []),
           od_optionalHeaderFieldsOut := od_optionalHeaderFieldsOut s @ (if parse \<and> (ph_ready p \<or> na_last w) then [ph_header p] else []),
           od_state := if \<not> na_last w then OD_WORDS
                       else if offs \<noteq> 0 \<and> n < LENGTH('w) div 8 \<and> bit (na_keep w) n then OD_REST else OD_FIRST\<rparr>)"

definition od_word :: "('w::len word, 'k::len word) net_axis \<Rightarrow> ('w word, 'k word) optDropper \<Rightarrow> ('w word, 'k word) optDropper" where
  "od_word w s =
     (let p = parseWord (na_data w) (od_optionalHeader s); write = (ph_ready p \<or> na_last w) \<and> od_parseHeader s \<and> \<not> od_headerWritten s;
          offs = od_dataOffset s; n = unat offs * 4; skip = unat offs \<ge> LENGTH('w) div 32;
          offs' = (if skip then offs - of_nat (LENGTH('w) div 32) else offs)
      in s\<lparr>od_optionalHeader := p, od_headerWritten := od_headerWritten s \<or> write,
           od_optionalHeaderFieldsOut := od_optionalHeaderFieldsOut s @ (if write then [ph_header p] else []),
           od_dataOut := od_dataOut s @ (if skip then [] else if offs = 0 then [w]
                                         else [align_words n (od_prevWord s) w (\<not> bit (na_keep w) n)]),
           od_dataOffset := offs', od_prevWord := w,
           od_state := if \<not> na_last w then OD_WORDS
                       else if bit (na_keep w) (unat offs' * 4) \<and> offs' \<noteq> 0 then OD_REST else OD_FIRST\<rparr>)"

definition drop_optional_header_fields :: "('w::len word, 'k::len word) optDropper \<Rightarrow> ('w word, 'k word) optDropper" where
  "drop_optional_header_fields s =
     (case od_state s of
        OD_FIRST \<Rightarrow>
          (if od_metaIn s \<noteq> [] \<and> od_dataIn s \<noteq> []
           then od_first (hd (od_metaIn s)) (hd (od_dataIn s)) (s\<lparr>od_metaIn := tl (od_metaIn s), od_dataIn := tl (od_dataIn s)\<rparr>)
           else s)
      | OD_WORDS \<Rightarrow> (case od_dataIn s of [] \<Rightarrow> s | w # q \<Rightarrow> od_word w (s\<lparr>od_dataIn := q\<rparr>))
      | OD_REST \<Rightarrow>
          s\<lparr>od_dataOut := od_dataOut s @ [align_words (unat (od_dataOffset s) * 4) (od_prevWord s) zero_word True],
            od_state := OD_FIRST\<rparr>)"

end
