(* ===== verification/Toe_Rx_Payload.thy ===== *)
theory Toe_Rx_Payload
  imports Toe_Rx_Headers Axi_Bytes
begin

text \<open>
  What the modules of \<open>Toe_Rx_Headers\<close> do to a sequence of packets: the options are cut off and handed to
  their parser once per SYN, the payload behind them is forwarded; the header that the sender built is
  read field by field. And where the code does not do this.
\<close>

unbundle bit_operations_syntax

subsection \<open>Options\<close>

text \<open>Options that are shorter than a word, as they are in the build with 512 bits; a SYN is a single word that can hold all
  the option fields.\<close>

definition od_ok :: "optionalFieldsMeta \<times> ('w::len word, 'k::len word) net_axis list \<Rightarrow> bool" where
  "od_ok p \<longleftrightarrow> well_kept (snd p) \<and> LENGTH('w) = 8 * LENGTH('k) \<and> LENGTH('k) mod 4 = 0 \<and> 4 * unat (om_dataOffset (fst p)) < LENGTH('k)
     \<and> (\<not> om_syn (fst p) \<or> length (snd p) = 1 \<and> 320 \<le> LENGTH('w))"

definition od_payload :: "optionalFieldsMeta \<times> ('w::len word, 'k::len word) net_axis list \<Rightarrow> ('w word, 'k word) net_axis list" where
  "od_payload p =
     (let n = unat (om_dataOffset (fst p)) * 4; w = hd (snd p); ws = tl (snd p)
      in if n = 0 then snd p
         else if ws = [] then (if bit (na_keep w) n then [align_words n w zero_word True] else [])
         else al_words n w ws)"

definition od_parsed :: "optionalFieldsMeta \<times> 'p \<Rightarrow> bool" where
  "od_parsed p \<longleftrightarrow> om_syn (fst p) \<and> om_dataOffset (fst p) \<noteq> 0"

definition od_fields :: "optionalFieldsMeta \<times> ('w::len word, 'k) net_axis list \<Rightarrow> tcpOptionalHeader" where
  "od_fields p = ucast (na_data (hd (snd p)))"

definition od_done ::
  "optionalFieldsMeta list \<Rightarrow> ('w, 'k) net_axis list \<Rightarrow> u4 list \<Rightarrow> tcpOptionalHeader list \<Rightarrow> ('w, 'k) net_axis list \<Rightarrow> ('w, 'k) optDropper \<Rightarrow> bool"
where
  "od_done ms q offs raw ws s \<longleftrightarrow> od_state s = OD_FIRST \<and> od_metaIn s = ms \<and> od_dataIn s = q \<and> od_dataOffsetOut s = offs
     \<and> od_optionalHeaderFieldsOut s = raw \<and> od_dataOut s = ws"

lemma od_rest:
  "od_state s = OD_REST \<Longrightarrow>
   od_done (od_metaIn s) (od_dataIn s) (od_dataOffsetOut s) (od_optionalHeaderFieldsOut s)
     (od_dataOut s @ [align_words (unat (od_dataOffset s) * 4) (od_prevWord s) zero_word True]) (drop_optional_header_fields s)"
  by (simp add: od_done_def drop_optional_header_fields_def)

lemma od_forward:
  fixes s :: "('w::len word, 'k::len word) optDropper"
  assumes "8 \<le> LENGTH('w) div 4"
  shows "marked ws \<Longrightarrow> od_state s = OD_WORDS \<Longrightarrow> \<not> od_parseHeader s \<Longrightarrow> od_dataOffset s = 0 \<Longrightarrow> od_dataIn s = ws @ q \<Longrightarrow>
    \<exists>n \<le> length ws. od_done (od_metaIn s) q (od_dataOffsetOut s) (od_optionalHeaderFieldsOut s) (od_dataOut s @ ws)
      ((drop_optional_header_fields ^^ n) s)"
proof (induction ws arbitrary: s)
  case (Cons w ws)
  let ?s = "drop_optional_header_fields s"
  have "0 < LENGTH('w) div 32" using assms by (simp add: div_greater_zero_iff)
  then have s: "?s = s\<lparr>od_dataIn := ws @ q, od_optionalHeader := parseWord (na_data w) (od_optionalHeader s),
      od_dataOut := od_dataOut s @ [w], od_prevWord := w, od_state := if na_last w then OD_FIRST else OD_WORDS\<rparr>"
    using Cons.prems by (simp add: drop_optional_header_fields_def od_word_def Let_def)
  show ?case
  proof (cases "ws = []")
    case True
    then show ?thesis using s Cons.prems(1) by (intro run_now) (simp_all add: od_done_def)
  next
    case False
    then have "\<exists>n \<le> length ws. od_done (od_metaIn ?s) q (od_dataOffsetOut ?s) (od_optionalHeaderFieldsOut ?s) (od_dataOut ?s @ ws)
      ((drop_optional_header_fields ^^ n) ?s)"
      using Cons.prems s by (intro Cons.IH) simp_all
    then show ?thesis using s by - (rule run_after [where k = "length ws"], simp_all)
  qed
qed simp

lemma od_align:
  fixes s :: "('w::len word, 'k::len word) optDropper"
  assumes o: "0 < unat offs" "unat offs < LENGTH('w) div 32"
  shows "marked ws \<Longrightarrow> od_state s = OD_WORDS \<Longrightarrow> \<not> od_parseHeader s \<Longrightarrow> od_dataOffset s = offs \<Longrightarrow> od_dataIn s = ws @ q \<Longrightarrow>
    \<exists>n \<le> length ws + 1. od_done (od_metaIn s) q (od_dataOffsetOut s) (od_optionalHeaderFieldsOut s)
      (od_dataOut s @ al_words (unat offs * 4) (od_prevWord s) ws) ((drop_optional_header_fields ^^ n) s)"
proof (induction ws arbitrary: s)
  case (Cons w ws)
  let ?s = "drop_optional_header_fields s" and ?n = "unat offs * 4"
  have ne: "offs \<noteq> 0" using o(1) by auto
  have s: "?s = s\<lparr>od_dataIn := ws @ q, od_optionalHeader := parseWord (na_data w) (od_optionalHeader s),
      od_dataOut := od_dataOut s @ [align_words ?n (od_prevWord s) w (\<not> bit (na_keep w) ?n)], od_prevWord := w,
      od_state := if \<not> na_last w then OD_WORDS else if bit (na_keep w) ?n then OD_REST else OD_FIRST\<rparr>"
    using Cons.prems o ne by (simp add: drop_optional_header_fields_def od_word_def Let_def)
  show ?case
  proof (cases "ws = []")
    case True
    show ?thesis
    proof (cases "bit (na_keep w) ?n")
      case False
      then show ?thesis using s True Cons.prems(1) by (intro run_now) (simp_all add: od_done_def)
    next
      case b: True
      then show ?thesis using s True Cons.prems(1,4) od_rest [of ?s]
        by - (rule run_after [where k = 1, OF run_now], simp_all)
    qed
  next
    case False
    then have "\<exists>n \<le> length ws + 1. od_done (od_metaIn ?s) q (od_dataOffsetOut ?s) (od_optionalHeaderFieldsOut ?s)
      (od_dataOut ?s @ al_words ?n (od_prevWord ?s) ws) ((drop_optional_header_fields ^^ n) ?s)"
      using Cons.prems s by (intro Cons.IH) simp_all
    then show ?thesis using s False by - (rule run_after [where k = "length ws + 1"], simp_all)
  qed
qed simp

definition od_holds ::
  "(optionalFieldsMeta \<times> ('w::len word, 'k::len word) net_axis list) list
   \<Rightarrow> (optionalFieldsMeta \<times> ('w word, 'k word) net_axis list) list \<Rightarrow> ('w word, 'k word) optDropper \<Rightarrow> bool" where
  "od_holds ps out s \<longleftrightarrow> od_done (map fst ps) (concat (map snd ps)) (map (\<lambda>p. om_dataOffset (fst p)) (filter od_parsed out))
     (map od_fields (filter od_parsed out)) (concat (map od_payload out)) s"

lemma parse_wide:
  fixes w :: "'w::len word"
  shows "320 \<le> LENGTH('w) \<Longrightarrow> parseWord w (clear_header p) = \<lparr>ph_ready = True, ph_idx = 1, ph_header = (ucast w :: 320 word)\<rparr>"
proof -
  assume "320 \<le> LENGTH('w)"
  moreover have "set_range 0 320 w x = (ucast w :: 320 word)" for x :: "320 word"
    by (rule bit_word_eqI) (auto simp: bit_ranges bit_simps)
  ultimately show ?thesis by (simp add: parseWord_def clear_header_def)
qed

lemma od_one:
  fixes p :: "optionalFieldsMeta \<times> ('w::len word, 'k::len word) net_axis list"
  assumes h: "od_holds (p # ps) out s" and ok: "od_ok p"
  shows "\<exists>n \<le> length (snd p) + 1. od_holds ps (out @ [p]) ((drop_optional_header_fields ^^ n) s)"
proof -
  obtain m w ws where p: "p = (m, w # ws)" using ok by (cases p, cases "snd p") (auto simp: od_ok_def)
  let ?n = "unat (om_dataOffset m) * 4" and ?s = "drop_optional_header_fields s" and ?q = "concat (map snd ps)"
  have K: "LENGTH('w) = 8 * LENGTH('k)" "LENGTH('k) mod 4 = 0" "?n < LENGTH('k)"
    and mk: "marked (w # ws)" and syn: "\<not> om_syn m \<or> ws = [] \<and> 320 \<le> LENGTH('w)"
    using ok by (auto simp: p od_ok_def well_kept_def)
  have four: "8 \<le> LENGTH('w) div 4" using K(1,2) dvd_imp_le [of 4 "LENGTH('k)"] by (simp add: mod_0_imp_dvd)
  have div: "LENGTH('w) div 32 = LENGTH('k) div 4" using K(1) by simp
  then have small: "unat (om_dataOffset m) < LENGTH('w) div 32" using K(2,3) by auto
  have s: "od_state s = OD_FIRST" "od_metaIn s = m # map fst ps" "od_dataIn s = w # ws @ ?q"
    "od_dataOffsetOut s = map (\<lambda>p. om_dataOffset (fst p)) (filter od_parsed out)"
    "od_optionalHeaderFieldsOut s = map od_fields (filter od_parsed out)" "od_dataOut s = concat (map od_payload out)"
    using h by (simp_all add: p od_holds_def od_done_def)
  have first: "?s = od_first m w (s\<lparr>od_metaIn := map fst ps, od_dataIn := ws @ ?q\<rparr>)"
    using s by (simp add: drop_optional_header_fields_def)
  have outs: "od_metaIn ?s = map fst ps" "od_dataIn ?s = ws @ ?q" "od_dataOffset ?s = om_dataOffset m" "od_prevWord ?s = w"
    "od_parseHeader ?s = od_parsed p"
    "od_dataOffsetOut ?s = map (\<lambda>p. om_dataOffset (fst p)) (filter od_parsed (out @ [p]))"
    "od_optionalHeaderFieldsOut ?s = map od_fields (filter od_parsed (out @ [p]))"
    "od_dataOut ?s = concat (map od_payload out) @ (if om_dataOffset m = 0 then [w] else [])"
    "od_state ?s = (if ws \<noteq> [] then OD_WORDS else if ?n \<noteq> 0 \<and> bit (na_keep w) ?n then OD_REST else OD_FIRST)"
    unfolding first using s syn mk K parse_wide [of "na_data w" "od_optionalHeader s"]
    by (auto simp: od_first_def Let_def od_parsed_def od_fields_def p unat_eq_0 split: if_splits)
  have np: "\<not> od_parsed p" if "ws \<noteq> []" using that syn by (auto simp: od_parsed_def p)
  consider (zero) "?n = 0" | (single) "?n \<noteq> 0" "ws = []" | (more) "?n \<noteq> 0" "ws \<noteq> []" by blast
  then have "\<exists>n \<le> length ws + 1. od_holds ps (out @ [p]) ((drop_optional_header_fields ^^ n) ?s)"
  proof cases
    case zero
    then have o: "om_dataOffset m = 0" "od_payload p = w # ws" by (auto simp: od_payload_def p unat_eq_0)
    show ?thesis
    proof (cases "ws = []")
      case True
      then show ?thesis using outs o by (intro exI [of _ 0]) (simp add: od_holds_def od_done_def)
    next
      case False
      then have "\<exists>n \<le> length ws. od_done (od_metaIn ?s) ?q (od_dataOffsetOut ?s) (od_optionalHeaderFieldsOut ?s) (od_dataOut ?s @ ws)
        ((drop_optional_header_fields ^^ n) ?s)"
        using mk outs o np by (intro od_forward [OF four]) auto
      then show ?thesis using outs o by (auto simp: od_holds_def intro: le_SucI)
    qed
  next
    case single
    then have o: "om_dataOffset m \<noteq> 0" by auto
    show ?thesis
    proof (cases "bit (na_keep w) ?n")
      case True
      then show ?thesis using outs o single od_rest [of ?s]
        by (intro run_now) (simp_all add: od_holds_def od_payload_def p Let_def)
    next
      case False
      then show ?thesis using outs o single
        by (intro exI [of _ 0]) (simp add: od_holds_def od_done_def od_payload_def p Let_def)
    qed
  next
    case more
    then have o: "om_dataOffset m \<noteq> 0" by auto
    have "\<exists>n \<le> length ws + 1. od_done (od_metaIn ?s) ?q (od_dataOffsetOut ?s) (od_optionalHeaderFieldsOut ?s)
      (od_dataOut ?s @ al_words ?n (od_prevWord ?s) ws) ((drop_optional_header_fields ^^ n) ?s)"
      using mk outs more np small by (intro od_align) auto
    then show ?thesis using outs o more by (simp add: od_holds_def od_payload_def p Let_def)
  qed
  from run_after [OF this order_refl] show ?thesis by (auto simp: p)
qed

interpretation od: packet_machine drop_optional_header_fields od_holds od_ok "\<lambda>p. [p]" "\<lambda>p. length (snd p) + 1"
  by unfold_locales (rule od_one)

lemma od_payload_bytes:
  fixes p :: "optionalFieldsMeta \<times> ('w::len word, 'k::len word) net_axis list"
  assumes "od_ok p"
  shows "packet_bytes (od_payload p) = drop (unat (om_dataOffset (fst p)) * 4) (packet_bytes (snd p))
    \<and> (od_payload p = [] \<or> marked (od_payload p))"
proof -
  obtain m w ws where p: "p = (m, w # ws)" using assms by (cases p, cases "snd p") (auto simp: od_ok_def)
  let ?n = "unat (om_dataOffset m) * 4"
  have K: "LENGTH('w) = 8 * LENGTH('k)" "?n < LENGTH('k)" and wk: "well_kept (w # ws)" using assms by (auto simp: p od_ok_def)
  obtain k where k: "keeps w k" using well_kept_word [OF wk] by blast
  note len = length_word_bytes [OF k]
  show ?thesis
  proof (cases "?n = 0")
    case True
    then show ?thesis using wk by (simp add: od_payload_def p well_kept_def)
  next
    case n: False
    show ?thesis
    proof (cases "ws = []")
      case True
      then show ?thesis using n keeps_bit [OF k] bytes_align_zero [OF K(1) _ K(2) k] len
        by (auto simp: od_payload_def p Let_def)
    next
      case False
      then have w: "keeps w (LENGTH('k))" "well_kept ws" using wk by simp_all
      then show ?thesis using False n K al_words_bytes [OF K(1) _ K(2) w] length_word_bytes [OF w(1)]
        by (simp add: od_payload_def p Let_def)
    qed
  qed
qed

definition od_start :: "(optionalFieldsMeta \<times> ('w, 'k) net_axis list) list \<Rightarrow> ('w, 'k) net_axis \<Rightarrow> tcpOptionalHeader \<Rightarrow> ('w, 'k) optDropper" where
  "od_start ps junk h = \<lparr>od_metaIn = map fst ps, od_dataIn = concat (map snd ps), od_dataOffsetOut = [],
     od_optionalHeaderFieldsOut = [], od_dataOut = [], od_state = OD_FIRST, od_dataOffset = 0, od_prevWord = junk,
     od_optionalHeader = \<lparr>ph_ready = False, ph_idx = 0, ph_header = h\<rparr>, od_parseHeader = False, od_headerWritten = False\<rparr>"

text \<open>C33. Options are cut off byte by byte: for any sequence of packets whose options are shorter than a word (options of exactly
  one word lose data, see \<open>narrow_options_lose_word\<close>), in words of a whole number of four bytes, and whose SYN segments are one word
  each, in words of at least 320 bits (so that the option fields fit into it), \<open>drop_optional_header_fields\<close> ends in a bounded number of calls, it has handed the length and the raw fields of the
  options to their parser exactly once for each SYN that has some, in order, and it has written one packet for each one that has payload,
  whose bytes are those behind the options.\<close>

theorem payload_behind_options:
  fixes ps :: "(optionalFieldsMeta \<times> ('w::len word, 'k::len word) net_axis list) list"
  assumes "list_all od_ok ps"
  shows "\<exists>n \<le> (\<Sum>p \<leftarrow> ps. length (snd p) + 1). \<exists>packets. let s = (drop_optional_header_fields ^^ n) (od_start ps junk h) in
    od_metaIn s = [] \<and> od_dataIn s = [] \<and> od_dataOffsetOut s = map (\<lambda>p. om_dataOffset (fst p)) (filter od_parsed ps)
    \<and> od_optionalHeaderFieldsOut s = map od_fields (filter od_parsed ps) \<and> od_dataOut s = concat packets
    \<and> list_all2 (\<lambda>p x. packet_bytes x = drop (unat (om_dataOffset (fst p)) * 4) (packet_bytes (snd p)) \<and> (x = [] \<or> marked x)) ps packets"
proof -
  have "od_holds ps [] (od_start ps junk h)" by (simp add: od_holds_def od_done_def od_start_def)
  from od.all_packets [OF this assms] obtain n where "n \<le> (\<Sum>p \<leftarrow> ps. length (snd p) + 1)"
    "od_holds [] ps ((drop_optional_header_fields ^^ n) (od_start ps junk h))" by (auto simp: concat_map_singleton)
  moreover have "list_all2 (\<lambda>p x. packet_bytes x = drop (unat (om_dataOffset (fst p)) * 4) (packet_bytes (snd p))
      \<and> (x = [] \<or> marked x)) ps (map od_payload ps)"
    using assms by (induction ps) (simp_all add: od_payload_bytes)
  ultimately show ?thesis
    by (intro exI [of _ n] conjI exI [of _ "map od_payload ps"]) (auto simp: od_holds_def od_done_def Let_def)
qed

text \<open>A data segment with four bytes of options and a SYN with eight.\<close>

definition segment_with_option :: "optionalFieldsMeta \<times> (512 word, 64 word) net_axis list" where
  "segment_with_option = (\<lparr>om_dataOffset = 1, om_syn = False\<rparr>, [\<lparr>na_data = 0x0807060504030201, na_keep = mask 8, na_last = True\<rparr>])"

definition syn_with_option :: "optionalFieldsMeta \<times> (512 word, 64 word) net_axis list" where
  "syn_with_option = (\<lparr>om_dataOffset = 2, om_syn = True\<rparr>, [\<lparr>na_data = 0x0103030700000402, na_keep = mask 8, na_last = True\<rparr>])"

lemma options_ok: "list_all od_ok [segment_with_option, syn_with_option]"
  by (auto simp: segment_with_option_def syn_with_option_def od_ok_def keeps_def intro!: exI [of _ 8])

theorem payload_behind_options_witness:
  "\<exists>n \<le> 4. \<exists>packets. od_dataOffsetOut ((drop_optional_header_fields ^^ n) (od_start [segment_with_option, syn_with_option] zero_word 0)) = [2]
     \<and> od_dataOut ((drop_optional_header_fields ^^ n) (od_start [segment_with_option, syn_with_option] zero_word 0)) = concat packets
     \<and> list_all2 (\<lambda>p x. packet_bytes x = drop (unat (om_dataOffset (fst p)) * 4) (packet_bytes (snd p)) \<and> (x = [] \<or> marked x))
         [segment_with_option, syn_with_option] packets"
proof -
  have four: "(\<Sum>p \<leftarrow> [segment_with_option, syn_with_option]. length (snd p) + 1) = 4"
    by (simp add: segment_with_option_def syn_with_option_def)
  have two: "map (\<lambda>p. om_dataOffset (fst p)) (filter od_parsed [segment_with_option, syn_with_option]) = [2]"
    by (simp add: segment_with_option_def syn_with_option_def od_parsed_def)
  show ?thesis using payload_behind_options [OF options_ok, of zero_word 0, unfolded four two Let_def]
    by (elim exE conjE) (intro exI conjI, assumption+)
qed

text \<open>A SYN with options whose data reaches into a second word makes the module write the option fields twice; since
  only one length is written, the parser pairs the length of the next SYN with the fields of this one.\<close>

theorem syn_with_data_repeats_options:
  fixes s :: "('w::len word, 'k::len word) optDropper"
  assumes "320 \<le> LENGTH('w)" and "od_state s = OD_FIRST" and "om_syn m" and "om_dataOffset m \<noteq> 0"
    and "od_metaIn s = m # ms" and "od_dataIn s = w # v # ws" and "\<not> na_last w"
  shows "let t = drop_optional_header_fields (drop_optional_header_fields s)
    in od_dataOffsetOut t = od_dataOffsetOut s @ [om_dataOffset m]
      \<and> od_optionalHeaderFieldsOut t = od_optionalHeaderFieldsOut s @ [ucast (na_data w), ucast (na_data w)]"
  using assms parse_wide [OF assms(1), of "na_data w"]
  by (simp add: drop_optional_header_fields_def od_first_def od_word_def parseWord_def Let_def)

theorem syn_with_data_repeats_options_witness:
  "let m = \<lparr>om_dataOffset = 1, om_syn = True\<rparr>; w = \<lparr>na_data = 5, na_keep = - 1, na_last = False\<rparr>;
      v = \<lparr>na_data = 7, na_keep = 1, na_last = True\<rparr>;
      t = drop_optional_header_fields (drop_optional_header_fields (od_start [(m, [w, v])] w 0 :: (512 word, 64 word) optDropper))
    in od_dataOffsetOut t = [1] \<and> od_optionalHeaderFieldsOut t = [5, 5]"
  using syn_with_data_repeats_options [of "od_start [(\<lparr>om_dataOffset = 1, om_syn = True\<rparr>,
      [\<lparr>na_data = 5, na_keep = - 1, na_last = False\<rparr>, \<lparr>na_data = 7, na_keep = 1, na_last = True\<rparr>])]
      \<lparr>na_data = 5, na_keep = - 1, na_last = False\<rparr> 0 :: (512 word, 64 word) optDropper" "\<lparr>om_dataOffset = 1, om_syn = True\<rparr>" "[]"
      "\<lparr>na_data = 5, na_keep = - 1, na_last = False\<rparr>" "\<lparr>na_data = 7, na_keep = 1, na_last = True\<rparr>" "[]"]
  by (simp add: od_start_def Let_def)

text \<open>With narrower words options of exactly one word swallow the next word of the packet.\<close>

lemma narrow_options_lose_word:
  fixes s :: "('w::len word, 'k::len word) optDropper"
  assumes "od_state s = OD_WORDS" "unat (od_dataOffset s) = LENGTH('w) div 32" "od_dataIn s = w # ws"
  shows "od_dataOut (drop_optional_header_fields s) = od_dataOut s \<and> od_dataOffset (drop_optional_header_fields s) = 0"
proof -
  have "od_dataOffset s = of_nat (LENGTH('w) div 32)" using assms(2) by (metis of_nat_unat ucast_id)
  then show ?thesis using assms by (simp add: drop_optional_header_fields_def od_word_def Let_def)
qed

subsection \<open>IP options\<close>

text \<open>With 256 or 512 bits a header that is not five words long leaves its packet in the stream: the length of the next packet is
  applied to the words of this one.\<close>

lemma ip_options_desynchronise:
  fixes s :: "('w::len word, 'k::len word) ipDropper"
  assumes "LENGTH('w) = 256 \<or> LENGTH('w) = 512" "id_state s = DOH_META" "id_lengthIn s = len # ls" "len \<noteq> 5" "id_dataIn s \<noteq> []"
  shows "id_dataIn (drop_optional_ip_header s) = id_dataIn s \<and> id_lengthIn (drop_optional_ip_header s) = ls
    \<and> id_state (drop_optional_ip_header s) = DOH_META"
  using assms by (auto simp: drop_optional_ip_header_def Let_def)

end
