(* ===== verification/Toe_Rx_Parse.thy ===== *)
theory Toe_Rx_Parse
  imports Toe_Rx_Headers Axi_Bytes
begin

text \<open>
  The TCP header as \<open>processPseudoHeader\<close> reads it: for every packet with a valid checksum the fields of its first 256 bits go to
  the meta data, the tuple and the port check, once; the words behind the header go on.
\<close>

unbundle bit_operations_syntax

definition tcp_raw :: "('w::len word, 'k) net_axis list \<Rightarrow> tcpFullPseudoHeader" where
  "tcp_raw ws = ph_header (fold parseWord (map na_data ws) \<lparr>ph_ready = False, ph_idx = 0, ph_header = 0\<rparr>)"

lemma tcp_raw_any:
  fixes ws :: "('w::len word, 'k) net_axis list"
  assumes "256 \<le> length ws * LENGTH('w)" "\<not> ph_ready p" "ph_idx p = 0"
  shows "ph_header (fold parseWord (map na_data ws) p) = tcp_raw ws"
  unfolding tcp_raw_def by (rule bit_word_eqI) (use assms in \<open>simp add: bit_parse_words\<close>)

text \<open>The words of the payload; with words of more than 256 bits the header shares the first one with it.\<close>

definition words_needed :: "nat \<Rightarrow> nat \<Rightarrow> nat" where
  "words_needed W j = (255 - j * W) div W + 1"

definition behind_header :: "nat \<Rightarrow> tcpFullPseudoHeader \<Rightarrow> ('w::len word, 'k) net_axis list \<Rightarrow> ('w word, 'k) net_axis list" where
  "behind_header j h ws =
     (if LENGTH('w) \<le> 256 then drop (words_needed (LENGTH('w)) j) ws else if has_fields_or_data h then ws else [])"

lemma words_needed_step:
  assumes "0 < W" "j * W < 256"
  shows "words_needed W j = (if 256 \<le> (j + 1) * W then 1 else Suc (words_needed W (j + 1)))"
proof (cases "256 \<le> (j + 1) * W")
  case True
  then have "255 - j * W < W" using assms by (simp add: algebra_simps)
  then show ?thesis using True by (simp add: words_needed_def)
next
  case False
  then have e: "255 - j * W = W + (255 - (j + 1) * W)" by (simp add: algebra_simps)
  have "(255 - j * W) div W = Suc ((255 - (j + 1) * W) div W)" unfolding e using assms(1) by (subst div_add_self1) simp_all
  then show ?thesis using False by (simp add: words_needed_def)
qed

lemma tp_after:
  fixes s :: "('w::len word, 'k) tcpProcess"
  shows "marked ws \<Longrightarrow> tc_data s = ws @ q \<Longrightarrow> ph_ready (tc_header s) \<Longrightarrow> tc_metaWritten s \<Longrightarrow> \<not> tc_firstWord s \<Longrightarrow>
    (processPseudoHeader junk ^^ length ws) s
    = s\<lparr>tc_data := q, tc_header := clear_header (tc_header s), tc_firstWord := True, tc_metaWritten := False,
        tc_out := tc_out s @ (if tc_pkgValid s \<and> (LENGTH('w) \<le> 256 \<or> has_fields_or_data (ph_header (tc_header s))) then ws else [])\<rparr>"
proof (induction ws arbitrary: s)
  case (Cons w ws)
  let ?s = "processPseudoHeader junk s"
  let ?fwd = "tc_pkgValid s \<and> (LENGTH('w) \<le> 256 \<or> has_fields_or_data (ph_header (tc_header s)))"
  have p: "parseWord (na_data w) (tc_header s) = tc_header s" using Cons.prems by (simp add: parseWord_def)
  let ?t = "s\<lparr>tc_data := ws @ q, tc_out := tc_out s @ (if ?fwd then [w] else [])\<rparr>"
  have s: "?s = (if na_last w then ?t\<lparr>tc_header := clear_header (tc_header s), tc_firstWord := True, tc_metaWritten := False\<rparr> else ?t)"
    using Cons.prems p by (auto simp: processPseudoHeader_def Let_def TCP_FULL_PSEUDO_HEADER_SIZE_def)
  show ?case
  proof (cases "ws = []")
    case True
    then show ?thesis using s Cons.prems(1) by simp
  next
    case False
    then have t: "?s = ?t" using s Cons.prems(1) by simp
    have "(processPseudoHeader junk ^^ length ws) ?t
      = ?t\<lparr>tc_data := q, tc_header := clear_header (tc_header ?t), tc_firstWord := True, tc_metaWritten := False,
        tc_out := tc_out ?t @ (if tc_pkgValid ?t \<and> (LENGTH('w) \<le> 256 \<or> has_fields_or_data (ph_header (tc_header ?t))) then ws else [])\<rparr>"
      using Cons.prems False by (intro Cons.IH) simp_all
    then show ?thesis using t by (cases ?fwd) (auto simp: run_Suc simp del: funpow.simps)
  qed
qed simp

lemma emit_data [simp]:
  "tcp_emit_meta junk h (s\<lparr>tc_data := d\<rparr>) = (tcp_emit_meta junk h s)\<lparr>tc_data := d\<rparr>"
  "tcp_emit_meta junk h (s\<lparr>tc_out := d\<rparr>) = (tcp_emit_meta junk h s)\<lparr>tc_out := d\<rparr>"
  "tcp_emit_meta junk h (s\<lparr>tc_header := p\<rparr>) = (tcp_emit_meta junk h s)\<lparr>tc_header := p\<rparr>"
  "tc_out (tcp_emit_meta junk h s) = tc_out s" "tc_data (tcp_emit_meta junk h s) = tc_data s"
  "tc_header (tcp_emit_meta junk h s) = tc_header s" "tc_pkgValid (tcp_emit_meta junk h s) = tc_pkgValid s"
  "tc_firstWord (tcp_emit_meta junk h s) = tc_firstWord s" "tc_metaWritten (tcp_emit_meta junk h s) = tc_metaWritten s"
  "tc_validFifoIn (tcp_emit_meta junk h s) = tc_validFifoIn s"
  by (simp_all add: tcp_emit_meta_def Let_def)

lemma tp_before:
  fixes s :: "('w::len word, 'k) tcpProcess"
  shows "marked ws \<Longrightarrow> tc_data s = ws @ q \<Longrightarrow> \<not> ph_ready (tc_header s) \<Longrightarrow> \<not> tc_metaWritten s \<Longrightarrow> \<not> tc_firstWord s \<Longrightarrow>
    ph_idx (tc_header s) * LENGTH('w) < 256 \<Longrightarrow> 256 \<le> (ph_idx (tc_header s) + length ws) * LENGTH('w) \<Longrightarrow>
    p = fold parseWord (map na_data ws) (tc_header s) \<Longrightarrow>
    (processPseudoHeader junk ^^ length ws) s
    = (if tc_pkgValid s then tcp_emit_meta junk (ph_header p) s else s)\<lparr>tc_data := q, tc_header := clear_header p, tc_firstWord := True,
        tc_metaWritten := False, tc_out := tc_out s @ (if tc_pkgValid s then behind_header (ph_idx (tc_header s)) (ph_header p) ws else [])\<rparr>"
proof (induction ws arbitrary: s)
  case (Cons w ws)
  let ?s = "processPseudoHeader junk s" and ?j = "ph_idx (tc_header s)" and ?p = "parseWord (na_data w) (tc_header s)"
  have idx: "ph_idx ?p = ?j + 1" using Cons.prems(3) by (simp add: parseWord_def Let_def)
  have ready: "ph_ready ?p \<longleftrightarrow> 256 \<le> (?j + 1) * LENGTH('w)" using Cons.prems(3) by (auto simp: parseWord_def Let_def)
  show ?case
  proof (cases "256 \<le> (?j + 1) * LENGTH('w)")
    case True
    then have r: "ph_ready ?p" using ready by simp
    then have p: "p = ?p" using Cons.prems(8) by (simp add: parse_ready)
    let ?t = "(if tc_pkgValid s then tcp_emit_meta junk (ph_header ?p) s else s)\<lparr>tc_data := ws @ q, tc_header := ?p,
      tc_out := tc_out s @ (if tc_pkgValid s \<and> \<not> LENGTH('w) \<le> 256 \<and> has_fields_or_data (ph_header ?p) then [w] else [])\<rparr>"
    have s: "?s = (if na_last w then ?t\<lparr>tc_header := clear_header ?p, tc_firstWord := True, tc_metaWritten := False\<rparr>
        else ?t\<lparr>tc_metaWritten := True\<rparr>)"
      using Cons.prems(1-5) r
      by (cases s) (auto simp: processPseudoHeader_def tcp_emit_meta_def Let_def TCP_FULL_PSEUDO_HEADER_SIZE_def)
    have need: "words_needed (LENGTH('w)) ?j = 1" using words_needed_step [of "LENGTH('w)" ?j] Cons.prems(6) True by simp
    show ?thesis
    proof (cases "ws = []")
      case True
      then show ?thesis using s p need Cons.prems(1) by (simp add: behind_header_def)
    next
      case False
      then have t: "?s = ?t\<lparr>tc_metaWritten := True\<rparr>" using s Cons.prems(1) by simp
      have "(processPseudoHeader junk ^^ length ws) ?s = ?s\<lparr>tc_data := q, tc_header := clear_header (tc_header ?s), tc_firstWord := True,
          tc_metaWritten := False, tc_out := tc_out ?s
          @ (if tc_pkgValid ?s \<and> (LENGTH('w) \<le> 256 \<or> has_fields_or_data (ph_header (tc_header ?s))) then ws else [])\<rparr>"
        using Cons.prems False r t by (intro tp_after) simp_all
      then show ?thesis using t p need by (simp add: run_Suc behind_header_def del: funpow.simps)
    qed
  next
    case False
    then have nr: "\<not> ph_ready ?p" using ready by simp
    have ne: "ws \<noteq> []" using Cons.prems(7) False by auto
    let ?t = "s\<lparr>tc_data := ws @ q, tc_header := ?p\<rparr>"
    have le: "LENGTH('w) \<le> 256" using False by simp
    have s: "?s = ?t" using Cons.prems(1-5) nr ne le
      by (cases s) (simp add: processPseudoHeader_def Let_def TCP_FULL_PSEUDO_HEADER_SIZE_def)
    have "(processPseudoHeader junk ^^ length ws) ?t
      = (if tc_pkgValid ?t then tcp_emit_meta junk (ph_header p) ?t else ?t)\<lparr>tc_data := q, tc_header := clear_header p, tc_firstWord := True,
        tc_metaWritten := False, tc_out := tc_out ?t @ (if tc_pkgValid ?t then behind_header (ph_idx (tc_header ?t)) (ph_header p) ws else [])\<rparr>"
      using Cons.prems False nr ne idx by (intro Cons.IH) (simp_all add: algebra_simps)
    moreover have "words_needed (LENGTH('w)) ?j = Suc (words_needed (LENGTH('w)) (?j + 1))"
      using words_needed_step [of "LENGTH('w)" ?j] Cons.prems(6) False by simp
    ultimately show ?thesis using s idx le by (simp add: run_Suc behind_header_def del: funpow.simps)
  qed
qed simp

text \<open>A packet with the verdict on its checksum.\<close>

definition tp_ok :: "bool \<times> ('w::len word, 'k) net_axis list \<Rightarrow> bool" where
  "tp_ok p \<longleftrightarrow> marked (snd p) \<and> 256 \<le> length (snd p) * LENGTH('w)"

definition tp_holds ::
  "u4 \<Rightarrow> (bool \<times> ('w::len word, 'k) net_axis list) list \<Rightarrow> (bool \<times> ('w word, 'k) net_axis list) list \<Rightarrow> ('w word, 'k) tcpProcess \<Rightarrow> bool"
where
  "tp_holds junk ps out s \<longleftrightarrow> tc_data s = concat (map snd ps) \<and> tc_validFifoIn s = map fst ps \<and> tc_firstWord s \<and> \<not> tc_metaWritten s
     \<and> \<not> ph_ready (tc_header s) \<and> ph_idx (tc_header s) = 0
     \<and> tc_metaDataFifoOut s = map (\<lambda>p. tcp_meta junk (tcp_raw (snd p))) out
     \<and> tc_tupleFifoOut s = map (\<lambda>p. tcp_tuple (tcp_raw (snd p))) out
     \<and> tc_portTableOut s = map (\<lambda>p. tcp_getDstPort (tcp_raw (snd p))) out
     \<and> tc_ofMetaOut s = map (\<lambda>p. \<lparr>om_dataOffset = tcp_getDataOffset (tcp_raw (snd p)) - 5, om_syn = tcp_getSynFlag (tcp_raw (snd p))\<rparr>)
          (filter (\<lambda>p. has_fields_or_data (tcp_raw (snd p))) out)
     \<and> tc_out s = concat (map (\<lambda>p. behind_header 0 (tcp_raw (snd p)) (snd p)) out)"

lemma tp_first:
  fixes s :: "('w::len word, 'k) tcpProcess"
  assumes "tc_firstWord s" "tc_validFifoIn s = v # vs" "tc_data s \<noteq> []"
  shows "processPseudoHeader junk s = processPseudoHeader junk (s\<lparr>tc_firstWord := False, tc_pkgValid := v, tc_validFifoIn := vs\<rparr>)"
  using assms by (cases s) (simp add: processPseudoHeader_def Let_def)

lemma tp_one:
  fixes p :: "bool \<times> ('w::len word, 'k) net_axis list"
  assumes h: "tp_holds junk (p # ps) out s" and ok: "tp_ok p"
  shows "\<exists>n \<le> length (snd p). tp_holds junk ps (out @ (if fst p then [p] else [])) ((processPseudoHeader junk ^^ n) s)"
proof -
  obtain w ws where p: "snd p = w # ws" using ok by (cases "snd p") (auto simp: tp_ok_def)
  let ?s = "s\<lparr>tc_firstWord := False, tc_pkgValid := fst p, tc_validFifoIn := map fst ps\<rparr>" and ?q = "concat (map snd ps)"
  let ?p = "fold parseWord (map na_data (snd p)) (tc_header s)"
  have s: "tc_data s = snd p @ ?q" "tc_validFifoIn s = fst p # map fst ps" "tc_firstWord s" "\<not> tc_metaWritten s"
    "\<not> ph_ready (tc_header s)" "ph_idx (tc_header s) = 0" using h by (simp_all add: tp_holds_def)
  have raw: "ph_header ?p = tcp_raw (snd p)" using ok s by (intro tcp_raw_any) (simp_all add: tp_ok_def)
  have "(processPseudoHeader junk ^^ length (snd p)) s = (processPseudoHeader junk ^^ length (snd p)) ?s"
    using tp_first [of s "fst p" "map fst ps" junk] s p by (simp add: run_Suc del: funpow.simps)
  also have "\<dots> = (if tc_pkgValid ?s then tcp_emit_meta junk (ph_header ?p) ?s else ?s)\<lparr>tc_data := ?q, tc_header := clear_header ?p,
      tc_firstWord := True, tc_metaWritten := False,
      tc_out := tc_out ?s @ (if tc_pkgValid ?s then behind_header (ph_idx (tc_header ?s)) (ph_header ?p) (snd p) else [])\<rparr>"
    using s ok by (intro tp_before) (simp_all add: tp_ok_def)
  finally show ?thesis using h raw
    by (intro exI [of _ "length (snd p)"]) (simp add: tp_holds_def clear_header_def tcp_emit_meta_def Let_def)
qed

interpretation tp: packet_machine "processPseudoHeader junk" "tp_holds junk" tp_ok "\<lambda>p. if fst p then [p] else []" "\<lambda>p. length (snd p)"
  by unfold_locales (rule tp_one)

definition tp_start :: "(bool \<times> ('w, 'k) net_axis list) list \<Rightarrow> tcpFullPseudoHeader \<Rightarrow> ('w, 'k) tcpProcess" where
  "tp_start ps h = \<lparr>tc_data = concat (map snd ps), tc_out = [], tc_validFifoIn = map fst ps, tc_metaDataFifoOut = [],
     tc_tupleFifoOut = [], tc_portTableOut = [], tc_ofMetaOut = [], tc_header = \<lparr>ph_ready = False, ph_idx = 0, ph_header = h\<rparr>,
     tc_firstWord = True, tc_pkgValid = False, tc_metaWritten = False\<rparr>"

lemma headers_parsed:
  fixes ps :: "(bool \<times> ('w::len word, 'k) net_axis list) list"
  assumes "list_all tp_ok ps"
  shows "\<exists>n \<le> (\<Sum>p \<leftarrow> ps. length (snd p)). tp_holds junk [] (filter fst ps) ((processPseudoHeader junk ^^ n) (tp_start ps h))"
proof -
  have "tp_holds junk ps [] (tp_start ps h)" by (simp add: tp_holds_def tp_start_def)
  moreover have "concat (map (\<lambda>p. if fst p then [p] else []) ps) = filter fst ps" by (induction ps) simp_all
  ultimately show ?thesis using tp.all_packets [OF _ assms] by fastforce
qed

end
