(* ===== verification/Internet_Checksum.thy ===== *)
theory Internet_Checksum
  imports Axi_Streams
begin

text \<open>
  The Internet checksum as the stack computes it (\<^verbatim>\<open>toe/two_complement_subchecksums.hpp\<close>, \<^verbatim>\<open>ipv4/ipv4.hpp\<close>,
  \<^verbatim>\<open>ipv4/ipv4_utils.cpp\<close>): every word of the stream is cut into lanes of 16 bits, each lane is summed in
  17 bits with the carry folded back, at the end of the packet the lanes are added pairwise. Shown is that a
  packet is accepted exactly if the sum of its 16-bit numbers is a positive multiple of \<open>0xFFFF\<close>, the
  one's complement of RFC 1071, and that a packet with the generated checksum is accepted.
\<close>

unbundle bit_operations_syntax

type_synonym u17 = "17 word"
type_synonym subSums = "u17 list"

subsection \<open>Model\<close>

text \<open>\<open>(s + (s >> 16)) & 0xFFFF\<close>.\<close>

definition fold16 :: "u17 \<Rightarrow> u17" where
  "fold16 s = (s + drop_bit 16 s) AND 0xFFFF"

text \<open>The bytes of a lane in network order.\<close>

definition lane :: "nat \<Rightarrow> 'w::len word \<Rightarrow> u16" where
  "lane i w = reverse (get_range (i * 16) 16 w)"

definition lane_high :: "nat \<Rightarrow> 'w::len word \<Rightarrow> u16" where
  "lane_high i w = push_bit 8 (get_range (i * 16) 8 w)"

definition add_lane :: "u17 \<Rightarrow> u16 \<Rightarrow> u17" where
  "add_lane s t = fold16 (s + ucast t)"

record ('w, 'k) subChecksums =
  tc_dataIn :: "('w, 'k) net_axis stream"
  tc_dataOut :: "('w, 'k) net_axis stream"
  tc_subChecksumsFifoOut :: "subSums stream"
  tcts_tcp_sums :: subSums

definition tcts_lane :: "('w::len word, 'k::len word) net_axis \<Rightarrow> nat \<Rightarrow> u17 \<Rightarrow> u17" where
  "tcts_lane w i s =
     (if (get_range (i * 2) 2 (na_keep w) :: 2 word) = 3 then add_lane s (lane i (na_data w))
      else if bit (na_keep w) (i * 2) then add_lane s (lane_high i (na_data w))
      else s)"

definition tcts_word :: "('w::len word, 'k::len word) net_axis \<Rightarrow> subSums \<Rightarrow> subSums" where
  "tcts_word w sums = map (\<lambda>i. tcts_lane w i (sums ! i)) [0 ..< length sums]"

definition two_complement_subchecksums :: "('w::len word, 'k::len word) subChecksums \<Rightarrow> ('w word, 'k word) subChecksums" where
  "two_complement_subchecksums s =
     (case tc_dataIn s of
        [] \<Rightarrow> s
      | w # q \<Rightarrow>
         (let sums = tcts_word w (tcts_tcp_sums s);
              s1 = s\<lparr>tc_dataIn := q, tc_dataOut := tc_dataOut s @ [w]\<rparr>
          in if na_last w
             then s1\<lparr>tc_subChecksumsFifoOut := tc_subChecksumsFifoOut s @ [sums],
                     tcts_tcp_sums := replicate (LENGTH('w) div 16) 0\<rparr>
             else s1\<lparr>tcts_tcp_sums := sums\<rparr>))"

text \<open>The pairwise additions; the upper lanes are not read again.\<close>

definition halve :: "nat \<Rightarrow> subSums \<Rightarrow> subSums" where
  "halve h sums = map (\<lambda>i. fold16 (sums ! i + sums ! (i + h))) [0 ..< h]"

definition fold_lanes :: "nat \<Rightarrow> subSums \<Rightarrow> u17" where
  "fold_lanes N sums =
     (let s1 = (if N \<ge> 32 then halve 16 sums else sums);
          s2 = (if N \<ge> 16 then halve 8 s1 else s1);
          s3 = (if N \<ge> 8 then halve 4 s2 else s2)
      in hd (halve 1 (halve 2 s3)))"

record 'o sumSink =
  ck_subSumFiFoIn :: "subSums stream"
  ck_checkSumFifoOut :: "'o stream"

definition toe_check_ipv4_checksum :: "nat \<Rightarrow> bool sumSink \<Rightarrow> bool sumSink" where
  "toe_check_ipv4_checksum N s =
     (case ck_subSumFiFoIn s of
        [] \<Rightarrow> s
      | sums # q \<Rightarrow> s\<lparr>ck_subSumFiFoIn := q, ck_checkSumFifoOut := ck_checkSumFifoOut s
                      @ [(ucast (NOT (fold_lanes N sums)) :: u16) = 0]\<rparr>)"

definition ip_handler_check_ipv4_checksum :: "nat \<Rightarrow> bool sumSink \<Rightarrow> bool sumSink" where
  "ip_handler_check_ipv4_checksum N s =
     (case ck_subSumFiFoIn s of
        [] \<Rightarrow> s
      | sums # q \<Rightarrow> s\<lparr>ck_subSumFiFoIn := q, ck_checkSumFifoOut := ck_checkSumFifoOut s
                      @ [(ucast (NOT (fold_lanes N sums)) :: u16) = 0]\<rparr>)"

definition finalize_ipv4_checksum :: "nat \<Rightarrow> u16 sumSink \<Rightarrow> u16 sumSink" where
  "finalize_ipv4_checksum N s =
     (case ck_subSumFiFoIn s of
        [] \<Rightarrow> s
      | sums # q \<Rightarrow> s\<lparr>ck_subSumFiFoIn := q, ck_checkSumFifoOut := ck_checkSumFifoOut s
                      @ [ucast (NOT (fold_lanes N sums))]\<rparr>)"

definition mac_finalize_ipv4_checksum :: "nat \<Rightarrow> u16 sumSink \<Rightarrow> u16 sumSink" where
  "mac_finalize_ipv4_checksum N s =
     (case ck_subSumFiFoIn s of
        [] \<Rightarrow> s
      | sums # q \<Rightarrow> s\<lparr>ck_subSumFiFoIn := q, ck_checkSumFifoOut := ck_checkSumFifoOut s
                      @ [ucast (NOT (fold_lanes N sums))]\<rparr>)"

subsection \<open>Header checksum\<close>

record ('w, 'k) ipSum =
  is_dataIn :: "('w, 'k) net_axis stream"
  is_dataOut :: "('w, 'k) net_axis stream"
  is_subSumFiFoOut :: "subSums stream"
  cics_ip_sums :: subSums
  cics_ipHeaderLen :: u4
  cics_wordCount :: u3

text \<open>The lanes of a word for which \<open>sel\<close> holds are added.\<close>

definition add_lanes :: "(nat \<Rightarrow> bool) \<Rightarrow> 'w::len word \<Rightarrow> subSums \<Rightarrow> subSums" where
  "add_lanes sel w sums = map (\<lambda>i. if sel i then add_lane (sums ! i) (lane i w) else sums ! i) [0 ..< length sums]"

definition is_write :: "('w, 'k) ipSum \<Rightarrow> ('w, 'k) ipSum" where
  "is_write s = s\<lparr>is_subSumFiFoOut := is_subSumFiFoOut s @ [cics_ip_sums s]\<rparr>"

text \<open>A word behind the first ones: \<open>n\<close> is the number of header words (of 32 bits) that fit.\<close>

definition is_more :: "u4 \<Rightarrow> 'w::len word \<Rightarrow> ('w word, 'k) ipSum \<Rightarrow> ('w word, 'k) ipSum" where
  "is_more n w s =
     (let len = cics_ipHeaderLen s in
      if len = 0 then s
      else if len < n then
        is_write (s\<lparr>cics_ip_sums := add_lanes (\<lambda>i. i < 2 * unat len) w (cics_ip_sums s), cics_ipHeaderLen := 0\<rparr>)
      else
        (let s1 = s\<lparr>cics_ip_sums := add_lanes (\<lambda>i. True) w (cics_ip_sums s)\<rparr>;
             s2 = (if len = n then is_write s1 else s1)
         in s2\<lparr>cics_ipHeaderLen := len - n\<rparr>))"

definition is_end :: "('w, 'k) net_axis \<Rightarrow> ('w, 'k) ipSum \<Rightarrow> ('w, 'k) ipSum" where
  "is_end w s = (if na_last w then s\<lparr>cics_ip_sums := replicate (length (cics_ip_sums s)) 0, cics_wordCount := 0\<rparr> else s)"

definition is_read :: "(('w, 'k) net_axis \<Rightarrow> ('w, 'k) ipSum \<Rightarrow> ('w, 'k) ipSum) \<Rightarrow> ('w, 'k) ipSum \<Rightarrow> ('w, 'k) ipSum" where
  "is_read f s =
     (case is_dataIn s of
        [] \<Rightarrow> s
      | w # q \<Rightarrow> is_end w (f w (s\<lparr>is_dataIn := q, is_dataOut := is_dataOut s @ [w]\<rparr>)))"

definition compute_ipv4_checksum_64 :: "bool \<Rightarrow> (64 word, 'k) ipSum \<Rightarrow> (64 word, 'k) ipSum" where
  "compute_ipv4_checksum_64 skipChecksum =
     is_read (\<lambda>w s.
       if cics_wordCount s = 0 then
         s\<lparr>cics_ip_sums := add_lanes (\<lambda>i. True) (na_data w) (cics_ip_sums s),
           cics_ipHeaderLen := ucast (na_data w) - 2, cics_wordCount := 1\<rparr>
       else if cics_wordCount s = 1 then
         s\<lparr>cics_ip_sums := add_lanes (\<lambda>i. \<not> skipChecksum \<or> i \<noteq> 1) (na_data w) (cics_ip_sums s),
           cics_ipHeaderLen := cics_ipHeaderLen s - 2, cics_wordCount := 2\<rparr>
       else is_more 2 (na_data w) s)"

definition compute_ipv4_checksum_128 :: "bool \<Rightarrow> (128 word, 'k) ipSum \<Rightarrow> (128 word, 'k) ipSum" where
  "compute_ipv4_checksum_128 skipChecksum =
     is_read (\<lambda>w s.
       if cics_wordCount s = 0 then
         s\<lparr>cics_ip_sums := add_lanes (\<lambda>i. \<not> skipChecksum \<or> i \<noteq> 5) (na_data w) (cics_ip_sums s),
           cics_ipHeaderLen := ucast (na_data w) - 4, cics_wordCount := 1\<rparr>
       else is_more 4 (na_data w) s)"

definition compute_ipv4_checksum_256 :: "bool \<Rightarrow> (256 word, 'k) ipSum \<Rightarrow> (256 word, 'k) ipSum" where
  "compute_ipv4_checksum_256 skipChecksum =
     is_read (\<lambda>w s.
       if cics_wordCount s = 0 then
         (let len = ucast (na_data w) :: u4;
              s1 = s\<lparr>cics_ip_sums := add_lanes (\<lambda>i. (\<not> skipChecksum \<or> i \<noteq> 5) \<and> i div 2 < unat len) (na_data w)
                       (cics_ip_sums s), cics_wordCount := 1\<rparr>
          in if len > 8 then s1\<lparr>cics_ipHeaderLen := len - 8\<rparr> else (is_write s1)\<lparr>cics_ipHeaderLen := 0\<rparr>)
       else is_more 8 (na_data w) s)"

text \<open>With 512 bits every header fits into the first word; \<open>cics_firstWord\<close> is a word count of zero here.\<close>

definition compute_ipv4_checksum_512 :: "bool \<Rightarrow> (512 word, 'k) ipSum \<Rightarrow> (512 word, 'k) ipSum" where
  "compute_ipv4_checksum_512 skipChecksum =
     is_read (\<lambda>w s.
       if cics_wordCount s = 0 then
         (let len = ucast (na_data w) :: u4
          in is_write (s\<lparr>cics_ipHeaderLen := len, cics_wordCount := 1,
               cics_ip_sums := add_lanes (\<lambda>i. (\<not> skipChecksum \<or> i \<noteq> 5) \<and> i div 2 < unat len) (na_data w) (cics_ip_sums s)\<rparr>))
       else s)"

definition mac_compute_ipv4_checksum :: "bool \<Rightarrow> (512 word, 'k) ipSum \<Rightarrow> (512 word, 'k) ipSum" where
  "mac_compute_ipv4_checksum = compute_ipv4_checksum_512"

definition ip_handler_compute_ipv4_checksum :: "bool \<Rightarrow> (512 word, 'k) ipSum \<Rightarrow> (512 word, 'k) ipSum" where
  "ip_handler_compute_ipv4_checksum = compute_ipv4_checksum_512"

subsection \<open>One's complement sums\<close>

text \<open>\<open>r\<close> is a one's complement sum of numbers whose sum is \<open>T\<close>.\<close>

definition cs_ok :: "u17 \<Rightarrow> nat \<Rightarrow> bool" where
  "cs_ok r T \<longleftrightarrow> unat r < 65536 \<and> unat r mod 65535 = T mod 65535 \<and> (unat r = 0 \<longleftrightarrow> T = 0)"

lemma unat_fold16:
  assumes "unat s \<le> 0x1FFFE"
  shows "unat (fold16 s) = (if unat s < 65536 then unat s else unat s - 65535)"
proof -
  have d: "unat (drop_bit 16 s) = unat s div 65536" 
    using unsigned_less [of s, where ?'a = nat]
    by (simp only: unsigned_drop_bit_eq) (simp add: drop_bit_eq_div take_bit_nat_eq_self)
  have "unat s div 65536 \<le> 1" using assms by simp
  then have "unat (s + drop_bit 16 s) = unat s + unat s div 65536"
    using assms d by (simp add: unat_word_ariths)
  moreover have "fold16 s = take_bit 16 (s + drop_bit 16 s)"
    unfolding fold16_def by (simp add: take_bit_eq_mask mask_eq_exp_minus_1)
  ultimately have "unat (fold16 s) = (unat s + unat s div 65536) mod 65536"
    by (simp only: unsigned_take_bit_eq) (simp add: take_bit_eq_mod)
  moreover have "unat s div 65536 = (if unat s < 65536 then 0 else 1)" using assms by (auto simp: div_nat_eqI)
  ultimately show ?thesis using assms by (simp add: mod_if)
qed

lemma mod_65535_drop: "65535 \<le> (n :: nat) \<Longrightarrow> (n - 65535) mod 65535 = n mod 65535"
  by (simp add: le_mod_geq)

lemma cs_add:
  assumes "cs_ok r T" "cs_ok r' T'"
  shows "cs_ok (fold16 (r + r')) (T + T')"
proof -
  have s: "unat (r + r') = unat r + unat r'" using assms by (simp add: cs_ok_def unat_word_ariths)
  have b: "unat r + unat r' \<le> 0x1FFFE" using assms by (simp add: cs_ok_def)
  have f: "unat (fold16 (r + r')) = (if unat r + unat r' < 65536 then unat r + unat r' else unat r + unat r' - 65535)"
    using unat_fold16 [of "r + r'"] b unfolding s by simp
  have "unat (fold16 (r + r')) mod 65535 = (unat r + unat r') mod 65535"
    unfolding f using mod_65535_drop by auto
  also have "\<dots> = (T + T') mod 65535" using assms unfolding cs_ok_def by (metis mod_add_eq)
  finally show ?thesis using f b assms by (auto simp: cs_ok_def)
qed

lemma cs_zero: "cs_ok 0 0"
  by (simp add: cs_ok_def)

lemma cs_lane: "cs_ok (ucast (t :: u16)) (unat t)"
proof -
  have "unat t < 65536" by (rule order_less_le_trans [OF unsigned_less]) simp
  moreover have "unat (ucast t :: u17) = unat t" by (simp add: unsigned_ucast_eq take_bit_nat_eq_self_iff
      order_less_trans [OF unsigned_less])
  ultimately show ?thesis by (simp add: cs_ok_def)
qed

lemma cs_add_lane: "cs_ok s T \<Longrightarrow> cs_ok (add_lane s t) (T + unat t)"
  unfolding add_lane_def by (rule cs_add [OF _ cs_lane])

subsection \<open>Lanes and their sum\<close>

definition cs_lanes :: "subSums \<Rightarrow> nat list \<Rightarrow> bool" where
  "cs_lanes sums Ts \<longleftrightarrow> list_all2 cs_ok sums Ts"

lemma halve_ok:
  assumes "cs_lanes sums Ts" "length Ts = 2 * h"
  shows "cs_lanes (halve h sums) (map (\<lambda>i. Ts ! i + Ts ! (i + h)) [0 ..< h])"
  using assms unfolding cs_lanes_def halve_def
  by (auto simp: list_all2_conv_all_nth intro!: cs_add)

lemma sum_halves: "length Ts = 2 * h \<Longrightarrow> sum_list (map (\<lambda>i. Ts ! i + Ts ! (i + h)) [0 ..< h]) = sum_list (Ts :: nat list)"
proof -
  assume l: "length Ts = 2 * h"
  have "sum_list Ts = (\<Sum>i<h + h. Ts ! i)" using l by (simp add: sum_list_sum_nth lessThan_atLeast0 mult_2)
  also have "\<dots> = (\<Sum>i<h. Ts ! i) + (\<Sum>i<h. Ts ! (i + h))"
    by (simp add: sum.nat_group [symmetric] sum_up_index_split lessThan_atLeast0 atLeast0LessThan [symmetric]
        add.commute sum.shift_bounds_nat_ivl [symmetric] sum.atLeastLessThan_concat)
  finally show ?thesis by (simp add: sum_list_addf interv_sum_list_conv_sum_set_nat lessThan_atLeast0)
qed

lemma fold_lanes_ok:
  assumes "N = 4 \<or> N = 8 \<or> N = 16 \<or> N = 32" "cs_lanes sums Ts" "length Ts = N"
  shows "cs_ok (fold_lanes N sums) (sum_list Ts)"
proof -
  let ?h = "\<lambda>h Ts. map (\<lambda>i. Ts ! i + Ts ! (i + h)) [0 ..< h] :: nat list"
  have step: "\<exists>Us. cs_lanes (halve h ss) Us \<and> length Us = h \<and> sum_list Us = sum_list Ts'"
    if "cs_lanes ss Ts'" "length Ts' = 2 * h" for h ss and Ts' :: "nat list"
    using halve_ok [OF that] sum_halves [OF that(2)] by (intro exI [of _ "?h h Ts'"]) simp
  have last: "cs_ok (hd (halve 1 (halve 2 ss))) (sum_list Ts')" if h: "cs_lanes ss Ts'" "length Ts' = 4" for ss Ts'
  proof -
    obtain Us where "cs_lanes (halve 2 ss) Us" "length Us = 2" "sum_list Us = sum_list Ts'" using step [of ss Ts' 2] h by auto
    then obtain Vs where v: "cs_lanes (halve 1 (halve 2 ss)) Vs" "length Vs = 1" "sum_list Vs = sum_list Ts'"
      using step [of "halve 2 ss" Us 1] by auto
    then obtain V where "Vs = [V]" by (cases Vs) auto
    then show ?thesis using v by (auto simp: cs_lanes_def list_all2_Cons2)
  qed
  have four: "cs_ok (hd (halve 1 (halve 2 (halve 4 ss)))) (sum_list Ts')" if "cs_lanes ss Ts'" "length Ts' = 8" for ss Ts'
    using step [of ss Ts' 4] last [of "halve 4 ss"] that by fastforce
  have eight: "cs_ok (hd (halve 1 (halve 2 (halve 4 (halve 8 ss))))) (sum_list Ts')"
    if "cs_lanes ss Ts'" "length Ts' = 16" for ss Ts'
    using step [of ss Ts' 8] four [of "halve 8 ss"] that by fastforce
  have sixteen: "cs_ok (hd (halve 1 (halve 2 (halve 4 (halve 8 (halve 16 ss)))))) (sum_list Ts')"
    if "cs_lanes ss Ts'" "length Ts' = 32" for ss Ts'
    using step [of ss Ts' 16] eight [of "halve 16 ss"] that by fastforce
  show ?thesis using assms last four eight sixteen unfolding fold_lanes_def Let_def by (elim disjE) simp_all
qed

lemma low_NOT: "cs_ok r T \<Longrightarrow> unat (ucast (NOT r) :: u16) = 65535 - unat r"
proof -
  assume "cs_ok r T"
  then have r: "unat r < 65536" by (simp add: cs_ok_def)
  have "(ucast (NOT r) :: u16) = NOT (ucast r)" by (rule bit_word_eqI) (simp add: bit_simps)
  also have "\<dots> = - 1 - ucast r" by (simp add: not_eq_complement)
  finally have n: "(ucast (NOT r) :: u16) = - 1 - ucast r" .
  have "unat (ucast r :: u16) \<le> 65535"
    using unsigned_less [of "ucast r :: u16", where ?'a = nat] by simp
  then have "unat (ucast (NOT r) :: u16) = 65535 - unat (ucast r :: u16)"
    unfolding n by (simp add: unat_sub_if' unsigned_minus_1_eq_mask mask_eq_exp_minus_1)
  then show ?thesis using r by (simp add: unsigned_ucast_eq take_bit_nat_eq_self)
qed

text \<open>The 16-bit number of a lane: a single byte counts as the high one.\<close>

definition lane_value :: "('w::len word, 'k::len word) net_axis \<Rightarrow> nat \<Rightarrow> nat" where
  "lane_value w i = (if (get_range (i * 2) 2 (na_keep w) :: 2 word) = 3 then unat (lane i (na_data w))
     else if bit (na_keep w) (i * 2) then unat (lane_high i (na_data w)) else 0)"

definition packet_sum :: "('w::len word, 'k::len word) net_axis list \<Rightarrow> nat" where
  "packet_sum ws = (\<Sum>w \<leftarrow> ws. \<Sum>i \<leftarrow> [0 ..< LENGTH('w) div 16]. lane_value w i)"

lemma tcts_word_ok:
  "cs_lanes sums Ts \<Longrightarrow> cs_lanes (tcts_word w sums) (map (\<lambda>i. Ts ! i + lane_value w i) [0 ..< length Ts])"
  unfolding cs_lanes_def tcts_word_def
  by (auto simp: list_all2_conv_all_nth tcts_lane_def lane_value_def intro!: cs_add_lane)

lemma tcts_words_ok:
  "cs_lanes sums Ts \<Longrightarrow> length Ts = LENGTH('w) div 16 \<Longrightarrow>
   \<exists>Us. cs_lanes (fold tcts_word (ws :: ('w::len word, 'k::len word) net_axis list) sums) Us \<and> length Us = length Ts
     \<and> sum_list Us = sum_list Ts + packet_sum ws"
proof (induction ws arbitrary: sums Ts)
  case (Cons w ws)
  let ?Ts = "map (\<lambda>i. Ts ! i + lane_value w i) [0 ..< length Ts]"
  have "sum_list ?Ts = sum_list Ts + (\<Sum>i \<leftarrow> [0 ..< LENGTH('w) div 16]. lane_value w i)"
    using Cons.prems(2) map_nth [of Ts] by (simp add: sum_list_addf)
  then show ?case
    using Cons.IH [OF tcts_word_ok [OF Cons.prems(1), of w]] Cons.prems(2) by (simp add: packet_sum_def add.assoc)
qed (auto simp: packet_sum_def)

lemma tcts_run:
  "marked ws \<Longrightarrow> tc_dataIn s = ws @ q \<Longrightarrow>
   (two_complement_subchecksums ^^ length ws) (s :: ('w::len word, 'k::len word) subChecksums)
   = s\<lparr>tc_dataIn := q, tc_dataOut := tc_dataOut s @ ws,
       tc_subChecksumsFifoOut := tc_subChecksumsFifoOut s @ [fold tcts_word ws (tcts_tcp_sums s)],
       tcts_tcp_sums := replicate (LENGTH('w) div 16) 0\<rparr>"
proof (induction ws arbitrary: s)
  case (Cons w ws)
  show ?case
  proof (cases "ws = []")
    case True
    then show ?thesis using Cons.prems by (simp add: two_complement_subchecksums_def Let_def)
  next
    case False
    let ?s = "two_complement_subchecksums s"
    have s: "?s = s\<lparr>tc_dataIn := ws @ q, tc_dataOut := tc_dataOut s @ [w], tcts_tcp_sums := tcts_word w (tcts_tcp_sums s)\<rparr>"
      using Cons.prems False by (simp add: two_complement_subchecksums_def Let_def)
    have "(two_complement_subchecksums ^^ length ws) ?s
      = ?s\<lparr>tc_dataIn := q, tc_dataOut := tc_dataOut ?s @ ws,
          tc_subChecksumsFifoOut := tc_subChecksumsFifoOut ?s @ [fold tcts_word ws (tcts_tcp_sums ?s)],
          tcts_tcp_sums := replicate (LENGTH('w) div 16) 0\<rparr>"
      using Cons.prems False by (intro Cons.IH) (simp_all add: s)
    then show ?thesis using s by (simp add: funpow_swap1)
  qed
qed simp

definition tc_start :: "('w::len word, 'k) net_axis list \<Rightarrow> ('w word, 'k) subChecksums" where
  "tc_start ws = \<lparr>tc_dataIn = ws, tc_dataOut = [], tc_subChecksumsFifoOut = [],
     tcts_tcp_sums = replicate (LENGTH('w) div 16) 0\<rparr>"

lemma cs_multiple:
  assumes "cs_ok r T"
  shows "unat r = 65535 \<longleftrightarrow> 0 < T \<and> 65535 dvd T"
proof (cases "unat r = 65535")
  case False
  then have "unat r mod 65535 = unat r" using assms by (intro mod_less) (simp add: cs_ok_def)
  then have "T mod 65535 = unat r" using assms unfolding cs_ok_def by argo
  then show ?thesis using assms False by (auto simp: cs_ok_def dvd_eq_mod_eq_0)
qed (use assms in \<open>auto simp: cs_ok_def dvd_eq_mod_eq_0\<close>)

lemma cs_complement: "cs_ok r T \<Longrightarrow> 0 < T + (65535 - unat r) \<and> 65535 dvd T + (65535 - unat r)"
proof -
  assume c: "cs_ok r T"
  have "(T + (65535 - unat r)) mod 65535 = (unat r + (65535 - unat r)) mod 65535"
    using c unfolding cs_ok_def by (metis mod_add_left_eq)
  also have "\<dots> = 0" using c by (simp add: cs_ok_def)
  finally show ?thesis using c by (auto simp: cs_ok_def dvd_eq_mod_eq_0)
qed

text \<open>C40. The checksum of a packet, at any width: the sub-sums that leave \<open>two_complement_subchecksums\<close> make
  \<open>toe_check_ipv4_checksum\<close> accept the packet exactly if the sum of its 16-bit numbers in network byte order, an odd
  last byte counted as the high one, is a positive multiple of \<open>0xFFFF\<close>; and the number that
  \<open>finalize_ipv4_checksum\<close> computes completes the sum of any packet to such a multiple.\<close>

theorem checksum_ones_complement:
  fixes ws :: "('w::len word, 'k::len word) net_axis list"
  assumes "marked ws" and "LENGTH('w) = 64 \<or> LENGTH('w) = 128 \<or> LENGTH('w) = 256 \<or> LENGTH('w) = 512"
  shows "let s = (two_complement_subchecksums ^^ length ws) (tc_start ws);
      sink = \<lparr>ck_subSumFiFoIn = tc_subChecksumsFifoOut s, ck_checkSumFifoOut = []\<rparr>; N = LENGTH('w) div 16;
      sink' = \<lparr>ck_subSumFiFoIn = tc_subChecksumsFifoOut s, ck_checkSumFifoOut = []\<rparr>
    in tc_dataOut s = ws
      \<and> ck_checkSumFifoOut (toe_check_ipv4_checksum N sink) = [0 < packet_sum ws \<and> 65535 dvd packet_sum ws]
      \<and> (\<exists>c. ck_checkSumFifoOut (finalize_ipv4_checksum N sink') = [c]
            \<and> 0 < packet_sum ws + unat c \<and> 65535 dvd packet_sum ws + unat c)"
proof -
  let ?N = "LENGTH('w) div 16"
  let ?sums = "fold tcts_word ws (replicate ?N 0)"
  have N: "?N = 4 \<or> ?N = 8 \<or> ?N = 16 \<or> ?N = 32" using assms(2) by auto
  have "cs_lanes (replicate ?N 0) (replicate ?N 0)" by (simp add: cs_lanes_def list_all2_conv_all_nth cs_zero)
  then obtain Us where u: "cs_lanes ?sums Us" "length Us = ?N" "sum_list Us = packet_sum ws"
    using tcts_words_ok [of "replicate ?N 0" "replicate ?N 0" ws] by (auto simp: sum_list_replicate)
  then have ok: "cs_ok (fold_lanes ?N ?sums) (packet_sum ws)" using fold_lanes_ok [OF N u(1,2)] by simp
  have low: "unat (ucast (NOT (fold_lanes ?N ?sums)) :: u16) = 65535 - unat (fold_lanes ?N ?sums)" by (rule low_NOT [OF ok])
  have "(ucast (NOT (fold_lanes ?N ?sums)) :: u16) = 0 \<longleftrightarrow> 0 < packet_sum ws \<and> 65535 dvd packet_sum ws"
    using low cs_multiple [OF ok] ok by (auto simp: cs_ok_def unat_eq_zero simp flip: unat_eq_zero)
  then show ?thesis
    using tcts_run [OF assms(1), of "tc_start ws" "[]"] cs_complement [OF ok] low
    by (simp add: tc_start_def toe_check_ipv4_checksum_def finalize_ipv4_checksum_def Let_def)
qed

theorem checksum_ones_complement_witness:
  "let ws = [\<lparr>na_data = 0x0102030405060708, na_keep = - 1, na_last = True\<rparr>] :: (64 word, 8 word) net_axis list;
      s = (two_complement_subchecksums ^^ length ws) (tc_start ws)
    in \<exists>c. ck_checkSumFifoOut (finalize_ipv4_checksum 4
        \<lparr>ck_subSumFiFoIn = tc_subChecksumsFifoOut s, ck_checkSumFifoOut = []\<rparr>) = [c] \<and> 65535 dvd packet_sum ws + unat c"
  using checksum_ones_complement [of "[\<lparr>na_data = 0x0102030405060708, na_keep = - 1, na_last = True\<rparr>] :: (64 word, 8 word) net_axis list"]
  by (auto simp: Let_def)

end
