(* ===== verification/Toe_Tx.thy ===== *)
theory Toe_Tx
  imports Toe_Rx
begin

text \<open>
  The front of the TCP transmit engine (\<^verbatim>\<open>toe/tx_engine/tx_engine.cpp\<close>, \<^verbatim>\<open>tx_engine.hpp\<close>): \<open>metaLoader\<close> turns an event
  into the description of the segments to send, \<open>tupleSplitter\<close> finds their addresses and
  \<open>txEngMemAccessBreakdown\<close> splits the reads of the transmit buffer that wrap. The build is the one without delay
  (\<open>TCP_NODELAY\<close>) and with window scaling. What the code leaves uninitialised is an argument: the
  tuple of an event that was given none, and the window scale of a reset.
\<close>

unbundle bit_operations_syntax

subsection \<open>Types\<close>

record tx_engine_meta =
  tm_seqNumb :: u32
  tm_ackNumb :: u32
  tm_window_size :: u16
  tm_win_shift :: u4
  tm_length :: u16
  tm_ack :: bool
  tm_rst :: bool
  tm_syn :: bool
  tm_fin :: bool

definition mk_tx_engine_meta :: "u4 \<Rightarrow> u32 \<Rightarrow> u32 \<Rightarrow> bool \<Rightarrow> bool \<Rightarrow> bool \<Rightarrow> bool \<Rightarrow> tx_engine_meta" where
  "mk_tx_engine_meta junk sq ak ac rs sy fi =
     \<lparr>tm_seqNumb = sq, tm_ackNumb = ak, tm_window_size = 0, tm_win_shift = junk, tm_length = 0, tm_ack = ac, tm_rst = rs,
      tm_syn = sy, tm_fin = fi\<rparr>"

record twoTuple =
  tt_srcIp :: u32
  tt_dstIp :: u32

definition WINDOW_SCALE_BITS :: nat where
  "WINDOW_SCALE_BITS = 2"

definition mk_txTxSarQuery :: "u16 \<Rightarrow> txTxSarQuery" where
  "mk_txTxSarQuery i =
     \<lparr>tq_sessionID = i, tq_not_ackd = 0, tq_write = False, tq_init = False, tq_finReady = False, tq_finSent = False, tq_isRtQuery = False\<rparr>"

definition mk_txTxSarWrite :: "u16 \<Rightarrow> u32 \<Rightarrow> bool \<Rightarrow> bool \<Rightarrow> bool \<Rightarrow> txTxSarQuery" where
  "mk_txTxSarWrite i n init finReady finSent =
     \<lparr>tq_sessionID = i, tq_not_ackd = n, tq_write = True, tq_init = init, tq_finReady = finReady, tq_finSent = finSent, tq_isRtQuery = False\<rparr>"

definition mk_txTxSarRtQuery :: "u16 \<Rightarrow> u18 \<Rightarrow> txTxSarQuery" where
  "mk_txTxSarRtQuery i ssthresh =
     \<lparr>tq_sessionID = i, tq_not_ackd = ucast ssthresh, tq_write = True, tq_init = False, tq_finReady = False, tq_finSent = False, tq_isRtQuery = True\<rparr>"

definition mk_txRetransmitTimerSet :: "u16 \<Rightarrow> txRetransmitTimerSet" where
  "mk_txRetransmitTimerSet i = \<lparr>rs_sessionID = i, rs_type = RT\<rparr>"

subsection \<open>From events to segments\<close>

record metaLoad =
  ml_events :: "extendedEvent stream"
  ml_rxSar_rsp :: "rxSarReply stream"
  ml_txSar_rsp :: "txTxSarReply stream"
  ml_rxSar_req :: "u16 stream"
  ml_txSar_req :: "txTxSarQuery stream"
  ml_setRetransmitTimer :: "txRetransmitTimerSet stream"
  ml_setProbeTimer :: "u16 stream"
  ml_ipMeta :: "u16 stream"
  ml_tcpMeta :: "tx_engine_meta stream"
  ml_readCmd :: "mmCmd stream"
  ml_rev_req :: "u16 stream"
  ml_isLookUp :: "bool stream"
  ml_isDDRbypass :: "bool stream"
  ml_tupleShortCut :: "fourTuple stream"
  ml_readCount :: "u1 stream"
  ml_FsmState :: bool
  ml_sarLoaded :: bool
  ml_curEvent :: extendedEvent
  ml_randomValue :: u32
  ml_segmentCount :: u2
  ml_rxSar :: rxSarReply
  ml_txSarReg :: txTxSarReply
  ml_meta :: tx_engine_meta

abbreviation ml_event :: "metaLoad \<Rightarrow> event" where
  "ml_event s \<equiv> fst (ml_curEvent s)"

abbreviation ml_session :: "metaLoad \<Rightarrow> u16" where
  "ml_session s \<equiv> ev_sessionID (ml_event s)"

text \<open>A segment with its addresses looked up: the length for the IP header, the description, the request.\<close>

definition ml_send :: "tx_engine_meta \<Rightarrow> u16 \<Rightarrow> metaLoad \<Rightarrow> metaLoad" where
  "ml_send m i s =
     s\<lparr>ml_ipMeta := ml_ipMeta s @ [tm_length m], ml_tcpMeta := ml_tcpMeta s @ [m], ml_isLookUp := ml_isLookUp s @ [True],
       ml_rev_req := ml_rev_req s @ [i]\<rparr>"

definition ml_ask_tx :: "metaLoad \<Rightarrow> metaLoad" where
  "ml_ask_tx s = s\<lparr>ml_txSar_req := ml_txSar_req s @ [mk_txTxSarQuery (ml_session s)]\<rparr>"

definition ml_ask_both :: "metaLoad \<Rightarrow> metaLoad" where
  "ml_ask_both s = ml_ask_tx (s\<lparr>ml_rxSar_req := ml_rxSar_req s @ [ml_session s]\<rparr>)"

definition ml_write_tx :: "txTxSarQuery \<Rightarrow> metaLoad \<Rightarrow> metaLoad" where
  "ml_write_tx q s = s\<lparr>ml_txSar_req := ml_txSar_req s @ [q]\<rparr>"

definition ml_set_timer :: "txRetransmitTimerSet \<Rightarrow> metaLoad \<Rightarrow> metaLoad" where
  "ml_set_timer t s = s\<lparr>ml_setRetransmitTimer := ml_setRetransmitTimer s @ [t]\<rparr>"

text \<open>State 0: an event is taken and the tables it needs are asked.\<close>

definition ml_request :: "metaLoad \<Rightarrow> metaLoad" where
  "ml_request s =
     (case ev_type (ml_event s) of
        RST \<Rightarrow> if hasSessionID (ml_event s) then ml_ask_tx s else s
      | SYN \<Rightarrow> if ev_rt_count (ml_event s) \<noteq> 0 then ml_ask_tx s else s
      | _ \<Rightarrow> ml_ask_both s)"

definition ml_take :: "metaLoad \<Rightarrow> metaLoad" where
  "ml_take s =
     (case ml_events s of
        [] \<Rightarrow> s\<lparr>ml_segmentCount := 0\<rparr>
      | e # es \<Rightarrow>
         (ml_request (s\<lparr>ml_events := es, ml_curEvent := e, ml_readCount := ml_readCount s @ [1], ml_sarLoaded := False\<rparr>))
           \<lparr>ml_FsmState := True, ml_randomValue := ml_randomValue s + 1, ml_segmentCount := 0\<rparr>)"

text \<open>The description of a segment of an established connection.\<close>

definition ml_data_meta :: "rxSarReply \<Rightarrow> u32 \<Rightarrow> u16 \<Rightarrow> bool \<Rightarrow> tx_engine_meta \<Rightarrow> tx_engine_meta" where
  "ml_data_meta rx sq len fin m =
     m\<lparr>tm_ackNumb := rr_recvd rx, tm_seqNumb := sq, tm_window_size := rr_windowSize rx, tm_ack := True, tm_rst := False,
       tm_syn := False, tm_fin := fin, tm_length := len\<rparr>"

text \<open>New data of the application, which is on its way past the buffer.\<close>

definition ml_TX :: "metaLoad \<Rightarrow> metaLoad" where
  "ml_TX s =
     (case (ml_rxSar_rsp s, ml_txSar_rsp s) of
        (rx # rxs, tx # txs) \<Rightarrow>
         (let i = ml_session s; len = ev_length (ml_event s); m = ml_data_meta rx (tr_not_ackd tx) len False (ml_meta s);
              s1 = s\<lparr>ml_rxSar_rsp := rxs, ml_txSar_rsp := txs, ml_rxSar := rx, ml_meta := m, ml_FsmState := False\<rparr>;
              s2 = (if 0x7FFF < len then s1\<lparr>ml_setProbeTimer := ml_setProbeTimer s1 @ [i]\<rparr> else s1);
              s3 = ml_write_tx (mk_txTxSarWrite i (tr_not_ackd tx + ucast len) False False False) s2
          in if len \<noteq> 0
             then ml_set_timer (mk_txRetransmitTimerSet i) ((ml_send m i s3)\<lparr>ml_isDDRbypass := ml_isDDRbypass s3 @ [True]\<rparr>)
             else s3)
      | _ \<Rightarrow> s)"

text \<open>The address of a byte in the transmit buffer: fourteen bits of the session in twelve.\<close>

definition txPkgAddr :: "u16 \<Rightarrow> u32 \<Rightarrow> u32" where
  "txPkgAddr i sq = push_bit 18 (take_bit 12 (ucast i)) OR take_bit 18 sq"

definition rt_threshold :: "rxEngCfg \<Rightarrow> u18 \<Rightarrow> u18" where
  "rt_threshold c len = (if 4 * unat (MSS c) < unat len then len div 2 else 2 * ucast (MSS c))"

text \<open>Retransmission: one segment per call from the oldest unacknowledged byte on.\<close>

definition ml_RT_segment :: "rxEngCfg \<Rightarrow> txTxSarReply \<Rightarrow> metaLoad \<Rightarrow> metaLoad" where
  "ml_RT_segment c tx s =
     (let i = ml_session s; used = tr_usedLength tx; more = unat (MSS c) < unat used;
          len = (if more then MSS c else ucast used); m = ml_data_meta (ml_rxSar s) (tr_ackd tx) len False (ml_meta s);
          s1 = (if \<not> ml_sarLoaded s \<and> ev_rt_count (ml_event s) = 1
                then ml_write_tx (mk_txTxSarRtQuery i (rt_threshold c used)) s else s);
          tx' = (if more then tx\<lparr>tr_ackd := tr_ackd tx + ucast (MSS c), tr_usedLength := used - ucast (MSS c)\<rparr> else tx);
          s2 = (if more
                then s1\<lparr>ml_FsmState := ml_segmentCount s \<noteq> 3, ml_segmentCount := ml_segmentCount s + 1\<rparr>
                else if tr_finSent tx then s1\<lparr>ml_curEvent := ((ml_event s)\<lparr>ev_type := FIN\<rparr>, snd (ml_curEvent s))\<rparr>
                else s1\<lparr>ml_FsmState := False\<rparr>);
          s3 = (if len \<noteq> 0
                then ml_set_timer (mk_txRetransmitTimerSet i)
                  ((ml_send m i s2)\<lparr>ml_readCmd := ml_readCmd s2 @ [mk_mmCmd (txPkgAddr i (tr_ackd tx)) len],
                                    ml_isDDRbypass := ml_isDDRbypass s2 @ [False]\<rparr>)
                else s2)
      in s3\<lparr>ml_meta := m, ml_sarLoaded := True, ml_txSarReg := tx'\<rparr>)"

definition ml_RT :: "rxEngCfg \<Rightarrow> metaLoad \<Rightarrow> metaLoad" where
  "ml_RT c s =
     (if ml_sarLoaded s then ml_RT_segment c (ml_txSarReg s) s
      else case (ml_rxSar_rsp s, ml_txSar_rsp s) of
        (rx # rxs, tx # txs) \<Rightarrow> ml_RT_segment c tx (s\<lparr>ml_rxSar_rsp := rxs, ml_txSar_rsp := txs, ml_rxSar := rx\<rparr>)
      | _ \<Rightarrow> s)"

definition ml_ACK :: "metaLoad \<Rightarrow> metaLoad" where
  "ml_ACK s =
     (case (ml_rxSar_rsp s, ml_txSar_rsp s) of
        (rx # rxs, tx # txs) \<Rightarrow>
         (let m = ml_data_meta rx (tr_not_ackd tx) 0 False (ml_meta s)
          in ml_send m (ml_session s)
               (s\<lparr>ml_rxSar_rsp := rxs, ml_txSar_rsp := txs, ml_rxSar := rx, ml_meta := m, ml_FsmState := False\<rparr>))
      | _ \<Rightarrow> s)"

text \<open>Opening segments. A first one gets a new sequence number, a repeated one the old.\<close>

definition ml_initial_seq :: "u32 \<Rightarrow> u32" where
  "ml_initial_seq rnd = push_bit 6 rnd - 1"

definition ml_next_random :: "u32 \<Rightarrow> u32" where
  "ml_next_random rnd = (rnd * 8) XOR rnd"

definition ml_new_seq :: "metaLoad \<Rightarrow> metaLoad" where
  "ml_new_seq s =
     ml_write_tx (mk_txTxSarWrite (ml_session s) (ml_initial_seq (ml_randomValue s) + 1) True False False)
       (s\<lparr>ml_randomValue := ml_next_random (ml_randomValue s)\<rparr>)"

definition ml_SYN :: "metaLoad \<Rightarrow> metaLoad" where
  "ml_SYN s =
     (let i = ml_session s;
          opening = (\<lambda>sq s. let m = (ml_meta s)\<lparr>tm_seqNumb := sq, tm_ackNumb := 0, tm_window_size := 0xFFFF, tm_length := 8,
              tm_ack := False, tm_rst := False, tm_syn := True, tm_fin := False, tm_win_shift := of_nat WINDOW_SCALE_BITS\<rparr>
            in ml_set_timer \<lparr>rs_sessionID = i, rs_type = SYN\<rparr> (ml_send m i (s\<lparr>ml_meta := m, ml_FsmState := False\<rparr>)))
      in if ev_rt_count (ml_event s) = 0 then opening (ml_initial_seq (ml_randomValue s)) (ml_new_seq s)
         else case ml_txSar_rsp s of [] \<Rightarrow> s | tx # txs \<Rightarrow> opening (tr_ackd tx) (s\<lparr>ml_txSar_rsp := txs\<rparr>))"

definition ml_SYN_ACK :: "metaLoad \<Rightarrow> metaLoad" where
  "ml_SYN_ACK s =
     (case (ml_rxSar_rsp s, ml_txSar_rsp s) of
        (rx # rxs, tx # txs) \<Rightarrow>
         (let i = ml_session s; first = (ev_rt_count (ml_event s) = 0);
              m = (ml_meta s)\<lparr>tm_seqNumb := (if first then ml_initial_seq (ml_randomValue s) else tr_ackd tx), tm_ackNumb := rr_recvd rx,
                  tm_window_size := 0xFFFF, tm_length := (if rr_win_shift rx \<noteq> 0 then 8 else 4), tm_ack := True, tm_rst := False,
                  tm_syn := True, tm_fin := False, tm_win_shift := rr_win_shift rx\<rparr>;
              s1 = s\<lparr>ml_rxSar_rsp := rxs, ml_txSar_rsp := txs, ml_rxSar := rx, ml_meta := m, ml_FsmState := False\<rparr>
          in ml_set_timer \<lparr>rs_sessionID = i, rs_type = SYN_ACK\<rparr> (ml_send m i (if first then ml_new_seq s1 else s1)))
      | _ \<Rightarrow> s)"

definition ml_FIN_segment :: "txTxSarReply \<Rightarrow> metaLoad \<Rightarrow> metaLoad" where
  "ml_FIN_segment tx s =
     (let i = ml_session s; first = (ev_rt_count (ml_event s) = 0);
          m = ml_data_meta (ml_rxSar s) (if first then tr_not_ackd tx else tr_not_ackd tx - 1) 0 True (ml_meta s);
          s1 = s\<lparr>ml_meta := m, ml_FsmState := False\<rparr>
      in ml_set_timer (mk_txRetransmitTimerSet i)
           (ml_send m i (if first then ml_write_tx (mk_txTxSarWrite i (tr_not_ackd tx + 1) False True True) s1 else s1)))"

definition ml_FIN :: "metaLoad \<Rightarrow> metaLoad" where
  "ml_FIN s =
     (if ml_sarLoaded s then ml_FIN_segment (ml_txSarReg s) s
      else case (ml_rxSar_rsp s, ml_txSar_rsp s) of
        (rx # rxs, tx # txs) \<Rightarrow> ml_FIN_segment tx (s\<lparr>ml_rxSar_rsp := rxs, ml_txSar_rsp := txs, ml_rxSar := rx\<rparr>)
      | _ \<Rightarrow> s)"

text \<open>A reset of a connection that has no session carries its addresses with it.\<close>

definition ml_RST :: "fourTuple \<Rightarrow> u4 \<Rightarrow> metaLoad \<Rightarrow> metaLoad" where
  "ml_RST junk shift s =
     (let ev = ml_event s
      in if \<not> hasSessionID ev
         then s\<lparr>ml_ipMeta := ml_ipMeta s @ [0],
                ml_tcpMeta := ml_tcpMeta s @ [mk_tx_engine_meta shift 0 (getAckNumb ev) True True False False],
                ml_isLookUp := ml_isLookUp s @ [False],
                ml_tupleShortCut := ml_tupleShortCut s @ [case snd (ml_curEvent s) of None \<Rightarrow> junk | Some t \<Rightarrow> t],
                ml_FsmState := False\<rparr>
         else case ml_txSar_rsp s of
           [] \<Rightarrow> s
         | tx # txs \<Rightarrow>
            ml_send (mk_tx_engine_meta shift (tr_not_ackd tx) (getAckNumb ev) True True False False) (ml_session s)
              (s\<lparr>ml_txSar_rsp := txs, ml_FsmState := False\<rparr>))"

definition metaLoader :: "rxEngCfg \<Rightarrow> fourTuple \<Rightarrow> u4 \<Rightarrow> metaLoad \<Rightarrow> metaLoad" where
  "metaLoader c junk shift s =
     (if \<not> ml_FsmState s then ml_take s
      else case ev_type (ml_event s) of
        TX \<Rightarrow> ml_TX s
      | RT \<Rightarrow> ml_RT c s
      | ACK \<Rightarrow> ml_ACK s
      | ACK_NODELAY \<Rightarrow> ml_ACK s
      | SYN \<Rightarrow> ml_SYN s
      | SYN_ACK \<Rightarrow> ml_SYN_ACK s
      | FIN \<Rightarrow> ml_FIN s
      | RST \<Rightarrow> ml_RST junk shift s)"

subsection \<open>Addresses\<close>

record tupleSplit =
  ts_rev_rsp :: "fourTuple stream"
  ts_tupleShortCut :: "fourTuple stream"
  ts_isLookUpIn :: "bool stream"
  ts_ipTuple :: "twoTuple stream"
  ts_tcpTuple :: "fourTuple stream"
  ts_getMeta :: bool
  ts_isLookUp :: bool

definition ts_emit :: "fourTuple \<Rightarrow> tupleSplit \<Rightarrow> tupleSplit" where
  "ts_emit t s =
     s\<lparr>ts_ipTuple := ts_ipTuple s @ [\<lparr>tt_srcIp = srcIp t, tt_dstIp = dstIp t\<rparr>], ts_tcpTuple := ts_tcpTuple s @ [t],
       ts_getMeta := True\<rparr>"

definition tupleSplitter :: "tupleSplit \<Rightarrow> tupleSplit" where
  "tupleSplitter s =
     (if ts_getMeta s
      then case ts_isLookUpIn s of [] \<Rightarrow> s | b # bs \<Rightarrow> s\<lparr>ts_isLookUpIn := bs, ts_isLookUp := b, ts_getMeta := False\<rparr>
      else if ts_isLookUp s
      then case ts_rev_rsp s of [] \<Rightarrow> s | t # q \<Rightarrow> ts_emit t (s\<lparr>ts_rev_rsp := q\<rparr>)
      else case ts_tupleShortCut s of [] \<Rightarrow> s | t # q \<Rightarrow> ts_emit t (s\<lparr>ts_tupleShortCut := q\<rparr>))"

subsection \<open>Reads of the transmit buffer\<close>

record memBreakdown =
  mb_input :: "mmCmd stream"
  mb_output :: "mmCmd stream"
  mb_stitcher :: "bool stream"
  mb_second :: bool
  mb_cmd :: mmCmd
  mb_lengthFirstAccess :: u18

definition txEngMemAccessBreakdown :: "memBreakdown \<Rightarrow> memBreakdown" where
  "txEngMemAccessBreakdown s =
     (if mb_second s
      then s\<lparr>mb_output := mb_output s @ [mk_mmCmd 0 (ucast (mc_bbt (mb_cmd s) - ucast (mb_lengthFirstAccess s)))], mb_second := False\<rparr>
      else case mb_input s of
        [] \<Rightarrow> s
      | cmd # q \<Rightarrow>
         (if 2 ^ 18 < unat (take_bit 18 (mc_saddr cmd)) + unat (mc_bbt cmd)
          then let len = ucast (2 ^ 18 - mc_saddr cmd) :: u18
               in s\<lparr>mb_input := q, mb_cmd := cmd, mb_lengthFirstAccess := len, mb_stitcher := mb_stitcher s @ [True],
                    mb_output := mb_output s @ [mk_mmCmd (mc_saddr cmd) (ucast len)], mb_second := True\<rparr>
          else s\<lparr>mb_input := q, mb_cmd := cmd, mb_stitcher := mb_stitcher s @ [False], mb_output := mb_output s @ [cmd]\<rparr>))"

end
