(* ===== verification/Toe_Tx_Proofs.thy ===== *)
theory Toe_Tx_Proofs
  imports Toe_Tx Toe_Sar_Tables
begin

text \<open>
  What \<open>metaLoader\<close> promises the modules behind it: its output streams fit together whatever events and answers
  arrive, a retransmission covers the unacknowledged bytes, and where the code departs from this.
\<close>

subsection \<open>The streams fit together\<close>

datatype txIn = TxEvent extendedEvent | TxRxSar rxSarReply | TxTxSar txTxSarReply | MetaLoader fourTuple u4

fun tx_front_step :: "rxEngCfg \<Rightarrow> txIn \<Rightarrow> metaLoad \<Rightarrow> metaLoad" where
  "tx_front_step c (TxEvent e) s = s\<lparr>ml_events := ml_events s @ [e]\<rparr>"
| "tx_front_step c (TxRxSar r) s = s\<lparr>ml_rxSar_rsp := ml_rxSar_rsp s @ [r]\<rparr>"
| "tx_front_step c (TxTxSar r) s = s\<lparr>ml_txSar_rsp := ml_txSar_rsp s @ [r]\<rparr>"
| "tx_front_step c (MetaLoader junk shift) s = metaLoader c junk shift s"

text \<open>The segments whose addresses are looked up, each with its session; those that carry bytes; the read
  that fetches them.\<close>

definition with_payload :: "tx_engine_meta \<Rightarrow> bool" where
  "with_payload m \<longleftrightarrow> tm_length m \<noteq> 0 \<and> \<not> tm_syn m"

definition tx_segments :: "metaLoad \<Rightarrow> (tx_engine_meta \<times> u16) list" where
  "tx_segments s = zip (map fst (filter snd (zip (ml_tcpMeta s) (ml_isLookUp s)))) (ml_rev_req s)"

definition tx_payloads :: "metaLoad \<Rightarrow> (tx_engine_meta \<times> u16) list" where
  "tx_payloads s = filter (\<lambda>(m, i). with_payload m) (tx_segments s)"

definition buffer_read :: "tx_engine_meta \<Rightarrow> u16 \<Rightarrow> mmCmd" where
  "buffer_read m i = mk_mmCmd (txPkgAddr i (tm_seqNumb m)) (tm_length m)"

definition tx_aligned :: "metaLoad \<Rightarrow> bool" where
  "tx_aligned s \<longleftrightarrow>
     ml_ipMeta s = map tm_length (ml_tcpMeta s)
   \<and> length (ml_isLookUp s) = length (ml_tcpMeta s)
   \<and> length (ml_rev_req s) = length (filter id (ml_isLookUp s))
   \<and> length (ml_tupleShortCut s) = length (filter Not (ml_isLookUp s))
   \<and> map fst (tx_payloads s) = filter with_payload (ml_tcpMeta s)
   \<and> length (ml_isDDRbypass s) = length (tx_payloads s)
   \<and> ml_readCmd s = map (\<lambda>((m, i), b). buffer_read m i) (filter (\<lambda>(p, b). \<not> b) (zip (tx_payloads s) (ml_isDDRbypass s)))"

lemma length_looked_up: "length xs = length bs \<Longrightarrow> length (filter snd (zip xs bs)) = length (filter id bs)"
  by (induction xs bs rule: list_induct2) auto

text \<open>A state that agrees on the outputs is aligned as well; the outputs grow by one segment.\<close>

definition same_out :: "metaLoad \<Rightarrow> metaLoad \<Rightarrow> bool" where
  "same_out s t \<longleftrightarrow> ml_ipMeta t = ml_ipMeta s \<and> ml_tcpMeta t = ml_tcpMeta s \<and> ml_isLookUp t = ml_isLookUp s
     \<and> ml_rev_req t = ml_rev_req s \<and> ml_tupleShortCut t = ml_tupleShortCut s \<and> ml_isDDRbypass t = ml_isDDRbypass s
     \<and> ml_readCmd t = ml_readCmd s"

lemma aligned_same: "tx_aligned s \<Longrightarrow> same_out s t \<Longrightarrow> tx_aligned t"
  by (simp add: tx_aligned_def same_out_def tx_payloads_def tx_segments_def)

lemma aligned_send:
  assumes "tx_aligned s" "\<not> with_payload m"
  shows "tx_aligned (ml_send m i s)"
proof -
  have n: "length (ml_tcpMeta s) = length (ml_isLookUp s)"
      "length (ml_rev_req s) = length (filter snd (zip (ml_tcpMeta s) (ml_isLookUp s)))"
    using assms length_looked_up [of "ml_tcpMeta s" "ml_isLookUp s"] by (simp_all add: tx_aligned_def)
  have "tx_segments (ml_send m i s) = tx_segments s @ [(m, i)]" using n by (simp add: tx_segments_def ml_send_def)
  then have "tx_payloads (ml_send m i s) = tx_payloads s" using assms(2) by (simp add: tx_payloads_def)
  then show ?thesis using assms by (simp add: tx_aligned_def ml_send_def)
qed

lemma aligned_payload:
  assumes "tx_aligned s" "with_payload m"
    and "t = (ml_send m i s)\<lparr>ml_isDDRbypass := ml_isDDRbypass s @ [b],
      ml_readCmd := ml_readCmd s @ (if b then [] else [buffer_read m i])\<rparr>"
  shows "tx_aligned t"
proof -
  have n: "length (ml_tcpMeta s) = length (ml_isLookUp s)"
      "length (ml_rev_req s) = length (filter snd (zip (ml_tcpMeta s) (ml_isLookUp s)))"
    using assms length_looked_up [of "ml_tcpMeta s" "ml_isLookUp s"] by (simp_all add: tx_aligned_def)
  have "tx_segments t = tx_segments s @ [(m, i)]" using n by (simp add: tx_segments_def ml_send_def assms(3))
  then have "tx_payloads t = tx_payloads s @ [(m, i)]" using assms(2) by (simp add: tx_payloads_def)
  then show ?thesis using assms by (simp add: tx_aligned_def ml_send_def)
qed

lemma aligned_reset:
  assumes "tx_aligned s" "\<not> with_payload m"
    and "t = s\<lparr>ml_ipMeta := ml_ipMeta s @ [tm_length m], ml_tcpMeta := ml_tcpMeta s @ [m], ml_isLookUp := ml_isLookUp s @ [False],
      ml_tupleShortCut := ml_tupleShortCut s @ [a], ml_FsmState := False\<rparr>"
  shows "tx_aligned t"
  using assms by (simp add: tx_aligned_def tx_payloads_def tx_segments_def)

lemmas ml_write_defs = ml_write_tx_def ml_set_timer_def ml_ask_tx_def ml_ask_both_def ml_new_seq_def

lemma aligned_take: "tx_aligned s \<Longrightarrow> tx_aligned (ml_take s)"
  by (erule aligned_same)
    (simp add: same_out_def ml_take_def ml_request_def ml_write_defs split: list.split eventType.split)

lemma data_meta_payload [simp]: "with_payload (ml_data_meta rx sq len fin m) \<longleftrightarrow> len \<noteq> 0"
  by (simp add: with_payload_def ml_data_meta_def)

lemma tx_meta_fields [simp]:
  "tm_length (ml_data_meta rx sq len fin m) = len" "tm_seqNumb (ml_data_meta rx sq len fin m) = sq"
  by (simp_all add: ml_data_meta_def)

lemma aligned_timer: "tx_aligned (ml_set_timer t s) = tx_aligned s"
  by (simp add: tx_aligned_def ml_set_timer_def tx_payloads_def tx_segments_def)

lemma aligned_write: "tx_aligned (ml_write_tx t s) = tx_aligned s"
  by (simp add: tx_aligned_def ml_write_tx_def tx_payloads_def tx_segments_def)

lemma aligned_TX:
  assumes "tx_aligned s"
  shows "tx_aligned (ml_TX s)"
proof (cases "ml_rxSar_rsp s = [] \<or> ml_txSar_rsp s = []")
  case True
  then show ?thesis using assms by (auto simp: ml_TX_def split: list.splits)
next
  case False
  then obtain rx rxs tx txs where q: "ml_rxSar_rsp s = rx # rxs" "ml_txSar_rsp s = tx # txs" by (metis neq_Nil_conv)
  define len where "len = ev_length (ml_event s)"
  define m where "m = ml_data_meta rx (tr_not_ackd tx) len False (ml_meta s)"
  define s1 where "s1 = s\<lparr>ml_rxSar_rsp := rxs, ml_txSar_rsp := txs, ml_rxSar := rx, ml_meta := m, ml_FsmState := False\<rparr>"
  define s3 where "s3 = ml_write_tx (mk_txTxSarWrite (ml_session s) (tr_not_ackd tx + ucast len) False False False)
      (if 0x7FFF < len then s1\<lparr>ml_setProbeTimer := ml_setProbeTimer s1 @ [ml_session s]\<rparr> else s1)"
  have a: "tx_aligned s3" by (rule aligned_same [OF assms]) (simp add: same_out_def s3_def s1_def ml_write_tx_def)
  have "ml_TX s = (if len \<noteq> 0 then ml_set_timer (mk_txRetransmitTimerSet (ml_session s))
      ((ml_send m (ml_session s) s3)\<lparr>ml_isDDRbypass := ml_isDDRbypass s3 @ [True]\<rparr>) else s3)"
    by (simp add: ml_TX_def q s3_def s1_def m_def len_def Let_def)
  moreover have "tx_aligned ((ml_send m (ml_session s) s3)\<lparr>ml_isDDRbypass := ml_isDDRbypass s3 @ [True]\<rparr>)" if "len \<noteq> 0"
    by (rule aligned_payload [OF a, where m = m and b = True]) (simp_all add: m_def that ml_send_def)
  ultimately show ?thesis using a by (simp add: aligned_timer)
qed

lemma aligned_RT_segment:
  assumes "tx_aligned s"
  shows "tx_aligned (ml_RT_segment c tx s)"
proof -
  let ?i = "ml_session s" and ?used = "tr_usedLength tx"
  define more where "more \<longleftrightarrow> unat (MSS c) < unat ?used"
  define len where "len = (if more then MSS c else ucast ?used)"
  define m where "m = ml_data_meta (ml_rxSar s) (tr_ackd tx) len False (ml_meta s)"
  define s1 where "s1 = (if \<not> ml_sarLoaded s \<and> ev_rt_count (ml_event s) = 1
    then ml_write_tx (mk_txTxSarRtQuery ?i (rt_threshold c ?used)) s else s)"
  define s2 where "s2 = (if more
      then s1\<lparr>ml_FsmState := ml_segmentCount s \<noteq> 3, ml_segmentCount := ml_segmentCount s + 1\<rparr>
      else if tr_finSent tx then s1\<lparr>ml_curEvent := ((ml_event s)\<lparr>ev_type := FIN\<rparr>, snd (ml_curEvent s))\<rparr>
      else s1\<lparr>ml_FsmState := False\<rparr>)"
  define s3 where "s3 = (if len \<noteq> 0
      then ml_set_timer (mk_txRetransmitTimerSet ?i)
        ((ml_send m ?i s2)\<lparr>ml_readCmd := ml_readCmd s2 @ [mk_mmCmd (txPkgAddr ?i (tr_ackd tx)) len],
                          ml_isDDRbypass := ml_isDDRbypass s2 @ [False]\<rparr>)
      else s2)"
  have s2: "tx_aligned s2" by (rule aligned_same [OF assms]) (simp add: same_out_def s2_def s1_def ml_write_tx_def)
  have "tx_aligned ((ml_send m ?i s2)\<lparr>ml_readCmd := ml_readCmd s2 @ [mk_mmCmd (txPkgAddr ?i (tr_ackd tx)) len],
                          ml_isDDRbypass := ml_isDDRbypass s2 @ [False]\<rparr>)" if "len \<noteq> 0"
    by (rule aligned_payload [OF s2, where m = m and b = False and i = ?i])
      (simp_all add: m_def that ml_send_def buffer_read_def)
  then have s3: "tx_aligned s3" using s2 by (simp add: s3_def aligned_timer)
  have "same_out s3 (ml_RT_segment c tx s)"
    by (simp add: same_out_def ml_RT_segment_def Let_def s3_def s2_def s1_def m_def len_def more_def)
  then show ?thesis by (rule aligned_same [OF s3])
qed

lemma aligned_FIN_segment:
  assumes "tx_aligned s"
  shows "tx_aligned (ml_FIN_segment tx s)"
proof -
  have "tx_aligned (s\<lparr>ml_meta := m, ml_FsmState := False\<rparr>)" for m
    by (rule aligned_same [OF assms]) (simp add: same_out_def)
  then show ?thesis unfolding ml_FIN_segment_def Let_def by (simp add: aligned_timer aligned_send aligned_write)
qed

lemma aligned_update:
  "tx_aligned s \<Longrightarrow> tx_aligned (s\<lparr>ml_rxSar_rsp := a, ml_txSar_rsp := b, ml_rxSar := r\<rparr>)"
  "tx_aligned s \<Longrightarrow> tx_aligned (s\<lparr>ml_txSar_rsp := b\<rparr>)"
  "tx_aligned s \<Longrightarrow> tx_aligned (s\<lparr>ml_rxSar_rsp := a\<rparr>)"
  "tx_aligned s \<Longrightarrow> tx_aligned (s\<lparr>ml_events := es\<rparr>)"
  "tx_aligned s \<Longrightarrow> tx_aligned (s\<lparr>ml_randomValue := v\<rparr>)"
  "tx_aligned s \<Longrightarrow> tx_aligned (s\<lparr>ml_meta := m, ml_FsmState := f\<rparr>)"
  "tx_aligned s \<Longrightarrow> tx_aligned (s\<lparr>ml_txSar_rsp := b, ml_FsmState := f\<rparr>)"
  "tx_aligned s \<Longrightarrow> tx_aligned (s\<lparr>ml_rxSar_rsp := a, ml_txSar_rsp := b, ml_rxSar := r, ml_meta := m, ml_FsmState := f\<rparr>)"
  by (rule aligned_same; simp add: same_out_def)+

lemma aligned_new_seq: "tx_aligned s \<Longrightarrow> tx_aligned (ml_new_seq s)"
  by (simp add: ml_new_seq_def aligned_write aligned_update)

lemmas aligned_rules = aligned_update aligned_new_seq aligned_timer aligned_write aligned_send aligned_take aligned_TX
  aligned_RT_segment aligned_FIN_segment

lemma aligned_call: "tx_aligned s \<Longrightarrow> tx_aligned (metaLoader c junk shift s)"
  unfolding metaLoader_def
proof (cases "ml_FsmState s", cases "ev_type (ml_event s)", simp_all add: aligned_rules)
  assume a: "tx_aligned s"
  show "tx_aligned (ml_RT c s)" using a by (auto simp: ml_RT_def aligned_rules split: list.split)
  show "tx_aligned (ml_ACK s)" "tx_aligned (ml_ACK s)"
    using a by (auto simp: ml_ACK_def aligned_rules Let_def split: list.split)
  show "tx_aligned (ml_FIN s)" using a by (auto simp: ml_FIN_def aligned_rules split: list.split)
  show "tx_aligned (ml_SYN s)"
    using a by (auto simp: ml_SYN_def aligned_rules Let_def with_payload_def split: list.split)
  show "tx_aligned (ml_SYN_ACK s)"
    using a by (auto simp: ml_SYN_ACK_def aligned_rules Let_def with_payload_def split: list.split)
  let ?m = "mk_tx_engine_meta shift 0 (getAckNumb (ml_event s)) True True False False"
  have "tx_aligned (s\<lparr>ml_ipMeta := ml_ipMeta s @ [tm_length ?m], ml_tcpMeta := ml_tcpMeta s @ [?m],
      ml_isLookUp := ml_isLookUp s @ [False], ml_tupleShortCut := ml_tupleShortCut s @ [t], ml_FsmState := False\<rparr>)" for t
    by (rule aligned_reset [OF a, where m = ?m and a = t]) (simp_all add: with_payload_def mk_tx_engine_meta_def)
  then show "tx_aligned (ml_RST junk shift s)"
    using a by (auto simp: ml_RST_def aligned_rules Let_def with_payload_def mk_tx_engine_meta_def split: list.split)
qed

lemma aligned_step: "tx_aligned s \<Longrightarrow> tx_aligned (tx_front_step c i s)"
  by (cases i) (simp_all add: aligned_update aligned_call)

text \<open>The statics when the engine starts; those the code does not initialise are arguments.\<close>

definition ml_init :: "extendedEvent \<Rightarrow> rxSarReply \<Rightarrow> txTxSarReply \<Rightarrow> tx_engine_meta \<Rightarrow> metaLoad" where
  "ml_init ev rx tx m =
     \<lparr>ml_events = [], ml_rxSar_rsp = [], ml_txSar_rsp = [], ml_rxSar_req = [], ml_txSar_req = [], ml_setRetransmitTimer = [],
      ml_setProbeTimer = [], ml_ipMeta = [], ml_tcpMeta = [], ml_readCmd = [], ml_rev_req = [], ml_isLookUp = [],
      ml_isDDRbypass = [], ml_tupleShortCut = [], ml_readCount = [], ml_FsmState = False, ml_sarLoaded = False,
      ml_curEvent = ev, ml_randomValue = 0x562301af, ml_segmentCount = 0, ml_rxSar = rx, ml_txSarReg = tx, ml_meta = m\<rparr>"

interpretation txf: step_invariant "ml_init ev rx tx m" "tx_front_step c" tx_aligned for ev rx tx m c
  by unfold_locales (simp_all add: aligned_step, simp add: tx_aligned_def ml_init_def tx_payloads_def tx_segments_def)

text \<open>C13. Whatever events and answers of the tables arrive and whenever \<open>metaLoader\<close> is called, the streams it feeds
  fit together: one length for the IP header, one look-up flag and one address request or address per segment;
  one bypass flag for each segment that carries bytes, and for each such segment that is not bypassed exactly
  one read of the transmit buffer, of its session, its sequence number and its length.\<close>

theorem segment_streams_aligned:
  "let s = run_inputs (tx_front_step c) is (ml_init ev rx tx m)
   in ml_ipMeta s = map tm_length (ml_tcpMeta s) \<and> length (ml_isLookUp s) = length (ml_tcpMeta s)
    \<and> length (ml_rev_req s) = length (filter id (ml_isLookUp s))
    \<and> length (ml_tupleShortCut s) = length (filter Not (ml_isLookUp s))
    \<and> map fst (tx_payloads s) = filter with_payload (ml_tcpMeta s) \<and> length (ml_isDDRbypass s) = length (tx_payloads s)
    \<and> ml_readCmd s = map (\<lambda>((m, i), b). buffer_read m i) (filter (\<lambda>(p, b). \<not> b) (zip (tx_payloads s) (ml_isDDRbypass s)))"
  unfolding Let_def by (rule txf.inv_run [unfolded tx_aligned_def])

subsection \<open>Retransmission\<close>

text \<open>The sequence numbers of the bytes of a segment.\<close>

definition seq_range :: "u32 \<Rightarrow> nat \<Rightarrow> u32 list" where
  "seq_range sq n = map (\<lambda>j. sq + of_nat j) [0 ..< n]"

definition segment_seqs :: "tx_engine_meta \<Rightarrow> u32 list" where
  "segment_seqs m = seq_range (tm_seqNumb m) (unat (tm_length m))"

lemma seq_range_append: "seq_range a n @ seq_range (a + of_nat n) k = seq_range a (n + k)"
proof -
  have "map (\<lambda>j. a + of_nat n + of_nat j) [0 ..< k] = map (\<lambda>j. a + of_nat j) (map (\<lambda>j. j + n) [0 ..< k])"
    by (simp add: add_ac)
  also have "map (\<lambda>j. j + n) [0 ..< k] = [n ..< n + k]" by (simp add: map_add_upt add.commute)
  finally show ?thesis unfolding seq_range_def by (simp add: upt_add_eq_append [of 0 n k, simplified] flip: map_append)
qed

definition rt_pieces :: "rxEngCfg \<Rightarrow> rxSarReply \<Rightarrow> u16 \<Rightarrow> u32 \<Rightarrow> nat \<Rightarrow> metaLoad \<Rightarrow> metaLoad \<Rightarrow> bool" where
  "rt_pieces c rx i a len s t \<longleftrightarrow>
     (\<exists>new. ml_tcpMeta t = ml_tcpMeta s @ new \<and> concat (map segment_seqs new) = seq_range a len
        \<and> ml_readCmd t = ml_readCmd s @ map (\<lambda>m. buffer_read m i) new
        \<and> list_all (\<lambda>m. tm_ackNumb m = rr_recvd rx \<and> tm_window_size m = rr_windowSize rx \<and> tm_length m \<le> MSS c
             \<and> tm_ack m \<and> \<not> tm_syn m \<and> \<not> tm_fin m \<and> \<not> tm_rst m) new)"

lemma rt_pieces_join:
  "rt_pieces c rx i a n s t \<Longrightarrow> rt_pieces c rx i (a + of_nat n) k t u \<Longrightarrow> rt_pieces c rx i a (n + k) s u"
  unfolding rt_pieces_def
  by (elim exE conjE, rule exI [where x = "x @ y" for x y]) (auto simp: seq_range_append)

lemma RT_segment_pieces:
  "rt_pieces c (ml_rxSar s) (ml_session s) (tr_ackd tx) (min (unat (tr_usedLength tx)) (unat (MSS c))) s (ml_RT_segment c tx s)"
proof -
  define more where "more \<longleftrightarrow> unat (MSS c) < unat (tr_usedLength tx)"
  define len where "len = (if more then MSS c else ucast (tr_usedLength tx))"
  define m where "m = ml_data_meta (ml_rxSar s) (tr_ackd tx) len False (ml_meta s)"
  have "unat (MSS c) < 2 ^ 16" by (rule order_less_le_trans [OF unsigned_less]) simp
  then have len: "unat len = min (unat (tr_usedLength tx)) (unat (MSS c))"
    by (auto simp: len_def more_def unsigned_ucast_eq take_bit_nat_eq_self)
  then have le: "len \<le> MSS c" by (simp add: word_le_nat_alt)
  let ?new = "if len \<noteq> 0 then [m] else []"
  have "ml_tcpMeta (ml_RT_segment c tx s) = ml_tcpMeta s @ ?new"
    "ml_readCmd (ml_RT_segment c tx s) = ml_readCmd s @ map (\<lambda>m. buffer_read m (ml_session s)) ?new"
    by (simp_all add: ml_RT_segment_def Let_def ml_send_def ml_write_defs buffer_read_def m_def len_def more_def)
  moreover have "concat (map segment_seqs ?new) = seq_range (tr_ackd tx) (min (unat (tr_usedLength tx)) (unat (MSS c)))"
    using len by (auto simp: segment_seqs_def m_def seq_range_def simp flip: unat_eq_zero)
  ultimately show ?thesis unfolding rt_pieces_def using le
    by (intro exI [of _ ?new]) (simp add: m_def ml_data_meta_def)
qed

text \<open>A retransmission is over, or goes on with the FIN that was sent.\<close>

definition rt_ends :: "bool \<Rightarrow> metaLoad \<Rightarrow> bool" where
  "rt_ends fin t \<longleftrightarrow> (if fin then ml_FsmState t \<and> ev_type (ml_event t) = FIN else \<not> ml_FsmState t)"

text \<open>What else a segment leaves.\<close>

lemma RT_segment_state:
  fixes c tx s
  defines "t \<equiv> ml_RT_segment c tx s"
  shows "ml_rxSar t = ml_rxSar s" "ml_sarLoaded t" "ml_session t = ml_session s"
    "unat (MSS c) < unat (tr_usedLength tx) \<Longrightarrow> ml_FsmState t = (ml_segmentCount s \<noteq> 3) \<and> ml_segmentCount t = ml_segmentCount s + 1
       \<and> ml_event t = ml_event s
       \<and> ml_txSarReg t = tx\<lparr>tr_ackd := tr_ackd tx + ucast (MSS c), tr_usedLength := tr_usedLength tx - ucast (MSS c)\<rparr>"
    "\<not> unat (MSS c) < unat (tr_usedLength tx) \<Longrightarrow> ml_FsmState s \<Longrightarrow> rt_ends (tr_finSent tx) t"
  unfolding t_def by (auto simp: rt_ends_def ml_RT_segment_def Let_def ml_send_def ml_write_defs)

lemma RT_run:
  assumes "d = 4 - unat (ml_segmentCount s)" "ev_type (ml_event s) = RT" "ml_FsmState s"
  shows "\<exists>n. n < d \<and> (let t = (metaLoader c junk shift ^^ n) (ml_RT_segment c tx s)
    in rt_pieces c (ml_rxSar s) (ml_session s) (tr_ackd tx) (min (unat (tr_usedLength tx)) (d * unat (MSS c))) s t
      \<and> rt_ends (tr_finSent tx \<and> unat (tr_usedLength tx) \<le> d * unat (MSS c)) t)"
  using assms
proof (induction d arbitrary: s tx)
  case 0
  have "unat (ml_segmentCount s) < 4" by (rule order_less_le_trans [OF unsigned_less]) simp
  then show ?case using 0 by simp
next
  case (Suc d)
  let ?t = "ml_RT_segment c tx s" and ?u = "unat (tr_usedLength tx)" and ?M = "unat (MSS c)"
  have first: "rt_pieces c (ml_rxSar s) (ml_session s) (tr_ackd tx) (min ?u ?M) s ?t" by (rule RT_segment_pieces)
  show ?case
  proof (cases "?M < ?u")
    case False
    then have "min ?u (Suc d * ?M) = min ?u ?M" by (auto simp: min_def)
    then show ?thesis using first RT_segment_state(5) [OF False Suc.prems(3)] False by (intro exI [of _ 0]) (simp add: Let_def)
  next
    case True
    note st = RT_segment_state(1-3) [of c tx s] RT_segment_state(4) [OF True, of s]
    show ?thesis
    proof (cases d)
      case 0
      then have "unat (ml_segmentCount s) = 3" using Suc.prems(1) by simp
      then have "ml_segmentCount s = 3" by (simp add: word_unat_eq_iff)
      then show ?thesis using first st True 0 by (intro exI [of _ 0]) (simp add: Let_def rt_ends_def)
    next
      case (Suc e)
      have c3: "unat (ml_segmentCount s) \<le> 2" using Suc.prems(1) Suc by simp
      then have nz: "ml_segmentCount s \<noteq> 3" by (auto simp: word_unat_eq_iff)
      have "d = 4 - unat (ml_segmentCount ?t)" using Suc.prems(1) c3 st by (simp add: unat_word_ariths)
      moreover have "ev_type (ml_event ?t) = RT" "ml_FsmState ?t" using st nz Suc.prems(2) by simp_all
      ultimately obtain n where n: "n < d" "rt_pieces c (ml_rxSar ?t) (ml_session ?t) (tr_ackd (ml_txSarReg ?t))
          (min (unat (tr_usedLength (ml_txSarReg ?t))) (d * ?M)) ?t ((metaLoader c junk shift ^^ n) (ml_RT_segment c (ml_txSarReg ?t) ?t))"
          "rt_ends (tr_finSent (ml_txSarReg ?t) \<and> unat (tr_usedLength (ml_txSarReg ?t)) \<le> d * ?M)
             ((metaLoader c junk shift ^^ n) (ml_RT_segment c (ml_txSarReg ?t) ?t))"
        using Suc.IH [of ?t "ml_txSarReg ?t"] by (auto simp: Let_def)
      have call: "metaLoader c junk shift ?t = ml_RT_segment c (ml_txSarReg ?t) ?t"
        using st nz Suc.prems(2) by (simp add: metaLoader_def ml_RT_def)
      have m18: "unat (ucast (MSS c) :: u18) = ?M"
        by (simp add: unsigned_ucast_eq take_bit_nat_eq_self order_less_le_trans [OF unsigned_less])
      have u: "unat (tr_usedLength tx - ucast (MSS c)) = ?u - ?M" using True m18 by (simp add: unat_sub_if')
      have a: "tr_ackd tx + of_nat ?M = tr_ackd tx + ucast (MSS c)" by (simp add: of_nat_unat)
      have "rt_pieces c (ml_rxSar s) (ml_session s) (tr_ackd tx) (min ?u ?M + min (?u - ?M) (d * ?M)) s
          ((metaLoader c junk shift ^^ n) (ml_RT_segment c (ml_txSarReg ?t) ?t))"
        using rt_pieces_join [OF first] n(2) st True u a by (simp add: min_def)
      moreover have "min ?u ?M + min (?u - ?M) (d * ?M) = min ?u (Suc d * ?M)"
        using True by (cases "?u - ?M \<le> d * ?M") auto
      moreover have fin: "?u - ?M \<le> d * ?M \<longleftrightarrow> ?u \<le> Suc d * ?M" using True by auto
      ultimately show ?thesis using n(1,3) call st fin u
        by (intro exI [of _ "Suc n"]) (simp add: Let_def funpow_swap1)
    qed
  qed
qed

text \<open>C11. A retransmission covers the unacknowledged bytes: from the answers of the tables on, \<open>metaLoader\<close>
  needs at most four calls, and the segments it describes carry every byte from the oldest unacknowledged one
  on once and in order, up to four full segments, with the current acknowledgement and window; each
  of them comes with the read of exactly its bytes. After these calls the engine is free for the next event,
  unless a FIN was sent: then the range of unacknowledged bytes counts the FIN as its last byte (see C28), and
  when the range fits into four segments the engine goes on with the event of the FIN.\<close>

theorem retransmission_covers_window:
  assumes "ml_FsmState s" "ev_type (ml_event s) = RT" "\<not> ml_sarLoaded s" "ml_segmentCount s = 0"
    and "ml_rxSar_rsp s = rx # rxs" "ml_txSar_rsp s = tx # txs"
  shows "\<exists>n \<le> 4. \<exists>new. let t = (metaLoader c junk shift ^^ n) s
    in (if tr_finSent tx \<and> unat (tr_usedLength tx) \<le> 4 * unat (MSS c)
        then ml_FsmState t \<and> ev_type (ml_event t) = FIN else \<not> ml_FsmState t)
      \<and> ml_tcpMeta t = ml_tcpMeta s @ new
      \<and> concat (map segment_seqs new) = seq_range (tr_ackd tx) (min (unat (tr_usedLength tx)) (4 * unat (MSS c)))
      \<and> ml_readCmd t = ml_readCmd s @ map (\<lambda>m. buffer_read m (ml_session s)) new
      \<and> list_all (\<lambda>m. tm_ackNumb m = rr_recvd rx \<and> tm_window_size m = rr_windowSize rx \<and> tm_length m \<le> MSS c
           \<and> tm_ack m \<and> \<not> tm_syn m \<and> \<not> tm_fin m \<and> \<not> tm_rst m) new"
proof -
  let ?s = "s\<lparr>ml_rxSar_rsp := rxs, ml_txSar_rsp := txs, ml_rxSar := rx\<rparr>"
  have "metaLoader c junk shift s = ml_RT_segment c tx ?s" using assms by (simp add: metaLoader_def ml_RT_def)
  then have e: "(metaLoader c junk shift ^^ Suc n) s = (metaLoader c junk shift ^^ n) (ml_RT_segment c tx ?s)" for n
    by (simp add: funpow_swap1)
  obtain n where "n < 4" "rt_pieces c rx (ml_session s) (tr_ackd tx) (min (unat (tr_usedLength tx)) (4 * unat (MSS c))) ?s
      ((metaLoader c junk shift ^^ Suc n) s)" "rt_ends (tr_finSent tx \<and> unat (tr_usedLength tx) \<le> 4 * unat (MSS c)) ((metaLoader c junk shift ^^ Suc n) s)"
    using RT_run [where d = 4 and s = ?s and tx = tx and c = c and junk = junk and shift = shift] assms unfolding e by (auto simp: Let_def)
  then show ?thesis unfolding rt_pieces_def rt_ends_def Let_def by (intro exI [of _ "Suc n"]) auto
qed

text \<open>2500 unacknowledged bytes in segments of 1000.\<close>

definition some_cfg :: rxEngCfg where
  "some_cfg = \<lparr>RX_DDR_BYPASS = False, MSS = 1000\<rparr>"

definition rt_state :: "u3 \<Rightarrow> txTxSarReply \<Rightarrow> metaLoad" where
  "rt_state cnt tx = (ml_init (mk_event RT 5 cnt, None) \<lparr>rr_recvd = 0, rr_win_shift = 0, rr_windowSize = 0\<rparr> tx
     (mk_tx_engine_meta 0 0 0 False False False False))
     \<lparr>ml_FsmState := True, ml_rxSar_rsp := [\<lparr>rr_recvd = 700, rr_win_shift = 2, rr_windowSize = 9000\<rparr>], ml_txSar_rsp := [tx]\<rparr>"

definition some_reply :: txTxSarReply where
  "some_reply = \<lparr>tr_ackd = 50, tr_not_ackd = 2550, tr_usableWindow = 0, tr_app = 2550, tr_usedLength = 2500, tr_finReady = False,
     tr_finSent = False\<rparr>"

theorem retransmission_covers_window_witness:
  "\<exists>n \<le> 4. \<exists>new. ml_tcpMeta ((metaLoader some_cfg \<lparr>srcIp = 0, dstIp = 0, srcPort = 0, dstPort = 0\<rparr> 0 ^^ n) (rt_state 1 some_reply)) = new
     \<and> concat (map segment_seqs new) = seq_range 50 2500"
proof -
  have "\<exists>n \<le> 4. \<exists>new. let t = (metaLoader some_cfg \<lparr>srcIp = 0, dstIp = 0, srcPort = 0, dstPort = 0\<rparr> 0 ^^ n) (rt_state 1 some_reply)
    in (if tr_finSent some_reply \<and> unat (tr_usedLength some_reply) \<le> 4 * unat (MSS some_cfg)
        then ml_FsmState t \<and> ev_type (ml_event t) = FIN else \<not> ml_FsmState t)
      \<and> ml_tcpMeta t = ml_tcpMeta (rt_state 1 some_reply) @ new
      \<and> concat (map segment_seqs new) = seq_range (tr_ackd some_reply) (min (unat (tr_usedLength some_reply)) (4 * unat (MSS some_cfg)))
      \<and> ml_readCmd t = ml_readCmd (rt_state 1 some_reply) @ map (\<lambda>m. buffer_read m (ml_session (rt_state 1 some_reply))) new
      \<and> list_all (\<lambda>m. tm_ackNumb m = 700 \<and> tm_window_size m = 9000 \<and> tm_length m \<le> MSS some_cfg
           \<and> tm_ack m \<and> \<not> tm_syn m \<and> \<not> tm_fin m \<and> \<not> tm_rst m) new"
    using retransmission_covers_window [where s = "rt_state 1 some_reply" and c = some_cfg and shift = 0
        and rx = "\<lparr>rr_recvd = 700, rr_win_shift = 2, rr_windowSize = 9000\<rparr>" and tx = some_reply
        and junk = "\<lparr>srcIp = 0, dstIp = 0, srcPort = 0, dstPort = 0\<rparr>"]
    by (simp add: rt_state_def ml_init_def mk_event_def some_reply_def)
  then show ?thesis by (auto simp: Let_def rt_state_def ml_init_def some_reply_def some_cfg_def)
qed

text \<open>C28. A lost FIN is not repeated as it was sent: the transmit table counts it as a byte, so when nothing but the
  FIN is unacknowledged the engine first sends a segment with one byte of the buffer that the application never
  wrote, at the number of the FIN. And when the retransmission was asked for by duplicate acknowledgements
  (retry count 0), the FIN itself is sent at the next number, and the table is told that yet another one
  is in use.\<close>

theorem lost_fin_sends_phantom_byte:
  assumes "ml_FsmState s" "ev_type (ml_event s) = RT" "\<not> ml_sarLoaded s" "MSS c \<noteq> 0"
    and "ml_rxSar_rsp s = rx # rxs" "ml_txSar_rsp s = tx_reply j e # txs"
    and "te_finSent e" "te_not_ackd e = te_ackd e + 1"
  shows "let t = metaLoader c junk shift (metaLoader c junk shift s); first = (ev_rt_count (ml_event s) = 0)
    in \<exists>byte fin. ml_tcpMeta t = ml_tcpMeta s @ [byte, fin]
      \<and> tm_seqNumb byte = te_ackd e \<and> tm_length byte = 1 \<and> \<not> tm_fin byte
      \<and> ml_readCmd t = ml_readCmd s @ [buffer_read byte (ml_session s)]
      \<and> tm_fin fin \<and> tm_length fin = 0 \<and> tm_seqNumb fin = (if first then te_ackd e + 1 else te_ackd e)
      \<and> (first \<longrightarrow> ml_txSar_req t = ml_txSar_req s @ [mk_txTxSarWrite (ml_session s) (te_ackd e + 2) False True True])"
proof -
  define tx where "tx = tx_reply j e"
  have tx: "tr_usedLength tx = 1" "tr_finSent tx" "tr_ackd tx = te_ackd e" "tr_not_ackd tx = te_ackd e + 1"
    using assms(7,8) by (simp_all add: tx_def tx_reply_def Let_def)
  have M: "\<not> unat (MSS c) < 1" using assms(4) by (simp add: unat_eq_zero)
  let ?s = "s\<lparr>ml_rxSar_rsp := rxs, ml_txSar_rsp := txs, ml_rxSar := rx\<rparr>"
  define t where "t = ml_RT_segment c tx ?s"
  define byte where "byte = ml_data_meta rx (te_ackd e) 1 False (ml_meta s)"
  have call: "metaLoader c junk shift s = t" using assms by (simp add: metaLoader_def ml_RT_def t_def tx_def)
  have t: "ml_FsmState t" "ml_event t = (ml_event s)\<lparr>ev_type := FIN\<rparr>" "ml_sarLoaded t" "ml_txSarReg t = tx"
    "ml_tcpMeta t = ml_tcpMeta s @ [byte]" "ml_readCmd t = ml_readCmd s @ [buffer_read byte (ml_session s)]"
    "ev_rt_count (ml_event s) = 0 \<Longrightarrow> ml_txSar_req t = ml_txSar_req s"
    using tx M assms(1) by (simp_all add: t_def ml_RT_segment_def Let_def ml_send_def ml_write_defs byte_def buffer_read_def)
  have fin: "metaLoader c junk shift t = ml_FIN_segment tx t" using t by (simp add: metaLoader_def ml_FIN_def)
  have "let u = metaLoader c junk shift t; fin = ml_data_meta (ml_rxSar t) (if ev_rt_count (ml_event s) = 0 then te_ackd e + 1 else te_ackd e)
      0 True (ml_meta t) in ml_tcpMeta u = ml_tcpMeta t @ [fin] \<and> ml_readCmd u = ml_readCmd t
      \<and> (ev_rt_count (ml_event s) = 0 \<longrightarrow> ml_txSar_req u = ml_txSar_req t @ [mk_txTxSarWrite (ml_session s) (te_ackd e + 2) False True True])"
    unfolding fin ml_FIN_segment_def Let_def ml_send_def ml_write_defs t(2) tx(4)
    by (cases "ev_rt_count (ml_event s) = 0") (simp_all add: add.commute)
  then show ?thesis unfolding call Let_def
    by (intro exI [of _ byte] exI [of _ "ml_data_meta (ml_rxSar t) (if ev_rt_count (ml_event s) = 0 then te_ackd e + 1 else te_ackd e)
      0 True (ml_meta t)"]) (auto simp: t byte_def ml_data_meta_def)
qed

definition fin_entry :: txSarEntry where
  "fin_entry = \<lparr>te_ackd = 41, te_not_ackd = 42, te_recv_window = 100, te_win_shift = 0, te_cong_window = 100,
     te_slowstart_threshold = 100, te_app = 41, te_count = 3, te_fastRetransmitted = True, te_finReady = True, te_finSent = True\<rparr>"

theorem lost_fin_sends_phantom_byte_witness:
  "\<exists>byte fin. ml_tcpMeta (metaLoader some_cfg \<lparr>srcIp = 0, dstIp = 0, srcPort = 0, dstPort = 0\<rparr> 0
       (metaLoader some_cfg \<lparr>srcIp = 0, dstIp = 0, srcPort = 0, dstPort = 0\<rparr> 0 (rt_state 0 (tx_reply 0 fin_entry)))) = [byte, fin]
     \<and> tm_seqNumb byte = 41 \<and> tm_length byte = 1 \<and> tm_fin fin \<and> tm_seqNumb fin = 42"
  using lost_fin_sends_phantom_byte [where s = "rt_state 0 (tx_reply 0 fin_entry)" and c = some_cfg and shift = 0 and e = fin_entry
      and j = 0 and rx = "\<lparr>rr_recvd = 700, rr_win_shift = 2, rr_windowSize = 9000\<rparr>" and rxs = "[]" and txs = "[]"
      and junk = "\<lparr>srcIp = 0, dstIp = 0, srcPort = 0, dstPort = 0\<rparr>"]
  by (auto simp: rt_state_def ml_init_def mk_event_def fin_entry_def some_cfg_def Let_def)

end
