(* ===== verification/Toe_Tx_Packets.thy ===== *)
theory Toe_Tx_Packets
  imports Toe_Tx Axi_Streams Ip_Headers
begin

text \<open>
  The back of the TCP transmit engine (\<^verbatim>\<open>toe/tx_engine/tx_engine.cpp\<close>): split reads are joined, the payload comes from the
  buffer or straight from the application, gets its TCP header behind a pseudo header, the checksum is
  inserted and the IP header put in front. Words have any width; a word without a value is an argument. Where only
  the simulated build clears the unused bytes of a word, they are cleared.
\<close>

unbundle bit_operations_syntax

subsection \<open>Joining split reads\<close>

datatype stitchState = RS_IDLE | RS_FIRST_PART | RS_STITCH | RS_ATTACH_ALIGNED | RS_RESIDUE

record ('w, 'k) stitcher =
  rs_merge :: "bool stream"
  rs_dataIn :: "('w, 'k) net_axis stream"
  rs_dataOut :: "('w, 'k) net_axis stream"
  rs_prevWord :: "('w, 'k) net_axis"
  rs_pkgNeedsMerge :: bool
  rs_state :: stitchState
  rs_offset :: u8

text \<open>A word of the first read; the last one is held back when the second read continues in it.\<close>

definition rs_first_word :: "('w::len word, 'k::len word) net_axis \<Rightarrow> ('w word, 'k word) stitcher \<Rightarrow> ('w word, 'k word) stitcher" where
  "rs_first_word w s =
     (let s1 = s\<lparr>rs_offset := keepToLen (ucast (na_keep w))\<rparr>;
          out = (\<lambda>v t. t\<lparr>rs_dataOut := rs_dataOut t @ [v], rs_prevWord := v\<rparr>)
      in if \<not> na_last w then out w (s1\<lparr>rs_state := RS_FIRST_PART\<rparr>)
         else if \<not> rs_pkgNeedsMerge s then out w (s1\<lparr>rs_state := RS_IDLE\<rparr>)
         else if \<not> bit (na_keep w) (LENGTH('k) - 1) then s1\<lparr>rs_state := RS_STITCH, rs_prevWord := w\<lparr>na_last := False\<rparr>\<rparr>
         else out (w\<lparr>na_last := False\<rparr>) (s1\<lparr>rs_state := RS_ATTACH_ALIGNED\<rparr>))"

text \<open>The low \<open>n\<close> bits of the one word below the low bits of the other.\<close>

definition join_bits :: "nat \<Rightarrow> 'a::len word \<Rightarrow> 'a word \<Rightarrow> 'a word" where
  "join_bits n prev cur = set_range n (LENGTH('a) - n) (get_range 0 (LENGTH('a) - n) cur :: 'a word) (get_range 0 n prev)"

definition keep_high :: "nat \<Rightarrow> 'a::len word \<Rightarrow> 'a word \<Rightarrow> 'a word" where
  "keep_high n cur prev = set_range 0 n (get_range (LENGTH('a) - n) n cur :: 'a word) prev"

definition rs_stitch_word :: "('w::len word, 'k::len word) net_axis \<Rightarrow> ('w word, 'k word) stitcher \<Rightarrow> ('w word, 'k word) stitcher" where
  "rs_stitch_word w s =
     (let n = unat (rs_offset s); p = rs_prevWord s; lst = (\<not> bit (na_keep w) (LENGTH('k) - n))
      in s\<lparr>rs_dataOut := rs_dataOut s
               @ [\<lparr>na_data = join_bits (8 * n) (na_data p) (na_data w), na_keep = join_bits n (na_keep p) (na_keep w), na_last = lst\<rparr>],
           rs_prevWord := p\<lparr>na_data := keep_high (8 * n) (na_data w) (na_data p), na_keep := keep_high n (na_keep w) (na_keep p)\<rparr>,
           rs_state := if \<not> na_last w then RS_STITCH else if lst then RS_IDLE else RS_RESIDUE\<rparr>)"

definition read_data_stitching :: "('w::len word, 'k::len word) stitcher \<Rightarrow> ('w word, 'k word) stitcher" where
  "read_data_stitching s =
     (case rs_state s of
        RS_IDLE \<Rightarrow>
         (case (rs_merge s, rs_dataIn s) of
            (b # bs, w # q) \<Rightarrow> rs_first_word w (s\<lparr>rs_merge := bs, rs_dataIn := q, rs_pkgNeedsMerge := b\<rparr>)
          | _ \<Rightarrow> s)
      | RS_FIRST_PART \<Rightarrow> (case rs_dataIn s of [] \<Rightarrow> s | w # q \<Rightarrow> rs_first_word w (s\<lparr>rs_dataIn := q\<rparr>))
      | RS_ATTACH_ALIGNED \<Rightarrow>
         (case rs_dataIn s of
            [] \<Rightarrow> s
          | w # q \<Rightarrow> s\<lparr>rs_dataIn := q, rs_dataOut := rs_dataOut s @ [w], rs_state := if na_last w then RS_IDLE else RS_ATTACH_ALIGNED\<rparr>)
      | RS_STITCH \<Rightarrow> (case rs_dataIn s of [] \<Rightarrow> s | w # q \<Rightarrow> rs_stitch_word w (s\<lparr>rs_dataIn := q\<rparr>))
      | RS_RESIDUE \<Rightarrow>
         (let n = unat (rs_offset s); p = rs_prevWord s
          in s\<lparr>rs_dataOut := rs_dataOut s
                 @ [\<lparr>na_data = get_range 0 (8 * n) (na_data p), na_keep = get_range 0 n (na_keep p), na_last = True\<rparr>],
               rs_state := RS_IDLE\<rparr>))"

subsection \<open>The source of the payload\<close>

datatype arbiterState = RA_DECIDE | RA_BUFFER | RA_BYPASS

record ('w, 'k) readArbiter =
  ra_bufferData :: "('w, 'k) net_axis stream"
  ra_isDDRbypass :: "bool stream"
  ra_appData :: "('w, 'k) net_axis stream"
  ra_segOut :: "('w, 'k) net_axis stream"
  ra_state :: arbiterState

definition read_data_arbiter :: "('w, 'k) readArbiter \<Rightarrow> ('w, 'k) readArbiter" where
  "read_data_arbiter s =
     (case ra_state s of
        RA_DECIDE \<Rightarrow>
         (case ra_isDDRbypass s of [] \<Rightarrow> s | b # bs \<Rightarrow> s\<lparr>ra_isDDRbypass := bs, ra_state := if b then RA_BYPASS else RA_BUFFER\<rparr>)
      | RA_BUFFER \<Rightarrow>
         (case ra_bufferData s of
            [] \<Rightarrow> s
          | w # q \<Rightarrow> s\<lparr>ra_bufferData := q, ra_segOut := ra_segOut s @ [w], ra_state := if na_last w then RA_DECIDE else RA_BUFFER\<rparr>)
      | RA_BYPASS \<Rightarrow>
         (case ra_appData s of
            [] \<Rightarrow> s
          | w # q \<Rightarrow> s\<lparr>ra_appData := q, ra_segOut := ra_segOut s @ [w], ra_state := if na_last w then RA_DECIDE else RA_BYPASS\<rparr>))"

subsection \<open>The TCP header\<close>

datatype phcState = PH_META | PH_HEADER | PH_PARTIAL_HEADER | PH_BODY | PH_MSS_OPTION

record ('w, 'k) headerBuilder =
  hb_meta :: "tx_engine_meta stream"
  hb_tuple :: "fourTuple stream"
  hb_dataIn :: "('w, 'k) net_axis stream"
  hb_dataOut :: "('w, 'k) net_axis stream"
  hb_state :: phcState
  hb_header :: "(256 word) packetHeader"
  hb_hasBody :: bool
  hb_isSYN :: bool
  hb_win_shift :: u4

definition meta_offset :: "tx_engine_meta \<Rightarrow> u4" where
  "meta_offset m = (if tm_syn m then if tm_win_shift m \<noteq> 0 then 7 else 6 else 5)"

definition meta_header :: "tx_engine_meta \<Rightarrow> fourTuple \<Rightarrow> tcpFullPseudoHeader \<Rightarrow> tcpFullPseudoHeader" where
  "meta_header m t =
     tcp_header (srcIp t) (dstIp t) (tm_length m + 0x14) (srcPort t) (dstPort t) (tm_seqNumb m) (tm_ackNumb m) (meta_offset m)
       (tm_fin m) (tm_syn m) (tm_rst m) (tm_ack m) (tm_window_size m)"

text \<open>The options of a SYN: the segment size, and the window scale unless it is 0.\<close>

definition syn_options :: "u16 \<Rightarrow> u4 \<Rightarrow> u64" where
  "syn_options mss shift =
     (let o1 = set_range 16 16 (reverse mss) (set_range 8 8 (4 :: u8) (set_range 0 8 (2 :: u8) (0 :: u64)))
      in if shift \<noteq> 0 then set_range 48 8 (ucast shift :: u8) (set_range 40 8 (3 :: u8) (set_range 32 8 (3 :: u8) o1)) else o1)"

definition syn_keep :: "u4 \<Rightarrow> u8" where
  "syn_keep shift = (if shift \<noteq> 0 then 0xFF else 0x0F)"

definition hb_header_word :: "u16 \<Rightarrow> 'w::len word \<Rightarrow> ('w word, 'k::len word) headerBuilder \<Rightarrow> ('w word, 'k word) headerBuilder" where
  "hb_header_word mss junk s =
     (case consumeWord junk (hb_header s) of (d, rest, h) \<Rightarrow>
       (let fin = unat rest < LENGTH('w) div 8; opt = hb_isSYN s \<and> LENGTH('w) \<le> 256;
            lst = (fin \<and> \<not> hb_hasBody s \<and> \<not> opt);
            wide = hb_isSYN s \<and> LENGTH('w) = 512;
            d' = (if wide then set_range 256 256 (ucast (syn_options mss (hb_win_shift s)) :: 256 word) d else d);
            k = (if wide then set_range 32 8 (syn_keep (hb_win_shift s)) (mask 32) else mask 32 :: 'k word)
        in s\<lparr>hb_header := h, hb_dataOut := hb_dataOut s @ [\<lparr>na_data = d', na_keep = k, na_last = lst\<rparr>],
             hb_state := if \<not> fin then PH_HEADER else if hb_hasBody s then PH_BODY else if opt then PH_MSS_OPTION else PH_META\<rparr>))"

definition pseudoHeaderConstructionNew :: "u16 \<Rightarrow> 'w::len word \<Rightarrow> ('w word, 'k::len word) headerBuilder \<Rightarrow> ('w word, 'k word) headerBuilder" where
  "pseudoHeaderConstructionNew mss junk s =
     (case hb_state s of
        PH_META \<Rightarrow>
         (case (hb_meta s, hb_tuple s) of
            (m # ms, t # ts) \<Rightarrow>
             (let h = clear_header (hb_header s); body = tm_length m \<noteq> 0 \<and> \<not> tm_syn m
              in s\<lparr>hb_meta := ms, hb_tuple := ts, hb_header := h\<lparr>ph_header := meta_header m t (ph_header h)\<rparr>, hb_win_shift := tm_win_shift m,
                   hb_hasBody := body, hb_isSYN := tm_syn m, hb_state := if LENGTH('w) > 256 \<and> body then PH_PARTIAL_HEADER else PH_HEADER\<rparr>)
          | _ \<Rightarrow> s)
      | PH_HEADER \<Rightarrow> hb_header_word mss junk s
      | PH_PARTIAL_HEADER \<Rightarrow>
         (case hb_dataIn s of
            [] \<Rightarrow> s
          | w # q \<Rightarrow>
             (case consumeWord (na_data w) (hb_header s) of (d, rest, h) \<Rightarrow>
               s\<lparr>hb_dataIn := q, hb_header := h, hb_dataOut := hb_dataOut s @ [w\<lparr>na_data := d\<rparr>],
                 hb_state := if na_last w then PH_META else PH_BODY\<rparr>))
      | PH_BODY \<Rightarrow>
         (case hb_dataIn s of
            [] \<Rightarrow> s
          | w # q \<Rightarrow> s\<lparr>hb_dataIn := q, hb_dataOut := hb_dataOut s @ [w], hb_state := if na_last w then PH_META else PH_BODY\<rparr>)
      | PH_MSS_OPTION \<Rightarrow>
          s\<lparr>hb_dataOut := hb_dataOut s @ [\<lparr>na_data = set_range 0 64 (syn_options mss (hb_win_shift s)) junk,
              na_keep = ucast (syn_keep (hb_win_shift s)), na_last = True\<rparr>], hb_state := PH_META\<rparr>)"

subsection \<open>The checksum\<close>

record ('w, 'k) wordDropper =
  wd_dataIn :: "('w, 'k) net_axis stream"
  wd_dataOut :: "('w, 'k) net_axis stream"
  wd_firstWord :: bool

definition remove_pseudo_header :: "('w::len word, 'k) wordDropper \<Rightarrow> ('w word, 'k) wordDropper" where
  "remove_pseudo_header s =
     (case wd_dataIn s of
        [] \<Rightarrow> s
      | w # q \<Rightarrow>
         s\<lparr>wd_dataIn := q, wd_dataOut := wd_dataOut s @ (if \<not> wd_firstWord s \<or> 64 < LENGTH('w) then [w] else []), wd_firstWord := na_last w\<rparr>)"

datatype insertState = IN_SKIP | IN_INSERT | IN_FORWARD

record ('w, 'k) checksumInserter =
  ci_checksum :: "u16 stream"
  ci_dataIn :: "('w, 'k) net_axis stream"
  ci_dataOut :: "('w, 'k) net_axis stream"
  ci_state :: insertState
  ci_wordCount :: u3

definition insert_start :: "'w::len word itself \<Rightarrow> insertState" where
  "insert_start w = (if 128 < LENGTH('w) then IN_INSERT else IN_SKIP)"

definition insert_checksum :: "('w::len word, 'k) checksumInserter \<Rightarrow> ('w word, 'k) checksumInserter" where
  "insert_checksum s =
     (let start = insert_start TYPE('w word) in
      case ci_state s of
        IN_SKIP \<Rightarrow>
         (case ci_dataIn s of
            [] \<Rightarrow> s
          | w # q \<Rightarrow>
             (let s1 = s\<lparr>ci_dataIn := q, ci_dataOut := ci_dataOut s @ [w]\<rparr>; n = ci_wordCount s + 1
              in if unat n = 128 div LENGTH('w) then s1\<lparr>ci_wordCount := 0, ci_state := IN_INSERT\<rparr> else s1\<lparr>ci_wordCount := n\<rparr>))
      | IN_INSERT \<Rightarrow>
         (case (ci_checksum s, ci_dataIn s) of
            (c # cs, w # q) \<Rightarrow>
              s\<lparr>ci_checksum := cs, ci_dataIn := q,
                ci_dataOut := ci_dataOut s @ [w\<lparr>na_data := set_range (if 128 < LENGTH('w) then 128 else 0) 16 (reverse c) (na_data w)\<rparr>],
                ci_state := if na_last w then start else IN_FORWARD\<rparr>
          | _ \<Rightarrow> s)
      | IN_FORWARD \<Rightarrow>
         (case ci_dataIn s of
            [] \<Rightarrow> s
          | w # q \<Rightarrow> s\<lparr>ci_dataIn := q, ci_dataOut := ci_dataOut s @ [w], ci_state := if na_last w then start else IN_FORWARD\<rparr>))"

subsection \<open>The IP header\<close>

datatype giState = GI_META | GI_HEADER | GI_PARTIAL_HEADER | GI_BODY

record ('w, 'k) ipGenerator =
  gi_meta :: "u16 stream"
  gi_tuple :: "twoTuple stream"
  gi_dataIn :: "('w, 'k) net_axis stream"
  gi_dataOut :: "('w, 'k) net_axis stream"
  gi_state :: giState
  gi_header :: "(160 word) packetHeader"

definition TCP_PROTOCOL :: u8 where
  "TCP_PROTOCOL = 0x06"

definition ip_segment_header :: "u16 \<Rightarrow> twoTuple \<Rightarrow> ipv4Header \<Rightarrow> ipv4Header" where
  "ip_segment_header len t h = ip_setProtocol TCP_PROTOCOL (ip_setSrcAddr (tt_srcIp t) (ip_setDstAddr (tt_dstIp t) (ip_setLength (len + 40) h)))"

definition generate_ipv4 :: "'w::len word \<Rightarrow> ('w word, 'k::len word) ipGenerator \<Rightarrow> ('w word, 'k word) ipGenerator" where
  "generate_ipv4 junk s =
     (case gi_state s of
        GI_META \<Rightarrow>
         (case (gi_meta s, gi_tuple s) of
            (n # ns, t # ts) \<Rightarrow>
             (let h = clear_header (gi_header s)
              in s\<lparr>gi_meta := ns, gi_tuple := ts, gi_header := h\<lparr>ph_header := ip_segment_header n t (ph_header h)\<rparr>,
                   gi_state := if LENGTH('w) \<le> IPV4_HEADER_SIZE then GI_HEADER else GI_PARTIAL_HEADER\<rparr>)
          | _ \<Rightarrow> s)
      | GI_HEADER \<Rightarrow>
         (case consumeWord junk (gi_header s) of (d, rest, h) \<Rightarrow>
           s\<lparr>gi_header := h, gi_dataOut := gi_dataOut s @ [\<lparr>na_data = d, na_keep = mask 32, na_last = False\<rparr>],
             gi_state := if unat rest < LENGTH('w) div 8 then GI_PARTIAL_HEADER else GI_HEADER\<rparr>)
      | GI_PARTIAL_HEADER \<Rightarrow>
         (case gi_dataIn s of
            [] \<Rightarrow> s
          | w # q \<Rightarrow>
             (case consumeWord (na_data w) (gi_header s) of (d, rest, h) \<Rightarrow>
               s\<lparr>gi_dataIn := q, gi_header := h, gi_dataOut := gi_dataOut s @ [w\<lparr>na_data := d\<rparr>],
                 gi_state := if na_last w then GI_META else GI_BODY\<rparr>))
      | GI_BODY \<Rightarrow>
         (case gi_dataIn s of
            [] \<Rightarrow> s
          | w # q \<Rightarrow> s\<lparr>gi_dataIn := q, gi_dataOut := gi_dataOut s @ [w], gi_state := if na_last w then GI_META else GI_BODY\<rparr>))"

end
