(* ===== verification/Toe_Tx_Join.thy ===== *)
theory Toe_Tx_Join
  imports Toe_Tx_Packets Axi_Bytes
begin

text \<open>
  Reads that were split at the end of the transmit buffer are joined byte by byte (\<open>read_data_stitching\<close>).
\<close>

unbundle bit_operations_syntax

subsection \<open>Length of a word\<close>

lemma mask_inj:
  assumes "(mask a :: u64) = mask b" "a \<le> 64" "b \<le> 64"
  shows "a = b"
proof (rule ccontr)
  assume "a \<noteq> b"
  then consider "a < b" | "b < a" by linarith
  then show False
  proof cases
    case 1
    then have "bit (mask b :: u64) a" using assms(3) by (simp add: bit_simps)
    then show False unfolding assms(1) [symmetric] by (simp add: bit_simps)
  next
    case 2
    then have "bit (mask a :: u64) b" using assms(2) by (simp add: bit_simps)
    then show False unfolding assms(1) by (simp add: bit_simps)
  qed
qed

lemma keepToLen_mask:
  assumes "0 < n" "n \<le> 64"
  shows "keepToLen (mask n) = of_nat n"
proof -
  have "find (\<lambda>m. (mask n :: u64) = mask m) [1 ..< 65] = Some n"
    unfolding find_Some_iff using assms by (intro exI [of _ "n - 1"]) (auto dest: mask_inj)
  then show ?thesis by (simp add: keepToLen_def)
qed

lemma word_length:
  fixes w :: "('w, 'k::len word) net_axis"
  assumes "keeps w n" "LENGTH('k) \<le> 64"
  shows "unat (keepToLen (ucast (na_keep w))) = n"
proof -
  have n: "0 < n" "n \<le> 64" "n \<le> LENGTH('k)" using assms by (simp_all add: keeps_def)
  have "(ucast (na_keep w) :: u64) = mask n"
    using assms(1) n by (intro bit_word_eqI) (auto simp: keeps_def bit_simps)
  then show ?thesis using keepToLen_mask n by (simp add: unsigned_of_nat take_bit_nat_eq_self)
qed

subsection \<open>Words put together\<close>

text \<open>The first \<open>n\<close> bytes of \<open>p\<close> are the last \<open>n\<close> bytes of \<open>v\<close>.\<close>

definition carried :: "nat \<Rightarrow> ('w::len word, 'k::len word) net_axis \<Rightarrow> ('w word, 'k word) net_axis \<Rightarrow> bool" where
  "carried n p v \<longleftrightarrow> (\<forall>i < 8 * n. bit (na_data p) i = bit (na_data v) (8 * (LENGTH('k) - n) + i))
     \<and> (\<forall>i < n. bit (na_keep p) i = bit (na_keep v) (LENGTH('k) - n + i))"

lemma join_bits_align:
  fixes p :: "'a::len word"
  assumes "n < LENGTH('a)" "\<And>i. i < n \<Longrightarrow> bit p i = bit v (LENGTH('a) - n + i)"
  shows "join_bits n p w = align_bits (LENGTH('a) - n) v w"
  using assms by (intro bit_word_eqI) (auto simp: join_bits_def align_bits_def bit_ranges)

lemma join_align:
  fixes p :: "('w::len word, 'k::len word) net_axis"
  assumes "carried n p v" "n < LENGTH('k)" "LENGTH('w) = 8 * LENGTH('k)"
  shows "\<lparr>na_data = join_bits (8 * n) (na_data p) (na_data w), na_keep = join_bits n (na_keep p) (na_keep w), na_last = l\<rparr>
    = align_words (LENGTH('k) - n) v w l"
proof -
  have e: "8 * (LENGTH('k) - n) = LENGTH('w) - 8 * n" using assms(3) by simp
  show ?thesis unfolding align_words_def e
    using assms by (intro arg_cong3 [where f = "\<lambda>a b c. \<lparr>na_data = a, na_keep = b, na_last = c\<rparr>"] join_bits_align refl)
      (auto simp: carried_def e)
qed

lemma carried_next:
  fixes p :: "('w::len word, 'k::len word) net_axis"
  assumes "n < LENGTH('k)" "LENGTH('w) = 8 * LENGTH('k)"
  shows "carried n (p\<lparr>na_data := keep_high (8 * n) (na_data w) (na_data p), na_keep := keep_high n (na_keep w) (na_keep p)\<rparr>) w"
  using assms by (auto simp: carried_def keep_high_def bit_ranges algebra_simps)

lemma residue_align:
  fixes p :: "('w::len word, 'k::len word) net_axis"
  assumes "carried n p v" "n < LENGTH('k)" "LENGTH('w) = 8 * LENGTH('k)"
  shows "\<lparr>na_data = get_range 0 (8 * n) (na_data p), na_keep = get_range 0 n (na_keep p), na_last = True\<rparr>
    = align_words (LENGTH('k) - n) v zero_word True"
proof -
  have e: "8 * (LENGTH('k) - n) = LENGTH('w) - 8 * n" using assms(3) by simp
  have "get_range 0 (8 * n) (na_data p) = align_bits (LENGTH('w) - 8 * n) (na_data v) 0"
    using assms by (intro bit_word_eqI) (auto simp: align_bits_def bit_ranges carried_def e)
  moreover have "get_range 0 n (na_keep p) = align_bits (LENGTH('k) - n) (na_keep v) 0"
    using assms by (intro bit_word_eqI) (auto simp: align_bits_def bit_ranges carried_def)
  ultimately show ?thesis by (simp add: align_words_def zero_word_def e)
qed

text \<open>A word whose last \<open>n\<close> bytes are the first of \<open>p\<close>.\<close>

definition lifted :: "nat \<Rightarrow> ('w::len word, 'k::len word) net_axis \<Rightarrow> ('w word, 'k word) net_axis" where
  "lifted n p = \<lparr>na_data = push_bit (8 * (LENGTH('k) - n)) (na_data p), na_keep = mask (LENGTH('k)), na_last = False\<rparr>"

lemma lifted_word:
  fixes p :: "('w::len word, 'k::len word) net_axis"
  assumes "keeps p n" "LENGTH('w) = 8 * LENGTH('k)"
  shows "carried n p (lifted n p)" "keeps (lifted n p) (LENGTH('k))" "drop (LENGTH('k) - n) (word_bytes (lifted n p)) = word_bytes p"
proof -
  have n: "0 < n" "n \<le> LENGTH('k)" using assms(1) by (simp_all add: keeps_def)
  show "carried n p (lifted n p)"
    using assms n by (auto simp: carried_def lifted_def keeps_def bit_simps)
  show k: "keeps (lifted n p) (LENGTH('k))" by (simp add: keeps_def lifted_def)
  have "get_range (8 * (LENGTH('k) - n + i)) 8 (na_data (lifted n p)) = (get_range (8 * i) 8 (na_data p) :: u8)" if "i < n" for i
  proof -
    have "8 * (LENGTH('k) - n + i) = 8 * (LENGTH('k) - n) + 8 * i" by (simp add: distrib_left)
    then show ?thesis using that n assms(2) by (intro bit_word_eqI) (auto simp: lifted_def bit_ranges bit_simps add.assoc)
  qed
  then show "drop (LENGTH('k) - n) (word_bytes (lifted n p)) = word_bytes p"
    using word_bytes_keeps [OF assms(1)] word_bytes_keeps [OF k] n by (simp add: drop_map_upt)
qed

subsection \<open>Running the module\<close>

definition rs_done :: "('w, 'k) net_axis list \<Rightarrow> bool list \<Rightarrow> ('w, 'k) net_axis list \<Rightarrow> ('w, 'k) stitcher \<Rightarrow> bool" where
  "rs_done q bs out s \<longleftrightarrow> rs_state s = RS_IDLE \<and> rs_dataIn s = q \<and> rs_merge s = bs \<and> rs_dataOut s = out"

lemma rs_attach:
  "marked ws \<Longrightarrow> rs_state s = RS_ATTACH_ALIGNED \<Longrightarrow> rs_dataIn s = ws @ q \<Longrightarrow>
   \<exists>n \<le> length ws. rs_done q (rs_merge s) (rs_dataOut s @ ws) ((read_data_stitching ^^ n) s)"
proof (induction ws arbitrary: s)
  case (Cons w ws)
  let ?s = "read_data_stitching s"
  have s: "?s = s\<lparr>rs_dataIn := ws @ q, rs_dataOut := rs_dataOut s @ [w], rs_state := if na_last w then RS_IDLE else RS_ATTACH_ALIGNED\<rparr>"
    using Cons.prems by (simp add: read_data_stitching_def)
  show ?case
  proof (cases "ws = []")
    case True
    then show ?thesis using s Cons.prems(1) by (intro run_now) (simp_all add: rs_done_def)
  next
    case False
    then have "\<exists>n \<le> length ws. rs_done q (rs_merge ?s) (rs_dataOut ?s @ ws) ((read_data_stitching ^^ n) ?s)"
      using Cons.prems s by (intro Cons.IH) simp_all
    then show ?thesis using s by - (rule run_after [where k = "length ws"], simp_all)
  qed
qed simp

lemma rs_stitch:
  fixes s :: "('w::len word, 'k::len word) stitcher"
  assumes K: "LENGTH('w) = 8 * LENGTH('k)" and n: "n < LENGTH('k)"
  shows "marked ws \<Longrightarrow> rs_state s = RS_STITCH \<Longrightarrow> unat (rs_offset s) = n \<Longrightarrow> carried n (rs_prevWord s) v \<Longrightarrow> rs_dataIn s = ws @ q \<Longrightarrow>
   \<exists>k \<le> length ws + 1. rs_done q (rs_merge s) (rs_dataOut s @ al_words (LENGTH('k) - n) v ws) ((read_data_stitching ^^ k) s)"
proof (induction ws arbitrary: s v)
  case (Cons w ws)
  let ?s = "read_data_stitching s" and ?l = "\<not> bit (na_keep w) (LENGTH('k) - n)"
  let ?p = "(rs_prevWord s)\<lparr>na_data := keep_high (8 * n) (na_data w) (na_data (rs_prevWord s)),
    na_keep := keep_high n (na_keep w) (na_keep (rs_prevWord s))\<rparr>"
  have s: "?s = s\<lparr>rs_dataIn := ws @ q, rs_dataOut := rs_dataOut s @ [align_words (LENGTH('k) - n) v w ?l], rs_prevWord := ?p,
      rs_state := if \<not> na_last w then RS_STITCH else if ?l then RS_IDLE else RS_RESIDUE\<rparr>"
    using Cons.prems join_align [OF Cons.prems(4) n K, of w ?l] by (simp add: read_data_stitching_def rs_stitch_word_def Let_def)
  have c: "carried n ?p w" by (rule carried_next [OF n K])
  show ?case
  proof (cases "ws = []")
    case False
    then have "\<exists>k \<le> length ws + 1. rs_done q (rs_merge ?s) (rs_dataOut ?s @ al_words (LENGTH('k) - n) w ws) ((read_data_stitching ^^ k) ?s)"
      using Cons.prems s c by (intro Cons.IH) simp_all
    then show ?thesis using s False by - (rule run_after [where k = "length ws + 1"], simp_all)
  next
    case True
    then have l: "na_last w" using Cons.prems(1) by simp
    show ?thesis
    proof (cases ?l)
      case True
      then show ?thesis using s l \<open>ws = []\<close> by (intro run_now) (simp_all add: rs_done_def)
    next
      case False
      have "read_data_stitching ?s = ?s\<lparr>rs_dataOut := rs_dataOut ?s @ [align_words (LENGTH('k) - n) w zero_word True], rs_state := RS_IDLE\<rparr>"
        using s l False residue_align [OF c n K] Cons.prems(3) by (simp add: read_data_stitching_def Let_def)
      then have "rs_done q (rs_merge s) (rs_dataOut s @ al_words (LENGTH('k) - n) v (w # ws)) (read_data_stitching ?s)"
        using s l False \<open>ws = []\<close> by (simp add: rs_done_def)
      then show ?thesis by (intro exI [of _ 2]) (simp add: numeral_2_eq_2)
    qed
  qed
qed simp

text \<open>The words of the first read.\<close>

lemma rs_first:
  fixes s :: "('w::len word, 'k::len word) stitcher"
  shows "marked ws \<Longrightarrow> rs_state s = RS_FIRST_PART \<Longrightarrow> rs_dataIn s = ws @ q \<Longrightarrow>
   read_data_stitching ((read_data_stitching ^^ (length ws - 1)) s)
   = rs_first_word (last ws) (s\<lparr>rs_dataIn := q, rs_dataOut := rs_dataOut s @ butlast ws,
       rs_prevWord := if butlast ws = [] then rs_prevWord s else last (butlast ws),
       rs_offset := if butlast ws = [] then rs_offset s else keepToLen (ucast (na_keep (last (butlast ws))))\<rparr>)"
proof (induction ws arbitrary: s)
  case (Cons w ws)
  show ?case
  proof (cases "ws = []")
    case True
    then show ?thesis using Cons.prems by (simp add: read_data_stitching_def)
  next
    case False
    let ?s = "read_data_stitching s"
    have s: "?s = s\<lparr>rs_dataIn := ws @ q, rs_dataOut := rs_dataOut s @ [w], rs_prevWord := w, rs_offset := keepToLen (ucast (na_keep w))\<rparr>"
      using Cons.prems False by (simp add: read_data_stitching_def rs_first_word_def Let_def)
    have "length (w # ws) - 1 = Suc (length ws - 1)" using False by simp
    then have "(read_data_stitching ^^ (length (w # ws) - 1)) s = (read_data_stitching ^^ (length ws - 1)) ?s" by (simp only: run_Suc)
    then show ?thesis using Cons.IH [of ?s] Cons.prems False s by (auto simp del: funpow.simps length_Cons)
  qed
qed simp

lemma rs_begin:
  "rs_state s = RS_IDLE \<Longrightarrow> rs_merge s = b # bs \<Longrightarrow> rs_dataIn s \<noteq> [] \<Longrightarrow>
   read_data_stitching s = read_data_stitching (s\<lparr>rs_merge := bs, rs_pkgNeedsMerge := b, rs_state := RS_FIRST_PART\<rparr>)"
  by (cases "rs_dataIn s") (simp_all add: read_data_stitching_def rs_first_word_def Let_def)

subsection \<open>Packets\<close>

text \<open>A read, with the second half if it was split; what the module makes of it.\<close>

type_synonym ('w, 'k) split_read = "('w, 'k) net_axis list \<times> ('w, 'k) net_axis list option"

definition second_half :: "('w, 'k) split_read \<Rightarrow> ('w, 'k) net_axis list" where
  "second_half p = (case snd p of None \<Rightarrow> [] | Some ws \<Rightarrow> ws)"

definition read_ok :: "('w::len word, 'k::len word) split_read \<Rightarrow> bool" where
  "read_ok p \<longleftrightarrow> LENGTH('w) = 8 * LENGTH('k) \<and> LENGTH('k) \<le> 64 \<and> well_kept (fst p) \<and> (snd p \<noteq> None \<longrightarrow> well_kept (second_half p))"

definition join_words :: "('w::len word, 'k::len word) split_read \<Rightarrow> ('w word, 'k word) net_axis list" where
  "join_words p =
     (let w = last (fst p); n = unat (keepToLen (ucast (na_keep w)))
      in if snd p = None then fst p
         else if bit (na_keep w) (LENGTH('k) - 1) then butlast (fst p) @ w\<lparr>na_last := False\<rparr> # second_half p
         else butlast (fst p) @ al_words (LENGTH('k) - n) (lifted n w) (second_half p))"

definition rs_holds :: "('w, 'k) split_read list \<Rightarrow> ('w, 'k) net_axis list \<Rightarrow> ('w, 'k) stitcher \<Rightarrow> bool" where
  "rs_holds ps out s \<longleftrightarrow> rs_done (concat (map (\<lambda>p. fst p @ second_half p) ps)) (map (\<lambda>p. snd p \<noteq> None) ps) out s"

lemma rs_one_packet:
  fixes s :: "('w::len word, 'k::len word) stitcher"
  assumes "rs_holds (p # ps) out s" "read_ok p"
  shows "\<exists>n \<le> length (fst p) + length (second_half p) + 1. rs_holds ps (out @ join_words p) ((read_data_stitching ^^ n) s)"
proof -
  let ?A = "fst p" and ?B = "second_half p" and ?w = "last (fst p)" and ?b = "snd p \<noteq> None"
  let ?q = "concat (map (\<lambda>p. fst p @ second_half p) ps)" and ?bs = "map (\<lambda>p. snd p \<noteq> None) ps"
  have K: "LENGTH('w) = 8 * LENGTH('k)" "LENGTH('k) \<le> 64" and A: "well_kept ?A" using assms(2) by (simp_all add: read_ok_def)
  then have mA: "marked ?A" by (simp add: well_kept_def)
  obtain m where m: "keeps ?w m" using A by (auto simp: well_kept_def)
  have lw: "na_last ?w" using mA by (simp add: marked_def)
  have st: "rs_state s = RS_IDLE" "rs_dataIn s = ?A @ ?B @ ?q" "rs_merge s = ?b # ?bs" "rs_dataOut s = out"
    using assms(1) by (simp_all add: rs_holds_def rs_done_def)
  let ?s = "s\<lparr>rs_merge := ?bs, rs_pkgNeedsMerge := ?b, rs_state := RS_FIRST_PART\<rparr>"
  have ne: "?A \<noteq> []" using mA by auto
  define t where "t = read_data_stitching ((read_data_stitching ^^ (length ?A - 1)) ?s)"
  have "(read_data_stitching ^^ length ?A) s = (read_data_stitching ^^ length ?A) ?s"
    using rs_begin [of s ?b ?bs] st ne by (cases ?A) (simp_all add: run_Suc del: funpow.simps)
  then have run: "(read_data_stitching ^^ length ?A) s = t" using ne unfolding t_def by (cases ?A) simp_all
  define u where "u = ?s\<lparr>rs_dataIn := ?B @ ?q, rs_dataOut := out @ butlast ?A,
       rs_prevWord := if butlast ?A = [] then rs_prevWord s else last (butlast ?A),
       rs_offset := if butlast ?A = [] then rs_offset s else keepToLen (ucast (na_keep (last (butlast ?A))))\<rparr>"
  have t: "t = rs_first_word ?w u" unfolding t_def u_def using rs_first [OF mA, of ?s "?B @ ?q"] st by simp
  have rest: "\<exists>n \<le> length ?B + 1. rs_holds ps (out @ join_words p) ((read_data_stitching ^^ n) t)"
  proof (cases ?b)
    case False
    then have "rs_holds ps (out @ join_words p) t"
      using lw ne unfolding t by (simp add: rs_first_word_def Let_def u_def rs_holds_def rs_done_def second_half_def join_words_def)
    then show ?thesis by (intro exI [of _ 0]) simp
  next
    case True
    then have mB: "marked ?B" using assms(2) by (simp add: read_ok_def well_kept_def)
    have len: "unat (keepToLen (ucast (na_keep ?w))) = m" by (rule word_length [OF m K(2)])
    show ?thesis
    proof (cases "bit (na_keep ?w) (LENGTH('k) - 1)")
      case aligned: True
      then have "rs_state t = RS_ATTACH_ALIGNED" "rs_dataIn t = ?B @ ?q" "rs_merge t = ?bs" "rs_dataOut t = out @ butlast ?A @ [?w\<lparr>na_last := False\<rparr>]"
        using lw True unfolding t by (simp_all add: rs_first_word_def Let_def u_def)
      then show ?thesis using rs_attach [OF mB, of t ?q] aligned True
        by (auto simp: rs_holds_def join_words_def Let_def intro: le_SucI simp del: not_None_eq)
    next
      case False
      then have "m < LENGTH('k)" using m keeps_bit [OF m, of "LENGTH('k) - 1"] by (auto simp: keeps_def)
      moreover have "carried m (?w\<lparr>na_last := False\<rparr>) (lifted m ?w)" using lifted_word(1) [OF m K(1)] by (simp add: carried_def)
      moreover have "rs_state t = RS_STITCH" "rs_dataIn t = ?B @ ?q" "rs_merge t = ?bs" "rs_dataOut t = out @ butlast ?A"
          "unat (rs_offset t) = m" "rs_prevWord t = ?w\<lparr>na_last := False\<rparr>"
        using lw True False len unfolding t by (simp_all add: rs_first_word_def Let_def u_def)
      ultimately show ?thesis using rs_stitch [OF K(1), of m ?B t "lifted m ?w" ?q] mB True False len
        by (simp add: rs_holds_def join_words_def Let_def del: not_None_eq)
    qed
  qed
  then obtain n where n: "n \<le> length ?B + 1" "rs_holds ps (out @ join_words p) ((read_data_stitching ^^ n) t)" by blast
  then have "rs_holds ps (out @ join_words p) ((read_data_stitching ^^ (n + length ?A)) s)" using run by (simp add: funpow_add)
  then show ?thesis using n(1) by (intro exI [of _ "n + length ?A"]) simp
qed

interpretation rs: packet_machine read_data_stitching rs_holds read_ok join_words "\<lambda>p. length (fst p) + length (second_half p) + 1"
  by unfold_locales (rule rs_one_packet)

lemma bytes_butlast: "ws \<noteq> [] \<Longrightarrow> packet_bytes ws = packet_bytes (butlast ws) @ word_bytes (last ws)"
  by (cases ws rule: rev_cases) (simp_all add: packet_bytes_def)

lemma marked_prefix: "list_all (\<lambda>w. \<not> na_last w) vs \<Longrightarrow> marked ws \<Longrightarrow> marked (vs @ ws)"
  by (induction vs) auto

lemma bytes_append: "packet_bytes (vs @ ws) = packet_bytes vs @ packet_bytes ws"
  by (simp add: packet_bytes_def)

lemma join_bytes:
  fixes p :: "('w::len word, 'k::len word) split_read"
  assumes "read_ok p"
  shows "packet_bytes (join_words p) = packet_bytes (fst p) @ packet_bytes (second_half p) \<and> marked (join_words p)"
proof (cases "snd p = None")
  case True
  then show ?thesis using assms by (simp add: join_words_def second_half_def read_ok_def well_kept_def)
next
  case False
  let ?w = "last (fst p)"
  have K: "LENGTH('w) = 8 * LENGTH('k)" "LENGTH('k) \<le> 64" and A: "well_kept (fst p)" and B: "well_kept (second_half p)"
    using assms False by (simp_all add: read_ok_def)
  obtain m where m: "keeps ?w m" using A by (auto simp: well_kept_def)
  have ne: "fst p \<noteq> []" and bl: "list_all (\<lambda>w. \<not> na_last w) (butlast (fst p))" using A by (auto simp: well_kept_def marked_def)
  have mB: "marked (second_half p)" using B by (simp add: well_kept_def)
  show ?thesis
  proof (cases "bit (na_keep ?w) (LENGTH('k) - 1)")
    case True
    have "word_bytes (?w\<lparr>na_last := False\<rparr>) = word_bytes ?w" by (simp add: word_bytes_def)
    moreover have "marked (?w\<lparr>na_last := False\<rparr> # second_half p)" using mB by auto
    ultimately show ?thesis
      using True False bytes_butlast [OF ne] marked_prefix [OF bl] by (simp add: join_words_def Let_def bytes_append del: not_None_eq)
  next
    case unaligned: False
    then have "m < LENGTH('k)" "0 < m" using m keeps_bit [OF m, of "LENGTH('k) - 1"] by (auto simp: keeps_def)
    then have o: "0 < LENGTH('k) - m" "LENGTH('k) - m < LENGTH('k)" by simp_all
    note al = al_words_bytes [OF K(1) o lifted_word(2) [OF m K(1)] B, unfolded lifted_word(3) [OF m K(1)]]
    show ?thesis using unaligned False bytes_butlast [OF ne] marked_prefix [OF bl] al word_length [OF m K(2)]
      by (simp add: join_words_def Let_def bytes_append del: not_None_eq)
  qed
qed

definition rs_start :: "('w, 'k) split_read list \<Rightarrow> ('w, 'k) net_axis \<Rightarrow> ('w, 'k) stitcher" where
  "rs_start ps junk = \<lparr>rs_merge = map (\<lambda>p. snd p \<noteq> None) ps, rs_dataIn = concat (map (\<lambda>p. fst p @ second_half p) ps), rs_dataOut = [],
     rs_prevWord = junk, rs_pkgNeedsMerge = False, rs_state = RS_IDLE, rs_offset = 0\<rparr>"

text \<open>C20. Reads that were split at the end of the transmit buffer are put together again: for any sequence of reads, split or not, at any
  width up to 512 bits, \<open>read_data_stitching\<close> writes one packet per read after a bounded number of calls, and its bytes are those of the
  first half followed by those of the second.\<close>

theorem split_reads_joined:
  fixes ps :: "('w::len word, 'k::len word) split_read list"
  assumes "list_all read_ok ps"
  shows "\<exists>n \<le> (\<Sum>p \<leftarrow> ps. length (fst p) + length (second_half p) + 1). \<exists>packets. let s = (read_data_stitching ^^ n) (rs_start ps junk) in
    rs_dataIn s = [] \<and> rs_merge s = [] \<and> rs_dataOut s = concat packets
    \<and> list_all2 (\<lambda>p x. marked x \<and> packet_bytes x = packet_bytes (fst p) @ packet_bytes (second_half p)) ps packets"
proof -
  have "rs_holds ps [] (rs_start ps junk)" by (simp add: rs_holds_def rs_done_def rs_start_def)
  from rs.all_packets [OF this assms] obtain n where "n \<le> (\<Sum>p \<leftarrow> ps. length (fst p) + length (second_half p) + 1)"
    "rs_holds [] (concat (map join_words ps)) ((read_data_stitching ^^ n) (rs_start ps junk))" by auto
  moreover have "list_all2 (\<lambda>p x. marked x \<and> packet_bytes x = packet_bytes (fst p) @ packet_bytes (second_half p)) ps (map join_words ps)"
    using assms by (induction ps) (simp_all add: join_bytes)
  ultimately show ?thesis
    by (intro exI [of _ n] conjI exI [of _ "map join_words ps"]) (auto simp: rs_holds_def rs_done_def Let_def)
qed

definition some_reads :: "(64 word, 8 word) split_read list" where
  "some_reads = [([\<lparr>na_data = 0x030201, na_keep = 7, na_last = True\<rparr>],
     Some [\<lparr>na_data = 0x0B0A090807060504, na_keep = - 1, na_last = False\<rparr>, \<lparr>na_data = 0x0C, na_keep = 1, na_last = True\<rparr>])]"

theorem split_reads_joined_witness:
  "\<exists>n \<le> 4. \<exists>packets. rs_dataOut ((read_data_stitching ^^ n) (rs_start some_reads zero_word)) = concat packets
     \<and> list_all2 (\<lambda>p x. marked x \<and> packet_bytes x = packet_bytes (fst p) @ packet_bytes (second_half p)) some_reads packets"
proof -
  have "mask 8 = (- 1 :: 8 word)" "mask 1 = (1 :: 8 word)" "mask 3 = (7 :: 8 word)" by (simp_all add: mask_eq_exp_minus_1)
  then have "keeps \<lparr>na_data = 0x030201 :: 64 word, na_keep = 7 :: 8 word, na_last = True\<rparr> 3"
    "keeps \<lparr>na_data = 0x0B0A090807060504 :: 64 word, na_keep = - 1 :: 8 word, na_last = False\<rparr> 8"
    "keeps \<lparr>na_data = 0x0C :: 64 word, na_keep = 1 :: 8 word, na_last = True\<rparr> 1" by (simp_all add: keeps_def)
  then have ok: "list_all read_ok some_reads" by (auto simp: some_reads_def read_ok_def second_half_def)
  have four: "(\<Sum>p \<leftarrow> some_reads. length (fst p) + length (second_half p) + 1) = 4" by (simp add: some_reads_def second_half_def)
  show ?thesis using split_reads_joined [OF ok, of zero_word, unfolded four Let_def]
    by (elim exE conjE) (intro exI conjI, assumption+)
qed

end
