(* ===== verification/Toe_Tx_Wire.thy ===== *)
theory Toe_Tx_Wire
  imports Toe_Tx_Packets Toe_Rx_Parse
begin

text \<open>
  A segment the transmit engine builds is the segment the receive engine reads: what \<open>pseudoHeaderConstructionNew\<close> writes for
  the description of a segment is taken apart by \<open>processPseudoHeader\<close> into the same fields.
\<close>

unbundle bit_operations_syntax

subsection \<open>Words of a header\<close>

lemma tcp_raw_bits:
  fixes ws :: "('w::len word, 'k) net_axis list"
  assumes "256 \<le> length ws * LENGTH('w)"
    and "\<And>n. n < 256 \<Longrightarrow> bit (na_data (ws ! (n div LENGTH('w)))) (n mod LENGTH('w)) = bit h n"
  shows "tcp_raw ws = h"
proof (rule bit_word_eqI)
  fix n assume "n < LENGTH(256)"
  then have n: "n < 256" by simp
  then have "n < length ws * LENGTH('w)" using assms(1) by linarith
  then have d: "n div LENGTH('w) < length ws" by (rule less_mult_imp_div_less)
  let ?p = "\<lparr>ph_ready = False, ph_idx = 0, ph_header = 0 :: tcpFullPseudoHeader\<rparr>"
  have "bit (tcp_raw ws) n = bit (map na_data ws ! (n div LENGTH('w) - 0)) (n mod LENGTH('w))"
    unfolding tcp_raw_def using bit_parse_words [of ?p "map na_data ws" n] n assms(1) by simp
  then show "bit (tcp_raw ws) n = bit h n" using assms(2) [OF n] d by simp
qed

definition header_words :: "tcpFullPseudoHeader \<Rightarrow> bool \<Rightarrow> nat \<Rightarrow> nat \<Rightarrow> ('w::len word, 'k::len word) net_axis list" where
  "header_words h lst a b = map (\<lambda>j. \<lparr>na_data = get_range (j * LENGTH('w)) (LENGTH('w)) h, na_keep = mask 32,
     na_last = (lst \<and> (j + 1) * LENGTH('w) = 256)\<rparr>) [a ..< b]"

definition hb_width :: "'w::len word itself \<Rightarrow> bool" where
  "hb_width w \<longleftrightarrow> LENGTH('w) = 64 \<or> LENGTH('w) = 128 \<or> LENGTH('w) = 256"

abbreviation hb_call :: "u16 \<Rightarrow> 'w::len word \<Rightarrow> ('w word, 'k::len word) headerBuilder \<Rightarrow> ('w word, 'k word) headerBuilder" where
  "hb_call \<equiv> pseudoHeaderConstructionNew"

text \<open>Where the module goes when the header is out.\<close>

definition hb_next :: "('w, 'k) headerBuilder \<Rightarrow> phcState" where
  "hb_next s = (if hb_hasBody s then PH_BODY else if hb_isSYN s then PH_MSS_OPTION else PH_META)"

lemma hb_header_step:
  fixes s :: "('w::len word, 'k::len word) headerBuilder"
  assumes W: "hb_width TYPE('w word)" and s: "hb_state s = PH_HEADER" "ph_idx (hb_header s) = j" and j: "(j + 1) * LENGTH('w) \<le> 256"
  shows "hb_call mss junk s = s\<lparr>hb_header := (hb_header s)\<lparr>ph_idx := j + 1\<rparr>,
    hb_dataOut := hb_dataOut s @ header_words (ph_header (hb_header s)) (\<not> hb_hasBody s \<and> \<not> hb_isSYN s) j (j + 1),
    hb_state := if (j + 1) * LENGTH('w) = 256 then hb_next s else PH_HEADER\<rparr>"
proof -
  have le: "LENGTH('w) \<le> 256" using W by (auto simp: hb_width_def)
  define e where "e = j * LENGTH('w) + LENGTH('w)"
  have e: "(j + 1) * LENGTH('w) = e" by (simp add: e_def)
  have c: "consumeWord junk (hb_header s) = (get_range (j * LENGTH('w)) (LENGTH('w)) (ph_header (hb_header s)),
      of_nat ((256 - e) div 8), (hb_header s)\<lparr>ph_idx := j + 1\<rparr>)"
    using j s(2) unfolding e by (simp add: consumeWord_def Let_def e_def [symmetric])
  have "(256 - e) div 8 < 2 ^ 8" by simp
  then have u: "unat (of_nat ((256 - e) div 8) :: u8) = (256 - e) div 8"
    by (simp add: unsigned_of_nat take_bit_nat_eq_self)
  have f: "(256 - e) div 8 < LENGTH('w) div 8 \<longleftrightarrow> e = 256"
  proof -
    have "LENGTH('w) = 64 \<and> j < 4 \<or> LENGTH('w) = 128 \<and> j < 2 \<or> LENGTH('w) = 256 \<and> j < 1"
      using W j unfolding hb_width_def by (elim disjE) simp_all
    moreover have "j < 4 \<Longrightarrow> j = 0 \<or> j = 1 \<or> j = 2 \<or> j = 3" "j < 2 \<Longrightarrow> j = 0 \<or> j = 1" by linarith+
    ultimately show ?thesis unfolding e_def by (elim disjE conjE) auto
  qed
  show ?thesis unfolding pseudoHeaderConstructionNew_def s(1) hb_header_word_def c prod.case u f
    using le W e by (auto simp: Let_def header_words_def hb_next_def hb_width_def)
qed

lemma header_words_append: "a \<le> b \<Longrightarrow> b \<le> c \<Longrightarrow> header_words h l a b @ header_words h l b c = header_words h l a c"
  using upt_add_eq_append [of a b "c - b"] by (simp add: header_words_def flip: map_append)

lemma hb_header_run:
  fixes s :: "('w::len word, 'k::len word) headerBuilder"
  assumes W: "hb_width TYPE('w word)"
  shows "hb_state s = PH_HEADER \<Longrightarrow> ph_idx (hb_header s) = j \<Longrightarrow> (j + Suc d) * LENGTH('w) = 256 \<Longrightarrow>
    (hb_call mss junk ^^ Suc d) s = s\<lparr>hb_header := (hb_header s)\<lparr>ph_idx := j + Suc d\<rparr>,
      hb_dataOut := hb_dataOut s @ header_words (ph_header (hb_header s)) (\<not> hb_hasBody s \<and> \<not> hb_isSYN s) j (j + Suc d),
      hb_state := hb_next s\<rparr>"
proof (induction d arbitrary: s j)
  case 0
  then show ?case using hb_header_step [OF W 0(1,2), of mss junk] by simp
next
  case (Suc d)
  let ?s = "hb_call mss junk s"
  have more: "(j + 1) * LENGTH('w) < 256"
  proof -
    have "(j + 1) * LENGTH('w) < (j + Suc (Suc d)) * LENGTH('w)" by (rule mult_strict_right_mono) simp_all
    then show ?thesis using Suc.prems(3) by simp
  qed
  have s: "?s = s\<lparr>hb_header := (hb_header s)\<lparr>ph_idx := j + 1\<rparr>,
    hb_dataOut := hb_dataOut s @ header_words (ph_header (hb_header s)) (\<not> hb_hasBody s \<and> \<not> hb_isSYN s) j (j + 1)\<rparr>"
    using hb_header_step [OF W Suc.prems(1,2) less_imp_le [OF more], of mss junk] more Suc.prems(1) by simp
  have "(hb_call mss junk ^^ Suc d) ?s = ?s\<lparr>hb_header := (hb_header ?s)\<lparr>ph_idx := (j + 1) + Suc d\<rparr>,
      hb_dataOut := hb_dataOut ?s @ header_words (ph_header (hb_header ?s)) (\<not> hb_hasBody ?s \<and> \<not> hb_isSYN ?s) (j + 1) ((j + 1) + Suc d),
      hb_state := hb_next ?s\<rparr>"
    using Suc.prems s by (intro Suc.IH) simp_all
  moreover have "(hb_call mss junk ^^ Suc (Suc d)) s = (hb_call mss junk ^^ Suc d) ?s" by (rule run_Suc)
  moreover have "(header_words h l j (j + 1) :: ('w word, 'k word) net_axis list) @ header_words h l (j + 1) ((j + 1) + Suc d)
      = header_words h l j (j + Suc (Suc d))" for h l by (subst header_words_append) simp_all
  moreover have "hb_next ?s = hb_next s" using s by (simp add: hb_next_def)
  ultimately show ?case using s by (simp del: funpow.simps)
qed

lemma hb_body:
  fixes s :: "('w::len word, 'k::len word) headerBuilder"
  shows "marked ws \<Longrightarrow> hb_state s = PH_BODY \<Longrightarrow> hb_dataIn s = ws @ q \<Longrightarrow>
   (hb_call mss junk ^^ length ws) s = s\<lparr>hb_dataIn := q, hb_dataOut := hb_dataOut s @ ws, hb_state := PH_META\<rparr>"
proof (induction ws arbitrary: s)
  case (Cons w ws)
  let ?s = "hb_call mss junk s"
  have s: "?s = s\<lparr>hb_dataIn := ws @ q, hb_dataOut := hb_dataOut s @ [w], hb_state := if na_last w then PH_META else PH_BODY\<rparr>"
    using Cons.prems by (simp add: pseudoHeaderConstructionNew_def)
  show ?case
  proof (cases "ws = []")
    case True
    then show ?thesis using s Cons.prems by simp
  next
    case False
    then have "(hb_call mss junk ^^ length ws) ?s = ?s\<lparr>hb_dataIn := q, hb_dataOut := hb_dataOut ?s @ ws, hb_state := PH_META\<rparr>"
      using Cons.prems s by (intro Cons.IH) simp_all
    then show ?thesis using s False by (simp add: run_Suc del: funpow.simps)
  qed
qed simp

subsection \<open>Segments\<close>

text \<open>The description of a segment, its addresses, and the words of its payload.\<close>

type_synonym ('w, 'k) segment = "tx_engine_meta \<times> fourTuple \<times> ('w, 'k) net_axis list"

definition has_body :: "tx_engine_meta \<Rightarrow> bool" where
  "has_body m \<longleftrightarrow> tm_length m \<noteq> 0 \<and> \<not> tm_syn m"

definition segment_ok :: "('w::len word, 'k::len word) segment \<Rightarrow> bool" where
  "segment_ok p \<longleftrightarrow> (hb_width TYPE('w word) \<or> LENGTH('w) = 512) \<and> (if has_body (fst p) then marked (snd (snd p)) else snd (snd p) = [])"

text \<open>The packet behind a segment: the header in its first 256 bits, behind it the payload.\<close>

definition carries_segment :: "('w::len word, 'k::len word) segment \<Rightarrow> ('w word, 'k word) net_axis list \<Rightarrow> bool" where
  "carries_segment p ws \<longleftrightarrow> marked ws \<and> 256 \<le> length ws * LENGTH('w) \<and> (\<exists>h. tcp_raw ws = meta_header (fst p) (fst (snd p)) h)
     \<and> (has_body (fst p) \<longrightarrow> (let b = snd (snd p) in
          if LENGTH('w) \<le> 256 then drop (256 div LENGTH('w)) ws = b
          else tl ws = tl b \<and> na_keep (hd ws) = na_keep (hd b) \<and> drop_bit 256 (na_data (hd ws)) = drop_bit 256 (na_data (hd b))))"

lemma carries_narrow:
  fixes ws :: "('w::len word, 'k::len word) net_axis list"
  assumes W: "hb_width TYPE('w word)" and "segment_ok p"
    and ws: "ws = header_words (meta_header (fst p) (fst (snd p)) h) (rest = []) 0 (256 div LENGTH('w)) @ rest"
    and rest: "rest = [] \<or> marked rest" "has_body (fst p) \<Longrightarrow> rest = snd (snd p)"
  shows "carries_segment p ws"
proof -
  let ?k = "256 div LENGTH('w)" and ?H = "meta_header (fst p) (fst (snd p)) h"
  have k: "?k * LENGTH('w) = 256" "0 < ?k" "LENGTH('w) \<le> 256" using W by (auto simp: hb_width_def)
  have len: "length (header_words ?H l 0 ?k :: ('w word, 'k word) net_axis list) = ?k" for l by (simp add: header_words_def)
  have raw: "tcp_raw ws = ?H"
  proof (rule tcp_raw_bits)
    show "256 \<le> length ws * LENGTH('w)" using k by (simp add: ws len add_mult_distrib)
    fix n :: nat assume n: "n < 256"
    then have d: "n div LENGTH('w) < ?k" using k(1) by (metis less_mult_imp_div_less)
    then have "ws ! (n div LENGTH('w)) = header_words ?H (rest = []) 0 ?k ! (n div LENGTH('w))" by (simp add: ws nth_append len)
    then show "bit (na_data (ws ! (n div LENGTH('w)))) (n mod LENGTH('w)) = bit ?H n"
      using d n by (simp add: header_words_def bit_ranges mult.commute)
  qed
  have last: "na_last ((header_words ?H l 0 ?k :: ('w word, 'k word) net_axis list) ! j) \<longleftrightarrow> l \<and> j + 1 = ?k" if "j < ?k" for l j
  proof -
    have "(j + 1) * LENGTH('w) = 256 \<longleftrightarrow> j + 1 = ?k" using k(1) by (metis len_gt_0 mult_right_cancel not_gr_zero)
    then show ?thesis using that by (simp add: header_words_def)
  qed
  have "marked ws"
  proof (cases "rest = []")
    case True
    then show ?thesis unfolding ws marked_def using last [of _ True] k(2) len [of True]
      by (auto simp: list_all_length last_conv_nth nth_butlast simp flip: length_greater_0_conv)
  next
    case False
    have "list_all (\<lambda>w. \<not> na_last w) (header_words ?H False 0 ?k :: ('w word, 'k word) net_axis list)"
      by (simp add: header_words_def list_all_iff)
    then have "marked (header_words ?H False 0 ?k @ rest)" using rest False by (auto simp: marked_def butlast_append)
    then show ?thesis using False by (simp add: ws)
  qed
  then show ?thesis using raw k rest(2) by (auto simp: carries_segment_def ws len add_mult_distrib Let_def)
qed

lemma carries_wide:
  fixes ws :: "('w::len word, 'k::len word) net_axis list"
  assumes W: "LENGTH('w) = 512" and "marked (v # vs)"
    and low: "\<And>n. n < 256 \<Longrightarrow> bit (na_data v) n = bit (meta_header (fst p) (fst (snd p)) h) n"
    and body: "has_body (fst p) \<Longrightarrow> snd (snd p) = w # vs \<and> na_keep v = na_keep w \<and> drop_bit 256 (na_data v) = drop_bit 256 (na_data w)"
  shows "carries_segment p (v # vs :: ('w word, 'k word) net_axis list)"
proof -
  have "tcp_raw (v # vs) = meta_header (fst p) (fst (snd p)) h"
  proof (rule tcp_raw_bits)
    show "256 \<le> length (v # vs) * LENGTH('w)" using W by simp
    show "bit (na_data ((v # vs) ! (n div LENGTH('w)))) (n mod LENGTH('w)) = bit (meta_header (fst p) (fst (snd p)) h) n" if "n < 256" for n
      using that low W by simp
  qed
  then show ?thesis using assms(2) body W by (auto simp: carries_segment_def Let_def)
qed

definition hb_holds :: "('w::len word, 'k::len word) segment list \<Rightarrow> ('w word, 'k word) segment list \<Rightarrow> ('w word, 'k word) headerBuilder \<Rightarrow> bool" where
  "hb_holds ps out s \<longleftrightarrow> hb_state s = PH_META \<and> hb_meta s = map fst ps \<and> hb_tuple s = map (\<lambda>p. fst (snd p)) ps
     \<and> hb_dataIn s = concat (map (\<lambda>p. snd (snd p)) ps)
     \<and> (\<exists>packets. hb_dataOut s = concat packets \<and> list_all2 carries_segment out packets)"

lemma hb_holdsI:
  assumes "hb_state t = PH_META" "hb_meta t = map fst ps" "hb_tuple t = map (\<lambda>p. fst (snd p)) ps" "hb_dataIn t = concat (map (\<lambda>p. snd (snd p)) ps)"
    and "hb_holds (p # ps) out s" "hb_dataOut t = hb_dataOut s @ ws" "carries_segment p ws"
  shows "hb_holds ps (out @ [p]) t"
proof -
  obtain packets where "hb_dataOut s = concat packets" "list_all2 carries_segment out packets" using assms(5) by (auto simp: hb_holds_def)
  then have "hb_dataOut t = concat (packets @ [ws])" "list_all2 carries_segment (out @ [p]) (packets @ [ws])"
    using assms(6,7) by (simp_all add: list_all2_appendI)
  then show ?thesis using assms(1-4) unfolding hb_holds_def by blast
qed

lemma hb_one_narrow:
  fixes s :: "('w::len word, 'k::len word) headerBuilder"
  assumes W: "hb_width TYPE('w word)" and h: "hb_holds (p # ps) out s" and ok: "segment_ok p"
  shows "\<exists>n \<le> 6 + length (snd (snd p)). hb_holds ps (out @ [p]) ((hb_call mss junk ^^ n) s)"
proof -
  obtain m t b where p: "p = (m, t, b)" by (metis prod_cases3)
  let ?q = "concat (map (\<lambda>p. snd (snd p)) ps)" and ?k = "256 div LENGTH('w)"
  have k: "?k * LENGTH('w) = 256" "LENGTH('w) \<le> 256" and k4: "?k \<le> 4" using W by (auto simp: hb_width_def)
  obtain d where d: "?k = Suc d" using k(1) by (cases ?k) auto
  have st: "hb_state s = PH_META" "hb_meta s = m # map fst ps" "hb_tuple s = t # map (\<lambda>p. fst (snd p)) ps" "hb_dataIn s = b @ ?q"
    using h by (simp_all add: hb_holds_def p)
  define s1 where "s1 = hb_call mss junk s"
  have s1: "s1 = s\<lparr>hb_meta := map fst ps, hb_tuple := map (\<lambda>p. fst (snd p)) ps, hb_win_shift := tm_win_shift m,
      hb_header := (clear_header (hb_header s))\<lparr>ph_header := meta_header m t (ph_header (hb_header s))\<rparr>,
      hb_hasBody := has_body m, hb_isSYN := tm_syn m, hb_state := PH_HEADER\<rparr>"
    using st k(2) by (simp add: s1_def pseudoHeaderConstructionNew_def has_body_def clear_header_def Let_def)
  define s2 where "s2 = (hb_call mss junk ^^ ?k) s1"
  let ?H = "meta_header m t (ph_header (hb_header s))" and ?l = "\<not> has_body m \<and> \<not> tm_syn m"
  have s2: "s2 = s1\<lparr>hb_header := (hb_header s1)\<lparr>ph_idx := ?k\<rparr>, hb_dataOut := hb_dataOut s @ header_words ?H ?l 0 ?k, hb_state := hb_next s1\<rparr>"
    unfolding s2_def d using hb_header_run [OF W, of s1 0 d mss junk] k(1) d by (simp add: s1 clear_header_def)
  have run: "(hb_call mss junk ^^ (n + (?k + 1))) s = (hb_call mss junk ^^ n) s2" for n
    unfolding s2_def s1_def by (simp add: funpow_add funpow_swap1)
  have opt: "\<exists>w. hb_call mss junk s2 = s2\<lparr>hb_dataOut := hb_dataOut s2 @ [w], hb_state := PH_META\<rparr> \<and> na_last w" if "\<not> has_body m" "tm_syn m"
  proof -
    have "hb_state s2 = PH_MSS_OPTION" using that by (simp add: s2 s1 hb_next_def)
    then show ?thesis
      by (intro exI [of _ "\<lparr>na_data = set_range 0 64 (syn_options mss (hb_win_shift s2)) junk,
        na_keep = ucast (syn_keep (hb_win_shift s2)), na_last = True\<rparr>"]) (simp add: pseudoHeaderConstructionNew_def)
  qed
  consider (body) "has_body m" | (syn) "\<not> has_body m" "tm_syn m" | (none) "\<not> has_body m" "\<not> tm_syn m" by blast
  then show ?thesis
  proof cases
    case body
    then have b: "marked b" using ok by (simp add: segment_ok_def p)
    have "(hb_call mss junk ^^ length b) s2 = s2\<lparr>hb_dataIn := ?q, hb_dataOut := hb_dataOut s2 @ b, hb_state := PH_META\<rparr>"
      using body st by (intro hb_body [OF b]) (simp_all add: s2 s1 hb_next_def)
    moreover have "carries_segment p (header_words ?H False 0 ?k @ b :: ('w word, 'k word) net_axis list)"
      by (rule carries_narrow [OF W ok, where rest = b and h = "ph_header (hb_header s)"]) (use b in \<open>simp_all add: p, metis marked_not_Nil\<close>)
    ultimately show ?thesis using body k4 run [of "length b"] unfolding p
      by (intro exI [of _ "length b + (?k + 1)"] conjI hb_holdsI [OF _ _ _ _ h [unfolded p], where ws = "header_words ?H False 0 ?k @ b"])
        (simp_all add: s2 s1)
  next
    case syn
    then have b: "b = []" using ok by (simp add: segment_ok_def p)
    obtain w where w: "hb_call mss junk s2 = s2\<lparr>hb_dataOut := hb_dataOut s2 @ [w], hb_state := PH_META\<rparr>" "na_last w" using opt syn by blast
    have "carries_segment p (header_words ?H False 0 ?k @ [w] :: ('w word, 'k word) net_axis list)"
      by (rule carries_narrow [OF W ok, where rest = "[w]" and h = "ph_header (hb_header s)"]) (use w syn in \<open>auto simp: p\<close>)
    then show ?thesis using syn b k4 run [of 1] w st unfolding p
      by (intro exI [of _ "1 + (?k + 1)"] conjI hb_holdsI [OF _ _ _ _ h [unfolded p], where ws = "header_words ?H False 0 ?k @ [w]"])
        (simp_all add: s2 s1)
  next
    case none
    then have b: "b = []" using ok by (simp add: segment_ok_def p)
    have "carries_segment p (header_words ?H True 0 ?k @ [] :: ('w word, 'k word) net_axis list)"
      by (rule carries_narrow [OF W ok, where rest = "[]" and h = "ph_header (hb_header s)"]) (use none in \<open>auto simp: p\<close>)
    then show ?thesis using none b k4 run [of 0] st unfolding p
      by (intro exI [of _ "0 + (?k + 1)"] conjI hb_holdsI [OF _ _ _ _ h [unfolded p], where ws = "header_words ?H True 0 ?k"])
        (simp_all add: s2 s1 hb_next_def)
  qed
qed

lemma hb_one_wide:
  fixes s :: "('w::len word, 'k::len word) headerBuilder"
  assumes W: "LENGTH('w) = 512" and h: "hb_holds (p # ps) out s" and ok: "segment_ok p"
  shows "\<exists>n \<le> 6 + length (snd (snd p)). hb_holds ps (out @ [p]) ((hb_call mss junk ^^ n) s)"
proof -
  obtain m t b where p: "p = (m, t, b)" by (metis prod_cases3)
  let ?q = "concat (map (\<lambda>p. snd (snd p)) ps)" and ?H = "meta_header m t (ph_header (hb_header s))"
  have st: "hb_state s = PH_META" "hb_meta s = m # map fst ps" "hb_tuple s = t # map (\<lambda>p. fst (snd p)) ps" "hb_dataIn s = b @ ?q"
    using h by (simp_all add: hb_holds_def p)
  define s1 where "s1 = hb_call mss junk s"
  have s1: "s1 = s\<lparr>hb_meta := map fst ps, hb_tuple := map (\<lambda>p. fst (snd p)) ps, hb_win_shift := tm_win_shift m,
      hb_header := (clear_header (hb_header s))\<lparr>ph_header := ?H\<rparr>,
      hb_hasBody := has_body m, hb_isSYN := tm_syn m, hb_state := if has_body m then PH_PARTIAL_HEADER else PH_HEADER\<rparr>"
    using st W by (simp add: s1_def pseudoHeaderConstructionNew_def has_body_def clear_header_def Let_def)
  have c: "consumeWord w (hb_header s1) = (set_range 0 256 (get_range 0 256 ?H :: 256 word) w, 0, (hb_header s1)\<lparr>ph_idx := 1\<rparr>)" for w :: "'w word"
    using W by (simp add: consumeWord_def s1 clear_header_def Let_def)
  have run: "(hb_call mss junk ^^ (n + 2)) s = (hb_call mss junk ^^ n) (hb_call mss junk s1)" for n
    unfolding s1_def by (simp add: funpow_add numeral_2_eq_2 funpow_swap1)
  show ?thesis
  proof (cases "has_body m")
    case True
    then have mb: "marked b" using ok by (simp add: segment_ok_def p)
    then obtain w vs where b: "b = w # vs" by (cases b) auto
    let ?v = "w\<lparr>na_data := set_range 0 256 (get_range 0 256 ?H :: 256 word) (na_data w)\<rparr>"
    have s2: "hb_call mss junk s1 = s1\<lparr>hb_dataIn := vs @ ?q, hb_header := (hb_header s1)\<lparr>ph_idx := 1\<rparr>,
        hb_dataOut := hb_dataOut s @ [?v], hb_state := if na_last w then PH_META else PH_BODY\<rparr>"
      using True st b c [of "na_data w"] by (simp add: pseudoHeaderConstructionNew_def s1)
    have "(hb_call mss junk ^^ length vs) (hb_call mss junk s1)
        = (hb_call mss junk s1)\<lparr>hb_dataIn := ?q, hb_dataOut := hb_dataOut s @ ?v # vs, hb_state := PH_META\<rparr>"
    proof (cases "vs = []")
      case True
      then show ?thesis using mb b by (simp add: s2)
    next
      case False
      then have "marked vs" using mb b by simp
      then show ?thesis using hb_body [of vs "hb_call mss junk s1" ?q mss junk] False mb b by (simp add: s2)
    qed
    moreover have "carries_segment p (?v # vs)"
    proof (rule carries_wide [OF W, where h = "ph_header (hb_header s)" and w = w])
      show "marked (?v # vs)" using mb b by simp
      show "bit (na_data ?v) n = bit (meta_header (fst p) (fst (snd p)) (ph_header (hb_header s))) n" if "n < 256" for n
        using that W by (simp add: p bit_ranges)
      show "snd (snd p) = w # vs \<and> na_keep ?v = na_keep w \<and> drop_bit 256 (na_data ?v) = drop_bit 256 (na_data w)"
        using b by (auto simp: p intro!: bit_word_eqI simp: bit_simps bit_ranges dest: bit_imp_le_length)
    qed
    moreover obtain N where "N \<le> 6 + length b" "(hb_call mss junk ^^ N) s = (hb_call mss junk ^^ length vs) (hb_call mss junk s1)"
      by (rule that [of "length vs + 2"]) (simp add: b, rule run)
    ultimately show ?thesis unfolding p
      by (intro exI [of _ N] conjI hb_holdsI [OF _ _ _ _ h [unfolded p], where ws = "?v # vs"]) (simp_all only: s2, simp_all add: s1 p)
  next
    case False
    then have b: "b = []" using ok by (simp add: segment_ok_def p)
    have "\<exists>v. hb_call mss junk s1 = s1\<lparr>hb_header := (hb_header s1)\<lparr>ph_idx := 1\<rparr>, hb_dataOut := hb_dataOut s @ [v], hb_state := PH_META\<rparr>
        \<and> na_last v \<and> (\<forall>n < 256. bit (na_data v) n = bit ?H n)"
    proof -
      let ?d = "set_range 0 256 (get_range 0 256 ?H :: 256 word) junk"
      let ?v = "\<lparr>na_data = if tm_syn m then set_range 256 256 (ucast (syn_options mss (tm_win_shift m)) :: 256 word) ?d else ?d,
        na_keep = if tm_syn m then set_range 32 8 (syn_keep (tm_win_shift m)) (mask 32) else mask 32 :: 'k word, na_last = True\<rparr>"
      have "hb_call mss junk s1 = s1\<lparr>hb_header := (hb_header s1)\<lparr>ph_idx := 1\<rparr>, hb_dataOut := hb_dataOut s @ [?v], hb_state := PH_META\<rparr>"
        using False W c [of junk] by (simp add: pseudoHeaderConstructionNew_def hb_header_word_def s1 Let_def)
      moreover have "bit (na_data ?v) n = bit ?H n" if "n < 256" for n using that W by (simp add: bit_ranges)
      ultimately show ?thesis by (intro exI [of _ ?v]) simp
    qed
    then obtain v where v: "hb_call mss junk s1 = s1\<lparr>hb_header := (hb_header s1)\<lparr>ph_idx := 1\<rparr>, hb_dataOut := hb_dataOut s @ [v], hb_state := PH_META\<rparr>"
      "na_last v" "\<forall>n < 256. bit (na_data v) n = bit ?H n" by blast
    have "carries_segment p [v]"
      by (rule carries_wide [OF W, where h = "ph_header (hb_header s)"]) (use v False in \<open>auto simp: p\<close>)
    moreover obtain N where "N \<le> 6 + length b" "(hb_call mss junk ^^ N) s = hb_call mss junk s1"
      by (rule that [of "0 + 2"]) (simp, simp only: run funpow_0)
    ultimately show ?thesis using b st unfolding p
      by (intro exI [of _ N] conjI hb_holdsI [OF _ _ _ _ h [unfolded p], where ws = "[v]"]) (simp_all only: v(1), simp_all add: s1 p)
  qed
qed

interpretation hb: packet_machine "pseudoHeaderConstructionNew mss junk" hb_holds segment_ok "\<lambda>p. [p]" "\<lambda>p. 6 + length (snd (snd p))"
  by unfold_locales (metis hb_one_narrow hb_one_wide segment_ok_def)

subsection \<open>From the transmit engine to the receive engine\<close>

text \<open>What the receiver is to read: the length without the options.\<close>

definition received_meta :: "u4 \<Rightarrow> tx_engine_meta \<Rightarrow> rxEngineMetaData" where
  "received_meta junk m = \<lparr>me_seqNumb = tm_seqNumb m, me_ackNumb = tm_ackNumb m, me_winSize = tm_window_size m, me_winScale = junk,
     me_length = (if tm_syn m then tm_length m - (if tm_win_shift m \<noteq> 0 then 8 else 4) else tm_length m),
     me_ack = tm_ack m, me_rst = tm_rst m, me_syn = tm_syn m, me_fin = tm_fin m, me_dataOffset = meta_offset m\<rparr>"

lemma received_header:
  "tcp_meta junk (meta_header m t h) = received_meta junk m" "tcp_tuple (meta_header m t h) = t"
  "tcp_getDstPort (meta_header m t h) = dstPort t"
  unfolding meta_header_def tcp_meta_def tcp_tuple_def tcp_header_fields received_meta_def by (simp_all add: meta_offset_def)

definition hb_start :: "('w, 'k) segment list \<Rightarrow> (256 word) packetHeader \<Rightarrow> ('w, 'k) headerBuilder" where
  "hb_start ps h = \<lparr>hb_meta = map fst ps, hb_tuple = map (\<lambda>p. fst (snd p)) ps, hb_dataIn = concat (map (\<lambda>p. snd (snd p)) ps), hb_dataOut = [],
     hb_state = PH_META, hb_header = h, hb_hasBody = False, hb_isSYN = False, hb_win_shift = 0\<rparr>"

text \<open>C12. Segments arrive as they are sent, at all widths of the network stack: whatever sequence of segments, with or without payload, \<open>pseudoHeaderConstructionNew\<close>
  writes headers for, its output is one packet per segment, and \<open>processPseudoHeader\<close> reads the same numbers, window, flags, addresses, ports and length from
  it; the payload follows the header unchanged.\<close>

theorem segments_arrive_as_sent:
  fixes ps :: "('w::len word, 'k::len word) segment list"
  assumes "list_all segment_ok ps"
  shows "\<exists>n packets. hb_dataOut ((pseudoHeaderConstructionNew mss junk ^^ n) (hb_start ps h)) = concat packets
    \<and> list_all2 carries_segment ps packets
    \<and> (\<exists>k. let r = (processPseudoHeader scale ^^ k) (tp_start (map (Pair True) packets) raw)
        in tc_data r = [] \<and> tc_metaDataFifoOut r = map (\<lambda>p. received_meta scale (fst p)) ps
          \<and> tc_tupleFifoOut r = map (\<lambda>p. fst (snd p)) ps \<and> tc_portTableOut r = map (\<lambda>p. dstPort (fst (snd p))) ps)"
proof -
  have "hb_holds ps [] (hb_start ps h)" by (simp add: hb_holds_def hb_start_def)
  from hb.all_packets [OF this assms, of mss junk] obtain n where
    "hb_holds [] ps ((pseudoHeaderConstructionNew mss junk ^^ n) (hb_start ps h))" by (auto simp: concat_map_singleton)
  then obtain packets where out: "hb_dataOut ((pseudoHeaderConstructionNew mss junk ^^ n) (hb_start ps h)) = concat packets"
    and rel: "list_all2 carries_segment ps packets" by (auto simp: hb_holds_def)
  have "list_all tp_ok (map (Pair True) packets)"
    using rel by (induction rule: list_all2_induct) (simp_all add: tp_ok_def carries_segment_def)
  from headers_parsed [OF this, of scale raw] obtain k where
    "tp_holds scale [] (filter fst (map (Pair True) packets)) ((processPseudoHeader scale ^^ k) (tp_start (map (Pair True) packets) raw))" by blast
  moreover have "filter fst (map (Pair True) packets) = map (Pair True) packets" by (induction packets) simp_all
  moreover have "map (\<lambda>x. tcp_meta scale (tcp_raw x)) packets = map (\<lambda>p. received_meta scale (fst p)) ps
      \<and> map (\<lambda>x. tcp_tuple (tcp_raw x)) packets = map (\<lambda>p. fst (snd p)) ps
      \<and> map (\<lambda>x. tcp_getDstPort (tcp_raw x)) packets = map (\<lambda>p. dstPort (fst (snd p))) ps"
    using rel by (induction rule: list_all2_induct) (auto simp: carries_segment_def received_header)
  ultimately show ?thesis using out rel
    by (intro exI [of _ n] exI [of _ packets] conjI exI [of _ k]) (simp_all add: tp_holds_def Let_def comp_def)
qed

definition some_segments :: "(512 word, 64 word) segment list" where
  "some_segments =
     [(\<lparr>tm_seqNumb = 1000, tm_ackNumb = 2000, tm_window_size = 3000, tm_win_shift = 0, tm_length = 2, tm_ack = True, tm_rst = False,
        tm_syn = False, tm_fin = False\<rparr>, \<lparr>srcIp = 1, dstIp = 2, srcPort = 3, dstPort = 4\<rparr>,
       [\<lparr>na_data = push_bit 256 0x0201, na_keep = mask 34, na_last = True\<rparr>]),
      (\<lparr>tm_seqNumb = 1002, tm_ackNumb = 2000, tm_window_size = 3000, tm_win_shift = 0, tm_length = 0, tm_ack = True, tm_rst = False,
        tm_syn = False, tm_fin = True\<rparr>, \<lparr>srcIp = 1, dstIp = 2, srcPort = 3, dstPort = 4\<rparr>, [])]"

theorem segments_arrive_as_sent_witness:
  "\<exists>n packets k. hb_dataOut ((pseudoHeaderConstructionNew 1460 0 ^^ n) (hb_start some_segments \<lparr>ph_ready = False, ph_idx = 0, ph_header = 0\<rparr>)) = concat packets
     \<and> tc_metaDataFifoOut ((processPseudoHeader 0 ^^ k) (tp_start (map (Pair True) packets) 0)) = map (\<lambda>p. received_meta 0 (fst p)) some_segments"
proof -
  have "list_all segment_ok some_segments" by (simp add: some_segments_def segment_ok_def has_body_def)
  from segments_arrive_as_sent [OF this, where mss = 1460 and junk = 0 and h = "\<lparr>ph_ready = False, ph_idx = 0, ph_header = 0\<rparr>" and scale = 0 and raw = 0]
  show ?thesis unfolding Let_def by (elim exE conjE) (intro exI conjI, assumption+)
qed

end
