(* ===== verification/Toe_App.thy ===== *)
theory Toe_App
  imports Toe_Tx Toe_Rx_Memory
begin

text \<open>
  The interfaces between the TCP engine and the application (\<^verbatim>\<open>toe/tx_app_interface\<close>, \<^verbatim>\<open>toe/tx_app_stream_if\<close>,
  \<^verbatim>\<open>toe/tx_app_if\<close>, \<^verbatim>\<open>toe/rx_app_stream_if\<close>, \<^verbatim>\<open>toe/rx_app_if\<close>): requests to send are checked against the state of the
  connection and the window, the data is written to the transmit buffer; connections are opened and closed;
  received data is read; ports are listened to.
\<close>

unbundle bit_operations_syntax

subsection \<open>Types\<close>

record ipTuple =
  it_ip_address :: u32
  it_ip_port :: u16

record appTxMeta =
  am_sessionID :: u16
  am_length :: u16

record appTxRsp =
  as_sessionID :: u16
  as_length :: u16
  as_remaining_space :: u30
  as_error :: u2

record appReadRequest =
  rd_sessionID :: u16
  rd_length :: u16

definition NO_ERROR :: u2 where "NO_ERROR = 0"
definition ERROR_NOCONNCECTION :: u2 where "ERROR_NOCONNCECTION = 1"
definition ERROR_NOSPACE :: u2 where "ERROR_NOSPACE = 2"

record txAppTxSarQuery =
  aq_sessionID :: u16
  aq_mempt :: u18
  aq_write :: bool

record txAppTxSarReply =
  ay_sessionID :: u16
  ay_ackd :: u18
  ay_mempt :: u18
  ay_min_window :: u18

record txAppTableEntry =
  at_ackd :: u18
  at_mempt :: u18
  at_min_window :: u18

definition mk_event_data :: "eventType \<Rightarrow> u16 \<Rightarrow> u18 \<Rightarrow> u16 \<Rightarrow> event" where
  "mk_event_data t i a n = \<lparr>ev_type = t, ev_sessionID = i, ev_address = a, ev_length = n, ev_rt_count = 0\<rparr>"

subsection \<open>Requests to send\<close>

record tasiLoader =
  tl_reqMeta :: "appTxMeta stream"
  tl_state_rsp :: "sessionState stream"
  tl_txSar_rsp :: "txAppTxSarReply stream"
  tl_dataRsp :: "appTxRsp stream"
  tl_state_req :: "u16 stream"
  tl_txSar_req :: "txAppTxSarQuery stream"
  tl_pushCmd :: "mmCmd stream"
  tl_setEvent :: "event stream"
  tai_readMeta :: bool
  tasi_writeMeta :: appTxMeta

definition max_write_length :: "txAppTxSarReply \<Rightarrow> u18" where
  "max_write_length r = ay_ackd r - ay_mempt r - 1"

definition app_usable_window :: "txAppTxSarReply \<Rightarrow> u18" where
  "app_usable_window r =
     (let usedLength = ay_mempt r - ay_ackd r
      in if usedLength < ay_min_window r then ay_min_window r - usedLength else 0)"

definition tl_answer :: "sessionState \<Rightarrow> txAppTxSarReply \<Rightarrow> tasiLoader \<Rightarrow> tasiLoader" where
  "tl_answer state r s =
     (let i = am_sessionID (tasi_writeMeta s); len = am_length (tasi_writeMeta s);
          answer = (\<lambda>space err. \<lparr>as_sessionID = i, as_length = len, as_remaining_space = ucast (space :: u18), as_error = err\<rparr>)
      in if state \<noteq> ESTABLISHED
         then s\<lparr>tl_dataRsp := tl_dataRsp s @ [answer (max_write_length r) ERROR_NOCONNCECTION]\<rparr>
         else if unat (max_write_length r) < unat len \<or> unat (app_usable_window r) < unat len
         then s\<lparr>tl_dataRsp := tl_dataRsp s @ [answer (app_usable_window r) ERROR_NOSPACE]\<rparr>
         else s\<lparr>tl_pushCmd := tl_pushCmd s @ [mk_mmCmd (push_bit 18 (take_bit 12 (ucast i)) OR ucast (ay_mempt r)) len],
                tl_dataRsp := tl_dataRsp s @ [answer (max_write_length r) NO_ERROR],
                tl_setEvent := tl_setEvent s @ [mk_event_data TX i (ay_mempt r) len],
                tl_txSar_req := tl_txSar_req s @ [\<lparr>aq_sessionID = i, aq_mempt = ay_mempt r + ucast len, aq_write = True\<rparr>]\<rparr>)"

definition tasi_metaLoader :: "tasiLoader \<Rightarrow> tasiLoader" where
  "tasi_metaLoader s =
     (if \<not> tai_readMeta s
      then case tl_reqMeta s of
        [] \<Rightarrow> s
      | m # q \<Rightarrow>
         s\<lparr>tl_reqMeta := q, tasi_writeMeta := m, tl_state_req := tl_state_req s @ [am_sessionID m],
           tl_txSar_req := tl_txSar_req s @ [\<lparr>aq_sessionID = am_sessionID m, aq_mempt = 0, aq_write = False\<rparr>], tai_readMeta := True\<rparr>
      else case (tl_state_rsp s, tl_txSar_rsp s) of
        (st # sts, r # rs) \<Rightarrow> tl_answer st r (s\<lparr>tl_state_rsp := sts, tl_txSar_rsp := rs, tai_readMeta := False\<rparr>)
      | _ \<Rightarrow> s)"

subsection \<open>Writing the transmit buffer\<close>

datatype pushState = PP_IDLE | PP_IMPROVE_TIMING | PP_CUT_FIRST | PP_ALIGN_SECOND | PP_FWD_ALIGNED | PP_RESIDUE

record ('w, 'k) pkgPusher =
  pp_cmdIn :: "mmCmd stream"
  pp_dataIn :: "('w, 'k) net_axis stream"
  pp_writeCmd :: "mmCmd stream"
  pp_writeData :: "('w, 'k) net_axis stream"
  pp_state :: pushState
  pp_cmd :: mmCmd
  pp_remainingLength :: u18
  pp_lengthFirstPkg :: u18
  pp_offset :: u8
  pp_prevWord :: "('w, 'k) net_axis"

definition pp_improve_timing :: "('w::len word, 'k::len word) pkgPusher \<Rightarrow> ('w word, 'k word) pkgPusher" where
  "pp_improve_timing s =
     (let cmd = pp_cmd s in
      if unat (ucast (mc_saddr cmd) :: u18) + unat (mc_bbt cmd) > BUFFER_SIZE then
        (let first = ucast (of_nat BUFFER_SIZE - mc_saddr cmd) :: u18
         in s\<lparr>pp_lengthFirstPkg := first, pp_remainingLength := first,
              pp_offset := get_range 0 (DATA_KEEP_BITS (LENGTH('k))) first,
              pp_writeCmd := pp_writeCmd s @ [mk_mmCmd (mc_saddr cmd) (ucast first)], pp_state := PP_CUT_FIRST\<rparr>)
      else s\<lparr>pp_writeCmd := pp_writeCmd s @ [cmd], pp_state := PP_FWD_ALIGNED\<rparr>)"

definition pp_cut_first :: "('w::len word, 'k::len word) net_axis \<Rightarrow> ('w word, 'k word) pkgPusher \<Rightarrow> ('w word, 'k word) pkgPusher" where
  "pp_cut_first w s =
     (let r = pp_remainingLength s; cmd = second_cmd (pp_lengthFirstPkg s) (pp_cmd s)
      in if unat r > LENGTH('k) then
           s\<lparr>pp_remainingLength := r - of_nat (LENGTH('k)), pp_writeData := pp_writeData s @ [w]\<rparr>
         else if unat r = LENGTH('k) then
           s\<lparr>pp_cmd := cmd, pp_writeCmd := pp_writeCmd s @ [cmd], pp_state := PP_FWD_ALIGNED,
             pp_writeData := pp_writeData s @ [w\<lparr>na_last := True\<rparr>]\<rparr>
         else
           s\<lparr>pp_cmd := cmd, pp_writeCmd := pp_writeCmd s @ [cmd], pp_state := if na_last w then PP_RESIDUE else PP_ALIGN_SECOND,
             pp_writeData := pp_writeData s @ [w\<lparr>na_keep := ucast (lenToKeep (ucast r)), na_last := True\<rparr>]\<rparr>)"

text \<open>The word the last one is aligned with is a local variable without a value: \<open>emptyWord\<close> is an argument.\<close>

definition tasi_pkg_pusher ::
  "('w::len word, 'k::len word) net_axis \<Rightarrow> ('w word, 'k word) pkgPusher \<Rightarrow> ('w word, 'k word) pkgPusher" where
  "tasi_pkg_pusher emptyWord s =
     (let offs = unat (pp_offset s) in
      case pp_state s of
        PP_IDLE \<Rightarrow>
          (case pp_cmdIn s of [] \<Rightarrow> s | c # q \<Rightarrow> s\<lparr>pp_cmdIn := q, pp_cmd := c, pp_state := PP_IMPROVE_TIMING\<rparr>)
      | PP_IMPROVE_TIMING \<Rightarrow> pp_improve_timing s
      | PP_CUT_FIRST \<Rightarrow>
          (case pp_dataIn s of [] \<Rightarrow> s | w # q \<Rightarrow> pp_cut_first w (s\<lparr>pp_dataIn := q, pp_prevWord := w\<rparr>))
      | PP_FWD_ALIGNED \<Rightarrow>
          (case pp_dataIn s of
             [] \<Rightarrow> s
           | w # q \<Rightarrow> s\<lparr>pp_dataIn := q, pp_writeData := pp_writeData s @ [w], pp_state := if na_last w then PP_IDLE else PP_FWD_ALIGNED\<rparr>)
      | PP_ALIGN_SECOND \<Rightarrow>
          (case pp_dataIn s of
             [] \<Rightarrow> s
           | w # q \<Rightarrow>
              (let lst = (\<not> bit (na_keep w) offs)
               in s\<lparr>pp_dataIn := q, pp_writeData := pp_writeData s @ [alignWords (ucast (pp_offset s)) (pp_prevWord s) w lst],
                    pp_prevWord := w, pp_state := if \<not> na_last w then PP_ALIGN_SECOND else if lst then PP_IDLE else PP_RESIDUE\<rparr>))
      | PP_RESIDUE \<Rightarrow>
          s\<lparr>pp_writeData := pp_writeData s @ [alignWords (ucast (pp_offset s)) (pp_prevWord s) emptyWord True], pp_state := PP_IDLE\<rparr>)"

subsection \<open>Events and write status\<close>

record txEvMerger =
  tv_appIn :: "event stream"
  tv_streamIn :: "event stream"
  tv_cache :: "event stream"
  tv_out :: "event stream"

definition txEventMerger :: "txEvMerger \<Rightarrow> txEvMerger" where
  "txEventMerger s =
     (case tv_appIn s of
        e # q \<Rightarrow> s\<lparr>tv_appIn := q, tv_out := tv_out s @ [e]\<rparr>
      | [] \<Rightarrow>
       (case tv_streamIn s of
          [] \<Rightarrow> s
        | e # q \<Rightarrow> s\<lparr>tv_streamIn := q, tv_out := tv_out s @ [e], tv_cache := tv_cache s @ (if ev_type e = TX then [e] else [])\<rparr>))"

datatype tashState = READ_EV | READ_STATUS_1 | READ_STATUS_2

record statusHandler =
  sh_status :: "mmStatus stream"
  sh_cache :: "event stream"
  sh_app_push :: "txAppTxSarPush stream"
  tash_state :: tashState
  tash_ev :: event

definition tash_push :: "statusHandler \<Rightarrow> statusHandler" where
  "tash_push s =
     s\<lparr>sh_app_push := sh_app_push s
         @ [\<lparr>tp_sessionID = ev_sessionID (tash_ev s), tp_app = ev_address (tash_ev s) + ucast (ev_length (tash_ev s))\<rparr>],
       tash_state := READ_EV\<rparr>"

definition txAppStatusHandler :: "statusHandler \<Rightarrow> statusHandler" where
  "txAppStatusHandler s =
     (case tash_state s of
        READ_EV \<Rightarrow>
         (case sh_cache s of
            [] \<Rightarrow> s
          | e # q \<Rightarrow> s\<lparr>sh_cache := q, tash_ev := e, tash_state := if ev_type e = TX then READ_STATUS_1 else READ_EV\<rparr>)
      | READ_STATUS_1 \<Rightarrow>
         (case sh_status s of
            [] \<Rightarrow> s
          | x # q \<Rightarrow>
             (let s1 = s\<lparr>sh_status := q\<rparr> in
              if \<not> ms_okay x then s1
              else if unat (ev_address (tash_ev s)) + unat (ev_length (tash_ev s)) > BUFFER_SIZE then s1\<lparr>tash_state := READ_STATUS_2\<rparr>
              else tash_push s1))
      | READ_STATUS_2 \<Rightarrow>
         (case sh_status s of
            [] \<Rightarrow> s
          | x # q \<Rightarrow> if ms_okay x then tash_push (s\<lparr>sh_status := q\<rparr>) else s\<lparr>sh_status := q\<rparr>))"

subsection \<open>The table of the application side\<close>

record appTable =
  ta_ack_push :: "txSarAckPush stream"
  ta_upd_req :: "txAppTxSarQuery stream"
  ta_upd_rsp :: "txAppTxSarReply stream"
  app_table :: "u16 \<Rightarrow> txAppTableEntry"

definition ta_reply :: "u16 \<Rightarrow> txAppTableEntry \<Rightarrow> txAppTxSarReply" where
  "ta_reply i e = \<lparr>ay_sessionID = i, ay_ackd = at_ackd e, ay_mempt = at_mempt e, ay_min_window = at_min_window e\<rparr>"

definition tx_app_table :: "appTable \<Rightarrow> appTable" where
  "tx_app_table s =
     (case ta_ack_push s of
        p # q \<Rightarrow>
         (let i = ap_sessionID p; e = app_table s i
          in s\<lparr>ta_ack_push := q, app_table := (app_table s)(i :=
                if ap_init p then \<lparr>at_ackd = ap_ackd p - 1, at_mempt = ap_ackd p, at_min_window = ap_min_window p\<rparr>
                else e\<lparr>at_ackd := ap_ackd p, at_min_window := ap_min_window p\<rparr>)\<rparr>)
      | [] \<Rightarrow>
       (case ta_upd_req s of
          [] \<Rightarrow> s
        | u # q \<Rightarrow>
           (let i = aq_sessionID u
            in if aq_write u
               then s\<lparr>ta_upd_req := q, app_table := (app_table s)(i := (app_table s i)\<lparr>at_mempt := aq_mempt u\<rparr>)\<rparr>
               else s\<lparr>ta_upd_req := q, ta_upd_rsp := ta_upd_rsp s @ [ta_reply i (app_table s i)]\<rparr>)))"

subsection \<open>Opening and closing connections\<close>

record txAppIf =
  ta_openReq :: "ipTuple stream"
  ta_closeReq :: "u16 stream"
  ta_sLookup_rsp :: "sessionLookupReply stream"
  ta_port_rsp :: "u16 stream"
  ta_state_rsp :: "sessionState stream"
  ta_established :: "openStatus stream"
  ta_openRsp :: "openStatus stream"
  ta_sLookup_req :: "fourTuple stream"
  ta_state_req :: "stateQuery stream"
  ta_setEvent :: "event stream"
  ta_rtTimer :: "openStatus stream"
  tai_closing :: bool
  tai_closeSessionID :: u16

definition tai_open :: "u32 \<Rightarrow> txAppIf \<Rightarrow> txAppIf" where
  "tai_open myIp s =
     (case (ta_openReq s, ta_port_rsp s) of
        (a # as, p # ps) \<Rightarrow>
         s\<lparr>ta_openReq := as, ta_port_rsp := ps,
           ta_sLookup_req := ta_sLookup_req s
             @ [\<lparr>srcIp = myIp, dstIp = reverse (it_ip_address a), srcPort = reverse p, dstPort = reverse (it_ip_port a)\<rparr>]\<rparr>
      | _ \<Rightarrow> s)"

definition tai_idle :: "txAppIf \<Rightarrow> txAppIf" where
  "tai_idle s =
     (case ta_sLookup_rsp s of
        r # q \<Rightarrow>
         (let s1 = s\<lparr>ta_sLookup_rsp := q\<rparr>; i = slr_sessionID r in
          if slr_hit r
          then s1\<lparr>ta_setEvent := ta_setEvent s @ [mk_event SYN i 0], ta_state_req := ta_state_req s @ [mk_stateWrite i SYN_SENT]\<rparr>
          else s1\<lparr>ta_openRsp := ta_openRsp s @ [mk_openStatus 0 0 0 0]\<rparr>)
      | [] \<Rightarrow>
       (case ta_established s of
          e # q \<Rightarrow> s\<lparr>ta_established := q, ta_openRsp := ta_openRsp s @ [e]\<rparr>
        | [] \<Rightarrow>
         (case ta_rtTimer s of
            e # q \<Rightarrow> s\<lparr>ta_rtTimer := q, ta_openRsp := ta_openRsp s @ [e]\<rparr>
          | [] \<Rightarrow>
           (case ta_closeReq s of
              [] \<Rightarrow> s
            | i # q \<Rightarrow> s\<lparr>ta_closeReq := q, tai_closeSessionID := i, ta_state_req := ta_state_req s @ [mk_stateQuery i], tai_closing := True\<rparr>))))"

definition tai_close :: "sessionState \<Rightarrow> txAppIf \<Rightarrow> txAppIf" where
  "tai_close state s =
     (let i = tai_closeSessionID s in
      if state = ESTABLISHED \<or> state = FIN_WAIT_2 \<or> state = FIN_WAIT_1
      then s\<lparr>ta_state_req := ta_state_req s @ [mk_stateWrite i FIN_WAIT_1], ta_setEvent := ta_setEvent s @ [mk_event FIN i 0], tai_closing := False\<rparr>
      else s\<lparr>ta_state_req := ta_state_req s @ [mk_stateWrite i state], tai_closing := False\<rparr>)"

definition tx_app_if :: "u32 \<Rightarrow> txAppIf \<Rightarrow> txAppIf" where
  "tx_app_if myIp s0 =
     (let s = tai_open myIp s0 in
      if \<not> tai_closing s then tai_idle s
      else case ta_state_rsp s of [] \<Rightarrow> s | x # q \<Rightarrow> tai_close x (s\<lparr>ta_state_rsp := q\<rparr>))"

subsection \<open>Reading received data, listening\<close>

record rxAppStream =
  ra_dataReq :: "appReadRequest stream"
  ra_rxSar_rsp :: "rxSarAppd stream"
  ra_rspMeta :: "u16 stream"
  ra_rxSar_req :: "rxSarAppd stream"
  ra_readCmd :: "mmCmd stream"
  ra_bypassCmd :: "u1 stream"
  rasi_readLength :: u16
  rasi_fsmState :: bool

definition rx_app_stream_if :: "bool \<Rightarrow> rxAppStream \<Rightarrow> rxAppStream" where
  "rx_app_stream_if bypass s =
     (if \<not> rasi_fsmState s
      then case ra_dataReq s of
        [] \<Rightarrow> s
      | r # q \<Rightarrow>
         (if rd_length r \<noteq> 0
          then s\<lparr>ra_dataReq := q, ra_rxSar_req := ra_rxSar_req s @ [\<lparr>ra_sessionID = rd_sessionID r, ra_appd = 0, ra_write = False\<rparr>],
                 rasi_readLength := rd_length r, rasi_fsmState := True\<rparr>
          else s\<lparr>ra_dataReq := q\<rparr>)
      else case ra_rxSar_rsp s of
        [] \<Rightarrow> s
      | x # q \<Rightarrow>
         (let i = ra_sessionID x; s1 = s\<lparr>ra_rxSar_rsp := q, ra_rspMeta := ra_rspMeta s @ [i], rasi_fsmState := False,
                ra_rxSar_req := ra_rxSar_req s @ [\<lparr>ra_sessionID = i, ra_appd = ra_appd x + ucast (rasi_readLength s), ra_write = True\<rparr>]\<rparr>
          in if bypass then s1\<lparr>ra_bypassCmd := ra_bypassCmd s @ [1]\<rparr>
             else s1\<lparr>ra_readCmd := ra_readCmd s
                  @ [mk_mmCmd (push_bit 18 (take_bit 12 (ucast i)) OR ucast (ra_appd x)) (rasi_readLength s)]\<rparr>))"

record rxAppIf =
  rl_listenReq :: "u16 stream"
  rl_listen_rsp :: "bool stream"
  rl_listenRsp :: "bool stream"
  rl_listen_req :: "u16 stream"
  rai_wait :: bool

definition rx_app_if :: "rxAppIf \<Rightarrow> rxAppIf" where
  "rx_app_if s =
     (if rl_listenReq s \<noteq> [] \<and> \<not> rai_wait s
      then s\<lparr>rl_listenReq := tl (rl_listenReq s), rl_listen_req := rl_listen_req s @ [hd (rl_listenReq s)], rai_wait := True\<rparr>
      else if rl_listen_rsp s \<noteq> [] \<and> rai_wait s
      then s\<lparr>rl_listen_rsp := tl (rl_listen_rsp s), rl_listenRsp := rl_listenRsp s @ [hd (rl_listen_rsp s)], rai_wait := False\<rparr>
      else s)"

end
