(* ===== verification/Toe_App_Proofs.thy ===== *)
theory Toe_App_Proofs
  imports Toe_App
begin

text \<open>
  The application interfaces do what they promise: a request to send is accepted exactly when it fits, the
  writer of the transmit buffer is the one of the receive engine, requests for the state of a connection are
  bracketed; and the transmit engine does not read back what was written when the buffer wraps.
\<close>

unbundle bit_operations_syntax

subsection \<open>Requests to send\<close>

text \<open>The bytes between the acknowledged one and the end of the data, modulo the size of the buffer.\<close>

definition in_flight :: "txAppTxSarReply \<Rightarrow> nat" where
  "in_flight r = unat (ay_mempt r - ay_ackd r)"

definition fits :: "u16 \<Rightarrow> txAppTxSarReply \<Rightarrow> bool" where
  "fits len r \<longleftrightarrow> len = 0 \<or> in_flight r + unat len < BUFFER_SIZE \<and> in_flight r + unat len \<le> unat (ay_min_window r)"

lemma unat_max_write: "unat (max_write_length r) = BUFFER_SIZE - 1 - in_flight r"
proof -
  have "max_write_length r = - 1 - (ay_mempt r - ay_ackd r)" by (simp add: max_write_length_def)
  moreover have "unat (- 1 :: u18) = BUFFER_SIZE - 1" by (simp add: BUFFER_SIZE_def unsigned_minus_1_eq_mask mask_eq_exp_minus_1)
  moreover have "unat (ay_mempt r - ay_ackd r) < BUFFER_SIZE"
    unfolding BUFFER_SIZE_def by (rule order_less_le_trans [OF unsigned_less]) simp
  ultimately show ?thesis by (simp add: in_flight_def unat_sub_if' del: minus_diff_eq)
qed

lemma unat_usable: "unat (app_usable_window r) = unat (ay_min_window r) - in_flight r"
  by (simp add: app_usable_window_def in_flight_def Let_def word_less_nat_alt unat_sub_if')

lemma fits_iff: "fits len r \<longleftrightarrow> \<not> (unat (max_write_length r) < unat len \<or> unat (app_usable_window r) < unat len)"
proof -
  have "in_flight r < BUFFER_SIZE"
    unfolding BUFFER_SIZE_def in_flight_def by (rule order_less_le_trans [OF unsigned_less]) simp
  moreover have "unat len = 0 \<longleftrightarrow> len = 0" by (rule unat_eq_zero)
  ultimately show ?thesis unfolding fits_def unat_max_write unat_usable by (cases "unat len = 0") auto
qed

text \<open>C26. A request to send is accepted exactly when the connection is established and the data fits both the
  buffer and the window of the peer beside the bytes in flight (or is empty). An accepted request has one command that writes the data
  behind the last byte, one event and one new end of data; a rejected one has none of these. Either way the application
  gets one answer, with the reason.\<close>

theorem send_requests_checked:
  assumes "tai_readMeta s" "tl_state_rsp s = st # sts" "tl_txSar_rsp s = r # rs"
  shows "let t = tasi_metaLoader s; i = am_sessionID (tasi_writeMeta s); len = am_length (tasi_writeMeta s);
      accept = (st = ESTABLISHED \<and> fits len r)
    in (\<exists>space. tl_dataRsp t = tl_dataRsp s @ [\<lparr>as_sessionID = i, as_length = len, as_remaining_space = space,
          as_error = (if st \<noteq> ESTABLISHED then ERROR_NOCONNCECTION else if fits len r then NO_ERROR else ERROR_NOSPACE)\<rparr>])
      \<and> tl_setEvent t = tl_setEvent s @ (if accept then [mk_event_data TX i (ay_mempt r) len] else [])
      \<and> map (\<lambda>c. (drop_bit 18 (mc_saddr c), mem_offset c, unat (mc_bbt c))) (tl_pushCmd t)
        = map (\<lambda>c. (drop_bit 18 (mc_saddr c), mem_offset c, unat (mc_bbt c))) (tl_pushCmd s)
          @ (if accept then [(take_bit 12 (ucast i), ay_mempt r, unat len)] else [])
      \<and> tl_txSar_req t = tl_txSar_req s
          @ (if accept then [\<lparr>aq_sessionID = i, aq_mempt = ay_mempt r + ucast len, aq_write = True\<rparr>] else [])
      \<and> \<not> tai_readMeta t"
proof -
  let ?i = "am_sessionID (tasi_writeMeta s)" and ?len = "am_length (tasi_writeMeta s)"
  have a: "drop_bit 18 (push_bit 18 (take_bit 12 (ucast ?i)) OR ucast (ay_mempt r) :: u32) = take_bit 12 (ucast ?i)"
    "ucast (push_bit 18 (take_bit 12 (ucast ?i)) OR ucast (ay_mempt r) :: u32) = ay_mempt r"
    by (rule bit_word_eqI; auto simp: bit_simps dest: bit_imp_le_length)+
  have "unat (ucast ?len :: u23) = unat ?len"
    by (simp add: unsigned_ucast_eq take_bit_nat_eq_self order_less_le_trans [OF unsigned_less])
  moreover have "tasi_metaLoader s = tl_answer st r (s\<lparr>tl_state_rsp := sts, tl_txSar_rsp := rs, tai_readMeta := False\<rparr>)"
    using assms by (simp add: tasi_metaLoader_def)
  ultimately show ?thesis using a fits_iff [of ?len r]
    by (simp add: tl_answer_def Let_def mk_mmCmd_def mem_offset_def)
qed

text \<open>500 bytes behind 200 in flight, in a window of 1000.\<close>

definition some_request :: tasiLoader where
  "some_request = \<lparr>tl_reqMeta = [], tl_state_rsp = [ESTABLISHED],
     tl_txSar_rsp = [\<lparr>ay_sessionID = 3, ay_ackd = 100, ay_mempt = 300, ay_min_window = 1000\<rparr>], tl_dataRsp = [], tl_state_req = [],
     tl_txSar_req = [], tl_pushCmd = [], tl_setEvent = [], tai_readMeta = True, tasi_writeMeta = \<lparr>am_sessionID = 3, am_length = 500\<rparr>\<rparr>"

theorem send_requests_checked_witness:
  "tl_setEvent (tasi_metaLoader some_request) = [mk_event_data TX 3 300 500]
   \<and> tl_txSar_req (tasi_metaLoader some_request) = [\<lparr>aq_sessionID = 3, aq_mempt = 800, aq_write = True\<rparr>]"
  using send_requests_checked [of some_request ESTABLISHED "[]" "\<lparr>ay_sessionID = 3, ay_ackd = 100, ay_mempt = 300, ay_min_window = 1000\<rparr>" "[]"]
  by (simp add: some_request_def fits_def in_flight_def BUFFER_SIZE_def Let_def)

subsection \<open>The writer of the transmit buffer\<close>

fun push_state :: "rxMemWrState \<Rightarrow> pushState" where
  "push_state MW_IDLE = PP_IDLE"
| "push_state MW_IDLE_REG = PP_IMPROVE_TIMING"
| "push_state MW_CUT_FIRST = PP_CUT_FIRST"
| "push_state MW_ALIGN_SECOND = PP_ALIGN_SECOND"
| "push_state MW_FWD_ALIGNED = PP_FWD_ALIGNED"
| "push_state MW_RESIDUE = PP_RESIDUE"

definition push_view :: "('w, 'k) rxMemWriter \<Rightarrow> ('w, 'k) pkgPusher" where
  "push_view s = \<lparr>pp_cmdIn = mw_cmdIn s, pp_dataIn = mw_dataIn s, pp_writeCmd = mw_cmdOut s, pp_writeData = mw_dataOut s,
     pp_state = push_state (mw_state s), pp_cmd = mw_cmd s, pp_remainingLength = mw_remainingLength s,
     pp_lengthFirstPkg = mw_lengthFirstPkg s, pp_offset = mw_offset s, pp_prevWord = mw_prevWord s\<rparr>"

definition narrow_offset :: "('w::len word, 'k::len word) rxMemWriter \<Rightarrow> bool" where
  "narrow_offset s \<longleftrightarrow> unat (mw_offset s) < 64"

lemma narrow_step:
  fixes s :: "('w::len word, 'k::len word) rxMemWriter"
  assumes "narrow_offset s" "LENGTH('k) \<in> {1, 2, 4, 8, 16, 32, 64}"
  shows "narrow_offset (rxEngMemWrite s)"
proof -
  have k: "ConstLog2 (LENGTH('k)) \<le> 6" using ConstLog2_widths [OF assms(2)] by simp
  have "unat (get_range 0 (ConstLog2 (LENGTH('k))) (x :: u18) :: u8) < 64" for x
  proof -
    have "unat (get_range 0 (ConstLog2 (LENGTH('k))) x :: u8) = unat x mod 2 ^ ConstLog2 (LENGTH('k))"
      using k by (simp add: unat_low_bits)
    also have "\<dots> < 2 ^ ConstLog2 (LENGTH('k))" by simp
    also have "\<dots> \<le> 2 ^ 6" using k by (intro power_increasing) simp_all
    finally show ?thesis by simp
  qed
  then show ?thesis using assms(1)
    by (auto simp: narrow_offset_def rxEngMemWrite_def mw_split_def mw_cut_first_def DATA_KEEP_BITS_def Let_def
        split: rxMemWrState.split list.split)
qed

lemma push_simulates:
  fixes s :: "('w::len word, 'k::len word) rxMemWriter"
  assumes "narrow_offset s"
  shows "push_view (rxEngMemWrite s) = tasi_pkg_pusher zero_word (push_view s)"
proof -
  have o: "unat (ucast (mw_offset s) :: 6 word) = unat (mw_offset s)"
    using assms by (simp add: narrow_offset_def unsigned_ucast_eq take_bit_nat_eq_self)
  show ?thesis
    by (cases "mw_state s"; cases "mw_dataIn s"; cases "mw_cmdIn s")
      (simp_all add: push_view_def rxEngMemWrite_def tasi_pkg_pusher_def mw_split_def pp_improve_timing_def mw_cut_first_def
        pp_cut_first_def alignWords_def o Let_def)
qed

lemma push_run:
  fixes ps :: "(mmCmd \<times> ('w::len word, 'k::len word) net_axis list) list"
  assumes "LENGTH('k) \<in> {1, 2, 4, 8, 16, 32, 64}"
  shows "(tasi_pkg_pusher zero_word ^^ n) (push_view (mw_start ps junk)) = push_view ((rxEngMemWrite ^^ n) (mw_start ps junk))"
proof -
  have "narrow_offset ((rxEngMemWrite ^^ n) (mw_start ps junk))" for n
  proof (induction n)
    case (Suc n)
    from narrow_step [OF this assms] show ?case by simp
  qed (simp add: narrow_offset_def mw_start_def)
  then show ?thesis by (induction n) (simp_all add: push_simulates)
qed

text \<open>C21. The writer of the transmit buffer is the writer of the receive engine: on the same commands and data, after
  any number of calls, at any width, it has written the same commands and words and is in the same state (when the
  word it aligns the last one with is empty; the code leaves it uninitialised).\<close>

theorem application_writer_equivalent:
  fixes ps :: "(mmCmd \<times> ('w::len word, 'k::len word) net_axis list) list"
  assumes "LENGTH('k) \<in> {1, 2, 4, 8, 16, 32, 64}"
  shows "(tasi_pkg_pusher zero_word ^^ n) (push_view (mw_start ps junk)) = push_view ((rxEngMemWrite ^^ n) (mw_start ps junk))"
  by (rule push_run [OF assms])

theorem application_writer_equivalent_witness:
  "(tasi_pkg_pusher zero_word ^^ 5) (push_view (mw_start [edge_segment] zero_word))
   = push_view ((rxEngMemWrite ^^ 5) (mw_start [edge_segment] zero_word))"
  by (rule application_writer_equivalent) simp

corollary application_data_written_in_buffer:
  fixes ps :: "(mmCmd \<times> ('w::len word, 'k::len word) net_axis list) list"
  assumes "list_all write_ok ps" and "LENGTH('k) \<in> {1, 2, 4, 8, 16, 32, 64}"
  shows "\<exists>n. let s = (tasi_pkg_pusher zero_word ^^ n) (push_view (mw_start ps junk)) in
    pp_writeCmd s = map fst (concat (map write_parts ps)) \<and> pp_writeData s = concat (map snd (concat (map write_parts ps)))"
proof -
  have "mw_holds ps [] (mw_start ps junk)" by (simp add: mw_holds_def mw_done_def mw_start_def)
  from mw.all_packets [OF this assms(1)] obtain n where
    n: "mw_holds [] (map write_parts ps) ((rxEngMemWrite ^^ n) (mw_start ps junk))" by (auto simp: concat_map_singleton)
  show ?thesis using n push_run [OF assms(2), of n ps junk] by (intro exI [of _ n]) (simp add: Let_def push_view_def mw_holds_def mw_done_def)
qed

subsection \<open>Reading back\<close>

text \<open>The commands \<open>txEngMemAccessBreakdown\<close> makes of a read, and the addresses a command touches.\<close>

definition breakdown_start :: "mmCmd \<Rightarrow> memBreakdown" where
  "breakdown_start c = \<lparr>mb_input = [c], mb_output = [], mb_stitcher = [], mb_second = False, mb_cmd = c, mb_lengthFirstAccess = 0\<rparr>"

definition cmd_addrs :: "mmCmd \<Rightarrow> u32 list" where
  "cmd_addrs c = map (\<lambda>i. mc_saddr c + of_nat i) [0 ..< unat (mc_bbt c)]"

definition wraps :: "mmCmd \<Rightarrow> bool" where
  "wraps c \<longleftrightarrow> BUFFER_SIZE < unat (mem_offset c) + unat (mc_bbt c)"

lemma breakdown_reads:
  "mb_output (txEngMemAccessBreakdown (txEngMemAccessBreakdown (breakdown_start c)))
   = (if wraps c then [mk_mmCmd (mc_saddr c) (ucast (ucast (2 ^ 18 - mc_saddr c) :: u18)),
        mk_mmCmd 0 (ucast (mc_bbt c - ucast (ucast (2 ^ 18 - mc_saddr c) :: u18)))] else [c])"
proof -
  have "unat (take_bit 18 (mc_saddr c)) = unat (mem_offset c)"
    by (simp add: mem_offset_def unsigned_take_bit_eq unsigned_ucast_eq)
  then show ?thesis by (simp add: txEngMemAccessBreakdown_def breakdown_start_def wraps_def BUFFER_SIZE_def Let_def)
qed

lemma buffer_start: "set_range 0 18 (0 :: u18) (x :: u32) = 0 \<longleftrightarrow> drop_bit 18 x = 0"
proof
  assume "set_range 0 18 (0 :: u18) x = 0"
  then have "drop_bit 18 (set_range 0 18 (0 :: u18) x) = 0" by simp
  then show "drop_bit 18 x = 0" by (simp only: set_low(2))
next
  assume a: "drop_bit 18 x = 0"
  have "(ucast (set_range 0 18 (0 :: u18) x) :: u18) = ucast (0 :: u32)" unfolding set_low(1) by simp
  moreover have "drop_bit 18 (set_range 0 18 (0 :: u18) x) = drop_bit 18 (0 :: u32)" unfolding set_low(2) a by simp
  ultimately show "set_range 0 18 (0 :: u18) x = 0" by (rule low_high_eqI)
qed

lemma same_addrs: "0 < k \<Longrightarrow> map (\<lambda>i. (0 :: u32) + of_nat i) [0 ..< k] = map (\<lambda>i. b + of_nat i) [0 ..< k] \<longleftrightarrow> b = 0"
  by (auto dest: bspec [of _ _ 0])

text \<open>C27. The transmit engine reads back what the application interface wrote exactly when the data does not
  wrap or belongs to session 0: the second half of a wrapped segment is written to the start of the buffer of its
  session, but a retransmission reads it from address 0, which is the buffer of session 0.\<close>

theorem wrapped_retransmission_reads_session_0:
  fixes ws :: "('w::len word, 'k::len word) net_axis list"
  assumes "unat (mc_bbt c) < 2 ^ 16"
  shows "concat (map cmd_addrs (mb_output (txEngMemAccessBreakdown (txEngMemAccessBreakdown (breakdown_start c)))))
      = concat (map (\<lambda>p. cmd_addrs (fst p)) (write_parts (c, ws)))
    \<longleftrightarrow> \<not> wraps c \<or> drop_bit 18 (mc_saddr c) = 0"
proof (cases "wraps c")
  case False
  then show ?thesis unfolding breakdown_reads by (simp add: write_parts_def wraps_def)
next
  case True
  define F where "F = BUFFER_SIZE - unat (mem_offset c)"
  have o: "mem_offset c \<noteq> 0" using True assms by (auto simp: wraps_def BUFFER_SIZE_def)
  have F: "0 < F" "F < unat (mc_bbt c)"
    using True unsigned_less [of "mem_offset c", where ?'a = nat] by (simp_all add: F_def wraps_def BUFFER_SIZE_def)
  have "of_nat BUFFER_SIZE = (2 ^ 18 :: u32)" by (simp add: BUFFER_SIZE_def)
  then have fw: "unat (ucast (2 ^ 18 - mc_saddr c) :: u18) = F" using unat_first [OF o] by (simp add: F_def)
  then have f: "(ucast (2 ^ 18 - mc_saddr c) :: u18) = of_nat F" by (metis of_nat_unat ucast_id)
  have small: "unat (of_nat F :: u16) = F" "unat (of_nat F :: u18) = F" "unat (of_nat F :: u23) = F"
    using F assms by (simp_all add: unsigned_of_nat take_bit_nat_eq_self)
  have "take_bit 23 F = F" using F assms by (simp add: take_bit_nat_eq_self)
  then have len: "unat (mc_bbt c - ucast (of_nat F :: u18)) = unat (mc_bbt c) - F"
    using F small by (simp add: unat_sub_if' unsigned_ucast_eq)
  then have len': "unat (ucast (ucast (mc_bbt c - ucast (of_nat F :: u18)) :: u16) :: u23) = unat (mc_bbt c) - F"
    using assms F by (simp add: unsigned_ucast_eq unsigned_take_bit_eq take_bit_nat_eq_self)
  have first: "(ucast (of_nat F :: u18) :: u16) = of_nat F" 
    using small F assms by (simp add: word_unat_eq_iff unsigned_ucast_eq take_bit_nat_eq_self)
  have "concat (map cmd_addrs (mb_output (txEngMemAccessBreakdown (txEngMemAccessBreakdown (breakdown_start c)))))
      = cmd_addrs (mk_mmCmd (mc_saddr c) (of_nat F)) @ map (\<lambda>i. 0 + of_nat i) [0 ..< unat (mc_bbt c) - F]"
    unfolding breakdown_reads f using True first len' by (simp add: cmd_addrs_def mk_mmCmd_def)
  moreover have "concat (map (\<lambda>p. cmd_addrs (fst p)) (write_parts (c, ws)))
      = cmd_addrs (mk_mmCmd (mc_saddr c) (of_nat F))
        @ map (\<lambda>i. set_range 0 18 (0 :: u18) (mc_saddr c) + of_nat i) [0 ..< unat (mc_bbt c) - F]"
    using True len by (simp add: write_parts_def wraps_def F_def [symmetric] Let_def cmd_addrs_def second_cmd_def)
  ultimately show ?thesis using True F(2) same_addrs [of "unat (mc_bbt c) - F" "set_range 0 18 (0 :: u18) (mc_saddr c)"]
    by (simp add: buffer_start)
qed

theorem wrapped_retransmission_reads_session_0_witness:
  "concat (map cmd_addrs (mb_output (txEngMemAccessBreakdown (txEngMemAccessBreakdown (breakdown_start (mk_mmCmd 0x7FFFB 9))))))
   \<noteq> concat (map (\<lambda>p. cmd_addrs (fst p)) (write_parts (mk_mmCmd 0x7FFFB 9, snd edge_segment)))"
proof -
  have "wraps (mk_mmCmd 0x7FFFB 9)" by (simp add: wraps_def mk_mmCmd_def mem_offset_def BUFFER_SIZE_def)
  moreover have "drop_bit 18 (mc_saddr (mk_mmCmd 0x7FFFB 9)) \<noteq> 0" by (simp add: mk_mmCmd_def)
  moreover have "unat (mc_bbt (mk_mmCmd 0x7FFFB 9)) < 2 ^ 16" by (simp add: mk_mmCmd_def)
  ultimately show ?thesis using wrapped_retransmission_reads_session_0 [of "mk_mmCmd 0x7FFFB 9" "snd edge_segment"] by blast
qed

subsection \<open>Closing connections\<close>

text \<open>The requests to the state table of the application side, read in order: a read locks the entry, and the
  next request has to be the write that releases it. \<open>None\<close>: this was violated.\<close>

fun bracket :: "stateQuery \<Rightarrow> u16 option option \<Rightarrow> u16 option option" where
  "bracket q None = None"
| "bracket q (Some None) = (if sq_write q then Some None else Some (Some (sq_sessionID q)))"
| "bracket q (Some (Some i)) = (if sq_write q \<and> sq_sessionID q = i then Some None else None)"

datatype appIn = AppOpen ipTuple | AppClose u16 | AppSession sessionLookupReply | AppPort u16 | AppState sessionState
  | AppEstablished openStatus | AppTimer openStatus | TxAppIf u32

fun app_step :: "appIn \<Rightarrow> txAppIf \<Rightarrow> txAppIf" where
  "app_step (AppOpen a) s = s\<lparr>ta_openReq := ta_openReq s @ [a]\<rparr>"
| "app_step (AppClose i) s = s\<lparr>ta_closeReq := ta_closeReq s @ [i]\<rparr>"
| "app_step (AppSession r) s = s\<lparr>ta_sLookup_rsp := ta_sLookup_rsp s @ [r]\<rparr>"
| "app_step (AppPort p) s = s\<lparr>ta_port_rsp := ta_port_rsp s @ [p]\<rparr>"
| "app_step (AppState x) s = s\<lparr>ta_state_rsp := ta_state_rsp s @ [x]\<rparr>"
| "app_step (AppEstablished e) s = s\<lparr>ta_established := ta_established s @ [e]\<rparr>"
| "app_step (AppTimer e) s = s\<lparr>ta_rtTimer := ta_rtTimer s @ [e]\<rparr>"
| "app_step (TxAppIf ip) s = tx_app_if ip s"

definition app_init :: "u16 \<Rightarrow> txAppIf" where
  "app_init junk = \<lparr>ta_openReq = [], ta_closeReq = [], ta_sLookup_rsp = [], ta_port_rsp = [], ta_state_rsp = [], ta_established = [],
     ta_openRsp = [], ta_sLookup_req = [], ta_state_req = [], ta_setEvent = [], ta_rtTimer = [], tai_closing = False,
     tai_closeSessionID = junk\<rparr>"

definition app_inv :: "txAppIf \<Rightarrow> bool" where
  "app_inv s \<longleftrightarrow> fold bracket (ta_state_req s) (Some None) = Some (if tai_closing s then Some (tai_closeSessionID s) else None)"

lemma app_inv_call: "app_inv s \<Longrightarrow> app_inv (tx_app_if ip s)"
proof -
  assume a: "app_inv s"
  have "app_inv (tai_open ip s)" using a by (simp add: app_inv_def tai_open_def split: list.split)
  moreover have "app_inv (tai_idle t)" if "app_inv t" "\<not> tai_closing t" for t
    using that by (simp add: app_inv_def tai_idle_def Let_def mk_stateWrite_def mk_stateQuery_def split: list.split)
  moreover have "app_inv (tai_close x (t\<lparr>ta_state_rsp := q\<rparr>))" if "app_inv t" "tai_closing t" for t x q
    using that by (simp add: app_inv_def tai_close_def Let_def mk_stateWrite_def)
  ultimately show ?thesis by (simp add: tx_app_if_def Let_def split: list.split)
qed

interpretation app: step_invariant "app_init junk" app_step app_inv for junk
  by unfold_locales (simp add: app_inv_def app_init_def, rename_tac s i, case_tac i, simp_all add: app_inv_call, simp_all add: app_inv_def)

text \<open>C29. Whatever the application asks for and whatever the tables answer, \<open>tx_app_if\<close> releases every entry of the
  state table it locks, before it touches another one: each read is followed by the write of the same
  session, and the only read without one is that of a close request whose answer has not come.\<close>

theorem state_requests_bracketed:
  "let s = run_inputs app_step is (app_init junk)
   in fold bracket (ta_state_req s) (Some None) = Some (if tai_closing s then Some (tai_closeSessionID s) else None)"
  unfolding Let_def by (rule app.inv_run [unfolded app_inv_def])

end
