(* ===== verification/Linked_Queues.thy ===== *)
theory Linked_Queues
  imports Prelude "HOL-Library.Sublist"
begin

text \<open>
  The memory that the queues of the RoCE transport share
  (\<^verbatim>\<open>ib_transport_protocol/multi_queue/multi_queue.hpp\<close>, \<^verbatim>\<open>ib_transport_protocol/retransmitter/retransmitter.hpp\<close>):
  a table of cells, each with a payload and the index of the next cell, a table with head and tail of
  every queue, and the list of free cells. Both users have the same three processes on it and talk to
  them through streams.
\<close>

subsection \<open>State\<close>

record mqPointerEntry =
  pe_head :: u16
  pe_tail :: u16
  pe_valid :: bool

record 'v mqMetaEntry =
  me_value :: 'v
  me_next :: u16
  me_valid :: bool
  me_isTail :: bool

text \<open>The three constructors of a request to the table of cells.\<close>

datatype 'v mqMetaReq = MetaRead u16 | MetaAppend u16 u16 | MetaWrite u16 "'v mqMetaEntry"

record 'v linkedMem =
  pointerReqFifo :: "(u16 \<times> bool) stream" \<comment> \<open>key and whether to lock\<close>
  pointerUpdFifo :: "(u16 \<times> mqPointerEntry) stream"
  pointerRspFifo :: "mqPointerEntry stream"
  metaReqFifo :: "'v mqMetaReq stream"
  metaRspFifo :: "'v mqMetaEntry stream"
  freeListFifo :: "u16 stream"
  releaseFifo :: "u16 stream"
  ptr_table :: "u16 \<Rightarrow> mqPointerEntry"
  lockedKey :: u16
  isLocked :: bool
  ptr_wait :: bool
  ptr_request :: "u16 \<times> bool"
  meta_table :: "u16 \<Rightarrow> 'v mqMetaEntry"
  freeListCounter :: u16

subsection \<open>Processes\<close>

definition mq_pointer_table :: "('v, 'z) linkedMem_scheme \<Rightarrow> ('v, 'z) linkedMem_scheme" where
  "mq_pointer_table s =
     (case pointerUpdFifo s of
        (key, entry) # q \<Rightarrow>
          s\<lparr>pointerUpdFifo := q, ptr_table := (ptr_table s)(key := entry),
            isLocked := (if lockedKey s = key then False else isLocked s)\<rparr>
      | [] \<Rightarrow>
       (if pointerReqFifo s \<noteq> [] \<and> \<not> ptr_wait s then
          let r = hd (pointerReqFifo s); s1 = s\<lparr>pointerReqFifo := tl (pointerReqFifo s), ptr_request := r\<rparr>
          in if snd r \<and> isLocked s then s1\<lparr>ptr_wait := True\<rparr>
             else let s2 = s1\<lparr>pointerRspFifo := pointerRspFifo s @ [ptr_table s (fst r)]\<rparr>
                  in if snd r then s2\<lparr>isLocked := True, lockedKey := fst r\<rparr> else s2
        else if ptr_wait s \<and> \<not> isLocked s then
          s\<lparr>pointerRspFifo := pointerRspFifo s @ [ptr_table s (fst (ptr_request s))],
            isLocked := True, lockedKey := fst (ptr_request s), ptr_wait := False\<rparr>
        else s))"

definition mq_freelist_handler :: "u16 \<Rightarrow> bool \<Rightarrow> ('v, 'z) linkedMem_scheme \<Rightarrow> ('v, 'z) linkedMem_scheme" where
  "mq_freelist_handler sz full s =
     (case releaseFifo s of
        i # q \<Rightarrow> s\<lparr>releaseFifo := q, freeListFifo := freeListFifo s @ [i]\<rparr>
      | [] \<Rightarrow>
          if freeListCounter s < sz \<and> \<not> full
          then s\<lparr>freeListFifo := freeListFifo s @ [freeListCounter s], freeListCounter := freeListCounter s + 1\<rparr>
          else s)"

definition meta_append :: "u16 \<Rightarrow> u16 \<Rightarrow> (u16 \<Rightarrow> 'v mqMetaEntry) \<Rightarrow> u16 \<Rightarrow> 'v mqMetaEntry" where
  "meta_append idx next T = T(idx := (T idx)\<lparr>me_next := next, me_isTail := False\<rparr>)"

definition mq_meta_table :: "('v, 'z) linkedMem_scheme \<Rightarrow> ('v, 'z) linkedMem_scheme" where
  "mq_meta_table s =
     (case metaReqFifo s of
        [] \<Rightarrow> s
      | req # q \<Rightarrow>
         (let s1 = s\<lparr>metaReqFifo := q\<rparr>
          in case req of
               MetaWrite idx entry \<Rightarrow> s1\<lparr>meta_table := (meta_table s)(idx := entry)\<rparr>
             | MetaAppend idx next \<Rightarrow> s1\<lparr>meta_table := meta_append idx next (meta_table s)\<rparr>
             | MetaRead idx \<Rightarrow> s1\<lparr>metaRspFifo := metaRspFifo s @ [meta_table s idx]\<rparr>))"

subsection \<open>What the tables will hold\<close>

text \<open>The tables once the writes under way have arrived.\<close>

fun meta_apply :: "'v mqMetaReq \<Rightarrow> (u16 \<Rightarrow> 'v mqMetaEntry) \<Rightarrow> u16 \<Rightarrow> 'v mqMetaEntry" where
  "meta_apply (MetaRead i) T = T"
| "meta_apply (MetaAppend i n) T = meta_append i n T"
| "meta_apply (MetaWrite i e) T = T(i := e)"

definition meta_eff :: "('v, 'z) linkedMem_scheme \<Rightarrow> u16 \<Rightarrow> 'v mqMetaEntry" where
  "meta_eff s = fold meta_apply (metaReqFifo s) (meta_table s)"

definition ptr_eff :: "('v, 'z) linkedMem_scheme \<Rightarrow> u16 \<Rightarrow> mqPointerEntry" where
  "ptr_eff s = fold (\<lambda>(k, e) P. P(k := e)) (pointerUpdFifo s) (ptr_table s)"

lemma meta_eff_table [simp]: "meta_eff (mq_meta_table s) = meta_eff s"
  by (auto simp: meta_eff_def mq_meta_table_def Let_def split: list.split mqMetaReq.split)

lemma ptr_eff_table [simp]: "ptr_eff (mq_pointer_table s) = ptr_eff s"
  by (auto simp: ptr_eff_def mq_pointer_table_def Let_def split: list.split prod.split)

lemma meta_eff_frame [simp]:
  "meta_eff (mq_pointer_table s) = meta_eff s" "meta_eff (mq_freelist_handler n b s) = meta_eff s"
  "ptr_eff (mq_meta_table s) = ptr_eff s" "ptr_eff (mq_freelist_handler n b s) = ptr_eff s"
  by (auto simp: meta_eff_def ptr_eff_def mq_pointer_table_def mq_freelist_handler_def mq_meta_table_def
      Let_def split: list.split mqMetaReq.split prod.split)

subsection \<open>Requests under way\<close>

text \<open>There is at most one request for a pointer and at most one read of a cell; the answer is what
  the table will hold.\<close>

definition ptr_idle :: "('v, 'z) linkedMem_scheme \<Rightarrow> bool" where
  "ptr_idle s \<longleftrightarrow> pointerReqFifo s = [] \<and> \<not> ptr_wait s \<and> pointerRspFifo s = []"

definition ptr_asked :: "u16 \<Rightarrow> ('v, 'z) linkedMem_scheme \<Rightarrow> bool" where
  "ptr_asked k s \<longleftrightarrow>
     (\<exists>l. pointerReqFifo s = [(k, l)]) \<and> \<not> ptr_wait s \<and> pointerRspFifo s = []
   \<or> pointerReqFifo s = [] \<and> ptr_wait s \<and> fst (ptr_request s) = k \<and> pointerRspFifo s = []
   \<or> pointerReqFifo s = [] \<and> \<not> ptr_wait s \<and> pointerRspFifo s = [ptr_eff s k]"

fun is_read :: "'v mqMetaReq \<Rightarrow> bool" where
  "is_read (MetaRead i) = True"
| "is_read r = False"

definition meta_idle :: "('v, 'z) linkedMem_scheme \<Rightarrow> bool" where
  "meta_idle s \<longleftrightarrow> list_all (\<lambda>r. \<not> is_read r) (metaReqFifo s) \<and> metaRspFifo s = []"

definition meta_asked :: "u16 \<Rightarrow> ('v, 'z) linkedMem_scheme \<Rightarrow> bool" where
  "meta_asked i s \<longleftrightarrow>
     (\<exists>ws. metaReqFifo s = ws @ [MetaRead i] \<and> list_all (\<lambda>r. \<not> is_read r) ws) \<and> metaRspFifo s = []
   \<or> metaReqFifo s = [] \<and> metaRspFifo s = [meta_eff s i]"

lemma ptr_idle_step [simp]: "ptr_idle s \<Longrightarrow> ptr_idle (mq_pointer_table s)"
  by (auto simp: ptr_idle_def mq_pointer_table_def split: list.split)

lemma ptr_asked_step [simp]: "ptr_asked k s \<Longrightarrow> ptr_asked k (mq_pointer_table s)"
proof (cases "pointerUpdFifo s")
  case Nil
  assume "ptr_asked k s"
  then show ?thesis using Nil
    by (auto simp: ptr_asked_def mq_pointer_table_def ptr_eff_def Let_def)
next
  case (Cons u q)
  assume a: "ptr_asked k s"
  have e: "ptr_eff (mq_pointer_table s) k = ptr_eff s k" by simp
  show ?thesis using a e unfolding ptr_asked_def
    by (auto simp: mq_pointer_table_def Cons split: prod.splits)
qed

lemma meta_idle_step [simp]: "meta_idle s \<Longrightarrow> meta_idle (mq_meta_table s)"
  by (auto simp: meta_idle_def mq_meta_table_def Let_def split: list.split mqMetaReq.split)

lemma meta_asked_step [simp]: "meta_asked i s \<Longrightarrow> meta_asked i (mq_meta_table s)"
proof -
  assume a: "meta_asked i s"
  then consider ws where "metaReqFifo s = ws @ [MetaRead i]" "list_all (\<lambda>r. \<not> is_read r) ws" "metaRspFifo s = []"
    | "metaReqFifo s = []" "metaRspFifo s = [meta_eff s i]"
    unfolding meta_asked_def by blast
  then show ?thesis
  proof cases
    case 1
    show ?thesis
    proof (cases ws)
      case Nil
      then show ?thesis using 1 by (simp add: meta_asked_def mq_meta_table_def meta_eff_def)
    next
      case (Cons r rs)
      then show ?thesis using 1
        by (cases r) (auto simp: meta_asked_def mq_meta_table_def Let_def)
    qed
  next
    case 2
    then show ?thesis by (simp add: meta_asked_def mq_meta_table_def)
  qed
qed

lemma asked_frame [simp]:
  "ptr_idle (mq_meta_table s) = ptr_idle s" "ptr_idle (mq_freelist_handler n b s) = ptr_idle s"
  "ptr_asked k (mq_meta_table s) = ptr_asked k s" "ptr_asked k (mq_freelist_handler n b s) = ptr_asked k s"
  "meta_idle (mq_pointer_table s) = meta_idle s" "meta_idle (mq_freelist_handler n b s) = meta_idle s"
  "meta_asked i (mq_pointer_table s) = meta_asked i s" "meta_asked i (mq_freelist_handler n b s) = meta_asked i s"
  by (auto simp: ptr_idle_def ptr_asked_def ptr_eff_def meta_idle_def meta_asked_def meta_eff_def mq_meta_table_def
      mq_freelist_handler_def mq_pointer_table_def Let_def split: list.split mqMetaReq.split prod.split)

lemma free_frame [simp]:
  "freeListFifo (mq_pointer_table s) = freeListFifo s" "releaseFifo (mq_pointer_table s) = releaseFifo s"
  "freeListCounter (mq_pointer_table s) = freeListCounter s"
  "freeListFifo (mq_meta_table s) = freeListFifo s" "releaseFifo (mq_meta_table s) = releaseFifo s"
  "freeListCounter (mq_meta_table s) = freeListCounter s"
  by (simp_all add: mq_pointer_table_def mq_meta_table_def Let_def split: list.split prod.split mqMetaReq.split)

subsection \<open>Chains of cells\<close>

fun chain :: "(u16 \<Rightarrow> 'v mqMetaEntry) \<Rightarrow> u16 list \<Rightarrow> bool" where
  "chain T [] = True"
| "chain T [i] = (me_valid (T i) \<and> me_isTail (T i))"
| "chain T (i # j # xs) = (me_valid (T i) \<and> \<not> me_isTail (T i) \<and> me_next (T i) = j \<and> chain T (j # xs))"

lemma chain_cong: "(\<And>i. i \<in> set xs \<Longrightarrow> T i = T' i) \<Longrightarrow> chain T xs = chain T' xs"
  by (induction T xs rule: chain.induct) auto

lemma chain_upd [simp]: "i \<notin> set xs \<Longrightarrow> chain (T(i := e)) xs = chain T xs"
  by (rule chain_cong) auto

lemma chain_ConsD:
  assumes "chain T (i # xs)"
  shows "me_valid (T i)" "me_isTail (T i) \<longleftrightarrow> xs = []" "xs \<noteq> [] \<Longrightarrow> me_next (T i) = hd xs" "chain T xs"
  using assms by (cases xs; simp)+

lemma chain_suffix: "chain T zs \<Longrightarrow> suffix ys zs \<Longrightarrow> chain T ys"
proof (induction zs)
  case (Cons z zs)
  then show ?case using chain_ConsD(4) [of T z zs] by (auto simp: suffix_Cons)
qed simp

text \<open>The first of the given cells has been asked for, if there is one.\<close>

definition at_cells :: "u16 list \<Rightarrow> ('v, 'z) linkedMem_scheme \<Rightarrow> bool" where
  "at_cells ys s \<longleftrightarrow> (if ys = [] then meta_idle s else meta_asked (hd ys) s)"

lemma at_cells_step [simp]: "at_cells ys s \<Longrightarrow> at_cells ys (mq_meta_table s)"
  by (simp add: at_cells_def split: if_splits)

lemma at_cells_frame [simp]:
  "at_cells ys (mq_pointer_table s) = at_cells ys s" "at_cells ys (mq_freelist_handler n b s) = at_cells ys s"
  by (simp_all add: at_cells_def)

text \<open>A new cell behind the last one.\<close>

definition fresh_cell :: "'v \<Rightarrow> 'v mqMetaEntry" where
  "fresh_cell v = \<lparr>me_value = v, me_next = 0, me_valid = True, me_isTail = True\<rparr>"

lemma chain_snoc:
  assumes "chain T xs" "xs \<noteq> []" "distinct xs" "n \<notin> set xs"
  shows "chain ((meta_append (last xs) n T)(n := fresh_cell v)) (xs @ [n])"
  using assms
proof (induction T xs rule: chain.induct)
  case (2 T i)
  then show ?case by (auto simp: meta_append_def fresh_cell_def)
next
  case (3 T i j xs)
  have l: "last (j # xs) \<in> set (j # xs)" by (rule last_in_set) simp
  then have "i \<noteq> last (j # xs)" using "3.prems" by auto
  then show ?case using 3 by (auto simp: meta_append_def)
qed simp

lemma values_snoc:
  assumes "n \<notin> set xs"
  shows "map (me_value \<circ> ((meta_append i n T)(n := fresh_cell v))) (xs @ [n]) = map (me_value \<circ> T) xs @ [v]"
  using assms by (auto simp: meta_append_def fresh_cell_def)

text \<open>A queue with the given cells.\<close>

definition queue_at :: "(u16 \<Rightarrow> 'v mqMetaEntry) \<Rightarrow> mqPointerEntry \<Rightarrow> u16 list \<Rightarrow> bool" where
  "queue_at T p xs \<longleftrightarrow> chain T xs \<and>
     (if xs = [] then \<not> pe_valid p else pe_valid p \<and> pe_head p = hd xs \<and> pe_tail p = last xs)"

definition contents :: "(u16 \<Rightarrow> 'v mqMetaEntry) \<Rightarrow> (u16 \<Rightarrow> u16 list) \<Rightarrow> u16 \<Rightarrow> 'v list" where
  "contents T L k = map (me_value \<circ> T) (L k)"

subsection \<open>Ownership of the cells\<close>

definition cells_ok :: "u16 list \<Rightarrow> (u16 \<Rightarrow> u16 list) \<Rightarrow> nat \<Rightarrow> bool" where
  "cells_ok F L n \<longleftrightarrow> distinct F \<and> (\<forall>k. distinct (L k)) \<and> (\<forall>k k'. k \<noteq> k' \<longrightarrow> set (L k) \<inter> set (L k') = {})
     \<and> (\<forall>k. set (L k) \<inter> set F = {}) \<and> (\<forall>i. i \<in> set F \<or> (\<exists>k. i \<in> set (L k)) \<longrightarrow> unat i < n)"

lemma cells_ok_perm: "cells_ok F L n \<Longrightarrow> distinct F' \<Longrightarrow> set F' = set F \<Longrightarrow> cells_ok F' L n"
  by (simp add: cells_ok_def)

lemma cells_ok_new: "cells_ok F L n \<Longrightarrow> unat i = n \<Longrightarrow> cells_ok (i # F) L (Suc n)"
  unfolding cells_ok_def by (auto simp: less_Suc_eq)

lemma cells_ok_push: "cells_ok (i # F) L n \<Longrightarrow> cells_ok F (L(k := L k @ [i])) n"
  unfolding cells_ok_def by (auto split: if_splits)

lemma cells_ok_pop:
  assumes "cells_ok F L n" "L k = i # xs"
  shows "cells_ok (i # F) (L(k := xs)) n"
proof -
  have own: "distinct (i # xs)" "insert i (set xs) \<inter> set F = {}" "\<And>j. j \<in> insert i (set xs) \<Longrightarrow> unat j < n"
    using assms by (auto simp: cells_ok_def) (metis distinct.simps(2) disjoint_iff list.set_intros)+
  have other: "insert i (set xs) \<inter> set (L k') = {}" if "k' \<noteq> k" for k'
    using assms that unfolding cells_ok_def by (metis list.simps(15))
  show ?thesis using assms own other unfolding cells_ok_def by (auto simp: Int_commute disjoint_iff)
qed

subsection \<open>Queues that grow and shrink\<close>

text \<open>Every queue is a chain of cells.\<close>

definition lists_ok :: "(u16 \<Rightarrow> 'v mqMetaEntry) \<Rightarrow> (u16 \<Rightarrow> mqPointerEntry) \<Rightarrow> (u16 \<Rightarrow> u16 list) \<Rightarrow> bool" where
  "lists_ok T P L \<longleftrightarrow> (\<forall>k. queue_at T (P k) (L k))"

lemma lists_ok_at: "lists_ok T P L \<Longrightarrow> queue_at T (P k) (L k)"
  by (simp add: lists_ok_def)

lemma lists_ok_empty: "lists_ok T P L \<Longrightarrow> \<not> pe_valid (P k) \<longleftrightarrow> L k = []"
  using lists_ok_at [of T P L k] by (auto simp: queue_at_def split: if_splits)

lemma lists_ok_head: "lists_ok T P L \<Longrightarrow> L k \<noteq> [] \<Longrightarrow> pe_head (P k) = hd (L k) \<and> pe_tail (P k) = last (L k)"
  using lists_ok_at [of T P L k] by (simp add: queue_at_def)

lemma contents_Nil: "L k = [] \<Longrightarrow> contents T L k = []"
  by (simp add: contents_def)

text \<open>The first cell of a queue.\<close>

lemma push_first:
  fixes T :: "u16 \<Rightarrow> 'v mqMetaEntry" and v :: 'v
  assumes l: "lists_ok T P L" and c: "cells_ok (n # F) L m" and v: "\<not> pe_valid (P k)"
  defines "L' \<equiv> L(k := L k @ [n])" and "T' \<equiv> T(n := fresh_cell v)"
  shows "lists_ok T' (P(k := \<lparr>pe_head = n, pe_tail = n, pe_valid = True\<rparr>)) L'"
    and "contents T' L' = (contents T L)(k := contents T L k @ [v])"
proof -
  have new: "n \<notin> set (L j)" for j using c by (auto simp: cells_ok_def)
  have e: "L k = []" using lists_ok_empty [OF l] v by simp
  show "lists_ok T' (P(k := \<lparr>pe_head = n, pe_tail = n, pe_valid = True\<rparr>)) L'"
    using l new e by (auto simp: lists_ok_def queue_at_def L'_def T'_def fresh_cell_def)
  show "contents T' L' = (contents T L)(k := contents T L k @ [v])"
    using new e by (auto simp: contents_def fun_eq_iff L'_def T'_def fresh_cell_def)
qed

text \<open>A further cell.\<close>

lemma push_next:
  fixes T :: "u16 \<Rightarrow> 'v mqMetaEntry" and v :: 'v
  assumes l: "lists_ok T P L" and c: "cells_ok (n # F) L m" and v: "pe_valid (P k)"
  defines "L' \<equiv> L(k := L k @ [n])" and "T' \<equiv> (meta_append (pe_tail (P k)) n T)(n := fresh_cell v)"
  shows "lists_ok T' (P(k := (P k)\<lparr>pe_tail := n\<rparr>)) L'"
    and "contents T' L' = (contents T L)(k := contents T L k @ [v])"
proof -
  have new: "n \<notin> set (L j)" for j using c by (auto simp: cells_ok_def)
  have k: "L k \<noteq> []" using lists_ok_empty [OF l] v by blast
  have ends: "pe_head (P k) = hd (L k)" "pe_tail (P k) = last (L k)" using lists_ok_head [OF l k] by simp_all
  have d: "distinct (L k)" "chain T (L k)" using c lists_ok_at [OF l, of k] by (auto simp: cells_ok_def queue_at_def)
  have disj: "last (L k) \<notin> set (L j)" if "j \<noteq> k" for j
    using c that k unfolding cells_ok_def by (meson disjoint_iff last_in_set)
  have same: "T' i = T i" if "j \<noteq> k" "i \<in> set (L j)" for i j
    using disj [OF that(1)] that new ends by (auto simp: meta_append_def T'_def)
  have "chain T' (L j)" if "j \<noteq> k" for j
    using chain_cong [of "L j" T' T] same [OF that] lists_ok_at [OF l, of j] by (auto simp: queue_at_def)
  moreover have "chain T' (L k @ [n])" using chain_snoc [OF d(2) k d(1) new] by (simp add: T'_def ends)
  ultimately show "lists_ok T' (P(k := (P k)\<lparr>pe_tail := n\<rparr>)) L'"
    using l v k ends by (auto simp: lists_ok_def queue_at_def L'_def)
  have "contents T' L' j = ((contents T L)(k := contents T L k @ [v])) j" for j
    using values_snoc [OF new, of "last (L k)" T v k] same [of j] by (auto simp: contents_def L'_def T'_def ends)
  then show "contents T' L' = (contents T L)(k := contents T L k @ [v])" by (rule ext)
qed

text \<open>The first cell leaves the queue.\<close>

lemma pop_first:
  assumes l: "lists_ok T P L" and c: "cells_ok F L m" and i: "L k = i # xs"
  shows "me_valid (T i)" "pe_head (P k) = i" "contents T L k = me_value (T i) # map (me_value \<circ> T) xs"
    and "lists_ok T (P(k := (P k)\<lparr>pe_valid := \<not> me_isTail (T i), pe_head := me_next (T i)\<rparr>)) (L(k := xs))"
    and "contents T (L(k := xs)) = (contents T L)(k := tl (contents T L k))"
    and "cells_ok (F @ [i]) (L(k := xs)) m"
proof -
  have q: "queue_at T (P k) (i # xs)" using lists_ok_at [OF l, of k] i by simp
  then have ch: "me_valid (T i)" "me_isTail (T i) \<longleftrightarrow> xs = []" "xs \<noteq> [] \<Longrightarrow> me_next (T i) = hd xs" "chain T xs"
    using chain_ConsD [of T i xs] by (simp_all add: queue_at_def)
  show "me_valid (T i)" "pe_head (P k) = i" using ch(1) q by (simp_all add: queue_at_def)
  show "contents T L k = me_value (T i) # map (me_value \<circ> T) xs" by (simp add: contents_def i)
  show "lists_ok T (P(k := (P k)\<lparr>pe_valid := \<not> me_isTail (T i), pe_head := me_next (T i)\<rparr>)) (L(k := xs))"
    using l q ch by (auto simp: lists_ok_def queue_at_def)
  show "contents T (L(k := xs)) = (contents T L)(k := tl (contents T L k))"
    by (auto simp: contents_def i fun_eq_iff)
  have p: "cells_ok (i # F) (L(k := xs)) m" by (rule cells_ok_pop [OF c i])
  then show "cells_ok (F @ [i]) (L(k := xs)) m" by (rule cells_ok_perm) (use p in \<open>auto simp: cells_ok_def\<close>)
qed

text \<open>The value of the first cell changes.\<close>

lemma update_first:
  fixes T :: "u16 \<Rightarrow> 'v mqMetaEntry" and v :: 'v
  assumes l: "lists_ok T P L" and c: "cells_ok F L m" and i: "L k = i # xs"
  defines "T' \<equiv> T(i := (T i)\<lparr>me_value := v\<rparr>)"
  shows "lists_ok T' P L" "contents T' L = (contents T L)(k := v # tl (contents T L k))"
proof -
  have own: "i \<notin> set xs" using c i unfolding cells_ok_def by (metis distinct.simps(2))
  have disj: "i \<notin> set (L j)" if "j \<noteq> k" for j
    using c i that unfolding cells_ok_def by (metis disjoint_iff list.set_intros(1))
  have "chain T' (L j) = chain T (L j)" for j
  proof (cases "j = k")
    case True
    then show ?thesis using own i by (cases xs) (auto simp: T'_def)
  next
    case False
    then show ?thesis using disj by (simp add: T'_def)
  qed
  then show "lists_ok T' P L" using l by (simp add: lists_ok_def queue_at_def)
  show "contents T' L = (contents T L)(k := v # tl (contents T L k))"
    using own disj by (auto simp: contents_def i fun_eq_iff T'_def)
qed

text \<open>The handler of the free list moves a released cell or brings in a new one.\<close>

lemma freelist_cells:
  fixes s :: "('v, 'z) linkedMem_scheme"
  assumes "s' = mq_freelist_handler sz full s"
    and "cells_ok (X @ freeListFifo s @ releaseFifo s) L (unat (freeListCounter s))"
  shows "cells_ok (X @ freeListFifo s' @ releaseFifo s') L (unat (freeListCounter s'))"
proof (cases "releaseFifo s")
  case (Cons i q)
  then show ?thesis using assms(2)
    by (auto simp: assms(1) mq_freelist_handler_def cells_ok_def)
next
  case Nil
  show ?thesis
  proof (cases "freeListCounter s < sz \<and> \<not> full")
    case True
    then have c: "unat (freeListCounter s + 1) = Suc (unat (freeListCounter s))"
      using unat_Suc_below [of "freeListCounter s" sz] by (simp add: word_less_nat_alt)
    from cells_ok_new [OF assms(2) refl]
    show ?thesis using True Nil c
      by (auto simp: assms(1) mq_freelist_handler_def cells_ok_def)
  next
    case False
    then show ?thesis using assms(2) Nil by (auto simp: assms(1) mq_freelist_handler_def)
  qed
qed

end
