(* ===== verification/Roce_Multi_Queue.thy ===== *)
theory Roce_Multi_Queue
  imports Linked_Queues
begin

text \<open>
  The multi queue of the RoCE transport (\<^verbatim>\<open>ib_transport_protocol/multi_queue/multi_queue.hpp\<close>): one queue
  per key in a shared memory of cells. The four processes run concurrently; a step of the model is one
  call of one of them, in any order.
\<close>

subsection \<open>State\<close>

datatype mqPopOperation = POP | FRONT

datatype mqStateType = STATE_MAIN | STATE_PUSH | STATE_PUSH_2 | STATE_POP | STATE_POP_2

record 'v multiQueue = "'v linkedMem" +
  multiQueue_push :: "(u16 \<times> 'v) stream"
  multiQueue_pop_req :: "(mqPopOperation \<times> u16) stream"
  multiQueue_pop_rsp :: "'v stream"
  mq_state :: mqStateType
  newMetaIdx :: u16
  mq_insert :: "u16 \<times> 'v"
  popRequest :: "mqPopOperation \<times> u16"
  ptrMeta :: mqPointerEntry

text \<open>The registers that are written before they are read start with the given value.\<close>

definition mq_init :: "'v \<Rightarrow> 'v multiQueue" where
  "mq_init v = \<lparr>pointerReqFifo = [], pointerUpdFifo = [], pointerRspFifo = [], metaReqFifo = [], metaRspFifo = [],
     freeListFifo = [], releaseFifo = [], ptr_table = (\<lambda>_. \<lparr>pe_head = 0, pe_tail = 0, pe_valid = False\<rparr>),
     lockedKey = 0, isLocked = False, ptr_wait = False, ptr_request = (0, False),
     meta_table = (\<lambda>_. \<lparr>me_value = v, me_next = 0, me_valid = False, me_isTail = False\<rparr>), freeListCounter = 0,
     multiQueue_push = [], multiQueue_pop_req = [], multiQueue_pop_rsp = [], mq_state = STATE_MAIN,
     newMetaIdx = 0, mq_insert = (0, v), popRequest = (POP, 0),
     ptrMeta = \<lparr>pe_head = 0, pe_tail = 0, pe_valid = False\<rparr>\<rparr>"

subsection \<open>The request process\<close>

definition mq_process_requests :: "'v multiQueue \<Rightarrow> 'v multiQueue" where
  "mq_process_requests s =
     (case mq_state s of
        STATE_MAIN \<Rightarrow>
          (if multiQueue_push s \<noteq> [] \<and> freeListFifo s \<noteq> [] then
             let insert = hd (multiQueue_push s)
             in s\<lparr>newMetaIdx := hd (freeListFifo s), freeListFifo := tl (freeListFifo s),
                  multiQueue_push := tl (multiQueue_push s), mq_insert := insert,
                  pointerReqFifo := pointerReqFifo s @ [(fst insert, True)], mq_state := STATE_PUSH\<rparr>
           else if multiQueue_pop_req s \<noteq> [] then
             let r = hd (multiQueue_pop_req s)
             in s\<lparr>multiQueue_pop_req := tl (multiQueue_pop_req s), popRequest := r,
                  pointerReqFifo := pointerReqFifo s @ [(snd r, False)], mq_state := STATE_POP\<rparr>
           else s)
      | STATE_PUSH \<Rightarrow>
          (case pointerRspFifo s of
             [] \<Rightarrow> s
           | p # q \<Rightarrow>
              (if \<not> pe_valid p then
                 let p' = \<lparr>pe_head = newMetaIdx s, pe_tail = newMetaIdx s, pe_valid = True\<rparr>
                 in s\<lparr>pointerRspFifo := q, ptrMeta := p',
                      metaReqFifo := metaReqFifo s @ [MetaWrite (newMetaIdx s) (fresh_cell (snd (mq_insert s)))],
                      pointerUpdFifo := pointerUpdFifo s @ [(fst (mq_insert s), p')], mq_state := STATE_MAIN\<rparr>
               else
                 s\<lparr>pointerRspFifo := q, metaReqFifo := metaReqFifo s @ [MetaAppend (pe_tail p) (newMetaIdx s)],
                   ptrMeta := p\<lparr>pe_tail := newMetaIdx s\<rparr>, mq_state := STATE_PUSH_2\<rparr>))
      | STATE_PUSH_2 \<Rightarrow>
          s\<lparr>metaReqFifo := metaReqFifo s @ [MetaWrite (newMetaIdx s) (fresh_cell (snd (mq_insert s)))],
            pointerUpdFifo := pointerUpdFifo s @ [(fst (mq_insert s), ptrMeta s)], mq_state := STATE_MAIN\<rparr>
      | STATE_POP \<Rightarrow>
          (case pointerRspFifo s of
             [] \<Rightarrow> s
           | p # q \<Rightarrow>
              (let s1 = s\<lparr>pointerRspFifo := q, ptrMeta := p\<rparr>
               in if pe_valid p
                  then s1\<lparr>metaReqFifo := metaReqFifo s @ [MetaRead (pe_head p)], mq_state := STATE_POP_2\<rparr>
                  else s1\<lparr>mq_state := STATE_MAIN\<rparr>))
      | STATE_POP_2 \<Rightarrow>
          (case metaRspFifo s of
             [] \<Rightarrow> s
           | m # q \<Rightarrow>
              (let s1 = s\<lparr>metaRspFifo := q, mq_state := STATE_MAIN\<rparr>
               in if me_valid m then
                    let s2 = s1\<lparr>multiQueue_pop_rsp := multiQueue_pop_rsp s @ [me_value m]\<rparr>
                    in if fst (popRequest s) = POP then
                         let p = (ptrMeta s)\<lparr>pe_valid := \<not> me_isTail m, pe_head := me_next m\<rparr>
                         in s2\<lparr>releaseFifo := releaseFifo s @ [pe_head (ptrMeta s)], ptrMeta := p,
                               pointerUpdFifo := pointerUpdFifo s @ [(snd (popRequest s), p)]\<rparr>
                       else s2
                  else s1)))"

text \<open>The order of the calls in the sequential program.\<close>

definition multi_queue :: "u16 \<Rightarrow> bool \<Rightarrow> 'v multiQueue \<Rightarrow> 'v multiQueue" where
  "multi_queue sz full s =
     mq_process_requests (mq_meta_table (mq_pointer_table (mq_freelist_handler sz full s)))"

subsection \<open>Specification: a queue per key\<close>

datatype 'v mqOp = OpPush u16 'v | OpPop u16 | OpFront u16

fun mq_spec :: "'v mqOp \<Rightarrow> (u16 \<Rightarrow> 'v list) \<times> 'v list \<Rightarrow> (u16 \<Rightarrow> 'v list) \<times> 'v list" where
  "mq_spec (OpPush k v) (Q, out) = (Q(k := Q k @ [v]), out)"
| "mq_spec (OpPop k) (Q, out) = (Q(k := tl (Q k)), out @ take 1 (Q k))"
| "mq_spec (OpFront k) (Q, out) = (Q, out @ take 1 (Q k))"

text \<open>The request that the process takes up in its next call.\<close>

definition mq_accepts :: "'v multiQueue \<Rightarrow> 'v mqOp option" where
  "mq_accepts s =
     (if mq_state s \<noteq> STATE_MAIN then None
      else if multiQueue_push s \<noteq> [] \<and> freeListFifo s \<noteq> []
      then Some (OpPush (fst (hd (multiQueue_push s))) (snd (hd (multiQueue_push s))))
      else if multiQueue_pop_req s \<noteq> []
      then Some ((case fst (hd (multiQueue_pop_req s)) of POP \<Rightarrow> OpPop | FRONT \<Rightarrow> OpFront) (snd (hd (multiQueue_pop_req s))))
      else None)"

text \<open>Clients and processes in any order; the state of the specification is kept along.\<close>

datatype 'v mqIn = InPush u16 'v | InPop mqPopOperation u16 | PointerTable | FreeList bool | MetaTable | Requests

fun mq_step :: "u16 \<Rightarrow> 'v mqIn \<Rightarrow> 'v multiQueue \<times> (u16 \<Rightarrow> 'v list) \<times> 'v list
  \<Rightarrow> 'v multiQueue \<times> (u16 \<Rightarrow> 'v list) \<times> 'v list" where
  "mq_step sz (InPush k v) (s, a) = (s\<lparr>multiQueue_push := multiQueue_push s @ [(k, v)]\<rparr>, a)"
| "mq_step sz (InPop op k) (s, a) = (s\<lparr>multiQueue_pop_req := multiQueue_pop_req s @ [(op, k)]\<rparr>, a)"
| "mq_step sz PointerTable (s, a) = (mq_pointer_table s, a)"
| "mq_step sz (FreeList full) (s, a) = (mq_freelist_handler sz full s, a)"
| "mq_step sz MetaTable (s, a) = (mq_meta_table s, a)"
| "mq_step sz Requests (s, a) =
     (mq_process_requests s, case mq_accepts s of None \<Rightarrow> a | Some r \<Rightarrow> mq_spec r a)"

subsection \<open>Simulation\<close>

definition pop_queue :: "mqPopOperation \<Rightarrow> u16 \<Rightarrow> (u16 \<Rightarrow> 'v list) \<Rightarrow> u16 \<Rightarrow> 'v list" where
  "pop_queue op k C = (case op of POP \<Rightarrow> C(k := tl (C k)) | FRONT \<Rightarrow> C)"

fun mq_sim :: "'v multiQueue \<times> (u16 \<Rightarrow> 'v list) \<times> 'v list \<Rightarrow> (u16 \<Rightarrow> u16 list) \<Rightarrow> bool" where
  "mq_sim (s, Q, out) L \<longleftrightarrow>
     (let T = meta_eff s; P = ptr_eff s; F = freeListFifo s @ releaseFifo s; n = unat (freeListCounter s);
          rsp = multiQueue_pop_rsp s
      in case mq_state s of
           STATE_MAIN \<Rightarrow> ptr_idle s \<and> meta_idle s \<and> lists_ok T P L \<and> cells_ok F L n \<and> Q = contents T L \<and> out = rsp
         | STATE_PUSH \<Rightarrow>
             ptr_asked (fst (mq_insert s)) s \<and> meta_idle s \<and> lists_ok T P L \<and> cells_ok (newMetaIdx s # F) L n
             \<and> Q = (contents T L)(fst (mq_insert s) := contents T L (fst (mq_insert s)) @ [snd (mq_insert s)]) \<and> out = rsp
         | STATE_PUSH_2 \<Rightarrow>
             (let T' = T(newMetaIdx s := fresh_cell (snd (mq_insert s))); P' = P(fst (mq_insert s) := ptrMeta s)
              in ptr_idle s \<and> meta_idle s \<and> lists_ok T' P' L \<and> cells_ok F L n \<and> Q = contents T' L \<and> out = rsp)
         | STATE_POP \<Rightarrow>
             ptr_asked (snd (popRequest s)) s \<and> meta_idle s \<and> lists_ok T P L \<and> cells_ok F L n
             \<and> Q = pop_queue (fst (popRequest s)) (snd (popRequest s)) (contents T L)
             \<and> out = rsp @ take 1 (contents T L (snd (popRequest s)))
         | STATE_POP_2 \<Rightarrow>
             ptr_idle s \<and> L (snd (popRequest s)) \<noteq> [] \<and> meta_asked (hd (L (snd (popRequest s)))) s
             \<and> ptrMeta s = P (snd (popRequest s)) \<and> lists_ok T P L \<and> cells_ok F L n
             \<and> Q = pop_queue (fst (popRequest s)) (snd (popRequest s)) (contents T L)
             \<and> out = rsp @ take 1 (contents T L (snd (popRequest s))))"

lemma mq_frame [simp]:
  "mq_state (mq_pointer_table s) = mq_state s" "mq_insert (mq_pointer_table s) = mq_insert s"
  "newMetaIdx (mq_pointer_table s) = newMetaIdx s" "popRequest (mq_pointer_table s) = popRequest s"
  "ptrMeta (mq_pointer_table s) = ptrMeta s" "multiQueue_pop_rsp (mq_pointer_table s) = multiQueue_pop_rsp s"
  "mq_state (mq_meta_table s) = mq_state s" "mq_insert (mq_meta_table s) = mq_insert s"
  "newMetaIdx (mq_meta_table s) = newMetaIdx s" "popRequest (mq_meta_table s) = popRequest s"
  "ptrMeta (mq_meta_table s) = ptrMeta s" "multiQueue_pop_rsp (mq_meta_table s) = multiQueue_pop_rsp s"
  "mq_state (mq_freelist_handler n b s) = mq_state s" "mq_insert (mq_freelist_handler n b s) = mq_insert s"
  "newMetaIdx (mq_freelist_handler n b s) = newMetaIdx s" "popRequest (mq_freelist_handler n b s) = popRequest s"
  "ptrMeta (mq_freelist_handler n b s) = ptrMeta s"
  "multiQueue_pop_rsp (mq_freelist_handler n b s) = multiQueue_pop_rsp s"
  by (simp_all add: mq_pointer_table_def mq_meta_table_def mq_freelist_handler_def Let_def
      split: list.split prod.split mqMetaReq.split)

lemma mq_sim_tables:
  "mq_sim (s, a) L \<Longrightarrow> mq_sim (mq_pointer_table s, a) L" "mq_sim (s, a) L \<Longrightarrow> mq_sim (mq_meta_table s, a) L"
  by (cases a; cases "mq_state s"; simp add: Let_def)+

lemma mq_sim_freelist: "mq_sim (s, a) L \<Longrightarrow> mq_sim (mq_freelist_handler sz full s, a) L"
  using freelist_cells [OF refl, of "[]" s L sz full] freelist_cells [OF refl, of "[newMetaIdx s]" s L sz full]
  by (cases a; cases "mq_state s"; simp add: Let_def)

text \<open>Writes that are sent take effect on the logical tables.\<close>

lemma eff_write [simp]:
  "meta_eff (s\<lparr>metaReqFifo := metaReqFifo s @ [r]\<rparr>) = meta_apply r (meta_eff s)"
  "ptr_eff (s\<lparr>pointerUpdFifo := pointerUpdFifo s @ [(k, e)]\<rparr>) = (ptr_eff s)(k := e)"
  by (simp_all add: meta_eff_def ptr_eff_def)

lemma mq_sim_accept:
  assumes "mq_sim (s, a) L" "mq_state s = STATE_MAIN"
  shows "mq_sim (mq_process_requests s, case mq_accepts s of None \<Rightarrow> a | Some r \<Rightarrow> mq_spec r a) L"
proof (cases a)
  case (Pair Q out)
  show ?thesis
  proof (cases "multiQueue_push s \<noteq> [] \<and> freeListFifo s \<noteq> []")
    case True
    then obtain i F where "freeListFifo s = i # F" by (meson neq_Nil_conv)
    then show ?thesis using assms True
      by (auto simp: Pair mq_process_requests_def mq_accepts_def Let_def ptr_idle_def ptr_asked_def meta_idle_def
          meta_eff_def ptr_eff_def)
  next
    case False
    then show ?thesis using assms
      by (cases "fst (hd (multiQueue_pop_req s))")
         (auto simp: Pair mq_process_requests_def mq_accepts_def Let_def ptr_idle_def ptr_asked_def meta_idle_def
          meta_eff_def ptr_eff_def pop_queue_def)
  qed
qed

lemma mq_sim_push:
  assumes "mq_sim (s, a) L" "mq_state s = STATE_PUSH"
  shows "\<exists>L'. mq_sim (mq_process_requests s, a) L'"
proof (cases "pointerRspFifo s")
  case Nil
  then have "mq_process_requests s = s" using assms(2) by (simp add: mq_process_requests_def)
  then show ?thesis using assms(1) by metis
next
  case (Cons p q)
  obtain Q out where a: "a = (Q, out)" by fastforce
  obtain k v where kv: "mq_insert s = (k, v)" by fastforce
  let ?T = "meta_eff s" and ?P = "ptr_eff s" and ?L = "L(k := L k @ [newMetaIdx s])"
  have b: "ptr_asked k s" "meta_idle s" "lists_ok ?T ?P L"
      "cells_ok (newMetaIdx s # freeListFifo s @ releaseFifo s) L (unat (freeListCounter s))"
      "Q = (contents ?T L)(k := contents ?T L k @ [v])" "out = multiQueue_pop_rsp s"
    using assms kv by (simp_all add: a Let_def)
  have p: "p = ?P k" "q = []" "pointerReqFifo s = []" "\<not> ptr_wait s"
    using b(1) Cons by (auto simp: ptr_asked_def)
  have "mq_sim (mq_process_requests s, a) ?L"
  proof (cases "pe_valid p")
    case False
    then show ?thesis using assms(2) b Cons p kv push_first [OF b(3,4), of k v] cells_ok_push [OF b(4), of k]
      by (simp add: a mq_process_requests_def Let_def ptr_idle_def meta_idle_def meta_eff_def ptr_eff_def)
  next
    case True
    then show ?thesis using assms(2) b Cons p kv push_next [OF b(3,4), of k v] cells_ok_push [OF b(4), of k]
      by (simp add: a mq_process_requests_def Let_def ptr_idle_def meta_idle_def meta_eff_def ptr_eff_def)
  qed
  then show ?thesis by blast
qed

lemma mq_sim_push_2:
  assumes "mq_sim (s, a) L" "mq_state s = STATE_PUSH_2"
  shows "mq_sim (mq_process_requests s, a) L"
  using assms
  by (cases a) (simp add: mq_process_requests_def Let_def ptr_idle_def meta_idle_def meta_eff_def ptr_eff_def)

lemma mq_sim_pop:
  assumes "mq_sim (s, a) L" "mq_state s = STATE_POP"
  shows "mq_sim (mq_process_requests s, a) L"
proof (cases "pointerRspFifo s")
  case Nil
  then have "mq_process_requests s = s" using assms(2) by (simp add: mq_process_requests_def)
  then show ?thesis using assms(1) by simp
next
  case (Cons p q)
  obtain Q out where a: "a = (Q, out)" by fastforce
  obtain op k where r: "popRequest s = (op, k)" by fastforce
  have p: "p = ptr_eff s k" "q = []" "pointerReqFifo s = []" "\<not> ptr_wait s"
    using assms Cons by (auto simp: a r Let_def ptr_asked_def)
  have qk: "queue_at (meta_eff s) p (L k)" using assms p(1) by (auto simp: a r Let_def lists_ok_def)
  show ?thesis
  proof (cases "pe_valid p")
    case True
    then have k: "L k \<noteq> []" "pe_head p = hd (L k)" using qk by (auto simp: queue_at_def split: if_splits)
    have "meta_asked (hd (L k)) (mq_process_requests s)"
      using assms Cons True k
      by (simp add: a r Let_def mq_process_requests_def meta_asked_def meta_idle_def)
    then show ?thesis using assms Cons True k p
      by (simp add: a r Let_def mq_process_requests_def ptr_idle_def meta_eff_def ptr_eff_def)
  next
    case False
    then have "L k = []" using qk by (auto simp: queue_at_def split: if_splits)
    then have c: "contents (meta_eff s) L k = []" by (simp add: contents_def)
    show ?thesis using assms Cons False p c c [unfolded meta_eff_def]
      by (cases op) (simp_all add: a r Let_def mq_process_requests_def ptr_idle_def meta_idle_def meta_eff_def
          ptr_eff_def pop_queue_def fun_upd_idem)
  qed
qed

lemma mq_sim_pop_2:
  assumes "mq_sim (s, a) L" "mq_state s = STATE_POP_2"
  shows "\<exists>L'. mq_sim (mq_process_requests s, a) L'"
proof (cases "metaRspFifo s")
  case Nil
  then have "mq_process_requests s = s" using assms(2) by (simp add: mq_process_requests_def)
  then show ?thesis using assms(1) by metis
next
  case (Cons m q)
  obtain Q out where a: "a = (Q, out)" by fastforce
  obtain op k where r: "popRequest s = (op, k)" by fastforce
  let ?T = "meta_eff s" and ?P = "ptr_eff s"
  have b: "ptr_idle s" "meta_asked (hd (L k)) s" "ptrMeta s = ?P k" "lists_ok ?T ?P L"
      "cells_ok (freeListFifo s @ releaseFifo s) L (unat (freeListCounter s))"
      "Q = pop_queue op k (contents ?T L)" "out = multiQueue_pop_rsp s @ take 1 (contents ?T L k)"
    using assms by (simp_all add: a r Let_def)
  obtain i xs where i: "L k = i # xs" using assms by (auto simp: a r Let_def neq_Nil_conv)
  have m: "m = ?T i" "q = []" "metaReqFifo s = []" using b(2) Cons i by (auto simp: meta_asked_def)
  note f = pop_first [OF b(4,5) i]
  show ?thesis
  proof (cases op)
    case FRONT
    then have "mq_sim (mq_process_requests s, a) L"
      using assms(2) b Cons m f(1,3)
      by (simp add: a r Let_def mq_process_requests_def ptr_idle_def meta_idle_def meta_eff_def ptr_eff_def pop_queue_def)
    then show ?thesis by blast
  next
    case POP
    then have "mq_sim (mq_process_requests s, a) (L(k := xs))"
      using assms(2) b Cons m f
      by (simp add: a r Let_def mq_process_requests_def ptr_idle_def meta_idle_def meta_eff_def ptr_eff_def pop_queue_def)
    then show ?thesis by blast
  qed
qed

lemma mq_sim_step: "mq_sim c L \<Longrightarrow> \<exists>L'. mq_sim (mq_step sz i c) L'"
proof -
  obtain s a where Pair: "c = (s, a)" by (rule prod.exhaust)
  assume "mq_sim c L"
  then have sim: "mq_sim (s, a) L" by (simp only: Pair)
  show ?thesis
  proof (cases i)
    case (InPush k v)
    then have "mq_sim (mq_step sz i c) L" using sim
      by (cases a; cases "mq_state s")
         (simp_all add: Pair Let_def ptr_idle_def ptr_asked_def meta_idle_def meta_asked_def meta_eff_def ptr_eff_def)
    then show ?thesis by blast
  next
    case (InPop op k)
    then have "mq_sim (mq_step sz i c) L" using sim
      by (cases a; cases "mq_state s")
         (simp_all add: Pair Let_def ptr_idle_def ptr_asked_def meta_idle_def meta_asked_def meta_eff_def ptr_eff_def)
    then show ?thesis by blast
  next
    case Requests
    have "mq_accepts s = None" if "mq_state s \<noteq> STATE_MAIN" using that by (simp add: mq_accepts_def)
    then show ?thesis using sim Requests mq_sim_accept mq_sim_push mq_sim_push_2 mq_sim_pop mq_sim_pop_2
      unfolding Pair by (cases "mq_state s") (simp del: mq_sim.simps; blast)+
  qed (use sim mq_sim_tables mq_sim_freelist in \<open>simp del: mq_sim.simps add: Pair; blast\<close>)+
qed

interpretation mq: step_invariant "(mq_init v, \<lambda>_. [], [])" "mq_step sz" "\<lambda>c. \<exists>L. mq_sim c L" for v sz
proof (unfold_locales, goal_cases)
  case 1
  show ?case
    by (rule exI [of _ "\<lambda>_. []"])
       (simp add: mq_init_def Let_def ptr_idle_def meta_idle_def lists_ok_def queue_at_def cells_ok_def contents_def
         ptr_eff_def fun_eq_iff)
next
  case (2 c i)
  then show ?case using mq_sim_step by blast
qed

text \<open>C16. The multi queue implements one queue per key: for every interleaving of its four
  processes with the clients, the values answered so far are those that plain queues give for the
  requests accepted so far, in the same order, except that the answer of the request in progress may
  still be missing; while no request is in progress nothing is missing.\<close>

theorem multi_queue_refines_queues:
  assumes "run_inputs (mq_step sz) is (mq_init v, \<lambda>_. [], []) = (s, Q, out)"
  shows "\<exists>rest. out = multiQueue_pop_rsp s @ rest \<and> length rest \<le> 1 \<and> (mq_state s = STATE_MAIN \<longrightarrow> rest = [])"
proof -
  obtain L where L: "mq_sim (s, Q, out) L" using mq.inv_run [of sz "is" v] assms by auto
  show ?thesis
    using L by (cases "mq_state s") (auto simp: Let_def)
qed

theorem multi_queue_refines_queues_witness:
  "let rounds = (\<lambda>n. concat (replicate n [FreeList False, PointerTable, MetaTable, Requests]));
       is = [InPush 5 (10::nat), InPush 6 20, InPush 5 11, InPop POP 5, InPop FRONT 5, InPop POP 6] @ rounds 30;
       (s, Q, out) = run_inputs (mq_step 8) is (mq_init 0, \<lambda>_. [], [])
   in out = [10, 11, 20] \<and> multiQueue_pop_rsp s = out"
proof -
  let ?is = "[InPush 5 (10::nat), InPush 6 20, InPush 5 11, InPop POP 5, InPop FRONT 5, InPop POP 6]
    @ concat (replicate 30 [FreeList False, PointerTable, MetaTable, Requests])"
  obtain s Q out where r: "run_inputs (mq_step 8) ?is (mq_init 0, \<lambda>_. [], []) = (s, Q, out)" by (metis prod_cases3)
  have "case run_inputs (mq_step 8) ?is (mq_init 0, \<lambda>_. [], []) of (s, Q, out) \<Rightarrow>
      mq_state s = STATE_MAIN \<and> out = [10, 11, 20]"
    by code_simp
  then have "mq_state s = STATE_MAIN \<and> out = [10, 11, 20]" unfolding r by simp
  with multi_queue_refines_queues [OF r] show ?thesis unfolding Let_def r by auto
qed

end
