(* ===== verification/Roce_Types.thy ===== *)
theory Roce_Types
  imports Prelude
begin

text \<open>
  The data of the RoCE transport (\<^verbatim>\<open>hw/services/network/hls/ib_transport_protocol/ib_transport_protocol.hpp\<close>,
  \<^verbatim>\<open>ib_utils.cpp\<close>): operation codes, the meta data that the modules hand on, commands to the memory.
  The packet size and the number of queue pairs are generated into the build (\<^verbatim>\<open>rocev2_config.hpp\<close>), they
  are the fields of \<open>roceCfg\<close>.
\<close>

type_synonym u6 = "6 word"
type_synonym u10 = "10 word"
type_synonym u22 = "22 word"
type_synonym u28 = "28 word"
type_synonym u48 = "48 word"
type_synonym u128 = "128 word"
type_synonym u192 = "192 word"

record roceCfg =
  PMTU :: u16
  MAX_QPS :: u16

text \<open>The values of \<^verbatim>\<open>rocev2/CMakeLists.txt\<close>.\<close>

definition roce_default :: roceCfg where
  "roce_default = \<lparr>PMTU = 4096, MAX_QPS = 500\<rparr>"

definition RETRANS_RETRY_CNT :: u4 where "RETRANS_RETRY_CNT = 12"
definition RETRANS_S1 :: u4 where "RETRANS_S1 = 3"
definition RETRANS_S2 :: u4 where "RETRANS_S2 = 3"
definition RETRANS_S3 :: u4 where "RETRANS_S3 = 3"

datatype qpState = RESET | INIT | READY_RECV | READY_SEND | SQ_ERROR | ERROR

datatype pkgType = AETH | RETH | RAW | IMMED

datatype pkgShiftType = SHIFT_AETH | SHIFT_RETH | SHIFT_NONE

definition PKG_NF :: u1 where "PKG_NF = 0"
definition PKG_F :: u1 where "PKG_F = 1"
definition PKG_INT :: u1 where "PKG_INT = 0"
definition PKG_HOST :: u1 where "PKG_HOST = 1"

subsection \<open>Operation codes\<close>

text \<open>An operation code of a received packet is the byte of its header, whether it has a name or not.\<close>

type_synonym ibOpCode = u8

definition RC_SEND_FIRST :: ibOpCode where "RC_SEND_FIRST = 0x00"
definition RC_SEND_MIDDLE :: ibOpCode where "RC_SEND_MIDDLE = 0x01"
definition RC_SEND_LAST :: ibOpCode where "RC_SEND_LAST = 0x02"
definition RC_SEND_LAST_WITH_IMD :: ibOpCode where "RC_SEND_LAST_WITH_IMD = 0x03"
definition RC_SEND_ONLY :: ibOpCode where "RC_SEND_ONLY = 0x04"
definition RC_SEND_ONLY_WITH_IMD :: ibOpCode where "RC_SEND_ONLY_WITH_IMD = 0x05"
definition RC_RDMA_WRITE_FIRST :: ibOpCode where "RC_RDMA_WRITE_FIRST = 0x06"
definition RC_RDMA_WRITE_MIDDLE :: ibOpCode where "RC_RDMA_WRITE_MIDDLE = 0x07"
definition RC_RDMA_WRITE_LAST :: ibOpCode where "RC_RDMA_WRITE_LAST = 0x08"
definition RC_RDMA_WRITE_LAST_WITH_IMD :: ibOpCode where "RC_RDMA_WRITE_LAST_WITH_IMD = 0x09"
definition RC_RDMA_WRITE_ONLY :: ibOpCode where "RC_RDMA_WRITE_ONLY = 0x0A"
definition RC_RDMA_WRITE_ONLY_WIT_IMD :: ibOpCode where "RC_RDMA_WRITE_ONLY_WIT_IMD = 0x0B"
definition RC_RDMA_READ_REQUEST :: ibOpCode where "RC_RDMA_READ_REQUEST = 0x0C"
definition RC_RDMA_READ_RESP_FIRST :: ibOpCode where "RC_RDMA_READ_RESP_FIRST = 0x0D"
definition RC_RDMA_READ_RESP_MIDDLE :: ibOpCode where "RC_RDMA_READ_RESP_MIDDLE = 0x0E"
definition RC_RDMA_READ_RESP_LAST :: ibOpCode where "RC_RDMA_READ_RESP_LAST = 0x0F"
definition RC_RDMA_READ_RESP_ONLY :: ibOpCode where "RC_RDMA_READ_RESP_ONLY = 0x10"
definition RC_ACK :: ibOpCode where "RC_ACK = 0x11"

lemmas op_defs = RC_SEND_FIRST_def RC_SEND_MIDDLE_def RC_SEND_LAST_def RC_SEND_LAST_WITH_IMD_def RC_SEND_ONLY_def
  RC_SEND_ONLY_WITH_IMD_def RC_RDMA_WRITE_FIRST_def RC_RDMA_WRITE_MIDDLE_def RC_RDMA_WRITE_LAST_def
  RC_RDMA_WRITE_LAST_WITH_IMD_def RC_RDMA_WRITE_ONLY_def RC_RDMA_WRITE_ONLY_WIT_IMD_def RC_RDMA_READ_REQUEST_def
  RC_RDMA_READ_RESP_FIRST_def RC_RDMA_READ_RESP_MIDDLE_def RC_RDMA_READ_RESP_LAST_def RC_RDMA_READ_RESP_ONLY_def
  RC_ACK_def

definition checkIfResponse :: "ibOpCode \<Rightarrow> bool" where
  "checkIfResponse code \<longleftrightarrow>
     code = RC_RDMA_READ_RESP_FIRST \<or> code = RC_RDMA_READ_RESP_MIDDLE \<or> code = RC_RDMA_READ_RESP_LAST
     \<or> code = RC_RDMA_READ_RESP_ONLY \<or> code = RC_ACK"

definition checkIfWrite :: "ibOpCode \<Rightarrow> bool" where
  "checkIfWrite code \<longleftrightarrow>
     code = RC_RDMA_WRITE_FIRST \<or> code = RC_RDMA_WRITE_MIDDLE \<or> code = RC_RDMA_WRITE_LAST \<or> code = RC_RDMA_WRITE_ONLY"

definition checkIfAethHeader :: "ibOpCode \<Rightarrow> bool" where
  "checkIfAethHeader code \<longleftrightarrow>
     code = RC_RDMA_READ_RESP_ONLY \<or> code = RC_RDMA_READ_RESP_FIRST \<or> code = RC_RDMA_READ_RESP_LAST \<or> code = RC_ACK"

definition checkIfRethHeader :: "ibOpCode \<Rightarrow> bool" where
  "checkIfRethHeader code \<longleftrightarrow>
     code = RC_RDMA_WRITE_ONLY \<or> code = RC_RDMA_WRITE_FIRST \<or> code = RC_RDMA_READ_REQUEST"

lemmas check_defs = checkIfResponse_def checkIfWrite_def checkIfAethHeader_def checkIfRethHeader_def

text \<open>A packet has at most one extended header, and only responses acknowledge.\<close>

lemma header_kinds:
  "\<not> (checkIfAethHeader code \<and> checkIfRethHeader code)"
  "checkIfAethHeader code \<Longrightarrow> checkIfResponse code"
  "checkIfWrite code \<Longrightarrow> \<not> checkIfResponse code"
  by (auto simp: check_defs op_defs)

subsection \<open>Structs\<close>

record qpContext =
  qc_newState :: qpState
  qc_qp_num :: u24
  qc_remote_psn :: u24
  qc_local_psn :: u24
  qc_r_key :: u16
  qc_virtual_address :: u64

record ifConnReq =
  cr_qpn :: u16
  cr_remote_qpn :: u24
  cr_remote_ip_address :: u128
  cr_remote_udp_port :: u16

record readRequest =
  rq_qpn :: u24
  rq_vaddr :: u64
  rq_dma_length :: u32
  rq_psn :: u24
  rq_host :: u1

definition mk_readRequest :: "u24 \<Rightarrow> u64 \<Rightarrow> u32 \<Rightarrow> u24 \<Rightarrow> readRequest" where
  "mk_readRequest qpn vaddr len psn =
     \<lparr>rq_qpn = qpn, rq_vaddr = vaddr, rq_dma_length = len, rq_psn = psn, rq_host = 1\<rparr>"

record fwdPolicy =
  isDrop :: bool
  ackOnly :: bool

record memCmdInternal =
  mi_op_code :: ibOpCode
  mi_qpn :: u16
  mi_addr :: u64
  mi_len :: u32
  mi_host :: u1
  mi_sync :: u1
  mi_offs :: u4

definition mk_memCmdInternal :: "ibOpCode \<Rightarrow> u16 \<Rightarrow> u64 \<Rightarrow> u32 \<Rightarrow> u1 \<Rightarrow> memCmdInternal" where
  "mk_memCmdInternal op qpn addr len host = \<lparr>mi_op_code = op, mi_qpn = qpn, mi_addr = addr, mi_len = len,
     mi_host = host, mi_sync = 0, mi_offs = 0\<rparr>"

definition mk_memCmdInternal_offs :: "ibOpCode \<Rightarrow> u16 \<Rightarrow> u64 \<Rightarrow> u32 \<Rightarrow> u1 \<Rightarrow> u4 \<Rightarrow> memCmdInternal" where
  "mk_memCmdInternal_offs op qpn addr len host offs = \<lparr>mi_op_code = op, mi_qpn = qpn, mi_addr = addr, mi_len = len,
     mi_host = host, mi_sync = 1, mi_offs = offs\<rparr>"

record memCmd =
  mc_addr :: u48
  mc_len :: u28
  mc_ctl :: u1
  mc_strm :: u1
  mc_sync :: u1
  mc_host :: u1
  mc_tdst :: u4
  mc_pid :: u6
  mc_vfid :: u4

text \<open>The upper bits of an address choose stream and destination; a queue pair number holds process and
  region.\<close>

definition mk_memCmd :: "u64 \<Rightarrow> u32 \<Rightarrow> u1 \<Rightarrow> u1 \<Rightarrow> u24 \<Rightarrow> memCmd" where
  "mk_memCmd addr len ctl host qpn = \<lparr>mc_addr = ucast addr, mc_len = ucast len, mc_ctl = ctl,
     mc_strm = ucast (drop_bit 52 addr), mc_sync = 0, mc_host = host, mc_tdst = ucast (drop_bit 48 addr),
     mc_pid = ucast qpn, mc_vfid = ucast (drop_bit 6 qpn)\<rparr>"

definition mk_memCmd_offs :: "u64 \<Rightarrow> u32 \<Rightarrow> u1 \<Rightarrow> u1 \<Rightarrow> u1 \<Rightarrow> u4 \<Rightarrow> u24 \<Rightarrow> memCmd" where
  "mk_memCmd_offs addr len ctl sync host tdst qpn = \<lparr>mc_addr = ucast addr, mc_len = ucast len, mc_ctl = ctl,
     mc_strm = 0, mc_sync = sync, mc_host = host, mc_tdst = tdst, mc_pid = ucast qpn, mc_vfid = ucast (drop_bit 6 qpn)\<rparr>"

record txMeta =
  tm_op_code :: ibOpCode
  tm_qpn :: u10
  tm_host :: u1
  tm_lst :: u1
  tm_offs :: u4
  tm_params :: u192

record ackMeta =
  am_rd :: bool
  am_qpn :: u10
  am_psn :: u24

record ackEvent =
  ae_qpn :: u24
  ae_psn :: u24
  ae_validPsn :: bool
  ae_isNak :: bool

definition mk_ackEvent :: "u24 \<Rightarrow> u24 \<Rightarrow> bool \<Rightarrow> ackEvent" where
  "mk_ackEvent qp psn nak = \<lparr>ae_qpn = qp, ae_psn = psn, ae_validPsn = True, ae_isNak = nak\<rparr>"

record ibEvent =
  ev_op_code :: ibOpCode
  ev_qpn :: u24
  ev_addr :: u64
  ev_length :: u32
  ev_psn :: u24
  ev_validPsn :: bool
  ev_isNak :: bool

text \<open>The constructor from an acknowledgement leaves address and length as they are in memory; the
  model has them as arguments.\<close>

definition ibEvent_of_ack :: "u64 \<Rightarrow> u32 \<Rightarrow> ackEvent \<Rightarrow> ibEvent" where
  "ibEvent_of_ack addr len aev = \<lparr>ev_op_code = RC_ACK, ev_qpn = ae_qpn aev, ev_addr = addr, ev_length = len,
     ev_psn = ae_psn aev, ev_validPsn = ae_validPsn aev, ev_isNak = ae_isNak aev\<rparr>"

definition mk_ibEvent :: "ibOpCode \<Rightarrow> u24 \<Rightarrow> u64 \<Rightarrow> u32 \<Rightarrow> ibEvent" where
  "mk_ibEvent op qp addr len = \<lparr>ev_op_code = op, ev_qpn = qp, ev_addr = addr, ev_length = len, ev_psn = 0,
     ev_validPsn = False, ev_isNak = False\<rparr>"

definition mk_ibEvent_psn :: "ibOpCode \<Rightarrow> u24 \<Rightarrow> u64 \<Rightarrow> u32 \<Rightarrow> u24 \<Rightarrow> ibEvent" where
  "mk_ibEvent_psn op qp addr len psn = \<lparr>ev_op_code = op, ev_qpn = qp, ev_addr = addr, ev_length = len, ev_psn = psn,
     ev_validPsn = True, ev_isNak = False\<rparr>"

record pkgShift =
  ps_type :: pkgShiftType
  ps_qpn :: u24

record pkgInfo =
  pi_type :: pkgType
  pi_words :: "29 word"

record retransEvent =
  rt_op_code :: ibOpCode
  rt_qpn :: u24
  rt_localAddr :: u64
  rt_remoteAddr :: u64
  rt_length :: u32
  rt_psn :: u24
  rt_lst :: u1
  rt_offs :: u4
  rt_validPsn :: bool
  rt_isNak :: bool

definition mk_retransEvent :: "ibOpCode \<Rightarrow> u24 \<Rightarrow> u64 \<Rightarrow> u64 \<Rightarrow> u32 \<Rightarrow> u24 \<Rightarrow> u1 \<Rightarrow> u4 \<Rightarrow> retransEvent" where
  "mk_retransEvent op qp laddr raddr len psn lst offs = \<lparr>rt_op_code = op, rt_qpn = qp, rt_localAddr = laddr,
     rt_remoteAddr = raddr, rt_length = len, rt_psn = psn, rt_lst = lst, rt_offs = offs, rt_validPsn = True,
     rt_isNak = False\<rparr>"

text \<open>Requests to the retransmitter and its answer (\<^verbatim>\<open>retransmitter/retransmitter.hpp\<close>).\<close>

record retransUpdate =
  ru_qpn :: u16
  ru_latest_acked_req :: u24
  ru_op_code :: ibOpCode

record retransRdInit =
  ri_laddr :: u64
  ri_lst :: u1

record retransmission =
  rn_qpn :: u16
  rn_psn :: u24

record ibhMeta =
  im_op_code :: ibOpCode
  im_partition_key :: u16
  im_dest_qp :: u24
  im_psn :: u24
  im_validPSN :: bool
  im_numPkg :: u22

definition mk_ibhMeta :: "ibOpCode \<Rightarrow> u16 \<Rightarrow> u24 \<Rightarrow> u22 \<Rightarrow> ibhMeta" where
  "mk_ibhMeta op key qp num = \<lparr>im_op_code = op, im_partition_key = key, im_dest_qp = qp, im_psn = 0,
     im_validPSN = False, im_numPkg = num\<rparr>"

definition mk_ibhMeta_psn :: "ibOpCode \<Rightarrow> u16 \<Rightarrow> u24 \<Rightarrow> u24 \<Rightarrow> bool \<Rightarrow> ibhMeta" where
  "mk_ibhMeta_psn op key qp psn vp = \<lparr>im_op_code = op, im_partition_key = key, im_dest_qp = qp, im_psn = psn,
     im_validPSN = vp, im_numPkg = 1\<rparr>"

record exhMeta =
  em_isNak :: bool
  em_numPkg :: u22

end
