(* ===== verification/Roce_Retransmitter.thy ===== *)
theory Roce_Retransmitter
  imports Linked_Queues Roce_Types
begin

text \<open>
  The retransmitter of the RoCE transport (\<^verbatim>\<open>ib_transport_protocol/retransmitter/retransmitter.hpp\<close>): it
  keeps the requests of every queue pair until they are acknowledged and sends them again on a timeout
  or a negative acknowledgement. The memory is that of \<open>Linked_Queues\<close>; its three processes have the same
  text in both files.
\<close>

subsection \<open>State\<close>

definition META_TABLE_SIZE :: u16 where "META_TABLE_SIZE = 2000"

text \<open>What is stored of a request; \<open>retransEntry\<close> has the queue pair in addition, a cell the fields of
  the list.\<close>

record retransInfo =
  rx_psn :: u24
  rx_opCode :: ibOpCode
  rx_localAddr :: u64
  rx_remoteAddr :: u64
  rx_length :: u32
  rx_lst :: u1
  rx_offs :: u4

record retransEntry =
  rte_qpn :: u16
  rte_info :: retransInfo

datatype retransStateType =
  MAIN | INSERT_0 | INSERT_1 | UPDATE_0 | UPDATE_1 | RETRANS_0 | RETRANS_1 | RETRANS_2 | TIMER_RETRANS_0

record retransmitterState = "retransInfo linkedMem" +
  rx2retrans_upd :: "retransUpdate stream"
  retrans2rx_init :: "retransRdInit stream"
  rx2retrans_req :: "retransmission stream"
  timer2retrans_req :: "retransmission stream"
  tx2retrans_insertRequest :: "retransEntry stream"
  retrans2event :: "retransEvent stream"
  rt_state :: retransStateType
  rt_update :: retransUpdate
  rt_curr :: u16
  rt_newMetaIdx :: u16
  rt_insert :: retransEntry
  rt_retrans :: retransmission
  rt_ptrMeta :: mqPointerEntry

definition no_info :: retransInfo where
  "no_info = \<lparr>rx_psn = 0, rx_opCode = 0, rx_localAddr = 0, rx_remoteAddr = 0, rx_length = 0, rx_lst = 0, rx_offs = 0\<rparr>"

definition retrans_init :: retransmitterState where
  "retrans_init = \<lparr>pointerReqFifo = [], pointerUpdFifo = [], pointerRspFifo = [], metaReqFifo = [], metaRspFifo = [],
     freeListFifo = [], releaseFifo = [], ptr_table = (\<lambda>_. \<lparr>pe_head = 0, pe_tail = 0, pe_valid = False\<rparr>),
     lockedKey = 0, isLocked = False, ptr_wait = False, ptr_request = (0, False),
     meta_table = (\<lambda>_. \<lparr>me_value = no_info, me_next = 0, me_valid = False, me_isTail = False\<rparr>), freeListCounter = 0,
     rx2retrans_upd = [], retrans2rx_init = [], rx2retrans_req = [], timer2retrans_req = [],
     tx2retrans_insertRequest = [], retrans2event = [], rt_state = MAIN,
     rt_update = \<lparr>ru_qpn = 0, ru_latest_acked_req = 0, ru_op_code = 0\<rparr>, rt_curr = 0, rt_newMetaIdx = 0,
     rt_insert = \<lparr>rte_qpn = 0, rte_info = no_info\<rparr>, rt_retrans = \<lparr>rn_qpn = 0, rn_psn = 0\<rparr>,
     rt_ptrMeta = \<lparr>pe_head = 0, pe_tail = 0, pe_valid = False\<rparr>\<rparr>"

subsection \<open>The main process\<close>

definition resend :: "u16 \<Rightarrow> retransInfo \<Rightarrow> retransEvent" where
  "resend qpn m = mk_retransEvent (rx_opCode m) (ucast qpn) (rx_localAddr m) (rx_remoteAddr m) (rx_length m)
     (rx_psn m) (rx_lst m) (rx_offs m)"

text \<open>One response packet of a read has arrived: the rest of the request remains.\<close>

definition advance :: "u16 \<Rightarrow> retransInfo \<Rightarrow> retransInfo" where
  "advance pmtu m = m\<lparr>rx_localAddr := rx_localAddr m + ucast pmtu, rx_remoteAddr := rx_remoteAddr m + ucast pmtu,
     rx_length := rx_length m - ucast pmtu, rx_psn := rx_psn m + 1\<rparr>"

definition rt_main :: "retransmitterState \<Rightarrow> retransmitterState" where
  "rt_main s =
     (if rx2retrans_upd s \<noteq> [] then
        let u = hd (rx2retrans_upd s)
        in s\<lparr>rx2retrans_upd := tl (rx2retrans_upd s), rt_update := u,
             pointerReqFifo := pointerReqFifo s @ [(ru_qpn u, True)], rt_state := UPDATE_0\<rparr>
      else if rx2retrans_req s \<noteq> [] then
        let r = hd (rx2retrans_req s)
        in s\<lparr>rx2retrans_req := tl (rx2retrans_req s), rt_retrans := r,
             pointerReqFifo := pointerReqFifo s @ [(rn_qpn r, False)], rt_state := RETRANS_0\<rparr>
      else if timer2retrans_req s \<noteq> [] then
        let r = hd (timer2retrans_req s)
        in s\<lparr>timer2retrans_req := tl (timer2retrans_req s), rt_retrans := r,
             pointerReqFifo := pointerReqFifo s @ [(rn_qpn r, False)], rt_state := TIMER_RETRANS_0\<rparr>
      else if tx2retrans_insertRequest s \<noteq> [] \<and> freeListFifo s \<noteq> [] then
        let e = hd (tx2retrans_insertRequest s)
        in s\<lparr>rt_newMetaIdx := hd (freeListFifo s), freeListFifo := tl (freeListFifo s),
             tx2retrans_insertRequest := tl (tx2retrans_insertRequest s), rt_insert := e,
             pointerReqFifo := pointerReqFifo s @ [(rte_qpn e, True)], rt_state := INSERT_0\<rparr>
      else s)"

definition rt_insert_0 :: "mqPointerEntry \<Rightarrow> retransmitterState \<Rightarrow> retransmitterState" where
  "rt_insert_0 p s =
     (if \<not> pe_valid p then
        let p' = \<lparr>pe_head = rt_newMetaIdx s, pe_tail = rt_newMetaIdx s, pe_valid = True\<rparr>
        in s\<lparr>rt_ptrMeta := p',
             metaReqFifo := metaReqFifo s @ [MetaWrite (rt_newMetaIdx s) (fresh_cell (rte_info (rt_insert s)))],
             pointerUpdFifo := pointerUpdFifo s @ [(rte_qpn (rt_insert s), p')], rt_state := MAIN\<rparr>
      else
        s\<lparr>metaReqFifo := metaReqFifo s @ [MetaAppend (pe_tail p) (rt_newMetaIdx s)],
          rt_ptrMeta := p\<lparr>pe_tail := rt_newMetaIdx s\<rparr>, rt_state := INSERT_1\<rparr>)"

definition rt_update_0 :: "mqPointerEntry \<Rightarrow> retransmitterState \<Rightarrow> retransmitterState" where
  "rt_update_0 p s =
     (if pe_valid p
      then s\<lparr>rt_ptrMeta := p, metaReqFifo := metaReqFifo s @ [MetaRead (pe_head p)], rt_curr := pe_head p,
             rt_state := UPDATE_1\<rparr>
      else s\<lparr>rt_ptrMeta := p, pointerUpdFifo := pointerUpdFifo s @ [(ru_qpn (rt_update s), p)], rt_state := MAIN\<rparr>)"

definition rt_update_1 :: "u16 \<Rightarrow> retransInfo mqMetaEntry \<Rightarrow> retransmitterState \<Rightarrow> retransmitterState" where
  "rt_update_1 pmtu m s =
     (if \<not> me_valid m then s
      else
        let op = ru_op_code (rt_update s);
            s1 = (if op = RC_RDMA_READ_RESP_FIRST \<or> op = RC_RDMA_READ_RESP_ONLY
                  then s\<lparr>retrans2rx_init := retrans2rx_init s @
                         [\<lparr>ri_laddr = rx_localAddr (me_value m), ri_lst = rx_lst (me_value m)\<rparr>]\<rparr>
                  else s);
            s2 = (if op = RC_RDMA_READ_RESP_FIRST \<or> op = RC_RDMA_READ_RESP_MIDDLE
                  then s1\<lparr>metaReqFifo := metaReqFifo s @
                         [MetaWrite (pe_head (rt_ptrMeta s)) (m\<lparr>me_value := advance pmtu (me_value m)\<rparr>)]\<rparr>
                  else s1\<lparr>rt_ptrMeta := (rt_ptrMeta s)\<lparr>pe_valid := \<not> me_isTail m, pe_head := me_next m\<rparr>,
                         releaseFifo := releaseFifo s @ [rt_curr s], rt_curr := me_next m\<rparr>)
        in s2\<lparr>pointerUpdFifo := pointerUpdFifo s @ [(ru_qpn (rt_update s), rt_ptrMeta s2)], rt_state := MAIN\<rparr>)"

definition rt_retrans_0 :: "mqPointerEntry \<Rightarrow> retransmitterState \<Rightarrow> retransmitterState" where
  "rt_retrans_0 p s =
     (if pe_valid p
      then s\<lparr>rt_ptrMeta := p, metaReqFifo := metaReqFifo s @ [MetaRead (pe_head p)], rt_curr := pe_head p,
             rt_state := RETRANS_1\<rparr>
      else s\<lparr>rt_ptrMeta := p, rt_state := MAIN\<rparr>)"

text \<open>The last assignment to the state counts: after a cell that is the tail and has another sequence
  number the process waits for a further cell that it has not asked for.\<close>

definition rt_retrans_1 :: "retransInfo mqMetaEntry \<Rightarrow> retransmitterState \<Rightarrow> retransmitterState" where
  "rt_retrans_1 m s =
     (let s0 = s\<lparr>rt_state := MAIN\<rparr>
      in if \<not> me_valid m then s0
         else
           let s1 = (if me_isTail m then s0\<lparr>rt_state := MAIN\<rparr>
                     else s0\<lparr>metaReqFifo := metaReqFifo s @ [MetaRead (me_next m)]\<rparr>)
           in if rx_psn (me_value m) = rn_psn (rt_retrans s)
              then let s2 = s1\<lparr>retrans2event := retrans2event s @ [resend (rn_qpn (rt_retrans s)) (me_value m)]\<rparr>
                   in if \<not> me_isTail m then s2\<lparr>rt_state := RETRANS_2\<rparr> else s2
              else s1\<lparr>rt_state := RETRANS_1\<rparr>)"

definition rt_retrans_2 :: "retransInfo mqMetaEntry \<Rightarrow> retransmitterState \<Rightarrow> retransmitterState" where
  "rt_retrans_2 m s =
     (let s0 = s\<lparr>rt_state := MAIN\<rparr>
      in if \<not> me_valid m then s0
         else
           let s1 = (if \<not> me_isTail m
                     then s0\<lparr>metaReqFifo := metaReqFifo s @ [MetaRead (me_next m)], rt_state := RETRANS_2\<rparr>
                     else s0)
           in s1\<lparr>retrans2event := retrans2event s @ [resend (rn_qpn (rt_retrans s)) (me_value m)]\<rparr>)"

definition rt_timer_0 :: "mqPointerEntry \<Rightarrow> retransmitterState \<Rightarrow> retransmitterState" where
  "rt_timer_0 p s =
     (if pe_valid p
      then s\<lparr>rt_ptrMeta := p, metaReqFifo := metaReqFifo s @ [MetaRead (pe_head p)], rt_state := RETRANS_2\<rparr>
      else s\<lparr>rt_ptrMeta := p, rt_state := MAIN\<rparr>)"

definition on_pointer ::
    "(mqPointerEntry \<Rightarrow> retransmitterState \<Rightarrow> retransmitterState) \<Rightarrow> retransmitterState \<Rightarrow> retransmitterState" where
  "on_pointer f s = (case pointerRspFifo s of [] \<Rightarrow> s | p # q \<Rightarrow> f p (s\<lparr>pointerRspFifo := q\<rparr>))"

definition on_cell ::
    "(retransInfo mqMetaEntry \<Rightarrow> retransmitterState \<Rightarrow> retransmitterState) \<Rightarrow> retransmitterState \<Rightarrow> retransmitterState" where
  "on_cell f s = (case metaRspFifo s of [] \<Rightarrow> s | m # q \<Rightarrow> f m (s\<lparr>metaRspFifo := q\<rparr>))"

definition process_retransmissions :: "u16 \<Rightarrow> retransmitterState \<Rightarrow> retransmitterState" where
  "process_retransmissions pmtu s =
     (case rt_state s of
        MAIN \<Rightarrow> rt_main s
      | INSERT_0 \<Rightarrow> on_pointer rt_insert_0 s
      | INSERT_1 \<Rightarrow>
          s\<lparr>metaReqFifo := metaReqFifo s @ [MetaWrite (rt_newMetaIdx s) (fresh_cell (rte_info (rt_insert s)))],
            pointerUpdFifo := pointerUpdFifo s @ [(rte_qpn (rt_insert s), rt_ptrMeta s)], rt_state := MAIN\<rparr>
      | UPDATE_0 \<Rightarrow> on_pointer rt_update_0 s
      | UPDATE_1 \<Rightarrow> on_cell (rt_update_1 pmtu) s
      | RETRANS_0 \<Rightarrow> on_pointer rt_retrans_0 s
      | RETRANS_1 \<Rightarrow> on_cell rt_retrans_1 s
      | RETRANS_2 \<Rightarrow> on_cell rt_retrans_2 s
      | TIMER_RETRANS_0 \<Rightarrow> on_pointer rt_timer_0 s)"

definition retransmitter :: "u16 \<Rightarrow> bool \<Rightarrow> retransmitterState \<Rightarrow> retransmitterState" where
  "retransmitter pmtu full s =
     process_retransmissions pmtu (mq_meta_table (mq_pointer_table (mq_freelist_handler META_TABLE_SIZE full s)))"

subsection \<open>Specification: the unacknowledged requests of every queue pair\<close>

type_synonym rt_abs = "(u16 \<Rightarrow> retransInfo list) \<times> retransRdInit list \<times> retransEvent list"

datatype rtOp = OpUpdate retransUpdate | OpRetrans retransmission | OpTimeout retransmission | OpInsert retransEntry

definition rd_init :: "ibOpCode \<Rightarrow> retransInfo list \<Rightarrow> retransRdInit list" where
  "rd_init op xs =
     (if op = RC_RDMA_READ_RESP_FIRST \<or> op = RC_RDMA_READ_RESP_ONLY
      then map (\<lambda>m. \<lparr>ri_laddr = rx_localAddr m, ri_lst = rx_lst m\<rparr>) (take 1 xs) else [])"

definition acked :: "u16 \<Rightarrow> ibOpCode \<Rightarrow> retransInfo list \<Rightarrow> retransInfo list" where
  "acked pmtu op xs =
     (if op = RC_RDMA_READ_RESP_FIRST \<or> op = RC_RDMA_READ_RESP_MIDDLE
      then map (advance pmtu) (take 1 xs) @ tl xs else tl xs)"

definition from_psn :: "u24 \<Rightarrow> retransInfo list \<Rightarrow> retransInfo list" where
  "from_psn psn = dropWhile (\<lambda>m. rx_psn m \<noteq> psn)"

fun rt_spec :: "u16 \<Rightarrow> rtOp \<Rightarrow> rt_abs \<Rightarrow> rt_abs" where
  "rt_spec pmtu (OpUpdate u) (Q, ini, ev) =
     (Q(ru_qpn u := acked pmtu (ru_op_code u) (Q (ru_qpn u))), ini @ rd_init (ru_op_code u) (Q (ru_qpn u)), ev)"
| "rt_spec pmtu (OpRetrans r) (Q, ini, ev) =
     (Q, ini, ev @ map (resend (rn_qpn r)) (from_psn (rn_psn r) (Q (rn_qpn r))))"
| "rt_spec pmtu (OpTimeout r) (Q, ini, ev) = (Q, ini, ev @ map (resend (rn_qpn r)) (Q (rn_qpn r)))"
| "rt_spec pmtu (OpInsert e) (Q, ini, ev) = (Q(rte_qpn e := Q (rte_qpn e) @ [rte_info e]), ini, ev)"

definition rt_accepts :: "retransmitterState \<Rightarrow> rtOp option" where
  "rt_accepts s =
     (if rt_state s \<noteq> MAIN then None
      else if rx2retrans_upd s \<noteq> [] then Some (OpUpdate (hd (rx2retrans_upd s)))
      else if rx2retrans_req s \<noteq> [] then Some (OpRetrans (hd (rx2retrans_req s)))
      else if timer2retrans_req s \<noteq> [] then Some (OpTimeout (hd (timer2retrans_req s)))
      else if tx2retrans_insertRequest s \<noteq> [] \<and> freeListFifo s \<noteq> [] then Some (OpInsert (hd (tx2retrans_insertRequest s)))
      else None)"

datatype rtIn = InUpdate retransUpdate | InNak retransmission | InTimeout retransmission | InInsert retransEntry
  | RtPointerTable | RtFreeList bool | RtMetaTable | RtMain

fun rt_step :: "u16 \<Rightarrow> rtIn \<Rightarrow> retransmitterState \<times> rt_abs \<Rightarrow> retransmitterState \<times> rt_abs" where
  "rt_step pmtu (InUpdate u) (s, a) = (s\<lparr>rx2retrans_upd := rx2retrans_upd s @ [u]\<rparr>, a)"
| "rt_step pmtu (InNak r) (s, a) = (s\<lparr>rx2retrans_req := rx2retrans_req s @ [r]\<rparr>, a)"
| "rt_step pmtu (InTimeout r) (s, a) = (s\<lparr>timer2retrans_req := timer2retrans_req s @ [r]\<rparr>, a)"
| "rt_step pmtu (InInsert e) (s, a) = (s\<lparr>tx2retrans_insertRequest := tx2retrans_insertRequest s @ [e]\<rparr>, a)"
| "rt_step pmtu RtPointerTable (s, a) = (mq_pointer_table s, a)"
| "rt_step pmtu (RtFreeList full) (s, a) = (mq_freelist_handler META_TABLE_SIZE full s, a)"
| "rt_step pmtu RtMetaTable (s, a) = (mq_meta_table s, a)"
| "rt_step pmtu RtMain (s, a) =
     (process_retransmissions pmtu s, case rt_accepts s of None \<Rightarrow> a | Some r \<Rightarrow> rt_spec pmtu r a)"

subsection \<open>Simulation\<close>

definition rt_sim :: "u16 \<Rightarrow> retransmitterState \<times> rt_abs \<Rightarrow> (u16 \<Rightarrow> u16 list) \<Rightarrow> u16 list \<Rightarrow> bool" where
  "rt_sim pmtu c L ys \<longleftrightarrow>
     (let (s, Q, ini, ev) = c; T = meta_eff s; P = ptr_eff s; F = freeListFifo s @ releaseFifo s; n = unat (freeListCounter s);
          C = contents T L; u = rt_update s; r = rt_retrans s; i = retrans2rx_init s; e = retrans2event s;
          Ok = (lists_ok T P L \<and> cells_ok F L n);
          Upd = (Q = C(ru_qpn u := acked pmtu (ru_op_code u) (C (ru_qpn u)))
                 \<and> ini = i @ rd_init (ru_op_code u) (C (ru_qpn u)) \<and> ev = e);
          Rest = (\<lambda>xs. Q = C \<and> ini = i \<and> ev = e @ map (resend (rn_qpn r)) xs)
      in case rt_state s of
           MAIN \<Rightarrow> ptr_idle s \<and> meta_idle s \<and> Ok \<and> Rest []
         | INSERT_0 \<Rightarrow>
             ptr_asked (rte_qpn (rt_insert s)) s \<and> meta_idle s \<and> lists_ok T P L \<and> cells_ok (rt_newMetaIdx s # F) L n
             \<and> Q = C(rte_qpn (rt_insert s) := C (rte_qpn (rt_insert s)) @ [rte_info (rt_insert s)]) \<and> ini = i \<and> ev = e
         | INSERT_1 \<Rightarrow>
             (let T' = T(rt_newMetaIdx s := fresh_cell (rte_info (rt_insert s)));
                  P' = P(rte_qpn (rt_insert s) := rt_ptrMeta s)
              in ptr_idle s \<and> meta_idle s \<and> lists_ok T' P' L \<and> cells_ok F L n \<and> Q = contents T' L \<and> ini = i \<and> ev = e)
         | UPDATE_0 \<Rightarrow> ptr_asked (ru_qpn u) s \<and> meta_idle s \<and> Ok \<and> Upd
         | UPDATE_1 \<Rightarrow>
             ptr_idle s \<and> L (ru_qpn u) \<noteq> [] \<and> meta_asked (hd (L (ru_qpn u))) s \<and> rt_ptrMeta s = P (ru_qpn u)
             \<and> rt_curr s = hd (L (ru_qpn u)) \<and> Ok \<and> Upd
         | RETRANS_0 \<Rightarrow>
             ptr_asked (rn_qpn r) s \<and> meta_idle s \<and> Ok \<and> Rest (from_psn (rn_psn r) (C (rn_qpn r)))
         | RETRANS_1 \<Rightarrow>
             suffix ys (L (rn_qpn r)) \<and> ptr_idle s \<and> at_cells ys s
             \<and> Ok \<and> Rest (from_psn (rn_psn r) (map (me_value \<circ> T) ys))
         | RETRANS_2 \<Rightarrow>
             suffix ys (L (rn_qpn r)) \<and> ys \<noteq> [] \<and> ptr_idle s \<and> at_cells ys s \<and> Ok \<and> Rest (map (me_value \<circ> T) ys)
         | TIMER_RETRANS_0 \<Rightarrow> ptr_asked (rn_qpn r) s \<and> meta_idle s \<and> Ok \<and> Rest (C (rn_qpn r)))"

lemma rt_frame [simp]:
  "rt_state (mq_pointer_table s) = rt_state s" "rt_insert (mq_pointer_table s) = rt_insert s"
  "rt_update (mq_pointer_table s) = rt_update s" "rt_retrans (mq_pointer_table s) = rt_retrans s"
  "rt_newMetaIdx (mq_pointer_table s) = rt_newMetaIdx s" "rt_curr (mq_pointer_table s) = rt_curr s"
  "rt_ptrMeta (mq_pointer_table s) = rt_ptrMeta s" "retrans2event (mq_pointer_table s) = retrans2event s"
  "retrans2rx_init (mq_pointer_table s) = retrans2rx_init s"
  "rt_state (mq_meta_table s) = rt_state s" "rt_insert (mq_meta_table s) = rt_insert s"
  "rt_update (mq_meta_table s) = rt_update s" "rt_retrans (mq_meta_table s) = rt_retrans s"
  "rt_newMetaIdx (mq_meta_table s) = rt_newMetaIdx s" "rt_curr (mq_meta_table s) = rt_curr s"
  "rt_ptrMeta (mq_meta_table s) = rt_ptrMeta s" "retrans2event (mq_meta_table s) = retrans2event s"
  "retrans2rx_init (mq_meta_table s) = retrans2rx_init s"
  "rt_state (mq_freelist_handler n b s) = rt_state s" "rt_insert (mq_freelist_handler n b s) = rt_insert s"
  "rt_update (mq_freelist_handler n b s) = rt_update s" "rt_retrans (mq_freelist_handler n b s) = rt_retrans s"
  "rt_newMetaIdx (mq_freelist_handler n b s) = rt_newMetaIdx s" "rt_curr (mq_freelist_handler n b s) = rt_curr s"
  "rt_ptrMeta (mq_freelist_handler n b s) = rt_ptrMeta s" "retrans2event (mq_freelist_handler n b s) = retrans2event s"
  "retrans2rx_init (mq_freelist_handler n b s) = retrans2rx_init s"
  by (simp_all add: mq_pointer_table_def mq_meta_table_def mq_freelist_handler_def Let_def
      split: list.split prod.split mqMetaReq.split)

lemma rt_sim_tables:
  "rt_sim pmtu (s, a) L ys \<Longrightarrow> rt_sim pmtu (mq_pointer_table s, a) L ys"
  "rt_sim pmtu (s, a) L ys \<Longrightarrow> rt_sim pmtu (mq_meta_table s, a) L ys"
  by (cases a; cases "rt_state s"; simp add: rt_sim_def Let_def)+

lemma rt_sim_freelist: "rt_sim pmtu (s, a) L ys \<Longrightarrow> rt_sim pmtu (mq_freelist_handler sz full s, a) L ys"
  using freelist_cells [OF refl, of "[]" s L sz full] freelist_cells [OF refl, of "[rt_newMetaIdx s]" s L sz full]
  by (cases a; cases "rt_state s"; simp add: rt_sim_def Let_def)

lemmas mem_defs = ptr_idle_def ptr_asked_def meta_idle_def meta_asked_def meta_eff_def ptr_eff_def at_cells_def

lemma rt_sim_accept:
  assumes "rt_sim pmtu (s, a) L ys" "rt_state s = MAIN"
  shows "rt_sim pmtu (process_retransmissions pmtu s, case rt_accepts s of None \<Rightarrow> a | Some r \<Rightarrow> rt_spec pmtu r a) L ys"
proof (cases "freeListFifo s")
  case Nil
  then show ?thesis using assms
    by (cases a) (auto simp: rt_sim_def process_retransmissions_def rt_main_def rt_accepts_def Let_def mem_defs)
next
  case Cons
  then show ?thesis using assms
    by (cases a) (auto simp: rt_sim_def process_retransmissions_def rt_main_def rt_accepts_def Let_def mem_defs)
qed

lemma rt_sim_insert_0:
  assumes "rt_sim pmtu (s, a) L ys" "rt_state s = INSERT_0"
  shows "\<exists>L'. rt_sim pmtu (process_retransmissions pmtu s, a) L' ys"
proof (cases "pointerRspFifo s")
  case Nil
  then have "process_retransmissions pmtu s = s" using assms(2) by (simp add: process_retransmissions_def on_pointer_def)
  then show ?thesis using assms(1) by metis
next
  case (Cons p q)
  obtain Q ini ev where a: "a = (Q, ini, ev)" by (metis prod_cases3)
  obtain k v where kv: "rt_insert s = \<lparr>rte_qpn = k, rte_info = v\<rparr>" by (cases "rt_insert s")
  let ?T = "meta_eff s" and ?P = "ptr_eff s" and ?L = "L(k := L k @ [rt_newMetaIdx s])"
  have b: "ptr_asked k s" "meta_idle s" "lists_ok ?T ?P L"
      "cells_ok (rt_newMetaIdx s # freeListFifo s @ releaseFifo s) L (unat (freeListCounter s))"
      "Q = (contents ?T L)(k := contents ?T L k @ [v])" "ini = retrans2rx_init s" "ev = retrans2event s"
    using assms kv by (simp_all add: rt_sim_def a Let_def)
  have p: "p = ?P k" "q = []" "pointerReqFifo s = []" "\<not> ptr_wait s"
    using b(1) Cons by (auto simp: ptr_asked_def)
  have "rt_sim pmtu (process_retransmissions pmtu s, a) ?L ys"
  proof (cases "pe_valid p")
    case False
    then show ?thesis using assms(2) b Cons p kv push_first [OF b(3,4), of k v] cells_ok_push [OF b(4), of k]
      by (simp add: rt_sim_def a process_retransmissions_def on_pointer_def rt_insert_0_def Let_def mem_defs)
  next
    case True
    then show ?thesis using assms(2) b Cons p kv push_next [OF b(3,4), of k v] cells_ok_push [OF b(4), of k]
      by (simp add: rt_sim_def a process_retransmissions_def on_pointer_def rt_insert_0_def Let_def mem_defs)
  qed
  then show ?thesis by blast
qed

lemma rt_sim_insert_1:
  assumes "rt_sim pmtu (s, a) L ys" "rt_state s = INSERT_1"
  shows "rt_sim pmtu (process_retransmissions pmtu s, a) L ys"
  using assms by (cases a) (simp add: rt_sim_def process_retransmissions_def Let_def mem_defs)

text \<open>The states that wait for the pointers of a queue.\<close>

lemma asked_pointer:
  assumes "ptr_asked k s" "meta_idle s" "lists_ok (meta_eff s) (ptr_eff s) L" "pointerRspFifo s = p # q"
  shows "p = ptr_eff s k" "q = []" "pointerReqFifo s = []" "\<not> ptr_wait s" "\<not> pe_valid p \<longleftrightarrow> L k = []"
    and "L k \<noteq> [] \<Longrightarrow> pe_head p = hd (L k)"
proof -
  show p: "p = ptr_eff s k" "q = []" "pointerReqFifo s = []" "\<not> ptr_wait s"
    using assms(1,4) by (auto simp: ptr_asked_def)
  show "\<not> pe_valid p \<longleftrightarrow> L k = []" "L k \<noteq> [] \<Longrightarrow> pe_head p = hd (L k)"
    using lists_ok_empty [OF assms(3), of k] lists_ok_head [OF assms(3), of k] p(1) by simp_all
qed

definition asked_qpn :: "retransmitterState \<Rightarrow> u16" where
  "asked_qpn s = (if rt_state s = UPDATE_0 then ru_qpn (rt_update s) else rn_qpn (rt_retrans s))"

lemma rt_sim_pointer:
  assumes "rt_sim pmtu (s, a) L ys" "rt_state s \<in> {UPDATE_0, RETRANS_0, TIMER_RETRANS_0}" "pointerRspFifo s = p # q"
  shows "rt_sim pmtu (process_retransmissions pmtu s, a) L (L (asked_qpn s))"
proof -
  obtain Q ini ev where a: "a = (Q, ini, ev)" by (metis prod_cases3)
  have b: "ptr_asked (asked_qpn s) s" "meta_idle s" "lists_ok (meta_eff s) (ptr_eff s) L"
    using assms by (auto simp: rt_sim_def a Let_def asked_qpn_def)
  note p = asked_pointer [OF b assms(3)]
  show ?thesis
  proof (cases "pe_valid p")
    case True
    then show ?thesis using assms p
      by (auto simp: rt_sim_def a process_retransmissions_def on_pointer_def rt_update_0_def rt_retrans_0_def
          rt_timer_0_def Let_def mem_defs contents_def asked_qpn_def)
  next
    case False
    then have e: "L (asked_qpn s) = []" using p(5) by simp
    then show ?thesis using assms p False
      by (auto simp: rt_sim_def a process_retransmissions_def on_pointer_def rt_update_0_def rt_retrans_0_def
          rt_timer_0_def Let_def mem_defs contents_def acked_def rd_init_def from_psn_def fun_upd_idem asked_qpn_def)
  qed
qed

lemma asked_cell:
  assumes "at_cells ys s" "suffix ys (L k)" "lists_ok (meta_eff s) (ptr_eff s) L" "metaRspFifo s = m # q"
  obtains y zs where "ys = y # zs" "m = meta_eff s y" "q = []" "metaReqFifo s = []" "me_valid m"
    "me_isTail m \<longleftrightarrow> zs = []" "zs \<noteq> [] \<Longrightarrow> me_next m = hd zs" "suffix zs (L k)"
proof -
  obtain y zs where ys: "ys = y # zs" using assms(1,4) by (cases ys) (auto simp: at_cells_def meta_idle_def)
  have m: "m = meta_eff s y" "q = []" "metaReqFifo s = []"
    using assms(1,4) ys by (auto simp: at_cells_def meta_asked_def)
  have "chain (meta_eff s) (L k)" using lists_ok_at [OF assms(3)] by (simp add: queue_at_def)
  then have c: "chain (meta_eff s) (y # zs)" using chain_suffix assms(2) ys by blast
  show ?thesis using that [OF ys m] chain_ConsD [OF c] m assms(2) ys by (auto intro: suffix_ConsD)
qed

lemma rt_sim_update_1:
  assumes "rt_sim pmtu (s, a) L ys" "rt_state s = UPDATE_1"
  shows "\<exists>L'. rt_sim pmtu (process_retransmissions pmtu s, a) L' ys"
proof (cases "metaRspFifo s")
  case Nil
  then have "process_retransmissions pmtu s = s" using assms(2) by (simp add: process_retransmissions_def on_cell_def)
  then show ?thesis using assms(1) by metis
next
  case (Cons m q)
  obtain Q ini ev where a: "a = (Q, ini, ev)" by (metis prod_cases3)
  obtain k psn op where u: "rt_update s = \<lparr>ru_qpn = k, ru_latest_acked_req = psn, ru_op_code = op\<rparr>"
    by (cases "rt_update s")
  let ?T = "meta_eff s" and ?P = "ptr_eff s" and ?v = "me_value m"
  have b: "ptr_idle s" "L k \<noteq> []" "at_cells (L k) s" "rt_ptrMeta s = ?P k" "rt_curr s = hd (L k)" "lists_ok ?T ?P L"
      "cells_ok (freeListFifo s @ releaseFifo s) L (unat (freeListCounter s))"
      "Q = (contents ?T L)(k := acked pmtu op (contents ?T L k))"
      "ini = retrans2rx_init s @ rd_init op (contents ?T L k)" "ev = retrans2event s"
    using assms u by (simp_all add: rt_sim_def a Let_def at_cells_def)
  obtain y zs where y: "L k = y # zs" "m = ?T y" "q = []" "metaReqFifo s = []" "me_valid m"
    using asked_cell [OF b(3) suffix_order.refl b(6) Cons] by blast
  note f = pop_first [OF b(6,7) y(1), folded y(2)]
  note g = update_first [OF b(6,7) y(1), of "advance pmtu ?v", folded y(2)]
  show ?thesis
  proof (cases "op = RC_RDMA_READ_RESP_FIRST \<or> op = RC_RDMA_READ_RESP_MIDDLE")
    case True
    then have "rt_sim pmtu (process_retransmissions pmtu s, a) L ys"
      using assms(2) b Cons y f(2,3) g u
      by (auto simp: rt_sim_def a process_retransmissions_def on_cell_def rt_update_1_def Let_def mem_defs acked_def
          rd_init_def)
    then show ?thesis by blast
  next
    case False
    then have "rt_sim pmtu (process_retransmissions pmtu s, a) (L(k := zs)) ys"
      using assms(2) b Cons y f u
      by (auto simp: rt_sim_def a process_retransmissions_def on_cell_def rt_update_1_def Let_def mem_defs acked_def
          rd_init_def)
    then show ?thesis by blast
  qed
qed

lemma rt_sim_retrans:
  assumes "rt_sim pmtu (s, a) L ys" "rt_state s \<in> {RETRANS_1, RETRANS_2}" "metaRspFifo s = m # q"
  shows "rt_sim pmtu (process_retransmissions pmtu s, a) L (tl ys)"
proof -
  obtain Q ini ev where a: "a = (Q, ini, ev)" by (metis prod_cases3)
  let ?k = "rn_qpn (rt_retrans s)"
  have b: "at_cells ys s" "suffix ys (L ?k)" "lists_ok (meta_eff s) (ptr_eff s) L"
    using assms by (auto simp: rt_sim_def a Let_def)
  obtain y zs where y: "ys = y # zs" "m = meta_eff s y" "q = []" "metaReqFifo s = []" "me_valid m"
    "me_isTail m \<longleftrightarrow> zs = []" "zs \<noteq> [] \<Longrightarrow> me_next m = hd zs" "suffix zs (L ?k)"
    using asked_cell [OF b assms(3)] by metis
  show ?thesis
    using assms y
    by (cases "zs = []")
       (auto simp: rt_sim_def a process_retransmissions_def on_cell_def rt_retrans_1_def rt_retrans_2_def Let_def
         mem_defs from_psn_def)
qed

text \<open>A process that has no answer does nothing.\<close>

lemma rt_waits:
  "pointerRspFifo s = [] \<Longrightarrow> rt_state s \<in> {INSERT_0, UPDATE_0, RETRANS_0, TIMER_RETRANS_0} \<Longrightarrow>
     process_retransmissions pmtu s = s"
  "metaRspFifo s = [] \<Longrightarrow> rt_state s \<in> {UPDATE_1, RETRANS_1, RETRANS_2} \<Longrightarrow> process_retransmissions pmtu s = s"
  by (auto simp: process_retransmissions_def on_pointer_def on_cell_def)

lemma rt_sim_main:
  assumes sim: "rt_sim pmtu (s, a) L ys" and not_main: "rt_state s \<noteq> MAIN"
  shows "\<exists>L' ys'. rt_sim pmtu (process_retransmissions pmtu s, a) L' ys'"
proof (cases "rt_state s")
  case INSERT_0
  then show ?thesis using rt_sim_insert_0 [OF sim] by blast
next
  case INSERT_1
  then show ?thesis using rt_sim_insert_1 [OF sim] by blast
next
  case UPDATE_1
  then show ?thesis using rt_sim_update_1 [OF sim] by blast
next
  case RETRANS_1
  then show ?thesis using rt_sim_retrans [OF sim] rt_waits(2) [of s pmtu] sim by (cases "metaRspFifo s") auto
next
  case RETRANS_2
  then show ?thesis using rt_sim_retrans [OF sim] rt_waits(2) [of s pmtu] sim by (cases "metaRspFifo s") auto
next
  case UPDATE_0
  then show ?thesis using rt_sim_pointer [OF sim] rt_waits(1) [of s pmtu] sim by (cases "pointerRspFifo s") auto
next
  case RETRANS_0
  then show ?thesis using rt_sim_pointer [OF sim] rt_waits(1) [of s pmtu] sim by (cases "pointerRspFifo s") auto
next
  case TIMER_RETRANS_0
  then show ?thesis using rt_sim_pointer [OF sim] rt_waits(1) [of s pmtu] sim by (cases "pointerRspFifo s") auto
qed (use not_main in simp)

lemma input_frame [simp]:
  fixes s :: retransmitterState
  shows "meta_eff (s\<lparr>rx2retrans_upd := x\<rparr>) = meta_eff s" "meta_eff (s\<lparr>rx2retrans_req := y\<rparr>) = meta_eff s"
    "meta_eff (s\<lparr>timer2retrans_req := y\<rparr>) = meta_eff s" "meta_eff (s\<lparr>tx2retrans_insertRequest := z\<rparr>) = meta_eff s"
    "ptr_eff (s\<lparr>rx2retrans_upd := x\<rparr>) = ptr_eff s" "ptr_eff (s\<lparr>rx2retrans_req := y\<rparr>) = ptr_eff s"
    "ptr_eff (s\<lparr>timer2retrans_req := y\<rparr>) = ptr_eff s" "ptr_eff (s\<lparr>tx2retrans_insertRequest := z\<rparr>) = ptr_eff s"
  by (simp_all add: meta_eff_def ptr_eff_def)

lemma input_frame_asked [simp]:
  fixes s :: retransmitterState
  shows "ptr_idle (s\<lparr>rx2retrans_upd := x\<rparr>) = ptr_idle s" "ptr_idle (s\<lparr>rx2retrans_req := y\<rparr>) = ptr_idle s"
    "ptr_idle (s\<lparr>timer2retrans_req := y\<rparr>) = ptr_idle s" "ptr_idle (s\<lparr>tx2retrans_insertRequest := z\<rparr>) = ptr_idle s"
    "ptr_asked k (s\<lparr>rx2retrans_upd := x\<rparr>) = ptr_asked k s" "ptr_asked k (s\<lparr>rx2retrans_req := y\<rparr>) = ptr_asked k s"
    "ptr_asked k (s\<lparr>timer2retrans_req := y\<rparr>) = ptr_asked k s"
    "ptr_asked k (s\<lparr>tx2retrans_insertRequest := z\<rparr>) = ptr_asked k s"
    "meta_idle (s\<lparr>rx2retrans_upd := x\<rparr>) = meta_idle s" "meta_idle (s\<lparr>rx2retrans_req := y\<rparr>) = meta_idle s"
    "meta_idle (s\<lparr>timer2retrans_req := y\<rparr>) = meta_idle s" "meta_idle (s\<lparr>tx2retrans_insertRequest := z\<rparr>) = meta_idle s"
    "meta_asked i (s\<lparr>rx2retrans_upd := x\<rparr>) = meta_asked i s" "meta_asked i (s\<lparr>rx2retrans_req := y\<rparr>) = meta_asked i s"
    "meta_asked i (s\<lparr>timer2retrans_req := y\<rparr>) = meta_asked i s"
    "meta_asked i (s\<lparr>tx2retrans_insertRequest := z\<rparr>) = meta_asked i s"
  by (simp_all add: ptr_idle_def ptr_asked_def meta_idle_def meta_asked_def)

lemma rt_sim_input [simp]:
  "rt_sim pmtu (s\<lparr>rx2retrans_upd := x\<rparr>, a) L ys = rt_sim pmtu (s, a) L ys"
  "rt_sim pmtu (s\<lparr>rx2retrans_req := y\<rparr>, a) L ys = rt_sim pmtu (s, a) L ys"
  "rt_sim pmtu (s\<lparr>timer2retrans_req := y\<rparr>, a) L ys = rt_sim pmtu (s, a) L ys"
  "rt_sim pmtu (s\<lparr>tx2retrans_insertRequest := z\<rparr>, a) L ys = rt_sim pmtu (s, a) L ys"
  by (cases a; cases "rt_state s"; simp add: rt_sim_def Let_def at_cells_def)+

lemma rt_sim_step: "rt_sim pmtu c L ys \<Longrightarrow> \<exists>L' ys'. rt_sim pmtu (rt_step pmtu i c) L' ys'"
proof -
  obtain s a where c: "c = (s, a)" by (rule prod.exhaust)
  assume "rt_sim pmtu c L ys"
  then have sim: "rt_sim pmtu (s, a) L ys" by (simp only: c)
  show ?thesis
  proof (cases i)
    case RtMain
    have "\<exists>L' ys'. rt_sim pmtu (process_retransmissions pmtu s, case rt_accepts s of None \<Rightarrow> a | Some r \<Rightarrow> rt_spec pmtu r a) L' ys'"
    proof (cases "rt_state s = MAIN")
      case True
      then show ?thesis using rt_sim_accept [OF sim] by (intro exI)
    next
      case False
      then show ?thesis using rt_sim_main [OF sim] by (simp add: rt_accepts_def)
    qed
    then show ?thesis by (simp add: RtMain c)
  qed (use sim rt_sim_tables [OF sim] rt_sim_freelist [OF sim] in \<open>simp add: c; blast\<close>)+
qed

interpretation rtm: step_invariant "(retrans_init, \<lambda>_. [], [], [])" "rt_step pmtu" "\<lambda>c. \<exists>L ys. rt_sim pmtu c L ys" for pmtu
proof (unfold_locales, goal_cases)
  case 1
  show ?case
    by (rule exI [of _ "\<lambda>_. []"])
       (simp add: rt_sim_def retrans_init_def Let_def mem_defs lists_ok_def queue_at_def cells_ok_def contents_def fun_eq_iff)
next
  case (2 c i)
  then show ?case using rt_sim_step by blast
qed

text \<open>C5. The retransmitter implements the lists of unacknowledged requests: for every interleaving of
  its four processes with the clients, the requests sent again and the addresses handed to the receive
  path are those that the lists give for the operations accepted so far, in the same order, except for the
  part of the operation in progress that is still missing; while no operation is in progress nothing is
  missing.\<close>

theorem retransmitter_refines_lists:
  assumes "run_inputs (rt_step pmtu) is (retrans_init, \<lambda>_. [], [], []) = (s, Q, ini, ev)"
  shows "\<exists>i e. ini = retrans2rx_init s @ i \<and> ev = retrans2event s @ e \<and> length i \<le> 1 \<and>
    (rt_state s = MAIN \<longrightarrow> i = [] \<and> e = [])"
proof -
  obtain L ys where "rt_sim pmtu (s, Q, ini, ev) L ys" using rtm.inv_run [of pmtu "is"] assms by auto
  then show ?thesis by (cases "rt_state s") (auto simp: rt_sim_def Let_def rd_init_def)
qed

definition example_info :: "u24 \<Rightarrow> retransInfo" where
  "example_info psn = \<lparr>rx_psn = psn, rx_opCode = RC_RDMA_WRITE_ONLY, rx_localAddr = 0x1000, rx_remoteAddr = 0x2000,
     rx_length = 64, rx_lst = 1, rx_offs = 0\<rparr>"

definition rt_rounds :: "nat \<Rightarrow> rtIn list" where
  "rt_rounds n = concat (replicate n [RtFreeList False, RtPointerTable, RtMetaTable, RtMain])"

text \<open>Three requests are sent, the first is acknowledged, then the timer expires.\<close>

theorem retransmitter_refines_lists_witness:
  "let is = map (\<lambda>n. InInsert \<lparr>rte_qpn = 5, rte_info = example_info n\<rparr>) [7, 8, 9] @ rt_rounds 9
        @ [InUpdate \<lparr>ru_qpn = 5, ru_latest_acked_req = 7, ru_op_code = RC_ACK\<rparr>] @ rt_rounds 4
        @ [InTimeout \<lparr>rn_qpn = 5, rn_psn = 0\<rparr>] @ rt_rounds 6;
       (s, Q, ini, ev) = run_inputs (rt_step 4096) is (retrans_init, \<lambda>_. [], [], [])
   in map rt_psn ev = [8, 9] \<and> retrans2event s = ev \<and> retrans2rx_init s = ini"
proof -
  let ?is = "map (\<lambda>n. InInsert \<lparr>rte_qpn = 5, rte_info = example_info n\<rparr>) [7, 8, 9] @ rt_rounds 9
        @ [InUpdate \<lparr>ru_qpn = 5, ru_latest_acked_req = 7, ru_op_code = RC_ACK\<rparr>] @ rt_rounds 4
        @ [InTimeout \<lparr>rn_qpn = 5, rn_psn = 0\<rparr>] @ rt_rounds 6"
  obtain s Q ini ev where r: "run_inputs (rt_step 4096) ?is (retrans_init, \<lambda>_. [], [], []) = (s, Q, ini, ev)"
    by (metis prod_cases4)
  have "case run_inputs (rt_step 4096) ?is (retrans_init, \<lambda>_. [], [], []) of (s, Q, ini, ev) \<Rightarrow>
      rt_state s = MAIN \<and> map rt_psn ev = [8, 9]"
    by code_simp
  then have "rt_state s = MAIN \<and> map rt_psn ev = [8, 9]" unfolding r by simp
  with retransmitter_refines_lists [OF r] show ?thesis unfolding Let_def r by auto
qed

end
