(* ===== verification/Roce_Retransmitter_Progress.thy ===== *)
theory Roce_Retransmitter_Progress
  imports Roce_Retransmitter
begin

text \<open>
  Progress of the retransmitter (\<^verbatim>\<open>ib_transport_protocol/retransmitter/retransmitter.hpp\<close>): every operation
  comes to its end, except the one that the code never finishes, a negative acknowledgement with a
  sequence number that is not stored.
\<close>

subsection \<open>The lock of the pointer table\<close>

text \<open>A lock is held by the process or will be released by an update under way.\<close>

definition holds_lock :: "retransmitterState \<Rightarrow> u16 \<Rightarrow> bool" where
  "holds_lock s k =
     (case rt_state s of
        INSERT_0 \<Rightarrow> pointerRspFifo s \<noteq> [] \<and> k = rte_qpn (rt_insert s)
      | INSERT_1 \<Rightarrow> k = rte_qpn (rt_insert s)
      | UPDATE_0 \<Rightarrow> pointerRspFifo s \<noteq> [] \<and> k = ru_qpn (rt_update s)
      | UPDATE_1 \<Rightarrow> k = ru_qpn (rt_update s)
      | _ \<Rightarrow> False)"

definition lock_ok :: "retransmitterState \<Rightarrow> bool" where
  "lock_ok s \<longleftrightarrow>
     (isLocked s \<longrightarrow> lockedKey s \<in> fst ` set (pointerUpdFifo s) \<or> holds_lock s (lockedKey s))
     \<and> (rt_state s \<in> {RETRANS_0, TIMER_RETRANS_0} \<longrightarrow> \<not> ptr_wait s \<and> (\<forall>r \<in> set (pointerReqFifo s). \<not> snd r))"

lemma lock_ok_frame [simp]:
  "lock_ok (mq_meta_table s) = lock_ok s" "lock_ok (mq_freelist_handler n b s) = lock_ok s"
  by (simp_all add: lock_ok_def holds_lock_def mq_meta_table_def mq_freelist_handler_def Let_def
      split: list.split mqMetaReq.split retransStateType.split)

text \<open>The key that the process has asked for.\<close>

definition wait_key :: "retransmitterState \<Rightarrow> u16" where
  "wait_key s = (case rt_state s of
      INSERT_0 \<Rightarrow> rte_qpn (rt_insert s) | UPDATE_0 \<Rightarrow> ru_qpn (rt_update s) | _ \<Rightarrow> rn_qpn (rt_retrans s))"

definition waits_pointer :: "retransmitterState \<Rightarrow> bool" where
  "waits_pointer s \<longleftrightarrow> rt_state s \<in> {INSERT_0, UPDATE_0, RETRANS_0, TIMER_RETRANS_0}"

lemma sim_pointers:
  assumes "rt_sim pmtu (s, a) L ys"
  shows "if waits_pointer s then ptr_asked (wait_key s) s else ptr_idle s"
  using assms by (cases a; cases "rt_state s") (simp_all add: rt_sim_def Let_def waits_pointer_def wait_key_def)

lemma lock_ok_pointer:
  assumes l: "lock_ok s" and p: "if waits_pointer s then ptr_asked (wait_key s) s else ptr_idle s"
  shows "lock_ok (mq_pointer_table s)"
proof (cases "pointerUpdFifo s")
  case (Cons u q)
  then show ?thesis using l
    by (cases u; cases "rt_state s") (auto simp: lock_ok_def holds_lock_def mq_pointer_table_def)
next
  case Nil
  then show ?thesis using l p
    by (cases "rt_state s")
       (auto simp: lock_ok_def holds_lock_def mq_pointer_table_def Let_def waits_pointer_def wait_key_def
         ptr_asked_def ptr_idle_def)
qed

text \<open>A call of the pointer table answers or makes an update.\<close>

lemma pointer_served:
  assumes l: "lock_ok s" and w: "waits_pointer s" and p: "ptr_asked (wait_key s) s" and e: "pointerRspFifo s = []"
  shows "if pointerUpdFifo s = [] then pointerRspFifo (mq_pointer_table s) \<noteq> []
    else pointerUpdFifo (mq_pointer_table s) = tl (pointerUpdFifo s) \<and> pointerRspFifo (mq_pointer_table s) = []"
proof (cases "pointerUpdFifo s")
  case Nil
  then have "\<not> isLocked s" using l w e
    by (cases "rt_state s") (auto simp: lock_ok_def holds_lock_def waits_pointer_def)
  then show ?thesis using Nil p e by (auto simp: mq_pointer_table_def Let_def ptr_asked_def)
next
  case (Cons u q)
  then show ?thesis using e by (cases u) (simp add: mq_pointer_table_def)
qed

lemma cell_served:
  assumes "meta_asked y s" "metaRspFifo s = []"
  shows "metaRspFifo (mq_meta_table s) \<noteq> []
    \<or> length (metaReqFifo (mq_meta_table s)) < length (metaReqFifo s) \<and> metaRspFifo (mq_meta_table s) = []"
  using assms by (auto simp: meta_asked_def mq_meta_table_def Let_def split: list.split mqMetaReq.split)

lemma lock_ok_main:
  assumes l: "lock_ok s" and sim: "rt_sim pmtu (s, a) L ys"
  shows "lock_ok (process_retransmissions pmtu s)"
proof (cases "rt_state s = MAIN")
  case True
  have "ptr_idle s" using sim_pointers [OF sim] True by (simp add: waits_pointer_def)
  then show ?thesis using l True
    by (auto simp: process_retransmissions_def rt_main_def lock_ok_def holds_lock_def ptr_idle_def Let_def)
next
  case False
  then show ?thesis using l
    by (cases "rt_state s"; cases "pointerRspFifo s"; cases "metaRspFifo s")
       (auto simp: process_retransmissions_def on_pointer_def on_cell_def lock_ok_def holds_lock_def rt_insert_0_def
         rt_update_0_def rt_update_1_def rt_retrans_0_def rt_retrans_1_def rt_retrans_2_def rt_timer_0_def Let_def)
qed

lemma lock_ok_input [simp]:
  "lock_ok (s\<lparr>rx2retrans_upd := x\<rparr>) = lock_ok s" "lock_ok (s\<lparr>rx2retrans_req := y\<rparr>) = lock_ok s"
  "lock_ok (s\<lparr>timer2retrans_req := y\<rparr>) = lock_ok s" "lock_ok (s\<lparr>tx2retrans_insertRequest := z\<rparr>) = lock_ok s"
  by (cases "rt_state s"; simp add: lock_ok_def holds_lock_def)+

lemma lock_ok_step:
  assumes "rt_sim pmtu (s, a) L ys" "lock_ok s"
  shows "lock_ok (fst (rt_step pmtu i (s, a)))"
  using assms(2) lock_ok_main [OF assms(2,1)] lock_ok_pointer [OF assms(2) sim_pointers [OF assms(1)]]
  by (cases i) simp_all

interpretation rtp: step_invariant "(retrans_init, \<lambda>_. [], [], [])" "rt_step pmtu"
  "\<lambda>c. lock_ok (fst c) \<and> (\<exists>L ys. rt_sim pmtu c L ys)" for pmtu
proof (unfold_locales, goal_cases)
  case 1
  show ?case using rtm.inv_init by (auto simp: lock_ok_def retrans_init_def)
next
  case (2 c i)
  then show ?case using rt_sim_step [of pmtu c] lock_ok_step [of pmtu "fst c" "snd c"] by auto
qed

subsection \<open>A round of the four processes\<close>

text \<open>The process waits for a cell that it has not asked for.\<close>

definition hung :: "retransmitterState \<Rightarrow> bool" where
  "hung s \<longleftrightarrow> rt_state s = RETRANS_1 \<and> ptr_idle s \<and> meta_idle s"

fun rt_rank :: "(u16 \<Rightarrow> u16 list) \<Rightarrow> u16 list \<Rightarrow> retransmitterState \<Rightarrow> nat" where
  "rt_rank L ys s = (case rt_state s of
      MAIN \<Rightarrow> 0 | INSERT_0 \<Rightarrow> 2 | INSERT_1 \<Rightarrow> 1 | UPDATE_0 \<Rightarrow> 2 | UPDATE_1 \<Rightarrow> 1
    | RETRANS_1 \<Rightarrow> 1 + length ys | RETRANS_2 \<Rightarrow> 1 + length ys
    | RETRANS_0 \<Rightarrow> 2 + length (L (rn_qpn (rt_retrans s))) | TIMER_RETRANS_0 \<Rightarrow> 2 + length (L (rn_qpn (rt_retrans s))))"

definition rt_delay :: "retransmitterState \<Rightarrow> nat" where
  "rt_delay s = (if waits_pointer s then length (pointerUpdFifo s) else length (metaReqFifo s))"

text \<open>With an answer at hand the main process gets closer to its end.\<close>

lemma main_advances_pointer:
  assumes sim: "rt_sim pmtu (s, a) L ys" and w: "waits_pointer s" and r: "pointerRspFifo s \<noteq> []"
  defines "s' \<equiv> process_retransmissions pmtu s"
  shows "\<exists>L' ys'. rt_sim pmtu (s', a) L' ys' \<and> rt_rank L' ys' s' < rt_rank L ys s"
proof (cases "rt_state s = INSERT_0")
  case True
  then have "rt_state s' \<in> {MAIN, INSERT_1}" using r
    by (cases "pointerRspFifo s") (auto simp: s'_def process_retransmissions_def on_pointer_def rt_insert_0_def Let_def)
  then have "rt_rank L' ys s' < rt_rank L ys s" for L' using True by auto
  then show ?thesis using rt_sim_insert_0 [OF sim True] unfolding s'_def [symmetric] by blast
next
  case False
  obtain p q where pq: "pointerRspFifo s = p # q" using r by (cases "pointerRspFifo s") auto
  then have "rt_rank L (L (asked_qpn s)) s' < rt_rank L ys s" using w False
    by (auto simp: waits_pointer_def s'_def process_retransmissions_def on_pointer_def rt_update_0_def
        rt_retrans_0_def rt_timer_0_def asked_qpn_def)
  then show ?thesis using rt_sim_pointer [OF sim _ pq] w False unfolding s'_def [symmetric] waits_pointer_def by blast
qed

lemma main_advances_cell:
  assumes sim: "rt_sim pmtu (s, a) L ys" and w: "rt_state s \<in> {UPDATE_1, RETRANS_1, RETRANS_2}" and r: "metaRspFifo s \<noteq> []"
  defines "s' \<equiv> process_retransmissions pmtu s"
  shows "\<exists>L' ys'. rt_sim pmtu (s', a) L' ys' \<and> rt_rank L' ys' s' < rt_rank L ys s"
proof -
  obtain m q where mq: "metaRspFifo s = m # q" using r by (cases "metaRspFifo s") auto
  obtain Q ini ev where a: "a = (Q, ini, ev)" by (metis prod_cases3)
  show ?thesis
  proof (cases "rt_state s = UPDATE_1")
    case True
    let ?k = "ru_qpn (rt_update s)"
    have b: "at_cells (L ?k) s" "lists_ok (meta_eff s) (ptr_eff s) L"
      using sim True by (auto simp: rt_sim_def a Let_def at_cells_def)
    have "me_valid m" using asked_cell [OF b(1) suffix_order.refl b(2) mq] by blast
    then have "rt_state s' = MAIN" using mq True
      by (simp add: s'_def process_retransmissions_def on_cell_def rt_update_1_def Let_def)
    then have "rt_rank L' ys s' < rt_rank L ys s" for L' using True by auto
    then show ?thesis using rt_sim_update_1 [OF sim True] unfolding s'_def [symmetric] by blast
  next
    case False
    have b: "at_cells ys s" "suffix ys (L (rn_qpn (rt_retrans s)))" "lists_ok (meta_eff s) (ptr_eff s) L"
      using sim w False by (auto simp: rt_sim_def a Let_def)
    have "ys \<noteq> []" using asked_cell [OF b mq] by blast
    then have "rt_rank L (tl ys) s' < rt_rank L ys s" using w False mq
      by (cases ys) (auto simp: s'_def process_retransmissions_def on_cell_def rt_retrans_1_def rt_retrans_2_def Let_def)
    then show ?thesis using rt_sim_retrans [OF sim _ mq] w False unfolding s'_def [symmetric] by blast
  qed
qed

lemma rsp_grows [simp]:
  "pointerRspFifo (mq_meta_table s) = pointerRspFifo s" "pointerRspFifo (mq_freelist_handler n b s) = pointerRspFifo s"
  "metaRspFifo (mq_pointer_table s) = metaRspFifo s" "metaRspFifo (mq_freelist_handler n b s) = metaRspFifo s"
  "pointerUpdFifo (mq_meta_table s) = pointerUpdFifo s" "pointerUpdFifo (mq_freelist_handler n b s) = pointerUpdFifo s"
  "metaReqFifo (mq_pointer_table s) = metaReqFifo s" "metaReqFifo (mq_freelist_handler n b s) = metaReqFifo s"
  by (simp_all add: mq_pointer_table_def mq_meta_table_def mq_freelist_handler_def Let_def
      split: list.split prod.split mqMetaReq.split)

lemma rsp_kept: "pointerRspFifo (mq_pointer_table s) = [] \<Longrightarrow> pointerRspFifo s = []"
  "metaRspFifo (mq_meta_table s) = [] \<Longrightarrow> metaRspFifo s = []"
  by (auto simp: mq_pointer_table_def mq_meta_table_def Let_def split: list.splits prod.splits mqMetaReq.splits if_splits)

lemma asks_cell:
  assumes "rt_sim pmtu (s, a) L ys" "rt_state s \<in> {UPDATE_1, RETRANS_1, RETRANS_2}" "\<not> hung s"
  obtains y where "meta_asked y s"
  using assms by (cases a) (auto simp: rt_sim_def Let_def hung_def at_cells_def split: if_splits)

definition closer :: "(u16 \<Rightarrow> u16 list) \<Rightarrow> u16 list \<Rightarrow> retransmitterState \<Rightarrow> (u16 \<Rightarrow> u16 list) \<Rightarrow> u16 list \<Rightarrow> retransmitterState \<Rightarrow> bool" where
  "closer L' ys' s' L ys s \<longleftrightarrow> ((rt_rank L' ys' s', rt_delay s'), (rt_rank L ys s, rt_delay s)) \<in> less_than <*lex*> less_than"

lemma round_progress:
  fixes full :: bool
  assumes sim: "rt_sim pmtu (s, a) L ys" and l: "lock_ok s" and n: "rt_state s \<noteq> MAIN" and h: "\<not> hung s"
  defines "s' \<equiv> retransmitter pmtu full s"
  shows "\<exists>L' ys'. rt_sim pmtu (s', a) L' ys' \<and> lock_ok s' \<and> closer L' ys' s' L ys s"
proof -
  define f where "f = mq_freelist_handler META_TABLE_SIZE full s"
  define t where "t = mq_meta_table (mq_pointer_table f)"
  have s': "s' = process_retransmissions pmtu t" by (simp add: s'_def t_def f_def retransmitter_def)
  have simf: "rt_sim pmtu (f, a) L ys" unfolding f_def by (rule rt_sim_freelist [OF sim])
  have simt: "rt_sim pmtu (t, a) L ys" unfolding t_def by (rule rt_sim_tables(2) [OF rt_sim_tables(1) [OF simf]])
  have lf: "lock_ok f" using l by (simp add: f_def)
  have lt: "lock_ok t" using lock_ok_pointer [OF lf sim_pointers [OF simf]] by (simp add: t_def)
  have l': "lock_ok s'" unfolding s' by (rule lock_ok_main [OF lt simt])
  have same: "rt_state t = rt_state s" "rt_rank L ys t = rt_rank L ys s" "rt_state f = rt_state s"
    by (simp_all add: t_def f_def split: retransStateType.split)
  have advance: ?thesis if "\<exists>L' ys'. rt_sim pmtu (s', a) L' ys' \<and> rt_rank L' ys' s' < rt_rank L ys s"
    using that l' unfolding closer_def by auto
  have wait: ?thesis if "s' = t" "rt_delay t < rt_delay s"
    using that l' simt same unfolding closer_def by auto
  consider (ptr) "waits_pointer s" | (ins) "rt_state s = INSERT_1" | (cell) "rt_state s \<in> {UPDATE_1, RETRANS_1, RETRANS_2}"
    using n by (cases "rt_state s") (auto simp: waits_pointer_def)
  then show ?thesis
  proof cases
    case ptr
    then have w: "waits_pointer t" "waits_pointer f" using same by (simp_all add: waits_pointer_def)
    show ?thesis
    proof (cases "pointerRspFifo t = []")
      case True
      then have e: "pointerRspFifo f = []" using rsp_kept(1) by (simp add: t_def)
      have "ptr_asked (wait_key f) f" using sim_pointers [OF simf] w by simp
      from pointer_served [OF lf w(2) this e] True
      have "pointerUpdFifo f \<noteq> []" "pointerUpdFifo t = tl (pointerUpdFifo f)" by (auto simp: t_def split: if_splits)
      then have "rt_delay t < rt_delay s" using ptr w by (auto simp: rt_delay_def f_def)
      moreover have "s' = t" unfolding s' using rt_waits(1) [OF True] w(1) by (simp add: waits_pointer_def)
      ultimately show ?thesis by (intro wait)
    next
      case False
      then show ?thesis using main_advances_pointer [OF simt w(1)] same(2) by (intro advance) (simp add: s')
    qed
  next
    case ins
    then have "rt_state s' = MAIN" using same by (simp add: s' process_retransmissions_def)
    then show ?thesis using rt_sim_insert_1 [OF simt] ins same by (intro advance) (auto simp: s')
  next
    case cell
    then have w: "\<not> waits_pointer s" "\<not> waits_pointer t" "rt_state t \<in> {UPDATE_1, RETRANS_1, RETRANS_2}"
      using same by (auto simp: waits_pointer_def)
    show ?thesis
    proof (cases "metaRspFifo t = []")
      case True
      have "\<not> hung f" using h by (simp add: hung_def f_def)
      moreover have "rt_state f \<in> {UPDATE_1, RETRANS_1, RETRANS_2}" using cell same by simp
      ultimately obtain y where y: "meta_asked y f" using asks_cell [OF simf] by blast
      then have "meta_asked y (mq_pointer_table f)" by simp
      from cell_served [OF this] True rsp_kept(2) [of "mq_pointer_table f"]
      have "length (metaReqFifo t) < length (metaReqFifo s)" by (auto simp: t_def f_def)
      then have "rt_delay t < rt_delay s" using w by (simp add: rt_delay_def)
      moreover have "s' = t" unfolding s' using rt_waits(2) [OF True] w(3) by simp
      ultimately show ?thesis by (intro wait)
    next
      case False
      then show ?thesis using main_advances_cell [OF simt w(3)] same(2) by (intro advance) (simp add: s')
    qed
  qed
qed

subsection \<open>Every operation ends or hangs\<close>

lemma rounds_end:
  assumes "rt_sim pmtu (s, a) L ys" "lock_ok s"
  shows "\<exists>n. rt_state ((retransmitter pmtu full ^^ n) s) = MAIN \<or> hung ((retransmitter pmtu full ^^ n) s)"
  using assms
proof (induction "(rt_rank L ys s, rt_delay s)" arbitrary: s L ys rule: wf_induct_rule [OF wf_lex_prod [OF wf_less_than wf_less_than]])
  case 1
  show ?case
  proof (cases "rt_state s = MAIN \<or> hung s")
    case True
    then show ?thesis by (intro exI [of _ 0]) simp
  next
    case False
    then obtain L' ys' where s': "rt_sim pmtu (retransmitter pmtu full s, a) L' ys'" "lock_ok (retransmitter pmtu full s)"
        "closer L' ys' (retransmitter pmtu full s) L ys s"
      using round_progress [OF "1.prems"] by blast
    from "1.hyps" [OF s'(3) [unfolded closer_def] s'(1,2)]
    obtain n where "rt_state ((retransmitter pmtu full ^^ n) (retransmitter pmtu full s)) = MAIN
        \<or> hung ((retransmitter pmtu full ^^ n) (retransmitter pmtu full s))" by blast
    then show ?thesis by (intro exI [of _ "Suc n"]) (simp add: funpow_swap1)
  qed
qed

text \<open>The process stays where it is and sends nothing.\<close>

lemma hung_step:
  assumes "hung s"
  shows "hung (fst (rt_step pmtu i (s, a)))" "retrans2event (fst (rt_step pmtu i (s, a))) = retrans2event s"
    and "retrans2rx_init (fst (rt_step pmtu i (s, a))) = retrans2rx_init s"
proof -
  have "process_retransmissions pmtu s = s"
    using assms rt_waits(2) [of s] by (simp add: hung_def meta_idle_def)
  then show "hung (fst (rt_step pmtu i (s, a)))" "retrans2event (fst (rt_step pmtu i (s, a))) = retrans2event s"
    "retrans2rx_init (fst (rt_step pmtu i (s, a))) = retrans2rx_init s"
    using assms by (cases i; simp add: hung_def)+
qed

lemma hung_forever:
  "hung s \<Longrightarrow> hung (fst (run_inputs (rt_step pmtu) is (s, a))) \<and>
     retrans2event (fst (run_inputs (rt_step pmtu) is (s, a))) = retrans2event s"
proof (induction "is" arbitrary: s a)
  case (Cons i "is")
  let ?c = "rt_step pmtu i (s, a)"
  show ?case using Cons.IH [of "fst ?c" "snd ?c"] hung_step [OF Cons.prems, of pmtu i a] by simp
qed simp

text \<open>A negative acknowledgement whose sequence number is not stored leaves the process in the states
  that search for it.\<close>

definition searching :: "u16 \<Rightarrow> retransmitterState \<times> rt_abs \<Rightarrow> bool" where
  "searching pmtu c \<longleftrightarrow> (\<exists>L ys. rt_sim pmtu c L ys) \<and> lock_ok (fst c) \<and> rt_state (fst c) \<in> {RETRANS_0, RETRANS_1}
     \<and> fst (snd c) (rn_qpn (rt_retrans (fst c))) \<noteq> []
     \<and> rn_psn (rt_retrans (fst c)) \<notin> rx_psn ` set (fst (snd c) (rn_qpn (rt_retrans (fst c))))"

lemma searching_main:
  assumes sim: "rt_sim pmtu (s, Q, ini, ev) L ys" and st: "rt_state s \<in> {RETRANS_0, RETRANS_1}"
    and ne: "Q (rn_qpn (rt_retrans s)) \<noteq> []"
    and no: "rn_psn (rt_retrans s) \<notin> rx_psn ` set (Q (rn_qpn (rt_retrans s)))"
  defines "s' \<equiv> process_retransmissions pmtu s"
  shows "rt_state s' \<in> {RETRANS_0, RETRANS_1} \<and> rt_retrans s' = rt_retrans s"
proof -
  let ?k = "rn_qpn (rt_retrans s)"
  have C: "Q = contents (meta_eff s) L" "lists_ok (meta_eff s) (ptr_eff s) L"
    using sim st by (auto simp: rt_sim_def Let_def)
  then have Lk: "L ?k \<noteq> []" using ne by (auto simp: contents_def)
  show ?thesis
  proof (cases "rt_state s = RETRANS_0")
    case True
    then have b: "ptr_asked ?k s" "meta_idle s" using sim by (auto simp: rt_sim_def Let_def)
    show ?thesis
    proof (cases "pointerRspFifo s")
      case Nil
      then show ?thesis using True by (simp add: s'_def process_retransmissions_def on_pointer_def)
    next
      case (Cons p q)
      then have "pe_valid p" using asked_pointer(5) [OF b C(2)] Lk by blast
      then show ?thesis using True Cons by (simp add: s'_def process_retransmissions_def on_pointer_def rt_retrans_0_def)
    qed
  next
    case False
    then have st1: "rt_state s = RETRANS_1" using st by simp
    show ?thesis
    proof (cases "metaRspFifo s")
      case Nil
      then show ?thesis using st1 by (simp add: s'_def process_retransmissions_def on_cell_def)
    next
      case (Cons m q)
      have b: "at_cells ys s" "suffix ys (L ?k)" using sim st1 by (auto simp: rt_sim_def Let_def)
      obtain y zs where y: "ys = y # zs" "m = meta_eff s y" "me_valid m" by (rule asked_cell [OF b C(2) Cons])
      then have "me_value m \<in> set (Q ?k)" using set_mono_suffix [OF b(2)] by (auto simp: C(1) contents_def)
      then have "rx_psn (me_value m) \<noteq> rn_psn (rt_retrans s)" using no by (metis image_eqI)
      then show ?thesis using st1 Cons y(3)
        by (auto simp: s'_def process_retransmissions_def on_cell_def rt_retrans_1_def Let_def)
    qed
  qed
qed

lemma searching_round:
  assumes "searching pmtu (s, a)"
  shows "searching pmtu (retransmitter pmtu full s, a)"
proof -
  define t where "t = mq_meta_table (mq_pointer_table (mq_freelist_handler META_TABLE_SIZE full s))"
  obtain Q ini ev where a: "a = (Q, ini, ev)" by (metis prod_cases3)
  obtain L ys where sim: "rt_sim pmtu (s, a) L ys" using assms by (auto simp: searching_def)
  have simf: "rt_sim pmtu (mq_freelist_handler META_TABLE_SIZE full s, a) L ys" by (rule rt_sim_freelist [OF sim])
  have simt: "rt_sim pmtu (t, a) L ys" unfolding t_def by (rule rt_sim_tables(2) [OF rt_sim_tables(1) [OF simf]])
  have "lock_ok (mq_freelist_handler META_TABLE_SIZE full s)" using assms by (simp add: searching_def)
  then have lt: "lock_ok t" using lock_ok_pointer [OF _ sim_pointers [OF simf]] by (simp add: t_def)
  have st: "rt_state t = rt_state s" "rt_retrans t = rt_retrans s" by (simp_all add: t_def)
  have m: "rt_state (process_retransmissions pmtu t) \<in> {RETRANS_0, RETRANS_1}
      \<and> rt_retrans (process_retransmissions pmtu t) = rt_retrans t"
    using searching_main [OF simt [unfolded a]] assms st by (simp add: searching_def a)
  have "rt_state t \<noteq> MAIN" using assms st by (auto simp: searching_def)
  from rt_sim_main [OF simt this] m lock_ok_main [OF lt simt] show ?thesis
    using assms st unfolding retransmitter_def t_def [symmetric] searching_def by (simp add: a)
qed

lemma searching_rounds: "searching pmtu (s, a) \<Longrightarrow> searching pmtu ((retransmitter pmtu full ^^ n) s, a)"
  by (induction n) (auto intro: searching_round)

lemma searching_hangs:
  assumes "searching pmtu (s, a)"
  shows "\<exists>n. hung ((retransmitter pmtu full ^^ n) s)"
proof -
  obtain L ys where "rt_sim pmtu (s, a) L ys" "lock_ok s" using assms by (auto simp: searching_def)
  then obtain n where "rt_state ((retransmitter pmtu full ^^ n) s) = MAIN \<or> hung ((retransmitter pmtu full ^^ n) s)"
    using rounds_end by blast
  moreover have "rt_state ((retransmitter pmtu full ^^ n) s) \<noteq> MAIN"
    using searching_rounds [OF assms, of n full] by (auto simp: searching_def)
  ultimately show ?thesis by blast
qed

text \<open>The input streams pass through the tables.\<close>

lemma request_frame [simp]:
  "rx2retrans_upd (mq_pointer_table s) = rx2retrans_upd s" "rx2retrans_upd (mq_meta_table s) = rx2retrans_upd s"
  "rx2retrans_upd (mq_freelist_handler n b s) = rx2retrans_upd s"
  "rx2retrans_req (mq_pointer_table s) = rx2retrans_req s" "rx2retrans_req (mq_meta_table s) = rx2retrans_req s"
  "rx2retrans_req (mq_freelist_handler n b s) = rx2retrans_req s"
  by (simp_all add: mq_pointer_table_def mq_meta_table_def mq_freelist_handler_def Let_def
      split: list.split prod.split mqMetaReq.split)

lemma nak_starts_search:
  assumes sim: "rt_sim pmtu (s, Q, ini, ev) L ys" and l: "lock_ok s" and st: "rt_state s = MAIN"
    and u: "rx2retrans_upd s = []" and r: "rx2retrans_req s = r # rest"
    and ne: "Q (rn_qpn r) \<noteq> []" and no: "rn_psn r \<notin> rx_psn ` set (Q (rn_qpn r))"
  shows "\<exists>a'. searching pmtu (retransmitter pmtu full s, a')"
proof -
  define t where "t = mq_meta_table (mq_pointer_table (mq_freelist_handler META_TABLE_SIZE full s))"
  let ?a = "rt_spec pmtu (OpRetrans r) (Q, ini, ev)"
  have simf: "rt_sim pmtu (mq_freelist_handler META_TABLE_SIZE full s, Q, ini, ev) L ys" by (rule rt_sim_freelist [OF sim])
  have simt: "rt_sim pmtu (t, Q, ini, ev) L ys" unfolding t_def by (rule rt_sim_tables(2) [OF rt_sim_tables(1) [OF simf]])
  have lt: "lock_ok t" using lock_ok_pointer [OF _ sim_pointers [OF simf]] l by (simp add: t_def)
  have t: "rt_state t = MAIN" "rx2retrans_upd t = []" "rx2retrans_req t = r # rest"
    using st u r by (simp_all add: t_def)
  then have acc: "rt_accepts t = Some (OpRetrans r)" by (simp add: rt_accepts_def)
  have p: "rt_state (process_retransmissions pmtu t) = RETRANS_0" "rt_retrans (process_retransmissions pmtu t) = r"
    using t by (simp_all add: process_retransmissions_def rt_main_def Let_def)
  have sim': "rt_sim pmtu (process_retransmissions pmtu t, ?a) L ys"
    using rt_sim_accept [OF simt t(1)] unfolding acc by simp
  have lo: "lock_ok (process_retransmissions pmtu t)" by (rule lock_ok_main [OF lt simt])
  have "searching pmtu (process_retransmissions pmtu t, ?a)"
    unfolding searching_def
  proof (intro conjI)
    show "\<exists>L ys. rt_sim pmtu (process_retransmissions pmtu t, ?a) L ys" using sim' by blast
  qed (use lo p ne no in simp_all)
  then show ?thesis unfolding retransmitter_def t_def [symmetric] by blast
qed

text \<open>C34. Progress: from every state that can occur, enough rounds of the four processes finish the
  operation in progress, or the retransmitter waits for a cell that nobody has asked for.\<close>

theorem retransmitter_ends_or_hangs:
  assumes "run_inputs (rt_step pmtu) is (retrans_init, \<lambda>_. [], [], []) = (s, a)"
  shows "\<exists>n. rt_state ((retransmitter pmtu full ^^ n) s) = MAIN \<or> hung ((retransmitter pmtu full ^^ n) s)"
proof -
  have "lock_ok s \<and> (\<exists>L ys. rt_sim pmtu (s, a) L ys)" using rtp.inv_run [of pmtu "is"] assms by simp
  then show ?thesis using rounds_end by blast
qed

theorem retransmitter_ends_or_hangs_witness:
  "\<exists>n. rt_state ((retransmitter 4096 False ^^ n) (fst (run_inputs (rt_step 4096)
       [InInsert \<lparr>rte_qpn = 5, rte_info = example_info 7\<rparr>, RtFreeList False, RtMain] (retrans_init, \<lambda>_. [], [], [])))) = MAIN
     \<or> hung ((retransmitter 4096 False ^^ n) (fst (run_inputs (rt_step 4096)
       [InInsert \<lparr>rte_qpn = 5, rte_info = example_info 7\<rparr>, RtFreeList False, RtMain] (retrans_init, \<lambda>_. [], [], []))))"
  by (rule retransmitter_ends_or_hangs) (rule prod.collapse [symmetric])

text \<open>A negative acknowledgement for a sequence number that is not stored, of a queue pair that has
  other unacknowledged requests, stops the retransmitter for good: whatever arrives afterwards, no request
  of any queue pair is sent again.\<close>

theorem unstored_nak_hangs:
  assumes "run_inputs (rt_step pmtu) is (retrans_init, \<lambda>_. [], [], []) = (s, Q, ini, ev)"
    and "rt_state s = MAIN" "rx2retrans_upd s = []" "rx2retrans_req s = r # rest"
    and "Q (rn_qpn r) \<noteq> []" "rn_psn r \<notin> rx_psn ` set (Q (rn_qpn r))"
  shows "\<exists>n. let s' = (retransmitter pmtu full ^^ n) s
     in \<forall>later a. rt_state (fst (run_inputs (rt_step pmtu) later (s', a))) = RETRANS_1
          \<and> retrans2event (fst (run_inputs (rt_step pmtu) later (s', a))) = retrans2event s'"
proof -
  obtain L ys where "rt_sim pmtu (s, Q, ini, ev) L ys" "lock_ok s"
    using rtp.inv_run [of pmtu "is"] assms(1) by auto
  from nak_starts_search [OF this assms(2-)]
  obtain a' where "searching pmtu (retransmitter pmtu full s, a')" by blast
  from searching_hangs [OF this]
  obtain n where "hung ((retransmitter pmtu full ^^ n) (retransmitter pmtu full s))" by blast
  then have h: "hung ((retransmitter pmtu full ^^ Suc n) s)" by (simp add: funpow_swap1)
  show ?thesis unfolding Let_def
    using hung_forever [OF h] by (intro exI [of _ "Suc n"]) (auto simp: hung_def)
qed

text \<open>Two requests, the first is acknowledged, and a negative acknowledgement for it comes late.\<close>

theorem unstored_nak_hangs_witness:
  "\<exists>is. let (s, Q, ini, ev) = run_inputs (rt_step 4096) is (retrans_init, \<lambda>_. [], [], [])
     in map rx_psn (Q 5) = [8] \<and>
        (\<exists>n. let s' = (retransmitter 4096 False ^^ n) s
          in \<forall>later a. rt_state (fst (run_inputs (rt_step 4096) later (s', a))) = RETRANS_1
             \<and> retrans2event (fst (run_inputs (rt_step 4096) later (s', a))) = retrans2event s')"
proof -
  let ?is = "map (\<lambda>n. InInsert \<lparr>rte_qpn = 5, rte_info = example_info n\<rparr>) [7, 8] @ rt_rounds 6
        @ [InUpdate \<lparr>ru_qpn = 5, ru_latest_acked_req = 7, ru_op_code = RC_ACK\<rparr>] @ rt_rounds 4
        @ [InNak \<lparr>rn_qpn = 5, rn_psn = 7\<rparr>]"
  obtain s Q ini ev where r: "run_inputs (rt_step 4096) ?is (retrans_init, \<lambda>_. [], [], []) = (s, Q, ini, ev)"
    by (metis prod_cases4)
  have "case run_inputs (rt_step 4096) ?is (retrans_init, \<lambda>_. [], [], []) of (s, Q, ini, ev) \<Rightarrow>
      rt_state s = MAIN \<and> rx2retrans_upd s = [] \<and> rx2retrans_req s = [\<lparr>rn_qpn = 5, rn_psn = 7\<rparr>] \<and> map rx_psn (Q 5) = [8]"
    by code_simp
  then have f: "rt_state s = MAIN" "rx2retrans_upd s = []" "rx2retrans_req s = [\<lparr>rn_qpn = 5, rn_psn = 7\<rparr>]"
    "map rx_psn (Q 5) = [8]" unfolding r by simp_all
  have ne: "Q 5 \<noteq> []" "7 \<notin> rx_psn ` set (Q 5)" using f(4) by (auto simp flip: set_map)
  have "\<exists>n. let s' = (retransmitter 4096 False ^^ n) s
     in \<forall>later a. rt_state (fst (run_inputs (rt_step 4096) later (s', a))) = RETRANS_1
        \<and> retrans2event (fst (run_inputs (rt_step 4096) later (s', a))) = retrans2event s'"
    by (rule unstored_nak_hangs [OF r f(1-3)]) (use ne in simp_all)
  with f(4) show ?thesis by (intro exI [of _ ?is]) (simp only: r Let_def split)
qed

end
