(* ===== verification/Roce_Tables.thy ===== *)
theory Roce_Tables
  imports Roce_Types
begin

text \<open>
  The tables of the RoCE transport with one entry per queue pair: packet sequence numbers
  (\<^verbatim>\<open>ib_transport_protocol/state_table.hpp\<close>), connections (\<^verbatim>\<open>conn_table.hpp\<close>), message numbers
  and write addresses (\<^verbatim>\<open>msn_table.hpp\<close>), outstanding reads (\<^verbatim>\<open>read_req_table.hpp\<close>) and the transport timer
  (\<^verbatim>\<open>transport_timer.hpp\<close>). A request is a value of a datatype with the constructors of its struct.
\<close>

subsection \<open>Packet sequence numbers\<close>

record stateTableEntry =
  resp_epsn :: u24
  resp_old_outstanding :: u24
  req_next_psn :: u24
  req_old_unack :: u24
  req_old_valid :: u24
  retryCounter :: u3

datatype ifStateReq = IfStateRead u16 | IfStateWrite u16 qpState u24 u24 \<comment> \<open>state, remote and local number\<close>

datatype rxStateReq = RxStateRead u16 bool | RxStateWrite u16 u24 u3 bool

text \<open>The constructor without a counter.\<close>

definition mk_rxStateWrite :: "u16 \<Rightarrow> u24 \<Rightarrow> bool \<Rightarrow> rxStateReq" where
  "mk_rxStateWrite qpn psn isRsp = RxStateWrite qpn psn 0x7 isRsp"

record rxStateRsp =
  sr_epsn :: u24
  sr_oldest_outstanding_psn :: u24
  sr_max_forward :: u24
  sr_retryCounter :: u3

datatype txStateReq = TxStateRead u16 | TxStateWrite u16 u24

record psnTable =
  rxIbh2stateTable_upd_req :: "rxStateReq stream"
  txIbh2stateTable_upd_req :: "txStateReq stream"
  qpi2stateTable_upd_req :: "ifStateReq stream"
  stateTable2rxIbh_rsp :: "rxStateRsp stream"
  stateTable2txIbh_rsp :: "stateTableEntry stream"
  stateTable2qpi_rsp :: "stateTableEntry stream"
  psn_entries :: "u16 \<Rightarrow> stateTableEntry"

fun rx_state_upd :: "rxStateReq \<Rightarrow> (u16 \<Rightarrow> stateTableEntry) \<Rightarrow> u16 \<Rightarrow> stateTableEntry" where
  "rx_state_upd (RxStateRead qpn isRsp) T = T"
| "rx_state_upd (RxStateWrite qpn epsn rc isRsp) T =
     (if isRsp then T(qpn := (T qpn)\<lparr>req_old_unack := epsn\<rparr>)
      else T(qpn := (T qpn)\<lparr>resp_epsn := epsn, retryCounter := rc\<rparr>))"

definition rx_state_rsp :: "stateTableEntry \<Rightarrow> bool \<Rightarrow> rxStateRsp" where
  "rx_state_rsp entry isRsp =
     (if isRsp
      then \<lparr>sr_epsn = req_old_unack entry, sr_oldest_outstanding_psn = req_old_valid entry,
            sr_max_forward = req_next_psn entry - 1, sr_retryCounter = 0\<rparr>
      else \<lparr>sr_epsn = resp_epsn entry, sr_oldest_outstanding_psn = resp_old_outstanding entry,
            sr_max_forward = resp_epsn entry, sr_retryCounter = retryCounter entry\<rparr>)"

fun if_state_upd :: "ifStateReq \<Rightarrow> (u16 \<Rightarrow> stateTableEntry) \<Rightarrow> u16 \<Rightarrow> stateTableEntry" where
  "if_state_upd (IfStateRead qpn) T = T"
| "if_state_upd (IfStateWrite qpn newState remote local) T =
     T(qpn := \<lparr>resp_epsn = local, resp_old_outstanding = local, req_next_psn = remote, req_old_unack = remote,
        req_old_valid = remote, retryCounter = 0xF\<rparr>)"

definition roce_state_table :: "'z psnTable_scheme \<Rightarrow> 'z psnTable_scheme" where
  "roce_state_table s =
     (case rxIbh2stateTable_upd_req s of
        r # q \<Rightarrow>
         (let s1 = s\<lparr>rxIbh2stateTable_upd_req := q\<rparr>
          in case r of
               RxStateWrite qpn epsn rc isRsp \<Rightarrow> s1\<lparr>psn_entries := rx_state_upd r (psn_entries s)\<rparr>
             | RxStateRead qpn isRsp \<Rightarrow>
                 s1\<lparr>stateTable2rxIbh_rsp := stateTable2rxIbh_rsp s @ [rx_state_rsp (psn_entries s qpn) isRsp]\<rparr>)
      | [] \<Rightarrow>
       (case txIbh2stateTable_upd_req s of
          r # q \<Rightarrow>
           (let s1 = s\<lparr>txIbh2stateTable_upd_req := q\<rparr>
            in case r of
                 TxStateWrite qpn psn \<Rightarrow>
                   s1\<lparr>psn_entries := (psn_entries s)(qpn := (psn_entries s qpn)\<lparr>req_next_psn := psn\<rparr>)\<rparr>
               | TxStateRead qpn \<Rightarrow> s1\<lparr>stateTable2txIbh_rsp := stateTable2txIbh_rsp s @ [psn_entries s qpn]\<rparr>)
        | [] \<Rightarrow>
         (case qpi2stateTable_upd_req s of
            r # q \<Rightarrow>
             (let s1 = s\<lparr>qpi2stateTable_upd_req := q\<rparr>
              in case r of
                   IfStateWrite qpn newState remote local \<Rightarrow> s1\<lparr>psn_entries := if_state_upd r (psn_entries s)\<rparr>
                 | IfStateRead qpn \<Rightarrow> s1\<lparr>stateTable2qpi_rsp := stateTable2qpi_rsp s @ [psn_entries s qpn]\<rparr>)
          | [] \<Rightarrow> s)))"

subsection \<open>Connections\<close>

record connTableEntry =
  ce_remote_qpn :: u24
  ce_remote_ip_address :: u128
  ce_remote_udp_port :: u16

record connTable =
  tx_ibhconnTable_req :: "u16 stream"
  qpi2connTable_req :: "ifConnReq stream"
  tx_connTable2ibh_rsp :: "connTableEntry stream"
  conn_entries :: "u16 \<Rightarrow> connTableEntry"

definition conn_table :: "'z connTable_scheme \<Rightarrow> 'z connTable_scheme" where
  "conn_table s =
     (case tx_ibhconnTable_req s of
        i # q \<Rightarrow> s\<lparr>tx_ibhconnTable_req := q, tx_connTable2ibh_rsp := tx_connTable2ibh_rsp s @ [conn_entries s i]\<rparr>
      | [] \<Rightarrow>
       (case qpi2connTable_req s of
          r # q \<Rightarrow> s\<lparr>qpi2connTable_req := q, conn_entries := (conn_entries s)(cr_qpn r :=
                     \<lparr>ce_remote_qpn = cr_remote_qpn r, ce_remote_ip_address = cr_remote_ip_address r,
                      ce_remote_udp_port = cr_remote_udp_port r\<rparr>)\<rparr>
        | [] \<Rightarrow> s))"

subsection \<open>Message numbers\<close>

record dmaState =
  ds_msn :: u24
  ds_vaddr :: u64
  ds_dma_length :: u32
  ds_r_key :: u32
  ds_lst :: u1

datatype rxMsnReq = RxMsnRead u16 | RxMsnWrite u16 u24 u64 u32 u1

text \<open>The constructor with only a number.\<close>

definition mk_rxMsn :: "u16 \<Rightarrow> u24 \<Rightarrow> rxMsnReq" where
  "mk_rxMsn qpn msn = RxMsnWrite qpn msn 0 0 0"

record ifMsnReq =
  mr_qpn :: u16
  mr_r_key :: u32

record txMsnRsp =
  tr_msn :: u24
  tr_r_key :: u32

record msnTable =
  rxExh2msnTable_upd_req :: "rxMsnReq stream"
  txExh2msnTable_req :: "u16 stream"
  if2msnTable_init :: "ifMsnReq stream"
  msnTable2rxExh_rsp :: "dmaState stream"
  msnTable2txExh_rsp :: "txMsnRsp stream"
  msn_entries :: "u16 \<Rightarrow> dmaState"

fun rx_msn_upd :: "rxMsnReq \<Rightarrow> (u16 \<Rightarrow> dmaState) \<Rightarrow> u16 \<Rightarrow> dmaState" where
  "rx_msn_upd (RxMsnRead qpn) T = T"
| "rx_msn_upd (RxMsnWrite qpn msn vaddr len lst) T =
     T(qpn := (T qpn)\<lparr>ds_msn := msn, ds_vaddr := vaddr, ds_dma_length := len, ds_lst := lst\<rparr>)"

definition msn_table :: "'z msnTable_scheme \<Rightarrow> 'z msnTable_scheme" where
  "msn_table s =
     (case rxExh2msnTable_upd_req s of
        r # q \<Rightarrow>
         (let s1 = s\<lparr>rxExh2msnTable_upd_req := q\<rparr>
          in case r of
               RxMsnWrite qpn msn vaddr len lst \<Rightarrow> s1\<lparr>msn_entries := rx_msn_upd r (msn_entries s)\<rparr>
             | RxMsnRead qpn \<Rightarrow> s1\<lparr>msnTable2rxExh_rsp := msnTable2rxExh_rsp s @ [msn_entries s qpn]\<rparr>)
      | [] \<Rightarrow>
       (case txExh2msnTable_req s of
          qpn # q \<Rightarrow>
            s\<lparr>txExh2msnTable_req := q, msnTable2txExh_rsp := msnTable2txExh_rsp s @
                [\<lparr>tr_msn = ds_msn (msn_entries s qpn), tr_r_key = ds_r_key (msn_entries s qpn)\<rparr>]\<rparr>
        | [] \<Rightarrow>
         (case if2msnTable_init s of
            r # q \<Rightarrow> s\<lparr>if2msnTable_init := q, msn_entries := (msn_entries s)(mr_qpn r :=
                       \<lparr>ds_msn = 0, ds_vaddr = 0, ds_dma_length = 0, ds_r_key = mr_r_key r, ds_lst = 0\<rparr>)\<rparr>
          | [] \<Rightarrow> s)))"

subsection \<open>Outstanding reads\<close>

record readReqTableEntry =
  rr_oldest_outstanding_readreq :: u24
  rr_max_fwd_readreq :: u24

record txReadReqUpdate =
  tu_qpn :: u16
  tu_max_fwd_readreq :: u24

datatype rxReadReqUpdate = RxReadReqRead u16 | RxReadReqWrite u16 u24

record rxReadReqRsp =
  rs_oldest_outstanding_readreq :: u24
  rs_valid :: bool

record readReqTable =
  tx_readReqTable_upd :: "txReadReqUpdate stream"
  rx_readReqTable_upd_req :: "rxReadReqUpdate stream"
  rx_readReqTable_upd_rsp :: "rxReadReqRsp stream"
  req_entries :: "u16 \<Rightarrow> readReqTableEntry"

definition read_req_table :: "readReqTable \<Rightarrow> readReqTable" where
  "read_req_table s =
     (case tx_readReqTable_upd s of
        u # q \<Rightarrow> s\<lparr>tx_readReqTable_upd := q, req_entries := (req_entries s)(tu_qpn u :=
                   (req_entries s (tu_qpn u))\<lparr>rr_max_fwd_readreq := tu_max_fwd_readreq u\<rparr>)\<rparr>
      | [] \<Rightarrow>
       (case rx_readReqTable_upd_req s of
          r # q \<Rightarrow>
           (let s1 = s\<lparr>rx_readReqTable_upd_req := q\<rparr>
            in case r of
                 RxReadReqWrite qpn old \<Rightarrow>
                   s1\<lparr>req_entries := (req_entries s)(qpn := (req_entries s qpn)\<lparr>rr_oldest_outstanding_readreq := old\<rparr>)\<rparr>
               | RxReadReqRead qpn \<Rightarrow>
                  (let e = req_entries s qpn
                   in s1\<lparr>rx_readReqTable_upd_rsp := rx_readReqTable_upd_rsp s @
                        [\<lparr>rs_oldest_outstanding_readreq = rr_oldest_outstanding_readreq e,
                          rs_valid = rr_oldest_outstanding_readreq e < rr_max_fwd_readreq e\<rparr>]\<rparr>))
        | [] \<Rightarrow> s))"

subsection \<open>Transport timer\<close>

text \<open>The intervals are computed from the clock and the number of queue pairs, they are parameters.\<close>

record timerCfg =
  ti_MAX_QPS :: u16
  TIME_1ms :: u32
  TIME_5ms :: u32
  TIME_12ms :: u32
  TIME_64ms :: u32

record transportTimerEntry =
  tte_time :: u32
  tte_retries :: u4
  tte_active :: bool

record rxTimerUpdate =
  rtu_qpn :: u16
  rtu_stop :: bool

record transportTimer =
  rxClearTimer_req :: "rxTimerUpdate stream"
  txSetTimer_req :: "u24 stream"
  tt_retrans_req :: "u16 stream" \<comment> \<open>\<open>retransmission(qpn)\<close>\<close>
  transportTimerTable :: "u24 \<Rightarrow> transportTimerEntry"
  tt_currPosition :: u16

definition tt_init :: transportTimer where
  "tt_init = \<lparr>rxClearTimer_req = [], txSetTimer_req = [], tt_retrans_req = [],
     transportTimerTable = (\<lambda>_. \<lparr>tte_time = 0, tte_retries = 0, tte_active = False\<rparr>), tt_currPosition = 0\<rparr>"

definition tt_clear_entry :: "timerCfg \<Rightarrow> bool \<Rightarrow> transportTimerEntry \<Rightarrow> transportTimerEntry" where
  "tt_clear_entry c stop e =
     (if \<not> stop then e\<lparr>tte_time := TIME_1ms c, tte_retries := 0\<rparr>
      else e\<lparr>tte_time := 0, tte_active := False, tte_retries := 0\<rparr>)"

definition tt_set_entry :: "timerCfg \<Rightarrow> transportTimerEntry \<Rightarrow> transportTimerEntry" where
  "tt_set_entry c e =
     (let time = (if tte_active e then tte_time e
                  else if tte_retries e < RETRANS_S1 then TIME_1ms c
                  else if tte_retries e < RETRANS_S2 then TIME_5ms c
                  else if tte_retries e < RETRANS_S3 then TIME_12ms c
                  else TIME_64ms c)
      in e\<lparr>tte_time := time, tte_active := True\<rparr>)"

text \<open>The entry after a look at it, and whether it asks for a retransmission.\<close>

definition tt_check :: "bool \<Rightarrow> transportTimerEntry \<Rightarrow> transportTimerEntry \<times> bool" where
  "tt_check full e =
     (if tte_active e then
        if tte_time e > 0 then (e\<lparr>tte_time := tte_time e - 1\<rparr>, False)
        else if \<not> full then
          let e1 = e\<lparr>tte_time := 0, tte_active := False\<rparr>
          in if tte_retries e < RETRANS_RETRY_CNT then (e1\<lparr>tte_retries := tte_retries e + 1\<rparr>, True) else (e1, False)
        else (e, False)
      else (e, False))"

text \<open>The comparison \<open>setQP - 3 < tt_currPosition\<close> is one of signed numbers that are wide enough.\<close>

definition transport_timer :: "timerCfg \<Rightarrow> bool \<Rightarrow> transportTimer \<Rightarrow> transportTimer" where
  "transport_timer c full s =
     (case rxClearTimer_req s of
        u # q \<Rightarrow>
         (let i = ucast (rtu_qpn u)
          in s\<lparr>rxClearTimer_req := q, transportTimerTable :=
                (transportTimerTable s)(i := tt_clear_entry c (rtu_stop u) (transportTimerTable s i))\<rparr>)
      | [] \<Rightarrow>
       (case txSetTimer_req s of
          setQP # q \<Rightarrow>
            s\<lparr>txSetTimer_req := q,
              tt_currPosition := (if uint setQP - 3 < uint (tt_currPosition s) \<and> uint (tt_currPosition s) \<le> uint setQP
                                  then tt_currPosition s + 5 else tt_currPosition s),
              transportTimerTable := (transportTimerTable s)(setQP := tt_set_entry c (transportTimerTable s setQP))\<rparr>
        | [] \<Rightarrow>
           (let checkQP = tt_currPosition s; p = checkQP + 1;
                (e, fire) = tt_check full (transportTimerTable s (ucast checkQP))
            in s\<lparr>tt_currPosition := (if p \<ge> ti_MAX_QPS c then 0 else p),
                 transportTimerTable := (transportTimerTable s)(ucast checkQP := e),
                 tt_retrans_req := (if fire then tt_retrans_req s @ [checkQP] else tt_retrans_req s)\<rparr>)))"

end
