(* ===== verification/Roce_Timer.thy ===== *)
theory Roce_Timer
  imports Roce_Tables
begin

text \<open>
  The transport timer (\<^verbatim>\<open>ib_transport_protocol/transport_timer.hpp\<close>): when it fires, which intervals it uses,
  and where its scan position can go.
\<close>

subsection \<open>Rounds\<close>

text \<open>The slot of a queue pair: its entry and the retransmissions asked for.\<close>

type_synonym ttSlot = "transportTimerEntry \<times> u16 list"

definition tt_slot :: "transportTimer \<Rightarrow> nat \<Rightarrow> ttSlot" where
  "tt_slot s i = (transportTimerTable s (of_nat i), filter (\<lambda>q. q = of_nat i) (tt_retrans_req s))"

fun tt_upd :: "nat \<Rightarrow> ttSlot \<Rightarrow> ttSlot" where
  "tt_upd i (e, rs) = (fst (tt_check False e), if snd (tt_check False e) then rs @ [of_nat i] else rs)"

definition tt_idle :: "timerCfg \<Rightarrow> transportTimer \<Rightarrow> bool" where
  "tt_idle c s \<longleftrightarrow> rxClearTimer_req s = [] \<and> txSetTimer_req s = [] \<and> unat (tt_currPosition s) < unat (ti_MAX_QPS c)"

lemma tt_idle_call:
  "tt_idle c s \<Longrightarrow> transport_timer c full s =
     (let q = tt_currPosition s; r = tt_check full (transportTimerTable s (ucast q))
      in s\<lparr>tt_currPosition := (if q + 1 \<ge> ti_MAX_QPS c then 0 else q + 1),
           transportTimerTable := (transportTimerTable s)(ucast q := fst r),
           tt_retrans_req := (if snd r then tt_retrans_req s @ [q] else tt_retrans_req s)\<rparr>)"
  by (simp add: tt_idle_def transport_timer_def Let_def split: prod.split)

lemma ucast_qpn_eq:
  "i < unat (m :: u16) \<Longrightarrow> (of_nat i :: u24) = ucast (q :: u16) \<longleftrightarrow> i = unat q"
  "i < unat (m :: u16) \<Longrightarrow> (of_nat i :: u16) = q \<longleftrightarrow> i = unat q"
proof -
  assume i: "i < unat m"
  have m: "unat m < 2 ^ 16" using unsigned_less [of m, where ?'a = nat] by simp
  have q: "unat (ucast q :: u24) = unat q" using unsigned_less [of q, where ?'a = nat]
    by (simp add: unsigned_ucast_eq take_bit_nat_eq_self)
  have "unat (of_nat i :: u24) = i" using i m by (simp add: unat_of_nat take_bit_nat_eq_self)
  then show "(of_nat i :: u24) = ucast q \<longleftrightarrow> i = unat q" by (auto simp: word_unat_eq_iff q)
  show "(of_nat i :: u16) = q \<longleftrightarrow> i = unat q" using of_nat_eq_below [OF i] .
qed

interpretation tt: sweep "unat (ti_MAX_QPS c)" "\<lambda>s. unat (tt_currPosition s)" "transport_timer c False"
  tt_slot tt_upd "tt_idle c" for c
proof
  fix s i
  assume idle: "tt_idle c s"
  then have less: "unat (tt_currPosition s) < unat (ti_MAX_QPS c)" by (simp add: tt_idle_def)
  then show "unat (tt_currPosition s) < unat (ti_MAX_QPS c)" .
  note Suc = unat_Suc_below [OF less]
  show p: "unat (tt_currPosition (transport_timer c False s))
      = (if unat (tt_currPosition s) + 1 = unat (ti_MAX_QPS c) then 0 else unat (tt_currPosition s) + 1)"
    using less Suc by (auto simp: tt_idle_call [OF idle] word_le_nat_alt Let_def)
  show "tt_idle c (transport_timer c False s)"
    using idle p less Suc by (auto simp: tt_idle_def tt_idle_call [OF idle] word_le_nat_alt Let_def)
  assume i: "i < unat (ti_MAX_QPS c)"
  show "tt_slot (transport_timer c False s) i
      = (if i = unat (tt_currPosition s) then tt_upd i (tt_slot s i) else tt_slot s i)"
    using ucast_qpn_eq [OF i, of "tt_currPosition s"]
    by (auto simp: tt_idle_call [OF idle] tt_slot_def Let_def)
qed

lemma tt_upd_counts:
  assumes "tte_active e" "k \<le> unat (tte_time e)"
  shows "(tt_upd i ^^ k) (e, rs) = (e\<lparr>tte_time := tte_time e - of_nat k\<rparr>, rs)"
  using assms(2)
proof (induction k)
  case (Suc k)
  then have k: "k < unat (tte_time e)" by simp
  have "unat (of_nat k :: u32) = k"
    using k by (intro unat_of_nat_below [of k "tte_time e"]) simp
  then have "unat (tte_time e - of_nat k) = unat (tte_time e) - k"
    using k by (simp add: unat_sub word_le_nat_alt)
  then have "tte_time e - of_nat k > 0" using k by (simp add: word_gt_0_no word_less_nat_alt)
  then show ?case using Suc assms(1) by (simp add: tt_check_def algebra_simps)
qed (simp add: assms)

text \<open>A timer that is armed and left alone fires after its interval, counted in rounds of idle calls
  over all queue pairs: it asks for one retransmission and is disarmed; after the last retry it is disarmed
  without one.\<close>

theorem transport_timer_fires:
  assumes "tt_idle c s" "i < unat (ti_MAX_QPS c)" "tte_active (transportTimerTable s (of_nat i))"
  shows "let e = transportTimerTable s (of_nat i);
             s' = (transport_timer c False ^^ ((unat (tte_time e) + 1) * unat (ti_MAX_QPS c))) s
    in tt_slot s' i =
         (if tte_retries e < RETRANS_RETRY_CNT
          then (e\<lparr>tte_time := 0, tte_active := False, tte_retries := tte_retries e + 1\<rparr>, snd (tt_slot s i) @ [of_nat i])
          else (e\<lparr>tte_time := 0, tte_active := False\<rparr>, snd (tt_slot s i)))"
proof -
  define e where "e = transportTimerTable s (of_nat i)"
  obtain rs where sl: "tt_slot s i = (e, rs)" by (simp add: tt_slot_def e_def)
  have "tt_slot ((transport_timer c False ^^ ((unat (tte_time e) + 1) * unat (ti_MAX_QPS c))) s) i
      = tt_upd i ((tt_upd i ^^ unat (tte_time e)) (e, rs))"
    using tt.slot_rounds [OF assms(1,2), of "unat (tte_time e) + 1"] by (simp add: sl)
  also have "\<dots> = tt_upd i (e\<lparr>tte_time := 0\<rparr>, rs)"
    using assms(3) by (subst tt_upd_counts) (simp_all add: e_def)
  finally show ?thesis using assms(3) by (simp add: sl e_def Let_def tt_check_def)
qed

definition small_timer :: timerCfg where
  "small_timer = \<lparr>ti_MAX_QPS = 4, TIME_1ms = 2, TIME_5ms = 3, TIME_12ms = 4, TIME_64ms = 5\<rparr>"

theorem transport_timer_fires_witness:
  "let e = \<lparr>tte_time = 2, tte_retries = 3, tte_active = True\<rparr>;
       s = tt_init\<lparr>transportTimerTable := (transportTimerTable tt_init)(1 := e)\<rparr>
   in tt_slot ((transport_timer small_timer False ^^ 12) s) 1 = (e\<lparr>tte_time := 0, tte_active := False, tte_retries := 4\<rparr>, [1])"
proof -
  let ?e = "\<lparr>tte_time = 2, tte_retries = 3, tte_active = True\<rparr>"
  let ?s = "tt_init\<lparr>transportTimerTable := (transportTimerTable tt_init)(1 := ?e)\<rparr>"
  have idle: "tt_idle small_timer ?s" by (simp add: tt_idle_def tt_init_def small_timer_def)
  have n: "unat (ti_MAX_QPS small_timer) = 4" "tt_slot ?s 1 = (?e, [])"
    by (simp_all add: small_timer_def tt_slot_def tt_init_def)
  from transport_timer_fires [OF idle, of 1] n show ?thesis by (simp add: Let_def tt_slot_def RETRANS_RETRY_CNT_def)
qed

subsection \<open>Intervals\<close>

text \<open>The interval does not grow in steps: because the three limits on the number of retries are
  equal, arming a timer chooses the shortest or the longest interval, never one of the two between.\<close>

theorem transport_timer_backoff:
  "tte_time (tt_set_entry c e) =
     (if tte_active e then tte_time e else if tte_retries e < 3 then TIME_1ms c else TIME_64ms c)"
  by (simp add: tt_set_entry_def RETRANS_S1_def RETRANS_S2_def RETRANS_S3_def Let_def)

text \<open>The scan position leaves the table when the timer of the last queue pair is armed while it is
  scanned.\<close>

lemma transport_position_out_of_range:
  assumes "tt_currPosition s = q" "rxClearTimer_req s = []" "txSetTimer_req s = [ucast q]"
    and "unat q + 1 = unat (ti_MAX_QPS c)" "unat q + 5 < 2 ^ 16"
  shows "unat (tt_currPosition (transport_timer c full s)) = unat (ti_MAX_QPS c) + 4"
proof -
  have u: "uint (ucast q :: u24) = uint q"
    using unsigned_less [of q, where ?'a = int] by (simp add: unsigned_ucast_eq take_bit_int_eq_self)
  have "tt_currPosition (transport_timer c full s) = q + 5"
    using assms(1-3) by (simp add: transport_timer_def u)
  moreover have "unat (q + 5) = unat q + 5"
    using assms(5) by (simp add: unat_word_ariths)
  ultimately show ?thesis using assms(4) by simp
qed

end
