(* ===== verification/Roce_Headers.thy ===== *)
theory Roce_Headers
  imports Bit_Ranges Roce_Types
begin

text \<open>
  The headers of RoCE packets (\<^verbatim>\<open>ib_transport_protocol/ib_transport_protocol.hpp\<close>: \<open>BaseTransportHeader\<close>,
  \<open>RdmaExHeader\<close>, \<open>AckExHeader\<close>, \<open>ExHeader\<close>). The raw header is a word, its collection from a stream
  is that of \<open>Bit_Ranges\<close>.
\<close>

type_synonym bth = "96 word"
type_synonym reth = "128 word"
type_synonym aeth = "32 word"

definition setOpCode :: "ibOpCode \<Rightarrow> bth \<Rightarrow> bth" where "setOpCode op h = set_range 0 8 op h"
definition getOpCode :: "bth \<Rightarrow> ibOpCode" where "getOpCode h = get_range 0 8 h"
definition setPartitionKey :: "u16 \<Rightarrow> bth \<Rightarrow> bth" where "setPartitionKey key h = set_range 16 16 key h"
definition getPartitionKey :: "bth \<Rightarrow> u16" where "getPartitionKey h = get_range 16 16 h"
definition setPsn :: "u24 \<Rightarrow> bth \<Rightarrow> bth" where "setPsn psn h = set_range 72 24 (reverse psn) h"
definition getPsn :: "bth \<Rightarrow> u24" where "getPsn h = reverse (get_range 72 24 h)"
definition setDstQP :: "u24 \<Rightarrow> bth \<Rightarrow> bth" where "setDstQP qp h = set_range 40 24 (reverse qp) h"
definition getDstQP :: "bth \<Rightarrow> u24" where "getDstQP h = reverse (get_range 40 24 h)"
definition setAckReq :: "bool \<Rightarrow> bth \<Rightarrow> bth" where "setAckReq b h = set_range 71 1 (of_bool b :: u1) h"

definition setVirtualAddress :: "u64 \<Rightarrow> reth \<Rightarrow> reth" where "setVirtualAddress addr h = set_range 0 64 (reverse addr) h"
definition getVirtualAddress :: "reth \<Rightarrow> u64" where "getVirtualAddress h = reverse (get_range 0 64 h)"
definition setRemoteKey :: "u32 \<Rightarrow> reth \<Rightarrow> reth" where "setRemoteKey key h = set_range 64 32 (reverse key) h"
definition getRemoteKey :: "reth \<Rightarrow> u32" where "getRemoteKey h = reverse (get_range 64 32 h)"
definition setLength :: "u32 \<Rightarrow> reth \<Rightarrow> reth" where "setLength len h = set_range 96 32 (reverse len) h"
definition getLength :: "reth \<Rightarrow> u32" where "getLength h = reverse (get_range 96 32 h)"

definition setSyndrome :: "u8 \<Rightarrow> aeth \<Rightarrow> aeth" where "setSyndrome syn h = set_range 0 8 syn h"
definition getSyndrome :: "aeth \<Rightarrow> u8" where "getSyndrome h = get_range 0 8 h"
definition setMsn :: "u24 \<Rightarrow> aeth \<Rightarrow> aeth" where "setMsn msn h = set_range 8 24 (reverse msn) h"
definition getMsn :: "aeth \<Rightarrow> u24" where "getMsn h = reverse (get_range 8 24 h)"
definition isNAK :: "aeth \<Rightarrow> bool" where "isNAK h \<longleftrightarrow> (get_range 5 2 h :: 2 word) = 0x3"

lemmas header_defs = setOpCode_def getOpCode_def setPartitionKey_def getPartitionKey_def setPsn_def getPsn_def
  setDstQP_def getDstQP_def setAckReq_def setVirtualAddress_def getVirtualAddress_def setRemoteKey_def
  getRemoteKey_def setLength_def getLength_def setSyndrome_def getSyndrome_def setMsn_def getMsn_def

text \<open>\<open>ExHeader\<close> holds either extended header.\<close>

type_synonym exHeader = u128

definition ex_of_aeth :: "aeth \<Rightarrow> exHeader" where "ex_of_aeth h = ucast h"
definition getAckHeader :: "exHeader \<Rightarrow> aeth" where "getAckHeader h = ucast h"

lemma getAckHeader_ex [simp]: "getAckHeader (ex_of_aeth h) = h"
  by (rule bit_word_eqI) (simp add: getAckHeader_def ex_of_aeth_def bit_simps)

lemma bth_fields [simp]:
  "getOpCode (setOpCode op h) = op" "getOpCode (setPartitionKey key h) = getOpCode h"
  "getOpCode (setPsn psn h) = getOpCode h" "getOpCode (setDstQP qp h) = getOpCode h" "getOpCode (setAckReq b h) = getOpCode h"
  "getPartitionKey (setPartitionKey key h) = key" "getPartitionKey (setOpCode op h) = getPartitionKey h"
  "getPartitionKey (setPsn psn h) = getPartitionKey h" "getPartitionKey (setDstQP qp h) = getPartitionKey h"
  "getPartitionKey (setAckReq b h) = getPartitionKey h"
  "getPsn (setPsn psn h) = psn" "getPsn (setOpCode op h) = getPsn h" "getPsn (setPartitionKey key h) = getPsn h"
  "getPsn (setDstQP qp h) = getPsn h" "getPsn (setAckReq b h) = getPsn h"
  "getDstQP (setDstQP qp h) = qp" "getDstQP (setOpCode op h) = getDstQP h" "getDstQP (setPartitionKey key h) = getDstQP h"
  "getDstQP (setPsn psn h) = getDstQP h" "getDstQP (setAckReq b h) = getDstQP h"
  by (simp_all add: header_defs get_set_range get_set_range_other reverse_reverse)

lemma reth_fields [simp]:
  "getVirtualAddress (setVirtualAddress a h) = a" "getVirtualAddress (setRemoteKey k h) = getVirtualAddress h"
  "getVirtualAddress (setLength n h) = getVirtualAddress h"
  "getRemoteKey (setRemoteKey k h) = k" "getRemoteKey (setVirtualAddress a h) = getRemoteKey h"
  "getRemoteKey (setLength n h) = getRemoteKey h"
  "getLength (setLength n h) = n" "getLength (setVirtualAddress a h) = getLength h" "getLength (setRemoteKey k h) = getLength h"
  by (simp_all add: header_defs get_set_range get_set_range_other reverse_reverse)

lemma aeth_fields [simp]:
  "getSyndrome (setSyndrome y h) = y" "getSyndrome (setMsn m h) = getSyndrome h"
  "getMsn (setMsn m h) = m" "getMsn (setSyndrome y h) = getMsn h"
  by (simp_all add: header_defs get_set_range get_set_range_other reverse_reverse)

text \<open>A negative acknowledgement is recognised from its syndrome.\<close>

lemma isNAK_syndrome: "isNAK h \<longleftrightarrow> bit (getSyndrome h) 5 \<and> bit (getSyndrome h) 6"
proof -
  let ?r = "get_range 5 2 h :: 2 word"
  have three: "bit (3 :: 2 word) n" if "n < 2" for n
  proof -
    have "n = 0 \<or> n = 1" using that by auto
    then show ?thesis by auto
  qed
  have "?r = 3 \<longleftrightarrow> (\<forall>n < 2. bit ?r n)"
  proof
    assume "?r = 3"
    then show "\<forall>n < 2. bit ?r n" using three by metis
  next
    assume r: "\<forall>n < 2. bit ?r n"
    show "?r = 3" by (rule bit_word_eqI) (use r three in auto)
  qed
  also have "\<dots> \<longleftrightarrow> bit h 5 \<and> bit h 6"
    by (auto simp: bit_ranges less_2_cases_iff)
  finally show ?thesis by (simp add: isNAK_def getSyndrome_def bit_ranges)
qed

lemma isNAK_sent [simp]: "\<not> isNAK (setMsn m (setSyndrome 0x1f h))" "isNAK (setMsn m (setSyndrome 0x60 h))"
  by (simp_all add: isNAK_syndrome)

text \<open>What the sender puts into the base header arrives: for every width of the stream, every
  content that the words and the two header registers had before, and every operation, the receiver reads
  the operation, the key, the queue pair and the sequence number that were set.\<close>

theorem bth_over_the_wire:
  fixes ws :: "'w::len word list" and p q :: "(96 word) packetHeader"
  assumes "96 \<le> length ws * LENGTH('w)"
    and "ph_header p = setDstQP qp (setPsn psn (setPartitionKey key (setOpCode op h)))"
  shows "let r = ph_header (fold parseWord (consume_words ws (clear_header p)) (clear_header q))
    in getOpCode r = op \<and> getPartitionKey r = key \<and> getPsn r = psn \<and> getDstQP r = qp"
  using header_roundtrip_raw [of ws p q] assms by simp

theorem bth_over_the_wire_witness:
  "let p = \<lparr>ph_ready = False, ph_idx = 0, ph_header = setDstQP 5 (setPsn 77 (setPartitionKey 0xFFFF (setOpCode RC_ACK 0)))\<rparr>;
       r = ph_header (fold parseWord (consume_words [0 :: 64 word, 0] (clear_header p)) (clear_header p))
   in getOpCode r = RC_ACK \<and> getPartitionKey r = 0xFFFF \<and> getPsn r = 77 \<and> getDstQP r = 5"
  using bth_over_the_wire [where ws = "[0 :: 64 word, 0]" and qp = 5 and psn = 77 and key = "0xFFFF" and op = RC_ACK and h = 0]
  by simp

end
