(* ===== verification/Roce_Rx.thy ===== *)
theory Roce_Rx
  imports Roce_Tables Roce_Headers
begin

text \<open>
  The receive path of the RoCE transport (\<^verbatim>\<open>ib_transport_protocol/ib_transport_protocol.cpp\<close>): the modules that
  take packets apart, check sequence numbers, and turn packets into memory commands. The two state
  machines that ask a table are records that extend the table.
\<close>

subsection \<open>Base header\<close>

record ('w, 'k) rxIbh =
  ri_input :: "('w, 'k) net_axis stream"
  ri_metaOut :: "ibhMeta stream"
  ri_metaOut2 :: "ibOpCode stream"
  ri_output :: "('w, 'k) net_axis stream"
  ri_bth :: "bth packetHeader"
  ri_metaWritten :: bool
  ri_validRx :: u32
  regIbvCountRx :: u32

definition rx_process_ibh :: "('w::len word, 'k) rxIbh \<Rightarrow> ('w word, 'k) rxIbh" where
  "rx_process_ibh s =
     (case ri_input s of
        [] \<Rightarrow> s
      | currWord # q \<Rightarrow>
         (let b = parseWord (na_data currWord) (ri_bth s); h = ph_header b;
              s1 = s\<lparr>ri_input := q, ri_bth := b, ri_validRx := ri_validRx s + 1, regIbvCountRx := ri_validRx s + 1\<rparr>;
              s2 = (if ph_ready b then s1\<lparr>ri_output := ri_output s @ [currWord]\<rparr> else s1);
              s3 = (if ph_ready b \<and> \<not> ri_metaWritten s
                    then s2\<lparr>ri_metaOut := ri_metaOut s @
                              [mk_ibhMeta_psn (getOpCode h) (getPartitionKey h) (getDstQP h) (getPsn h) True],
                            ri_metaOut2 := ri_metaOut2 s @ [getOpCode h], ri_metaWritten := True\<rparr>
                    else s2)
          in if na_last currWord then s3\<lparr>ri_bth := clear_header b, ri_metaWritten := False\<rparr> else s3))"

subsection \<open>Extended header\<close>

datatype exhStateType = EXH_META | ACK_HEADER | RETH_HEADER | NO_HEADER

record ('w, 'k) rxExh =
  re_input :: "('w, 'k) net_axis stream"
  re_metaIn :: "ibOpCode stream"
  re_exhMetaFifo :: "exhMeta stream"
  re_metaOut :: "exHeader stream"
  re_output :: "('w, 'k) net_axis stream"
  re_state :: exhStateType
  re_rdmaHeader :: "reth packetHeader"
  re_ackHeader :: "aeth packetHeader"
  re_metaWritten :: bool
  re_opCode :: ibOpCode

text \<open>The number of response packets of a read, an \<open>ap_uint<22>\<close>; the sum is computed with one bit more
  than the length has.\<close>

definition num_packets :: "u16 \<Rightarrow> u32 \<Rightarrow> u22" where
  "num_packets pmtu len = of_nat ((unat len + (unat pmtu - 1)) div unat pmtu)"

definition exh_ack_word :: "('w::len word, 'k) net_axis \<Rightarrow> ('w word, 'k) rxExh \<Rightarrow> ('w word, 'k) rxExh" where
  "exh_ack_word w s =
     (let a = parseWord (na_data w) (re_ackHeader s); s1 = s\<lparr>re_ackHeader := a\<rparr>;
          s2 = (if ph_ready a \<and> re_opCode s \<noteq> RC_ACK then s1\<lparr>re_output := re_output s @ [w]\<rparr> else s1);
          s3 = (if ph_ready a \<and> \<not> re_metaWritten s
                then s2\<lparr>re_exhMetaFifo := re_exhMetaFifo s @ [\<lparr>em_isNak = isNAK (ph_header a), em_numPkg = 1\<rparr>],
                        re_metaOut := re_metaOut s @ [ex_of_aeth (ph_header a)], re_metaWritten := True\<rparr>
                else s2)
      in if na_last w then s3\<lparr>re_ackHeader := clear_header a, re_state := EXH_META\<rparr> else s3)"

definition exh_reth_word :: "u16 \<Rightarrow> ('w::len word, 'k) net_axis \<Rightarrow> ('w word, 'k) rxExh \<Rightarrow> ('w word, 'k) rxExh" where
  "exh_reth_word pmtu w s =
     (let r = parseWord (na_data w) (re_rdmaHeader s); s1 = s\<lparr>re_rdmaHeader := r\<rparr>;
          s2 = (if re_metaWritten s \<and> LENGTH('w) \<le> 128 then s1\<lparr>re_output := re_output s1 @ [w]\<rparr> else s1);
          n = (if re_opCode s = RC_RDMA_READ_REQUEST then num_packets pmtu (getLength (ph_header r)) else 1);
          s3 = (if ph_ready r \<and> \<not> re_metaWritten s
                then s2\<lparr>re_exhMetaFifo := re_exhMetaFifo s @ [\<lparr>em_isNak = False, em_numPkg = n\<rparr>],
                        re_metaOut := re_metaOut s @ [ph_header r], re_metaWritten := True\<rparr>
                else s2);
          s4 = (if ph_ready r \<and> checkIfWrite (re_opCode s) \<and> LENGTH('w) > 128
                then s3\<lparr>re_output := re_output s3 @ [w]\<rparr> else s3)
      in if na_last w then s4\<lparr>re_rdmaHeader := clear_header r, re_state := EXH_META\<rparr> else s4)"

text \<open>\<open>junk\<close> is the content of a header that is not initialised.\<close>

definition exh_no_word :: "exHeader \<Rightarrow> ('w, 'k) net_axis \<Rightarrow> ('w, 'k) rxExh \<Rightarrow> ('w, 'k) rxExh" where
  "exh_no_word junk w s =
     (let s1 = s\<lparr>re_output := re_output s @ [w]\<rparr>;
          s2 = (if \<not> re_metaWritten s
                then s1\<lparr>re_exhMetaFifo := re_exhMetaFifo s @ [\<lparr>em_isNak = False, em_numPkg = 1\<rparr>],
                        re_metaOut := re_metaOut s @ [junk], re_metaWritten := True\<rparr>
                else s1)
      in if na_last w then s2\<lparr>re_state := EXH_META\<rparr> else s2)"

definition rx_process_exh :: "u16 \<Rightarrow> exHeader \<Rightarrow> ('w::len word, 'k) rxExh \<Rightarrow> ('w word, 'k) rxExh" where
  "rx_process_exh pmtu junk s =
     (case re_state s of
        EXH_META \<Rightarrow>
         (case re_metaIn s of
            [] \<Rightarrow> s
          | op # q \<Rightarrow>
              s\<lparr>re_metaIn := q, re_opCode := op, re_metaWritten := False,
                re_state := (if checkIfAethHeader op then ACK_HEADER
                             else if checkIfRethHeader op then RETH_HEADER else NO_HEADER)\<rparr>)
      | st \<Rightarrow>
         (case re_input s of
            [] \<Rightarrow> s
          | w # q \<Rightarrow>
             (let s1 = s\<lparr>re_input := q\<rparr>
              in case st of
                   ACK_HEADER \<Rightarrow> exh_ack_word w s1
                 | RETH_HEADER \<Rightarrow> exh_reth_word pmtu w s1
                 | _ \<Rightarrow> exh_no_word junk w s1)))"

subsection \<open>Sequence numbers\<close>

datatype ibhFsmStateType = LOAD | IBH_PROCESS

record ibhFsm = psnTable +
  if_metaIn :: "ibhMeta stream"
  if_exhMetaFifo :: "exhMeta stream"
  if_metaOut :: "ibhMeta stream"
  ibhEventFifo :: "ackEvent stream"
  ibhDropFifo :: "bool stream"
  ibhDropMetaFifo :: "fwdPolicy stream"
  m_axis_rx_ack_meta :: "ackMeta stream"
  if_rxClearTimer_req :: "rxTimerUpdate stream"
  if_rx2retrans_upd :: "retransUpdate stream"
  regInvalidPsnDropCount :: u32
  if_fsmState :: ibhFsmStateType
  if_meta :: ibhMeta
  if_emeta :: exhMeta
  if_isResponse :: bool
  if_droppedPackets :: u32

text \<open>The numbers that an acknowledgement may have, and those of packets that have been seen before.\<close>

definition in_ack_window :: "u24 \<Rightarrow> u24 \<Rightarrow> u24 \<Rightarrow> bool" where
  "in_ack_window epsn maxf psn \<longleftrightarrow>
     (epsn \<le> psn \<and> psn \<le> maxf) \<or> ((epsn \<le> psn \<or> psn \<le> maxf) \<and> maxf < epsn)"

definition is_duplicate :: "u24 \<Rightarrow> u24 \<Rightarrow> u24 \<Rightarrow> bool" where
  "is_duplicate old epsn psn \<longleftrightarrow>
     (old < epsn \<and> psn < epsn \<and> psn \<ge> old) \<or> (old > epsn \<and> (psn < epsn \<or> psn \<ge> old))"

definition forwarded_meta :: "ibhMeta \<Rightarrow> ibhMeta" where
  "forwarded_meta m = mk_ibhMeta_psn (im_op_code m) (im_partition_key m) (im_dest_qp m) (im_psn m) (im_validPSN m)"

definition ibh_accept :: "rxStateRsp \<Rightarrow> 'z ibhFsm_scheme \<Rightarrow> 'z ibhFsm_scheme" where
  "ibh_accept qs s =
     (let m = if_meta s; op = im_op_code m; qp = im_dest_qp m; nak = em_isNak (if_emeta s);
          s1 = (if op \<noteq> RC_ACK \<and> op \<noteq> RC_RDMA_READ_REQUEST then s\<lparr>ibhDropFifo := ibhDropFifo s @ [False]\<rparr> else s);
          s2 = s1\<lparr>ibhDropMetaFifo := ibhDropMetaFifo s @ [\<lparr>isDrop = False, ackOnly = False\<rparr>],
                  if_metaOut := if_metaOut s @ [forwarded_meta m]\<rparr>;
          s3 = (if \<not> nak \<and> (op \<noteq> RC_ACK \<or> in_ack_window (sr_epsn qs) (sr_max_forward qs) (im_psn m))
                then s2\<lparr>rxIbh2stateTable_upd_req := rxIbh2stateTable_upd_req s @
                       [mk_rxStateWrite (ucast qp) (im_psn m + ucast (em_numPkg (if_emeta s))) (if_isResponse s)]\<rparr>
                else s2);
          s4 = (if if_isResponse s \<and> \<not> nak
                then s3\<lparr>if_rx2retrans_upd := if_rx2retrans_upd s @
                         [\<lparr>ru_qpn = ucast qp, ru_latest_acked_req = im_psn m, ru_op_code = op\<rparr>],
                        m_axis_rx_ack_meta :=
                         (if op \<noteq> RC_RDMA_READ_RESP_FIRST \<and> op \<noteq> RC_RDMA_READ_RESP_MIDDLE
                          then m_axis_rx_ack_meta s @ [\<lparr>am_rd = (op = RC_ACK), am_qpn = ucast qp, am_psn = im_psn m\<rparr>]
                          else m_axis_rx_ack_meta s)\<rparr>
                else s3)
      in if if_isResponse s \<and> op \<noteq> RC_RDMA_READ_RESP_MIDDLE
         then s4\<lparr>if_rxClearTimer_req := if_rxClearTimer_req s @
                  [\<lparr>rtu_qpn = ucast qp, rtu_stop = (im_psn m = sr_max_forward qs)\<rparr>]\<rparr>
         else s4)"

definition ibh_duplicate :: "'z ibhFsm_scheme \<Rightarrow> 'z ibhFsm_scheme" where
  "ibh_duplicate s =
     (let m = if_meta s; op = im_op_code m
      in if op = RC_RDMA_READ_REQUEST then
           s\<lparr>ibhDropMetaFifo := ibhDropMetaFifo s @ [\<lparr>isDrop = False, ackOnly = False\<rparr>],
             if_metaOut := if_metaOut s @ [forwarded_meta m]\<rparr>
         else if checkIfWrite op then
           s\<lparr>ibhEventFifo := ibhEventFifo s @ [mk_ackEvent (im_dest_qp m) (im_psn m) False],
             if_droppedPackets := if_droppedPackets s + 1, regInvalidPsnDropCount := if_droppedPackets s + 1,
             ibhDropFifo := ibhDropFifo s @ [True],
             ibhDropMetaFifo := ibhDropMetaFifo s @ [\<lparr>isDrop = False, ackOnly = True\<rparr>]\<rparr>
         else
           (let s1 = (if op \<noteq> RC_ACK then s\<lparr>ibhDropFifo := ibhDropFifo s @ [True]\<rparr> else s)
            in s1\<lparr>ibhDropMetaFifo := ibhDropMetaFifo s @ [\<lparr>isDrop = True, ackOnly = False\<rparr>]\<rparr>))"

definition ibh_invalid :: "rxStateRsp \<Rightarrow> 'z ibhFsm_scheme \<Rightarrow> 'z ibhFsm_scheme" where
  "ibh_invalid qs s =
     (let m = if_meta s;
          s1 = s\<lparr>if_droppedPackets := if_droppedPackets s + 1, regInvalidPsnDropCount := if_droppedPackets s + 1,
                 ibhDropMetaFifo := ibhDropMetaFifo s @ [\<lparr>isDrop = True, ackOnly = False\<rparr>]\<rparr>
      in if im_op_code m \<noteq> RC_ACK then
           (let s2 = s1\<lparr>ibhDropFifo := ibhDropFifo s @ [True]\<rparr>;
                nak = (sr_retryCounter qs = 0x7);
                s3 = (if nak
                      then s2\<lparr>ibhEventFifo := ibhEventFifo s @
                             [mk_ackEvent (im_dest_qp m) (if if_isResponse s then im_psn m else sr_epsn qs) True]\<rparr>
                      else s2)
            in s3\<lparr>rxIbh2stateTable_upd_req := rxIbh2stateTable_upd_req s @
                   [RxStateWrite (ucast (im_dest_qp m)) (sr_epsn qs)
                      (if nak then sr_retryCounter qs - 1 else sr_retryCounter qs) (if_isResponse s)]\<rparr>)
         else s1)"

definition rx_ibh_fsm :: "'z ibhFsm_scheme \<Rightarrow> 'z ibhFsm_scheme" where
  "rx_ibh_fsm s =
     (case if_fsmState s of
        LOAD \<Rightarrow>
          (if if_metaIn s \<noteq> [] \<and> if_exhMetaFifo s \<noteq> [] then
             let m = hd (if_metaIn s); r = checkIfResponse (im_op_code m)
             in s\<lparr>if_metaIn := tl (if_metaIn s), if_exhMetaFifo := tl (if_exhMetaFifo s), if_meta := m,
                  if_emeta := hd (if_exhMetaFifo s), if_isResponse := r,
                  rxIbh2stateTable_upd_req := rxIbh2stateTable_upd_req s @ [RxStateRead (ucast (im_dest_qp m)) r],
                  if_fsmState := IBH_PROCESS\<rparr>
           else s)
      | IBH_PROCESS \<Rightarrow>
         (case stateTable2rxIbh_rsp s of
            [] \<Rightarrow> s
          | qs # q \<Rightarrow>
             (let s1 = s\<lparr>stateTable2rxIbh_rsp := q\<rparr>; m = if_meta s;
                  s2 = (if sr_epsn qs = im_psn m \<or> im_op_code m = RC_ACK then ibh_accept qs s1
                        else if is_duplicate (sr_oldest_outstanding_psn qs) (sr_epsn qs) (im_psn m) then ibh_duplicate s1
                        else ibh_invalid qs s1)
              in s2\<lparr>if_fsmState := LOAD\<rparr>)))"

subsection \<open>Windows\<close>

lemma u24_less: "unat (x :: u24) < 16777216"
  using unsigned_less [of x, where ?'a = nat] by simp

lemma in_ack_window_modular: "in_ack_window epsn maxf psn \<longleftrightarrow> psn - epsn \<le> maxf - epsn"
  using u24_less [of epsn] u24_less [of maxf] u24_less [of psn]
  unfolding in_ack_window_def word_le_nat_alt word_less_nat_alt unat_sub_if' by auto

lemma is_duplicate_modular: "is_duplicate old epsn psn \<longleftrightarrow> psn - old < epsn - old"
  using u24_less [of epsn] u24_less [of old] u24_less [of psn]
  unfolding is_duplicate_def word_le_nat_alt word_less_nat_alt unat_sub_if' by auto

text \<open>The two tests of a received sequence number are tests of distance: an acknowledgement is in
  the window if it is not further from the expected number than the last number sent, a packet is a
  duplicate if it is closer to the oldest number than the expected one is, both modulo \<open>2^24\<close>.\<close>

theorem psn_windows_modular:
  "(in_ack_window epsn maxf psn \<longleftrightarrow> psn - epsn \<le> maxf - epsn) \<and> (is_duplicate old epsn psn \<longleftrightarrow> psn - old < epsn - old)"
  by (simp add: in_ack_window_modular is_duplicate_modular)

text \<open>With nothing outstanding the window should be empty, but then its end is the number before its
  start and it contains every number.\<close>

lemma empty_ack_window: "in_ack_window epsn (epsn - 1) psn"
  by (simp add: in_ack_window_modular)

subsection \<open>The table behind the state machine\<close>

text \<open>What the table will hold once the writes under way have arrived; a read of the state machine.\<close>

definition psn_eff :: "'z psnTable_scheme \<Rightarrow> u16 \<Rightarrow> stateTableEntry" where
  "psn_eff s = fold rx_state_upd (rxIbh2stateTable_upd_req s) (psn_entries s)"

fun is_state_read :: "rxStateReq \<Rightarrow> bool" where
  "is_state_read (RxStateRead q r) = True"
| "is_state_read r = False"

definition psn_quiet :: "'z psnTable_scheme \<Rightarrow> bool" where
  "psn_quiet s \<longleftrightarrow> list_all (\<lambda>r. \<not> is_state_read r) (rxIbh2stateTable_upd_req s) \<and> stateTable2rxIbh_rsp s = []"

definition psn_asked :: "u16 \<Rightarrow> bool \<Rightarrow> 'z psnTable_scheme \<Rightarrow> bool" where
  "psn_asked k r s \<longleftrightarrow>
     (\<exists>ws. rxIbh2stateTable_upd_req s = ws @ [RxStateRead k r] \<and> list_all (\<lambda>r. \<not> is_state_read r) ws)
        \<and> stateTable2rxIbh_rsp s = []
   \<or> rxIbh2stateTable_upd_req s = [] \<and>
      (\<exists>a. stateTable2rxIbh_rsp s = [a] \<and> (if r then sr_retryCounter a = 0 else a = rx_state_rsp (psn_eff s k) False))"

lemma rx_state_upd_read [simp]: "is_state_read r \<Longrightarrow> rx_state_upd r T = T"
  by (cases r) auto

text \<open>The part of an entry that belongs to received requests.\<close>

lemma psn_eff_table:
  assumes "qpi2stateTable_upd_req s = []"
  shows "rx_state_rsp (psn_eff (roce_state_table s) k) False = rx_state_rsp (psn_eff s k) False"
  using assms
  by (auto simp: psn_eff_def roce_state_table_def rx_state_rsp_def Let_def split: list.split rxStateReq.split txStateReq.split)

lemma psn_quiet_table:
  "psn_quiet s \<Longrightarrow> psn_quiet (roce_state_table s)"
  by (auto simp: psn_quiet_def roce_state_table_def Let_def
      split: list.split rxStateReq.split txStateReq.split ifStateReq.split)

lemma psn_asked_table:
  assumes a: "psn_asked k r s" and q: "qpi2stateTable_upd_req s = []"
  shows "psn_asked k r (roce_state_table s)"
proof -
  from a consider ws where "rxIbh2stateTable_upd_req s = ws @ [RxStateRead k r]" "list_all (\<lambda>r. \<not> is_state_read r) ws"
      "stateTable2rxIbh_rsp s = []"
    | x where "rxIbh2stateTable_upd_req s = []" "stateTable2rxIbh_rsp s = [x]"
        "if r then sr_retryCounter x = 0 else x = rx_state_rsp (psn_eff s k) False"
    unfolding psn_asked_def by blast
  then show ?thesis
  proof cases
    case 1
    show ?thesis
    proof (cases ws)
      case Nil
      then show ?thesis using 1 by (simp add: psn_asked_def roce_state_table_def psn_eff_def rx_state_rsp_def)
    next
      case (Cons w vs)
      then show ?thesis using 1 by (cases w) (auto simp: psn_asked_def roce_state_table_def Let_def)
    qed
  next
    case 2
    have "stateTable2rxIbh_rsp (roce_state_table s) = [x]" "rxIbh2stateTable_upd_req (roce_state_table s) = []"
      using 2 by (auto simp: roce_state_table_def Let_def split: list.split txStateReq.split ifStateReq.split)
    then show ?thesis using 2(3) psn_eff_table [OF q, of k] by (simp add: psn_asked_def)
  qed
qed

lemma roce_state_table_frame [simp]:
  "if_metaIn (roce_state_table s) = if_metaIn s" "if_exhMetaFifo (roce_state_table s) = if_exhMetaFifo s"
  "if_metaOut (roce_state_table s) = if_metaOut s" "if_fsmState (roce_state_table s) = if_fsmState s"
  "if_meta (roce_state_table s) = if_meta s" "if_emeta (roce_state_table s) = if_emeta s"
  "if_isResponse (roce_state_table s) = if_isResponse s"
  "qpi2stateTable_upd_req s = [] \<Longrightarrow> qpi2stateTable_upd_req (roce_state_table s) = []"
  by (auto simp: roce_state_table_def Let_def split: list.split rxStateReq.split txStateReq.split ifStateReq.split)

subsection \<open>Requests are handed on once and in order\<close>

datatype ibhIn = ArrivePacket ibhMeta exhMeta | TxState txStateReq | PsnTable | IbhFsm

fun ibh_step :: "ibhIn \<Rightarrow> ibhFsm \<Rightarrow> ibhFsm" where
  "ibh_step (ArrivePacket m e) s = s\<lparr>if_metaIn := if_metaIn s @ [m], if_exhMetaFifo := if_exhMetaFifo s @ [e]\<rparr>"
| "ibh_step (TxState r) s = s\<lparr>txIbh2stateTable_upd_req := txIbh2stateTable_upd_req s @ [r]\<rparr>"
| "ibh_step PsnTable s = roce_state_table s"
| "ibh_step IbhFsm s = rx_ibh_fsm s"

text \<open>A connection that is set up, nothing under way.\<close>

definition ibh_idle :: "ibhFsm \<Rightarrow> bool" where
  "ibh_idle s \<longleftrightarrow> if_fsmState s = LOAD \<and> if_metaIn s = [] \<and> if_exhMetaFifo s = [] \<and> if_metaOut s = []
     \<and> rxIbh2stateTable_upd_req s = [] \<and> stateTable2rxIbh_rsp s = [] \<and> qpi2stateTable_upd_req s = []"

text \<open>Packets of the queue pair that are one request of one packet each (no responses, no reads).\<close>

definition to_qp :: "u16 \<Rightarrow> ibhMeta \<Rightarrow> bool" where
  "to_qp k m \<longleftrightarrow> ucast (im_dest_qp m) = k"

definition plain_request :: "u16 \<Rightarrow> ibhMeta \<times> exhMeta \<Rightarrow> bool" where
  "plain_request k p \<longleftrightarrow> (to_qp k (fst p) \<longrightarrow> checkIfResponse (im_op_code (fst p))
     \<or> im_op_code (fst p) \<noteq> RC_RDMA_READ_REQUEST \<and> \<not> em_isNak (snd p) \<and> em_numPkg (snd p) = 1)"

fun plain_input :: "u16 \<Rightarrow> ibhIn \<Rightarrow> bool" where
  "plain_input k (ArrivePacket m e) = plain_request k (m, e)"
| "plain_input k i = True"

definition handed_on :: "u16 \<Rightarrow> ibhFsm \<Rightarrow> u24 list" where
  "handed_on k s = map im_psn (filter (\<lambda>m. to_qp k m \<and> \<not> checkIfResponse (im_op_code m)) (if_metaOut s))"

definition consecutive :: "u24 \<Rightarrow> u24 list \<Rightarrow> bool" where
  "consecutive e xs \<longleftrightarrow> xs = map (\<lambda>i. e + of_nat i) [0 ..< length xs]"

lemma consecutive_snoc: "consecutive e xs \<Longrightarrow> x = e + of_nat (length xs) \<Longrightarrow> consecutive e (xs @ [x])"
  by (simp add: consecutive_def)

definition ibh_inv :: "u16 \<Rightarrow> u24 \<Rightarrow> ibhFsm \<Rightarrow> bool" where
  "ibh_inv k e s \<longleftrightarrow> consecutive e (handed_on k s) \<and> resp_epsn (psn_eff s k) = e + of_nat (length (handed_on k s))
     \<and> length (if_metaIn s) = length (if_exhMetaFifo s)
     \<and> list_all (plain_request k) (zip (if_metaIn s) (if_exhMetaFifo s)) \<and> qpi2stateTable_upd_req s = []
     \<and> (case if_fsmState s of
          LOAD \<Rightarrow> psn_quiet s
        | IBH_PROCESS \<Rightarrow> plain_request k (if_meta s, if_emeta s) \<and> if_isResponse s = checkIfResponse (im_op_code (if_meta s))
            \<and> psn_asked (ucast (im_dest_qp (if_meta s))) (if_isResponse s) s)"

lemma ibh_inv_table: "ibh_inv k e s \<Longrightarrow> ibh_inv k e (roce_state_table s)"
  using psn_eff_table [of s k] psn_quiet_table [of s] psn_asked_table [of _ _ s]
  by (auto simp: ibh_inv_def handed_on_def rx_state_rsp_def split: ibhFsmStateType.splits)

lemma ibh_inv_load:
  assumes "ibh_inv k e s" "if_fsmState s = LOAD"
  shows "ibh_inv k e (rx_ibh_fsm s)"
proof (cases "if_metaIn s \<noteq> [] \<and> if_exhMetaFifo s \<noteq> []")
  case True
  then obtain m ms x xs where "if_metaIn s = m # ms" "if_exhMetaFifo s = x # xs" by (meson neq_Nil_conv)
  then show ?thesis using assms
    by (auto simp: ibh_inv_def rx_ibh_fsm_def Let_def handed_on_def psn_eff_def psn_asked_def psn_quiet_def)
next
  case False
  then show ?thesis using assms by (auto simp: rx_ibh_fsm_def)
qed

text \<open>The three ways to treat a packet: what is handed on and what is written to the table.\<close>

lemma forwarded_meta_simps [simp]:
  "im_op_code (forwarded_meta m) = im_op_code m" "im_dest_qp (forwarded_meta m) = im_dest_qp m"
  "im_psn (forwarded_meta m) = im_psn m"
  by (simp_all add: forwarded_meta_def mk_ibhMeta_psn_def)

lemma ibh_paths:
  "if_metaOut (ibh_accept qs s) = if_metaOut s @ [forwarded_meta (if_meta s)]"
  "if_metaOut (ibh_invalid qs s) = if_metaOut s"
  "if_metaOut (ibh_duplicate s) = if_metaOut s @
     (if im_op_code (if_meta s) = RC_RDMA_READ_REQUEST then [forwarded_meta (if_meta s)] else [])"
  "rxIbh2stateTable_upd_req (ibh_duplicate s) = rxIbh2stateTable_upd_req s"
  "rxIbh2stateTable_upd_req (ibh_invalid qs s) = rxIbh2stateTable_upd_req s @
     (if im_op_code (if_meta s) = RC_ACK then []
      else [RxStateWrite (ucast (im_dest_qp (if_meta s))) (sr_epsn qs)
             (if sr_retryCounter qs = 7 then sr_retryCounter qs - 1 else sr_retryCounter qs) (if_isResponse s)])"
  "rxIbh2stateTable_upd_req (ibh_accept qs s) = rxIbh2stateTable_upd_req s @
     (if \<not> em_isNak (if_emeta s) \<and> (im_op_code (if_meta s) \<noteq> RC_ACK
          \<or> in_ack_window (sr_epsn qs) (sr_max_forward qs) (im_psn (if_meta s)))
      then [RxStateWrite (ucast (im_dest_qp (if_meta s))) (im_psn (if_meta s) + ucast (em_numPkg (if_emeta s))) 7
             (if_isResponse s)] else [])"
  by (auto simp: ibh_accept_def ibh_duplicate_def ibh_invalid_def Let_def mk_rxStateWrite_def check_defs op_defs)

lemma ibh_path_frame [simp]:
  "if_metaIn (ibh_accept qs s) = if_metaIn s" "if_exhMetaFifo (ibh_accept qs s) = if_exhMetaFifo s"
  "psn_entries (ibh_accept qs s) = psn_entries s" "stateTable2rxIbh_rsp (ibh_accept qs s) = stateTable2rxIbh_rsp s"
  "qpi2stateTable_upd_req (ibh_accept qs s) = qpi2stateTable_upd_req s"
  "if_metaIn (ibh_duplicate s) = if_metaIn s" "if_exhMetaFifo (ibh_duplicate s) = if_exhMetaFifo s"
  "psn_entries (ibh_duplicate s) = psn_entries s" "stateTable2rxIbh_rsp (ibh_duplicate s) = stateTable2rxIbh_rsp s"
  "qpi2stateTable_upd_req (ibh_duplicate s) = qpi2stateTable_upd_req s"
  "if_metaIn (ibh_invalid qs s) = if_metaIn s" "if_exhMetaFifo (ibh_invalid qs s) = if_exhMetaFifo s"
  "psn_entries (ibh_invalid qs s) = psn_entries s" "stateTable2rxIbh_rsp (ibh_invalid qs s) = stateTable2rxIbh_rsp s"
  "qpi2stateTable_upd_req (ibh_invalid qs s) = qpi2stateTable_upd_req s"
  by (simp_all add: ibh_accept_def ibh_duplicate_def ibh_invalid_def Let_def)

lemma ibh_inv_process:
  assumes inv: "ibh_inv k e s" and st: "if_fsmState s = IBH_PROCESS"
  shows "ibh_inv k e (rx_ibh_fsm s)"
proof (cases "stateTable2rxIbh_rsp s")
  case Nil
  then show ?thesis using inv st by (simp add: rx_ibh_fsm_def)
next
  case (Cons a q)
  let ?m = "if_meta s" and ?x = "if_emeta s"
  let ?kk = "ucast (im_dest_qp ?m) :: u16"
  have b: "rxIbh2stateTable_upd_req s = []" "q = []" "if_isResponse s = checkIfResponse (im_op_code ?m)"
      "plain_request k (?m, ?x)" "\<not> checkIfResponse (im_op_code ?m) \<Longrightarrow> a = rx_state_rsp (psn_entries s ?kk) False"
    using inv st Cons by (auto simp: ibh_inv_def psn_asked_def psn_eff_def)
  have h: "consecutive e (handed_on k s)" "resp_epsn (psn_entries s k) = e + of_nat (length (handed_on k s))"
    using inv b(1) by (auto simp: ibh_inv_def psn_eff_def)
  let ?s = "s\<lparr>stateTable2rxIbh_rsp := []\<rparr>"
  let ?t = "if sr_epsn a = im_psn ?m \<or> im_op_code ?m = RC_ACK then ibh_accept a ?s
      else if is_duplicate (sr_oldest_outstanding_psn a) (sr_epsn a) (im_psn ?m) then ibh_duplicate ?s else ibh_invalid a ?s"
  have step: "rx_ibh_fsm s = ?t\<lparr>if_fsmState := LOAD\<rparr>"
    using st Cons b(2) by (simp add: rx_ibh_fsm_def Let_def)
  have main: "consecutive e (handed_on k ?t) \<and> resp_epsn (psn_eff ?t k) = e + of_nat (length (handed_on k ?t))
      \<and> list_all (\<lambda>r. \<not> is_state_read r) (rxIbh2stateTable_upd_req ?t)"
  proof (cases "checkIfResponse (im_op_code ?m)")
    case True
    then show ?thesis using h b(1,3) by (auto simp: ibh_paths handed_on_def psn_eff_def)
  next
    case False
    show ?thesis
    proof (cases "?kk = k")
      case other: False
      show ?thesis using h b(1,3) False other
        by (auto simp: handed_on_def psn_eff_def ibh_paths to_qp_def ibh_duplicate_def Let_def)
    next
      case True
      then have r: "im_op_code ?m \<noteq> RC_RDMA_READ_REQUEST" "\<not> em_isNak ?x" "em_numPkg ?x = 1" "im_op_code ?m \<noteq> RC_ACK"
        using b(4) False by (auto simp: plain_request_def to_qp_def check_defs)
      have ep: "sr_epsn a = e + of_nat (length (handed_on k s))" using b(5) [OF False] True h(2) by (simp add: rx_state_rsp_def)
      show ?thesis
      proof (cases "sr_epsn a = im_psn ?m")
        case eq: True
        have out: "handed_on k ?t = handed_on k s @ [im_psn ?m]"
          using eq True False by (simp add: handed_on_def ibh_paths to_qp_def)
        have "consecutive e (handed_on k ?t)" unfolding out by (rule consecutive_snoc [OF h(1)]) (use ep eq in simp)
        moreover have "resp_epsn (psn_eff ?t k) = e + of_nat (length (handed_on k ?t))"
          using out eq r b True False ep by (simp add: psn_eff_def ibh_paths algebra_simps)
        ultimately show ?thesis using eq r b False by (simp add: ibh_paths)
      next
        case neq: False
        then show ?thesis using h r b True False ep by (auto simp: handed_on_def psn_eff_def ibh_paths)
      qed
    qed
  qed
  have io: "if_metaIn ?t = if_metaIn s" "if_exhMetaFifo ?t = if_exhMetaFifo s" "qpi2stateTable_upd_req ?t = qpi2stateTable_upd_req s"
    "stateTable2rxIbh_rsp ?t = []" by simp_all
  have p: "psn_eff (?t\<lparr>if_fsmState := LOAD\<rparr>) = psn_eff ?t" "handed_on k (?t\<lparr>if_fsmState := LOAD\<rparr>) = handed_on k ?t"
    "psn_quiet (?t\<lparr>if_fsmState := LOAD\<rparr>) = psn_quiet ?t"
    by (simp_all add: psn_eff_def handed_on_def psn_quiet_def)
  show ?thesis unfolding step ibh_inv_def p
    using main io inv by (simp add: ibh_inv_def psn_quiet_def)
qed

lemma ibh_inv_step: "ibh_inv k e s \<Longrightarrow> plain_input k i \<Longrightarrow> ibh_inv k e (ibh_step i s)"
proof (cases i)
  case (ArrivePacket m x)
  assume "ibh_inv k e s" "plain_input k i"
  then show ?thesis using ArrivePacket
    by (auto simp: ibh_inv_def handed_on_def psn_eff_def psn_quiet_def psn_asked_def split: ibhFsmStateType.splits)
next
  case (TxState r)
  assume "ibh_inv k e s"
  then show ?thesis using TxState
    by (auto simp: ibh_inv_def handed_on_def psn_eff_def psn_quiet_def psn_asked_def split: ibhFsmStateType.splits)
next
  case PsnTable
  assume "ibh_inv k e s"
  then show ?thesis using PsnTable by (simp add: ibh_inv_table)
next
  case IbhFsm
  assume "ibh_inv k e s"
  then show ?thesis using IbhFsm by (cases "if_fsmState s") (simp_all add: ibh_inv_load ibh_inv_process)
qed

lemma ibh_inv_run: "ibh_inv k e s \<Longrightarrow> list_all (plain_input k) is \<Longrightarrow> ibh_inv k e (run_inputs ibh_step is s)"
  by (induction "is" arbitrary: s) (auto simp: ibh_inv_step)

text \<open>Requests are handed on exactly once and in order: whatever packets arrive for whatever queue
  pairs, and however the state machine, the table and the transmit path interleave, the requests that are
  handed on for a queue pair have consecutive sequence numbers from the expected one, and the expected
  number counts them. The queue pair receives no reads, which take several numbers.\<close>

theorem requests_handed_on_in_order:
  assumes "ibh_idle s" "list_all (plain_input k) is"
  shows "let s' = run_inputs ibh_step is s; e = resp_epsn (psn_entries s k)
    in handed_on k s' = map (\<lambda>i. e + of_nat i) [0 ..< length (handed_on k s')]
       \<and> (rxIbh2stateTable_upd_req s' = [] \<longrightarrow> resp_epsn (psn_entries s' k) = e + of_nat (length (handed_on k s')))"
proof -
  have "ibh_inv k (resp_epsn (psn_entries s k)) s"
    using assms(1) by (simp add: ibh_idle_def ibh_inv_def handed_on_def consecutive_def psn_eff_def psn_quiet_def)
  then have "ibh_inv k (resp_epsn (psn_entries s k)) (run_inputs ibh_step is s)" by (rule ibh_inv_run) (rule assms(2))
  then show ?thesis by (auto simp: ibh_inv_def consecutive_def Let_def psn_eff_def)
qed

definition example_meta :: "u24 \<Rightarrow> ibhMeta" where
  "example_meta psn = mk_ibhMeta_psn RC_RDMA_WRITE_ONLY 0xFFFF 5 psn True"

definition ibh_example :: ibhFsm where
  "ibh_example = \<lparr>rxIbh2stateTable_upd_req = [], txIbh2stateTable_upd_req = [], qpi2stateTable_upd_req = [],
     stateTable2rxIbh_rsp = [], stateTable2txIbh_rsp = [], stateTable2qpi_rsp = [],
     psn_entries = if_state_upd (IfStateWrite 5 READY_RECV 100 10) (\<lambda>_. \<lparr>resp_epsn = 0, resp_old_outstanding = 0,
       req_next_psn = 0, req_old_unack = 0, req_old_valid = 0, retryCounter = 0\<rparr>),
     if_metaIn = [], if_exhMetaFifo = [], if_metaOut = [], ibhEventFifo = [], ibhDropFifo = [], ibhDropMetaFifo = [],
     m_axis_rx_ack_meta = [], if_rxClearTimer_req = [], if_rx2retrans_upd = [], regInvalidPsnDropCount = 0,
     if_fsmState = LOAD, if_meta = example_meta 0, if_emeta = \<lparr>em_isNak = False, em_numPkg = 1\<rparr>,
     if_isResponse = False, if_droppedPackets = 0\<rparr>"

definition ibh_packets :: "u24 list \<Rightarrow> ibhIn list" where
  "ibh_packets psns = map (\<lambda>p. ArrivePacket (example_meta p) \<lparr>em_isNak = False, em_numPkg = 1\<rparr>) psns"

text \<open>A duplicate and packets from the future are not handed on.\<close>

theorem requests_handed_on_in_order_witness:
  "let s' = run_inputs ibh_step (ibh_packets [10, 11, 10, 14, 13, 12] @ concat (replicate 18 [IbhFsm, PsnTable])) ibh_example
   in handed_on 5 s' = [10, 11, 12] \<and> resp_epsn (psn_entries s' 5) = 13"
proof -
  let ?is = "ibh_packets [10, 11, 10, 14, 13, 12] @ concat (replicate 18 [IbhFsm, PsnTable])"
  have i: "ibh_idle ibh_example" by (simp add: ibh_idle_def ibh_example_def)
  have p: "list_all (plain_input 5) ?is"
    by (simp add: ibh_packets_def plain_request_def example_meta_def mk_ibhMeta_psn_def check_defs op_defs eval_nat_numeral)
  have e: "resp_epsn (psn_entries ibh_example 5) = 10" by (simp add: ibh_example_def)
  have n: "length (handed_on 5 (run_inputs ibh_step ?is ibh_example)) = 3
      \<and> rxIbh2stateTable_upd_req (run_inputs ibh_step ?is ibh_example) = []"
    by code_simp
  have l: "map (\<lambda>i. 10 + of_nat i) [0 ..< 3] = ([10, 11, 12] :: u24 list)" by (simp add: upt_rec)
  show ?thesis using requests_handed_on_in_order [OF i p] n e l by (simp add: Let_def)
qed

subsection \<open>Negative acknowledgements\<close>

definition naks :: "u16 \<Rightarrow> ibhFsm \<Rightarrow> nat" where
  "naks k s = length (filter (\<lambda>a. ae_isNak a \<and> ucast (ae_qpn a) = k) (ibhEventFifo s))"

definition nak_inv :: "u16 \<Rightarrow> ibhFsm \<Rightarrow> bool" where
  "nak_inv k s \<longleftrightarrow> naks k s \<le> length (handed_on k s) + (if retryCounter (psn_eff s k) = 7 then 0 else 1)"

lemma ibh_events:
  "ibhEventFifo (ibh_accept qs s) = ibhEventFifo s"
  "ibhEventFifo (ibh_duplicate s) = ibhEventFifo s @
     (if im_op_code (if_meta s) \<noteq> RC_RDMA_READ_REQUEST \<and> checkIfWrite (im_op_code (if_meta s))
      then [mk_ackEvent (im_dest_qp (if_meta s)) (im_psn (if_meta s)) False] else [])"
  "ibhEventFifo (ibh_invalid qs s) = ibhEventFifo s @
     (if im_op_code (if_meta s) \<noteq> RC_ACK \<and> sr_retryCounter qs = 7
      then [mk_ackEvent (im_dest_qp (if_meta s)) (if if_isResponse s then im_psn (if_meta s) else sr_epsn qs) True] else [])"
  by (simp_all add: ibh_accept_def ibh_duplicate_def ibh_invalid_def Let_def)

lemma nak_inv_process:
  assumes inv: "ibh_inv k e s" and n: "nak_inv k s" and st: "if_fsmState s = IBH_PROCESS"
  shows "nak_inv k (rx_ibh_fsm s)"
proof (cases "stateTable2rxIbh_rsp s")
  case Nil
  then show ?thesis using n st by (simp add: rx_ibh_fsm_def)
next
  case (Cons a q)
  let ?m = "if_meta s" and ?x = "if_emeta s"
  let ?kk = "ucast (im_dest_qp ?m) :: u16"
  have b: "rxIbh2stateTable_upd_req s = []" "q = []" "if_isResponse s = checkIfResponse (im_op_code ?m)"
      "plain_request k (?m, ?x)"
      "if checkIfResponse (im_op_code ?m) then sr_retryCounter a = 0 else a = rx_state_rsp (psn_entries s ?kk) False"
    using inv st Cons by (auto simp: ibh_inv_def psn_asked_def psn_eff_def)
  have c: "naks k s \<le> length (handed_on k s) + (if retryCounter (psn_entries s k) = 7 then 0 else 1)"
    using n b(1) by (simp add: nak_inv_def psn_eff_def)
  let ?s = "s\<lparr>stateTable2rxIbh_rsp := []\<rparr>"
  let ?t = "if sr_epsn a = im_psn ?m \<or> im_op_code ?m = RC_ACK then ibh_accept a ?s
      else if is_duplicate (sr_oldest_outstanding_psn a) (sr_epsn a) (im_psn ?m) then ibh_duplicate ?s else ibh_invalid a ?s"
  have step: "rx_ibh_fsm s = ?t\<lparr>if_fsmState := LOAD\<rparr>"
    using st Cons b(2) by (simp add: rx_ibh_fsm_def Let_def)
  have same: "handed_on k (?t\<lparr>if_fsmState := LOAD\<rparr>) = handed_on k ?t" "naks k (?t\<lparr>if_fsmState := LOAD\<rparr>) = naks k ?t"
    "psn_eff (?t\<lparr>if_fsmState := LOAD\<rparr>) = psn_eff ?t" by (simp_all add: handed_on_def naks_def psn_eff_def)
  have grows: "length (handed_on k s) \<le> length (handed_on k ?t)" by (simp add: handed_on_def ibh_paths)
  consider (keep) "naks k ?t = naks k s" "retryCounter (psn_eff ?t k) = retryCounter (psn_entries s k)"
    | (accept) "naks k ?t = naks k s" "length (handed_on k ?t) = length (handed_on k s) + 1" "retryCounter (psn_eff ?t k) = 7"
    | (nak) "naks k ?t = naks k s + 1" "retryCounter (psn_entries s k) = 7" "retryCounter (psn_eff ?t k) = 6"
  proof (cases "checkIfResponse (im_op_code ?m) \<or> ?kk \<noteq> k")
    case True
    then have "naks k ?t = naks k s" "retryCounter (psn_eff ?t k) = retryCounter (psn_entries s k)"
      using b by (auto simp: naks_def psn_eff_def ibh_paths ibh_events mk_ackEvent_def)
    then show ?thesis by (rule keep)
  next
    case False
    then have r: "\<not> checkIfResponse (im_op_code ?m)" "?kk = k" "\<not> em_isNak ?x" "im_op_code ?m \<noteq> RC_ACK"
        "a = rx_state_rsp (psn_entries s k) False" "\<not> if_isResponse s"
      using b(3-5) by (auto simp: plain_request_def to_qp_def check_defs)
    have rc: "sr_retryCounter a = retryCounter (psn_entries s k)" by (simp add: r(5) rx_state_rsp_def)
    show ?thesis
    proof (cases "sr_epsn a = im_psn ?m")
      case True
      then show ?thesis using r b(1)
        by (intro accept) (simp_all add: naks_def handed_on_def psn_eff_def ibh_paths ibh_events to_qp_def)
    next
      case neq: False
      show ?thesis
      proof (cases "is_duplicate (sr_oldest_outstanding_psn a) (sr_epsn a) (im_psn ?m)")
        case True
        then show ?thesis using r b(1) neq
          by (intro keep) (simp_all add: naks_def psn_eff_def ibh_paths ibh_events mk_ackEvent_def)
      next
        case False
        then show ?thesis using r b(1) neq rc
          by (cases "sr_retryCounter a = 7", intro nak)
             (simp_all add: naks_def psn_eff_def ibh_paths ibh_events mk_ackEvent_def keep)
      qed
    qed
  qed
  then show ?thesis unfolding step nak_inv_def same using c grows by cases (simp_all split: if_splits)
qed

lemma nak_inv_step:
  assumes "ibh_inv k e s" "nak_inv k s"
  shows "nak_inv k (ibh_step i s)"
proof (cases i)
  case IbhFsm
  show ?thesis
  proof (cases "if_fsmState s")
    case LOAD
    then have "naks k (rx_ibh_fsm s) = naks k s" "handed_on k (rx_ibh_fsm s) = handed_on k s"
      "psn_eff (rx_ibh_fsm s) = psn_eff s"
      by (simp_all add: naks_def handed_on_def psn_eff_def rx_ibh_fsm_def Let_def)
    then show ?thesis using assms(2) IbhFsm by (simp add: nak_inv_def)
  next
    case IBH_PROCESS
    then show ?thesis using nak_inv_process [OF assms] IbhFsm by simp
  qed
next
  case PsnTable
  have "qpi2stateTable_upd_req s = []" using assms(1) by (simp add: ibh_inv_def)
  from psn_eff_table [OF this, of k]
  have "retryCounter (psn_eff (roce_state_table s) k) = retryCounter (psn_eff s k)" by (simp add: rx_state_rsp_def)
  moreover have "ibhEventFifo (roce_state_table s) = ibhEventFifo s"
    by (auto simp: roce_state_table_def Let_def split: list.split rxStateReq.split txStateReq.split ifStateReq.split)
  ultimately show ?thesis using assms(2) PsnTable by (simp add: nak_inv_def naks_def handed_on_def)
qed (use assms(2) in \<open>simp_all add: nak_inv_def naks_def handed_on_def psn_eff_def\<close>)

lemma nak_inv_run:
  "ibh_inv k e s \<Longrightarrow> nak_inv k s \<Longrightarrow> list_all (plain_input k) is \<Longrightarrow> nak_inv k (run_inputs ibh_step is s)"
  by (induction "is" arbitrary: s) (auto simp: ibh_inv_step nak_inv_step)

text \<open>Negative acknowledgements are not repeated: after one, no further is sent for the queue pair
  until a request has been handed on. So their number exceeds the number of requests handed on by one at
  most, however many packets out of sequence arrive.\<close>

theorem naks_bounded:
  assumes "ibh_idle s" "list_all (plain_input k) is" "ibhEventFifo s = []" "retryCounter (psn_entries s k) = 7"
  shows "naks k (run_inputs ibh_step is s) \<le> length (handed_on k (run_inputs ibh_step is s)) + 1"
proof -
  have "ibh_inv k (resp_epsn (psn_entries s k)) s"
    using assms(1) by (simp add: ibh_idle_def ibh_inv_def handed_on_def consecutive_def psn_eff_def psn_quiet_def)
  moreover have "nak_inv k s" using assms by (simp add: nak_inv_def naks_def)
  ultimately have "nak_inv k (run_inputs ibh_step is s)" by (rule nak_inv_run) (rule assms(2))
  then show ?thesis by (simp add: nak_inv_def split: if_splits)
qed

theorem naks_bounded_witness:
  "naks 5 (run_inputs ibh_step (ibh_packets [14, 15, 16, 10, 20, 21] @ concat (replicate 18 [IbhFsm, PsnTable])) ibh_example)
   \<le> length (handed_on 5 (run_inputs ibh_step (ibh_packets [14, 15, 16, 10, 20, 21]
        @ concat (replicate 18 [IbhFsm, PsnTable])) ibh_example)) + 1"
proof (rule naks_bounded)
  show "ibh_idle ibh_example" "ibhEventFifo ibh_example = []" "retryCounter (psn_entries ibh_example 5) = 7"
    by (simp_all add: ibh_idle_def ibh_example_def)
  show "list_all (plain_input 5) (ibh_packets [14, 15, 16, 10, 20, 21] @ concat (replicate 18 [IbhFsm, PsnTable]))"
    by (simp add: ibh_packets_def plain_request_def example_meta_def mk_ibhMeta_psn_def check_defs op_defs eval_nat_numeral)
qed

end
