(* ===== verification/Roce_Rx_Data.thy ===== *)
theory Roce_Rx_Data
  imports Roce_Rx
begin

text \<open>
  The receive path of the RoCE transport behind the check of sequence numbers
  (\<^verbatim>\<open>ib_transport_protocol/ib_transport_protocol.cpp\<close>): packets become commands to the memory, read requests
  are cut into response packets, payload words are dropped, sorted and merged.
\<close>

subsection \<open>Memory commands\<close>

datatype peStateType = PE_META | DMA_META | PE_DATA

record exhFsm = msnTable +
  pe_metaIn :: "ibhMeta stream"
  pe_udpLengthFifo :: "u16 stream"
  pe_rx2retrans_req :: "retransmission stream"
  pe_retrans2rx_init :: "retransRdInit stream"
  pe_headerInput :: "exHeader stream"
  pe_memoryWriteCmd :: "memCmd stream"
  pe_readRequestFifo :: "readRequest stream"
  pe_exhEventMetaFifo :: "ackEvent stream"
  pe_pkgSplitTypeFifo :: "ibOpCode stream"
  pe_pkgShiftTypeFifo :: "pkgShift stream"
  pe_fsmState :: peStateType
  pe_meta :: ibhMeta
  pe_exHeader :: exHeader
  pe_dmaMeta :: dmaState
  pe_udpLength :: u16
  pe_consumeReadInit :: bool
  pe_readReqInit :: retransRdInit

text \<open>The payload of a packet whose headers take the given number of bytes; the difference is not
  guarded.\<close>

definition payload_length :: "u16 \<Rightarrow> u32 \<Rightarrow> u32" where
  "payload_length udpLength n = ucast udpLength - n"

text \<open>Effects that several operations share.\<close>

definition pe_write_cmd :: "u64 \<Rightarrow> u32 \<Rightarrow> u1 \<Rightarrow> u1 \<Rightarrow> exhFsm \<Rightarrow> exhFsm" where
  "pe_write_cmd addr len ctl host s =
     s\<lparr>pe_memoryWriteCmd := pe_memoryWriteCmd s @ [mk_memCmd addr len ctl host (im_dest_qp (pe_meta s))]\<rparr>"

definition pe_msn :: "u24 \<Rightarrow> u64 \<Rightarrow> u32 \<Rightarrow> u1 \<Rightarrow> exhFsm \<Rightarrow> exhFsm" where
  "pe_msn msn vaddr len lst s =
     s\<lparr>rxExh2msnTable_upd_req := rxExh2msnTable_upd_req s @ [RxMsnWrite (ucast (im_dest_qp (pe_meta s))) msn vaddr len lst]\<rparr>"

definition pe_ack :: "exhFsm \<Rightarrow> exhFsm" where
  "pe_ack s = s\<lparr>pe_exhEventMetaFifo := pe_exhEventMetaFifo s @ [mk_ackEvent (im_dest_qp (pe_meta s)) (im_psn (pe_meta s)) False]\<rparr>"

definition pe_split :: "exhFsm \<Rightarrow> exhFsm" where
  "pe_split s = s\<lparr>pe_pkgSplitTypeFifo := pe_pkgSplitTypeFifo s @ [im_op_code (pe_meta s)]\<rparr>"

definition pe_shift :: "pkgShiftType \<Rightarrow> exhFsm \<Rightarrow> exhFsm" where
  "pe_shift sh s = s\<lparr>pe_pkgShiftTypeFifo := pe_pkgShiftTypeFifo s @ [\<lparr>ps_type = sh, ps_qpn = im_dest_qp (pe_meta s)\<rparr>]\<rparr>"

definition pe_to_meta :: "exhFsm \<Rightarrow> exhFsm" where
  "pe_to_meta s = s\<lparr>pe_fsmState := PE_META\<rparr>"

definition pe_retrans :: "exhFsm \<Rightarrow> exhFsm" where
  "pe_retrans s = s\<lparr>pe_rx2retrans_req := pe_rx2retrans_req s @
     [\<lparr>rn_qpn = ucast (im_dest_qp (pe_meta s)), rn_psn = im_psn (pe_meta s)\<rparr>]\<rparr>"

lemmas pe_effects = pe_write_cmd_def pe_msn_def pe_ack_def pe_split_def pe_shift_def pe_to_meta_def pe_retrans_def

definition pe_send :: "u1 \<Rightarrow> exhFsm \<Rightarrow> exhFsm" where
  "pe_send ctl s =
     (let len = payload_length (pe_udpLength s) (8 + 12 + 4)
      in pe_to_meta (pe_shift SHIFT_NONE (pe_split (pe_ack
           (pe_msn (ds_msn (pe_dmaMeta s) + 1) 0 0 0 (pe_write_cmd 0 len ctl PKG_INT s))))))"

definition pe_write_first :: "exhFsm \<Rightarrow> exhFsm" where
  "pe_write_first s =
     (let h = pe_exHeader s; len = payload_length (pe_udpLength s) (8 + 12 + 16 + 4);
          s1 = (if im_op_code (pe_meta s) = RC_RDMA_WRITE_ONLY then pe_write_cmd (getVirtualAddress h) len PKG_F PKG_HOST s else s);
          s2 = (if im_op_code (pe_meta s) = RC_RDMA_WRITE_FIRST then pe_write_cmd (getVirtualAddress h) len PKG_NF PKG_HOST s1 else s1)
      in if getLength h \<noteq> 0
         then pe_to_meta (pe_shift SHIFT_RETH (pe_split (pe_ack
                (pe_msn (ds_msn (pe_dmaMeta s) + 1) (getVirtualAddress h + ucast len) (getLength h - len) 1 s2))))
         else s)"

definition pe_write_next :: "exhFsm \<Rightarrow> exhFsm" where
  "pe_write_next s =
     (let d = pe_dmaMeta s; len = payload_length (pe_udpLength s) (8 + 12 + 4);
          s1 = (if im_op_code (pe_meta s) = RC_RDMA_WRITE_LAST then pe_write_cmd (ds_vaddr d) len PKG_F PKG_HOST s else s);
          s2 = (if im_op_code (pe_meta s) = RC_RDMA_WRITE_MIDDLE then pe_write_cmd (ds_vaddr d) len PKG_NF PKG_HOST s1 else s1)
      in pe_to_meta (pe_shift SHIFT_NONE (pe_split (pe_ack
           (pe_msn (ds_msn d + 1) (ds_vaddr d + ucast len) (ds_dma_length d - len) 1 s2)))))"

definition pe_read_request :: "exhFsm \<Rightarrow> exhFsm" where
  "pe_read_request s =
     (let h = pe_exHeader s; m = pe_meta s
      in pe_to_meta
          (if getLength h \<noteq> 0
           then pe_msn (ds_msn (pe_dmaMeta s) + 1) 0 0 0
                  (s\<lparr>pe_readRequestFifo := pe_readRequestFifo s @
                      [mk_readRequest (im_dest_qp m) (getVirtualAddress h) (getLength h) (im_psn m)]\<rparr>)
           else s))"

definition pe_read_resp :: "exhFsm \<Rightarrow> exhFsm" where
  "pe_read_resp s =
     (let op = im_op_code (pe_meta s); d = pe_dmaMeta s; i = pe_readReqInit s;
          len = payload_length (pe_udpLength s) (8 + 12 + 4 + 4);
          s1 = (if isNAK (getAckHeader (pe_exHeader s)) then pe_retrans s else s);
          s2 = pe_shift SHIFT_AETH s1;
          s3 = (if op = RC_RDMA_READ_RESP_FIRST
                then pe_msn (ds_msn d) (ri_laddr i + ucast len) len (ri_lst i) (pe_write_cmd (ri_laddr i) len PKG_NF PKG_HOST s2)
                else s2);
          s4 = (if op = RC_RDMA_READ_RESP_ONLY
                then pe_msn (ds_msn d) (ri_laddr i + ucast len) len (ri_lst i) (pe_write_cmd (ri_laddr i) len (ri_lst i) PKG_HOST s3)
                else s3);
          s5 = (if op = RC_RDMA_READ_RESP_LAST then pe_write_cmd (ds_vaddr d) len (ds_lst d) PKG_HOST s4 else s4)
      in pe_to_meta (pe_split s5))"

definition pe_read_middle :: "exhFsm \<Rightarrow> exhFsm" where
  "pe_read_middle s =
     (let d = pe_dmaMeta s; len = payload_length (pe_udpLength s) (8 + 12 + 4)
      in pe_to_meta (pe_split (pe_msn (ds_msn d) (ds_vaddr d + ucast len) len (ds_lst d)
           (pe_write_cmd (ds_vaddr d) len PKG_NF PKG_HOST (pe_shift SHIFT_NONE s)))))"

definition pe_ack_packet :: "exhFsm \<Rightarrow> exhFsm" where
  "pe_ack_packet s = pe_to_meta (if isNAK (getAckHeader (pe_exHeader s)) then pe_retrans s else s)"

definition pe_data :: "exhFsm \<Rightarrow> exhFsm" where
  "pe_data s =
     (let op = im_op_code (pe_meta s)
      in if op = RC_SEND_ONLY \<or> op = RC_SEND_LAST then pe_send PKG_F s
         else if op = RC_SEND_FIRST \<or> op = RC_SEND_MIDDLE then pe_send PKG_NF s
         else if op = RC_RDMA_WRITE_ONLY \<or> op = RC_RDMA_WRITE_FIRST then pe_write_first s
         else if op = RC_RDMA_WRITE_MIDDLE \<or> op = RC_RDMA_WRITE_LAST then pe_write_next s
         else if op = RC_RDMA_READ_REQUEST then pe_read_request s
         else if op = RC_RDMA_READ_RESP_ONLY \<or> op = RC_RDMA_READ_RESP_FIRST \<or> op = RC_RDMA_READ_RESP_LAST then pe_read_resp s
         else if op = RC_RDMA_READ_RESP_MIDDLE then pe_read_middle s
         else if op = RC_ACK then pe_ack_packet s
         else s)"

definition rx_exh_fsm :: "exhFsm \<Rightarrow> exhFsm" where
  "rx_exh_fsm s =
     (case pe_fsmState s of
        PE_META \<Rightarrow>
          (if pe_metaIn s \<noteq> [] \<and> pe_headerInput s \<noteq> [] then
             let m = hd (pe_metaIn s)
             in s\<lparr>pe_metaIn := tl (pe_metaIn s), pe_headerInput := tl (pe_headerInput s), pe_meta := m,
                  pe_exHeader := hd (pe_headerInput s),
                  rxExh2msnTable_upd_req := rxExh2msnTable_upd_req s @ [RxMsnRead (ucast (im_dest_qp m))],
                  pe_consumeReadInit := (im_op_code m = RC_RDMA_READ_RESP_ONLY \<or> im_op_code m = RC_RDMA_READ_RESP_FIRST),
                  pe_fsmState := DMA_META\<rparr>
           else s)
      | DMA_META \<Rightarrow>
          (if msnTable2rxExh_rsp s \<noteq> [] \<and> pe_udpLengthFifo s \<noteq> [] \<and> (\<not> pe_consumeReadInit s \<or> pe_retrans2rx_init s \<noteq> []) then
             let s1 = s\<lparr>msnTable2rxExh_rsp := tl (msnTable2rxExh_rsp s), pe_dmaMeta := hd (msnTable2rxExh_rsp s),
                        pe_udpLengthFifo := tl (pe_udpLengthFifo s), pe_udpLength := hd (pe_udpLengthFifo s)\<rparr>;
                 s2 = (if pe_consumeReadInit s
                       then s1\<lparr>pe_readReqInit := hd (pe_retrans2rx_init s), pe_retrans2rx_init := tl (pe_retrans2rx_init s)\<rparr>
                       else s1)
             in s2\<lparr>pe_fsmState := PE_DATA\<rparr>
           else s)
      | PE_DATA \<Rightarrow> pe_data s)"

subsection \<open>Payload words\<close>

datatype dropStateType = DROP_META | DROP_FWD | DROP_DROP

record ('w, 'k) dropOoo =
  do_input :: "('w, 'k) net_axis stream"
  do_metaIn :: "bool stream"
  do_output :: "('w, 'k) net_axis stream"
  do_state :: dropStateType
  cntPacketsFwd :: u32
  cntPacketsDrop :: u32
  cntBeatsFwd :: u32
  cntBeatsDrop :: u32

definition drop_ooo_ibh :: "('w, 'k) dropOoo \<Rightarrow> ('w, 'k) dropOoo" where
  "drop_ooo_ibh s =
     (case do_state s of
        DROP_META \<Rightarrow>
         (case do_metaIn s of
            [] \<Rightarrow> s
          | d # q \<Rightarrow> s\<lparr>do_metaIn := q, do_state := (if d then DROP_DROP else DROP_FWD)\<rparr>)
      | DROP_FWD \<Rightarrow>
         (case do_input s of
            [] \<Rightarrow> s
          | w # q \<Rightarrow>
             (let s1 = s\<lparr>do_input := q, do_output := do_output s @ [w], cntBeatsFwd := cntBeatsFwd s + 1\<rparr>
              in if na_last w then s1\<lparr>cntPacketsFwd := cntPacketsFwd s + 1, do_state := DROP_META\<rparr> else s1))
      | DROP_DROP \<Rightarrow>
         (case do_input s of
            [] \<Rightarrow> s
          | w # q \<Rightarrow>
             (let s1 = s\<lparr>do_input := q, cntBeatsDrop := cntBeatsDrop s + 1\<rparr>
              in if na_last w then s1\<lparr>cntPacketsDrop := cntPacketsDrop s + 1, do_state := DROP_META\<rparr> else s1)))"

record ('w, 'k) exhPayload =
  ep_metaIn :: "ibOpCode stream"
  ep_input :: "('w, 'k) net_axis stream"
  rx_exh2rethShiftFifo :: "('w, 'k) net_axis stream"
  rx_exh2aethShiftFifo :: "('w, 'k) net_axis stream"
  rx_exhNoShiftFifo :: "('w, 'k) net_axis stream"
  ep_in_packet :: bool \<comment> \<open>\<open>rep_state == PKG\<close>\<close>
  ep_meta :: ibOpCode

definition rx_exh_payload :: "('w, 'k) exhPayload \<Rightarrow> ('w, 'k) exhPayload" where
  "rx_exh_payload s =
     (if \<not> ep_in_packet s then
        (case ep_metaIn s of [] \<Rightarrow> s | m # q \<Rightarrow> s\<lparr>ep_metaIn := q, ep_meta := m, ep_in_packet := True\<rparr>)
      else
        (case ep_input s of
           [] \<Rightarrow> s
         | w # q \<Rightarrow>
            (let op = ep_meta s; s1 = s\<lparr>ep_input := q\<rparr>;
                 s2 = (if checkIfRethHeader op then s1\<lparr>rx_exh2rethShiftFifo := rx_exh2rethShiftFifo s @ [w]\<rparr>
                       else if op = RC_RDMA_READ_RESP_ONLY \<or> op = RC_RDMA_READ_RESP_FIRST \<or> op = RC_RDMA_READ_RESP_LAST
                       then s1\<lparr>rx_exh2aethShiftFifo := rx_exh2aethShiftFifo s @ [w]\<rparr>
                       else s1\<lparr>rx_exhNoShiftFifo := rx_exhNoShiftFifo s @ [w]\<rparr>)
             in if na_last w then s2\<lparr>ep_in_packet := False\<rparr> else s2)))"

datatype mrpStateType = MRP_IDLE | FWD_AETH | FWD_RETH | FWD_NONE

record ('w, 'k) mergeRx =
  mr_pkgShiftTypeFifo :: "pkgShift stream"
  rx_aethSift2mergerFifo :: "('w, 'k) net_axis stream"
  rx_rethSift2mergerFifo :: "('w, 'k) net_axis stream"
  rx_NoSift2mergerFifo :: "('w, 'k) net_axis stream"
  mr_mem_write_data :: "('w, 'k) net_axis stream"
  mr_state :: mrpStateType

definition merge_word :: "('w, 'k) net_axis \<Rightarrow> ('w, 'k) mergeRx \<Rightarrow> ('w, 'k) mergeRx" where
  "merge_word w s = s\<lparr>mr_mem_write_data := mr_mem_write_data s @ [w], mr_state := (if na_last w then MRP_IDLE else mr_state s)\<rparr>"

definition merge_rx_pkgs :: "('w, 'k) mergeRx \<Rightarrow> ('w, 'k) mergeRx" where
  "merge_rx_pkgs s =
     (case mr_state s of
        MRP_IDLE \<Rightarrow>
         (case mr_pkgShiftTypeFifo s of
            [] \<Rightarrow> s
          | sh # q \<Rightarrow> s\<lparr>mr_pkgShiftTypeFifo := q,
                       mr_state := (case ps_type sh of SHIFT_AETH \<Rightarrow> FWD_AETH | SHIFT_RETH \<Rightarrow> FWD_RETH | SHIFT_NONE \<Rightarrow> FWD_NONE)\<rparr>)
      | FWD_AETH \<Rightarrow> (case rx_aethSift2mergerFifo s of [] \<Rightarrow> s | w # q \<Rightarrow> merge_word w (s\<lparr>rx_aethSift2mergerFifo := q\<rparr>))
      | FWD_RETH \<Rightarrow> (case rx_rethSift2mergerFifo s of [] \<Rightarrow> s | w # q \<Rightarrow> merge_word w (s\<lparr>rx_rethSift2mergerFifo := q\<rparr>))
      | FWD_NONE \<Rightarrow> (case rx_NoSift2mergerFifo s of [] \<Rightarrow> s | w # q \<Rightarrow> merge_word w (s\<lparr>rx_NoSift2mergerFifo := q\<rparr>)))"

subsection \<open>Read requests\<close>

record readHandler =
  hr_requestIn :: "readRequest stream"
  hr_memoryReadCmd :: "memCmdInternal stream"
  hr_readEventFifo :: "ibEvent stream"
  hr_generate :: bool \<comment> \<open>\<open>hrr_fsmState == GENERATE\<close>\<close>
  hr_request :: readRequest

definition hr_emit :: "ibOpCode \<Rightarrow> u64 \<Rightarrow> u32 \<Rightarrow> readHandler \<Rightarrow> readHandler" where
  "hr_emit op addr len s =
     (let r = hr_request s
      in s\<lparr>hr_memoryReadCmd := hr_memoryReadCmd s @ [mk_memCmdInternal op (ucast (rq_qpn r)) addr len (rq_host r)],
           hr_readEventFifo := hr_readEventFifo s @ [mk_ibEvent_psn op (rq_qpn r) 0 len (rq_psn r)]\<rparr>)"

definition read_advance :: "u16 \<Rightarrow> readRequest \<Rightarrow> readRequest" where
  "read_advance pmtu r = r\<lparr>rq_vaddr := rq_vaddr r + ucast pmtu, rq_dma_length := rq_dma_length r - ucast pmtu\<rparr>"

definition handle_read_requests :: "u16 \<Rightarrow> readHandler \<Rightarrow> readHandler" where
  "handle_read_requests pmtu s =
     (if \<not> hr_generate s then
        (case hr_requestIn s of
           [] \<Rightarrow> s
         | r # q \<Rightarrow>
            (let s1 = s\<lparr>hr_requestIn := q, hr_request := r\<rparr>
             in if rq_dma_length r > ucast pmtu
                then hr_emit RC_RDMA_READ_RESP_FIRST (rq_vaddr r) (ucast pmtu)
                       (s1\<lparr>hr_request := read_advance pmtu r, hr_generate := True\<rparr>)
                else hr_emit RC_RDMA_READ_RESP_ONLY (rq_vaddr r) (rq_dma_length r) s1))
      else
        (let r = hr_request s; r1 = r\<lparr>rq_psn := rq_psn r + 1\<rparr>
         in if rq_dma_length r > ucast pmtu
            then hr_emit RC_RDMA_READ_RESP_MIDDLE (rq_vaddr r) (ucast pmtu) (s\<lparr>hr_request := read_advance pmtu r1\<rparr>)
            else hr_emit RC_RDMA_READ_RESP_LAST (rq_vaddr r) (rq_dma_length r) (s\<lparr>hr_request := r1, hr_generate := False\<rparr>)))"

end
