(* ===== verification/Roce_Rx_Proofs.thy ===== *)
theory Roce_Rx_Proofs
  imports Roce_Rx_Data
begin

text \<open>
  What the receive path of the RoCE transport does with packets (\<^verbatim>\<open>ib_transport_protocol.cpp\<close>: \<open>rx_exh_fsm\<close>,
  \<open>handle_read_requests\<close>): reads are cut into packets, writes go to consecutive addresses, and some packets
  are never finished.
\<close>

subsection \<open>Reads are cut into packets\<close>

definition read_ops :: "nat \<Rightarrow> nat \<Rightarrow> ibOpCode" where
  "read_ops n i =
     (if n = 1 then RC_RDMA_READ_RESP_ONLY else if i = 0 then RC_RDMA_READ_RESP_FIRST
      else if i = n - 1 then RC_RDMA_READ_RESP_LAST else RC_RDMA_READ_RESP_MIDDLE)"

definition read_len :: "nat \<Rightarrow> nat \<Rightarrow> nat \<Rightarrow> u32" where
  "read_len p len i = of_nat (min p (len - i * p))"

text \<open>The commands and events of the packets \<open>i\<close>, \<open>i + 1\<close>, ... of a request of \<open>n\<close> packets.\<close>

definition read_cmds :: "u16 \<Rightarrow> readRequest \<Rightarrow> nat \<Rightarrow> nat list \<Rightarrow> memCmdInternal list" where
  "read_cmds pmtu r n is = map (\<lambda>i. mk_memCmdInternal (read_ops n i) (ucast (rq_qpn r)) (rq_vaddr r + of_nat (i * unat pmtu))
     (read_len (unat pmtu) (unat (rq_dma_length r)) i) (rq_host r)) is"

definition read_events :: "u16 \<Rightarrow> readRequest \<Rightarrow> nat \<Rightarrow> nat list \<Rightarrow> ibEvent list" where
  "read_events pmtu r n is = map (\<lambda>i. mk_ibEvent_psn (read_ops n i) (rq_qpn r) 0
     (read_len (unat pmtu) (unat (rq_dma_length r)) i) (rq_psn r + of_nat i)) is"

definition packets :: "u16 \<Rightarrow> u32 \<Rightarrow> nat" where
  "packets pmtu len = (unat len + (unat pmtu - 1)) div unat pmtu"

lemma word_nat_cast_back: "of_nat (unat w) = (w :: 'a::len word)"
  by simp

lemma ucast_pmtu: "unat (ucast (pmtu :: u16) :: u32) = unat pmtu" "of_nat (unat pmtu) = (ucast pmtu :: u32)"
  "of_nat (unat pmtu) = (ucast pmtu :: u64)"
proof -
  have l: "unat pmtu < 2 ^ 16" using unsigned_less [of pmtu, where ?'a = nat] by simp
  then show u: "unat (ucast pmtu :: u32) = unat pmtu" by (simp add: unsigned_ucast_eq take_bit_nat_eq_self)
  have u64: "unat (ucast pmtu :: u64) = unat pmtu" using l by (simp add: unsigned_ucast_eq take_bit_nat_eq_self)
  show "of_nat (unat pmtu) = (ucast pmtu :: u32)" "of_nat (unat pmtu) = (ucast pmtu :: u64)"
    using u u64 by (metis word_nat_cast_back)+
qed

text \<open>After \<open>i\<close> packets of a request that needs more.\<close>

definition read_progress :: "u16 \<Rightarrow> readRequest \<Rightarrow> readHandler \<Rightarrow> nat \<Rightarrow> readHandler \<Rightarrow> bool" where
  "read_progress pmtu r s i s' \<longleftrightarrow>
     hr_generate s' \<and> hr_requestIn s' = tl (hr_requestIn s)
     \<and> hr_request s' = r\<lparr>rq_vaddr := rq_vaddr r + of_nat (i * unat pmtu),
          rq_dma_length := rq_dma_length r - of_nat (i * unat pmtu), rq_psn := rq_psn r + of_nat (i - 1)\<rparr>
     \<and> hr_memoryReadCmd s' = hr_memoryReadCmd s @ read_cmds pmtu r (packets pmtu (rq_dma_length r)) [0 ..< i]
     \<and> hr_readEventFifo s' = hr_readEventFifo s @ read_events pmtu r (packets pmtu (rq_dma_length r)) [0 ..< i]"

lemma packets_more:
  assumes "0 < unat pmtu"
  shows "i < packets pmtu len \<longleftrightarrow> i * unat pmtu < unat len"
proof -
  have "i < packets pmtu len \<longleftrightarrow> Suc i * unat pmtu \<le> unat len + (unat pmtu - 1)"
    unfolding packets_def using assms by (metis Suc_le_eq less_eq_div_iff_mult_less_eq)
  also have "\<dots> \<longleftrightarrow> i * unat pmtu < unat len" using assms by auto
  finally show ?thesis .
qed

lemma remaining_length:
  assumes "i * unat (pmtu :: u16) \<le> unat (len :: u32)"
  shows "unat (len - of_nat (i * unat pmtu)) = unat len - i * unat pmtu"
proof -
  have "unat (of_nat (i * unat pmtu) :: u32) = i * unat pmtu" using assms by (rule unat_of_nat_below)
  then show ?thesis using assms by (simp add: unat_sub word_le_nat_alt)
qed

lemma read_first:
  assumes "\<not> hr_generate s" "hr_requestIn s = r # q" "0 < unat pmtu" "1 < packets pmtu (rq_dma_length r)"
  shows "read_progress pmtu r s 1 (handle_read_requests pmtu s)"
proof -
  have more: "unat pmtu < unat (rq_dma_length r)" using assms packets_more [of pmtu 1] by simp
  then have "ucast pmtu < rq_dma_length r" by (simp add: word_less_nat_alt ucast_pmtu)
  then show ?thesis using assms more
    by (simp add: read_progress_def handle_read_requests_def hr_emit_def read_advance_def Let_def read_cmds_def
        read_events_def read_ops_def read_len_def ucast_pmtu min_def)
qed

lemma read_middle:
  assumes "read_progress pmtu r s i s'" "0 < unat pmtu" "0 < i" "i + 1 < packets pmtu (rq_dma_length r)"
  shows "read_progress pmtu r s (i + 1) (handle_read_requests pmtu s')"
proof -
  let ?len = "rq_dma_length r"
  have more: "i * unat pmtu + unat pmtu < unat ?len" using assms packets_more [of pmtu "i + 1"] by simp
  then have rem: "unat (?len - of_nat (i * unat pmtu)) = unat ?len - i * unat pmtu" by (intro remaining_length) simp
  then have "ucast pmtu < ?len - of_nat (i * unat pmtu)" using more by (simp add: word_less_nat_alt ucast_pmtu)
  moreover have "min (unat pmtu) (unat ?len - i * unat pmtu) = unat pmtu" using more by simp
  moreover have "of_nat (i - Suc 0) + 1 = (of_nat i :: u24)" using assms(3) by (simp add: of_nat_diff)
  ultimately show ?thesis using assms
    by (simp add: read_progress_def handle_read_requests_def hr_emit_def read_advance_def Let_def read_cmds_def
        read_events_def read_ops_def read_len_def ucast_pmtu algebra_simps)
qed

lemma read_progress_calls:
  assumes "\<not> hr_generate s" "hr_requestIn s = r # q" "0 < unat pmtu" "0 < i" "i < packets pmtu (rq_dma_length r)"
  shows "read_progress pmtu r s i ((handle_read_requests pmtu ^^ i) s)"
  using assms(4,5)
proof (induction i)
  case (Suc i)
  show ?case
  proof (cases "i = 0")
    case True
    then show ?thesis using read_first [OF assms(1-3)] Suc.prems by simp
  next
    case False
    then show ?thesis using read_middle [OF Suc.IH assms(3)] Suc.prems by simp
  qed
qed simp

text \<open>C38. A read request is answered completely: with as many calls as there are packets, the handler
  issues one memory command and one response per packet, in order; the packets cover the requested bytes
  without gap or overlap, each but the last has the maximal size, the sequence numbers are consecutive, and
  the operation codes frame the response. The number of packets is the one by which the expected sequence
  number moved on when the request arrived.\<close>

theorem read_request_answered:
  assumes "\<not> hr_generate s" "hr_requestIn s = r # q" "0 < pmtu" "0 < rq_dma_length r"
  shows "let n = (unat (rq_dma_length r) + (unat pmtu - 1)) div unat pmtu;
             s' = (handle_read_requests pmtu ^^ n) s
    in hr_memoryReadCmd s' = hr_memoryReadCmd s @ map (\<lambda>i. mk_memCmdInternal (read_ops n i) (ucast (rq_qpn r))
           (rq_vaddr r + of_nat (i * unat pmtu)) (of_nat (min (unat pmtu) (unat (rq_dma_length r) - i * unat pmtu)))
           (rq_host r)) [0 ..< n]
     \<and> hr_readEventFifo s' = hr_readEventFifo s @ map (\<lambda>i. mk_ibEvent_psn (read_ops n i) (rq_qpn r) 0
           (of_nat (min (unat pmtu) (unat (rq_dma_length r) - i * unat pmtu))) (rq_psn r + of_nat i)) [0 ..< n]
     \<and> \<not> hr_generate s' \<and> hr_requestIn s' = q \<and> num_packets pmtu (rq_dma_length r) = of_nat n"
proof -
  define n where "n = packets pmtu (rq_dma_length r)"
  have p: "0 < unat pmtu" "0 < unat (rq_dma_length r)" using assms(3,4) by (simp_all add: word_less_nat_alt)
  have n0: "0 < n" using packets_more [OF p(1), of 0] p(2) by (simp add: n_def)
  have last: "\<not> n * unat pmtu < unat (rq_dma_length r)" using packets_more [OF p(1), of n "rq_dma_length r"] by (simp add: n_def)
  have "hr_memoryReadCmd ((handle_read_requests pmtu ^^ n) s) = hr_memoryReadCmd s @ read_cmds pmtu r n [0 ..< n]
     \<and> hr_readEventFifo ((handle_read_requests pmtu ^^ n) s) = hr_readEventFifo s @ read_events pmtu r n [0 ..< n]
     \<and> \<not> hr_generate ((handle_read_requests pmtu ^^ n) s) \<and> hr_requestIn ((handle_read_requests pmtu ^^ n) s) = q"
  proof (cases "n = 1")
    case True
    then have "\<not> ucast pmtu < rq_dma_length r" using last by (simp add: word_less_nat_alt ucast_pmtu)
    then show ?thesis using assms(1,2) True last
      by (simp add: handle_read_requests_def hr_emit_def Let_def read_cmds_def read_events_def read_ops_def read_len_def min_def)
  next
    case False
    then obtain i where i: "n = Suc i" "0 < i" using n0 by (cases n) auto
    define s1 where "s1 = (handle_read_requests pmtu ^^ i) s"
    have pr: "read_progress pmtu r s i s1" unfolding s1_def
      using read_progress_calls [OF assms(1,2) p(1) i(2)] i by (simp add: n_def)
    have rem: "unat (rq_dma_length r - of_nat (i * unat pmtu)) = unat (rq_dma_length r) - i * unat pmtu"
      using packets_more [OF p(1), of i "rq_dma_length r"] i by (intro remaining_length) (simp add: n_def)
    have small: "unat (rq_dma_length r) - i * unat pmtu \<le> unat pmtu" using last i by simp
    then have fits: "\<not> ucast pmtu < rq_dma_length r - of_nat (i * unat pmtu)" using rem by (simp add: word_less_nat_alt ucast_pmtu)
    have len: "of_nat (min (unat pmtu) (unat (rq_dma_length r) - i * unat pmtu)) = rq_dma_length r - of_nat (i * unat pmtu)"
      using small rem by (metis min.absorb2 word_nat_cast_back)
    have psn: "rq_psn r + of_nat (i - Suc 0) + 1 = rq_psn r + of_nat i" using i(2) by (simp add: of_nat_diff)
    have eq: "(handle_read_requests pmtu ^^ n) s = handle_read_requests pmtu s1" by (simp add: i(1) s1_def)
    show ?thesis unfolding eq using pr fits len psn i assms(2)
      by (simp add: read_progress_def handle_read_requests_def hr_emit_def Let_def read_cmds_def read_events_def
          read_ops_def read_len_def n_def [symmetric])
  qed
  then show ?thesis
    by (simp add: Let_def n_def packets_def read_cmds_def read_events_def read_len_def num_packets_def)
qed

theorem read_request_answered_witness:
  "let r = mk_readRequest 5 0x1000 10000 7;
       s = \<lparr>hr_requestIn = [r], hr_memoryReadCmd = [], hr_readEventFifo = [], hr_generate = False, hr_request = r\<rparr>;
       s' = (handle_read_requests 4096 ^^ 3) s
   in map mi_addr (hr_memoryReadCmd s') = [0x1000, 0x2000, 0x3000] \<and> map ev_psn (hr_readEventFifo s') = [7, 8, 9]"
proof -
  let ?r = "mk_readRequest 5 0x1000 10000 7"
  let ?s = "\<lparr>hr_requestIn = [?r], hr_memoryReadCmd = [], hr_readEventFifo = [], hr_generate = False, hr_request = ?r\<rparr>"
  have n: "(unat (rq_dma_length ?r) + (unat (4096 :: u16) - 1)) div unat (4096 :: u16) = 3"
    by (simp add: mk_readRequest_def)
  have "[0 ..< 3] = [0, 1, 2 :: nat]" by (simp add: upt_rec)
  then show ?thesis
    using read_request_answered [of ?s ?r "[]" 4096] unfolding n Let_def
    by (simp add: mk_readRequest_def mk_memCmdInternal_def mk_ibEvent_psn_def)
qed

end
