(* ===== verification/Roce_Rx_Writes.thy ===== *)
theory Roce_Rx_Writes
  imports Roce_Rx_Data
begin

text \<open>
  Writes of the remote side (\<^verbatim>\<open>ib_transport_protocol.cpp\<close>: \<open>rx_exh_fsm\<close> with \<^verbatim>\<open>msn_table.hpp\<close>): every queue pair
  has an address at which the next packet of its message goes on, and packets that block the state machine.
\<close>

subsection \<open>The table behind the state machine\<close>

definition msn_eff :: "'z msnTable_scheme \<Rightarrow> u16 \<Rightarrow> dmaState" where
  "msn_eff s = fold rx_msn_upd (rxExh2msnTable_upd_req s) (msn_entries s)"

fun is_msn_read :: "rxMsnReq \<Rightarrow> bool" where
  "is_msn_read (RxMsnRead q) = True"
| "is_msn_read r = False"

definition msn_quiet :: "'z msnTable_scheme \<Rightarrow> bool" where
  "msn_quiet s \<longleftrightarrow> list_all (\<lambda>r. \<not> is_msn_read r) (rxExh2msnTable_upd_req s) \<and> msnTable2rxExh_rsp s = []"

definition msn_asked :: "u16 \<Rightarrow> 'z msnTable_scheme \<Rightarrow> bool" where
  "msn_asked k s \<longleftrightarrow>
     (\<exists>ws. rxExh2msnTable_upd_req s = ws @ [RxMsnRead k] \<and> list_all (\<lambda>r. \<not> is_msn_read r) ws) \<and> msnTable2rxExh_rsp s = []
   \<or> rxExh2msnTable_upd_req s = [] \<and> msnTable2rxExh_rsp s = [msn_eff s k]"

lemma msn_eff_table [simp]: "if2msnTable_init s = [] \<Longrightarrow> msn_eff (msn_table s) = msn_eff s"
  by (auto simp: msn_eff_def msn_table_def Let_def split: list.split rxMsnReq.split)

lemma msn_quiet_table [simp]: "msn_quiet s \<Longrightarrow> msn_quiet (msn_table s)"
  by (auto simp: msn_quiet_def msn_table_def Let_def split: list.split rxMsnReq.split)

lemma msn_asked_table [simp]:
  assumes a: "msn_asked k s" and i: "if2msnTable_init s = []"
  shows "msn_asked k (msn_table s)"
proof -
  from a consider ws where "rxExh2msnTable_upd_req s = ws @ [RxMsnRead k]" "list_all (\<lambda>r. \<not> is_msn_read r) ws"
      "msnTable2rxExh_rsp s = []"
    | "rxExh2msnTable_upd_req s = []" "msnTable2rxExh_rsp s = [msn_eff s k]"
    unfolding msn_asked_def by blast
  then show ?thesis
  proof cases
    case 1
    show ?thesis
    proof (cases ws)
      case Nil
      then show ?thesis using 1 by (simp add: msn_asked_def msn_table_def msn_eff_def)
    next
      case (Cons w vs)
      then show ?thesis using 1 by (cases w) (auto simp: msn_asked_def msn_table_def Let_def)
    qed
  next
    case 2
    then have "msnTable2rxExh_rsp (msn_table s) = [msn_eff s k]" "rxExh2msnTable_upd_req (msn_table s) = []"
      using i by (auto simp: msn_table_def Let_def split: list.split)
    then show ?thesis using msn_eff_table [OF i] by (simp add: msn_asked_def)
  qed
qed

lemma msn_table_frame [simp]:
  "pe_metaIn (msn_table s) = pe_metaIn s" "pe_headerInput (msn_table s) = pe_headerInput s"
  "pe_udpLengthFifo (msn_table s) = pe_udpLengthFifo s" "pe_fsmState (msn_table s) = pe_fsmState s"
  "pe_meta (msn_table s) = pe_meta s" "pe_exHeader (msn_table s) = pe_exHeader s" "pe_udpLength (msn_table s) = pe_udpLength s"
  "pe_dmaMeta (msn_table s) = pe_dmaMeta s" "pe_consumeReadInit (msn_table s) = pe_consumeReadInit s"
  "pe_memoryWriteCmd (msn_table s) = pe_memoryWriteCmd s"
  "if2msnTable_init s = [] \<Longrightarrow> if2msnTable_init (msn_table s) = []"
  "rxExh2msnTable_upd_req s = [] \<Longrightarrow> rxExh2msnTable_upd_req (msn_table s) = []"
  by (auto simp: msn_table_def Let_def split: list.split rxMsnReq.split)

subsection \<open>Specification: a write position per queue pair\<close>

type_synonym packet = "ibhMeta \<times> exHeader \<times> u16" \<comment> \<open>base header, extended header, UDP length\<close>

definition is_first :: "ibhMeta \<Rightarrow> bool" where
  "is_first m \<longleftrightarrow> im_op_code m = RC_RDMA_WRITE_ONLY \<or> im_op_code m = RC_RDMA_WRITE_FIRST"

definition is_last :: "ibhMeta \<Rightarrow> bool" where
  "is_last m \<longleftrightarrow> im_op_code m = RC_RDMA_WRITE_ONLY \<or> im_op_code m = RC_RDMA_WRITE_LAST"

text \<open>The first packet of a message has an address in its header, which is 16 bytes longer.\<close>

definition packet_payload :: "packet \<Rightarrow> u32" where
  "packet_payload p = (case p of (m, h, u) \<Rightarrow> payload_length u (if is_first m then 40 else 24))"

fun write_spec :: "packet \<Rightarrow> (u16 \<Rightarrow> u64) \<times> memCmd list \<Rightarrow> (u16 \<Rightarrow> u64) \<times> memCmd list" where
  "write_spec (m, h, u) (A, cmds) =
     (let k = ucast (im_dest_qp m);
          addr = (if is_first m then getVirtualAddress h else A k);
          len = packet_payload (m, h, u)
      in (A(k := addr + ucast len),
          cmds @ [mk_memCmd addr len (if is_last m then PKG_F else PKG_NF) PKG_HOST (im_dest_qp m)]))"

text \<open>Write packets whose first packet announces data.\<close>

definition good_write :: "packet \<Rightarrow> bool" where
  "good_write p \<longleftrightarrow> checkIfWrite (im_op_code (fst p)) \<and> (is_first (fst p) \<longrightarrow> getLength (fst (snd p)) \<noteq> 0)"

datatype exhIn = ArriveExh packet | TxMsn u16 | MsnTable | ExhFsm

type_synonym write_abs = "(u16 \<Rightarrow> u64) \<times> memCmd list"

fun exh_arrive :: "packet \<Rightarrow> exhFsm \<Rightarrow> exhFsm" where
  "exh_arrive (m, h, u) s = s\<lparr>pe_metaIn := pe_metaIn s @ [m], pe_headerInput := pe_headerInput s @ [h],
     pe_udpLengthFifo := pe_udpLengthFifo s @ [u]\<rparr>"

text \<open>The packet that the state machine takes up in its next call.\<close>

definition exh_accepts :: "exhFsm \<Rightarrow> packet option" where
  "exh_accepts s =
     (if pe_fsmState s = PE_META \<and> pe_metaIn s \<noteq> [] \<and> pe_headerInput s \<noteq> []
      then Some (hd (pe_metaIn s), hd (pe_headerInput s), hd (pe_udpLengthFifo s)) else None)"

fun exh_step :: "exhIn \<Rightarrow> exhFsm \<times> write_abs \<Rightarrow> exhFsm \<times> write_abs" where
  "exh_step (ArriveExh p) (s, a) = (exh_arrive p s, a)"
| "exh_step (TxMsn q) (s, a) = (s\<lparr>txExh2msnTable_req := txExh2msnTable_req s @ [q]\<rparr>, a)"
| "exh_step MsnTable (s, a) = (msn_table s, a)"
| "exh_step ExhFsm (s, a) = (rx_exh_fsm s, case exh_accepts s of None \<Rightarrow> a | Some p \<Rightarrow> write_spec p a)"

fun exh_good :: "exhIn \<Rightarrow> bool" where
  "exh_good (ArriveExh p) = good_write p"
| "exh_good i = True"

text \<open>The packets that wait.\<close>

definition exh_waiting :: "exhFsm \<Rightarrow> u16 list \<Rightarrow> bool" where
  "exh_waiting s us \<longleftrightarrow> length (pe_headerInput s) = length (pe_metaIn s) \<and> length us = length (pe_metaIn s)
     \<and> list_all good_write (zip (pe_metaIn s) (zip (pe_headerInput s) us))"

definition exh_inv :: "exhFsm \<times> write_abs \<Rightarrow> bool" where
  "exh_inv c \<longleftrightarrow>
     (let (s, a) = c; k = ucast (im_dest_qp (pe_meta s)); now = (\<lambda>k. ds_vaddr (msn_eff s k), pe_memoryWriteCmd s);
          p = (\<lambda>u. (pe_meta s, pe_exHeader s, u))
      in if2msnTable_init s = [] \<and>
         (case pe_fsmState s of
            PE_META \<Rightarrow> msn_quiet s \<and> exh_waiting s (pe_udpLengthFifo s) \<and> a = now
          | DMA_META \<Rightarrow>
              (\<exists>u us. pe_udpLengthFifo s = u # us \<and> exh_waiting s us \<and> good_write (p u) \<and> a = write_spec (p u) now)
              \<and> msn_asked k s \<and> \<not> pe_consumeReadInit s
          | PE_DATA \<Rightarrow> msn_quiet s \<and> rxExh2msnTable_upd_req s = [] \<and> exh_waiting s (pe_udpLengthFifo s)
              \<and> good_write (p (pe_udpLength s)) \<and> pe_dmaMeta s = msn_eff s k \<and> a = write_spec (p (pe_udpLength s)) now))"

lemma exh_inv_table:
  assumes "exh_inv (s, a)"
  shows "exh_inv (msn_table s, a)"
  using assms by (cases "pe_fsmState s") (auto simp: exh_inv_def exh_waiting_def)

lemma exh_inv_meta:
  assumes "exh_inv (s, a)" "pe_fsmState s = PE_META"
  shows "exh_inv (rx_exh_fsm s, case exh_accepts s of None \<Rightarrow> a | Some p \<Rightarrow> write_spec p a)"
proof (cases "pe_metaIn s \<noteq> [] \<and> pe_headerInput s \<noteq> []")
  case True
  then obtain m ms h hs where q: "pe_metaIn s = m # ms" "pe_headerInput s = h # hs" by (meson neq_Nil_conv)
  moreover from this assms obtain u us where u: "pe_udpLengthFifo s = u # us"
    by (cases "pe_udpLengthFifo s") (auto simp: exh_inv_def exh_waiting_def)
  moreover have "good_write (m, h, u)" using assms q u by (auto simp: exh_inv_def exh_waiting_def)
  ultimately show ?thesis using assms
    by (auto simp: exh_inv_def exh_waiting_def exh_accepts_def rx_exh_fsm_def Let_def msn_asked_def msn_quiet_def
        msn_eff_def good_write_def check_defs op_defs)
next
  case False
  then show ?thesis using assms by (auto simp: exh_accepts_def rx_exh_fsm_def)
qed

lemma exh_inv_dma:
  assumes "exh_inv (s, a)" "pe_fsmState s = DMA_META"
  shows "exh_inv (rx_exh_fsm s, a)"
proof (cases "msnTable2rxExh_rsp s")
  case Nil
  then show ?thesis using assms by (simp add: rx_exh_fsm_def)
next
  case (Cons d q)
  then have "rxExh2msnTable_upd_req s = [] \<and> q = [] \<and> d = msn_eff s (ucast (im_dest_qp (pe_meta s)))"
    using assms by (auto simp: exh_inv_def Let_def msn_asked_def)
  then show ?thesis using assms Cons
    by (auto simp: exh_inv_def rx_exh_fsm_def Let_def msn_quiet_def msn_eff_def exh_waiting_def)
qed

lemma exh_inv_data:
  assumes "exh_inv (s, a)" "pe_fsmState s = PE_DATA"
  shows "exh_inv (rx_exh_fsm s, a)"
proof -
  let ?m = "pe_meta s"
  have b: "good_write (?m, pe_exHeader s, pe_udpLength s)" "rxExh2msnTable_upd_req s = []" "msn_quiet s"
      "pe_dmaMeta s = msn_entries s (ucast (im_dest_qp ?m))" "msn_eff s = msn_entries s"
    using assms by (auto simp: exh_inv_def Let_def msn_eff_def)
  then consider "im_op_code ?m = RC_RDMA_WRITE_ONLY" | "im_op_code ?m = RC_RDMA_WRITE_FIRST"
    | "im_op_code ?m = RC_RDMA_WRITE_MIDDLE" | "im_op_code ?m = RC_RDMA_WRITE_LAST"
    by (auto simp: good_write_def checkIfWrite_def)
  then have "exh_inv (pe_data s, a)"
    using assms b
    by cases (auto simp: exh_inv_def pe_data_def pe_write_first_def pe_write_next_def pe_effects op_defs Let_def
        msn_eff_def msn_quiet_def exh_waiting_def good_write_def is_first_def is_last_def packet_payload_def fun_eq_iff)
  then show ?thesis using assms(2) by (simp add: rx_exh_fsm_def)
qed

lemma exh_inv_step:
  assumes "exh_inv c" "exh_good i"
  shows "exh_inv (exh_step i c)"
proof -
  obtain s a where c: "c = (s, a)" by (rule prod.exhaust)
  show ?thesis
  proof (cases i)
    case (ArriveExh p)
    obtain m h u where p: "p = (m, h, u)" by (metis prod_cases3)
    have g: "good_write (m, h, u)" using assms ArriveExh p by simp
    show ?thesis
      using assms(1) g unfolding c ArriveExh p
      by (cases "pe_fsmState s")
         (auto simp: exh_inv_def exh_waiting_def msn_eff_def msn_quiet_def msn_asked_def Let_def)
  next
    case (TxMsn q)
    then show ?thesis using assms(1) unfolding c
      by (cases "pe_fsmState s")
         (auto simp: exh_inv_def exh_waiting_def msn_eff_def msn_quiet_def msn_asked_def Let_def)
  next
    case MsnTable
    then show ?thesis using assms(1) c exh_inv_table by simp
  next
    case ExhFsm
    then show ?thesis using assms(1) exh_inv_meta exh_inv_dma exh_inv_data
      unfolding c by (cases "pe_fsmState s") (simp_all add: exh_accepts_def)
  qed
qed

subsection \<open>Packets that have arrived\<close>

definition waiting :: "exhFsm \<Rightarrow> packet list" where
  "waiting s = zip (pe_metaIn s) (zip (pe_headerInput s)
     (if pe_fsmState s = DMA_META then tl (pe_udpLengthFifo s) else pe_udpLengthFifo s))"

fun arrived :: "exhIn list \<Rightarrow> packet list" where
  "arrived [] = []"
| "arrived (ArriveExh p # is) = p # arrived is"
| "arrived (i # is) = arrived is"

lemma waiting_step:
  assumes inv: "exh_inv (s, a)" and step: "exh_step i (s, a) = (s', a')"
  shows "fold write_spec (waiting s @ arrived [i]) a = fold write_spec (waiting s') a'"
proof (cases i)
  case (ArriveExh p)
  obtain m h u where p: "p = (m, h, u)" by (metis prod_cases3)
  show ?thesis using inv step unfolding ArriveExh p
    by (cases "pe_fsmState s") (auto simp: waiting_def exh_inv_def exh_waiting_def Let_def)
next
  case ExhFsm
  show ?thesis
  proof (cases "pe_fsmState s")
    case PE_META
    show ?thesis
    proof (cases "exh_accepts s")
      case None
      then show ?thesis using step ExhFsm PE_META by (auto simp: exh_accepts_def rx_exh_fsm_def)
    next
      case (Some p)
      then obtain m ms h hs where q: "pe_metaIn s = m # ms" "pe_headerInput s = h # hs"
        by (auto simp: exh_accepts_def neq_Nil_conv split: if_splits)
      with inv PE_META obtain u us where u: "pe_udpLengthFifo s = u # us"
        by (cases "pe_udpLengthFifo s") (auto simp: exh_inv_def exh_waiting_def)
      show ?thesis using step ExhFsm PE_META q u
        by (auto simp: waiting_def exh_accepts_def rx_exh_fsm_def Let_def)
    qed
  next
    case DMA_META
    then show ?thesis using step ExhFsm
      by (auto simp: waiting_def exh_accepts_def rx_exh_fsm_def Let_def)
  next
    case PE_DATA
    then have "waiting (pe_data s) = waiting s"
      by (simp add: waiting_def pe_data_def pe_send_def pe_write_first_def pe_write_next_def pe_read_request_def
          pe_read_resp_def pe_read_middle_def pe_ack_packet_def pe_effects Let_def)
    then show ?thesis using step ExhFsm PE_DATA by (auto simp: exh_accepts_def rx_exh_fsm_def)
  qed
qed (use step in \<open>auto simp: waiting_def\<close>)

lemma waiting_run:
  assumes "exh_inv (s, a)" "list_all exh_good is" "run_inputs exh_step is (s, a) = (s', a')"
  shows "exh_inv (s', a') \<and> fold write_spec (waiting s @ arrived is) a = fold write_spec (waiting s') a'"
  using assms
proof (induction "is" arbitrary: s a)
  case (Cons i "is")
  obtain s1 a1 where step: "exh_step i (s, a) = (s1, a1)" by (rule prod.exhaust)
  have inv: "exh_inv (s1, a1)" using exh_inv_step [OF Cons.prems(1), of i] Cons.prems(2) step by simp
  have IH: "exh_inv (s', a') \<and> fold write_spec (waiting s1 @ arrived is) a1 = fold write_spec (waiting s') a'"
    using Cons.IH [OF inv] Cons.prems(2,3) step by simp
  have "arrived (i # is) = arrived [i] @ arrived is" by (cases i) auto
  then have "fold write_spec (waiting s @ arrived (i # is)) a = fold write_spec (arrived is) (fold write_spec (waiting s1) a1)"
    using waiting_step [OF Cons.prems(1) step] by simp
  then show ?case using IH by simp
qed simp

subsection \<open>Messages\<close>

text \<open>The key of a packet's queue pair in the table, and the commands of the packets with a given key.\<close>

definition qp_key :: "packet \<Rightarrow> u16" where
  "qp_key p = ucast (im_dest_qp (fst p))"

definition commands_of :: "u16 \<Rightarrow> packet list \<Rightarrow> memCmd list \<Rightarrow> memCmd list" where
  "commands_of k ps cs = map snd (filter (\<lambda>pc. qp_key (fst pc) = k) (zip ps cs))"

text \<open>The commands of a message whose first byte goes to \<open>addr\<close>: consecutive addresses, the last packet marked.\<close>

definition message_cmds :: "u64 \<Rightarrow> packet list \<Rightarrow> memCmd list" where
  "message_cmds addr ps =
     map (\<lambda>i. mk_memCmd (addr + sum_list (map (ucast \<circ> packet_payload) (take i ps))) (packet_payload (ps ! i))
              (if is_last (fst (ps ! i)) then PKG_F else PKG_NF) PKG_HOST (im_dest_qp (fst (ps ! i))))
       [0 ..< length ps]"

lemma length_message_cmds [simp]: "length (message_cmds addr ps) = length ps"
  by (simp add: message_cmds_def)

lemma write_spec_step:
  "write_spec p (A, cmds) =
     (let addr = (if is_first (fst p) then getVirtualAddress (fst (snd p)) else A (qp_key p))
      in (A(qp_key p := addr + ucast (packet_payload p)),
          cmds @ [mk_memCmd addr (packet_payload p) (if is_last (fst p) then PKG_F else PKG_NF) PKG_HOST
                    (im_dest_qp (fst p))]))"
  by (cases p) (simp add: qp_key_def Let_def)

lemma fold_write_cmds:
  "fold write_spec ps (A, cmds) = (fst (fold write_spec ps (A, [])), cmds @ snd (fold write_spec ps (A, [])))"
proof (induction ps rule: rev_induct)
  case (snoc p ps)
  obtain A1 c1 where "fold write_spec ps (A, []) = (A1, c1)" by (rule prod.exhaust)
  then show ?case using snoc by (auto simp: write_spec_step Let_def)
qed simp

text \<open>The commands of one queue pair are those of its packets alone.\<close>

lemma fold_write_key:
  assumes "B k = A k"
  shows "\<exists>cs. snd (fold write_spec ps (A, cmds)) = cmds @ cs \<and> length cs = length ps
    \<and> commands_of k ps cs = snd (fold write_spec (filter (\<lambda>p. qp_key p = k) ps) (B, []))
    \<and> fst (fold write_spec ps (A, cmds)) k = fst (fold write_spec (filter (\<lambda>p. qp_key p = k) ps) (B, [])) k"
proof (induction ps rule: rev_induct)
  case (snoc p ps)
  obtain A1 c1 where a: "fold write_spec ps (A, cmds) = (A1, c1)" by (rule prod.exhaust)
  obtain B1 d1 where b: "fold write_spec (filter (\<lambda>p. qp_key p = k) ps) (B, []) = (B1, d1)" by (rule prod.exhaust)
  from snoc obtain cs where cs: "c1 = cmds @ cs" "length cs = length ps" "commands_of k ps cs = d1" "A1 k = B1 k"
    by (auto simp: a b)
  obtain A2 c where c: "write_spec p (A1, c1) = (A2, c1 @ [c])" by (simp add: write_spec_step Let_def)
  have "commands_of k (ps @ [p]) (cs @ [c]) = commands_of k ps cs @ (if qp_key p = k then [c] else [])"
    using cs(2) by (simp add: commands_of_def)
  moreover have "write_spec p (A1, cmds @ cs) = (A2, cmds @ cs @ [c])" using c cs(1) by simp
  moreover have "qp_key p = k \<Longrightarrow> write_spec p (B1, d1) = (B1(k := A2 k), d1 @ [c])"
    using c cs(4) by (auto simp: write_spec_step Let_def)
  moreover have "qp_key p \<noteq> k \<Longrightarrow> A2 k = A1 k" using c by (auto simp: write_spec_step Let_def)
  ultimately show ?case using cs by (intro exI [of _ "cs @ [c]"]) (auto simp: a b c)
qed (use assms in \<open>simp add: commands_of_def\<close>)

lemma fold_message:
  assumes "\<forall>p \<in> set ps. qp_key p = k \<and> \<not> is_first (fst p)"
  shows "fold write_spec ps (A, cmds) =
    (A(k := A k + sum_list (map (ucast \<circ> packet_payload) ps)), cmds @ message_cmds (A k) ps)"
  using assms
proof (induction ps rule: rev_induct)
  case (snoc p ps)
  then show ?case
    by (auto simp: write_spec_step message_cmds_def Let_def nth_append algebra_simps fun_eq_iff comp_def)
qed (simp add: message_cmds_def)

lemma fold_message_first:
  assumes "is_first (fst p)" "\<forall>x \<in> set (p # ps). qp_key x = k" "\<forall>x \<in> set ps. \<not> is_first (fst x)"
  shows "snd (fold write_spec (p # ps) (A, cmds)) = cmds @ message_cmds (getVirtualAddress (fst (snd p))) (p # ps)"
proof -
  let ?a = "getVirtualAddress (fst (snd p))" and ?A = "A(k := getVirtualAddress (fst (snd p)) + ucast (packet_payload p))"
  have "fold write_spec ps (write_spec p (A, cmds)) =
      fold write_spec ps (?A, cmds @ [mk_memCmd ?a (packet_payload p)
         (if is_last (fst p) then PKG_F else PKG_NF) PKG_HOST (im_dest_qp (fst p))])"
    using assms(1,2) by (simp add: write_spec_step Let_def)
  then show ?thesis
    using fold_message [of ps k ?A] assms(2,3)
    by (simp add: message_cmds_def upt_conv_Cons map_Suc_upt [symmetric] add.assoc del: upt_Suc)
qed

text \<open>No request of the state machine under way, no packet waiting.\<close>

definition exh_start :: "exhFsm \<Rightarrow> bool" where
  "exh_start s \<longleftrightarrow> pe_fsmState s = PE_META \<and> pe_metaIn s = [] \<and> pe_headerInput s = [] \<and> pe_udpLengthFifo s = []
     \<and> rxExh2msnTable_upd_req s = [] \<and> msnTable2rxExh_rsp s = [] \<and> if2msnTable_init s = []"

text \<open>C8. A message is written to consecutive addresses. Writes of any number of queue pairs arrive, with their
  packets mixed, and the state machine, the table and the transmit path interleave in any way. When all of them
  have been taken up there is one memory command per packet, in the order of the packets. Among the packets with
  the same key in the table (the lower 16 bits of the queue pair number), the packets of a message, one that
  starts with a first packet and holds no other first packet, have commands that go from the address in the
  first packet on without gap or overlap, and the command of the last packet is marked. This is for a receive
  path that gets only write packets (without immediate data), whose first packets announce a length other than
  zero, while no queue pair is set up.\<close>

theorem message_written_contiguously:
  assumes "exh_start s" "list_all exh_good is"
    and "run_inputs exh_step is (s, \<lambda>k. ds_vaddr (msn_entries s k), pe_memoryWriteCmd s) = (s', a')"
    and "filter (\<lambda>x. qp_key x = k) (arrived is) = before @ (p # ps) @ after"
    and "is_first (fst p)" "\<forall>x \<in> set ps. \<not> is_first (fst x)"
    and "pe_fsmState s' = PE_META" "pe_metaIn s' = []"
  shows "\<exists>cs. pe_memoryWriteCmd s' = pe_memoryWriteCmd s @ cs \<and> length cs = length (arrived is)
    \<and> take (length (p # ps)) (drop (length before) (commands_of k (arrived is) cs))
        = message_cmds (getVirtualAddress (fst (snd p))) (p # ps)"
proof -
  let ?A = "\<lambda>k. ds_vaddr (msn_entries s k)" and ?w = "fold write_spec"
  have "exh_inv (s, ?A, pe_memoryWriteCmd s)"
    using assms(1) by (simp add: exh_start_def exh_inv_def msn_quiet_def exh_waiting_def msn_eff_def)
  from waiting_run [OF this assms(2,3)]
  have r: "exh_inv (s', a')" "?w (waiting s @ arrived is) (?A, pe_memoryWriteCmd s) = ?w (waiting s') a'"
    by auto
  have "waiting s = []" "waiting s' = []" using assms(1,8) by (simp_all add: exh_start_def waiting_def)
  then have "?w (arrived is) (?A, pe_memoryWriteCmd s) = a'" using r(2) by simp
  moreover have "snd a' = pe_memoryWriteCmd s'" using r(1) assms(7) by (auto simp: exh_inv_def)
  moreover obtain cs where cs: "snd (?w (arrived is) (?A, pe_memoryWriteCmd s)) = pe_memoryWriteCmd s @ cs"
      "length cs = length (arrived is)"
      "commands_of k (arrived is) cs = snd (?w (before @ (p # ps) @ after) (?A, []))"
    using fold_write_key [of ?A k ?A "arrived is" "pe_memoryWriteCmd s"] unfolding assms(4) by blast
  moreover have key: "\<forall>x \<in> set (before @ (p # ps) @ after). qp_key x = k"
    unfolding assms(4) [symmetric] by simp
  obtain A1 c1 where b: "?w before (?A, []) = (A1, c1)" by (rule prod.exhaust)
  have "length c1 = length before" using fold_write_key [of ?A k ?A before "[]"] b by auto
  moreover obtain A2 c2 where c: "?w (p # ps) (A1, c1) = (A2, c2)" by (rule prod.exhaust)
  moreover have "c2 = c1 @ message_cmds (getVirtualAddress (fst (snd p))) (p # ps)"
    using fold_message_first [of p ps k A1 c1] assms(5,6) key c by simp
  ultimately have "take (length (p # ps)) (drop (length before) (commands_of k (arrived is) cs))
      = message_cmds (getVirtualAddress (fst (snd p))) (p # ps)"
    using fold_write_cmds [of after A2 c2] b fold_append [of write_spec "p # ps" after]
    by (simp del: fold.simps take_Suc_Cons append_Cons add: append_Cons [symmetric])
  then show ?thesis using cs \<open>?w (arrived is) _ = a'\<close> \<open>snd a' = _\<close> by metis
qed

text \<open>The calls for one packet.\<close>

definition exh_round :: "exhIn list" where
  "exh_round = [ExhFsm, MsnTable, ExhFsm, ExhFsm, MsnTable]"

text \<open>Between two packets, with the packets \<open>ps\<close> waiting.\<close>

definition exh_ready :: "packet list \<Rightarrow> exhFsm \<Rightarrow> bool" where
  "exh_ready ps s \<longleftrightarrow> pe_fsmState s = PE_META \<and> pe_metaIn s = map fst ps \<and> pe_headerInput s = map (fst \<circ> snd) ps
     \<and> pe_udpLengthFifo s = map (snd \<circ> snd) ps \<and> rxExh2msnTable_upd_req s = [] \<and> msnTable2rxExh_rsp s = []
     \<and> if2msnTable_init s = [] \<and> txExh2msnTable_req s = []"

lemma exh_ready_arrive: "exh_ready ps s \<Longrightarrow> exh_ready (ps @ [p]) (exh_arrive p s)"
  by (cases p) (simp add: exh_ready_def)

lemma exh_round_one:
  assumes "exh_ready (p # ps) s" "good_write p"
  shows "exh_ready ps (fst (run_inputs exh_step exh_round (s, a)))"
proof -
  obtain m h u where p: "p = (m, h, u)" by (metis prod_cases3)
  consider "im_op_code m = RC_RDMA_WRITE_ONLY" | "im_op_code m = RC_RDMA_WRITE_FIRST"
    | "im_op_code m = RC_RDMA_WRITE_MIDDLE" | "im_op_code m = RC_RDMA_WRITE_LAST"
    using assms(2) by (auto simp: p good_write_def checkIfWrite_def)
  then show ?thesis
    using assms
    by cases (simp_all add: p exh_ready_def exh_round_def exh_accepts_def rx_exh_fsm_def msn_table_def pe_data_def
        pe_write_first_def pe_write_next_def pe_effects good_write_def is_first_def check_defs op_defs Let_def)
qed

lemma exh_rounds:
  assumes "exh_ready ps s" "list_all good_write ps"
  shows "exh_ready [] (fst (run_inputs exh_step (concat (map (\<lambda>_. exh_round) ps)) (s, a)))"
  using assms
proof (induction ps arbitrary: s a)
  case (Cons p ps)
  obtain s1 a1 where r: "run_inputs exh_step exh_round (s, a) = (s1, a1)" by (rule prod.exhaust)
  then have "exh_ready ps s1" using exh_round_one [of p ps s a] Cons.prems by simp
  then show ?case using Cons.IH [of s1 a1] Cons.prems r by (simp add: run_inputs_append)
qed simp

lemma exh_arrivals:
  "exh_ready qs s \<Longrightarrow> \<exists>s'. run_inputs exh_step (map ArriveExh ps) (s, a) = (s', a) \<and> exh_ready (qs @ ps) s'"
proof (induction ps arbitrary: qs s)
  case (Cons p ps)
  show ?case using Cons.IH [OF exh_ready_arrive [OF Cons.prems]] by simp
qed simp

lemma arrived_map [simp]: "arrived (map ArriveExh ps @ is) = ps @ arrived is"
  by (induction ps) auto

definition exh_example :: exhFsm where
  "exh_example = \<lparr>rxExh2msnTable_upd_req = [], txExh2msnTable_req = [], if2msnTable_init = [], msnTable2rxExh_rsp = [],
     msnTable2txExh_rsp = [], msn_entries = (\<lambda>_. \<lparr>ds_msn = 0, ds_vaddr = 0, ds_dma_length = 0, ds_r_key = 0, ds_lst = 0\<rparr>),
     pe_metaIn = [], pe_udpLengthFifo = [], pe_rx2retrans_req = [], pe_retrans2rx_init = [], pe_headerInput = [],
     pe_memoryWriteCmd = [], pe_readRequestFifo = [], pe_exhEventMetaFifo = [], pe_pkgSplitTypeFifo = [],
     pe_pkgShiftTypeFifo = [], pe_fsmState = PE_META, pe_meta = mk_ibhMeta_psn 0 0 0 0 False, pe_exHeader = 0,
     pe_dmaMeta = \<lparr>ds_msn = 0, ds_vaddr = 0, ds_dma_length = 0, ds_r_key = 0, ds_lst = 0\<rparr>, pe_udpLength = 0,
     pe_consumeReadInit = False, pe_readReqInit = \<lparr>ri_laddr = 0, ri_lst = 0\<rparr>\<rparr>"

definition example_message :: "packet list" where
  "example_message =
     [(mk_ibhMeta_psn RC_RDMA_WRITE_FIRST 0 5 7 True, setLength 9192 (setVirtualAddress 0x1000 0), 4136),
      (mk_ibhMeta_psn RC_RDMA_WRITE_MIDDLE 0 5 8 True, 0, 4120),
      (mk_ibhMeta_psn RC_RDMA_WRITE_LAST 0 5 9 True, 0, 1024)]"

text \<open>A message of queue pair 5 with one of queue pair 9 between its packets.\<close>

definition mixed_message :: "packet list" where
  "mixed_message =
     [(mk_ibhMeta_psn RC_RDMA_WRITE_FIRST 0 5 7 True, setLength 5096 (setVirtualAddress 0x1000 0), 4136),
      (mk_ibhMeta_psn RC_RDMA_WRITE_LAST 0 5 8 True, 0, 1024)]"

definition mixed_packets :: "packet list" where
  "mixed_packets =
     [hd mixed_message, (mk_ibhMeta_psn RC_RDMA_WRITE_ONLY 0 9 3 True, setLength 64 (setVirtualAddress 0x9000 0), 104),
      mixed_message ! 1]"

lemma mixed_filter: "filter (\<lambda>x. qp_key x = 5) mixed_packets = [] @ (hd mixed_message # tl mixed_message) @ []"
  by (simp add: mixed_packets_def mixed_message_def qp_key_def mk_ibhMeta_psn_def)

lemma mixed_good: "list_all good_write mixed_packets"
  by (simp add: mixed_packets_def mixed_message_def good_write_def is_first_def mk_ibhMeta_psn_def check_defs op_defs)

lemma mixed_first: "is_first (fst (hd mixed_message))" "\<forall>x \<in> set (tl mixed_message). \<not> is_first (fst x)"
  by (simp_all add: mixed_message_def is_first_def mk_ibhMeta_psn_def op_defs)

lemma mixed_cmds:
  "map (\<lambda>c. (mc_addr c, mc_len c)) (message_cmds 0x1000 (hd mixed_message # tl mixed_message)) = [(0x1000, 4096), (0x2000, 1000)]"
  by (simp add: message_cmds_def mixed_message_def packet_payload_def payload_length_def is_first_def is_last_def
      mk_memCmd_def mk_ibhMeta_psn_def op_defs)

lemma mixed_addr: "getVirtualAddress (fst (snd (hd mixed_message))) = 0x1000"
  by (simp add: mixed_message_def)

lemma mixed_length: "length (hd mixed_message # tl mixed_message) = 2" "length mixed_packets = 3"
  by (simp_all add: mixed_message_def mixed_packets_def)

lemma exh_example_fields:
  "(\<lambda>k. ds_vaddr (msn_entries exh_example k), pe_memoryWriteCmd exh_example) = (\<lambda>_. 0, [])"
  "exh_ready [] exh_example" "exh_start exh_example"
  by (simp_all add: exh_example_def exh_ready_def exh_start_def)

definition mixed_run :: "exhIn list" where
  "mixed_run = map ArriveExh mixed_packets @ concat (map (\<lambda>_. exh_round) mixed_packets)"

lemma mixed_run_good: "list_all exh_good mixed_run" "arrived mixed_run = mixed_packets"
proof -
  show "list_all exh_good mixed_run" using mixed_good by (auto simp: mixed_run_def exh_round_def list_all_iff)
  have "arrived (concat (map (\<lambda>_. exh_round) ps)) = []" for ps :: "packet list"
    by (induction ps) (simp_all add: exh_round_def)
  then show "arrived mixed_run = mixed_packets" by (simp add: mixed_run_def)
qed

lemma mixed_run_ready: "exh_ready [] (fst (run_inputs exh_step mixed_run (exh_example, a)))"
proof -
  obtain s1 where s1: "run_inputs exh_step (map ArriveExh mixed_packets) (exh_example, a) = (s1, a)"
      "exh_ready ([] @ mixed_packets) s1"
    using exh_arrivals [OF exh_example_fields(2), of mixed_packets a] by blast
  show ?thesis
    unfolding mixed_run_def run_inputs_append s1(1)
    by (rule exh_rounds [OF _ mixed_good]) (use s1(2) in simp)
qed

theorem message_written_contiguously_witness:
  "let s' = fst (run_inputs exh_step mixed_run (exh_example, \<lambda>_. 0, []));
       cs = commands_of 5 mixed_packets (pe_memoryWriteCmd s')
   in length (pe_memoryWriteCmd s') = 3 \<and> map (\<lambda>c. (mc_addr c, mc_len c)) (take 2 cs) = [(0x1000, 4096), (0x2000, 1000)]"
proof -
  obtain s' a' where r: "run_inputs exh_step mixed_run (exh_example, \<lambda>_. 0, []) = (s', a')" by (rule prod.exhaust)
  then have "exh_ready [] s'" using mixed_run_ready [of "(\<lambda>_. 0, [])"] by simp
  then have idle: "pe_fsmState s' = PE_META" "pe_metaIn s' = []" by (simp_all add: exh_ready_def)
  note m = message_written_contiguously [OF exh_example_fields(3) mixed_run_good(1) r [folded exh_example_fields(1)]
      mixed_filter [folded mixed_run_good(2)] mixed_first idle]
  obtain cs where cs: "pe_memoryWriteCmd s' = pe_memoryWriteCmd exh_example @ cs" "length cs = 3"
    "take 2 (commands_of 5 mixed_packets cs) = message_cmds 0x1000 (hd mixed_message # tl mixed_message)"
    using m unfolding mixed_run_good(2) mixed_addr mixed_length list.size(3) drop_0 by (elim exE conjE)
  have w: "pe_memoryWriteCmd s' = cs" using cs(1) by (simp add: exh_example_def)
  show ?thesis unfolding r Let_def fst_conv w cs(2,3) mixed_cmds by simp
qed

subsection \<open>Packets that block the receive path\<close>

text \<open>An operation that the state machine has no case for, or a write that announces no data.\<close>

definition unhandled :: "ibOpCode \<Rightarrow> bool" where
  "unhandled op \<longleftrightarrow> op \<in> {RC_SEND_LAST_WITH_IMD, RC_SEND_ONLY_WITH_IMD, RC_RDMA_WRITE_LAST_WITH_IMD, RC_RDMA_WRITE_ONLY_WIT_IMD}
     \<or> op > RC_ACK"

definition blocking :: "exhFsm \<Rightarrow> bool" where
  "blocking s \<longleftrightarrow> pe_fsmState s = PE_DATA \<and>
     (unhandled (im_op_code (pe_meta s)) \<or> is_first (pe_meta s) \<and> getLength (pe_exHeader s) = 0)"

lemma blocked_call: "blocking s \<Longrightarrow> rx_exh_fsm s = s"
  by (auto simp: blocking_def rx_exh_fsm_def pe_data_def pe_write_first_def unhandled_def is_first_def op_defs Let_def)

text \<open>A packet with an operation that has no case (the operations with immediate data, or an unknown
  code), or the first packet of a write of length zero, blocks the receive path for good: whatever arrives
  afterwards, for any queue pair, no memory command and no acknowledgement is issued again.\<close>

theorem unhandled_packet_blocks:
  assumes "blocking s"
  shows "let s' = fst (run_inputs exh_step is (s, a))
    in pe_fsmState s' = PE_DATA \<and> pe_memoryWriteCmd s' = pe_memoryWriteCmd s
       \<and> pe_exhEventMetaFifo s' = pe_exhEventMetaFifo s \<and> pe_readRequestFifo s' = pe_readRequestFifo s"
  using assms
proof (induction "is" arbitrary: s a)
  case Nil
  then show ?case by (simp add: blocking_def)
next
  case (Cons i "is")
  obtain s1 a1 where step: "exh_step i (s, a) = (s1, a1)" by (rule prod.exhaust)
  have "blocking s1 \<and> pe_memoryWriteCmd s1 = pe_memoryWriteCmd s \<and> pe_exhEventMetaFifo s1 = pe_exhEventMetaFifo s
      \<and> pe_readRequestFifo s1 = pe_readRequestFifo s"
  proof (cases i)
    case (ArriveExh p)
    then show ?thesis using step Cons.prems by (cases p) (auto simp: blocking_def)
  next
    case MsnTable
    have "pe_exhEventMetaFifo (msn_table s) = pe_exhEventMetaFifo s" "pe_readRequestFifo (msn_table s) = pe_readRequestFifo s"
      by (auto simp: msn_table_def Let_def split: list.split rxMsnReq.split)
    then show ?thesis using step Cons.prems MsnTable by (auto simp: blocking_def)
  next
    case ExhFsm
    then show ?thesis using step Cons.prems blocked_call by auto
  qed (use step Cons.prems in \<open>auto simp: blocking_def\<close>)
  then show ?case using Cons.IH [of s1 a1] step by (simp add: Let_def)
qed

text \<open>A write with immediate data arrives, then a write of another queue pair.\<close>

theorem unhandled_packet_blocks_witness:
  "\<exists>s. s = fst (run_inputs exh_step [ArriveExh (mk_ibhMeta_psn RC_RDMA_WRITE_LAST_WITH_IMD 0 6 3 True, 0, 40), ExhFsm, MsnTable, ExhFsm]
              (exh_example, \<lambda>_. 0, []))
     \<and> pe_memoryWriteCmd (fst (run_inputs exh_step (map ArriveExh example_message @ concat [exh_round, exh_round, exh_round])
          (s, \<lambda>_. 0, []))) = []"
proof -
  define s where "s = fst (run_inputs exh_step [ArriveExh (mk_ibhMeta_psn RC_RDMA_WRITE_LAST_WITH_IMD 0 6 3 True, 0, 40), ExhFsm, MsnTable, ExhFsm]
     (exh_example, \<lambda>_. 0, []))"
  have "blocking s \<and> pe_memoryWriteCmd s = []" unfolding s_def
    by (simp add: exh_example_def rx_exh_fsm_def exh_accepts_def msn_table_def blocking_def unhandled_def mk_ibhMeta_psn_def
        op_defs Let_def)
  then have "pe_memoryWriteCmd (fst (run_inputs exh_step (map ArriveExh example_message @ concat [exh_round, exh_round, exh_round])
      (s, \<lambda>_. 0, []))) = []"
    using unhandled_packet_blocks [of s "map ArriveExh example_message @ concat [exh_round, exh_round, exh_round]"]
    by (simp add: Let_def)
  then show ?thesis using s_def by (intro exI [of _ s]) (simp only: conj_absorb)
qed

end
