(* ===== verification/Roce_Tx.thy ===== *)
theory Roce_Tx
  imports Roce_Tables Roce_Headers
begin

text \<open>
  The transmit path of the RoCE transport (\<^verbatim>\<open>ib_transport_protocol/ib_transport_protocol.cpp\<close>): local requests,
  the arbitration of packets, the generation of headers, the assembly of packets, and the interface to
  queue pairs.
\<close>

subsection \<open>Local requests\<close>

record retransAddrLen =
  al_localAddr :: u64
  al_remoteAddr :: u64
  al_length :: u32
  al_lst :: u1
  al_offs :: u4

record retransMeta =
  rm_qpn :: u16
  rm_psn :: u24
  rm_opCode :: ibOpCode

text \<open>The modules from a local request to the base header and the entry for the retransmitter share the
  table of sequence numbers; their streams and registers are one record.\<close>

record txPath = psnTable +
  s_axis_sq_meta :: "txMeta stream" \<comment> \<open>\<open>local_req_handler\<close>\<close>
  lr_retransEventFifo :: "retransEvent stream"
  tx2retrans_insertAddrLen :: "retransAddrLen stream"
  tx_local_memCmdFifo :: "memCmdInternal stream"
  tx_appMetaFifo :: "ibEvent stream"
  lr_retransCount :: u32
  regRetransCount :: u32
  rx_ackEventFifo :: "ackEvent stream" \<comment> \<open>\<open>meta_merger\<close>\<close>
  rx_readEvenFifo :: "ibEvent stream"
  mg_connTable_req :: "u16 stream"
  tx_ibhMetaFifo :: "ibhMeta stream"
  tx_exhMetaFifo :: "ibEvent stream"
  tx_dstQpFifo :: "u24 stream" \<comment> \<open>\<open>generate_ibh\<close>\<close>
  tx2retrans_insertMeta :: "retransMeta stream"
  tx_ibhHeaderFifo :: "bth stream"
  gi_get_psn :: bool \<comment> \<open>\<open>gi_state == GET_PSN\<close>\<close>
  gi_header :: bth
  gi_meta :: ibhMeta
  mr_insertRequest :: "(retransMeta \<times> retransAddrLen) stream" \<comment> \<open>\<open>merge_retrans_request\<close>\<close>

text \<open>The operations that are sent with payload.\<close>

definition has_payload_op :: "ibOpCode \<Rightarrow> bool" where
  "has_payload_op op \<longleftrightarrow> op = RC_RDMA_WRITE_MIDDLE \<or> op = RC_RDMA_WRITE_FIRST \<or> op = RC_RDMA_WRITE_LAST
     \<or> op = RC_RDMA_WRITE_ONLY \<or> op = RC_SEND_ONLY \<or> op = RC_SEND_FIRST \<or> op = RC_SEND_MIDDLE \<or> op = RC_SEND_LAST"

definition req_addr_len :: "txMeta \<Rightarrow> retransAddrLen" where
  "req_addr_len m = \<lparr>al_localAddr = get_range 0 64 (tm_params m), al_remoteAddr = get_range 64 64 (tm_params m),
     al_length = get_range 128 32 (tm_params m), al_lst = tm_lst m, al_offs = tm_offs m\<rparr>"

definition req_event :: "txMeta \<Rightarrow> ibEvent" where
  "req_event m = mk_ibEvent (tm_op_code m) (ucast (tm_qpn m)) (al_remoteAddr (req_addr_len m)) (al_length (req_addr_len m))"

definition local_req_handler :: "txPath \<Rightarrow> txPath" where
  "local_req_handler s =
     (case lr_retransEventFifo s of
        rv # q \<Rightarrow>
         (let s1 = s\<lparr>lr_retransEventFifo := q,
                     tx_appMetaFifo := tx_appMetaFifo s @
                       [mk_ibEvent_psn (rt_op_code rv) (rt_qpn rv) (rt_remoteAddr rv) (rt_length rv) (rt_psn rv)],
                     lr_retransCount := lr_retransCount s + 1, regRetransCount := lr_retransCount s + 1\<rparr>
          in if rt_op_code rv \<noteq> RC_RDMA_READ_REQUEST
             then s1\<lparr>tx_local_memCmdFifo := tx_local_memCmdFifo s @
                      [mk_memCmdInternal_offs (rt_op_code rv) (ucast (rt_qpn rv)) (rt_localAddr rv) (rt_length rv)
                         PKG_INT (rt_offs rv)]\<rparr>
             else s1)
      | [] \<Rightarrow>
       (case s_axis_sq_meta s of
          [] \<Rightarrow> s
        | m # q \<Rightarrow>
           (let a = req_addr_len m; op = tm_op_code m;
                s1 = s\<lparr>s_axis_sq_meta := q\<rparr>;
                s2 = (if op = RC_RDMA_READ_REQUEST then s1\<lparr>tx_appMetaFifo := tx_appMetaFifo s @ [req_event m]\<rparr> else s1);
                s3 = (if has_payload_op op
                      then s2\<lparr>tx_appMetaFifo := tx_appMetaFifo s2 @ [req_event m],
                              tx_local_memCmdFifo := tx_local_memCmdFifo s @
                                [mk_memCmdInternal op (ucast (tm_qpn m)) (al_localAddr a) (al_length a) (tm_host m)]\<rparr>
                      else s2)
            in s3\<lparr>tx2retrans_insertAddrLen := tx2retrans_insertAddrLen s @ [a]\<rparr>)))"

subsection \<open>Memory reads and payload words\<close>

record memMerger =
  mm_remoteReadRequests :: "memCmdInternal stream"
  mm_localReadRequests :: "memCmdInternal stream"
  mm_out :: "memCmd stream"
  mm_pkgInfoFifo :: "pkgInfo stream"

text \<open>The number of words of \<open>n\<close> bytes.\<close>

definition cmd_words :: "nat \<Rightarrow> u32 \<Rightarrow> 29 word" where
  "cmd_words n len = of_nat ((unat len + n - 1) div n)"

definition local_cmd :: "u1 \<Rightarrow> memCmdInternal \<Rightarrow> memCmd" where
  "local_cmd ctl c =
     (if mi_sync c = 1 then mk_memCmd_offs (mi_addr c) (mi_len c) ctl 1 (mi_host c) (mi_offs c) (ucast (mi_qpn c))
      else mk_memCmd (mi_addr c) (mi_len c) ctl (mi_host c) (ucast (mi_qpn c)))"

definition mm_emit :: "nat \<Rightarrow> memCmd \<Rightarrow> pkgType \<Rightarrow> u32 \<Rightarrow> memMerger \<Rightarrow> memMerger" where
  "mm_emit n cmd ty len s =
     s\<lparr>mm_out := mm_out s @ [cmd], mm_pkgInfoFifo := mm_pkgInfoFifo s @ [\<lparr>pi_type = ty, pi_words = cmd_words n len\<rparr>]\<rparr>"

definition mem_cmd_merger :: "nat \<Rightarrow> memMerger \<Rightarrow> memMerger" where
  "mem_cmd_merger n s =
     (case mm_remoteReadRequests s of
        c # q \<Rightarrow>
         (let s1 = s\<lparr>mm_remoteReadRequests := q\<rparr>; op = mi_op_code c; len = mi_len c;
              cmd = (\<lambda>ctl. mk_memCmd (mi_addr c) len ctl (mi_host c) (ucast (mi_qpn c)))
          in if op = RC_RDMA_READ_RESP_ONLY \<or> op = RC_RDMA_READ_RESP_LAST then mm_emit n (cmd PKG_F) AETH len s1
             else if op = RC_RDMA_READ_RESP_MIDDLE then mm_emit n (cmd PKG_NF) RAW len s1
             else if op = RC_RDMA_READ_RESP_FIRST then mm_emit n (cmd PKG_NF) AETH len s1
             else s1)
      | [] \<Rightarrow>
       (case mm_localReadRequests s of
          [] \<Rightarrow> s
        | c # q \<Rightarrow>
           (let s1 = s\<lparr>mm_localReadRequests := q\<rparr>; op = mi_op_code c; len = mi_len c
            in if op = RC_RDMA_WRITE_ONLY then mm_emit n (local_cmd PKG_F c) RETH len s1
               else if op = RC_RDMA_WRITE_FIRST then mm_emit n (local_cmd PKG_NF c) RETH len s1
               else if op = RC_RDMA_WRITE_MIDDLE \<or> op = RC_SEND_FIRST \<or> op = RC_SEND_MIDDLE
               then mm_emit n (local_cmd PKG_NF c) RAW len s1
               else if op = RC_RDMA_WRITE_LAST \<or> op = RC_SEND_LAST then mm_emit n (local_cmd PKG_F c) RAW len s1
               else if op = RC_SEND_ONLY then mm_emit n (local_cmd PKG_F c) RAW len s1
               else s1)))"

datatype arbStateType = ARB_IDLE | ARB_AETH | ARB_RETH | ARB_RAW

record ('w, 'k) pkgArbiter =
  pa_pkgInfoFifo :: "pkgInfo stream"
  s_axis_mem_read_data :: "('w, 'k) net_axis stream"
  pa_remoteReadData :: "('w, 'k) net_axis stream"
  pa_localReadData :: "('w, 'k) net_axis stream"
  pa_rawPayFifo :: "('w, 'k) net_axis stream"
  pa_state :: arbStateType
  pa_wordCounter :: u8

text \<open>A word of a packet: the packet ends with the mark of the memory, or after so many words that the
  maximal size is reached. The comparison is one of integers.\<close>

definition arb_word :: "nat \<Rightarrow> ('w, 'k) net_axis \<Rightarrow> ('w, 'k) pkgArbiter \<Rightarrow> ('w, 'k) net_axis \<times> ('w, 'k) pkgArbiter" where
  "arb_word pmtu_words w s =
     (let c = pa_wordCounter s + 1; full = (unat c = pmtu_words)
      in (w\<lparr>na_last := na_last w \<or> full\<rparr>,
          s\<lparr>pa_wordCounter := c, pa_state := (if na_last w \<or> full then ARB_IDLE else pa_state s)\<rparr>))"

definition tx_pkg_arbiter :: "nat \<Rightarrow> ('w, 'k) pkgArbiter \<Rightarrow> ('w, 'k) pkgArbiter" where
  "tx_pkg_arbiter pmtu_words s =
     (case pa_state s of
        ARB_IDLE \<Rightarrow>
         (case pa_pkgInfoFifo s of
            [] \<Rightarrow> s
          | i # q \<Rightarrow> s\<lparr>pa_pkgInfoFifo := q, pa_wordCounter := 0,
                       pa_state := (if pi_type i = AETH then ARB_AETH else if pi_type i = RETH then ARB_RETH else ARB_RAW)\<rparr>)
      | st \<Rightarrow>
         (case s_axis_mem_read_data s of
            [] \<Rightarrow> s
          | w # q \<Rightarrow>
             (let (w', s1) = arb_word pmtu_words w (s\<lparr>s_axis_mem_read_data := q\<rparr>)
              in case st of
                   ARB_AETH \<Rightarrow> s1\<lparr>pa_remoteReadData := pa_remoteReadData s @ [w']\<rparr>
                 | ARB_RETH \<Rightarrow> s1\<lparr>pa_localReadData := pa_localReadData s @ [w']\<rparr>
                 | _ \<Rightarrow> s1\<lparr>pa_rawPayFifo := pa_rawPayFifo s @ [w']\<rparr>)))"

subsection \<open>Events\<close>

definition ev_num_pkg :: "u16 \<Rightarrow> ibEvent \<Rightarrow> u22" where
  "ev_num_pkg pmtu ev =
     (if ev_op_code ev = RC_RDMA_READ_REQUEST then of_nat ((unat (ev_length ev) + (unat pmtu - 1)) div unat pmtu) else 1)"

definition mg_emit :: "u24 \<Rightarrow> ibhMeta \<Rightarrow> ibEvent \<Rightarrow> txPath \<Rightarrow> txPath" where
  "mg_emit qpn m ev s = s\<lparr>mg_connTable_req := mg_connTable_req s @ [ucast qpn], tx_ibhMetaFifo := tx_ibhMetaFifo s @ [m],
     tx_exhMetaFifo := tx_exhMetaFifo s @ [ev]\<rparr>"

text \<open>\<open>junk\<close>: address and length of an event that is made from an acknowledgement.\<close>

definition meta_merger :: "u16 \<Rightarrow> u64 \<times> u32 \<Rightarrow> txPath \<Rightarrow> txPath" where
  "meta_merger pmtu junk s =
     (case rx_ackEventFifo s of
        aev # q \<Rightarrow> mg_emit (ae_qpn aev) (mk_ibhMeta_psn RC_ACK 0 (ae_qpn aev) (ae_psn aev) (ae_validPsn aev))
                    (ibEvent_of_ack (fst junk) (snd junk) aev) (s\<lparr>rx_ackEventFifo := q\<rparr>)
      | [] \<Rightarrow>
       (case rx_readEvenFifo s of
          ev # q \<Rightarrow> mg_emit (ev_qpn ev) (mk_ibhMeta_psn (ev_op_code ev) 0 (ev_qpn ev) (ev_psn ev) (ev_validPsn ev)) ev
                     (s\<lparr>rx_readEvenFifo := q\<rparr>)
        | [] \<Rightarrow>
         (case tx_appMetaFifo s of
            ev # q \<Rightarrow>
              mg_emit (ev_qpn ev)
                (if ev_validPsn ev then mk_ibhMeta_psn (ev_op_code ev) 0 (ev_qpn ev) (ev_psn ev) (ev_validPsn ev)
                 else mk_ibhMeta (ev_op_code ev) 0 (ev_qpn ev) (ev_num_pkg pmtu ev)) ev
                (s\<lparr>tx_appMetaFifo := q\<rparr>)
          | [] \<Rightarrow> s)))"

subsection \<open>Base header\<close>

text \<open>The header register keeps its bits from packet to packet; only the index is cleared.\<close>

definition generate_ibh :: "txPath \<Rightarrow> txPath" where
  "generate_ibh s =
     (if \<not> gi_get_psn s then
        (if tx_ibhMetaFifo s \<noteq> [] \<and> tx_dstQpFifo s \<noteq> [] then
           let m = (hd (tx_ibhMetaFifo s))\<lparr>im_partition_key := 0xFFFF\<rparr>;
               h = setDstQP (hd (tx_dstQpFifo s)) (setPsn (im_psn m)
                     (setPartitionKey (im_partition_key m) (setOpCode (im_op_code m) (gi_header s))));
               s1 = s\<lparr>tx_ibhMetaFifo := tl (tx_ibhMetaFifo s), tx_dstQpFifo := tl (tx_dstQpFifo s), gi_meta := m, gi_header := h\<rparr>
           in if im_validPSN m then s1\<lparr>tx_ibhHeaderFifo := tx_ibhHeaderFifo s @ [h]\<rparr>
              else s1\<lparr>txIbh2stateTable_upd_req := txIbh2stateTable_upd_req s @ [TxStateRead (ucast (im_dest_qp m))],
                      gi_get_psn := True\<rparr>
         else s)
      else
        (case stateTable2txIbh_rsp s of
           [] \<Rightarrow> s
         | qs # q \<Rightarrow>
            (let m = gi_meta s; s1 = s\<lparr>stateTable2txIbh_rsp := q\<rparr>;
                 s2 = (if im_op_code m = RC_ACK then s1\<lparr>gi_header := setPsn (resp_epsn qs - 1) (gi_header s)\<rparr>
                       else s1\<lparr>gi_header := setAckReq True (setPsn (req_next_psn qs) (gi_header s)),
                               txIbh2stateTable_upd_req := txIbh2stateTable_upd_req s @
                                 [TxStateWrite (ucast (im_dest_qp m)) (req_next_psn qs + ucast (im_numPkg m))],
                               tx2retrans_insertMeta := tx2retrans_insertMeta s @
                                 [\<lparr>rm_qpn = ucast (im_dest_qp m), rm_psn = req_next_psn qs, rm_opCode = im_op_code m\<rparr>]\<rparr>)
             in s2\<lparr>tx_ibhHeaderFifo := tx_ibhHeaderFifo s @ [gi_header s2], gi_get_psn := False\<rparr>)))"

text \<open>The bit that asks for an acknowledgement stays in the register.\<close>

lemma ack_request_sticky: "bit (gi_header s) 71 \<Longrightarrow> bit (gi_header (generate_ibh s)) 71"
  by (simp add: generate_ibh_def header_defs bit_set_range Let_def split: list.split)

text \<open>\<open>retransEntry(meta, addrlen)\<close> is the pair of its two parts.\<close>

definition merge_retrans_request :: "txPath \<Rightarrow> txPath" where
  "merge_retrans_request s =
     (if tx2retrans_insertMeta s \<noteq> [] \<and> tx2retrans_insertAddrLen s \<noteq> []
      then s\<lparr>tx2retrans_insertMeta := tl (tx2retrans_insertMeta s),
             tx2retrans_insertAddrLen := tl (tx2retrans_insertAddrLen s),
             mr_insertRequest := mr_insertRequest s @ [(hd (tx2retrans_insertMeta s), hd (tx2retrans_insertAddrLen s))]\<rparr>
      else s)"

subsection \<open>Extended header\<close>

record txPacketInfo =
  tpi_isAETH :: bool
  tpi_hasHeader :: bool
  tpi_hasPayload :: bool

datatype geStateType = GE_META | GET_MSN | GE_PROCESS

record ('w, 'k) genExh = msnTable +
  ge_metaIn :: "ibEvent stream"
  ge_lengthFifo :: "u16 stream"
  ge_packetInfoFifo :: "txPacketInfo stream"
  ge_txSetTimer_req :: "u24 stream"
  ge_output :: "('w, 'k) net_axis stream"
  ge_state :: geStateType
  ge_meta :: ibEvent
  ge_rdmaHeader :: "reth packetHeader"
  ge_ackHeader :: "aeth packetHeader"
  ge_metaWritten :: bool
  ge_msnMeta :: txMsnRsp

text \<open>A word of the extended header of writes and read requests; length and description of the packet go
  out with the first one. \<open>junk\<close> is the content of the word before.\<close>

definition ge_reth :: "'w::len word \<Rightarrow> u16 \<Rightarrow> bool \<Rightarrow> ('w word, 'k::len word) genExh \<Rightarrow> ('w word, 'k word) genExh" where
  "ge_reth junk udpLen hasPayload s =
     (let m = ge_meta s;
          h = setRemoteKey (tr_r_key (ge_msnMeta s)) (setLength (ev_length m) (setVirtualAddress (ev_addr m) (ph_header (ge_rdmaHeader s))));
          (d, rem, r) = consumeWord junk ((ge_rdmaHeader s)\<lparr>ph_header := h\<rparr>);
          s1 = s\<lparr>ge_rdmaHeader := r, ge_output := ge_output s @ [\<lparr>na_data = d, na_keep = - 1, na_last = (rem = 0)\<rparr>]\<rparr>;
          s2 = (if \<not> ge_metaWritten s
                then s1\<lparr>ge_packetInfoFifo := ge_packetInfoFifo s @
                         [\<lparr>tpi_isAETH = False, tpi_hasHeader = True, tpi_hasPayload = hasPayload\<rparr>],
                        ge_lengthFifo := ge_lengthFifo s @ [udpLen], ge_metaWritten := True\<rparr>
                else s1)
      in if rem = 0 then s2\<lparr>ge_state := GE_META\<rparr> else s2)"

text \<open>The single word of an acknowledgement header; four bytes of it count.\<close>

definition ge_aeth :: "'w::len word \<Rightarrow> u8 \<Rightarrow> u16 \<Rightarrow> bool \<Rightarrow> ('w word, 'k::len word) genExh \<Rightarrow> ('w word, 'k word) genExh" where
  "ge_aeth junk syn udpLen hasPayload s =
     (let h = setMsn (tr_msn (ge_msnMeta s)) (setSyndrome syn (ph_header (ge_ackHeader s)));
          (d, rem, r) = consumeWord junk ((ge_ackHeader s)\<lparr>ph_header := h\<rparr>)
      in s\<lparr>ge_ackHeader := r,
           ge_packetInfoFifo := ge_packetInfoFifo s @ [\<lparr>tpi_isAETH = True, tpi_hasHeader = True, tpi_hasPayload = hasPayload\<rparr>],
           ge_output := ge_output s @ [\<lparr>na_data = d, na_keep = mask 4, na_last = True\<rparr>],
           ge_lengthFifo := ge_lengthFifo s @ [udpLen], ge_state := GE_META\<rparr>)"

definition ge_raw :: "bool \<Rightarrow> ('w, 'k) genExh \<Rightarrow> ('w, 'k) genExh" where
  "ge_raw isAETH s =
     s\<lparr>ge_packetInfoFifo := ge_packetInfoFifo s @
         [\<lparr>tpi_isAETH = isAETH, tpi_hasHeader = False, tpi_hasPayload = (ev_length (ge_meta s) \<noteq> 0)\<rparr>],
       ge_lengthFifo := ge_lengthFifo s @ [12 + ucast (ev_length (ge_meta s)) + 4], ge_state := GE_META\<rparr>"

definition ge_process :: "u16 \<Rightarrow> 'w::len word \<Rightarrow> ('w word, 'k::len word) genExh \<Rightarrow> ('w word, 'k word) genExh" where
  "ge_process pmtu junk s =
     (let m = ge_meta s; op = ev_op_code m; len = ev_length m
      in if op = RC_RDMA_WRITE_ONLY \<or> op = RC_RDMA_WRITE_FIRST
         then ge_reth junk (12 + 16 + (if op = RC_RDMA_WRITE_FIRST then pmtu else ucast len) + 4) (len \<noteq> 0) s
         else if op \<in> {RC_RDMA_WRITE_MIDDLE, RC_RDMA_WRITE_LAST, RC_SEND_ONLY, RC_SEND_FIRST, RC_SEND_MIDDLE, RC_SEND_LAST}
         then ge_raw False s
         else if op = RC_RDMA_READ_REQUEST then ge_reth junk (12 + 16 + 0 + 4) False s
         else if op = RC_RDMA_READ_RESP_ONLY \<or> op = RC_RDMA_READ_RESP_FIRST \<or> op = RC_RDMA_READ_RESP_LAST
         then ge_aeth junk 0x1f (12 + 4 + ucast len + 4) (len \<noteq> 0) s
         else if op = RC_RDMA_READ_RESP_MIDDLE then ge_raw True s
         else if op = RC_ACK then ge_aeth junk (if ev_isNak m then 0x60 else 0x1f) (12 + 4 + 4) False s
         else s)"

definition generate_exh :: "u16 \<Rightarrow> 'w::len word \<Rightarrow> ('w word, 'k::len word) genExh \<Rightarrow> ('w word, 'k word) genExh" where
  "generate_exh pmtu junk s =
     (case ge_state s of
        GE_META \<Rightarrow>
         (case ge_metaIn s of
            [] \<Rightarrow> s
          | m # q \<Rightarrow>
             (let op = ev_op_code m;
                  s1 = s\<lparr>ge_metaIn := q, ge_meta := m, ge_metaWritten := False, ge_rdmaHeader := clear_header (ge_rdmaHeader s),
                         ge_ackHeader := clear_header (ge_ackHeader s),
                         txExh2msnTable_req := txExh2msnTable_req s @ [ucast (ev_qpn m)], ge_state := GET_MSN\<rparr>
              in if checkIfWrite op \<or> op = RC_RDMA_READ_REQUEST
                 then s1\<lparr>ge_txSetTimer_req := ge_txSetTimer_req s @ [ev_qpn m]\<rparr> else s1))
      | GET_MSN \<Rightarrow>
         (case msnTable2txExh_rsp s of
            [] \<Rightarrow> s
          | r # q \<Rightarrow> s\<lparr>msnTable2txExh_rsp := q, ge_msnMeta := r, ge_state := GE_PROCESS\<rparr>)
      | GE_PROCESS \<Rightarrow> ge_process pmtu junk s)"

end
