(* ===== verification/Roce_Tx_Numbers.thy ===== *)
theory Roce_Tx_Numbers
  imports Roce_Tx "HOL-Library.Sublist"
begin

text \<open>
  Sequence numbers of the transmit path of the RoCE transport: the modules of \<open>txPath\<close> are called in any order,
  while requests, retransmissions, acknowledgements, answers and accesses of the receive path to the table
  of sequence numbers arrive. Shown is what the retransmitter is told to store.
\<close>

subsection \<open>The modules together\<close>

datatype txInput =
    TxSubmit txMeta | TxRetrans retransEvent | TxAck ackEvent | TxAnswer ibEvent | TxDstQp u24 | TxRxAccess rxStateReq
  | TxLocal | TxMerge "u64 \<times> u32" | TxGenerate | TxTable | TxEntry

fun tx_step :: "u16 \<Rightarrow> txInput \<Rightarrow> txPath \<Rightarrow> txPath" where
  "tx_step pmtu (TxSubmit m) s = s\<lparr>s_axis_sq_meta := s_axis_sq_meta s @ [m]\<rparr>"
| "tx_step pmtu (TxRetrans rv) s = s\<lparr>lr_retransEventFifo := lr_retransEventFifo s @ [rv]\<rparr>"
| "tx_step pmtu (TxAck a) s = s\<lparr>rx_ackEventFifo := rx_ackEventFifo s @ [a]\<rparr>"
| "tx_step pmtu (TxAnswer ev) s = s\<lparr>rx_readEvenFifo := rx_readEvenFifo s @ [ev]\<rparr>"
| "tx_step pmtu (TxDstQp qp) s = s\<lparr>tx_dstQpFifo := tx_dstQpFifo s @ [qp]\<rparr>"
| "tx_step pmtu (TxRxAccess r) s = s\<lparr>rxIbh2stateTable_upd_req := rxIbh2stateTable_upd_req s @ [r]\<rparr>"
| "tx_step pmtu TxLocal s = local_req_handler s"
| "tx_step pmtu (TxMerge junk) s = meta_merger pmtu junk s"
| "tx_step pmtu TxGenerate s = generate_ibh s"
| "tx_step pmtu TxTable s = roce_state_table s"
| "tx_step pmtu TxEntry s = merge_retrans_request s"

fun submitted :: "txInput list \<Rightarrow> txMeta list" where
  "submitted [] = []"
| "submitted (TxSubmit m # is) = m # submitted is"
| "submitted (i # is) = submitted is"

definition tx_idle :: "(u16 \<Rightarrow> stateTableEntry) \<Rightarrow> bth \<Rightarrow> ibhMeta \<Rightarrow> txPath" where
  "tx_idle T h m = \<lparr>rxIbh2stateTable_upd_req = [], txIbh2stateTable_upd_req = [], qpi2stateTable_upd_req = [],
     stateTable2rxIbh_rsp = [], stateTable2txIbh_rsp = [], stateTable2qpi_rsp = [], psn_entries = T,
     s_axis_sq_meta = [], lr_retransEventFifo = [], tx2retrans_insertAddrLen = [], tx_local_memCmdFifo = [],
     tx_appMetaFifo = [], lr_retransCount = 0, regRetransCount = 0, rx_ackEventFifo = [], rx_readEvenFifo = [],
     mg_connTable_req = [], tx_ibhMetaFifo = [], tx_exhMetaFifo = [], tx_dstQpFifo = [], tx2retrans_insertMeta = [],
     tx_ibhHeaderFifo = [], gi_get_psn = False, gi_header = h, gi_meta = m, mr_insertRequest = []\<rparr>"

subsection \<open>What is to be stored\<close>

text \<open>The number of packets of a request; a read has as many as its answer.\<close>

definition req_packets :: "u16 \<Rightarrow> txMeta \<Rightarrow> u22" where
  "req_packets pmtu m = ev_num_pkg pmtu (req_event m)"

abbreviation req_qp :: "txMeta \<Rightarrow> u16" where
  "req_qp m \<equiv> ucast (ucast (tm_qpn m) :: u24)"

definition advance_psn :: "u16 \<Rightarrow> txMeta \<Rightarrow> (u16 \<Rightarrow> u24) \<Rightarrow> u16 \<Rightarrow> u24" where
  "advance_psn pmtu m p = p(req_qp m := p (req_qp m) + ucast (req_packets pmtu m))"

definition store_meta :: "(u16 \<Rightarrow> u24) \<Rightarrow> txMeta \<Rightarrow> retransMeta" where
  "store_meta p m = \<lparr>rm_qpn = req_qp m, rm_psn = p (req_qp m), rm_opCode = tm_op_code m\<rparr>"

text \<open>The entries of a list of requests: each has its own operation, address and length, and the number
  that follows those of the earlier requests of its queue pair.\<close>

fun store_metas :: "u16 \<Rightarrow> (u16 \<Rightarrow> u24) \<Rightarrow> txMeta list \<Rightarrow> retransMeta list" where
  "store_metas pmtu p [] = []"
| "store_metas pmtu p (m # ms) = store_meta p m # store_metas pmtu (advance_psn pmtu m p) ms"

definition store_plan :: "u16 \<Rightarrow> (u16 \<Rightarrow> u24) \<Rightarrow> txMeta list \<Rightarrow> (retransMeta \<times> retransAddrLen) list" where
  "store_plan pmtu p ms = zip (store_metas pmtu p ms) (map req_addr_len ms)"

definition supported :: "txMeta \<Rightarrow> bool" where
  "supported m \<longleftrightarrow> tm_op_code m = RC_RDMA_READ_REQUEST \<or> has_payload_op (tm_op_code m)"

lemma length_store_metas [simp]: "length (store_metas pmtu p ms) = length ms"
  by (induction ms arbitrary: p) auto

lemma store_metas_append:
  "store_metas pmtu p (xs @ ys) = store_metas pmtu p xs @ store_metas pmtu (fold (advance_psn pmtu) xs p) ys"
  by (induction xs arbitrary: p) auto

lemma store_metas_snoc [simp]:
  "store_metas pmtu p (xs @ [m]) = store_metas pmtu p xs @ [store_meta (fold (advance_psn pmtu) xs p) m]"
  by (simp add: store_metas_append)

lemma supported_not_ack: "supported m \<Longrightarrow> tm_op_code m \<noteq> RC_ACK"
  by (auto simp: supported_def has_payload_op_def op_defs)

subsection \<open>The invariant\<close>

text \<open>Requests on their way: in the register of \<open>generate_ibh\<close>, in its input, in the input of
  \<open>meta_merger\<close>. Of each its operation, queue pair and number of packets.\<close>

definition meta_key :: "ibhMeta \<Rightarrow> ibOpCode \<times> u24 \<times> u22" where
  "meta_key m = (im_op_code m, im_dest_qp m, im_numPkg m)"

definition req_key :: "u16 \<Rightarrow> txMeta \<Rightarrow> ibOpCode \<times> u24 \<times> u22" where
  "req_key pmtu m = (tm_op_code m, ucast (tm_qpn m), req_packets pmtu m)"

definition new_meta :: "ibhMeta \<Rightarrow> bool" where
  "new_meta m \<longleftrightarrow> \<not> im_validPSN m \<and> im_op_code m \<noteq> RC_ACK"

definition event_key :: "u16 \<Rightarrow> ibEvent \<Rightarrow> ibOpCode \<times> u24 \<times> u22" where
  "event_key pmtu ev = (ev_op_code ev, ev_qpn ev, ev_num_pkg pmtu ev)"

definition in_register :: "bool \<Rightarrow> ibhMeta \<Rightarrow> ibhMeta list" where
  "in_register waits m = (if waits \<and> im_op_code m \<noteq> RC_ACK then [m] else [])"

definition under_way :: "u16 \<Rightarrow> txPath \<Rightarrow> (ibOpCode \<times> u24 \<times> u22) list" where
  "under_way pmtu s = map meta_key (in_register (gi_get_psn s) (gi_meta s)) @ map meta_key (filter new_meta (tx_ibhMetaFifo s))
     @ map (event_key pmtu) (filter (\<lambda>ev. \<not> ev_validPsn ev) (tx_appMetaFifo s))"

text \<open>The next numbers, a write to the table that is on its way included.\<close>

fun view_of :: "txStateReq list \<Rightarrow> (u16 \<Rightarrow> stateTableEntry) \<Rightarrow> u16 \<Rightarrow> u24" where
  "view_of (TxStateWrite q v # rs) T = (\<lambda>x. req_next_psn (T x))(q := v)"
| "view_of rs T = (\<lambda>x. req_next_psn (T x))"

definition psn_view :: "txPath \<Rightarrow> u16 \<Rightarrow> u24" where
  "psn_view s = view_of (txIbh2stateTable_upd_req s) (psn_entries s)"

text \<open>One access to the table at a time.\<close>

definition one_access :: "txStateReq list \<Rightarrow> stateTableEntry list \<Rightarrow> (u16 \<Rightarrow> stateTableEntry) \<Rightarrow> bool \<Rightarrow> u16 \<Rightarrow> bool" where
  "one_access rs es T waits qp \<longleftrightarrow>
     (if \<not> waits then es = [] \<and> (rs = [] \<or> (\<exists>q v. rs = [TxStateWrite q v]))
      else (es = [] \<and> (rs = [TxStateRead qp] \<or> (\<exists>q v. rs = [TxStateWrite q v, TxStateRead qp])))
         \<or> (rs = [] \<and> (\<exists>e. es = [e] \<and> req_next_psn e = req_next_psn (T qp))))"

definition access_ok :: "txPath \<Rightarrow> bool" where
  "access_ok s \<longleftrightarrow> qpi2stateTable_upd_req s = [] \<and>
     one_access (txIbh2stateTable_upd_req s) (stateTable2txIbh_rsp s) (psn_entries s) (gi_get_psn s)
       (ucast (im_dest_qp (gi_meta s)))"

definition events_ok :: "txPath \<Rightarrow> bool" where
  "events_ok s \<longleftrightarrow> list_all ev_validPsn (rx_readEvenFifo s)
     \<and> list_all (\<lambda>ev. \<not> ev_validPsn ev \<longrightarrow> ev_op_code ev \<noteq> RC_ACK) (tx_appMetaFifo s)"

definition stored_metas :: "txPath \<Rightarrow> retransMeta list" where
  "stored_metas s = map fst (mr_insertRequest s) @ tx2retrans_insertMeta s"

definition stored_addrs :: "txPath \<Rightarrow> retransAddrLen list" where
  "stored_addrs s = map snd (mr_insertRequest s) @ tx2retrans_insertAddrLen s"

definition tx_inv :: "u16 \<Rightarrow> (u16 \<Rightarrow> u24) \<Rightarrow> txMeta list \<Rightarrow> txPath \<Rightarrow> bool" where
  "tx_inv pmtu p subm s \<longleftrightarrow> access_ok s \<and> events_ok s \<and> list_all supported (s_axis_sq_meta s) \<and>
     (\<exists>fin todo. subm = fin @ todo @ s_axis_sq_meta s
        \<and> stored_metas s = store_metas pmtu p fin
        \<and> stored_addrs s = map req_addr_len (fin @ todo)
        \<and> under_way pmtu s = map (req_key pmtu) todo
        \<and> psn_view s = fold (advance_psn pmtu) fin p)"

lemmas tx_inv_parts = access_ok_def events_ok_def stored_metas_def stored_addrs_def under_way_def psn_view_def


lemma tx_invI:
  assumes "access_ok s" "events_ok s" "list_all supported (s_axis_sq_meta s)"
    "subm = fin @ todo @ s_axis_sq_meta s" "stored_metas s = store_metas pmtu p fin"
    "stored_addrs s = map req_addr_len (fin @ todo)" "under_way pmtu s = map (req_key pmtu) todo"
    "psn_view s = fold (advance_psn pmtu) fin p"
  shows "tx_inv pmtu p subm s"
  unfolding tx_inv_def using assms by blast

lemma tx_invE:
  assumes "tx_inv pmtu p subm s"
  obtains fin todo where "access_ok s" "events_ok s" "list_all supported (s_axis_sq_meta s)"
    "subm = fin @ todo @ s_axis_sq_meta s" "stored_metas s = store_metas pmtu p fin"
    "stored_addrs s = map req_addr_len (fin @ todo)" "under_way pmtu s = map (req_key pmtu) todo"
    "psn_view s = fold (advance_psn pmtu) fin p"
  using assms by (auto simp: tx_inv_def)

text \<open>A call that moves what is under way, and stores nothing.\<close>

lemma tx_inv_moved:
  assumes "tx_inv pmtu p subm s" "access_ok s'" "events_ok s'" "s_axis_sq_meta s' = s_axis_sq_meta s"
    "stored_metas s' = stored_metas s" "stored_addrs s' = stored_addrs s" "under_way pmtu s' = under_way pmtu s"
    "psn_view s' = psn_view s"
  shows "tx_inv pmtu p subm s'"
  using assms by (simp add: tx_inv_def)

lemma inv_local:
  assumes "tx_inv pmtu p subm s"
  shows "tx_inv pmtu p subm (local_req_handler s)"
proof -
  obtain fin todo where inv: "access_ok s" "events_ok s" "list_all supported (s_axis_sq_meta s)"
      "subm = fin @ todo @ s_axis_sq_meta s" "stored_metas s = store_metas pmtu p fin"
      "stored_addrs s = map req_addr_len (fin @ todo)" "under_way pmtu s = map (req_key pmtu) todo"
      "psn_view s = fold (advance_psn pmtu) fin p"
    using assms by (rule tx_invE)
  show ?thesis
  proof (cases "lr_retransEventFifo s")
    case (Cons rv q)
    show ?thesis
      using inv Cons
      by (intro tx_invI [of _ _ fin todo])
         (simp_all add: local_req_handler_def Let_def tx_inv_parts mk_ibEvent_psn_def)
  next
    case nr: Nil
    show ?thesis
    proof (cases "s_axis_sq_meta s")
      case Nil
      then show ?thesis using assms nr by (simp add: local_req_handler_def)
    next
      case (Cons m q)
      have m: "supported m" using inv(3) Cons by simp
      have k: "event_key pmtu (req_event m) = req_key pmtu m"
        by (simp add: event_key_def req_key_def req_packets_def req_event_def mk_ibEvent_def)
      have v: "\<not> ev_validPsn (req_event m)" "ev_op_code (req_event m) = tm_op_code m"
        by (simp_all add: req_event_def mk_ibEvent_def)
      have e: "has_payload_op (tm_op_code m) \<longleftrightarrow> tm_op_code m \<noteq> RC_RDMA_READ_REQUEST"
        using m by (auto simp: supported_def has_payload_op_def op_defs)
      have a: "tm_op_code m \<noteq> RC_ACK" "RC_RDMA_READ_REQUEST \<noteq> RC_ACK"
        by (rule supported_not_ack [OF m]) (simp add: op_defs)
      show ?thesis
        using inv Cons nr m k v e a
        by (intro tx_invI [of _ _ fin "todo @ [m]"])
           (simp_all add: local_req_handler_def Let_def tx_inv_parts)
    qed
  qed
qed

lemma inv_merge:
  assumes "tx_inv pmtu p subm s"
  shows "tx_inv pmtu p subm (meta_merger pmtu junk s)"
proof -
  obtain fin todo where inv: "access_ok s" "events_ok s" "list_all supported (s_axis_sq_meta s)"
      "subm = fin @ todo @ s_axis_sq_meta s" "stored_metas s = store_metas pmtu p fin"
      "stored_addrs s = map req_addr_len (fin @ todo)" "under_way pmtu s = map (req_key pmtu) todo"
      "psn_view s = fold (advance_psn pmtu) fin p"
    using assms by (rule tx_invE)
  have "access_ok (meta_merger pmtu junk s)" "events_ok (meta_merger pmtu junk s)"
    "s_axis_sq_meta (meta_merger pmtu junk s) = s_axis_sq_meta s"
    "stored_metas (meta_merger pmtu junk s) = stored_metas s"
    "stored_addrs (meta_merger pmtu junk s) = stored_addrs s"
    "under_way pmtu (meta_merger pmtu junk s) = under_way pmtu s"
    "psn_view (meta_merger pmtu junk s) = psn_view s"
    using inv(1,2)
    by (auto simp: meta_merger_def mg_emit_def tx_inv_parts mk_ibhMeta_psn_def mk_ibhMeta_def new_meta_def meta_key_def
        event_key_def split: list.splits)
  then show ?thesis using inv by (intro tx_invI [of _ _ fin todo]) simp_all
qed

lemma inv_entry:
  assumes "tx_inv pmtu p subm s"
  shows "tx_inv pmtu p subm (merge_retrans_request s)"
proof -
  have "access_ok (merge_retrans_request s) = access_ok s" "events_ok (merge_retrans_request s) = events_ok s"
    "s_axis_sq_meta (merge_retrans_request s) = s_axis_sq_meta s"
    "stored_metas (merge_retrans_request s) = stored_metas s"
    "stored_addrs (merge_retrans_request s) = stored_addrs s"
    "under_way pmtu (merge_retrans_request s) = under_way pmtu s"
    "psn_view (merge_retrans_request s) = psn_view s"
    by (auto simp: merge_retrans_request_def tx_inv_parts neq_Nil_conv)
  then show ?thesis using assms by (simp add: tx_inv_def)
qed

lemma rx_state_upd_next [simp]: "req_next_psn (rx_state_upd r T q) = req_next_psn (T q)"
  by (cases r) auto

lemma inv_table:
  assumes "tx_inv pmtu p subm s"
  shows "tx_inv pmtu p subm (roce_state_table s)"
proof -
  have acc: "access_ok s" using assms by (simp add: tx_inv_def)
  have "events_ok (roce_state_table s) = events_ok s"
    "s_axis_sq_meta (roce_state_table s) = s_axis_sq_meta s"
    "stored_metas (roce_state_table s) = stored_metas s"
    "stored_addrs (roce_state_table s) = stored_addrs s"
    "under_way pmtu (roce_state_table s) = under_way pmtu s"
    by (simp_all add: roce_state_table_def tx_inv_parts Let_def
        split: list.split rxStateReq.split txStateReq.split ifStateReq.split)
  moreover have "access_ok (roce_state_table s) \<and> psn_view (roce_state_table s) = psn_view s"
  proof (cases "rxIbh2stateTable_upd_req s")
    case (Cons r q)
    then show ?thesis using acc
      by (cases r) (auto simp: roce_state_table_def access_ok_def one_access_def psn_view_def Let_def simp del: rx_state_upd.simps)
  next
    case Nil
    then show ?thesis using acc
      by (auto simp: roce_state_table_def access_ok_def one_access_def psn_view_def Let_def fun_eq_iff split: if_splits)
  qed
  ultimately show ?thesis using assms by (simp add: tx_inv_def)
qed

lemma inv_generate:
  assumes "tx_inv pmtu p subm s"
  shows "tx_inv pmtu p subm (generate_ibh s)"
proof -
  obtain fin todo where inv: "access_ok s" "events_ok s" "list_all supported (s_axis_sq_meta s)"
      "subm = fin @ todo @ s_axis_sq_meta s" "stored_metas s = store_metas pmtu p fin"
      "stored_addrs s = map req_addr_len (fin @ todo)" "under_way pmtu s = map (req_key pmtu) todo"
      "psn_view s = fold (advance_psn pmtu) fin p"
    using assms by (rule tx_invE)
  show ?thesis
  proof (cases "gi_get_psn s")
    case False
    have "access_ok (generate_ibh s)" "events_ok (generate_ibh s)"
      "s_axis_sq_meta (generate_ibh s) = s_axis_sq_meta s"
      "stored_metas (generate_ibh s) = stored_metas s"
      "stored_addrs (generate_ibh s) = stored_addrs s"
      "under_way pmtu (generate_ibh s) = under_way pmtu s"
      "psn_view (generate_ibh s) = psn_view s"
      using inv(1,2) False
      by (auto simp: generate_ibh_def Let_def tx_inv_parts one_access_def in_register_def neq_Nil_conv new_meta_def meta_key_def split: list.splits)
    then show ?thesis using inv by (intro tx_invI [of _ _ fin todo]) simp_all
  next
    case True
    show ?thesis
    proof (cases "stateTable2txIbh_rsp s")
      case Nil
      then show ?thesis using assms True by (simp add: generate_ibh_def)
    next
      case (Cons e rest)
      let ?q = "ucast (im_dest_qp (gi_meta s)) :: u16"
      have e: "rest = []" "txIbh2stateTable_upd_req s = []" "req_next_psn e = psn_view s ?q"
        using inv(1) True Cons by (auto simp: access_ok_def one_access_def psn_view_def)
      show ?thesis
      proof (cases "im_op_code (gi_meta s) = RC_ACK")
        case ack: True
        have "access_ok (generate_ibh s)" "events_ok (generate_ibh s)"
          "s_axis_sq_meta (generate_ibh s) = s_axis_sq_meta s"
          "stored_metas (generate_ibh s) = stored_metas s"
          "stored_addrs (generate_ibh s) = stored_addrs s"
          "under_way pmtu (generate_ibh s) = under_way pmtu s"
          "psn_view (generate_ibh s) = psn_view s"
          using inv(1,2) True Cons ack e by (auto simp: generate_ibh_def Let_def tx_inv_parts one_access_def in_register_def)
        then show ?thesis using inv by (intro tx_invI [of _ _ fin todo]) simp_all
      next
        case nack: False
        obtain m todo' where todo: "todo = m # todo'" "req_key pmtu m = meta_key (gi_meta s)"
          using inv(7) True nack by (cases todo) (auto simp: under_way_def in_register_def)
        then have m: "tm_op_code m = im_op_code (gi_meta s)" "ucast (tm_qpn m) = im_dest_qp (gi_meta s)"
          "req_packets pmtu m = im_numPkg (gi_meta s)"
          by (auto simp: req_key_def meta_key_def)
        have "access_ok (generate_ibh s)" "events_ok (generate_ibh s)"
          "s_axis_sq_meta (generate_ibh s) = s_axis_sq_meta s"
          "stored_metas (generate_ibh s) = stored_metas s @ [store_meta (psn_view s) m]"
          "stored_addrs (generate_ibh s) = stored_addrs s"
          "under_way pmtu (generate_ibh s) = tl (under_way pmtu s)"
          "psn_view (generate_ibh s) = advance_psn pmtu m (psn_view s)"
          using inv(1,2) True Cons nack e m
          by (auto simp: generate_ibh_def Let_def tx_inv_parts one_access_def in_register_def store_meta_def advance_psn_def)
        then show ?thesis using inv todo
          by (intro tx_invI [of _ _ "fin @ [m]" todo']) simp_all
      qed
    qed
  qed
qed


definition tx_input_ok :: "txInput \<Rightarrow> bool" where
  "tx_input_ok i \<longleftrightarrow> (case i of TxSubmit m \<Rightarrow> supported m | TxAnswer ev \<Rightarrow> ev_validPsn ev | _ \<Rightarrow> True)"

lemma inv_step:
  assumes "tx_inv pmtu p subm s" "tx_input_ok i"
  shows "tx_inv pmtu p (subm @ submitted [i]) (tx_step pmtu i s)"
proof (cases i)
  case (TxSubmit m)
  then show ?thesis using assms by (auto simp: tx_inv_def tx_input_ok_def tx_inv_parts)
qed (use assms in \<open>simp_all add: inv_local inv_merge inv_generate inv_table inv_entry\<close>;
     auto simp: tx_inv_def tx_input_ok_def tx_inv_parts)+

lemma submitted_Cons: "submitted (i # is) = submitted [i] @ submitted is"
  by (cases i) auto

lemma inv_runs:
  "tx_inv pmtu p subm s \<Longrightarrow> list_all tx_input_ok is \<Longrightarrow> tx_inv pmtu p (subm @ submitted is) (run_inputs (tx_step pmtu) is s)"
proof (induction "is" arbitrary: subm s)
  case (Cons i "is")
  have "tx_inv pmtu p ((subm @ submitted [i]) @ submitted is) (run_inputs (tx_step pmtu) is (tx_step pmtu i s))"
    using Cons.prems by (intro Cons.IH inv_step) auto
  then show ?case by (simp add: submitted_Cons [of i "is"] del: submitted.simps)
qed simp

lemma inv_idle: "tx_inv pmtu (\<lambda>q. req_next_psn (T q)) [] (tx_idle T h m)"
  by (rule tx_invI [of _ _ "[]" "[]"]) (simp_all add: tx_idle_def tx_inv_parts in_register_def one_access_def)

lemma stored_prefix:
  assumes "tx_inv pmtu p subm s"
  shows "prefix (mr_insertRequest s) (store_plan pmtu p subm)"
proof -
  obtain fin todo where inv: "subm = fin @ todo @ s_axis_sq_meta s" "stored_metas s = store_metas pmtu p fin"
      "stored_addrs s = map req_addr_len (fin @ todo)"
    using assms by (rule tx_invE)
  let ?r = "mr_insertRequest s"
  have "take (length ?r) (store_metas pmtu p subm) = map fst ?r"
    using inv(2) [symmetric] by (simp add: inv(1) store_metas_append stored_metas_def)
  moreover have "take (length ?r) (map req_addr_len subm) = map snd ?r"
    using inv(3) [symmetric] by (simp add: inv(1) stored_addrs_def flip: append_assoc)
  ultimately have "take (length ?r) (store_plan pmtu p subm) = ?r"
    by (simp add: store_plan_def take_zip zip_map_fst_snd)
  then show ?thesis by (metis take_is_prefix)
qed

text \<open>C9. Whatever the order in which the modules of the transmit path run, and whatever
  acknowledgements, answers, retransmissions and accesses of the receive path come between: if only
  operations that the engine knows are submitted, then the entries that the retransmitter gets are, from
  the first, one per submitted request in their order; each has the operation, the address and the length
  of its own request, and the sequence numbers of a queue pair begin at its initial one and go on by the
  number of packets of each request, modulo \<open>2 ^ 24\<close>.\<close>

theorem retransmission_entries:
  assumes "list_all tx_input_ok is"
  shows "prefix (mr_insertRequest (run_inputs (tx_step pmtu) is (tx_idle T h m)))
    (store_plan pmtu (\<lambda>q. req_next_psn (T q)) (submitted is))"
  using inv_runs [OF inv_idle assms] by (intro stored_prefix) simp


definition sample_write :: "u10 \<Rightarrow> u192 \<Rightarrow> txMeta" where
  "sample_write qpn params = \<lparr>tm_op_code = RC_RDMA_WRITE_ONLY, tm_qpn = qpn, tm_host = 1, tm_lst = 1, tm_offs = 0, tm_params = params\<rparr>"

definition idle_entry :: "u24 \<Rightarrow> stateTableEntry" where
  "idle_entry psn = \<lparr>resp_epsn = 0, resp_old_outstanding = 0, req_next_psn = psn, req_old_unack = psn, req_old_valid = psn,
     retryCounter = 7\<rparr>"

theorem retransmission_entries_witness:
  "let is = [TxSubmit (sample_write 1 5), TxAck (mk_ackEvent 1 9 False), TxSubmit (sample_write 1 7), TxDstQp 3, TxDstQp 3,
             TxDstQp 3, TxLocal, TxLocal, TxMerge (0, 0), TxMerge (0, 0), TxMerge (0, 0), TxGenerate, TxGenerate, TxTable,
             TxGenerate, TxEntry, TxTable, TxGenerate, TxTable, TxGenerate, TxEntry];
       s = run_inputs (tx_step 4096) is (tx_idle (\<lambda>q. idle_entry 0xFFFFFF) 0 (mk_ibhMeta 0 0 0 0))
   in map (rm_psn \<circ> fst) (mr_insertRequest s) = [0xFFFFFF, 0]
    \<and> prefix (mr_insertRequest s) (store_plan 4096 (\<lambda>q. req_next_psn (idle_entry 0xFFFFFF)) (submitted is))"
proof -
  let ?is = "[TxSubmit (sample_write 1 5), TxAck (mk_ackEvent 1 9 False), TxSubmit (sample_write 1 7), TxDstQp 3, TxDstQp 3,
             TxDstQp 3, TxLocal, TxLocal, TxMerge (0, 0), TxMerge (0, 0), TxMerge (0, 0), TxGenerate, TxGenerate, TxTable,
             TxGenerate, TxEntry, TxTable, TxGenerate, TxTable, TxGenerate, TxEntry]"
  have "list_all tx_input_ok ?is"
    by (simp add: tx_input_ok_def supported_def has_payload_op_def sample_write_def)
  from retransmission_entries [OF this, of 4096 "\<lambda>q. idle_entry 0xFFFFFF" 0 "mk_ibhMeta 0 0 0 0"]
  show ?thesis
    by (simp add: Let_def local_req_handler_def meta_merger_def mg_emit_def generate_ibh_def roce_state_table_def
        merge_retrans_request_def tx_idle_def sample_write_def req_event_def mk_ibEvent_def mk_ibhMeta_def mk_ibhMeta_psn_def
        mk_ackEvent_def idle_entry_def has_payload_op_def op_defs ev_num_pkg_def)
qed

text \<open>An operation that the engine does not know is dropped, but its address stays: the next request
  of the queue is then stored with the address and the length of the dropped one, so that its
  retransmission would send other data.\<close>

theorem unknown_operation_shifts_entries:
  assumes "\<not> supported m1" "supported m2" "tm_op_code m2 \<noteq> RC_RDMA_READ_REQUEST"
  shows "mr_insertRequest (run_inputs (tx_step pmtu)
      [TxSubmit m1, TxSubmit m2, TxLocal, TxLocal, TxDstQp qp, TxMerge junk, TxGenerate, TxTable, TxGenerate, TxEntry] (tx_idle T h m))
    = [(store_meta (\<lambda>q. req_next_psn (T q)) m2, req_addr_len m1)]"
proof -
  have "tm_op_code m1 \<noteq> RC_RDMA_READ_REQUEST" "\<not> has_payload_op (tm_op_code m1)" "has_payload_op (tm_op_code m2)"
    "tm_op_code m2 \<noteq> RC_ACK"
    using assms supported_not_ack by (auto simp: supported_def)
  then show ?thesis using assms(3)
    by (simp add: Let_def local_req_handler_def meta_merger_def mg_emit_def generate_ibh_def roce_state_table_def
        merge_retrans_request_def tx_idle_def req_event_def mk_ibEvent_def mk_ibhMeta_def store_meta_def)
qed

theorem unknown_operation_shifts_entries_witness:
  "let m1 = (sample_write 1 5)\<lparr>tm_op_code := RC_RDMA_WRITE_LAST_WITH_IMD\<rparr>
   in mr_insertRequest (run_inputs (tx_step 4096)
      [TxSubmit m1, TxSubmit (sample_write 1 7), TxLocal, TxLocal, TxDstQp 3, TxMerge (0, 0), TxGenerate, TxTable, TxGenerate, TxEntry]
      (tx_idle (\<lambda>q. idle_entry 0) 0 (mk_ibhMeta 0 0 0 0)))
    = [(store_meta (\<lambda>q. req_next_psn (idle_entry 0)) (sample_write 1 7), req_addr_len m1)]"
proof -
  have "\<not> supported ((sample_write 1 5)\<lparr>tm_op_code := RC_RDMA_WRITE_LAST_WITH_IMD\<rparr>)" "supported (sample_write 1 7)"
    "tm_op_code (sample_write 1 7) \<noteq> RC_RDMA_READ_REQUEST"
    by (simp_all add: supported_def sample_write_def has_payload_op_def op_defs)
  from unknown_operation_shifts_entries [OF this] show ?thesis unfolding Let_def by blast
qed

end
