(* ===== verification/Roce_Tx_Packets.thy ===== *)
theory Roce_Tx_Packets
  imports Roce_Tx
begin

text \<open>
  The end of the transmit path of the RoCE transport (\<^verbatim>\<open>ib_transport_protocol/ib_transport_protocol.cpp\<close>): payload is
  appended to the extended header, the base header is put in front, and the small modules between the
  tables and the network (\<open>ipUdpMetaHandler\<close>, \<open>tx_ipUdpMetaMerger\<close>, \<open>qp_interface\<close>, \<open>three_merger\<close>).
\<close>

subsection \<open>Payload\<close>

datatype apStateType = AP_INFO | AP_HEADER | AETH_PAYLOAD | RETH_PAYLOAD | RAW_PAYLOAD

record ('w, 'k) appendPayload =
  ap_packetInfoFifo :: "txPacketInfo stream"
  tx_headerFifo :: "('w, 'k) net_axis stream"
  tx_aethPayloadFifo :: "('w, 'k) net_axis stream"
  tx_rethPayloadFifo :: "('w, 'k) net_axis stream"
  tx_rawPayloadFifo :: "('w, 'k) net_axis stream"
  tx_packetFifo :: "('w, 'k) net_axis stream"
  ap_state :: apStateType
  ap_prevWord :: "('w, 'k) net_axis"
  ap_firstPayload :: bool
  ap_info :: txPacketInfo

text \<open>\<open>sendWord.data(n - 1, 0) = prevWord.data(n - 1, 0)\<close>.\<close>

definition put_low :: "nat \<Rightarrow> ('w::len word, 'k) net_axis \<Rightarrow> ('w word, 'k) net_axis \<Rightarrow> ('w word, 'k) net_axis" where
  "put_low n prev w = w\<lparr>na_data := set_range 0 n (get_range 0 n (na_data prev) :: 'w word) (na_data w)\<rparr>"

definition ap_header_word :: "('w::len word, 'k) appendPayload \<Rightarrow> ('w word, 'k) appendPayload" where
  "ap_header_word s =
     (case tx_headerFifo s of
        [] \<Rightarrow> s
      | w # q \<Rightarrow>
         (let s1 = s\<lparr>tx_headerFifo := q, ap_prevWord := w\<rparr>
          in if \<not> na_last w then s1\<lparr>tx_packetFifo := tx_packetFifo s @ [w]\<rparr>
             else if \<not> tpi_hasPayload (ap_info s) then s1\<lparr>tx_packetFifo := tx_packetFifo s @ [w], ap_state := AP_INFO\<rparr>
             else (let w' = w\<lparr>na_last := False\<rparr>; s2 = s1\<lparr>ap_prevWord := w'\<rparr>
                   in if tpi_isAETH (ap_info s) then s2\<lparr>ap_state := AETH_PAYLOAD\<rparr>
                      else if LENGTH('w) \<le> 128 then s2\<lparr>tx_packetFifo := tx_packetFifo s @ [w'], ap_state := RETH_PAYLOAD\<rparr>
                      else s2\<lparr>ap_state := RETH_PAYLOAD\<rparr>)))"

text \<open>A word of payload behind an extended header: \<open>n\<close> bits of the first one are those of the header.\<close>

definition ap_payload_word :: "nat \<Rightarrow> bool \<Rightarrow> ('w::len word, 'k) net_axis \<Rightarrow> ('w word, 'k) appendPayload \<Rightarrow> ('w word, 'k) appendPayload" where
  "ap_payload_word n shares w s =
     (let s1 = (if ap_firstPayload s \<and> shares
                then s\<lparr>tx_packetFifo := tx_packetFifo s @ [put_low n (ap_prevWord s) w], ap_firstPayload := False\<rparr>
                else s\<lparr>tx_packetFifo := tx_packetFifo s @ [w]\<rparr>)
      in if na_last w then s1\<lparr>ap_state := AP_INFO\<rparr> else s1)"

definition append_payload :: "('w::len word, 'k) appendPayload \<Rightarrow> ('w word, 'k) appendPayload" where
  "append_payload s =
     (case ap_state s of
        AP_INFO \<Rightarrow>
         (case ap_packetInfoFifo s of
            [] \<Rightarrow> s
          | i # q \<Rightarrow> s\<lparr>ap_packetInfoFifo := q, ap_firstPayload := True, ap_info := i,
                       ap_state := (if tpi_hasHeader i then AP_HEADER else RAW_PAYLOAD)\<rparr>)
      | AP_HEADER \<Rightarrow> ap_header_word s
      | AETH_PAYLOAD \<Rightarrow>
         (case tx_aethPayloadFifo s of
            [] \<Rightarrow> s | w # q \<Rightarrow> ap_payload_word 32 True w (s\<lparr>tx_aethPayloadFifo := q\<rparr>))
      | RETH_PAYLOAD \<Rightarrow>
         (case tx_rethPayloadFifo s of
            [] \<Rightarrow> s | w # q \<Rightarrow> ap_payload_word 128 (LENGTH('w) > 128) w (s\<lparr>tx_rethPayloadFifo := q\<rparr>))
      | RAW_PAYLOAD \<Rightarrow>
         (case tx_rawPayloadFifo s of
            [] \<Rightarrow> s
          | w # q \<Rightarrow> s\<lparr>tx_rawPayloadFifo := q, tx_packetFifo := tx_packetFifo s @ [w],
                       ap_state := (if na_last w then AP_INFO else RAW_PAYLOAD)\<rparr>))"

subsection \<open>Base header\<close>

datatype pihStateType = GET_HEADER | PIH_HEADER | PARTIAL_HEADER | BODY

record ('w, 'k) prependHeader =
  pih_headerFifo :: "bth stream"
  pih_payloadFifo :: "('w, 'k) net_axis stream"
  pih_m_axis_tx_data :: "('w, 'k) net_axis stream"
  regIbvCountTx :: u32
  pih_state :: pihStateType
  pih_header :: "bth packetHeader"
  validTx :: u32

definition pih_emit :: "('w, 'k) net_axis \<Rightarrow> ('w, 'k) prependHeader \<Rightarrow> ('w, 'k) prependHeader" where
  "pih_emit w s = s\<lparr>pih_m_axis_tx_data := pih_m_axis_tx_data s @ [w], validTx := validTx s + 1, regIbvCountTx := validTx s + 1\<rparr>"

text \<open>\<open>junk\<close>: what the word of a header held before. The header that is read has a cleared index.\<close>

definition prepend_ibh_header :: "'w::len word \<Rightarrow> ('w word, 'k::len word) prependHeader \<Rightarrow> ('w word, 'k word) prependHeader" where
  "prepend_ibh_header junk s =
     (case pih_state s of
        GET_HEADER \<Rightarrow>
         (case pih_headerFifo s of
            [] \<Rightarrow> s
          | h # q \<Rightarrow> s\<lparr>pih_headerFifo := q, pih_header := \<lparr>ph_ready = False, ph_idx = 0, ph_header = h\<rparr>,
                       pih_state := (if 96 \<ge> LENGTH('w) then PIH_HEADER else PARTIAL_HEADER)\<rparr>)
      | PIH_HEADER \<Rightarrow>
         (let (d, remaining, h) = consumeWord junk (pih_header s)
          in pih_emit \<lparr>na_data = d, na_keep = - 1, na_last = False\<rparr>
               (s\<lparr>pih_header := h, pih_state := (if unat remaining < LENGTH('w) div 8 then PARTIAL_HEADER else PIH_HEADER)\<rparr>))
      | PARTIAL_HEADER \<Rightarrow>
         (case pih_payloadFifo s of
            [] \<Rightarrow> s
          | w # q \<Rightarrow>
             (let (d, remaining, h) = consumeWord (na_data w) (pih_header s)
              in pih_emit (w\<lparr>na_data := d\<rparr>)
                   (s\<lparr>pih_payloadFifo := q, pih_header := h, pih_state := (if na_last w then GET_HEADER else BODY)\<rparr>)))
      | BODY \<Rightarrow>
         (case pih_payloadFifo s of
            [] \<Rightarrow> s
          | w # q \<Rightarrow> pih_emit w (s\<lparr>pih_payloadFifo := q, pih_state := (if na_last w then GET_HEADER else BODY)\<rparr>)))"

subsection \<open>Meta data\<close>

record ipUdpMeta =
  um_their_address :: u128
  um_their_port :: u16
  um_my_port :: u16
  um_length :: u16

record udpMetaHandler =
  uh_input :: "ipUdpMeta stream"
  uh_exHeaderInput :: "exHeader stream"
  uh_dropMetaIn :: "fwdPolicy stream"
  exh_lengthFifo :: "u16 stream"
  uh_exHeaderOutput :: "exHeader stream"

definition ipUdpMetaHandler :: "udpMetaHandler \<Rightarrow> udpMetaHandler" where
  "ipUdpMetaHandler s =
     (if uh_input s \<noteq> [] \<and> uh_exHeaderInput s \<noteq> [] \<and> uh_dropMetaIn s \<noteq> [] then
        let s1 = s\<lparr>uh_input := tl (uh_input s), uh_exHeaderInput := tl (uh_exHeaderInput s), uh_dropMetaIn := tl (uh_dropMetaIn s)\<rparr>
        in if \<not> isDrop (hd (uh_dropMetaIn s)) \<and> \<not> ackOnly (hd (uh_dropMetaIn s))
           then s1\<lparr>exh_lengthFifo := exh_lengthFifo s @ [um_length (hd (uh_input s))],
                   uh_exHeaderOutput := uh_exHeaderOutput s @ [hd (uh_exHeaderInput s)]\<rparr>
           else s1
      else s)"

definition RDMA_DEFAULT_PORT :: u16 where "RDMA_DEFAULT_PORT = 0x12B7"

record udpMetaMerger = connTable +
  um_lengthFifo :: "u16 stream"
  m_axis_tx_meta :: "ipUdpMeta stream"
  um_dstQpFifo :: "u24 stream"

definition tx_ipUdpMetaMerger :: "udpMetaMerger \<Rightarrow> udpMetaMerger" where
  "tx_ipUdpMetaMerger s =
     (if tx_connTable2ibh_rsp s \<noteq> [] \<and> um_lengthFifo s \<noteq> [] then
        let c = hd (tx_connTable2ibh_rsp s)
        in s\<lparr>tx_connTable2ibh_rsp := tl (tx_connTable2ibh_rsp s), um_lengthFifo := tl (um_lengthFifo s),
             m_axis_tx_meta := m_axis_tx_meta s @
               [\<lparr>um_their_address = ce_remote_ip_address c, um_their_port = RDMA_DEFAULT_PORT,
                 um_my_port = ce_remote_udp_port c, um_length = hd (um_lengthFifo s)\<rparr>],
             um_dstQpFifo := um_dstQpFifo s @ [ce_remote_qpn c]\<rparr>
      else s)"

subsection \<open>Queue pairs\<close>

record qpInterface = psnTable +
  qp_contextIn :: "qpContext stream"
  qp_if2msnTable_init :: "ifMsnReq stream"
  qp_upd_state :: bool \<comment> \<open>\<open>qp_fsmState == UPD_STATE\<close>\<close>
  qp_context :: qpContext

definition qp_interface :: "qpInterface \<Rightarrow> qpInterface" where
  "qp_interface s =
     (if \<not> qp_upd_state s then
        (case qp_contextIn s of
           [] \<Rightarrow> s
         | c # q \<Rightarrow> s\<lparr>qp_contextIn := q, qp_context := c,
                      qpi2stateTable_upd_req := qpi2stateTable_upd_req s @ [IfStateRead (ucast (qc_qp_num c))],
                      qp_upd_state := True\<rparr>)
      else
        (case stateTable2qpi_rsp s of
           [] \<Rightarrow> s
         | e # q \<Rightarrow>
            (let c = qp_context s
             in s\<lparr>stateTable2qpi_rsp := q,
                  qpi2stateTable_upd_req := qpi2stateTable_upd_req s @
                    [IfStateWrite (ucast (qc_qp_num c)) (qc_newState c) (qc_remote_psn c) (qc_local_psn c)],
                  qp_if2msnTable_init := qp_if2msnTable_init s @ [\<lparr>mr_qpn = ucast (qc_qp_num c), mr_r_key = ucast (qc_r_key c)\<rparr>],
                  qp_upd_state := False\<rparr>)))"

record eventMerger =
  tm_in0 :: "ibEvent stream"
  tm_in1 :: "ibEvent stream"
  tm_in2 :: "ibEvent stream"
  tm_out :: "ibEvent stream"

definition three_merger :: "eventMerger \<Rightarrow> eventMerger" where
  "three_merger s =
     (case tm_in0 s of
        e # q \<Rightarrow> s\<lparr>tm_in0 := q, tm_out := tm_out s @ [e]\<rparr>
      | [] \<Rightarrow>
       (case tm_in1 s of
          e # q \<Rightarrow> s\<lparr>tm_in1 := q, tm_out := tm_out s @ [e]\<rparr>
        | [] \<Rightarrow>
         (case tm_in2 s of
            e # q \<Rightarrow> s\<lparr>tm_in2 := q, tm_out := tm_out s @ [e]\<rparr>
          | [] \<Rightarrow> s)))"

end
