(* ===== verification/Roce_Tx_Wire.thy ===== *)
theory Roce_Tx_Wire
  imports Roce_Tx_Packets Axi_Packets
begin

text \<open>
  Packets of the transmit path of the RoCE transport: the modules that move the words of one packet after the
  other (\<open>tx_pkg_arbiter\<close>, \<open>append_payload\<close>, \<open>prepend_ibh_header\<close>) share the contract of
  \<open>Axi_Streams\<close>. Shown is what
  leaves towards the network.
\<close>

subsection \<open>Payload from the memory\<close>

text \<open>A packet of the arbiter: its kind and its words.\<close>

definition arb_ok :: "nat \<Rightarrow> pkgInfo \<times> ('w, 'k) net_axis list \<Rightarrow> bool" where
  "arb_ok pmtu_words p \<longleftrightarrow> marked (snd p) \<and> length (snd p) \<le> pmtu_words"

definition arb_emit :: "pkgInfo \<times> ('w, 'k) net_axis list \<Rightarrow> (arbStateType \<times> ('w, 'k) net_axis) list" where
  "arb_emit p = map (Pair (if pi_type (fst p) = AETH then ARB_AETH else if pi_type (fst p) = RETH then ARB_RETH else ARB_RAW)) (snd p)"

definition routed :: "arbStateType \<Rightarrow> (arbStateType \<times> ('w, 'k) net_axis) list \<Rightarrow> ('w, 'k) net_axis list" where
  "routed d out = map snd (filter (\<lambda>x. fst x = d) out)"

definition arb_io :: "(arbStateType \<times> ('w, 'k) net_axis) list \<Rightarrow> ('w, 'k) pkgArbiter \<Rightarrow> bool" where
  "arb_io out s \<longleftrightarrow> pa_remoteReadData s = routed ARB_AETH out \<and> pa_localReadData s = routed ARB_RETH out
     \<and> pa_rawPayFifo s = routed ARB_RAW out"

definition arb_holds :: "(pkgInfo \<times> ('w, 'k) net_axis list) list \<Rightarrow> (arbStateType \<times> ('w, 'k) net_axis) list \<Rightarrow>
    ('w, 'k) pkgArbiter \<Rightarrow> bool" where
  "arb_holds ps out s \<longleftrightarrow> pa_state s = ARB_IDLE \<and> pa_pkgInfoFifo s = map fst ps
     \<and> s_axis_mem_read_data s = concat (map snd ps) \<and> arb_io out s"

lemma routed_append [simp]: "routed d (xs @ ys) = routed d xs @ routed d ys"
  by (simp add: routed_def)

lemma routed_pairs [simp]: "routed d (map (Pair e) ws) = (if d = e then ws else [])"
  by (simp add: routed_def filter_map o_def)

lemma arb_step:
  assumes "pa_state s \<noteq> ARB_IDLE" "s_axis_mem_read_data s = w # q" "full \<longleftrightarrow> unat (pa_wordCounter s + 1) = pmtu_words"
  shows "pa_pkgInfoFifo (tx_pkg_arbiter pmtu_words s) = pa_pkgInfoFifo s"
    "s_axis_mem_read_data (tx_pkg_arbiter pmtu_words s) = q"
    "pa_wordCounter (tx_pkg_arbiter pmtu_words s) = pa_wordCounter s + 1"
    "pa_state (tx_pkg_arbiter pmtu_words s) = (if na_last w \<or> full then ARB_IDLE else pa_state s)"
    "arb_io out s \<Longrightarrow> arb_io (out @ [(pa_state s, w\<lparr>na_last := na_last w \<or> full\<rparr>)]) (tx_pkg_arbiter pmtu_words s)"
  using assms
  by (cases "pa_state s"; simp add: tx_pkg_arbiter_def arb_word_def Let_def arb_io_def routed_def)+

lemma na_last_same: "na_last w = b \<Longrightarrow> w\<lparr>na_last := b\<rparr> = w"
  by (cases w) simp

lemma arb_words:
  assumes "marked ws" "unat (pa_wordCounter s) + length ws \<le> pmtu_words" "pmtu_words < 256" "pa_state s \<noteq> ARB_IDLE"
    "s_axis_mem_read_data s = ws @ rest" "arb_io out s"
  shows "let s' = (tx_pkg_arbiter pmtu_words ^^ length ws) s
    in pa_state s' = ARB_IDLE \<and> pa_pkgInfoFifo s' = pa_pkgInfoFifo s \<and> s_axis_mem_read_data s' = rest
     \<and> arb_io (out @ map (Pair (pa_state s)) ws) s'"
  using assms
proof (induction ws arbitrary: s out)
  case (Cons w ws)
  let ?s = "tx_pkg_arbiter pmtu_words s"
  have c: "unat (pa_wordCounter s + 1) = unat (pa_wordCounter s) + 1"
    using Cons.prems(2,3) by (intro unat_Suc_below [of _ 255]) simp
  have full: "unat (pa_wordCounter s + 1) = pmtu_words \<Longrightarrow> ws = []" using c Cons.prems(2) by (cases ws) auto
  have l: "na_last w \<longleftrightarrow> ws = []" using Cons.prems(1) by (auto split: if_splits)
  have l': "(na_last w \<or> unat (pa_wordCounter s + 1) = pmtu_words) \<longleftrightarrow> ws = []" using l full by blast
  note step = arb_step [OF Cons.prems(4), of w "ws @ rest" _ pmtu_words, OF _ refl, unfolded l', simplified Cons.prems(5), simplified]
  have s: "pa_pkgInfoFifo ?s = pa_pkgInfoFifo s" "s_axis_mem_read_data ?s = ws @ rest"
    "arb_io (out @ [(pa_state s, w)]) ?s" "pa_wordCounter ?s = pa_wordCounter s + 1"
    "pa_state ?s = (if ws = [] then ARB_IDLE else pa_state s)"
    using step(1-4) step(5) [OF Cons.prems(6)] by (simp_all add: na_last_same [of w "ws = []"] l)
  show ?case
  proof (cases "ws = []")
    case True
    then show ?thesis using s by simp
  next
    case False
    have "let s' = (tx_pkg_arbiter pmtu_words ^^ length ws) ?s
      in pa_state s' = ARB_IDLE \<and> pa_pkgInfoFifo s' = pa_pkgInfoFifo ?s \<and> s_axis_mem_read_data s' = rest
       \<and> arb_io ((out @ [(pa_state s, w)]) @ map (Pair (pa_state ?s)) ws) s'"
      using Cons.prems s c False by (intro Cons.IH) auto
    then show ?thesis using s False by (simp add: funpow_swap1 Let_def)
  qed
qed simp

lemma arb_one_packet:
  assumes "arb_holds (p # ps) out s" "arb_ok pmtu_words p" "pmtu_words < 256"
  shows "arb_holds ps (out @ arb_emit p) ((tx_pkg_arbiter pmtu_words ^^ Suc (length (snd p))) s)"
proof -
  let ?s = "tx_pkg_arbiter pmtu_words s"
  have s: "s_axis_mem_read_data ?s = snd p @ concat (map snd ps)" "pa_pkgInfoFifo ?s = map fst ps" "pa_wordCounter ?s = 0"
    "arb_io out ?s" "map (Pair (pa_state ?s)) (snd p) = arb_emit p" "pa_state ?s \<noteq> ARB_IDLE"
    using assms(1) by (simp_all add: arb_holds_def tx_pkg_arbiter_def arb_io_def arb_emit_def)
  have "let s' = (tx_pkg_arbiter pmtu_words ^^ length (snd p)) ?s
    in pa_state s' = ARB_IDLE \<and> pa_pkgInfoFifo s' = pa_pkgInfoFifo ?s \<and> s_axis_mem_read_data s' = concat (map snd ps)
     \<and> arb_io (out @ map (Pair (pa_state ?s)) (snd p)) s'"
    using s assms(2,3) by (intro arb_words) (auto simp: arb_ok_def)
  then show ?thesis using s by (simp add: arb_holds_def funpow_swap1 Let_def)
qed

interpretation arb: packet_machine "tx_pkg_arbiter pmtu_words" arb_holds "\<lambda>p. arb_ok pmtu_words p \<and> pmtu_words < 256"
  arb_emit "\<lambda>p. Suc (length (snd p))"
  by unfold_locales (use arb_one_packet in blast)


text \<open>The words that the memory delivers reach the stream of their packet: with fewer than 256 words
  per packet, the arbiter takes one call per word and one per packet, and hands on the words of every
  packet, in order, to the stream that the kind of the packet names.\<close>

theorem payload_distributed:
  assumes "arb_holds ps [] s" "list_all (arb_ok pmtu_words) ps" "pmtu_words < 256"
  shows "\<exists>n \<le> sum_list (map (\<lambda>p. Suc (length (snd p))) ps).
    let s' = (tx_pkg_arbiter pmtu_words ^^ n) s; out = concat (map arb_emit ps)
    in pa_remoteReadData s' = routed ARB_AETH out \<and> pa_localReadData s' = routed ARB_RETH out
     \<and> pa_rawPayFifo s' = routed ARB_RAW out \<and> s_axis_mem_read_data s' = []"
  using arb.all_packets [of ps "[]" s pmtu_words] assms by (auto simp: arb_holds_def arb_io_def Let_def)

subsection \<open>Payload behind the extended header\<close>

record ('w, 'k) txPacket =
  pk_info :: txPacketInfo
  pk_hdr :: "('w, 'k) net_axis list"
  pk_pay :: "('w, 'k) net_axis list"

definition ap_ok :: "('w, 'k) txPacket \<Rightarrow> bool" where
  "ap_ok p \<longleftrightarrow> (if tpi_hasHeader (pk_info p) then marked (pk_hdr p) else pk_hdr p = [] \<and> tpi_hasPayload (pk_info p))
     \<and> (if tpi_hasPayload (pk_info p) then marked (pk_pay p) else pk_pay p = [])"

definition ap_kind :: "('w, 'k) txPacket \<Rightarrow> apStateType" where
  "ap_kind p = (if \<not> tpi_hasHeader (pk_info p) then RAW_PAYLOAD else if tpi_isAETH (pk_info p) then AETH_PAYLOAD else RETH_PAYLOAD)"

text \<open>The packet: the header shares its last word with the first of the payload, if there is room.\<close>

definition ap_join :: "apStateType \<Rightarrow> ('w::len word, 'k) net_axis \<Rightarrow> ('w word, 'k) net_axis list \<Rightarrow> ('w word, 'k) net_axis list" where
  "ap_join k h ws =
     (if k = RETH_PAYLOAD \<and> LENGTH('w) \<le> 128 then h # ws
      else put_low (if k = AETH_PAYLOAD then 32 else 128) h (hd ws) # tl ws)"

definition ap_emit :: "('w::len word, 'k) txPacket \<Rightarrow> ('w word, 'k) net_axis list" where
  "ap_emit p =
     (if \<not> tpi_hasHeader (pk_info p) then pk_pay p
      else if \<not> tpi_hasPayload (pk_info p) then pk_hdr p
      else butlast (pk_hdr p) @ ap_join (ap_kind p) ((last (pk_hdr p))\<lparr>na_last := False\<rparr>) (pk_pay p))"

definition ap_stream :: "apStateType \<Rightarrow> ('w, 'k) txPacket list \<Rightarrow> ('w, 'k) net_axis list" where
  "ap_stream k ps = concat (map pk_pay (filter (\<lambda>p. ap_kind p = k) ps))"

definition ap_in :: "('w, 'k) txPacket list \<Rightarrow> ('w, 'k) appendPayload \<Rightarrow> bool" where
  "ap_in ps s \<longleftrightarrow> tx_headerFifo s = concat (map pk_hdr ps) \<and> tx_aethPayloadFifo s = ap_stream AETH_PAYLOAD ps
     \<and> tx_rethPayloadFifo s = ap_stream RETH_PAYLOAD ps \<and> tx_rawPayloadFifo s = ap_stream RAW_PAYLOAD ps"

definition ap_holds :: "('w, 'k) txPacket list \<Rightarrow> ('w, 'k) net_axis list \<Rightarrow> ('w, 'k) appendPayload \<Rightarrow> bool" where
  "ap_holds ps out s \<longleftrightarrow> ap_state s = AP_INFO \<and> ap_packetInfoFifo s = map pk_info ps \<and> ap_in ps s \<and> tx_packetFifo s = out"

lemma ap_raw_words:
  "marked ws \<Longrightarrow> ap_state s = RAW_PAYLOAD \<Longrightarrow> tx_rawPayloadFifo s = ws @ rest \<Longrightarrow>
     (append_payload ^^ length ws) s = s\<lparr>tx_rawPayloadFifo := rest, tx_packetFifo := tx_packetFifo s @ ws, ap_state := AP_INFO\<rparr>"
  by (induction ws arbitrary: s) (auto simp: append_payload_def funpow_swap1 split: if_splits)

lemma ap_header_only:
  "marked ws \<Longrightarrow> ap_state s = AP_HEADER \<Longrightarrow> tx_headerFifo s = ws @ rest \<Longrightarrow> \<not> tpi_hasPayload (ap_info s) \<Longrightarrow>
     (append_payload ^^ length ws) s =
       s\<lparr>tx_headerFifo := rest, ap_prevWord := last ws, tx_packetFifo := tx_packetFifo s @ ws, ap_state := AP_INFO\<rparr>"
  by (induction ws arbitrary: s) (auto simp: append_payload_def ap_header_word_def funpow_swap1 Let_def split: if_splits)

lemma ap_header_words:
  fixes s :: "('w::len word, 'k) appendPayload"
  shows "marked ws \<Longrightarrow> ap_state s = AP_HEADER \<Longrightarrow> tx_headerFifo s = ws @ rest \<Longrightarrow> tpi_hasPayload (ap_info s) \<Longrightarrow>
     (append_payload ^^ length ws) s =
       s\<lparr>tx_headerFifo := rest, ap_prevWord := (last ws)\<lparr>na_last := False\<rparr>,
         tx_packetFifo := tx_packetFifo s @ butlast ws @
           (if \<not> tpi_isAETH (ap_info s) \<and> LENGTH('w) \<le> 128 then [(last ws)\<lparr>na_last := False\<rparr>] else []),
         ap_state := (if tpi_isAETH (ap_info s) then AETH_PAYLOAD else RETH_PAYLOAD)\<rparr>"
  by (induction ws arbitrary: s) (auto simp: append_payload_def ap_header_word_def funpow_swap1 Let_def split: if_splits)


lemma ap_aeth_rest:
  "marked ws \<Longrightarrow> ap_state s = AETH_PAYLOAD \<Longrightarrow> tx_aethPayloadFifo s = ws @ rest \<Longrightarrow> \<not> ap_firstPayload s \<Longrightarrow>
     (append_payload ^^ length ws) s = s\<lparr>tx_aethPayloadFifo := rest, tx_packetFifo := tx_packetFifo s @ ws, ap_state := AP_INFO\<rparr>"
  by (induction ws arbitrary: s) (auto simp: append_payload_def ap_payload_word_def funpow_swap1 Let_def split: if_splits)

lemma ap_reth_rest:
  fixes s :: "('w::len word, 'k) appendPayload"
  shows "marked ws \<Longrightarrow> ap_state s = RETH_PAYLOAD \<Longrightarrow> tx_rethPayloadFifo s = ws @ rest \<Longrightarrow>
     \<not> ap_firstPayload s \<or> LENGTH('w) \<le> 128 \<Longrightarrow>
     (append_payload ^^ length ws) s = s\<lparr>tx_rethPayloadFifo := rest, tx_packetFifo := tx_packetFifo s @ ws, ap_state := AP_INFO\<rparr>"
  by (induction ws arbitrary: s) (auto simp: append_payload_def ap_payload_word_def funpow_swap1 Let_def split: if_splits)

lemma ap_aeth_words:
  assumes "marked ws" "ap_state s = AETH_PAYLOAD" "tx_aethPayloadFifo s = ws @ rest" "ap_firstPayload s"
  shows "(append_payload ^^ length ws) s = s\<lparr>tx_aethPayloadFifo := rest, ap_firstPayload := False, ap_state := AP_INFO,
    tx_packetFifo := tx_packetFifo s @ put_low 32 (ap_prevWord s) (hd ws) # tl ws\<rparr>"
proof (cases ws)
  case (Cons w us)
  let ?s = "append_payload s"
  have s: "?s = s\<lparr>tx_aethPayloadFifo := us @ rest, ap_firstPayload := False,
      tx_packetFifo := tx_packetFifo s @ [put_low 32 (ap_prevWord s) w], ap_state := (if us = [] then AP_INFO else AETH_PAYLOAD)\<rparr>"
    using assms Cons by (auto simp: append_payload_def ap_payload_word_def Let_def split: if_splits)
  show ?thesis
  proof (cases "us = []")
    case False
    then have "(append_payload ^^ length us) ?s = ?s\<lparr>tx_aethPayloadFifo := rest, tx_packetFifo := tx_packetFifo ?s @ us, ap_state := AP_INFO\<rparr>"
      using assms(1) Cons s by (intro ap_aeth_rest) auto
    then show ?thesis using s Cons by (simp add: funpow_swap1)
  qed (use s Cons in simp)
qed (use assms(1) in simp)

lemma ap_reth_words:
  fixes s :: "('w::len word, 'k) appendPayload"
  assumes "marked ws" "ap_state s = RETH_PAYLOAD" "tx_rethPayloadFifo s = ws @ rest" "ap_firstPayload s" "LENGTH('w) > 128"
  shows "(append_payload ^^ length ws) s = s\<lparr>tx_rethPayloadFifo := rest, ap_firstPayload := False, ap_state := AP_INFO,
    tx_packetFifo := tx_packetFifo s @ put_low 128 (ap_prevWord s) (hd ws) # tl ws\<rparr>"
proof (cases ws)
  case (Cons w us)
  let ?s = "append_payload s"
  have s: "?s = s\<lparr>tx_rethPayloadFifo := us @ rest, ap_firstPayload := False,
      tx_packetFifo := tx_packetFifo s @ [put_low 128 (ap_prevWord s) w], ap_state := (if us = [] then AP_INFO else RETH_PAYLOAD)\<rparr>"
    using assms Cons by (auto simp: append_payload_def ap_payload_word_def Let_def split: if_splits)
  show ?thesis
  proof (cases "us = []")
    case False
    then have "(append_payload ^^ length us) ?s = ?s\<lparr>tx_rethPayloadFifo := rest, tx_packetFifo := tx_packetFifo ?s @ us, ap_state := AP_INFO\<rparr>"
      using assms(1) Cons s by (intro ap_reth_rest) auto
    then show ?thesis using s Cons by (simp add: funpow_swap1)
  qed (use s Cons in simp)
qed (use assms(1) in simp)

text \<open>One packet, by the phases.\<close>

lemma ap_first:
  assumes "ap_holds (p # ps) out s"
  shows "append_payload s = s\<lparr>ap_packetInfoFifo := map pk_info ps, ap_firstPayload := True, ap_info := pk_info p,
    ap_state := (if tpi_hasHeader (pk_info p) then AP_HEADER else RAW_PAYLOAD)\<rparr>"
  using assms by (simp add: ap_holds_def append_payload_def)

lemma ap_one_packet:
  fixes p :: "('w::len word, 'k) txPacket"
  assumes "ap_holds (p # ps) out s" "ap_ok p"
  shows "ap_holds ps (out @ ap_emit p) ((append_payload ^^ Suc (length (pk_hdr p) + length (pk_pay p))) s)"
proof -
  let ?i = "pk_info p" and ?s = "append_payload s"
  have s0: "tx_headerFifo s = pk_hdr p @ concat (map pk_hdr ps)" "tx_aethPayloadFifo s = ap_stream AETH_PAYLOAD (p # ps)"
    "tx_rethPayloadFifo s = ap_stream RETH_PAYLOAD (p # ps)" "tx_rawPayloadFifo s = ap_stream RAW_PAYLOAD (p # ps)"
    "tx_packetFifo s = out"
    using assms(1) by (auto simp: ap_holds_def ap_in_def)
  note s = ap_first [OF assms(1)]
  have n: "(append_payload ^^ Suc (length (pk_hdr p) + length (pk_pay p))) s
      = (append_payload ^^ length (pk_pay p)) ((append_payload ^^ length (pk_hdr p)) ?s)"
    by (simp only: funpow_Suc_right o_apply add.commute [of "length (pk_hdr p)"] funpow_add)
  consider (raw) "\<not> tpi_hasHeader ?i" | (header) "tpi_hasHeader ?i" "\<not> tpi_hasPayload ?i"
    | (aeth) "tpi_hasHeader ?i" "tpi_hasPayload ?i" "tpi_isAETH ?i"
    | (reth) "tpi_hasHeader ?i" "tpi_hasPayload ?i" "\<not> tpi_isAETH ?i"
    by blast
  then show ?thesis
  proof cases
    case raw
    then have "(append_payload ^^ length (pk_pay p)) ?s =
        ?s\<lparr>tx_rawPayloadFifo := ap_stream RAW_PAYLOAD ps, tx_packetFifo := tx_packetFifo ?s @ pk_pay p, ap_state := AP_INFO\<rparr>"
      using assms(2) s0 s by (intro ap_raw_words) (auto simp: ap_ok_def ap_stream_def ap_kind_def)
    then show ?thesis unfolding n using raw s s0 assms(2)
      by (simp add: ap_holds_def ap_in_def ap_emit_def ap_stream_def ap_kind_def ap_ok_def)
  next
    case header
    then have "(append_payload ^^ length (pk_hdr p)) ?s =
        ?s\<lparr>tx_headerFifo := concat (map pk_hdr ps), ap_prevWord := last (pk_hdr p), tx_packetFifo := tx_packetFifo ?s @ pk_hdr p,
           ap_state := AP_INFO\<rparr>"
      using assms(2) s0 s by (intro ap_header_only) (auto simp: ap_ok_def)
    then show ?thesis unfolding n using header s s0 assms(2)
      by (simp add: ap_holds_def ap_in_def ap_emit_def ap_stream_def ap_ok_def)
  next
    case aeth
    let ?h = "(last (pk_hdr p))\<lparr>na_last := False\<rparr>" and ?t = "(append_payload ^^ length (pk_hdr p)) ?s"
    have t: "?t = ?s\<lparr>tx_headerFifo := concat (map pk_hdr ps), ap_prevWord := ?h,
        tx_packetFifo := tx_packetFifo ?s @ butlast (pk_hdr p), ap_state := AETH_PAYLOAD\<rparr>"
      using ap_header_words [of "pk_hdr p" ?s "concat (map pk_hdr ps)"] aeth assms(2) s0 s by (simp add: ap_ok_def)
    have "(append_payload ^^ length (pk_pay p)) ?t =
        ?t\<lparr>tx_aethPayloadFifo := ap_stream AETH_PAYLOAD ps, ap_firstPayload := False, ap_state := AP_INFO,
           tx_packetFifo := tx_packetFifo ?t @ put_low 32 (ap_prevWord ?t) (hd (pk_pay p)) # tl (pk_pay p)\<rparr>"
      using assms(2) s0 s t aeth by (intro ap_aeth_words) (auto simp: ap_ok_def ap_stream_def ap_kind_def)
    then show ?thesis unfolding n using aeth s s0 t
      by (simp add: ap_holds_def ap_in_def ap_emit_def ap_join_def ap_stream_def ap_kind_def)
  next
    case reth
    let ?h = "(last (pk_hdr p))\<lparr>na_last := False\<rparr>" and ?t = "(append_payload ^^ length (pk_hdr p)) ?s"
    have t: "?t = ?s\<lparr>tx_headerFifo := concat (map pk_hdr ps), ap_prevWord := ?h,
        tx_packetFifo := tx_packetFifo ?s @ butlast (pk_hdr p) @ (if LENGTH('w) \<le> 128 then [?h] else []), ap_state := RETH_PAYLOAD\<rparr>"
      using ap_header_words [of "pk_hdr p" ?s "concat (map pk_hdr ps)"] reth assms(2) s0 s by (simp add: ap_ok_def)
    show ?thesis
    proof (cases "LENGTH('w) \<le> 128")
      case True
      have "(append_payload ^^ length (pk_pay p)) ?t =
          ?t\<lparr>tx_rethPayloadFifo := ap_stream RETH_PAYLOAD ps, tx_packetFifo := tx_packetFifo ?t @ pk_pay p, ap_state := AP_INFO\<rparr>"
        using assms(2) s0 s t reth True by (intro ap_reth_rest) (auto simp: ap_ok_def ap_stream_def ap_kind_def)
      then show ?thesis unfolding n using reth s s0 t True
        by (simp add: ap_holds_def ap_in_def ap_emit_def ap_join_def ap_stream_def ap_kind_def)
    next
      case False
      have "(append_payload ^^ length (pk_pay p)) ?t =
          ?t\<lparr>tx_rethPayloadFifo := ap_stream RETH_PAYLOAD ps, ap_firstPayload := False, ap_state := AP_INFO,
             tx_packetFifo := tx_packetFifo ?t @ put_low 128 (ap_prevWord ?t) (hd (pk_pay p)) # tl (pk_pay p)\<rparr>"
        using assms(2) s0 s t reth False by (intro ap_reth_words) (auto simp: ap_ok_def ap_stream_def ap_kind_def)
      then show ?thesis unfolding n using reth s s0 t False
        by (simp add: ap_holds_def ap_in_def ap_emit_def ap_join_def ap_stream_def ap_kind_def)
    qed
  qed
qed

interpretation app: packet_machine append_payload ap_holds ap_ok ap_emit "\<lambda>p. Suc (length (pk_hdr p) + length (pk_pay p))"
  by unfold_locales (use ap_one_packet in blast)


lemma marked_append: "us \<noteq> [] \<Longrightarrow> marked (ws @ us) \<longleftrightarrow> list_all (\<lambda>w. \<not> na_last w) ws \<and> marked us"
  by (auto simp: marked_def butlast_append)

lemma marked_ap_join: "marked ws \<Longrightarrow> \<not> na_last h \<Longrightarrow> marked (ap_join k h ws)"
  by (cases ws) (auto simp: ap_join_def put_low_def split: if_splits)

lemma marked_ap_emit: "ap_ok p \<Longrightarrow> marked (ap_emit p)"
  by (auto simp: ap_ok_def ap_emit_def marked_append marked_ap_join marked_def [of "pk_hdr p"] ap_join_def split: if_splits)
     (auto simp: ap_join_def dest: marked_ap_join [of "pk_pay p" "(last (pk_hdr p))\<lparr>na_last := False\<rparr>" "ap_kind p"])

subsection \<open>The base header in front\<close>

text \<open>The words that hold the base header: a word of its own, if it does not fit into one.\<close>

definition pih_words :: "'w::len word \<Rightarrow> bth \<Rightarrow> 'w word \<Rightarrow> 'w word list" where
  "pih_words junk h d = consume_words ((if LENGTH('w) \<le> 96 then [junk] else []) @ [d]) \<lparr>ph_ready = False, ph_idx = 0, ph_header = h\<rparr>"

definition pih_packet :: "'w::len word \<Rightarrow> bth \<times> ('w word, 'k::len word) net_axis list \<Rightarrow> ('w word, 'k word) net_axis list" where
  "pih_packet junk p =
     (let ds = pih_words junk (fst p) (na_data (hd (snd p)))
      in map (\<lambda>d. \<lparr>na_data = d, na_keep = - 1, na_last = False\<rparr>) (butlast ds) @ (hd (snd p))\<lparr>na_data := last ds\<rparr> # tl (snd p))"

definition pih_holds :: "(bth \<times> ('w, 'k) net_axis list) list \<Rightarrow> ('w, 'k) net_axis list \<Rightarrow> ('w, 'k) prependHeader \<Rightarrow> bool" where
  "pih_holds ps out s \<longleftrightarrow> pih_state s = GET_HEADER \<and> pih_headerFifo s = map fst ps \<and> pih_payloadFifo s = concat (map snd ps)
     \<and> pih_m_axis_tx_data s = out"

lemma pih_body:
  "marked ws \<Longrightarrow> pih_state s = BODY \<Longrightarrow> pih_payloadFifo s = ws @ rest \<Longrightarrow>
     \<exists>c. (prepend_ibh_header junk ^^ length ws) s =
       s\<lparr>pih_payloadFifo := rest, pih_m_axis_tx_data := pih_m_axis_tx_data s @ ws, pih_state := GET_HEADER,
         validTx := c, regIbvCountTx := c\<rparr>"
proof (induction ws arbitrary: s)
  case (Cons w ws)
  let ?s = "prepend_ibh_header junk s"
  have s: "?s = s\<lparr>pih_payloadFifo := ws @ rest, pih_m_axis_tx_data := pih_m_axis_tx_data s @ [w],
      pih_state := (if ws = [] then GET_HEADER else BODY), validTx := validTx s + 1, regIbvCountTx := validTx s + 1\<rparr>"
    using Cons.prems by (auto simp: prepend_ibh_header_def pih_emit_def split: if_splits)
  show ?case
  proof (cases "ws = []")
    case False
    then obtain c where "(prepend_ibh_header junk ^^ length ws) ?s =
        ?s\<lparr>pih_payloadFifo := rest, pih_m_axis_tx_data := pih_m_axis_tx_data ?s @ ws, pih_state := GET_HEADER,
          validTx := c, regIbvCountTx := c\<rparr>"
      using Cons.IH [of ?s] Cons.prems s by auto
    then show ?thesis using s by (intro exI [of _ c]) (simp add: funpow_swap1)
  qed (use s in auto)
qed simp

lemma pih_partial:
  assumes "marked ws" "pih_state s = PARTIAL_HEADER" "pih_payloadFifo s = ws @ rest"
  shows "\<exists>s'. (prepend_ibh_header junk ^^ length ws) s = s' \<and> pih_state s' = GET_HEADER \<and> pih_payloadFifo s' = rest
    \<and> pih_headerFifo s' = pih_headerFifo s
    \<and> pih_m_axis_tx_data s' = pih_m_axis_tx_data s @ (hd ws)\<lparr>na_data := fst (consumeWord (na_data (hd ws)) (pih_header s))\<rparr> # tl ws"
proof (cases ws)
  case (Cons w us)
  obtain d r h where c: "consumeWord (na_data w) (pih_header s) = (d, r, h)" by (metis prod_cases3)
  let ?s = "prepend_ibh_header junk s"
  have s: "?s = s\<lparr>pih_payloadFifo := us @ rest, pih_header := h, pih_state := (if us = [] then GET_HEADER else BODY),
      pih_m_axis_tx_data := pih_m_axis_tx_data s @ [w\<lparr>na_data := d\<rparr>], validTx := validTx s + 1, regIbvCountTx := validTx s + 1\<rparr>"
    using assms Cons c by (auto simp: prepend_ibh_header_def pih_emit_def split: if_splits)
  show ?thesis
  proof (cases "us = []")
    case False
    then obtain k where "(prepend_ibh_header junk ^^ length us) ?s =
        ?s\<lparr>pih_payloadFifo := rest, pih_m_axis_tx_data := pih_m_axis_tx_data ?s @ us, pih_state := GET_HEADER,
          validTx := k, regIbvCountTx := k\<rparr>"
      using pih_body [of us ?s rest junk] assms(1) Cons s by auto
    then show ?thesis using s c Cons by (simp add: funpow_swap1)
  qed (use s c Cons in simp)
qed (use assms(1) in simp)

lemma pih_one_packet:
  fixes s :: "('w::len word, 'k::len word) prependHeader"
  assumes "pih_holds (p # ps) out s" "marked (snd p)" "64 \<le> LENGTH('w)"
  shows "\<exists>n \<le> 2 + length (snd p). pih_holds ps (out @ pih_packet junk p) ((prepend_ibh_header junk ^^ n) s)"
proof -
  let ?f = "prepend_ibh_header junk" and ?s = "prepend_ibh_header junk s"
  let ?h = "\<lparr>ph_ready = False, ph_idx = 0, ph_header = fst p\<rparr>"
  have s: "?s = s\<lparr>pih_headerFifo := map fst ps, pih_header := ?h, pih_state := (if LENGTH('w) \<le> 96 then PIH_HEADER else PARTIAL_HEADER)\<rparr>"
    and pay: "pih_payloadFifo s = snd p @ concat (map snd ps)" and out: "pih_m_axis_tx_data s = out"
    using assms(1) by (auto simp: pih_holds_def prepend_ibh_header_def)
  show ?thesis
  proof (cases "LENGTH('w) \<le> 96")
    case False
    then obtain s' where "(?f ^^ length (snd p)) ?s = s'" "pih_state s' = GET_HEADER" "pih_payloadFifo s' = concat (map snd ps)"
        "pih_headerFifo s' = map fst ps"
        "pih_m_axis_tx_data s' = out @ (hd (snd p))\<lparr>na_data := fst (consumeWord (na_data (hd (snd p))) ?h)\<rparr> # tl (snd p)"
      using pih_partial [of "snd p" ?s "concat (map snd ps)" junk] assms(2) s pay out by auto
    then show ?thesis using False
      by (intro exI [of _ "Suc (length (snd p))"])
         (simp add: pih_holds_def pih_packet_def pih_words_def funpow_swap1 split: prod.split)
  next
    case True
    obtain d r h where c: "consumeWord junk ?h = (d, r, h)" by (metis prod_cases3)
    have r: "unat r < LENGTH('w) div 8"
    proof -
      have "r = of_nat ((96 - LENGTH('w)) div 8)" using c True by (simp add: consumeWord_def Let_def)
      then have "unat r \<le> (96 - LENGTH('w)) div 8" by (simp add: unat_of_nat)
      moreover have "(96 - LENGTH('w)) div 8 < LENGTH('w) div 8" using assms(3) by linarith
      ultimately show ?thesis by linarith
    qed
    let ?t = "?f ?s"
    have t: "pih_state ?t = PARTIAL_HEADER" "pih_header ?t = h" "pih_headerFifo ?t = map fst ps"
      "pih_payloadFifo ?t = snd p @ concat (map snd ps)"
      "pih_m_axis_tx_data ?t = out @ [\<lparr>na_data = d, na_keep = - 1, na_last = False\<rparr>]"
      using True c r pay out by (simp_all add: s prepend_ibh_header_def [of junk "s\<lparr>pih_headerFifo := _, pih_header := _, pih_state := _\<rparr>"] pih_emit_def)
    obtain s' where "(?f ^^ length (snd p)) ?t = s'" "pih_state s' = GET_HEADER" "pih_payloadFifo s' = concat (map snd ps)"
        "pih_headerFifo s' = map fst ps"
        "pih_m_axis_tx_data s' = (out @ [\<lparr>na_data = d, na_keep = - 1, na_last = False\<rparr>]) @
           (hd (snd p))\<lparr>na_data := fst (consumeWord (na_data (hd (snd p))) h)\<rparr> # tl (snd p)"
      using pih_partial [OF assms(2) t(1,4), of junk] t by auto
    then show ?thesis using True c
      by (intro exI [of _ "Suc (Suc (length (snd p)))"])
         (simp add: pih_holds_def pih_packet_def pih_words_def funpow_swap1 split: prod.split)
  qed
qed

interpretation pih: packet_machine "prepend_ibh_header (junk :: 'w::len word)"
  "pih_holds :: _ \<Rightarrow> _ \<Rightarrow> ('w word, 'k::len word) prependHeader \<Rightarrow> bool" "\<lambda>p. marked (snd p) \<and> 64 \<le> LENGTH('w)"
  "pih_packet junk" "\<lambda>p. 2 + length (snd p)"
  by unfold_locales (use pih_one_packet in blast)


text \<open>Whatever follows the words of a header, the receiver collects the same one.\<close>

lemma parse_prefix:
  fixes ds :: "'w::len word list" and q :: "('h::len word) packetHeader"
  assumes "LENGTH('h) \<le> length ds * LENGTH('w)"
  shows "ph_header (fold parseWord (ds @ rest) (clear_header q)) = ph_header (fold parseWord ds (clear_header q))"
proof (rule bit_word_eqI)
  fix n
  assume n: "n < LENGTH('h)"
  have "n div LENGTH('w) < length ds" using n assms by (metis less_mult_imp_div_less order_less_le_trans)
  moreover have "n < (length ds + length rest) * LENGTH('w)" using n assms by (simp add: algebra_simps)
  ultimately show "bit (ph_header (fold parseWord (ds @ rest) (clear_header q))) n
      = bit (ph_header (fold parseWord ds (clear_header q))) n"
    using n assms bit_parse_words [of "clear_header q" "ds @ rest" n] bit_parse_words [of "clear_header q" ds n]
    by (simp add: clear_header_def nth_append)
qed

lemma pih_packet_parses:
  fixes ws :: "('w::len word, 'k::len word) net_axis list" and q :: "bth packetHeader"
  assumes "64 \<le> LENGTH('w)"
  shows "ph_header (fold parseWord (map na_data (pih_packet junk (h, ws))) (clear_header q)) = h"
proof -
  let ?junks = "(if LENGTH('w) \<le> 96 then [junk] else []) @ [na_data (hd ws)]"
  let ?p = "\<lparr>ph_ready = False, ph_idx = 0, ph_header = h\<rparr>"
  have ne: "pih_words junk h (na_data (hd ws)) \<noteq> []"
    by (metis length_consume_words pih_words_def append_is_Nil_conv length_0_conv not_Cons_self2)
  have d: "map na_data (pih_packet junk (h, ws)) = consume_words ?junks (clear_header ?p) @ map na_data (tl ws)"
    using append_butlast_last_id [OF ne]
    by (simp add: pih_packet_def Let_def o_def pih_words_def clear_header_def flip: append_assoc)
  have "96 \<le> length ?junks * LENGTH('w)" using assms by auto
  then show ?thesis
    using header_roundtrip_raw [of ?junks ?p q] unfolding d by (subst parse_prefix) simp_all
qed

lemma marked_pih_packet: "marked ws \<Longrightarrow> marked (pih_packet junk (h, ws))"
  by (cases ws) (auto simp: pih_packet_def Let_def marked_append list_all_iff)

text \<open>The bytes by which the payload moves up, so that the base header of 12 bytes ends in front of it.\<close>

definition bth_offset :: "'w::len itself \<Rightarrow> nat" where
  "bth_offset _ = (96 mod LENGTH('w)) div 8"

lemma bth_offset_bits:
  assumes "64 \<le> LENGTH('w)" "LENGTH('w) = 8 * k"
  shows "8 * bth_offset TYPE('w::len) = 96 mod LENGTH('w)" "bth_offset TYPE('w) < k"
proof -
  have "8 dvd 96 mod LENGTH('w)" using assms(2) by (simp add: dvd_mod)
  then show *: "8 * bth_offset TYPE('w) = 96 mod LENGTH('w)" by (simp add: bth_offset_def)
  have "96 mod LENGTH('w) < LENGTH('w)" by simp
  then show "bth_offset TYPE('w) < k" using * assms(2) by linarith
qed

lemma length_pih_words: "64 \<le> LENGTH('w::len) \<Longrightarrow> length (pih_words (junk :: 'w word) h d) = Suc (96 div LENGTH('w))"
proof -
  assume W: "64 \<le> LENGTH('w)"
  have "96 div LENGTH('w) = (if LENGTH('w) \<le> 96 then 1 else 0)" using W by (auto simp: div_nat_eqI)
  then show ?thesis by (simp add: pih_words_def)
qed

lemma pih_words_keep:
  fixes junk :: "'w::len word"
  assumes "64 \<le> LENGTH('w)" "96 mod LENGTH('w) \<le> j" "j < LENGTH('w)"
  shows "bit (last (pih_words junk h d)) j = bit d j"
proof -
  consider "LENGTH('w) = 96" | "LENGTH('w) < 96" | "96 < LENGTH('w)" by linarith
  then show ?thesis using assms
    by cases (simp_all add: pih_words_def consumeWord_def bit_ranges le_mod_geq Let_def)
qed

text \<open>Behind its base header the packet carries the words that were shifted.\<close>

lemma pih_packet_body:
  fixes ws :: "('w::len word, 'k::len word) net_axis list"
  assumes "tidy ws" "64 \<le> LENGTH('w)" "LENGTH('w) = 8 * LENGTH('k)"
  shows "rsh_packet (bth_offset TYPE('w)) (drop (96 div LENGTH('w))
           (pih_packet junk (h, lsh_packet (bth_offset TYPE('w)) ws))) = ws"
proof -
  let ?o = "bth_offset TYPE('w)"
  obtain w vs where ws: "ws = w # vs" using assms(1) by (cases ws) (auto simp: tidy_def)
  note o = bth_offset_bits [OF assms(2,3)]
  define D where "D = last (pih_words junk h (na_data (hd (lsh_packet ?o ws))))"
  have d: "drop (96 div LENGTH('w)) (pih_packet junk (h, lsh_packet ?o ws))
      = (hd (lsh_packet ?o ws))\<lparr>na_data := D\<rparr> # tl (lsh_packet ?o ws)"
    using length_pih_words [OF assms(2), of junk h "na_data (hd (lsh_packet ?o ws))"]
    by (simp add: pih_packet_def Let_def D_def)
  have keep: "\<And>j. 8 * ?o \<le> j \<Longrightarrow> j < LENGTH('w) \<Longrightarrow> bit D j = bit (na_data (hd (lsh_packet ?o ws))) j"
    using pih_words_keep [OF assms(2)] o(1) by (simp add: D_def)
  show ?thesis
  proof (cases "?o = 0")
    case True
    then have "D = na_data w" using keep by (intro bit_word_eqI) (simp add: ws)
    then show ?thesis unfolding d using True by (simp add: ws)
  next
    case False
    have ok: "shift_ok ?o w" using False o(2) assms(3) by (simp add: shift_ok_def)
    have l: "lsh_packet ?o ws = ls_first_word ?o w (top_empty ?o w) # ls_tail ?o w vs"
      using False by (simp add: ws ls_tail_def)
    have "carries ?o ((ls_first_word ?o w (top_empty ?o w))\<lparr>na_data := D\<rparr>) w"
      using carries_first [OF ok, of "top_empty ?o w"] keep by (simp add: carries_def l)
    from shift_back [OF assms(1) [unfolded ws] ok this] show ?thesis
      unfolding d unfolding l list.sel using False by (simp add: ws)
  qed
qed

text \<open>C10. Packets on the wire: when the headers, the payload and the descriptions of any number of
  packets are there, with a base header for each, then after a number of calls of the three modules
  (\<open>append_payload\<close>, \<open>lshiftWordByOctet\<close> by the rest of the base header, \<open>prepend_ibh_header\<close>) that is bounded by
  their words all of them have left, one after the other and in their order. Of each, the last word and no
  other is marked, a receiver that collects the base header from the words gets the one that was generated
  for it, and one that drops the words of the base header and shifts the rest down gets the extended
  header with the payload, word for word as \<open>ap_emit\<close> joins them. This holds for words of 64 bits and more
  that are a whole number of bytes, and for packets whose joined words are full up to the last one, where
  the first byte counts and the bytes that do not count are zero.\<close>

theorem packets_on_the_wire:
  fixes ps :: "('w::len word, 'k::len word) txPacket list" and t :: "('w word, 'k word) prependHeader"
  assumes "64 \<le> LENGTH('w)" "LENGTH('w) = 8 * LENGTH('k)"
    and "list_all ap_ok ps" "list_all (\<lambda>p. tidy (ap_emit p)) ps" "ap_holds ps [] s" "length hs = length ps"
    and "pih_state t = GET_HEADER" "pih_headerFifo t = hs" "pih_m_axis_tx_data t = []"
  shows "\<exists>n \<le> sum_list (map (\<lambda>p. Suc (length (pk_hdr p) + length (pk_pay p))) ps).
    \<exists>l \<le> sum_list (map (\<lambda>p. length (ap_emit p) + 1) ps).
    \<exists>m \<le> sum_list (map (\<lambda>p. 2 + length (lsh_packet (bth_offset TYPE('w)) (ap_emit p))) ps).
      let offs = (96 mod LENGTH('w)) div 8;
          ws = tx_packetFifo ((append_payload ^^ n) s);
          vs = sh_output ((lshiftWordByOctet offs ^^ l) (sh_start True prev ws));
          qs = map (\<lambda>(h, p). pih_packet junk (h, lsh_packet offs (ap_emit p))) (zip hs ps)
      in pih_m_axis_tx_data ((prepend_ibh_header junk ^^ m) (t\<lparr>pih_payloadFifo := vs\<rparr>)) = concat qs
       \<and> length qs = length ps
       \<and> (\<forall>i < length ps. marked (qs ! i)
            \<and> ph_header (fold parseWord (map na_data (qs ! i)) (clear_header q)) = hs ! i
            \<and> rsh_packet offs (drop (96 div LENGTH('w)) (qs ! i)) = ap_emit (ps ! i))"
proof -
  let ?o = "bth_offset TYPE('w)"
  let ?vs = "map (lsh_packet ?o \<circ> ap_emit) ps"
  note o = bth_offset_bits [OF assms(1,2)]
  obtain n where n: "n \<le> sum_list (map (\<lambda>p. Suc (length (pk_hdr p) + length (pk_pay p))) ps)"
      "tx_packetFifo ((append_payload ^^ n) s) = concat (map ap_emit ps)"
    using app.all_packets [OF assms(5,3)] by (auto simp: ap_holds_def)
  have "sh_holds True (map ap_emit ps) [] (sh_start True prev (concat (map ap_emit ps)))"
    by (simp add: sh_holds_def sh_start_def)
  moreover have "list_all marked (map ap_emit ps)" using assms(3) by (auto simp: list_all_iff marked_ap_emit)
  ultimately obtain l where l: "l \<le> sum_list (map (\<lambda>p. length p + 1) (map ap_emit ps))"
      "sh_output ((lshiftWordByOctet ?o ^^ l) (sh_start True prev (concat (map ap_emit ps)))) = concat ?vs"
    using lsh.all_packets [of "map ap_emit ps" "[]" _ ?o] by (auto simp: sh_holds_def)
  have mk: "marked (lsh_packet ?o (ap_emit (ps ! i)))" if "i < length ps" for i
    using that assms(2,4) o(2) by (auto simp: list_all_length intro: marked_lsh_packet)
  let ?qs = "zip hs ?vs" and ?t = "t\<lparr>pih_payloadFifo := concat ?vs\<rparr>"
  have "pih_holds ?qs [] ?t" using assms(6-9) by (simp add: pih_holds_def)
  moreover have "list_all (\<lambda>p. marked (snd p) \<and> 64 \<le> LENGTH('w)) ?qs"
    using assms(1,6) mk by (simp add: list_all_length)
  ultimately obtain m where m: "m \<le> sum_list (map (\<lambda>p. 2 + length (snd p)) ?qs)"
      "pih_m_axis_tx_data ((prepend_ibh_header junk ^^ m) ?t) = concat (map (pih_packet junk) ?qs)"
    using pih.all_packets [of ?qs "[]" ?t junk] by (auto simp: pih_holds_def)
  have "map (\<lambda>p. 2 + length (snd p)) ?qs = map (\<lambda>p. 2 + length (lsh_packet ?o (ap_emit p))) ps"
    using assms(6) by (intro nth_equalityI) simp_all
  moreover have "map (pih_packet junk) ?qs = map (\<lambda>(h, p). pih_packet junk (h, lsh_packet ?o (ap_emit p))) (zip hs ps)"
    by (simp add: zip_map2 case_prod_beta)
  moreover have "rsh_packet ?o (drop (96 div LENGTH('w)) (pih_packet junk (h, lsh_packet ?o (ap_emit (ps ! i))))) = ap_emit (ps ! i)"
    if "i < length ps" for i h
    using that assms(4) pih_packet_body [OF _ assms(1,2)] by (simp add: list_all_length)
  ultimately show ?thesis using n l m assms(6) mk
    unfolding bth_offset_def [symmetric, of "TYPE('w)"]
    by (intro exI [of _ n] conjI exI [of _ l] exI [of _ m])
       (simp_all add: Let_def marked_pih_packet pih_packet_parses [OF assms(1)] comp_def)
qed

definition sample_word :: "64 word \<Rightarrow> bool \<Rightarrow> (64 word, 8 word) net_axis" where
  "sample_word d l = \<lparr>na_data = d, na_keep = - 1, na_last = l\<rparr>"

definition sample_packets :: "(64 word, 8 word) txPacket list" where
  "sample_packets =
     [\<lparr>pk_info = \<lparr>tpi_isAETH = True, tpi_hasHeader = True, tpi_hasPayload = True\<rparr>, pk_hdr = [sample_word 1 True],
       pk_pay = [sample_word 2 False, sample_word 3 True]\<rparr>,
      \<lparr>pk_info = \<lparr>tpi_isAETH = False, tpi_hasHeader = False, tpi_hasPayload = True\<rparr>, pk_hdr = [], pk_pay = [sample_word 4 True]\<rparr>]"

definition sample_append :: "(64 word, 8 word) appendPayload" where
  "sample_append = \<lparr>ap_packetInfoFifo = map pk_info sample_packets, tx_headerFifo = [sample_word 1 True],
     tx_aethPayloadFifo = [sample_word 2 False, sample_word 3 True], tx_rethPayloadFifo = [], tx_rawPayloadFifo = [sample_word 4 True],
     tx_packetFifo = [], ap_state = AP_INFO, ap_prevWord = sample_word 0 False, ap_firstPayload = True,
     ap_info = \<lparr>tpi_isAETH = False, tpi_hasHeader = False, tpi_hasPayload = False\<rparr>\<rparr>"

definition sample_prepend :: "(64 word, 8 word) prependHeader" where
  "sample_prepend = \<lparr>pih_headerFifo = [17, 4], pih_payloadFifo = [], pih_m_axis_tx_data = [], regIbvCountTx = 0,
     pih_state = GET_HEADER, pih_header = \<lparr>ph_ready = False, ph_idx = 0, ph_header = 0\<rparr>, validTx = 0\<rparr>"

lemma sample_tidy: "list_all (\<lambda>p. tidy (ap_emit p)) sample_packets"
  by (auto simp: sample_packets_def ap_emit_def ap_join_def ap_kind_def put_low_def sample_word_def tidy_def full_word_def
      clean_word_def)

theorem packets_on_the_wire_witness:
  "\<exists>n \<le> 6. \<exists>l \<le> 5. \<exists>m \<le> 9.
      let ws = tx_packetFifo ((append_payload ^^ n) sample_append);
          vs = sh_output ((lshiftWordByOctet 4 ^^ l) (sh_start True zero_word ws));
          out = pih_m_axis_tx_data ((prepend_ibh_header 0 ^^ m) (sample_prepend\<lparr>pih_payloadFifo := vs\<rparr>))
      in out = concat (map (\<lambda>(h, p). pih_packet 0 (h, lsh_packet 4 (ap_emit p))) (zip [17, 4] sample_packets))
       \<and> rsh_packet 4 (drop 1 (pih_packet 0 (17, lsh_packet 4 (ap_emit (hd sample_packets))))) = ap_emit (hd sample_packets)"
proof -
  have h: "64 \<le> LENGTH(64)" "LENGTH(64) = 8 * LENGTH(8)" "list_all ap_ok sample_packets"
    "list_all (\<lambda>p. tidy (ap_emit p)) sample_packets" "ap_holds sample_packets [] sample_append"
    "length [17, 4 :: bth] = length sample_packets" "pih_state sample_prepend = GET_HEADER"
    "pih_headerFifo sample_prepend = [17, 4]" "pih_m_axis_tx_data sample_prepend = []"
    by (simp_all only: sample_tidy)
       (simp_all add: sample_packets_def sample_append_def sample_prepend_def sample_word_def ap_ok_def ap_holds_def ap_in_def
        ap_stream_def ap_kind_def)
  have o: "bth_offset TYPE(64) = 4" "(96 mod LENGTH(64)) div 8 = 4" "96 div LENGTH(64) = 1" by (simp_all add: bth_offset_def)
  have c: "sum_list (map (\<lambda>p. Suc (length (pk_hdr p) + length (pk_pay p))) sample_packets) = 6"
    "sum_list (map (\<lambda>p. length (ap_emit p) + 1) sample_packets) = 5"
    "sum_list (map (\<lambda>p. 2 + length (lsh_packet 4 (ap_emit p))) sample_packets) = 9"
    by (simp_all add: sample_packets_def ap_emit_def ap_join_def ap_kind_def sample_word_def put_low_def top_empty_def get_range_def)
  have z: "0 < length sample_packets" "sample_packets ! 0 = hd sample_packets" by (simp_all add: sample_packets_def)
  from packets_on_the_wire [OF h, of zero_word 0 undefined, unfolded o c Let_def]
  obtain n l m where n: "n \<le> 6" and l: "l \<le> 5" and m: "m \<le> 9"
    and e: "pih_m_axis_tx_data ((prepend_ibh_header 0 ^^ m) (sample_prepend\<lparr>pih_payloadFifo :=
        sh_output ((lshiftWordByOctet 4 ^^ l) (sh_start True zero_word (tx_packetFifo ((append_payload ^^ n) sample_append))))\<rparr>))
      = concat (map (\<lambda>(h, p). pih_packet 0 (h, lsh_packet 4 (ap_emit p))) (zip [17, 4] sample_packets))"
    and r: "\<And>i. i < length sample_packets \<Longrightarrow> rsh_packet 4 (drop 1
        (map (\<lambda>(h, p). pih_packet 0 (h, lsh_packet 4 (ap_emit p))) (zip [17, 4] sample_packets) ! i)) = ap_emit (sample_packets ! i)"
    by blast
  have "rsh_packet 4 (drop 1 (pih_packet 0 (17, lsh_packet 4 (ap_emit (hd sample_packets))))) = ap_emit (hd sample_packets)"
    using r [of 0] by (simp add: sample_packets_def del: drop_Suc_Cons lsh_packet.simps)
  with n l m e show ?thesis unfolding Let_def by blast
qed

definition sample_arbiter :: "(64 word, 8 word) pkgArbiter" where
  "sample_arbiter = \<lparr>pa_pkgInfoFifo = [\<lparr>pi_type = RETH, pi_words = 2\<rparr>, \<lparr>pi_type = RAW, pi_words = 1\<rparr>],
     s_axis_mem_read_data = [sample_word 1 False, sample_word 2 True, sample_word 3 True], pa_remoteReadData = [],
     pa_localReadData = [], pa_rawPayFifo = [], pa_state = ARB_IDLE, pa_wordCounter = 0\<rparr>"

theorem payload_distributed_witness:
  "\<exists>n \<le> 5. let s' = (tx_pkg_arbiter 64 ^^ n) sample_arbiter
    in pa_remoteReadData s' = [] \<and> pa_localReadData s' = [sample_word 1 False, sample_word 2 True]
     \<and> pa_rawPayFifo s' = [sample_word 3 True] \<and> s_axis_mem_read_data s' = []"
proof -
  let ?ps = "[(\<lparr>pi_type = RETH, pi_words = 2\<rparr>, [sample_word 1 False, sample_word 2 True]), (\<lparr>pi_type = RAW, pi_words = 1\<rparr>, [sample_word 3 True])]"
  have h: "arb_holds ?ps [] sample_arbiter" "list_all (arb_ok 64) ?ps" "(64 :: nat) < 256"
    by (simp_all add: arb_holds_def sample_arbiter_def arb_io_def routed_def arb_ok_def sample_word_def)
  have c: "sum_list (map (\<lambda>p. Suc (length (snd p))) ?ps) = 5" by simp
  show ?thesis using payload_distributed [OF h, unfolded c] by (simp add: arb_emit_def routed_def Let_def)
qed

text \<open>A message without payload that has no extended header (a send, or a later part of a write, of length
  zero) is described as a packet without header and without payload, but \<open>append_payload\<close> waits for
  payload all the same: the words of the next packet of that kind are sent as its payload, and until there
  are any nothing is sent at all.\<close>

theorem empty_raw_packet_takes_next_payload:
  assumes "ap_state s = AP_INFO" "ap_packetInfoFifo s = i # q" "\<not> tpi_hasHeader i" "\<not> tpi_hasPayload i"
  shows "(tx_rawPayloadFifo s = [] \<longrightarrow> (\<forall>n. tx_packetFifo ((append_payload ^^ n) s) = tx_packetFifo s))
    \<and> (\<forall>w us. tx_rawPayloadFifo s = w # us \<longrightarrow> tx_packetFifo ((append_payload ^^ 2) s) = tx_packetFifo s @ [w])"
proof (intro conjI impI allI)
  let ?s = "append_payload s"
  have s: "?s = s\<lparr>ap_packetInfoFifo := q, ap_firstPayload := True, ap_info := i, ap_state := RAW_PAYLOAD\<rparr>"
    using assms by (simp add: append_payload_def)
  {
    fix w us assume "tx_rawPayloadFifo s = w # us"
    then show "tx_packetFifo ((append_payload ^^ 2) s) = tx_packetFifo s @ [w]"
      by (simp add: numeral_2_eq_2 s append_payload_def [of "s\<lparr>ap_packetInfoFifo := _, ap_firstPayload := _, ap_info := _, ap_state := _\<rparr>"])
  }
  fix n assume "tx_rawPayloadFifo s = []"
  then have "append_payload ?s = ?s"
    by (simp add: s append_payload_def [of "s\<lparr>ap_packetInfoFifo := _, ap_firstPayload := _, ap_info := _, ap_state := _\<rparr>"])
  then have "(append_payload ^^ k) ?s = ?s" for k by (induction k) simp_all
  then show "tx_packetFifo ((append_payload ^^ n) s) = tx_packetFifo s"
    using s by (cases n) (simp_all add: funpow_swap1)
qed

theorem empty_raw_packet_takes_next_payload_witness:
  "let s = sample_append\<lparr>ap_packetInfoFifo := \<lparr>tpi_isAETH = False, tpi_hasHeader = False, tpi_hasPayload = False\<rparr> # map pk_info sample_packets\<rparr>
   in tx_packetFifo ((append_payload ^^ 2) s) = [sample_word 4 True]"
  using empty_raw_packet_takes_next_payload [of "sample_append\<lparr>ap_packetInfoFifo :=
    \<lparr>tpi_isAETH = False, tpi_hasHeader = False, tpi_hasPayload = False\<rparr> # map pk_info sample_packets\<rparr>"
    "\<lparr>tpi_isAETH = False, tpi_hasHeader = False, tpi_hasPayload = False\<rparr>" "map pk_info sample_packets"]
  by (simp add: sample_append_def)

end
