(* ===== verification/Spec2Isabelle.thy ===== *)
theory Spec2Isabelle
  imports
    Coyote_Sched Coyote_Bitstream Coyote_Thread Driver_Errors
    Toe_State_Table Toe_Sar_Tables Toe_Timers Toe_Events Toe_Ports Toe_Sessions
    Toe_Rx_Connections Toe_Rx_Window Toe_Rx_Dropper Toe_Rx_Front Toe_Rx_Memory Toe_Rx_Payload Toe_Rx_Parse Internet_Checksum
    Toe_Tx_Proofs Toe_Tx_Join Toe_Tx_Wire Toe_App_Proofs
    Roce_Multi_Queue Roce_Retransmitter_Progress Roce_Timer Roce_Rx_Proofs Roce_Rx_Writes Roce_Tx_Numbers Roce_Tx_Wire
begin

text \<open>
  \<^bold>\<open>vFPIO\<close> gives programs virtual FPGA regions with host memory, card memory and a network stack. The
  repository has a C++ runtime (\<^verbatim>\<open>sw\<close>), a Linux driver, the SystemVerilog shell and a network stack
  written as C++ for high level synthesis (\<^verbatim>\<open>hw/services/network/hls\<close>). This development models the
  runtime, the driver, the TCP engine, the utilities for streams, and the RoCE transport.

  \<^bold>\<open>The runtime\<close> (all paths below \<^verbatim>\<open>sw\<close>). A task (\<^verbatim>\<open>include/cTask.hpp\<close>) is given to a thread
  (\<^verbatim>\<open>src/cThread.cpp\<close>), possibly through the arbiter (\<^verbatim>\<open>src/cArbiter.cpp\<close>); it works on a process
  (\<^verbatim>\<open>src/cProcess.cpp\<close>), which asks the scheduler of its region (\<^verbatim>\<open>src/cSched.cpp\<close>) for the region.

  \<^item> \<open>Coyote_Defs\<close>: enumerations, registers, structs and the configuration word of \<^verbatim>\<open>include/cDefs.hpp\<close>;
    the model of the operating system: every call that leaves the object is an entry of a trace, and the
    answers are a function of the trace so far, so that a theorem about all such functions is about all
    behaviours of the system.
  \<^item> \<open>Ibv_Structs\<close>: \<^verbatim>\<open>include/ibvStructs.hpp\<close>, \<^verbatim>\<open>src/ibvStructs.cpp\<close>: queue pairs, work requests, the
    textual identifier, the pool of ids (no id twice; a double release breaks it).
  \<^item> \<open>Coyote_Process\<close>: \<open>cProcess\<close>. Methods that can throw return the message or a value together with
    the object. The polling loops read the device; the reads are a list, and a call that has not returned
    when the list ends reports so: the theorems say after how many reads it returns. Shown: transfers are
    sent once and inside the critical section, they return, locks are released on every path, the register
    words decode to the arguments, allocations lie in their mapping, the destructor releases everything
    once; and where the code does not do this.
  \<^item> \<open>Coyote_Sched\<close>: the request order and the scheduler thread as a step relation with any number of
    clients (mutual exclusion with the operator asked for in the region, absence of deadlock, the two ways
    to break them).
  \<^item> \<open>Coyote_Bitstream\<close>: the bitstream side of \<open>cSched\<close>.
  \<^item> \<open>Coyote_Thread\<close>: worker threads and arbiter (completions are those of a sequential run, what two
    clients that poll can do, the worker ends, shortest queue).

  \<^bold>\<open>The driver\<close> (\<^verbatim>\<open>driver\<close>). One vFPGA with the data that all of them share is a record, and so are the answers of the
  kernel, as functions of what the driver did so far; a call returns a code and the record, or a fault: an access to an array that does
  not exist, a spin lock that is never released, a device that does not finish.

  \<^item> \<open>Driver_Types\<close>: \<^verbatim>\<open>coyote_dev.h\<close> and the services of the kernel.
  \<^item> \<open>Driver_Mem\<close>: \<^verbatim>\<open>fpga_mmu.c\<close>: chunks of card memory, TLB entries, buffers, mapping and unmapping of user memory.
  \<^item> \<open>Driver_Fops\<close>: \<^verbatim>\<open>fpga_fops.c\<close>, \<^verbatim>\<open>fpga_isr.c\<close> and the configuration in \<^verbatim>\<open>fpga_dev.c\<close>: process identifiers, \<open>ioctl\<close>, \<open>mmap\<close>, reconfiguration,
    the handler of page faults.
  \<^item> \<open>Driver_Pools\<close>: identifiers and card pages are not given out twice, the last one excepted; \<open>Driver_Maps\<close>: the entries of a mapping
    translate its addresses; \<open>Driver_Proofs\<close>: the records of mappings after any calls, why unmapping does nothing, the configuration word and
    \<open>parseCnfg\<close> of the runtime; \<open>Driver_Errors\<close>: the device gets the whole bitstream, and what the debug messages read; a lock that stays held,
    entries for another region.

  \<^bold>\<open>The TCP engine\<close> (below \<^verbatim>\<open>hw/services/network/hls\<close>). A module is a function that is called once per
  clock cycle, keeps its state in static variables and talks through streams. The model of a module is a
  record of its statics and streams and a function on it, one call per step; streams are lists without a
  bound, and where the code asks whether an output is full the answer is an argument. The number of
  sessions and the timer intervals are a record of parameters. The configuration is the one with window
  scaling and without delay (\<^verbatim>\<open>TCP_NODELAY\<close>).

  \<^item> \<open>Toe_Types\<close>: \<^verbatim>\<open>toe/toe_internals.hpp\<close>, parts of \<^verbatim>\<open>toe/toe.hpp\<close>.
  \<^item> \<open>Toe_State_Table\<close>: connection states with the locks of the two engines.
  \<^item> \<open>Toe_Sar_Tables\<close>: receive and transmit windows.
  \<^item> \<open>Toe_Timers\<close>: retransmission, probe and close timer.
  \<^item> \<open>Toe_Events\<close>: event engine, acknowledgement delay and the FIFOs between them.
  \<^item> \<open>Toe_Ports\<close>: listening and ephemeral ports.
  \<^item> \<open>Toe_Sessions\<close>: session lookup controller.
  \<^item> \<open>Toe_Rx\<close>, \<open>Toe_Rx_Fsm\<close>: \<^verbatim>\<open>toe/rx_engine/rx_engine.cpp\<close>, its types, the option parser, the dispatch of segments and the
    state machine \<open>rxTcpFSM\<close>, whose state is what the tables answered; \<open>Toe_Rx_Proofs\<close>: which changes of state
    it asks for; \<open>Toe_Rx_Connections\<close>: the machine and the state table together follow the diagram of RFC 793;
    \<open>Toe_Rx_Window\<close>: a buffer behind the machine delivers the byte stream, and where it does not;
    \<open>Toe_Rx_Dropper\<close>: droppers and notifications; \<open>Toe_Rx_Front\<close>: option parser, congestion window, dispatch;
    \<open>Toe_Rx_Memory\<close>: the commands and words that write a segment; \<open>Toe_Rx_Headers\<close>, \<open>Toe_Rx_Payload\<close>, \<open>Toe_Rx_Parse\<close>:
    from the IP packet to the fields of a segment and its payload.
  \<^item> \<open>Toe_Tx\<close>: the front of \<^verbatim>\<open>toe/tx_engine/tx_engine.cpp\<close>: from an event to the segment it asks for, the reads of the buffer;
    \<open>Toe_Tx_Packets\<close>: joined reads, bypass of the memory, TCP header, checksum, IP header. \<open>Toe_Tx_Proofs\<close>: the streams between the two fit together, a
    retransmission covers the unacknowledged bytes, what a lost FIN becomes; \<open>Toe_Tx_Join\<close>: joined reads are the bytes of both;
    \<open>Toe_Tx_Wire\<close>: composed with the receive engine, segments arrive as they were sent.
  \<^item> \<open>Toe_App\<close>: \<^verbatim>\<open>toe/tx_app_if\<close>, \<^verbatim>\<open>tx_app_stream_if\<close>, \<^verbatim>\<open>tx_app_interface\<close>, \<^verbatim>\<open>rx_app_if\<close>, \<^verbatim>\<open>rx_app_stream_if\<close>; \<open>Toe_App_Proofs\<close>: send requests are
    checked against the space, their data is written the way received segments are, the requests to the state table come in the pairs its
    locks need, and wrapped reads of the buffer miss the session.
  \<^item> \<open>Axi_Streams\<close>: \<^verbatim>\<open>axi_utils.hpp\<close>, \<^verbatim>\<open>axi_utils.cpp\<close>: shifts, mergers, splitter, filter, width conversion;
    \<open>Axi_Packets\<close>: what they do to packets; \<open>Axi_Bytes\<close>: packets as lists of bytes.
  \<^item> \<open>Internet_Checksum\<close>: \<^verbatim>\<open>toe/two_complement_subchecksums.hpp\<close>, \<^verbatim>\<open>ipv4/ipv4_utils.cpp\<close> and the checks in \<^verbatim>\<open>ipv4/ipv4.hpp\<close>;
    \<open>Ip_Headers\<close>: fields of the IP and TCP headers.
  \<^item> \<open>Hash_Table\<close>: the cuckoo table behind the session lookup (\<^verbatim>\<open>hash_table\<close>), a refinement of a map.

  \<^bold>\<open>The RoCE transport\<close> (\<^verbatim>\<open>hw/services/network/hls/ib_transport_protocol\<close>). Modelled the same way; the packet size,
  the number of queue pairs and the intervals are parameters, words of a stream have any width.

  \<^item> \<open>Roce_Types\<close>, \<open>Bit_Ranges\<close>, \<open>Roce_Headers\<close>: \<^verbatim>\<open>ib_transport_protocol.hpp\<close>, \<^verbatim>\<open>ib_utils.cpp\<close>, \<^verbatim>\<open>packet.hpp\<close>; a header that
    is spread over words and collected again is the same.
  \<^item> \<open>Linked_Queues\<close>: the memory of linked lists with its three processes; \<open>Roce_Multi_Queue\<close>: \<^verbatim>\<open>multi_queue/multi_queue.hpp\<close>
    is a refinement of queues; \<open>Roce_Retransmitter\<close>, \<open>Roce_Retransmitter_Progress\<close>: \<^verbatim>\<open>retransmitter/retransmitter.hpp\<close> is a
    refinement of lists of requests, when it ends and when it hangs.
  \<^item> \<open>Roce_Tables\<close>: \<^verbatim>\<open>state_table.hpp\<close>, \<^verbatim>\<open>conn_table.hpp\<close>, \<^verbatim>\<open>msn_table.hpp\<close>, \<^verbatim>\<open>read_req_table.hpp\<close>, \<^verbatim>\<open>transport_timer.hpp\<close>;
    \<open>Roce_Timer\<close>: when the timer fires.
  \<^item> \<open>Roce_Rx\<close>: headers and the check of sequence numbers (requests in order, negative acknowledgements
    bounded); \<open>Roce_Rx_Data\<close>: memory commands, payload streams, read requests; \<open>Roce_Rx_Proofs\<close>: the answer to
    a read; \<open>Roce_Rx_Writes\<close>: a message is written contiguously, what blocks the path.
  \<^item> \<open>Roce_Tx\<close>, \<open>Roce_Tx_Packets\<close>: from a local request to the network; \<open>Roce_Tx_Numbers\<close>: sequence numbers and the
    entries for the retransmitter under any interleaving; \<open>Roce_Tx_Wire\<close>: packets on the wire.

  \<^bold>\<open>Interfaces.\<close> \<open>Prelude\<close> has the locales the components share: \<open>step_invariant\<close> (an invariant that
  every call keeps holds after any history), \<open>id_pool\<close> (identifiers that are taken and given back),
  \<open>sweep\<close> (a timer that visits one slot per idle call: what a slot sees in a number of rounds);
  \<open>Coyote_Defs\<close> has \<open>lock_discipline\<close> (methods that leave no mutex locked), \<open>Table_Spec\<close> has
  \<open>assoc_table\<close> (a lookup table whose insertions may fail), \<open>Axi_Streams\<close> has \<open>packet_machine\<close> (a module that
  works packet by packet: whatever packets arrive, it emits what it emits for each, in a bounded number of
  calls). Each is interpreted on the definitions of the components that provide it.

  \<^bold>\<open>Bounds.\<close> The only loops with a bound of their own are the twelve rounds of an insertion into the hash
  table, which is the bound of the code. The polling loops of \<open>cProcess\<close> consume a list of device reads.
  Everything else is structural or a single step.

  \<^bold>\<open>Not modelled\<close>: the unused checksum module of the receive engine, the wiring of the TCP engine and of the RoCE transport, the stateless protocol handlers, the connection setup over sockets, the daemon,
  the probing and the attribute files of the driver and the SystemVerilog shell. Fairness of the operating system's scheduler and real time are
  not modelled either: a timeout is a step that may or may not happen.
\<close>

end
